(* ===== verification/Ath_Prelude.thy ===== *)
theory Ath_Prelude
  imports Main "HOL-Library.Word" "HOL-Library.Monad_Syntax"
begin

text \<open>
  Shared vocabulary of the development: machine words, byte buffers with checked accesses,
  little- and big-endian loads and stores, kernel error numbers, flag tests, fixed-size
  bitmaps, and the generic lemmas on them that the component theories use.

  An access of the C code outside an object is undefined behaviour. Every operation that
  touches memory is therefore a partial function into \<open>option\<close>: \<open>None\<close> is the
  memory fault (or \<open>BUG_ON\<close>, or \<open>skb_over_panic\<close>), \<open>Some\<close> a defined outcome.
  Error \<open>returns\<close> of the C functions are ordinary values: the negative errno as an \<open>int\<close>.
\<close>

unbundle bit_operations_syntax

type_synonym u8 = "8 word"
type_synonym u16 = "16 word"
type_synonym u32 = "32 word"
type_synonym u64 = "64 word"
type_synonym bytes = "8 word list"

named_theorems mem_simps \<open>checked loads and stores on byte buffers\<close>
named_theorems errno_simps \<open>numeric values of the kernel error numbers\<close>

subsection \<open>Kernel error numbers\<close>

definition EIO :: int where [errno_simps]: "EIO = 5"
definition ENOMEM :: int where [errno_simps]: "ENOMEM = 12"
definition ENODEV :: int where [errno_simps]: "ENODEV = 19"
definition EINVAL :: int where [errno_simps]: "EINVAL = 22"
definition ENOSPC :: int where [errno_simps]: "ENOSPC = 28"
definition EPROTO :: int where [errno_simps]: "EPROTO = 71"
definition EOPNOTSUPP :: int where [errno_simps]: "EOPNOTSUPP = 95"
definition ENOBUFS :: int where [errno_simps]: "ENOBUFS = 105"
definition ETIMEDOUT :: int where [errno_simps]: "ETIMEDOUT = 110"
definition ENOENT :: int where [errno_simps]: "ENOENT = 2"
definition ECONNRESET :: int where [errno_simps]: "ECONNRESET = 104"
definition ESHUTDOWN :: int where [errno_simps]: "ESHUTDOWN = 108"

subsection \<open>Flags\<close>

definition has_flag :: "'a::len word \<Rightarrow> 'a word \<Rightarrow> bool" where
  "has_flag x m \<longleftrightarrow> x AND m \<noteq> 0"

subsection \<open>Checked byte buffers\<close>

definition byte_at :: "bytes \<Rightarrow> nat \<Rightarrow> u8 option" where
  "byte_at bs i = (if i < length bs then Some (bs ! i) else None)"

definition read_bytes :: "bytes \<Rightarrow> nat \<Rightarrow> nat \<Rightarrow> bytes option" where
  "read_bytes bs i n = (if i + n \<le> length bs then Some (take n (drop i bs)) else None)"

definition write_bytes :: "bytes \<Rightarrow> nat \<Rightarrow> bytes \<Rightarrow> bytes option" where
  "write_bytes dst i src =
     (if i + length src \<le> length dst
      then Some (take i dst @ src @ drop (i + length src) dst) else None)"

definition le16 :: "u8 \<Rightarrow> u8 \<Rightarrow> u16" where
  "le16 a b = ucast a OR push_bit 8 (ucast b)"

definition le32 :: "u8 \<Rightarrow> u8 \<Rightarrow> u8 \<Rightarrow> u8 \<Rightarrow> u32" where
  "le32 a b c d =
     ucast a OR push_bit 8 (ucast b) OR push_bit 16 (ucast c) OR push_bit 24 (ucast d)"

definition be16 :: "u8 \<Rightarrow> u8 \<Rightarrow> u16" where
  "be16 a b = le16 b a"

definition be32 :: "u8 \<Rightarrow> u8 \<Rightarrow> u8 \<Rightarrow> u8 \<Rightarrow> u32" where
  "be32 a b c d = le32 d c b a"

definition le16_bytes :: "u16 \<Rightarrow> bytes" where
  "le16_bytes x = [ucast x, ucast (drop_bit 8 x)]"

definition le32_bytes :: "u32 \<Rightarrow> bytes" where
  "le32_bytes x = [ucast x, ucast (drop_bit 8 x), ucast (drop_bit 16 x), ucast (drop_bit 24 x)]"

definition be16_bytes :: "u16 \<Rightarrow> bytes" where
  "be16_bytes x = rev (le16_bytes x)"

definition be32_bytes :: "u32 \<Rightarrow> bytes" where
  "be32_bytes x = rev (le32_bytes x)"

definition get_le16 :: "bytes \<Rightarrow> nat \<Rightarrow> u16 option" where
  "get_le16 bs i = do { a \<leftarrow> byte_at bs i; b \<leftarrow> byte_at bs (i + 1); Some (le16 a b) }"

definition get_be16 :: "bytes \<Rightarrow> nat \<Rightarrow> u16 option" where
  "get_be16 bs i = do { a \<leftarrow> byte_at bs i; b \<leftarrow> byte_at bs (i + 1); Some (be16 a b) }"

definition get_le32 :: "bytes \<Rightarrow> nat \<Rightarrow> u32 option" where
  "get_le32 bs i = do {
     a \<leftarrow> byte_at bs i; b \<leftarrow> byte_at bs (i + 1);
     c \<leftarrow> byte_at bs (i + 2); d \<leftarrow> byte_at bs (i + 3); Some (le32 a b c d) }"

definition get_be32 :: "bytes \<Rightarrow> nat \<Rightarrow> u32 option" where
  "get_be32 bs i = do {
     a \<leftarrow> byte_at bs i; b \<leftarrow> byte_at bs (i + 1);
     c \<leftarrow> byte_at bs (i + 2); d \<leftarrow> byte_at bs (i + 3); Some (be32 a b c d) }"

subsection \<open>Bitmaps\<close>

text \<open>
  \<open>DECLARE_BITMAP(name, n)\<close> is a list of \<open>n\<close> bits. A bit number past the end
  addresses memory outside the array.
\<close>

type_synonym bitmap = "bool list"

definition test_bit :: "nat \<Rightarrow> bitmap \<Rightarrow> bool option" where
  "test_bit i m = (if i < length m then Some (m ! i) else None)"

definition set_bit :: "nat \<Rightarrow> bitmap \<Rightarrow> bitmap option" where
  "set_bit i m = (if i < length m then Some (m[i := True]) else None)"

definition clear_bit :: "nat \<Rightarrow> bitmap \<Rightarrow> bitmap option" where
  "clear_bit i m = (if i < length m then Some (m[i := False]) else None)"

fun find_first_zero_bit :: "bitmap \<Rightarrow> nat" where
  "find_first_zero_bit [] = 0"
| "find_first_zero_bit (b # m) = (if b then Suc (find_first_zero_bit m) else 0)"

subsection \<open>Lemmas: flags, loads and stores\<close>

lemma has_flag_0 [simp]: "\<not> has_flag 0 m"
  by (simp add: has_flag_def)

lemma byte_at_in [mem_simps]: "i < length bs \<Longrightarrow> byte_at bs i = Some (bs ! i)"
  by (simp add: byte_at_def)

lemma byte_at_eq_None [simp]: "byte_at bs i = None \<longleftrightarrow> length bs \<le> i"
  by (simp add: byte_at_def)

lemma byte_at_0 [simp]: "byte_at (x # xs) 0 = Some x"
  by (simp add: byte_at_def)

lemma byte_at_Suc [simp]: "byte_at (x # xs) (Suc i) = byte_at xs i"
  by (simp add: byte_at_def)

lemma byte_at_numeral [simp]: "byte_at (x # xs) (numeral n) = byte_at xs (pred_numeral n)"
  by (simp add: byte_at_def)

lemma byte_at_1 [simp]: "byte_at (x # xs) 1 = byte_at xs 0"
  by (simp add: byte_at_def)

lemma byte_at_append1: "i < length xs \<Longrightarrow> byte_at (xs @ ys) i = byte_at xs i"
  by (simp add: byte_at_def nth_append)

lemma byte_at_append2: "byte_at (xs @ ys) (length xs + i) = byte_at ys i"
  by (simp add: byte_at_def nth_append)

lemma byte_at_drop: "byte_at (drop n xs) i = byte_at xs (n + i)"
  by (cases "n \<le> length xs") (auto simp: byte_at_def)

lemma get_le16_drop: "get_le16 (drop n xs) i = get_le16 xs (n + i)"
  by (simp add: get_le16_def byte_at_drop add.assoc)

lemma get_be16_drop: "get_be16 (drop n xs) i = get_be16 xs (n + i)"
  by (simp add: get_be16_def byte_at_drop add.assoc)

lemma get_le16_append2: "get_le16 (xs @ ys) (length xs + i) = get_le16 ys i"
  using byte_at_append2 [of xs ys i] byte_at_append2 [of xs ys "i + 1"]
  by (simp add: get_le16_def)

lemma get_le16_eq_None: "get_le16 bs i = None \<longleftrightarrow> length bs \<le> i + 1"
  by (auto simp: get_le16_def byte_at_def split: Option.bind_splits if_splits)

lemma get_be16_eq_None: "get_be16 bs i = None \<longleftrightarrow> length bs \<le> i + 1"
  by (auto simp: get_be16_def byte_at_def split: Option.bind_splits if_splits)

lemma write_bytes_length:
  "write_bytes dst i src = Some dst' \<Longrightarrow> length dst' = length dst"
  by (auto simp: write_bytes_def split: if_splits)

lemma write_bytes_in [mem_simps]:
  "i + length src \<le> length dst \<Longrightarrow>
     write_bytes dst i src = Some (take i dst @ src @ drop (i + length src) dst)"
  by (simp add: write_bytes_def)

lemma write_bytes_eq_None: "write_bytes dst i src = None \<longleftrightarrow> length dst < i + length src"
  by (auto simp: write_bytes_def)

lemma read_bytes_length: "read_bytes bs i n = Some r \<Longrightarrow> length r = n"
  by (auto simp: read_bytes_def split: if_splits)

lemma read_write_bytes:
  "write_bytes dst i src = Some dst' \<Longrightarrow> read_bytes dst' i (length src) = Some src"
  by (auto simp: write_bytes_def read_bytes_def split: if_splits)

subsection \<open>Lemmas: byte order\<close>

lemma le16_roundtrip: "le16 (ucast x) (ucast (drop_bit 8 x)) = x"
  by (rule bit_eqI) (auto simp: le16_def bit_simps)

lemma le32_roundtrip:
  "le32 (ucast x) (ucast (drop_bit 8 x)) (ucast (drop_bit 16 x)) (ucast (drop_bit 24 x)) = x"
proof (rule bit_eqI)
  fix n
  assume "possible_bit TYPE(32 word) n"
  then have "n < 32" by simp
  then consider "n < 8" | "8 \<le> n \<and> n < 16" | "16 \<le> n \<and> n < 24" | "24 \<le> n \<and> n < 32"
    by linarith
  then show "bit (le32 (ucast x) (ucast (drop_bit 8 x)) (ucast (drop_bit 16 x))
               (ucast (drop_bit 24 x))) n = bit x n"
    by cases (auto simp: le32_def bit_simps)
qed

lemma le16_bytes_le16: "le16_bytes (le16 a b) = [a, b]"
proof -
  have "ucast (le16 a b) = a"
    by (rule bit_word_eqI) (auto simp: le16_def bit_simps)
  moreover have "ucast (drop_bit 8 (le16 a b)) = b"
    by (rule bit_word_eqI) (auto simp: le16_def bit_simps dest: bit_imp_le_length)
  ultimately show ?thesis by (simp add: le16_bytes_def)
qed

lemma le32_bytes_le32: "le32_bytes (le32 a b c d) = [a, b, c, d]"
proof -
  have "ucast (le32 a b c d) = a"
    by (rule bit_word_eqI) (auto simp: le32_def bit_simps)
  moreover have "ucast (drop_bit 8 (le32 a b c d)) = b" "ucast (drop_bit 16 (le32 a b c d)) = c"
     "ucast (drop_bit 24 (le32 a b c d)) = d"
    by (rule bit_word_eqI; auto simp: le32_def bit_simps dest: bit_imp_le_length)+
  ultimately show ?thesis by (simp add: le32_bytes_def)
qed


lemma has_flag_bit:
  assumes "\<And>i. bit m i \<longleftrightarrow> i = n" 
  shows "has_flag (x :: 'a::len word) m \<longleftrightarrow> bit x n"
  using assms by (auto simp: has_flag_def bit_eq_iff [of "x AND m"] bit_simps dest: bit_imp_le_length)

lemma bit_u32_le: "bit (x :: u32) i \<Longrightarrow> i < 32"
  using bit_imp_le_length by fastforce

lemma get_le16_bytes [simp]: "get_le16 (le16_bytes x @ ys) 0 = Some x"
  by (simp add: get_le16_def le16_bytes_def le16_roundtrip)

lemma get_be16_bytes [simp]: "get_be16 (be16_bytes x @ ys) 0 = Some x"
  by (simp add: get_be16_def be16_bytes_def le16_bytes_def be16_def le16_roundtrip)

lemma get_le32_bytes [simp]: "get_le32 (le32_bytes x @ ys) 0 = Some x"
  by (simp add: get_le32_def le32_bytes_def le32_roundtrip)

lemma get_be32_bytes [simp]: "get_be32 (be32_bytes x @ ys) 0 = Some x"
  by (simp add: get_be32_def be32_bytes_def le32_bytes_def be32_def le32_roundtrip)

lemma length_le16_bytes [simp]: "length (le16_bytes x) = 2"
  by (simp add: le16_bytes_def)

lemma length_be16_bytes [simp]: "length (be16_bytes x) = 2"
  by (simp add: be16_bytes_def)

lemma length_le32_bytes [simp]: "length (le32_bytes x) = 4"
  by (simp add: le32_bytes_def)

lemma length_be32_bytes [simp]: "length (be32_bytes x) = 4"
  by (simp add: be32_bytes_def)

subsection \<open>Lemmas: bitmaps\<close>

lemma test_bit_in: "i < length m \<Longrightarrow> test_bit i m = Some (m ! i)"
  by (simp add: test_bit_def)

lemma set_bit_SomeD: "set_bit i m = Some m' \<Longrightarrow> m' = m[i := True] \<and> i < length m"
  by (auto simp: set_bit_def split: if_splits)

lemma clear_bit_SomeD: "clear_bit i m = Some m' \<Longrightarrow> m' = m[i := False] \<and> i < length m"
  by (auto simp: clear_bit_def split: if_splits)

lemma find_first_zero_bit_le: "find_first_zero_bit m \<le> length m"
  by (induction m) auto

lemma find_first_zero_bit_zero:
  "find_first_zero_bit m < length m \<Longrightarrow> \<not> m ! find_first_zero_bit m"
  by (induction m) (auto split: if_splits)

lemma find_first_zero_bit_before: "i < find_first_zero_bit m \<Longrightarrow> m ! i"
proof (induction m arbitrary: i)
  case Nil
  then show ?case by simp
next
  case (Cons b m)
  then show ?case by (cases i) (auto split: if_splits)
qed

lemma find_first_zero_bit_full:
  "find_first_zero_bit m = length m \<longleftrightarrow> (\<forall>i < length m. m ! i)"
proof
  assume "find_first_zero_bit m = length m"
  then show "\<forall>i < length m. m ! i" using find_first_zero_bit_before [of _ m] by simp
next
  assume all: "\<forall>i < length m. m ! i"
  show "find_first_zero_bit m = length m"
    using all find_first_zero_bit_zero [of m] find_first_zero_bit_le [of m]
    by (meson le_neq_implies_less)
qed

end
