(* ===== verification/Skb.thy ===== *)
theory Skb
  imports Ath_Prelude
begin

text \<open>
  Socket buffers. A \<open>struct sk_buff\<close> is the memory block between \<open>head\<close> and
  \<open>end\<close> (\<open>skb_buf\<close>), the offsets of \<open>data\<close> and \<open>tail\<close> in it, and the
  control block: the driver's \<open>struct ath9k_htc_tx_ctl\<close> (\<open>HTC_SKB_CB\<close>) and the part
  of \<open>struct ieee80211_tx_info\<close> the driver reads and writes.

  The kernel's allocator is not part of the sources. Functions that allocate take the
  allocator as an argument, a function from the requested size to the buffer or to
  \<open>None\<close>; \<open>alloc_skb_spec\<close> is what the kernel documents about the result. The bytes
  of a fresh buffer are whatever the allocator hands out.
\<close>

record ath9k_htc_tx_ctl =
  ctl_type :: u8
  ctl_epid :: u8
  ctl_txok :: bool
  ctl_sta_idx :: u8
  ctl_timestamp :: u64

record tx_info =
  info_flags :: u32
  info_vif :: "nat option"
  info_hw_key :: "(u32 \<times> u8) option"
  info_rate_idx :: int
  info_rate_count :: u8
  info_rate_flags :: u8

record sk_buff =
  skb_buf :: bytes
  skb_data :: nat
  skb_tail :: nat
  skb_cb :: ath9k_htc_tx_ctl
  skb_info :: tx_info
  skb_protocol :: u16
  skb_queue_mapping :: u16

subsection \<open>The kernel operations the driver uses\<close>

definition skb_len :: "sk_buff \<Rightarrow> nat" where
  "skb_len s = skb_tail s - skb_data s"

definition skb_mem :: "sk_buff \<Rightarrow> bytes" where
  \<comment> \<open>what a pointer derived from \<open>skb->data\<close> may address\<close>
  "skb_mem s = drop (skb_data s) (skb_buf s)"

definition skb_bytes :: "sk_buff \<Rightarrow> bytes" where
  "skb_bytes s = take (skb_len s) (skb_mem s)"

definition skb_reserve :: "nat \<Rightarrow> sk_buff \<Rightarrow> sk_buff" where
  "skb_reserve n s = s\<lparr>skb_data := skb_data s + n, skb_tail := skb_tail s + n\<rparr>"

definition skb_put :: "nat \<Rightarrow> sk_buff \<Rightarrow> sk_buff option" where
  "skb_put n s = (if skb_tail s + n \<le> length (skb_buf s)
                  then Some (s\<lparr>skb_tail := skb_tail s + n\<rparr>) else None)"

definition skb_push :: "nat \<Rightarrow> sk_buff \<Rightarrow> sk_buff option" where
  "skb_push n s = (if n \<le> skb_data s
                   then Some (s\<lparr>skb_data := skb_data s - n\<rparr>) else None)"

definition skb_pull :: "nat \<Rightarrow> sk_buff \<Rightarrow> sk_buff" where
  "skb_pull n s = (if n \<le> skb_len s then s\<lparr>skb_data := skb_data s + n\<rparr> else s)"

definition skb_trim :: "nat \<Rightarrow> sk_buff \<Rightarrow> sk_buff" where
  "skb_trim n s = (if n < skb_len s then s\<lparr>skb_tail := skb_data s + n\<rparr> else s)"

definition skb_store :: "nat \<Rightarrow> bytes \<Rightarrow> sk_buff \<Rightarrow> sk_buff option" where
  \<comment> \<open>a store of bytes at \<open>skb->data + i\<close>\<close>
  "skb_store i bs s = do {
     buf \<leftarrow> write_bytes (skb_buf s) (skb_data s + i) bs;
     Some (s\<lparr>skb_buf := buf\<rparr>) }"

definition skb_put_bytes :: "bytes \<Rightarrow> sk_buff \<Rightarrow> sk_buff option" where
  \<comment> \<open>\<open>p = skb_put(skb, n)\<close> followed by filling the \<open>n\<close> bytes at \<open>p\<close>\<close>
  "skb_put_bytes bs s = do {
     t \<leftarrow> skb_put (length bs) s;
     skb_store (skb_len s) bs t }"

definition skb_push_bytes :: "bytes \<Rightarrow> sk_buff \<Rightarrow> sk_buff option" where
  \<comment> \<open>\<open>p = skb_push(skb, n)\<close> followed by filling the \<open>n\<close> bytes at \<open>p\<close>\<close>
  "skb_push_bytes bs s = do {
     t \<leftarrow> skb_push (length bs) s;
     skb_store 0 bs t }"

definition wf_skb :: "sk_buff \<Rightarrow> bool" where
  "wf_skb s \<longleftrightarrow> skb_data s \<le> skb_tail s \<and> skb_tail s \<le> length (skb_buf s)"

definition alloc_skb_spec :: "(nat \<Rightarrow> sk_buff option) \<Rightarrow> bool" where
  "alloc_skb_spec alloc \<longleftrightarrow>
     (\<forall>n s. alloc n = Some s \<longrightarrow> n \<le> length (skb_buf s) \<and> skb_data s = 0 \<and> skb_tail s = 0)"

definition zero_ctl :: ath9k_htc_tx_ctl where
  "zero_ctl = \<lparr>ctl_type = 0, ctl_epid = 0, ctl_txok = False, ctl_sta_idx = 0, ctl_timestamp = 0\<rparr>"

definition zero_info :: tx_info where
  "zero_info = \<lparr>info_flags = 0, info_vif = None, info_hw_key = None,
                info_rate_idx = 0, info_rate_count = 0, info_rate_flags = 0\<rparr>"

definition fresh_skb :: "bytes \<Rightarrow> sk_buff" where
  "fresh_skb junk = \<lparr>skb_buf = junk, skb_data = 0, skb_tail = 0, skb_cb = zero_ctl,
     skb_info = zero_info, skb_protocol = 0, skb_queue_mapping = 0\<rparr>"

definition skb_of_bytes :: "bytes \<Rightarrow> sk_buff" where
  \<comment> \<open>a buffer whose valid bytes are the given ones, with no head- or tailroom\<close>
  "skb_of_bytes bs = (fresh_skb bs)\<lparr>skb_tail := length bs\<rparr>"

subsection \<open>Lengths and well-formedness\<close>

lemma skb_bytes_length [simp]: "wf_skb s \<Longrightarrow> length (skb_bytes s) = skb_len s"
  by (auto simp: wf_skb_def skb_bytes_def skb_len_def skb_mem_def)

lemma skb_bytes_of_bytes [simp]: "skb_bytes (skb_of_bytes bs) = bs"
  by (simp add: skb_of_bytes_def fresh_skb_def skb_bytes_def skb_len_def skb_mem_def)

lemma skb_mem_of_bytes [simp]: "skb_mem (skb_of_bytes bs) = bs"
  by (simp add: skb_of_bytes_def fresh_skb_def skb_mem_def)

lemma wf_skb_of_bytes [simp]: "wf_skb (skb_of_bytes bs)"
  by (simp add: skb_of_bytes_def fresh_skb_def wf_skb_def)

lemma skb_len_of_bytes [simp]: "skb_len (skb_of_bytes bs) = length bs"
  by (simp add: skb_of_bytes_def fresh_skb_def skb_len_def)

lemma skb_mem_eq_append:
  assumes "wf_skb s"
  obtains rest where "skb_mem s = skb_bytes s @ rest"
  by (metis append_take_drop_id skb_bytes_def)

lemma skb_mem_byte_at:
  assumes "wf_skb s" and "i < skb_len s"
  shows "byte_at (skb_mem s) i = byte_at (skb_bytes s) i"
  using assms by (simp add: skb_bytes_def byte_at_def)

lemma wf_skb_pull: "wf_skb s \<Longrightarrow> wf_skb (skb_pull n s)"
  by (auto simp: wf_skb_def skb_pull_def skb_len_def)

lemma wf_skb_trim: "wf_skb s \<Longrightarrow> wf_skb (skb_trim n s)"
  by (auto simp: wf_skb_def skb_trim_def skb_len_def)

lemma skb_len_pull: "n \<le> skb_len s \<Longrightarrow> skb_len (skb_pull n s) = skb_len s - n"
  by (simp add: skb_pull_def skb_len_def)

lemma skb_bytes_pull:
  "n \<le> skb_len s \<Longrightarrow> skb_bytes (skb_pull n s) = drop n (skb_bytes s)"
  by (simp add: skb_bytes_def skb_pull_def skb_len_def skb_mem_def drop_take add.commute)

lemma skb_bytes_trim:
  "wf_skb s \<Longrightarrow> skb_bytes (skb_trim n s) = take n (skb_bytes s)"
  by (auto simp: skb_bytes_def skb_trim_def skb_len_def skb_mem_def wf_skb_def)

subsection \<open>Filling buffers\<close>

lemma skb_store_0_bytes:
  assumes "wf_skb s" and "length bs \<le> skb_len s" and "skb_store 0 bs s = Some t"
  shows "skb_bytes t = bs @ drop (length bs) (skb_bytes s)"
proof -
  have t: "t = s\<lparr>skb_buf := take (skb_data s) (skb_buf s) @ bs
                 @ drop (skb_data s + length bs) (skb_buf s)\<rparr>"
    using assms by (auto simp: skb_store_def write_bytes_def split: if_splits)
  have len: "skb_data s \<le> length (skb_buf s)" using assms(1) by (simp add: wf_skb_def)
  show ?thesis
    using assms(2) len
    by (simp add: t skb_bytes_def skb_len_def skb_mem_def drop_take add.commute)
qed

lemma skb_store_0_enough:
  assumes "wf_skb s" and "length bs \<le> skb_len s"
  obtains t where "skb_store 0 bs s = Some t"
proof -
  have "skb_data s + length bs \<le> length (skb_buf s)"
    using assms by (auto simp: wf_skb_def skb_len_def)
  then show thesis using that by (simp add: skb_store_def write_bytes_in)
qed

lemma skb_push_bytes_SomeD:
  assumes "wf_skb s" and "skb_push_bytes bs s = Some t"
  shows "skb_bytes t = bs @ skb_bytes s" and "wf_skb t"
    and "skb_data t + length bs = skb_data s" and "skb_tail t = skb_tail s"
proof -
  from assms(2) obtain u where push: "skb_push (length bs) s = Some u"
    and store: "skb_store 0 bs u = Some t"
    by (auto simp: skb_push_bytes_def split: Option.bind_splits)
  from push have u: "u = s\<lparr>skb_data := skb_data s - length bs\<rparr>" and le: "length bs \<le> skb_data s"
    by (auto simp: skb_push_def split: if_splits)
  have wfu: "wf_skb u" using assms(1) by (auto simp: u wf_skb_def)
  have lenu: "length bs \<le> skb_len u"
    using assms(1) le by (auto simp: u skb_len_def wf_skb_def)
  have "drop (length bs) (skb_bytes u) = skb_bytes s"
    using assms(1) le
    by (simp add: u skb_bytes_def skb_len_def skb_mem_def wf_skb_def drop_take)
  with skb_store_0_bytes [OF wfu lenu store] show "skb_bytes t = bs @ skb_bytes s" by simp
  have t: "skb_data t = skb_data u" "skb_tail t = skb_tail u" "length (skb_buf t) = length (skb_buf u)"
    using store by (auto simp: skb_store_def dest: write_bytes_length split: Option.bind_splits)
  with wfu show "wf_skb t" by (simp add: wf_skb_def)
  from t u le show "skb_data t + length bs = skb_data s" "skb_tail t = skb_tail s" by auto
qed

lemma skb_push_bytes_enough:
  "wf_skb s \<Longrightarrow> length bs \<le> skb_data s \<Longrightarrow> \<exists>t. skb_push_bytes bs s = Some t"
  by (auto simp: skb_push_bytes_def skb_push_def skb_store_def write_bytes_def wf_skb_def)

lemma skb_put_bytes_SomeD:
  assumes "wf_skb s" and "skb_put_bytes bs s = Some t"
  shows "skb_bytes t = skb_bytes s @ bs" and "wf_skb t"
    and "skb_data t = skb_data s" and "skb_tail t = skb_tail s + length bs"
proof -
  have t: "t = s\<lparr>skb_tail := skb_tail s + length bs,
                 skb_buf := take (skb_tail s) (skb_buf s) @ bs
                            @ drop (skb_tail s + length bs) (skb_buf s)\<rparr>"
    and le: "skb_tail s + length bs \<le> length (skb_buf s)"
    using assms
    by (auto simp: skb_put_bytes_def skb_put_def skb_store_def write_bytes_def skb_len_def
        wf_skb_def split: if_splits Option.bind_splits)
  show "skb_bytes t = skb_bytes s @ bs"
    using assms(1) le
    by (simp add: t skb_bytes_def skb_len_def skb_mem_def wf_skb_def drop_take)
  show "wf_skb t" using assms(1) le by (simp add: t wf_skb_def)
  show "skb_data t = skb_data s" "skb_tail t = skb_tail s + length bs" by (simp_all add: t)
qed

lemma skb_put_bytes_enough:
  "wf_skb s \<Longrightarrow> skb_tail s + length bs \<le> length (skb_buf s) \<Longrightarrow> \<exists>t. skb_put_bytes bs s = Some t"
  by (auto simp: skb_put_bytes_def skb_put_def skb_store_def write_bytes_def wf_skb_def skb_len_def)

text \<open>A message built in a fresh buffer with reserved headroom.\<close>

lemma skb_build_message:
  assumes "alloc_skb_spec alloc" and "alloc (hd_len + n) = Some s" and "length bs = n"
  obtains t where "skb_put_bytes bs (skb_reserve hd_len s) = Some t"
    and "skb_bytes t = bs" and "wf_skb t" and "skb_data t = hd_len" and "skb_len t = n"
proof -
  let ?r = "skb_reserve hd_len s"
  have s: "hd_len + n \<le> length (skb_buf s)" "skb_data s = 0" "skb_tail s = 0"
    using assms(1,2) by (auto simp: alloc_skb_spec_def)
  have wf: "wf_skb ?r" using s by (simp add: wf_skb_def skb_reserve_def)
  have bytes: "skb_bytes ?r = []" by (simp add: skb_bytes_def skb_len_def skb_reserve_def s)
  obtain t where t: "skb_put_bytes bs ?r = Some t"
    using skb_put_bytes_enough [OF wf, of bs] s assms(3) by (auto simp: skb_reserve_def)
  note facts = skb_put_bytes_SomeD [OF wf t]
  show thesis
  proof (rule that [OF t])
    show "skb_bytes t = bs" using facts(1) bytes by simp
    show "wf_skb t" by (rule facts(2))
    show "skb_data t = hd_len" using facts(3) s by (simp add: skb_reserve_def)
    show "skb_len t = n" using facts(3,4) s assms(3) by (simp add: skb_reserve_def skb_len_def)
  qed
qed

end
