(* ===== verification/Htc_Hst.thy ===== *)
theory Htc_Hst
  imports Skb
begin

text \<open>
  The host side of the HTC protocol (\<open>ath9k/htc_hst.c\<close>, \<open>htc_hst.h\<close>): endpoints and
  the services connected to them, the control messages on endpoint 0, frame headers, and
  the dispatch of received frames and of transmit completions to the endpoint callbacks.

  State is threaded explicitly. \<open>htc_target\<close> is \<open>struct htc_target\<close>; the device below it
  is an arbitrary state \<open>'h\<close> with the operations of \<open>struct ath9k_htc_hif\<close>. A handler
  returns the calls it makes to the layers above, in order: buffers it frees
  (\<open>Kfree_skb\<close>) and endpoint callbacks (\<open>Ep_rx\<close>, \<open>Ep_tx\<close>). Function pointers are the
  names of the driver functions they can hold. \<open>wait_for_completion_timeout\<close> lets the
  interrupt side run: the events that arrive during the wait are an argument.
\<close>

section \<open>Data\<close>

datatype ep_tx_fn = Ath9k_wmi_ctrl_tx | Ath9k_htc_txep | Ath9k_htc_beaconep
datatype ep_rx_fn = Ath9k_wmi_ctrl_rx | Ath9k_htc_rxep

record htc_ep_callbacks =
  cb_tx :: "ep_tx_fn option"
  cb_rx :: "ep_rx_fn option"

record htc_endpoint =
  service_id :: u16
  ep_callbacks :: htc_ep_callbacks
  max_txqdepth :: u32
  max_msglen :: int
  ul_pipeid :: u8
  dl_pipeid :: u8

record htc_target =
  endpoint :: "htc_endpoint list"
  target_wait :: nat
  cmd_wait :: nat
  conn_rsp_epid :: int
  credits :: u16
  credit_size :: u16
  htc_flags :: u8
  tgt_ready :: int

record htc_service_connreq =
  req_service_id :: u16
  req_con_flags :: u16
  req_max_send_qdepth :: u32
  req_ep_callbacks :: htc_ep_callbacks

datatype htc_upcall =
    Kfree_skb sk_buff
  | Ep_rx ep_rx_fn sk_buff nat
  | Ep_tx ep_tx_fn sk_buff nat bool

record 'h ath9k_htc_hif =
  control_dl_pipe :: u8
  control_ul_pipe :: u8
  hif_start :: "'h \<Rightarrow> 'h"
  hif_stop :: "htc_target \<Rightarrow> 'h \<Rightarrow> (htc_target \<times> 'h \<times> htc_upcall list) option"
  hif_sta_drain :: "htc_target \<Rightarrow> 'h \<Rightarrow> u8 \<Rightarrow> (htc_target \<times> 'h \<times> htc_upcall list) option"
  hif_send :: "htc_target \<Rightarrow> 'h \<Rightarrow> u8 \<Rightarrow> sk_buff \<Rightarrow>
                 (int \<times> htc_target \<times> 'h \<times> htc_upcall list) option"

abbreviation (input) ENDPOINT0 :: nat where "ENDPOINT0 \<equiv> 0"
abbreviation (input) ENDPOINT_MAX :: nat where "ENDPOINT_MAX \<equiv> 22"
abbreviation (input) ENDPOINT_UNUSED :: int where "ENDPOINT_UNUSED \<equiv> -1"

definition HTC_FLAGS_RECV_TRAILER :: u8 where "HTC_FLAGS_RECV_TRAILER = 2"
definition HTC_OP_START_WAIT :: u8 where "HTC_OP_START_WAIT = 1"
definition HTC_OP_CONFIG_PIPE_CREDITS :: u8 where "HTC_OP_CONFIG_PIPE_CREDITS = 2"
definition HTC_MAX_CONTROL_MESSAGE_LENGTH :: int where "HTC_MAX_CONTROL_MESSAGE_LENGTH = 255"
definition HTC_SERVICE_SUCCESS :: u8 where "HTC_SERVICE_SUCCESS = 0"

definition HTC_MSG_READY_ID :: u16 where "HTC_MSG_READY_ID = 1"
definition HTC_MSG_CONNECT_SERVICE_ID :: u16 where "HTC_MSG_CONNECT_SERVICE_ID = 2"
definition HTC_MSG_CONNECT_SERVICE_RESPONSE_ID :: u16 where
  "HTC_MSG_CONNECT_SERVICE_RESPONSE_ID = 3"
definition HTC_MSG_SETUP_COMPLETE_ID :: u16 where "HTC_MSG_SETUP_COMPLETE_ID = 4"
definition HTC_MSG_CONFIG_PIPE_ID :: u16 where "HTC_MSG_CONFIG_PIPE_ID = 5"

lemmas htc_msg_ids =
  HTC_MSG_READY_ID_def HTC_MSG_CONNECT_SERVICE_ID_def HTC_MSG_CONNECT_SERVICE_RESPONSE_ID_def
  HTC_MSG_SETUP_COMPLETE_ID_def HTC_MSG_CONFIG_PIPE_ID_def

definition MAKE_SERVICE_ID :: "u16 \<Rightarrow> u16 \<Rightarrow> u16" where
  "MAKE_SERVICE_ID grp idx = push_bit 8 grp OR idx"

definition HTC_CTRL_RSVD_SVC :: u16 where "HTC_CTRL_RSVD_SVC = MAKE_SERVICE_ID 0 1"
definition WMI_CONTROL_SVC :: u16 where "WMI_CONTROL_SVC = MAKE_SERVICE_ID 1 0"
definition WMI_BEACON_SVC :: u16 where "WMI_BEACON_SVC = MAKE_SERVICE_ID 1 1"
definition WMI_CAB_SVC :: u16 where "WMI_CAB_SVC = MAKE_SERVICE_ID 1 2"
definition WMI_UAPSD_SVC :: u16 where "WMI_UAPSD_SVC = MAKE_SERVICE_ID 1 3"
definition WMI_MGMT_SVC :: u16 where "WMI_MGMT_SVC = MAKE_SERVICE_ID 1 4"
definition WMI_DATA_VO_SVC :: u16 where "WMI_DATA_VO_SVC = MAKE_SERVICE_ID 1 5"
definition WMI_DATA_VI_SVC :: u16 where "WMI_DATA_VI_SVC = MAKE_SERVICE_ID 1 6"
definition WMI_DATA_BE_SVC :: u16 where "WMI_DATA_BE_SVC = MAKE_SERVICE_ID 1 7"
definition WMI_DATA_BK_SVC :: u16 where "WMI_DATA_BK_SVC = MAKE_SERVICE_ID 1 8"

lemmas service_ids =
  HTC_CTRL_RSVD_SVC_def WMI_CONTROL_SVC_def WMI_BEACON_SVC_def WMI_CAB_SVC_def WMI_UAPSD_SVC_def
  WMI_MGMT_SVC_def WMI_DATA_VO_SVC_def WMI_DATA_VI_SVC_def WMI_DATA_BE_SVC_def
  WMI_DATA_BK_SVC_def MAKE_SERVICE_ID_def

definition USB_WLAN_TX_PIPE :: u8 where "USB_WLAN_TX_PIPE = 1"
definition USB_WLAN_RX_PIPE :: u8 where "USB_WLAN_RX_PIPE = 2"
definition USB_REG_IN_PIPE :: u8 where "USB_REG_IN_PIPE = 3"
definition USB_REG_OUT_PIPE :: u8 where "USB_REG_OUT_PIPE = 4"

lemmas usb_pipes =
  USB_WLAN_TX_PIPE_def USB_WLAN_RX_PIPE_def USB_REG_IN_PIPE_def USB_REG_OUT_PIPE_def

definition zero_endpoint :: htc_endpoint where
  "zero_endpoint = \<lparr>service_id = 0, ep_callbacks = \<lparr>cb_tx = None, cb_rx = None\<rparr>,
     max_txqdepth = 0, max_msglen = 0, ul_pipeid = 0, dl_pipeid = 0\<rparr>"

section \<open>Operations\<close>

definition wait_for_completion_timeout :: "nat \<Rightarrow> bool \<times> nat" where
  \<comment> \<open>\<open>time_left\<close> is nonzero exactly if a completion was signalled; it is consumed\<close>
  "wait_for_completion_timeout n = (case n of 0 \<Rightarrow> (False, 0) | Suc m \<Rightarrow> (True, m))"

definition htc_issue_send ::
  "'h ath9k_htc_hif \<Rightarrow> htc_target \<Rightarrow> 'h \<Rightarrow> sk_buff \<Rightarrow> u16 \<Rightarrow> u8 \<Rightarrow> nat \<Rightarrow>
     (int \<times> sk_buff \<times> htc_target \<times> 'h \<times> htc_upcall list) option" where
  "htc_issue_send hif t h skb len flags epid = do {
     skb \<leftarrow> skb_push 8 skb;
     skb \<leftarrow> skb_store 0 ([word_of_nat epid, flags] @ be16_bytes len) skb;
     if epid < length (endpoint t) then do {
       (status, t, h, ups) \<leftarrow> hif_send hif t h (ul_pipeid (endpoint t ! epid)) skb;
       Some (status, skb, t, h, ups) }
     else None }"

fun avail_ep_from :: "nat \<Rightarrow> htc_endpoint list \<Rightarrow> nat option" where
  "avail_ep_from 0 eps = None"
| "avail_ep_from (Suc n) eps =
     (if service_id (eps ! Suc n) = 0 then Some (Suc n) else avail_ep_from n eps)"

definition get_next_avail_ep :: "htc_endpoint list \<Rightarrow> nat option" where
  "get_next_avail_ep eps = avail_ep_from (ENDPOINT_MAX - 1) eps"

definition data_services :: "u16 list" where
  "data_services = [WMI_BEACON_SVC, WMI_CAB_SVC, WMI_UAPSD_SVC, WMI_MGMT_SVC, WMI_DATA_VO_SVC,
     WMI_DATA_VI_SVC, WMI_DATA_BE_SVC, WMI_DATA_BK_SVC]"

definition service_to_ulpipe :: "u16 \<Rightarrow> u8" where
  "service_to_ulpipe sid =
     (if sid = WMI_CONTROL_SVC then 4 else if sid \<in> set data_services then 1 else 0)"

definition service_to_dlpipe :: "u16 \<Rightarrow> u8" where
  "service_to_dlpipe sid =
     (if sid = WMI_CONTROL_SVC then 3 else if sid \<in> set data_services then 2 else 0)"

definition htc_process_target_rdy :: "htc_target \<Rightarrow> bytes \<Rightarrow> htc_target option" where
  \<comment> \<open>\<open>buf\<close> is read as a \<open>struct htc_ready_msg\<close>: \<open>credit_size\<close> at offset 4\<close>
  "htc_process_target_rdy t buf = do {
     cs \<leftarrow> get_be16 buf 4;
     let ep = (endpoint t ! ENDPOINT0)\<lparr>service_id := HTC_CTRL_RSVD_SVC,
                max_msglen := HTC_MAX_CONTROL_MESSAGE_LENGTH\<rparr>;
     Some (t\<lparr>credit_size := cs, endpoint := (endpoint t)[ENDPOINT0 := ep],
             tgt_ready := tgt_ready t + 1, target_wait := Suc (target_wait t)\<rparr>) }"

fun find_service_from :: "nat \<Rightarrow> u16 \<Rightarrow> htc_endpoint list \<Rightarrow> nat" where
  "find_service_from 0 sid eps = ENDPOINT0"
| "find_service_from (Suc n) sid eps =
     (if service_id (eps ! Suc n) = sid then Suc n else find_service_from n sid eps)"

definition htc_process_conn_rsp :: "htc_target \<Rightarrow> bytes \<Rightarrow> htc_target option" where
  \<comment> \<open>\<open>hdr\<close> is the memory from the frame header on; the response follows it at offset 8\<close>
  "htc_process_conn_rsp t hdr = do {
     status \<leftarrow> byte_at hdr (8 + 4);
     if status = HTC_SERVICE_SUCCESS then do {
       epid \<leftarrow> byte_at hdr (8 + 5);
       sid \<leftarrow> get_be16 hdr (8 + 2);
       msglen \<leftarrow> get_be16 hdr (8 + 6);
       let tepid = find_service_from (ENDPOINT_MAX - 1) sid (endpoint t);
       if tepid = ENDPOINT0 then Some t
       else do {
         let eps = (endpoint t)[tepid := (endpoint t ! tepid)\<lparr>service_id := 0\<rparr>];
         let tmp = eps ! tepid;
         if unat epid < length eps then do {
           let ep = (eps ! unat epid)\<lparr>service_id := sid, max_txqdepth := max_txqdepth tmp,
                      ep_callbacks := ep_callbacks tmp, ul_pipeid := ul_pipeid tmp,
                      dl_pipeid := dl_pipeid tmp, max_msglen := uint msglen\<rparr>;
           Some (t\<lparr>endpoint := eps[unat epid := ep], conn_rsp_epid := uint epid,
                   cmd_wait := Suc (cmd_wait t)\<rparr>) }
         else None } }
     else Some (t\<lparr>conn_rsp_epid := ENDPOINT_UNUSED\<rparr>) }"

definition ath9k_htc_txcompletion_cb ::
  "htc_target \<Rightarrow> sk_buff option \<Rightarrow> bool \<Rightarrow> (htc_target \<times> htc_upcall list) option" where
  "ath9k_htc_txcompletion_cb t skb txok =
     (let free = (case skb of None \<Rightarrow> [] | Some s \<Rightarrow> [Kfree_skb s]) in
      if has_flag (htc_flags t) HTC_OP_CONFIG_PIPE_CREDITS
      then Some (t\<lparr>cmd_wait := Suc (cmd_wait t),
                   htc_flags := htc_flags t AND NOT HTC_OP_CONFIG_PIPE_CREDITS\<rparr>, free)
      else if has_flag (htc_flags t) HTC_OP_START_WAIT
      then Some (t\<lparr>cmd_wait := Suc (cmd_wait t),
                   htc_flags := htc_flags t AND NOT HTC_OP_START_WAIT\<rparr>, free)
      else (case skb of None \<Rightarrow> Some (t, [])
        | Some s \<Rightarrow> do {
            epid \<leftarrow> byte_at (skb_mem s) 0;
            if unat epid < length (endpoint t) then
              (case cb_tx (ep_callbacks (endpoint t ! unat epid)) of
                 Some f \<Rightarrow> Some (t, [Ep_tx f (skb_pull 8 s) (unat epid) txok])
               | None \<Rightarrow> Some (t, [Kfree_skb (skb_pull 8 s)]))
            else None }))"

definition rx_ctrl_hdr :: "sk_buff \<Rightarrow> u8 \<Rightarrow> bytes option" where
  \<comment> \<open>moves past the watchdog pattern in front of the frame header\<close>
  "rx_ctrl_hdr s flags =
     (if has_flag flags HTC_FLAGS_RECV_TRAILER then do {
        w \<leftarrow> get_be32 (skb_mem s) 0;
        Some (if w = 0x00C60000 then drop 4 (skb_mem s) else skb_mem s) }
      else Some (skb_mem s))"

definition rx_msg_control ::
  "htc_target \<Rightarrow> sk_buff \<Rightarrow> u8 \<Rightarrow> (htc_target \<times> htc_upcall list) option" where
  "rx_msg_control t s flags = do {
     hdr \<leftarrow> rx_ctrl_hdr s flags;
     msg_id \<leftarrow> get_be16 hdr 8;
     t \<leftarrow> (if msg_id = HTC_MSG_READY_ID then htc_process_target_rdy t hdr
           else if msg_id = HTC_MSG_CONNECT_SERVICE_RESPONSE_ID then htc_process_conn_rsp t hdr
           else Some t);
     Some (t, [Kfree_skb s]) }"

definition rx_msg_data ::
  "htc_target \<Rightarrow> sk_buff \<Rightarrow> u8 \<Rightarrow> nat \<Rightarrow> nat \<Rightarrow> (htc_target \<times> htc_upcall list) option" where
  "rx_msg_data t s flags len epid = do {
     c0 \<leftarrow> (if has_flag flags HTC_FLAGS_RECV_TRAILER then byte_at (skb_mem s) 4 else Some 0);
     let s = (if has_flag flags HTC_FLAGS_RECV_TRAILER
              then skb_trim (unat (word_of_nat len - ucast c0 :: u32)) s else s);
     let s = skb_pull 8 s;
     (case cb_rx (ep_callbacks (endpoint t ! epid)) of
        Some f \<Rightarrow> Some (t, [Ep_rx f s epid])
      | None \<Rightarrow> Some (t, [])) }"

definition rx_msg_body ::
  "htc_target \<Rightarrow> sk_buff \<Rightarrow> nat \<Rightarrow> u8 \<Rightarrow> (htc_target \<times> htc_upcall list) option" where
  "rx_msg_body t s len pipe_id = do {
     epid \<leftarrow> byte_at (skb_mem s) 0;
     if ENDPOINT_MAX \<le> unat epid then Some (t, [Kfree_skb s])
     else do {
       flags \<leftarrow> byte_at (skb_mem s) 1;
       if unat epid = ENDPOINT0 then rx_msg_control t s flags
       else rx_msg_data t s flags len (unat epid) } }"

definition ath9k_htc_rx_msg ::
  "htc_target option \<Rightarrow> sk_buff option \<Rightarrow> nat \<Rightarrow> u8 \<Rightarrow>
     (htc_target option \<times> htc_upcall list) option" where
  "ath9k_htc_rx_msg handle skb len pipe_id =
     (case (handle, skb) of
        (Some t, Some s) \<Rightarrow> map_option (\<lambda>(t, ups). (Some t, ups)) (rx_msg_body t s len pipe_id)
      | _ \<Rightarrow> Some (handle, []))"

text \<open>What the interrupt side does to the target while a thread waits.\<close>

datatype htc_event =
    Ev_rx_msg sk_buff nat u8
  | Ev_txcompletion sk_buff bool

fun htc_event_step :: "htc_target \<Rightarrow> htc_event \<Rightarrow> (htc_target \<times> htc_upcall list) option" where
  "htc_event_step t (Ev_rx_msg s len p) = rx_msg_body t s len p"
| "htc_event_step t (Ev_txcompletion s ok) = ath9k_htc_txcompletion_cb t (Some s) ok"

fun htc_run_events ::
  "htc_target \<Rightarrow> htc_event list \<Rightarrow> (htc_target \<times> htc_upcall list) option" where
  "htc_run_events t [] = Some (t, [])"
| "htc_run_events t (e # es) = do {
     (t, u) \<leftarrow> htc_event_step t e;
     (t, us) \<leftarrow> htc_run_events t es;
     Some (t, u @ us) }"

definition htc_wait_cmd ::
  "htc_target \<Rightarrow> htc_event list \<Rightarrow> (bool \<times> htc_target \<times> htc_upcall list) option" where
  \<comment> \<open>\<open>wait_for_completion_timeout(&target->cmd_wait, HZ)\<close>, the events meanwhile included\<close>
  "htc_wait_cmd t evs = do {
     (t, us) \<leftarrow> htc_run_events t evs;
     let (time_left, n) = wait_for_completion_timeout (cmd_wait t);
     Some (time_left, t\<lparr>cmd_wait := n\<rparr>, us) }"

definition htc_config_pipe_credits ::
  "'h ath9k_htc_hif \<Rightarrow> (nat \<Rightarrow> sk_buff option) \<Rightarrow> htc_event list \<Rightarrow> htc_target \<Rightarrow> 'h \<Rightarrow>
     (int \<times> htc_target \<times> 'h \<times> htc_upcall list) option" where
  "htc_config_pipe_credits hif alloc evs t h =
     (case alloc (50 + 8) of
        None \<Rightarrow> Some (- ENOMEM, t, h, [])
      | Some skb \<Rightarrow> do {
          let skb = skb_reserve 8 skb;
          skb \<leftarrow> skb_put_bytes (be16_bytes HTC_MSG_CONFIG_PIPE_ID
                                @ [USB_WLAN_TX_PIPE, ucast (credits t)]) skb;
          let t = t\<lparr>htc_flags := htc_flags t OR HTC_OP_CONFIG_PIPE_CREDITS\<rparr>;
          (ret, skb, t, h, ups) \<leftarrow>
            htc_issue_send hif t h skb (word_of_nat (skb_len skb)) 0 ENDPOINT0;
          if ret \<noteq> 0 then Some (- EINVAL, t, h, ups @ [Kfree_skb skb])
          else do {
            (time_left, t, us) \<leftarrow> htc_wait_cmd t evs;
            Some (if time_left then 0 else - ETIMEDOUT, t, h, ups @ us) } })"

definition htc_setup_complete ::
  "'h ath9k_htc_hif \<Rightarrow> (nat \<Rightarrow> sk_buff option) \<Rightarrow> htc_event list \<Rightarrow> htc_target \<Rightarrow> 'h \<Rightarrow>
     (int \<times> htc_target \<times> 'h \<times> htc_upcall list) option" where
  "htc_setup_complete hif alloc evs t h =
     (case alloc (50 + 8) of
        None \<Rightarrow> Some (- ENOMEM, t, h, [])
      | Some skb \<Rightarrow> do {
          let skb = skb_reserve 8 skb;
          skb \<leftarrow> skb_put_bytes (be16_bytes HTC_MSG_SETUP_COMPLETE_ID) skb;
          let t = t\<lparr>htc_flags := htc_flags t OR HTC_OP_START_WAIT\<rparr>;
          (ret, skb, t, h, ups) \<leftarrow>
            htc_issue_send hif t h skb (word_of_nat (skb_len skb)) 0 ENDPOINT0;
          if ret \<noteq> 0 then Some (- EINVAL, t, h, ups @ [Kfree_skb skb])
          else do {
            (time_left, t, us) \<leftarrow> htc_wait_cmd t evs;
            Some (if time_left then 0 else - ETIMEDOUT, t, h, ups @ us) } })"

definition htc_init ::
  "'h ath9k_htc_hif \<Rightarrow> (nat \<Rightarrow> sk_buff option) \<Rightarrow> htc_event list \<Rightarrow> htc_event list \<Rightarrow>
     htc_target \<Rightarrow> 'h \<Rightarrow> (int \<times> htc_target \<times> 'h \<times> htc_upcall list) option" where
  "htc_init hif alloc evs1 evs2 t h = do {
     (ret, t, h, ups) \<leftarrow> htc_config_pipe_credits hif alloc evs1 t h;
     if ret \<noteq> 0 then Some (ret, t, h, ups)
     else do {
       (ret, t, h, us) \<leftarrow> htc_setup_complete hif alloc evs2 t h;
       Some (ret, t, h, ups @ us) } }"

definition htc_connect_service ::
  "'h ath9k_htc_hif \<Rightarrow> (nat \<Rightarrow> sk_buff option) \<Rightarrow> htc_event list \<Rightarrow> htc_service_connreq \<Rightarrow>
     htc_target \<Rightarrow> 'h \<Rightarrow> (int \<times> int option \<times> htc_target \<times> 'h \<times> htc_upcall list) option" where
  \<comment> \<open>the second component is the value stored through \<open>conn_rsp_epid\<close>, if any\<close>
  "htc_connect_service hif alloc evs req t h =
     (case get_next_avail_ep (endpoint t) of
        None \<Rightarrow> Some (- EINVAL, None, t, h, [])
      | Some e \<Rightarrow>
          (let sid = req_service_id req;
               ep = (endpoint t ! e)\<lparr>service_id := sid, max_txqdepth := req_max_send_qdepth req,
                      ul_pipeid := service_to_ulpipe sid, dl_pipeid := service_to_dlpipe sid,
                      ep_callbacks := req_ep_callbacks req\<rparr>;
               t = t\<lparr>endpoint := (endpoint t)[e := ep]\<rparr> in
           case alloc (10 + 8) of
             None \<Rightarrow> Some (- ENOMEM, None, t, h, [])
           | Some skb \<Rightarrow> do {
               let skb = skb_reserve 8 skb;
               junk \<leftarrow> read_bytes (skb_mem skb) 8 2;
               skb \<leftarrow> skb_put_bytes (be16_bytes HTC_MSG_CONNECT_SERVICE_ID @ be16_bytes sid
                        @ be16_bytes (req_con_flags req) @ [dl_pipeid ep, ul_pipeid ep] @ junk) skb;
               (ret, skb, t, h, ups) \<leftarrow>
                 htc_issue_send hif t h skb (word_of_nat (skb_len skb)) 0 ENDPOINT0;
               if ret \<noteq> 0 then Some (ret, None, t, h, ups @ [Kfree_skb skb])
               else do {
                 (time_left, t, us) \<leftarrow> htc_wait_cmd t evs;
                 Some (if time_left then (0, Some (conn_rsp_epid t), t, h, ups @ us)
                       else (- ETIMEDOUT, None, t, h, ups @ us)) } }))"

definition htc_send ::
  "'h ath9k_htc_hif \<Rightarrow> htc_target \<Rightarrow> 'h \<Rightarrow> sk_buff \<Rightarrow>
     (int \<times> sk_buff \<times> htc_target \<times> 'h \<times> htc_upcall list) option" where
  "htc_send hif t h skb =
     htc_issue_send hif t h skb (word_of_nat (skb_len skb)) 0 (unat (ctl_epid (skb_cb skb)))"

definition htc_send_epid ::
  "'h ath9k_htc_hif \<Rightarrow> htc_target \<Rightarrow> 'h \<Rightarrow> sk_buff \<Rightarrow> nat \<Rightarrow>
     (int \<times> sk_buff \<times> htc_target \<times> 'h \<times> htc_upcall list) option" where
  "htc_send_epid hif t h skb epid = htc_issue_send hif t h skb (word_of_nat (skb_len skb)) 0 epid"

definition htc_stop ::
  "'h ath9k_htc_hif \<Rightarrow> htc_target \<Rightarrow> 'h \<Rightarrow> (htc_target \<times> 'h \<times> htc_upcall list) option" where
  "htc_stop hif t h = hif_stop hif t h"

definition htc_start :: "'h ath9k_htc_hif \<Rightarrow> 'h \<Rightarrow> 'h" where
  "htc_start hif h = hif_start hif h"

definition htc_sta_drain ::
  "'h ath9k_htc_hif \<Rightarrow> htc_target \<Rightarrow> 'h \<Rightarrow> u8 \<Rightarrow>
     (htc_target \<times> 'h \<times> htc_upcall list) option" where
  "htc_sta_drain hif t h idx = hif_sta_drain hif t h idx"

definition ath9k_htc_hw_alloc :: "bool \<Rightarrow> 'h ath9k_htc_hif \<Rightarrow> htc_target option" where
  \<comment> \<open>the flag is whether \<open>kzalloc\<close> succeeds\<close>
  "ath9k_htc_hw_alloc mem hif =
     (if mem then
        Some \<lparr>endpoint = (replicate ENDPOINT_MAX zero_endpoint)
                [ENDPOINT0 := zero_endpoint\<lparr>ul_pipeid := control_ul_pipe hif,
                                            dl_pipeid := control_dl_pipe hif\<rparr>],
              target_wait = 0, cmd_wait = 0, conn_rsp_epid = 0, credits = 0, credit_size = 0,
              htc_flags = 0, tgt_ready = 0\<rparr>
      else None)"


section \<open>Invariants\<close>

definition htc_wf :: "htc_target \<Rightarrow> bool" where
  "htc_wf t \<longleftrightarrow> length (endpoint t) = ENDPOINT_MAX"

definition svc_unique :: "htc_endpoint list \<Rightarrow> bool" where
  \<comment> \<open>a connected service sits on one endpoint only\<close>
  "svc_unique eps \<longleftrightarrow>
     (\<forall>i < length eps. \<forall>j < length eps.
        service_id (eps ! i) = service_id (eps ! j) \<and> service_id (eps ! i) \<noteq> 0 \<longrightarrow> i = j)"

definition conn_rsp_frame :: "u16 \<Rightarrow> u8 \<Rightarrow> u8 \<Rightarrow> u16 \<Rightarrow> bytes \<Rightarrow> bytes" where
  \<comment> \<open>a connect response as the target sends it: header, then \<open>struct htc_conn_svc_rspmsg\<close>\<close>
  "conn_rsp_frame sid status epid msglen ctrl =
     [0, 0] @ be16_bytes 10 @ ctrl
     @ be16_bytes HTC_MSG_CONNECT_SERVICE_RESPONSE_ID @ be16_bytes sid @ [status, epid]
     @ be16_bytes msglen @ [0, 0]"

section \<open>Lemmas\<close>

subsection \<open>Endpoint search\<close>

lemma avail_ep_from_SomeD:
  "avail_ep_from n eps = Some e \<Longrightarrow> 0 < e \<and> e \<le> n \<and> service_id (eps ! e) = 0"
  by (induction n eps rule: avail_ep_from.induct) (auto split: if_splits)

lemma avail_ep_from_NoneD:
  "avail_ep_from n eps = None \<Longrightarrow> 0 < k \<Longrightarrow> k \<le> n \<Longrightarrow> service_id (eps ! k) \<noteq> 0"
  by (induction n eps rule: avail_ep_from.induct) (auto simp: le_Suc_eq split: if_splits)

lemma find_service_from_le: "find_service_from n sid eps \<le> n"
  by (induction n sid eps rule: find_service_from.induct) auto

lemma find_service_from_hit:
  "find_service_from n sid eps \<noteq> 0 \<Longrightarrow> service_id (eps ! find_service_from n sid eps) = sid"
  by (induction n sid eps rule: find_service_from.induct) (auto split: if_splits)

lemma find_service_from_0:
  "find_service_from n sid eps = 0 \<longleftrightarrow> (\<forall>k. 0 < k \<and> k \<le> n \<longrightarrow> service_id (eps ! k) \<noteq> sid)"
  by (induction n sid eps rule: find_service_from.induct) (auto simp: le_Suc_eq)

lemma find_service_from_unique:
  assumes "svc_unique eps" and "service_id (eps ! e) = sid" and "sid \<noteq> 0"
    and "0 < e" and "e \<le> n" and "n < length eps"
  shows "find_service_from n sid eps = e"
proof -
  let ?r = "find_service_from n sid eps"
  have "?r \<noteq> 0" using assms by (auto simp: find_service_from_0)
  then have "service_id (eps ! ?r) = sid" by (rule find_service_from_hit)
  moreover have "?r < length eps" "e < length eps"
    using find_service_from_le [of n sid eps] assms(5,6) by simp_all
  ultimately show ?thesis using assms(1-3) unfolding svc_unique_def by metis
qed

lemma svc_unique_update:
  assumes u: "svc_unique eps" and k: "k < length eps"
    and fresh: "\<And>i. i < length eps \<Longrightarrow> i \<noteq> k \<Longrightarrow> service_id ep \<noteq> 0 \<Longrightarrow>
      service_id (eps ! i) \<noteq> service_id ep"
  shows "svc_unique (eps[k := ep])"
  unfolding svc_unique_def
proof (intro allI impI)
  fix i j
  assume i: "i < length (eps[k := ep])" and j: "j < length (eps[k := ep])"
    and eq: "service_id (eps[k := ep] ! i) = service_id (eps[k := ep] ! j) \<and>
             service_id (eps[k := ep] ! i) \<noteq> 0"
  show "i = j"
  proof (cases "i = k \<or> j = k")
    case True
    then show ?thesis using i j eq fresh [of i] fresh [of j] k by (auto simp: nth_list_update split: if_splits)
  next
    case False
    then show ?thesis using i j eq u by (auto simp: svc_unique_def)
  qed
qed

subsection \<open>Control messages\<close>

lemma htc_process_target_rdy_wf:
  "htc_process_target_rdy t buf = Some t' \<Longrightarrow> htc_wf t \<Longrightarrow> htc_wf t'"
  by (auto simp: htc_process_target_rdy_def htc_wf_def Let_def split: Option.bind_splits)

lemma htc_process_conn_rsp_wf:
  "htc_process_conn_rsp t buf = Some t' \<Longrightarrow> htc_wf t \<Longrightarrow> htc_wf t'"
  by (auto simp: htc_process_conn_rsp_def htc_wf_def Let_def split: Option.bind_splits if_splits)

lemma htc_process_conn_rsp_cases:
  assumes "htc_process_conn_rsp t buf = Some t'" and "htc_wf t"
  obtains "t' = t"
  | "t' = t\<lparr>conn_rsp_epid := ENDPOINT_UNUSED\<rparr>"
  | sid k e ep where "k \<noteq> 0" and "k = find_service_from 21 sid (endpoint t)"
      and "e < ENDPOINT_MAX" and "service_id ep = sid"
      and "endpoint t' = (endpoint t)[k := (endpoint t ! k)\<lparr>service_id := 0\<rparr>, e := ep]"
proof -
  from assms(1) obtain status where st: "byte_at buf 12 = Some status"
    by (auto simp: htc_process_conn_rsp_def split: Option.bind_splits)
  show thesis
  proof (cases "status = HTC_SERVICE_SUCCESS")
    case False
    with assms(1) st that(2) show thesis by (simp add: htc_process_conn_rsp_def)
  next
    case True
    with assms(1) st obtain e sid msglen where
      rd: "byte_at buf 13 = Some e" "get_be16 buf 10 = Some sid" "get_be16 buf 14 = Some msglen"
      by (auto simp: htc_process_conn_rsp_def split: Option.bind_splits)
    let ?k = "find_service_from 21 sid (endpoint t)"
    show thesis
    proof (cases "?k = 0")
      case k0: True
      with assms(1) st True rd that(1) show thesis by (simp add: htc_process_conn_rsp_def)
    next
      case k: False
      with assms st True rd have e: "unat e < ENDPOINT_MAX"
        by (simp add: htc_process_conn_rsp_def Let_def htc_wf_def split: if_splits)
      with k assms st True rd show thesis
        by (intro that(3) [OF k refl e]) (auto simp: htc_process_conn_rsp_def Let_def htc_wf_def)
    qed
  qed
qed

lemma svc_unique_move:
  assumes u: "svc_unique eps" and k: "k = find_service_from 21 sid eps" and "k \<noteq> 0"
    and len: "length eps = ENDPOINT_MAX" and "e < ENDPOINT_MAX" and ep: "service_id ep = sid"
  shows "svc_unique (eps[k := (eps ! k)\<lparr>service_id := 0\<rparr>, e := ep])"
proof -
  have k22: "k < length eps" using find_service_from_le [of 21 sid eps] k len by simp
  have sidk: "service_id (eps ! k) = sid"
    using find_service_from_hit [of 21 sid eps] assms(3) k by simp
  let ?eps = "eps[k := (eps ! k)\<lparr>service_id := 0\<rparr>]"
  have "svc_unique ?eps" by (rule svc_unique_update [OF u k22]) simp
  then show ?thesis
  proof (rule svc_unique_update)
    show "e < length ?eps" using assms(5) len by simp
    show "service_id (?eps ! i) \<noteq> service_id ep"
      if "i < length ?eps" and "i \<noteq> e" and "service_id ep \<noteq> 0" for i
      using that u k22 sidk ep by (auto simp: svc_unique_def nth_list_update)
  qed
qed

lemma htc_process_conn_rsp_unique:
  assumes "htc_process_conn_rsp t buf = Some t'" and "htc_wf t" and "svc_unique (endpoint t)"
  shows "svc_unique (endpoint t')"
  using assms(1,2)
proof (cases rule: htc_process_conn_rsp_cases)
  case (3 sid k e ep)
  then show ?thesis using svc_unique_move assms(2,3) by (simp add: htc_wf_def)
qed (use assms(3) in simp_all)

lemma htc_process_target_rdy_unique:
  assumes "htc_process_target_rdy t buf = Some t'" and "htc_wf t" and "svc_unique (endpoint t)"
    and "\<forall>i < ENDPOINT_MAX. i \<noteq> 0 \<longrightarrow> service_id (endpoint t ! i) \<noteq> HTC_CTRL_RSVD_SVC"
  shows "svc_unique (endpoint t')"
  using assms
  by (auto simp: htc_process_target_rdy_def htc_wf_def Let_def split: Option.bind_splits
      intro!: svc_unique_update)

subsection \<open>Frames\<close>

lemma skb_mem_prefix: "wf_skb s \<Longrightarrow> skb_bytes s = bs \<Longrightarrow> skb_mem s = bs @ drop (length bs) (skb_mem s)"
  by (metis append_take_drop_id skb_bytes_def skb_bytes_length)

lemma issue_send_frame:
  assumes "wf_skb s" and "8 \<le> skb_data s"
  obtains f ctrl where "skb_push 8 s \<bind> skb_store 0 ([word_of_nat epid, flags] @ be16_bytes len) = Some f"
    and "wf_skb f" and "length ctrl = 4" and "skb_cb f = skb_cb s"
    and "skb_bytes f = [word_of_nat epid, flags] @ be16_bytes len @ ctrl @ skb_bytes s"
proof -
  let ?u = "s\<lparr>skb_data := skb_data s - 8\<rparr>"
  let ?hd = "[word_of_nat epid, flags] @ be16_bytes len"
  have push: "skb_push 8 s = Some ?u" using assms(2) by (simp add: skb_push_def)
  have wfu: "wf_skb ?u" using assms by (auto simp: wf_skb_def)
  have "skb_len ?u = skb_len s + 8" using assms by (auto simp: skb_len_def wf_skb_def)
  then have lenu: "length ?hd \<le> skb_len ?u" by simp
  obtain f where f: "skb_store 0 ?hd ?u = Some f"
    by (rule skb_store_0_enough [OF wfu lenu])
  have bytes: "skb_bytes f = ?hd @ drop 4 (skb_bytes ?u)"
    using skb_store_0_bytes [OF wfu lenu f] by simp
  have wff: "wf_skb f" and cb: "skb_cb f = skb_cb s"
    using f wfu by (auto simp: skb_store_def wf_skb_def dest: write_bytes_length split: Option.bind_splits)
  have "drop 4 (skb_bytes ?u) = take 4 (drop 4 (skb_bytes ?u)) @ drop 8 (skb_bytes ?u)"
    by (metis append_take_drop_id drop_drop numeral_Bit0)
  moreover have "drop 8 (skb_bytes ?u) = skb_bytes s"
    using assms by (simp add: skb_bytes_def skb_len_def skb_mem_def wf_skb_def drop_take)
  moreover have "length (take 4 (drop 4 (skb_bytes ?u))) = 4"
    using wfu lenu assms by (simp add: skb_len_def wf_skb_def)
  ultimately show thesis
    using that [of f "take 4 (drop 4 (skb_bytes ?u))"] push f bytes wff cb by simp
qed


lemma htc_issue_send_frame:
  assumes "wf_skb s" and "8 \<le> skb_data s"
    and "htc_issue_send hif t h s len flags epid = Some (st, f, t', h', ups)"
  obtains ctrl where "wf_skb f" and "length ctrl = 4"
    and "skb_bytes f = [word_of_nat epid, flags] @ be16_bytes len @ ctrl @ skb_bytes s"
    and "epid < length (endpoint t)"
    and "hif_send hif t h (ul_pipeid (endpoint t ! epid)) f = Some (st, t', h', ups)"
proof -
  obtain g ctrl where g: "skb_push 8 s \<bind> skb_store 0 ([word_of_nat epid, flags] @ be16_bytes len) = Some g"
    and p: "wf_skb g" "length ctrl = 4"
      "skb_bytes g = [word_of_nat epid, flags] @ be16_bytes len @ ctrl @ skb_bytes s"
    using issue_send_frame [OF assms(1,2), of epid flags len] by metis
  from g obtain u where u: "skb_push 8 s = Some u"
    "skb_store 0 ([word_of_nat epid, flags] @ be16_bytes len) u = Some g"
    by (auto split: Option.bind_splits)
  have gf: "g = f" and e: "epid < length (endpoint t)"
    and sd: "hif_send hif t h (ul_pipeid (endpoint t ! epid)) f = Some (st, t', h', ups)"
    using assms(3) u
    by (auto simp: htc_issue_send_def split: Option.bind_splits if_splits)
  show thesis by (rule that [of ctrl]) (use p gf e sd in auto)
qed

lemma rx_frame_bytes:
  assumes "wf_skb f" and "skb_bytes f = [e, fl] @ rest"
  shows "byte_at (skb_mem f) 0 = Some e" and "byte_at (skb_mem f) 1 = Some fl"
  using skb_mem_prefix [OF assms] by (metis append_Cons byte_at_0, metis append_Cons byte_at_0 byte_at_1)

lemma rx_msg_body_data:
  assumes "wf_skb f" and "skb_bytes f = [word_of_nat epid, 0] @ rest" and "6 \<le> length rest"
    and "0 < epid" and "epid < ENDPOINT_MAX" and "cb_rx (ep_callbacks (endpoint t ! epid)) = Some fn"
  shows "\<exists>r. rx_msg_body t f len p = Some (t, [Ep_rx fn r epid]) \<and> skb_bytes r = drop 6 rest"
proof -
  have un: "unat (word_of_nat epid :: u8) = epid" using assms(5) by (simp add: unat_of_nat take_bit_nat_eq_self)
  have len: "8 \<le> skb_len f" using skb_bytes_length [OF assms(1)] assms(2,3) by simp
  have bytes: "skb_bytes (skb_pull 8 f) = drop 6 rest"
    using skb_bytes_pull [OF len] assms(2) by simp
  show ?thesis
    using rx_frame_bytes [OF assms(1,2)] assms(4-6) bytes un
    by (auto simp: rx_msg_body_def rx_msg_data_def)
qed

subsection \<open>The target invariant\<close>

definition htc_inv :: "htc_target \<Rightarrow> bool" where
  "htc_inv t \<longleftrightarrow> htc_wf t \<and> svc_unique (endpoint t) \<and>
     (\<forall>i < ENDPOINT_MAX. i \<noteq> 0 \<longrightarrow> service_id (endpoint t ! i) \<noteq> HTC_CTRL_RSVD_SVC)"

lemma htc_inv_rdy:
  assumes "htc_process_target_rdy t buf = Some t'" and "htc_inv t"
  shows "htc_inv t'"
proof -
  have "\<forall>i < ENDPOINT_MAX. i \<noteq> 0 \<longrightarrow> endpoint t' ! i = endpoint t ! i"
    using assms by (auto simp: htc_process_target_rdy_def Let_def split: Option.bind_splits)
  then show ?thesis
    using assms htc_process_target_rdy_wf [OF assms(1)] htc_process_target_rdy_unique [OF assms(1)]
    by (simp add: htc_inv_def)
qed

lemma htc_inv_conn_rsp:
  assumes "htc_process_conn_rsp t buf = Some t'" and "htc_inv t"
  shows "htc_inv t'"
proof -
  have wf: "htc_wf t" and wf': "htc_wf t'"
    using assms htc_process_conn_rsp_wf by (auto simp: htc_inv_def)
  have "\<forall>i < ENDPOINT_MAX. i \<noteq> 0 \<longrightarrow> service_id (endpoint t' ! i) \<noteq> HTC_CTRL_RSVD_SVC"
    using assms(1) wf
  proof (cases rule: htc_process_conn_rsp_cases)
    case (3 sid k e ep)
    have k: "k < ENDPOINT_MAX" using find_service_from_le [of 21 sid "endpoint t"] 3(2) by simp
    moreover have "service_id (endpoint t ! k) = sid"
      using find_service_from_hit [of 21 sid "endpoint t"] 3(1,2) by simp
    ultimately have "sid \<noteq> HTC_CTRL_RSVD_SVC" using assms(2) 3(1) by (auto simp: htc_inv_def)
    moreover have "(0::u16) \<noteq> HTC_CTRL_RSVD_SVC" by (simp add: service_ids)
    ultimately show ?thesis
      using assms(2) wf k 3(3-5) by (auto simp: htc_inv_def htc_wf_def nth_list_update)
  qed (use assms(2) in \<open>auto simp: htc_inv_def\<close>)
  then show ?thesis
    using assms wf' htc_process_conn_rsp_unique [OF assms(1) wf] by (simp add: htc_inv_def)
qed

lemma htc_inv_cong: "endpoint t' = endpoint t \<Longrightarrow> htc_inv t' = htc_inv t"
  by (simp add: htc_inv_def htc_wf_def)

lemma htc_inv_rx_msg_control:
  "rx_msg_control t s fl = Some (t', ups) \<Longrightarrow> htc_inv t \<Longrightarrow> htc_inv t'"
  by (auto simp: rx_msg_control_def dest: htc_inv_rdy htc_inv_conn_rsp
      split: Option.bind_splits if_splits)

lemma htc_inv_rx_msg_data:
  "rx_msg_data t s fl len e = Some (t', ups) \<Longrightarrow> t' = t"
  by (auto simp: rx_msg_data_def Let_def split: Option.bind_splits option.splits)

lemma htc_inv_rx_msg_body:
  "rx_msg_body t s len p = Some (t', ups) \<Longrightarrow> htc_inv t \<Longrightarrow> htc_inv t'"
  by (auto simp: rx_msg_body_def dest: htc_inv_rx_msg_control htc_inv_rx_msg_data
      split: Option.bind_splits if_splits)

lemma txcompletion_endpoint:
  "ath9k_htc_txcompletion_cb t s ok = Some (t', ups) \<Longrightarrow> endpoint t' = endpoint t"
  by (auto simp: ath9k_htc_txcompletion_cb_def Let_def
      split: Option.bind_splits if_splits option.splits)

lemma htc_inv_event_step:
  "htc_event_step t e = Some (t', ups) \<Longrightarrow> htc_inv t \<Longrightarrow> htc_inv t'"
  by (cases e) (auto dest: htc_inv_rx_msg_body txcompletion_endpoint htc_inv_cong)


lemma htc_inv_run_events:
  "htc_run_events t es = Some (t', ups) \<Longrightarrow> htc_inv t \<Longrightarrow> htc_inv t'"
proof (induction es arbitrary: t ups)
  case Nil
  then show ?case by simp
next
  case (Cons e es)
  then obtain t1 u1 us where "htc_event_step t e = Some (t1, u1)"
    and "htc_run_events t1 es = Some (t', us)"
    by (auto split: Option.bind_splits)
  then show ?case using Cons.IH Cons.prems(2) htc_inv_event_step by blast
qed

subsection \<open>A connect response\<close>

lemma get_be16_frame: "length pre = i \<Longrightarrow> get_be16 (pre @ be16_bytes x @ post) i = Some x"
  using get_be16_drop [of "length pre" "pre @ be16_bytes x @ post" 0] by simp

lemma byte_at_frame: "length pre = i \<Longrightarrow> byte_at (pre @ b # post) i = Some b"
  by (auto simp: byte_at_def nth_append)

lemma conn_rsp_frame_fields:
  assumes "length ctrl = 4"
  shows "byte_at (conn_rsp_frame sid st e ml ctrl @ r) 12 = Some st"
    and "byte_at (conn_rsp_frame sid st e ml ctrl @ r) 13 = Some e"
    and "get_be16 (conn_rsp_frame sid st e ml ctrl @ r) 8 = Some HTC_MSG_CONNECT_SERVICE_RESPONSE_ID"
    and "get_be16 (conn_rsp_frame sid st e ml ctrl @ r) 10 = Some sid"
    and "get_be16 (conn_rsp_frame sid st e ml ctrl @ r) 14 = Some ml"
proof -
  let ?h = "[0, 0] @ be16_bytes 10 @ ctrl"
  let ?m = "be16_bytes HTC_MSG_CONNECT_SERVICE_RESPONSE_ID"
  have "byte_at ((?h @ ?m @ be16_bytes sid) @ st # ([e] @ be16_bytes ml @ [0, 0] @ r)) 12 = Some st"
    by (rule byte_at_frame) (use assms in simp)
  then show "byte_at (conn_rsp_frame sid st e ml ctrl @ r) 12 = Some st"
    by (simp add: conn_rsp_frame_def)
  have "byte_at ((?h @ ?m @ be16_bytes sid @ [st]) @ e # (be16_bytes ml @ [0, 0] @ r)) 13 = Some e"
    by (rule byte_at_frame) (use assms in simp)
  then show "byte_at (conn_rsp_frame sid st e ml ctrl @ r) 13 = Some e"
    by (simp add: conn_rsp_frame_def)
  have "get_be16 (?h @ ?m @ (be16_bytes sid @ [st, e] @ be16_bytes ml @ [0, 0] @ r)) 8
        = Some HTC_MSG_CONNECT_SERVICE_RESPONSE_ID"
    by (rule get_be16_frame) (use assms in simp)
  then show "get_be16 (conn_rsp_frame sid st e ml ctrl @ r) 8
             = Some HTC_MSG_CONNECT_SERVICE_RESPONSE_ID"
    by (simp add: conn_rsp_frame_def)
  have "get_be16 ((?h @ ?m) @ be16_bytes sid @ ([st, e] @ be16_bytes ml @ [0, 0] @ r)) 10 = Some sid"
    by (rule get_be16_frame) (use assms in simp)
  then show "get_be16 (conn_rsp_frame sid st e ml ctrl @ r) 10 = Some sid"
    by (simp add: conn_rsp_frame_def)
  have "get_be16 ((?h @ ?m @ be16_bytes sid @ [st, e]) @ be16_bytes ml @ ([0, 0] @ r)) 14 = Some ml"
    by (rule get_be16_frame) (use assms in simp)
  then show "get_be16 (conn_rsp_frame sid st e ml ctrl @ r) 14 = Some ml"
    by (simp add: conn_rsp_frame_def)
qed

lemma conn_rsp_frame_event:
  assumes "wf_skb s" and "skb_bytes s = conn_rsp_frame sid st e ml ctrl" and "length ctrl = 4"
  shows "htc_run_events t [Ev_rx_msg s len p] =
     map_option (\<lambda>t'. (t', [Kfree_skb s])) (htc_process_conn_rsp t (skb_mem s))"
proof -
  have b: "skb_bytes s = [0, 0] @ drop 2 (skb_bytes s)"
    by (simp add: assms(2) conn_rsp_frame_def)
  have m: "skb_mem s = conn_rsp_frame sid st e ml ctrl @ drop (length (skb_bytes s)) (skb_mem s)"
    using skb_mem_prefix [OF assms(1) refl] assms(2) by simp
  have id: "get_be16 (skb_mem s) 8 = Some HTC_MSG_CONNECT_SERVICE_RESPONSE_ID"
    using conn_rsp_frame_fields(3) [OF assms(3)] m by metis
  show ?thesis
    using rx_frame_bytes [OF assms(1) b] id
    by (simp add: rx_msg_body_def rx_msg_control_def rx_ctrl_hdr_def has_flag_def htc_msg_ids
        map_option_case split: Option.bind_splits option.splits)
qed

lemma conn_rsp_mem_fields:
  assumes "wf_skb s" and "skb_bytes s = conn_rsp_frame sid st e ml ctrl" and "length ctrl = 4"
  shows "byte_at (skb_mem s) 12 = Some st" and "byte_at (skb_mem s) 13 = Some e"
    and "get_be16 (skb_mem s) 8 = Some HTC_MSG_CONNECT_SERVICE_RESPONSE_ID"
    and "get_be16 (skb_mem s) 10 = Some sid" and "get_be16 (skb_mem s) 14 = Some ml"
  using conn_rsp_frame_fields [OF assms(3), of sid st e ml "drop (length (skb_bytes s)) (skb_mem s)"]
    skb_mem_prefix [OF assms(1,2)] assms(2) by simp_all

lemma conn_rsp_wait:
  assumes "wf_skb s" and "skb_bytes s = conn_rsp_frame sid st e ml ctrl" and "length ctrl = 4"
  shows "htc_wait_cmd t [Ev_rx_msg s len p] = do {
     t' \<leftarrow> htc_process_conn_rsp t (skb_mem s);
     let (time_left, n) = wait_for_completion_timeout (cmd_wait t');
     Some (time_left, t'\<lparr>cmd_wait := n\<rparr>, [Kfree_skb s]) }"
  unfolding htc_wait_cmd_def conn_rsp_frame_event [OF assms]
  by (cases "htc_process_conn_rsp t (skb_mem s)") simp_all


section \<open>The transport HTC relies on\<close>

text \<open>
  What HTC needs of \<open>struct ath9k_htc_hif\<close> on the control pipe: a well-formed buffer is
  accepted or refused without a fault, the target is untouched by the call, and exactly the
  accepted buffers reach the wire. The clients below are proved from this contract; the USB
  transport provides it.
\<close>

locale hif_transport =
  fixes hif :: "'h ath9k_htc_hif"
    and ready :: "'h \<Rightarrow> bool"
    and answer :: "'h \<Rightarrow> int"
    and sent :: "'h \<Rightarrow> bytes list"
  assumes send_control:
    "ready h \<Longrightarrow> wf_skb s \<Longrightarrow>
       \<exists>h'. hif_send hif t h (control_ul_pipe hif) s = Some (answer h, t, h', []) \<and> ready h' \<and>
            sent h' = (if answer h = 0 then sent h @ [skb_bytes s] else sent h)"
begin

lemma issue_send_control:
  assumes "ready h" and "wf_skb s" and "8 \<le> skb_data s" and "htc_wf t" and "epid < ENDPOINT_MAX"
    and "ul_pipeid (endpoint t ! epid) = control_ul_pipe hif"
  obtains st f h' ctrl where "htc_issue_send hif t h s len fl epid = Some (st, f, t, h', [])"
    and "ready h'" and "length ctrl = 4" and "st = answer h"
    and "sent h' = (if st = 0
           then sent h @ [[word_of_nat epid, fl] @ be16_bytes len @ ctrl @ skb_bytes s] else sent h)"
proof -
  obtain f ctrl where f: "skb_push 8 s \<bind> skb_store 0 ([word_of_nat epid, fl] @ be16_bytes len) = Some f"
    and wf: "wf_skb f" and len4: "length ctrl = 4"
    and bytes: "skb_bytes f = [word_of_nat epid, fl] @ be16_bytes len @ ctrl @ skb_bytes s"
    using issue_send_frame [OF assms(2,3), of epid fl len] by metis
  obtain h' where sd: "hif_send hif t h (control_ul_pipe hif) f = Some (answer h, t, h', [])"
    and r: "ready h'" and out: "sent h' = (if answer h = 0 then sent h @ [skb_bytes f] else sent h)"
    using send_control [OF assms(1) wf, of t] by blast
  have "epid < length (endpoint t)" using assms(4,5) by (simp add: htc_wf_def)
  with f sd assms(6) have "htc_issue_send hif t h s len fl epid = Some (answer h, f, t, h', [])"
    by (auto simp: htc_issue_send_def split: Option.bind_splits)
  then show thesis using that r len4 out bytes by simp
qed

lemma issue_control:
  assumes "ready h" and "wf_skb s" and "8 \<le> skb_data s" and "htc_wf t"
    and "ul_pipeid (endpoint t ! 0) = control_ul_pipe hif"
  obtains st f h' ctrl where "htc_issue_send hif t h s len fl 0 = Some (st, f, t, h', [])"
    and "ready h'" and "length ctrl = 4" and "st = answer h"
    and "sent h' = (if st = 0
           then sent h @ [[0, fl] @ be16_bytes len @ ctrl @ skb_bytes s] else sent h)"
  by (rule issue_send_control [OF assms(1-4) _ assms(5), of len fl]) (simp_all add: that)

text \<open>Connecting a service when the transport accepts the request and the target answers.\<close>

lemma connect_service_reply:
  assumes spec: "alloc_skb_spec alloc" and al: "alloc 18 \<noteq> None"
    and h: "ready h" and wf: "htc_wf t"
    and pipe: "ul_pipeid (endpoint t ! 0) = control_ul_pipe hif"
    and e: "get_next_avail_ep (endpoint t) = Some e"
    and ep: "ep = (endpoint t ! e)\<lparr>service_id := req_service_id req,
               max_txqdepth := req_max_send_qdepth req,
               ul_pipeid := service_to_ulpipe (req_service_id req),
               dl_pipeid := service_to_dlpipe (req_service_id req),
               ep_callbacks := req_ep_callbacks req\<rparr>"
    and t1: "t1 = t\<lparr>endpoint := (endpoint t)[e := ep]\<rparr>"
  obtains st f h' ctrl junk where "ready h'" and "st = answer h" and "length ctrl = 4" and "length junk = 2"
    and "sent h' = (if st = 0 then sent h @
           [[0, 0] @ be16_bytes 10 @ ctrl @ be16_bytes HTC_MSG_CONNECT_SERVICE_ID
             @ be16_bytes (req_service_id req) @ be16_bytes (req_con_flags req)
             @ [dl_pipeid ep, ul_pipeid ep] @ junk] else sent h)"
    and "htc_connect_service hif alloc evs req t h =
           (if st \<noteq> 0 then Some (st, None, t1, h', [Kfree_skb f])
            else do {
              (time_left, t2, us) \<leftarrow> htc_wait_cmd t1 evs;
              Some (if time_left then (0, Some (conn_rsp_epid t2), t2, h', us)
                    else (- ETIMEDOUT, None, t2, h', us)) })"
proof -
  obtain skb where skb: "alloc 18 = Some skb" using al by auto
  then have sk: "18 \<le> length (skb_buf skb)" "skb_data skb = 0" "skb_tail skb = 0"
    using spec by (auto simp: alloc_skb_spec_def)
  have "10 \<le> length (skb_buf skb) - 8" using sk(1) by arith
  then obtain junk where junk: "read_bytes (skb_mem (skb_reserve 8 skb)) 8 2 = Some junk"
    using sk by (simp add: read_bytes_def skb_mem_def skb_reserve_def)
  then have jl: "length junk = 2" by (rule read_bytes_length)
  let ?msg = "be16_bytes HTC_MSG_CONNECT_SERVICE_ID @ be16_bytes (req_service_id req)
     @ be16_bytes (req_con_flags req) @ [dl_pipeid ep, ul_pipeid ep] @ junk"
  obtain m where m: "skb_put_bytes ?msg (skb_reserve 8 skb) = Some m" "skb_bytes m = ?msg"
      "wf_skb m" "skb_data m = 8" "skb_len m = 10"
    using skb_build_message [OF spec, of 8 10 skb ?msg] skb jl by auto
  have e0: "0 < e" using avail_ep_from_SomeD e by (auto simp: get_next_avail_ep_def)
  have wf1: "htc_wf t1" and p1: "ul_pipeid (endpoint t1 ! 0) = control_ul_pipe hif"
    using wf pipe e0 by (auto simp: t1 htc_wf_def)
  obtain st f h' ctrl where snd: "htc_issue_send hif t1 h m 10 0 0 = Some (st, f, t1, h', [])"
    "ready h'" "length ctrl = 4" "st = answer h"
    "sent h' = (if st = 0 then sent h @ [[0, 0] @ be16_bytes 10 @ ctrl @ skb_bytes m] else sent h)"
    using issue_control [OF h m(3) eq_refl [OF m(4) [symmetric]] wf1 p1, of 10 0] by metis
  have "htc_connect_service hif alloc evs req t h =
           (if st \<noteq> 0 then Some (st, None, t1, h', [Kfree_skb f])
            else do {
              (time_left, t2, us) \<leftarrow> htc_wait_cmd t1 evs;
              Some (if time_left then (0, Some (conn_rsp_epid t2), t2, h', us)
                    else (- ETIMEDOUT, None, t2, h', us)) })"
    using e skb junk m(1,5) snd(1)
    by (simp add: htc_connect_service_def Let_def ep t1 cong: if_cong)
  then show thesis using that [of h' st ctrl junk f] snd(2-5) jl m(2) by simp
qed


text \<open>The two control messages of \<open>htc_init\<close>, each answered by its transmit completion.\<close>

lemma config_pipe_credits_completes:
  assumes spec: "alloc_skb_spec alloc" and al: "alloc 58 \<noteq> None"
    and h: "ready h" and wf: "htc_wf t"
    and pipe: "ul_pipeid (endpoint t ! 0) = control_ul_pipe hif"
    and fl: "htc_flags t = 0" and cw: "cmd_wait t = 0"
  obtains h' skb ctrl where "htc_config_pipe_credits hif alloc [Ev_txcompletion c ok] t h =
         Some (- EINVAL, t\<lparr>htc_flags := HTC_OP_CONFIG_PIPE_CREDITS\<rparr>, h', [Kfree_skb skb])"
      and "ready h'" and "sent h' = sent h" and "answer h \<noteq> 0"
  | h' ctrl where "htc_config_pipe_credits hif alloc [Ev_txcompletion c ok] t h =
         Some (0, t, h', [Kfree_skb c])"
      and "ready h'" and "length ctrl = 4"
      and "sent h' = sent h @ [[0, 0] @ be16_bytes 4 @ ctrl @ be16_bytes HTC_MSG_CONFIG_PIPE_ID
                              @ [USB_WLAN_TX_PIPE, ucast (credits t)]]"
proof -
  obtain skb where skb: "alloc 58 = Some skb" using al by auto
  let ?msg = "be16_bytes HTC_MSG_CONFIG_PIPE_ID @ [USB_WLAN_TX_PIPE, ucast (credits t)]"
  have skb8: "alloc (8 + 50) = Some skb" using skb by simp
  have s4: "alloc_skb_spec (\<lambda>n. if n = 8 + 4 then Some skb else None)"
    using spec skb by (fastforce simp: alloc_skb_spec_def)
  obtain m where m: "skb_put_bytes ?msg (skb_reserve 8 skb) = Some m" "skb_bytes m = ?msg"
      "wf_skb m" "skb_data m = 8" "skb_len m = 4"
    using skb_build_message [OF s4, of 8 4 skb ?msg] by auto
  let ?t = "t\<lparr>htc_flags := HTC_OP_CONFIG_PIPE_CREDITS\<rparr>"
  have wf1: "htc_wf ?t" and p1: "ul_pipeid (endpoint ?t ! 0) = control_ul_pipe hif"
    using wf pipe by (auto simp: htc_wf_def)
  obtain st f h' ctrl where snd: "htc_issue_send hif ?t h m 4 0 0 = Some (st, f, ?t, h', [])"
    "ready h'" "length ctrl = 4" "st = answer h"
    "sent h' = (if st = 0 then sent h @ [[0, 0] @ be16_bytes 4 @ ctrl @ skb_bytes m] else sent h)"
    using issue_control [OF h m(3) eq_refl [OF m(4) [symmetric]] wf1 p1, of 4 0] by metis
  have ev: "htc_wait_cmd ?t [Ev_txcompletion c ok] = Some (True, t, [Kfree_skb c])"
    using fl cw
    by (simp add: htc_wait_cmd_def ath9k_htc_txcompletion_cb_def has_flag_def
        HTC_OP_CONFIG_PIPE_CREDITS_def wait_for_completion_timeout_def)
  show thesis
  proof (cases "st = 0")
    case True
    then have "htc_config_pipe_credits hif alloc [Ev_txcompletion c ok] t h =
               Some (0, t, h', [Kfree_skb c])"
      using skb m(1,5) snd(1) fl ev by (simp add: htc_config_pipe_credits_def Let_def)
    then show thesis using that(2) [of h' ctrl] snd(2-5) m(2) True by simp
  next
    case False
    then have "htc_config_pipe_credits hif alloc [Ev_txcompletion c ok] t h =
               Some (- EINVAL, ?t, h', [Kfree_skb f])"
      using skb m(1,5) snd(1) fl ev by (simp add: htc_config_pipe_credits_def Let_def)
    then show thesis using that(1) [of h' f] snd(2-5) False by simp
  qed
qed

lemma setup_complete_completes:
  assumes spec: "alloc_skb_spec alloc" and al: "alloc 58 \<noteq> None"
    and h: "ready h" and wf: "htc_wf t"
    and pipe: "ul_pipeid (endpoint t ! 0) = control_ul_pipe hif"
    and fl: "htc_flags t = 0" and cw: "cmd_wait t = 0"
  obtains h' skb ctrl where "htc_setup_complete hif alloc [Ev_txcompletion c ok] t h =
         Some (- EINVAL, t\<lparr>htc_flags := HTC_OP_START_WAIT\<rparr>, h', [Kfree_skb skb])"
      and "ready h'" and "sent h' = sent h" and "answer h \<noteq> 0"
  | h' ctrl where "htc_setup_complete hif alloc [Ev_txcompletion c ok] t h =
         Some (0, t, h', [Kfree_skb c])"
      and "ready h'" and "length ctrl = 4"
      and "sent h' = sent h @ [[0, 0] @ be16_bytes 2 @ ctrl @ be16_bytes HTC_MSG_SETUP_COMPLETE_ID]"
proof -
  obtain skb where skb: "alloc 58 = Some skb" using al by auto
  let ?msg = "be16_bytes HTC_MSG_SETUP_COMPLETE_ID"
  have s2: "alloc_skb_spec (\<lambda>n. if n = 8 + 2 then Some skb else None)"
    using spec skb by (fastforce simp: alloc_skb_spec_def)
  obtain m where m: "skb_put_bytes ?msg (skb_reserve 8 skb) = Some m" "skb_bytes m = ?msg"
      "wf_skb m" "skb_data m = 8" "skb_len m = 2"
    using skb_build_message [OF s2, of 8 2 skb ?msg] by auto
  let ?t = "t\<lparr>htc_flags := HTC_OP_START_WAIT\<rparr>"
  have wf1: "htc_wf ?t" and p1: "ul_pipeid (endpoint ?t ! 0) = control_ul_pipe hif"
    using wf pipe by (auto simp: htc_wf_def)
  obtain st f h' ctrl where snd: "htc_issue_send hif ?t h m 2 0 0 = Some (st, f, ?t, h', [])"
    "ready h'" "length ctrl = 4" "st = answer h"
    "sent h' = (if st = 0 then sent h @ [[0, 0] @ be16_bytes 2 @ ctrl @ skb_bytes m] else sent h)"
    using issue_control [OF h m(3) eq_refl [OF m(4) [symmetric]] wf1 p1, of 2 0] by metis
  have ev: "htc_wait_cmd ?t [Ev_txcompletion c ok] = Some (True, t, [Kfree_skb c])"
    using fl cw
    by (simp add: htc_wait_cmd_def ath9k_htc_txcompletion_cb_def has_flag_def
        HTC_OP_CONFIG_PIPE_CREDITS_def HTC_OP_START_WAIT_def wait_for_completion_timeout_def)
  show thesis
  proof (cases "st = 0")
    case True
    then have "htc_setup_complete hif alloc [Ev_txcompletion c ok] t h =
               Some (0, t, h', [Kfree_skb c])"
      using skb m(1,5) snd(1) fl ev by (simp add: htc_setup_complete_def Let_def)
    then show thesis using that(2) [of h' ctrl] snd(2-5) m(2) True by simp
  next
    case False
    then have "htc_setup_complete hif alloc [Ev_txcompletion c ok] t h =
               Some (- EINVAL, ?t, h', [Kfree_skb f])"
      using skb m(1,5) snd(1) fl ev by (simp add: htc_setup_complete_def Let_def)
    then show thesis using that(1) [of h' f] snd(2-5) False by simp
  qed
qed

lemma htc_init_completes:
  assumes "alloc_skb_spec alloc" and "alloc 58 \<noteq> None" and "ready h" and "htc_wf t"
    and "ul_pipeid (endpoint t ! 0) = control_ul_pipe hif"
    and "htc_flags t = 0" and "cmd_wait t = 0"
  shows "\<exists>ret t' h' ups.
    htc_init hif alloc [Ev_txcompletion c1 ok1] [Ev_txcompletion c2 ok2] t h = Some (ret, t', h', ups) \<and>
    ready h' \<and> endpoint t' = endpoint t \<and> (ret = 0 \<or> ret = - EINVAL) \<and>
    ((\<forall>h. answer h = 0) \<longrightarrow> ret = 0) \<and> (ret = 0 \<longrightarrow> t' = t \<and> ups = [Kfree_skb c1, Kfree_skb c2] \<and>
       (\<exists>x y. length x = 4 \<and> length y = 4 \<and> sent h' = sent h @
          [[0, 0] @ be16_bytes 4 @ x @ be16_bytes HTC_MSG_CONFIG_PIPE_ID
             @ [USB_WLAN_TX_PIPE, ucast (credits t)],
           [0, 0] @ be16_bytes 2 @ y @ be16_bytes HTC_MSG_SETUP_COMPLETE_ID]))"
proof (rule config_pipe_credits_completes [OF assms, of c1 ok1])
  fix h' skb
  assume "htc_config_pipe_credits hif alloc [Ev_txcompletion c1 ok1] t h =
    Some (- EINVAL, t\<lparr>htc_flags := HTC_OP_CONFIG_PIPE_CREDITS\<rparr>, h', [Kfree_skb skb])" and "ready h'"
    and "answer h \<noteq> 0"
  then show ?thesis by (auto simp: htc_init_def errno_simps)
next
  fix h1 x
  assume c1: "htc_config_pipe_credits hif alloc [Ev_txcompletion c1 ok1] t h =
      Some (0, t, h1, [Kfree_skb c1])" and h1: "ready h1" and x: "length x = 4"
    and s1: "sent h1 = sent h @ [[0, 0] @ be16_bytes 4 @ x @ be16_bytes HTC_MSG_CONFIG_PIPE_ID
                                 @ [USB_WLAN_TX_PIPE, ucast (credits t)]]"
  show ?thesis
  proof (rule setup_complete_completes [OF assms(1,2) h1 assms(4-7), of c2 ok2])
    fix h' skb
    assume "htc_setup_complete hif alloc [Ev_txcompletion c2 ok2] t h1 =
      Some (- EINVAL, t\<lparr>htc_flags := HTC_OP_START_WAIT\<rparr>, h', [Kfree_skb skb])" and "ready h'"
      and "answer h1 \<noteq> 0"
    then show ?thesis using c1 by (auto simp: htc_init_def errno_simps)
  next
    fix h2 y
    assume "htc_setup_complete hif alloc [Ev_txcompletion c2 ok2] t h1 =
        Some (0, t, h2, [Kfree_skb c2])" and "ready h2" and y: "length y = 4"
      and s2: "sent h2 = sent h1 @ [[0, 0] @ be16_bytes 2 @ y @ be16_bytes HTC_MSG_SETUP_COMPLETE_ID]"
    then have "htc_init hif alloc [Ev_txcompletion c1 ok1] [Ev_txcompletion c2 ok2] t h =
        Some (0, t, h2, [Kfree_skb c1, Kfree_skb c2])" and "ready h2"
      using c1 by (simp_all add: htc_init_def)
    then show ?thesis using s1 s2 x y by auto
  qed
qed

end


section \<open>Properties\<close>

definition ex_target :: htc_target where
  \<comment> \<open>a target whose endpoint 21 waits for the WMI control service, with pipes and callbacks set\<close>
  "ex_target = \<lparr>endpoint = (replicate 22 zero_endpoint)
       [0 := zero_endpoint\<lparr>ul_pipeid := 4, dl_pipeid := 3\<rparr>,
        21 := zero_endpoint\<lparr>service_id := 0x100, ul_pipeid := 4, dl_pipeid := 3,
               ep_callbacks := \<lparr>cb_tx = Some Ath9k_wmi_ctrl_tx, cb_rx = Some Ath9k_wmi_ctrl_rx\<rparr>\<rparr>],
     target_wait = 0, cmd_wait = 0, conn_rsp_epid = 0, credits = 33, credit_size = 0,
     htc_flags = 0, tgt_ready = 0\<rparr>"

text \<open>C3: a frame built by \<open>htc_issue_send\<close> for a data endpoint and received back through
  \<open>ath9k_htc_rx_msg\<close> is handed to that endpoint's receive callback with exactly the bytes
  that were sent, whatever bytes the uninitialised \<open>control\<close> field holds.\<close>

theorem htc_frame_roundtrip:
  assumes "wf_skb s" and "8 \<le> skb_data s" and "0 < epid" and "epid < ENDPOINT_MAX"
    and "htc_issue_send hif t h s len 0 epid = Some (st, f, t', h', ups)"
    and "cb_rx (ep_callbacks (endpoint t2 ! epid)) = Some fn"
  shows "\<exists>r. ath9k_htc_rx_msg (Some t2) (Some f) (skb_len f) p
               = Some (Some t2, [Ep_rx fn r epid]) \<and> skb_bytes r = skb_bytes s"
proof -
  obtain ctrl where f: "wf_skb f" "length ctrl = 4"
    "skb_bytes f = [word_of_nat epid, 0] @ be16_bytes len @ ctrl @ skb_bytes s"
    by (rule htc_issue_send_frame [OF assms(1,2,5)])
  have "6 \<le> length (be16_bytes len @ ctrl @ skb_bytes s)" using f(2) by simp
  from rx_msg_body_data [OF f(1,3) this assms(3,4,6)] f(2)
  show ?thesis by (fastforce simp: ath9k_htc_rx_msg_def)
qed

theorem htc_frame_roundtrip_witness:
  "\<exists>f r. htc_issue_send
       \<lparr>control_dl_pipe = 3, control_ul_pipe = 4, hif_start = id,
        hif_stop = (\<lambda>t h. Some (t, h, [])), hif_sta_drain = (\<lambda>t h i. Some (t, h, [])),
        hif_send = (\<lambda>t h p s. Some (0, t, h, []))\<rparr>
       ex_target () (skb_pull 8 (skb_of_bytes [1,2,3,4,5,6,7,8,77,88])) 2 0 21
       = Some (0, f, ex_target, (), []) \<and>
     ath9k_htc_rx_msg (Some ex_target) (Some f) (skb_len f) 2
       = Some (Some ex_target, [Ep_rx Ath9k_wmi_ctrl_rx r 21]) \<and> skb_bytes r = [77, 88]"
proof -
  let ?hif = "\<lparr>control_dl_pipe = 3, control_ul_pipe = 4, hif_start = id :: unit \<Rightarrow> unit,
        hif_stop = (\<lambda>t h. Some (t, h, [])), hif_sta_drain = (\<lambda>t h i. Some (t, h, [])),
        hif_send = (\<lambda>t h p s. Some (0, t, h, []))\<rparr>"
  let ?s = "skb_pull 8 (skb_of_bytes [1,2,3,4,5,6,7,8,77,88])"
  have wf: "wf_skb ?s" by (simp add: wf_skb_pull)
  have room: "8 \<le> skb_data ?s" and bytes: "skb_bytes ?s = [77, 88]"
    by (simp_all add: skb_pull_def skb_of_bytes_def fresh_skb_def skb_len_def skb_bytes_def skb_mem_def)
  obtain f where f: "skb_push 8 ?s \<bind> skb_store 0 ([word_of_nat 21, 0] @ be16_bytes 2) = Some f"
    using issue_send_frame [OF wf room, of 21 0 2] by metis
  have send: "htc_issue_send ?hif ex_target () ?s 2 0 21 = Some (0, f, ex_target, (), [])"
    using f by (auto simp: htc_issue_send_def ex_target_def split: Option.bind_splits)
  have cb: "cb_rx (ep_callbacks (endpoint ex_target ! 21)) = Some Ath9k_wmi_ctrl_rx"
    by (simp add: ex_target_def)
  show ?thesis
    using htc_frame_roundtrip [OF wf room _ _ send cb, of 2] send bytes by auto
qed

text \<open>Whatever sequence of received messages and transmit completions the interrupt side
  processes, the endpoint table keeps its 22 entries, no service is connected on two
  endpoints, and the reserved control service stays off the data endpoints.\<close>

theorem htc_events_keep_invariant:
  "htc_inv t \<Longrightarrow> htc_run_events t es = Some (t', ups) \<Longrightarrow> htc_inv t'"
  by (rule htc_inv_run_events)

lemma ex_target_inv: "htc_inv ex_target"
proof -
  have "svc_unique (replicate 22 zero_endpoint)" by (simp add: svc_unique_def zero_endpoint_def)
  then have "svc_unique (endpoint ex_target)"
    unfolding ex_target_def
    by (auto intro!: svc_unique_update simp: zero_endpoint_def nth_list_update split: if_splits)
  then show ?thesis
    by (auto simp: htc_inv_def htc_wf_def ex_target_def zero_endpoint_def nth_list_update service_ids)
qed

theorem htc_events_keep_invariant_witness:
  "\<exists>t' ups. htc_run_events ex_target
      [Ev_rx_msg (skb_of_bytes (conn_rsp_frame 0x100 0 1 1000 [0,0,0,0])) 18 3] = Some (t', ups)
    \<and> htc_inv t' \<and> service_id (endpoint t' ! 1) = 0x100 \<and> service_id (endpoint t' ! 21) = 0"
proof -
  let ?s = "skb_of_bytes (conn_rsp_frame 0x100 0 1 1000 [0,0,0,0])"
  have f: "find_service_from 21 0x100 (endpoint ex_target) = 21"
    by (simp add: ex_target_def numeral_eq_Suc)
  obtain t' where t': "htc_process_conn_rsp ex_target (skb_mem ?s) = Some t'"
    and ep: "service_id (endpoint t' ! 1) = 0x100" "service_id (endpoint t' ! 21) = 0"
    using conn_rsp_frame_fields [of "[0,0,0,0]" "0x100" 0 1 1000 "[]"] f
    by (simp add: htc_process_conn_rsp_def HTC_SERVICE_SUCCESS_def ex_target_def)
  have run: "htc_run_events ex_target [Ev_rx_msg ?s 18 3] = Some (t', [Kfree_skb ?s])"
    using conn_rsp_frame_event [of ?s "0x100" 0 1 1000 "[0,0,0,0]" ex_target 18 3] t' by simp
  show ?thesis
    using htc_events_keep_invariant [OF ex_target_inv run] run ep by blast
qed


text \<open>For a buffer of at least 20 bytes \<open>ath9k_htc_rx_msg\<close> touches no memory outside its
  objects, with one exception: a connect response that reports success for a service the host
  waits for, with an endpoint number of 22 or more. The endpoint number of the response is used
  as an index into \<open>endpoint[]\<close> without a range check, so that frame makes the host write
  past the array.\<close>

theorem rx_msg_fault_iff:
  assumes wf: "htc_wf t" and len: "20 \<le> length (skb_mem s)"
  shows "rx_msg_body t s n p = None \<longleftrightarrow>
    (\<exists>hdr sid e. skb_mem s ! 0 = 0 \<and> rx_ctrl_hdr s (skb_mem s ! 1) = Some hdr \<and>
       get_be16 hdr 8 = Some HTC_MSG_CONNECT_SERVICE_RESPONSE_ID \<and>
       byte_at hdr 12 = Some HTC_SERVICE_SUCCESS \<and> get_be16 hdr 10 = Some sid \<and>
       find_service_from 21 sid (endpoint t) \<noteq> 0 \<and>
       byte_at hdr 13 = Some e \<and> ENDPOINT_MAX \<le> unat e)"
proof -
  have b: "byte_at (skb_mem s) 0 = Some (skb_mem s ! 0)" "byte_at (skb_mem s) 1 = Some (skb_mem s ! 1)"
    "byte_at (skb_mem s) 4 = Some (skb_mem s ! 4)"
    using len by (auto simp: byte_at_def)
  have w: "\<exists>w. get_be32 (skb_mem s) 0 = Some w"
    using len by (auto simp: get_be32_def byte_at_def)
  then have "\<exists>hdr. rx_ctrl_hdr s (skb_mem s ! 1) = Some hdr \<and> 16 \<le> length hdr"
    using len by (auto simp: rx_ctrl_hdr_def)
  then obtain hdr where hdr: "rx_ctrl_hdr s (skb_mem s ! 1) = Some hdr"
    and hlen: "16 \<le> length hdr" by blast
  have rd: "\<exists>x. byte_at hdr 12 = Some x" "\<exists>x. byte_at hdr 13 = Some x" "\<exists>x. get_be16 hdr 8 = Some x"
    "\<exists>x. get_be16 hdr 10 = Some x" "\<exists>x. get_be16 hdr 14 = Some x" "\<exists>x. get_be16 hdr 4 = Some x"
    using hlen by (auto simp: byte_at_def get_be16_def)
  have data: "rx_msg_data t s f m e \<noteq> None" for f m e
    using b(3) by (auto simp: rx_msg_data_def Let_def split: option.splits)
  have rdy: "htc_process_target_rdy t hdr \<noteq> None"
    using rd(6) by (auto simp: htc_process_target_rdy_def Let_def)
  have ctl: "rx_msg_control t s (skb_mem s ! 1) = None \<longleftrightarrow>
      get_be16 hdr 8 = Some HTC_MSG_CONNECT_SERVICE_RESPONSE_ID \<and> htc_process_conn_rsp t hdr = None"
    using hdr rd(3) rdy by (auto simp: rx_msg_control_def htc_msg_ids split: Option.bind_splits)
  have conn: "htc_process_conn_rsp t hdr = None \<longleftrightarrow>
      (\<exists>sid e. byte_at hdr 12 = Some HTC_SERVICE_SUCCESS \<and> get_be16 hdr 10 = Some sid \<and>
         find_service_from 21 sid (endpoint t) \<noteq> 0 \<and> byte_at hdr 13 = Some e \<and> 22 \<le> unat e)"
    using rd(1,2,4,5) wf
    by (auto simp: htc_process_conn_rsp_def Let_def htc_wf_def split: if_splits)
  have "rx_msg_body t s n p = None \<longleftrightarrow>
      skb_mem s ! 0 = 0 \<and> rx_msg_control t s (skb_mem s ! 1) = None"
    using b(1,2) data by (auto simp: rx_msg_body_def unat_eq_zero)
  then show ?thesis using ctl conn hdr by auto
qed

theorem rx_msg_fault_iff_witness:
  "rx_msg_body ex_target (skb_of_bytes (conn_rsp_frame 0x100 0 200 1000 [0,0,0,0] @ [0,0])) 18 3 = None"
proof -
  let ?m = "conn_rsp_frame 0x100 0 200 1000 [0,0,0,0] @ [0,0]"
  have wf: "htc_wf ex_target" by (simp add: htc_wf_def ex_target_def)
  have len: "20 \<le> length (skb_mem (skb_of_bytes ?m))" by (simp add: conn_rsp_frame_def)
  have hd: "?m ! 0 = 0" "?m ! 1 = 0" by (simp_all add: conn_rsp_frame_def)
  have f: "find_service_from 21 0x100 (endpoint ex_target) \<noteq> 0"
    by (simp add: ex_target_def numeral_eq_Suc)
  show ?thesis
    unfolding rx_msg_fault_iff [OF wf len]
    using conn_rsp_frame_fields [of "[0,0,0,0]" "0x100" 0 200 1000 "[0,0]"] f hd
    by (auto simp: rx_ctrl_hdr_def HTC_SERVICE_SUCCESS_def)
qed

text \<open>The target's READY message is acknowledged (the ready count and the completion are
  raised, endpoint 0 becomes the control service), but the credit size the host records is the
  first half of the frame header's \<open>control\<close> field, not the \<open>credit_size\<close> of the message:
  \<open>ath9k_htc_rx_msg\<close> passes the header where \<open>htc_process_target_rdy\<close> expects the message.\<close>

theorem target_ready_credit_size:
  assumes "htc_wf t" and "wf_skb s"
    and "skb_bytes s = ([0, 0] @ be16_bytes 8 @ be16_bytes c @ [x, y])
           @ be16_bytes HTC_MSG_READY_ID @ be16_bytes cr @ be16_bytes cs @ [me, pad]"
  shows "\<exists>t'. rx_msg_body t s n p = Some (t', [Kfree_skb s]) \<and> credit_size t' = c \<and>
     tgt_ready t' = tgt_ready t + 1 \<and> target_wait t' = Suc (target_wait t) \<and>
     service_id (endpoint t' ! 0) = HTC_CTRL_RSVD_SVC"
proof -
  let ?rest = "drop (length (skb_bytes s)) (skb_mem s)"
  have m: "skb_mem s = skb_bytes s @ ?rest" using skb_mem_prefix [OF assms(2) refl] .
  have b: "byte_at (skb_mem s) 0 = Some 0" "byte_at (skb_mem s) 1 = Some 0"
    by (rule rx_frame_bytes [OF assms(2), of 0 0]; simp add: assms(3))+
  have "get_be16 (([0, 0] @ be16_bytes 8 @ be16_bytes c @ [x, y]) @ be16_bytes HTC_MSG_READY_ID
          @ (be16_bytes cr @ be16_bytes cs @ [me, pad] @ ?rest)) 8 = Some HTC_MSG_READY_ID"
    by (rule get_be16_frame) simp
  then have id: "get_be16 (skb_mem s) 8 = Some HTC_MSG_READY_ID"
    using m assms(3) by simp
  have "get_be16 (([0, 0] @ be16_bytes 8) @ be16_bytes c @ ([x, y] @ be16_bytes HTC_MSG_READY_ID
          @ be16_bytes cr @ be16_bytes cs @ [me, pad] @ ?rest)) 4 = Some c"
    by (rule get_be16_frame) simp
  then have c: "get_be16 (skb_mem s) 4 = Some c" using m assms(3) by simp
  show ?thesis
    using b id c assms(1)
    by (simp add: rx_msg_body_def rx_msg_control_def rx_ctrl_hdr_def htc_process_target_rdy_def
        Let_def htc_wf_def)
qed

theorem target_ready_credit_size_witness:
  "\<exists>t'. rx_msg_body ex_target
      (skb_of_bytes (([0, 0] @ be16_bytes 8 @ be16_bytes 0 @ [0, 0])
         @ be16_bytes HTC_MSG_READY_ID @ be16_bytes 33 @ be16_bytes 1664 @ [9, 0])) 16 3
      = Some (t', [Kfree_skb (skb_of_bytes (([0, 0] @ be16_bytes 8 @ be16_bytes 0 @ [0, 0])
         @ be16_bytes HTC_MSG_READY_ID @ be16_bytes 33 @ be16_bytes 1664 @ [9, 0]))])
     \<and> credit_size t' = 0 \<and> tgt_ready t' = 1"
proof -
  have wf: "htc_wf ex_target" by (simp add: htc_wf_def ex_target_def)
  show ?thesis
    using target_ready_credit_size [OF wf wf_skb_of_bytes skb_bytes_of_bytes,
        where c = 0 and x = 0 and y = 0 and cr = 33 and cs = 1664 and me = 9 and pad = 0]
    by (auto simp: ex_target_def)
qed

end
