(* ===== verification/Hif_Usb_Rx.thy ===== *)
theory Hif_Usb_Rx
  imports Htc_Hst
begin

text \<open>
  The receive side of the USB transport (\<open>ath9k/hif_usb.c\<close>): splitting a bulk transfer into
  the packets it carries (stream mode), carrying a packet over from one transfer to the next,
  and the completion callbacks of the receive and register-in URBs.

  \<open>hif_dev->remain_skb\<close> is never reset by the code. The model keeps what the pointer refers
  to: nothing (\<open>Remain_null\<close>), a buffer the driver owns (\<open>Remain_live\<close>), the buffer that sits
  in \<open>skb_pool\<close> (\<open>Remain_pooled\<close>), or a buffer that was handed to HTC and may be freed
  (\<open>Remain_dangling\<close>); an access through a dangling pointer is a fault.
\<close>

section \<open>Data\<close>

datatype remain_ptr =
    Remain_null
  | Remain_live sk_buff
  | Remain_pooled sk_buff
  | Remain_dangling

record hif_usb_rx =
  remain_skb :: remain_ptr
  rx_remain_len :: int
  rx_transfer_len :: int
  rx_pad_len :: int

abbreviation (input) MAX_RX_BUF_SIZE :: nat where "MAX_RX_BUF_SIZE \<equiv> 16384"
abbreviation (input) MAX_PKT_NUM_IN_TRANSFER :: nat where "MAX_PKT_NUM_IN_TRANSFER \<equiv> 10"
abbreviation (input) MAX_REG_IN_BUF_SIZE :: nat where "MAX_REG_IN_BUF_SIZE \<equiv> 64"

definition ATH_USB_RX_STREAM_MODE_TAG :: u16 where "ATH_USB_RX_STREAM_MODE_TAG = 0x4e00"

datatype rx_exit = Rx_err_label | Rx_tag_return

section \<open>Operations\<close>

definition rx_take_remain ::
  "hif_usb_rx \<Rightarrow> bytes \<Rightarrow> (hif_usb_rx \<times> nat \<times> sk_buff list) option" where
  \<comment> \<open>the part before the loop: completes the packet the previous transfer left over;
      yields the state, \<open>index\<close> and \<open>skb_pool\<close>\<close>
  "rx_take_remain r mem =
     (if rx_remain_len r \<noteq> 0 then
        (case remain_skb r of
           Remain_null \<Rightarrow> Some (r, nat (rx_remain_len r), [])
         | Remain_dangling \<Rightarrow> None
         | Remain_pooled rs \<Rightarrow> None
         | Remain_live rs \<Rightarrow>
             (let n = rx_remain_len r - rx_pad_len r; off = rx_transfer_len r in
              if n < 0 \<or> off < 0 then None
              else do {
                src \<leftarrow> read_bytes mem 0 (nat n);
                rs \<leftarrow> skb_store (nat off) src rs;
                rs \<leftarrow> skb_put (nat (off + n)) rs;
                Some (r\<lparr>rx_remain_len := 0, remain_skb := Remain_pooled rs\<rparr>,
                      nat (rx_remain_len r), [rs]) }))
      else Some (r, 0, []))"

definition rx_padding :: "u16 \<Rightarrow> nat" where
  "rx_padding pkt_len = (let pad = 4 - unat (pkt_len AND 3) in if pad = 4 then 0 else pad)"

definition pool_add :: "sk_buff list \<Rightarrow> sk_buff \<Rightarrow> sk_buff list option" where
  "pool_add pool s = (if length pool < MAX_PKT_NUM_IN_TRANSFER then Some (pool @ [s]) else None)"

function rx_loop ::
  "(nat \<Rightarrow> nat \<Rightarrow> sk_buff option) \<Rightarrow> bytes \<Rightarrow> nat \<Rightarrow> nat \<Rightarrow> nat \<Rightarrow> hif_usb_rx \<Rightarrow> sk_buff list \<Rightarrow>
     (hif_usb_rx \<times> sk_buff list \<times> rx_exit) option" where
  \<comment> \<open>\<open>alloc k n\<close> is the answer to the \<open>k\<close>-th \<open>__dev_alloc_skb\<close> call; \<open>mem\<close> is the memory at
      \<open>skb->data\<close>, \<open>len\<close> is \<open>skb->len\<close>\<close>
  "rx_loop alloc mem len k index r pool =
     (if index < len then do {
        pkt_len \<leftarrow> get_le16 mem index;
        pkt_tag \<leftarrow> get_le16 mem (index + 2);
        if pkt_tag \<noteq> ATH_USB_RX_STREAM_MODE_TAG then Some (r, pool, Rx_tag_return)
        else do {
          let pad = rx_padding pkt_len;
          let next = index + 4 + unat pkt_len + pad;
          if MAX_RX_BUF_SIZE < next then do {
            let off = int MAX_RX_BUF_SIZE - int index - 4;
            let r = r\<lparr>rx_remain_len := int next - int MAX_RX_BUF_SIZE,
                      rx_transfer_len := off, rx_pad_len := int pad\<rparr>;
            (case alloc k (unat pkt_len + 32) of
               None \<Rightarrow> Some (r, pool, Rx_err_label)
             | Some nskb \<Rightarrow>
                 if off < 0 then None
                 else do {
                   let nskb = skb_reserve 32 nskb;
                   src \<leftarrow> read_bytes mem (index + 4) (nat off);
                   nskb \<leftarrow> skb_store 0 src nskb;
                   rx_loop alloc mem len (Suc k) next (r\<lparr>remain_skb := Remain_live nskb\<rparr>) pool }) }
          else
            (case alloc k (unat pkt_len + 32) of
               None \<Rightarrow> Some (r, pool, Rx_err_label)
             | Some nskb \<Rightarrow> do {
                 let nskb = skb_reserve 32 nskb;
                 src \<leftarrow> read_bytes mem (index + 4) (unat pkt_len);
                 nskb \<leftarrow> skb_store 0 src nskb;
                 nskb \<leftarrow> skb_put (unat pkt_len) nskb;
                 pool \<leftarrow> pool_add pool nskb;
                 rx_loop alloc mem len (Suc k) next r pool }) } }
      else Some (r, pool, Rx_err_label))"
  by pat_completeness auto
termination
  by (relation "measure (\<lambda>(alloc, mem, len, k, index, r, pool). len - index)") auto

declare rx_loop.simps [simp del]

definition remain_after_delivery :: "remain_ptr \<Rightarrow> remain_ptr" where
  "remain_after_delivery p = (case p of Remain_pooled s \<Rightarrow> Remain_dangling | _ \<Rightarrow> p)"

definition remain_after_return :: "remain_ptr \<Rightarrow> remain_ptr" where
  "remain_after_return p = (case p of Remain_pooled s \<Rightarrow> Remain_live s | _ \<Rightarrow> p)"

fun deliver_pool ::
  "htc_target option \<Rightarrow> sk_buff list \<Rightarrow> (htc_target option \<times> htc_upcall list) option" where
  "deliver_pool t [] = Some (t, [])"
| "deliver_pool t (s # pool) = do {
     (t, u) \<leftarrow> ath9k_htc_rx_msg t (Some s) (skb_len s) USB_WLAN_RX_PIPE;
     (t, us) \<leftarrow> deliver_pool t pool;
     Some (t, u @ us) }"

definition ath9k_hif_usb_rx_stream ::
  "(nat \<Rightarrow> nat \<Rightarrow> sk_buff option) \<Rightarrow> htc_target option \<Rightarrow> hif_usb_rx \<Rightarrow> sk_buff \<Rightarrow>
     (htc_target option \<times> hif_usb_rx \<times> htc_upcall list \<times> sk_buff list) option" where
  \<comment> \<open>the last component: buffers in \<open>skb_pool\<close> that the early return neither delivers nor frees\<close>
  "ath9k_hif_usb_rx_stream alloc t r skb = do {
     (r, index, pool) \<leftarrow> rx_take_remain r (skb_mem skb);
     (r, pool, ex) \<leftarrow> rx_loop alloc (skb_mem skb) (skb_len skb) 0 index r pool;
     (case ex of
        Rx_tag_return \<Rightarrow>
          Some (t, r\<lparr>remain_skb := remain_after_return (remain_skb r)\<rparr>, [], pool)
      | Rx_err_label \<Rightarrow> do {
          (t, ups) \<leftarrow> deliver_pool t pool;
          Some (t, r\<lparr>remain_skb := remain_after_delivery (remain_skb r)\<rparr>, ups, []) }) }"

text \<open>How an URB callback leaves its URB: submitted again with its buffer, submitted with a new
  buffer, or given up.\<close>

datatype urb_after = Urb_resubmitted sk_buff | Urb_dropped

definition urb_dead_status :: "int \<Rightarrow> bool" where
  "urb_dead_status st \<longleftrightarrow> st \<in> {- ENOENT, - ECONNRESET, - ENODEV, - ESHUTDOWN}"

definition ath9k_hif_usb_rx_cb ::
  "(nat \<Rightarrow> nat \<Rightarrow> sk_buff option) \<Rightarrow> int \<Rightarrow> int \<Rightarrow> nat \<Rightarrow> bool \<Rightarrow> htc_target option \<Rightarrow> hif_usb_rx \<Rightarrow>
     sk_buff option \<Rightarrow>
     (htc_target option \<times> hif_usb_rx \<times> htc_upcall list \<times> sk_buff list \<times> urb_after) option" where
  \<comment> \<open>arguments: \<open>usb_submit_urb\<close>'s result, \<open>urb->status\<close>, \<open>urb->actual_length\<close>, whether
      \<open>hif_dev\<close> is set, and \<open>urb->context\<close>\<close>
  "ath9k_hif_usb_rx_cb alloc submit status actual have_dev t r ctx =
     (case ctx of None \<Rightarrow> Some (t, r, [], [], Urb_dropped)
      | Some skb \<Rightarrow>
          if \<not> have_dev \<or> urb_dead_status status
          then Some (t, r, [Kfree_skb skb], [], Urb_dropped)
          else do {
            (t, r, ups, leak) \<leftarrow>
              (if status = 0 \<and> actual \<noteq> 0 then do {
                 s \<leftarrow> skb_put actual skb;
                 ath9k_hif_usb_rx_stream alloc t r s }
               else Some (t, r, [], []));
            let skb = skb\<lparr>skb_tail := skb_data skb\<rparr>;
            Some (if submit \<noteq> 0 then (t, r, ups @ [Kfree_skb skb], leak, Urb_dropped)
                  else (t, r, ups, leak, Urb_resubmitted skb)) })"

datatype skb_owner = Owned_by_driver | Given_to_htc

definition ath9k_hif_usb_reg_in_cb ::
  "(nat \<Rightarrow> sk_buff option) \<Rightarrow> int \<Rightarrow> int \<Rightarrow> nat \<Rightarrow> bool \<Rightarrow> htc_target option \<Rightarrow> sk_buff option \<Rightarrow>
     (htc_target option \<times> htc_upcall list \<times> urb_after \<times> (sk_buff \<times> skb_owner) list) option" where
  \<comment> \<open>the last component: the buffers passed to \<open>kfree_skb\<close> by this function, with who owned
      them at that point\<close>
  "ath9k_hif_usb_reg_in_cb alloc submit status actual have_dev t ctx =
     (case ctx of None \<Rightarrow> Some (t, [], Urb_dropped, [])
      | Some skb \<Rightarrow>
          if \<not> have_dev \<or> urb_dead_status status
          then Some (t, [], Urb_dropped, [(skb, Owned_by_driver)])
          else if status \<noteq> 0 then
            (let skb = skb\<lparr>skb_tail := skb_data skb\<rparr> in
             Some (if submit \<noteq> 0 then (t, [], Urb_dropped, [(skb, Owned_by_driver)])
                   else (t, [], Urb_resubmitted skb, [])))
          else if actual \<noteq> 0 then do {
            skb \<leftarrow> skb_put actual skb;
            (t, ups) \<leftarrow> ath9k_htc_rx_msg t (Some skb) (skb_len skb) USB_REG_IN_PIPE;
            Some (case alloc MAX_REG_IN_BUF_SIZE of
                    None \<Rightarrow> (t, ups, Urb_dropped, [])
                  | Some nskb \<Rightarrow>
                      if submit \<noteq> 0 then (t, ups, Urb_dropped, [(skb, Given_to_htc)])
                      else (t, ups, Urb_resubmitted nskb, [])) }
          else Some (if submit \<noteq> 0 then (t, [], Urb_dropped, [(skb, Owned_by_driver)])
                     else (t, [], Urb_resubmitted skb, [])))"


section \<open>The stream as the target produces it\<close>

definition rx_frame :: "bytes \<times> bytes \<Rightarrow> bytes" where
  \<comment> \<open>a packet and the padding bytes after it\<close>
  "rx_frame pz = le16_bytes (word_of_nat (length (fst pz))) @ le16_bytes ATH_USB_RX_STREAM_MODE_TAG
     @ fst pz @ snd pz"

definition wf_packet :: "bytes \<times> bytes \<Rightarrow> bool" where
  "wf_packet pz \<longleftrightarrow> length (fst pz) < 65536 \<and> length (snd pz) = (4 - length (fst pz) mod 4) mod 4"

definition rx_alloc_at :: "(nat \<Rightarrow> nat \<Rightarrow> sk_buff option) \<Rightarrow> nat \<Rightarrow> bool" where
  \<comment> \<open>the \<open>k\<close>-th allocation succeeds with what the kernel documents\<close>
  "rx_alloc_at alloc k \<longleftrightarrow>
     (\<forall>n. \<exists>s. alloc k n = Some s \<and> n \<le> length (skb_buf s) \<and> skb_data s = 0 \<and> skb_tail s = 0)"

definition rx_alloc_ok :: "(nat \<Rightarrow> nat \<Rightarrow> sk_buff option) \<Rightarrow> bool" where
  "rx_alloc_ok alloc \<longleftrightarrow> (\<forall>k. rx_alloc_at alloc k)"

definition rx_idle :: "hif_usb_rx \<Rightarrow> bool" where
  "rx_idle r \<longleftrightarrow> rx_remain_len r = 0 \<and> (\<forall>s. remain_skb r \<noteq> Remain_pooled s)"

definition rx_pending :: "hif_usb_rx \<Rightarrow> bytes \<times> bytes \<Rightarrow> nat \<Rightarrow> bool" where
  \<comment> \<open>the first \<open>m\<close> bytes of the packet have arrived and sit in the buffer \<open>remain_skb\<close>\<close>
  "rx_pending r pz m \<longleftrightarrow>
     wf_packet pz \<and> m < length (fst pz) \<and>
     rx_remain_len r = int (length (fst pz) + length (snd pz) - m) \<and>
     rx_transfer_len r = int m \<and> rx_pad_len r = int (length (snd pz)) \<and>
     (\<exists>s. remain_skb r = Remain_live s \<and> skb_data s = 32 \<and> skb_tail s = 32 \<and>
          32 + length (fst pz) \<le> length (skb_buf s) \<and>
          take m (drop 32 (skb_buf s)) = take m (fst pz))"

section \<open>Lemmas\<close>

lemma unat_and_3: "unat (w AND 3 :: u16) = unat w mod 4"
proof -
  have "(3 :: u16) = mask 2" by (simp add: mask_eq_exp_minus_1)
  then have "w AND 3 = take_bit 2 w" by (simp add: take_bit_eq_mask)
  then show ?thesis by (simp add: take_bit_eq_mod unat_mod_distrib)
qed

lemma rx_padding_eq: "rx_padding w = (4 - unat w mod 4) mod 4"
proof -
  have "unat w mod 4 < 4" by simp
  then show ?thesis by (auto simp: rx_padding_def unat_and_3 Let_def)
qed

lemma unat_len16: "n < 65536 \<Longrightarrow> unat (word_of_nat n :: u16) = n"
  by (simp add: unat_of_nat take_bit_nat_eq_self)

lemma rx_padding_packet:
  "wf_packet pz \<Longrightarrow> rx_padding (word_of_nat (length (fst pz))) = length (snd pz)"
  by (simp add: rx_padding_eq wf_packet_def unat_len16)

lemma length_rx_frame: "length (rx_frame pz) = 4 + length (fst pz) + length (snd pz)"
  by (simp add: rx_frame_def)

lemma pad4_dvd: "4 dvd 4 + n + (4 - n mod 4) mod (4 :: nat)"
proof -
  have "n mod 4 < 4" by simp
  then consider "n mod 4 = 0" | "n mod 4 = 1" | "n mod 4 = 2" | "n mod 4 = 3" by linarith
  then show ?thesis by cases (simp; presburger)+
qed

lemma rx_frame_dvd4: "wf_packet pz \<Longrightarrow> 4 dvd length (rx_frame pz)"
  using pad4_dvd [of "length (fst pz)"] by (simp add: length_rx_frame wf_packet_def)

lemma rx_frame_header:
  assumes "drop i mem = le16_bytes a @ le16_bytes b @ rest"
  shows "get_le16 mem i = Some a" and "get_le16 mem (i + 2) = Some b"
    and "drop (i + 4) mem = rest"
proof -
  show "get_le16 mem i = Some a" using get_le16_drop [of i mem 0] assms by simp
  have d2: "drop (i + 2) mem = le16_bytes b @ rest"
    using arg_cong [OF assms, of "drop 2"] by (simp add: add.commute)
  then show "get_le16 mem (i + 2) = Some b" using get_le16_drop [of "i + 2" mem 0] by simp
  show "drop (i + 4) mem = rest"
    using arg_cong [OF d2, of "drop 2"] by (simp add: add.commute numeral_eq_Suc)
qed

lemma read_bytes_drop:
  assumes "drop i mem = bs @ rest" and "length bs = n" and "i \<le> length mem"
  shows "read_bytes mem i n = Some bs"
proof -
  have "length mem - i = n + length rest" using arg_cong [OF assms(1), of length] assms(2) by simp
  then have "i + n \<le> length mem" using assms(3) by linarith
  then show ?thesis using assms by (simp add: read_bytes_def)
qed

lemma rx_fill_skb:
  assumes "length src + 32 \<le> length (skb_buf s)" and "skb_data s = 0" and "skb_tail s = 0"
  obtains f where "skb_store 0 src (skb_reserve 32 s) = Some f" and "skb_data f = 32"
    and "skb_tail f = 32" and "length (skb_buf f) = length (skb_buf s)"
    and "take (length src) (drop 32 (skb_buf f)) = src"
proof -
  let ?b = "take 32 (skb_buf s) @ src @ drop (32 + length src) (skb_buf s)"
  let ?f = "(skb_reserve 32 s)\<lparr>skb_buf := ?b\<rparr>"
  have "skb_store 0 src (skb_reserve 32 s) = Some ?f"
    using assms by (simp add: skb_store_def skb_reserve_def write_bytes_def)
  moreover have "length ?b = length (skb_buf s)" using assms(1) by simp
  ultimately show thesis using that [of ?f] assms by (simp add: skb_reserve_def)
qed

lemma skb_put_whole:
  assumes "skb_data f = 32" and "skb_tail f = 32" and "32 + n \<le> length (skb_buf f)"
    and "take n (drop 32 (skb_buf f)) = src"
  obtains g where "skb_put n f = Some g" and "skb_bytes g = src" and "wf_skb g"
  using that [of "f\<lparr>skb_tail := 32 + n\<rparr>"] assms
  by (simp add: skb_put_def skb_bytes_def skb_len_def skb_mem_def wf_skb_def)

subsection \<open>One packet, many packets\<close>

lemma rx_loop_packet:
  assumes al: "rx_alloc_at alloc k" and wf: "wf_packet pz"
    and mem: "drop i mem = rx_frame pz @ rest" and i: "i < len" "i \<le> length mem"
    and fits: "i + length (rx_frame pz) \<le> MAX_RX_BUF_SIZE" and pool: "length pool < 10"
  obtains g where "rx_loop alloc mem len k i r pool =
      rx_loop alloc mem len (Suc k) (i + length (rx_frame pz)) r (pool @ [g])"
    and "skb_bytes g = fst pz" and "wf_skb g"
proof -
  let ?n = "length (fst pz)" and ?w = "word_of_nat (length (fst pz)) :: u16"
  have un: "unat ?w = ?n" using wf by (simp add: wf_packet_def unat_len16)
  have hdr: "get_le16 mem i = Some ?w" "get_le16 mem (i + 2) = Some ATH_USB_RX_STREAM_MODE_TAG"
      "drop (i + 4) mem = fst pz @ snd pz @ rest"
    using rx_frame_header [of i mem ?w ATH_USB_RX_STREAM_MODE_TAG "fst pz @ snd pz @ rest"] mem
    by (simp_all add: rx_frame_def)
  have i4: "i + 4 \<le> length mem"
    using arg_cong [OF mem, of length] i(2) by (simp add: length_rx_frame)
  obtain s where s: "alloc k (?n + 32) = Some s" "?n + 32 \<le> length (skb_buf s)"
      "skb_data s = 0" "skb_tail s = 0"
    using al by (auto simp: rx_alloc_ok_def rx_alloc_at_def)
  obtain f where f: "skb_store 0 (fst pz) (skb_reserve 32 s) = Some f" "skb_data f = 32"
      "skb_tail f = 32" "length (skb_buf f) = length (skb_buf s)"
      "take ?n (drop 32 (skb_buf f)) = fst pz"
    by (rule rx_fill_skb [OF s(2-4)])
  obtain g where g: "skb_put ?n f = Some g" "skb_bytes g = fst pz" "wf_skb g"
    by (rule skb_put_whole [OF f(2,3) _ f(5)]) (use f(4) s(2) in simp)
  have rd: "read_bytes mem (i + 4) ?n = Some (fst pz)"
    by (rule read_bytes_drop [OF hdr(3) refl i4])
  have nx: "i + length (rx_frame pz) = i + 4 + ?n + rx_padding ?w"
    using rx_padding_packet [OF wf] by (simp add: length_rx_frame)
  have "rx_loop alloc mem len k i r pool =
      rx_loop alloc mem len (Suc k) (i + length (rx_frame pz)) r (pool @ [g])"
    unfolding nx
    by (subst rx_loop.simps)
       (use i(1) hdr(1,2) un fits [unfolded nx] s(1) rd f(1) g(1) pool in
         \<open>simp add: Let_def pool_add_def\<close>)
  then show thesis using that g(2,3) by blast
qed

lemma rx_loop_packets:
  shows "\<lbrakk>\<forall>j < length ps. rx_alloc_at alloc (k + j); \<forall>pz \<in> set ps. wf_packet pz; drop i mem = concat (map rx_frame ps) @ rest; i \<le> length mem;
          i + length (concat (map rx_frame ps)) \<le> len;
          i + length (concat (map rx_frame ps)) \<le> MAX_RX_BUF_SIZE;
          length pool + length ps \<le> 10\<rbrakk> \<Longrightarrow>
     \<exists>gs. rx_loop alloc mem len k i r pool =
            rx_loop alloc mem len (k + length ps) (i + length (concat (map rx_frame ps))) r (pool @ gs)
        \<and> map skb_bytes gs = map fst ps \<and> (\<forall>g \<in> set gs. wf_skb g)"
proof (induction ps arbitrary: k i pool)
  case Nil
  then show ?case by simp
next
  case (Cons pz ps)
  let ?i = "i + length (rx_frame pz)"
  have mem: "drop i mem = rx_frame pz @ concat (map rx_frame ps) @ rest"
    using Cons.prems(3) by simp
  have il: "i < len" using Cons.prems(5) by (simp add: length_rx_frame)
  obtain g where g: "rx_loop alloc mem len k i r pool = rx_loop alloc mem len (Suc k) ?i r (pool @ [g])"
      "skb_bytes g = fst pz" "wf_skb g"
    by (rule rx_loop_packet [OF _ _ mem il Cons.prems(4), where r = r and pool = pool and k = k])
       (use Cons.prems in auto)
  have "\<exists>gs. rx_loop alloc mem len (Suc k) ?i r (pool @ [g]) =
            rx_loop alloc mem len (Suc k + length ps) (?i + length (concat (map rx_frame ps))) r
              ((pool @ [g]) @ gs)
        \<and> map skb_bytes gs = map fst ps \<and> (\<forall>g \<in> set gs. wf_skb g)"
  proof (rule Cons.IH)
    show "drop ?i mem = concat (map rx_frame ps) @ rest"
      using arg_cong [OF mem, of "drop (length (rx_frame pz))"] by (simp add: add.commute)
    show "\<forall>j < length ps. rx_alloc_at alloc (Suc k + j)" using Cons.prems(1) by auto
    show "?i \<le> length mem" using arg_cong [OF mem, of length] Cons.prems(4) by simp
  qed (use Cons.prems in auto)
  then obtain gs where gs: "rx_loop alloc mem len (Suc k) ?i r (pool @ [g]) =
            rx_loop alloc mem len (Suc k + length ps) (?i + length (concat (map rx_frame ps))) r
              ((pool @ [g]) @ gs)"
      "map skb_bytes gs = map fst ps" "\<forall>g \<in> set gs. wf_skb g"
    by blast
  then show ?case using g by (intro exI [of _ "g # gs"]) (simp add: add.assoc)
qed

text \<open>The last packet of a full transfer, cut after \<open>m\<close> of its bytes.\<close>

lemma rx_loop_cut:
  assumes al: "rx_alloc_ok alloc" and wf: "wf_packet pz"
    and mem: "drop i mem = take (4 + m) (rx_frame pz) @ rest" and i: "i < len" "i \<le> length mem"
    and full: "i + 4 + m = MAX_RX_BUF_SIZE" and m: "m < length (fst pz)" and len: "len \<le> MAX_RX_BUF_SIZE"
  shows "\<exists>r'. rx_loop alloc mem len k i r pool = Some (r', pool, Rx_err_label) \<and> rx_pending r' pz m"
proof -
  let ?n = "length (fst pz)" and ?w = "word_of_nat (length (fst pz)) :: u16"
  let ?pad = "length (snd pz)"
  have un: "unat ?w = ?n" using wf by (simp add: wf_packet_def unat_len16)
  have "take (4 + m) (rx_frame pz)
      = le16_bytes ?w @ le16_bytes ATH_USB_RX_STREAM_MODE_TAG @ take m (fst pz)"
    using m by (simp add: rx_frame_def)
  then have hdr: "get_le16 mem i = Some ?w" "get_le16 mem (i + 2) = Some ATH_USB_RX_STREAM_MODE_TAG"
      "drop (i + 4) mem = take m (fst pz) @ rest"
    using rx_frame_header [of i mem ?w ATH_USB_RX_STREAM_MODE_TAG "take m (fst pz) @ rest"] mem
    by simp_all
  have i4: "i + 4 \<le> length mem"
    using arg_cong [OF mem, of length] i(2) m by (simp add: length_rx_frame)
  obtain s where s: "alloc k (?n + 32) = Some s" "?n + 32 \<le> length (skb_buf s)"
      "skb_data s = 0" "skb_tail s = 0"
    using al by (auto simp: rx_alloc_ok_def rx_alloc_at_def)
  have sm: "length (take m (fst pz)) + 32 \<le> length (skb_buf s)" using s(2) m by simp
  obtain f where f: "skb_store 0 (take m (fst pz)) (skb_reserve 32 s) = Some f" "skb_data f = 32"
      "skb_tail f = 32" "length (skb_buf f) = length (skb_buf s)"
      "take m (drop 32 (skb_buf f)) = take m (fst pz)"
    using m by (rule_tac rx_fill_skb [OF sm s(3,4)]) simp_all
  have rd: "read_bytes mem (i + 4) m = Some (take m (fst pz))"
    by (rule read_bytes_drop [OF hdr(3) _ i4]) (use m in simp)
  have pad: "rx_padding ?w = ?pad" by (rule rx_padding_packet [OF wf])
  have big: "MAX_RX_BUF_SIZE < i + 4 + ?n + ?pad" using full m by simp
  have off: "nat (16380 - int i) = m" "0 \<le> 16380 - int i" using full by simp_all
  let ?r = "r\<lparr>rx_remain_len := int (i + 4 + ?n + ?pad) - int MAX_RX_BUF_SIZE,
              rx_transfer_len := int MAX_RX_BUF_SIZE - int i - 4,
              rx_pad_len := int ?pad, remain_skb := Remain_live f\<rparr>"
  have stop: "rx_loop alloc mem len (Suc k) (i + 4 + ?n + ?pad) ?r pool = Some (?r, pool, Rx_err_label)"
    using len big by (subst rx_loop.simps) simp
  have "rx_loop alloc mem len k i r pool = Some (?r, pool, Rx_err_label)"
    by (subst rx_loop.simps)
       (use i(1) hdr(1,2) un pad big s(1) rd f(1) stop off in \<open>simp add: Let_def\<close>)
  moreover have "rx_pending ?r pz m"
    using wf m f s(2) full by (simp add: rx_pending_def)
  ultimately show ?thesis by blast
qed

subsection \<open>The transfer as a step of an abstract receiver\<close>

text \<open>The abstract receiver knows only which packet, if any, is incomplete and how many of its
  bytes have arrived.\<close>

type_synonym rx_abs = "((bytes \<times> bytes) \<times> nat) option"

definition rx_rel :: "hif_usb_rx \<Rightarrow> rx_abs \<Rightarrow> bool" where
  "rx_rel r p = (case p of None \<Rightarrow> rx_idle r | Some (pz, m) \<Rightarrow> rx_pending r pz m)"

definition abs_tail :: "rx_abs \<Rightarrow> bytes" where
  "abs_tail p = (case p of None \<Rightarrow> [] | Some (pz, m) \<Rightarrow> drop (4 + m) (rx_frame pz))"

definition abs_head :: "rx_abs \<Rightarrow> bytes" where
  "abs_head q = (case q of None \<Rightarrow> [] | Some (pz, m) \<Rightarrow> take (4 + m) (rx_frame pz))"

definition abs_done :: "rx_abs \<Rightarrow> bytes list" where
  "abs_done p = (case p of None \<Rightarrow> [] | Some (pz, m) \<Rightarrow> [fst pz])"

definition abs_transfer :: "rx_abs \<Rightarrow> (bytes \<times> bytes) list \<Rightarrow> rx_abs \<Rightarrow> bytes" where
  "abs_transfer p ps q = abs_tail p @ concat (map rx_frame ps) @ abs_head q"

definition abs_transfer_ok :: "rx_abs \<Rightarrow> (bytes \<times> bytes) list \<Rightarrow> rx_abs \<Rightarrow> bool" where
  \<comment> \<open>a packet is cut only by the end of a full transfer; at most ten packets complete\<close>
  "abs_transfer_ok p ps q \<longleftrightarrow>
     (\<forall>pz \<in> set ps. wf_packet pz) \<and> length (abs_done p) + length ps \<le> MAX_PKT_NUM_IN_TRANSFER \<and>
     (case q of None \<Rightarrow> length (abs_transfer p ps q) \<le> MAX_RX_BUF_SIZE
      | Some (pz, m) \<Rightarrow> wf_packet pz \<and> m < length (fst pz) \<and>
                        length (abs_transfer p ps q) = MAX_RX_BUF_SIZE)"

lemma rx_take_idle: "rx_idle r \<Longrightarrow> rx_take_remain r mem = Some (r, 0, [])"
  by (simp add: rx_take_remain_def rx_idle_def)

lemma rx_take_pending:
  assumes pend: "rx_pending r pz m" and mem: "mem = drop (4 + m) (rx_frame pz) @ rest"
  obtains r' g where "rx_take_remain r mem = Some (r', length (drop (4 + m) (rx_frame pz)), [g])"
    and "skb_bytes g = fst pz" and "wf_skb g" and "rx_remain_len r' = 0"
    and "remain_skb r' = Remain_pooled g"
proof -
  let ?n = "length (fst pz)" and ?pad = "length (snd pz)"
  obtain s where s: "remain_skb r = Remain_live s" "skb_data s = 32" "skb_tail s = 32"
      "32 + ?n \<le> length (skb_buf s)" "take m (drop 32 (skb_buf s)) = take m (fst pz)"
    and m: "m < ?n" and len: "rx_remain_len r = int (?n + ?pad - m)"
      "rx_transfer_len r = int m" "rx_pad_len r = int ?pad"
    using pend by (auto simp: rx_pending_def)
  have tail: "drop (4 + m) (rx_frame pz) = drop m (fst pz) @ snd pz"
    using m by (simp add: rx_frame_def)
  have nn: "rx_remain_len r - rx_pad_len r = int (?n - m)" using len m by simp
  have rd: "read_bytes mem 0 (?n - m) = Some (drop m (fst pz))"
    using mem tail by (intro read_bytes_drop [where rest = "snd pz @ rest"]) auto
  let ?b = "take (32 + m) (skb_buf s) @ drop m (fst pz) @ drop (32 + ?n) (skb_buf s)"
  let ?f = "s\<lparr>skb_buf := ?b\<rparr>"
  have st: "skb_store m (drop m (fst pz)) s = Some ?f"
    using s m by (simp add: skb_store_def write_bytes_def)
  have lb: "length ?b = length (skb_buf s)" using s(4) m by simp
  have "take ?n (drop 32 ?b) = take m (drop 32 (skb_buf s)) @ drop m (fst pz)"
    using s(4) m by (simp add: drop_take)
  then have tk: "take ?n (drop 32 (skb_buf ?f)) = fst pz" by (simp add: s(5))
  have lf: "32 + ?n \<le> length (skb_buf ?f)" using lb s(4) by simp
  have f32: "skb_data ?f = 32" "skb_tail ?f = 32" using s(2,3) by simp_all
  obtain g where g: "skb_put ?n ?f = Some g" "skb_bytes g = fst pz" "wf_skb g"
    by (rule skb_put_whole [OF f32 lf tk])
  have nz: "rx_remain_len r \<noteq> 0" using len(1) m by simp
  have ix: "nat (rx_remain_len r) = length (drop (4 + m) (rx_frame pz))"
    using len(1) m tail by simp
  have nm: "nat (int m + int (?n - m)) = ?n" using m by simp
  have "rx_take_remain r mem = Some (r\<lparr>rx_remain_len := 0, remain_skb := Remain_pooled g\<rparr>,
      length (drop (4 + m) (rx_frame pz)), [g])"
    unfolding rx_take_remain_def
    using nz s(1) rd st g(1)
    by (simp only: nn len(2) ix nm if_True remain_ptr.case Let_def nat_int simp_thms
        not_False_eq_True bind.bind_lunit) (use m in simp)
  then show thesis using that g(2,3) by simp
qed

lemma rx_start_rel:
  assumes rel: "rx_rel r p" and mem: "mem = abs_tail p @ rest"
  obtains r' pool where "rx_take_remain r mem = Some (r', length (abs_tail p), pool)"
    and "map skb_bytes pool = abs_done p" and "\<forall>g \<in> set pool. wf_skb g"
    and "rx_remain_len r' = 0"
proof (cases p)
  case None
  then show thesis
    using that [of r "[]"] rel
    by (simp add: rx_rel_def abs_tail_def abs_done_def rx_take_idle) (simp add: rx_idle_def)
next
  case (Some pm)
  obtain pz m where pm: "pm = (pz, m)" by (cases pm)
  have pend: "rx_pending r pz m" and m2: "mem = drop (4 + m) (rx_frame pz) @ rest"
    using rel mem Some pm by (simp_all add: rx_rel_def abs_tail_def)
  obtain r' g where "rx_take_remain r mem = Some (r', length (drop (4 + m) (rx_frame pz)), [g])"
      "skb_bytes g = fst pz" "wf_skb g" "rx_remain_len r' = 0"
    using rx_take_pending [OF pend m2] by blast
  then show thesis
    using that [of r' "[g]"] Some pm by (simp add: abs_tail_def abs_done_def)
qed

lemma rx_finish_rel:
  assumes al: "rx_alloc_ok alloc" and q: "case q of None \<Rightarrow> i = len \<and> i \<le> MAX_RX_BUF_SIZE
        | Some (pz, m) \<Rightarrow> wf_packet pz \<and> m < length (fst pz) \<and> i + 4 + m = MAX_RX_BUF_SIZE \<and>
            len = MAX_RX_BUF_SIZE"
    and mem: "drop i mem = abs_head q @ rest" "i \<le> length mem" and r: "rx_remain_len r = 0"
  obtains r' where "rx_loop alloc mem len k i r pool = Some (r', pool, Rx_err_label)"
    and "rx_rel (r'\<lparr>remain_skb := remain_after_delivery (remain_skb r')\<rparr>) q"
proof (cases q)
  case None
  then have "rx_loop alloc mem len k i r pool = Some (r, pool, Rx_err_label)"
    using q by (subst rx_loop.simps) simp
  then show thesis
    using that [of r] None r
    by (simp add: rx_rel_def rx_idle_def remain_after_delivery_def split: remain_ptr.splits)
next
  case (Some pm)
  obtain pz m where pm: "pm = (pz, m)" by (cases pm)
  have "\<exists>r'. rx_loop alloc mem len k i r pool = Some (r', pool, Rx_err_label) \<and> rx_pending r' pz m"
    by (rule rx_loop_cut [OF al]) (use q mem Some pm in \<open>auto simp: abs_head_def\<close>)
  then obtain r' where r': "rx_loop alloc mem len k i r pool = Some (r', pool, Rx_err_label)"
      "rx_pending r' pz m"
    by blast
  then have "rx_rel (r'\<lparr>remain_skb := remain_after_delivery (remain_skb r')\<rparr>) q"
    by (auto simp: Some pm rx_rel_def rx_pending_def remain_after_delivery_def)
  with r'(1) show thesis using that by blast
qed

lemma abs_lengths:
  assumes "abs_transfer_ok p ps q"
  defines "i \<equiv> length (abs_tail p) + length (concat (map rx_frame ps))"
  shows "length (abs_transfer p ps q) \<le> MAX_RX_BUF_SIZE" and "i \<le> length (abs_transfer p ps q)"
    and "case q of None \<Rightarrow> i = length (abs_transfer p ps q) \<and> i \<le> MAX_RX_BUF_SIZE
        | Some (pz, m) \<Rightarrow> wf_packet pz \<and> m < length (fst pz) \<and> i + 4 + m = MAX_RX_BUF_SIZE \<and>
            length (abs_transfer p ps q) = MAX_RX_BUF_SIZE"
  using assms
  by (auto simp: abs_transfer_ok_def abs_transfer_def abs_head_def length_rx_frame i_def
      split: option.splits prod.splits)

lemma rx_stream_refines:
  assumes al: "rx_alloc_ok alloc" and rel: "rx_rel r p" and ok: "abs_transfer_ok p ps q"
    and wf: "wf_skb skb" and bytes: "skb_bytes skb = abs_transfer p ps q"
  shows "\<exists>gs r'. map skb_bytes gs = abs_done p @ map fst ps \<and> (\<forall>g \<in> set gs. wf_skb g) \<and>
     rx_rel r' q \<and>
     (\<forall>t. ath9k_hif_usb_rx_stream alloc t r skb
       = map_option (\<lambda>(t', ups). (t', r', ups, [])) (deliver_pool t gs))"
proof -
  obtain z where z: "skb_mem skb = skb_bytes skb @ z" by (rule skb_mem_eq_append [OF wf])
  let ?mem = "skb_mem skb" and ?fs = "concat (map rx_frame ps)"
  have mem: "?mem = abs_tail p @ ?fs @ abs_head q @ z" using z bytes by (simp add: abs_transfer_def)
  have len: "skb_len skb = length (abs_transfer p ps q)" using skb_bytes_length [OF wf] bytes by simp
  obtain r1 pool where start: "rx_take_remain r ?mem = Some (r1, length (abs_tail p), pool)"
      "map skb_bytes pool = abs_done p" "\<forall>g \<in> set pool. wf_skb g" "rx_remain_len r1 = 0"
    by (rule rx_start_rel [OF rel mem])
  have lp: "length pool = length (abs_done p)" using arg_cong [OF start(2), of length] by simp
  let ?i = "length (abs_tail p)" and ?j = "length (abs_tail p) + length ?fs"
  note lens = abs_lengths [OF ok]
  have "\<exists>gs. rx_loop alloc ?mem (skb_len skb) 0 ?i r1 pool =
            rx_loop alloc ?mem (skb_len skb) (0 + length ps) ?j r1 (pool @ gs)
        \<and> map skb_bytes gs = map fst ps \<and> (\<forall>g \<in> set gs. wf_skb g)"
  proof (rule rx_loop_packets)
    show "\<forall>j < length ps. rx_alloc_at alloc (0 + j)" using al by (simp add: rx_alloc_ok_def)
    show "drop ?i ?mem = ?fs @ abs_head q @ z" by (simp add: mem)
    show "?i \<le> length ?mem" by (simp add: mem)
    show "length pool + length ps \<le> 10" "\<forall>pz \<in> set ps. wf_packet pz"
      using ok lp by (simp_all add: abs_transfer_ok_def)
  qed (use lens len in simp_all)
  then obtain gs where gs: "rx_loop alloc ?mem (skb_len skb) 0 ?i r1 pool =
            rx_loop alloc ?mem (skb_len skb) (0 + length ps) ?j r1 (pool @ gs)"
      "map skb_bytes gs = map fst ps" "\<forall>g \<in> set gs. wf_skb g"
    by blast
  have dj: "drop ?j ?mem = abs_head q @ z" "?j \<le> length ?mem" by (simp_all add: mem)
  obtain r' where r': "rx_loop alloc ?mem (skb_len skb) (0 + length ps) ?j r1 (pool @ gs)
        = Some (r', pool @ gs, Rx_err_label)"
      "rx_rel (r'\<lparr>remain_skb := remain_after_delivery (remain_skb r')\<rparr>) q"
    by (rule rx_finish_rel [OF al lens(3) [folded len] dj start(4)])
  have "ath9k_hif_usb_rx_stream alloc t r skb = map_option (\<lambda>(t', ups).
      (t', r'\<lparr>remain_skb := remain_after_delivery (remain_skb r')\<rparr>, ups, [])) (deliver_pool t (pool @ gs))"
    for t
    using start(1) gs(1) r'(1)
    by (cases "deliver_pool t (pool @ gs)") (auto simp: ath9k_hif_usb_rx_stream_def)
  then show ?thesis using start(2,3) gs(2,3) r'(2)
    by (intro exI [of _ "pool @ gs"] exI conjI) auto
qed

subsection \<open>A session of transfers\<close>

fun rx_stream_run ::
  "(nat \<Rightarrow> nat \<Rightarrow> sk_buff option) \<Rightarrow> htc_target option \<Rightarrow> hif_usb_rx \<Rightarrow> sk_buff list \<Rightarrow>
     (htc_target option \<times> hif_usb_rx \<times> htc_upcall list \<times> sk_buff list) option" where
  \<comment> \<open>one transfer after another\<close>
  "rx_stream_run alloc t r [] = Some (t, r, [], [])"
| "rx_stream_run alloc t r (s # ss) = do {
     (t, r, us, l) \<leftarrow> ath9k_hif_usb_rx_stream alloc t r s;
     (t, r, us', l') \<leftarrow> rx_stream_run alloc t r ss;
     Some (t, r, us @ us', l @ l') }"

fun session_ok :: "rx_abs \<Rightarrow> ((bytes \<times> bytes) list \<times> rx_abs) list \<Rightarrow> bool" where
  "session_ok p [] \<longleftrightarrow> p = None"
| "session_ok p ((ps, q) # tr) \<longleftrightarrow> abs_transfer_ok p ps q \<and> session_ok q tr"

fun session_data :: "rx_abs \<Rightarrow> ((bytes \<times> bytes) list \<times> rx_abs) list \<Rightarrow> bytes list" where
  "session_data p [] = []"
| "session_data p ((ps, q) # tr) = abs_transfer p ps q # session_data q tr"

fun session_packets :: "rx_abs \<Rightarrow> ((bytes \<times> bytes) list \<times> rx_abs) list \<Rightarrow> (bytes \<times> bytes) list" where
  "session_packets p [] = []"
| "session_packets p ((ps, q) # tr) =
     (case p of None \<Rightarrow> [] | Some (pz, m) \<Rightarrow> [pz]) @ ps @ session_packets q tr"

lemma session_data_stream:
  "session_ok p tr \<Longrightarrow> abs_head p @ concat (session_data p tr) = concat (map rx_frame (session_packets p tr))"
proof (induction p tr rule: session_data.induct)
  case (1 p)
  then show ?case by (simp add: abs_head_def)
next
  case (2 p ps q tr)
  then have "abs_head q @ concat (session_data q tr) = concat (map rx_frame (session_packets q tr))"
    by simp
  then show ?case
    by (auto simp: abs_transfer_def abs_head_def abs_tail_def split: option.splits)
qed

lemma deliver_pool_append:
  "deliver_pool t (xs @ ys) = do {
     (t, us) \<leftarrow> deliver_pool t xs; (t, vs) \<leftarrow> deliver_pool t ys; Some (t, us @ vs) }"
proof (induction xs arbitrary: t)
  case Nil
  then show ?case by (auto split: Option.bind_splits)
next
  case (Cons x xs)
  then show ?case
    by (cases "ath9k_htc_rx_msg t (Some x) (skb_len x) USB_WLAN_RX_PIPE")
       (auto split: Option.bind_splits)
qed

lemma session_run:
  assumes al: "rx_alloc_ok alloc"
  shows "\<lbrakk>rx_rel r p; session_ok p tr; \<forall>s \<in> set skbs. wf_skb s; map skb_bytes skbs = session_data p tr\<rbrakk> \<Longrightarrow>
     \<exists>gs r'. map skb_bytes gs = map fst (session_packets p tr) \<and> (\<forall>g \<in> set gs. wf_skb g) \<and> rx_idle r' \<and>
       (\<forall>t. rx_stream_run alloc t r skbs
         = map_option (\<lambda>(t', ups). (t', r', ups, [])) (deliver_pool t gs))"
proof (induction p tr arbitrary: r skbs rule: session_data.induct)
  case (1 p)
  then show ?case
    by (intro exI [of _ "[]"] exI [of _ r]) (simp add: rx_rel_def)
next
  case (2 p ps q tr)
  then obtain s ss where skbs: "skbs = s # ss" and s: "skb_bytes s = abs_transfer p ps q"
    and ss: "map skb_bytes ss = session_data q tr" by auto
  have ok: "abs_transfer_ok p ps q" and sok: "session_ok q tr" using 2 by simp_all
  obtain gs r1 where one: "map skb_bytes gs = abs_done p @ map fst ps" "\<forall>g \<in> set gs. wf_skb g"
      "rx_rel r1 q" "\<And>t. ath9k_hif_usb_rx_stream alloc t r s
       = map_option (\<lambda>(t', ups). (t', r1, ups, [])) (deliver_pool t gs)"
    using rx_stream_refines [OF al 2(2) ok _ s] 2(4) skbs by auto
  obtain hs r2 where more: "map skb_bytes hs = map fst (session_packets q tr)" "\<forall>g \<in> set hs. wf_skb g"
      "rx_idle r2" "\<And>t. rx_stream_run alloc t r1 ss
         = map_option (\<lambda>(t', ups). (t', r2, ups, [])) (deliver_pool t hs)"
    using 2(1) [OF one(3) sok _ ss] 2(4) skbs by auto
  have "rx_stream_run alloc t r skbs
      = map_option (\<lambda>(t', ups). (t', r2, ups, [])) (deliver_pool t (gs @ hs))" for t
    unfolding skbs rx_stream_run.simps deliver_pool_append one(4)
    by (cases "deliver_pool t gs") (auto simp: more(4) split: Option.bind_splits)
  moreover have "map skb_bytes (gs @ hs) = map fst (session_packets p ((ps, q) # tr))"
    by (auto simp: one(1) more(1) abs_done_def split: option.splits)
  ultimately show ?case using one(2) more(2,3)
    by (intro exI [of _ "gs @ hs"] exI [of _ r2]) auto
qed

subsection \<open>Where the stream handling faults\<close>

lemma rx_loop_eleventh:
  assumes al: "rx_alloc_at alloc k" and wf: "wf_packet pz"
    and mem: "drop i mem = rx_frame pz @ rest" and i: "i < len" "i \<le> length mem"
    and fits: "i + length (rx_frame pz) \<le> MAX_RX_BUF_SIZE" and pool: "length pool = 10"
  shows "rx_loop alloc mem len k i r pool = None"
proof -
  let ?n = "length (fst pz)" and ?w = "word_of_nat (length (fst pz)) :: u16"
  have un: "unat ?w = ?n" using wf by (simp add: wf_packet_def unat_len16)
  have hdr: "get_le16 mem i = Some ?w" "get_le16 mem (i + 2) = Some ATH_USB_RX_STREAM_MODE_TAG"
    using rx_frame_header [of i mem ?w ATH_USB_RX_STREAM_MODE_TAG "fst pz @ snd pz @ rest"] mem
    by (simp_all add: rx_frame_def)
  obtain s where s: "alloc k (?n + 32) = Some s" using al by (auto simp: rx_alloc_at_def)
  have nx: "i + 4 + ?n + rx_padding ?w \<le> 16384"
    using rx_padding_packet [OF wf] fits by (simp add: length_rx_frame)
  show ?thesis
    by (subst rx_loop.simps)
       (use i(1) hdr(1,2) un nx s pool in \<open>auto simp: Let_def pool_add_def split: Option.bind_splits\<close>)
qed

text \<open>A transfer with a cut packet whose buffer cannot be allocated still sets \<open>rx_remain_len\<close>.\<close>

lemma rx_loop_cut_nomem:
  assumes al: "\<And>n. alloc k n = None" and wf: "wf_packet pz"
    and mem: "drop i mem = take (4 + m) (rx_frame pz) @ rest" and i: "i < len"
    and full: "i + 4 + m = MAX_RX_BUF_SIZE" and m: "m < length (fst pz)"
  shows "\<exists>r'. rx_loop alloc mem len k i r pool = Some (r', pool, Rx_err_label) \<and>
     rx_remain_len r' \<noteq> 0 \<and> remain_skb r' = remain_skb r"
proof -
  let ?n = "length (fst pz)" and ?w = "word_of_nat (length (fst pz)) :: u16"
  have un: "unat ?w = ?n" using wf by (simp add: wf_packet_def unat_len16)
  have "take (4 + m) (rx_frame pz)
      = le16_bytes ?w @ le16_bytes ATH_USB_RX_STREAM_MODE_TAG @ take m (fst pz)"
    using m by (simp add: rx_frame_def)
  then have hdr: "get_le16 mem i = Some ?w" "get_le16 mem (i + 2) = Some ATH_USB_RX_STREAM_MODE_TAG"
    using rx_frame_header [of i mem ?w ATH_USB_RX_STREAM_MODE_TAG "take m (fst pz) @ rest"] mem
    by simp_all
  have big: "16384 < i + 4 + ?n + rx_padding ?w" using full m by simp
  show ?thesis
    by (subst rx_loop.simps) (use i hdr un big al in \<open>simp add: Let_def\<close>)
qed

section \<open>Properties\<close>

definition ex_alloc :: "nat \<Rightarrow> nat \<Rightarrow> sk_buff option" where
  "ex_alloc k n = Some (fresh_skb (replicate n 0))"

lemma ex_alloc_ok: "rx_alloc_ok ex_alloc"
  by (simp add: rx_alloc_ok_def rx_alloc_at_def ex_alloc_def fresh_skb_def)

definition ex_big :: "bytes \<times> bytes" where "ex_big = (replicate 16368 7, [])"
definition ex_cut :: "bytes \<times> bytes" where "ex_cut = (replicate 101 9, [0, 0, 0])"
definition ex_rx :: hif_usb_rx where
  "ex_rx = \<lparr>remain_skb = Remain_null, rx_remain_len = 0, rx_transfer_len = 0, rx_pad_len = 0\<rparr>"
definition ex_session :: "((bytes \<times> bytes) list \<times> rx_abs) list" where
  "ex_session = [([ex_big], Some (ex_cut, 8)), ([ex_cut], None)]"

text \<open>C1: stream reassembly. When the target sends packets as a byte stream cut into transfers of
  16384 bytes (at most ten packets completing in each) and every allocation succeeds, the driver
  hands exactly these packets to HTC, in order and byte for byte, also the packets that are cut
  by the end of a transfer; nothing is leaked and the receiver is idle again at the end.\<close>

theorem rx_stream_session:
  assumes "rx_alloc_ok alloc" and "rx_idle r" and "session_ok None tr"
    and "\<forall>s \<in> set skbs. wf_skb s" and "map skb_bytes skbs = session_data None tr"
  shows "concat (map skb_bytes skbs) = concat (map rx_frame (session_packets None tr)) \<and>
    (\<exists>gs r'. map skb_bytes gs = map fst (session_packets None tr) \<and> (\<forall>g \<in> set gs. wf_skb g) \<and>
       rx_idle r' \<and>
       (\<forall>t. rx_stream_run alloc t r skbs
         = map_option (\<lambda>(t', ups). (t', r', ups, [])) (deliver_pool t gs)))"
proof
  show "concat (map skb_bytes skbs) = concat (map rx_frame (session_packets None tr))"
    using session_data_stream [OF assms(3)] assms(5) by (simp add: abs_head_def)
  show "\<exists>gs r'. map skb_bytes gs = map fst (session_packets None tr) \<and> (\<forall>g \<in> set gs. wf_skb g) \<and>
       rx_idle r' \<and>
       (\<forall>t. rx_stream_run alloc t r skbs
         = map_option (\<lambda>(t', ups). (t', r', ups, [])) (deliver_pool t gs))"
    by (rule session_run [OF assms(1) _ assms(3-5)]) (simp add: rx_rel_def assms(2))
qed

theorem rx_stream_session_witness:
  "\<exists>gs r'. map skb_bytes gs = [replicate 16368 7, replicate 101 9, replicate 101 9] \<and> rx_idle r' \<and>
     (\<forall>t. rx_stream_run ex_alloc t ex_rx (map skb_of_bytes (session_data None ex_session))
        = map_option (\<lambda>(t', ups). (t', r', ups, [])) (deliver_pool t gs))"
proof -
  have ok: "session_ok None ex_session"
    by (simp add: ex_session_def abs_transfer_ok_def abs_transfer_def abs_done_def abs_tail_def
        abs_head_def wf_packet_def ex_big_def ex_cut_def length_rx_frame)
  have idle: "rx_idle ex_rx" by (simp add: rx_idle_def ex_rx_def)
  have ps: "map fst (session_packets None ex_session)
      = [replicate 16368 7, replicate 101 9, replicate 101 9]"
    by (simp add: ex_session_def ex_big_def ex_cut_def)
  have sk: "\<forall>s \<in> set (map skb_of_bytes (session_data None ex_session)). wf_skb s" by simp
  have bs: "map skb_bytes (map skb_of_bytes (session_data None ex_session))
      = session_data None ex_session" by (simp add: comp_def)
  show ?thesis using rx_stream_session [OF ex_alloc_ok idle ok sk bs] unfolding ps
    by (elim conjE exE) (intro exI conjI)
qed

text \<open>\<open>skb_pool\<close> has ten entries and \<open>pool_index\<close> is never compared with its size: a transfer
  that carries more than ten complete packets makes the driver write past the array.\<close>

theorem rx_stream_pool_overflow:
  assumes "rx_alloc_ok alloc" and "rx_idle r" and "\<forall>pz \<in> set ps. wf_packet pz" and "10 < length ps"
    and "length (concat (map rx_frame ps)) \<le> MAX_RX_BUF_SIZE"
    and "wf_skb skb" and "skb_bytes skb = concat (map rx_frame ps)"
  shows "ath9k_hif_usb_rx_stream alloc t r skb = None"
proof -
  obtain z where z: "skb_mem skb = skb_bytes skb @ z" by (rule skb_mem_eq_append [OF assms(6)])
  let ?mem = "skb_mem skb" and ?fs = "concat (map rx_frame (take 10 ps))"
  obtain pz qs where d: "drop 10 ps = pz # qs"
    using assms(4) by (metis Cons_nth_drop_Suc)
  have ps: "ps = take 10 ps @ pz # qs" using append_take_drop_id [of 10 ps] d by simp
  have all: "concat (map rx_frame ps) = ?fs @ rx_frame pz @ concat (map rx_frame qs)"
    by (subst ps) simp
  have len: "skb_len skb = length (concat (map rx_frame ps))"
    using skb_bytes_length [OF assms(6)] assms(7) by simp
  have "pz \<in> set ps" by (subst ps) simp
  then have wfp: "\<forall>pz \<in> set (take 10 ps). wf_packet pz" "wf_packet pz"
    using assms(3) by (auto dest: in_set_takeD)
  have d0: "drop 0 ?mem = ?fs @ rx_frame pz @ concat (map rx_frame qs) @ z"
    using z assms(7) all by simp
  have "\<exists>gs. rx_loop alloc ?mem (skb_len skb) 0 0 r [] =
            rx_loop alloc ?mem (skb_len skb) (0 + length (take 10 ps)) (0 + length ?fs) r ([] @ gs)
        \<and> map skb_bytes gs = map fst (take 10 ps) \<and> (\<forall>g \<in> set gs. wf_skb g)"
  proof (rule rx_loop_packets [OF _ wfp(1) d0])
    show "\<forall>j < length (take 10 ps). rx_alloc_at alloc (0 + j)"
      using assms(1) by (simp add: rx_alloc_ok_def)
  qed (use assms(4,5) len all in auto)
  then obtain gs where gs: "rx_loop alloc ?mem (skb_len skb) 0 0 r [] =
            rx_loop alloc ?mem (skb_len skb) (0 + length (take 10 ps)) (length ?fs) r gs"
    and lgs: "length gs = 10"
    using assms(4) by (auto dest: map_eq_imp_length_eq)
  have "rx_loop alloc ?mem (skb_len skb) (0 + length (take 10 ps)) (length ?fs) r gs = None"
  proof (rule rx_loop_eleventh [OF _ wfp(2)])
    show "rx_alloc_at alloc (0 + length (take 10 ps))" using assms(1) by (simp add: rx_alloc_ok_def)
    show "drop (length ?fs) ?mem = rx_frame pz @ concat (map rx_frame qs) @ z"
      using d0 by simp
  qed (use assms(5) len all d0 lgs in \<open>auto simp: length_rx_frame\<close>)
  then show ?thesis using gs rx_take_idle [OF assms(2)] by (simp add: ath9k_hif_usb_rx_stream_def)
qed

theorem rx_stream_pool_overflow_witness:
  "ath9k_hif_usb_rx_stream ex_alloc None ex_rx
     (skb_of_bytes (concat (map rx_frame (replicate 11 ([], []))))) = None"
  by (rule rx_stream_pool_overflow [OF ex_alloc_ok, where ps = "replicate 11 ([], [])"])
     (simp_all add: rx_idle_def ex_rx_def wf_packet_def length_rx_frame length_concat
        sum_list_replicate)

text \<open>\<open>remain_skb\<close> is never reset. When the allocation for a cut packet fails after an earlier
  cut packet was delivered, the receiver returns normally with \<open>rx_remain_len\<close> set, and the next
  transfer, whatever it is, writes through the pointer to the buffer HTC already owns.\<close>

theorem rx_stream_stale_remain:
  assumes "rx_remain_len r = 0" and "remain_skb r = Remain_dangling"
    and "\<And>j. j < length ps \<Longrightarrow> rx_alloc_at alloc j" and "\<And>n. alloc (length ps) n = None"
    and "abs_transfer_ok None ps (Some (pz, m))"
    and "wf_skb skb" and "skb_bytes skb = abs_transfer None ps (Some (pz, m))"
  shows "\<exists>gs r'. map skb_bytes gs = map fst ps \<and>
     (\<forall>t. ath9k_hif_usb_rx_stream alloc t r skb
       = map_option (\<lambda>(t', ups). (t', r', ups, [])) (deliver_pool t gs)) \<and>
     (\<forall>alloc' t' skb'. ath9k_hif_usb_rx_stream alloc' t' r' skb' = None)"
proof -
  obtain z where z: "skb_mem skb = skb_bytes skb @ z" by (rule skb_mem_eq_append [OF assms(6)])
  let ?mem = "skb_mem skb" and ?fs = "concat (map rx_frame ps)"
  have mem: "drop 0 ?mem = ?fs @ take (4 + m) (rx_frame pz) @ z"
    using z assms(7) by (simp add: abs_transfer_def abs_tail_def abs_head_def)
  have len: "skb_len skb = 16384" and pz: "wf_packet pz" "m < length (fst pz)"
      "length ?fs + 4 + m = 16384"
    using skb_bytes_length [OF assms(6)] assms(5,7)
    by (auto simp: abs_transfer_ok_def abs_transfer_def abs_tail_def abs_head_def length_rx_frame)
  have "\<exists>gs. rx_loop alloc ?mem (skb_len skb) 0 0 r [] =
            rx_loop alloc ?mem (skb_len skb) (0 + length ps) (0 + length ?fs) r ([] @ gs)
        \<and> map skb_bytes gs = map fst ps \<and> (\<forall>g \<in> set gs. wf_skb g)"
    by (rule rx_loop_packets [OF _ _ mem])
       (use assms(3,5) len pz in \<open>auto simp: abs_transfer_ok_def abs_done_def\<close>)
  then obtain gs where gs: "rx_loop alloc ?mem (skb_len skb) 0 0 r [] =
            rx_loop alloc ?mem (skb_len skb) (length ps) (length ?fs) r gs"
    "map skb_bytes gs = map fst ps" by auto
  obtain r' where r': "rx_loop alloc ?mem (skb_len skb) (length ps) (length ?fs) r gs
      = Some (r', gs, Rx_err_label)" "rx_remain_len r' \<noteq> 0" "remain_skb r' = Remain_dangling"
    using rx_loop_cut_nomem [of alloc "length ps" pz "length ?fs" ?mem m z "skb_len skb" r gs]
      assms(2,4) pz len mem by auto
  have one: "ath9k_hif_usb_rx_stream alloc t r skb
       = map_option (\<lambda>(t', ups). (t', r'\<lparr>remain_skb := Remain_dangling\<rparr>, ups, [])) (deliver_pool t gs)" for t
    using gs(1) r' assms(1)
    by (cases "deliver_pool t gs")
       (auto simp: ath9k_hif_usb_rx_stream_def rx_take_remain_def remain_after_delivery_def)
  have two: "ath9k_hif_usb_rx_stream alloc' t' (r'\<lparr>remain_skb := Remain_dangling\<rparr>) skb' = None"
    for alloc' t' skb'
    using r'(2) by (simp add: ath9k_hif_usb_rx_stream_def rx_take_remain_def)
  show ?thesis using gs(2) one two by blast
qed

theorem rx_stream_stale_remain_witness:
  "\<exists>gs r'. map skb_bytes gs = [replicate 16368 7] \<and>
     (\<forall>t. ath9k_hif_usb_rx_stream (\<lambda>k n. if k = 0 then ex_alloc k n else None) t
        (ex_rx\<lparr>remain_skb := Remain_dangling\<rparr>)
        (skb_of_bytes (abs_transfer None [ex_big] (Some (ex_cut, 8))))
       = map_option (\<lambda>(t', ups). (t', r', ups, [])) (deliver_pool t gs)) \<and>
     (\<forall>alloc' t' skb'. ath9k_hif_usb_rx_stream alloc' t' r' skb' = None)"
  using rx_stream_stale_remain [of "ex_rx\<lparr>remain_skb := Remain_dangling\<rparr>" "[ex_big]"
      "\<lambda>k n. if k = 0 then ex_alloc k n else None" ex_cut 8
      "skb_of_bytes (abs_transfer None [ex_big] (Some (ex_cut, 8)))"]
  by (simp add: ex_rx_def ex_alloc_def rx_alloc_at_def fresh_skb_def abs_transfer_ok_def
      abs_transfer_def abs_done_def abs_tail_def abs_head_def wf_packet_def ex_big_def ex_cut_def
      length_rx_frame)

text \<open>What \<open>ath9k_hif_usb_reg_in_cb\<close> frees. The callback frees a buffer it no longer owns
  exactly when it delivered a message, found memory for the next one and could not submit the
  URB again: then it frees the delivered buffer a second time.\<close>

theorem reg_in_cb_double_free:
  assumes "ath9k_hif_usb_reg_in_cb alloc submit status actual dev t ctx = Some (t', ups, after, freed)"
  shows "(\<exists>s. (s, Given_to_htc) \<in> set freed) \<longleftrightarrow>
     ctx \<noteq> None \<and> dev \<and> status = 0 \<and> actual \<noteq> 0 \<and> alloc MAX_REG_IN_BUF_SIZE \<noteq> None \<and> submit \<noteq> 0"
  using assms
  by (auto simp: ath9k_hif_usb_reg_in_cb_def urb_dead_status_def Let_def errno_simps
      split: option.splits if_splits Option.bind_splits)

definition ex_reg_skb :: sk_buff where "ex_reg_skb = fresh_skb (replicate 64 255)"

theorem reg_in_cb_double_free_witness:
  "(\<exists>s. (s, Given_to_htc) \<in> set [(ex_reg_skb\<lparr>skb_tail := 8\<rparr>, Given_to_htc)]) \<longleftrightarrow>
     Some ex_reg_skb \<noteq> None \<and> True \<and> (0::int) = 0 \<and> (8::nat) \<noteq> 0 \<and>
     ex_alloc 0 MAX_REG_IN_BUF_SIZE \<noteq> None \<and> (- 19 :: int) \<noteq> 0"
proof (rule reg_in_cb_double_free)
  show "ath9k_hif_usb_reg_in_cb (ex_alloc 0) (- 19) 0 8 True (Some ex_target) (Some ex_reg_skb)
     = Some (Some ex_target, [Kfree_skb (ex_reg_skb\<lparr>skb_tail := 8\<rparr>)], Urb_dropped,
         [(ex_reg_skb\<lparr>skb_tail := 8\<rparr>, Given_to_htc)])"
    by code_simp
qed

end
