(* ===== verification/Hif_Usb_Tx.thy ===== *)
theory Hif_Usb_Tx
  imports Hif_Usb_Rx
begin

text \<open>
  The transmit side of the USB transport (\<open>ath9k/hif_usb.c\<close>, \<open>hif_usb.h\<close>): the pool of eight
  transmit buffers, the aggregation of queued frames into one bulk transfer (stream mode), the
  separate URBs of management frames and of register-out messages, the completion callbacks,
  and \<open>struct ath9k_htc_hif hif_usb\<close>, the operations HTC calls.

  A \<open>struct tx_buf\<close> is identified by \<open>tb_id\<close> (its address in C); its list membership is the
  list of the record it is in. The URBs in flight are the buffers in \<open>tx_pending\<close> and the
  anchored commands of \<open>regout_submitted\<close> and \<open>mgmt_submitted\<close>; \<open>bulk_out\<close> records what was
  handed to the USB core, pipe and bytes, in order. The USB core itself is not part of the
  sources: the \<open>n\<close>-th request for an URB, a command buffer and a submission is answered by
  \<open>env n\<close>. Code that runs under \<open>tx_lock\<close> and the URB callbacks are atomic steps.
\<close>

section \<open>Data\<close>

record tx_buf =
  tb_id :: nat
  tb_buf :: bytes
  tb_len :: u16
  tb_offset :: u16
  tb_skb_queue :: "sk_buff list"

record hif_usb_tx =
  tx_flags :: u8
  tx_buf_cnt :: u8
  tx_skb_cnt :: u16
  tx_skb_queue :: "sk_buff list"
  tx_buf_free :: "tx_buf list"
  tx_pending :: "tx_buf list"

record usb_answer =
  ans_urb :: bool
  ans_cmd :: bool
  ans_submit :: int

record hif_device_usb =
  dev_flags :: u8
  dev_tx :: hif_usb_tx
  regout_submitted :: "sk_buff list"
  mgmt_submitted :: "sk_buff list"
  usb_calls :: nat
  bulk_out :: "(u8 \<times> bytes) list"

definition HIF_USB_TX_STOP :: u8 where "HIF_USB_TX_STOP = 1"
definition HIF_USB_TX_FLUSH :: u8 where "HIF_USB_TX_FLUSH = 2"
definition HIF_USB_START :: u8 where "HIF_USB_START = 1"
definition HIF_USB_READY :: u8 where "HIF_USB_READY = 2"

definition ATH_USB_TX_STREAM_MODE_TAG :: u16 where "ATH_USB_TX_STREAM_MODE_TAG = 0x697e"
abbreviation (input) MAX_TX_URB_NUM :: nat where "MAX_TX_URB_NUM \<equiv> 8"
abbreviation (input) MAX_TX_BUF_NUM :: nat where "MAX_TX_BUF_NUM \<equiv> 256"
abbreviation (input) MAX_TX_BUF_SIZE :: nat where "MAX_TX_BUF_SIZE \<equiv> 32768"
abbreviation (input) MAX_TX_AGGR_NUM :: nat where "MAX_TX_AGGR_NUM \<equiv> 20"

definition ATH9K_HTC_AMPDU :: u8 where "ATH9K_HTC_AMPDU = 1"
definition ATH9K_HTC_NORMAL :: u8 where "ATH9K_HTC_NORMAL = 2"
definition ATH9K_HTC_BEACON :: u8 where "ATH9K_HTC_BEACON = 3"
definition ATH9K_HTC_MGMT :: u8 where "ATH9K_HTC_MGMT = 4"

lemmas htc_frame_types =
  ATH9K_HTC_AMPDU_def ATH9K_HTC_NORMAL_def ATH9K_HTC_BEACON_def ATH9K_HTC_MGMT_def

section \<open>Operations\<close>

definition nth_cmd :: "nat \<Rightarrow> sk_buff list \<Rightarrow> (sk_buff \<times> sk_buff list) option" where
  \<comment> \<open>the URB with this number completes: its command buffer leaves the anchor\<close>
  "nth_cmd i cs = (if i < length cs then Some (cs ! i, take i cs @ drop (Suc i) cs) else None)"

definition hif_usb_regout_cb ::
  "int \<Rightarrow> nat \<Rightarrow> htc_target \<Rightarrow> hif_device_usb \<Rightarrow>
     (htc_target \<times> hif_device_usb \<times> htc_upcall list) option" where
  "hif_usb_regout_cb status i t d = do {
     (skb, rest) \<leftarrow> nth_cmd i (regout_submitted d);
     let d = d\<lparr>regout_submitted := rest\<rparr>;
     if urb_dead_status status then Some (t, d, [Kfree_skb skb])
     else do {
       (t, ups) \<leftarrow> ath9k_htc_txcompletion_cb t (Some skb) True;
       Some (t, d, ups) } }"

definition hif_usb_send_regout ::
  "(nat \<Rightarrow> usb_answer) \<Rightarrow> hif_device_usb \<Rightarrow> sk_buff \<Rightarrow> int \<times> hif_device_usb" where
  "hif_usb_send_regout env d skb =
     (let a = env (usb_calls d); d = d\<lparr>usb_calls := Suc (usb_calls d)\<rparr> in
      if \<not> ans_urb a then (- ENOMEM, d)
      else if \<not> ans_cmd a then (- ENOMEM, d)
      else if ans_submit a \<noteq> 0 then (ans_submit a, d)
      else (0, d\<lparr>regout_submitted := regout_submitted d @ [skb],
                 bulk_out := bulk_out d @ [(USB_REG_OUT_PIPE, skb_bytes skb)]\<rparr>))"

definition hif_usb_mgmt_cb ::
  "int \<Rightarrow> nat \<Rightarrow> htc_target \<Rightarrow> hif_device_usb \<Rightarrow>
     (htc_target \<times> hif_device_usb \<times> htc_upcall list) option" where
  "hif_usb_mgmt_cb status i t d = do {
     (skb, rest) \<leftarrow> nth_cmd i (mgmt_submitted d);
     let d = d\<lparr>mgmt_submitted := rest\<rparr>;
     if urb_dead_status status \<and> has_flag (tx_flags (dev_tx d)) HIF_USB_TX_FLUSH
     then Some (t, d, [Kfree_skb skb])
     else do {
       (t, ups) \<leftarrow> ath9k_htc_txcompletion_cb t (Some (skb_pull 4 skb)) (status = 0);
       Some (t, d, ups) } }"

definition hif_usb_send_mgmt ::
  "(nat \<Rightarrow> usb_answer) \<Rightarrow> hif_device_usb \<Rightarrow> sk_buff \<Rightarrow> (int \<times> hif_device_usb) option" where
  "hif_usb_send_mgmt env d skb =
     (let a = env (usb_calls d); d = d\<lparr>usb_calls := Suc (usb_calls d)\<rparr> in
      if \<not> ans_urb a then Some (- ENOMEM, d)
      else if \<not> ans_cmd a then Some (- ENOMEM, d)
      else do {
        skb \<leftarrow> skb_push_bytes (le16_bytes (word_of_nat (skb_len skb))
                                @ le16_bytes ATH_USB_TX_STREAM_MODE_TAG) skb;
        Some (if ans_submit a \<noteq> 0 then (ans_submit a, d)
              else (0, d\<lparr>mgmt_submitted := mgmt_submitted d @ [skb],
                         bulk_out := bulk_out d @ [(USB_WLAN_TX_PIPE, skb_bytes skb)]\<rparr>)) })"

definition ath9k_skb_queue_purge :: "sk_buff list \<Rightarrow> htc_upcall list" where
  "ath9k_skb_queue_purge q = map Kfree_skb q"

fun ath9k_skb_queue_complete ::
  "htc_target \<Rightarrow> sk_buff list \<Rightarrow> bool \<Rightarrow> (htc_target \<times> htc_upcall list) option" where
  "ath9k_skb_queue_complete t [] txok = Some (t, [])"
| "ath9k_skb_queue_complete t (skb # q) txok = do {
     (t, u) \<leftarrow> ath9k_htc_txcompletion_cb t (Some skb) txok;
     (t, us) \<leftarrow> ath9k_skb_queue_complete t q txok;
     Some (t, u @ us) }"

definition tx_step :: "u16 \<Rightarrow> int" where
  \<comment> \<open>\<open>(((len - 1) / 4) + 1) * 4\<close> in C's \<open>int\<close>, whose division truncates\<close>
  "tx_step len = (if len = 0 then 4 else ((uint len - 1) div 4 + 1) * 4)"

fun tx_fill :: "nat \<Rightarrow> hif_usb_tx \<Rightarrow> tx_buf \<Rightarrow> (hif_usb_tx \<times> tx_buf) option" where
  \<comment> \<open>the \<open>for\<close> loop of \<open>__hif_usb_tx\<close>; the argument counts the frames still to take\<close>
  "tx_fill 0 x b = Some (x, b)"
| "tx_fill (Suc n) x b =
     (case tx_skb_queue x of
        [] \<Rightarrow> None
      | nskb # q \<Rightarrow> do {
          let x = x\<lparr>tx_skb_queue := q, tx_skb_cnt := tx_skb_cnt x - 1\<rparr>;
          data \<leftarrow> read_bytes (skb_mem nskb) 0 (skb_len nskb);
          buf \<leftarrow> write_bytes (tb_buf b) (unat (tb_offset b))
                   (le16_bytes (word_of_nat (skb_len nskb))
                    @ le16_bytes ATH_USB_TX_STREAM_MODE_TAG @ data);
          let len = word_of_nat (skb_len nskb + 4);
          let b = (if n \<noteq> 0
                   then b\<lparr>tb_buf := buf, tb_len := len,
                          tb_offset := tb_offset b + word_of_int (tx_step len)\<rparr>
                   else b\<lparr>tb_buf := buf, tb_len := len + tb_offset b\<rparr>);
          tx_fill n x (b\<lparr>tb_skb_queue := tb_skb_queue b @ [nskb]\<rparr>) })"

definition hif_usb_tx_locked ::
  "(nat \<Rightarrow> usb_answer) \<Rightarrow> htc_target \<Rightarrow> hif_device_usb \<Rightarrow>
     (int \<times> htc_target \<times> hif_device_usb \<times> htc_upcall list) option" where
  \<comment> \<open>\<open>__hif_usb_tx\<close>\<close>
  "hif_usb_tx_locked env t d =
     (let x = dev_tx d in
      if tx_skb_cnt x = 0 then Some (0, t, d, [])
      else (case tx_buf_free x of
        [] \<Rightarrow> Some (0, t, d, [])
      | b # fr \<Rightarrow> do {
          let x = x\<lparr>tx_buf_free := fr, tx_buf_cnt := tx_buf_cnt x - 1\<rparr>;
          let cnt = min (unat (tx_skb_cnt x)) MAX_TX_AGGR_NUM;
          (x, b) \<leftarrow> tx_fill cnt x b;
          out \<leftarrow> read_bytes (tb_buf b) 0 (unat (tb_len b));
          let ret = ans_submit (env (usb_calls d));
          let d = d\<lparr>usb_calls := Suc (usb_calls d)\<rparr>;
          if ret \<noteq> 0 then do {
            (t, ups) \<leftarrow> ath9k_skb_queue_complete t (tb_skb_queue b) False;
            let b = b\<lparr>tb_len := 0, tb_offset := 0, tb_skb_queue := []\<rparr>;
            Some (ret, t, d\<lparr>dev_tx := x\<lparr>tx_buf_free := tx_buf_free x @ [b],
                                      tx_buf_cnt := tx_buf_cnt x + 1\<rparr>\<rparr>, ups) }
          else Some (0, t, d\<lparr>dev_tx := x\<lparr>tx_pending := tx_pending x @ [b]\<rparr>,
                             bulk_out := bulk_out d @ [(USB_WLAN_TX_PIPE, out)]\<rparr>, []) }))"

definition hif_usb_tx_cb ::
  "(nat \<Rightarrow> usb_answer) \<Rightarrow> int \<Rightarrow> nat \<Rightarrow> htc_target \<Rightarrow> hif_device_usb \<Rightarrow>
     (htc_target \<times> hif_device_usb \<times> htc_upcall list) option" where
  \<comment> \<open>the URB of the pending buffer with this \<open>tb_id\<close> completes\<close>
  "hif_usb_tx_cb env status k t d =
     (case filter (\<lambda>b. tb_id b = k) (tx_pending (dev_tx d)) of
        [] \<Rightarrow> None
      | b # _ \<Rightarrow>
          (let x = dev_tx d; others = filter (\<lambda>b. tb_id b \<noteq> k) (tx_pending x) in
           if urb_dead_status status \<and> has_flag (tx_flags x) HIF_USB_TX_FLUSH
           then Some (t, d\<lparr>dev_tx := x\<lparr>tx_pending :=
                  map (\<lambda>c. if tb_id c = k then c\<lparr>tb_skb_queue := []\<rparr> else c) (tx_pending x)\<rparr>\<rparr>,
                  ath9k_skb_queue_purge (tb_skb_queue b))
           else do {
             (t, ups) \<leftarrow> ath9k_skb_queue_complete t (tb_skb_queue b) (status = 0);
             let b = b\<lparr>tb_len := 0, tb_offset := 0, tb_skb_queue := []\<rparr>;
             let x = x\<lparr>tx_pending := others, tx_buf_free := tx_buf_free x @ [b],
                       tx_buf_cnt := tx_buf_cnt x + 1\<rparr>;
             let d = d\<lparr>dev_tx := x\<rparr>;
             if has_flag (tx_flags x) HIF_USB_TX_STOP then Some (t, d, ups)
             else do {
               (ret, t, d, us) \<leftarrow> hif_usb_tx_locked env t d;
               Some (t, d, ups @ us) } }))"

definition hif_usb_send_tx ::
  "(nat \<Rightarrow> usb_answer) \<Rightarrow> htc_target \<Rightarrow> hif_device_usb \<Rightarrow> sk_buff \<Rightarrow>
     (int \<times> htc_target \<times> hif_device_usb \<times> htc_upcall list) option" where
  "hif_usb_send_tx env t d skb =
     (let x = dev_tx d; ty = ctl_type (skb_cb skb) in
      if has_flag (tx_flags x) HIF_USB_TX_STOP then Some (- ENODEV, t, d, [])
      else if MAX_TX_BUF_NUM < unat (tx_skb_cnt x) then Some (- ENOMEM, t, d, [])
      else do {
        (ret, d) \<leftarrow> (if ty = ATH9K_HTC_MGMT \<or> ty = ATH9K_HTC_BEACON
                     then hif_usb_send_mgmt env d skb else Some (0, d));
        let x = dev_tx d;
        let x = (if ty = ATH9K_HTC_NORMAL \<or> ty = ATH9K_HTC_AMPDU
                 then x\<lparr>tx_skb_queue := tx_skb_queue x @ [skb], tx_skb_cnt := tx_skb_cnt x + 1\<rparr>
                 else x);
        let d = d\<lparr>dev_tx := x\<rparr>;
        if unat (tx_buf_cnt x) = MAX_TX_URB_NUM \<and> tx_skb_cnt x < 2 then do {
          (r, t, d, ups) \<leftarrow> hif_usb_tx_locked env t d;
          Some (ret, t, d, ups) }
        else Some (ret, t, d, []) })"

definition hif_usb_start :: "hif_device_usb \<Rightarrow> hif_device_usb" where
  "hif_usb_start d = d\<lparr>dev_flags := dev_flags d OR HIF_USB_START,
     dev_tx := (dev_tx d)\<lparr>tx_flags := tx_flags (dev_tx d) AND NOT HIF_USB_TX_STOP\<rparr>\<rparr>"

fun kill_tx_urbs ::
  "(nat \<Rightarrow> usb_answer) \<Rightarrow> nat list \<Rightarrow> htc_target \<Rightarrow> hif_device_usb \<Rightarrow>
     (htc_target \<times> hif_device_usb \<times> htc_upcall list) option" where
  \<comment> \<open>\<open>usb_kill_urb\<close> on each pending buffer: its callback runs with status \<open>-ENOENT\<close>\<close>
  "kill_tx_urbs env [] t d = Some (t, d, [])"
| "kill_tx_urbs env (k # ks) t d = do {
     (t, d, u) \<leftarrow> hif_usb_tx_cb env (- ENOENT) k t d;
     (t, d, us) \<leftarrow> kill_tx_urbs env ks t d;
     Some (t, d, u @ us) }"

fun kill_mgmt_urbs ::
  "nat \<Rightarrow> htc_target \<Rightarrow> hif_device_usb \<Rightarrow> (htc_target \<times> hif_device_usb \<times> htc_upcall list) option" where
  \<comment> \<open>\<open>usb_kill_anchored_urbs\<close>: from the last anchored URB to the first\<close>
  "kill_mgmt_urbs 0 t d = Some (t, d, [])"
| "kill_mgmt_urbs (Suc n) t d = do {
     (t, d, u) \<leftarrow> hif_usb_mgmt_cb (- ENOENT) n t d;
     (t, d, us) \<leftarrow> kill_mgmt_urbs n t d;
     Some (t, d, u @ us) }"

definition hif_usb_stop ::
  "(nat \<Rightarrow> usb_answer) \<Rightarrow> htc_target \<Rightarrow> hif_device_usb \<Rightarrow>
     (htc_target \<times> hif_device_usb \<times> htc_upcall list) option" where
  "hif_usb_stop env t d = do {
     let x = dev_tx d;
     (t, ups) \<leftarrow> ath9k_skb_queue_complete t (tx_skb_queue x) False;
     let d = d\<lparr>dev_tx := x\<lparr>tx_skb_queue := [], tx_skb_cnt := 0,
                          tx_flags := tx_flags x OR HIF_USB_TX_STOP\<rparr>\<rparr>;
     (t, d, us) \<leftarrow> kill_tx_urbs env (map tb_id (tx_pending (dev_tx d))) t d;
     (t, d, vs) \<leftarrow> kill_mgmt_urbs (length (mgmt_submitted d)) t d;
     Some (t, d, ups @ us @ vs) }"

definition hif_usb_send ::
  "(nat \<Rightarrow> usb_answer) \<Rightarrow> htc_target \<Rightarrow> hif_device_usb \<Rightarrow> u8 \<Rightarrow> sk_buff \<Rightarrow>
     (int \<times> htc_target \<times> hif_device_usb \<times> htc_upcall list) option" where
  "hif_usb_send env t d pipe_id skb =
     (if pipe_id = USB_WLAN_TX_PIPE then hif_usb_send_tx env t d skb
      else if pipe_id = USB_REG_OUT_PIPE
      then (let (ret, d) = hif_usb_send_regout env d skb in Some (ret, t, d, []))
      else Some (- EINVAL, t, d, []))"

definition check_index :: "sk_buff \<Rightarrow> u8 \<Rightarrow> bool" where
  "check_index skb idx \<longleftrightarrow> ctl_type (skb_cb skb) = ATH9K_HTC_AMPDU \<and> ctl_sta_idx (skb_cb skb) = idx"

fun sta_drain_walk ::
  "u8 \<Rightarrow> htc_target \<Rightarrow> sk_buff list \<Rightarrow> u16 \<Rightarrow>
     (htc_target \<times> sk_buff list \<times> u16 \<times> htc_upcall list) option" where
  \<comment> \<open>\<open>skb_queue_walk_safe\<close> over the queue: what stays in it, the counter, the completions\<close>
  "sta_drain_walk idx t [] cnt = Some (t, [], cnt, [])"
| "sta_drain_walk idx t (skb # q) cnt =
     (if check_index skb idx then do {
        (t, u) \<leftarrow> ath9k_htc_txcompletion_cb t (Some skb) False;
        (t, q, cnt, us) \<leftarrow> sta_drain_walk idx t q (cnt - 1);
        Some (t, q, cnt, u @ us) }
      else do {
        (t, q, cnt, us) \<leftarrow> sta_drain_walk idx t q cnt;
        Some (t, skb # q, cnt, us) })"

definition hif_usb_sta_drain ::
  "htc_target \<Rightarrow> hif_device_usb \<Rightarrow> u8 \<Rightarrow>
     (htc_target \<times> hif_device_usb \<times> htc_upcall list) option" where
  "hif_usb_sta_drain t d idx = do {
     let x = dev_tx d;
     (t, q, cnt, ups) \<leftarrow> sta_drain_walk idx t (tx_skb_queue x) (tx_skb_cnt x);
     Some (t, d\<lparr>dev_tx := x\<lparr>tx_skb_queue := q, tx_skb_cnt := cnt\<rparr>\<rparr>, ups) }"

definition hif_usb :: "(nat \<Rightarrow> usb_answer) \<Rightarrow> hif_device_usb ath9k_htc_hif" where
  "hif_usb env = \<lparr>control_dl_pipe = USB_REG_IN_PIPE, control_ul_pipe = USB_REG_OUT_PIPE,
     hif_start = hif_usb_start, hif_stop = hif_usb_stop env,
     hif_sta_drain = hif_usb_sta_drain, hif_send = hif_usb_send env\<rparr>"

section \<open>The USB transport is a transport for HTC\<close>

definition regout_bytes :: "hif_device_usb \<Rightarrow> bytes list" where
  "regout_bytes d = map snd (filter (\<lambda>p. fst p = USB_REG_OUT_PIPE) (bulk_out d))"

definition regout_answer :: "(nat \<Rightarrow> usb_answer) \<Rightarrow> hif_device_usb \<Rightarrow> int" where
  "regout_answer env d =
     (let a = env (usb_calls d) in if ans_urb a \<and> ans_cmd a then ans_submit a else - ENOMEM)"

interpretation hu: hif_transport "hif_usb env" "\<lambda>d. True" "regout_answer env" regout_bytes for env
proof unfold_locales
  fix d :: hif_device_usb and s t
  show "\<exists>d'. hif_send (hif_usb env) t d (control_ul_pipe (hif_usb env)) s
          = Some (regout_answer env d, t, d', []) \<and> True \<and>
        regout_bytes d' = (if regout_answer env d = 0 then regout_bytes d @ [skb_bytes s] else regout_bytes d)"
    by (auto simp: hif_usb_def hif_usb_send_def hif_usb_send_regout_def regout_answer_def
        regout_bytes_def usb_pipes errno_simps Let_def)
qed

lemma conn_rsp_registers:
  assumes wf: "htc_wf t" and e: "get_next_avail_ep (endpoint t) = Some e"
    and sid: "sid \<noteq> 0" "\<And>i. i < ENDPOINT_MAX \<Longrightarrow> service_id (endpoint t ! i) \<noteq> sid"
    and ep: "service_id ep = sid" and t1: "t1 = t\<lparr>endpoint := (endpoint t)[e := ep]\<rparr>"
    and s: "wf_skb s" "skb_bytes s = conn_rsp_frame sid 0 epid ml ctrl" "length ctrl = 4"
    and epid: "unat epid < ENDPOINT_MAX"
  shows "htc_process_conn_rsp t1 (skb_mem s) =
    Some (t1\<lparr>endpoint := ((endpoint t1)[e := ep\<lparr>service_id := 0\<rparr>])
              [unat epid := ((endpoint t1)[e := ep\<lparr>service_id := 0\<rparr>] ! unat epid)
                 \<lparr>service_id := sid, max_txqdepth := max_txqdepth ep, ep_callbacks := ep_callbacks ep,
                  ul_pipeid := ul_pipeid ep, dl_pipeid := dl_pipeid ep, max_msglen := uint ml\<rparr>],
            conn_rsp_epid := uint epid, cmd_wait := Suc (cmd_wait t1)\<rparr>)"
proof -
  have eb: "0 < e" "e \<le> 21" using avail_ep_from_SomeD e by (auto simp: get_next_avail_ep_def)
  note fields = conn_rsp_mem_fields [OF s]
  have len: "length (endpoint t1) = 22" using wf by (simp add: t1 htc_wf_def)
  let ?f = "find_service_from 21 sid (endpoint t1)"
  have nz: "?f \<noteq> 0" using eb wf ep by (auto simp: find_service_from_0 t1 htc_wf_def)
  then have "service_id (endpoint t1 ! ?f) = sid" by (rule find_service_from_hit)
  moreover have "?f \<le> 21" by (rule find_service_from_le)
  ultimately have f: "?f = e"
    using sid(2) [of ?f] by (cases "?f = e") (auto simp: t1)
  have nth: "endpoint t1 ! e = ep" using eb wf by (simp add: t1 htc_wf_def)
  show ?thesis
    using fields f nz nth eb len epid
    by (simp add: htc_process_conn_rsp_def HTC_SERVICE_SUCCESS_def Let_def)
qed

lemma conn_rsp_failure:
  assumes s: "wf_skb s" "skb_bytes s = conn_rsp_frame sid st epid ml ctrl" "length ctrl = 4"
    and st: "st \<noteq> 0"
  shows "htc_process_conn_rsp t (skb_mem s) = Some (t\<lparr>conn_rsp_epid := ENDPOINT_UNUSED\<rparr>)"
proof -
  show ?thesis using conn_rsp_mem_fields [OF s] st
    by (simp add: htc_process_conn_rsp_def HTC_SERVICE_SUCCESS_def)
qed

text \<open>A connect request that the target grants: the complete endpoint table afterwards.\<close>

lemma connect_service_granted:
  assumes "alloc_skb_spec alloc" and "alloc 18 \<noteq> None" and wf: "htc_wf t" and cw: "cmd_wait t = 0"
    and up: "ul_pipeid (endpoint t ! 0) = USB_REG_OUT_PIPE" and acc: "regout_answer env d = 0"
    and e: "get_next_avail_ep (endpoint t) = Some e" and nz: "req_service_id req \<noteq> 0"
    and fresh: "\<And>i. i < ENDPOINT_MAX \<Longrightarrow> service_id (endpoint t ! i) \<noteq> req_service_id req"
    and s: "wf_skb s" "skb_bytes s = conn_rsp_frame (req_service_id req) 0 epid ml ctrl" "length ctrl = 4"
    and epid: "0 < unat epid" "unat epid < ENDPOINT_MAX"
  obtains t' d' where "htc_connect_service (hif_usb env) alloc [Ev_rx_msg s len USB_REG_IN_PIPE] req t d
       = Some (0, Some (uint epid), t', d', [Kfree_skb s])"
    and "htc_wf t'" and "cmd_wait t' = 0" and "htc_flags t' = htc_flags t"
    and "endpoint t' ! unat epid = \<lparr>service_id = req_service_id req, ep_callbacks = req_ep_callbacks req,
       max_txqdepth = req_max_send_qdepth req, max_msglen = uint ml,
       ul_pipeid = service_to_ulpipe (req_service_id req),
       dl_pipeid = service_to_dlpipe (req_service_id req)\<rparr>"
    and "e \<noteq> unat epid \<Longrightarrow> service_id (endpoint t' ! e) = 0"
    and "\<And>i. i \<noteq> unat epid \<Longrightarrow> i \<noteq> e \<Longrightarrow> endpoint t' ! i = endpoint t ! i"
proof -
  let ?ep = "(endpoint t ! e)\<lparr>service_id := req_service_id req,
               max_txqdepth := req_max_send_qdepth req,
               ul_pipeid := service_to_ulpipe (req_service_id req),
               dl_pipeid := service_to_dlpipe (req_service_id req),
               ep_callbacks := req_ep_callbacks req\<rparr>"
  let ?t1 = "t\<lparr>endpoint := (endpoint t)[e := ?ep]\<rparr>"
  have pipe: "ul_pipeid (endpoint t ! 0) = control_ul_pipe (hif_usb env)"
    using up by (simp add: hif_usb_def)
  have eb: "0 < e" "e \<le> 21" using avail_ep_from_SomeD e by (auto simp: get_next_avail_ep_def)
  have len: "length (endpoint t) = 22" using wf by (simp add: htc_wf_def)
  obtain t2 where rsp: "htc_process_conn_rsp ?t1 (skb_mem s) = Some t2" and t2: "t2 = ?t1\<lparr>endpoint :=
        ((endpoint ?t1)[e := ?ep\<lparr>service_id := 0\<rparr>])
        [unat epid := ((endpoint ?t1)[e := ?ep\<lparr>service_id := 0\<rparr>] ! unat epid)
                 \<lparr>service_id := req_service_id req, max_txqdepth := max_txqdepth ?ep, ep_callbacks := ep_callbacks ?ep,
                  ul_pipeid := ul_pipeid ?ep, dl_pipeid := dl_pipeid ?ep, max_msglen := uint ml\<rparr>],
            conn_rsp_epid := uint epid, cmd_wait := Suc (cmd_wait ?t1)\<rparr>"
    using conn_rsp_registers [OF wf e nz fresh _ refl s epid(2), of ?ep] by simp
  have t2f: "htc_wf t2" "cmd_wait t2 = Suc 0" "htc_flags t2 = htc_flags t" "conn_rsp_epid t2 = uint epid"
    using len cw by (simp_all add: t2 htc_wf_def)
  have ep2: "endpoint t2 ! unat epid = \<lparr>service_id = req_service_id req, ep_callbacks = req_ep_callbacks req,
       max_txqdepth = req_max_send_qdepth req, max_msglen = uint ml,
       ul_pipeid = service_to_ulpipe (req_service_id req),
       dl_pipeid = service_to_dlpipe (req_service_id req)\<rparr>"
    and e2: "e \<noteq> unat epid \<Longrightarrow> service_id (endpoint t2 ! e) = 0"
    and o2: "\<And>i. i \<noteq> unat epid \<Longrightarrow> i \<noteq> e \<Longrightarrow> endpoint t2 ! i = endpoint t ! i"
    using len eb epid by (simp_all add: t2)
  show thesis
  proof (rule hu.connect_service_reply [OF assms(1,2) TrueI wf pipe e refl refl,
        where evs = "[Ev_rx_msg s len USB_REG_IN_PIPE]"])
    fix st f h' c junk
    assume a: "st = regout_answer env d"
      "htc_connect_service (hif_usb env) alloc [Ev_rx_msg s len USB_REG_IN_PIPE] req t d =
           (if st \<noteq> 0 then Some (st, None, ?t1, h', [Kfree_skb f])
            else do {
              (time_left, t2, us) \<leftarrow> htc_wait_cmd ?t1 [Ev_rx_msg s len USB_REG_IN_PIPE];
              Some (if time_left then (0, Some (conn_rsp_epid t2), t2, h', us)
                    else (- ETIMEDOUT, None, t2, h', us)) })"
    have "htc_connect_service (hif_usb env) alloc [Ev_rx_msg s len USB_REG_IN_PIPE] req t d
        = Some (0, Some (uint epid), t2\<lparr>cmd_wait := 0\<rparr>, h', [Kfree_skb s])"
      unfolding a(2) conn_rsp_wait [OF s] rsp
      using a(1) acc t2f(2,4) by (simp add: wait_for_completion_timeout_def)
    then show thesis
      by (rule that) (use t2f ep2 e2 o2 in \<open>simp_all add: htc_wf_def\<close>)
  qed
qed

section \<open>Properties: connecting a service over USB\<close>

text \<open>C4: connecting a service. When the USB core accepts the request and the target answers with
  success and a free endpoint number, \<open>htc_connect_service\<close> returns 0 and that endpoint number,
  exactly the connect request went out on the register-out pipe, and the endpoint the target
  chose carries the service with the pipes, callbacks and queue depth of the request and the
  message length of the response; the slot reserved for the request is free again.\<close>

theorem connect_service_success:
  assumes "alloc_skb_spec alloc" and "alloc 18 \<noteq> None" and "htc_wf t" and "cmd_wait t = 0"
    and "ul_pipeid (endpoint t ! 0) = USB_REG_OUT_PIPE" and "regout_answer env d = 0"
    and "get_next_avail_ep (endpoint t) = Some e"
    and "req_service_id req \<noteq> 0"
    and "\<And>i. i < ENDPOINT_MAX \<Longrightarrow> service_id (endpoint t ! i) \<noteq> req_service_id req"
    and "wf_skb s" and "skb_bytes s = conn_rsp_frame (req_service_id req) 0 epid ml ctrl"
    and "length ctrl = 4" and "0 < unat epid" and "unat epid < ENDPOINT_MAX"
  shows "\<exists>t' d' c junk. htc_connect_service (hif_usb env) alloc [Ev_rx_msg s len USB_REG_IN_PIPE] req t d
       = Some (0, Some (uint epid), t', d', [Kfree_skb s]) \<and>
     length c = 4 \<and> length junk = 2 \<and>
     regout_bytes d' = regout_bytes d @ [[0, 0] @ be16_bytes 10 @ c
       @ be16_bytes HTC_MSG_CONNECT_SERVICE_ID @ be16_bytes (req_service_id req)
       @ be16_bytes (req_con_flags req)
       @ [service_to_dlpipe (req_service_id req), service_to_ulpipe (req_service_id req)] @ junk] \<and>
     endpoint t' ! unat epid = \<lparr>service_id = req_service_id req, ep_callbacks = req_ep_callbacks req,
       max_txqdepth = req_max_send_qdepth req, max_msglen = uint ml,
       ul_pipeid = service_to_ulpipe (req_service_id req),
       dl_pipeid = service_to_dlpipe (req_service_id req)\<rparr> \<and>
     (e \<noteq> unat epid \<longrightarrow> service_id (endpoint t' ! e) = 0) \<and> cmd_wait t' = 0"
proof -
  let ?ep = "(endpoint t ! e)\<lparr>service_id := req_service_id req,
               max_txqdepth := req_max_send_qdepth req,
               ul_pipeid := service_to_ulpipe (req_service_id req),
               dl_pipeid := service_to_dlpipe (req_service_id req),
               ep_callbacks := req_ep_callbacks req\<rparr>"
  let ?t1 = "t\<lparr>endpoint := (endpoint t)[e := ?ep]\<rparr>"
  have pipe: "ul_pipeid (endpoint t ! 0) = control_ul_pipe (hif_usb env)"
    using assms(5) by (simp add: hif_usb_def)
  have eb: "0 < e" "e \<le> 21" using avail_ep_from_SomeD assms(7) by (auto simp: get_next_avail_ep_def)
  have len: "length (endpoint t) = 22" using assms(3) by (simp add: htc_wf_def)
  note rsp = conn_rsp_registers [OF assms(3,7,8,9) _ refl assms(10-12,14), of ?ep]
  note wait = conn_rsp_wait [OF assms(10-12), of ?t1 len USB_REG_IN_PIPE]
  show ?thesis
  proof (rule hu.connect_service_reply [OF assms(1,2) TrueI assms(3) pipe assms(7) refl refl,
        where evs = "[Ev_rx_msg s len USB_REG_IN_PIPE]"])
    fix st f h' c junk
    assume a: "st = regout_answer env d" "length c = 4" "length junk = 2"
      "regout_bytes h' = (if st = 0 then regout_bytes d @
           [[0, 0] @ be16_bytes 10 @ c @ be16_bytes HTC_MSG_CONNECT_SERVICE_ID
             @ be16_bytes (req_service_id req) @ be16_bytes (req_con_flags req)
             @ [dl_pipeid ?ep, ul_pipeid ?ep] @ junk] else regout_bytes d)"
      "htc_connect_service (hif_usb env) alloc [Ev_rx_msg s len USB_REG_IN_PIPE] req t d =
           (if st \<noteq> 0 then Some (st, None, ?t1, h', [Kfree_skb f])
            else do {
              (time_left, t2, us) \<leftarrow> htc_wait_cmd ?t1 [Ev_rx_msg s len USB_REG_IN_PIPE];
              Some (if time_left then (0, Some (conn_rsp_epid t2), t2, h', us)
                    else (- ETIMEDOUT, None, t2, h', us)) })"
    show ?thesis
      using a(1-4) assms(4,6,13,14) eb len
      by (simp add: a(5) wait rsp wait_for_completion_timeout_def nth_list_update) blast
  qed
qed

text \<open>A refused connect request. When the target answers with a failure status, the response
  handler never completes \<open>cmd_wait\<close>: the caller always gets \<open>-ETIMEDOUT\<close>, and the endpoint slot
  taken for the request keeps its service id, so the slot is lost for later requests.\<close>

theorem connect_service_refused:
  assumes "alloc_skb_spec alloc" and "alloc 18 \<noteq> None" and "htc_wf t" and "cmd_wait t = 0"
    and "ul_pipeid (endpoint t ! 0) = USB_REG_OUT_PIPE" and "regout_answer env d = 0"
    and "get_next_avail_ep (endpoint t) = Some e"
    and "wf_skb s" and "skb_bytes s = conn_rsp_frame (req_service_id req) st epid ml ctrl"
    and "length ctrl = 4" and "st \<noteq> 0"
  shows "\<exists>t' d'. htc_connect_service (hif_usb env) alloc [Ev_rx_msg s len USB_REG_IN_PIPE] req t d
       = Some (- ETIMEDOUT, None, t', d', [Kfree_skb s]) \<and>
     service_id (endpoint t' ! e) = req_service_id req"
proof -
  let ?ep = "(endpoint t ! e)\<lparr>service_id := req_service_id req,
               max_txqdepth := req_max_send_qdepth req,
               ul_pipeid := service_to_ulpipe (req_service_id req),
               dl_pipeid := service_to_dlpipe (req_service_id req),
               ep_callbacks := req_ep_callbacks req\<rparr>"
  let ?t1 = "t\<lparr>endpoint := (endpoint t)[e := ?ep]\<rparr>"
  have pipe: "ul_pipeid (endpoint t ! 0) = control_ul_pipe (hif_usb env)"
    using assms(5) by (simp add: hif_usb_def)
  have eb: "0 < e" "e \<le> 21" using avail_ep_from_SomeD assms(7) by (auto simp: get_next_avail_ep_def)
  note wait = conn_rsp_wait [OF assms(8-10), of ?t1 len USB_REG_IN_PIPE]
  show ?thesis
  proof (rule hu.connect_service_reply [OF assms(1,2) TrueI assms(3) pipe assms(7) refl refl,
        where evs = "[Ev_rx_msg s len USB_REG_IN_PIPE]"])
    fix stt f h' c junk
    assume a: "stt = regout_answer env d"
      "htc_connect_service (hif_usb env) alloc [Ev_rx_msg s len USB_REG_IN_PIPE] req t d =
           (if stt \<noteq> 0 then Some (stt, None, ?t1, h', [Kfree_skb f])
            else do {
              (time_left, t2, us) \<leftarrow> htc_wait_cmd ?t1 [Ev_rx_msg s len USB_REG_IN_PIPE];
              Some (if time_left then (0, Some (conn_rsp_epid t2), t2, h', us)
                    else (- ETIMEDOUT, None, t2, h', us)) })"
    show ?thesis
      using a(1) assms(3,4,6) eb
      by (simp add: a(2) wait conn_rsp_failure [OF assms(8-11)] htc_wf_def
          wait_for_completion_timeout_def)
  qed
qed

definition ex_target0 :: htc_target where
  "ex_target0 = \<lparr>endpoint = (replicate 22 zero_endpoint)
       [0 := zero_endpoint\<lparr>ul_pipeid := 4, dl_pipeid := 3\<rparr>],
     target_wait = 0, cmd_wait = 0, conn_rsp_epid = 0, credits = 33, credit_size = 0,
     htc_flags = 0, tgt_ready = 0\<rparr>"

definition ex_tx_buf :: "nat \<Rightarrow> tx_buf" where
  "ex_tx_buf k = \<lparr>tb_id = k, tb_buf = replicate 32768 0, tb_len = 0, tb_offset = 0, tb_skb_queue = []\<rparr>"

definition ex_dev :: hif_device_usb where
  "ex_dev = \<lparr>dev_flags = 0,
     dev_tx = \<lparr>tx_flags = 0, tx_buf_cnt = 8, tx_skb_cnt = 0, tx_skb_queue = [],
               tx_buf_free = map ex_tx_buf [0..<8], tx_pending = []\<rparr>,
     regout_submitted = [], mgmt_submitted = [], usb_calls = 0, bulk_out = []\<rparr>"

definition ex_env :: "nat \<Rightarrow> usb_answer" where
  "ex_env n = \<lparr>ans_urb = True, ans_cmd = True, ans_submit = 0\<rparr>"

definition ex_req :: htc_service_connreq where
  "ex_req = \<lparr>req_service_id = 0x100, req_con_flags = 0, req_max_send_qdepth = 20,
     req_ep_callbacks = \<lparr>cb_tx = Some Ath9k_wmi_ctrl_tx, cb_rx = Some Ath9k_wmi_ctrl_rx\<rparr>\<rparr>"

lemma ex_alloc_spec: "alloc_skb_spec (ex_alloc 0)"
  by (auto simp: alloc_skb_spec_def ex_alloc_def fresh_skb_def)

lemma ex_target0_unused: "i < 22 \<Longrightarrow> service_id (endpoint ex_target0 ! i) = 0"
  by (auto simp: ex_target0_def zero_endpoint_def nth_list_update)

lemma ex_target0_facts:
  "htc_wf ex_target0" "cmd_wait ex_target0 = 0" "htc_flags ex_target0 = 0"
  "ul_pipeid (endpoint ex_target0 ! 0) = USB_REG_OUT_PIPE"
  "get_next_avail_ep (endpoint ex_target0) = Some 21"
  by (simp_all add: ex_target0_def htc_wf_def get_next_avail_ep_def numeral_eq_Suc zero_endpoint_def
      nth_list_update USB_REG_OUT_PIPE_def)

lemma ex_answer: "regout_answer ex_env d = 0"
  by (simp add: regout_answer_def ex_env_def)

theorem connect_service_success_witness:
  "\<exists>t' d'. htc_connect_service (hif_usb ex_env) (ex_alloc 0)
       [Ev_rx_msg (skb_of_bytes (conn_rsp_frame 0x100 0 1 1000 [0,0,0,0])) 18 USB_REG_IN_PIPE]
       ex_req ex_target0 ex_dev
     = Some (0, Some 1, t', d', [Kfree_skb (skb_of_bytes (conn_rsp_frame 0x100 0 1 1000 [0,0,0,0]))])
     \<and> service_id (endpoint t' ! 1) = 0x100 \<and> service_id (endpoint t' ! 21) = 0"
  using connect_service_success [OF ex_alloc_spec _ ex_target0_facts(1,2,4) ex_answer
      ex_target0_facts(5), of ex_req "skb_of_bytes (conn_rsp_frame 0x100 0 1 1000 [0,0,0,0])"
      1 1000 "[0,0,0,0]" 18 ex_dev]
  by (auto simp: ex_alloc_def ex_req_def ex_target0_unused)

theorem connect_service_refused_witness:
  "\<exists>t' d'. htc_connect_service (hif_usb ex_env) (ex_alloc 0)
       [Ev_rx_msg (skb_of_bytes (conn_rsp_frame 0x100 1 0 0 [0,0,0,0])) 18 USB_REG_IN_PIPE]
       ex_req ex_target0 ex_dev
     = Some (- ETIMEDOUT, None, t', d', [Kfree_skb (skb_of_bytes (conn_rsp_frame 0x100 1 0 0 [0,0,0,0]))])
     \<and> service_id (endpoint t' ! 21) = 0x100"
  using connect_service_refused [OF ex_alloc_spec _ ex_target0_facts(1,2,4) ex_answer
      ex_target0_facts(5), of "skb_of_bytes (conn_rsp_frame 0x100 1 0 0 [0,0,0,0])" ex_req
      1 0 0 "[0,0,0,0]" 18 ex_dev]
  by (auto simp: ex_alloc_def ex_req_def)

text \<open>\<open>htc_init\<close> over USB. With memory for the two control messages and a completion for each of
  them, \<open>htc_init\<close> returns: with 0 after exactly the credit configuration and the setup-complete
  message went out, in this order, and the target state as before; or with \<open>-EINVAL\<close> when the USB
  core refused one of them. The endpoint table never changes.\<close>

theorem htc_init_over_usb:
  assumes "alloc_skb_spec alloc" and "alloc 58 \<noteq> None" and "htc_wf t"
    and "ul_pipeid (endpoint t ! 0) = USB_REG_OUT_PIPE"
    and "htc_flags t = 0" and "cmd_wait t = 0"
  shows "\<exists>ret t' d' ups.
    htc_init (hif_usb env) alloc [Ev_txcompletion c1 ok1] [Ev_txcompletion c2 ok2] t d
      = Some (ret, t', d', ups) \<and>
    endpoint t' = endpoint t \<and> (ret = 0 \<or> ret = - EINVAL) \<and>
    (ret = 0 \<longrightarrow> t' = t \<and> ups = [Kfree_skb c1, Kfree_skb c2] \<and>
       (\<exists>x y. length x = 4 \<and> length y = 4 \<and> regout_bytes d' = regout_bytes d @
          [[0, 0] @ be16_bytes 4 @ x @ be16_bytes HTC_MSG_CONFIG_PIPE_ID
             @ [USB_WLAN_TX_PIPE, ucast (credits t)],
           [0, 0] @ be16_bytes 2 @ y @ be16_bytes HTC_MSG_SETUP_COMPLETE_ID]))"
  using hu.htc_init_completes [OF assms(1,2) TrueI assms(3) _ assms(5,6)] assms(4)
  by (fastforce simp: hif_usb_def)

theorem htc_init_over_usb_witness:
  "\<exists>ret t' d' ups.
    htc_init (hif_usb ex_env) (ex_alloc 0) [Ev_txcompletion ex_reg_skb True]
      [Ev_txcompletion ex_reg_skb True] ex_target0 ex_dev = Some (ret, t', d', ups) \<and>
    endpoint t' = endpoint ex_target0 \<and> (ret = 0 \<or> ret = - EINVAL)"
  using htc_init_over_usb [OF ex_alloc_spec _ ex_target0_facts(1,4,3,2), of ex_env ex_reg_skb True
      ex_reg_skb True ex_dev]
  by (auto simp: ex_alloc_def)

section \<open>Aggregation\<close>

text \<open>How the target reads a bulk transfer: length, tag, frame, padding to four bytes.\<close>

function tx_parse :: "bytes \<Rightarrow> bytes list" where
  "tx_parse bs =
     (case (get_le16 bs 0, get_le16 bs 2) of
        (Some n, Some tag) \<Rightarrow>
          if tag = ATH_USB_TX_STREAM_MODE_TAG
          then take (unat n) (drop 4 bs) # tx_parse (drop (4 + unat n + rx_padding n) bs)
          else []
      | _ \<Rightarrow> [])"
  by pat_completeness auto
termination
  by (relation "measure length") (auto simp: get_le16_def byte_at_def split: Option.bind_splits if_splits)

declare tx_parse.simps [simp del]

lemma tx_parse_Nil [simp]: "tx_parse [] = []"
  by (subst tx_parse.simps) (simp add: get_le16_def byte_at_def)

lemma tx_parse_frame:
  assumes "length data < 65536"
  shows "tx_parse (le16_bytes (word_of_nat (length data)) @ le16_bytes ATH_USB_TX_STREAM_MODE_TAG @ data @ z)
    = data # tx_parse (drop ((4 - length data mod 4) mod 4) z)"
proof -
  let ?bs = "le16_bytes (word_of_nat (length data)) @ le16_bytes ATH_USB_TX_STREAM_MODE_TAG @ data @ z"
  have hdr: "get_le16 ?bs 0 = Some (word_of_nat (length data))"
    "get_le16 ?bs 2 = Some ATH_USB_TX_STREAM_MODE_TAG" "drop 4 ?bs = data @ z"
    using rx_frame_header [of 0 ?bs "word_of_nat (length data)" ATH_USB_TX_STREAM_MODE_TAG "data @ z"]
    by (simp_all add: numeral_2_eq_2)
  have n: "unat (word_of_nat (length data) :: u16) = length data" by (rule unat_len16 [OF assms])
  have "drop (4 + length data + p) ?bs = drop p z" for p by simp
  then show ?thesis
    by (subst tx_parse.simps) (use hdr in \<open>simp add: n rx_padding_eq\<close>)
qed

lemma tx_step_padded:
  assumes "n \<le> 1632"
  shows "word_of_int (tx_step (word_of_nat (n + 4))) = (word_of_nat (4 + n + (4 - n mod 4) mod 4) :: u16)"
proof -
  have un: "unat (word_of_nat (n + 4) :: u16) = n + 4" by (rule unat_len16) (use assms in simp)
  have u: "uint (word_of_nat (n + 4) :: u16) = int (n + 4)" by (subst uint_nat) (simp only: un)
  have nz: "(word_of_nat (n + 4) :: u16) \<noteq> 0"
  proof
    assume "(word_of_nat (n + 4) :: u16) = 0"
    then show False using un by (simp only: unat_0)
  qed
  have nat_eq: "((n + 3) div 4 + 1) * 4 = 4 + n + (4 - n mod 4) mod (4 :: nat)"
  proof -
    have "n mod 4 < 4" by simp
    then consider "n mod 4 = 0" | "n mod 4 = 1" | "n mod 4 = 2" | "n mod 4 = 3" by linarith
    then show ?thesis by cases (simp; presburger)+
  qed
  have "(int (n + 4) - 1) div 4 = int ((n + 3) div 4)" by (simp add: zdiv_int)
  then have "tx_step (word_of_nat (n + 4)) = (int ((n + 3) div 4) + 1) * 4"
    using nz unfolding tx_step_def u by (simp only: if_False)
  also have "\<dots> = int (4 + n + (4 - n mod 4) mod 4)" by (subst nat_eq [symmetric]) simp
  finally have "tx_step (word_of_nat (n + 4)) = int (4 + n + (4 - n mod 4) mod 4)" .
  then show ?thesis by simp
qed

abbreviation (input) padded :: "nat \<Rightarrow> nat" where
  "padded n \<equiv> 4 + n + (4 - n mod 4) mod 4"

lemma padded_bound:
  assumes "n \<le> 1632"
  shows "padded n \<le> 1636"
proof -
  obtain k where k: "padded n = 4 * k" using pad4_dvd [of n] by (auto elim!: dvdE)
  have "(4 - n mod 4) mod 4 < 4" by simp
  then have "padded n \<le> 1639" using assms by linarith
  then show ?thesis unfolding k by presburger
qed

lemma unat_off16:
  assumes "unat (a :: u16) + n \<le> 32768"
  shows "unat (a + word_of_nat n) = unat a + n"
proof -
  have n: "unat (word_of_nat n :: u16) = n" by (rule unat_len16) (use assms in simp)
  have "unat a + unat (word_of_nat n :: u16) < 2 ^ LENGTH(16)" using assms n by simp
  then have "unat (a + word_of_nat n) = unat a + unat (word_of_nat n :: u16)"
    by (rule unat_add_lem [THEN iffD1])
  then show ?thesis using n by simp
qed

definition htc_frame_ok :: "sk_buff \<Rightarrow> bool" where
  \<comment> \<open>the frame starts with the number of an endpoint of the table\<close>
  "htc_frame_ok s \<longleftrightarrow> (\<exists>e. byte_at (skb_mem s) 0 = Some e \<and> unat e < ENDPOINT_MAX)"

definition tx_frame_ok :: "sk_buff \<Rightarrow> bool" where
  \<comment> \<open>twenty such frames fit into a transmit buffer\<close>
  "tx_frame_ok s \<longleftrightarrow> wf_skb s \<and> skb_len s \<le> 1632 \<and> htc_frame_ok s"

lemma read_skb: "wf_skb s \<Longrightarrow> read_bytes (skb_mem s) 0 (skb_len s) = Some (skb_bytes s)"
  by (auto simp: read_bytes_def skb_bytes_def wf_skb_def skb_mem_def skb_len_def)

lemma drop_take_split:
  assumes "a \<le> p" and "p \<le> l"
  shows "drop a (take l xs) = drop a (take p xs) @ drop p (take l xs)"
proof -
  have "take l xs = take p xs @ drop p (take l xs)"
    using append_take_drop_id [of p "take l xs"] assms(2) by (simp add: min_def)
  then have "drop a (take l xs) = drop a (take p xs @ drop p (take l xs))" by simp
  then show ?thesis using assms by (cases "a \<le> length xs") auto
qed

lemma tx_fill_ok:
  assumes "\<forall>s \<in> set q. tx_frame_ok s" and "tx_skb_queue x = q" and "n < length q"
    and "length (tb_buf b) = 32768" and "unat (tb_offset b) + Suc n * 1636 \<le> 32768"
  shows "\<exists>b'. tx_fill (Suc n) x b = Some (x\<lparr>tx_skb_queue := drop (Suc n) q,
        tx_skb_cnt := tx_skb_cnt x - word_of_nat (Suc n)\<rparr>, b') \<and>
     tb_id b' = tb_id b \<and> length (tb_buf b') = 32768 \<and>
     take (unat (tb_offset b)) (tb_buf b') = take (unat (tb_offset b)) (tb_buf b) \<and>
     tb_skb_queue b' = tb_skb_queue b @ take (Suc n) q \<and>
     unat (tb_offset b) \<le> unat (tb_len b') \<and> unat (tb_len b') \<le> 32768 \<and>
     tx_parse (drop (unat (tb_offset b)) (take (unat (tb_len b')) (tb_buf b')))
       = map skb_bytes (take (Suc n) q)"
  using assms
proof (induction n arbitrary: q x b)
  case 0
  then obtain s q' where q: "q = s # q'" by (cases q) auto
  have s: "wf_skb s" "skb_len s \<le> 1632" using 0 by (simp_all add: q tx_frame_ok_def)
  let ?n = "skb_len s" and ?o = "unat (tb_offset b)"
  define f where "f = le16_bytes (word_of_nat ?n) @ le16_bytes ATH_USB_TX_STREAM_MODE_TAG @ skb_bytes s"
  let ?buf = "take ?o (tb_buf b) @ f @ drop (?o + length f) (tb_buf b)"
  have lf: "length f = 4 + ?n" using s(1) by (simp add: f_def)
  have wr: "write_bytes (tb_buf b) ?o f = Some ?buf"
    by (rule write_bytes_in) (use 0 s lf in simp)
  have ln: "unat (word_of_nat (?n + 4) + tb_offset b) = ?o + length f"
    unfolding add.commute [of _ "tb_offset b"]
    by (subst unat_off16) (use 0 s lf in simp_all)
  have lo: "length (take ?o (tb_buf b)) = ?o" using 0 by simp
  have lb: "length ?buf = 32768" using 0 s lf lo by simp
  have cut: "drop ?o (take (?o + length f) ?buf) = f" using lo by simp
  have parse: "tx_parse f = [skb_bytes s]"
    using tx_parse_frame [of "skb_bytes s" "[]"] s by (simp add: f_def)
  have "tx_fill (Suc 0) x b = Some (x\<lparr>tx_skb_queue := q', tx_skb_cnt := tx_skb_cnt x - 1\<rparr>,
      b\<lparr>tb_buf := ?buf, tb_len := word_of_nat (?n + 4) + tb_offset b,
         tb_skb_queue := tb_skb_queue b @ [s]\<rparr>)"
    using 0(2) wr [unfolded f_def] read_skb [OF s(1)] by (simp add: q f_def)
  then show ?case
    using ln cut parse lo lb lf 0 s by (simp add: q)
next
  case (Suc n)
  then obtain s q' where q: "q = s # q'" by (cases q) auto
  have s: "wf_skb s" "skb_len s \<le> 1632" using Suc.prems by (simp_all add: q tx_frame_ok_def)
  let ?n = "skb_len s" and ?o = "unat (tb_offset b)"
  define f where "f = le16_bytes (word_of_nat ?n) @ le16_bytes ATH_USB_TX_STREAM_MODE_TAG @ skb_bytes s"
  let ?buf = "take ?o (tb_buf b) @ f @ drop (?o + length f) (tb_buf b)"
  have lf: "length f = 4 + ?n" using s(1) by (simp add: f_def)
  have pb: "padded ?n \<le> 1636" by (rule padded_bound [OF s(2)])
  have bound: "?o + padded ?n + Suc n * 1636 \<le> 32768" using Suc.prems(5) pb by simp
  have wr: "write_bytes (tb_buf b) ?o f = Some ?buf"
    by (rule write_bytes_in) (use Suc.prems s lf in simp)
  have o1: "unat (tb_offset b + word_of_nat (padded ?n)) = ?o + padded ?n"
    by (rule unat_off16) (use bound in simp)
  have lo: "length (take ?o (tb_buf b)) = ?o" using Suc.prems by simp
  have lb: "length ?buf = 32768" using Suc.prems s lf lo by simp
  let ?b = "b\<lparr>tb_buf := ?buf, tb_len := word_of_nat (?n + 4),
               tb_offset := tb_offset b + word_of_nat (padded ?n),
               tb_skb_queue := tb_skb_queue b @ [s]\<rparr>"
  let ?x = "x\<lparr>tx_skb_queue := q', tx_skb_cnt := tx_skb_cnt x - 1\<rparr>"
  have one: "tx_fill (Suc (Suc n)) x b = tx_fill (Suc n) ?x ?b"
    using Suc.prems(2) wr [unfolded f_def] read_skb [OF s(1)] tx_step_padded [OF s(2)]
    by (subst tx_fill.simps(2)) (simp add: q f_def Let_def del: tx_fill.simps)
  have q': "\<forall>s \<in> set q'. tx_frame_ok s" "tx_skb_queue ?x = q'" "n < length q'"
    using Suc.prems q by simp_all
  have b1: "length (tb_buf ?b) = 32768" "unat (tb_offset ?b) + Suc n * 1636 \<le> 32768"
    using lb o1 bound by simp_all
  obtain b' where b': "tx_fill (Suc n) ?x ?b = Some (?x\<lparr>tx_skb_queue := drop (Suc n) q',
        tx_skb_cnt := tx_skb_cnt ?x - word_of_nat (Suc n)\<rparr>, b')"
     "tb_id b' = tb_id ?b" "length (tb_buf b') = 32768"
     "take (unat (tb_offset ?b)) (tb_buf b') = take (unat (tb_offset ?b)) (tb_buf ?b)"
     "tb_skb_queue b' = tb_skb_queue ?b @ take (Suc n) q'"
     "unat (tb_offset ?b) \<le> unat (tb_len b')" "unat (tb_len b') \<le> 32768"
     "tx_parse (drop (unat (tb_offset ?b)) (take (unat (tb_len b')) (tb_buf b')))
       = map skb_bytes (take (Suc n) q')"
    using Suc.IH [OF q' b1] by blast
  have ob: "unat (tb_offset ?b) = ?o + padded ?n" using o1 by simp
  let ?L = "unat (tb_len b')" and ?p = "?o + padded ?n"
  define z where "z = take (padded ?n - length f) (drop (?o + length f) (tb_buf b))"
  have lz: "length z = (4 - length (skb_bytes s) mod 4) mod 4"
    using Suc.prems(4) bound lf s(1) by (simp add: z_def)
  have "drop ?o (take ?p (tb_buf b')) = drop ?o (take ?p ?buf)" using b'(4) unfolding ob by simp
  also have "\<dots> = f @ z" using lo lf by (simp add: z_def)
  finally have "drop ?o (take ?L (tb_buf b')) = f @ z @ drop ?p (take ?L (tb_buf b'))"
    using drop_take_split [of ?o ?p ?L "tb_buf b'"] b'(6) unfolding ob by simp
  then have parse: "tx_parse (drop ?o (take ?L (tb_buf b'))) = map skb_bytes (take (Suc (Suc n)) q)"
    using tx_parse_frame [of "skb_bytes s" "z @ drop ?p (take ?L (tb_buf b'))"] b'(8) s lz
    unfolding ob by (simp add: f_def q)
  have keep: "take ?o (tb_buf b') = take ?o (tb_buf b)"
  proof -
    have "take ?o (tb_buf b') = take ?o (take ?p (tb_buf b'))" by (simp add: take_take min_def)
    also have "\<dots> = take ?o (take ?p ?buf)" using b'(4) unfolding ob by simp
    also have "\<dots> = take ?o ?buf" by (simp only: take_take min_def le_add1 if_True)
    also have "\<dots> = take ?o (tb_buf b)" using lo by simp
    finally show ?thesis .
  qed
  have cnt: "tx_skb_cnt x - 1 - word_of_nat (Suc n) = tx_skb_cnt x - word_of_nat (Suc (Suc n))"
    by simp
  have whole: "tx_fill (Suc (Suc n)) x b = Some (x\<lparr>tx_skb_queue := drop (Suc (Suc n)) q,
      tx_skb_cnt := tx_skb_cnt x - word_of_nat (Suc (Suc n))\<rparr>, b')"
    unfolding one b'(1) q using cnt by simp
  have skbs: "tb_skb_queue b' = tb_skb_queue b @ take (Suc (Suc n)) q" using b'(5) q by simp
  have le: "?o \<le> ?L" using b'(6) unfolding ob by simp
  show ?case
    using whole b'(2,3) keep skbs le b'(7) parse by (intro exI [of _ b'] conjI) simp_all
qed

section \<open>The transmit state and its invariant\<close>

definition tx_inv :: "hif_usb_tx \<Rightarrow> bool" where
  "tx_inv x \<longleftrightarrow>
     unat (tx_skb_cnt x) = length (tx_skb_queue x) \<and> length (tx_skb_queue x) \<le> MAX_TX_BUF_NUM + 1 \<and>
     unat (tx_buf_cnt x) = length (tx_buf_free x) \<and>
     length (tx_buf_free x) + length (tx_pending x) = MAX_TX_URB_NUM \<and>
     distinct (map tb_id (tx_buf_free x @ tx_pending x)) \<and>
     (\<forall>b \<in> set (tx_buf_free x). tb_offset b = 0 \<and> tb_skb_queue b = []) \<and>
     (\<forall>b \<in> set (tx_buf_free x @ tx_pending x). length (tb_buf b) = MAX_TX_BUF_SIZE) \<and>
     (\<forall>b \<in> set (tx_pending x). \<forall>s \<in> set (tb_skb_queue b). htc_frame_ok s) \<and>
     (\<forall>s \<in> set (tx_skb_queue x). tx_frame_ok s)"

definition mgmt_inv :: "hif_device_usb \<Rightarrow> bool" where
  \<comment> \<open>management frames in flight carry the four-byte stream header in front of the HTC frame\<close>
  "mgmt_inv d \<longleftrightarrow> (\<forall>s \<in> set (mgmt_submitted d). 4 \<le> skb_len s \<and> htc_frame_ok (skb_pull 4 s))"

definition hif_inv :: "htc_target \<Rightarrow> hif_device_usb \<Rightarrow> bool" where
  "hif_inv t d \<longleftrightarrow> htc_wf t \<and> tx_inv (dev_tx d) \<and> mgmt_inv d"

definition outstanding :: "hif_device_usb \<Rightarrow> nat" where
  \<comment> \<open>the frames the transport holds: queued, in a pending buffer, or in a management URB\<close>
  "outstanding d = length (tx_skb_queue (dev_tx d))
     + sum_list (map (\<lambda>b. length (tb_skb_queue b)) (tx_pending (dev_tx d)))
     + length (mgmt_submitted d)"

lemma txcompletion_one:
  assumes "htc_wf t" and "htc_frame_ok s"
  shows "\<exists>t' u. ath9k_htc_txcompletion_cb t (Some s) ok = Some (t', [u]) \<and> htc_wf t'"
proof -
  obtain e where e: "byte_at (skb_mem s) 0 = Some e" "unat e < 22"
    using assms(2) by (auto simp: htc_frame_ok_def)
  show ?thesis
    using assms(1) e
    by (cases "cb_tx (ep_callbacks (endpoint t ! unat e))")
       (simp_all add: ath9k_htc_txcompletion_cb_def htc_wf_def Let_def)
qed

lemma queue_complete_ok:
  "htc_wf t \<Longrightarrow> \<forall>s \<in> set q. htc_frame_ok s \<Longrightarrow>
     \<exists>t' ups. ath9k_skb_queue_complete t q ok = Some (t', ups) \<and> htc_wf t' \<and> length ups = length q"
proof (induction q arbitrary: t)
  case Nil
  then show ?case by simp
next
  case (Cons s q)
  obtain t1 u where 1: "ath9k_htc_txcompletion_cb t (Some s) ok = Some (t1, [u])" "htc_wf t1"
    using txcompletion_one [of t s ok] Cons.prems by auto
  then show ?case using Cons.IH [of t1] Cons.prems(2) by auto
qed

lemma tx_inv_cnt_word:
  assumes "unat (c :: u16) = n" and "k \<le> n"
  shows "unat (c - word_of_nat k) = n - k"
proof -
  have "unat c < 2 ^ LENGTH(16)" by (rule unsigned_less)
  then have "n < 65536" using assms(1) by simp
  then have k: "unat (word_of_nat k :: u16) = k" by (intro unat_len16) (use assms in simp)
  then have "(word_of_nat k :: u16) \<le> c" using assms by (simp add: word_le_nat_alt)
  then show ?thesis using k assms by (simp add: unat_sub)
qed

text \<open>What \<open>__hif_usb_tx\<close> does when it has frames and a buffer.\<close>

lemma hif_usb_tx_locked_ok:
  fixes env :: "nat \<Rightarrow> usb_answer"
  assumes inv: "hif_inv t d" and q: "tx_skb_queue (dev_tx d) \<noteq> []"
    and fr: "tx_buf_free (dev_tx d) = b # fr"
  defines "n \<equiv> min (length (tx_skb_queue (dev_tx d))) MAX_TX_AGGR_NUM"
    and "ret \<equiv> ans_submit (env (usb_calls d))"
  obtains b' x' out where "x' = (dev_tx d)\<lparr>tx_skb_queue := drop n (tx_skb_queue (dev_tx d)),
        tx_skb_cnt := tx_skb_cnt (dev_tx d) - word_of_nat n,
        tx_buf_free := fr, tx_buf_cnt := tx_buf_cnt (dev_tx d) - 1\<rparr>"
    and "tb_id b' = tb_id b" and "length (tb_buf b') = MAX_TX_BUF_SIZE"
    and "tb_skb_queue b' = take n (tx_skb_queue (dev_tx d))"
    and "tx_parse out = map skb_bytes (take n (tx_skb_queue (dev_tx d)))"
    and "hif_usb_tx_locked env t d =
      (if ret \<noteq> 0 then do {
         (t, ups) \<leftarrow> ath9k_skb_queue_complete t (take n (tx_skb_queue (dev_tx d))) False;
         Some (ret, t, d\<lparr>usb_calls := Suc (usb_calls d), dev_tx := x'\<lparr>
              tx_buf_free := fr @ [b'\<lparr>tb_len := 0, tb_offset := 0, tb_skb_queue := []\<rparr>],
              tx_buf_cnt := tx_buf_cnt x' + 1\<rparr>\<rparr>, ups) }
       else Some (0, t, d\<lparr>usb_calls := Suc (usb_calls d),
              dev_tx := x'\<lparr>tx_pending := tx_pending x' @ [b']\<rparr>,
              bulk_out := bulk_out d @ [(USB_WLAN_TX_PIPE, out)]\<rparr>, []))"
proof -
  let ?x = "dev_tx d" and ?q = "tx_skb_queue (dev_tx d)"
  have x: "unat (tx_skb_cnt ?x) = length ?q" "length (tb_buf b) = 32768" "tb_offset b = 0"
      "tb_skb_queue b = []" "\<forall>s \<in> set ?q. tx_frame_ok s"
    using inv fr by (simp_all add: hif_inv_def tx_inv_def)
  obtain m where m: "n = Suc m" using q by (cases n) (auto simp: n_def min_def split: if_splits)
  let ?y = "?x\<lparr>tx_buf_free := fr, tx_buf_cnt := tx_buf_cnt ?x - 1\<rparr>"
  have y: "tx_skb_queue ?y = ?q" "m < length ?q" "unat (tb_offset b) + Suc m * 1636 \<le> 32768"
    using m x(3) by (simp_all add: n_def)
  from tx_fill_ok [OF x(5) y(1,2) x(2) y(3)]
  obtain b' where b': "tx_fill n ?y b = Some (?y\<lparr>tx_skb_queue := drop n ?q,
        tx_skb_cnt := tx_skb_cnt ?y - word_of_nat n\<rparr>, b')"
     "tb_id b' = tb_id b" "length (tb_buf b') = 32768" "tb_skb_queue b' = take n ?q"
     "unat (tb_len b') \<le> 32768"
     "tx_parse (take (unat (tb_len b')) (tb_buf b')) = map skb_bytes (take n ?q)"
    using x(3,4) m by auto
  have out: "read_bytes (tb_buf b') 0 (unat (tb_len b')) = Some (take (unat (tb_len b')) (tb_buf b'))"
    using b'(3,5) by (simp add: read_bytes_def)
  have nz: "tx_skb_cnt ?x \<noteq> 0" using x(1) q by auto
  show thesis
    by (rule that [OF refl b'(2-4,6)])
       (use b'(1) out fr nz x(1) b'(4) in
         \<open>simp add: hif_usb_tx_locked_def Let_def n_def ret_def cong: if_cong\<close>)
qed

definition tx_progress :: "hif_device_usb \<Rightarrow> htc_target \<times> hif_device_usb \<times> htc_upcall list \<Rightarrow> nat \<Rightarrow> bool" where
  \<comment> \<open>the invariant holds afterwards and no frame was lost or released twice: what the transport
      held before, with the frames it accepted, is what it still holds and what it released\<close>
  "tx_progress d r accepted \<longleftrightarrow> (case r of (t', d', ups) \<Rightarrow>
     hif_inv t' d' \<and> outstanding d' + length ups = outstanding d + accepted \<and>
     has_flag (tx_flags (dev_tx d')) HIF_USB_TX_STOP = has_flag (tx_flags (dev_tx d)) HIF_USB_TX_STOP)"

lemma pending_split:
  assumes "distinct (map tb_id xs)" and "k \<in> set (map tb_id xs)"
  obtains ys b zs where "xs = ys @ b # zs" and "tb_id b = k"
    and "filter (\<lambda>c. tb_id c = k) xs = [b]" and "filter (\<lambda>c. tb_id c \<noteq> k) xs = ys @ zs"
proof -
  obtain b where b: "b \<in> set xs" "tb_id b = k" using assms(2) by auto
  obtain ys zs where xs: "xs = ys @ b # zs" using split_list [OF b(1)] by blast
  have ne: "\<forall>c \<in> set ys \<union> set zs. tb_id c \<noteq> k" using assms(1) b(2) xs by (auto simp: rev_image_eqI)
  then have "filter (\<lambda>c. tb_id c = k) ys = []" "filter (\<lambda>c. tb_id c = k) zs = []"
      "filter (\<lambda>c. tb_id c \<noteq> k) ys = ys" "filter (\<lambda>c. tb_id c \<noteq> k) zs = zs"
    by (auto simp: filter_empty_conv)
  then show thesis using that [OF xs b(2)] xs b(2) by simp
qed

lemma tx_frame_ok_htc: "tx_frame_ok s \<Longrightarrow> htc_frame_ok s"
  by (simp add: tx_frame_ok_def)

lemma hif_usb_tx_locked_progress:
  assumes inv: "hif_inv t d"
  shows "\<exists>ret t' d' ups. hif_usb_tx_locked env t d = Some (ret, t', d', ups) \<and>
     tx_progress d (t', d', ups) 0 \<and> mgmt_submitted d' = mgmt_submitted d"
proof (cases "tx_skb_queue (dev_tx d) = [] \<or> tx_buf_free (dev_tx d) = []")
  case True
  then have "tx_skb_cnt (dev_tx d) = 0 \<or> tx_buf_free (dev_tx d) = []"
    using inv by (auto simp: hif_inv_def tx_inv_def unat_eq_0)
  then have "hif_usb_tx_locked env t d = Some (0, t, d, [])" by (auto simp: hif_usb_tx_locked_def Let_def)
  then show ?thesis using inv by (simp add: tx_progress_def)
next
  case False
  then obtain b fr where fr: "tx_buf_free (dev_tx d) = b # fr" and q: "tx_skb_queue (dev_tx d) \<noteq> []"
    by (cases "tx_buf_free (dev_tx d)") auto
  let ?x = "dev_tx d" and ?q = "tx_skb_queue (dev_tx d)"
  let ?n = "min (length ?q) MAX_TX_AGGR_NUM"
  obtain b' x' out where x': "x' = ?x\<lparr>tx_skb_queue := drop ?n ?q,
        tx_skb_cnt := tx_skb_cnt ?x - word_of_nat ?n, tx_buf_free := fr,
        tx_buf_cnt := tx_buf_cnt ?x - 1\<rparr>"
    and b': "tb_id b' = tb_id b" "length (tb_buf b') = 32768" "tb_skb_queue b' = take ?n ?q"
    and run: "hif_usb_tx_locked env t d =
      (if ans_submit (env (usb_calls d)) \<noteq> 0 then do {
         (t, ups) \<leftarrow> ath9k_skb_queue_complete t (take ?n ?q) False;
         Some (ans_submit (env (usb_calls d)), t, d\<lparr>usb_calls := Suc (usb_calls d), dev_tx := x'\<lparr>
              tx_buf_free := fr @ [b'\<lparr>tb_len := 0, tb_offset := 0, tb_skb_queue := []\<rparr>],
              tx_buf_cnt := tx_buf_cnt x' + 1\<rparr>\<rparr>, ups) }
       else Some (0, t, d\<lparr>usb_calls := Suc (usb_calls d),
              dev_tx := x'\<lparr>tx_pending := tx_pending x' @ [b']\<rparr>,
              bulk_out := bulk_out d @ [(USB_WLAN_TX_PIPE, out)]\<rparr>, []))"
    by (rule hif_usb_tx_locked_ok [OF inv q fr, of env]) blast
  have I: "tx_inv ?x" "htc_wf t" using inv by (simp_all add: hif_inv_def)
  have cnt: "unat (tx_skb_cnt ?x - word_of_nat ?n) = length ?q - ?n"
    by (rule tx_inv_cnt_word) (use I in \<open>simp_all add: tx_inv_def\<close>)
  have bc: "unat (tx_buf_cnt ?x) = Suc (length fr)" using I fr by (simp add: tx_inv_def)
  then have "tx_buf_cnt ?x \<noteq> 0" by auto
  then have bc1: "unat (tx_buf_cnt ?x - 1) = length fr" using bc by (simp add: unat_minus_one)
  have ok: "\<forall>s \<in> set (take ?n ?q). htc_frame_ok s" "\<forall>s \<in> set (drop ?n ?q). tx_frame_ok s"
    using I(1) by (auto simp: tx_inv_def tx_frame_ok_def dest: in_set_takeD in_set_dropD)
  show ?thesis
  proof (cases "ans_submit (env (usb_calls d)) = 0")
    case True
    have "tx_inv (x'\<lparr>tx_pending := tx_pending x' @ [b']\<rparr>)"
      using I(1) fr b' cnt bc1 ok by (auto simp: tx_inv_def x')
    then show ?thesis
      using run True inv fr b'(3)
      by (auto simp: tx_progress_def hif_inv_def mgmt_inv_def outstanding_def x')
  next
    case False
    obtain t' ups where c: "ath9k_skb_queue_complete t (take ?n ?q) False = Some (t', ups)"
        "htc_wf t'" "length ups = length (take ?n ?q)"
      using queue_complete_ok [OF I(2) ok(1)] by blast
    have "tx_inv (x'\<lparr>tx_buf_free := fr @ [b'\<lparr>tb_len := 0, tb_offset := 0, tb_skb_queue := []\<rparr>],
              tx_buf_cnt := tx_buf_cnt x' + 1\<rparr>)"
      using I(1) fr b' cnt bc ok by (auto simp: tx_inv_def x')
    then show ?thesis
      using run False c inv fr
      by (auto simp: tx_progress_def hif_inv_def mgmt_inv_def outstanding_def x')
  qed
qed

lemma hif_usb_tx_cb_progress:
  assumes inv: "hif_inv t d" and k: "k \<in> set (map tb_id (tx_pending (dev_tx d)))"
  shows "\<exists>t' d' ups. hif_usb_tx_cb env st k t d = Some (t', d', ups) \<and> tx_progress d (t', d', ups) 0 \<and>
     mgmt_submitted d' = mgmt_submitted d"
proof -
  let ?x = "dev_tx d"
  have I: "tx_inv ?x" "htc_wf t" using inv by (simp_all add: hif_inv_def)
  have dist: "distinct (map tb_id (tx_pending ?x))" using I(1) by (simp add: tx_inv_def)
  obtain ys b zs where p: "tx_pending ?x = ys @ b # zs" and bk: "tb_id b = k"
    and f: "filter (\<lambda>c. tb_id c = k) (tx_pending ?x) = [b]"
      "filter (\<lambda>c. tb_id c \<noteq> k) (tx_pending ?x) = ys @ zs"
    by (rule pending_split [OF dist k])
  have ne: "\<forall>c \<in> set ys \<union> set zs. tb_id c \<noteq> k" 
    using arg_cong [OF f(2), of set] by auto
  have ok: "\<forall>s \<in> set (tb_skb_queue b). htc_frame_ok s" using I(1) p by (simp add: tx_inv_def)
  show ?thesis
  proof (cases "urb_dead_status st \<and> has_flag (tx_flags ?x) HIF_USB_TX_FLUSH")
    case True
    let ?m = "map (\<lambda>c. if tb_id c = k then c\<lparr>tb_skb_queue := []\<rparr> else c) (tx_pending ?x)"
    have m: "?m = ys @ b\<lparr>tb_skb_queue := []\<rparr> # zs" using ne bk p by (auto simp: map_idI)
    have "hif_usb_tx_cb env st k t d
        = Some (t, d\<lparr>dev_tx := ?x\<lparr>tx_pending := ?m\<rparr>\<rparr>, map Kfree_skb (tb_skb_queue b))"
      using True by (simp add: hif_usb_tx_cb_def Let_def f(1) ath9k_skb_queue_purge_def)
    moreover have "tx_inv (?x\<lparr>tx_pending := ys @ b\<lparr>tb_skb_queue := []\<rparr> # zs\<rparr>)"
      using I(1) p by (auto simp: tx_inv_def)
    ultimately show ?thesis
      unfolding m using inv p by (auto simp: tx_progress_def hif_inv_def mgmt_inv_def outstanding_def)
  next
    case False
    obtain t1 ups where c: "ath9k_skb_queue_complete t (tb_skb_queue b) (st = 0) = Some (t1, ups)"
        "htc_wf t1" "length ups = length (tb_skb_queue b)"
      using queue_complete_ok [OF I(2) ok] by blast
    let ?d = "d\<lparr>dev_tx := ?x\<lparr>tx_pending := ys @ zs, tx_buf_free := tx_buf_free ?x
                @ [b\<lparr>tb_len := 0, tb_offset := 0, tb_skb_queue := []\<rparr>],
                tx_buf_cnt := tx_buf_cnt ?x + 1\<rparr>\<rparr>"
    have bc: "unat (tx_buf_cnt ?x) = length (tx_buf_free ?x)" "length (tx_buf_free ?x) < 8"
      using I(1) p by (auto simp: tx_inv_def)
    have "unat (tx_buf_cnt ?x) + unat (1 :: u8) < 2 ^ LENGTH(8)" using bc by simp
    then have "unat (tx_buf_cnt ?x + 1) = Suc (length (tx_buf_free ?x))"
      using bc(1) by (subst unat_add_lem [THEN iffD1]) simp_all
    then have xi: "tx_inv (dev_tx ?d)" using I(1) p by (auto simp: tx_inv_def)
    then have di: "hif_inv t1 ?d" using inv c(2) by (simp add: hif_inv_def mgmt_inv_def)
    have out: "outstanding ?d + length ups = outstanding d" using p c(3) by (simp add: outstanding_def)
    obtain ret t2 d2 us where n: "hif_usb_tx_locked env t1 ?d = Some (ret, t2, d2, us)"
        "tx_progress ?d (t2, d2, us) 0" "mgmt_submitted d2 = mgmt_submitted ?d"
      using hif_usb_tx_locked_progress [OF di] by blast
    have "hif_usb_tx_cb env st k t d = (if has_flag (tx_flags ?x) HIF_USB_TX_STOP
        then Some (t1, ?d, ups) else Some (t2, d2, ups @ us))"
      using False c(1) n(1) by (auto simp: hif_usb_tx_cb_def Let_def f)
    then show ?thesis using n(2,3) out di by (auto simp: tx_progress_def)
  qed
qed

lemma push_pull_mem:
  assumes "wf_skb s" and "skb_push_bytes bs s = Some s'"
  shows "skb_mem (skb_pull (length bs) s') = skb_mem s" and "skb_len s' = skb_len s + length bs"
proof -
  have d: "skb_data s' + length bs = skb_data s" "skb_tail s' = skb_tail s" "wf_skb s'"
    using skb_push_bytes_SomeD [OF assms] by simp_all
  then show l: "skb_len s' = skb_len s + length bs"
    using assms(1) by (auto simp: skb_len_def wf_skb_def)
  have "skb_buf s' = take (skb_data s - length bs) (skb_buf s) @ bs @ drop (skb_data s) (skb_buf s)"
    using assms
    by (auto simp: skb_push_bytes_def skb_push_def skb_store_def write_bytes_def
        split: Option.bind_splits if_splits)
  moreover have "skb_data s \<le> length (skb_buf s)" using assms(1) by (simp add: wf_skb_def)
  moreover have "skb_mem (skb_pull (length bs) s') = drop (skb_data s) (skb_buf s')"
    using l d(1) by (simp add: skb_mem_def skb_pull_def)
  ultimately show "skb_mem (skb_pull (length bs) s') = skb_mem s"
    using d(1) by (simp add: skb_mem_def)
qed

definition send_ok :: "sk_buff \<Rightarrow> bool" where
  \<comment> \<open>a frame of one of the four types, with headroom for the stream header\<close>
  "send_ok s \<longleftrightarrow> tx_frame_ok s \<and> 4 \<le> skb_data s \<and>
     ctl_type (skb_cb s) \<in> {ATH9K_HTC_AMPDU, ATH9K_HTC_NORMAL, ATH9K_HTC_BEACON, ATH9K_HTC_MGMT}"

lemma hif_usb_send_mgmt_progress:
  assumes inv: "hif_inv t d" and s: "send_ok s"
  shows "\<exists>ret d'. hif_usb_send_mgmt env d s = Some (ret, d') \<and> hif_inv t d' \<and>
    dev_tx d' = dev_tx d \<and> outstanding d' = outstanding d + (if ret = 0 then 1 else 0)"
proof -
  let ?h = "le16_bytes (word_of_nat (skb_len s)) @ le16_bytes ATH_USB_TX_STREAM_MODE_TAG"
  have wf: "wf_skb s" "htc_frame_ok s" using s by (simp_all add: send_ok_def tx_frame_ok_def)
  obtain s' where s': "skb_push_bytes ?h s = Some s'"
    using skb_push_bytes_enough [OF wf(1), of ?h] s by (auto simp: send_ok_def)
  note pp = push_pull_mem [OF wf(1) s']
  have "htc_frame_ok (skb_pull 4 s')" "4 \<le> skb_len s'"
    using pp wf(2) by (simp_all add: htc_frame_ok_def)
  then show ?thesis
    using s' inv
    by (auto simp: hif_usb_send_mgmt_def Let_def hif_inv_def mgmt_inv_def outstanding_def errno_simps)
qed

lemma hif_usb_send_tx_progress:
  assumes inv: "hif_inv t d" and s: "send_ok s"
  shows "\<exists>ret t' d' ups. hif_usb_send_tx env t d s = Some (ret, t', d', ups) \<and>
     tx_progress d (t', d', ups) (if ret = 0 then 1 else 0)"
proof -
  let ?x = "dev_tx d"
  consider (refuse) "has_flag (tx_flags ?x) HIF_USB_TX_STOP \<or> 256 < unat (tx_skb_cnt ?x)"
    | (mgmt) "\<not> has_flag (tx_flags ?x) HIF_USB_TX_STOP" "unat (tx_skb_cnt ?x) \<le> 256"
        "ctl_type (skb_cb s) = ATH9K_HTC_MGMT \<or> ctl_type (skb_cb s) = ATH9K_HTC_BEACON"
    | (data) "\<not> has_flag (tx_flags ?x) HIF_USB_TX_STOP" "unat (tx_skb_cnt ?x) \<le> 256"
        "ctl_type (skb_cb s) = ATH9K_HTC_NORMAL \<or> ctl_type (skb_cb s) = ATH9K_HTC_AMPDU"
    using s
    by (cases "has_flag (tx_flags ?x) HIF_USB_TX_STOP"; cases "256 < unat (tx_skb_cnt ?x)")
       (auto simp: send_ok_def)
  then show ?thesis
  proof cases
    case refuse
    then obtain ret where "ret \<noteq> 0" "hif_usb_send_tx env t d s = Some (ret, t, d, [])"
      by (cases "has_flag (tx_flags ?x) HIF_USB_TX_STOP")
         (simp_all add: hif_usb_send_tx_def Let_def errno_simps)
    then show ?thesis using inv by (auto simp: tx_progress_def)
  next
    case mgmt
    obtain ret d1 where m: "hif_usb_send_mgmt env d s = Some (ret, d1)" "hif_inv t d1"
        "dev_tx d1 = ?x" "outstanding d1 = outstanding d + (if ret = 0 then 1 else 0)"
      using hif_usb_send_mgmt_progress [OF inv s] by blast
    obtain r t2 d2 us where l: "hif_usb_tx_locked env t d1 = Some (r, t2, d2, us)"
        "tx_progress d1 (t2, d2, us) 0"
      using hif_usb_tx_locked_progress [OF m(2)] by blast
    have same: "d1\<lparr>dev_tx := ?x\<rparr> = d1" unfolding m(3) [symmetric] by (cases d1) simp
    have "hif_usb_send_tx env t d s =
        (if unat (tx_buf_cnt ?x) = MAX_TX_URB_NUM \<and> tx_skb_cnt ?x < 2
         then Some (ret, t2, d2, us) else Some (ret, t, d1, []))"
      using mgmt m(1) l(1)
      by (auto simp: hif_usb_send_tx_def Let_def htc_frame_types m(3) same)
    then show ?thesis
      using m l(2) by (cases "ret = 0") (auto simp: tx_progress_def)
  next
    case data
    let ?d = "d\<lparr>dev_tx := ?x\<lparr>tx_skb_queue := tx_skb_queue ?x @ [s], tx_skb_cnt := tx_skb_cnt ?x + 1\<rparr>\<rparr>"
    have I: "tx_inv ?x" using inv by (simp add: hif_inv_def)
    have "unat (tx_skb_cnt ?x) + unat (1 :: u16) < 2 ^ LENGTH(16)" using data by simp
    then have "unat (tx_skb_cnt ?x + 1) = Suc (unat (tx_skb_cnt ?x))"
      by (subst unat_add_lem [THEN iffD1]) simp_all
    then have "tx_inv (dev_tx ?d)" using I s data(2) by (auto simp: tx_inv_def send_ok_def)
    then have di: "hif_inv t ?d" using inv by (simp add: hif_inv_def mgmt_inv_def)
    have out: "outstanding ?d = outstanding d + 1" by (simp add: outstanding_def)
    obtain r t2 d2 us where l: "hif_usb_tx_locked env t ?d = Some (r, t2, d2, us)"
        "tx_progress ?d (t2, d2, us) 0"
      using hif_usb_tx_locked_progress [OF di] by blast
    have "hif_usb_send_tx env t d s =
        (if unat (tx_buf_cnt ?x) = MAX_TX_URB_NUM \<and> tx_skb_cnt ?x + 1 < 2
         then Some (0, t2, d2, us) else Some (0, t, ?d, []))"
      using data l(1) by (auto simp: hif_usb_send_tx_def Let_def htc_frame_types)
    then show ?thesis using l(2) di out by (auto simp: tx_progress_def)
  qed
qed

lemma nth_cmd_in:
  assumes "i < length cs"
  shows "nth_cmd i cs = Some (cs ! i, take i cs @ drop (Suc i) cs)"
    and "set (take i cs @ drop (Suc i) cs) \<subseteq> set cs"
    and "length (take i cs @ drop (Suc i) cs) = length cs - 1"
  using assms by (auto simp: nth_cmd_def dest: in_set_takeD in_set_dropD)

lemma hif_usb_mgmt_cb_progress:
  assumes inv: "hif_inv t d" and i: "i < length (mgmt_submitted d)"
  shows "\<exists>t' d' ups. hif_usb_mgmt_cb st i t d = Some (t', d', ups) \<and> tx_progress d (t', d', ups) 0 \<and>
     length (mgmt_submitted d') = length (mgmt_submitted d) - 1 \<and> dev_tx d' = dev_tx d"
proof -
  let ?s = "mgmt_submitted d ! i" and ?r = "take i (mgmt_submitted d) @ drop (Suc i) (mgmt_submitted d)"
  note c = nth_cmd_in [OF i]
  have "htc_frame_ok (skb_pull 4 ?s)" "htc_wf t" using inv i by (auto simp: hif_inv_def mgmt_inv_def)
  then obtain t' u where u: "ath9k_htc_txcompletion_cb t (Some (skb_pull 4 ?s)) (st = 0) = Some (t', [u])"
      "htc_wf t'"
    using txcompletion_one by blast
  have m: "mgmt_inv (d\<lparr>mgmt_submitted := ?r\<rparr>)" using inv c(2) by (auto simp: hif_inv_def mgmt_inv_def)
  show ?thesis
    using c(1,3) u m inv i
    by (auto simp: hif_usb_mgmt_cb_def Let_def tx_progress_def hif_inv_def outstanding_def)
qed

lemma hif_usb_regout_cb_progress:
  assumes inv: "hif_inv t d" and i: "i < length (regout_submitted d)"
    and s: "htc_frame_ok (regout_submitted d ! i)"
  shows "\<exists>t' d' ups. hif_usb_regout_cb st i t d = Some (t', d', ups) \<and> hif_inv t' d' \<and>
     outstanding d' = outstanding d \<and> length ups = 1"
proof -
  obtain t' u where u: "ath9k_htc_txcompletion_cb t (Some (regout_submitted d ! i)) True = Some (t', [u])"
      "htc_wf t'"
    using txcompletion_one [OF _ s, of t True] inv by (auto simp: hif_inv_def)
  show ?thesis
    using nth_cmd_in(1) [OF i] u inv
    by (auto simp: hif_usb_regout_cb_def Let_def hif_inv_def mgmt_inv_def outstanding_def)
qed

lemma sta_drain_walk_ok:
  "htc_wf t \<Longrightarrow> \<forall>s \<in> set q. htc_frame_ok s \<Longrightarrow> unat c = length q + m \<Longrightarrow>
     \<exists>t' c' ups. sta_drain_walk idx t q c = Some (t', filter (\<lambda>s. \<not> check_index s idx) q, c', ups) \<and>
       htc_wf t' \<and> unat c' = length (filter (\<lambda>s. \<not> check_index s idx) q) + m \<and>
       length ups = length (filter (\<lambda>s. check_index s idx) q)"
proof (induction q arbitrary: t c m)
  case Nil
  then show ?case by simp
next
  case (Cons s q)
  show ?case
  proof (cases "check_index s idx")
    case True
    obtain t1 u where 1: "ath9k_htc_txcompletion_cb t (Some s) False = Some (t1, [u])" "htc_wf t1"
      using txcompletion_one [of t s False] Cons.prems by auto
    have "unat (c - 1) = length q + m"
      using tx_inv_cnt_word [OF Cons.prems(3), of 1] by simp
    then show ?thesis using Cons.IH [of t1 "c - 1" m] Cons.prems(2) 1 True by auto
  next
    case False
    then show ?thesis using Cons.IH [of t c "Suc m"] Cons.prems by auto
  qed
qed

lemma hif_usb_sta_drain_progress:
  assumes inv: "hif_inv t d"
  shows "\<exists>t' d' ups. hif_usb_sta_drain t d idx = Some (t', d', ups) \<and> tx_progress d (t', d', ups) 0 \<and>
     tx_skb_queue (dev_tx d') = filter (\<lambda>s. \<not> check_index s idx) (tx_skb_queue (dev_tx d))"
proof -
  let ?q = "tx_skb_queue (dev_tx d)"
  have I: "tx_inv (dev_tx d)" "htc_wf t" using inv by (simp_all add: hif_inv_def)
  have ok: "\<forall>s \<in> set ?q. htc_frame_ok s" "unat (tx_skb_cnt (dev_tx d)) = length ?q + 0"
    using I(1) by (auto simp: tx_inv_def tx_frame_ok_def)
  obtain t' c' ups where w: "sta_drain_walk idx t ?q (tx_skb_cnt (dev_tx d))
        = Some (t', filter (\<lambda>s. \<not> check_index s idx) ?q, c', ups)" "htc_wf t'"
      "unat c' = length (filter (\<lambda>s. \<not> check_index s idx) ?q)"
      "length ups = length (filter (\<lambda>s. check_index s idx) ?q)"
    using sta_drain_walk_ok [OF I(2) ok, of idx] by auto
  have le: "length (filter (\<lambda>s. \<not> check_index s idx) ?q) \<le> length ?q" by simp
  have "tx_inv ((dev_tx d)\<lparr>tx_skb_queue := filter (\<lambda>s. \<not> check_index s idx) ?q, tx_skb_cnt := c'\<rparr>)"
    using I(1) w(3) order_trans [OF le, of 257] by (simp add: tx_inv_def)
  moreover have "length (filter (\<lambda>s. \<not> check_index s idx) ?q) + length ups = length ?q"
    using w(4) sum_length_filter_compl [of "\<lambda>s. check_index s idx" ?q] by simp
  ultimately show ?thesis
    using w(1,2) inv
    by (auto simp: hif_usb_sta_drain_def Let_def tx_progress_def hif_inv_def mgmt_inv_def outstanding_def)
qed

lemma has_flag_or_self: "m \<noteq> 0 \<Longrightarrow> has_flag (x OR m) (m :: u8)"
  by (simp add: has_flag_def bit.conj_disj_distrib2 and.commute)

lemma tb_ids_purged:
  "map tb_id (map (\<lambda>c. if tb_id c = k then c\<lparr>tb_skb_queue := []\<rparr> else c) xs) = map tb_id xs"
  by (induction xs) auto

lemma hif_usb_tx_cb_stopped:
  assumes "hif_usb_tx_cb env st k t d = Some (t1, d1, u)"
    and "has_flag (tx_flags (dev_tx d)) HIF_USB_TX_STOP"
  shows "tx_flags (dev_tx d1) = tx_flags (dev_tx d)"
    and "tx_skb_queue (dev_tx d1) = tx_skb_queue (dev_tx d)"
    and "set (map tb_id (tx_pending (dev_tx d))) - {k} \<subseteq> set (map tb_id (tx_pending (dev_tx d1)))"
    and "\<not> has_flag (tx_flags (dev_tx d)) HIF_USB_TX_FLUSH \<Longrightarrow>
        tx_pending (dev_tx d1) = filter (\<lambda>c. tb_id c \<noteq> k) (tx_pending (dev_tx d))"
proof -
  let ?x = "dev_tx d"
  let ?m = "map (\<lambda>c. if tb_id c = k then c\<lparr>tb_skb_queue := []\<rparr> else c) (tx_pending ?x)"
  consider "dev_tx d1 = ?x\<lparr>tx_pending := ?m\<rparr>" "has_flag (tx_flags ?x) HIF_USB_TX_FLUSH"
    | f n where "dev_tx d1 = ?x\<lparr>tx_pending := filter (\<lambda>c. tb_id c \<noteq> k) (tx_pending ?x),
                    tx_buf_free := f, tx_buf_cnt := n\<rparr>"
    using assms
    by (auto simp: hif_usb_tx_cb_def Let_def split: list.splits if_splits Option.bind_splits)
  note cases = this
  show "tx_flags (dev_tx d1) = tx_flags (dev_tx d)"
    and "tx_skb_queue (dev_tx d1) = tx_skb_queue (dev_tx d)"
    by (rule cases; simp)+
  show "set (map tb_id (tx_pending (dev_tx d))) - {k} \<subseteq> set (map tb_id (tx_pending (dev_tx d1)))"
  proof (rule cases)
    assume "dev_tx d1 = ?x\<lparr>tx_pending := ?m\<rparr>"
    then have "tx_pending (dev_tx d1) = ?m" by simp
    then have "set (map tb_id (tx_pending (dev_tx d1))) = set (map tb_id (tx_pending ?x))"
      by (simp only: tb_ids_purged)
    then show ?thesis by auto
  qed auto
  show "tx_pending (dev_tx d1) = filter (\<lambda>c. tb_id c \<noteq> k) (tx_pending (dev_tx d))"
    if "\<not> has_flag (tx_flags (dev_tx d)) HIF_USB_TX_FLUSH"
    by (rule cases) (use that in simp_all)
qed

lemma kill_tx_urbs_progress:
  assumes "hif_inv t d" and "distinct ks" and "set ks \<subseteq> set (map tb_id (tx_pending (dev_tx d)))"
    and "has_flag (tx_flags (dev_tx d)) HIF_USB_TX_STOP" and "tx_skb_queue (dev_tx d) = []"
  shows "\<exists>t' d' ups. kill_tx_urbs env ks t d = Some (t', d', ups) \<and> tx_progress d (t', d', ups) 0 \<and>
     mgmt_submitted d' = mgmt_submitted d \<and> tx_skb_queue (dev_tx d') = [] \<and>
     (\<not> has_flag (tx_flags (dev_tx d)) HIF_USB_TX_FLUSH \<longrightarrow>
        tx_pending (dev_tx d') = filter (\<lambda>b. tb_id b \<notin> set ks) (tx_pending (dev_tx d)))"
  using assms
proof (induction ks arbitrary: t d)
  case Nil
  then show ?case by (simp add: tx_progress_def)
next
  case (Cons k ks)
  obtain t1 d1 u where one: "hif_usb_tx_cb env (- ENOENT) k t d = Some (t1, d1, u)"
      "tx_progress d (t1, d1, u) 0" "mgmt_submitted d1 = mgmt_submitted d"
    using hif_usb_tx_cb_progress [OF Cons.prems(1), of k env "- ENOENT"] Cons.prems(3) by auto
  note st = hif_usb_tx_cb_stopped [OF one(1) Cons.prems(4)]
  have flags: "tx_flags (dev_tx d1) = tx_flags (dev_tx d)" by (rule st(1))
  have q1: "tx_skb_queue (dev_tx d1) = []" using st(2) Cons.prems(5) by simp
  have sub: "set ks \<subseteq> set (map tb_id (tx_pending (dev_tx d1)))"
    using Cons.prems(2,3) st(3) by auto
  have inv1: "hif_inv t1 d1" using one(2) by (simp add: tx_progress_def)
  obtain t2 d2 us where more: "kill_tx_urbs env ks t1 d1 = Some (t2, d2, us)"
      "tx_progress d1 (t2, d2, us) 0" "mgmt_submitted d2 = mgmt_submitted d1"
      "tx_skb_queue (dev_tx d2) = []"
      "\<not> has_flag (tx_flags (dev_tx d1)) HIF_USB_TX_FLUSH \<longrightarrow>
        tx_pending (dev_tx d2) = filter (\<lambda>b. tb_id b \<notin> set ks) (tx_pending (dev_tx d1))"
    using Cons.IH [OF inv1 _ sub _ q1] Cons.prems(2,4) flags by auto
  show ?case
    using one more flags st(4)
    by (auto simp: tx_progress_def intro: filter_cong)
qed

lemma kill_mgmt_urbs_progress:
  assumes "hif_inv t d" and "length (mgmt_submitted d) = n"
  shows "\<exists>t' d' ups. kill_mgmt_urbs n t d = Some (t', d', ups) \<and> tx_progress d (t', d', ups) 0 \<and>
     mgmt_submitted d' = [] \<and> dev_tx d' = dev_tx d"
  using assms
proof (induction n arbitrary: t d)
  case 0
  then show ?case by (simp add: tx_progress_def)
next
  case (Suc n)
  obtain t1 d1 u where one: "hif_usb_mgmt_cb (- ENOENT) n t d = Some (t1, d1, u)"
      "tx_progress d (t1, d1, u) 0" "length (mgmt_submitted d1) = n" "dev_tx d1 = dev_tx d"
    using hif_usb_mgmt_cb_progress [OF Suc.prems(1), of n "- ENOENT"] Suc.prems(2) by auto
  have "hif_inv t1 d1" using one(2) by (simp add: tx_progress_def)
  then obtain t2 d2 us where "kill_mgmt_urbs n t1 d1 = Some (t2, d2, us)"
      "tx_progress d1 (t2, d2, us) 0" "mgmt_submitted d2 = []" "dev_tx d2 = dev_tx d1"
    using Suc.IH [OF _ one(3)] by blast
  then show ?case using one by (auto simp: tx_progress_def)
qed

lemma hif_usb_stop_progress:
  assumes inv: "hif_inv t d"
  shows "\<exists>t' d' ups. hif_usb_stop env t d = Some (t', d', ups) \<and> hif_inv t' d' \<and>
     outstanding d' + length ups = outstanding d \<and>
     has_flag (tx_flags (dev_tx d')) HIF_USB_TX_STOP \<and> tx_skb_queue (dev_tx d') = [] \<and>
     mgmt_submitted d' = [] \<and>
     (\<not> has_flag (tx_flags (dev_tx d)) HIF_USB_TX_FLUSH \<longrightarrow> tx_pending (dev_tx d') = [])"
proof -
  let ?x = "dev_tx d"
  have I: "tx_inv ?x" "htc_wf t" using inv by (simp_all add: hif_inv_def)
  have ok: "\<forall>s \<in> set (tx_skb_queue ?x). htc_frame_ok s" using I(1) by (auto simp: tx_inv_def tx_frame_ok_def)
  obtain t1 u1 where c: "ath9k_skb_queue_complete t (tx_skb_queue ?x) False = Some (t1, u1)" "htc_wf t1"
      "length u1 = length (tx_skb_queue ?x)"
    using queue_complete_ok [OF I(2) ok] by blast
  let ?d = "d\<lparr>dev_tx := ?x\<lparr>tx_skb_queue := [], tx_skb_cnt := 0, tx_flags := tx_flags ?x OR HIF_USB_TX_STOP\<rparr>\<rparr>"
  have d1: "hif_inv t1 ?d" using inv c(2) by (simp add: hif_inv_def tx_inv_def mgmt_inv_def)
  have stop: "has_flag (tx_flags (dev_tx ?d)) HIF_USB_TX_STOP"
    by (simp add: has_flag_or_self HIF_USB_TX_STOP_def)
  have flush: "has_flag (tx_flags (dev_tx ?d)) HIF_USB_TX_FLUSH = has_flag (tx_flags ?x) HIF_USB_TX_FLUSH"
    by (simp add: has_flag_def HIF_USB_TX_STOP_def HIF_USB_TX_FLUSH_def bit.conj_disj_distrib2)
  have dist: "distinct (map tb_id (tx_pending (dev_tx ?d)))" using I(1) by (simp add: tx_inv_def)
  obtain t2 d2 u2 where k: "kill_tx_urbs env (map tb_id (tx_pending (dev_tx ?d))) t1 ?d = Some (t2, d2, u2)"
      "tx_progress ?d (t2, d2, u2) 0" "mgmt_submitted d2 = mgmt_submitted ?d"
      "tx_skb_queue (dev_tx d2) = []"
      "\<not> has_flag (tx_flags (dev_tx ?d)) HIF_USB_TX_FLUSH \<longrightarrow> tx_pending (dev_tx d2)
         = filter (\<lambda>b. tb_id b \<notin> set (map tb_id (tx_pending (dev_tx ?d)))) (tx_pending (dev_tx ?d))"
    using kill_tx_urbs_progress [OF d1 dist subset_refl stop, of env] by auto
  have d2: "hif_inv t2 d2" using k(2) by (simp add: tx_progress_def)
  obtain t3 d3 u3 where m: "kill_mgmt_urbs (length (mgmt_submitted d2)) t2 d2 = Some (t3, d3, u3)"
      "tx_progress d2 (t3, d3, u3) 0" "mgmt_submitted d3 = []" "dev_tx d3 = dev_tx d2"
    using kill_mgmt_urbs_progress [OF d2 refl] by blast
  have none: "filter (\<lambda>b. tb_id b \<notin> set (map tb_id xs)) xs = []" for xs
    by (auto simp: filter_empty_conv)
  have run: "hif_usb_stop env t d = Some (t3, d3, u1 @ u2 @ u3)"
    using c(1) k(1) m(1) by (simp add: hif_usb_stop_def Let_def)
  have out: "outstanding ?d + length u1 = outstanding d" using c(3) by (simp add: outstanding_def)
  show ?thesis
    using run k(2,4,5) m(2-4) out flush stop none by (auto simp: tx_progress_def)
qed

lemma hif_usb_start_inv:
  "hif_inv t d \<Longrightarrow> hif_inv t (hif_usb_start d) \<and> outstanding (hif_usb_start d) = outstanding d"
  by (simp add: hif_inv_def hif_usb_start_def tx_inv_def mgmt_inv_def outstanding_def)

section \<open>The transport as a state machine\<close>

inductive hif_step :: "(nat \<Rightarrow> usb_answer) \<Rightarrow> htc_target \<times> hif_device_usb \<Rightarrow> htc_target \<times> hif_device_usb \<Rightarrow> bool"
  for env where
  Send: "send_ok s \<Longrightarrow> hif_usb_send_tx env t d s = Some (ret, t', d', ups) \<Longrightarrow> hif_step env (t, d) (t', d')"
| Tx_done: "k \<in> set (map tb_id (tx_pending (dev_tx d))) \<Longrightarrow>
    hif_usb_tx_cb env st k t d = Some (t', d', ups) \<Longrightarrow> hif_step env (t, d) (t', d')"
| Mgmt_done: "i < length (mgmt_submitted d) \<Longrightarrow>
    hif_usb_mgmt_cb st i t d = Some (t', d', ups) \<Longrightarrow> hif_step env (t, d) (t', d')"
| Drain: "hif_usb_sta_drain t d idx = Some (t', d', ups) \<Longrightarrow> hif_step env (t, d) (t', d')"
| Stop: "hif_usb_stop env t d = Some (t', d', ups) \<Longrightarrow> hif_step env (t, d) (t', d')"
| Start: "hif_step env (t, d) (t, hif_usb_start d)"

inductive_cases hif_stepE: "hif_step env p q"

lemma hif_step_inv:
  assumes "hif_step env (t, d) (t', d')" and "hif_inv t d"
  shows "hif_inv t' d'"
  using assms(1)
proof cases
  case (Send s ret ups)
  then show ?thesis using hif_usb_send_tx_progress [OF assms(2), of s env] by (auto simp: tx_progress_def)
next
  case (Tx_done k st ups)
  then show ?thesis using hif_usb_tx_cb_progress [OF assms(2), of k env st] by (auto simp: tx_progress_def)
next
  case (Mgmt_done i st ups)
  then show ?thesis using hif_usb_mgmt_cb_progress [OF assms(2), of i st] by (auto simp: tx_progress_def)
next
  case (Drain idx ups)
  then show ?thesis using hif_usb_sta_drain_progress [OF assms(2), of idx] by (auto simp: tx_progress_def)
next
  case (Stop ups)
  then show ?thesis using hif_usb_stop_progress [OF assms(2), of env] by auto
next
  case Start
  then show ?thesis using hif_usb_start_inv [OF assms(2)] by simp
qed

section \<open>Properties: transmission\<close>

definition ex_frame :: "u8 \<Rightarrow> sk_buff" where
  "ex_frame ty = (fresh_skb (replicate 100 1))\<lparr>skb_data := 8, skb_tail := 100, skb_cb := zero_ctl\<lparr>ctl_type := ty\<rparr>\<rparr>"

lemma ex_frame_ok: "ty \<in> {1, 2, 3, 4} \<Longrightarrow> send_ok (ex_frame ty)"
  by (auto simp: send_ok_def tx_frame_ok_def htc_frame_ok_def ex_frame_def fresh_skb_def wf_skb_def
      skb_len_def skb_mem_def byte_at_def htc_frame_types)

lemma ex_dev_inv: "hif_inv ex_target0 ex_dev"
  by (simp add: hif_inv_def ex_target0_facts tx_inv_def ex_dev_def ex_tx_buf_def mgmt_inv_def comp_def)









text \<open>Draining a station removes exactly the queued aggregate frames of that station, keeps the
  others in order, and releases each removed frame exactly once.\<close>

theorem hif_sta_drain_exact:
  assumes "hif_inv t d"
  shows "\<exists>t' d' ups. hif_usb_sta_drain t d idx = Some (t', d', ups) \<and> hif_inv t' d' \<and>
    tx_skb_queue (dev_tx d') = filter (\<lambda>s. \<not> check_index s idx) (tx_skb_queue (dev_tx d)) \<and>
    tx_pending (dev_tx d') = tx_pending (dev_tx d) \<and>
    length ups = length (filter (\<lambda>s. check_index s idx) (tx_skb_queue (dev_tx d)))"
proof -
  obtain t' d' ups where r: "hif_usb_sta_drain t d idx = Some (t', d', ups)" "tx_progress d (t', d', ups) 0"
     "tx_skb_queue (dev_tx d') = filter (\<lambda>s. \<not> check_index s idx) (tx_skb_queue (dev_tx d))"
    using hif_usb_sta_drain_progress [OF assms, of idx] by blast
  have same: "tx_pending (dev_tx d') = tx_pending (dev_tx d)" "mgmt_submitted d' = mgmt_submitted d"
    using r(1) by (auto simp: hif_usb_sta_drain_def Let_def split: Option.bind_splits)
  have "length ups = length (filter (\<lambda>s. check_index s idx) (tx_skb_queue (dev_tx d)))"
    using r(2,3) same sum_length_filter_compl [of "\<lambda>s. check_index s idx" "tx_skb_queue (dev_tx d)"]
    by (simp add: tx_progress_def outstanding_def)
  then show ?thesis using r same by (auto simp: tx_progress_def)
qed

theorem hif_sta_drain_exact_witness:
  "\<exists>t' d' ups. hif_usb_sta_drain ex_target0 ex_dev 3 = Some (t', d', ups) \<and> hif_inv t' d' \<and>
    tx_skb_queue (dev_tx d') = []"
  using hif_sta_drain_exact [OF ex_dev_inv, of 3] by (auto simp: ex_dev_def)

end
