(* ===== verification/Wmi.thy ===== *)
theory Wmi
  imports Hif_Usb_Tx
begin

text \<open>
  WMI, the command channel to the target (\<open>ath9k/wmi.c\<close>, \<open>wmi.h\<close>): sending a command on the
  control endpoint, waiting for its response, the dispatch of responses and events that arrive
  on that endpoint, and the event tasklet.

  The response buffer of a command is memory of the caller, usually a local variable.
  \<open>wmi_bufs\<close> holds the buffers that exist, by address; \<open>cmd_rsp_buf\<close> is an address and outlives
  the buffer: a store to an address that is not in the map is a fault. While a command waits,
  the events of the interrupt side pass through HTC (\<open>htc_event_step\<close>), and the callbacks HTC
  makes on the control endpoint are the functions of this file.
\<close>

section \<open>Data\<close>

abbreviation (input) WMI_ECHO_CMDID :: u16 where "WMI_ECHO_CMDID \<equiv> 1"
abbreviation (input) WMI_ACCESS_MEMORY_CMDID :: u16 where "WMI_ACCESS_MEMORY_CMDID \<equiv> 2"
abbreviation (input) WMI_GET_FW_VERSION :: u16 where "WMI_GET_FW_VERSION \<equiv> 3"
abbreviation (input) WMI_DISABLE_INTR_CMDID :: u16 where "WMI_DISABLE_INTR_CMDID \<equiv> 4"
abbreviation (input) WMI_ENABLE_INTR_CMDID :: u16 where "WMI_ENABLE_INTR_CMDID \<equiv> 5"
abbreviation (input) WMI_ATH_INIT_CMDID :: u16 where "WMI_ATH_INIT_CMDID \<equiv> 6"
abbreviation (input) WMI_ABORT_TXQ_CMDID :: u16 where "WMI_ABORT_TXQ_CMDID \<equiv> 7"
abbreviation (input) WMI_STOP_TX_DMA_CMDID :: u16 where "WMI_STOP_TX_DMA_CMDID \<equiv> 8"
abbreviation (input) WMI_ABORT_TX_DMA_CMDID :: u16 where "WMI_ABORT_TX_DMA_CMDID \<equiv> 9"
abbreviation (input) WMI_DRAIN_TXQ_CMDID :: u16 where "WMI_DRAIN_TXQ_CMDID \<equiv> 10"
abbreviation (input) WMI_DRAIN_TXQ_ALL_CMDID :: u16 where "WMI_DRAIN_TXQ_ALL_CMDID \<equiv> 11"
abbreviation (input) WMI_START_RECV_CMDID :: u16 where "WMI_START_RECV_CMDID \<equiv> 12"
abbreviation (input) WMI_STOP_RECV_CMDID :: u16 where "WMI_STOP_RECV_CMDID \<equiv> 13"
abbreviation (input) WMI_FLUSH_RECV_CMDID :: u16 where "WMI_FLUSH_RECV_CMDID \<equiv> 14"
abbreviation (input) WMI_SET_MODE_CMDID :: u16 where "WMI_SET_MODE_CMDID \<equiv> 15"
abbreviation (input) WMI_NODE_CREATE_CMDID :: u16 where "WMI_NODE_CREATE_CMDID \<equiv> 16"
abbreviation (input) WMI_NODE_REMOVE_CMDID :: u16 where "WMI_NODE_REMOVE_CMDID \<equiv> 17"
abbreviation (input) WMI_VAP_REMOVE_CMDID :: u16 where "WMI_VAP_REMOVE_CMDID \<equiv> 18"
abbreviation (input) WMI_VAP_CREATE_CMDID :: u16 where "WMI_VAP_CREATE_CMDID \<equiv> 19"
abbreviation (input) WMI_REG_READ_CMDID :: u16 where "WMI_REG_READ_CMDID \<equiv> 20"
abbreviation (input) WMI_REG_WRITE_CMDID :: u16 where "WMI_REG_WRITE_CMDID \<equiv> 21"
abbreviation (input) WMI_RC_STATE_CHANGE_CMDID :: u16 where "WMI_RC_STATE_CHANGE_CMDID \<equiv> 22"
abbreviation (input) WMI_RC_RATE_UPDATE_CMDID :: u16 where "WMI_RC_RATE_UPDATE_CMDID \<equiv> 23"
abbreviation (input) WMI_TARGET_IC_UPDATE_CMDID :: u16 where "WMI_TARGET_IC_UPDATE_CMDID \<equiv> 24"
abbreviation (input) WMI_TX_AGGR_ENABLE_CMDID :: u16 where "WMI_TX_AGGR_ENABLE_CMDID \<equiv> 25"
abbreviation (input) WMI_TGT_DETACH_CMDID :: u16 where "WMI_TGT_DETACH_CMDID \<equiv> 26"
abbreviation (input) WMI_NODE_UPDATE_CMDID :: u16 where "WMI_NODE_UPDATE_CMDID \<equiv> 27"
abbreviation (input) WMI_INT_STATS_CMDID :: u16 where "WMI_INT_STATS_CMDID \<equiv> 28"
abbreviation (input) WMI_TX_STATS_CMDID :: u16 where "WMI_TX_STATS_CMDID \<equiv> 29"
abbreviation (input) WMI_RX_STATS_CMDID :: u16 where "WMI_RX_STATS_CMDID \<equiv> 30"
abbreviation (input) WMI_BITRATE_MASK_CMDID :: u16 where "WMI_BITRATE_MASK_CMDID \<equiv> 31"
abbreviation (input) WMI_TGT_RDY_EVENTID :: u16 where "WMI_TGT_RDY_EVENTID \<equiv> 0x1001"
abbreviation (input) WMI_SWBA_EVENTID :: u16 where "WMI_SWBA_EVENTID \<equiv> 0x1002"
abbreviation (input) WMI_FATAL_EVENTID :: u16 where "WMI_FATAL_EVENTID \<equiv> 0x1003"
abbreviation (input) WMI_TXTO_EVENTID :: u16 where "WMI_TXTO_EVENTID \<equiv> 0x1004"
abbreviation (input) WMI_BMISS_EVENTID :: u16 where "WMI_BMISS_EVENTID \<equiv> 0x1005"
abbreviation (input) WMI_DELBA_EVENTID :: u16 where "WMI_DELBA_EVENTID \<equiv> 0x1006"
abbreviation (input) WMI_TXSTATUS_EVENTID :: u16 where "WMI_TXSTATUS_EVENTID \<equiv> 0x1007"

record wmi =
  ctrl_epid :: nat
  wmi_cmd_wait :: nat
  last_cmd_id :: u16
  wmi_event_queue :: "sk_buff list"
  tasklet_scheduled :: bool
  tx_seq_id :: u16
  cmd_rsp_buf :: "nat option"
  cmd_rsp_len :: nat
  wmi_stopped :: bool
  mwrite_cnt :: int
  multi_write :: "(u32 \<times> u32) list"
  multi_write_idx :: nat
  wmi_bufs :: "nat \<rightharpoonup> bytes"

datatype wmi_action =
    Act_swba bytes
  | Act_fatal_work
  | Act_txstatus bytes
  | Act_kfree_skb sk_buff

section \<open>Operations\<close>

definition wmi_cmd_to_name :: "u16 \<Rightarrow> string" where
  "wmi_cmd_to_name wmi_cmd =
     (if wmi_cmd = WMI_ECHO_CMDID then ''WMI_ECHO_CMDID''
      else if wmi_cmd = WMI_ACCESS_MEMORY_CMDID then ''WMI_ACCESS_MEMORY_CMDID''
      else if wmi_cmd = WMI_GET_FW_VERSION then ''WMI_GET_FW_VERSION''
      else if wmi_cmd = WMI_DISABLE_INTR_CMDID then ''WMI_DISABLE_INTR_CMDID''
      else if wmi_cmd = WMI_ENABLE_INTR_CMDID then ''WMI_ENABLE_INTR_CMDID''
      else if wmi_cmd = WMI_ATH_INIT_CMDID then ''WMI_ATH_INIT_CMDID''
      else if wmi_cmd = WMI_ABORT_TXQ_CMDID then ''WMI_ABORT_TXQ_CMDID''
      else if wmi_cmd = WMI_STOP_TX_DMA_CMDID then ''WMI_STOP_TX_DMA_CMDID''
      else if wmi_cmd = WMI_ABORT_TX_DMA_CMDID then ''WMI_ABORT_TX_DMA_CMDID''
      else if wmi_cmd = WMI_DRAIN_TXQ_CMDID then ''WMI_DRAIN_TXQ_CMDID''
      else if wmi_cmd = WMI_DRAIN_TXQ_ALL_CMDID then ''WMI_DRAIN_TXQ_ALL_CMDID''
      else if wmi_cmd = WMI_START_RECV_CMDID then ''WMI_START_RECV_CMDID''
      else if wmi_cmd = WMI_STOP_RECV_CMDID then ''WMI_STOP_RECV_CMDID''
      else if wmi_cmd = WMI_FLUSH_RECV_CMDID then ''WMI_FLUSH_RECV_CMDID''
      else if wmi_cmd = WMI_SET_MODE_CMDID then ''WMI_SET_MODE_CMDID''
      else if wmi_cmd = WMI_NODE_CREATE_CMDID then ''WMI_NODE_CREATE_CMDID''
      else if wmi_cmd = WMI_NODE_REMOVE_CMDID then ''WMI_NODE_REMOVE_CMDID''
      else if wmi_cmd = WMI_VAP_REMOVE_CMDID then ''WMI_VAP_REMOVE_CMDID''
      else if wmi_cmd = WMI_VAP_CREATE_CMDID then ''WMI_VAP_CREATE_CMDID''
      else if wmi_cmd = WMI_REG_READ_CMDID then ''WMI_REG_READ_CMDID''
      else if wmi_cmd = WMI_REG_WRITE_CMDID then ''WMI_REG_WRITE_CMDID''
      else if wmi_cmd = WMI_RC_STATE_CHANGE_CMDID then ''WMI_RC_STATE_CHANGE_CMDID''
      else if wmi_cmd = WMI_RC_RATE_UPDATE_CMDID then ''WMI_RC_RATE_UPDATE_CMDID''
      else if wmi_cmd = WMI_TARGET_IC_UPDATE_CMDID then ''WMI_TARGET_IC_UPDATE_CMDID''
      else if wmi_cmd = WMI_TX_AGGR_ENABLE_CMDID then ''WMI_TX_AGGR_ENABLE_CMDID''
      else if wmi_cmd = WMI_TGT_DETACH_CMDID then ''WMI_TGT_DETACH_CMDID''
      else if wmi_cmd = WMI_NODE_UPDATE_CMDID then ''WMI_NODE_UPDATE_CMDID''
      else if wmi_cmd = WMI_INT_STATS_CMDID then ''WMI_INT_STATS_CMDID''
      else if wmi_cmd = WMI_TX_STATS_CMDID then ''WMI_TX_STATS_CMDID''
      else if wmi_cmd = WMI_RX_STATS_CMDID then ''WMI_RX_STATS_CMDID''
      else if wmi_cmd = WMI_BITRATE_MASK_CMDID then ''WMI_BITRATE_MASK_CMDID''
      else ''Bogus'')"

definition ath9k_init_wmi :: "bool \<Rightarrow> (nat \<rightharpoonup> bytes) \<Rightarrow> wmi option" where
  \<comment> \<open>arguments: whether \<open>kzalloc\<close> succeeds, and the memory of the callers\<close>
  "ath9k_init_wmi mem bufs =
     (if mem then Some \<lparr>ctrl_epid = 0, wmi_cmd_wait = 0, last_cmd_id = 0, wmi_event_queue = [],
        tasklet_scheduled = False, tx_seq_id = 0, cmd_rsp_buf = None, cmd_rsp_len = 0,
        wmi_stopped = False,
        mwrite_cnt = 0, multi_write = replicate 62 (0, 0), multi_write_idx = 0, wmi_bufs = bufs\<rparr>
      else None)"

definition ath9k_deinit_wmi :: "wmi \<Rightarrow> wmi" where
  "ath9k_deinit_wmi w = w\<lparr>wmi_stopped := True\<rparr>"

definition ath9k_wmi_event_drain :: "wmi \<Rightarrow> wmi \<times> wmi_action list" where
  "ath9k_wmi_event_drain w =
     (w\<lparr>tasklet_scheduled := False, wmi_event_queue := []\<rparr>, map Act_kfree_skb (wmi_event_queue w))"

definition wmi_event_actions :: "bool \<Rightarrow> sk_buff \<Rightarrow> wmi_action list option" where
  \<comment> \<open>one round of the tasklet's loop; the flag is \<open>ATH9K_HTC_OP_TX_DRAIN\<close>. \<open>skb_pull\<close> returns a null
      pointer when the buffer is shorter than the header\<close>
  "wmi_event_actions drain skb = do {
     cmd_id \<leftarrow> get_be16 (skb_mem skb) 0;
     let ev = (if 4 \<le> skb_len skb then Some (skb_mem (skb_pull 4 skb)) else None);
     acts \<leftarrow>
       (if cmd_id = WMI_SWBA_EVENTID then map_option (\<lambda>e. [Act_swba e]) ev
        else if cmd_id = WMI_FATAL_EVENTID then Some [Act_fatal_work]
        else if cmd_id = WMI_TXSTATUS_EVENTID then
          (if drain then Some [] else map_option (\<lambda>e. [Act_txstatus e]) ev)
        else Some []);
     Some (acts @ [Act_kfree_skb (skb_pull 4 skb)]) }"

fun wmi_tasklet_loop :: "bool \<Rightarrow> sk_buff list \<Rightarrow> wmi_action list option" where
  "wmi_tasklet_loop drain [] = Some []"
| "wmi_tasklet_loop drain (skb # q) = do {
     a \<leftarrow> wmi_event_actions drain skb;
     as \<leftarrow> wmi_tasklet_loop drain q;
     Some (a @ as) }"

definition ath9k_wmi_event_tasklet :: "bool \<Rightarrow> wmi \<Rightarrow> (wmi \<times> wmi_action list) option" where
  "ath9k_wmi_event_tasklet drain w = do {
     as \<leftarrow> wmi_tasklet_loop drain (wmi_event_queue w);
     Some (w\<lparr>wmi_event_queue := [], tasklet_scheduled := False\<rparr>, as) }"

definition wmi_store :: "nat \<Rightarrow> bytes \<Rightarrow> wmi \<Rightarrow> wmi option" where
  \<comment> \<open>\<open>memcpy\<close> to a caller's buffer\<close>
  "wmi_store a src w = do {
     old \<leftarrow> wmi_bufs w a;
     new \<leftarrow> write_bytes old 0 src;
     Some (w\<lparr>wmi_bufs := (wmi_bufs w)(a \<mapsto> new)\<rparr>) }"

definition ath9k_wmi_rsp_callback :: "wmi \<Rightarrow> sk_buff \<Rightarrow> (wmi \<times> sk_buff) option" where
  "ath9k_wmi_rsp_callback w skb = do {
     let skb = skb_pull 4 skb;
     w \<leftarrow> (case cmd_rsp_buf w of
             Some a \<Rightarrow>
               (if cmd_rsp_len w \<noteq> 0 then do {
                  src \<leftarrow> read_bytes (skb_mem skb) 0 (cmd_rsp_len w);
                  wmi_store a src w }
                else Some w)
           | None \<Rightarrow> Some w);
     Some (w\<lparr>wmi_cmd_wait := Suc (wmi_cmd_wait w)\<rparr>, skb) }"

definition ath9k_wmi_ctrl_rx :: "wmi \<Rightarrow> sk_buff \<Rightarrow> (wmi \<times> htc_upcall list) option" where
  "ath9k_wmi_ctrl_rx w skb =
     (if wmi_stopped w then Some (w, [Kfree_skb skb])
      else do {
        cmd_id \<leftarrow> get_be16 (skb_mem skb) 0;
        if has_flag cmd_id 0x1000
        then Some (w\<lparr>wmi_event_queue := wmi_event_queue w @ [skb], tasklet_scheduled := True\<rparr>, [])
        else if cmd_id \<noteq> last_cmd_id w then Some (w, [Kfree_skb skb])
        else do {
          (w, skb) \<leftarrow> ath9k_wmi_rsp_callback w skb;
          Some (w, [Kfree_skb skb]) } })"

definition ath9k_wmi_ctrl_tx :: "sk_buff \<Rightarrow> htc_upcall list" where
  "ath9k_wmi_ctrl_tx skb = [Kfree_skb skb]"

fun wmi_dispatch :: "wmi \<Rightarrow> htc_upcall list \<Rightarrow> (wmi \<times> htc_upcall list) option" where
  \<comment> \<open>the callbacks HTC makes; those to other components are passed on\<close>
  "wmi_dispatch w [] = Some (w, [])"
| "wmi_dispatch w (u # us) = do {
     (w, v) \<leftarrow> (case u of
                 Ep_rx Ath9k_wmi_ctrl_rx s e \<Rightarrow> ath9k_wmi_ctrl_rx w s
               | Ep_tx Ath9k_wmi_ctrl_tx s e ok \<Rightarrow> Some (w, ath9k_wmi_ctrl_tx s)
               | _ \<Rightarrow> Some (w, [u]));
     (w, vs) \<leftarrow> wmi_dispatch w us;
     Some (w, v @ vs) }"

fun wmi_run_events ::
  "wmi \<Rightarrow> htc_target \<Rightarrow> htc_event list \<Rightarrow> (wmi \<times> htc_target \<times> htc_upcall list) option" where
  "wmi_run_events w t [] = Some (w, t, [])"
| "wmi_run_events w t (e # es) = do {
     (t, u) \<leftarrow> htc_event_step t e;
     (w, v) \<leftarrow> wmi_dispatch w u;
     (w, t, vs) \<leftarrow> wmi_run_events w t es;
     Some (w, t, v @ vs) }"

definition wmi_connreq :: htc_service_connreq where
  "wmi_connreq = \<lparr>req_service_id = WMI_CONTROL_SVC, req_con_flags = 0, req_max_send_qdepth = 0,
     req_ep_callbacks = \<lparr>cb_tx = Some Ath9k_wmi_ctrl_tx, cb_rx = Some Ath9k_wmi_ctrl_rx\<rparr>\<rparr>"

definition ath9k_wmi_connect ::
  "'h ath9k_htc_hif \<Rightarrow> (nat \<Rightarrow> sk_buff option) \<Rightarrow> htc_event list \<Rightarrow> wmi \<Rightarrow> htc_target \<Rightarrow> 'h \<Rightarrow>
     (int \<times> nat option \<times> wmi \<times> htc_target \<times> 'h \<times> htc_upcall list) option" where
  "ath9k_wmi_connect hif alloc evs w t h = do {
     (ret, ep, t, h, ups) \<leftarrow> htc_connect_service hif alloc evs wmi_connreq t h;
     let w = (case ep of Some e \<Rightarrow> w\<lparr>ctrl_epid := nat e\<rparr> | None \<Rightarrow> w);
     Some (if ret \<noteq> 0 then (ret, None, w, t, h, ups)
           else (0, Some (ctrl_epid w), w, t, h, ups)) }"

definition ath9k_wmi_cmd_issue ::
  "'h ath9k_htc_hif \<Rightarrow> wmi \<Rightarrow> htc_target \<Rightarrow> 'h \<Rightarrow> sk_buff \<Rightarrow> u16 \<Rightarrow>
     (int \<times> sk_buff \<times> wmi \<times> htc_target \<times> 'h \<times> htc_upcall list) option" where
  "ath9k_wmi_cmd_issue hif w t h skb cmd = do {
     let w = w\<lparr>tx_seq_id := tx_seq_id w + 1\<rparr>;
     skb \<leftarrow> skb_push_bytes (be16_bytes cmd @ be16_bytes (tx_seq_id w)) skb;
     (ret, skb, t, h, ups) \<leftarrow> htc_send_epid hif t h skb (ctrl_epid w);
     Some (ret, skb, w, t, h, ups) }"

definition ath9k_wmi_cmd ::
  "'h ath9k_htc_hif \<Rightarrow> (nat \<Rightarrow> sk_buff option) \<Rightarrow> bool \<Rightarrow> htc_event list \<Rightarrow> u16 \<Rightarrow> bytes option \<Rightarrow> nat \<Rightarrow>
     nat option \<Rightarrow> nat \<Rightarrow> wmi \<Rightarrow> htc_target \<Rightarrow> 'h \<Rightarrow>
     (int \<times> wmi \<times> htc_target \<times> 'h \<times> htc_upcall list) option" where
  \<comment> \<open>arguments after the allocator: \<open>AH_UNPLUGGED\<close>, the events during the wait, and the C
      parameters \<open>cmd_id, cmd_buf, cmd_len, rsp_buf, rsp_len\<close>\<close>
  "ath9k_wmi_cmd hif alloc unplugged evs cmd_id cmd_buf cmd_len rsp_buf rsp_len w t h =
     (if unplugged then Some (0, w, t, h, [])
      else (case alloc (12 + cmd_len) of
        None \<Rightarrow> Some (- ENOMEM, w, t, h, [])
      | Some skb \<Rightarrow> do {
          let skb = skb_reserve 12 skb;
          skb \<leftarrow> (case cmd_buf of
                    Some buf \<Rightarrow> if cmd_len \<noteq> 0 then do {
                        data \<leftarrow> read_bytes buf 0 cmd_len;
                        skb_put_bytes data skb }
                      else Some skb
                  | None \<Rightarrow> Some skb);
          if wmi_stopped w then Some (- EPROTO, w, t, h, [Kfree_skb skb])
          else do {
            let w = w\<lparr>cmd_rsp_buf := rsp_buf, cmd_rsp_len := rsp_len, last_cmd_id := cmd_id\<rparr>;
            (ret, skb, w, t, h, ups) \<leftarrow> ath9k_wmi_cmd_issue hif w t h skb cmd_id;
            if ret \<noteq> 0 then Some (ret, w, t, h, ups @ [Kfree_skb skb])
            else do {
              (w, t, us) \<leftarrow> wmi_run_events w t evs;
              let (time_left, n) = wait_for_completion_timeout (wmi_cmd_wait w);
              let w = w\<lparr>wmi_cmd_wait := n\<rparr>;
              Some (if time_left then 0 else - ETIMEDOUT, w, t, h, ups @ us) } } }))"

definition wmi_call ::
  "'h ath9k_htc_hif \<Rightarrow> (nat \<Rightarrow> sk_buff option) \<Rightarrow> bool \<Rightarrow> htc_event list \<Rightarrow> u16 \<Rightarrow> bytes option \<Rightarrow> nat \<Rightarrow>
     nat \<Rightarrow> bytes \<Rightarrow> wmi \<Rightarrow> htc_target \<Rightarrow> 'h \<Rightarrow>
     (int \<times> bytes \<times> wmi \<times> htc_target \<times> 'h \<times> htc_upcall list) option" where
  \<comment> \<open>a caller with a local response variable: the variable at address \<open>a\<close> (with the bytes \<open>junk\<close>
      before it is set) exists during the call only; its final bytes are the second component\<close>
  "wmi_call hif alloc unplugged evs cmd_id cmd_buf cmd_len a junk w t h = do {
     let w = w\<lparr>wmi_bufs := (wmi_bufs w)(a \<mapsto> junk)\<rparr>;
     (ret, w, t, h, ups) \<leftarrow>
       ath9k_wmi_cmd hif alloc unplugged evs cmd_id cmd_buf cmd_len (Some a) (length junk) w t h;
     rsp \<leftarrow> wmi_bufs w a;
     Some (ret, rsp, w\<lparr>wmi_bufs := (wmi_bufs w)(a := None)\<rparr>, t, h, ups) }"

section \<open>Lemmas\<close>

subsection \<open>Events that do not concern a waiting command\<close>

definition wmi_frame :: "nat \<Rightarrow> u16 \<Rightarrow> bytes \<Rightarrow> u16 \<Rightarrow> u16 \<Rightarrow> bytes \<Rightarrow> bytes" where
  \<comment> \<open>HTC header for endpoint \<open>e\<close>, WMI header, payload\<close>
  "wmi_frame e len ctrl cmd_id seq payload =
     [word_of_nat e, 0] @ be16_bytes len @ ctrl @ be16_bytes cmd_id @ be16_bytes seq @ payload"

definition wmi_quiet :: "nat \<Rightarrow> htc_event \<Rightarrow> bool" where
  \<comment> \<open>a transmit completion, or a WMI event on the control endpoint\<close>
  "wmi_quiet e ev = (case ev of
     Ev_txcompletion s ok \<Rightarrow> (case byte_at (skb_mem s) 0 of Some b \<Rightarrow> unat b < ENDPOINT_MAX | None \<Rightarrow> False)
   | Ev_rx_msg s n p \<Rightarrow> 8 \<le> skb_len s \<and> byte_at (skb_mem s) 0 = Some (word_of_nat e) \<and>
       byte_at (skb_mem s) 1 = Some 0 \<and>
       (case get_be16 (skb_mem s) 8 of Some c \<Rightarrow> has_flag c 0x1000 | None \<Rightarrow> False))"

definition wmi_events_of :: "htc_event list \<Rightarrow> sk_buff list" where
  "wmi_events_of evs = concat (map (\<lambda>ev. case ev of Ev_rx_msg s n p \<Rightarrow> [skb_pull 8 s] | _ \<Rightarrow> []) evs)"

definition wmi_ep_ok :: "nat \<Rightarrow> htc_target \<Rightarrow> bool" where
  \<comment> \<open>the control endpoint is connected and no HTC control transaction is under way\<close>
  "wmi_ep_ok e t \<longleftrightarrow> htc_wf t \<and> htc_flags t = 0 \<and> 0 < e \<and> e < ENDPOINT_MAX \<and>
     cb_rx (ep_callbacks (endpoint t ! e)) = Some Ath9k_wmi_ctrl_rx \<and>
     ul_pipeid (endpoint t ! e) = USB_REG_OUT_PIPE"

lemma skb_mem_pull: "n \<le> skb_len s \<Longrightarrow> skb_mem (skb_pull n s) = drop n (skb_mem s)"
  by (simp add: skb_mem_def skb_pull_def drop_drop add.commute)

lemma unat_epid: "e < ENDPOINT_MAX \<Longrightarrow> unat (word_of_nat e :: u8) = e"
  by (simp add: unat_of_nat take_bit_nat_def)

lemma rx_msg_body_ctrl:
  assumes "wmi_ep_ok e t" and "8 \<le> skb_len s"
    and "byte_at (skb_mem s) 0 = Some (word_of_nat e)" and "byte_at (skb_mem s) 1 = Some 0"
  shows "rx_msg_body t s n p = Some (t, [Ep_rx Ath9k_wmi_ctrl_rx (skb_pull 8 s) e])"
  using assms by (auto simp: rx_msg_body_def rx_msg_data_def wmi_ep_ok_def unat_epid)

lemma quiet_step:
  assumes ok: "wmi_ep_ok e t" and st: "\<not> wmi_stopped w" and q: "wmi_quiet e ev"
  shows "\<exists>u v. htc_event_step t ev = Some (t, u) \<and> wmi_dispatch w u =
    Some (w\<lparr>wmi_event_queue := wmi_event_queue w @ wmi_events_of [ev],
            tasklet_scheduled := tasklet_scheduled w \<or> wmi_events_of [ev] \<noteq> []\<rparr>, v)"
proof (cases ev)
  case (Ev_rx_msg s n p)
  then have s: "8 \<le> skb_len s" "byte_at (skb_mem s) 0 = Some (word_of_nat e)"
      "byte_at (skb_mem s) 1 = Some 0"
    and c: "\<exists>c. get_be16 (skb_mem s) 8 = Some c \<and> has_flag c 0x1000"
    using q by (auto simp: wmi_quiet_def split: option.splits)
  have "get_be16 (skb_mem (skb_pull 8 s)) 0 = get_be16 (skb_mem s) 8"
    using s(1) by (simp add: skb_mem_pull get_be16_drop)
  then show ?thesis
    using Ev_rx_msg rx_msg_body_ctrl [OF ok s, of n p] c st
    by (auto simp: ath9k_wmi_ctrl_rx_def wmi_events_of_def)
next
  case (Ev_txcompletion s okk)
  then obtain b where b: "byte_at (skb_mem s) 0 = Some b" "unat b < ENDPOINT_MAX"
    using q by (auto simp: wmi_quiet_def split: option.splits)
  then have "unat b < length (endpoint t)" using ok by (simp add: wmi_ep_ok_def htc_wf_def)
  then show ?thesis
    using Ev_txcompletion b(1) ok
    by (cases "cb_tx (ep_callbacks (endpoint t ! unat b))")
      (auto simp: ath9k_htc_txcompletion_cb_def wmi_ep_ok_def wmi_events_of_def Let_def
        ath9k_wmi_ctrl_tx_def split: ep_tx_fn.splits)
qed

lemma quiet_run:
  assumes ok: "wmi_ep_ok e t" and st: "\<not> wmi_stopped w" and q: "list_all (wmi_quiet e) evs"
  shows "\<exists>us. wmi_run_events w t evs =
    Some (w\<lparr>wmi_event_queue := wmi_event_queue w @ wmi_events_of evs,
            tasklet_scheduled := tasklet_scheduled w \<or> wmi_events_of evs \<noteq> []\<rparr>, t, us)"
  using st q
proof (induction evs arbitrary: w)
  case Nil
  then show ?case by (simp add: wmi_events_of_def)
next
  case (Cons ev evs)
  let ?w = "w\<lparr>wmi_event_queue := wmi_event_queue w @ wmi_events_of [ev],
              tasklet_scheduled := tasklet_scheduled w \<or> wmi_events_of [ev] \<noteq> []\<rparr>"
  obtain u v where uv: "htc_event_step t ev = Some (t, u)" "wmi_dispatch w u = Some (?w, v)"
    using quiet_step [OF ok Cons.prems(1), of ev] Cons.prems(2) by auto
  obtain us where "wmi_run_events ?w t evs =
    Some (?w\<lparr>wmi_event_queue := wmi_event_queue ?w @ wmi_events_of evs,
             tasklet_scheduled := tasklet_scheduled ?w \<or> wmi_events_of evs \<noteq> []\<rparr>, t, us)"
    using Cons.IH [of ?w] Cons.prems by auto
  moreover have "wmi_events_of (ev # evs) = wmi_events_of [ev] @ wmi_events_of evs"
    by (simp add: wmi_events_of_def)
  ultimately show ?case using uv by (simp add: disj_assoc)
qed

lemma wmi_run_events_append:
  "wmi_run_events w t (es1 @ es2) = do {
     (w, t, us) \<leftarrow> wmi_run_events w t es1;
     (w, t, vs) \<leftarrow> wmi_run_events w t es2;
     Some (w, t, us @ vs) }"
proof (induction es1 arbitrary: w t)
  case Nil
  then show ?case by (simp split: Option.bind_splits)
next
  case (Cons e es1)
  then show ?case by (simp add: case_prod_beta split: Option.bind_splits)
qed

subsection \<open>The response of a command\<close>

lemma wmi_frame_fields:
  assumes "length ctrl = 4"
  shows "byte_at (wmi_frame e len ctrl c q pl @ rest) 0 = Some (word_of_nat e)"
    and "byte_at (wmi_frame e len ctrl c q pl @ rest) 1 = Some 0"
    and "get_be16 (wmi_frame e len ctrl c q pl @ rest) 8 = Some c"
    and "drop 12 (wmi_frame e len ctrl c q pl @ rest) = pl @ rest"
    and "length (wmi_frame e len ctrl c q pl) = 12 + length pl"
proof -
  show "get_be16 (wmi_frame e len ctrl c q pl @ rest) 8 = Some c"
    using get_be16_frame [of "[word_of_nat e, 0] @ be16_bytes len @ ctrl" 8 c] assms
    by (simp add: wmi_frame_def)
qed (use assms in \<open>simp_all add: wmi_frame_def be16_bytes_def\<close>)

lemma response_received:
  assumes ok: "wmi_ep_ok e t"
    and r: "wf_skb r" "skb_bytes r = wmi_frame e len ctrl c q pl" "length ctrl = 4"
  obtains rest where "rx_msg_body t r n p = Some (t, [Ep_rx Ath9k_wmi_ctrl_rx (skb_pull 8 r) e])"
    and "get_be16 (skb_mem (skb_pull 8 r)) 0 = Some c"
    and "skb_mem (skb_pull 4 (skb_pull 8 r)) = pl @ rest"
proof -
  obtain rest where mem: "skb_mem r = wmi_frame e len ctrl c q pl @ rest"
    using skb_mem_prefix [OF r(1,2)] by blast
  note f = wmi_frame_fields [OF r(3)]
  have l12: "12 \<le> skb_len r" using r f(5) by (metis skb_bytes_length le_add1)
  have "rx_msg_body t r n p = Some (t, [Ep_rx Ath9k_wmi_ctrl_rx (skb_pull 8 r) e])"
    by (rule rx_msg_body_ctrl [OF ok]) (use l12 f mem in simp_all)
  moreover have "get_be16 (skb_mem (skb_pull 8 r)) 0 = get_be16 (skb_mem r) 8"
    using l12 by (simp add: skb_mem_pull get_be16_drop)
  moreover have "skb_mem (skb_pull 4 (skb_pull 8 r)) = drop 12 (skb_mem r)"
    using l12 by (simp add: skb_mem_pull skb_len_pull)
  ultimately show thesis using that f(3,4) mem by simp
qed

lemma response_step:
  assumes ok: "wmi_ep_ok e t" and st: "\<not> wmi_stopped w"
    and r: "wf_skb r" "skb_bytes r = wmi_frame e len ctrl c q pl" "length ctrl = 4"
    and c: "\<not> has_flag c 0x1000" "last_cmd_id w = c"
    and buf: "cmd_rsp_buf w = Some a" "wmi_bufs w a = Some junk" "cmd_rsp_len w = length junk"
    and len: "length junk \<le> length pl"
  shows "wmi_run_events w t [Ev_rx_msg r n p] =
    Some (w\<lparr>wmi_bufs := (wmi_bufs w)(a \<mapsto> take (length junk) pl), wmi_cmd_wait := Suc (wmi_cmd_wait w)\<rparr>,
          t, [Kfree_skb (skb_pull 4 (skb_pull 8 r))])"
proof -
  obtain rest where "rx_msg_body t r n p = Some (t, [Ep_rx Ath9k_wmi_ctrl_rx (skb_pull 8 r) e])"
    and "get_be16 (skb_mem (skb_pull 8 r)) 0 = Some c"
    and "skb_mem (skb_pull 4 (skb_pull 8 r)) = pl @ rest"
    by (rule response_received [OF ok r])
  moreover have "w\<lparr>wmi_bufs := (wmi_bufs w)(a \<mapsto> [])\<rparr> = w" if "junk = []"
    using buf(2) that by (simp add: fun_upd_idem)
  ultimately show ?thesis
    using st c buf len
    by (auto simp: ath9k_wmi_ctrl_rx_def ath9k_wmi_rsp_callback_def wmi_store_def read_bytes_def
        write_bytes_def Let_def)
qed

lemma response_step_dead:
  assumes ok: "wmi_ep_ok e t" and st: "\<not> wmi_stopped w"
    and r: "wf_skb r" "skb_bytes r = wmi_frame e len ctrl c q pl" "length ctrl = 4"
    and c: "\<not> has_flag c 0x1000" "last_cmd_id w = c"
    and buf: "cmd_rsp_buf w = Some a" "wmi_bufs w a = None" "0 < cmd_rsp_len w"
  shows "wmi_run_events w t [Ev_rx_msg r n p] = None"
proof -
  obtain rest where "rx_msg_body t r n p = Some (t, [Ep_rx Ath9k_wmi_ctrl_rx (skb_pull 8 r) e])"
    and "get_be16 (skb_mem (skb_pull 8 r)) 0 = Some c"
    by (rule response_received [OF ok r])
  then show ?thesis
    using st c buf
    by (auto simp: ath9k_wmi_ctrl_rx_def ath9k_wmi_rsp_callback_def wmi_store_def Let_def
        split: Option.bind_splits)
qed

lemma wmi_command_sent:
  assumes spec: "alloc_skb_spec alloc" and al: "alloc (12 + length cmd) \<noteq> None"
    and ok: "wmi_ep_ok (ctrl_epid w) t" and st: "\<not> wmi_stopped w" and acc: "regout_answer env d = 0"
  obtains d' ctrl where "length ctrl = 4"
    and "regout_bytes d' = regout_bytes d @
           [wmi_frame (ctrl_epid w) (4 + word_of_nat (length cmd)) ctrl c (tx_seq_id w + 1) cmd]"
    and "\<And>evs a n. ath9k_wmi_cmd (hif_usb env) alloc False evs c (Some cmd) (length cmd) a n w t d = do {
           (w, t, us) \<leftarrow> wmi_run_events (w\<lparr>cmd_rsp_buf := a, cmd_rsp_len := n, last_cmd_id := c,
                                         tx_seq_id := tx_seq_id w + 1\<rparr>) t evs;
           let (time_left, n) = wait_for_completion_timeout (wmi_cmd_wait w);
           Some (if time_left then 0 else - ETIMEDOUT, w\<lparr>wmi_cmd_wait := n\<rparr>, t, d', us) }"
proof -
  obtain skb where skb: "alloc (12 + length cmd) = Some skb" using al by auto
  obtain m where m: "skb_put_bytes cmd (skb_reserve 12 skb) = Some m" "skb_bytes m = cmd"
      "wf_skb m" "skb_data m = 12" "skb_len m = length cmd"
    using skb_build_message [OF spec, of 12 "length cmd" skb cmd] skb by auto
  have put: "(if length cmd \<noteq> 0 then read_bytes cmd 0 (length cmd) \<bind> (\<lambda>data. skb_put_bytes data (skb_reserve 12 skb))
              else Some (skb_reserve 12 skb)) = Some m"
    using m(1) spec skb by (auto simp: read_bytes_def skb_put_bytes_def skb_put_def skb_store_def
        write_bytes_def alloc_skb_spec_def skb_reserve_def skb_len_def split: if_splits)
  let ?hdr = "be16_bytes c @ be16_bytes (tx_seq_id w + 1)"
  have h4: "length ?hdr = 4" by simp
  obtain m2 where m2: "skb_push_bytes ?hdr m = Some m2"
    using skb_push_bytes_enough [of m ?hdr] m(3,4) h4 by auto
  note pushed = skb_push_bytes_SomeD [OF m(3) m2]
  have m2b: "skb_bytes m2 = ?hdr @ cmd" "wf_skb m2" "skb_data m2 = 8"
    using pushed m(2,4) h4 by auto
  have m2l: "skb_len m2 = 4 + length cmd"
    using skb_bytes_length [OF m2b(2)] by (simp add: m2b(1))
  have ep: "htc_wf t" "ctrl_epid w < 22" "ul_pipeid (endpoint t ! ctrl_epid w) = control_ul_pipe (hif_usb env)"
    using ok by (auto simp: wmi_ep_ok_def hif_usb_def)
  obtain st0 f d' ctrl where snd: "htc_issue_send (hif_usb env) t d m2 (word_of_nat (skb_len m2)) 0 (ctrl_epid w)
        = Some (st0, f, t, d', [])" "length ctrl = 4" "st0 = regout_answer env d"
    "regout_bytes d' = (if st0 = 0 then regout_bytes d @ [[word_of_nat (ctrl_epid w), 0]
        @ be16_bytes (word_of_nat (skb_len m2)) @ ctrl @ skb_bytes m2] else regout_bytes d)"
    using hu.issue_send_control [OF TrueI m2b(2) eq_refl [OF m2b(3) [symmetric]] ep,
        of d "word_of_nat (skb_len m2)" 0] by metis
  have eq: "ath9k_wmi_cmd (hif_usb env) alloc False evs c (Some cmd) (length cmd) a n w t d = do {
           (w, t, us) \<leftarrow> wmi_run_events (w\<lparr>cmd_rsp_buf := a, cmd_rsp_len := n, last_cmd_id := c,
                                         tx_seq_id := tx_seq_id w + 1\<rparr>) t evs;
           let (time_left, n) = wait_for_completion_timeout (wmi_cmd_wait w);
           Some (if time_left then 0 else - ETIMEDOUT, w\<lparr>wmi_cmd_wait := n\<rparr>, t, d', us) }" for evs a n
    using skb put st m2 snd(1,3) acc
    by (simp add: ath9k_wmi_cmd_def ath9k_wmi_cmd_issue_def htc_send_epid_def Let_def case_prod_beta)
  show thesis using that [OF snd(2) _ eq] snd(3,4) acc m2b(1) m2l by (simp add: wmi_frame_def)
qed

lemma wmi_call_run:
  assumes spec: "alloc_skb_spec alloc" and al: "alloc (12 + length cmd) \<noteq> None"
    and ok: "wmi_ep_ok (ctrl_epid w) t" and st: "\<not> wmi_stopped w" and acc: "regout_answer env d = 0"
  obtains d' x w1 where "length x = 4"
    and "regout_bytes d' = regout_bytes d @
           [wmi_frame (ctrl_epid w) (4 + word_of_nat (length cmd)) x c (tx_seq_id w + 1) cmd]"
    and "w1 = w\<lparr>wmi_bufs := (wmi_bufs w)(a \<mapsto> junk), cmd_rsp_buf := Some a,
                cmd_rsp_len := length junk, last_cmd_id := c, tx_seq_id := tx_seq_id w + 1\<rparr>"
    and "\<And>evs. wmi_call (hif_usb env) alloc False evs c (Some cmd) (length cmd) a junk w t d = do {
           (w2, t, us) \<leftarrow> wmi_run_events w1 t evs;
           let (time_left, n) = wait_for_completion_timeout (wmi_cmd_wait w2);
           rsp \<leftarrow> wmi_bufs w2 a;
           Some (if time_left then 0 else - ETIMEDOUT, rsp,
                 w2\<lparr>wmi_cmd_wait := n, wmi_bufs := (wmi_bufs w2)(a := None)\<rparr>, t, d', us) }"
proof -
  define w0 where "w0 = w\<lparr>wmi_bufs := (wmi_bufs w)(a \<mapsto> junk)\<rparr>"
  have ok0: "wmi_ep_ok (ctrl_epid w0) t" and st0: "\<not> wmi_stopped w0"
    and w0: "ctrl_epid w0 = ctrl_epid w" "tx_seq_id w0 = tx_seq_id w"
    using ok st by (simp_all add: w0_def)
  obtain d' x where x: "length x = 4" and sent: "regout_bytes d' = regout_bytes d @
      [wmi_frame (ctrl_epid w0) (4 + word_of_nat (length cmd)) x c (tx_seq_id w0 + 1) cmd]"
    and run: "\<And>evs a n. ath9k_wmi_cmd (hif_usb env) alloc False evs c (Some cmd) (length cmd) a n w0 t d = do {
           (w, t, us) \<leftarrow> wmi_run_events (w0\<lparr>cmd_rsp_buf := a, cmd_rsp_len := n, last_cmd_id := c,
                                         tx_seq_id := tx_seq_id w0 + 1\<rparr>) t evs;
           let (time_left, n) = wait_for_completion_timeout (wmi_cmd_wait w);
           Some (if time_left then 0 else - ETIMEDOUT, w\<lparr>wmi_cmd_wait := n\<rparr>, t, d', us) }"
    by (rule wmi_command_sent [OF spec al ok0 st0 acc, where c = c], rule that)
  have "wmi_call (hif_usb env) alloc False evs c (Some cmd) (length cmd) a junk w t d = do {
           (w2, t, us) \<leftarrow> wmi_run_events (w0\<lparr>cmd_rsp_buf := Some a, cmd_rsp_len := length junk,
                               last_cmd_id := c, tx_seq_id := tx_seq_id w0 + 1\<rparr>) t evs;
           let (time_left, n) = wait_for_completion_timeout (wmi_cmd_wait w2);
           rsp \<leftarrow> wmi_bufs w2 a;
           Some (if time_left then 0 else - ETIMEDOUT, rsp,
                 w2\<lparr>wmi_cmd_wait := n, wmi_bufs := (wmi_bufs w2)(a := None)\<rparr>, t, d', us) }" for evs
  proof -
    let ?run = "wmi_run_events (w0\<lparr>cmd_rsp_buf := Some a, cmd_rsp_len := length junk,
                               last_cmd_id := c, tx_seq_id := tx_seq_id w0 + 1\<rparr>) t evs"
    show ?thesis
      unfolding wmi_call_def Let_def w0_def [symmetric] run
      by (cases ?run) (simp_all add: case_prod_beta)
  qed
  then show thesis using that x sent unfolding w0 by (simp add: w0_def)
qed

lemma wmi_call_timeout:
  assumes "alloc_skb_spec alloc" and "alloc (12 + length cmd) \<noteq> None"
    and "wmi_ep_ok (ctrl_epid w) t" and "\<not> wmi_stopped w" and "regout_answer env d = 0"
    and "wmi_cmd_wait w = 0" and "list_all (wmi_quiet (ctrl_epid w)) evs"
  obtains us w' d' where "wmi_call (hif_usb env) alloc False evs c (Some cmd) (length cmd) a junk w t d
        = Some (- ETIMEDOUT, junk, w', t, d', us)"
    and "\<not> wmi_stopped w'" and "last_cmd_id w' = c" and "cmd_rsp_buf w' = Some a"
    and "wmi_bufs w' a = None" and "cmd_rsp_len w' = length junk"
proof -
  obtain d' w1 where w1: "w1 = w\<lparr>wmi_bufs := (wmi_bufs w)(a \<mapsto> junk), cmd_rsp_buf := Some a,
                cmd_rsp_len := length junk, last_cmd_id := c, tx_seq_id := tx_seq_id w + 1\<rparr>"
    and call: "\<And>evs. wmi_call (hif_usb env) alloc False evs c (Some cmd) (length cmd) a junk w t d = do {
           (w2, t, us) \<leftarrow> wmi_run_events w1 t evs;
           let (time_left, n) = wait_for_completion_timeout (wmi_cmd_wait w2);
           rsp \<leftarrow> wmi_bufs w2 a;
           Some (if time_left then 0 else - ETIMEDOUT, rsp,
                 w2\<lparr>wmi_cmd_wait := n, wmi_bufs := (wmi_bufs w2)(a := None)\<rparr>, t, d', us) }"
    using wmi_call_run [OF assms(1-5), where c = c and a = a and junk = junk] by blast
  define w2 where "w2 = w1\<lparr>wmi_event_queue := wmi_event_queue w1 @ wmi_events_of evs,
                tasklet_scheduled := tasklet_scheduled w1 \<or> wmi_events_of evs \<noteq> []\<rparr>"
  have st: "\<not> wmi_stopped w1" using assms(4) by (simp add: w1)
  have w2f: "\<not> wmi_stopped w2" "last_cmd_id w2 = c" "cmd_rsp_buf w2 = Some a" "wmi_bufs w2 a = Some junk"
      "cmd_rsp_len w2 = length junk" "wmi_cmd_wait w2 = 0"
    using assms(4,6) by (simp_all add: w1 w2_def)
  obtain us where "wmi_run_events w1 t evs = Some (w2, t, us)"
    using quiet_run [OF assms(3) st assms(7)] unfolding w2_def by blast
  then have "wmi_call (hif_usb env) alloc False evs c (Some cmd) (length cmd) a junk w t d
      = Some (- ETIMEDOUT, junk, w2\<lparr>wmi_cmd_wait := 0, wmi_bufs := (wmi_bufs w2)(a := None)\<rparr>, t, d', us)"
    by (simp add: call w2f wait_for_completion_timeout_def)
  then show thesis by (rule that) (simp_all add: w2f)
qed

definition wmi_same :: "wmi \<Rightarrow> wmi \<Rightarrow> bool" where
  \<comment> \<open>what a command leaves alone\<close>
  "wmi_same w w' \<longleftrightarrow> ctrl_epid w' = ctrl_epid w \<and> wmi_stopped w' = wmi_stopped w \<and>
     mwrite_cnt w' = mwrite_cnt w \<and> multi_write w' = multi_write w \<and>
     multi_write_idx w' = multi_write_idx w"

lemma wmi_call_completes:
  assumes "alloc_skb_spec alloc" and "alloc (12 + length cmd) \<noteq> None"
    and "wmi_ep_ok (ctrl_epid w) t" and "\<not> wmi_stopped w" and "regout_answer env d = 0"
    and "wmi_cmd_wait w = 0" and "\<not> has_flag c 0x1000"
    and "list_all (wmi_quiet (ctrl_epid w)) pre" and "list_all (wmi_quiet (ctrl_epid w)) post"
    and "wf_skb r" and "skb_bytes r = wmi_frame (ctrl_epid w) len ctrl c q pl" and "length ctrl = 4"
    and "length junk \<le> length pl"
  shows "\<exists>w' d' us x.
    wmi_call (hif_usb env) alloc False (pre @ [Ev_rx_msg r n p] @ post) c (Some cmd) (length cmd) a junk w t d
      = Some (0, take (length junk) pl, w', t, d', us) \<and> length x = 4 \<and>
    regout_bytes d' = regout_bytes d @
      [wmi_frame (ctrl_epid w) (4 + word_of_nat (length cmd)) x c (tx_seq_id w + 1) cmd] \<and>
    wmi_cmd_wait w' = 0 \<and> wmi_event_queue w' = wmi_event_queue w @ wmi_events_of (pre @ post) \<and>
    wmi_same w w'"
proof -
  obtain d' x w1 where x: "length x = 4"
    and sent: "regout_bytes d' = regout_bytes d @
      [wmi_frame (ctrl_epid w) (4 + word_of_nat (length cmd)) x c (tx_seq_id w + 1) cmd]"
    and w1: "w1 = w\<lparr>wmi_bufs := (wmi_bufs w)(a \<mapsto> junk), cmd_rsp_buf := Some a,
                cmd_rsp_len := length junk, last_cmd_id := c, tx_seq_id := tx_seq_id w + 1\<rparr>"
    and call: "\<And>evs. wmi_call (hif_usb env) alloc False evs c (Some cmd) (length cmd) a junk w t d = do {
           (w2, t, us) \<leftarrow> wmi_run_events w1 t evs;
           let (time_left, n) = wait_for_completion_timeout (wmi_cmd_wait w2);
           rsp \<leftarrow> wmi_bufs w2 a;
           Some (if time_left then 0 else - ETIMEDOUT, rsp,
                 w2\<lparr>wmi_cmd_wait := n, wmi_bufs := (wmi_bufs w2)(a := None)\<rparr>, t, d', us) }"
    by (rule wmi_call_run [OF assms(1-5), where c = c and a = a and junk = junk], rule that)
  define w2 where "w2 = w1\<lparr>wmi_event_queue := wmi_event_queue w1 @ wmi_events_of pre,
                tasklet_scheduled := tasklet_scheduled w1 \<or> wmi_events_of pre \<noteq> []\<rparr>"
  define w3 where "w3 = w2\<lparr>wmi_bufs := (wmi_bufs w2)(a \<mapsto> take (length junk) pl),
                wmi_cmd_wait := Suc (wmi_cmd_wait w2)\<rparr>"
  define w4 where "w4 = w3\<lparr>wmi_event_queue := wmi_event_queue w3 @ wmi_events_of post,
                tasklet_scheduled := tasklet_scheduled w3 \<or> wmi_events_of post \<noteq> []\<rparr>"
  have st: "\<not> wmi_stopped w1" "\<not> wmi_stopped w2" "\<not> wmi_stopped w3"
    using assms(4) by (simp_all add: w1 w2_def w3_def)
  have w2f: "last_cmd_id w2 = c" "cmd_rsp_buf w2 = Some a" "wmi_bufs w2 a = Some junk"
      "cmd_rsp_len w2 = length junk" by (simp_all add: w1 w2_def)
  have same: "wmi_same w (w4\<lparr>wmi_cmd_wait := 0, wmi_bufs := (wmi_bufs w4)(a := None)\<rparr>)"
    by (simp add: wmi_same_def w1 w2_def w3_def w4_def)
  have w4f: "wmi_cmd_wait w4 = Suc 0" "wmi_bufs w4 a = Some (take (length junk) pl)"
      "wmi_event_queue w4 = wmi_event_queue w @ wmi_events_of (pre @ post)"
    using assms(6) by (simp_all add: w1 w2_def w3_def w4_def wmi_events_of_def)
  obtain us1 where r1: "wmi_run_events w1 t pre = Some (w2, t, us1)"
    using quiet_run [OF assms(3) st(1) assms(8)] unfolding w2_def by blast
  note r2 = response_step [OF assms(3) st(2) assms(10-12,7) w2f assms(13), of n p, folded w3_def]
  obtain us3 where r3: "wmi_run_events w3 t post = Some (w4, t, us3)"
    using quiet_run [OF assms(3) st(3) assms(9)] unfolding w4_def by blast
  obtain us where "wmi_run_events w1 t (pre @ [Ev_rx_msg r n p] @ post) = Some (w4, t, us)"
    unfolding wmi_run_events_append r1 r2 r3 bind.simps case_prod_conv by blast
  then have "wmi_call (hif_usb env) alloc False (pre @ [Ev_rx_msg r n p] @ post) c (Some cmd) (length cmd)
      a junk w t d = Some (0, take (length junk) pl,
        w4\<lparr>wmi_cmd_wait := 0, wmi_bufs := (wmi_bufs w4)(a := None)\<rparr>, t, d', us)"
    by (simp add: call w4f wait_for_completion_timeout_def)
  then show ?thesis using x sent w4f(3) same by auto
qed

section \<open>Properties\<close>

definition ex_wmi :: wmi where
  "ex_wmi = \<lparr>ctrl_epid = 21, wmi_cmd_wait = 0, last_cmd_id = 0, wmi_event_queue = [],
     tasklet_scheduled = False, tx_seq_id = 0, cmd_rsp_buf = None, cmd_rsp_len = 0,
     wmi_stopped = False, mwrite_cnt = 0, multi_write = replicate 62 (0, 0), multi_write_idx = 0,
     wmi_bufs = Map.empty\<rparr>"

definition ex_event :: htc_event where
  \<comment> \<open>a beacon alert that arrives while the command waits\<close>
  "ex_event = Ev_rx_msg (skb_of_bytes [21, 0, 0, 5, 0, 0, 0, 0, 0x10, 0x02, 0, 0, 1]) 13 3"

definition ex_rsp :: sk_buff where
  "ex_rsp = skb_of_bytes (wmi_frame 21 8 [0, 0, 0, 0] 20 1 [1, 2, 3, 4])"

lemma ex_wmi_fields: "ctrl_epid ex_wmi = 21" "\<not> wmi_stopped ex_wmi" "wmi_cmd_wait ex_wmi = 0"
  by (simp_all add: ex_wmi_def)

lemma ex_wmi_ep: "wmi_ep_ok (ctrl_epid ex_wmi) ex_target"
  by (simp add: wmi_ep_ok_def ex_wmi_def ex_target_def htc_wf_def USB_REG_OUT_PIPE_def)

lemma ex_event_quiet: "list_all (wmi_quiet (ctrl_epid ex_wmi)) [ex_event]"
  by (simp add: wmi_quiet_def ex_event_def ex_wmi_def get_be16_def be16_def le16_def has_flag_def)

lemma ex_rsp_frame: "wf_skb ex_rsp" "skb_bytes ex_rsp = wmi_frame (ctrl_epid ex_wmi) 8 [0, 0, 0, 0] 20 1 [1, 2, 3, 4]"
  by (simp_all add: ex_rsp_def ex_wmi_def)

lemma ex_alloc_some: "ex_alloc 0 n \<noteq> None"
  by (simp add: ex_alloc_def)

text \<open>C20: a WMI command. When the transport accepts the frame and a response with the command's id
  arrives while the caller waits, possibly among transmit completions and WMI events, the command
  returns 0, the caller's variable holds the first bytes of the response's payload, exactly one
  frame with the HTC header, the WMI header (command id and the next sequence number) and the
  argument bytes was sent, and the events that came meanwhile are queued in order. The sequence
  number of the response plays no role.\<close>

theorem wmi_command_response:
  assumes "alloc_skb_spec alloc" and "alloc (12 + length cmd) \<noteq> None"
    and "wmi_ep_ok (ctrl_epid w) t" and "\<not> wmi_stopped w" and "regout_answer env d = 0"
    and "wmi_cmd_wait w = 0" and "\<not> has_flag c 0x1000"
    and "list_all (wmi_quiet (ctrl_epid w)) pre" and "list_all (wmi_quiet (ctrl_epid w)) post"
    and "wf_skb r" and "skb_bytes r = wmi_frame (ctrl_epid w) len ctrl c q pl" and "length ctrl = 4"
    and "length junk \<le> length pl"
  shows "\<exists>w' d' us x.
    wmi_call (hif_usb env) alloc False (pre @ [Ev_rx_msg r n p] @ post) c (Some cmd) (length cmd) a junk w t d
      = Some (0, take (length junk) pl, w', t, d', us) \<and> length x = 4 \<and>
    regout_bytes d' = regout_bytes d @
      [wmi_frame (ctrl_epid w) (4 + word_of_nat (length cmd)) x c (tx_seq_id w + 1) cmd] \<and>
    wmi_cmd_wait w' = 0 \<and> wmi_event_queue w' = wmi_event_queue w @ wmi_events_of (pre @ post)"
  using wmi_call_completes [OF assms, where n = n and p = p and a = a] by blast

theorem wmi_command_response_witness:
  "\<exists>w' d' us. wmi_call (hif_usb ex_env) (ex_alloc 0) False ([ex_event] @ [Ev_rx_msg ex_rsp 16 3] @ [])
       20 (Some [0, 0, 0x40, 0x20]) (length [0, 0, 0x40, 0x20::u8]) 7 [9, 9, 9, 9] ex_wmi ex_target ex_dev
     = Some (0, [1, 2, 3, 4], w', ex_target, d', us) \<and> length (wmi_event_queue w') = 1"
  using wmi_command_response [OF ex_alloc_spec ex_alloc_some ex_wmi_ep ex_wmi_fields(2) ex_answer
      ex_wmi_fields(3) _ ex_event_quiet _ ex_rsp_frame _, where post = "[]" and junk = "[9, 9, 9, 9]" and cmd = "[0, 0, 0x40, 0x20]" and d = ex_dev
      and n = 16 and p = 3 and a = 7]
  by (auto simp: has_flag_def wmi_events_of_def ex_event_def ex_wmi_def)



text \<open>A response that arrives after its command timed out. The channel keeps the address of the
  caller's variable and the command id, so the late response is accepted and copied to a variable
  that no longer exists.\<close>

theorem wmi_late_response:
  assumes "alloc_skb_spec alloc" and "alloc (12 + length cmd) \<noteq> None"
    and "wmi_ep_ok (ctrl_epid w) t" and "\<not> wmi_stopped w" and "regout_answer env d = 0"
    and "wmi_cmd_wait w = 0" and "list_all (wmi_quiet (ctrl_epid w)) evs" and "\<not> has_flag c 0x1000"
    and "wf_skb r" and "skb_bytes r = wmi_frame (ctrl_epid w) len ctrl c q pl" and "length ctrl = 4"
    and "junk \<noteq> []"
  shows "\<exists>w' d' us.
    wmi_call (hif_usb env) alloc False evs c (Some cmd) (length cmd) a junk w t d
      = Some (- ETIMEDOUT, junk, w', t, d', us) \<and>
    wmi_run_events w' t [Ev_rx_msg r n p] = None"
proof -
  obtain us w' d' where call: "wmi_call (hif_usb env) alloc False evs c (Some cmd) (length cmd) a junk w t d
        = Some (- ETIMEDOUT, junk, w', t, d', us)"
    and w': "\<not> wmi_stopped w'" "last_cmd_id w' = c" "cmd_rsp_buf w' = Some a" "wmi_bufs w' a = None"
      "cmd_rsp_len w' = length junk"
    using wmi_call_timeout [OF assms(1-7), where c = c and a = a and junk = junk] by blast
  have "0 < cmd_rsp_len w'" using w'(5) assms(12) by simp
  with response_step_dead [OF assms(3) w'(1) assms(9-11,8) w'(2-4)] call show ?thesis by blast
qed

theorem wmi_late_response_witness:
  "\<exists>w' d' us. wmi_call (hif_usb ex_env) (ex_alloc 0) False [ex_event] 20 (Some [0, 0, 0x40, 0x20])
       (length [0, 0, 0x40, 0x20::u8]) 7 [9, 9, 9, 9] ex_wmi ex_target ex_dev
     = Some (- ETIMEDOUT, [9, 9, 9, 9], w', ex_target, d', us) \<and>
     wmi_run_events w' ex_target [Ev_rx_msg ex_rsp 16 3] = None"
  using wmi_late_response [OF ex_alloc_spec ex_alloc_some ex_wmi_ep ex_wmi_fields(2) ex_answer
      ex_wmi_fields(3) ex_event_quiet _ ex_rsp_frame _, where junk = "[9, 9, 9, 9]" and cmd = "[0, 0, 0x40, 0x20]" and d = ex_dev and a = 7
      and n = 16 and p = 3]
  by (simp add: has_flag_def)

end
