(* ===== verification/Htc_Drv_Init.thy ===== *)
theory Htc_Drv_Init
  imports Wmi
begin

text \<open>
  Driver initialisation and register access (\<open>ath9k/htc_drv_init.c\<close>): waiting for the target,
  connecting the services, and the register operations that the hardware layer calls. Register
  reads and writes are WMI commands; writes can be collected in the buffer of \<open>struct wmi\<close> and
  sent together.

  The operations take the command channel as an argument: \<open>exec c cmd rsp w s\<close> sends command \<open>c\<close>
  with the argument bytes \<open>cmd\<close> and a response variable that holds \<open>rsp\<close> before the call. The
  locale \<open>reg_channel\<close> states what they rely on; it is interpreted by the WMI, HTC and USB layers
  below and a target that executes register commands.
\<close>

section \<open>Waiting for the target and connecting the services\<close>

definition ath9k_htc_wait_for_target ::
  "htc_event list \<Rightarrow> htc_target \<Rightarrow> (int \<times> htc_target \<times> htc_upcall list) option" where
  \<comment> \<open>the events that come during the wait are an argument\<close>
  "ath9k_htc_wait_for_target evs t =
     (if 0 < tgt_ready t then Some (0, t\<lparr>tgt_ready := tgt_ready t - 1\<rparr>, [])
      else do {
        (t, us) \<leftarrow> htc_run_events t evs;
        let (time_left, n) = wait_for_completion_timeout (target_wait t);
        let t = t\<lparr>target_wait := n\<rparr>;
        Some (if time_left then (0, t\<lparr>tgt_ready := tgt_ready t - 1\<rparr>, us)
              else (- ETIMEDOUT, t, us)) })"

definition ath9k_htc_connect_svc ::
  "'h ath9k_htc_hif \<Rightarrow> (nat \<Rightarrow> sk_buff option) \<Rightarrow> htc_event list \<Rightarrow> u16 \<Rightarrow> ep_tx_fn \<Rightarrow>
     htc_target \<Rightarrow> 'h \<Rightarrow> (int \<times> int option \<times> htc_target \<times> 'h \<times> htc_upcall list) option" where
  "ath9k_htc_connect_svc hif alloc evs sid tx t h =
     htc_connect_service hif alloc evs
       \<lparr>req_service_id = sid, req_con_flags = 0, req_max_send_qdepth = 0,
        req_ep_callbacks = \<lparr>cb_tx = Some tx, cb_rx = Some Ath9k_htc_rxep\<rparr>\<rparr> t h"

record htc_eps =
  wmi_cmd_ep :: int
  beacon_ep :: int
  cab_ep :: int
  uapsd_ep :: int
  mgmt_ep :: int
  data_be_ep :: int
  data_bk_ep :: int
  data_vi_ep :: int
  data_vo_ep :: int

definition service_plan :: "(u16 \<times> ep_tx_fn \<times> (int \<Rightarrow> htc_eps \<Rightarrow> htc_eps)) list" where
  \<comment> \<open>the data services in the order of the source, with the field each endpoint is stored to\<close>
  "service_plan =
     [(WMI_BEACON_SVC, Ath9k_htc_beaconep, \<lambda>e p. p\<lparr>beacon_ep := e\<rparr>),
      (WMI_CAB_SVC, Ath9k_htc_txep, \<lambda>e p. p\<lparr>cab_ep := e\<rparr>),
      (WMI_UAPSD_SVC, Ath9k_htc_txep, \<lambda>e p. p\<lparr>uapsd_ep := e\<rparr>),
      (WMI_MGMT_SVC, Ath9k_htc_txep, \<lambda>e p. p\<lparr>mgmt_ep := e\<rparr>),
      (WMI_DATA_BE_SVC, Ath9k_htc_txep, \<lambda>e p. p\<lparr>data_be_ep := e\<rparr>),
      (WMI_DATA_BK_SVC, Ath9k_htc_txep, \<lambda>e p. p\<lparr>data_bk_ep := e\<rparr>),
      (WMI_DATA_VI_SVC, Ath9k_htc_txep, \<lambda>e p. p\<lparr>data_vi_ep := e\<rparr>),
      (WMI_DATA_VO_SVC, Ath9k_htc_txep, \<lambda>e p. p\<lparr>data_vo_ep := e\<rparr>)]"

fun connect_services ::
  "'h ath9k_htc_hif \<Rightarrow> (nat \<Rightarrow> sk_buff option) \<Rightarrow> (u16 \<Rightarrow> htc_event list) \<Rightarrow>
     (u16 \<times> ep_tx_fn \<times> (int \<Rightarrow> htc_eps \<Rightarrow> htc_eps)) list \<Rightarrow> htc_eps \<Rightarrow> htc_target \<Rightarrow> 'h \<Rightarrow>
     (int \<times> htc_eps \<times> htc_target \<times> 'h \<times> htc_upcall list) option" where
  "connect_services hif alloc evs [] p t h = Some (0, p, t, h, [])"
| "connect_services hif alloc evs ((sid, tx, set_ep) # plan) p t h = do {
     (ret, ep, t, h, us) \<leftarrow> ath9k_htc_connect_svc hif alloc (evs sid) sid tx t h;
     let p = (case ep of Some e \<Rightarrow> set_ep e p | None \<Rightarrow> p);
     if ret \<noteq> 0 then Some (ret, p, t, h, us)
     else do {
       (ret, p, t, h, vs) \<leftarrow> connect_services hif alloc evs plan p t h;
       Some (ret, p, t, h, us @ vs) } }"

definition ath9k_init_htc_services ::
  "'h ath9k_htc_hif \<Rightarrow> (nat \<Rightarrow> sk_buff option) \<Rightarrow> (u16 \<Rightarrow> htc_event list) \<Rightarrow> htc_event list \<Rightarrow>
     htc_event list \<Rightarrow> bool \<Rightarrow> wmi \<Rightarrow> htc_eps \<Rightarrow> htc_target \<Rightarrow> 'h \<Rightarrow>
     (int \<times> wmi \<times> htc_eps \<times> htc_target \<times> 'h \<times> htc_upcall list) option" where
  \<comment> \<open>arguments: the events while each service is connected and during the two steps of \<open>htc_init\<close>,
      and \<open>IS_AR7010_DEVICE\<close>\<close>
  "ath9k_init_htc_services hif alloc evs evs1 evs2 is7010 w p t h = do {
     (ret, ep, w, t, h, us) \<leftarrow> ath9k_wmi_connect hif alloc (evs WMI_CONTROL_SVC) w t h;
     if ret \<noteq> 0 then Some (ret, w, p, t, h, us)
     else do {
       let p = (case ep of Some e \<Rightarrow> p\<lparr>wmi_cmd_ep := int e\<rparr> | None \<Rightarrow> p);
       (ret, p, t, h, vs) \<leftarrow> connect_services hif alloc evs service_plan p t h;
       if ret \<noteq> 0 then Some (ret, w, p, t, h, us @ vs)
       else do {
         let t = t\<lparr>credits := (if is7010 then 45 else 33)\<rparr>;
         (ret, t, h, ws) \<leftarrow> htc_init hif alloc evs1 evs2 t h;
         Some (ret, w, p, t, h, us @ vs @ ws) } } }"

section \<open>The endpoint table while the services are connected\<close>

definition svc_cbs :: "ep_tx_fn \<Rightarrow> htc_ep_callbacks" where
  "svc_cbs tx = \<lparr>cb_tx = Some tx, cb_rx = Some Ath9k_htc_rxep\<rparr>"

definition ep_serves :: "htc_target \<Rightarrow> nat \<Rightarrow> u16 \<Rightarrow> htc_ep_callbacks \<Rightarrow> bool" where
  "ep_serves t i sid cbs \<longleftrightarrow> service_id (endpoint t ! i) = sid \<and> ep_callbacks (endpoint t ! i) = cbs \<and>
     ul_pipeid (endpoint t ! i) = service_to_ulpipe sid \<and> dl_pipeid (endpoint t ! i) = service_to_dlpipe sid"

definition svc_table :: "(u16 \<Rightarrow> u8) \<Rightarrow> (u16 \<times> htc_ep_callbacks) list \<Rightarrow> htc_target \<Rightarrow> bool" where
  \<comment> \<open>the services of the list sit on the endpoints the target gave them, the other data endpoints
      are free, and no HTC transaction is under way\<close>
  "svc_table ep_of svcs t \<longleftrightarrow> htc_wf t \<and> cmd_wait t = 0 \<and> htc_flags t = 0 \<and>
     ul_pipeid (endpoint t ! 0) = USB_REG_OUT_PIPE \<and>
     service_id (endpoint t ! 0) \<in> {0, HTC_CTRL_RSVD_SVC} \<and>
     0 \<notin> fst ` set svcs \<and> (\<forall>(sid, cbs) \<in> set svcs. ep_serves t (unat (ep_of sid)) sid cbs) \<and>
     (\<forall>i. 0 < i \<and> i < ENDPOINT_MAX \<and> i \<notin> (unat \<circ> ep_of \<circ> fst) ` set svcs \<longrightarrow> service_id (endpoint t ! i) = 0)"

definition conn_answer :: "(u16 \<Rightarrow> u8) \<Rightarrow> (u16 \<Rightarrow> u16) \<Rightarrow> u16 \<Rightarrow> htc_event list" where
  \<comment> \<open>the target grants the request with endpoint \<open>ep_of sid\<close>\<close>
  "conn_answer ep_of ml sid =
     [Ev_rx_msg (skb_of_bytes (conn_rsp_frame sid 0 (ep_of sid) (ml sid) [0, 0, 0, 0])) 18 USB_REG_IN_PIPE]"

definition htc_services :: "u16 list" where
  "htc_services = WMI_CONTROL_SVC # map fst service_plan"

definition ep_map_ok :: "(u16 \<Rightarrow> u8) \<Rightarrow> bool" where
  "ep_map_ok ep_of \<longleftrightarrow> distinct (map ep_of htc_services) \<and>
     (\<forall>sid \<in> set htc_services. 0 < unat (ep_of sid) \<and> unat (ep_of sid) < ENDPOINT_MAX)"

lemma htc_services_list:
  "htc_services = [0x100, 0x101, 0x102, 0x103, 0x104, 0x107, 0x108, 0x106, 0x105]"
  by (simp add: htc_services_def service_plan_def service_ids)

lemma avail_ep_exists:
  assumes t: "svc_table ep_of svcs t" and n: "length svcs < 21"
  shows "\<exists>e. get_next_avail_ep (endpoint t) = Some e"
proof (rule ccontr)
  assume "\<nexists>e. get_next_avail_ep (endpoint t) = Some e"
  then have "avail_ep_from 21 (endpoint t) = None" by (simp add: get_next_avail_ep_def)
  then have used: "service_id (endpoint t ! k) \<noteq> 0" if "0 < k" "k \<le> 21" for k
    using avail_ep_from_NoneD that by blast
  have "{1..21} \<subseteq> (unat \<circ> ep_of \<circ> fst) ` set svcs"
  proof
    fix k :: nat assume "k \<in> {1..21}"
    then have k: "0 < k" "k \<le> 21" by simp_all
    then show "k \<in> (unat \<circ> ep_of \<circ> fst) ` set svcs"
      using t used [OF k] unfolding svc_table_def by fastforce
  qed
  then have "card {1..21::nat} \<le> card (set svcs)"
    using surj_card_le [of "set svcs" "{1..21}" "unat \<circ> ep_of \<circ> fst"] by simp
  also have "\<dots> \<le> length svcs" by (rule card_length)
  finally show False using n by simp
qed

lemma svc_table_connect:
  assumes spec: "alloc_skb_spec alloc" and al: "alloc 18 \<noteq> None" and acc: "regout_answer env d = 0"
    and t: "svc_table ep_of svcs t" and n: "length svcs < 21"
    and sid: "req_service_id req \<notin> {0, HTC_CTRL_RSVD_SVC} \<union> fst ` set svcs"
    and epid: "0 < unat (ep_of (req_service_id req))" "unat (ep_of (req_service_id req)) < ENDPOINT_MAX"
    and new: "ep_of (req_service_id req) \<notin> ep_of ` fst ` set svcs"
  obtains t' d' us where
    "htc_connect_service (hif_usb env) alloc (conn_answer ep_of ml (req_service_id req)) req t d
       = Some (0, Some (uint (ep_of (req_service_id req))), t', d', us)"
    and "svc_table ep_of ((req_service_id req, req_ep_callbacks req) # svcs) t'"
proof -
  let ?sid = "req_service_id req"
  let ?ep = "unat (ep_of ?sid)"
  obtain e where e: "get_next_avail_ep (endpoint t) = Some e" using avail_ep_exists [OF t n] by blast
  have eb: "0 < e" "service_id (endpoint t ! e) = 0"
    using avail_ep_from_SomeD e by (auto simp: get_next_avail_ep_def)
  have other: "unat (ep_of x) \<noteq> ?ep" if "x \<in> fst ` set svcs" for x
    using new that unfolding word_unat_eq_iff [symmetric] by (metis imageI)
  have fresh: "service_id (endpoint t ! i) \<noteq> ?sid" if i: "i < ENDPOINT_MAX" for i
  proof -
    consider "i = 0" | "0 < i" "i \<notin> (unat \<circ> ep_of \<circ> fst) ` set svcs" | (used) "i \<in> (unat \<circ> ep_of \<circ> fst) ` set svcs"
      by blast
    then show ?thesis
    proof cases
      case 1
      then show ?thesis using t sid by (auto simp: svc_table_def)
    next
      case 2
      then have "service_id (endpoint t ! i) = 0" using t i unfolding svc_table_def by blast
      then show ?thesis using sid by auto
    next
      case used
      then obtain x cbs where x: "(x, cbs) \<in> set svcs" "i = unat (ep_of x)" by auto
      then have "ep_serves t i x cbs" using t by (auto simp: svc_table_def)
      moreover have "x \<noteq> ?sid" using x(1) sid by force
      ultimately show ?thesis by (simp add: ep_serves_def)
    qed
  qed
  have wf: "htc_wf t" "cmd_wait t = 0" "ul_pipeid (endpoint t ! 0) = USB_REG_OUT_PIPE" "?sid \<noteq> 0"
    using t sid by (auto simp: svc_table_def)
  obtain t' d' where call: "htc_connect_service (hif_usb env) alloc (conn_answer ep_of ml ?sid) req t d
       = Some (0, Some (uint (ep_of ?sid)), t', d', [Kfree_skb (skb_of_bytes (conn_rsp_frame ?sid 0 (ep_of ?sid) (ml ?sid) [0, 0, 0, 0]))])"
    and t': "htc_wf t'" "cmd_wait t' = 0" "htc_flags t' = htc_flags t"
      "endpoint t' ! ?ep = \<lparr>service_id = ?sid, ep_callbacks = req_ep_callbacks req,
         max_txqdepth = req_max_send_qdepth req, max_msglen = uint (ml ?sid),
         ul_pipeid = service_to_ulpipe ?sid, dl_pipeid = service_to_dlpipe ?sid\<rparr>"
      "e \<noteq> ?ep \<Longrightarrow> service_id (endpoint t' ! e) = 0"
      "\<And>i. i \<noteq> ?ep \<Longrightarrow> i \<noteq> e \<Longrightarrow> endpoint t' ! i = endpoint t ! i"
    unfolding conn_answer_def
    by (rule connect_service_granted [OF spec al wf(1-3) acc e wf(4) fresh wf_skb_of_bytes skb_bytes_of_bytes _ epid,
        where len = 18 and ml = "ml ?sid" and ctrl = "[0, 0, 0, 0]"]) (assumption, simp, rule that [unfolded conn_answer_def])
  have zero: "endpoint t' ! 0 = endpoint t ! 0" using t'(6) [of 0] epid eb by simp
  have keep: "ep_serves t' (unat (ep_of x)) x cbs" if x: "(x, cbs) \<in> set svcs" for x cbs
  proof -
    have s: "ep_serves t (unat (ep_of x)) x cbs" using t x by (auto simp: svc_table_def)
    have "unat (ep_of x) \<noteq> ?ep" using other [of x] x by force
    moreover have "unat (ep_of x) \<noteq> e"
    proof
      assume "unat (ep_of x) = e"
      then have "x = 0" using s eb(2) by (simp add: ep_serves_def)
      then show False using t x by (force simp: svc_table_def)
    qed
    ultimately show ?thesis using s t'(6) by (simp add: ep_serves_def)
  qed
  have free: "service_id (endpoint t' ! i) = 0"
    if "0 < i" "i < ENDPOINT_MAX" "i \<noteq> ?ep" "i \<notin> (unat \<circ> ep_of \<circ> fst) ` set svcs" for i
    using that t t'(5,6) by (cases "i = e") (auto simp: svc_table_def)
  have "svc_table ep_of ((?sid, req_ep_callbacks req) # svcs) t'"
    using t t'(1-4) zero keep free wf(4) by (auto simp: svc_table_def ep_serves_def)
  then show thesis using that call by blast
qed

fun plan_svcs :: "(u16 \<times> ep_tx_fn \<times> 'x) list \<Rightarrow> (u16 \<times> htc_ep_callbacks) list" where
  "plan_svcs [] = []"
| "plan_svcs ((sid, tx, f) # plan) = (sid, svc_cbs tx) # plan_svcs plan"

lemma connect_services_granted:
  assumes spec: "alloc_skb_spec alloc" and al: "alloc 18 \<noteq> None" and acc: "\<forall>d. regout_answer env d = 0"
    and "svc_table ep_of svcs t" and "length svcs + length plan \<le> 21"
    and "distinct (map ep_of (map fst plan @ map fst svcs))"
    and "\<forall>sid \<in> fst ` set plan. sid \<notin> {0, HTC_CTRL_RSVD_SVC} \<and> 0 < unat (ep_of sid) \<and> unat (ep_of sid) < ENDPOINT_MAX"
  shows "\<exists>t' d' us. connect_services (hif_usb env) alloc (conn_answer ep_of ml) plan p t d
      = Some (0, fold (\<lambda>(sid, tx, f) p. f (uint (ep_of sid)) p) plan p, t', d', us) \<and>
    svc_table ep_of (rev (plan_svcs plan) @ svcs) t'"
  using assms(4-)
proof (induction plan arbitrary: svcs p t d)
  case Nil
  then show ?case by simp
next
  case (Cons x plan)
  obtain sid tx f where x: "x = (sid, tx, f)" by (cases x)
  define req where "req = \<lparr>req_service_id = sid, req_con_flags = 0, req_max_send_qdepth = 0,
        req_ep_callbacks = svc_cbs tx\<rparr>"
  have req: "req_service_id req = sid" "req_ep_callbacks req = svc_cbs tx" by (simp_all add: req_def)
  have new: "ep_of (req_service_id req) \<notin> ep_of ` fst ` set svcs" using Cons.prems(3) by (simp add: x req image_image)
  have sid: "req_service_id req \<notin> {0, HTC_CTRL_RSVD_SVC} \<union> fst ` set svcs"
    and epid: "0 < unat (ep_of (req_service_id req))" "unat (ep_of (req_service_id req)) < ENDPOINT_MAX"
    using Cons.prems(4) new by (auto simp: x req)
  have n: "length svcs < 21" using Cons.prems(2) by simp
  obtain t1 d1 us where call: "htc_connect_service (hif_usb env) alloc (conn_answer ep_of ml sid) req t d
       = Some (0, Some (uint (ep_of sid)), t1, d1, us)"
    and t1: "svc_table ep_of ((sid, svc_cbs tx) # svcs) t1"
    by (rule svc_table_connect [OF spec al _ Cons.prems(1) n sid epid new, of env d ml])
      (use acc req in auto)
  obtain t' d' vs where rest: "connect_services (hif_usb env) alloc (conn_answer ep_of ml) plan (f (uint (ep_of sid)) p) t1 d1
      = Some (0, fold (\<lambda>(sid, tx, f) p. f (uint (ep_of sid)) p) plan (f (uint (ep_of sid)) p), t', d', vs)"
    and t': "svc_table ep_of (rev (plan_svcs plan) @ (sid, svc_cbs tx) # svcs) t'"
    using Cons.IH [OF t1, of "f (uint (ep_of sid)) p" d1] Cons.prems(2-4) by (auto simp: x)
  have svc: "ath9k_htc_connect_svc (hif_usb env) alloc (conn_answer ep_of ml sid) sid tx t d
       = Some (0, Some (uint (ep_of sid)), t1, d1, us)"
    using call by (simp add: ath9k_htc_connect_svc_def req_def svc_cbs_def)
  have "connect_services (hif_usb env) alloc (conn_answer ep_of ml) (x # plan) p t d
      = Some (0, fold (\<lambda>(sid, tx, f) p. f (uint (ep_of sid)) p) (x # plan) p, t', d', us @ vs)"
    using rest by (simp add: x svc)
  then show ?case using t' by (simp add: x)
qed

section \<open>Register operations\<close>

type_synonym 's wmi_exec =
  "u16 \<Rightarrow> bytes \<Rightarrow> bytes \<Rightarrow> wmi \<Rightarrow> 's \<Rightarrow> (int \<times> bytes \<times> wmi \<times> 's) option"

definition ath9k_regread :: "'s wmi_exec \<Rightarrow> bytes \<Rightarrow> u32 \<Rightarrow> wmi \<Rightarrow> 's \<Rightarrow> (u32 \<times> wmi \<times> 's) option" where
  \<comment> \<open>\<open>junk\<close> is what the uninitialised variable \<open>val\<close> holds\<close>
  "ath9k_regread exec junk reg_offset w s = do {
     (r, val, w, s) \<leftarrow> exec WMI_REG_READ_CMDID (be32_bytes reg_offset) junk w s;
     if r \<noteq> 0 then Some (word_of_int (- EIO), w, s)
     else do { v \<leftarrow> get_be32 val 0; Some (v, w, s) } }"

fun be32_list :: "nat \<Rightarrow> bytes \<Rightarrow> u32 list option" where
  "be32_list 0 bs = Some []"
| "be32_list (Suc n) bs = do { v \<leftarrow> get_be32 bs 0; vs \<leftarrow> be32_list n (drop 4 bs); Some (v # vs) }"

definition ath9k_multi_regread ::
  "'s wmi_exec \<Rightarrow> bytes \<Rightarrow> u32 list \<Rightarrow> wmi \<Rightarrow> 's \<Rightarrow> (u32 list \<times> wmi \<times> 's) option" where
  \<comment> \<open>\<open>count\<close> is the length of \<open>addr\<close>; the two local arrays have 8 entries, \<open>junk\<close> is the 32 bytes of
      \<open>tmpval\<close>\<close>
  "ath9k_multi_regread exec junk addr w s =
     (if 8 < length addr then None
      else do {
        (ret, tmpval, w, s) \<leftarrow> exec WMI_REG_READ_CMDID (concat (map be32_bytes addr))
                                (take (4 * length addr) junk) w s;
        vals \<leftarrow> be32_list (length addr) tmpval;
        Some (vals, w, s) })"

definition ath9k_regwrite_single :: "'s wmi_exec \<Rightarrow> u32 \<Rightarrow> u32 \<Rightarrow> wmi \<Rightarrow> 's \<Rightarrow> (wmi \<times> 's) option" where
  \<comment> \<open>the response overwrites the parameter \<open>val\<close>\<close>
  "ath9k_regwrite_single exec val reg_offset w s = do {
     (r, rsp, w, s) \<leftarrow> exec WMI_REG_WRITE_CMDID (be32_bytes reg_offset @ be32_bytes val)
                         (le32_bytes val) w s;
     Some (w, s) }"

definition multi_write_bytes :: "(u32 \<times> u32) list \<Rightarrow> bytes" where
  "multi_write_bytes ps = concat (map (\<lambda>(reg, val). be32_bytes reg @ be32_bytes val) ps)"

definition ath9k_regwrite_buffer ::
  "'s wmi_exec \<Rightarrow> bytes \<Rightarrow> u32 \<Rightarrow> u32 \<Rightarrow> wmi \<Rightarrow> 's \<Rightarrow> (wmi \<times> 's) option" where
  \<comment> \<open>\<open>junk\<close> is the uninitialised \<open>rsp_status\<close>\<close>
  "ath9k_regwrite_buffer exec junk val reg_offset w s =
     (if multi_write_idx w < length (multi_write w) then do {
        let w = w\<lparr>multi_write := (multi_write w)[multi_write_idx w := (reg_offset, val)],
                  multi_write_idx := multi_write_idx w + 1\<rparr>;
        if multi_write_idx w = 62 then do {
          (r, rsp, w, s) \<leftarrow> exec WMI_REG_WRITE_CMDID
             (multi_write_bytes (take (multi_write_idx w) (multi_write w))) junk w s;
          Some (w\<lparr>multi_write_idx := 0\<rparr>, s) }
        else Some (w, s) }
      else None)"

definition ath9k_regwrite ::
  "'s wmi_exec \<Rightarrow> bytes \<Rightarrow> u32 \<Rightarrow> u32 \<Rightarrow> wmi \<Rightarrow> 's \<Rightarrow> (wmi \<times> 's) option" where
  "ath9k_regwrite exec junk val reg_offset w s =
     (if mwrite_cnt w \<noteq> 0 then ath9k_regwrite_buffer exec junk val reg_offset w s
      else ath9k_regwrite_single exec val reg_offset w s)"

definition ath9k_enable_regwrite_buffer :: "wmi \<Rightarrow> wmi" where
  "ath9k_enable_regwrite_buffer w = w\<lparr>mwrite_cnt := mwrite_cnt w + 1\<rparr>"

definition ath9k_regwrite_flush :: "'s wmi_exec \<Rightarrow> bytes \<Rightarrow> wmi \<Rightarrow> 's \<Rightarrow> (wmi \<times> 's) option" where
  "ath9k_regwrite_flush exec junk w s = do {
     let w = w\<lparr>mwrite_cnt := mwrite_cnt w - 1\<rparr>;
     if multi_write_idx w \<noteq> 0 then do {
       (r, rsp, w, s) \<leftarrow> exec WMI_REG_WRITE_CMDID
          (multi_write_bytes (take (multi_write_idx w) (multi_write w))) junk w s;
       Some (w\<lparr>multi_write_idx := 0\<rparr>, s) }
     else Some (w, s) }"

definition ath9k_reg_rmw ::
  "'s wmi_exec \<Rightarrow> bytes \<Rightarrow> u32 \<Rightarrow> u32 \<Rightarrow> u32 \<Rightarrow> wmi \<Rightarrow> 's \<Rightarrow> (u32 \<times> wmi \<times> 's) option" where
  "ath9k_reg_rmw exec junk reg_offset set_bits clr w s = do {
     (val, w, s) \<leftarrow> ath9k_regread exec junk reg_offset w s;
     let val = val AND NOT clr;
     let val = val OR set_bits;
     (w, s) \<leftarrow> ath9k_regwrite exec junk val reg_offset w s;
     Some (val, w, s) }"

text \<open>A sequence of register operations, as the hardware layer issues them.\<close>

datatype reg_op =
    Reg_write u32 u32
  | Enable_write_buffer
  | Write_flush

fun reg_run :: "'s wmi_exec \<Rightarrow> bytes \<Rightarrow> reg_op list \<Rightarrow> wmi \<Rightarrow> 's \<Rightarrow> (wmi \<times> 's) option" where
  "reg_run exec junk [] w s = Some (w, s)"
| "reg_run exec junk (Reg_write reg val # ops) w s = do {
     (w, s) \<leftarrow> ath9k_regwrite exec junk val reg w s;
     reg_run exec junk ops w s }"
| "reg_run exec junk (Enable_write_buffer # ops) w s =
     reg_run exec junk ops (ath9k_enable_regwrite_buffer w) s"
| "reg_run exec junk (Write_flush # ops) w s = do {
     (w, s) \<leftarrow> ath9k_regwrite_flush exec junk w s;
     reg_run exec junk ops w s }"

section \<open>The register file behind the channel\<close>

definition apply_writes :: "(u32 \<times> u32) list \<Rightarrow> (u32 \<Rightarrow> u32) \<Rightarrow> u32 \<Rightarrow> u32" where
  "apply_writes ps m = fold (\<lambda>(r, v) m. m(r := v)) ps m"

definition pending_writes :: "wmi \<Rightarrow> (u32 \<times> u32) list" where
  "pending_writes w = take (multi_write_idx w) (multi_write w)"

definition buf_inv :: "wmi \<Rightarrow> bool" where
  \<comment> \<open>the buffer is never left full, and it is empty unless buffering is enabled\<close>
  "buf_inv w \<longleftrightarrow> length (multi_write w) = 62 \<and> multi_write_idx w < 62 \<and> 0 \<le> mwrite_cnt w \<and>
     (mwrite_cnt w = 0 \<longrightarrow> multi_write_idx w = 0)"

fun ops_ok :: "nat \<Rightarrow> reg_op list \<Rightarrow> bool" where
  \<comment> \<open>no flush without an enable before it\<close>
  "ops_ok n [] = True"
| "ops_ok n (Reg_write r v # ops) = ops_ok n ops"
| "ops_ok n (Enable_write_buffer # ops) = ops_ok (Suc n) ops"
| "ops_ok n (Write_flush # ops) = (0 < n \<and> ops_ok (n - 1) ops)"

fun ops_depth :: "nat \<Rightarrow> reg_op list \<Rightarrow> nat" where
  "ops_depth n [] = n"
| "ops_depth n (Reg_write r v # ops) = ops_depth n ops"
| "ops_depth n (Enable_write_buffer # ops) = ops_depth (Suc n) ops"
| "ops_depth n (Write_flush # ops) = ops_depth (n - 1) ops"

fun ops_writes :: "reg_op list \<Rightarrow> (u32 \<times> u32) list" where
  "ops_writes [] = []"
| "ops_writes (Reg_write r v # ops) = (r, v) # ops_writes ops"
| "ops_writes (Enable_write_buffer # ops) = ops_writes ops"
| "ops_writes (Write_flush # ops) = ops_writes ops"

lemma apply_writes_Nil [simp]: "apply_writes [] m = m"
  by (simp add: apply_writes_def)

lemma apply_writes_Cons [simp]: "apply_writes ((r, v) # ps) m = apply_writes ps (m(r := v))"
  by (simp add: apply_writes_def)

lemma apply_writes_append: "apply_writes (ps @ qs) m = apply_writes qs (apply_writes ps m)"
  by (simp add: apply_writes_def)

lemma be32_list_concat: "be32_list (length vs) (concat (map be32_bytes vs) @ rest) = Some vs"
  by (induction vs) simp_all

lemma length_concat_be32: "length (concat (map be32_bytes rs)) = 4 * length rs"
  by (induction rs) simp_all

lemma take_update_end: "i < length xs \<Longrightarrow> take (Suc i) (xs[i := v]) = take i xs @ [v]"
  by (simp add: take_Suc_conv_app_nth)

locale reg_channel =
  fixes exec :: "'s wmi_exec"
    and ready :: "wmi \<Rightarrow> 's \<Rightarrow> bool"
    and regs :: "'s \<Rightarrow> u32 \<Rightarrow> u32"
  assumes read_cmd: "ready w s \<Longrightarrow> rs \<noteq> [] \<Longrightarrow> length junk = 4 * length rs \<Longrightarrow>
      \<exists>w' s'. exec WMI_REG_READ_CMDID (concat (map be32_bytes rs)) junk w s
                = Some (0, concat (map be32_bytes (map (regs s) rs)), w', s') \<and>
              ready w' s' \<and> regs s' = regs s \<and> wmi_same w w'"
    and write_cmd: "ready w s \<Longrightarrow> ps \<noteq> [] \<Longrightarrow> length junk = 4 \<Longrightarrow>
      \<exists>w' s' rsp. exec WMI_REG_WRITE_CMDID (multi_write_bytes ps) junk w s = Some (0, rsp, w', s') \<and>
              ready w' s' \<and> regs s' = apply_writes ps (regs s) \<and> wmi_same w w'"
    and ready_multi_write [simp]: "ready (w\<lparr>multi_write := mw\<rparr>) s = ready w s"
    and ready_multi_write_idx [simp]: "ready (w\<lparr>multi_write_idx := i\<rparr>) s = ready w s"
    and ready_mwrite_cnt [simp]: "ready (w\<lparr>mwrite_cnt := n\<rparr>) s = ready w s"
begin

definition eff :: "wmi \<Rightarrow> 's \<Rightarrow> u32 \<Rightarrow> u32" where
  \<comment> \<open>the registers as the driver means them: the device's, overlaid by the pending writes\<close>
  "eff w s = apply_writes (pending_writes w) (regs s)"

lemma regread_device:
  assumes "ready w s" and "length junk = 4"
  shows "\<exists>w' s'. ath9k_regread exec junk r w s = Some (regs s r, w', s') \<and>
    ready w' s' \<and> regs s' = regs s \<and> wmi_same w w'"
proof -
  obtain w' s' where x: "exec WMI_REG_READ_CMDID (be32_bytes r) junk w s
      = Some (0, be32_bytes (regs s r), w', s')" and y: "ready w' s'" "regs s' = regs s" "wmi_same w w'"
    using read_cmd [of w s "[r]" junk] assms by auto
  have "get_be32 (be32_bytes (regs s r)) 0 = Some (regs s r)"
    using get_be32_bytes [of "regs s r" "[]"] by simp
  then show ?thesis using x y by (simp add: ath9k_regread_def)
qed

lemma multi_regread_device:
  assumes "ready w s" and "length junk = 32" and "rs \<noteq> []" and "length rs \<le> 8"
  shows "\<exists>w' s'. ath9k_multi_regread exec junk rs w s = Some (map (regs s) rs, w', s') \<and>
    ready w' s' \<and> regs s' = regs s \<and> wmi_same w w'"
proof -
  have "length (take (4 * length rs) junk) = 4 * length rs" using assms(2,4) by simp
  then obtain w' s' where x: "exec WMI_REG_READ_CMDID (concat (map be32_bytes rs)) (take (4 * length rs) junk) w s
      = Some (0, concat (map be32_bytes (map (regs s) rs)), w', s')"
    and y: "ready w' s'" "regs s' = regs s" "wmi_same w w'"
    using read_cmd [OF assms(1,3)] by blast
  have "be32_list (length rs) (concat (map be32_bytes (map (regs s) rs))) = Some (map (regs s) rs)"
    using be32_list_concat [of "map (regs s) rs" "[]"] by simp
  then show ?thesis using x y assms(4) by (simp add: ath9k_multi_regread_def)
qed

lemma send_buffer:
  assumes "ready w s" and "length junk = 4" and "pending_writes w \<noteq> []"
  shows "\<exists>w' s' rsp. exec WMI_REG_WRITE_CMDID (multi_write_bytes (pending_writes w)) junk w s
      = Some (0, rsp, w', s') \<and> ready w' s' \<and> regs s' = eff w s \<and> wmi_same w w'"
  using write_cmd [OF assms(1,3,2)] by (simp add: eff_def)

lemma regwrite_buffer_effect:
  assumes r: "ready w s" and j: "length junk = 4" and inv: "buf_inv w" and on: "mwrite_cnt w \<noteq> 0"
  shows "\<exists>w' s'. ath9k_regwrite_buffer exec junk v r0 w s = Some (w', s') \<and> ready w' s' \<and> buf_inv w' \<and>
    mwrite_cnt w' = mwrite_cnt w \<and> eff w' s' = (eff w s)(r0 := v)"
proof -
  define w1 where "w1 = w\<lparr>multi_write := (multi_write w)[multi_write_idx w := (r0, v)],
                          multi_write_idx := multi_write_idx w + 1\<rparr>"
  have idx: "multi_write_idx w < length (multi_write w)" using inv by (simp add: buf_inv_def)
  have r1: "ready w1 s" using r by (simp add: w1_def)
  have pend: "pending_writes w1 = pending_writes w @ [(r0, v)]"
    using idx by (simp add: w1_def pending_writes_def take_update_end)
  have e1: "eff w1 s = (eff w s)(r0 := v)" by (simp add: eff_def pend apply_writes_append)
  show ?thesis
  proof (cases "multi_write_idx w1 = 62")
    case True
    obtain w' s' rsp where x: "exec WMI_REG_WRITE_CMDID (multi_write_bytes (pending_writes w1)) junk w1 s
      = Some (0, rsp, w', s')" "ready w' s'" "regs s' = eff w1 s" "wmi_same w1 w'"
      using send_buffer [OF r1 j] pend by auto
    have "ath9k_regwrite_buffer exec junk v r0 w s = Some (w'\<lparr>multi_write_idx := 0\<rparr>, s')"
      unfolding ath9k_regwrite_buffer_def Let_def w1_def [symmetric]
      using idx True x(1) by (simp add: pending_writes_def)
    moreover have "buf_inv (w'\<lparr>multi_write_idx := 0\<rparr>)" "mwrite_cnt w' = mwrite_cnt w"
      using x(4) inv by (simp_all add: wmi_same_def buf_inv_def w1_def)
    moreover have "eff (w'\<lparr>multi_write_idx := 0\<rparr>) s' = (eff w s)(r0 := v)"
      using x(3) e1 by (simp add: eff_def pending_writes_def)
    ultimately show ?thesis using x(2) by simp
  next
    case False
    then have "ath9k_regwrite_buffer exec junk v r0 w s = Some (w1, s)"
      unfolding ath9k_regwrite_buffer_def Let_def w1_def [symmetric] using idx by simp
    moreover have "buf_inv w1" "mwrite_cnt w1 = mwrite_cnt w"
      using inv on False by (auto simp: buf_inv_def w1_def)
    ultimately show ?thesis using r1 e1 by simp
  qed
qed

lemma regwrite_effect:
  assumes r: "ready w s" and j: "length junk = 4" and inv: "buf_inv w"
  shows "\<exists>w' s'. ath9k_regwrite exec junk v r0 w s = Some (w', s') \<and> ready w' s' \<and> buf_inv w' \<and>
    mwrite_cnt w' = mwrite_cnt w \<and> eff w' s' = (eff w s)(r0 := v)"
proof (cases "mwrite_cnt w = 0")
  case True
  then have idx: "multi_write_idx w = 0" using inv by (simp add: buf_inv_def)
  obtain w' s' rsp where x: "exec WMI_REG_WRITE_CMDID (be32_bytes r0 @ be32_bytes v) (le32_bytes v) w s
      = Some (0, rsp, w', s')" "ready w' s'" "regs s' = (regs s)(r0 := v)" "wmi_same w w'"
    using write_cmd [OF r, of "[(r0, v)]" "le32_bytes v"] by (auto simp: multi_write_bytes_def)
  then have "ath9k_regwrite exec junk v r0 w s = Some (w', s')"
    using True by (simp add: ath9k_regwrite_def ath9k_regwrite_single_def)
  moreover have "buf_inv w'" "mwrite_cnt w' = mwrite_cnt w"
    using x(4) inv by (simp_all add: wmi_same_def buf_inv_def)
  moreover have "eff w' s' = (eff w s)(r0 := v)"
    using x(3,4) idx by (simp add: eff_def pending_writes_def wmi_same_def)
  ultimately show ?thesis using x(2) by simp
next
  case False
  then show ?thesis
    using regwrite_buffer_effect [OF r j inv False] by (simp add: ath9k_regwrite_def)
qed

lemma flush_effect:
  assumes r: "ready w s" and j: "length junk = 4" and inv: "buf_inv w" and on: "0 < mwrite_cnt w"
  shows "\<exists>w' s'. ath9k_regwrite_flush exec junk w s = Some (w', s') \<and> ready w' s' \<and> buf_inv w' \<and>
    mwrite_cnt w' = mwrite_cnt w - 1 \<and> multi_write_idx w' = 0 \<and> regs s' = eff w s"
proof (cases "multi_write_idx w = 0")
  case True
  then show ?thesis
    using assms by (auto simp: ath9k_regwrite_flush_def buf_inv_def eff_def pending_writes_def)
next
  case False
  define w1 where "w1 = w\<lparr>mwrite_cnt := mwrite_cnt w - 1\<rparr>"
  have r1: "ready w1 s" using r by (simp add: w1_def)
  have p1: "pending_writes w1 = pending_writes w" by (simp add: w1_def pending_writes_def)
  have ne: "pending_writes w1 \<noteq> []"
    using False inv unfolding p1 by (auto simp: pending_writes_def buf_inv_def)
  obtain w' s' rsp where x: "exec WMI_REG_WRITE_CMDID (multi_write_bytes (pending_writes w1)) junk w1 s
      = Some (0, rsp, w', s')" "ready w' s'" "regs s' = eff w1 s" "wmi_same w1 w'"
    using send_buffer [OF r1 j ne] by blast
  have "ath9k_regwrite_flush exec junk w s = Some (w'\<lparr>multi_write_idx := 0\<rparr>, s')"
    using False x(1)
    by (simp add: ath9k_regwrite_flush_def w1_def [symmetric] Let_def pending_writes_def)
      (simp add: w1_def)
  moreover have "buf_inv (w'\<lparr>multi_write_idx := 0\<rparr>)" "mwrite_cnt w' = mwrite_cnt w - 1"
    using x(4) inv on by (simp_all add: wmi_same_def buf_inv_def w1_def)
  ultimately show ?thesis using x(2,3) p1 by (simp add: eff_def)
qed

lemma reg_run_effect:
  assumes "ready w s" and "length junk = 4" and "buf_inv w" and "ops_ok (nat (mwrite_cnt w)) ops"
  shows "\<exists>w' s'. reg_run exec junk ops w s = Some (w', s') \<and> ready w' s' \<and> buf_inv w' \<and>
    mwrite_cnt w' = int (ops_depth (nat (mwrite_cnt w)) ops) \<and>
    eff w' s' = apply_writes (ops_writes ops) (eff w s)"
  using assms
proof (induction ops arbitrary: w s)
  case Nil
  then show ?case by (auto simp: buf_inv_def)
next
  case (Cons op ops)
  show ?case
  proof (cases op)
    case (Reg_write r0 v)
    obtain w1 s1 where a: "ath9k_regwrite exec junk v r0 w s = Some (w1, s1)" "ready w1 s1" "buf_inv w1"
      "mwrite_cnt w1 = mwrite_cnt w" "eff w1 s1 = (eff w s)(r0 := v)"
      using regwrite_effect [OF Cons.prems(1-3)] by blast
    then show ?thesis using Cons.IH [of w1 s1] Cons.prems(2,4) Reg_write by (auto simp del: fun_upd_apply)
  next
    case Enable_write_buffer
    let ?w = "ath9k_enable_regwrite_buffer w"
    have n: "nat (mwrite_cnt ?w) = Suc (nat (mwrite_cnt w))"
      using Cons.prems(3) by (simp add: buf_inv_def ath9k_enable_regwrite_buffer_def nat_add_distrib)
    have "ready ?w s" "buf_inv ?w" "eff ?w s = eff w s"
      using Cons.prems(1,3)
      by (simp_all add: ath9k_enable_regwrite_buffer_def buf_inv_def eff_def pending_writes_def)
    then show ?thesis using Cons.IH [of ?w s] Cons.prems(2,4) Enable_write_buffer n by simp
  next
    case Write_flush
    then have on: "0 < mwrite_cnt w" using Cons.prems(4) by simp
    obtain w1 s1 where a: "ath9k_regwrite_flush exec junk w s = Some (w1, s1)" "ready w1 s1" "buf_inv w1"
      "mwrite_cnt w1 = mwrite_cnt w - 1" "multi_write_idx w1 = 0" "regs s1 = eff w s"
      using flush_effect [OF Cons.prems(1-3) on] by blast
    have "eff w1 s1 = eff w s" "nat (mwrite_cnt w1) = nat (mwrite_cnt w) - 1"
      using a on by (simp_all add: eff_def pending_writes_def)
    then show ?thesis using Cons.IH [of w1 s1] Cons.prems(2,4) Write_flush a by simp
  qed
qed

lemma eff_flushed: "buf_inv w \<Longrightarrow> mwrite_cnt w = 0 \<Longrightarrow> eff w s = regs s"
  by (simp add: buf_inv_def eff_def pending_writes_def)

text \<open>\<open>ath9k_reg_rmw\<close> in both modes.\<close>

lemma rmw_effect:
  assumes "ready w s" and "length junk = 4" and "buf_inv w"
  obtains w' s' where "ath9k_reg_rmw exec junk r sv clr w s = Some ((regs s r AND NOT clr) OR sv, w', s')"
    and "ready w' s'" and "buf_inv w'" and "mwrite_cnt w' = mwrite_cnt w"
    and "eff w' s' = (eff w s)(r := (regs s r AND NOT clr) OR sv)"
proof -
  obtain w1 s1 where a: "ath9k_regread exec junk r w s = Some (regs s r, w1, s1)" "ready w1 s1"
    "regs s1 = regs s" "wmi_same w w1"
    using regread_device [OF assms(1,2)] by blast
  have b: "buf_inv w1" "mwrite_cnt w1 = mwrite_cnt w" "eff w1 s1 = eff w s"
    using a(3,4) assms(3) by (simp_all add: wmi_same_def buf_inv_def eff_def pending_writes_def)
  obtain w' s' where c: "ath9k_regwrite exec junk ((regs s r AND NOT clr) OR sv) r w1 s1 = Some (w', s')"
    "ready w' s'" "buf_inv w'" "mwrite_cnt w' = mwrite_cnt w1"
    "eff w' s' = (eff w1 s1)(r := (regs s r AND NOT clr) OR sv)"
    using regwrite_effect [OF a(2) assms(2) b(1)] by blast
  show thesis
    by (rule that [of w' s']) (use a(1) b c in \<open>simp_all add: ath9k_reg_rmw_def\<close>)
qed

lemma rmw_direct:
  assumes "ready w s" and "length junk = 4" and "buf_inv w" and "mwrite_cnt w = 0"
  shows "\<exists>w' s'. ath9k_reg_rmw exec junk r sv clr w s = Some ((regs s r AND NOT clr) OR sv, w', s') \<and>
    regs s' = (regs s)(r := (regs s r AND NOT clr) OR sv)"
proof -
  obtain w' s' where "ath9k_reg_rmw exec junk r sv clr w s = Some ((regs s r AND NOT clr) OR sv, w', s')"
    and "buf_inv w'" "mwrite_cnt w' = mwrite_cnt w"
    and "eff w' s' = (eff w s)(r := (regs s r AND NOT clr) OR sv)"
    by (rule rmw_effect [OF assms(1-3)])
  then show ?thesis using eff_flushed assms(3,4) by auto
qed

lemma rmw_buffered:
  assumes r: "ready w s" and j: "length junk = 4" and inv: "buf_inv w" and off: "mwrite_cnt w = 0"
  shows "\<exists>w' s'. do {
        (w, s) \<leftarrow> reg_run exec junk [Enable_write_buffer, Reg_write r0 v] w s;
        (x, w, s) \<leftarrow> ath9k_reg_rmw exec junk r0 sv clr w s;
        reg_run exec junk [Write_flush] w s } = Some (w', s') \<and>
      regs s' = (regs s)(r0 := (regs s r0 AND NOT clr) OR sv)"
proof -
  define w1 where "w1 = ath9k_enable_regwrite_buffer w"
  define w2 where "w2 = w1\<lparr>multi_write := (multi_write w1)[0 := (r0, v)], multi_write_idx := 1\<rparr>"
  have idx: "multi_write_idx w1 = 0" "length (multi_write w1) = 62" "mwrite_cnt w1 = 1"
    using inv off by (simp_all add: w1_def ath9k_enable_regwrite_buffer_def buf_inv_def)
  have run1: "reg_run exec junk [Enable_write_buffer, Reg_write r0 v] w s = Some (w2, s)"
    using idx by (simp add: w1_def [symmetric] ath9k_regwrite_def ath9k_regwrite_buffer_def w2_def)
  have r2: "ready w2 s" and inv2: "buf_inv w2" and on2: "mwrite_cnt w2 = 1"
    using r idx by (simp_all add: w2_def w1_def ath9k_enable_regwrite_buffer_def buf_inv_def)
  have e2: "eff w2 s = (regs s)(r0 := v)"
    using idx by (simp add: eff_def pending_writes_def w2_def take_Suc_conv_app_nth)
  obtain w3 s3 where c: "ath9k_reg_rmw exec junk r0 sv clr w2 s = Some ((regs s r0 AND NOT clr) OR sv, w3, s3)"
    "ready w3 s3" "buf_inv w3" "mwrite_cnt w3 = mwrite_cnt w2"
    "eff w3 s3 = (eff w2 s)(r0 := (regs s r0 AND NOT clr) OR sv)"
    by (rule rmw_effect [OF r2 j inv2])
  have on3: "0 < mwrite_cnt w3" using c(4) on2 by simp
  obtain w4 s4 where "ath9k_regwrite_flush exec junk w3 s3 = Some (w4, s4)" "regs s4 = eff w3 s3"
    using flush_effect [OF c(2) j c(3) on3] by blast
  then show ?thesis using run1 c(1,5) e2 by simp
qed

end

section \<open>The channel over WMI, HTC and USB\<close>

text \<open>
  The target's firmware is not part of this repository: \<open>fw c cmd dev\<close> is the response payload and
  the next state of a target in state \<open>dev\<close> that receives command \<open>c\<close>. \<open>fw_regs_ok\<close> is what the
  driver relies on: a read command answers with the registers' values, a write command stores
  its pairs in order and answers with at least a status word.
\<close>

definition fw_regs_ok :: "(u16 \<Rightarrow> bytes \<Rightarrow> 'd \<Rightarrow> bytes \<times> 'd) \<Rightarrow> ('d \<Rightarrow> u32 \<Rightarrow> u32) \<Rightarrow> bool" where
  "fw_regs_ok fw regs \<longleftrightarrow>
     (\<forall>dev rs. rs \<noteq> [] \<longrightarrow> fw WMI_REG_READ_CMDID (concat (map be32_bytes rs)) dev
                        = (concat (map be32_bytes (map (regs dev) rs)), dev)) \<and>
     (\<forall>dev ps. ps \<noteq> [] \<longrightarrow> 4 \<le> length (fst (fw WMI_REG_WRITE_CMDID (multi_write_bytes ps) dev)) \<and>
        regs (snd (fw WMI_REG_WRITE_CMDID (multi_write_bytes ps) dev)) = apply_writes ps (regs dev))"

definition wmi_stack ::
  "(nat \<Rightarrow> usb_answer) \<Rightarrow> (nat \<Rightarrow> sk_buff option) \<Rightarrow> (u16 \<Rightarrow> bytes \<Rightarrow> 'd \<Rightarrow> bytes \<times> 'd) \<Rightarrow>
     (htc_target \<times> hif_device_usb \<times> 'd) wmi_exec" where
  \<comment> \<open>\<open>ath9k_wmi_cmd\<close> on the USB transport: the target answers each command it receives\<close>
  "wmi_stack env alloc fw c cmd junk w s = (case s of (t, d, dev) \<Rightarrow>
     let (rsp, dev') = fw c cmd dev;
         frame = wmi_frame (ctrl_epid w) (4 + word_of_nat (length rsp)) [0, 0, 0, 0] c (tx_seq_id w + 1) rsp
     in do {
       (ret, val, w, t, d', us) \<leftarrow> wmi_call (hif_usb env) alloc False
          [Ev_rx_msg (skb_of_bytes frame) (length frame) USB_REG_IN_PIPE] c (Some cmd) (length cmd) 0 junk w t d;
       Some (ret, val, w, (t, d', dev')) })"

definition wmi_stack_ready ::
  "(nat \<Rightarrow> usb_answer) \<Rightarrow> (nat \<Rightarrow> sk_buff option) \<Rightarrow> (u16 \<Rightarrow> bytes \<Rightarrow> 'd \<Rightarrow> bytes \<times> 'd) \<Rightarrow>
     ('d \<Rightarrow> u32 \<Rightarrow> u32) \<Rightarrow> wmi \<Rightarrow> htc_target \<times> hif_device_usb \<times> 'd \<Rightarrow> bool" where
  "wmi_stack_ready env alloc fw regs w s \<longleftrightarrow>
     alloc_skb_spec alloc \<and> (\<forall>n. alloc n \<noteq> None) \<and> (\<forall>d. regout_answer env d = 0) \<and>
     fw_regs_ok fw regs \<and> wmi_ep_ok (ctrl_epid w) (fst s) \<and> \<not> wmi_stopped w \<and> wmi_cmd_wait w = 0"

definition stack_regs :: "('d \<Rightarrow> u32 \<Rightarrow> u32) \<Rightarrow> htc_target \<times> hif_device_usb \<times> 'd \<Rightarrow> u32 \<Rightarrow> u32" where
  "stack_regs regs s = regs (snd (snd s))"

lemma wmi_stack_exec:
  assumes r: "wmi_stack_ready env alloc fw regs w (t, d, dev)" and c: "\<not> has_flag c 0x1000"
    and f: "fw c cmd dev = (rsp, dev')" and len: "length junk \<le> length rsp"
  shows "\<exists>w' d'. wmi_stack env alloc fw c cmd junk w (t, d, dev)
      = Some (0, take (length junk) rsp, w', (t, d', dev')) \<and>
    wmi_stack_ready env alloc fw regs w' (t, d', dev') \<and> wmi_same w w'"
proof -
  let ?fr = "wmi_frame (ctrl_epid w) (4 + word_of_nat (length rsp)) [0, 0, 0, 0] c (tx_seq_id w + 1) rsp"
  have a: "alloc_skb_spec alloc" "alloc (12 + length cmd) \<noteq> None" "wmi_ep_ok (ctrl_epid w) t"
    "\<not> wmi_stopped w" "regout_answer env d = 0" "wmi_cmd_wait w = 0"
    using r by (simp_all add: wmi_stack_ready_def)
  obtain w' d' us where b: "wmi_call (hif_usb env) alloc False ([] @ [Ev_rx_msg (skb_of_bytes ?fr) (length ?fr)
      USB_REG_IN_PIPE] @ []) c (Some cmd) (length cmd) 0 junk w t d
      = Some (0, take (length junk) rsp, w', t, d', us)" "wmi_cmd_wait w' = 0" "wmi_same w w'"
    using wmi_call_completes [OF a c _ _ wf_skb_of_bytes skb_bytes_of_bytes _ len, where pre = "[]"
        and post = "[]" and n = "length ?fr" and p = USB_REG_IN_PIPE and a = 0
        and len = "4 + word_of_nat (length rsp)" and ctrl = "[0, 0, 0, 0]" and q = "tx_seq_id w + 1"]
    by auto
  then have "wmi_stack env alloc fw c cmd junk w (t, d, dev)
      = Some (0, take (length junk) rsp, w', (t, d', dev'))"
    by (simp add: wmi_stack_def f Let_def)
  moreover have "wmi_stack_ready env alloc fw regs w' (t, d', dev')"
    using r b(2,3) by (simp add: wmi_stack_ready_def wmi_same_def)
  ultimately show ?thesis using b(3) by blast
qed

interpretation rc: reg_channel "wmi_stack env alloc fw" "wmi_stack_ready env alloc fw regs" "stack_regs regs"
  for env alloc fw regs
proof unfold_locales
  fix w s and rs :: "u32 list" and junk :: bytes
  assume r: "wmi_stack_ready env alloc fw regs w s" and rs: "rs \<noteq> []" and j: "length junk = 4 * length rs"
  obtain t d dev where s: "s = (t, d, dev)" by (cases s)
  let ?vals = "concat (map be32_bytes (map (regs dev) rs))"
  have f: "fw 20 (concat (map be32_bytes rs)) dev = (?vals, dev)"
    using r rs by (simp add: wmi_stack_ready_def fw_regs_ok_def)
  have len: "length junk = length ?vals" using j by (simp only: length_concat_be32 length_map)
  show "\<exists>w' s'. wmi_stack env alloc fw 20 (concat (map be32_bytes rs)) junk w s
          = Some (0, concat (map be32_bytes (map (stack_regs regs s) rs)), w', s') \<and>
        wmi_stack_ready env alloc fw regs w' s' \<and> stack_regs regs s' = stack_regs regs s \<and> wmi_same w w'"
    using wmi_stack_exec [OF r [unfolded s] _ f eq_refl [OF len]] len
    by (fastforce simp: s stack_regs_def has_flag_def)
next
  fix w s and ps :: "(u32 \<times> u32) list" and junk :: bytes
  assume r: "wmi_stack_ready env alloc fw regs w s" and ps: "ps \<noteq> []" and j: "length junk = 4"
  obtain t d dev where s: "s = (t, d, dev)" by (cases s)
  obtain rsp dev' where f: "fw 21 (multi_write_bytes ps) dev = (rsp, dev')" by fastforce
  have "4 \<le> length (fst (fw 21 (multi_write_bytes ps) dev)) \<and>
      regs (snd (fw 21 (multi_write_bytes ps) dev)) = apply_writes ps (regs dev)"
    using r ps by (simp add: wmi_stack_ready_def fw_regs_ok_def)
  then have g: "4 \<le> length rsp" "regs dev' = apply_writes ps (regs dev)" by (simp_all add: f)
  have len: "length junk \<le> length rsp" using g(1) j by simp
  show "\<exists>w' s' rsp. wmi_stack env alloc fw 21 (multi_write_bytes ps) junk w s = Some (0, rsp, w', s') \<and>
        wmi_stack_ready env alloc fw regs w' s' \<and> stack_regs regs s' = apply_writes ps (stack_regs regs s) \<and>
        wmi_same w w'"
    using wmi_stack_exec [OF r [unfolded s] _ f len] g(2)
    by (fastforce simp: s stack_regs_def has_flag_def)
qed (simp_all add: wmi_stack_ready_def)

section \<open>Properties\<close>

text \<open>A target with plain registers, for the examples.\<close>

fun pair_up :: "u32 list \<Rightarrow> (u32 \<times> u32) list" where
  "pair_up (r # v # xs) = (r, v) # pair_up xs"
| "pair_up _ = []"

definition ex_fw :: "u16 \<Rightarrow> bytes \<Rightarrow> (u32 \<Rightarrow> u32) \<Rightarrow> bytes \<times> (u32 \<Rightarrow> u32)" where
  "ex_fw c cmd dev = (case be32_list (length cmd div 4) cmd of
     None \<Rightarrow> ([], dev)
   | Some ws \<Rightarrow> if c = WMI_REG_READ_CMDID then (concat (map be32_bytes (map dev ws)), dev)
               else ([0, 0, 0, 0], apply_writes (pair_up ws) dev))"

lemma multi_write_bytes_words:
  "multi_write_bytes ps = concat (map be32_bytes (concat (map (\<lambda>(r, v). [r, v]) ps)))"
  by (induction ps) (auto simp: multi_write_bytes_def)

lemma pair_up_concat: "pair_up (concat (map (\<lambda>(r, v). [r, v]) ps)) = ps"
  by (induction ps) auto

lemma be32_list_exact:
  "be32_list (length (concat (map be32_bytes ws)) div 4) (concat (map be32_bytes ws)) = Some ws"
  using be32_list_concat [of ws "[]"] by (simp add: length_concat_be32 del: length_concat)

lemma ex_fw_ok: "fw_regs_ok ex_fw (\<lambda>dev. dev)"
  unfolding fw_regs_ok_def ex_fw_def multi_write_bytes_words be32_list_exact option.case pair_up_concat
  by simp

lemma ex_stack_ready: "wmi_stack_ready ex_env (ex_alloc 0) ex_fw (\<lambda>dev. dev) ex_wmi (ex_target, ex_dev, dev)"
  by (simp add: wmi_stack_ready_def ex_alloc_spec ex_alloc_some [simplified] ex_answer ex_fw_ok ex_wmi_fields
      ex_wmi_ep [simplified ex_wmi_fields(1)])

lemma ex_buf_inv: "buf_inv ex_wmi" "mwrite_cnt ex_wmi = 0"
  by (simp_all add: buf_inv_def ex_wmi_def)

text \<open>C22: buffered register writes, over the whole stack. For every sequence of register writes in
  which each flush has its enable and all buffering is ended at the end, nested or not and
  however often the 62-entry buffer fills up in between, the sequence returns, the target's
  registers are those that the plain writes in program order give, and a register read
  afterwards returns that value.\<close>

theorem reg_writes_reach_target:
  assumes "wmi_stack_ready env alloc fw regs w (t, d, dev)" and "length junk = 4" and "buf_inv w"
    and "mwrite_cnt w = 0" and "ops_ok 0 ops" and "ops_depth 0 ops = 0"
  shows "\<exists>w' t' d' dev'.
    reg_run (wmi_stack env alloc fw) junk ops w (t, d, dev) = Some (w', (t', d', dev')) \<and>
    regs dev' = apply_writes (ops_writes ops) (regs dev) \<and> multi_write_idx w' = 0 \<and>
    (\<forall>r. \<exists>w'' s''. ath9k_regread (wmi_stack env alloc fw) junk r w' (t', d', dev')
          = Some (apply_writes (ops_writes ops) (regs dev) r, w'', s''))"
proof -
  have ok: "ops_ok (nat (mwrite_cnt w)) ops" using assms(4,5) by simp
  obtain w' s' where run: "reg_run (wmi_stack env alloc fw) junk ops w (t, d, dev) = Some (w', s')"
    and r': "wmi_stack_ready env alloc fw regs w' s'" and inv: "buf_inv w'"
    and cnt: "mwrite_cnt w' = int (ops_depth (nat (mwrite_cnt w)) ops)"
    and e: "rc.eff regs w' s' = apply_writes (ops_writes ops) (rc.eff regs w (t, d, dev))"
    using rc.reg_run_effect [OF assms(1-3) ok] by blast
  have c0: "mwrite_cnt w' = 0" using cnt assms(4,6) by simp
  then have idx: "multi_write_idx w' = 0" using inv by (simp add: buf_inv_def)
  have regs': "stack_regs regs s' = apply_writes (ops_writes ops) (regs dev)"
    using e rc.eff_flushed [OF inv c0, of regs s'] rc.eff_flushed [OF assms(3,4), of regs "(t, d, dev)"]
    by (simp add: stack_regs_def)
  obtain t' d' dev' where s': "s' = (t', d', dev')" by (cases s')
  have "\<forall>r. \<exists>w'' s''. ath9k_regread (wmi_stack env alloc fw) junk r w' s'
          = Some (apply_writes (ops_writes ops) (regs dev) r, w'', s'')"
    using rc.regread_device [OF r' assms(2)] regs' by metis
  then show ?thesis using run idx regs' unfolding s' by (simp add: stack_regs_def)
qed

theorem reg_writes_reach_target_witness:
  "\<exists>w' t' d'. reg_run (wmi_stack ex_env (ex_alloc 0) ex_fw) [0, 0, 0, 0]
       [Enable_write_buffer, Reg_write 0x8000 5, Reg_write 0x8004 6, Write_flush, Reg_write 0x8000 7]
       ex_wmi (ex_target, ex_dev, \<lambda>_. 0)
     = Some (w', (t', d', (\<lambda>_. 0)(0x8000 := 7, 0x8004 := 6)))"
  using reg_writes_reach_target [OF ex_stack_ready [of "\<lambda>_. 0"] _ ex_buf_inv, of "[0, 0, 0, 0]"
      "[Enable_write_buffer, Reg_write 0x8000 5, Reg_write 0x8004 6, Write_flush, Reg_write 0x8000 7]"]
  by (auto simp: fun_upd_twist)

text \<open>Read-modify-write. Outside buffering \<open>ath9k_reg_rmw\<close> updates the register it read. While
  writes are buffered the read bypasses the buffer: a value written to the same register before
  it and not yet flushed is lost.\<close>

theorem reg_rmw_effect:
  assumes "wmi_stack_ready env alloc fw regs w s" and "length junk = 4" and "buf_inv w"
    and "mwrite_cnt w = 0" and "new = (stack_regs regs s r AND NOT clr) OR sv"
  shows "(\<exists>w' s'. ath9k_reg_rmw (wmi_stack env alloc fw) junk r sv clr w s = Some (new, w', s') \<and>
        stack_regs regs s' = (stack_regs regs s)(r := new)) \<and>
      (\<exists>w' s'. do {
        (w, s) \<leftarrow> reg_run (wmi_stack env alloc fw) junk [Enable_write_buffer, Reg_write r v] w s;
        (x, w, s) \<leftarrow> ath9k_reg_rmw (wmi_stack env alloc fw) junk r sv clr w s;
        reg_run (wmi_stack env alloc fw) junk [Write_flush] w s } = Some (w', s') \<and>
        stack_regs regs s' = (stack_regs regs s)(r := new))"
  unfolding assms(5)
  by (rule conjI [OF rc.rmw_direct [OF assms(1-4)] rc.rmw_buffered [OF assms(1-4)]])


theorem reg_rmw_effect_witness:
  "\<exists>w' s'. do {
        (w, s) \<leftarrow> reg_run (wmi_stack ex_env (ex_alloc 0) ex_fw) [0, 0, 0, 0]
                    [Enable_write_buffer, Reg_write 0x8000 5] ex_wmi (ex_target, ex_dev, \<lambda>_. 0);
        (x, w, s) \<leftarrow> ath9k_reg_rmw (wmi_stack ex_env (ex_alloc 0) ex_fw) [0, 0, 0, 0] 0x8000 2 0 w s;
        reg_run (wmi_stack ex_env (ex_alloc 0) ex_fw) [0, 0, 0, 0] [Write_flush] w s } = Some (w', s') \<and>
     stack_regs (\<lambda>dev. dev) s' 0x8000 = 2"
  using reg_rmw_effect [OF ex_stack_ready [of "\<lambda>_. 0"] _ ex_buf_inv refl, of "[0, 0, 0, 0]" "0x8000" 2 0 5]
  by (auto simp: stack_regs_def)

text \<open>C23: connecting the services. On a target without connected services that grants every request
  with an endpoint of its own, \<open>ath9k_init_htc_services\<close> returns 0; the nine services sit on
  exactly the endpoints the target chose, each with its pipes and callbacks, the endpoint
  numbers are stored in the driver's fields, no slot reserved for a request stays occupied, and
  the credits are those of the chip.\<close>

theorem init_services_connected:
  assumes "alloc_skb_spec alloc" and "\<forall>n. alloc n \<noteq> None" and "\<forall>d. regout_answer env d = 0"
    and "svc_table ep_of [] t" and "ep_map_ok ep_of"
  shows "\<exists>t' d' us.
    ath9k_init_htc_services (hif_usb env) alloc (conn_answer ep_of ml) [Ev_txcompletion c1 ok1]
        [Ev_txcompletion c2 ok2] is7010 w p t d
      = Some (0, w\<lparr>ctrl_epid := unat (ep_of WMI_CONTROL_SVC)\<rparr>,
          \<lparr>wmi_cmd_ep = uint (ep_of WMI_CONTROL_SVC), beacon_ep = uint (ep_of WMI_BEACON_SVC),
           cab_ep = uint (ep_of WMI_CAB_SVC), uapsd_ep = uint (ep_of WMI_UAPSD_SVC),
           mgmt_ep = uint (ep_of WMI_MGMT_SVC), data_be_ep = uint (ep_of WMI_DATA_BE_SVC),
           data_bk_ep = uint (ep_of WMI_DATA_BK_SVC), data_vi_ep = uint (ep_of WMI_DATA_VI_SVC),
           data_vo_ep = uint (ep_of WMI_DATA_VO_SVC)\<rparr>, t', d', us) \<and>
    svc_table ep_of (rev (plan_svcs service_plan) @ [(WMI_CONTROL_SVC, req_ep_callbacks wmi_connreq)]) t' \<and>
    credits t' = (if is7010 then 45 else 33)"
proof -
  have d: "distinct (map ep_of htc_services)" and b: "\<And>sid. sid \<in> set htc_services \<Longrightarrow>
      0 < unat (ep_of sid) \<and> unat (ep_of sid) < ENDPOINT_MAX \<and> sid \<notin> {0, HTC_CTRL_RSVD_SVC}"
    using assms(5) by (auto simp: ep_map_ok_def htc_services_list service_ids)
  have al: "alloc 18 \<noteq> None" "alloc 58 \<noteq> None" and acc: "regout_answer env d = 0" using assms(2,3) by simp_all
  let ?c = WMI_CONTROL_SVC
  have req: "req_service_id wmi_connreq = ?c" by (simp add: wmi_connreq_def)
  have c: "?c \<in> set htc_services" by (simp add: htc_services_def)
  obtain t1 d1 us where call: "htc_connect_service (hif_usb env) alloc (conn_answer ep_of ml ?c) wmi_connreq t d
       = Some (0, Some (uint (ep_of ?c)), t1, d1, us)"
    and t1: "svc_table ep_of [(?c, req_ep_callbacks wmi_connreq)] t1"
    by (rule svc_table_connect [OF assms(1) al(1) acc assms(4), of wmi_connreq ml, unfolded req])
      (use b [OF c] in auto)
  have wc: "ath9k_wmi_connect (hif_usb env) alloc (conn_answer ep_of ml ?c) w t d
       = Some (0, Some (unat (ep_of ?c)), w\<lparr>ctrl_epid := unat (ep_of ?c)\<rparr>, t1, d1, us)"
    by (simp add: ath9k_wmi_connect_def call Let_def)
  let ?p = "p\<lparr>wmi_cmd_ep := int (unat (ep_of ?c))\<rparr>"
  have len: "length [(?c, req_ep_callbacks wmi_connreq)] + length service_plan \<le> 21"
    by (simp add: service_plan_def)
  have dist: "distinct (map ep_of (map fst service_plan @ map fst [(?c, req_ep_callbacks wmi_connreq)]))"
    using d by (auto simp: htc_services_def)
  have plan: "\<forall>sid \<in> fst ` set service_plan. sid \<notin> {0, HTC_CTRL_RSVD_SVC} \<and> 0 < unat (ep_of sid) \<and>
      unat (ep_of sid) < ENDPOINT_MAX"
    using b by (auto simp: htc_services_def)
  obtain t2 d2 vs where c2: "connect_services (hif_usb env) alloc (conn_answer ep_of ml) service_plan ?p t1 d1
      = Some (0, fold (\<lambda>(sid, tx, f) p. f (uint (ep_of sid)) p) service_plan ?p, t2, d2, vs)"
    and t2: "svc_table ep_of (rev (plan_svcs service_plan) @ [(?c, req_ep_callbacks wmi_connreq)]) t2"
    using connect_services_granted [OF assms(1) al(1) assms(3) t1 len dist plan] by blast
  define t3 where "t3 = t2\<lparr>credits := (if is7010 then 45 else 33)\<rparr>"
  have t3: "svc_table ep_of (rev (plan_svcs service_plan) @ [(?c, req_ep_callbacks wmi_connreq)]) t3"
    using t2 by (simp add: t3_def svc_table_def ep_serves_def htc_wf_def)
  then have t3f: "htc_wf t3" "ul_pipeid (endpoint t3 ! 0) = control_ul_pipe (hif_usb env)" "htc_flags t3 = 0"
    "cmd_wait t3 = 0" by (simp_all add: svc_table_def hif_usb_def)
  obtain d3 ws where init: "htc_init (hif_usb env) alloc [Ev_txcompletion c1 ok1] [Ev_txcompletion c2 ok2] t3 d2
      = Some (0, t3, d3, ws)"
    using hu.htc_init_completes [OF assms(1) al(2) TrueI t3f, where h = d2 and ?c1.0 = c1 and ?ok1.0 = ok1 and ?c2.0 = c2 and ?ok2.0 = ok2]
      assms(3) by auto
  have "ath9k_init_htc_services (hif_usb env) alloc (conn_answer ep_of ml) [Ev_txcompletion c1 ok1]
        [Ev_txcompletion c2 ok2] is7010 w p t d
      = Some (0, w\<lparr>ctrl_epid := unat (ep_of ?c)\<rparr>, fold (\<lambda>(sid, tx, f) p. f (uint (ep_of sid)) p) service_plan ?p,
          t3, d3, us @ vs @ ws)"
    unfolding ath9k_init_htc_services_def wc bind.simps case_prod_conv Let_def option.case c2
      t3_def [symmetric] by (simp add: init)
  moreover have "credits t3 = (if is7010 then 45 else 33)" by (simp add: t3_def)
  ultimately show ?thesis using t3 by (simp add: service_plan_def)
qed

definition ex_ep_of :: "u16 \<Rightarrow> u8" where
  "ex_ep_of sid = ucast (sid AND 0xff) + 1"

theorem init_services_connected_witness:
  "\<forall>p. \<exists>w' p' t' d' us.
    ath9k_init_htc_services (hif_usb ex_env) (ex_alloc 0) (conn_answer ex_ep_of (\<lambda>_. 1000))
      [Ev_txcompletion ex_reg_skb True] [Ev_txcompletion ex_reg_skb True] False ex_wmi p ex_target0 ex_dev
      = Some (0, w', p', t', d', us) \<and> ctrl_epid w' = 1 \<and> data_vo_ep p' = 6 \<and> credits t' = 33"
proof -
  have t: "svc_table ex_ep_of [] ex_target0"
    using ex_target0_facts ex_target0_unused by (simp add: svc_table_def)
  have m: "ep_map_ok ex_ep_of"
    by (simp add: ep_map_ok_def htc_services_list ex_ep_of_def)
  have a: "\<forall>n. ex_alloc 0 n \<noteq> None" "\<forall>d. regout_answer ex_env d = 0"
    using ex_alloc_some ex_answer by blast+
  show ?thesis
  proof
    fix p
    show "\<exists>w' p' t' d' us.
    ath9k_init_htc_services (hif_usb ex_env) (ex_alloc 0) (conn_answer ex_ep_of (\<lambda>_. 1000))
      [Ev_txcompletion ex_reg_skb True] [Ev_txcompletion ex_reg_skb True] False ex_wmi p ex_target0 ex_dev
      = Some (0, w', p', t', d', us) \<and> ctrl_epid w' = 1 \<and> data_vo_ep p' = 6 \<and> credits t' = 33"
      using init_services_connected [OF ex_alloc_spec a t m, of "\<lambda>_. 1000" ex_reg_skb True ex_reg_skb True False
          ex_wmi p ex_dev]
      by (auto simp: ex_ep_of_def service_ids)
  qed
qed

end
