(* ===== verification/Ath_Hw.thy ===== *)
theory Ath_Hw
  imports Htc_Drv_Init
begin

text \<open>
  The part of \<open>struct ath_common\<close> that the shared hardware code uses (\<open>ath/ath.h\<close>), the register
  operations behind \<open>common->ops\<close>, and \<open>ath/hw.c\<close>: the BSSID mask and the cycle counters.

  The hardware code reaches registers through the function pointers of \<open>struct ath_ops\<close>, so its
  definitions take them as a record. The locale \<open>ath_regs\<close> states what register operations
  promise, with buffered writes; the operations that \<open>ath9k_htc\<close> installs are shown to keep it.
\<close>

section \<open>Data\<close>

record 's ath_ops =
  op_read :: "u32 \<Rightarrow> 's \<Rightarrow> (u32 \<times> 's) option"
  op_write :: "u32 \<Rightarrow> u32 \<Rightarrow> 's \<Rightarrow> 's option"
  op_enable_write_buffer :: "('s \<Rightarrow> 's option) option"
  op_write_flush :: "('s \<Rightarrow> 's option) option"
  op_rmw :: "u32 \<Rightarrow> u32 \<Rightarrow> u32 \<Rightarrow> 's \<Rightarrow> (u32 \<times> 's) option"

record ath_cycle_counters =
  cycles :: u32
  rx_busy :: u32
  rx_frame :: u32
  tx_frame :: u32

record ath_common =
  bssidmask :: bytes
  keymax :: nat
  keymap :: bitmap
  tkip_keymap :: bitmap
  ccmp_keymap :: bitmap
  crypt_caps :: u32
  clockrate :: u32
  cc_ani :: ath_cycle_counters
  cc_survey :: ath_cycle_counters

abbreviation (input) ATH_CRYPT_CAP_CIPHER_AESCCM :: u32 where "ATH_CRYPT_CAP_CIPHER_AESCCM \<equiv> 1"
abbreviation (input) ATH_CRYPT_CAP_MIC_COMBINED :: u32 where "ATH_CRYPT_CAP_MIC_COMBINED \<equiv> 2"
abbreviation (input) AR_MIBC :: u32 where "AR_MIBC \<equiv> 0x0040"
abbreviation (input) AR_MIBC_FMC :: u32 where "AR_MIBC_FMC \<equiv> 2"
abbreviation (input) AR_BSSMSKL :: u32 where "AR_BSSMSKL \<equiv> 0x80e0"
abbreviation (input) AR_BSSMSKU :: u32 where "AR_BSSMSKU \<equiv> 0x80e4"
abbreviation (input) AR_TFCNT :: u32 where "AR_TFCNT \<equiv> 0x80ec"
abbreviation (input) AR_RFCNT :: u32 where "AR_RFCNT \<equiv> 0x80f0"
abbreviation (input) AR_RCCNT :: u32 where "AR_RCCNT \<equiv> 0x80f4"
abbreviation (input) AR_CCCNT :: u32 where "AR_CCCNT \<equiv> 0x80f8"

section \<open>Operations\<close>

definition ENABLE_REGWRITE_BUFFER :: "'s ath_ops \<Rightarrow> 's \<Rightarrow> 's option" where
  "ENABLE_REGWRITE_BUFFER ops s =
     (case op_enable_write_buffer ops of None \<Rightarrow> Some s | Some f \<Rightarrow> f s)"

definition REGWRITE_BUFFER_FLUSH :: "'s ath_ops \<Rightarrow> 's \<Rightarrow> 's option" where
  "REGWRITE_BUFFER_FLUSH ops s = (case op_write_flush ops of None \<Rightarrow> Some s | Some f \<Rightarrow> f s)"

fun REG_WRITES :: "'s ath_ops \<Rightarrow> (u32 \<times> u32) list \<Rightarrow> 's \<Rightarrow> 's option" where
  \<comment> \<open>consecutive \<open>REG_WRITE(ah, reg, val)\<close>\<close>
  "REG_WRITES ops [] s = Some s"
| "REG_WRITES ops ((reg, val) # ps) s = op_write ops val reg s \<bind> REG_WRITES ops ps"

definition ath_hw_setbssidmask :: "'s ath_ops \<Rightarrow> ath_common \<Rightarrow> 's \<Rightarrow> 's option" where
  "ath_hw_setbssidmask ops common s = do {
     lo \<leftarrow> get_le32 (bssidmask common) 0;
     hi \<leftarrow> get_le16 (bssidmask common) 4;
     REG_WRITES ops [(AR_BSSMSKL, lo), (AR_BSSMSKU, ucast hi)] s }"

definition cc_add :: "ath_cycle_counters \<Rightarrow> u32 \<Rightarrow> u32 \<Rightarrow> u32 \<Rightarrow> u32 \<Rightarrow> ath_cycle_counters" where
  "cc_add cc c busy rx tx =
     \<lparr>cycles = cycles cc + c, rx_busy = rx_busy cc + busy, rx_frame = rx_frame cc + rx,
      tx_frame = tx_frame cc + tx\<rparr>"

definition ath_hw_cycle_counters_update ::
  "'s ath_ops \<Rightarrow> ath_common \<Rightarrow> 's \<Rightarrow> (ath_common \<times> 's) option" where
  "ath_hw_cycle_counters_update ops common s = do {
     s \<leftarrow> REG_WRITES ops [(AR_MIBC, AR_MIBC_FMC)] s;
     (c, s) \<leftarrow> op_read ops AR_CCCNT s;
     (busy, s) \<leftarrow> op_read ops AR_RCCNT s;
     (rx, s) \<leftarrow> op_read ops AR_RFCNT s;
     (tx, s) \<leftarrow> op_read ops AR_TFCNT s;
     s \<leftarrow> REG_WRITES ops [(AR_CCCNT, 0), (AR_RFCNT, 0), (AR_RCCNT, 0), (AR_TFCNT, 0)] s;
     s \<leftarrow> REG_WRITES ops [(AR_MIBC, 0)] s;
     Some (common\<lparr>cc_ani := cc_add (cc_ani common) c busy rx tx,
                  cc_survey := cc_add (cc_survey common) c busy rx tx\<rparr>, s) }"

definition ath_hw_get_listen_time :: "ath_common \<Rightarrow> (int \<times> ath_common) option" where
  \<comment> \<open>unsigned arithmetic, the quotient converted to \<open>int32_t\<close>; a zero divisor is a fault\<close>
  "ath_hw_get_listen_time common =
     (let cc = cc_ani common; divisor = clockrate common * 1000 in
      if divisor = 0 then None
      else Some (sint ((cycles cc - rx_frame cc - tx_frame cc) div divisor),
                 common\<lparr>cc_ani := \<lparr>cycles = 0, rx_busy = 0, rx_frame = 0, tx_frame = 0\<rparr>\<rparr>))"

text \<open>The operations \<open>ath9k_htc\<close> installs (\<open>ath9k_init_priv\<close>).\<close>

definition htc_ops :: "'s wmi_exec \<Rightarrow> bytes \<Rightarrow> (wmi \<times> 's) ath_ops" where
  "htc_ops exec junk = \<lparr>
     op_read = (\<lambda>reg (w, s). map_option (\<lambda>(v, w, s). (v, (w, s))) (ath9k_regread exec junk reg w s)),
     op_write = (\<lambda>val reg (w, s). ath9k_regwrite exec junk val reg w s),
     op_enable_write_buffer = Some (\<lambda>(w, s). Some (ath9k_enable_regwrite_buffer w, s)),
     op_write_flush = Some (\<lambda>(w, s). ath9k_regwrite_flush exec junk w s),
     op_rmw = (\<lambda>reg sv clr (w, s).
       map_option (\<lambda>(v, w, s). (v, (w, s))) (ath9k_reg_rmw exec junk reg sv clr w s))\<rparr>"

section \<open>What the hardware code relies on\<close>

locale ath_regs =
  fixes ops :: "'s ath_ops"
    and ok :: "'s \<Rightarrow> bool"
    and depth :: "'s \<Rightarrow> nat"
    and mem :: "'s \<Rightarrow> u32 \<Rightarrow> u32"
  assumes read_op: "ok s \<Longrightarrow> depth s = 0 \<Longrightarrow>
      \<exists>s'. op_read ops r s = Some (mem s r, s') \<and> ok s' \<and> depth s' = 0 \<and> mem s' = mem s"
    and write_op: "ok s \<Longrightarrow>
      \<exists>s'. op_write ops v r s = Some s' \<and> ok s' \<and> depth s' = depth s \<and> mem s' = (mem s)(r := v)"
    and enable_op: "ok s \<Longrightarrow>
      \<exists>s'. ENABLE_REGWRITE_BUFFER ops s = Some s' \<and> ok s' \<and> depth s' = Suc (depth s) \<and> mem s' = mem s"
    and flush_op: "ok s \<Longrightarrow> depth s = Suc n \<Longrightarrow>
      \<exists>s'. REGWRITE_BUFFER_FLUSH ops s = Some s' \<and> ok s' \<and> depth s' = n \<and> mem s' = mem s"
begin

lemma reg_writes:
  "ok s \<Longrightarrow> \<exists>s'. REG_WRITES ops ps s = Some s' \<and> ok s' \<and> depth s' = depth s \<and>
     mem s' = apply_writes ps (mem s)"
proof (induction ps arbitrary: s)
  case (Cons p ps)
  obtain r v where p: "p = (r, v)" by (cases p)
  obtain s1 where s1: "op_write ops v r s = Some s1" "ok s1" "depth s1 = depth s" "mem s1 = (mem s)(r := v)"
    using write_op [OF Cons.prems] by blast
  show ?case using Cons.IH [OF s1(2)] s1(1,3) unfolding s1(4) by (simp add: p del: fun_upd_apply)
qed simp

text \<open>A group of writes between enable and flush.\<close>

lemma buffered_writes:
  assumes "ok s"
  obtains s1 s2 s3 where "ENABLE_REGWRITE_BUFFER ops s = Some s1" and "REG_WRITES ops ps s1 = Some s2"
    and "REGWRITE_BUFFER_FLUSH ops s2 = Some s3" and "ok s3" and "depth s3 = depth s"
    and "mem s3 = apply_writes ps (mem s)"
proof -
  obtain s1 where s1: "ENABLE_REGWRITE_BUFFER ops s = Some s1" "ok s1" "depth s1 = Suc (depth s)" "mem s1 = mem s"
    using enable_op [OF assms] by blast
  obtain s2 where s2: "REG_WRITES ops ps s1 = Some s2" "ok s2" "depth s2 = depth s1"
    "mem s2 = apply_writes ps (mem s1)" using reg_writes [OF s1(2)] by blast
  obtain s3 where s3: "REGWRITE_BUFFER_FLUSH ops s2 = Some s3" "ok s3" "depth s3 = depth s" "mem s3 = mem s2"
    using flush_op [OF s2(2)] s1(3) s2(3) by metis
  show thesis by (rule that [OF s1(1) s2(1) s3(1-3)]) (simp add: s3(4) s2(4) s1(4))
qed

lemma setbssidmask_mem:
  assumes "ok s" and "bssidmask common = le32_bytes lo @ le16_bytes hi"
  shows "\<exists>s'. ath_hw_setbssidmask ops common s = Some s' \<and> ok s' \<and>
    mem s' = (mem s)(AR_BSSMSKL := lo, AR_BSSMSKU := ucast hi)"
proof -
  have "get_le16 (le32_bytes lo @ le16_bytes hi) 4 = Some hi"
    using get_le16_append2 [of "le32_bytes lo" "le16_bytes hi" 0] get_le16_bytes [of hi "[]"] by simp
  then show ?thesis
    using reg_writes [OF assms(1), of "[(AR_BSSMSKL, lo), (AR_BSSMSKU, ucast hi)]"] assms(2)
    by (auto simp: ath_hw_setbssidmask_def)
qed

end

definition htc_ops_mem :: "('d \<Rightarrow> u32 \<Rightarrow> u32) \<Rightarrow> wmi \<times> htc_target \<times> hif_device_usb \<times> 'd \<Rightarrow> u32 \<Rightarrow> u32" where
  "htc_ops_mem regs s = apply_writes (pending_writes (fst s)) (stack_regs regs (snd s))"

definition htc_ops_ok ::
  "(nat \<Rightarrow> usb_answer) \<Rightarrow> (nat \<Rightarrow> sk_buff option) \<Rightarrow> (u16 \<Rightarrow> bytes \<Rightarrow> 'd \<Rightarrow> bytes \<times> 'd) \<Rightarrow>
     ('d \<Rightarrow> u32 \<Rightarrow> u32) \<Rightarrow> bytes \<Rightarrow> wmi \<times> htc_target \<times> hif_device_usb \<times> 'd \<Rightarrow> bool" where
  "htc_ops_ok env alloc fw regs junk s \<longleftrightarrow>
     length junk = 4 \<and> buf_inv (fst s) \<and> wmi_stack_ready env alloc fw regs (fst s) (snd s)"

definition htc_ops_depth :: "wmi \<times> 's \<Rightarrow> nat" where
  "htc_ops_depth s = nat (mwrite_cnt (fst s))"

lemma htc_ops_mem_flushed:
  "buf_inv w \<Longrightarrow> mwrite_cnt w = 0 \<Longrightarrow> htc_ops_mem regs (w, s) = stack_regs regs s"
  by (simp add: htc_ops_mem_def buf_inv_def pending_writes_def)

lemma htc_ops_mem_device:
  "htc_ops_ok env alloc fw regs junk s \<Longrightarrow> htc_ops_depth s = 0 \<Longrightarrow> htc_ops_mem regs s = stack_regs regs (snd s)"
  using htc_ops_mem_flushed [of "fst s" regs "snd s"]
  by (simp add: htc_ops_ok_def htc_ops_depth_def buf_inv_def)

interpretation ho: ath_regs "htc_ops (wmi_stack env alloc fw) junk" "htc_ops_ok env alloc fw regs junk"
  htc_ops_depth "htc_ops_mem regs" for env alloc fw regs junk
proof unfold_locales
  fix s :: "wmi \<times> htc_target \<times> hif_device_usb \<times> 'a" and r
  assume a: "htc_ops_ok env alloc fw regs junk s" and d: "htc_ops_depth s = 0"
  obtain w x where s: "s = (w, x)" by (cases s)
  have a': "wmi_stack_ready env alloc fw regs w x" "length junk = 4" "buf_inv w"
    using a by (simp_all add: s htc_ops_ok_def)
  have c: "mwrite_cnt w = 0" using d a'(3) by (simp add: s htc_ops_depth_def buf_inv_def)
  obtain w' x' where b: "ath9k_regread (wmi_stack env alloc fw) junk r w x = Some (stack_regs regs x r, w', x')"
    "wmi_stack_ready env alloc fw regs w' x'" "stack_regs regs x' = stack_regs regs x" "wmi_same w w'"
    using rc.regread_device [OF a'(1,2)] by blast
  have i: "buf_inv w'" "mwrite_cnt w' = 0" using b(4) a'(3) c by (simp_all add: wmi_same_def buf_inv_def)
  show "\<exists>s'. op_read (htc_ops (wmi_stack env alloc fw) junk) r s = Some (htc_ops_mem regs s r, s') \<and>
      htc_ops_ok env alloc fw regs junk s' \<and> htc_ops_depth s' = 0 \<and> htc_ops_mem regs s' = htc_ops_mem regs s"
    using b a' i c
    by (simp add: s htc_ops_def htc_ops_ok_def htc_ops_depth_def htc_ops_mem_flushed)
next
  fix s :: "wmi \<times> htc_target \<times> hif_device_usb \<times> 'a" and v r
  assume a: "htc_ops_ok env alloc fw regs junk s"
  obtain w x where s: "s = (w, x)" by (cases s)
  have a': "wmi_stack_ready env alloc fw regs w x" "length junk = 4" "buf_inv w"
    using a by (simp_all add: s htc_ops_ok_def)
  obtain w' x' where "ath9k_regwrite (wmi_stack env alloc fw) junk v r w x = Some (w', x')"
    "wmi_stack_ready env alloc fw regs w' x'" "buf_inv w'" "mwrite_cnt w' = mwrite_cnt w"
    "rc.eff regs w' x' = (rc.eff regs w x)(r := v)"
    using rc.regwrite_effect [OF a'] by blast
  then show "\<exists>s'. op_write (htc_ops (wmi_stack env alloc fw) junk) v r s = Some s' \<and>
      htc_ops_ok env alloc fw regs junk s' \<and> htc_ops_depth s' = htc_ops_depth s \<and>
      htc_ops_mem regs s' = (htc_ops_mem regs s)(r := v)"
    using a'(2) by (simp add: s htc_ops_def htc_ops_ok_def htc_ops_depth_def htc_ops_mem_def rc.eff_def)
next
  fix s :: "wmi \<times> htc_target \<times> hif_device_usb \<times> 'a"
  assume a: "htc_ops_ok env alloc fw regs junk s"
  obtain w x where s: "s = (w, x)" by (cases s)
  show "\<exists>s'. ENABLE_REGWRITE_BUFFER (htc_ops (wmi_stack env alloc fw) junk) s = Some s' \<and>
      htc_ops_ok env alloc fw regs junk s' \<and> htc_ops_depth s' = Suc (htc_ops_depth s) \<and>
      htc_ops_mem regs s' = htc_ops_mem regs s"
    using a by (simp add: s htc_ops_def ENABLE_REGWRITE_BUFFER_def htc_ops_ok_def htc_ops_depth_def
        htc_ops_mem_def ath9k_enable_regwrite_buffer_def buf_inv_def pending_writes_def nat_add_distrib)
next
  fix s :: "wmi \<times> htc_target \<times> hif_device_usb \<times> 'a" and n
  assume a: "htc_ops_ok env alloc fw regs junk s" and d: "htc_ops_depth s = Suc n"
  obtain w x where s: "s = (w, x)" by (cases s)
  have a': "wmi_stack_ready env alloc fw regs w x" "length junk = 4" "buf_inv w"
    using a by (simp_all add: s htc_ops_ok_def)
  have on: "0 < mwrite_cnt w" using d by (simp add: s htc_ops_depth_def)
  obtain w' x' where "ath9k_regwrite_flush (wmi_stack env alloc fw) junk w x = Some (w', x')"
    "wmi_stack_ready env alloc fw regs w' x'" "buf_inv w'" "mwrite_cnt w' = mwrite_cnt w - 1"
    "multi_write_idx w' = 0" "stack_regs regs x' = rc.eff regs w x"
    using rc.flush_effect [OF a' on] by blast
  then show "\<exists>s'. REGWRITE_BUFFER_FLUSH (htc_ops (wmi_stack env alloc fw) junk) s = Some s' \<and>
      htc_ops_ok env alloc fw regs junk s' \<and> htc_ops_depth s' = n \<and> htc_ops_mem regs s' = htc_ops_mem regs s"
    using a'(2) d by (simp add: s htc_ops_def REGWRITE_BUFFER_FLUSH_def htc_ops_ok_def htc_ops_depth_def
        htc_ops_mem_def rc.eff_def pending_writes_def)
qed

end
