(* ===== verification/Key_Cache.thy ===== *)
theory Key_Cache
  imports Ath_Hw
begin

text \<open>
  The hardware key cache (\<open>ath/key.c\<close>): choosing a slot, writing a key with its MAC address and
  Michael keys into the key table registers, and deleting it again.

  Slots in use are the bits of \<open>keymap\<close>; a TKIP key takes the slot \<open>i\<close> and \<open>i + 64\<close>, and on hardware
  with separate Michael entries \<open>i + 32\<close> and \<open>i + 96\<close> as well. \<open>hk\<close> keeps \<open>kv_val\<close>, \<open>kv_mic\<close> and
  \<open>kv_txmic\<close> as the 32 consecutive bytes they are in \<open>struct ath_keyval\<close>, because the copy of a
  32-byte TKIP key runs over all three.
\<close>

section \<open>Data\<close>

datatype ath_cipher =
    ATH_CIPHER_WEP | ATH_CIPHER_AES_OCB | ATH_CIPHER_AES_CCM | ATH_CIPHER_CKIP | ATH_CIPHER_TKIP
  | ATH_CIPHER_CLR | ATH_CIPHER_MIC

record ath_keyval =
  kv_type :: ath_cipher
  kv_len :: nat
  kv_bytes :: bytes

record ieee80211_key_conf =
  key_cipher :: u32
  hw_key_idx :: nat
  key_pairwise :: bool
  keyidx :: int
  key_bytes :: bytes

datatype nl80211_iftype =
    IFTYPE_UNSPECIFIED | IFTYPE_ADHOC | IFTYPE_STATION | IFTYPE_AP | IFTYPE_AP_VLAN | IFTYPE_WDS
  | IFTYPE_MONITOR | IFTYPE_MESH_POINT | IFTYPE_P2P_CLIENT | IFTYPE_P2P_GO | IFTYPE_P2P_DEVICE

abbreviation (input) WLAN_CIPHER_SUITE_WEP40 :: u32 where "WLAN_CIPHER_SUITE_WEP40 \<equiv> 0x000FAC01"
abbreviation (input) WLAN_CIPHER_SUITE_TKIP :: u32 where "WLAN_CIPHER_SUITE_TKIP \<equiv> 0x000FAC02"
abbreviation (input) WLAN_CIPHER_SUITE_CCMP :: u32 where "WLAN_CIPHER_SUITE_CCMP \<equiv> 0x000FAC04"
abbreviation (input) WLAN_CIPHER_SUITE_WEP104 :: u32 where "WLAN_CIPHER_SUITE_WEP104 \<equiv> 0x000FAC05"

abbreviation (input) IEEE80211_WEP_NKID :: nat where "IEEE80211_WEP_NKID \<equiv> 4"

abbreviation (input) AR_KEYTABLE_TYPE_40 :: u32 where "AR_KEYTABLE_TYPE_40 \<equiv> 0"
abbreviation (input) AR_KEYTABLE_TYPE_104 :: u32 where "AR_KEYTABLE_TYPE_104 \<equiv> 1"
abbreviation (input) AR_KEYTABLE_TYPE_128 :: u32 where "AR_KEYTABLE_TYPE_128 \<equiv> 3"
abbreviation (input) AR_KEYTABLE_TYPE_TKIP :: u32 where "AR_KEYTABLE_TYPE_TKIP \<equiv> 4"
abbreviation (input) AR_KEYTABLE_TYPE_AES :: u32 where "AR_KEYTABLE_TYPE_AES \<equiv> 5"
abbreviation (input) AR_KEYTABLE_TYPE_CCM :: u32 where "AR_KEYTABLE_TYPE_CCM \<equiv> 6"
abbreviation (input) AR_KEYTABLE_TYPE_CLR :: u32 where "AR_KEYTABLE_TYPE_CLR \<equiv> 7"
abbreviation (input) AR_KEYTABLE_VALID :: u32 where "AR_KEYTABLE_VALID \<equiv> 0x8000"

definition AR_KEYTABLE :: "nat \<Rightarrow> u32" where
  "AR_KEYTABLE n = 0x8800 + word_of_nat n * 32"
definition AR_KEYTABLE_KEY0 :: "nat \<Rightarrow> u32" where "AR_KEYTABLE_KEY0 n = AR_KEYTABLE n + 0"
definition AR_KEYTABLE_KEY1 :: "nat \<Rightarrow> u32" where "AR_KEYTABLE_KEY1 n = AR_KEYTABLE n + 4"
definition AR_KEYTABLE_KEY2 :: "nat \<Rightarrow> u32" where "AR_KEYTABLE_KEY2 n = AR_KEYTABLE n + 8"
definition AR_KEYTABLE_KEY3 :: "nat \<Rightarrow> u32" where "AR_KEYTABLE_KEY3 n = AR_KEYTABLE n + 12"
definition AR_KEYTABLE_KEY4 :: "nat \<Rightarrow> u32" where "AR_KEYTABLE_KEY4 n = AR_KEYTABLE n + 16"
definition AR_KEYTABLE_TYPE :: "nat \<Rightarrow> u32" where "AR_KEYTABLE_TYPE n = AR_KEYTABLE n + 20"
definition AR_KEYTABLE_MAC0 :: "nat \<Rightarrow> u32" where "AR_KEYTABLE_MAC0 n = AR_KEYTABLE n + 24"
definition AR_KEYTABLE_MAC1 :: "nat \<Rightarrow> u32" where "AR_KEYTABLE_MAC1 n = AR_KEYTABLE n + 28"

lemmas keytable_regs =
  AR_KEYTABLE_KEY0_def AR_KEYTABLE_KEY1_def AR_KEYTABLE_KEY2_def AR_KEYTABLE_KEY3_def
  AR_KEYTABLE_KEY4_def AR_KEYTABLE_TYPE_def AR_KEYTABLE_MAC0_def AR_KEYTABLE_MAC1_def

section \<open>Operations\<close>

definition mic_combined :: "ath_common \<Rightarrow> bool" where
  "mic_combined common = has_flag (crypt_caps common) ATH_CRYPT_CAP_MIC_COMBINED"

definition ath_hw_keyreset :: "'s ath_ops \<Rightarrow> ath_common \<Rightarrow> nat \<Rightarrow> 's \<Rightarrow> (bool \<times> 's) option" where
  "ath_hw_keyreset ops common entry s =
     (if keymax common \<le> entry then Some (False, s)
      else do {
        (keyType, s) \<leftarrow> op_read ops (AR_KEYTABLE_TYPE entry) s;
        s \<leftarrow> ENABLE_REGWRITE_BUFFER ops s;
        s \<leftarrow> REG_WRITES ops
          ([(AR_KEYTABLE_KEY0 entry, 0), (AR_KEYTABLE_KEY1 entry, 0), (AR_KEYTABLE_KEY2 entry, 0),
            (AR_KEYTABLE_KEY3 entry, 0), (AR_KEYTABLE_KEY4 entry, 0),
            (AR_KEYTABLE_TYPE entry, AR_KEYTABLE_TYPE_CLR),
            (AR_KEYTABLE_MAC0 entry, 0), (AR_KEYTABLE_MAC1 entry, 0)]
           @ (if keyType = AR_KEYTABLE_TYPE_TKIP then
                (let micentry = entry + 64 in
                 [(AR_KEYTABLE_KEY0 micentry, 0), (AR_KEYTABLE_KEY1 micentry, 0),
                  (AR_KEYTABLE_KEY2 micentry, 0), (AR_KEYTABLE_KEY3 micentry, 0)]
                 @ (if mic_combined common
                    then [(AR_KEYTABLE_KEY4 micentry, 0), (AR_KEYTABLE_TYPE micentry, AR_KEYTABLE_TYPE_CLR)]
                    else []))
              else [])) s;
        s \<leftarrow> REGWRITE_BUFFER_FLUSH ops s;
        Some (True, s) })"

definition mac_words :: "bytes option \<Rightarrow> (u32 \<times> u32) option" where
  \<comment> \<open>\<open>macLo\<close> and \<open>macHi | unicast_flag\<close>\<close>
  "mac_words mac = (case mac of
     None \<Rightarrow> Some (0, 0 OR AR_KEYTABLE_VALID)
   | Some m \<Rightarrow> do {
       m0 \<leftarrow> byte_at m 0;
       let unicast_flag = (if has_flag m0 1 then 0 else AR_KEYTABLE_VALID);
       macLo \<leftarrow> get_le32 m 0;
       hi \<leftarrow> get_le16 m 4;
       let macHi = ucast hi;
       let macLo = drop_bit 1 macLo;
       let macLo = macLo OR push_bit 31 (macHi AND 1);
       let macHi = drop_bit 1 macHi;
       Some (macLo, macHi OR unicast_flag) })"

definition ath_hw_keysetmac ::
  "'s ath_ops \<Rightarrow> ath_common \<Rightarrow> nat \<Rightarrow> bytes option \<Rightarrow> 's \<Rightarrow> (bool \<times> 's) option" where
  "ath_hw_keysetmac ops common entry mac s =
     (if keymax common \<le> entry then Some (False, s)
      else do {
        (macLo, macHi) \<leftarrow> mac_words mac;
        s \<leftarrow> ENABLE_REGWRITE_BUFFER ops s;
        s \<leftarrow> REG_WRITES ops [(AR_KEYTABLE_MAC0 entry, macLo), (AR_KEYTABLE_MAC1 entry, macHi)] s;
        s \<leftarrow> REGWRITE_BUFFER_FLUSH ops s;
        Some (True, s) })"

definition key_type_of :: "ath_common \<Rightarrow> nat \<Rightarrow> ath_keyval \<Rightarrow> u32 option" where
  \<comment> \<open>the \<open>switch\<close> of \<open>ath_hw_set_keycache_entry\<close>; \<open>None\<close> where it returns false\<close>
  "key_type_of common entry k = (case kv_type k of
     ATH_CIPHER_AES_OCB \<Rightarrow> Some AR_KEYTABLE_TYPE_AES
   | ATH_CIPHER_AES_CCM \<Rightarrow>
       if has_flag (crypt_caps common) ATH_CRYPT_CAP_CIPHER_AESCCM then Some AR_KEYTABLE_TYPE_CCM else None
   | ATH_CIPHER_TKIP \<Rightarrow> if keymax common \<le> entry + 64 then None else Some AR_KEYTABLE_TYPE_TKIP
   | ATH_CIPHER_WEP \<Rightarrow>
       if kv_len k < 5 then None
       else if kv_len k \<le> 5 then Some AR_KEYTABLE_TYPE_40
       else if kv_len k \<le> 13 then Some AR_KEYTABLE_TYPE_104
       else Some AR_KEYTABLE_TYPE_128
   | ATH_CIPHER_CLR \<Rightarrow> Some AR_KEYTABLE_TYPE_CLR
   | _ \<Rightarrow> None)"

definition key_words :: "ath_keyval \<Rightarrow> (u32 \<times> u32 \<times> u32 \<times> u32 \<times> u32) option" where
  "key_words k = do {
     key0 \<leftarrow> get_le32 (kv_bytes k) 0;
     key1 \<leftarrow> get_le16 (kv_bytes k) 4;
     key2 \<leftarrow> get_le32 (kv_bytes k) 6;
     key3 \<leftarrow> get_le16 (kv_bytes k) 10;
     key4 \<leftarrow> get_le32 (kv_bytes k) 12;
     let key4 = (if kv_len k \<le> 13 then key4 AND 0xff else key4);
     Some (key0, ucast key1, key2, ucast key3, key4) }"

definition mic_writes :: "ath_common \<Rightarrow> nat \<Rightarrow> ath_keyval \<Rightarrow> (u32 \<times> u32) list option" where
  \<comment> \<open>the Michael keys for entry \<open>micentry\<close>, from \<open>kv_mic\<close> (offset 16) and \<open>kv_txmic\<close> (offset 24)\<close>
  "mic_writes common micentry k =
     (if mic_combined common then do {
        mic0 \<leftarrow> get_le32 (kv_bytes k) 16;
        mic2 \<leftarrow> get_le32 (kv_bytes k) 20;
        mic1 \<leftarrow> get_le16 (kv_bytes k) 26;
        mic3 \<leftarrow> get_le16 (kv_bytes k) 24;
        mic4 \<leftarrow> get_le32 (kv_bytes k) 28;
        Some [(AR_KEYTABLE_KEY0 micentry, mic0), (AR_KEYTABLE_KEY1 micentry, ucast mic1 AND 0xffff),
              (AR_KEYTABLE_KEY2 micentry, mic2), (AR_KEYTABLE_KEY3 micentry, ucast mic3 AND 0xffff),
              (AR_KEYTABLE_KEY4 micentry, mic4), (AR_KEYTABLE_TYPE micentry, AR_KEYTABLE_TYPE_CLR)] }
      else do {
        mic0 \<leftarrow> get_le32 (kv_bytes k) 16;
        mic2 \<leftarrow> get_le32 (kv_bytes k) 20;
        Some [(AR_KEYTABLE_KEY0 micentry, mic0), (AR_KEYTABLE_KEY1 micentry, 0),
              (AR_KEYTABLE_KEY2 micentry, mic2), (AR_KEYTABLE_KEY3 micentry, 0),
              (AR_KEYTABLE_KEY4 micentry, 0), (AR_KEYTABLE_TYPE micentry, AR_KEYTABLE_TYPE_CLR)] })"

definition ath_hw_set_keycache_entry ::
  "'s ath_ops \<Rightarrow> ath_common \<Rightarrow> nat \<Rightarrow> ath_keyval \<Rightarrow> bytes option \<Rightarrow> 's \<Rightarrow> (bool \<times> 's) option" where
  "ath_hw_set_keycache_entry ops common entry k mac s =
     (if keymax common \<le> entry then Some (False, s)
      else (case key_type_of common entry k of
        None \<Rightarrow> Some (False, s)
      | Some keyType \<Rightarrow> do {
          (key0, key1, key2, key3, key4) \<leftarrow> key_words k;
          if keyType = AR_KEYTABLE_TYPE_TKIP then do {
            let micentry = entry + 64;
            s \<leftarrow> REG_WRITES ops
              [(AR_KEYTABLE_KEY0 entry, NOT key0), (AR_KEYTABLE_KEY1 entry, NOT key1),
               (AR_KEYTABLE_KEY2 entry, key2), (AR_KEYTABLE_KEY3 entry, key3),
               (AR_KEYTABLE_KEY4 entry, key4), (AR_KEYTABLE_TYPE entry, keyType)] s;
            (r, s) \<leftarrow> ath_hw_keysetmac ops common entry mac s;
            mics \<leftarrow> mic_writes common micentry k;
            s \<leftarrow> ENABLE_REGWRITE_BUFFER ops s;
            s \<leftarrow> REG_WRITES ops mics s;
            s \<leftarrow> REGWRITE_BUFFER_FLUSH ops s;
            s \<leftarrow> ENABLE_REGWRITE_BUFFER ops s;
            s \<leftarrow> REG_WRITES ops
              [(AR_KEYTABLE_MAC0 micentry, 0), (AR_KEYTABLE_MAC1 micentry, 0),
               (AR_KEYTABLE_KEY0 entry, key0), (AR_KEYTABLE_KEY1 entry, key1)] s;
            s \<leftarrow> REGWRITE_BUFFER_FLUSH ops s;
            Some (True, s) }
          else do {
            s \<leftarrow> ENABLE_REGWRITE_BUFFER ops s;
            s \<leftarrow> REG_WRITES ops
              [(AR_KEYTABLE_KEY0 entry, key0), (AR_KEYTABLE_KEY1 entry, key1),
               (AR_KEYTABLE_KEY2 entry, key2), (AR_KEYTABLE_KEY3 entry, key3),
               (AR_KEYTABLE_KEY4 entry, key4), (AR_KEYTABLE_TYPE entry, keyType)] s;
            s \<leftarrow> REGWRITE_BUFFER_FLUSH ops s;
            (r, s) \<leftarrow> ath_hw_keysetmac ops common entry mac s;
            Some (True, s) } }))"

definition set_mic :: "nat \<Rightarrow> bytes \<Rightarrow> ath_keyval \<Rightarrow> ath_keyval option" where
  \<comment> \<open>\<open>memcpy\<close> of 8 bytes to \<open>kv_mic\<close> (offset 16) or \<open>kv_txmic\<close> (offset 24)\<close>
  "set_mic off m hk = do {
     bs \<leftarrow> write_bytes (kv_bytes hk) off m;
     Some (hk\<lparr>kv_bytes := bs\<rparr>) }"

definition ath_setkey_tkip ::
  "'s ath_ops \<Rightarrow> ath_common \<Rightarrow> nat \<Rightarrow> bytes \<Rightarrow> ath_keyval \<Rightarrow> bytes option \<Rightarrow> bool \<Rightarrow> 's \<Rightarrow>
     (bool \<times> 's) option" where
  "ath_setkey_tkip ops common keyix key hk addr authenticator s = do {
     key_txmic \<leftarrow> read_bytes key 16 8;
     key_rxmic \<leftarrow> read_bytes key 24 8;
     if addr = None then do {
       let m = (if authenticator then key_txmic else key_rxmic);
       hk \<leftarrow> set_mic 16 m hk;
       hk \<leftarrow> set_mic 24 m hk;
       ath_hw_set_keycache_entry ops common keyix hk addr s }
     else if mic_combined common then do {
       hk \<leftarrow> set_mic 16 key_rxmic hk;
       hk \<leftarrow> set_mic 24 key_txmic hk;
       ath_hw_set_keycache_entry ops common keyix hk addr s }
     else do {
       hk \<leftarrow> set_mic 16 key_txmic hk;
       (ok, s) \<leftarrow> ath_hw_set_keycache_entry ops common keyix hk None s;
       if \<not> ok then Some (False, s)
       else do {
         hk \<leftarrow> set_mic 16 key_rxmic hk;
         ath_hw_set_keycache_entry ops common (keyix + 32) hk addr s } } }"

text \<open>The C operators evaluate their right side only when needed; a bit outside the map is a fault.\<close>

definition or_else :: "bool option \<Rightarrow> bool option \<Rightarrow> bool option" where
  "or_else a b = do { x \<leftarrow> a; if x then Some True else b }"

definition and_then :: "bool option \<Rightarrow> bool option \<Rightarrow> bool option" where
  "and_then a b = do { x \<leftarrow> a; if x then b else Some False }"

definition not_bit :: "bool option \<Rightarrow> bool option" where
  "not_bit a = map_option Not a"

fun tkip_slot_loop :: "bool \<Rightarrow> bitmap \<Rightarrow> nat list \<Rightarrow> int option" where
  "tkip_slot_loop combined km [] = Some (- 1)"
| "tkip_slot_loop combined km (i # is) = do {
     used \<leftarrow> or_else (test_bit i km) (test_bit (i + 64) km);
     if used then tkip_slot_loop combined km is
     else do {
       used2 \<leftarrow> (if combined then Some False
                 else or_else (test_bit (i + 32) km) (test_bit (i + 64 + 32) km));
       if used2 then tkip_slot_loop combined km is else Some (int i) } }"

definition ath_reserve_key_cache_slot_tkip :: "ath_common \<Rightarrow> int option" where
  "ath_reserve_key_cache_slot_tkip common =
     tkip_slot_loop (mic_combined common) (keymap common) [IEEE80211_WEP_NKID ..< keymax common div 2]"

fun split_slot_loop :: "bitmap \<Rightarrow> nat list \<Rightarrow> int option option" where
  \<comment> \<open>the inner option is the slot found\<close>
  "split_slot_loop km [] = Some None"
| "split_slot_loop km (i # is) = do {
     let bit = (\<lambda>j. test_bit j km);
     a \<leftarrow> and_then (not_bit (bit i))
            (or_else (bit (i + 32)) (or_else (bit (i + 64)) (bit (i + 64 + 32))));
     if a then Some (Some (int i)) else do {
     b \<leftarrow> and_then (not_bit (bit (i + 32)))
            (or_else (bit i) (or_else (bit (i + 64)) (bit (i + 64 + 32))));
     if b then Some (Some (int i + 32)) else do {
     c \<leftarrow> and_then (not_bit (bit (i + 64)))
            (or_else (bit i) (or_else (bit (i + 32)) (bit (i + 64 + 32))));
     if c then Some (Some (int i + 64)) else do {
     d \<leftarrow> and_then (not_bit (bit (i + 64 + 32)))
            (or_else (bit i) (or_else (bit (i + 32)) (bit (i + 64))));
     if d then Some (Some (int i + 64 + 32)) else split_slot_loop km is } } } }"

fun combined_slot_loop :: "bitmap \<Rightarrow> nat list \<Rightarrow> int option option" where
  "combined_slot_loop km [] = Some None"
| "combined_slot_loop km (i # is) = do {
     a \<leftarrow> and_then (not_bit (test_bit i km)) (test_bit (i + 64) km);
     if a then Some (Some (int i)) else do {
     b \<leftarrow> and_then (test_bit i km) (not_bit (test_bit (i + 64) km));
     if b then Some (Some (int i + 64)) else combined_slot_loop km is } }"

fun any_slot_loop :: "bool \<Rightarrow> bitmap \<Rightarrow> nat list \<Rightarrow> int option" where
  "any_slot_loop combined km [] = Some (- 1)"
| "any_slot_loop combined km (i # is) =
     (if 64 \<le> i \<and> i < 64 + IEEE80211_WEP_NKID then any_slot_loop combined km is
      else if \<not> combined \<and> (32 \<le> i \<and> i < 32 + IEEE80211_WEP_NKID \<or>
                            64 + 32 \<le> i \<and> i < 64 + 32 + IEEE80211_WEP_NKID)
      then any_slot_loop combined km is
      else do {
        u \<leftarrow> test_bit i km;
        if \<not> u then Some (int i) else any_slot_loop combined km is })"

definition ath_reserve_key_cache_slot :: "ath_common \<Rightarrow> u32 \<Rightarrow> int option" where
  "ath_reserve_key_cache_slot common cipher =
     (if cipher = WLAN_CIPHER_SUITE_TKIP then ath_reserve_key_cache_slot_tkip common
      else do {
        r \<leftarrow> (if \<not> mic_combined common
             then split_slot_loop (keymap common) [IEEE80211_WEP_NKID ..< keymax common div 4]
             else combined_slot_loop (keymap common) [IEEE80211_WEP_NKID ..< keymax common div 2]);
        case r of
          Some i \<Rightarrow> Some i
        | None \<Rightarrow> any_slot_loop (mic_combined common) (keymap common) [IEEE80211_WEP_NKID ..< keymax common] })"

definition multicast_mac :: "bytes \<Rightarrow> bytes" where
  \<comment> \<open>\<open>memcpy(gmac, addr, ETH_ALEN); gmac[0] |= 0x01\<close>\<close>
  "multicast_mac addr = (case addr of [] \<Rightarrow> [] | b # bs \<Rightarrow> (b OR 1) # bs)"

definition key_cipher_type :: "u32 \<Rightarrow> ath_cipher option" where
  "key_cipher_type c =
     (if c = 0 then Some ATH_CIPHER_CLR
      else if c = WLAN_CIPHER_SUITE_WEP40 \<or> c = WLAN_CIPHER_SUITE_WEP104 then Some ATH_CIPHER_WEP
      else if c = WLAN_CIPHER_SUITE_TKIP then Some ATH_CIPHER_TKIP
      else if c = WLAN_CIPHER_SUITE_CCMP then Some ATH_CIPHER_AES_CCM
      else None)"

definition key_slot ::
  "ath_common \<Rightarrow> nl80211_iftype \<Rightarrow> bytes \<Rightarrow> bytes option \<Rightarrow> ieee80211_key_conf \<Rightarrow>
     (int + int \<times> bytes option) option" where
  \<comment> \<open>the slot and the MAC address of a key, or the error code; arguments: interface type and
      address, the station's address\<close>
  "key_slot common viftype vifaddr sta key =
     (if \<not> key_pairwise key then
        (case viftype of
           IFTYPE_AP \<Rightarrow> do {
             idx \<leftarrow> ath_reserve_key_cache_slot common (key_cipher key);
             Some (Inr (idx, Some (multicast_mac vifaddr))) }
         | IFTYPE_ADHOC \<Rightarrow>
             (case sta of
                None \<Rightarrow> Some (Inr (keyidx key, None))
              | Some a \<Rightarrow> do {
                  idx \<leftarrow> ath_reserve_key_cache_slot common (key_cipher key);
                  Some (Inr (idx, Some (multicast_mac a))) })
         | _ \<Rightarrow> Some (Inr (keyidx key, None)))
      else if keyidx key \<noteq> 0 then
        (case sta of
           None \<Rightarrow> Some (Inl (- EOPNOTSUPP))
         | Some a \<Rightarrow> if viftype \<noteq> IFTYPE_AP then Some (Inr (keyidx key, Some a))
                    else Some (Inl (- EIO)))
      else
        (case sta of
           None \<Rightarrow> Some (Inl (- EOPNOTSUPP))
         | Some a \<Rightarrow> do {
             idx \<leftarrow> ath_reserve_key_cache_slot common (key_cipher key);
             Some (Inr (idx, Some a)) }))"

fun set_bits :: "nat list \<Rightarrow> bitmap \<Rightarrow> bitmap option" where
  "set_bits [] m = Some m"
| "set_bits (i # is) m = set_bit i m \<bind> set_bits is"

fun clear_bits :: "nat list \<Rightarrow> bitmap \<Rightarrow> bitmap option" where
  "clear_bits [] m = Some m"
| "clear_bits (i # is) m = clear_bit i m \<bind> clear_bits is"

definition tkip_parts :: "ath_common \<Rightarrow> nat \<Rightarrow> nat list" where
  "tkip_parts common idx = [idx + 64] @ (if mic_combined common then [] else [idx + 32, idx + 64 + 32])"

definition ath_key_config ::
  "'s ath_ops \<Rightarrow> ath_common \<Rightarrow> nl80211_iftype \<Rightarrow> bytes \<Rightarrow> bytes option \<Rightarrow> ieee80211_key_conf \<Rightarrow> 's \<Rightarrow>
     (int \<times> ath_common \<times> 's) option" where
  "ath_key_config ops common viftype vifaddr sta key s =
     (case key_cipher_type (key_cipher key) of
        None \<Rightarrow> Some (- EOPNOTSUPP, common, s)
      | Some ty \<Rightarrow> do {
          val \<leftarrow> write_bytes (replicate 32 0) 0 (key_bytes key);
          let hk = \<lparr>kv_type = ty, kv_len = length (key_bytes key), kv_bytes = val\<rparr>;
          slot \<leftarrow> key_slot common viftype vifaddr sta key;
          case slot of
            Inl err \<Rightarrow> Some (err, common, s)
          | Inr (idx, mac) \<Rightarrow>
              if idx < 0 then Some (- ENOSPC, common, s)
              else do {
                let i = nat idx;
                (ret, s) \<leftarrow> (if key_cipher key = WLAN_CIPHER_SUITE_TKIP
                   then ath_setkey_tkip ops common i (key_bytes key) hk mac (viftype = IFTYPE_AP) s
                   else ath_hw_set_keycache_entry ops common i hk mac s);
                if \<not> ret then Some (- EIO, common, s)
                else do {
                  let tkip = (key_cipher key = WLAN_CIPHER_SUITE_TKIP);
                  km \<leftarrow> set_bits (i # (if tkip then tkip_parts common i else [])) (keymap common);
                  cm \<leftarrow> set_bits (if key_cipher key = WLAN_CIPHER_SUITE_CCMP then [i] else []) (ccmp_keymap common);
                  tm \<leftarrow> set_bits (if tkip then i # tkip_parts common i else []) (tkip_keymap common);
                  Some (idx, common\<lparr>keymap := km, ccmp_keymap := cm, tkip_keymap := tm\<rparr>, s) } } })"

definition ath_key_delete ::
  "'s ath_ops \<Rightarrow> ath_common \<Rightarrow> ieee80211_key_conf \<Rightarrow> 's \<Rightarrow> (ath_common \<times> 's) option" where
  "ath_key_delete ops common key s = do {
     let i = hw_key_idx key;
     (r, s) \<leftarrow> ath_hw_keyreset ops common i s;
     if i < IEEE80211_WEP_NKID then Some (common, s)
     else do {
       km \<leftarrow> clear_bits [i] (keymap common);
       cm \<leftarrow> clear_bits [i] (ccmp_keymap common);
       let common = common\<lparr>keymap := km, ccmp_keymap := cm\<rparr>;
       if key_cipher key \<noteq> WLAN_CIPHER_SUITE_TKIP then Some (common, s)
       else do {
         km \<leftarrow> clear_bits [i + 64] (keymap common);
         tm \<leftarrow> clear_bits [i, i + 64] (tkip_keymap common);
         let common = common\<lparr>keymap := km, tkip_keymap := tm\<rparr>;
         if mic_combined common then Some (common, s)
         else do {
           (r, s) \<leftarrow> ath_hw_keyreset ops common (i + 32) s;
           km \<leftarrow> clear_bits [i + 32, i + 64 + 32] (keymap common);
           tm \<leftarrow> clear_bits [i + 32, i + 64 + 32] (tkip_keymap common);
           Some (common\<lparr>keymap := km, tkip_keymap := tm\<rparr>, s) } } } }"

section \<open>Lemmas: slots\<close>

definition group_slot :: "bool \<Rightarrow> nat \<Rightarrow> bool" where
  \<comment> \<open>slots kept for TKIP group keys\<close>
  "group_slot combined i \<longleftrightarrow> i \<in> {64..<68} \<or> \<not> combined \<and> i \<in> {32..<36} \<union> {96..<100}"

definition slot_usable :: "bool \<Rightarrow> bool \<Rightarrow> bitmap \<Rightarrow> nat \<Rightarrow> bool" where
  \<comment> \<open>what a key may use: for TKIP two free parts, otherwise one free slot outside the group slots\<close>
  "slot_usable combined tkip km i \<longleftrightarrow> 4 \<le> i \<and> \<not> km ! i \<and>
     (if tkip then i < 64 \<and> \<not> km ! (i + 64) else i < 128 \<and> \<not> group_slot combined i)"

lemma tkip_slot_combined:
  "\<forall>i \<in> set is. i + 64 < length km \<Longrightarrow> tkip_slot_loop True km is =
     Some (case find (\<lambda>i. \<not> km ! i \<and> \<not> km ! (i + 64)) is of None \<Rightarrow> - 1 | Some i \<Rightarrow> int i)"
  by (induction "is") (auto simp: or_else_def test_bit_in)

lemma tkip_slot_split:
  "\<forall>i \<in> set is. i + 96 < length km \<Longrightarrow> tkip_slot_loop False km (is @ js) =
     (case find (\<lambda>i. \<not> km ! i \<and> \<not> km ! (i + 64) \<and> \<not> km ! (i + 32) \<and> \<not> km ! (i + 96)) is of
        None \<Rightarrow> tkip_slot_loop False km js | Some i \<Rightarrow> Some (int i))"
  by (induction "is") (auto simp: or_else_def test_bit_in add.commute [of 96] numeral_eq_Suc)

lemma tkip_slot_split_high:
  "\<forall>i \<in> set is. i + 64 < length km \<and> length km \<le> i + 96 \<Longrightarrow> tkip_slot_loop False km is =
     (case find (\<lambda>i. \<not> km ! i \<and> \<not> km ! (i + 64) \<and> \<not> km ! (i + 32)) is of
        None \<Rightarrow> Some (- 1) | Some i \<Rightarrow> None)"
  by (induction "is") (auto simp: or_else_def test_bit_in test_bit_def)

lemma any_slot_find:
  "\<forall>i \<in> set is. i < length km \<Longrightarrow> any_slot_loop c km is =
     Some (case find (\<lambda>i. \<not> group_slot c i \<and> \<not> km ! i) is of None \<Rightarrow> - 1 | Some i \<Rightarrow> int i)"
  by (induction "is") (auto simp: group_slot_def test_bit_in)

lemma combined_slot_found:
  assumes "\<forall>i \<in> set is. i + 64 < length km"
  shows "\<exists>r. combined_slot_loop km is = Some r \<and>
    (\<forall>x. r = Some x \<longrightarrow> (\<exists>i \<in> set is. x = int i \<and> \<not> km ! i \<or> x = int (i + 64) \<and> \<not> km ! (i + 64)))"
  using assms by (induction "is") (auto simp: and_then_def not_bit_def test_bit_in)

lemma split_slot_found:
  assumes "\<forall>i \<in> set is. i + 96 < length km"
  shows "\<exists>r. split_slot_loop km is = Some r \<and>
    (\<forall>x. r = Some x \<longrightarrow> (\<exists>i \<in> set is. \<exists>o1 \<in> {0, 32, 64, 96}. x = int (i + o1) \<and> \<not> km ! (i + o1)))"
  using assms
proof (induction "is")
  case (Cons i "is")
  have b: "test_bit i km = Some (km ! i)" "test_bit (i + 32) km = Some (km ! (i + 32))"
    "test_bit (i + 64) km = Some (km ! (i + 64))" "test_bit (i + 64 + 32) km = Some (km ! (i + 96))"
    using Cons.prems by (simp_all add: test_bit_in add.commute [of 96])
  obtain r where r: "split_slot_loop km is = Some r"
    "\<forall>x. r = Some x \<longrightarrow> (\<exists>i \<in> set is. \<exists>o1 \<in> {0, 32, 64, 96}. x = int (i + o1) \<and> \<not> km ! (i + o1))"
    using Cons by auto
  consider (found) o1 where "o1 \<in> {0, 32, 64, 96}" "\<not> km ! (i + o1)"
      "split_slot_loop km (i # is) = Some (Some (int (i + o1)))"
    | "split_slot_loop km (i # is) = split_slot_loop km is"
    unfolding split_slot_loop.simps Let_def b
    by (cases "km ! i"; cases "km ! (i + 32)"; cases "km ! (i + 64)"; cases "km ! (i + 96)")
      (simp_all add: and_then_def or_else_def not_bit_def add.assoc)
  then show ?case using r by cases (auto simp del: split_slot_loop.simps)
qed simp

text \<open>\<open>ath_reserve_key_cache_slot\<close> for keys that take one slot.\<close>

lemma find_upt_None: "find P [a ..< b] = None \<longleftrightarrow> (\<forall>i. a \<le> i \<and> i < b \<longrightarrow> \<not> P i)"
  by (auto simp: find_None_iff)

lemma find_upt_Some: "find P [a ..< b] = Some i \<Longrightarrow> P i \<and> a \<le> i \<and> i < b"
  by (auto simp: find_Some_iff)

lemma partial_slot_found:
  assumes "keymax common = 128" and "length (keymap common) = 128"
  shows "\<exists>r. (if \<not> mic_combined common then split_slot_loop (keymap common) [4 ..< keymax common div 4]
              else combined_slot_loop (keymap common) [4 ..< keymax common div 2]) = Some r \<and>
    (\<forall>x. r = Some x \<longrightarrow> 4 \<le> x \<and> x < 128 \<and> \<not> keymap common ! nat x \<and>
        \<not> group_slot (mic_combined common) (nat x))"
proof (cases "mic_combined common")
  case True
  have "\<forall>i \<in> set [4 ..< 64]. i + 64 < length (keymap common)" using assms by auto
  from combined_slot_found [OF this] show ?thesis
    using True assms(1) by (fastforce simp: group_slot_def)
next
  case False
  have "\<forall>i \<in> set [4 ..< 32]. i + 96 < length (keymap common)" using assms by auto
  from split_slot_found [OF this] obtain r where r: "split_slot_loop (keymap common) [4 ..< 32] = Some r"
    "\<forall>x. r = Some x \<longrightarrow> (\<exists>i \<in> set [4..<32]. \<exists>o1 \<in> {0, 32, 64, 96}. x = int (i + o1) \<and> \<not> keymap common ! (i + o1))"
    by blast
  have "4 \<le> x \<and> x < 128 \<and> \<not> keymap common ! nat x \<and> \<not> group_slot False (nat x)" if "r = Some x" for x
  proof -
    obtain i o1 where i: "i \<in> set [4..<32]" "o1 \<in> {0, 32, 64, 96::nat}" and x: "x = int (i + o1)"
      "\<not> keymap common ! (i + o1)"
      using r(2) \<open>r = Some x\<close> by blast
    have "4 \<le> i" "i < 32" using i(1) by (simp_all only: set_upt atLeastLessThan_iff)
    moreover have "nat x = i + o1" using x(1) by (simp only: nat_int)
    ultimately show ?thesis using i(2) x by (auto simp: group_slot_def)
  qed
  then show ?thesis using False assms(1) r(1) by simp
qed

lemma reserve_plain:
  assumes "keymax common = 128" and "length (keymap common) = 128" and "cipher \<noteq> WLAN_CIPHER_SUITE_TKIP"
  shows "\<exists>r. ath_reserve_key_cache_slot common cipher = Some r \<and>
    (if r = - 1 then \<forall>i. \<not> slot_usable (mic_combined common) False (keymap common) i
     else 0 \<le> r \<and> slot_usable (mic_combined common) False (keymap common) (nat r))"
proof -
  obtain q where q: "(if \<not> mic_combined common then split_slot_loop (keymap common) [4 ..< keymax common div 4]
              else combined_slot_loop (keymap common) [4 ..< keymax common div 2]) = Some q"
    "\<forall>x. q = Some x \<longrightarrow> 4 \<le> x \<and> x < 128 \<and> \<not> keymap common ! nat x \<and> \<not> group_slot (mic_combined common) (nat x)"
    using partial_slot_found [OF assms(1,2)] by blast
  show ?thesis
  proof (cases q)
    case (Some x)
    then have "ath_reserve_key_cache_slot common cipher = Some x"
      using q(1) assms(3) by (simp add: ath_reserve_key_cache_slot_def)
    then show ?thesis using q(2) Some by (auto simp: slot_usable_def)
  next
    case None
    let ?P = "slot_usable (mic_combined common) False (keymap common)"
    have "any_slot_loop (mic_combined common) (keymap common) [4 ..< 128] =
        Some (case find ?P [4 ..< 128] of None \<Rightarrow> - 1 | Some i \<Rightarrow> int i)"
    proof -
      have "\<forall>i \<in> set [4 ..< 128]. i < length (keymap common)" using assms(2) by auto
      note any_slot_find [OF this, of "mic_combined common"]
      also have "find (\<lambda>i. \<not> group_slot (mic_combined common) i \<and> \<not> keymap common ! i) [4 ..< 128]
          = find ?P [4 ..< 128]"
        by (rule find_cong) (auto simp: slot_usable_def)
      finally show ?thesis .
    qed
    then have r: "ath_reserve_key_cache_slot common cipher =
        Some (case find ?P [4 ..< 128] of None \<Rightarrow> - 1 | Some i \<Rightarrow> int i)"
      using q(1) None assms(1,3) by (simp add: ath_reserve_key_cache_slot_def)
    show ?thesis
    proof (cases "find ?P [4 ..< 128]")
      case None
      then have "\<forall>i. \<not> ?P i" unfolding find_upt_None by (auto simp: slot_usable_def)
      then show ?thesis using r None by simp
    next
      case (Some i)
      from find_upt_Some [OF Some] show ?thesis using r Some by simp
    qed
  qed
qed

lemma reserve_tkip_combined:
  assumes "keymax common = 128" and "length (keymap common) = 128" and "mic_combined common"
  shows "\<exists>r. ath_reserve_key_cache_slot common WLAN_CIPHER_SUITE_TKIP = Some r \<and>
    (if r = - 1 then \<forall>i. \<not> slot_usable (mic_combined common) True (keymap common) i
     else 0 \<le> r \<and> slot_usable (mic_combined common) True (keymap common) (nat r))"
proof -
  let ?P = "\<lambda>i. \<not> keymap common ! i \<and> \<not> keymap common ! (i + 64)"
  have "tkip_slot_loop True (keymap common) [4 ..< 64] =
      Some (case find ?P [4 ..< 64] of None \<Rightarrow> - 1 | Some i \<Rightarrow> int i)"
    by (rule tkip_slot_combined) (use assms(2) in auto)
  then have r: "ath_reserve_key_cache_slot common WLAN_CIPHER_SUITE_TKIP =
      Some (case find ?P [4 ..< 64] of None \<Rightarrow> - 1 | Some i \<Rightarrow> int i)"
    using assms(1,3) by (simp add: ath_reserve_key_cache_slot_def ath_reserve_key_cache_slot_tkip_def)
  show ?thesis
  proof (cases "find ?P [4 ..< 64]")
    case None
    then have "\<forall>i. \<not> slot_usable (mic_combined common) True (keymap common) i"
      unfolding find_upt_None by (auto simp: slot_usable_def)
    then show ?thesis using r None by simp
  next
    case (Some i)
    from find_upt_Some [OF Some] show ?thesis using r Some by (simp add: slot_usable_def)
  qed
qed

definition ex_common :: "bool \<Rightarrow> nat list \<Rightarrow> ath_common" where
  "ex_common combined used = \<lparr>bssidmask = replicate 6 0xff, keymax = 128,
     keymap = map (\<lambda>i. i \<in> set used) [0 ..< 128], tkip_keymap = replicate 128 False,
     ccmp_keymap = replicate 128 False, crypt_caps = (if combined then 3 else 1), clockrate = 40,
     cc_ani = \<lparr>cycles = 0, rx_busy = 0, rx_frame = 0, tx_frame = 0\<rparr>,
     cc_survey = \<lparr>cycles = 0, rx_busy = 0, rx_frame = 0, tx_frame = 0\<rparr>\<rparr>"

lemma ex_common_fields:
  "keymax (ex_common c u) = 128" "length (keymap (ex_common c u)) = 128"
  "mic_combined (ex_common c u) = c" "i < 128 \<Longrightarrow> keymap (ex_common c u) ! i \<longleftrightarrow> i \<in> set u"
  by (simp_all add: ex_common_def mic_combined_def has_flag_def)

section \<open>Properties: slots\<close>

text \<open>Choosing a slot. For a key that takes one slot, on both kinds of hardware, and for a TKIP key
  on hardware with combined Michael entries, \<open>ath_reserve_key_cache_slot\<close> returns a slot all of
  whose parts are free and which is neither a default-key slot nor kept for group keys, and it
  returns -1 only when every such slot is in use.\<close>

theorem reserve_slot_free:
  assumes "keymax common = 128" and "length (keymap common) = 128"
    and "cipher = WLAN_CIPHER_SUITE_TKIP \<longrightarrow> mic_combined common"
  shows "\<exists>r. ath_reserve_key_cache_slot common cipher = Some r \<and>
    (if r = - 1
     then \<forall>i. \<not> slot_usable (mic_combined common) (cipher = WLAN_CIPHER_SUITE_TKIP) (keymap common) i
     else 0 \<le> r \<and>
       slot_usable (mic_combined common) (cipher = WLAN_CIPHER_SUITE_TKIP) (keymap common) (nat r))"
proof (cases "cipher = WLAN_CIPHER_SUITE_TKIP")
  case True
  then show ?thesis using reserve_tkip_combined [OF assms(1,2)] assms(3) by (simp only: True simp_thms)
next
  case False
  then show ?thesis using reserve_plain [OF assms(1,2) False] by (simp only: False simp_thms)
qed

theorem reserve_slot_free_witness:
  "\<exists>r. ath_reserve_key_cache_slot (ex_common True [4]) WLAN_CIPHER_SUITE_TKIP = Some r \<and> r \<noteq> - 1 \<and>
     slot_usable True True (keymap (ex_common True [4])) (nat r)"
proof -
  have "slot_usable True True (keymap (ex_common True [4])) 5"
    by (simp add: slot_usable_def ex_common_def)
  then show ?thesis
    using reserve_slot_free [of "ex_common True [4]" WLAN_CIPHER_SUITE_TKIP]
    by (auto simp: ex_common_fields split: if_splits)
qed

text \<open>TKIP keys on hardware with separate Michael entries. The search runs over the first half of
  the table, but for slots from 32 on the fourth part would lie behind the end of the map: when
  no slot below 32 has its four parts free, the driver reads the map out of bounds exactly when
  some slot from 32 to 63 has its first three parts free.\<close>

theorem reserve_tkip_split_bounds:
  assumes "keymax common = 128" and "length (keymap common) = 128" and "\<not> mic_combined common"
  shows "ath_reserve_key_cache_slot common WLAN_CIPHER_SUITE_TKIP = None \<longleftrightarrow>
    (\<forall>i. 4 \<le> i \<and> i < 32 \<longrightarrow> keymap common ! i \<or> keymap common ! (i + 64) \<or> keymap common ! (i + 32) \<or>
        keymap common ! (i + 96)) \<and>
    (\<exists>i. 32 \<le> i \<and> i < 64 \<and> \<not> keymap common ! i \<and> \<not> keymap common ! (i + 64) \<and> \<not> keymap common ! (i + 32))"
proof -
  let ?P = "\<lambda>i. \<not> keymap common ! i \<and> \<not> keymap common ! (i + 64) \<and> \<not> keymap common ! (i + 32) \<and>
    \<not> keymap common ! (i + 96)"
  let ?Q = "\<lambda>i. \<not> keymap common ! i \<and> \<not> keymap common ! (i + 64) \<and> \<not> keymap common ! (i + 32)"
  have app: "[4 ..< 64] = [4 ..< 32] @ [32 ..< 64::nat]" using upt_add_eq_append [of 4 32 32] by simp
  have a: "tkip_slot_loop False (keymap common) ([4 ..< 32] @ [32 ..< 64]) =
      (case find ?P [4 ..< 32] of None \<Rightarrow> tkip_slot_loop False (keymap common) [32 ..< 64] | Some i \<Rightarrow> Some (int i))"
    by (rule tkip_slot_split) (use assms(2) in auto)
  have b: "tkip_slot_loop False (keymap common) [32 ..< 64] =
      (case find ?Q [32 ..< 64] of None \<Rightarrow> Some (- 1) | Some i \<Rightarrow> None)"
    by (rule tkip_slot_split_high) (use assms(2) in auto)
  have "ath_reserve_key_cache_slot common WLAN_CIPHER_SUITE_TKIP = None \<longleftrightarrow>
      find ?P [4 ..< 32] = None \<and> find ?Q [32 ..< 64] \<noteq> None"
  proof -
    have half: "keymax common div 2 = 64" using assms(1) by simp
    have "ath_reserve_key_cache_slot common WLAN_CIPHER_SUITE_TKIP =
        tkip_slot_loop False (keymap common) ([4 ..< 32] @ [32 ..< 64])"
      using assms(3) unfolding ath_reserve_key_cache_slot_def ath_reserve_key_cache_slot_tkip_def half app
      by (simp only: simp_thms if_True)
    then show ?thesis unfolding a b
      by (cases "find ?P [4 ..< 32]"; cases "find ?Q [32 ..< 64]") (simp_all only: option.case option.simps simp_thms)
  qed
  then show ?thesis unfolding find_upt_None by blast
qed

theorem reserve_tkip_split_bounds_witness:
  "ath_reserve_key_cache_slot (ex_common False [4 ..< 32]) WLAN_CIPHER_SUITE_TKIP = None"
proof -
  have "\<exists>i. 32 \<le> i \<and> i < 64 \<and> i \<notin> {4 ..< 32} \<and> i + 64 \<notin> {4 ..< 32} \<and> i + 32 \<notin> {4 ..< 32::nat}"
    by (rule exI [of _ 40]) simp
  then have "\<exists>i. 32 \<le> i \<and> i < 64 \<and> \<not> keymap (ex_common False [4 ..< 32]) ! i \<and>
      \<not> keymap (ex_common False [4 ..< 32]) ! (i + 64) \<and> \<not> keymap (ex_common False [4 ..< 32]) ! (i + 32)"
    by (auto simp only: ex_common_fields set_upt)
  then show ?thesis
    using reserve_tkip_split_bounds [OF ex_common_fields(1,2), of False "[4 ..< 32]"]
    by (simp add: ex_common_fields del: upt_rec_numeral)
qed

section \<open>Lemmas: the key table registers\<close>

definition kt_reg :: "nat \<Rightarrow> nat \<Rightarrow> u32" where
  \<comment> \<open>register \<open>i\<close> of entry \<open>n\<close>\<close>
  "kt_reg n i = word_of_nat (0x8800 + 32 * n + 4 * i)"

lemma kt_regs:
  "AR_KEYTABLE_KEY0 n = kt_reg n 0" "AR_KEYTABLE_KEY1 n = kt_reg n 1" "AR_KEYTABLE_KEY2 n = kt_reg n 2"
  "AR_KEYTABLE_KEY3 n = kt_reg n 3" "AR_KEYTABLE_KEY4 n = kt_reg n 4" "AR_KEYTABLE_TYPE n = kt_reg n 5"
  "AR_KEYTABLE_MAC0 n = kt_reg n 6" "AR_KEYTABLE_MAC1 n = kt_reg n 7"
  by (simp_all add: keytable_regs kt_reg_def AR_KEYTABLE_def)

lemma unat_kt_reg: "n < 256 \<Longrightarrow> i < 8 \<Longrightarrow> unat (kt_reg n i) = 0x8800 + 32 * n + 4 * i"
  unfolding kt_reg_def by (simp only: unat_of_nat take_bit_nat_def) (simp add: mod_less)

lemma kt_reg_eq:
  assumes "n < 256" and "m < 256" and "i < 8" and "j < 8"
  shows "kt_reg n i = kt_reg m j \<longleftrightarrow> n = m \<and> i = j"
proof
  assume "kt_reg n i = kt_reg m j"
  then have "unat (kt_reg n i) = unat (kt_reg m j)" by simp
  then have "0x8800 + 32 * n + 4 * i = 0x8800 + 32 * m + 4 * j" using assms by (simp only: unat_kt_reg)
  then show "n = m \<and> i = j" using assms(3,4) by presburger
qed simp

lemma apply_writes_other:
  "r \<notin> fst ` set ps \<Longrightarrow> apply_writes ps m r = m r"
  by (induction ps arbitrary: m) auto

definition key_writes :: "nat \<Rightarrow> u32 \<times> u32 \<times> u32 \<times> u32 \<times> u32 \<Rightarrow> u32 \<Rightarrow> u32 \<times> u32 \<Rightarrow> (u32 \<times> u32) list" where
  \<comment> \<open>what a plain key writes: the key, its type, the MAC address\<close>
  "key_writes n ks ty mac = (case ks of (k0, k1, k2, k3, k4) \<Rightarrow>
     [(kt_reg n 0, k0), (kt_reg n 1, k1), (kt_reg n 2, k2), (kt_reg n 3, k3), (kt_reg n 4, k4),
      (kt_reg n 5, ty), (kt_reg n 6, fst mac), (kt_reg n 7, snd mac)])"

definition tkip_writes ::
  "nat \<Rightarrow> u32 \<times> u32 \<times> u32 \<times> u32 \<times> u32 \<Rightarrow> u32 \<times> u32 \<Rightarrow> (u32 \<times> u32) list \<Rightarrow> (u32 \<times> u32) list" where
  "tkip_writes n ks mac mics = (case ks of (k0, k1, k2, k3, k4) \<Rightarrow>
     [(kt_reg n 0, NOT k0), (kt_reg n 1, NOT k1), (kt_reg n 2, k2), (kt_reg n 3, k3), (kt_reg n 4, k4),
      (kt_reg n 5, AR_KEYTABLE_TYPE_TKIP), (kt_reg n 6, fst mac), (kt_reg n 7, snd mac)] @ mics @
     [(kt_reg (n + 64) 6, 0), (kt_reg (n + 64) 7, 0), (kt_reg n 0, k0), (kt_reg n 1, k1)])"

context ath_regs
begin

lemma keysetmac_mem:
  assumes "ok s" and "entry < keymax common" and "mac_words mac = Some ws"
  shows "\<exists>s'. ath_hw_keysetmac ops common entry mac s = Some (True, s') \<and> ok s' \<and> depth s' = depth s \<and>
    mem s' = apply_writes [(kt_reg entry 6, fst ws), (kt_reg entry 7, snd ws)] (mem s)"
proof -
  obtain lo hi where ws: "ws = (lo, hi)" by (cases ws)
  show ?thesis
    by (rule buffered_writes [OF assms(1), of "[(kt_reg entry 6, lo), (kt_reg entry 7, hi)]"])
      (use assms(2,3) in \<open>simp add: ath_hw_keysetmac_def ws kt_regs del: REG_WRITES.simps\<close>)
qed

lemma set_entry_plain:
  assumes "ok s" and "entry < keymax common" and "key_type_of common entry k = Some ty"
    and "ty \<noteq> AR_KEYTABLE_TYPE_TKIP" and "key_words k = Some ks" and "mac_words mac = Some ws"
  shows "\<exists>s'. ath_hw_set_keycache_entry ops common entry k mac s = Some (True, s') \<and> ok s' \<and>
    depth s' = depth s \<and> mem s' = apply_writes (key_writes entry ks ty ws) (mem s)"
proof -
  obtain k0 k1 k2 k3 k4 where ks: "ks = (k0, k1, k2, k3, k4)" by (cases ks)
  show ?thesis
  proof (rule buffered_writes [OF assms(1), of "[(kt_reg entry 0, k0), (kt_reg entry 1, k1),
        (kt_reg entry 2, k2), (kt_reg entry 3, k3), (kt_reg entry 4, k4), (kt_reg entry 5, ty)]"])
    fix s1 s2 s3
    assume a: "ENABLE_REGWRITE_BUFFER ops s = Some s1"
      "REG_WRITES ops [(kt_reg entry 0, k0), (kt_reg entry 1, k1), (kt_reg entry 2, k2), (kt_reg entry 3, k3),
         (kt_reg entry 4, k4), (kt_reg entry 5, ty)] s1 = Some s2"
      "REGWRITE_BUFFER_FLUSH ops s2 = Some s3" and b: "ok s3" "depth s3 = depth s"
      "mem s3 = apply_writes [(kt_reg entry 0, k0), (kt_reg entry 1, k1), (kt_reg entry 2, k2), (kt_reg entry 3, k3),
         (kt_reg entry 4, k4), (kt_reg entry 5, ty)] (mem s)"
    obtain s4 where c: "ath_hw_keysetmac ops common entry mac s3 = Some (True, s4)" "ok s4" "depth s4 = depth s3"
      "mem s4 = apply_writes [(kt_reg entry 6, fst ws), (kt_reg entry 7, snd ws)] (mem s3)"
      using keysetmac_mem [OF b(1) assms(2,6)] by blast
    have "ath_hw_set_keycache_entry ops common entry k mac s = Some (True, s4)"
      using assms(2-5) a c(1) by (simp add: ath_hw_set_keycache_entry_def ks kt_regs del: REG_WRITES.simps)
    moreover have "mem s4 = apply_writes (key_writes entry ks ty ws) (mem s)"
      unfolding c(4) b(3) apply_writes_append [symmetric] by (simp add: key_writes_def ks)
    ultimately show ?thesis using c(2,3) b(2) by simp
  qed
qed

lemma set_entry_tkip:
  assumes "ok s" and "entry < keymax common" and "key_type_of common entry k = Some AR_KEYTABLE_TYPE_TKIP"
    and "key_words k = Some ks" and "mac_words mac = Some ws" and "mic_writes common (entry + 64) k = Some mics"
  shows "\<exists>s'. ath_hw_set_keycache_entry ops common entry k mac s = Some (True, s') \<and> ok s' \<and>
    depth s' = depth s \<and> mem s' = apply_writes (tkip_writes entry ks ws mics) (mem s)"
proof -
  obtain k0 k1 k2 k3 k4 where ks: "ks = (k0, k1, k2, k3, k4)" by (cases ks)
  define L1 where "L1 = [(kt_reg entry 0, NOT k0), (kt_reg entry 1, NOT k1), (kt_reg entry 2, k2),
     (kt_reg entry 3, k3), (kt_reg entry 4, k4), (kt_reg entry 5, AR_KEYTABLE_TYPE_TKIP)]"
  define L2 where "L2 = [(kt_reg entry 6, fst ws), (kt_reg entry 7, snd ws)]"
  define L3 where "L3 = [(kt_reg (entry + 64) 6, 0), (kt_reg (entry + 64) 7, 0), (kt_reg entry 0, k0),
     (kt_reg entry 1, k1)]"
  obtain s1 where s1: "REG_WRITES ops L1 s = Some s1" "ok s1" "depth s1 = depth s" "mem s1 = apply_writes L1 (mem s)"
    using reg_writes [OF assms(1)] by blast
  obtain s2 where s2: "ath_hw_keysetmac ops common entry mac s1 = Some (True, s2)" "ok s2" "depth s2 = depth s1"
    "mem s2 = apply_writes L2 (mem s1)"
    using keysetmac_mem [OF s1(2) assms(2,5)] unfolding L2_def by blast
  obtain a1 a2 s3 where s3: "ENABLE_REGWRITE_BUFFER ops s2 = Some a1" "REG_WRITES ops mics a1 = Some a2"
    "REGWRITE_BUFFER_FLUSH ops a2 = Some s3" "ok s3" "depth s3 = depth s2" "mem s3 = apply_writes mics (mem s2)"
    by (rule buffered_writes [OF s2(2)])
  obtain b1 b2 s4 where s4: "ENABLE_REGWRITE_BUFFER ops s3 = Some b1" "REG_WRITES ops L3 b1 = Some b2"
    "REGWRITE_BUFFER_FLUSH ops b2 = Some s4" "ok s4" "depth s4 = depth s3" "mem s4 = apply_writes L3 (mem s3)"
    by (rule buffered_writes [OF s3(4)])
  have "ath_hw_set_keycache_entry ops common entry k mac s = Some (True, s4)"
    using assms(2-4,6) s1(1) s2(1) s3(1-3) s4(1-3)
    by (simp add: ath_hw_set_keycache_entry_def ks kt_regs L1_def L3_def del: REG_WRITES.simps)
  moreover have "mem s4 = apply_writes (tkip_writes entry ks ws mics) (mem s)"
    unfolding s4(6) s3(6) s2(4) s1(4) apply_writes_append [symmetric]
    by (simp add: tkip_writes_def ks L1_def L2_def L3_def)
  ultimately show ?thesis using s1(3) s2(3) s3(5) s4(4,5) by simp
qed

lemma keyreset_mem:
  assumes "ok s" and "depth s = 0" and "entry < keymax common"
  shows "\<exists>s' mics. ath_hw_keyreset ops common entry s = Some (True, s') \<and> ok s' \<and> depth s' = 0 \<and>
    mem s' = apply_writes (key_writes entry (0, 0, 0, 0, 0) AR_KEYTABLE_TYPE_CLR (0, 0) @ mics) (mem s) \<and>
    fst ` set mics \<subseteq> kt_reg (entry + 64) ` {..< 6} \<and> (mem s (kt_reg entry 5) \<noteq> AR_KEYTABLE_TYPE_TKIP \<longrightarrow> mics = []) \<and>
    (mem s (kt_reg entry 5) = AR_KEYTABLE_TYPE_TKIP \<longrightarrow>
       mics = map (\<lambda>i. (kt_reg (entry + 64) i, 0)) [0 ..< 4] @
         (if mic_combined common then [(kt_reg (entry + 64) 4, 0), (kt_reg (entry + 64) 5, AR_KEYTABLE_TYPE_CLR)] else []))"
proof -
  obtain s0 where s0: "op_read ops (AR_KEYTABLE_TYPE entry) s = Some (mem s (kt_reg entry 5), s0)" "ok s0"
    "depth s0 = 0" "mem s0 = mem s"
    using read_op [OF assms(1,2), of "kt_reg entry 5"] by (auto simp: kt_regs)
  define mics where "mics = (if mem s (kt_reg entry 5) = AR_KEYTABLE_TYPE_TKIP then
       map (\<lambda>i. (kt_reg (entry + 64) i, 0)) [0 ..< 4] @
         (if mic_combined common then [(kt_reg (entry + 64) 4, 0), (kt_reg (entry + 64) 5, AR_KEYTABLE_TYPE_CLR)] else [])
     else [])"
  define L where "L = key_writes entry (0, 0, 0, 0, 0) AR_KEYTABLE_TYPE_CLR (0, 0) @ mics"
  obtain a1 a2 s1 where s1: "ENABLE_REGWRITE_BUFFER ops s0 = Some a1" "REG_WRITES ops L a1 = Some a2"
    "REGWRITE_BUFFER_FLUSH ops a2 = Some s1" "ok s1" "depth s1 = depth s0" "mem s1 = apply_writes L (mem s0)"
    by (rule buffered_writes [OF s0(2)])
  have "L = [(AR_KEYTABLE_KEY0 entry, 0), (AR_KEYTABLE_KEY1 entry, 0), (AR_KEYTABLE_KEY2 entry, 0),
            (AR_KEYTABLE_KEY3 entry, 0), (AR_KEYTABLE_KEY4 entry, 0),
            (AR_KEYTABLE_TYPE entry, AR_KEYTABLE_TYPE_CLR),
            (AR_KEYTABLE_MAC0 entry, 0), (AR_KEYTABLE_MAC1 entry, 0)]
           @ (if mem s (kt_reg entry 5) = AR_KEYTABLE_TYPE_TKIP then
                (let micentry = entry + 64 in
                 [(AR_KEYTABLE_KEY0 micentry, 0), (AR_KEYTABLE_KEY1 micentry, 0),
                  (AR_KEYTABLE_KEY2 micentry, 0), (AR_KEYTABLE_KEY3 micentry, 0)]
                 @ (if mic_combined common
                    then [(AR_KEYTABLE_KEY4 micentry, 0), (AR_KEYTABLE_TYPE micentry, AR_KEYTABLE_TYPE_CLR)]
                    else []))
              else [])"
    by (simp add: L_def mics_def key_writes_def kt_regs upt_rec numeral_eq_Suc)
  then have "ath_hw_keyreset ops common entry s = Some (True, s1)"
    using assms(3) s0(1) s1(1-3) unfolding ath_hw_keyreset_def by (simp del: REG_WRITES.simps)
  moreover have "fst ` set mics \<subseteq> kt_reg (entry + 64) ` {..< 6}" by (auto simp: mics_def)
  ultimately show ?thesis using s0(3,4) s1(4-6) unfolding L_def
    by (intro exI [of _ s1] exI [of _ mics]) (simp add: mics_def)
qed

end

subsection \<open>Reading an entry back\<close>

definition kt_key :: "(u32 \<Rightarrow> u32) \<Rightarrow> nat \<Rightarrow> bytes" where
  "kt_key m n = le32_bytes (m (kt_reg n 0)) @ le16_bytes (ucast (m (kt_reg n 1))) @
     le32_bytes (m (kt_reg n 2)) @ le16_bytes (ucast (m (kt_reg n 3))) @ le32_bytes (m (kt_reg n 4))"

definition kt_mac :: "(u32 \<Rightarrow> u32) \<Rightarrow> nat \<Rightarrow> bytes" where
  \<comment> \<open>the address without its multicast bit is shifted by one; the valid bit is the inverse of the
      multicast bit\<close>
  "kt_mac m n = (let lo = m (kt_reg n 6); hi = m (kt_reg n 7) in
     le32_bytes (push_bit 1 lo OR (if has_flag hi AR_KEYTABLE_VALID then 0 else 1)) @
     le16_bytes (ucast (push_bit 1 (hi AND 0x7fff) OR drop_bit 31 lo)))"

lemma bit_const_u32:
  "bit (1 :: u32) i \<longleftrightarrow> i = 0" "bit (0x8000 :: u32) i \<longleftrightarrow> i = 15" "bit (0x7fff :: u32) i \<longleftrightarrow> i < 15"
  "bit (0xff :: u32) i \<longleftrightarrow> i < 8"
proof -
  have "(0xff :: u32) = mask 8" by (simp add: mask_eq_exp_minus_1)
  then show "bit (0xff :: u32) i \<longleftrightarrow> i < 8" by (simp only: bit_mask_iff) auto
  have "(0x7fff :: u32) = mask 15" by (simp add: mask_eq_exp_minus_1)
  then show "bit (0x7fff :: u32) i \<longleftrightarrow> i < 15" by (simp only: bit_mask_iff) auto
  have "(0x8000 :: u32) = 2 ^ 15" by simp
  then show "bit (0x8000 :: u32) i \<longleftrightarrow> i = 15" by (simp only: bit_exp_iff) auto
qed (simp add: bit_1_iff)

lemma mac_lo_bits:
  fixes H :: u16 and L :: u32
  assumes one: "\<And>i. bit one i \<longleftrightarrow> i = 0" and k: "k = Suc 0"
  shows "push_bit k (drop_bit k L OR push_bit 31 (ucast H AND one)) OR (if bit L 0 then one else 0) = (L :: u32)"
proof (rule bit_word_eqI)
  fix n assume n: "n < LENGTH(32)"
  show "bit (push_bit k (drop_bit k L OR push_bit 31 (ucast H AND one)) OR (if bit L 0 then one else 0)) n = bit L n"
    using n by (cases n) (auto simp: bit_simps one k simp del: push_bit_Suc)
qed

lemma mac_hi_bits:
  fixes H :: u16 and L :: u32
  assumes one: "\<And>i. bit one i \<longleftrightarrow> i = 0" and M: "\<And>i. bit M i \<longleftrightarrow> i < 15" and F: "\<And>i. bit F i \<Longrightarrow> i = 15"
   and k: "k = Suc 0"
  shows "ucast (push_bit k ((drop_bit k (ucast H) OR F) AND M) OR
   drop_bit 31 (drop_bit k L OR push_bit 31 (ucast H AND one) :: u32)) = H"
proof (rule bit_word_eqI)
  fix n assume n: "n < LENGTH(16)"
  show "bit (ucast (push_bit k ((drop_bit k (ucast H) OR F) AND M) OR
   drop_bit 31 (drop_bit k L OR push_bit 31 (ucast H AND one) :: u32)) :: u16) n = bit H n"
    using n by (cases n) (auto simp: bit_simps one M k dest: F bit_u32_le simp del: push_bit_Suc)
qed
lemma kt_mac_words:
  assumes "length mac = 6" and "mac_words (Some mac) = Some (x, y)" and "m (kt_reg n 6) = x" and "m (kt_reg n 7) = y"
  shows "kt_mac m n = mac"
proof -
  obtain b0 b1 b2 b3 b4 b5 where mac: "mac = [b0, b1, b2, b3, b4, b5]"
    using assms(1) by (auto simp: length_Suc_conv numeral_eq_Suc)
  define L where "L = le32 b0 b1 b2 b3"
  define H where "H = le16 b4 b5"
  have b0: "has_flag b0 1 \<longleftrightarrow> bit L 0"
    using has_flag_bit [of "1 :: u8" 0 b0] by (simp add: L_def le32_def bit_simps)
  have x: "x = drop_bit 1 L OR push_bit 31 (ucast H AND 1)"
    and y: "y = drop_bit 1 (ucast H) OR (if bit L 0 then 0 else 0x8000)"
  proof -
    have "mac_words (Some mac) = Some (drop_bit 1 L OR push_bit 31 (ucast H AND 1),
        drop_bit 1 (ucast H) OR (if has_flag b0 1 then 0 else 0x8000))"
      by (simp add: mac mac_words_def get_le32_def get_le16_def L_def H_def Let_def)
    then show "x = drop_bit 1 L OR push_bit 31 (ucast H AND 1)"
      "y = drop_bit 1 (ucast H) OR (if bit L 0 then 0 else 0x8000)"
      using assms(2) unfolding b0 by simp_all
  qed
  have F: "bit (if bit L 0 then 0 else 0x8000 :: u32) i \<Longrightarrow> i = 15" for i
    by (cases "bit L 0") (simp, simp only: if_False bit_const_u32)
  have "bit y 15 \<longleftrightarrow> \<not> bit L 0"
    unfolding y by (auto simp: bit_simps bit_const_u32 dest: bit_imp_le_length)
  then have "has_flag y 0x8000 \<longleftrightarrow> \<not> bit L 0"
    by (simp only: has_flag_bit [OF bit_const_u32(2)])
  then have lo: "push_bit 1 x OR (if has_flag y 0x8000 then 0 else 1) = L"
    using mac_lo_bits [OF bit_const_u32(1), of 1 L H] unfolding x by (cases "bit L 0") simp_all
  have hi: "ucast (push_bit 1 (y AND 0x7fff) OR drop_bit 31 x) = H"
    unfolding x y by (rule mac_hi_bits [OF bit_const_u32(1) bit_const_u32(3) F]) simp_all
  show ?thesis
    unfolding kt_mac_def assms(3,4) Let_def lo hi
    by (simp add: L_def H_def le32_bytes_le32 le16_bytes_le16 mac)
qed

lemma kt_key_words:
  assumes "length bs = 32" and "kv_bytes k = bs" and "key_words k = Some (k0, k1, k2, k3, k4)"
    and "kv_len k \<le> 13 \<Longrightarrow> bs ! 13 = 0 \<and> bs ! 14 = 0 \<and> bs ! 15 = 0"
    and "m (kt_reg n 0) = k0" "m (kt_reg n 1) = k1" "m (kt_reg n 2) = k2" "m (kt_reg n 3) = k3" "m (kt_reg n 4) = k4"
  shows "kt_key m n = take 16 bs"
proof -
  have four: "k4 = le32 (bs ! 12) (bs ! 13) (bs ! 14) (bs ! 15)"
  proof (cases "kv_len k \<le> 13")
    case True
    then have "k4 = le32 (bs ! 12) 0 0 0 AND 0xff"
      using assms by (auto simp: key_words_def get_le32_def get_le16_def byte_at_in)
    also have "\<dots> = le32 (bs ! 12) 0 0 0"
      by (rule bit_word_eqI, simp only: bit_and_iff bit_const_u32)
        (auto simp: le32_def bit_simps dest: bit_imp_le_length)
    finally show ?thesis using assms(4) True by simp
  qed (use assms in \<open>auto simp: key_words_def get_le32_def get_le16_def byte_at_in\<close>)
  have w: "k0 = le32 (bs ! 0) (bs ! 1) (bs ! 2) (bs ! 3)" "k1 = ucast (le16 (bs ! 4) (bs ! 5))"
    "k2 = le32 (bs ! 6) (bs ! 7) (bs ! 8) (bs ! 9)" "k3 = ucast (le16 (bs ! 10) (bs ! 11))"
    using assms(1-3) by (auto simp: key_words_def get_le32_def get_le16_def byte_at_in numeral_eq_Suc)
  have u: "ucast (ucast z :: u32) = (z :: u16)" for z by (rule bit_word_eqI) (simp add: bit_simps)
  have "take 16 bs = map ((!) bs) [0 ..< 16]"
    using assms(1) by (intro nth_equalityI) auto
  also have "\<dots> = [bs ! 0, bs ! 1, bs ! 2, bs ! 3, bs ! 4, bs ! 5, bs ! 6, bs ! 7, bs ! 8, bs ! 9, bs ! 10,
      bs ! 11, bs ! 12, bs ! 13, bs ! 14, bs ! 15]"
    by (simp add: upt_rec numeral_eq_Suc)
  finally show ?thesis
    unfolding kt_key_def assms(5-9) w four u le32_bytes_le32 le16_bytes_le16 by simp
qed

lemma mac_words_total: "length mac = 6 \<Longrightarrow> \<exists>x y. mac_words (Some mac) = Some (x, y)"
  by (auto simp: mac_words_def get_le32_def get_le16_def byte_at_in Let_def)

lemma key_words_total: "length (kv_bytes k) = 32 \<Longrightarrow> \<exists>ks. key_words k = Some ks"
  by (auto simp: key_words_def get_le32_def get_le16_def byte_at_in)

lemma key_writes_mem:
  assumes "n < 256" and "mm = apply_writes (key_writes n (k0, k1, k2, k3, k4) ty (x, y)) m"
  shows "mm (kt_reg n 0) = k0" "mm (kt_reg n 1) = k1" "mm (kt_reg n 2) = k2" "mm (kt_reg n 3) = k3"
    "mm (kt_reg n 4) = k4" "mm (kt_reg n 5) = ty" "mm (kt_reg n 6) = x" "mm (kt_reg n 7) = y"
    "r \<notin> kt_reg n ` {..< 8} \<Longrightarrow> mm r = m r"
  using assms(1) unfolding assms(2)
  by (auto simp: key_writes_def kt_reg_eq image_iff)

lemma padded_key:
  assumes "length key \<le> 32"
  shows "write_bytes (replicate 32 0) 0 key = Some (key @ replicate (32 - length key) 0)"
  using assms by (simp add: write_bytes_def)

definition plain_type :: "u32 \<Rightarrow> bytes \<Rightarrow> u32" where
  "plain_type cipher key = (if cipher = WLAN_CIPHER_SUITE_CCMP then AR_KEYTABLE_TYPE_CCM
     else if length key \<le> 5 then AR_KEYTABLE_TYPE_40
     else if length key \<le> 13 then AR_KEYTABLE_TYPE_104 else AR_KEYTABLE_TYPE_128)"

definition plain_key_ok :: "ath_common \<Rightarrow> ieee80211_key_conf \<Rightarrow> bool" where
  \<comment> \<open>a WEP or CCMP key the hardware can hold\<close>
  "plain_key_ok common key \<longleftrightarrow> 5 \<le> length (key_bytes key) \<and> length (key_bytes key) \<le> 16 \<and>
     (key_cipher key \<in> {WLAN_CIPHER_SUITE_WEP40, WLAN_CIPHER_SUITE_WEP104} \<or>
      key_cipher key = WLAN_CIPHER_SUITE_CCMP \<and> has_flag (crypt_caps common) ATH_CRYPT_CAP_CIPHER_AESCCM)"

definition common_ok :: "ath_common \<Rightarrow> bool" where
  "common_ok common \<longleftrightarrow> keymax common = 128 \<and> length (keymap common) = 128 \<and>
     length (tkip_keymap common) = 128 \<and> length (ccmp_keymap common) = 128"

context ath_regs
begin

lemma set_entry_plain_mem:
  assumes s: "ok s" and i: "i < 128" and c: "keymax common = 128" and key: "plain_key_ok common key"
    and ty: "key_cipher_type (key_cipher key) = Some cty" and mac: "length mac = 6"
    and hk: "hk = \<lparr>kv_type = cty, kv_len = length (key_bytes key),
               kv_bytes = key_bytes key @ replicate (32 - length (key_bytes key)) 0\<rparr>"
  shows "\<exists>s'. ath_hw_set_keycache_entry ops common i hk (Some mac) s = Some (True, s') \<and> ok s' \<and>
    depth s' = depth s \<and> kt_key (mem s') i = key_bytes key @ replicate (16 - length (key_bytes key)) 0 \<and>
    kt_mac (mem s') i = mac \<and> mem s' (kt_reg i 5) = plain_type (key_cipher key) (key_bytes key) \<and>
    (\<forall>r. r \<notin> kt_reg i ` {..< 8} \<longrightarrow> mem s' r = mem s r)"
proof -
  let ?ty = "plain_type (key_cipher key) (key_bytes key)"
  have len: "length (kv_bytes hk) = 32" "length (key_bytes key) \<le> 16"
    using key by (simp_all add: hk plain_key_ok_def)
  obtain k0 k1 k2 k3 k4 where ks: "key_words hk = Some (k0, k1, k2, k3, k4)"
    using key_words_total [OF len(1)] by auto
  obtain x y where ws: "mac_words (Some mac) = Some (x, y)" using mac_words_total [OF mac] by blast
  have kt: "key_type_of common i hk = Some ?ty"
    using key ty by (auto simp: key_type_of_def hk plain_type_def plain_key_ok_def key_cipher_type_def split: if_splits)
  have nt: "?ty \<noteq> AR_KEYTABLE_TYPE_TKIP" by (simp add: plain_type_def)
  have ik: "i < keymax common" using i c by simp
  obtain s' where a: "ath_hw_set_keycache_entry ops common i hk (Some mac) s = Some (True, s')" "ok s'"
    "depth s' = depth s" and m: "mem s' = apply_writes (key_writes i (k0, k1, k2, k3, k4) ?ty (x, y)) (mem s)"
    using set_entry_plain [OF s ik kt nt ks ws] by blast
  have n: "i < 256" using i by simp
  note w = key_writes_mem [OF n m]
  have z: "kv_len hk \<le> 13 \<Longrightarrow> kv_bytes hk ! 13 = 0 \<and> kv_bytes hk ! 14 = 0 \<and> kv_bytes hk ! 15 = 0"
    using len(2) by (simp add: hk nth_append)
  have "kt_key (mem s') i = take 16 (kv_bytes hk)"
    by (rule kt_key_words [OF len(1) refl ks z w(1-5)])
  moreover have "take 16 (kv_bytes hk) = key_bytes key @ replicate (16 - length (key_bytes key)) 0"
    using len(2) by (simp add: hk)
  moreover have "kt_mac (mem s') i = mac" by (rule kt_mac_words [OF mac ws w(7,8)])
  ultimately show ?thesis using a w(6,9) by simp
qed

lemma key_config_plain:
  assumes s: "ok s" and c: "common_ok common" and key: "plain_key_ok common key"
    and slot: "key_slot common viftype vifaddr sta key = Some (Inr (idx, Some mac))"
    and idx: "0 \<le> idx" "idx < 128" and mac: "length mac = 6"
  obtains s' where "ath_key_config ops common viftype vifaddr sta key s =
      Some (idx, common\<lparr>keymap := (keymap common)[nat idx := True],
         ccmp_keymap := (if key_cipher key = WLAN_CIPHER_SUITE_CCMP then (ccmp_keymap common)[nat idx := True]
                         else ccmp_keymap common)\<rparr>, s')"
    and "ok s'" and "depth s' = depth s"
    and "kt_key (mem s') (nat idx) = key_bytes key @ replicate (16 - length (key_bytes key)) 0"
    and "kt_mac (mem s') (nat idx) = mac"
    and "mem s' (kt_reg (nat idx) 5) = plain_type (key_cipher key) (key_bytes key)"
    and "\<And>r. r \<notin> kt_reg (nat idx) ` {..< 8} \<Longrightarrow> mem s' r = mem s r"
proof -
  have i: "nat idx < 128" and k: "keymax common = 128" using idx c by (simp_all add: common_ok_def)
  obtain cty where ty: "key_cipher_type (key_cipher key) = Some cty"
    using key by (auto simp: plain_key_ok_def key_cipher_type_def)
  have nt: "key_cipher key \<noteq> WLAN_CIPHER_SUITE_TKIP" using key by (auto simp: plain_key_ok_def)
  have len: "length (key_bytes key) \<le> 32" using key by (simp add: plain_key_ok_def)
  obtain s' where a: "ath_hw_set_keycache_entry ops common (nat idx) \<lparr>kv_type = cty, kv_len = length (key_bytes key),
               kv_bytes = key_bytes key @ replicate (32 - length (key_bytes key)) 0\<rparr> (Some mac) s = Some (True, s')"
    and b: "ok s'" "depth s' = depth s"
      "kt_key (mem s') (nat idx) = key_bytes key @ replicate (16 - length (key_bytes key)) 0"
      "kt_mac (mem s') (nat idx) = mac" "mem s' (kt_reg (nat idx) 5) = plain_type (key_cipher key) (key_bytes key)"
      "\<forall>r. r \<notin> kt_reg (nat idx) ` {..< 8} \<longrightarrow> mem s' r = mem s r"
    using set_entry_plain_mem [OF s i k key ty mac refl] by blast
  have "ath_key_config ops common viftype vifaddr sta key s =
      Some (idx, common\<lparr>keymap := (keymap common)[nat idx := True],
         ccmp_keymap := (if key_cipher key = WLAN_CIPHER_SUITE_CCMP then (ccmp_keymap common)[nat idx := True]
                         else ccmp_keymap common)\<rparr>, s')"
    using ty slot idx nt i c
    by (simp add: ath_key_config_def padded_key [OF len] a set_bit_def common_ok_def Let_def)
  then show thesis by (rule that) (use b in auto)
qed

end

subsection \<open>TKIP with combined Michael entries\<close>

definition kt_rxmic :: "(u32 \<Rightarrow> u32) \<Rightarrow> nat \<Rightarrow> bytes" where
  "kt_rxmic m n = le32_bytes (m (kt_reg n 0)) @ le32_bytes (m (kt_reg n 2))"

definition kt_txmic :: "(u32 \<Rightarrow> u32) \<Rightarrow> nat \<Rightarrow> bytes" where
  "kt_txmic m n = le16_bytes (ucast (m (kt_reg n 3))) @ le16_bytes (ucast (m (kt_reg n 1))) @
     le32_bytes (m (kt_reg n 4))"

lemma list8: "length xs = 8 \<Longrightarrow> xs = [xs ! 0, xs ! 1, xs ! 2, xs ! 3, xs ! 4, xs ! 5, xs ! 6, xs ! 7]"
  by (auto simp: length_Suc_conv numeral_eq_Suc)

lemma ucast_and_mask16:
  fixes z :: u16 and M :: u32
  assumes "\<And>i. bit M i \<longleftrightarrow> i < 16"
  shows "ucast (ucast z AND M) = z"
  by (rule bit_word_eqI) (auto simp: bit_simps assms)

lemma ucast_and_ffff: "ucast (ucast z AND 0xffff :: u32) = (z :: u16)"
proof (rule ucast_and_mask16)
  have "(0xffff :: u32) = mask 16" by (simp add: mask_eq_exp_minus_1)
  then show "bit (0xffff :: u32) i \<longleftrightarrow> i < 16" for i by (simp only: bit_mask_iff) auto
qed

lemma tkip_writes_mem:
  assumes "n < 128" and "mics = [(kt_reg (n + 64) 0, m0), (kt_reg (n + 64) 1, m1), (kt_reg (n + 64) 2, m2),
      (kt_reg (n + 64) 3, m3), (kt_reg (n + 64) 4, m4), (kt_reg (n + 64) 5, m5)]"
    and "mm = apply_writes (tkip_writes n (k0, k1, k2, k3, k4) (x, y) mics) m"
  shows "mm (kt_reg n 0) = k0" "mm (kt_reg n 1) = k1" "mm (kt_reg n 2) = k2" "mm (kt_reg n 3) = k3"
    "mm (kt_reg n 4) = k4" "mm (kt_reg n 5) = AR_KEYTABLE_TYPE_TKIP" "mm (kt_reg n 6) = x" "mm (kt_reg n 7) = y"
    "mm (kt_reg (n + 64) 0) = m0" "mm (kt_reg (n + 64) 1) = m1" "mm (kt_reg (n + 64) 2) = m2"
    "mm (kt_reg (n + 64) 3) = m3" "mm (kt_reg (n + 64) 4) = m4" "mm (kt_reg (n + 64) 5) = m5"
    "mm (kt_reg (n + 64) 6) = 0" "mm (kt_reg (n + 64) 7) = 0"
  using assms(1) unfolding assms(2,3) by (simp_all add: tkip_writes_def kt_reg_eq)

lemma tkip_writes_other:
  assumes "mics = [(kt_reg (n + 64) 0, m0), (kt_reg (n + 64) 1, m1), (kt_reg (n + 64) 2, m2),
      (kt_reg (n + 64) 3, m3), (kt_reg (n + 64) 4, m4), (kt_reg (n + 64) 5, m5)]"
    and "r \<notin> kt_reg n ` {..< 8} \<union> kt_reg (n + 64) ` {..< 8}"
  shows "apply_writes (tkip_writes n (k0, k1, k2, k3, k4) (x, y) mics) m r = m r"
  by (rule apply_writes_other) (use assms(2) in \<open>auto simp: tkip_writes_def assms(1)\<close>)

context ath_regs
begin

lemma setkey_tkip_combined:
  assumes s: "ok s" and i: "i < 64" and c: "keymax common = 128" and mc: "mic_combined common"
    and key: "length key = 32" and mac: "length mac = 6"
    and hk: "hk = \<lparr>kv_type = ATH_CIPHER_TKIP, kv_len = 32, kv_bytes = key\<rparr>"
  shows "\<exists>s'. ath_setkey_tkip ops common i key hk (Some mac) auth s = Some (True, s') \<and> ok s' \<and>
    depth s' = depth s \<and> kt_key (mem s') i = take 16 key \<and> kt_mac (mem s') i = mac \<and>
    kt_txmic (mem s') (i + 64) = take 8 (drop 16 key) \<and> kt_rxmic (mem s') (i + 64) = drop 24 key \<and>
    mem s' (kt_reg i 5) = AR_KEYTABLE_TYPE_TKIP \<and>
    (\<forall>r. r \<notin> kt_reg i ` {..< 8} \<union> kt_reg (i + 64) ` {..< 8} \<longrightarrow> mem s' r = mem s r)"
proof -
  define tk where "tk = take 16 key"
  define tx where "tx = take 8 (drop 16 key)"
  define rx where "rx = drop 24 key"
  have l: "length tk = 16" "length tx = 8" "length rx = 8" using key by (simp_all add: tk_def tx_def rx_def)
  have key3: "key = tk @ tx @ rx"
    using append_take_drop_id [of 16 key] append_take_drop_id [of 8 "drop 16 key"]
    by (simp add: tk_def tx_def rx_def)
  define k where "k = \<lparr>kv_type = ATH_CIPHER_TKIP, kv_len = 32, kv_bytes = tk @ rx @ tx\<rparr>"
  have set1: "set_mic 16 rx hk = Some \<lparr>kv_type = ATH_CIPHER_TKIP, kv_len = 32, kv_bytes = tk @ rx @ rx\<rparr>"
    and set2: "set_mic 24 tx \<lparr>kv_type = ATH_CIPHER_TKIP, kv_len = 32, kv_bytes = tk @ rx @ rx\<rparr> = Some k"
    using l by (simp_all add: set_mic_def hk write_bytes_def key3 k_def)
  have rd: "read_bytes key 16 8 = Some tx" "read_bytes key 24 8 = Some rx"
    using key by (simp_all add: read_bytes_def tx_def rx_def)
  have call: "ath_setkey_tkip ops common i key hk (Some mac) auth s
      = ath_hw_set_keycache_entry ops common i k (Some mac) s"
    using mc by (simp add: ath_setkey_tkip_def rd set1 set2)
  have len: "length (kv_bytes k) = 32" using l by (simp add: k_def)
  obtain k0 k1 k2 k3 k4 where ks: "key_words k = Some (k0, k1, k2, k3, k4)"
    using key_words_total [OF len] by auto
  obtain x y where ws: "mac_words (Some mac) = Some (x, y)" using mac_words_total [OF mac] by blast
  define mics where "mics = [(kt_reg (i + 64) 0, le32 (rx ! 0) (rx ! 1) (rx ! 2) (rx ! 3)),
     (kt_reg (i + 64) 1, ucast (le16 (tx ! 2) (tx ! 3)) AND 0xffff),
     (kt_reg (i + 64) 2, le32 (rx ! 4) (rx ! 5) (rx ! 6) (rx ! 7)),
     (kt_reg (i + 64) 3, ucast (le16 (tx ! 0) (tx ! 1)) AND 0xffff),
     (kt_reg (i + 64) 4, le32 (tx ! 4) (tx ! 5) (tx ! 6) (tx ! 7)), (kt_reg (i + 64) 5, AR_KEYTABLE_TYPE_CLR)]"
  have mw: "mic_writes common (i + 64) k = Some mics"
    using mc l by (simp add: mic_writes_def k_def mics_def get_le32_def get_le16_def byte_at_in nth_append kt_regs)
  have kt: "key_type_of common i k = Some AR_KEYTABLE_TYPE_TKIP" and ik: "i < keymax common"
    using i c by (simp_all add: key_type_of_def k_def)
  obtain s' where a: "ath_hw_set_keycache_entry ops common i k (Some mac) s = Some (True, s')" "ok s'"
    "depth s' = depth s" and m: "mem s' = apply_writes (tkip_writes i (k0, k1, k2, k3, k4) (x, y) mics) (mem s)"
    using set_entry_tkip [OF s ik kt ks ws mw] by blast
  have n: "i < 128" using i by simp
  note w = tkip_writes_mem [OF n mics_def m]
  have "kt_key (mem s') i = take 16 (kv_bytes k)"
    by (rule kt_key_words [OF len refl ks _ w(1-5)]) (simp add: k_def)
  then have key': "kt_key (mem s') i = tk" using l by (simp add: k_def)
  have mac': "kt_mac (mem s') i = mac" by (rule kt_mac_words [OF mac ws w(7,8)])
  have "kt_rxmic (mem s') (i + 64) = [rx ! 0, rx ! 1, rx ! 2, rx ! 3, rx ! 4, rx ! 5, rx ! 6, rx ! 7]"
    unfolding kt_rxmic_def w le32_bytes_le32 by simp
  then have rx': "kt_rxmic (mem s') (i + 64) = rx" using list8 [OF l(3)] by simp
  have "kt_txmic (mem s') (i + 64) = [tx ! 0, tx ! 1, tx ! 2, tx ! 3, tx ! 4, tx ! 5, tx ! 6, tx ! 7]"
    unfolding kt_txmic_def w le32_bytes_le32 ucast_and_ffff le16_bytes_le16 by simp
  then have tx': "kt_txmic (mem s') (i + 64) = tx" using list8 [OF l(2)] by simp
  have "\<forall>r. r \<notin> kt_reg i ` {..< 8} \<union> kt_reg (i + 64) ` {..< 8} \<longrightarrow> mem s' r = mem s r"
    unfolding m using tkip_writes_other [OF mics_def] by blast
  then show ?thesis
    using a key' mac' rx' tx' w(6) unfolding call tk_def tx_def rx_def by blast
qed

end

context ath_regs
begin

lemma key_delete_plain:
  assumes s: "ok s" "depth s = 0" and c: "common_ok common" and i: "4 \<le> hw_key_idx key" "hw_key_idx key < 128"
    and nt: "key_cipher key \<noteq> WLAN_CIPHER_SUITE_TKIP" "mem s (kt_reg (hw_key_idx key) 5) \<noteq> AR_KEYTABLE_TYPE_TKIP"
  shows "\<exists>s'. ath_key_delete ops common key s =
      Some (common\<lparr>keymap := (keymap common)[hw_key_idx key := False],
                   ccmp_keymap := (ccmp_keymap common)[hw_key_idx key := False]\<rparr>, s') \<and> ok s' \<and> depth s' = 0 \<and>
    mem s' = apply_writes (key_writes (hw_key_idx key) (0, 0, 0, 0, 0) AR_KEYTABLE_TYPE_CLR (0, 0)) (mem s)"
proof -
  have ik: "hw_key_idx key < keymax common" using c i by (simp add: common_ok_def)
  obtain s' where a: "ath_hw_keyreset ops common (hw_key_idx key) s = Some (True, s')" "ok s'" "depth s' = 0"
    "mem s' = apply_writes (key_writes (hw_key_idx key) (0, 0, 0, 0, 0) AR_KEYTABLE_TYPE_CLR (0, 0)) (mem s)"
    using keyreset_mem [OF s ik] nt(2) by auto
  then show ?thesis
    using c i nt(1) by (simp add: ath_key_delete_def clear_bit_def common_ok_def Let_def)
qed

end

lemma list_update_False: "\<not> xs ! i \<Longrightarrow> xs[i := False] = xs"
  using list_update_id [of xs i] by simp

definition ex_sta :: bytes where "ex_sta = [0x02, 0x11, 0x22, 0x33, 0x44, 0x55]"

definition ex_ccmp_key :: ieee80211_key_conf where
  "ex_ccmp_key = \<lparr>key_cipher = WLAN_CIPHER_SUITE_CCMP, hw_key_idx = 0, key_pairwise = True, keyidx = 0,
     key_bytes = map word_of_nat [1 ..< 17]\<rparr>"

lemma ex_ops_ok:
  "htc_ops_ok ex_env (ex_alloc 0) ex_fw (\<lambda>dev. dev) [0, 0, 0, 0] (ex_wmi, (ex_target, ex_dev, dev))"
  "htc_ops_depth (ex_wmi, x) = 0"
  using ex_stack_ready [of dev] ex_buf_inv by (simp_all add: htc_ops_ok_def htc_ops_depth_def)

lemma ex_common_ok: "common_ok (ex_common c u)"
  by (simp add: common_ok_def ex_common_def)

lemma ex_ccmp_key_ok: "plain_key_ok (ex_common c u) ex_ccmp_key"
  by (simp add: plain_key_ok_def ex_common_def ex_ccmp_key_def has_flag_def)

lemma ex_ccmp_slot:
  "key_slot (ex_common True []) IFTYPE_STATION vifaddr (Some ex_sta) ex_ccmp_key = Some (Inr (4, Some ex_sta))"
proof -
  have "ath_reserve_key_cache_slot (ex_common True []) WLAN_CIPHER_SUITE_CCMP = Some 4"
    by code_simp
  then show ?thesis by (simp add: key_slot_def ex_ccmp_key_def)
qed

section \<open>Properties: the key table\<close>

text \<open>C24: installing a WEP or CCMP key, over the whole stack. When the slot search gives slot \<open>idx\<close> and
  the address \<open>mac\<close>, \<open>ath_key_config\<close> returns \<open>idx\<close>, marks the slot in the maps, and the target's
  key table holds exactly the key (padded with zeros), the key type and the address in entry
  \<open>idx\<close>; no other register of the target changes.\<close>

theorem key_config_installs:
  assumes "htc_ops_ok env alloc fw regs junk s" and "htc_ops_depth s = 0"
    and "common_ok common" and "plain_key_ok common key"
    and "key_slot common viftype vifaddr sta key = Some (Inr (idx, Some mac))"
    and "0 \<le> idx" and "idx < 128" and "length mac = 6"
  shows "\<exists>common' s'. ath_key_config (htc_ops (wmi_stack env alloc fw) junk) common viftype vifaddr sta key s
      = Some (idx, common', s') \<and>
    keymap common' = (keymap common)[nat idx := True] \<and>
    kt_key (stack_regs regs (snd s')) (nat idx) = key_bytes key @ replicate (16 - length (key_bytes key)) 0 \<and>
    kt_mac (stack_regs regs (snd s')) (nat idx) = mac \<and>
    stack_regs regs (snd s') (AR_KEYTABLE_TYPE (nat idx)) = plain_type (key_cipher key) (key_bytes key) \<and>
    (\<forall>r. r \<notin> kt_reg (nat idx) ` {..< 8} \<longrightarrow> stack_regs regs (snd s') r = stack_regs regs (snd s) r)"
proof (rule ho.key_config_plain [OF assms(1,3-8)])
  fix s'
  assume a: "ath_key_config (htc_ops (wmi_stack env alloc fw) junk) common viftype vifaddr sta key s =
      Some (idx, common\<lparr>keymap := (keymap common)[nat idx := True],
         ccmp_keymap := (if key_cipher key = WLAN_CIPHER_SUITE_CCMP then (ccmp_keymap common)[nat idx := True]
                         else ccmp_keymap common)\<rparr>, s')"
    and ok: "htc_ops_ok env alloc fw regs junk s'" and d: "htc_ops_depth s' = htc_ops_depth s"
    and m: "kt_key (htc_ops_mem regs s') (nat idx) = key_bytes key @ replicate (16 - length (key_bytes key)) 0"
      "kt_mac (htc_ops_mem regs s') (nat idx) = mac"
      "htc_ops_mem regs s' (kt_reg (nat idx) 5) = plain_type (key_cipher key) (key_bytes key)"
      "\<And>r. r \<notin> kt_reg (nat idx) ` {..< 8} \<Longrightarrow> htc_ops_mem regs s' r = htc_ops_mem regs s r"
  have f: "htc_ops_mem regs s = stack_regs regs (snd s)" "htc_ops_mem regs s' = stack_regs regs (snd s')"
    using htc_ops_mem_device assms(1,2) ok d by metis+
  show ?thesis using a m unfolding f kt_regs by auto
qed

theorem key_config_installs_witness:
  "\<exists>common' s'. ath_key_config (htc_ops (wmi_stack ex_env (ex_alloc 0) ex_fw) [0, 0, 0, 0]) (ex_common True [])
       IFTYPE_STATION ex_sta (Some ex_sta) ex_ccmp_key (ex_wmi, (ex_target, ex_dev, \<lambda>_. 0)) = Some (4, common', s') \<and>
     kt_key (stack_regs (\<lambda>dev. dev) (snd s')) 4 = [1, 2, 3, 4, 5, 6, 7, 8, 9, 10, 11, 12, 13, 14, 15, 16] \<and>
     kt_mac (stack_regs (\<lambda>dev. dev) (snd s')) 4 = ex_sta"
  using key_config_installs [OF ex_ops_ok ex_common_ok ex_ccmp_key_ok ex_ccmp_slot [of ex_sta], of "\<lambda>_. 0"]
  by (auto simp: ex_sta_def ex_ccmp_key_def upt_rec)

text \<open>Installing a TKIP key on hardware with combined Michael entries, over the whole stack. The
  temporal key goes to entry \<open>i\<close> with the station's address, the two Michael keys to entry
  \<open>i + 64\<close>: the transmit key from bytes 16 to 23, the receive key from bytes 24 to 31. The key is
  written inverted first and corrected last; the final table holds the key itself.\<close>

theorem tkip_key_installs:
  assumes "htc_ops_ok env alloc fw regs junk s" and "htc_ops_depth s = 0" and "i < 64"
    and "keymax common = 128" and "mic_combined common" and "length key = 32" and "length mac = 6"
    and "hk = \<lparr>kv_type = ATH_CIPHER_TKIP, kv_len = 32, kv_bytes = key\<rparr>"
  shows "\<exists>s'. ath_setkey_tkip (htc_ops (wmi_stack env alloc fw) junk) common i key hk (Some mac) auth s
      = Some (True, s') \<and>
    kt_key (stack_regs regs (snd s')) i = take 16 key \<and> kt_mac (stack_regs regs (snd s')) i = mac \<and>
    kt_txmic (stack_regs regs (snd s')) (i + 64) = take 8 (drop 16 key) \<and>
    kt_rxmic (stack_regs regs (snd s')) (i + 64) = drop 24 key \<and>
    (\<forall>r. r \<notin> kt_reg i ` {..< 8} \<union> kt_reg (i + 64) ` {..< 8} \<longrightarrow>
       stack_regs regs (snd s') r = stack_regs regs (snd s) r)"
proof -
  obtain s' where a: "ath_setkey_tkip (htc_ops (wmi_stack env alloc fw) junk) common i key hk (Some mac) auth s
      = Some (True, s')" "htc_ops_ok env alloc fw regs junk s'" "htc_ops_depth s' = htc_ops_depth s"
    and m: "kt_key (htc_ops_mem regs s') i = take 16 key" "kt_mac (htc_ops_mem regs s') i = mac"
      "kt_txmic (htc_ops_mem regs s') (i + 64) = take 8 (drop 16 key)"
      "kt_rxmic (htc_ops_mem regs s') (i + 64) = drop 24 key"
      "\<forall>r. r \<notin> kt_reg i ` {..< 8} \<union> kt_reg (i + 64) ` {..< 8} \<longrightarrow> htc_ops_mem regs s' r = htc_ops_mem regs s r"
    using ho.setkey_tkip_combined [OF assms(1,3-8), of auth] by blast
  have f: "htc_ops_mem regs s = stack_regs regs (snd s)" "htc_ops_mem regs s' = stack_regs regs (snd s')"
    using htc_ops_mem_device assms(1,2) a(2,3) by metis+
  show ?thesis using a(1) m unfolding f by blast
qed

theorem tkip_key_installs_witness:
  "\<exists>s'. ath_setkey_tkip (htc_ops (wmi_stack ex_env (ex_alloc 0) ex_fw) [0, 0, 0, 0]) (ex_common True []) 5
       (map word_of_nat [0 ..< 32]) \<lparr>kv_type = ATH_CIPHER_TKIP, kv_len = 32, kv_bytes = map word_of_nat [0 ..< 32]\<rparr>
       (Some ex_sta) False (ex_wmi, (ex_target, ex_dev, \<lambda>_. 0)) = Some (True, s') \<and>
     kt_txmic (stack_regs (\<lambda>dev. dev) (snd s')) 69 = [16, 17, 18, 19, 20, 21, 22, 23] \<and>
     kt_rxmic (stack_regs (\<lambda>dev. dev) (snd s')) 69 = [24, 25, 26, 27, 28, 29, 30, 31]"
proof -
  have l: "(5 :: nat) < 64" "keymax (ex_common True []) = 128" "mic_combined (ex_common True [])"
    "length (map word_of_nat [0 ..< 32] :: bytes) = 32" "length ex_sta = 6"
    by (simp_all add: ex_common_fields ex_sta_def)
  have m: "take 8 (drop 16 (map word_of_nat [0 ..< 32])) = ([16, 17, 18, 19, 20, 21, 22, 23] :: bytes)"
    "drop 24 (map word_of_nat [0 ..< 32]) = ([24, 25, 26, 27, 28, 29, 30, 31] :: bytes)"
    by (simp_all add: upt_rec)
  show ?thesis
    using tkip_key_installs [OF ex_ops_ok(1) [of "\<lambda>_. 0"] ex_ops_ok(2) l refl, of False] unfolding m by auto
qed



end
