(* ===== verification/Ath9k_Common.thy ===== *)
theory Ath9k_Common
  imports Key_Cache
begin

text \<open>
  The functions \<open>ath9k\<close> and \<open>ath9k_htc\<close> share (\<open>ath9k/common.c\<close>): the position of the header
  padding, the key type of a frame, the channel mode, the number of spatial streams of a chain
  mask, and the reset of the key cache; with the frame-control tests of
  \<open>include/linux/ieee80211.h\<close> and the header length of \<open>net/wireless/util.c\<close> that the transmit
  and receive paths use. A frame-control word is the 16-bit value after \<open>le16_to_cpu\<close>.
\<close>

section \<open>Frame control\<close>

abbreviation (input) IEEE80211_FCTL_FTYPE :: u16 where "IEEE80211_FCTL_FTYPE \<equiv> 0x000c"
abbreviation (input) IEEE80211_FCTL_STYPE :: u16 where "IEEE80211_FCTL_STYPE \<equiv> 0x00f0"
abbreviation (input) IEEE80211_FCTL_TODS :: u16 where "IEEE80211_FCTL_TODS \<equiv> 0x0100"
abbreviation (input) IEEE80211_FCTL_FROMDS :: u16 where "IEEE80211_FCTL_FROMDS \<equiv> 0x0200"
abbreviation (input) IEEE80211_FCTL_PROTECTED :: u16 where "IEEE80211_FCTL_PROTECTED \<equiv> 0x4000"
abbreviation (input) IEEE80211_FCTL_ORDER :: u16 where "IEEE80211_FCTL_ORDER \<equiv> 0x8000"
abbreviation (input) IEEE80211_FTYPE_MGMT :: u16 where "IEEE80211_FTYPE_MGMT \<equiv> 0x0000"
abbreviation (input) IEEE80211_FTYPE_CTL :: u16 where "IEEE80211_FTYPE_CTL \<equiv> 0x0004"
abbreviation (input) IEEE80211_FTYPE_DATA :: u16 where "IEEE80211_FTYPE_DATA \<equiv> 0x0008"
abbreviation (input) IEEE80211_STYPE_PROBE_RESP :: u16 where "IEEE80211_STYPE_PROBE_RESP \<equiv> 0x0050"
abbreviation (input) IEEE80211_STYPE_BEACON :: u16 where "IEEE80211_STYPE_BEACON \<equiv> 0x0080"
abbreviation (input) IEEE80211_STYPE_QOS_DATA :: u16 where "IEEE80211_STYPE_QOS_DATA \<equiv> 0x0080"
abbreviation (input) IEEE80211_QOS_CTL_LEN :: nat where "IEEE80211_QOS_CTL_LEN \<equiv> 2"
abbreviation (input) IEEE80211_HT_CTL_LEN :: nat where "IEEE80211_HT_CTL_LEN \<equiv> 4"

definition ieee80211_has_a4 :: "u16 \<Rightarrow> bool" where
  "ieee80211_has_a4 fc \<longleftrightarrow>
     fc AND (IEEE80211_FCTL_TODS OR IEEE80211_FCTL_FROMDS) = IEEE80211_FCTL_TODS OR IEEE80211_FCTL_FROMDS"

definition ieee80211_has_protected :: "u16 \<Rightarrow> bool" where
  "ieee80211_has_protected fc \<longleftrightarrow> fc AND IEEE80211_FCTL_PROTECTED \<noteq> 0"

definition ieee80211_has_order :: "u16 \<Rightarrow> bool" where
  "ieee80211_has_order fc \<longleftrightarrow> fc AND IEEE80211_FCTL_ORDER \<noteq> 0"

definition ieee80211_is_ctl :: "u16 \<Rightarrow> bool" where
  "ieee80211_is_ctl fc \<longleftrightarrow> fc AND IEEE80211_FCTL_FTYPE = IEEE80211_FTYPE_CTL"

definition ieee80211_is_data :: "u16 \<Rightarrow> bool" where
  "ieee80211_is_data fc \<longleftrightarrow> fc AND IEEE80211_FCTL_FTYPE = IEEE80211_FTYPE_DATA"

definition ieee80211_is_data_qos :: "u16 \<Rightarrow> bool" where
  "ieee80211_is_data_qos fc \<longleftrightarrow>
     fc AND (IEEE80211_FCTL_FTYPE OR IEEE80211_STYPE_QOS_DATA) = IEEE80211_FTYPE_DATA OR IEEE80211_STYPE_QOS_DATA"

definition ieee80211_is_probe_resp :: "u16 \<Rightarrow> bool" where
  "ieee80211_is_probe_resp fc \<longleftrightarrow>
     fc AND (IEEE80211_FCTL_FTYPE OR IEEE80211_FCTL_STYPE) = IEEE80211_FTYPE_MGMT OR IEEE80211_STYPE_PROBE_RESP"

definition ieee80211_is_beacon :: "u16 \<Rightarrow> bool" where
  "ieee80211_is_beacon fc \<longleftrightarrow>
     fc AND (IEEE80211_FCTL_FTYPE OR IEEE80211_FCTL_STYPE) = IEEE80211_FTYPE_MGMT OR IEEE80211_STYPE_BEACON"

definition qos_ctl_off :: "u16 \<Rightarrow> nat" where
  \<comment> \<open>the offset of \<open>ieee80211_get_qos_ctl(hdr)\<close> in the frame\<close>
  "qos_ctl_off fc = (if ieee80211_has_a4 fc then 30 else 24)"

definition ieee80211_hdrlen :: "u16 \<Rightarrow> nat" where
  "ieee80211_hdrlen fc =
     (if ieee80211_is_data fc then
        (let hdrlen = (if ieee80211_has_a4 fc then 30 else 24) in
         if ieee80211_is_data_qos fc then
           (let hdrlen = hdrlen + IEEE80211_QOS_CTL_LEN in
            if ieee80211_has_order fc then hdrlen + IEEE80211_HT_CTL_LEN else hdrlen)
         else hdrlen)
      else if ieee80211_is_ctl fc then (if fc AND 0x00E0 = 0x00C0 then 10 else 16)
      else 24)"

definition ieee80211_get_hdrlen_from_skb :: "sk_buff \<Rightarrow> nat option" where
  "ieee80211_get_hdrlen_from_skb skb =
     (if skb_len skb < 10 then Some 0
      else do {
        fc \<leftarrow> get_le16 (skb_mem skb) 0;
        let hdrlen = ieee80211_hdrlen fc;
        Some (if skb_len skb < hdrlen then 0 else hdrlen) })"

section \<open>Shared driver functions\<close>

definition ath9k_cmn_padpos :: "u16 \<Rightarrow> nat" where
  "ath9k_cmn_padpos frame_control =
     (let padpos = 24;
          padpos = (if ieee80211_has_a4 frame_control then padpos + 6 else padpos);
          padpos = (if ieee80211_is_data_qos frame_control then padpos + IEEE80211_QOS_CTL_LEN else padpos)
      in padpos)"

abbreviation (input) ATH9K_KEY_TYPE_CLEAR :: u8 where "ATH9K_KEY_TYPE_CLEAR \<equiv> 0"
abbreviation (input) ATH9K_KEY_TYPE_WEP :: u8 where "ATH9K_KEY_TYPE_WEP \<equiv> 1"
abbreviation (input) ATH9K_KEY_TYPE_AES :: u8 where "ATH9K_KEY_TYPE_AES \<equiv> 2"
abbreviation (input) ATH9K_KEY_TYPE_TKIP :: u8 where "ATH9K_KEY_TYPE_TKIP \<equiv> 3"

definition ath9k_cmn_get_hw_crypto_keytype :: "sk_buff \<Rightarrow> u8" where
  "ath9k_cmn_get_hw_crypto_keytype skb =
     (case info_hw_key (skb_info skb) of
        Some (cipher, idx) \<Rightarrow>
          if cipher = WLAN_CIPHER_SUITE_WEP40 \<or> cipher = WLAN_CIPHER_SUITE_WEP104 then ATH9K_KEY_TYPE_WEP
          else if cipher = WLAN_CIPHER_SUITE_TKIP then ATH9K_KEY_TYPE_TKIP
          else if cipher = WLAN_CIPHER_SUITE_CCMP then ATH9K_KEY_TYPE_AES
          else ATH9K_KEY_TYPE_CLEAR
      | None \<Rightarrow> ATH9K_KEY_TYPE_CLEAR)"

datatype ieee80211_band = BAND_2GHZ | BAND_5GHZ | BAND_60GHZ

datatype nl80211_channel_type = CHAN_NO_HT | CHAN_HT20 | CHAN_HT40MINUS | CHAN_HT40PLUS

record ieee80211_chan =
  ch_band :: ieee80211_band
  ch_center_freq :: u16
  ch_hw_value :: u16

record ath9k_channel =
  ic_chan :: ieee80211_chan
  ic_channel :: u16
  channelFlags :: u32
  chanmode :: u32

abbreviation (input) CHANNEL_OFDM :: u32 where "CHANNEL_OFDM \<equiv> 0x00040"
abbreviation (input) CHANNEL_2GHZ :: u32 where "CHANNEL_2GHZ \<equiv> 0x00080"
abbreviation (input) CHANNEL_5GHZ :: u32 where "CHANNEL_5GHZ \<equiv> 0x00100"
abbreviation (input) CHANNEL_HT20 :: u32 where "CHANNEL_HT20 \<equiv> 0x10000"
abbreviation (input) CHANNEL_HT40PLUS :: u32 where "CHANNEL_HT40PLUS \<equiv> 0x20000"
abbreviation (input) CHANNEL_HT40MINUS :: u32 where "CHANNEL_HT40MINUS \<equiv> 0x40000"
abbreviation (input) CHANNEL_A :: u32 where "CHANNEL_A \<equiv> CHANNEL_5GHZ OR CHANNEL_OFDM"
abbreviation (input) CHANNEL_G :: u32 where "CHANNEL_G \<equiv> CHANNEL_2GHZ OR CHANNEL_OFDM"

definition ath9k_get_extchanmode :: "ieee80211_chan \<Rightarrow> nl80211_channel_type \<Rightarrow> u32" where
  "ath9k_get_extchanmode chan channel_type =
     (case ch_band chan of
        BAND_2GHZ \<Rightarrow> (case channel_type of
            CHAN_HT40PLUS \<Rightarrow> CHANNEL_2GHZ OR CHANNEL_HT40PLUS
          | CHAN_HT40MINUS \<Rightarrow> CHANNEL_2GHZ OR CHANNEL_HT40MINUS
          | _ \<Rightarrow> CHANNEL_2GHZ OR CHANNEL_HT20)
      | BAND_5GHZ \<Rightarrow> (case channel_type of
            CHAN_HT40PLUS \<Rightarrow> CHANNEL_5GHZ OR CHANNEL_HT40PLUS
          | CHAN_HT40MINUS \<Rightarrow> CHANNEL_5GHZ OR CHANNEL_HT40MINUS
          | _ \<Rightarrow> CHANNEL_5GHZ OR CHANNEL_HT20)
      | BAND_60GHZ \<Rightarrow> 0)"

definition ath9k_cmn_update_ichannel ::
  "ath9k_channel \<Rightarrow> ieee80211_chan \<Rightarrow> nl80211_channel_type \<Rightarrow> ath9k_channel" where
  "ath9k_cmn_update_ichannel ichan chan channel_type =
     (let ichan = ichan\<lparr>ic_chan := chan, ic_channel := ch_center_freq chan\<rparr>;
          ichan = (if ch_band chan = BAND_2GHZ
                   then ichan\<lparr>channelFlags := CHANNEL_2GHZ OR CHANNEL_OFDM, chanmode := CHANNEL_G\<rparr>
                   else ichan\<lparr>channelFlags := CHANNEL_5GHZ OR CHANNEL_OFDM, chanmode := CHANNEL_A\<rparr>)
      in if channel_type \<noteq> CHAN_NO_HT then ichan\<lparr>chanmode := ath9k_get_extchanmode chan channel_type\<rparr>
         else ichan)"

definition ath9k_cmn_get_curchannel ::
  "ieee80211_chan \<Rightarrow> nl80211_channel_type \<Rightarrow> ath9k_channel list \<Rightarrow> (ath9k_channel \<times> ath9k_channel list) option" where
  \<comment> \<open>the current channel and its type (\<open>hw->conf\<close>), and \<open>ah->channels\<close>\<close>
  "ath9k_cmn_get_curchannel curchan channel_type channels =
     (let i = unat (ucast (ch_hw_value curchan) :: u8) in
      if i < length channels then
        (let c = ath9k_cmn_update_ichannel (channels ! i) curchan channel_type
         in Some (c, channels[i := c]))
      else None)"

lemma and_pred_even: "m \<noteq> 0 \<Longrightarrow> 2 * m AND (2 * m - 1) = 2 * (m AND (m - 1))" for m :: nat
proof -
  assume "m \<noteq> 0"
  then obtain k where m: "m = Suc k" by (cases m) simp_all
  have "2 * m - 1 = Suc (2 * k)" by (simp add: m)
  then show ?thesis by (subst and_nat_rec) (simp add: m)
qed

lemma and_pred_odd: "Suc (2 * m) AND (Suc (2 * m) - 1) = 2 * m" for m :: nat
  by (subst and_nat_rec) simp

lemma and_pred_less: "n \<noteq> 0 \<Longrightarrow> n AND (n - 1) < (n :: nat)"
proof (induction n rule: less_induct)
  case (less n)
  show ?case
  proof (cases "even n")
    case True
    then obtain m where n: "n = 2 * m" by blast
    then have "m \<noteq> 0" using less.prems by simp
    then show ?thesis using less.IH [of m] and_pred_even [of m] by (simp add: n)
  next
    case False
    then obtain m where n: "n = Suc (2 * m)" by (metis oddE Suc_eq_plus1)
    show ?thesis using and_pred_odd [of m] by (simp add: n)
  qed
qed

lemma unat_and_pred: "x \<noteq> 0 \<Longrightarrow> unat (x AND (x - 1)) = unat x AND (unat x - 1)" for x :: u32
  by (simp add: unsigned_and_eq unat_minus_one)

function count_streams_loop :: "u32 \<Rightarrow> int \<Rightarrow> int \<Rightarrow> int" where
  \<comment> \<open>the \<open>do\<close> loop\<close>
  "count_streams_loop chainmask limit streams =
     (let streams = streams + 1 in
      if streams = limit then streams
      else let chainmask = chainmask AND (chainmask - 1) in
           if chainmask \<noteq> 0 then count_streams_loop chainmask limit streams else streams)"
  by pat_completeness auto
termination
proof (relation "measure (\<lambda>(m, _, _). unat m)")
  show "wf (measure (\<lambda>(m, _, _). unat m))" by simp
  fix chainmask :: u32 and limit streams x y
  assume "y = chainmask AND (chainmask - 1)" "y \<noteq> 0"
  then show "((y, limit, x), chainmask, limit, streams) \<in> measure (\<lambda>(m, _, _). unat m)"
    using and_pred_less [of "unat chainmask"] unat_and_pred [of chainmask]
    by (cases "chainmask = 0") (auto simp: unsigned_eq_0_iff)
qed

declare count_streams_loop.simps [simp del]

definition ath9k_cmn_count_streams :: "u32 \<Rightarrow> int \<Rightarrow> int" where
  "ath9k_cmn_count_streams chainmask limit = count_streams_loop chainmask limit 0"

abbreviation (input) AR_KEYTABLE_SIZE :: nat where "AR_KEYTABLE_SIZE \<equiv> 128"
abbreviation (input) AR_PCU_MIC_NEW_LOC_ENA :: u32 where "AR_PCU_MIC_NEW_LOC_ENA \<equiv> 4"

fun keyreset_loop :: "'s ath_ops \<Rightarrow> ath_common \<Rightarrow> nat list \<Rightarrow> 's \<Rightarrow> 's option" where
  "keyreset_loop ops common [] s = Some s"
| "keyreset_loop ops common (i # is) s = do {
     (ok, s) \<leftarrow> ath_hw_keyreset ops common i s;
     keyreset_loop ops common is s }"

definition ath9k_cmn_init_crypto ::
  "'s ath_ops \<Rightarrow> u32 \<Rightarrow> ath_common \<Rightarrow> 's \<Rightarrow> (ath_common \<times> 's) option" where
  \<comment> \<open>the second argument is \<open>ah->misc_mode\<close>\<close>
  "ath9k_cmn_init_crypto ops misc_mode common s = do {
     let common = common\<lparr>keymax := AR_KEYTABLE_SIZE\<rparr>;
     let common = (if has_flag misc_mode AR_PCU_MIC_NEW_LOC_ENA
                   then common\<lparr>crypt_caps := crypt_caps common OR ATH_CRYPT_CAP_MIC_COMBINED\<rparr> else common);
     s \<leftarrow> keyreset_loop ops common [0 ..< keymax common] s;
     Some (common, s) }"

section \<open>Lemmas\<close>

fun popcount :: "nat \<Rightarrow> nat" where
  "popcount n = (if n = 0 then 0 else n mod 2 + popcount (n div 2))"

declare popcount.simps [simp del]

lemma popcount_0 [simp]: "popcount 0 = 0" by (simp add: popcount.simps)

lemma popcount_double: "popcount (2 * m) = popcount m" "popcount (Suc (2 * m)) = Suc (popcount m)"
  by (simp_all add: popcount.simps [of "2 * m"] popcount.simps [of "Suc (2 * m)"])

lemma popcount_clear_lowest: "n \<noteq> 0 \<Longrightarrow> Suc (popcount (n AND (n - 1))) = popcount n"
proof (induction n rule: less_induct)
  case (less n)
  show ?case
  proof (cases "even n")
    case True
    then obtain m where n: "n = 2 * m" by blast
    have m: "m \<noteq> 0" using less.prems n by simp
    have "n AND (n - 1) = 2 * (m AND (m - 1))" using and_pred_even [OF m] by (simp only: n)
    then show ?thesis using less.IH [of m] m by (simp add: n popcount_double)
  next
    case False
    then obtain m where n: "n = Suc (2 * m)" by (metis oddE Suc_eq_plus1)
    have "n AND (n - 1) = 2 * m" using and_pred_odd [of m] by (simp only: n)
    then show ?thesis by (simp add: n popcount_double)
  qed
qed

lemma popcount_pos: "n \<noteq> 0 \<Longrightarrow> 0 < popcount n"
  using popcount_clear_lowest [of n] by linarith

lemma count_streams_loop_popcount:
  "count_streams_loop m limit k =
     (let n = k + int (Suc (popcount (unat m) - 1)) in if k < limit then min n limit else n)"
proof (induction m limit k rule: count_streams_loop.induct)
  case (1 m limit k)
  let ?m = "m AND (m - 1)"
  show ?case
  proof (cases "k + 1 = limit \<or> ?m = 0")
    case True
    have z: "?m = 0 \<Longrightarrow> popcount (unat m) - 1 = 0"
      using popcount_clear_lowest [of "unat m"] unat_and_pred [of m] by (cases "m = 0") (auto simp: unsigned_eq_0_iff)
    show ?thesis
      using True z by (subst count_streams_loop.simps) (auto simp: Let_def min_def)
  next
    case False
    have m: "m \<noteq> 0" using False by auto
    have "unat ?m \<noteq> 0" using False by (simp add: unsigned_eq_0_iff)
    then have p: "popcount (unat m) = Suc (popcount (unat ?m))" "0 < popcount (unat ?m)"
      using popcount_clear_lowest [of "unat m"] unat_and_pred [OF m] popcount_pos [of "unat ?m"] m
      by (auto simp: unsigned_eq_0_iff)
    have "count_streams_loop m limit k = count_streams_loop ?m limit (k + 1)"
      using False by (subst count_streams_loop.simps) (simp add: Let_def)
    then show ?thesis using "1.IH" [OF refl _ refl] False p by (auto simp: Let_def min_def)
  qed
qed

lemma keyreset_loop_snoc:
  "keyreset_loop ops common (is @ [i]) s =
     keyreset_loop ops common is s \<bind> (\<lambda>s. ath_hw_keyreset ops common i s \<bind> (\<lambda>(ok, s). Some s))"
proof (induction "is" arbitrary: s)
  case (Cons a "is")
  then show ?case by (cases "ath_hw_keyreset ops common a s") auto
next
  case Nil
  show ?case by (cases "ath_hw_keyreset ops common i s") auto
qed

definition kt_clear :: "(u32 \<Rightarrow> u32) \<Rightarrow> nat \<Rightarrow> bool" where
  \<comment> \<open>entry \<open>n\<close> of the key table holds no key, no address and the type for clear text\<close>
  "kt_clear m n \<longleftrightarrow> (\<forall>i < 8. m (kt_reg n i) = (if i = 5 then AR_KEYTABLE_TYPE_CLR else 0))"

lemma keyreset_writes_mem:
  assumes n: "n < 128" and m': "m' = apply_writes (key_writes n (0, 0, 0, 0, 0) AR_KEYTABLE_TYPE_CLR (0, 0) @ mics) m"
    and mics: "fst ` set mics \<subseteq> kt_reg (n + 64) ` {..< 6}"
  shows "kt_clear m' n" and "e < n \<Longrightarrow> kt_clear m e \<Longrightarrow> kt_clear m' e"
    and "r \<notin> kt_reg n ` {..< 8} \<Longrightarrow> r \<notin> fst ` set mics \<Longrightarrow> m' r = m r"
proof -
  define m1 where "m1 = apply_writes (key_writes n (0, 0, 0, 0, 0) AR_KEYTABLE_TYPE_CLR (0, 0)) m"
  have n256: "n < 256" using n by simp
  note w = key_writes_mem [OF n256 m1_def]
  have m1': "m' = apply_writes mics m1" by (simp add: m' m1_def apply_writes_append)
  have other: "m' r = m1 r" if "r \<notin> fst ` set mics" for r
    using that by (simp add: m1' apply_writes_other)
  have out: "kt_reg k i \<notin> fst ` set mics" if "k \<le> n" "i < 8" for k i
    using mics that n kt_reg_eq [of k "n + 64" i] by auto
  have c: "m1 (kt_reg n i) = (if i = 5 then AR_KEYTABLE_TYPE_CLR else 0)" if "i < 8" for i
    using that w by (auto simp: less_Suc_eq numeral_eq_Suc)
  show "kt_clear m' n" using c out [of n] by (auto simp: kt_clear_def other)
  show "e < n \<Longrightarrow> kt_clear m e \<Longrightarrow> kt_clear m' e"
    using out [of e] n kt_reg_eq [of e n] by (auto simp: kt_clear_def other intro!: trans [OF w(9)])
  show "r \<notin> kt_reg n ` {..< 8} \<Longrightarrow> r \<notin> fst ` set mics \<Longrightarrow> m' r = m r"
    using other w(9) by simp
qed

lemma keyreset_frame:
  assumes n: "n < 128" and m': "m' = apply_writes (key_writes n (0, 0, 0, 0, 0) AR_KEYTABLE_TYPE_CLR (0, 0) @ mics) m"
    and mics: "fst ` set mics \<subseteq> kt_reg (n + 64) ` {..< 6}" "\<forall>(r, v) \<in> set mics. v \<noteq> AR_KEYTABLE_TYPE_TKIP"
      "m (kt_reg n 5) \<noteq> AR_KEYTABLE_TYPE_TKIP \<longrightarrow> mics = []"
    and ty: "\<forall>e. 64 \<le> e \<and> e < 128 \<longrightarrow> m (kt_reg e 5) \<noteq> AR_KEYTABLE_TYPE_TKIP"
  shows "\<forall>e. 64 \<le> e \<and> e < 128 \<longrightarrow> m' (kt_reg e 5) \<noteq> AR_KEYTABLE_TYPE_TKIP"
    and "\<forall>e < 128. r \<notin> kt_reg e ` {..< 8} \<Longrightarrow> m' r = m r"
proof -
  note w = keyreset_writes_mem [OF n m' mics(1)]
  have val: "apply_writes ps g r \<noteq> v" if "g r \<noteq> v" "\<forall>(r, x) \<in> set ps. x \<noteq> v" for ps g r v
    using that
  proof (induction ps arbitrary: g)
    case (Cons p ps)
    then show ?case using Cons.IH [of "g(fst p := snd p)"] by (cases p) auto
  qed simp
  show "\<forall>e. 64 \<le> e \<and> e < 128 \<longrightarrow> m' (kt_reg e 5) \<noteq> AR_KEYTABLE_TYPE_TKIP"
  proof (intro allI impI)
    fix e :: nat
    assume e: "64 \<le> e \<and> e < 128"
    show "m' (kt_reg e 5) \<noteq> AR_KEYTABLE_TYPE_TKIP"
      unfolding m' by (rule val) (use ty e mics(2) in \<open>auto simp: key_writes_def\<close>)
  qed
  assume r: "\<forall>e < 128. r \<notin> kt_reg e ` {..< 8}"
  have "r \<notin> fst ` set mics"
  proof (cases "n < 64")
    case True
    then have "r \<notin> kt_reg (n + 64) ` {..< 8}" using r by simp
    then show ?thesis using mics(1) by fastforce
  next
    case False
    then show ?thesis using ty n mics(3) by simp
  qed
  then show "m' r = m r" using w(3) r n by blast
qed

context ath_regs
begin

lemma keyreset_loop_mem:
  assumes "ok s" and "depth s = 0" and "keymax common = 128" and "n \<le> 128"
  shows "\<exists>s'. keyreset_loop ops common [0 ..< n] s = Some s' \<and> ok s' \<and> depth s' = 0 \<and>
    (\<forall>e < n. kt_clear (mem s') e) \<and>
    ((\<forall>e. 64 \<le> e \<and> e < 128 \<longrightarrow> mem s (kt_reg e 5) \<noteq> AR_KEYTABLE_TYPE_TKIP) \<longrightarrow>
      (\<forall>e. 64 \<le> e \<and> e < 128 \<longrightarrow> mem s' (kt_reg e 5) \<noteq> AR_KEYTABLE_TYPE_TKIP) \<and>
      (\<forall>r. (\<forall>e < 128. r \<notin> kt_reg e ` {..< 8}) \<longrightarrow> mem s' r = mem s r))"
  using assms(4)
proof (induction n)
  case 0
  then show ?case using assms(1,2) by simp
next
  case (Suc n)
  then obtain s1 where s1: "keyreset_loop ops common [0 ..< n] s = Some s1" "ok s1" "depth s1 = 0"
    and cl: "\<forall>e < n. kt_clear (mem s1) e"
    and fr: "(\<forall>e. 64 \<le> e \<and> e < 128 \<longrightarrow> mem s (kt_reg e 5) \<noteq> AR_KEYTABLE_TYPE_TKIP) \<Longrightarrow>
      (\<forall>e. 64 \<le> e \<and> e < 128 \<longrightarrow> mem s1 (kt_reg e 5) \<noteq> AR_KEYTABLE_TYPE_TKIP) \<and>
      (\<forall>r. (\<forall>e < 128. r \<notin> kt_reg e ` {..< 8}) \<longrightarrow> mem s1 r = mem s r)"
    by auto
  have n: "n < 128" "n < keymax common" using Suc.prems assms(3) by simp_all
  obtain s2 mics where s2: "ath_hw_keyreset ops common n s1 = Some (True, s2)" "ok s2" "depth s2 = 0"
    and m2: "mem s2 = apply_writes (key_writes n (0, 0, 0, 0, 0) AR_KEYTABLE_TYPE_CLR (0, 0) @ mics) (mem s1)"
    and mics: "fst ` set mics \<subseteq> kt_reg (n + 64) ` {..< 6}"
      "mem s1 (kt_reg n 5) \<noteq> AR_KEYTABLE_TYPE_TKIP \<longrightarrow> mics = []"
      "mem s1 (kt_reg n 5) = AR_KEYTABLE_TYPE_TKIP \<longrightarrow>
       mics = map (\<lambda>i. (kt_reg (n + 64) i, 0)) [0 ..< 4] @
         (if mic_combined common then [(kt_reg (n + 64) 4, 0), (kt_reg (n + 64) 5, AR_KEYTABLE_TYPE_CLR)] else [])"
    using keyreset_mem [OF s1(2,3) n(2)] by blast
  note w = keyreset_writes_mem [OF n(1) m2 mics(1)]
  have run: "keyreset_loop ops common [0 ..< Suc n] s = Some s2"
    using s1(1) s2(1) by (simp add: keyreset_loop_snoc)
  have cl2: "\<forall>e < Suc n. kt_clear (mem s2) e" using cl w(1,2) by (auto simp: less_Suc_eq)
  have fr2: "(\<forall>e. 64 \<le> e \<and> e < 128 \<longrightarrow> mem s2 (kt_reg e 5) \<noteq> AR_KEYTABLE_TYPE_TKIP) \<and>
      (\<forall>r. (\<forall>e < 128. r \<notin> kt_reg e ` {..< 8}) \<longrightarrow> mem s2 r = mem s r)"
    if h: "\<forall>e. 64 \<le> e \<and> e < 128 \<longrightarrow> mem s (kt_reg e 5) \<noteq> AR_KEYTABLE_TYPE_TKIP"
  proof -
    have v: "\<forall>(r, v) \<in> set mics. v \<noteq> AR_KEYTABLE_TYPE_TKIP" using mics(2,3) by (auto split: if_splits)
    note f = keyreset_frame [OF n(1) m2 mics(1) v mics(2) conjunct1 [OF fr [OF h]]]
    show ?thesis using f fr [OF h] by simp
  qed
  show ?case using run s2(2,3) cl2 fr2 by blast
qed

end

section \<open>Properties\<close>

text \<open>Counting streams. The loop of \<open>ath9k_cmn_count_streams\<close>, which clears the lowest set bit of
  the chain mask in each round, ends for every mask and limit and returns the number of set bits,
  at least 1 and, for a positive limit, at most the limit.\<close>

theorem count_streams_equiv:
  "ath9k_cmn_count_streams chainmask limit =
     (let n = max 1 (int (popcount (unat chainmask))) in if 0 < limit then min n limit else n)"
proof -
  have "1 + int (p - 1) = max 1 (int p)" for p :: nat by (cases p) simp_all
  then show ?thesis by (simp add: ath9k_cmn_count_streams_def count_streams_loop_popcount Let_def)
qed

text \<open>Padding position and header length. For every data frame without an HT control field, and for
  every management frame of a plain format, \<open>ath9k_cmn_padpos\<close> is the length of the header, so the
  padding stands between header and body; with an HT control field it stands four bytes too early,
  inside the header. Only 0 or 2 bytes of padding ever occur.\<close>

theorem padpos_is_hdrlen:
  "(ieee80211_is_data fc \<longrightarrow>
      ath9k_cmn_padpos fc + (if ieee80211_is_data_qos fc \<and> ieee80211_has_order fc then 4 else 0) = ieee80211_hdrlen fc) \<and>
   (\<not> ieee80211_is_data fc \<and> \<not> ieee80211_is_ctl fc \<and> \<not> ieee80211_has_a4 fc \<longrightarrow>
      ath9k_cmn_padpos fc = ieee80211_hdrlen fc) \<and>
   ath9k_cmn_padpos fc mod 4 = (if ieee80211_has_a4 fc = ieee80211_is_data_qos fc then 0 else 2)"
proof -
  have q: "ieee80211_is_data fc" if "ieee80211_is_data_qos fc"
  proof -
    have "fc AND 0xc = (fc AND (0xc OR 0x80)) AND 0xc" by (simp add: and.assoc)
    then show ?thesis using that by (simp add: ieee80211_is_data_def ieee80211_is_data_qos_def)
  qed
  show ?thesis using q by (auto simp: ath9k_cmn_padpos_def ieee80211_hdrlen_def Let_def)
qed

theorem padpos_is_hdrlen_witness:
  "ath9k_cmn_padpos 0x0188 = ieee80211_hdrlen 0x0188 \<and> ath9k_cmn_padpos 0x0188 mod 4 = 2 \<and>
   ath9k_cmn_padpos 0x8188 + 4 = ieee80211_hdrlen 0x8188"
  using padpos_is_hdrlen [of "0x0188"] padpos_is_hdrlen [of "0x8188"]
  by (simp add: ieee80211_is_data_def ieee80211_is_data_qos_def ieee80211_has_order_def ieee80211_has_a4_def)
    (metis)

text \<open>Resetting the key cache, over the whole stack. Whatever the key table holds at power-up,
  \<open>ath9k_cmn_init_crypto\<close> returns and leaves all 128 entries without key, address and type. It
  touches no register outside the table unless an entry above 63 claims to hold a TKIP key; the
  reset of such an entry also clears the entry 64 further on, past the end of the table.\<close>

theorem init_crypto_clears:
  assumes "htc_ops_ok env alloc fw regs junk s" and "htc_ops_depth s = 0"
  shows "\<exists>common' s'. ath9k_cmn_init_crypto (htc_ops (wmi_stack env alloc fw) junk) misc_mode common s
      = Some (common', s') \<and>
    keymax common' = 128 \<and> (has_flag misc_mode AR_PCU_MIC_NEW_LOC_ENA \<longrightarrow> mic_combined common') \<and>
    (\<forall>e < 128. kt_clear (stack_regs regs (snd s')) e) \<and>
    ((\<forall>e. 64 \<le> e \<and> e < 128 \<longrightarrow> stack_regs regs (snd s) (AR_KEYTABLE_TYPE e) \<noteq> AR_KEYTABLE_TYPE_TKIP) \<longrightarrow>
      (\<forall>r. (\<forall>e < 128. r \<notin> kt_reg e ` {..< 8}) \<longrightarrow> stack_regs regs (snd s') r = stack_regs regs (snd s) r))"
proof -
  define c where "c = (let common = common\<lparr>keymax := AR_KEYTABLE_SIZE\<rparr> in
     if has_flag misc_mode AR_PCU_MIC_NEW_LOC_ENA
     then common\<lparr>crypt_caps := crypt_caps common OR ATH_CRYPT_CAP_MIC_COMBINED\<rparr> else common)"
  have c: "keymax c = 128" by (simp add: c_def Let_def)
  have mc: "has_flag misc_mode AR_PCU_MIC_NEW_LOC_ENA \<longrightarrow> mic_combined c"
    by (auto simp: c_def Let_def mic_combined_def has_flag_def bit_eq_iff [of _ 0] bit_simps)
  obtain s' where a: "keyreset_loop (htc_ops (wmi_stack env alloc fw) junk) c [0 ..< 128] s = Some s'"
    "htc_ops_ok env alloc fw regs junk s'" "htc_ops_depth s' = 0"
    and m: "\<forall>e < 128. kt_clear (htc_ops_mem regs s') e"
      "(\<forall>e. 64 \<le> e \<and> e < 128 \<longrightarrow> htc_ops_mem regs s (kt_reg e 5) \<noteq> AR_KEYTABLE_TYPE_TKIP) \<longrightarrow>
      (\<forall>e. 64 \<le> e \<and> e < 128 \<longrightarrow> htc_ops_mem regs s' (kt_reg e 5) \<noteq> AR_KEYTABLE_TYPE_TKIP) \<and>
      (\<forall>r. (\<forall>e < 128. r \<notin> kt_reg e ` {..< 8}) \<longrightarrow> htc_ops_mem regs s' r = htc_ops_mem regs s r)"
    using ho.keyreset_loop_mem [OF assms c order_refl] by blast
  have f: "htc_ops_mem regs s = stack_regs regs (snd s)" "htc_ops_mem regs s' = stack_regs regs (snd s')"
    using htc_ops_mem_device assms a(2,3) by metis+
  have "ath9k_cmn_init_crypto (htc_ops (wmi_stack env alloc fw) junk) misc_mode common s = Some (c, s')"
    using a(1) c by (simp add: ath9k_cmn_init_crypto_def c_def Let_def split: if_splits)
  then show ?thesis using c mc m unfolding f kt_regs by blast
qed

theorem init_crypto_clears_witness:
  "\<exists>common' s'. ath9k_cmn_init_crypto (htc_ops (wmi_stack ex_env (ex_alloc 0) ex_fw) [0, 0, 0, 0]) 4
       (ex_common False []) (ex_wmi, (ex_target, ex_dev, \<lambda>_. 1)) = Some (common', s') \<and>
     kt_clear (stack_regs (\<lambda>dev. dev) (snd s')) 7 \<and> stack_regs (\<lambda>dev. dev) (snd s') 0x9800 = 1"
proof -
  have r: "\<forall>e < 128. (0x9800 :: u32) \<notin> kt_reg e ` {..< 8}"
  proof (intro allI impI notI)
    fix e :: nat
    assume e: "e < 128" "(0x9800 :: u32) \<in> kt_reg e ` {..< 8}"
    then obtain i where i: "i < 8" "kt_reg e i = 0x9800" by force
    have "unat (kt_reg e i) = 0x9800" unfolding i(2) by simp
    then show False using e(1) i(1) unat_kt_reg [of e i] by simp
  qed
  have st: "stack_regs (\<lambda>dev. dev) (snd (ex_wmi, (ex_target, ex_dev, \<lambda>_. 1))) x = 1" for x
    by (simp add: stack_regs_def)
  show ?thesis
    using init_crypto_clears [OF ex_ops_ok(1) [of "\<lambda>_. 1"] ex_ops_ok(2), of 4 "ex_common False []"] r
    unfolding st by auto
qed

end
