(* ===== verification/Htc_Tx.thy ===== *)
theory Htc_Tx
  imports Ath9k_Common "HOL-Library.Multiset"
begin

text \<open>
  The transmit path between mac80211 and HTC (\<open>ath9k/htc_drv_txrx.c\<close> and \<open>ath9k_htc_tx\<close> of
  \<open>ath9k/htc_drv_main.c\<close>). A frame takes one of 256 slots; the slot number travels as a cookie in
  the driver header to the target and back in the transmit status. Between the USB completion and
  the status the frame waits in the queue of its endpoint; frames whose URB failed wait in
  \<open>tx_failed\<close>, and a timer returns frames whose status never comes.

  The state is \<open>ath9k_htc_priv\<close>, the part of \<open>struct ath9k_htc_priv\<close> the path uses. Stations and
  interfaces are mac80211's objects: they are named by numbers, \<open>ieee80211_find_sta\<close> is a
  parameter. What the driver asks of mac80211 is the list of \<open>mac_call\<close>s an operation returns.
\<close>

section \<open>State\<close>

abbreviation (input) ATH9K_HTC_TX_CTSONLY :: u32 where "ATH9K_HTC_TX_CTSONLY \<equiv> 1"
abbreviation (input) ATH9K_HTC_TX_RTSCTS :: u32 where "ATH9K_HTC_TX_RTSCTS \<equiv> 2"
abbreviation (input) ATH9K_TXKEYIX_INVALID :: u8 where "ATH9K_TXKEYIX_INVALID \<equiv> 0xff"
abbreviation (input) ATH9K_HTC_TX_TIMEOUT_INTERVAL :: nat where "ATH9K_HTC_TX_TIMEOUT_INTERVAL \<equiv> 3000"
abbreviation (input) ATH9K_HTC_TX_RESERVE :: nat where "ATH9K_HTC_TX_RESERVE \<equiv> 10"
abbreviation (input) ATH9K_HTC_TX_TIMEOUT_COUNT :: nat where "ATH9K_HTC_TX_TIMEOUT_COUNT \<equiv> 40"
abbreviation (input) ATH9K_HTC_TX_THRESHOLD :: nat where
  "ATH9K_HTC_TX_THRESHOLD \<equiv> MAX_TX_BUF_NUM - ATH9K_HTC_TX_RESERVE"
abbreviation (input) ATH9K_HTC_OP_TX_QUEUES_STOP :: u8 where "ATH9K_HTC_OP_TX_QUEUES_STOP \<equiv> 1"
abbreviation (input) ATH9K_HTC_OP_TX_DRAIN :: u8 where "ATH9K_HTC_OP_TX_DRAIN \<equiv> 2"
abbreviation (input) ATH9K_HTC_MAX_TID :: nat where "ATH9K_HTC_MAX_TID \<equiv> 8"
abbreviation (input) ATH9K_HTC_TXSTAT_ACK :: u8 where "ATH9K_HTC_TXSTAT_ACK \<equiv> 1"
abbreviation (input) ATH9K_HTC_TXSTAT_FILT :: u8 where "ATH9K_HTC_TXSTAT_FILT \<equiv> 2"
abbreviation (input) ATH9K_HTC_TXSTAT_RTC_CTS :: u8 where "ATH9K_HTC_TXSTAT_RTC_CTS \<equiv> 4"
abbreviation (input) ATH9K_HTC_TXSTAT_MCS :: u8 where "ATH9K_HTC_TXSTAT_MCS \<equiv> 8"
abbreviation (input) ATH9K_HTC_TXSTAT_CW40 :: u8 where "ATH9K_HTC_TXSTAT_CW40 \<equiv> 16"
abbreviation (input) ATH9K_HTC_TXSTAT_SGI :: u8 where "ATH9K_HTC_TXSTAT_SGI \<equiv> 32"
abbreviation (input) IEEE80211_TX_CTL_AMPDU :: u32 where "IEEE80211_TX_CTL_AMPDU \<equiv> 0x40"
abbreviation (input) IEEE80211_TX_STAT_TX_FILTERED :: u32 where "IEEE80211_TX_STAT_TX_FILTERED \<equiv> 0x100"
abbreviation (input) IEEE80211_TX_STAT_ACK :: u32 where "IEEE80211_TX_STAT_ACK \<equiv> 0x200"
abbreviation (input) IEEE80211_TX_RC_USE_RTS_CTS :: u8 where "IEEE80211_TX_RC_USE_RTS_CTS \<equiv> 1"
abbreviation (input) IEEE80211_TX_RC_MCS :: u8 where "IEEE80211_TX_RC_MCS \<equiv> 8"
abbreviation (input) IEEE80211_TX_RC_40_MHZ_WIDTH :: u8 where "IEEE80211_TX_RC_40_MHZ_WIDTH \<equiv> 0x20"
abbreviation (input) IEEE80211_TX_RC_SHORT_GI :: u8 where "IEEE80211_TX_RC_SHORT_GI \<equiv> 0x80"
abbreviation (input) ETH_P_PAE :: u16 where "ETH_P_PAE \<equiv> 0x888E"

datatype tid_aggr_state = AGGR_STOP | AGGR_PROGRESS | AGGR_START | AGGR_OPERATIONAL

record ath9k_htc_sta =
  sta_index :: u8
  tid_state :: "tid_aggr_state list"

record ath9k_htc_vif =
  \<comment> \<open>\<open>struct ath9k_htc_vif\<close> and the one field of the interface's \<open>bss_conf\<close> the path reads\<close>
  vif_index :: u8
  tsfadjust :: bytes
  use_cts_prot :: bool

record txstatus =
  ts_cookie :: u8
  ts_rate :: u8
  ts_flags :: u8

record ath9k_htc_tx_event =
  ev_count :: nat
  ev_txs :: txstatus

datatype ep_queue =
  Mgmt_ep_queue | Cab_ep_queue | Data_be_queue | Data_bk_queue | Data_vi_queue | Data_vo_queue

record htc_tx_queues =
  \<comment> \<open>\<open>struct ath9k_htc_tx\<close>\<close>
  txq_flags :: u8
  queued_cnt :: int
  ep_queues :: "ep_queue \<Rightarrow> sk_buff list"
  tx_failed :: "sk_buff list"
  tx_slot :: bitmap

record ath9k_htc_priv =
  priv_eps :: htc_eps
  priv_tx :: htc_tx_queues
  mon_vif_idx :: u8
  vif_sta_pos :: "u8 list"
  is_monitoring :: bool
  rts_threshold :: u32
  conf_ht :: bool
  conf_band :: ieee80211_band
  priv_vif :: "nat \<Rightarrow> ath9k_htc_vif"
  priv_sta :: "nat \<Rightarrow> ath9k_htc_sta"
  pending_tx_events :: "ath9k_htc_tx_event list"

datatype mac_call =
    Tx_status sk_buff
  | Free_skb sk_buff
  | Stop_queues
  | Wake_queues
  | Start_ba_session nat u8

section \<open>Queues and slots\<close>

definition get_hw_qnum :: "u16 \<Rightarrow> int list \<Rightarrow> int" where
  \<comment> \<open>\<open>IEEE80211_AC_VO\<close>, \<open>VI\<close>, \<open>BE\<close>, \<open>BK\<close> are 0, 1, 2, 3\<close>
  "get_hw_qnum queue hwq_map =
     (if queue = 0 then hwq_map ! 0 else if queue = 1 then hwq_map ! 1
      else if queue = 2 then hwq_map ! 2 else if queue = 3 then hwq_map ! 3 else hwq_map ! 2)"

definition ath9k_htc_check_stop_queues :: "htc_tx_queues \<Rightarrow> htc_tx_queues \<times> mac_call list" where
  "ath9k_htc_check_stop_queues tx =
     (let tx = tx\<lparr>queued_cnt := queued_cnt tx + 1\<rparr> in
      if queued_cnt tx \<ge> int ATH9K_HTC_TX_THRESHOLD \<and> \<not> has_flag (txq_flags tx) ATH9K_HTC_OP_TX_QUEUES_STOP
      then (tx\<lparr>txq_flags := txq_flags tx OR ATH9K_HTC_OP_TX_QUEUES_STOP\<rparr>, [Stop_queues])
      else (tx, []))"

definition ath9k_htc_check_wake_queues :: "htc_tx_queues \<Rightarrow> htc_tx_queues \<times> mac_call list" where
  "ath9k_htc_check_wake_queues tx =
     (if queued_cnt tx < int ATH9K_HTC_TX_THRESHOLD \<and> has_flag (txq_flags tx) ATH9K_HTC_OP_TX_QUEUES_STOP
      then (tx\<lparr>txq_flags := txq_flags tx AND NOT ATH9K_HTC_OP_TX_QUEUES_STOP\<rparr>, [Wake_queues])
      else (tx, []))"

definition ath9k_htc_tx_get_slot :: "htc_tx_queues \<Rightarrow> (int \<times> htc_tx_queues) option" where
  "ath9k_htc_tx_get_slot tx =
     (let slot = find_first_zero_bit (tx_slot tx) in
      if slot \<ge> MAX_TX_BUF_NUM then Some (- ENOBUFS, tx)
      else do {
        m \<leftarrow> set_bit slot (tx_slot tx);
        Some (int slot, tx\<lparr>tx_slot := m\<rparr>) })"

definition ath9k_htc_tx_clear_slot :: "htc_tx_queues \<Rightarrow> nat \<Rightarrow> htc_tx_queues option" where
  "ath9k_htc_tx_clear_slot tx slot = do {
     m \<leftarrow> clear_bit slot (tx_slot tx);
     Some (tx\<lparr>tx_slot := m\<rparr>) }"

definition get_htc_epid :: "htc_eps \<Rightarrow> u16 \<Rightarrow> int" where
  "get_htc_epid eps qnum =
     (if qnum = 0 then data_vo_ep eps else if qnum = 1 then data_vi_ep eps
      else if qnum = 2 then data_be_ep eps else data_bk_ep eps)"

definition get_htc_epid_queue :: "htc_eps \<Rightarrow> u8 \<Rightarrow> ep_queue option" where
  "get_htc_epid_queue eps epid =
     (if uint epid = mgmt_ep eps then Some Mgmt_ep_queue
      else if uint epid = cab_ep eps then Some Cab_ep_queue
      else if uint epid = data_be_ep eps then Some Data_be_queue
      else if uint epid = data_bk_ep eps then Some Data_bk_queue
      else if uint epid = data_vi_ep eps then Some Data_vi_queue
      else if uint epid = data_vo_ep eps then Some Data_vo_queue
      else None)"

definition data_epid :: "htc_eps \<Rightarrow> u8 \<Rightarrow> bool" where
  \<comment> \<open>the endpoints whose frames carry a \<open>struct tx_frame_hdr\<close>\<close>
  "data_epid eps epid \<longleftrightarrow> uint epid = data_bk_ep eps \<or> uint epid = data_be_ep eps \<or>
     uint epid = data_vi_ep eps \<or> uint epid = data_vo_ep eps \<or> uint epid = cab_ep eps"

definition strip_drv_header :: "htc_eps \<Rightarrow> sk_buff \<Rightarrow> (int \<times> sk_buff) option" where
  "strip_drv_header eps skb =
     (let epid = ctl_epid (skb_cb skb) in
      if uint epid = mgmt_ep eps then do {
        slot \<leftarrow> byte_at (skb_mem skb) 6;
        Some (uint slot, skb_pull 8 skb) }
      else if data_epid eps epid then do {
        slot \<leftarrow> byte_at (skb_mem skb) 10;
        Some (uint slot, skb_pull 12 skb) }
      else Some (- EINVAL, skb))"

section \<open>Sending\<close>

definition tx_keyix :: "sk_buff \<Rightarrow> u8" where
  "tx_keyix skb =
     (if ath9k_cmn_get_hw_crypto_keytype skb = ATH9K_KEY_TYPE_CLEAR then ATH9K_TXKEYIX_INVALID
      else (case info_hw_key (skb_info skb) of Some (cipher, idx) \<Rightarrow> idx | None \<Rightarrow> 0))"

definition tx_mgmt_hdr :: "u8 \<Rightarrow> u8 \<Rightarrow> u8 \<Rightarrow> u8 \<Rightarrow> u8 \<Rightarrow> bytes" where
  "tx_mgmt_hdr node vif keytype keyix cookie = [node, vif, 0, 0, keytype, keyix, cookie, 0]"

definition tx_frame_hdr :: "u8 \<Rightarrow> u8 \<Rightarrow> u8 \<Rightarrow> u8 \<Rightarrow> u32 \<Rightarrow> u8 \<Rightarrow> u8 \<Rightarrow> u8 \<Rightarrow> bytes" where
  "tx_frame_hdr ty node vif tid flags keytype keyix cookie =
     [ty, node, vif, tid] @ be32_bytes flags @ [keytype, keyix, cookie, 0]"

definition ath9k_htc_tx_mgmt ::
  "ath9k_htc_priv \<Rightarrow> ath9k_htc_vif option \<Rightarrow> sk_buff \<Rightarrow> u8 \<Rightarrow> u8 \<Rightarrow> u8 \<Rightarrow> sk_buff option" where
  "ath9k_htc_tx_mgmt p avp skb sta_idx vif_idx slot = do {
     let skb = skb\<lparr>skb_cb := zero_ctl\<rparr>;
     fc \<leftarrow> get_le16 (skb_mem skb) 0;
     skb \<leftarrow> (case avp of
               Some v \<Rightarrow> if ieee80211_is_probe_resp fc then skb_store 24 (tsfadjust v) skb else Some skb
             | None \<Rightarrow> Some skb);
     let skb = skb\<lparr>skb_cb := (skb_cb skb)\<lparr>ctl_type := ATH9K_HTC_MGMT\<rparr>\<rparr>;
     skb \<leftarrow> skb_push_bytes
       (tx_mgmt_hdr sta_idx vif_idx (ath9k_cmn_get_hw_crypto_keytype skb) (tx_keyix skb) slot) skb;
     Some (skb\<lparr>skb_cb := (skb_cb skb)\<lparr>ctl_epid := word_of_int (mgmt_ep (priv_eps p))\<rparr>\<rparr>) }"

definition tx_flags_of :: "ath9k_htc_priv \<Rightarrow> ath9k_htc_vif option \<Rightarrow> sk_buff \<Rightarrow> u32" where
  "tx_flags_of p vif skb =
     (let flags = (if rts_threshold p \<noteq> 0xffffffff \<and> unat (rts_threshold p) < skb_len skb
                   then ATH9K_HTC_TX_RTSCTS else 0)
      in if \<not> has_flag flags ATH9K_HTC_TX_RTSCTS \<and> (case vif of Some v \<Rightarrow> use_cts_prot v | None \<Rightarrow> False)
         then flags OR ATH9K_HTC_TX_CTSONLY else flags)"

definition ath9k_htc_tx_data ::
  "ath9k_htc_priv \<Rightarrow> ath9k_htc_vif option \<Rightarrow> sk_buff \<Rightarrow> u8 \<Rightarrow> u8 \<Rightarrow> u8 \<Rightarrow> bool \<Rightarrow> sk_buff option" where
  "ath9k_htc_tx_data p vif skb sta_idx vif_idx slot is_cab = do {
     let ty = (if has_flag (info_flags (skb_info skb)) IEEE80211_TX_CTL_AMPDU
               then ATH9K_HTC_AMPDU else ATH9K_HTC_NORMAL);
     let skb = skb\<lparr>skb_cb := zero_ctl\<lparr>ctl_sta_idx := sta_idx, ctl_type := ty\<rparr>\<rparr>;
     fc \<leftarrow> get_le16 (skb_mem skb) 0;
     tid \<leftarrow> (if ieee80211_is_data_qos fc
             then map_option (\<lambda>b. b AND 0x0f) (byte_at (skb_mem skb) (qos_ctl_off fc)) else Some 0);
     skb \<leftarrow> skb_push_bytes
       (tx_frame_hdr ty sta_idx vif_idx tid (tx_flags_of p vif skb)
          (ath9k_cmn_get_hw_crypto_keytype skb) (tx_keyix skb) slot) skb;
     let epid = (if is_cab then cab_ep (priv_eps p)
                 else get_htc_epid (priv_eps p) (skb_queue_mapping skb));
     Some (skb\<lparr>skb_cb := (skb_cb skb)\<lparr>ctl_epid := word_of_int epid\<rparr>\<rparr>) }"

type_synonym 's transport = "sk_buff \<Rightarrow> 's \<Rightarrow> (int \<times> sk_buff \<times> 's \<times> htc_upcall list) option"

definition tx_build ::
  "ath9k_htc_priv \<Rightarrow> nat option \<Rightarrow> sk_buff \<Rightarrow> u8 \<Rightarrow> bool \<Rightarrow> sk_buff option option" where
  \<comment> \<open>\<open>ath9k_htc_tx_start\<close> up to the call of \<open>htc_send\<close>; \<open>Some None\<close> is its \<open>-EINVAL\<close>\<close>
  "tx_build p sta skb slot is_cab =
     (let vif = info_vif (skb_info skb); avp = map_option (priv_vif p) vif in
      if vif = None \<and> \<not> is_monitoring p then Some None
      else do {
        let vif_idx = (case avp of Some v \<Rightarrow> vif_index v | None \<Rightarrow> mon_vif_idx p);
        sta_idx \<leftarrow> (case sta of Some n \<Rightarrow> Some (sta_index (priv_sta p n))
                    | None \<Rightarrow> byte_at (vif_sta_pos p) (unat vif_idx));
        fc \<leftarrow> get_le16 (skb_mem skb) 0;
        skb \<leftarrow> (if ieee80211_is_data fc then ath9k_htc_tx_data p avp skb sta_idx vif_idx slot is_cab
                else ath9k_htc_tx_mgmt p avp skb sta_idx vif_idx slot);
        Some (Some skb) })"

definition ath9k_htc_tx_start ::
  "'s transport \<Rightarrow> ath9k_htc_priv \<Rightarrow> nat option \<Rightarrow> sk_buff \<Rightarrow> u8 \<Rightarrow> bool \<Rightarrow> 's \<Rightarrow>
     (int \<times> sk_buff \<times> 's \<times> htc_upcall list) option" where
  "ath9k_htc_tx_start send p sta skb slot is_cab s =
     (case tx_build p sta skb slot is_cab of
        None \<Rightarrow> None
      | Some None \<Rightarrow> Some (- EINVAL, skb, s, [])
      | Some (Some skb) \<Rightarrow> send skb s)"

section \<open>Completion\<close>

definition tx_queue_add :: "ep_queue \<Rightarrow> sk_buff \<Rightarrow> htc_tx_queues \<Rightarrow> htc_tx_queues" where
  "tx_queue_add q skb tx = tx\<lparr>ep_queues := (ep_queues tx)(q := ep_queues tx q @ [skb])\<rparr>"

definition ath9k_htc_txep ::
  "u64 \<Rightarrow> ath9k_htc_priv \<Rightarrow> sk_buff \<Rightarrow> nat \<Rightarrow> bool \<Rightarrow> ath9k_htc_priv \<times> mac_call list" where
  \<comment> \<open>the first argument is \<open>jiffies\<close>; scheduling the tasklet has no state of its own here\<close>
  "ath9k_htc_txep now p skb ep_id txok =
     (let skb = skb\<lparr>skb_cb := (skb_cb skb)\<lparr>ctl_txok := txok, ctl_timestamp := now\<rparr>\<rparr>; tx = priv_tx p in
      if \<not> txok then (p\<lparr>priv_tx := tx\<lparr>tx_failed := tx_failed tx @ [skb]\<rparr>\<rparr>, [])
      else (case get_htc_epid_queue (priv_eps p) (word_of_nat ep_id) of
              None \<Rightarrow> (p, [Free_skb skb])
            | Some q \<Rightarrow> (p\<lparr>priv_tx := tx_queue_add q skb tx\<rparr>, [])))"

fun htc_upcalls ::
  "u64 \<Rightarrow> ath9k_htc_priv \<Rightarrow> htc_upcall list \<Rightarrow> ath9k_htc_priv \<times> mac_call list" where
  \<comment> \<open>the driver's side of the calls HTC makes while it completes frames\<close>
  "htc_upcalls now p [] = (p, [])"
| "htc_upcalls now p (u # us) =
     (let (p, a) = (case u of
                      Ep_tx Ath9k_htc_txep s ep ok \<Rightarrow> ath9k_htc_txep now p s ep ok
                    | Ep_tx _ s ep ok \<Rightarrow> (p, [Free_skb s])
                    | Kfree_skb s \<Rightarrow> (p, [Free_skb s])
                    | Ep_rx _ s ep \<Rightarrow> (p, []));
          (p, b) = htc_upcalls now p us
      in (p, a @ b))"

definition tx_pad :: "sk_buff \<Rightarrow> sk_buff option option" where
  \<comment> \<open>the padding after the header; \<open>Some None\<close>: no room\<close>
  "tx_pad skb = do {
     fc \<leftarrow> get_le16 (skb_mem skb) 0;
     let padpos = ath9k_cmn_padpos fc;
     let padsize = padpos mod 4;
     if padsize \<noteq> 0 \<and> padpos < skb_len skb then
       (if skb_data skb < padsize then Some None
        else do {
          skb \<leftarrow> skb_push padsize skb;
          hdr \<leftarrow> read_bytes (skb_mem skb) padsize padpos;
          skb \<leftarrow> skb_store 0 hdr skb;
          Some (Some skb) })
     else Some (Some skb) }"

definition ath9k_htc_tx_padded ::
  "'s transport \<Rightarrow> u64 \<Rightarrow> ath9k_htc_priv \<Rightarrow> nat option \<Rightarrow> sk_buff \<Rightarrow> 's \<Rightarrow>
     (ath9k_htc_priv \<times> 's \<times> mac_call list) option" where
  \<comment> \<open>\<open>ath9k_htc_tx\<close> from the slot on\<close>
  "ath9k_htc_tx_padded send now p sta skb s = do {
     (slot, tx) \<leftarrow> ath9k_htc_tx_get_slot (priv_tx p);
     let p = p\<lparr>priv_tx := tx\<rparr>;
     if slot < 0 then Some (p, s, [Free_skb skb])
     else do {
       (ret, skb, s, ups) \<leftarrow> ath9k_htc_tx_start send p sta skb (word_of_int slot) False s;
       let (p, calls) = htc_upcalls now p ups;
       if ret \<noteq> 0 then do {
         tx \<leftarrow> ath9k_htc_tx_clear_slot (priv_tx p) (nat slot);
         Some (p\<lparr>priv_tx := tx\<rparr>, s, calls @ [Free_skb skb]) }
       else (let (tx, c) = ath9k_htc_check_stop_queues (priv_tx p)
             in Some (p\<lparr>priv_tx := tx\<rparr>, s, calls @ c)) } }"

definition ath9k_htc_tx ::
  "'s transport \<Rightarrow> u64 \<Rightarrow> ath9k_htc_priv \<Rightarrow> nat option \<Rightarrow> sk_buff \<Rightarrow> 's \<Rightarrow>
     (ath9k_htc_priv \<times> 's \<times> mac_call list) option" where
  "ath9k_htc_tx send now p sta skb s =
     (case tx_pad skb of
        None \<Rightarrow> None
      | Some None \<Rightarrow> Some (p, s, [Free_skb skb])
      | Some (Some skb) \<Rightarrow> ath9k_htc_tx_padded send now p sta skb s)"

section \<open>Transmit status\<close>

definition check_tx_aggr :: "ath9k_htc_sta \<Rightarrow> u8 \<Rightarrow> bool" where
  \<comment> \<open>\<open>__ath9k_htc_check_tx_aggr\<close>\<close>
  "check_tx_aggr ista tid \<longleftrightarrow>
     unat tid < ATH9K_HTC_MAX_TID \<and> tid_state ista ! unat tid = AGGR_STOP"

definition ath9k_htc_check_tx_aggr ::
  "(nat \<Rightarrow> bytes \<Rightarrow> nat option) \<Rightarrow> ath9k_htc_priv \<Rightarrow> nat \<Rightarrow> sk_buff \<Rightarrow> (ath9k_htc_priv \<times> mac_call list) option" where
  "ath9k_htc_check_tx_aggr find_sta p vif skb = do {
     fc \<leftarrow> get_le16 (skb_mem skb) 0;
     addr1 \<leftarrow> read_bytes (skb_mem skb) 4 6;
     case find_sta vif addr1 of
       None \<Rightarrow> Some (p, [])
     | Some sta \<Rightarrow>
         if conf_ht p \<and> skb_protocol skb \<noteq> ETH_P_PAE \<and> ieee80211_is_data_qos fc then do {
           qc \<leftarrow> byte_at (skb_mem skb) (qos_ctl_off fc);
           let tid = qc AND 0xf;
           let ista = priv_sta p sta;
           if check_tx_aggr ista tid then
             Some (p\<lparr>priv_sta := (priv_sta p)(sta := ista\<lparr>tid_state := (tid_state ista)[unat tid := AGGR_PROGRESS]\<rparr>)\<rparr>,
                   [Start_ba_session sta tid])
           else Some (p, []) }
         else Some (p, []) }"

definition tx_status_info :: "ieee80211_band \<Rightarrow> txstatus \<Rightarrow> tx_info \<Rightarrow> tx_info" where
  \<comment> \<open>the fields \<open>ath9k_htc_tx_process\<close> sets from the status, after clearing them\<close>
  "tx_status_info band txs info =
     (let fl = ts_flags txs;
          flags = info_flags info;
          flags = (if has_flag fl ATH9K_HTC_TXSTAT_ACK then flags OR IEEE80211_TX_STAT_ACK else flags);
          flags = (if has_flag fl ATH9K_HTC_TXSTAT_FILT then flags OR IEEE80211_TX_STAT_TX_FILTERED else flags);
          rc = (if has_flag fl ATH9K_HTC_TXSTAT_RTC_CTS then IEEE80211_TX_RC_USE_RTS_CTS else 0);
          idx = uint (ts_rate txs AND 0x0f)
      in if has_flag fl ATH9K_HTC_TXSTAT_MCS then
           (let rc = rc OR IEEE80211_TX_RC_MCS;
                rc = (if has_flag fl ATH9K_HTC_TXSTAT_CW40 then rc OR IEEE80211_TX_RC_40_MHZ_WIDTH else rc);
                rc = (if has_flag fl ATH9K_HTC_TXSTAT_SGI then rc OR IEEE80211_TX_RC_SHORT_GI else rc)
            in info\<lparr>info_flags := flags, info_rate_idx := idx, info_rate_count := 1, info_rate_flags := rc\<rparr>)
         else info\<lparr>info_flags := flags, info_rate_idx := (if band = BAND_5GHZ then idx + 4 else idx),
                   info_rate_count := 1, info_rate_flags := rc\<rparr>)"

definition clear_status :: "sk_buff \<Rightarrow> sk_buff" where
  \<comment> \<open>\<open>memset(&tx_info->status, 0, ...)\<close>; the status shares its memory with the driver's control
      block and with the interface pointer, which are gone afterwards\<close>
  "clear_status skb = skb\<lparr>skb_cb := zero_ctl, skb_info := (skb_info skb)\<lparr>info_vif := None,
     info_rate_idx := 0, info_rate_count := 0, info_rate_flags := 0\<rparr>\<rparr>"

definition tx_dequeued :: "htc_tx_queues \<Rightarrow> htc_tx_queues" where
  \<comment> \<open>\<open>if (WARN_ON(--priv->tx.queued_cnt < 0)) priv->tx.queued_cnt = 0\<close>\<close>
  "tx_dequeued tx = tx\<lparr>queued_cnt := (if queued_cnt tx - 1 < 0 then 0 else queued_cnt tx - 1)\<rparr>"

definition ath9k_htc_tx_process ::
  "(nat \<Rightarrow> bytes \<Rightarrow> nat option) \<Rightarrow> ath9k_htc_priv \<Rightarrow> sk_buff \<Rightarrow> txstatus option \<Rightarrow>
     (ath9k_htc_priv \<times> mac_call list) option" where
  "ath9k_htc_tx_process find_sta p skb0 txs = do {
     (slot, skb) \<leftarrow> strip_drv_header (priv_eps p) skb0;
     if slot < 0 then Some (p, [Free_skb skb])
     else do {
       let txok = ctl_txok (skb_cb skb);
       let vif = info_vif (skb_info skb);
       let skb = clear_status skb;
       (p, skb, calls) \<leftarrow>
         (case (vif, txs) of
            (Some v, Some st) \<Rightarrow>
              if txok then do {
                let skb = skb\<lparr>skb_info := tx_status_info (conf_band p) st (skb_info skb)\<rparr>;
                (p, calls) \<leftarrow> ath9k_htc_check_tx_aggr find_sta p v skb;
                Some (p, skb, calls) }
              else Some (p, skb, [])
          | _ \<Rightarrow> Some (p, skb, []));
       tx \<leftarrow> ath9k_htc_tx_clear_slot (tx_dequeued (priv_tx p)) (nat slot);
       Some (p\<lparr>priv_tx := tx\<rparr>, calls @ [Tx_status skb]) } }"

fun tx_process_all ::
  "(nat \<Rightarrow> bytes \<Rightarrow> nat option) \<Rightarrow> ath9k_htc_priv \<Rightarrow> sk_buff list \<Rightarrow> (ath9k_htc_priv \<times> mac_call list) option" where
  "tx_process_all find_sta p [] = Some (p, [])"
| "tx_process_all find_sta p (skb # q) = do {
     (p, a) \<leftarrow> ath9k_htc_tx_process find_sta p skb None;
     (p, b) \<leftarrow> tx_process_all find_sta p q;
     Some (p, a @ b) }"

definition ath9k_htc_tx_drainq ::
  "(nat \<Rightarrow> bytes \<Rightarrow> nat option) \<Rightarrow> ep_queue \<Rightarrow> ath9k_htc_priv \<Rightarrow> (ath9k_htc_priv \<times> mac_call list) option" where
  \<comment> \<open>\<open>ath9k_htc_tx_process\<close> does not touch the queues, so taking the frames one by one or all at
      once is the same\<close>
  "ath9k_htc_tx_drainq find_sta q p =
     tx_process_all find_sta (p\<lparr>priv_tx := (priv_tx p)\<lparr>ep_queues := (ep_queues (priv_tx p))(q := [])\<rparr>\<rparr>)
       (ep_queues (priv_tx p) q)"

definition drain_failed ::
  "(nat \<Rightarrow> bytes \<Rightarrow> nat option) \<Rightarrow> ath9k_htc_priv \<Rightarrow> (ath9k_htc_priv \<times> mac_call list) option" where
  \<comment> \<open>\<open>ath9k_htc_tx_drainq\<close> on \<open>tx_failed\<close>\<close>
  "drain_failed find_sta p =
     tx_process_all find_sta (p\<lparr>priv_tx := (priv_tx p)\<lparr>tx_failed := []\<rparr>\<rparr>) (tx_failed (priv_tx p))"

fun drain_queues ::
  "(nat \<Rightarrow> bytes \<Rightarrow> nat option) \<Rightarrow> ep_queue list \<Rightarrow> ath9k_htc_priv \<Rightarrow> (ath9k_htc_priv \<times> mac_call list) option" where
  "drain_queues find_sta [] p = Some (p, [])"
| "drain_queues find_sta (q # qs) p = do {
     (p, a) \<leftarrow> ath9k_htc_tx_drainq find_sta q p;
     (p, b) \<leftarrow> drain_queues find_sta qs p;
     Some (p, a @ b) }"

definition all_queues :: "ep_queue list" where
  "all_queues = [Mgmt_ep_queue, Cab_ep_queue, Data_be_queue, Data_bk_queue, Data_vi_queue, Data_vo_queue]"

definition or_tx_flags :: "u8 \<Rightarrow> ath9k_htc_priv \<Rightarrow> ath9k_htc_priv" where
  "or_tx_flags f p = p\<lparr>priv_tx := (priv_tx p)\<lparr>txq_flags := txq_flags (priv_tx p) OR f\<rparr>\<rparr>"

definition clear_tx_flags :: "u8 \<Rightarrow> ath9k_htc_priv \<Rightarrow> ath9k_htc_priv" where
  "clear_tx_flags f p = p\<lparr>priv_tx := (priv_tx p)\<lparr>txq_flags := txq_flags (priv_tx p) AND NOT f\<rparr>\<rparr>"

definition ath9k_htc_tx_drain ::
  "(nat \<Rightarrow> bytes \<Rightarrow> nat option) \<Rightarrow> 'h ath9k_htc_hif \<Rightarrow> u64 \<Rightarrow> ath9k_htc_priv \<Rightarrow> htc_target \<Rightarrow> 'h \<Rightarrow>
     (ath9k_htc_priv \<times> htc_target \<times> 'h \<times> mac_call list) option" where
  \<comment> \<open>the tasklets that \<open>tasklet_kill\<close> waits for return at once while the drain flag is set\<close>
  "ath9k_htc_tx_drain find_sta hif now p t h = do {
     let p = or_tx_flags ATH9K_HTC_OP_TX_DRAIN p;
     (t, h, ups) \<leftarrow> htc_stop hif t h;
     let (p, a) = htc_upcalls now p ups;
     (p, b) \<leftarrow> drain_queues find_sta all_queues p;
     (p, c) \<leftarrow> drain_failed find_sta p;
     let p = p\<lparr>pending_tx_events := []\<rparr>;
     Some (clear_tx_flags ATH9K_HTC_OP_TX_DRAIN p, t, h, a @ b @ c) }"

definition ath9k_tx_failed_tasklet ::
  "(nat \<Rightarrow> bytes \<Rightarrow> nat option) \<Rightarrow> ath9k_htc_priv \<Rightarrow> (ath9k_htc_priv \<times> mac_call list) option" where
  "ath9k_tx_failed_tasklet find_sta p =
     (if has_flag (txq_flags (priv_tx p)) ATH9K_HTC_OP_TX_DRAIN then Some (p, [])
      else drain_failed find_sta p)"

definition check_cookie :: "htc_eps \<Rightarrow> sk_buff \<Rightarrow> u8 \<Rightarrow> u8 \<Rightarrow> bool option" where
  "check_cookie eps skb cookie epid = do {
     fcookie \<leftarrow> (if uint epid = mgmt_ep eps then byte_at (skb_mem skb) 6
                 else if data_epid eps epid then byte_at (skb_mem skb) 10
                 else Some 0);
     Some (fcookie = cookie) }"

fun unlink_cookie :: "htc_eps \<Rightarrow> u8 \<Rightarrow> u8 \<Rightarrow> sk_buff list \<Rightarrow> (sk_buff option \<times> sk_buff list) option" where
  \<comment> \<open>the \<open>skb_queue_walk_safe\<close> loop\<close>
  "unlink_cookie eps cookie epid [] = Some (None, [])"
| "unlink_cookie eps cookie epid (skb # q) = do {
     hit \<leftarrow> check_cookie eps skb cookie epid;
     if hit then Some (Some skb, q)
     else do {
       (r, q') \<leftarrow> unlink_cookie eps cookie epid q;
       Some (r, skb # q') } }"

definition ts_epid :: "txstatus \<Rightarrow> u8" where
  \<comment> \<open>\<open>MS(txs->ts_rate, ATH9K_HTC_TXSTAT_EPID)\<close>\<close>
  "ts_epid txs = drop_bit 4 (ts_rate txs AND 0xf0)"

definition ath9k_htc_tx_get_packet ::
  "ath9k_htc_priv \<Rightarrow> txstatus \<Rightarrow> (sk_buff option \<times> ath9k_htc_priv) option" where
  "ath9k_htc_tx_get_packet p txs =
     (case get_htc_epid_queue (priv_eps p) (ts_epid txs) of
        None \<Rightarrow> Some (None, p)
      | Some q \<Rightarrow> do {
          (r, rest) \<leftarrow> unlink_cookie (priv_eps p) (ts_cookie txs) (ts_epid txs) (ep_queues (priv_tx p) q);
          Some (r, p\<lparr>priv_tx := (priv_tx p)\<lparr>ep_queues := (ep_queues (priv_tx p))(q := rest)\<rparr>\<rparr>) })"

definition txstatus_one ::
  "(nat \<Rightarrow> bytes \<Rightarrow> nat option) \<Rightarrow> bool \<Rightarrow> ath9k_htc_priv \<Rightarrow> txstatus \<Rightarrow> (ath9k_htc_priv \<times> mac_call list) option" where
  \<comment> \<open>one round of the loop of \<open>ath9k_htc_txstatus\<close>; the second argument says whether
      \<open>kzalloc\<close> succeeds\<close>
  "txstatus_one find_sta kz p txs = do {
     (r, p) \<leftarrow> ath9k_htc_tx_get_packet p txs;
     case r of
       Some skb \<Rightarrow> ath9k_htc_tx_process find_sta p skb (Some txs)
     | None \<Rightarrow> Some (if kz then p\<lparr>pending_tx_events := pending_tx_events p @ [\<lparr>ev_count = 0, ev_txs = txs\<rparr>]\<rparr> else p, []) }"

fun txstatus_loop ::
  "(nat \<Rightarrow> bytes \<Rightarrow> nat option) \<Rightarrow> (nat \<Rightarrow> bool) \<Rightarrow> bytes \<Rightarrow> nat list \<Rightarrow> ath9k_htc_priv \<Rightarrow>
     (ath9k_htc_priv \<times> mac_call list) option" where
  "txstatus_loop find_sta kz ev [] p = Some (p, [])"
| "txstatus_loop find_sta kz ev (i # is) p = do {
     c \<leftarrow> byte_at ev (1 + 3 * i);
     r \<leftarrow> byte_at ev (2 + 3 * i);
     f \<leftarrow> byte_at ev (3 + 3 * i);
     (p, a) \<leftarrow> txstatus_one find_sta (kz i) p \<lparr>ts_cookie = c, ts_rate = r, ts_flags = f\<rparr>;
     (p, b) \<leftarrow> txstatus_loop find_sta kz ev is p;
     Some (p, a @ b) }"

definition wake_queues :: "ath9k_htc_priv \<Rightarrow> ath9k_htc_priv \<times> mac_call list" where
  "wake_queues p = (let (tx, c) = ath9k_htc_check_wake_queues (priv_tx p) in (p\<lparr>priv_tx := tx\<rparr>, c))"

definition ath9k_htc_txstatus ::
  "(nat \<Rightarrow> bytes \<Rightarrow> nat option) \<Rightarrow> (nat \<Rightarrow> bool) \<Rightarrow> ath9k_htc_priv \<Rightarrow> bytes \<Rightarrow>
     (ath9k_htc_priv \<times> mac_call list) option" where
  \<comment> \<open>the last argument is the event, \<open>struct wmi_event_txstatus\<close>\<close>
  "ath9k_htc_txstatus find_sta kz p ev = do {
     cnt \<leftarrow> byte_at ev 0;
     (p, a) \<leftarrow> txstatus_loop find_sta kz ev [0 ..< unat cnt] p;
     let (p, c) = wake_queues p;
     Some (p, a @ c) }"

section \<open>Cleaning up\<close>

definition time_after :: "u64 \<Rightarrow> u64 \<Rightarrow> bool" where
  "time_after a b \<longleftrightarrow> sint (b - a) < 0"

definition check_packet :: "u64 \<Rightarrow> u64 \<Rightarrow> sk_buff \<Rightarrow> bool" where
  \<comment> \<open>arguments: \<open>jiffies\<close>, and \<open>msecs_to_jiffies(ATH9K_HTC_TX_TIMEOUT_INTERVAL)\<close>\<close>
  "check_packet now tmo skb \<longleftrightarrow> time_after now (ctl_timestamp (skb_cb skb) + tmo)"

definition ath9k_htc_tx_cleanup_queue ::
  "(nat \<Rightarrow> bytes \<Rightarrow> nat option) \<Rightarrow> u64 \<Rightarrow> u64 \<Rightarrow> ep_queue \<Rightarrow> ath9k_htc_priv \<Rightarrow>
     (ath9k_htc_priv \<times> mac_call list) option" where
  "ath9k_htc_tx_cleanup_queue find_sta now tmo q p =
     (let old = ep_queues (priv_tx p) q in
      tx_process_all find_sta
        (p\<lparr>priv_tx := (priv_tx p)\<lparr>ep_queues := (ep_queues (priv_tx p))(q := filter (\<lambda>skb. \<not> check_packet now tmo skb) old)\<rparr>\<rparr>)
        (filter (check_packet now tmo) old))"

fun cleanup_queues ::
  "(nat \<Rightarrow> bytes \<Rightarrow> nat option) \<Rightarrow> u64 \<Rightarrow> u64 \<Rightarrow> ep_queue list \<Rightarrow> ath9k_htc_priv \<Rightarrow>
     (ath9k_htc_priv \<times> mac_call list) option" where
  "cleanup_queues find_sta now tmo [] p = Some (p, [])"
| "cleanup_queues find_sta now tmo (q # qs) p = do {
     (p, a) \<leftarrow> ath9k_htc_tx_cleanup_queue find_sta now tmo q p;
     (p, b) \<leftarrow> cleanup_queues find_sta now tmo qs p;
     Some (p, a @ b) }"

fun cleanup_events ::
  "(nat \<Rightarrow> bytes \<Rightarrow> nat option) \<Rightarrow> ath9k_htc_tx_event list \<Rightarrow> ath9k_htc_priv \<Rightarrow>
     (ath9k_htc_tx_event list \<times> ath9k_htc_priv \<times> mac_call list) option" where
  \<comment> \<open>the walk over \<open>pending_tx_events\<close>; the first component is the list afterwards\<close>
  "cleanup_events find_sta [] p = Some ([], p, [])"
| "cleanup_events find_sta (ev # evs) p = do {
     (r, p) \<leftarrow> ath9k_htc_tx_get_packet p (ev_txs ev);
     case r of
       Some skb \<Rightarrow> do {
         (p, a) \<leftarrow> ath9k_htc_tx_process find_sta p skb (Some (ev_txs ev));
         (evs, p, b) \<leftarrow> cleanup_events find_sta evs p;
         Some (evs, p, a @ b) }
     | None \<Rightarrow> do {
         let ev = ev\<lparr>ev_count := ev_count ev + 1\<rparr>;
         (evs, p, b) \<leftarrow> cleanup_events find_sta evs p;
         Some (if ATH9K_HTC_TX_TIMEOUT_COUNT \<le> ev_count ev then evs else ev # evs, p, b) } }"

definition ath9k_htc_tx_cleanup_timer ::
  "(nat \<Rightarrow> bytes \<Rightarrow> nat option) \<Rightarrow> u64 \<Rightarrow> u64 \<Rightarrow> ath9k_htc_priv \<Rightarrow> (ath9k_htc_priv \<times> mac_call list) option" where
  "ath9k_htc_tx_cleanup_timer find_sta now tmo p = do {
     (evs, p, a) \<leftarrow> cleanup_events find_sta (pending_tx_events p) p;
     let p = p\<lparr>pending_tx_events := evs\<rparr>;
     (p, b) \<leftarrow> cleanup_queues find_sta now tmo all_queues p;
     let (p, c) = wake_queues p;
     Some (p, a @ b @ c) }"

definition ath9k_tx_init :: "htc_tx_queues \<Rightarrow> htc_tx_queues" where
  "ath9k_tx_init tx = tx\<lparr>ep_queues := (\<lambda>q. []), tx_failed := []\<rparr>"

section \<open>A pool of slots\<close>

text \<open>
  The contract of the slot allocator, and what a client that labels the objects it holds with slots
  gets from it: the labels stay distinct, and are exactly the slots in use.
\<close>

locale slot_pool =
  fixes get :: "'s \<Rightarrow> (int \<times> 's) option" and clear :: "'s \<Rightarrow> nat \<Rightarrow> 's option"
    and ok :: "'s \<Rightarrow> bool" and used :: "'s \<Rightarrow> nat set" and cap :: nat and rest :: "'s \<Rightarrow> 'r"
  assumes used_bound: "ok s \<Longrightarrow> used s \<subseteq> {..< cap}"
    and get_full: "ok s \<Longrightarrow> used s = {..< cap} \<Longrightarrow> get s = Some (- ENOBUFS, s)"
    and get_free: "ok s \<Longrightarrow> used s \<noteq> {..< cap} \<Longrightarrow>
      \<exists>i s'. get s = Some (int i, s') \<and> i < cap \<and> i \<notin> used s \<and> used s' = insert i (used s) \<and> ok s' \<and> rest s' = rest s"
    and clear_used: "ok s \<Longrightarrow> i < cap \<Longrightarrow> \<exists>s'. clear s i = Some s' \<and> used s' = used s - {i} \<and> ok s' \<and> rest s' = rest s"
begin

definition holds :: "('a \<Rightarrow> nat) \<Rightarrow> 'a multiset \<Rightarrow> 's \<Rightarrow> bool" where
  "holds label M s \<longleftrightarrow> ok s \<and> image_mset label M = mset_set (used s)"

lemma used_finite: "ok s \<Longrightarrow> finite (used s)"
  using used_bound finite_subset by blast

lemma holds_size: "holds label M s \<Longrightarrow> size M = card (used s)"
  by (metis holds_def size_image_mset size_mset_set)

lemma holds_le: "holds label M s \<Longrightarrow> size M \<le> cap"
proof -
  assume h: "holds label M s"
  then have "card (used s) \<le> card {..< cap}" by (intro card_mono used_bound) (simp_all add: holds_def)
  then show ?thesis using holds_size [OF h] by simp
qed

lemma holds_label: "holds label M s \<Longrightarrow> x \<in># M \<Longrightarrow> label x \<in> used s \<and> label x < cap"
proof -
  assume h: "holds label M s" "x \<in># M"
  then have "label x \<in># mset_set (used s)" by (metis holds_def image_eqI set_image_mset)
  then show ?thesis using h(1) used_finite used_bound by (auto simp: holds_def)
qed

lemma holds_get:
  assumes "holds label M s" and "size M < cap"
  shows "\<exists>i s'. get s = Some (int i, s') \<and> i < cap \<and> i \<notin> used s \<and> rest s' = rest s \<and>
    (\<exists>s''. clear s' i = Some s'' \<and> holds label M s'' \<and> rest s'' = rest s) \<and>
    (\<forall>x label'. label' x = i \<longrightarrow> (\<forall>y \<in># M. label' y = label y) \<longrightarrow> holds label' (add_mset x M) s')"
proof -
  have ok: "ok s" and im: "image_mset label M = mset_set (used s)" using assms(1) by (simp_all add: holds_def)
  have "card (used s) < cap" using holds_size [OF assms(1)] assms(2) by simp
  then have "used s \<noteq> {..< cap}" by (metis card_lessThan less_irrefl)
  then obtain i s' where g: "get s = Some (int i, s')" "i < cap" "i \<notin> used s" "used s' = insert i (used s)"
    "ok s'" "rest s' = rest s"
    using get_free [OF ok] by blast
  have "holds label' (add_mset x M) s'" if "label' x = i" "\<forall>y \<in># M. label' y = label y" for x label'
  proof -
    have "image_mset label' M = image_mset label M" using that(2) by (intro image_mset_cong) simp
    then show ?thesis using g(3-5) that(1) im used_finite [OF ok] by (simp add: holds_def)
  qed
  moreover obtain s'' where c: "clear s' i = Some s''" "used s'' = used s' - {i}" "ok s''" "rest s'' = rest s'"
    using clear_used [OF g(5,2)] by blast
  have "holds label M s''" using c(2,3) g(3,4) im by (simp add: holds_def)
  ultimately show ?thesis using g c by metis
qed

lemma holds_full: "holds label M s \<Longrightarrow> size M = cap \<Longrightarrow> get s = Some (- ENOBUFS, s)"
proof -
  assume h: "holds label M s" "size M = cap"
  have ok: "ok s" using h(1) by (simp add: holds_def)
  have "card (used s) = card {..< cap}" using holds_size [OF h(1)] h(2) by simp
  then have "used s = {..< cap}" using card_subset_eq [OF finite_lessThan used_bound [OF ok]] by simp
  then show ?thesis by (rule get_full [OF ok])
qed

lemma holds_clear:
  assumes "holds label (add_mset x M) s"
  shows "\<exists>s'. clear s (label x) = Some s' \<and> holds label M s' \<and> rest s' = rest s"
proof -
  have ok: "ok s" and im: "image_mset label (add_mset x M) = mset_set (used s)"
    using assms by (simp_all add: holds_def)
  have u: "label x \<in> used s" "label x < cap" using holds_label [OF assms] by simp_all
  obtain s' where c: "clear s (label x) = Some s'" "used s' = used s - {label x}" "ok s'" "rest s' = rest s"
    using clear_used [OF ok u(2)] by blast
  have "mset_set (used s') = mset_set (used s) - {#label x#}"
    using c(2) u(1) used_finite [OF ok] by (simp add: mset_set_Diff)
  then have "image_mset label M = mset_set (used s')" using im by (metis add_mset_remove_trivial image_mset_add_mset)
  then show ?thesis using c by (simp add: holds_def)
qed

lemma holds_distinct:
  assumes "holds label (add_mset x M) s" and "y \<in># M"
  shows "label x \<noteq> label y"
proof
  assume eq: "label x = label y"
  have "label y \<in># image_mset label M" using assms(2) by (rule imageI [of y "set_mset M" label, folded set_image_mset])
  then have "2 \<le> count (image_mset label (add_mset x M)) (label y)"
    using eq by (simp add: Suc_le_eq count_greater_zero_iff)
  also have "image_mset label (add_mset x M) = mset_set (used s)" using assms(1) by (simp add: holds_def)
  also have "count (mset_set (used s)) (label y) \<le> 1" by (simp add: count_mset_set')
  finally show False by simp
qed

end

definition slots_used :: "htc_tx_queues \<Rightarrow> nat set" where
  "slots_used tx = {i. i < length (tx_slot tx) \<and> tx_slot tx ! i}"

definition slots_ok :: "htc_tx_queues \<Rightarrow> bool" where
  "slots_ok tx \<longleftrightarrow> length (tx_slot tx) = MAX_TX_BUF_NUM"

interpretation sp: slot_pool ath9k_htc_tx_get_slot ath9k_htc_tx_clear_slot slots_ok slots_used MAX_TX_BUF_NUM
  "\<lambda>tx. tx\<lparr>tx_slot := []\<rparr>"
proof unfold_locales
  fix s :: htc_tx_queues
  assume ok: "slots_ok s"
  then show "slots_used s \<subseteq> {..< MAX_TX_BUF_NUM}" by (auto simp: slots_used_def slots_ok_def)
  have le: "find_first_zero_bit (tx_slot s) \<le> 256"
    using find_first_zero_bit_le [of "tx_slot s"] ok by (simp add: slots_ok_def)
  have full: "find_first_zero_bit (tx_slot s) = 256 \<longleftrightarrow> slots_used s = {..< 256}"
    using find_first_zero_bit_full [of "tx_slot s"] ok by (auto simp: slots_used_def slots_ok_def)
  show "slots_used s = {..< MAX_TX_BUF_NUM} \<Longrightarrow> ath9k_htc_tx_get_slot s = Some (- ENOBUFS, s)"
    using full by (simp add: ath9k_htc_tx_get_slot_def)
  assume "slots_used s \<noteq> {..< MAX_TX_BUF_NUM}"
  then have lt: "find_first_zero_bit (tx_slot s) < 256" using full le by simp
  let ?i = "find_first_zero_bit (tx_slot s)"
  have z: "\<not> tx_slot s ! ?i" using find_first_zero_bit_zero [of "tx_slot s"] lt ok by (simp add: slots_ok_def)
  show "\<exists>i s'. ath9k_htc_tx_get_slot s = Some (int i, s') \<and> i < MAX_TX_BUF_NUM \<and> i \<notin> slots_used s \<and>
      slots_used s' = insert i (slots_used s) \<and> slots_ok s' \<and> s'\<lparr>tx_slot := []\<rparr> = s\<lparr>tx_slot := []\<rparr>"
    using lt z ok
    by (intro exI [of _ ?i] exI [of _ "s\<lparr>tx_slot := (tx_slot s)[?i := True]\<rparr>"])
      (auto simp: ath9k_htc_tx_get_slot_def Let_def set_bit_def slots_ok_def slots_used_def nth_list_update)
next
  fix s :: htc_tx_queues and i :: nat
  assume "slots_ok s" "i < MAX_TX_BUF_NUM"
  then show "\<exists>s'. ath9k_htc_tx_clear_slot s i = Some s' \<and> slots_used s' = slots_used s - {i} \<and> slots_ok s' \<and>
      s'\<lparr>tx_slot := []\<rparr> = s\<lparr>tx_slot := []\<rparr>"
    by (auto simp: ath9k_htc_tx_clear_slot_def clear_bit_def slots_ok_def slots_used_def nth_list_update)
qed

section \<open>The frames the driver holds\<close>

definition drv_hdr_len :: "htc_eps \<Rightarrow> sk_buff \<Rightarrow> nat" where
  "drv_hdr_len eps s = (if uint (ctl_epid (skb_cb s)) = mgmt_ep eps then 8 else 12)"

definition tx_cookie :: "htc_eps \<Rightarrow> sk_buff \<Rightarrow> nat" where
  "tx_cookie eps s = unat (skb_bytes s ! (drv_hdr_len eps s - 2))"

definition frame_fc :: "bytes \<Rightarrow> u16" where
  "frame_fc bs = le16 (bs ! 0) (bs ! 1)"

definition mac_hdr_ok :: "bytes \<Rightarrow> bool" where
  \<comment> \<open>the bytes hold what the driver reads of an 802.11 header\<close>
  "mac_hdr_ok bs \<longleftrightarrow> 10 \<le> length bs \<and> (ieee80211_is_data_qos (frame_fc bs) \<longrightarrow> qos_ctl_off (frame_fc bs) < length bs)"

definition drv_frame :: "htc_eps \<Rightarrow> sk_buff \<Rightarrow> bool" where
  \<comment> \<open>a frame with the driver's header, as it is handed to HTC\<close>
  "drv_frame eps s \<longleftrightarrow> wf_skb s \<and> get_htc_epid_queue eps (ctl_epid (skb_cb s)) \<noteq> None \<and>
     drv_hdr_len eps s \<le> skb_len s \<and> mac_hdr_ok (drop (drv_hdr_len eps s) (skb_bytes s))"

definition queue_frames :: "(ep_queue \<Rightarrow> sk_buff list) \<Rightarrow> sk_buff multiset" where
  "queue_frames e = (\<Sum>q\<leftarrow>all_queues. mset (e q))"

definition tx_frames :: "htc_tx_queues \<Rightarrow> sk_buff multiset" where
  "tx_frames tx = queue_frames (ep_queues tx) + mset (tx_failed tx)"

definition drv_inv :: "ath9k_htc_priv \<Rightarrow> sk_buff multiset \<Rightarrow> bool" where
  \<comment> \<open>\<open>out\<close>: the frames that are below, in HTC or the USB transport, or in the hands of the
      operation that runs\<close>
  "drv_inv p out \<longleftrightarrow>
     (\<forall>s \<in># tx_frames (priv_tx p) + out. drv_frame (priv_eps p) s) \<and>
     (\<forall>q. \<forall>s \<in> set (ep_queues (priv_tx p) q). get_htc_epid_queue (priv_eps p) (ctl_epid (skb_cb s)) = Some q) \<and>
     sp.holds (tx_cookie (priv_eps p)) (tx_frames (priv_tx p) + out) (priv_tx p) \<and>
     queued_cnt (priv_tx p) = int (size (tx_frames (priv_tx p) + out)) \<and>
     (\<forall>n. length (tid_state (priv_sta p n)) = ATH9K_HTC_MAX_TID)"

lemma queue_frames_upd: "queue_frames (e(q := xs)) + mset (e q) = queue_frames e + mset xs"
  by (cases q) (simp_all add: queue_frames_def all_queues_def)

lemma queue_frames_split: "queue_frames (e(q := [])) + mset (e q) = queue_frames e"
  using queue_frames_upd [of e q "[]"] by simp

lemma queue_frames_in: "s \<in> set (e q) \<Longrightarrow> s \<in># queue_frames e"
  by (cases q) (auto simp: queue_frames_def all_queues_def)

lemma epid_queue_hdr:
  "get_htc_epid_queue eps e \<noteq> None \<longleftrightarrow> uint e = mgmt_ep eps \<or> data_epid eps e"
  by (auto simp: get_htc_epid_queue_def data_epid_def)

lemma epid_queue_inj:
  "get_htc_epid_queue eps e = Some q \<Longrightarrow> get_htc_epid_queue eps e' = Some q \<Longrightarrow> e = e'"
  by (auto simp: get_htc_epid_queue_def word_uint_eq_iff split: if_splits)

lemma mem_byte: "wf_skb s \<Longrightarrow> i < skb_len s \<Longrightarrow> byte_at (skb_mem s) i = Some (skb_bytes s ! i)"
  by (simp add: skb_mem_byte_at byte_at_in)

lemma mem_le16: "wf_skb s \<Longrightarrow> i + 1 < skb_len s \<Longrightarrow> get_le16 (skb_mem s) i = Some (le16 (skb_bytes s ! i) (skb_bytes s ! (i + 1)))"
  by (simp add: get_le16_def mem_byte)

lemma drv_frame_len: "drv_frame eps s \<Longrightarrow> drv_hdr_len eps s + 10 \<le> skb_len s"
  by (auto simp: drv_frame_def mac_hdr_ok_def)

lemma strip_drv_header_ok:
  assumes "drv_frame eps s"
  shows "strip_drv_header eps s = Some (int (tx_cookie eps s), skb_pull (drv_hdr_len eps s) s)"
proof -
  have wf: "wf_skb s" and e: "uint (ctl_epid (skb_cb s)) = mgmt_ep eps \<or> data_epid eps (ctl_epid (skb_cb s))"
    using assms epid_queue_hdr by (auto simp: drv_frame_def)
  have len: "drv_hdr_len eps s + 10 \<le> skb_len s" by (rule drv_frame_len [OF assms])
  show ?thesis
    using e len mem_byte [OF wf, of 6] mem_byte [OF wf, of 10]
    by (auto simp: strip_drv_header_def drv_hdr_len_def tx_cookie_def Let_def)
qed

lemma stripped_bytes:
  assumes "drv_frame eps s"
  shows "skb_bytes (skb_pull (drv_hdr_len eps s) s) = drop (drv_hdr_len eps s) (skb_bytes s)"
    and "wf_skb (skb_pull (drv_hdr_len eps s) s)" and "mac_hdr_ok (skb_bytes (skb_pull (drv_hdr_len eps s) s))"
  using assms by (simp_all add: drv_frame_def skb_bytes_pull wf_skb_pull)

lemma check_tx_aggr_ok:
  assumes "wf_skb s" and "mac_hdr_ok (skb_bytes s)" and "\<forall>n. length (tid_state (priv_sta p n)) = 8"
  shows "\<exists>p' calls. ath9k_htc_check_tx_aggr find_sta p v s = Some (p', calls) \<and>
    priv_tx p' = priv_tx p \<and> priv_eps p' = priv_eps p \<and> (\<forall>n. length (tid_state (priv_sta p' n)) = 8) \<and>
    (\<forall>c \<in> set calls. \<exists>n tid. c = Start_ba_session n tid) \<and> pending_tx_events p' = pending_tx_events p"
proof -
  have len: "10 \<le> skb_len s" using assms(1,2) by (simp add: mac_hdr_ok_def)
  have fc: "get_le16 (skb_mem s) 0 = Some (frame_fc (skb_bytes s))"
    using mem_le16 [OF assms(1), of 0] len by (simp add: frame_fc_def)
  have mem: "skb_len s \<le> length (skb_mem s)" using assms(1) by (auto simp: wf_skb_def skb_len_def skb_mem_def)
  then obtain a where a: "read_bytes (skb_mem s) 4 6 = Some a" using len by (simp add: read_bytes_def)
  have qc: "ieee80211_is_data_qos (frame_fc (skb_bytes s)) \<Longrightarrow>
      byte_at (skb_mem s) (qos_ctl_off (frame_fc (skb_bytes s))) = Some (skb_bytes s ! qos_ctl_off (frame_fc (skb_bytes s)))"
    using mem_byte [OF assms(1)] assms(1,2) by (simp add: mac_hdr_ok_def)
  show ?thesis
    using fc a qc assms(3)
    by (auto simp: ath9k_htc_check_tx_aggr_def Let_def split: option.splits)
qed

lemma tx_rest:
  "tx'\<lparr>tx_slot := []\<rparr> = tx\<lparr>tx_slot := []\<rparr> \<Longrightarrow>
     ep_queues tx' = ep_queues tx \<and> tx_failed tx' = tx_failed tx \<and> queued_cnt tx' = queued_cnt tx \<and> txq_flags tx' = txq_flags tx"
  by (cases tx; cases tx') simp

lemma holds_slots: "tx_slot tx' = tx_slot tx \<Longrightarrow> sp.holds l M tx' \<longleftrightarrow> sp.holds l M tx"
  by (simp add: sp.holds_def slots_ok_def slots_used_def)

definition same_queues :: "ath9k_htc_priv \<Rightarrow> ath9k_htc_priv \<Rightarrow> bool" where
  "same_queues p p' \<longleftrightarrow> ep_queues (priv_tx p') = ep_queues (priv_tx p) \<and> tx_failed (priv_tx p') = tx_failed (priv_tx p) \<and>
     priv_eps p' = priv_eps p \<and> pending_tx_events p' = pending_tx_events p \<and> txq_flags (priv_tx p') = txq_flags (priv_tx p)"

definition reported :: "mac_call list \<Rightarrow> bytes list" where
  \<comment> \<open>the frames given back to mac80211, in order\<close>
  "reported calls = List.map_filter (\<lambda>c. case c of Tx_status s \<Rightarrow> Some (skb_bytes s) | _ \<Rightarrow> None) calls"

definition freed :: "mac_call list \<Rightarrow> sk_buff list" where
  "freed calls = List.map_filter (\<lambda>c. case c of Free_skb s \<Rightarrow> Some s | _ \<Rightarrow> None) calls"

definition mac_bytes :: "htc_eps \<Rightarrow> sk_buff \<Rightarrow> bytes" where
  \<comment> \<open>the 802.11 frame behind the driver's header\<close>
  "mac_bytes eps s = drop (drv_hdr_len eps s) (skb_bytes s)"

lemma reported_simps [simp]:
  "reported [] = []" "reported (Tx_status s # cs) = skb_bytes s # reported cs" "reported (a @ b) = reported a @ reported b"
  "freed [] = []" "freed (a @ b) = freed a @ freed b" "freed (Tx_status s # cs) = freed cs"
  by (simp_all add: reported_def freed_def List.map_filter_def)

lemma ba_calls: "\<forall>c \<in> set calls. \<exists>n tid. c = Start_ba_session n tid \<Longrightarrow> reported calls = [] \<and> freed calls = []"
  by (auto simp: reported_def freed_def List.map_filter_def filter_empty_conv)

lemma tx_process_shape:
  assumes fr: "drv_frame (priv_eps p) skb" and tid: "\<forall>n. length (tid_state (priv_sta p n)) = 8"
    and clr: "ath9k_htc_tx_clear_slot (tx_dequeued (priv_tx p)) (tx_cookie (priv_eps p) skb) = Some tx'"
  shows "\<exists>p' calls. ath9k_htc_tx_process find_sta p skb txs = Some (p', calls) \<and> priv_tx p' = tx' \<and>
    priv_eps p' = priv_eps p \<and> (\<forall>n. length (tid_state (priv_sta p' n)) = 8) \<and>
    pending_tx_events p' = pending_tx_events p \<and>
    reported calls = [mac_bytes (priv_eps p) skb] \<and> freed calls = []"
proof -
  let ?s = "skb_pull (drv_hdr_len (priv_eps p) skb) skb"
  let ?c = "clear_status ?s"
  note st = strip_drv_header_ok [OF fr]
  have sb: "skb_bytes (s\<lparr>skb_info := i\<rparr>) = skb_bytes s" "wf_skb (s\<lparr>skb_info := i\<rparr>) = wf_skb s"
    "skb_bytes (clear_status s) = skb_bytes s" "wf_skb (clear_status s) = wf_skb s" for s i
    by (simp_all add: clear_status_def skb_bytes_def skb_len_def skb_mem_def wf_skb_def)
  note bs = stripped_bytes [OF fr]
  show ?thesis
  proof (cases "\<exists>v st. info_vif (skb_info ?s) = Some v \<and> txs = Some st \<and> ctl_txok (skb_cb ?s)")
    case True
    then obtain v ts where v: "info_vif (skb_info ?s) = Some v" "txs = Some ts" "ctl_txok (skb_cb ?s)" by blast
    let ?i = "?c\<lparr>skb_info := tx_status_info (conf_band p) ts (skb_info ?c)\<rparr>"
    obtain p1 calls where a: "ath9k_htc_check_tx_aggr find_sta p v ?i = Some (p1, calls)"
      "priv_tx p1 = priv_tx p" "priv_eps p1 = priv_eps p" "\<forall>n. length (tid_state (priv_sta p1 n)) = 8"
      "\<forall>c \<in> set calls. \<exists>n tid. c = Start_ba_session n tid" "pending_tx_events p1 = pending_tx_events p"
      using check_tx_aggr_ok [of ?i p find_sta v] bs tid by (auto simp: sb)
    show ?thesis
      using a clr v st bs(1) ba_calls [OF a(5)]
      by (simp add: ath9k_htc_tx_process_def Let_def sb mac_bytes_def)
  next
    case False
    then have "(case (info_vif (skb_info ?s), txs) of
            (Some v, Some st) \<Rightarrow>
              if ctl_txok (skb_cb ?s) then do {
                let skb = ?c\<lparr>skb_info := tx_status_info (conf_band p) st (skb_info ?c)\<rparr>;
                (p, calls) \<leftarrow> ath9k_htc_check_tx_aggr find_sta p v skb;
                Some (p, skb, calls) }
              else Some (p, ?c, [])
          | _ \<Rightarrow> Some (p, ?c, [])) = Some (p, ?c, [])"
      by (auto split: option.splits)
    then have "ath9k_htc_tx_process find_sta p skb txs = Some (p\<lparr>priv_tx := tx'\<rparr>, [Tx_status ?c])"
      using clr st by (simp add: ath9k_htc_tx_process_def Let_def)
    then show ?thesis using tid bs(1) by (simp add: sb mac_bytes_def)
  qed
qed

lemma tx_process_ok:
  assumes inv: "drv_inv p (add_mset skb out)"
  shows "\<exists>p' calls. ath9k_htc_tx_process find_sta p skb txs = Some (p', calls) \<and> drv_inv p' out \<and> same_queues p p' \<and>
    reported calls = [mac_bytes (priv_eps p) skb] \<and> freed calls = []"
proof -
  let ?tx = "priv_tx p" and ?M = "tx_frames (priv_tx p) + out"
  have fr: "drv_frame (priv_eps p) skb" and tid: "\<forall>n. length (tid_state (priv_sta p n)) = 8"
    and h: "sp.holds (tx_cookie (priv_eps p)) (add_mset skb ?M) ?tx"
    and cnt: "queued_cnt ?tx = int (size (add_mset skb ?M))"
    using inv by (simp_all add: drv_inv_def)
  have h': "sp.holds (tx_cookie (priv_eps p)) (add_mset skb ?M) (tx_dequeued ?tx)"
    by (subst holds_slots [of _ ?tx]) (simp_all add: tx_dequeued_def h)
  obtain tx' where c: "ath9k_htc_tx_clear_slot (tx_dequeued ?tx) (tx_cookie (priv_eps p) skb) = Some tx'"
    "sp.holds (tx_cookie (priv_eps p)) ?M tx'" "tx'\<lparr>tx_slot := []\<rparr> = (tx_dequeued ?tx)\<lparr>tx_slot := []\<rparr>"
    using sp.holds_clear [OF h'] by blast
  have f: "ep_queues tx' = ep_queues ?tx" "tx_failed tx' = tx_failed ?tx" "queued_cnt tx' = int (size ?M)"
    "txq_flags tx' = txq_flags ?tx"
    using tx_rest [OF c(3)] cnt by (simp_all add: tx_dequeued_def)
  obtain p' calls where a: "ath9k_htc_tx_process find_sta p skb txs = Some (p', calls)" "priv_tx p' = tx'"
    "priv_eps p' = priv_eps p" "\<forall>n. length (tid_state (priv_sta p' n)) = 8" "pending_tx_events p' = pending_tx_events p"
    "reported calls = [mac_bytes (priv_eps p) skb]" "freed calls = []"
    using tx_process_shape [OF fr tid c(1)] by blast
  have fs: "tx_frames tx' = tx_frames ?tx" using f by (simp add: tx_frames_def)
  have "drv_inv p' out" using inv c(2) f a(2-4) by (simp add: drv_inv_def fs)
  then show ?thesis using a f by (auto simp: same_queues_def)
qed

lemma same_queues_trans: "same_queues p p' \<Longrightarrow> same_queues p' p'' \<Longrightarrow> same_queues p p''"
  by (simp add: same_queues_def)

lemma tx_process_all_ok:
  assumes "drv_inv p (mset q + out)"
  shows "\<exists>p' calls. tx_process_all find_sta p q = Some (p', calls) \<and> drv_inv p' out \<and> same_queues p p' \<and>
    reported calls = map (mac_bytes (priv_eps p)) q \<and> freed calls = []"
  using assms
proof (induction q arbitrary: p)
  case Nil
  then show ?case by (simp add: same_queues_def)
next
  case (Cons skb q)
  have "drv_inv p (add_mset skb (mset q + out))" using Cons.prems by simp
  then obtain p1 c1 where a: "ath9k_htc_tx_process find_sta p skb None = Some (p1, c1)" "drv_inv p1 (mset q + out)"
    "same_queues p p1" "reported c1 = [mac_bytes (priv_eps p) skb]" "freed c1 = []"
    using tx_process_ok by blast
  obtain p2 c2 where b: "tx_process_all find_sta p1 q = Some (p2, c2)" "drv_inv p2 out" "same_queues p1 p2"
    "reported c2 = map (mac_bytes (priv_eps p1)) q" "freed c2 = []"
    using Cons.IH [OF a(2)] by blast
  then show ?case using a same_queues_trans [OF a(3) b(3)] by (simp add: same_queues_def)
qed

lemma drv_inv_move:
  \<comment> \<open>frames move between the queues and the hands of the operation\<close>
  assumes "drv_inv p out" and "priv_eps p' = priv_eps p" and "priv_sta p' = priv_sta p"
    and "tx_slot (priv_tx p') = tx_slot (priv_tx p)" and "queued_cnt (priv_tx p') = queued_cnt (priv_tx p)"
    and "tx_frames (priv_tx p') + out' = tx_frames (priv_tx p) + out"
    and "\<forall>q. \<forall>s \<in> set (ep_queues (priv_tx p') q). get_htc_epid_queue (priv_eps p) (ctl_epid (skb_cb s)) = Some q"
  shows "drv_inv p' out'"
  using assms unfolding drv_inv_def by (simp add: holds_slots [OF assms(4)])

definition set_queue :: "ep_queue \<Rightarrow> sk_buff list \<Rightarrow> ath9k_htc_priv \<Rightarrow> ath9k_htc_priv" where
  "set_queue q xs p = p\<lparr>priv_tx := (priv_tx p)\<lparr>ep_queues := (ep_queues (priv_tx p))(q := xs)\<rparr>\<rparr>"

lemma set_queue_simps [simp]:
  "priv_eps (set_queue q xs p) = priv_eps p" "priv_sta (set_queue q xs p) = priv_sta p"
  "ep_queues (priv_tx (set_queue q xs p)) = (ep_queues (priv_tx p))(q := xs)"
  "tx_failed (priv_tx (set_queue q xs p)) = tx_failed (priv_tx p)" "tx_slot (priv_tx (set_queue q xs p)) = tx_slot (priv_tx p)"
  "queued_cnt (priv_tx (set_queue q xs p)) = queued_cnt (priv_tx p)" "txq_flags (priv_tx (set_queue q xs p)) = txq_flags (priv_tx p)"
  "pending_tx_events (set_queue q xs p) = pending_tx_events p"
  by (simp_all add: set_queue_def)

lemma drv_inv_take:
  assumes inv: "drv_inv p out" and m: "mset (ep_queues (priv_tx p) q) = mset xs + mset ys"
  shows "drv_inv (set_queue q xs p) (mset ys + out)"
proof (rule drv_inv_move [OF inv])
  have "queue_frames ((ep_queues (priv_tx p))(q := xs)) + (mset xs + mset ys) = queue_frames (ep_queues (priv_tx p)) + mset xs"
    using queue_frames_upd [of "ep_queues (priv_tx p)" q xs] m by simp
  then have "queue_frames ((ep_queues (priv_tx p))(q := xs)) + mset ys = queue_frames (ep_queues (priv_tx p))"
    by (metis add.assoc add.commute add_right_imp_eq)
  then show "tx_frames (priv_tx (set_queue q xs p)) + (mset ys + out) = tx_frames (priv_tx p) + out"
    by (simp add: tx_frames_def ac_simps)
  have "set xs \<subseteq> set (ep_queues (priv_tx p) q)" using m by (metis mset_eq_setD set_mset_mset set_mset_union Un_upper1)
  then show "\<forall>q'. \<forall>s \<in> set (ep_queues (priv_tx (set_queue q xs p)) q').
      get_htc_epid_queue (priv_eps p) (ctl_epid (skb_cb s)) = Some q'"
    using inv by (auto simp: drv_inv_def)
qed simp_all

lemma drainq_ok:
  assumes "drv_inv p out"
  shows "\<exists>p' calls. ath9k_htc_tx_drainq find_sta q p = Some (p', calls) \<and> drv_inv p' out \<and>
    same_queues (set_queue q [] p) p' \<and> reported calls = map (mac_bytes (priv_eps p)) (ep_queues (priv_tx p) q) \<and> freed calls = []"
  using tx_process_all_ok [OF drv_inv_take [OF assms, of q "[]" "ep_queues (priv_tx p) q"], of find_sta]
  by (simp add: ath9k_htc_tx_drainq_def set_queue_def)

lemma drain_queues_ok:
  assumes "drv_inv p out" and "distinct qs"
  shows "\<exists>p' calls. drain_queues find_sta qs p = Some (p', calls) \<and> drv_inv p' out \<and> priv_eps p' = priv_eps p \<and>
    (\<forall>q. ep_queues (priv_tx p') q = (if q \<in> set qs then [] else ep_queues (priv_tx p) q)) \<and>
    tx_failed (priv_tx p') = tx_failed (priv_tx p) \<and> txq_flags (priv_tx p') = txq_flags (priv_tx p) \<and>
    reported calls = concat (map (\<lambda>q. map (mac_bytes (priv_eps p)) (ep_queues (priv_tx p) q)) qs) \<and> freed calls = []"
  using assms
proof (induction qs arbitrary: p)
  case Nil
  then show ?case by simp
next
  case (Cons q qs)
  obtain p1 c1 where a: "ath9k_htc_tx_drainq find_sta q p = Some (p1, c1)" "drv_inv p1 out"
    "same_queues (set_queue q [] p) p1" "reported c1 = map (mac_bytes (priv_eps p)) (ep_queues (priv_tx p) q)" "freed c1 = []"
    using drainq_ok [OF Cons.prems(1)] by blast
  have f: "ep_queues (priv_tx p1) = (ep_queues (priv_tx p))(q := [])" "priv_eps p1 = priv_eps p"
    "tx_failed (priv_tx p1) = tx_failed (priv_tx p)" "txq_flags (priv_tx p1) = txq_flags (priv_tx p)"
    using a(3) by (simp_all add: same_queues_def)
  have d: "distinct qs" "q \<notin> set qs" using Cons.prems(2) by simp_all
  obtain p2 c2 where b: "drain_queues find_sta qs p1 = Some (p2, c2)" "drv_inv p2 out" "priv_eps p2 = priv_eps p1"
    "\<forall>q. ep_queues (priv_tx p2) q = (if q \<in> set qs then [] else ep_queues (priv_tx p1) q)"
    "tx_failed (priv_tx p2) = tx_failed (priv_tx p1)" "txq_flags (priv_tx p2) = txq_flags (priv_tx p1)"
    "reported c2 = concat (map (\<lambda>q. map (mac_bytes (priv_eps p1)) (ep_queues (priv_tx p1) q)) qs)" "freed c2 = []"
    using Cons.IH [OF a(2) d(1)] by blast
  have r2: "reported c2 = concat (map (\<lambda>q. map (mac_bytes (priv_eps p)) (ep_queues (priv_tx p) q)) qs)"
    unfolding b(7) f using d(2) by (intro arg_cong [of _ _ concat] map_cong) auto
  show ?case
    using a(1,2,4,5) b(1-6,8) f r2 by (intro exI [of _ p2] exI [of _ "c1 @ c2"]) simp
qed

lemma drv_inv_failed:
  assumes inv: "drv_inv p out" and m: "mset (tx_failed (priv_tx p)) = mset xs + mset ys"
  shows "drv_inv (p\<lparr>priv_tx := (priv_tx p)\<lparr>tx_failed := xs\<rparr>\<rparr>) (mset ys + out)"
  by (rule drv_inv_move [OF inv]) (use inv m in \<open>auto simp: tx_frames_def drv_inv_def\<close>)

lemma drain_failed_ok:
  assumes "drv_inv p out"
  shows "\<exists>p' calls. drain_failed find_sta p = Some (p', calls) \<and> drv_inv p' out \<and>
    same_queues (p\<lparr>priv_tx := (priv_tx p)\<lparr>tx_failed := []\<rparr>\<rparr>) p' \<and>
    reported calls = map (mac_bytes (priv_eps p)) (tx_failed (priv_tx p)) \<and> freed calls = []"
  using tx_process_all_ok [OF drv_inv_failed [OF assms, of "[]" "tx_failed (priv_tx p)"], of find_sta]
  by (simp add: drain_failed_def)

lemma check_cookie_ok:
  assumes "drv_frame eps s" and "ctl_epid (skb_cb s) = e"
  shows "check_cookie eps s cookie e = Some (tx_cookie eps s = unat cookie)"
proof -
  have wf: "wf_skb s" and e: "uint e = mgmt_ep eps \<or> data_epid eps e"
    using assms epid_queue_hdr by (auto simp: drv_frame_def)
  have len: "drv_hdr_len eps s + 10 \<le> skb_len s" by (rule drv_frame_len [OF assms(1)])
  show ?thesis
    using e len mem_byte [OF wf, of 6] mem_byte [OF wf, of 10] unfolding assms(2) [symmetric]
    by (auto simp: check_cookie_def drv_hdr_len_def tx_cookie_def word_unat_eq_iff)
qed

lemma unlink_cookie_ok:
  assumes "\<forall>s \<in> set q. drv_frame eps s \<and> ctl_epid (skb_cb s) = e"
  shows "unlink_cookie eps cookie e q =
    (case List.extract (\<lambda>s. tx_cookie eps s = unat cookie) q of
       None \<Rightarrow> Some (None, q) | Some (xs, s, ys) \<Rightarrow> Some (Some s, xs @ ys))"
  using assms
proof (induction q)
  case Nil
  then show ?case by (simp add: extract_Nil_code)
next
  case (Cons a q)
  then show ?case
    using check_cookie_ok [of eps a e cookie] by (auto simp: extract_Cons_code split: option.splits)
qed

definition status_for :: "ath9k_htc_priv \<Rightarrow> txstatus \<Rightarrow> sk_buff \<Rightarrow> bool" where
  \<comment> \<open>the status names this frame, by endpoint and cookie\<close>
  "status_for p txs s \<longleftrightarrow> ctl_epid (skb_cb s) = ts_epid txs \<and> tx_cookie (priv_eps p) s = unat (ts_cookie txs)"

lemma get_packet_ok:
  assumes inv: "drv_inv p out"
  obtains (Hit) q xs s ys where "get_htc_epid_queue (priv_eps p) (ts_epid txs) = Some q"
      "ep_queues (priv_tx p) q = xs @ s # ys" "status_for p txs s"
      "ath9k_htc_tx_get_packet p txs = Some (Some s, set_queue q (xs @ ys) p)" "drv_inv (set_queue q (xs @ ys) p) (add_mset s out)"
  | (Miss) p' where "ath9k_htc_tx_get_packet p txs = Some (None, p')" "p' = p"
      "\<forall>q. \<forall>s \<in> set (ep_queues (priv_tx p) q). \<not> status_for p txs s"
proof (cases "get_htc_epid_queue (priv_eps p) (ts_epid txs)")
  case None
  have "\<not> status_for p txs s" if s: "s \<in> set (ep_queues (priv_tx p) q)" for q s
  proof -
    have "get_htc_epid_queue (priv_eps p) (ctl_epid (skb_cb s)) = Some q" using inv s by (simp add: drv_inv_def)
    then show ?thesis using None by (auto simp: status_for_def)
  qed
  then show thesis using None by (intro Miss [of p]) (auto simp: ath9k_htc_tx_get_packet_def)
next
  case (Some q)
  let ?e = "ep_queues (priv_tx p)"
  have ep: "s \<in> set (?e q') \<Longrightarrow> get_htc_epid_queue (priv_eps p) (ctl_epid (skb_cb s)) = Some q'" for s q'
    using inv by (simp add: drv_inv_def)
  have fr: "\<forall>s \<in> set (?e q). drv_frame (priv_eps p) s \<and> ctl_epid (skb_cb s) = ts_epid txs"
    using inv ep [of _ q] epid_queue_inj [OF _ Some] queue_frames_in [of _ ?e q] by (auto simp: drv_inv_def tx_frames_def)
  note un = unlink_cookie_ok [OF fr, of "ts_cookie txs"]
  show thesis
  proof (cases "List.extract (\<lambda>s. tx_cookie (priv_eps p) s = unat (ts_cookie txs)) (?e q)")
    case None
    have g: "ath9k_htc_tx_get_packet p txs = Some (None, p)"
      using un None Some by (simp add: ath9k_htc_tx_get_packet_def)
    have "\<not> status_for p txs s" if s: "s \<in> set (?e q')" for q' s
    proof (cases "q' = q")
      case True
      then show ?thesis using None s by (simp add: extract_None_iff status_for_def)
    next
      case False
      then show ?thesis using ep [OF s] Some by (auto simp: status_for_def)
    qed
    then show thesis using g by (intro Miss [of p]) auto
  next
    case (Some z)
    obtain xs s ys where z: "z = (xs, s, ys)" by (cases z)
    have x: "?e q = xs @ s # ys" "tx_cookie (priv_eps p) s = unat (ts_cookie txs)"
      using Some by (auto simp: z extract_Some_iff)
    have st: "status_for p txs s" using fr x by (simp add: status_for_def)
    have inv': "drv_inv (set_queue q (xs @ ys) p) (add_mset s out)"
      using drv_inv_take [OF inv, of q "xs @ ys" "[s]"] x(1) by simp
    show thesis
      using un Some x(1) st inv' \<open>get_htc_epid_queue (priv_eps p) (ts_epid txs) = Some q\<close>
      by (intro Hit [of q xs s ys]) (simp_all add: ath9k_htc_tx_get_packet_def z set_queue_def)
  qed
qed

lemma get_packet_unique:
  \<comment> \<open>a status names at most one frame\<close>
  assumes inv: "drv_inv p out" and "s \<in> set (ep_queues (priv_tx p) q)" and "s' \<in># tx_frames (priv_tx p) + out"
    and "tx_cookie (priv_eps p) s = tx_cookie (priv_eps p) s'"
  shows "s' = s"
proof (rule ccontr)
  assume ne: "s' \<noteq> s"
  have "s \<in># tx_frames (priv_tx p) + out" using queue_frames_in [of s "ep_queues (priv_tx p)" q] assms(2) by (simp add: tx_frames_def)
  then obtain M where M: "tx_frames (priv_tx p) + out = add_mset s M" by (metis mset_add)
  have m: "s' \<in># M" using assms(3) ne unfolding M by simp
  have h: "sp.holds (tx_cookie (priv_eps p)) (add_mset s M) (priv_tx p)" using inv unfolding drv_inv_def M by simp
  show False using sp.holds_distinct [OF h m] assms(4) by simp
qed

lemma txstatus_one_ok:
  assumes inv: "drv_inv p out"
  shows "\<exists>p' calls. txstatus_one find_sta kz p txs = Some (p', calls) \<and> drv_inv p' out \<and> priv_eps p' = priv_eps p \<and> freed calls = [] \<and>
    txq_flags (priv_tx p') = txq_flags (priv_tx p) \<and> size (tx_frames (priv_tx p')) \<le> size (tx_frames (priv_tx p)) \<and>
    tx_failed (priv_tx p') = tx_failed (priv_tx p) \<and>
    ((\<exists>q s xs ys. ep_queues (priv_tx p) q = xs @ s # ys \<and> status_for p txs s \<and> reported calls = [mac_bytes (priv_eps p) s] \<and>
        ep_queues (priv_tx p') = (ep_queues (priv_tx p))(q := xs @ ys)) \<or>
     (\<forall>q. \<forall>s \<in> set (ep_queues (priv_tx p) q). \<not> status_for p txs s) \<and> reported calls = [] \<and>
        ep_queues (priv_tx p') = ep_queues (priv_tx p))"
proof (rule get_packet_ok [OF inv, of txs])
  fix q xs s ys
  assume a: "ep_queues (priv_tx p) q = xs @ s # ys" "status_for p txs s"
    "ath9k_htc_tx_get_packet p txs = Some (Some s, set_queue q (xs @ ys) p)" "drv_inv (set_queue q (xs @ ys) p) (add_mset s out)"
  obtain p' calls where b: "ath9k_htc_tx_process find_sta (set_queue q (xs @ ys) p) s (Some txs) = Some (p', calls)"
    "drv_inv p' out" "same_queues (set_queue q (xs @ ys) p) p'" "reported calls = [mac_bytes (priv_eps p) s]" "freed calls = []"
    using tx_process_ok [OF a(4), of find_sta "Some txs"] by auto
  have f: "ep_queues (priv_tx p') = (ep_queues (priv_tx p))(q := xs @ ys)" "priv_eps p' = priv_eps p"
    "txq_flags (priv_tx p') = txq_flags (priv_tx p)" "tx_failed (priv_tx p') = tx_failed (priv_tx p)"
    using b(3) by (simp_all add: same_queues_def)
  have "size (tx_frames (priv_tx p')) \<le> size (tx_frames (priv_tx p))"
    using b(3) a(1) queue_frames_upd [of "ep_queues (priv_tx p)" q "xs @ ys"] by (simp add: same_queues_def tx_frames_def)
      (metis le_SucI order_refl size_add_mset)
  moreover have "txstatus_one find_sta kz p txs = Some (p', calls)" using a(3) b(1) by (simp add: txstatus_one_def)
  ultimately show ?thesis using a(1,2) b(2,4,5) f by blast
next
  fix p'
  assume a: "ath9k_htc_tx_get_packet p txs = Some (None, p')" "p' = p"
    "\<forall>q. \<forall>s \<in> set (ep_queues (priv_tx p) q). \<not> status_for p txs s"
  have "drv_inv (p\<lparr>pending_tx_events := es\<rparr>) out" for es using inv by (simp add: drv_inv_def)
  then show ?thesis using a inv by (auto simp: txstatus_one_def)
qed

lemma txstatus_loop_ok:
  assumes "drv_inv p out" and "\<forall>i \<in> set is. 3 + 3 * i < length ev"
  shows "\<exists>p' calls. txstatus_loop find_sta kz ev is p = Some (p', calls) \<and> drv_inv p' out \<and> priv_eps p' = priv_eps p \<and>
    txq_flags (priv_tx p') = txq_flags (priv_tx p) \<and> freed calls = [] \<and>
    size (tx_frames (priv_tx p')) \<le> size (tx_frames (priv_tx p))"
  using assms
proof (induction "is" arbitrary: p)
  case Nil
  then show ?case by simp
next
  case (Cons i "is")
  have b: "byte_at ev (Suc (3 * i)) = Some (ev ! Suc (3 * i))" "byte_at ev (2 + 3 * i) = Some (ev ! (2 + 3 * i))"
    "byte_at ev (3 + 3 * i) = Some (ev ! (3 + 3 * i))"
    using Cons.prems(2) by (simp_all add: byte_at_def)
  let ?t = "\<lparr>ts_cookie = ev ! Suc (3 * i), ts_rate = ev ! (2 + 3 * i), ts_flags = ev ! (3 + 3 * i)\<rparr>"
  obtain p1 c1 where a: "txstatus_one find_sta (kz i) p ?t = Some (p1, c1)" "drv_inv p1 out" "priv_eps p1 = priv_eps p"
    "freed c1 = []" "txq_flags (priv_tx p1) = txq_flags (priv_tx p)" "size (tx_frames (priv_tx p1)) \<le> size (tx_frames (priv_tx p))"
    using txstatus_one_ok [OF Cons.prems(1), of find_sta "kz i" ?t] by blast
  obtain p2 c2 where c: "txstatus_loop find_sta kz ev is p1 = Some (p2, c2)" "drv_inv p2 out" "priv_eps p2 = priv_eps p1"
    "txq_flags (priv_tx p2) = txq_flags (priv_tx p1)" "freed c2 = []" "size (tx_frames (priv_tx p2)) \<le> size (tx_frames (priv_tx p1))"
    using Cons.IH [OF a(2)] Cons.prems(2) by auto
  then show ?case using a b by simp
qed

lemma txstatus_loop_None:
  assumes "drv_inv p out" and "length ev \<le> 3 + 3 * i" and "i \<in> set is"
  shows "txstatus_loop find_sta kz ev is p = None"
  using assms(1,3)
proof (induction "is" arbitrary: p)
  case (Cons j "is")
  show ?case
  proof (cases "3 + 3 * j < length ev")
    case True
    then have ji: "i \<in> set is" using Cons.prems(2) assms(2) by auto
    have b: "byte_at ev (Suc (3 * j)) = Some (ev ! Suc (3 * j))" "byte_at ev (2 + 3 * j) = Some (ev ! (2 + 3 * j))"
      "byte_at ev (3 + 3 * j) = Some (ev ! (3 + 3 * j))"
      using True by (simp_all add: byte_at_def)
    let ?t = "\<lparr>ts_cookie = ev ! Suc (3 * j), ts_rate = ev ! (2 + 3 * j), ts_flags = ev ! (3 + 3 * j)\<rparr>"
    obtain p1 c1 where a: "txstatus_one find_sta (kz j) p ?t = Some (p1, c1)" "drv_inv p1 out"
      using txstatus_one_ok [OF Cons.prems(1), of find_sta "kz j" ?t] by blast
    show ?thesis using a(1) b Cons.IH [OF a(2) ji] by simp
  next
    case False
    then show ?thesis by (simp add: byte_at_def [of ev "3 + 3 * j"] bind_eq_None_conv)
  qed
qed simp

lemma drv_inv_flags: "drv_inv (p\<lparr>priv_tx := (priv_tx p)\<lparr>txq_flags := f\<rparr>\<rparr>) out \<longleftrightarrow> drv_inv p out"
  by (simp add: drv_inv_def tx_frames_def holds_slots [of "(priv_tx p)\<lparr>txq_flags := f\<rparr>" "priv_tx p"])

lemma drv_inv_events: "drv_inv (p\<lparr>pending_tx_events := es\<rparr>) out \<longleftrightarrow> drv_inv p out"
  by (simp add: drv_inv_def)

lemma wake_queues_ok:
  assumes "drv_inv p out" and "wake_queues p = (p', calls)"
  shows "drv_inv p' out" and "reported calls = []" and "freed calls = []" and "ep_queues (priv_tx p') = ep_queues (priv_tx p)"
    and "queued_cnt (priv_tx p') < 246 \<Longrightarrow> \<not> has_flag (txq_flags (priv_tx p')) 1" and "priv_eps p' = priv_eps p"
    and "pending_tx_events p' = pending_tx_events p"
proof -
  have nf: "\<not> has_flag (x AND NOT 1) (1 :: u8)" for x :: u8
    by (simp add: has_flag_def and.assoc)
  note d = assms(2) [unfolded wake_queues_def ath9k_htc_check_wake_queues_def]
  show "drv_inv p' out" using d assms(1) by (auto simp: drv_inv_flags split: if_splits)
  show "reported calls = []" "freed calls = []" "priv_eps p' = priv_eps p" "pending_tx_events p' = pending_tx_events p"
    "ep_queues (priv_tx p') = ep_queues (priv_tx p)"
    using d by (auto simp: reported_def freed_def List.map_filter_def split: if_splits)
  show "queued_cnt (priv_tx p') < 246 \<Longrightarrow> \<not> has_flag (txq_flags (priv_tx p')) 1"
    using d nf by (auto split: if_splits)
qed

lemma cleanup_queue_ok:
  assumes "drv_inv p out"
  shows "\<exists>p' calls. ath9k_htc_tx_cleanup_queue find_sta now tmo q p = Some (p', calls) \<and> drv_inv p' out \<and>
    same_queues (set_queue q (filter (\<lambda>s. \<not> check_packet now tmo s) (ep_queues (priv_tx p) q)) p) p' \<and>
    reported calls = map (mac_bytes (priv_eps p)) (filter (check_packet now tmo) (ep_queues (priv_tx p) q)) \<and> freed calls = []"
proof -
  have "mset (ep_queues (priv_tx p) q) = mset (filter (\<lambda>s. \<not> check_packet now tmo s) (ep_queues (priv_tx p) q))
      + mset (filter (check_packet now tmo) (ep_queues (priv_tx p) q))"
    using multiset_partition [of "mset (ep_queues (priv_tx p) q)" "check_packet now tmo"]
    by (simp only: mset_filter add.commute)
  then show ?thesis
    using tx_process_all_ok [OF drv_inv_take [OF assms]]
    by (simp add: ath9k_htc_tx_cleanup_queue_def set_queue_def Let_def)
qed

lemma cleanup_queues_ok:
  assumes "drv_inv p out" and "distinct qs"
  shows "\<exists>p' calls. cleanup_queues find_sta now tmo qs p = Some (p', calls) \<and> drv_inv p' out \<and> priv_eps p' = priv_eps p \<and>
    (\<forall>q. ep_queues (priv_tx p') q = (if q \<in> set qs then filter (\<lambda>s. \<not> check_packet now tmo s) (ep_queues (priv_tx p) q)
                                     else ep_queues (priv_tx p) q)) \<and>
    pending_tx_events p' = pending_tx_events p \<and> tx_failed (priv_tx p') = tx_failed (priv_tx p) \<and>
    txq_flags (priv_tx p') = txq_flags (priv_tx p) \<and>
    reported calls = concat (map (\<lambda>q. map (mac_bytes (priv_eps p)) (filter (check_packet now tmo) (ep_queues (priv_tx p) q))) qs) \<and>
    freed calls = []"
  using assms
proof (induction qs arbitrary: p)
  case Nil
  then show ?case by simp
next
  case (Cons q qs)
  let ?f = "filter (\<lambda>s. \<not> check_packet now tmo s) (ep_queues (priv_tx p) q)"
  obtain p1 c1 where a: "ath9k_htc_tx_cleanup_queue find_sta now tmo q p = Some (p1, c1)" "drv_inv p1 out"
    "same_queues (set_queue q ?f p) p1"
    "reported c1 = map (mac_bytes (priv_eps p)) (filter (check_packet now tmo) (ep_queues (priv_tx p) q))" "freed c1 = []"
    using cleanup_queue_ok [OF Cons.prems(1)] by blast
  have f: "ep_queues (priv_tx p1) = (ep_queues (priv_tx p))(q := ?f)" "priv_eps p1 = priv_eps p"
    "pending_tx_events p1 = pending_tx_events p" "tx_failed (priv_tx p1) = tx_failed (priv_tx p)"
    "txq_flags (priv_tx p1) = txq_flags (priv_tx p)"
    using a(3) by (simp_all add: same_queues_def)
  have d: "distinct qs" "q \<notin> set qs" using Cons.prems(2) by simp_all
  obtain p2 c2 where b: "cleanup_queues find_sta now tmo qs p1 = Some (p2, c2)" "drv_inv p2 out" "priv_eps p2 = priv_eps p1"
    "\<forall>q. ep_queues (priv_tx p2) q = (if q \<in> set qs then filter (\<lambda>s. \<not> check_packet now tmo s) (ep_queues (priv_tx p1) q)
                                     else ep_queues (priv_tx p1) q)"
    "pending_tx_events p2 = pending_tx_events p1" "tx_failed (priv_tx p2) = tx_failed (priv_tx p1)"
    "txq_flags (priv_tx p2) = txq_flags (priv_tx p1)"
    "reported c2 = concat (map (\<lambda>q. map (mac_bytes (priv_eps p1)) (filter (check_packet now tmo) (ep_queues (priv_tx p1) q))) qs)"
    "freed c2 = []"
    using Cons.IH [OF a(2) d(1)] by blast
  have r2: "reported c2 = concat (map (\<lambda>q. map (mac_bytes (priv_eps p)) (filter (check_packet now tmo) (ep_queues (priv_tx p) q))) qs)"
    unfolding b(8) f using d(2) by (intro arg_cong [of _ _ concat] map_cong) auto
  show ?case
    using a(1,2,4,5) b(1-7,9) f r2 d by (intro exI [of _ p2] exI [of _ "c1 @ c2"]) simp
qed

lemma cleanup_events_ok:
  assumes "drv_inv p out"
  shows "\<exists>evs' p' calls. cleanup_events find_sta evs p = Some (evs', p', calls) \<and> drv_inv p' out \<and> priv_eps p' = priv_eps p \<and>
    freed calls = [] \<and> txq_flags (priv_tx p') = txq_flags (priv_tx p) \<and> length evs' \<le> length evs \<and> (\<forall>ev' \<in> set evs'. ev_count ev' < 40 \<and> (\<exists>ev \<in> set evs. ev_count ev' = Suc (ev_count ev))) \<and>
    (\<forall>q. set (ep_queues (priv_tx p') q) \<subseteq> set (ep_queues (priv_tx p) q)) \<and>
    size (tx_frames (priv_tx p)) = size (tx_frames (priv_tx p')) + length (reported calls)"
  using assms
proof (induction evs arbitrary: p)
  case Nil
  then show ?case by simp
next
  case (Cons ev evs)
  show ?case
  proof (rule get_packet_ok [OF Cons.prems, of "ev_txs ev"])
    fix q xs s ys
    assume a: "ep_queues (priv_tx p) q = xs @ s # ys"
      "ath9k_htc_tx_get_packet p (ev_txs ev) = Some (Some s, set_queue q (xs @ ys) p)" "drv_inv (set_queue q (xs @ ys) p) (add_mset s out)"
    obtain p1 c1 where b: "ath9k_htc_tx_process find_sta (set_queue q (xs @ ys) p) s (Some (ev_txs ev)) = Some (p1, c1)"
      "drv_inv p1 out" "same_queues (set_queue q (xs @ ys) p) p1" "reported c1 = [mac_bytes (priv_eps p) s]" "freed c1 = []"
      using tx_process_ok [OF a(3), of find_sta "Some (ev_txs ev)"] by auto
    have f: "ep_queues (priv_tx p1) = (ep_queues (priv_tx p))(q := xs @ ys)" "priv_eps p1 = priv_eps p"
      "tx_failed (priv_tx p1) = tx_failed (priv_tx p)" "txq_flags (priv_tx p1) = txq_flags (priv_tx p)"
      using b(3) by (simp_all add: same_queues_def)
    have "queue_frames (ep_queues (priv_tx p)) = add_mset s (queue_frames ((ep_queues (priv_tx p))(q := xs @ ys)))"
      using queue_frames_upd [of "ep_queues (priv_tx p)" q "xs @ ys"] a(1) by simp
    then have sz: "size (tx_frames (priv_tx p)) = Suc (size (tx_frames (priv_tx p1)))"
      by (simp add: tx_frames_def f)
    have sub: "set (ep_queues (priv_tx p1) q') \<subseteq> set (ep_queues (priv_tx p) q')" for q'
      using f a(1) by auto
    obtain evs2 p2 c2 where c: "cleanup_events find_sta evs p1 = Some (evs2, p2, c2)" "drv_inv p2 out" "priv_eps p2 = priv_eps p1"
      "freed c2 = []" "txq_flags (priv_tx p2) = txq_flags (priv_tx p1)" "length evs2 \<le> length evs" "\<forall>ev' \<in> set evs2. ev_count ev' < 40 \<and> (\<exists>ev \<in> set evs. ev_count ev' = Suc (ev_count ev))"
      "\<forall>q. set (ep_queues (priv_tx p2) q) \<subseteq> set (ep_queues (priv_tx p1) q)"
      "size (tx_frames (priv_tx p1)) = size (tx_frames (priv_tx p2)) + length (reported c2)"
      using Cons.IH [OF b(2)] by blast
    have "cleanup_events find_sta (ev # evs) p = Some (evs2, p2, c1 @ c2)" using a(2) b(1) c(1) by simp
    moreover have "\<forall>q. set (ep_queues (priv_tx p2) q) \<subseteq> set (ep_queues (priv_tx p) q)" using c(8) sub by blast
    moreover have "\<forall>ev' \<in> set evs2. ev_count ev' < 40 \<and> (\<exists>e \<in> set (ev # evs). ev_count ev' = Suc (ev_count e))"
      using c(7) by auto
    ultimately show ?thesis
      using b(4,5) c(2-6,9) f(2,4) sz by (intro exI [of _ evs2] exI [of _ p2] exI [of _ "c1 @ c2"]) simp
  next
    fix p'
    assume a: "ath9k_htc_tx_get_packet p (ev_txs ev) = Some (None, p')" "p' = p"
    obtain evs2 p2 c2 where c: "cleanup_events find_sta evs p = Some (evs2, p2, c2)" "drv_inv p2 out" "priv_eps p2 = priv_eps p"
      "freed c2 = []" "txq_flags (priv_tx p2) = txq_flags (priv_tx p)" "length evs2 \<le> length evs" "\<forall>ev' \<in> set evs2. ev_count ev' < 40 \<and> (\<exists>ev \<in> set evs. ev_count ev' = Suc (ev_count ev))"
      "\<forall>q. set (ep_queues (priv_tx p2) q) \<subseteq> set (ep_queues (priv_tx p) q)"
      "size (tx_frames (priv_tx p)) = size (tx_frames (priv_tx p2)) + length (reported c2)"
      using Cons.IH [OF Cons.prems] by blast
    let ?evs = "if 40 \<le> Suc (ev_count ev) then evs2 else ev\<lparr>ev_count := Suc (ev_count ev)\<rparr> # evs2"
    have "cleanup_events find_sta (ev # evs) p = Some (?evs, p2, c2)" using a c(1) by (simp add: Let_def)
    moreover have "\<forall>ev' \<in> set ?evs. ev_count ev' < 40 \<and> (\<exists>e \<in> set (ev # evs). ev_count ev' = Suc (ev_count e))"
      using c(7) by auto
    ultimately show ?thesis
      using c(2-6,8,9) by (intro exI [of _ ?evs] exI [of _ p2] exI [of _ c2]) (simp del: cleanup_events.simps)
  qed
qed

section \<open>Building and sending a frame\<close>

definition eps_ok :: "htc_eps \<Rightarrow> bool" where
  \<comment> \<open>the endpoints are connected, and the management endpoint is not one of the data endpoints\<close>
  "eps_ok eps \<longleftrightarrow> (\<forall>e \<in> {mgmt_ep eps, cab_ep eps, data_be_ep eps, data_bk_ep eps, data_vi_ep eps, data_vo_ep eps}. 0 \<le> e \<and> e < 256) \<and>
     mgmt_ep eps \<notin> {cab_ep eps, data_be_ep eps, data_bk_ep eps, data_vi_ep eps, data_vo_ep eps}"

definition mac_frame :: "ath9k_htc_priv \<Rightarrow> nat option \<Rightarrow> sk_buff \<Rightarrow> bool" where
  \<comment> \<open>a frame mac80211 may hand to the driver: a whole header, the announced headroom, an interface
      and a station of the driver\<close>
  "mac_frame p sta s \<longleftrightarrow> wf_skb s \<and> 12 \<le> skb_data s \<and> mac_hdr_ok (skb_bytes s) \<and> 24 \<le> skb_len s \<and>
     (sta = None \<longrightarrow> unat (case info_vif (skb_info s) of Some v \<Rightarrow> vif_index (priv_vif p v) | None \<Rightarrow> mon_vif_idx p)
                      < length (vif_sta_pos p)) \<and>
     (\<forall>v. info_vif (skb_info s) = Some v \<longrightarrow> length (tsfadjust (priv_vif p v)) = 8) \<and>
     (ieee80211_is_probe_resp (frame_fc (skb_bytes s)) \<longrightarrow> 32 \<le> skb_len s)"

lemma skb_bytes_split:
  "skb_buf t = pre @ m @ post \<Longrightarrow> length pre = skb_data t \<Longrightarrow> length m = skb_len t \<Longrightarrow> skb_bytes t = m"
  by (simp add: skb_bytes_def skb_mem_def)

lemma skb_store_bytes:
  assumes "wf_skb s" and "i + length bs \<le> skb_len s"
  obtains t where "skb_store i bs s = Some t" "skb_bytes t = take i (skb_bytes s) @ bs @ drop (i + length bs) (skb_bytes s)"
    "wf_skb t" "skb_data t = skb_data s" "skb_tail t = skb_tail s" "skb_cb t = skb_cb s" "skb_info t = skb_info s"
    "skb_queue_mapping t = skb_queue_mapping s"
proof
  have le: "skb_data s + (i + length bs) \<le> length (skb_buf s)" using assms by (auto simp: wf_skb_def skb_len_def)
  let ?t = "s\<lparr>skb_buf := take (skb_data s + i) (skb_buf s) @ bs @ drop (skb_data s + i + length bs) (skb_buf s)\<rparr>"
  show "skb_store i bs s = Some ?t" using le by (simp add: skb_store_def write_bytes_def add.assoc)
  have d: "skb_data s \<le> skb_tail s" "skb_tail s \<le> length (skb_buf s)" using assms(1) by (simp_all add: wf_skb_def)
  let ?pre = "take (skb_data s) (skb_buf s)" and ?post = "drop (skb_tail s) (skb_buf s)"
  have buf: "skb_buf s = ?pre @ skb_bytes s @ ?post"
    using d by (simp add: skb_bytes_def skb_len_def skb_mem_def)
      (metis append_take_drop_id drop_drop le_add_diff_inverse2)
  have pre: "length ?pre = skb_data s" using d by simp
  have len: "length (skb_bytes s) = skb_len s" using assms(1) by simp
  have tk: "take (skb_data s + i) (skb_buf s) = ?pre @ take i (skb_bytes s)"
    using assms(2) len pre by (subst buf) (simp only: take_append, simp)
  have dr: "drop (skb_data s + i + length bs) (skb_buf s) = drop (i + length bs) (skb_bytes s) @ ?post"
    using assms(2) len pre by (subst buf) (simp only: drop_append, simp add: add.assoc)
  have b: "skb_buf ?t = ?pre @ (take i (skb_bytes s) @ bs @ drop (i + length bs) (skb_bytes s)) @ ?post"
    using tk dr by simp
  show "skb_bytes ?t = take i (skb_bytes s) @ bs @ drop (i + length bs) (skb_bytes s)"
    by (rule skb_bytes_split [OF b]) (use pre assms(2) len in \<open>simp_all add: skb_len_def\<close>)
  show "wf_skb ?t" using d le by (simp add: wf_skb_def)
qed simp_all

lemma push_bytes_fields:
  assumes "wf_skb s" and "length bs \<le> skb_data s"
  obtains t where "skb_push_bytes bs s = Some t" "skb_bytes t = bs @ skb_bytes s" "wf_skb t"
    "skb_cb t = skb_cb s" "skb_info t = skb_info s" "skb_queue_mapping t = skb_queue_mapping s"
proof -
  obtain t where t: "skb_push_bytes bs s = Some t" using skb_push_bytes_enough [OF assms] by blast
  have "skb_cb t = skb_cb s" "skb_info t = skb_info s" "skb_queue_mapping t = skb_queue_mapping s"
    using t by (auto simp: skb_push_bytes_def skb_push_def skb_store_def split: if_splits Option.bind_splits)
  then show thesis using that [OF t skb_push_bytes_SomeD(1,2) [OF assms(1) t]] by blast
qed

lemma skb_cb_upd [simp]:
  "skb_bytes (s\<lparr>skb_cb := c\<rparr>) = skb_bytes s" "wf_skb (s\<lparr>skb_cb := c\<rparr>) = wf_skb s" "skb_mem (s\<lparr>skb_cb := c\<rparr>) = skb_mem s"
  "skb_len (s\<lparr>skb_cb := c\<rparr>) = skb_len s"
  by (simp_all add: skb_bytes_def skb_len_def skb_mem_def wf_skb_def)

lemma epid_word:
  assumes "eps_ok eps" and "e \<in> {cab_ep eps, data_be_ep eps, data_bk_ep eps, data_vi_ep eps, data_vo_ep eps}"
  shows "uint (word_of_int e :: u8) = e" and "get_htc_epid_queue eps (word_of_int e) \<noteq> None" and "e \<noteq> mgmt_ep eps"
proof -
  show u: "uint (word_of_int e :: u8) = e"
    using assms by (auto simp: eps_ok_def uint_word_of_int_eq take_bit_int_eq_self_iff)
  show "get_htc_epid_queue eps (word_of_int e) \<noteq> None" 
    unfolding epid_queue_hdr data_epid_def u using assms(2) by blast
  show "e \<noteq> mgmt_ep eps" using assms by (auto simp: eps_ok_def)
qed

lemma mgmt_word: "eps_ok eps \<Longrightarrow> uint (word_of_int (mgmt_ep eps) :: u8) = mgmt_ep eps"
  by (simp add: eps_ok_def uint_word_of_int_eq take_bit_int_eq_self_iff)

lemma tx_data_ok:
  assumes eps: "eps_ok (priv_eps p)" and wf: "wf_skb s" "12 \<le> skb_data s" "mac_hdr_ok (skb_bytes s)"
  shows "\<exists>t. ath9k_htc_tx_data p avp s sta vif slot cab = Some t \<and> drv_frame (priv_eps p) t \<and>
    tx_cookie (priv_eps p) t = unat slot \<and> mac_bytes (priv_eps p) t = skb_bytes s \<and>
    skb_info t = skb_info s \<and> skb_bytes t ! 1 = sta \<and> skb_bytes t ! 2 = vif \<and> ctl_sta_idx (skb_cb t) = sta"
proof -
  define ty where "ty = (if has_flag (info_flags (skb_info s)) IEEE80211_TX_CTL_AMPDU then ATH9K_HTC_AMPDU else ATH9K_HTC_NORMAL)"
  let ?s = "s\<lparr>skb_cb := zero_ctl\<lparr>ctl_sta_idx := sta, ctl_type := ty\<rparr>\<rparr>"
  let ?fc = "frame_fc (skb_bytes s)"
  have len: "10 \<le> skb_len s" using wf by (simp add: mac_hdr_ok_def)
  have fc: "get_le16 (skb_mem s) 0 = Some ?fc" using mem_le16 [OF wf(1), of 0] len by (simp add: frame_fc_def)
  obtain tid where tid: "(if ieee80211_is_data_qos ?fc
      then map_option (\<lambda>b. b AND 0x0f) (byte_at (skb_mem s) (qos_ctl_off ?fc)) else Some 0) = Some tid"
    using mem_byte [OF wf(1), of "qos_ctl_off ?fc"] wf by (cases "ieee80211_is_data_qos ?fc") (auto simp: mac_hdr_ok_def)
  define h where "h = tx_frame_hdr ty sta vif tid (tx_flags_of p avp ?s) (ath9k_cmn_get_hw_crypto_keytype ?s) (tx_keyix ?s) slot"
  have h: "length h = 12" "h ! 10 = slot" "h ! 1 = sta" "h ! 2 = vif"
    by (simp_all add: h_def tx_frame_hdr_def be32_bytes_def le32_bytes_def)
  obtain t where t: "skb_push_bytes h ?s = Some t" "skb_bytes t = h @ skb_bytes ?s" "wf_skb t" "skb_cb t = skb_cb ?s"
    "skb_info t = skb_info ?s" "skb_queue_mapping t = skb_queue_mapping ?s"
    by (rule push_bytes_fields [of ?s h]) (use wf h in auto)
  define e where "e = (if cab then cab_ep (priv_eps p) else get_htc_epid (priv_eps p) (skb_queue_mapping t))"
  have e: "e \<in> {cab_ep (priv_eps p), data_be_ep (priv_eps p), data_bk_ep (priv_eps p), data_vi_ep (priv_eps p), data_vo_ep (priv_eps p)}"
    by (simp add: e_def get_htc_epid_def)
  note w = epid_word [OF eps e]
  define u where "u = t\<lparr>skb_cb := (skb_cb t)\<lparr>ctl_epid := word_of_int e\<rparr>\<rparr>"
  have u: "skb_bytes u = h @ skb_bytes s" "wf_skb u" "skb_info u = skb_info s" "ctl_sta_idx (skb_cb u) = sta"
    "ctl_epid (skb_cb u) = word_of_int e"
    using t by (simp_all add: u_def)
  have n: "drv_hdr_len (priv_eps p) u = 12" using w(1,3) u(5) by (simp add: drv_hdr_len_def)
  have "skb_len u = 12 + skb_len s" using u(1,2) h(1) wf(1) by (metis length_append skb_bytes_length)
  then have "drv_frame (priv_eps p) u" using u w(2) wf h(1) by (simp add: drv_frame_def n)
  moreover have "ath9k_htc_tx_data p avp s sta vif slot cab = Some u"
    using fc tid t(1) unfolding ath9k_htc_tx_data_def ty_def [symmetric] Let_def h_def e_def u_def
    by (cases "ieee80211_is_data_qos ?fc") auto
  moreover have "skb_bytes u ! 10 = slot" "skb_bytes u ! 1 = sta" "skb_bytes u ! 2 = vif"
    using u(1) h by (simp_all add: nth_append)
  ultimately show ?thesis
    using u(1,3,4) h(1) by (intro exI [of _ u]) (simp add: tx_cookie_def n mac_bytes_def)
qed

definition tx_patched :: "ath9k_htc_priv \<Rightarrow> nat option \<Rightarrow> bytes \<Rightarrow> bytes" where
  \<comment> \<open>the frame that goes out: a probe response gets the interface's TSF offset as its timestamp\<close>
  "tx_patched p vif bs =
     (case vif of
        Some v \<Rightarrow> if ieee80211_is_probe_resp (frame_fc bs)
                  then take 24 bs @ tsfadjust (priv_vif p v) @ drop 32 bs else bs
      | None \<Rightarrow> bs)"

lemma probe_resp_not_data: "ieee80211_is_probe_resp fc \<Longrightarrow> \<not> ieee80211_is_data fc"
proof -
  assume a: "ieee80211_is_probe_resp fc"
  have "fc AND 0xc = (fc AND (0xc OR 0xf0)) AND 0xc" by (simp add: and.assoc)
  then show ?thesis using a by (simp add: ieee80211_is_data_def ieee80211_is_probe_resp_def)
qed

lemma is_data_qos_data: "ieee80211_is_data_qos fc \<Longrightarrow> ieee80211_is_data fc"
proof -
  assume a: "ieee80211_is_data_qos fc"
  have "fc AND 0xc = (fc AND (0xc OR 0x80)) AND 0xc" by (simp add: and.assoc)
  then show ?thesis using a by (simp add: ieee80211_is_data_def ieee80211_is_data_qos_def)
qed

lemma tx_mgmt_ok:
  assumes eps: "eps_ok (priv_eps p)" and fr: "mac_frame p sta s" and nd: "\<not> ieee80211_is_data (frame_fc (skb_bytes s))"
  shows "\<exists>t. ath9k_htc_tx_mgmt p (map_option (priv_vif p) (info_vif (skb_info s))) s sta_idx vif slot = Some t \<and>
    drv_frame (priv_eps p) t \<and> tx_cookie (priv_eps p) t = unat slot \<and> mac_bytes (priv_eps p) t = tx_patched p (info_vif (skb_info s)) (skb_bytes s) \<and>
    skb_info t = skb_info s \<and> skb_bytes t ! 0 = sta_idx \<and> skb_bytes t ! 1 = vif"
proof -
  have wf: "wf_skb s" "8 \<le> skb_data s" "24 \<le> skb_len s" using fr by (simp_all add: mac_frame_def)
  let ?s = "s\<lparr>skb_cb := zero_ctl\<rparr>" and ?v = "map_option (priv_vif p) (info_vif (skb_info s))" and ?fc = "frame_fc (skb_bytes s)"
  have fc: "get_le16 (skb_mem s) 0 = Some ?fc" using mem_le16 [OF wf(1), of 0] wf(3) by (simp add: frame_fc_def)
  obtain s1 where s1: "(case ?v of Some v \<Rightarrow> if ieee80211_is_probe_resp ?fc then skb_store 24 (tsfadjust v) ?s else Some ?s
             | None \<Rightarrow> Some ?s) = Some s1"
    and b1: "skb_bytes s1 = tx_patched p (info_vif (skb_info s)) (skb_bytes s)" "wf_skb s1" "skb_data s1 = skb_data s" "skb_info s1 = skb_info s" "skb_len s1 = skb_len s"
  proof (cases "\<exists>v. info_vif (skb_info s) = Some v \<and> ieee80211_is_probe_resp ?fc")
    case True
    then obtain v where v: "info_vif (skb_info s) = Some v" "ieee80211_is_probe_resp ?fc" by blast
    have l: "length (tsfadjust (priv_vif p v)) = 8" "32 \<le> skb_len s" using fr v by (simp_all add: mac_frame_def)
    show thesis
      by (rule skb_store_bytes [of ?s 24 "tsfadjust (priv_vif p v)"])
        (use wf l v in \<open>auto simp: tx_patched_def skb_len_def intro!: that\<close>)
  next
    case False
    show thesis by (rule that [of ?s]) (use False wf in \<open>auto simp: tx_patched_def split: option.splits\<close>)
  qed
  let ?m = "s1\<lparr>skb_cb := (skb_cb s1)\<lparr>ctl_type := ATH9K_HTC_MGMT\<rparr>\<rparr>"
  define h where "h = tx_mgmt_hdr sta_idx vif (ath9k_cmn_get_hw_crypto_keytype ?m) (tx_keyix ?m) slot"
  have h: "length h = 8" "h ! 6 = slot" "h ! 0 = sta_idx" "h ! 1 = vif" by (simp_all add: h_def tx_mgmt_hdr_def)
  obtain t where t: "skb_push_bytes h ?m = Some t" "skb_bytes t = h @ skb_bytes ?m" "wf_skb t" "skb_cb t = skb_cb ?m"
    "skb_info t = skb_info ?m"
    by (rule push_bytes_fields [of ?m h]) (use wf b1 h in auto)
  define u where "u = t\<lparr>skb_cb := (skb_cb t)\<lparr>ctl_epid := word_of_int (mgmt_ep (priv_eps p))\<rparr>\<rparr>"
  have u: "skb_bytes u = h @ tx_patched p (info_vif (skb_info s)) (skb_bytes s)" "wf_skb u" "skb_info u = skb_info s"
    "ctl_epid (skb_cb u) = word_of_int (mgmt_ep (priv_eps p))"
    using t b1 by (simp_all add: u_def)
  have n: "drv_hdr_len (priv_eps p) u = 8" using u(4) mgmt_word [OF eps] by (simp add: drv_hdr_len_def)
  have lp: "length (tx_patched p (info_vif (skb_info s)) (skb_bytes s)) = skb_len s" using b1 by (metis skb_bytes_length)
  have fp: "frame_fc (tx_patched p (info_vif (skb_info s)) (skb_bytes s)) = ?fc" using wf by (auto simp: tx_patched_def frame_fc_def nth_append split: option.splits)
  have "skb_len u = 8 + skb_len s" using u(1,2) h(1) lp by (metis length_append skb_bytes_length)
  moreover have "mac_hdr_ok (tx_patched p (info_vif (skb_info s)) (skb_bytes s))"
    using lp wf(3) fp nd is_data_qos_data by (auto simp: mac_hdr_ok_def)
  ultimately have "drv_frame (priv_eps p) u"
    using u h(1) mgmt_word [OF eps] by (simp add: drv_frame_def n epid_queue_hdr [simplified])
  moreover have "ath9k_htc_tx_mgmt p ?v s sta_idx vif slot = Some u"
    using fc s1 t(1) unfolding ath9k_htc_tx_mgmt_def Let_def h_def u_def by (simp add: tx_mgmt_hdr_def)
  moreover have "skb_bytes u ! 6 = slot" "skb_bytes u ! 0 = sta_idx" "skb_bytes u ! 1 = vif"
    using u(1) h by (simp_all add: nth_append)
  ultimately show ?thesis
    using u(1,3) h(1) by (intro exI [of _ u]) (simp add: tx_cookie_def n mac_bytes_def)
qed

lemma tx_build_ok:
  assumes eps: "eps_ok (priv_eps p)" and fr: "mac_frame p sta s" and v: "info_vif (skb_info s) \<noteq> None \<or> is_monitoring p"
  shows "\<exists>t. tx_build p sta s slot cab = Some (Some t) \<and> drv_frame (priv_eps p) t \<and> tx_cookie (priv_eps p) t = unat slot \<and>
    mac_bytes (priv_eps p) t = tx_patched p (info_vif (skb_info s)) (skb_bytes s) \<and> skb_info t = skb_info s"
proof -
  have wf: "wf_skb s" "12 \<le> skb_data s" "mac_hdr_ok (skb_bytes s)" "24 \<le> skb_len s" using fr by (simp_all add: mac_frame_def)
  let ?fc = "frame_fc (skb_bytes s)" and ?v = "map_option (priv_vif p) (info_vif (skb_info s))"
  have fc: "get_le16 (skb_mem s) 0 = Some ?fc" using mem_le16 [OF wf(1), of 0] wf(4) by (simp add: frame_fc_def)
  define vi where "vi = (case ?v of Some v \<Rightarrow> vif_index v | None \<Rightarrow> mon_vif_idx p)"
  obtain si where si: "(case sta of Some n \<Rightarrow> Some (sta_index (priv_sta p n)) | None \<Rightarrow> byte_at (vif_sta_pos p) (unat vi)) = Some si"
  proof (cases sta)
    case None
    then have "unat vi < length (vif_sta_pos p)" using fr by (cases "info_vif (skb_info s)") (simp_all add: mac_frame_def vi_def)
    then show thesis using that None by (simp add: byte_at_def)
  qed (use that in auto)
  show ?thesis
  proof (cases "ieee80211_is_data ?fc")
    case True
    then have "tx_patched p (info_vif (skb_info s)) (skb_bytes s) = skb_bytes s" using probe_resp_not_data [of ?fc] by (auto simp: tx_patched_def split: option.splits)
    then show ?thesis
      using True tx_data_ok [OF eps wf(1-3), of ?v si vi slot cab] v fc si
      unfolding tx_build_def Let_def vi_def [symmetric] by auto
  next
    case False
    then show ?thesis
      using tx_mgmt_ok [OF eps fr False, of si vi slot] v fc si unfolding tx_build_def Let_def vi_def [symmetric] by auto
  qed
qed

definition pad_hdr :: "bytes \<Rightarrow> bytes" where
  \<comment> \<open>the frame with its header padded to a multiple of four bytes\<close>
  "pad_hdr bs =
     (let n = ath9k_cmn_padpos (frame_fc bs); k = n mod 4 in
      if k \<noteq> 0 \<and> n < length bs then take n bs @ drop (n - k) (take n bs) @ drop n bs else bs)"

lemma padpos_ge: "24 \<le> ath9k_cmn_padpos fc"
  by (simp add: ath9k_cmn_padpos_def)

lemma padpos_is_hdrlen_mod: "ath9k_cmn_padpos fc mod 4 \<in> {0, 2}"
  by (simp add: ath9k_cmn_padpos_def)

lemma pad_hdr_fc: "frame_fc (pad_hdr bs) = frame_fc bs"
  using padpos_ge [of "frame_fc bs"] by (simp add: pad_hdr_def frame_fc_def Let_def nth_append)

lemma pad_hdr_length: "length bs \<le> length (pad_hdr bs)"
  by (simp add: pad_hdr_def Let_def)

lemma pad_hdr_ok: "mac_hdr_ok bs \<Longrightarrow> mac_hdr_ok (pad_hdr bs)"
  using pad_hdr_length [of bs] by (auto simp: mac_hdr_ok_def pad_hdr_fc)

lemma tx_pad_ok:
  assumes fr: "mac_frame p sta s" and room: "14 \<le> skb_data s"
  shows "\<exists>t. tx_pad s = Some (Some t) \<and> mac_frame p sta t \<and> skb_bytes t = pad_hdr (skb_bytes s) \<and>
    skb_info t = skb_info s"
proof -
  let ?fc = "frame_fc (skb_bytes s)"
  let ?n = "ath9k_cmn_padpos ?fc" and ?k = "ath9k_cmn_padpos ?fc mod 4"
  have wf: "wf_skb s" "24 \<le> skb_len s" "mac_hdr_ok (skb_bytes s)" using fr by (simp_all add: mac_frame_def)
  have fc: "get_le16 (skb_mem s) 0 = Some ?fc" using mem_le16 [OF wf(1), of 0] wf(2) by (simp add: frame_fc_def)
  show ?thesis
  proof (cases "?k \<noteq> 0 \<and> ?n < skb_len s")
    case False
    then have "tx_pad s = Some (Some s)" "pad_hdr (skb_bytes s) = skb_bytes s"
      using fc wf(1) by (auto simp: tx_pad_def pad_hdr_def Let_def)
    then show ?thesis using fr by auto
  next
    case True
    have k: "?k \<le> 2" using padpos_is_hdrlen_mod [of ?fc] by auto
    define u where "u = s\<lparr>skb_data := skb_data s - ?k\<rparr>"
    have push: "skb_push ?k s = Some u" using k room by (simp add: skb_push_def u_def)
    have wfu: "wf_skb u" using wf(1) by (auto simp: u_def wf_skb_def)
    have lu: "skb_len u = skb_len s + ?k" using wf(1) k room by (auto simp: u_def wf_skb_def skb_len_def)
    have du: "drop ?k (skb_bytes u) = skb_bytes s"
      using wf(1) k room by (simp add: u_def skb_bytes_def skb_mem_def skb_len_def wf_skb_def drop_take)
    have "read_bytes (skb_mem u) ?k ?n = Some (take ?n (drop ?k (skb_mem u)))"
      using lu wfu True by (auto simp: read_bytes_def wf_skb_def skb_len_def skb_mem_def)
    moreover have "drop ?k (skb_mem u) = skb_mem s" using k room by (simp add: u_def skb_mem_def)
    ultimately have rd: "read_bytes (skb_mem u) ?k ?n = Some (take ?n (skb_bytes s))"
      using True by (simp add: skb_bytes_def min_def)
    have len: "length (take ?n (skb_bytes s)) = ?n" using True wf(1) by simp
    obtain t where t: "skb_store 0 (take ?n (skb_bytes s)) u = Some t"
      "skb_bytes t = take 0 (skb_bytes u) @ take ?n (skb_bytes s) @ drop (0 + length (take ?n (skb_bytes s))) (skb_bytes u)"
      "wf_skb t" "skb_data t = skb_data u" "skb_info t = skb_info u" "skb_tail t = skb_tail u"
      by (rule skb_store_bytes [OF wfu, of 0 "take ?n (skb_bytes s)"]) (use len lu True in auto)
    have "drop ?n (skb_bytes u) = drop (?n - ?k) (skb_bytes s)"
    proof -
      have "?n = (?n - ?k) + ?k" using padpos_ge [of ?fc] k by linarith
      then have "drop ?n (skb_bytes u) = drop (?n - ?k) (drop ?k (skb_bytes u))" by (simp only: drop_drop)
      then show ?thesis by (simp only: du)
    qed
    then have tb: "skb_bytes t = take ?n (skb_bytes s) @ drop (?n - ?k) (skb_bytes s)" using t(2) len by simp
    also have "drop (?n - ?k) (skb_bytes s) = drop (?n - ?k) (take ?n (skb_bytes s)) @ drop ?n (skb_bytes s)"
    proof -
      have "drop (?n - ?k) (take ?n (skb_bytes s) @ drop ?n (skb_bytes s))
          = drop (?n - ?k) (take ?n (skb_bytes s)) @ drop (?n - ?k - length (take ?n (skb_bytes s))) (drop ?n (skb_bytes s))"
        by (rule drop_append)
      then show ?thesis using len by (simp only: append_take_drop_id) simp
    qed
    finally have tp: "skb_bytes t = pad_hdr (skb_bytes s)" using True wf(1) by (simp add: pad_hdr_def Let_def)
    have lt: "skb_len t = skb_len u" using t by (simp add: skb_len_def)
    have "mac_frame p sta t"
      using fr room k t(3-5) lu lt pad_hdr_ok [OF wf(3)]
      by (auto simp: mac_frame_def tp u_def pad_hdr_fc)
    moreover have "tx_pad s = Some (Some t)"
      using fc True push rd t(1) k room by (simp add: tx_pad_def Let_def)
    ultimately show ?thesis using tp t(5) by (auto simp: u_def)
  qed
qed

definition same_frame :: "sk_buff \<Rightarrow> sk_buff \<Rightarrow> bool" where
  \<comment> \<open>HTC and the transport give a frame back as they got it; the memory around it may have changed\<close>
  "same_frame f g \<longleftrightarrow> wf_skb g \<and> skb_bytes g = skb_bytes f \<and> ctl_epid (skb_cb g) = ctl_epid (skb_cb f) \<and>
     skb_info g = skb_info f \<and> skb_protocol g = skb_protocol f"

lemma same_frame_facts:
  assumes "same_frame f g" and "drv_frame eps f"
  shows "drv_frame eps g" and "tx_cookie eps g = tx_cookie eps f" and "mac_bytes eps g = mac_bytes eps f"
proof -
  have n: "drv_hdr_len eps g = drv_hdr_len eps f" "skb_len g = skb_len f"
    using assms by (simp_all add: drv_hdr_len_def same_frame_def drv_frame_def) (metis skb_bytes_length)
  then show "drv_frame eps g" "tx_cookie eps g = tx_cookie eps f" "mac_bytes eps g = mac_bytes eps f"
    using assms by (simp_all add: drv_frame_def tx_cookie_def mac_bytes_def same_frame_def)
qed

lemma drv_inv_subst:
  assumes "drv_inv p (add_mset f out)" and "drv_frame (priv_eps p) g" and "tx_cookie (priv_eps p) g = tx_cookie (priv_eps p) f"
  shows "drv_inv p (add_mset g out)"
  using assms by (simp add: drv_inv_def sp.holds_def)

lemma txep_ok:
  assumes inv: "drv_inv p (add_mset f out)" and fg: "same_frame f g"
  shows "\<exists>p'. ath9k_htc_txep now p g (unat (ctl_epid (skb_cb f))) ok = (p', []) \<and> drv_inv p' out \<and> priv_eps p' = priv_eps p \<and>
    txq_flags (priv_tx p') = txq_flags (priv_tx p) \<and>
    image_mset (mac_bytes (priv_eps p)) (tx_frames (priv_tx p')) =
      add_mset (mac_bytes (priv_eps p) f) (image_mset (mac_bytes (priv_eps p)) (tx_frames (priv_tx p)))"
proof -
  define h where "h = g\<lparr>skb_cb := (skb_cb g)\<lparr>ctl_txok := ok, ctl_timestamp := now\<rparr>\<rparr>"
  have ff: "drv_frame (priv_eps p) f" using inv by (simp add: drv_inv_def)
  have fh: "same_frame f h" using fg by (simp add: same_frame_def h_def)
  have e: "ctl_epid (skb_cb h) = ctl_epid (skb_cb f)" using fh by (simp add: same_frame_def)
  obtain q where q: "get_htc_epid_queue (priv_eps p) (ctl_epid (skb_cb f)) = Some q" using ff by (auto simp: drv_frame_def)
  have inv': "drv_inv p (add_mset h out)" using drv_inv_subst [OF inv] same_frame_facts [OF fh ff] by simp
  have "drv_inv (p\<lparr>priv_tx := (priv_tx p)\<lparr>tx_failed := tx_failed (priv_tx p) @ [h]\<rparr>\<rparr>) out"
    by (rule drv_inv_move [OF inv']) (use inv' in \<open>simp_all add: tx_frames_def drv_inv_def\<close>)
  moreover have qa: "queue_frames ((ep_queues (priv_tx p))(q := ep_queues (priv_tx p) q @ [h])) = add_mset h (queue_frames (ep_queues (priv_tx p)))"
    using queue_frames_upd [of "ep_queues (priv_tx p)" q "ep_queues (priv_tx p) q @ [h]"] by simp
  moreover have "drv_inv (p\<lparr>priv_tx := tx_queue_add q h (priv_tx p)\<rparr>) out"
  proof (rule drv_inv_move [OF inv'])
    show "tx_frames (priv_tx (p\<lparr>priv_tx := tx_queue_add q h (priv_tx p)\<rparr>)) + out = tx_frames (priv_tx p) + add_mset h out"
      using qa by (simp add: tx_frames_def tx_queue_add_def)
    show "\<forall>q'. \<forall>s \<in> set (ep_queues (priv_tx (p\<lparr>priv_tx := tx_queue_add q h (priv_tx p)\<rparr>)) q').
        get_htc_epid_queue (priv_eps p) (ctl_epid (skb_cb s)) = Some q'"
      using inv' q e by (auto simp: drv_inv_def tx_queue_add_def)
  qed (simp_all add: tx_queue_add_def)
  ultimately show ?thesis
    using q same_frame_facts(3) [OF fh ff]
    by (simp add: ath9k_htc_txep_def Let_def h_def [symmetric] tx_queue_add_def tx_frames_def)
qed

definition passing :: "int \<Rightarrow> sk_buff multiset transport" where
  \<comment> \<open>a transport whose state is the frames it holds, and which answers \<open>ret\<close>\<close>
  "passing ret = (\<lambda>f out. Some (ret, f, if ret = 0 then add_mset f out else out, []))"

lemma check_stop_queues_fields:
  assumes "ath9k_htc_check_stop_queues tx = (tx', calls)"
  shows "ep_queues tx' = ep_queues tx" "tx_failed tx' = tx_failed tx" "tx_slot tx' = tx_slot tx" "queued_cnt tx' = queued_cnt tx + 1"
    "reported calls = []" "freed calls = []"
    "246 \<le> queued_cnt tx' \<Longrightarrow> has_flag (txq_flags tx') 1" "has_flag (txq_flags tx) 1 \<Longrightarrow> has_flag (txq_flags tx') 1"
proof -
  note d = assms [unfolded ath9k_htc_check_stop_queues_def Let_def]
  show "ep_queues tx' = ep_queues tx" "tx_failed tx' = tx_failed tx" "tx_slot tx' = tx_slot tx" "queued_cnt tx' = queued_cnt tx + 1"
    "reported calls = []" "freed calls = []"
    using d by (auto simp: reported_def freed_def List.map_filter_def split: if_splits)
  show "246 \<le> queued_cnt tx' \<Longrightarrow> has_flag (txq_flags tx') 1" "has_flag (txq_flags tx) 1 \<Longrightarrow> has_flag (txq_flags tx') 1"
    using d by (auto simp: has_flag_or_self split: if_splits)
qed

lemma get_slot_cases:
  assumes inv: "drv_inv p out"
  obtains (Full) "256 \<le> size (tx_frames (priv_tx p) + out)" "ath9k_htc_tx_get_slot (priv_tx p) = Some (- ENOBUFS, priv_tx p)"
  | (Slot) i tx1 tx2 where "size (tx_frames (priv_tx p) + out) < 256" "i < 256" "i \<notin> slots_used (priv_tx p)"
      "ath9k_htc_tx_get_slot (priv_tx p) = Some (int i, tx1)" "tx1\<lparr>tx_slot := []\<rparr> = (priv_tx p)\<lparr>tx_slot := []\<rparr>"
      "ath9k_htc_tx_clear_slot tx1 i = Some tx2" "tx2\<lparr>tx_slot := []\<rparr> = (priv_tx p)\<lparr>tx_slot := []\<rparr>"
      "sp.holds (tx_cookie (priv_eps p)) (tx_frames (priv_tx p) + out) tx2"
      "\<And>f. tx_cookie (priv_eps p) f = i \<Longrightarrow> sp.holds (tx_cookie (priv_eps p)) (add_mset f (tx_frames (priv_tx p) + out)) tx1"
proof -
  have h: "sp.holds (tx_cookie (priv_eps p)) (tx_frames (priv_tx p) + out) (priv_tx p)" using inv by (simp add: drv_inv_def)
  show thesis
  proof (cases "size (tx_frames (priv_tx p) + out) < 256")
    case True
    obtain i tx1 where g: "ath9k_htc_tx_get_slot (priv_tx p) = Some (int i, tx1)" "i < 256" "i \<notin> slots_used (priv_tx p)"
      "tx1\<lparr>tx_slot := []\<rparr> = (priv_tx p)\<lparr>tx_slot := []\<rparr>"
      "\<exists>tx2. ath9k_htc_tx_clear_slot tx1 i = Some tx2 \<and> sp.holds (tx_cookie (priv_eps p)) (tx_frames (priv_tx p) + out) tx2 \<and>
         tx2\<lparr>tx_slot := []\<rparr> = (priv_tx p)\<lparr>tx_slot := []\<rparr>"
      "\<forall>x label'. label' x = i \<longrightarrow> (\<forall>y \<in># tx_frames (priv_tx p) + out. label' y = tx_cookie (priv_eps p) y) \<longrightarrow>
         sp.holds label' (add_mset x (tx_frames (priv_tx p) + out)) tx1"
      using sp.holds_get [OF h True] by blast
    then obtain tx2 where "ath9k_htc_tx_clear_slot tx1 i = Some tx2" "sp.holds (tx_cookie (priv_eps p)) (tx_frames (priv_tx p) + out) tx2"
      "tx2\<lparr>tx_slot := []\<rparr> = (priv_tx p)\<lparr>tx_slot := []\<rparr>" by blast
    then show thesis using g True by (intro Slot [of i tx1 tx2]) simp_all
  next
    case False
    then have "size (tx_frames (priv_tx p) + out) = 256" using sp.holds_le [OF h] by simp
    then show thesis using Full sp.holds_full [OF h] by simp
  qed
qed

lemma drv_inv_slots:
  \<comment> \<open>only the slots and the counter change\<close>
  assumes "drv_inv p out" and "tx'\<lparr>tx_slot := []\<rparr> = (priv_tx p)\<lparr>tx_slot := []\<rparr>"
    and "sp.holds (tx_cookie (priv_eps p)) (tx_frames (priv_tx p) + out) tx'"
  shows "drv_inv (p\<lparr>priv_tx := tx'\<rparr>) out"
proof -
  note r = tx_rest [OF assms(2)]
  have "tx_frames tx' = tx_frames (priv_tx p)" using r by (simp add: tx_frames_def)
  then show ?thesis using assms r by (simp add: drv_inv_def)
qed

lemma freed_one [simp]: "freed [Free_skb s] = [s]" "reported [Free_skb s] = []"
  by (simp_all add: freed_def reported_def List.map_filter_def)

lemma mac_frame_tx: "mac_frame (p\<lparr>priv_tx := tx\<rparr>) sta s \<longleftrightarrow> mac_frame p sta s"
  by (cases "info_vif (skb_info s)") (simp_all add: mac_frame_def)

lemma drv_inv_sent:
  assumes inv: "drv_inv p out" and f: "drv_frame (priv_eps p) f"
    and tx1: "tx1\<lparr>tx_slot := []\<rparr> = (priv_tx p)\<lparr>tx_slot := []\<rparr>"
    and h: "sp.holds (tx_cookie (priv_eps p)) (add_mset f (tx_frames (priv_tx p) + out)) tx1"
    and st: "ath9k_htc_check_stop_queues tx1 = (tx', calls)"
  shows "drv_inv (p\<lparr>priv_tx := tx'\<rparr>) (add_mset f out)"
proof -
  note r = tx_rest [OF tx1] and c = check_stop_queues_fields [OF st]
  have fs: "tx_frames tx' = tx_frames (priv_tx p)" using r c by (simp add: tx_frames_def)
  show ?thesis
    using inv f h r c(1-4) by (simp add: drv_inv_def fs holds_slots [OF c(3)])
qed

lemma htc_tx_ok:
  assumes inv: "drv_inv p out" and eps: "eps_ok (priv_eps p)" and fr: "mac_frame p sta s" "14 \<le> skb_data s"
  shows "\<exists>p' out' calls. ath9k_htc_tx (passing ret) now p sta s out = Some (p', out', calls) \<and> drv_inv p' out' \<and>
    priv_eps p' = priv_eps p \<and> reported calls = [] \<and>
    (if ret = 0 \<and> size (tx_frames (priv_tx p) + out) < 256 \<and> (info_vif (skb_info s) \<noteq> None \<or> is_monitoring p)
     then freed calls = [] \<and> (\<exists>f. out' = add_mset f out \<and> skb_info f = skb_info s \<and> tx_cookie (priv_eps p) f \<notin> slots_used (priv_tx p) \<and>
        mac_bytes (priv_eps p) f = tx_patched p (info_vif (skb_info s)) (pad_hdr (skb_bytes s))) \<and>
        (int (size (tx_frames (priv_tx p) + out)) \<ge> 245 \<longrightarrow> has_flag (txq_flags (priv_tx p')) 1) \<and>
        tx_frames (priv_tx p') = tx_frames (priv_tx p)
     else out' = out \<and> length (freed calls) = 1 \<and> same_queues p p')"
proof -
  obtain t where t: "tx_pad s = Some (Some t)" "mac_frame p sta t" "skb_bytes t = pad_hdr (skb_bytes s)" "skb_info t = skb_info s"
    using tx_pad_ok [OF fr] by blast
  have tx: "ath9k_htc_tx (passing ret) now p sta s out = ath9k_htc_tx_padded (passing ret) now p sta t out"
    using t(1) by (simp add: ath9k_htc_tx_def)
  show ?thesis
  proof (rule get_slot_cases [OF inv])
    assume full: "256 \<le> size (tx_frames (priv_tx p) + out)" "ath9k_htc_tx_get_slot (priv_tx p) = Some (- ENOBUFS, priv_tx p)"
    then have "ath9k_htc_tx_padded (passing ret) now p sta t out = Some (p, out, [Free_skb t])"
      by (simp add: ath9k_htc_tx_padded_def ENOBUFS_def)
    then show ?thesis using tx full inv by (simp add: same_queues_def)
  next
    fix i tx1 tx2
    assume sz: "size (tx_frames (priv_tx p) + out) < 256" and i: "i < 256" "i \<notin> slots_used (priv_tx p)"
      and get: "ath9k_htc_tx_get_slot (priv_tx p) = Some (int i, tx1)" and r1: "tx1\<lparr>tx_slot := []\<rparr> = (priv_tx p)\<lparr>tx_slot := []\<rparr>"
      and clr: "ath9k_htc_tx_clear_slot tx1 i = Some tx2" and r2: "tx2\<lparr>tx_slot := []\<rparr> = (priv_tx p)\<lparr>tx_slot := []\<rparr>"
      and h2: "sp.holds (tx_cookie (priv_eps p)) (tx_frames (priv_tx p) + out) tx2"
      and h1: "\<And>f. tx_cookie (priv_eps p) f = i \<Longrightarrow> sp.holds (tx_cookie (priv_eps p)) (add_mset f (tx_frames (priv_tx p) + out)) tx1"
    let ?p1 = "p\<lparr>priv_tx := tx1\<rparr>" and ?p2 = "p\<lparr>priv_tx := tx2\<rparr>" and ?w = "word_of_nat i :: u8"
    have w: "unat ?w = i" using i(1) by (simp add: unat_of_nat take_bit_nat_eq_self_iff)
    have inv2: "drv_inv ?p2 out" by (rule drv_inv_slots [OF inv r2 h2])
    have sq: "same_queues p ?p2" using tx_rest [OF r2] by (simp add: same_queues_def)
    have run: "ath9k_htc_tx_padded (passing ret) now p sta t out =
       (case ath9k_htc_tx_start (passing ret) ?p1 sta t ?w False out of None \<Rightarrow> None
        | Some (r, skb, s', ups) \<Rightarrow> do {
            let (p, calls) = htc_upcalls now ?p1 ups;
            if r \<noteq> 0 then do {
              tx \<leftarrow> ath9k_htc_tx_clear_slot (priv_tx p) i;
              Some (p\<lparr>priv_tx := tx\<rparr>, s', calls @ [Free_skb skb]) }
            else (let (tx, c) = ath9k_htc_check_stop_queues (priv_tx p) in Some (p\<lparr>priv_tx := tx\<rparr>, s', calls @ c)) })"
      using get by (simp add: ath9k_htc_tx_padded_def split: option.splits prod.splits)
    show ?thesis
    proof (cases "info_vif (skb_info s) \<noteq> None \<or> is_monitoring p")
      case False
      then have "tx_build ?p1 sta t ?w False = Some None" using t(4) by (simp add: tx_build_def)
      then have "ath9k_htc_tx_start (passing ret) ?p1 sta t ?w False out = Some (- EINVAL, t, out, [])"
        by (simp add: ath9k_htc_tx_start_def)
      then have "ath9k_htc_tx_padded (passing ret) now p sta t out = Some (?p2, out, [Free_skb t])"
        unfolding run using clr by (simp add: EINVAL_def)
      then show ?thesis using tx inv2 sq False by simp
    next
      case True
      have p1: "eps_ok (priv_eps ?p1)" "mac_frame ?p1 sta t" "info_vif (skb_info t) \<noteq> None \<or> is_monitoring ?p1"
        using eps t(2,4) True by (simp_all add: mac_frame_tx)
      obtain f where f: "tx_build ?p1 sta t ?w False = Some (Some f)" "drv_frame (priv_eps p) f" "tx_cookie (priv_eps p) f = i"
        "mac_bytes (priv_eps p) f = tx_patched ?p1 (info_vif (skb_info t)) (skb_bytes t)" "skb_info f = skb_info t"
        using tx_build_ok [OF p1, of ?w False] w by auto
      have st: "ath9k_htc_tx_start (passing ret) ?p1 sta t ?w False out = Some (ret, f, if ret = 0 then add_mset f out else out, [])"
        using f(1) by (simp add: ath9k_htc_tx_start_def passing_def)
      have pt: "tx_patched ?p1 = tx_patched p" by (simp add: tx_patched_def fun_eq_iff split: option.splits)
      show ?thesis
      proof (cases "ret = 0")
        case r0: True
        obtain tx' c where stop: "ath9k_htc_check_stop_queues tx1 = (tx', c)" by (cases "ath9k_htc_check_stop_queues tx1")
        note cf = check_stop_queues_fields [OF stop]
        have "ath9k_htc_tx_padded (passing ret) now p sta t out = Some (p\<lparr>priv_tx := tx'\<rparr>, add_mset f out, c)"
          unfolding run st using r0 stop by simp
        moreover have "drv_inv (p\<lparr>priv_tx := tx'\<rparr>) (add_mset f out)" by (rule drv_inv_sent [OF inv f(2) r1 h1 [OF f(3)] stop])
        moreover have "queued_cnt tx' = int (size (tx_frames (priv_tx p) + out)) + 1"
          using cf(4) tx_rest [OF r1] inv by (simp add: drv_inv_def)
        moreover have "tx_frames tx' = tx_frames (priv_tx p)" using cf(1,2) tx_rest [OF r1] by (simp add: tx_frames_def)
        ultimately show ?thesis using tx cf(5-7) f(3-5) t(3,4) r0 sz True i(2) pt by auto
      next
        case False
        then have "ath9k_htc_tx_padded (passing ret) now p sta t out = Some (?p2, out, [Free_skb f])"
          unfolding run st using clr by simp
        then show ?thesis using tx inv2 sq False by simp
      qed
    qed
  qed
qed

section \<open>Sequences of events\<close>

inductive drv_step ::
  "(nat \<Rightarrow> bytes \<Rightarrow> nat option) \<Rightarrow> ath9k_htc_priv \<times> sk_buff multiset \<Rightarrow> ath9k_htc_priv \<times> sk_buff multiset \<Rightarrow> bool"
  for find_sta where
  Tx: "mac_frame p sta s \<Longrightarrow> 14 \<le> skb_data s \<Longrightarrow>
     ath9k_htc_tx (passing ret) now p sta s out = Some (p', out', calls) \<Longrightarrow> drv_step find_sta (p, out) (p', out')"
| Completion: "same_frame f g \<Longrightarrow> ath9k_htc_txep now p g (unat (ctl_epid (skb_cb f))) ok = (p', calls) \<Longrightarrow>
     drv_step find_sta (p, add_mset f out) (p', out)"
| Status: "ath9k_htc_txstatus find_sta kz p ev = Some (p', calls) \<Longrightarrow> drv_step find_sta (p, out) (p', out)"
| Failed: "ath9k_tx_failed_tasklet find_sta p = Some (p', calls) \<Longrightarrow> drv_step find_sta (p, out) (p', out)"
| Timer: "ath9k_htc_tx_cleanup_timer find_sta now tmo p = Some (p', calls) \<Longrightarrow> drv_step find_sta (p, out) (p', out)"

inductive_cases drv_stepE: "drv_step find_sta a b"

definition flow_ok :: "ath9k_htc_priv \<Rightarrow> bool" where
  \<comment> \<open>while mac80211's queues run, fewer than 246 frames are under way\<close>
  "flow_ok p \<longleftrightarrow> has_flag (txq_flags (priv_tx p)) ATH9K_HTC_OP_TX_QUEUES_STOP \<or> queued_cnt (priv_tx p) < 246"

definition drv_ok :: "ath9k_htc_priv \<Rightarrow> sk_buff multiset \<Rightarrow> bool" where
  "drv_ok p out \<longleftrightarrow> drv_inv p out \<and> eps_ok (priv_eps p) \<and> flow_ok p"

lemma flow_mono:
  assumes "drv_inv p out" and "drv_inv p' out" and "size (tx_frames (priv_tx p')) \<le> size (tx_frames (priv_tx p))"
    and "txq_flags (priv_tx p') = txq_flags (priv_tx p)" and "flow_ok p"
  shows "flow_ok p'"
  using assms by (auto simp: flow_ok_def drv_inv_def)

lemma wake_queues_flow:
  "wake_queues p = (p', calls) \<Longrightarrow> flow_ok p \<Longrightarrow> flow_ok p'"
  by (auto simp: wake_queues_def ath9k_htc_check_wake_queues_def flow_ok_def split: if_splits)

lemma txstatus_defined:
  assumes inv: "drv_inv p out"
  shows "ath9k_htc_txstatus find_sta kz p ev = None \<longleftrightarrow> ev = [] \<or> length ev < 1 + 3 * unat (ev ! 0)"
    and "\<lbrakk>ath9k_htc_txstatus find_sta kz p ev = Some (p', calls)\<rbrakk> \<Longrightarrow>
      drv_inv p' out \<and> priv_eps p' = priv_eps p \<and> (flow_ok p \<longrightarrow> flow_ok p')"
proof -
  let ?n = "unat (ev ! 0)"
  have fin: "ath9k_htc_txstatus find_sta kz p ev \<noteq> None" if len: "ev \<noteq> []" "1 + 3 * ?n \<le> length ev"
  proof -
    have "\<forall>i \<in> set [0 ..< ?n]. 3 + 3 * i < length ev" using len by auto
    then obtain p1 c1 where "txstatus_loop find_sta kz ev [0 ..< ?n] p = Some (p1, c1)"
      using txstatus_loop_ok [OF inv] by blast
    then show ?thesis using len(1) by (cases "wake_queues p1") (simp add: ath9k_htc_txstatus_def byte_at_def)
  qed
  have none: "ath9k_htc_txstatus find_sta kz p ev = None" if short: "ev \<noteq> []" "length ev < 1 + 3 * ?n"
  proof -
    have "?n - 1 \<in> set [0 ..< ?n]" "length ev \<le> 3 + 3 * (?n - 1)" using short by (cases ev; auto)+
    then have "txstatus_loop find_sta kz ev [0 ..< ?n] p = None" using txstatus_loop_None [OF inv] by blast
    then show ?thesis using short(1) by (simp add: ath9k_htc_txstatus_def byte_at_def)
  qed
  show iff: "ath9k_htc_txstatus find_sta kz p ev = None \<longleftrightarrow> ev = [] \<or> length ev < 1 + 3 * ?n"
  proof (cases "ev = [] \<or> length ev < 1 + 3 * ?n")
    case True
    then show ?thesis using none by (cases "ev = []") (simp_all add: ath9k_htc_txstatus_def byte_at_def)
  next
    case False
    then show ?thesis using fin by simp
  qed
  assume run: "ath9k_htc_txstatus find_sta kz p ev = Some (p', calls)"
  then have len: "ev \<noteq> []" "1 + 3 * ?n \<le> length ev" using iff by auto
  have "\<forall>i \<in> set [0 ..< ?n]. 3 + 3 * i < length ev" using len by auto
  then obtain p1 c1 where a: "txstatus_loop find_sta kz ev [0 ..< ?n] p = Some (p1, c1)" "drv_inv p1 out" "priv_eps p1 = priv_eps p"
    "txq_flags (priv_tx p1) = txq_flags (priv_tx p)" "size (tx_frames (priv_tx p1)) \<le> size (tx_frames (priv_tx p))"
    using txstatus_loop_ok [OF inv] by blast
  obtain p2 c2 where b: "wake_queues p1 = (p2, c2)" by (cases "wake_queues p1")
  have "p' = p2" using run a(1) b len(1) by (simp add: ath9k_htc_txstatus_def byte_at_def)
  then show "drv_inv p' out \<and> priv_eps p' = priv_eps p \<and> (flow_ok p \<longrightarrow> flow_ok p')"
    using wake_queues_ok [OF a(2) b] wake_queues_flow [OF b] flow_mono [OF inv a(2,5,4)] a(3) by simp
qed

lemma failed_tasklet_ok:
  assumes "drv_inv p out"
  shows "\<exists>p' calls. ath9k_tx_failed_tasklet find_sta p = Some (p', calls) \<and> drv_inv p' out \<and> priv_eps p' = priv_eps p \<and>
    (flow_ok p \<longrightarrow> flow_ok p') \<and>
    (\<not> has_flag (txq_flags (priv_tx p)) ATH9K_HTC_OP_TX_DRAIN \<longrightarrow> tx_failed (priv_tx p') = [] \<and>
       reported calls = map (mac_bytes (priv_eps p)) (tx_failed (priv_tx p)))"
proof (cases "has_flag (txq_flags (priv_tx p)) ATH9K_HTC_OP_TX_DRAIN")
  case True
  then show ?thesis using assms by (simp add: ath9k_tx_failed_tasklet_def)
next
  case False
  obtain p' calls where a: "drain_failed find_sta p = Some (p', calls)" "drv_inv p' out"
    "same_queues (p\<lparr>priv_tx := (priv_tx p)\<lparr>tx_failed := []\<rparr>\<rparr>) p'"
    "reported calls = map (mac_bytes (priv_eps p)) (tx_failed (priv_tx p))"
    using drain_failed_ok [OF assms] by blast
  have f: "size (tx_frames (priv_tx p')) \<le> size (tx_frames (priv_tx p))" "txq_flags (priv_tx p') = txq_flags (priv_tx p)"
    "priv_eps p' = priv_eps p" "tx_failed (priv_tx p') = []"
    using a(3) by (simp_all add: same_queues_def tx_frames_def)
  then show ?thesis using a False flow_mono [OF assms a(2) f(1,2)] by (simp add: ath9k_tx_failed_tasklet_def)
qed

lemma queues_all: "q \<in> set all_queues" "distinct all_queues"
  by (cases q) (simp_all add: all_queues_def)

lemma queue_frames_cong: "(\<And>q. e q = e' q) \<Longrightarrow> queue_frames e = queue_frames e'"
  by (simp add: queue_frames_def)

lemma queue_frames_filter:
  "size (queue_frames e) = size (queue_frames (\<lambda>q. filter (\<lambda>s. \<not> P s) (e q)))
     + length (concat (map (\<lambda>q. map f (filter P (e q))) all_queues))"
proof -
  have "length (filter P (e q)) + length (filter (\<lambda>s. \<not> P s) (e q)) = length (e q)" for q
    by (rule sum_length_filter_compl)
  from this [of Mgmt_ep_queue] this [of Cab_ep_queue] this [of Data_be_queue] this [of Data_bk_queue]
    this [of Data_vi_queue] this [of Data_vo_queue]
  show ?thesis by (simp add: queue_frames_def all_queues_def del: mset_filter)
qed

lemma cleanup_timer_ok:
  assumes inv: "drv_inv p out"
  shows "\<exists>p' calls. ath9k_htc_tx_cleanup_timer find_sta now tmo p = Some (p', calls) \<and> drv_inv p' out \<and> priv_eps p' = priv_eps p \<and>
    (flow_ok p \<longrightarrow> flow_ok p') \<and> freed calls = [] \<and>
    (\<forall>q. \<forall>s \<in> set (ep_queues (priv_tx p') q). s \<in> set (ep_queues (priv_tx p) q) \<and> \<not> check_packet now tmo s) \<and>
    size (tx_frames (priv_tx p)) = size (tx_frames (priv_tx p')) + length (reported calls) \<and>
    (\<forall>ev \<in> set (pending_tx_events p'). ev_count ev < 40 \<and> (\<exists>ev0 \<in> set (pending_tx_events p). ev_count ev = Suc (ev_count ev0))) \<and>
    (queued_cnt (priv_tx p') < 246 \<longrightarrow> \<not> has_flag (txq_flags (priv_tx p')) 1)"
proof -
  obtain evs p1 c1 where a: "cleanup_events find_sta (pending_tx_events p) p = Some (evs, p1, c1)" "drv_inv p1 out" "priv_eps p1 = priv_eps p"
    "freed c1 = []" "txq_flags (priv_tx p1) = txq_flags (priv_tx p)"
    "\<forall>ev' \<in> set evs. ev_count ev' < 40 \<and> (\<exists>ev \<in> set (pending_tx_events p). ev_count ev' = Suc (ev_count ev))"
    "\<forall>q. set (ep_queues (priv_tx p1) q) \<subseteq> set (ep_queues (priv_tx p) q)"
    "size (tx_frames (priv_tx p)) = size (tx_frames (priv_tx p1)) + length (reported c1)"
    using cleanup_events_ok [OF inv] by blast
  let ?p1 = "p1\<lparr>pending_tx_events := evs\<rparr>"
  have inv1: "drv_inv ?p1 out" using a(2) by (simp add: drv_inv_events)
  obtain p2 c2 where b: "cleanup_queues find_sta now tmo all_queues ?p1 = Some (p2, c2)" "drv_inv p2 out" "priv_eps p2 = priv_eps p1"
    "\<forall>q. ep_queues (priv_tx p2) q = filter (\<lambda>s. \<not> check_packet now tmo s) (ep_queues (priv_tx p1) q)"
    "pending_tx_events p2 = evs" "tx_failed (priv_tx p2) = tx_failed (priv_tx p1)" "txq_flags (priv_tx p2) = txq_flags (priv_tx p1)"
    "reported c2 = concat (map (\<lambda>q. map (mac_bytes (priv_eps p1)) (filter (check_packet now tmo) (ep_queues (priv_tx p1) q))) all_queues)"
    "freed c2 = []"
    using cleanup_queues_ok [OF inv1 queues_all(2), of find_sta now tmo] queues_all(1) by auto
  obtain p3 c3 where w: "wake_queues p2 = (p3, c3)" by (cases "wake_queues p2")
  note wk = wake_queues_ok [OF b(2) w]
  have sz2: "size (tx_frames (priv_tx p1)) = size (tx_frames (priv_tx p2)) + length (reported c2)"
    using queue_frames_filter [of "ep_queues (priv_tx p1)" "check_packet now tmo" "mac_bytes (priv_eps p1)"] b(4,6)
    unfolding b(8) by (simp add: tx_frames_def queue_frames_cong [of "ep_queues (priv_tx p2)"])
  have s3: "tx_frames (priv_tx p3) = tx_frames (priv_tx p2)"
    using w by (auto simp: wake_queues_def ath9k_htc_check_wake_queues_def tx_frames_def split: if_splits)
  have run: "ath9k_htc_tx_cleanup_timer find_sta now tmo p = Some (p3, c1 @ c2 @ c3)"
    using a(1) b(1) w by (simp add: ath9k_htc_tx_cleanup_timer_def)
  have fl: "flow_ok p \<longrightarrow> flow_ok p3"
  proof
    assume "flow_ok p"
    moreover have "size (tx_frames (priv_tx p2)) \<le> size (tx_frames (priv_tx p))" using a(8) sz2 by simp
    ultimately have "flow_ok p2" using flow_mono [OF inv b(2)] a(5) b(7) by simp
    then show "flow_ok p3" using wake_queues_flow [OF w] by simp
  qed
  have qs: "\<forall>q. \<forall>s \<in> set (ep_queues (priv_tx p3) q). s \<in> set (ep_queues (priv_tx p) q) \<and> \<not> check_packet now tmo s"
    using wk(4) b(4) a(7) by auto
  show ?thesis
    using run wk b(3,5,9) a(3,4,6,8) sz2 s3 fl qs by (intro exI [of _ p3] exI [of _ "c1 @ c2 @ c3"]) simp
qed

lemma drv_step_ok:
  assumes "drv_step find_sta (p, out) (p', out')" and "drv_ok p out"
  shows "drv_ok p' out' \<and> priv_eps p' = priv_eps p"
  using assms(1)
proof (cases rule: drv_step.cases)
  case (Tx sta s ret now calls)
  have ok: "drv_inv p out" "eps_ok (priv_eps p)" "flow_ok p" using assms(2) by (simp_all add: drv_ok_def)
  note t = htc_tx_ok [OF ok(1,2) Tx(1,2), of ret now]
  have inv': "drv_inv p' out'" "priv_eps p' = priv_eps p" using t Tx(3) by auto
  have "flow_ok p'"
  proof (cases "ret = 0 \<and> size (tx_frames (priv_tx p) + out) < 256 \<and> (info_vif (skb_info s) \<noteq> None \<or> is_monitoring p)")
    case True
    then have h: "int (size (tx_frames (priv_tx p) + out)) \<ge> 245 \<longrightarrow> has_flag (txq_flags (priv_tx p')) 1"
      "size out' = Suc (size out)" "tx_frames (priv_tx p') = tx_frames (priv_tx p)" using t Tx(3) by auto
    have "queued_cnt (priv_tx p') = int (size (tx_frames (priv_tx p) + out)) + 1"
      using inv'(1) h(2,3) by (simp add: drv_inv_def)
    then show ?thesis using h(1) by (auto simp: flow_ok_def)
  next
    case False
    then have "same_queues p p'" "out' = out" using t Tx(3) by auto
    then show ?thesis using flow_mono [OF ok(1)] inv'(1) ok(3) by (simp add: same_queues_def tx_frames_def)
  qed
  then show ?thesis using inv' ok(2) by (simp add: drv_ok_def)
next
  case (Completion f g now ok calls)
  have inv: "drv_inv p (add_mset f out')" "eps_ok (priv_eps p)" "flow_ok p" using assms(2) Completion by (simp_all add: drv_ok_def)
  obtain p1 where q: "ath9k_htc_txep now p g (unat (ctl_epid (skb_cb f))) ok = (p1, [])" "drv_inv p1 out'" "priv_eps p1 = priv_eps p"
    "txq_flags (priv_tx p1) = txq_flags (priv_tx p)"
    "image_mset (mac_bytes (priv_eps p)) (tx_frames (priv_tx p1)) =
      add_mset (mac_bytes (priv_eps p) f) (image_mset (mac_bytes (priv_eps p)) (tx_frames (priv_tx p)))"
    using txep_ok [OF inv(1) Completion(2)] by blast
  have "p1 = p'" using q(1) Completion(3) by simp
  moreover have "size (tx_frames (priv_tx p1)) = Suc (size (tx_frames (priv_tx p)))"
    using arg_cong [OF q(5), of size] by simp
  then have "queued_cnt (priv_tx p1) = queued_cnt (priv_tx p)" using inv(1) q(2) by (simp add: drv_inv_def)
  then have "flow_ok p1" using inv(3) q(4) by (simp add: flow_ok_def)
  ultimately show ?thesis using q inv(2) by (simp add: drv_ok_def)
next
  case (Status kz ev calls)
  then show ?thesis using txstatus_defined(2) [of p out find_sta kz ev p' calls] assms(2) by (simp add: drv_ok_def)
next
  case (Failed calls)
  then show ?thesis using failed_tasklet_ok [of p out find_sta] assms(2) by (auto simp: drv_ok_def)
next
  case (Timer now tmo calls)
  then show ?thesis using cleanup_timer_ok [of p out find_sta now tmo] assms(2) by (auto simp: drv_ok_def)
qed

definition completions :: "sk_buff list \<Rightarrow> htc_upcall list \<Rightarrow> bool" where
  \<comment> \<open>HTC completes these frames, each on its endpoint\<close>
  "completions fs ups \<longleftrightarrow>
     list_all2 (\<lambda>f u. \<exists>g ok. u = Ep_tx Ath9k_htc_txep g (unat (ctl_epid (skb_cb f))) ok \<and> same_frame f g) fs ups"

lemma htc_upcalls_ok:
  assumes "drv_inv p (mset fs + out)" and "completions fs ups"
  shows "\<exists>p'. htc_upcalls now p ups = (p', []) \<and> drv_inv p' out \<and> priv_eps p' = priv_eps p \<and>
    txq_flags (priv_tx p') = txq_flags (priv_tx p) \<and>
    image_mset (mac_bytes (priv_eps p)) (tx_frames (priv_tx p')) = image_mset (mac_bytes (priv_eps p)) (tx_frames (priv_tx p) + mset fs)"
  using assms
proof (induction fs arbitrary: p ups)
  case Nil
  then show ?case by (simp add: completions_def)
next
  case (Cons f fs)
  then obtain g ok us where u: "ups = Ep_tx Ath9k_htc_txep g (unat (ctl_epid (skb_cb f))) ok # us" "same_frame f g" "completions fs us"
    by (auto simp: completions_def list_all2_Cons1)
  have "drv_inv p (add_mset f (mset fs + out))" using Cons.prems(1) by simp
  then obtain p1 where a: "ath9k_htc_txep now p g (unat (ctl_epid (skb_cb f))) ok = (p1, [])" "drv_inv p1 (mset fs + out)"
    "priv_eps p1 = priv_eps p" "txq_flags (priv_tx p1) = txq_flags (priv_tx p)"
    "image_mset (mac_bytes (priv_eps p)) (tx_frames (priv_tx p1)) =
      add_mset (mac_bytes (priv_eps p) f) (image_mset (mac_bytes (priv_eps p)) (tx_frames (priv_tx p)))"
    using txep_ok [OF _ u(2)] by blast
  obtain p2 where b: "htc_upcalls now p1 us = (p2, [])" "drv_inv p2 out" "priv_eps p2 = priv_eps p1"
    "txq_flags (priv_tx p2) = txq_flags (priv_tx p1)"
    "image_mset (mac_bytes (priv_eps p1)) (tx_frames (priv_tx p2)) = image_mset (mac_bytes (priv_eps p1)) (tx_frames (priv_tx p1) + mset fs)"
    using Cons.IH [OF a(2) u(3)] by blast
  then show ?case using a by (simp add: u(1))
qed

lemma drain_frames:
  "image_mset f (queue_frames e) = mset (concat (map (\<lambda>q. map f (e q)) all_queues))"
  by (simp add: queue_frames_def all_queues_def)

lemma txstatus_single:
  assumes inv: "drv_inv p out" and s: "s \<in> set (ep_queues (priv_tx p) q)" and st: "status_for p txs s"
  shows "\<exists>p' calls xs ys. ath9k_htc_txstatus find_sta kz p [1, ts_cookie txs, ts_rate txs, ts_flags txs] = Some (p', calls) \<and>
    drv_inv p' out \<and> reported calls = [mac_bytes (priv_eps p) s] \<and> freed calls = [] \<and> ep_queues (priv_tx p) q = xs @ s # ys \<and>
    ep_queues (priv_tx p') = (ep_queues (priv_tx p))(q := xs @ ys) \<and> priv_eps p' = priv_eps p \<and>
    tx_failed (priv_tx p') = tx_failed (priv_tx p)"
proof -
  have eq: "\<lparr>ts_cookie = ts_cookie txs, ts_rate = ts_rate txs, ts_flags = ts_flags txs\<rparr> = txs" by simp
  obtain p1 c1 where a: "txstatus_one find_sta (kz 0) p txs = Some (p1, c1)" "drv_inv p1 out" "priv_eps p1 = priv_eps p" "freed c1 = []"
    "tx_failed (priv_tx p1) = tx_failed (priv_tx p)"
    and d: "(\<exists>q s xs ys. ep_queues (priv_tx p) q = xs @ s # ys \<and> status_for p txs s \<and> reported c1 = [mac_bytes (priv_eps p) s] \<and>
        ep_queues (priv_tx p1) = (ep_queues (priv_tx p))(q := xs @ ys)) \<or>
     (\<forall>q. \<forall>s \<in> set (ep_queues (priv_tx p) q). \<not> status_for p txs s) \<and> reported c1 = [] \<and>
        ep_queues (priv_tx p1) = ep_queues (priv_tx p)"
    using txstatus_one_ok [OF inv, of find_sta "kz 0" txs] by blast
  then obtain q' s' xs ys where b: "ep_queues (priv_tx p) q' = xs @ s' # ys" "status_for p txs s'"
    "reported c1 = [mac_bytes (priv_eps p) s']" "ep_queues (priv_tx p1) = (ep_queues (priv_tx p))(q' := xs @ ys)"
    using s st by blast
  have m: "s' \<in> set (ep_queues (priv_tx p) q')" using b(1) by simp
  then have m': "s' \<in># tx_frames (priv_tx p) + out" using queue_frames_in [of s' "ep_queues (priv_tx p)" q'] by (simp add: tx_frames_def)
  have ss: "s' = s" using get_packet_unique [OF inv s m'] b(2) st by (simp add: status_for_def)
  have qe: "get_htc_epid_queue (priv_eps p) (ctl_epid (skb_cb s)) = Some q"
    "get_htc_epid_queue (priv_eps p) (ctl_epid (skb_cb s')) = Some q'"
    using inv s m by (simp_all add: drv_inv_def)
  then have qq: "q' = q" using ss by simp
  obtain p2 c2 where w: "wake_queues p1 = (p2, c2)" by (cases "wake_queues p1")
  note wk = wake_queues_ok [OF a(2) w]
  have "ath9k_htc_txstatus find_sta kz p [1, ts_cookie txs, ts_rate txs, ts_flags txs] = Some (p2, c1 @ c2)"
    using a(1) w by (simp add: ath9k_htc_txstatus_def eq)
  moreover have "tx_failed (priv_tx p2) = tx_failed (priv_tx p)"
    using w a(5) by (auto simp: wake_queues_def ath9k_htc_check_wake_queues_def split: if_splits)
  ultimately show ?thesis
    using a(3,4) b wk ss qq by (intro exI [of _ p2] exI [of _ "c1 @ c2"] exI [of _ xs] exI [of _ ys]) simp
qed

lemma released_slot:
  assumes inv: "drv_inv p out" "drv_inv p' out" and e: "priv_eps p' = priv_eps p" and q: "ep_queues (priv_tx p) q = xs @ s # ys"
    "ep_queues (priv_tx p') = (ep_queues (priv_tx p))(q := xs @ ys)" "tx_failed (priv_tx p') = tx_failed (priv_tx p)"
  shows "slots_used (priv_tx p') = slots_used (priv_tx p) - {tx_cookie (priv_eps p) s}"
    and "queued_cnt (priv_tx p) = queued_cnt (priv_tx p') + 1"
    and "tx_frames (priv_tx p) = add_mset s (tx_frames (priv_tx p'))"
proof -
  let ?c = "tx_cookie (priv_eps p) s" and ?A = "slots_used (priv_tx p)" and ?B = "slots_used (priv_tx p')"
  show fr: "tx_frames (priv_tx p) = add_mset s (tx_frames (priv_tx p'))"
    using queue_frames_upd [of "ep_queues (priv_tx p)" q "xs @ ys"] q by (simp add: tx_frames_def)
  then show "queued_cnt (priv_tx p) = queued_cnt (priv_tx p') + 1" using inv by (simp add: drv_inv_def)
  have m: "mset_set ?A = add_mset ?c (mset_set ?B)" using inv fr by (simp add: drv_inv_def sp.holds_def e)
  have fin: "finite ?A" "finite ?B" by (simp_all add: slots_used_def)
  have "insert ?c ?B = ?A" using arg_cong [OF m, of set_mset] fin by simp
  moreover have "?c \<notin> ?B" using arg_cong [OF m, of "\<lambda>M. count M ?c"] fin by (auto simp: count_mset_set' split: if_splits)
  ultimately show "?B = ?A - {?c}" by blast
qed

lemma txep_queue:
  assumes "drv_inv p (add_mset f out)" and "same_frame f g"
  shows "\<exists>p' q h. ath9k_htc_txep now p g (unat (ctl_epid (skb_cb f))) True = (p', []) \<and> same_frame f h \<and>
    ep_queues (priv_tx p') = (ep_queues (priv_tx p))(q := ep_queues (priv_tx p) q @ [h]) \<and>
    tx_slot (priv_tx p') = tx_slot (priv_tx p) \<and> priv_eps p' = priv_eps p \<and> queued_cnt (priv_tx p') = queued_cnt (priv_tx p)"
proof -
  obtain q where q: "get_htc_epid_queue (priv_eps p) (ctl_epid (skb_cb f)) = Some q"
    using assms(1) by (auto simp: drv_inv_def drv_frame_def)
  let ?h = "g\<lparr>skb_cb := (skb_cb g)\<lparr>ctl_txok := True, ctl_timestamp := now\<rparr>\<rparr>"
  have "same_frame f ?h" using assms(2) by (simp add: same_frame_def)
  then show ?thesis
    using q by (intro exI [of _ "p\<lparr>priv_tx := tx_queue_add q ?h (priv_tx p)\<rparr>"] exI [of _ q] exI [of _ ?h])
      (simp add: ath9k_htc_txep_def Let_def tx_queue_add_def)
qed

lemma status_for_same: "same_frame f h \<Longrightarrow> drv_frame (priv_eps p) f \<Longrightarrow> priv_eps p' = priv_eps p \<Longrightarrow> status_for p txs f \<Longrightarrow> status_for p' txs h"
  using same_frame_facts [of f h "priv_eps p"] by (simp add: status_for_def same_frame_def)

lemma sent_slot:
  assumes "drv_inv p out" and "drv_inv p' (add_mset f out)" and "priv_eps p' = priv_eps p"
    and "tx_frames (priv_tx p') = tx_frames (priv_tx p)"
  shows "slots_used (priv_tx p') = insert (tx_cookie (priv_eps p) f) (slots_used (priv_tx p))"
    and "queued_cnt (priv_tx p') = queued_cnt (priv_tx p) + 1"
proof -
  have m: "mset_set (slots_used (priv_tx p')) = add_mset (tx_cookie (priv_eps p) f) (mset_set (slots_used (priv_tx p)))"
    using assms by (simp add: drv_inv_def sp.holds_def)
  have "finite (slots_used (priv_tx p))" "finite (slots_used (priv_tx p'))" by (simp_all add: slots_used_def)
  then show "slots_used (priv_tx p') = insert (tx_cookie (priv_eps p) f) (slots_used (priv_tx p))"
    using arg_cong [OF m, of set_mset] by simp
  show "queued_cnt (priv_tx p') = queued_cnt (priv_tx p) + 1" using assms by (simp add: drv_inv_def)
qed

subsection \<open>An example state\<close>

definition ex_priv :: "ath9k_htc_priv" where
  "ex_priv = \<lparr>priv_eps = \<lparr>wmi_cmd_ep = 1, beacon_ep = 2, cab_ep = 3, uapsd_ep = 4, mgmt_ep = 5, data_be_ep = 6,
       data_bk_ep = 7, data_vi_ep = 8, data_vo_ep = 9\<rparr>,
     priv_tx = \<lparr>txq_flags = 0, queued_cnt = 0, ep_queues = (\<lambda>q. []), tx_failed = [], tx_slot = replicate 256 False\<rparr>,
     mon_vif_idx = 0, vif_sta_pos = [0, 1], is_monitoring = False, rts_threshold = 0xffffffff, conf_ht = False,
     conf_band = BAND_2GHZ, priv_vif = (\<lambda>v. \<lparr>vif_index = 0, tsfadjust = replicate 8 0, use_cts_prot = False\<rparr>),
     priv_sta = (\<lambda>n. \<lparr>sta_index = 0, tid_state = replicate 8 AGGR_STOP\<rparr>), pending_tx_events = []\<rparr>"

lemma ex_priv_slots: "slots_used (priv_tx ex_priv) = {}"
  by (auto simp: slots_used_def ex_priv_def)

lemma ex_priv_ok: "drv_ok ex_priv {#}"
  using ex_priv_slots
  by (auto simp: drv_ok_def drv_inv_def ex_priv_def tx_frames_def queue_frames_def all_queues_def sp.holds_def slots_ok_def
      eps_ok_def flow_ok_def)

definition ex_data :: sk_buff where
  \<comment> \<open>a QoS data frame of 32 bytes, on interface 0\<close>
  "ex_data = (fresh_skb (replicate 64 0 @ [0x88, 0x01] @ replicate 30 7 @ replicate 8 0))
     \<lparr>skb_data := 64, skb_tail := 96, skb_info := zero_info\<lparr>info_vif := Some 0\<rparr>\<rparr>"

lemma ex_data_bytes: "skb_bytes ex_data = [0x88, 0x01] @ replicate 30 7"
  by (simp add: ex_data_def fresh_skb_def skb_bytes_def skb_len_def skb_mem_def)

lemma ex_data_fc: "frame_fc (skb_bytes ex_data) = 0x188"
  by (simp add: ex_data_bytes frame_fc_def le16_def)

lemma ex_data_frame: "mac_frame ex_priv (Some 0) ex_data" "14 \<le> skb_data ex_data"
proof -
  have f: "wf_skb ex_data" "skb_data ex_data = 64" "skb_len ex_data = 32" "info_vif (skb_info ex_data) = Some 0"
    by (simp_all add: ex_data_def fresh_skb_def wf_skb_def skb_len_def)
  show "14 \<le> skb_data ex_data" using f by simp
  show "mac_frame ex_priv (Some 0) ex_data"
    using f ex_data_fc
    by (simp add: mac_frame_def mac_hdr_ok_def qos_ctl_off_def ex_priv_def ieee80211_is_probe_resp_def)
qed

definition ex_sent :: sk_buff where
  \<comment> \<open>the frame above with the driver's header for slot 0 on the best-effort endpoint\<close>
  "ex_sent = (fresh_skb ([1, 0, 0, 7, 0, 0, 0, 0, 0, 0xff, 0, 0] @ [0x88, 0x01] @ replicate 30 7))
     \<lparr>skb_tail := 44, skb_cb := zero_ctl\<lparr>ctl_epid := 6, ctl_txok := True\<rparr>, skb_info := zero_info\<lparr>info_vif := Some 0\<rparr>\<rparr>"

definition ex_waiting :: ath9k_htc_priv where
  "ex_waiting = ex_priv\<lparr>priv_tx := (priv_tx ex_priv)\<lparr>queued_cnt := 1, ep_queues := (\<lambda>q. [])(Data_be_queue := [ex_sent]),
     tx_slot := True # replicate 255 False\<rparr>\<rparr>"

lemma ex_sent_bytes: "skb_bytes ex_sent = [1, 0, 0, 7, 0, 0, 0, 0, 0, 0xff, 0, 0] @ [0x88, 0x01] @ replicate 30 7"
  by (simp add: ex_sent_def fresh_skb_def skb_bytes_def skb_len_def skb_mem_def)

lemma ex_sent_facts: "tx_cookie (priv_eps ex_priv) ex_sent = 0" "ctl_epid (skb_cb ex_sent) = 6" "drv_frame (priv_eps ex_priv) ex_sent"
proof -
  show e: "ctl_epid (skb_cb ex_sent) = 6" by (simp add: ex_sent_def)
  have n: "drv_hdr_len (priv_eps ex_priv) ex_sent = 12" by (simp add: drv_hdr_len_def e ex_priv_def)
  show "tx_cookie (priv_eps ex_priv) ex_sent = 0" by (simp add: tx_cookie_def n ex_sent_bytes)
  have l: "skb_len ex_sent = 44" "wf_skb ex_sent" by (simp_all add: ex_sent_def fresh_skb_def skb_len_def wf_skb_def)
  have "mac_hdr_ok (drop 12 (skb_bytes ex_sent))"
    by (simp add: ex_sent_bytes mac_hdr_ok_def frame_fc_def le16_def qos_ctl_off_def ieee80211_has_a4_def)
  moreover have "get_htc_epid_queue (priv_eps ex_priv) 6 \<noteq> None" by (simp add: get_htc_epid_queue_def ex_priv_def)
  ultimately show "drv_frame (priv_eps ex_priv) ex_sent" by (simp add: drv_frame_def n l e)
qed

lemma ex_waiting_slots: "slots_used (priv_tx ex_waiting) = {0}"
  by (auto simp: slots_used_def ex_waiting_def ex_priv_def nth_Cons' split: if_splits)

lemma ex_waiting_inv: "drv_inv ex_waiting {#}"
proof -
  have f: "tx_frames (priv_tx ex_waiting) = {#ex_sent#}"
    by (simp add: ex_waiting_def ex_priv_def tx_frames_def queue_frames_def all_queues_def)
  have e: "priv_eps ex_waiting = priv_eps ex_priv" by (simp add: ex_waiting_def)
  have "sp.holds (tx_cookie (priv_eps ex_priv)) {#ex_sent#} (priv_tx ex_waiting)"
    using ex_sent_facts ex_waiting_slots by (simp add: sp.holds_def slots_ok_def ex_waiting_def ex_priv_def)
  then show ?thesis
    using ex_sent_facts unfolding drv_inv_def f e
    by (simp add: ex_waiting_def) (simp add: ex_priv_def get_htc_epid_queue_def)
qed

section \<open>Properties\<close>

text \<open>C11: frames, slots and counters. Whatever the order in which mac80211 sends frames, the transport
  accepts, refuses or completes them, statuses arrive, the failed-frame tasklet and the cleanup
  timer run: every frame between mac80211 and the target, whether it waits in a queue of the
  driver or is below in HTC, has the driver's header with a cookie of its own; the slots in use are
  exactly those cookies; \<open>queued_cnt\<close> is the number of those frames, at most 256; and while
  mac80211's queues run it is below 246.\<close>

theorem tx_reachable_inv:
  assumes "(drv_step find_sta)\<^sup>*\<^sup>* (p, {#}) (p', out)" and "drv_ok p {#}"
  shows "(\<forall>s \<in># tx_frames (priv_tx p') + out. drv_frame (priv_eps p') s) \<and>
    image_mset (tx_cookie (priv_eps p')) (tx_frames (priv_tx p') + out) = mset_set (slots_used (priv_tx p')) \<and>
    queued_cnt (priv_tx p') = int (size (tx_frames (priv_tx p') + out)) \<and> queued_cnt (priv_tx p') \<le> 256 \<and>
    (\<not> has_flag (txq_flags (priv_tx p')) ATH9K_HTC_OP_TX_QUEUES_STOP \<longrightarrow> queued_cnt (priv_tx p') < 246)"
proof -
  have "drv_ok p' out"
    using assms(1)
  proof (induction rule: rtranclp_induct2)
    case refl
    then show ?case by (rule assms(2))
  next
    case (step p1 o1 p2 o2)
    then show ?case using drv_step_ok by blast
  qed
  then show ?thesis
    using sp.holds_le [of "tx_cookie (priv_eps p')" "tx_frames (priv_tx p') + out" "priv_tx p'"]
    by (auto simp: drv_ok_def drv_inv_def sp.holds_def flow_ok_def)
qed

theorem tx_reachable_inv_witness:
  "\<exists>p' out. (drv_step (\<lambda>_ _. None))\<^sup>*\<^sup>* (ex_priv, {#}) (p', out) \<and> size out = 1 \<and> card (slots_used (priv_tx p')) = 1"
proof -
  have ok: "drv_inv ex_priv {#}" "eps_ok (priv_eps ex_priv)" using ex_priv_ok by (simp_all add: drv_ok_def)
  have e: "tx_frames (priv_tx ex_priv) = {#}" by (simp add: ex_priv_def tx_frames_def queue_frames_def all_queues_def)
  have v: "info_vif (skb_info ex_data) \<noteq> None" by (simp add: ex_data_def)
  obtain p' f calls where t: "ath9k_htc_tx (passing 0) 0 ex_priv (Some 0) ex_data {#} = Some (p', {#f#}, calls)"
    "tx_frames (priv_tx p') = {#}"
    using htc_tx_ok [OF ok ex_data_frame, of 0 0] v e by auto
  have st: "(drv_step (\<lambda>_ _. None))\<^sup>*\<^sup>* (ex_priv, {#}) (p', {#f#})"
    by (rule r_into_rtranclp, rule drv_step.Tx [OF ex_data_frame t(1)])
  have "image_mset (tx_cookie (priv_eps p')) {#f#} = mset_set (slots_used (priv_tx p'))"
    using tx_reachable_inv [OF st ex_priv_ok] t(2) by simp
  then have "card (slots_used (priv_tx p')) = 1" by (metis One_nat_def size_image_mset size_mset_set size_single)
  then show ?thesis using st by (intro exI [of _ p'] exI [of _ "{#f#}"]) simp
qed

text \<open>One transmit status. When a frame waits for its status, a status event with its endpoint and
  cookie gives exactly this frame back to mac80211, once and without the driver's header, takes it
  out of its queue, releases its slot and leaves all other frames as they were.\<close>

theorem tx_status_exact:
  assumes "drv_inv p out" and "s \<in> set (ep_queues (priv_tx p) q)" and "status_for p txs s"
  shows "\<exists>p' calls xs ys. ath9k_htc_txstatus find_sta kz p [1, ts_cookie txs, ts_rate txs, ts_flags txs] = Some (p', calls) \<and>
    reported calls = [mac_bytes (priv_eps p) s] \<and> freed calls = [] \<and> ep_queues (priv_tx p) q = xs @ s # ys \<and>
    ep_queues (priv_tx p') = (ep_queues (priv_tx p))(q := xs @ ys) \<and> drv_inv p' out \<and>
    slots_used (priv_tx p') = slots_used (priv_tx p) - {tx_cookie (priv_eps p) s}"
proof -
  obtain p' calls xs ys where a: "ath9k_htc_txstatus find_sta kz p [1, ts_cookie txs, ts_rate txs, ts_flags txs] = Some (p', calls)"
    "drv_inv p' out" "reported calls = [mac_bytes (priv_eps p) s]" "freed calls = []" "ep_queues (priv_tx p) q = xs @ s # ys"
    "ep_queues (priv_tx p') = (ep_queues (priv_tx p))(q := xs @ ys)" "priv_eps p' = priv_eps p"
    "tx_failed (priv_tx p') = tx_failed (priv_tx p)"
    using txstatus_single [OF assms] by blast
  then show ?thesis using released_slot(1) [OF assms(1) a(2,7,5,6,8)] by blast
qed

theorem tx_status_exact_witness:
  "\<exists>p' calls. ath9k_htc_txstatus (\<lambda>_ _. None) (\<lambda>_. True) ex_waiting [1, 0, 0x60, 1] = Some (p', calls) \<and>
     reported calls = [mac_bytes (priv_eps ex_priv) ex_sent] \<and> slots_used (priv_tx p') = {}"
proof -
  let ?t = "\<lparr>ts_cookie = 0, ts_rate = 0x60, ts_flags = 1\<rparr> :: txstatus"
  have m: "ex_sent \<in> set (ep_queues (priv_tx ex_waiting) Data_be_queue)" by (simp add: ex_waiting_def ex_priv_def)
  have st: "status_for ex_waiting ?t ex_sent" using ex_sent_facts by (simp add: status_for_def ts_epid_def ex_waiting_def ex_priv_def)
  have e: "priv_eps ex_waiting = priv_eps ex_priv" by (simp add: ex_waiting_def)
  show ?thesis
    using tx_status_exact [OF ex_waiting_inv m st, of "\<lambda>_ _. None" "\<lambda>_. True"] ex_sent_facts(1)
    unfolding e ex_waiting_slots by auto
qed





text \<open>C17: no frame waits for its status for ever. A run of \<open>ath9k_htc_tx_cleanup_timer\<close> always ends, and
  after it no frame older than the time limit is left on any endpoint queue: what remains was there
  before and is younger; every frame taken off is handed to mac80211 (none is freed); every
  status event still pending has been kept through fewer than 40 runs, one more than before; and
  the stopped mac80211 queues are running again when the count is below the threshold.\<close>

theorem tx_timeout_returns:
  assumes "drv_inv p out"
  shows "\<exists>p' calls. ath9k_htc_tx_cleanup_timer find_sta now tmo p = Some (p', calls) \<and> drv_inv p' out \<and> freed calls = [] \<and>
    (\<forall>q. \<forall>s \<in> set (ep_queues (priv_tx p') q). s \<in> set (ep_queues (priv_tx p) q) \<and> \<not> check_packet now tmo s) \<and>
    size (tx_frames (priv_tx p)) = size (tx_frames (priv_tx p')) + length (reported calls) \<and>
    (\<forall>ev \<in> set (pending_tx_events p'). ev_count ev < 40 \<and> (\<exists>ev0 \<in> set (pending_tx_events p). ev_count ev = Suc (ev_count ev0))) \<and>
    (queued_cnt (priv_tx p') < 246 \<longrightarrow> \<not> has_flag (txq_flags (priv_tx p')) ATH9K_HTC_OP_TX_QUEUES_STOP)"
  using cleanup_timer_ok [OF assms, of find_sta now tmo] by blast

theorem tx_timeout_returns_witness:
  "\<exists>p' calls. ath9k_htc_tx_cleanup_timer (\<lambda>_ _. None) 1000 250 ex_waiting = Some (p', calls) \<and> freed calls = [] \<and>
    (\<forall>q. ep_queues (priv_tx p') q = [])"
proof -
  obtain p' calls where a: "ath9k_htc_tx_cleanup_timer (\<lambda>_ _. None) 1000 250 ex_waiting = Some (p', calls)"
    "\<forall>q. \<forall>s \<in> set (ep_queues (priv_tx p') q). s \<in> set (ep_queues (priv_tx ex_waiting) q) \<and> \<not> check_packet 1000 250 s"
    "freed calls = []"
    using tx_timeout_returns [OF ex_waiting_inv, of "\<lambda>_ _. None" 1000 250] by blast
  have old: "check_packet 1000 250 ex_sent" by (simp add: check_packet_def time_after_def ex_sent_def fresh_skb_def zero_ctl_def)
  have "s = ex_sent" if "s \<in> set (ep_queues (priv_tx ex_waiting) q)" for s q
    using that by (simp add: ex_waiting_def ex_priv_def split: if_splits)
  then have e: "\<forall>q. ep_queues (priv_tx p') q = []" using a(2) old by (metis last_in_set)
  show ?thesis using a(1,3) e by (intro exI [of _ p'] exI [of _ calls]) simp
qed

text \<open>The bounds of a transmit status event. \<open>ath9k_htc_txstatus\<close> takes the number of entries from the
  first byte of the event and reads exactly that many three byte entries: it stays inside the event
  if and only if the event holds them all. The check against \<open>HTC_MAX_TX_STATUS\<close> only prints a
  warning, so that the count is not a bound: an event of the size of \<open>wmi_event_txstatus\<close> (37 bytes)
  whose count is larger than 12 is read past its end.\<close>

theorem txstatus_bounds:
  assumes "drv_inv p out"
  shows "ath9k_htc_txstatus find_sta kz p ev = None \<longleftrightarrow> ev = [] \<or> length ev < 1 + 3 * unat (ev ! 0)"
  by (rule txstatus_defined(1) [OF assms])

theorem txstatus_bounds_witness:
  "ath9k_htc_txstatus (\<lambda>_ _. None) (\<lambda>_. True) ex_waiting (13 # replicate 36 0) = None \<and>
   ath9k_htc_txstatus (\<lambda>_ _. None) (\<lambda>_. True) ex_waiting (12 # replicate 36 0) \<noteq> None"
  by (simp add: txstatus_bounds [OF ex_waiting_inv])

end
