(* ===== verification/Htc_Rx.thy ===== *)
theory Htc_Rx
  imports Htc_Tx "HOL-Library.Signed_Division"
begin

text \<open>
  The receive path between HTC and mac80211 (the receive part of \<open>ath9k/htc_drv_txrx.c\<close>).
  \<open>ath9k_htc_rxep\<close>, the endpoint callback, puts a received buffer into the first free of 256
  \<open>ath9k_htc_rxbuf\<close>s; \<open>ath9k_rx_tasklet\<close> takes them out, checks the status header the target put
  in front of the frame, removes the padding after the 802.11 header, fills mac80211's receive
  status and delivers the frame.

  The list \<open>rx.rxbuf\<close> is a list of buffers in the order of the C list; a pointer to a buffer is its
  position. The tasklet gives up its lock while mac80211 handles a frame, and \<open>ath9k_htc_rxep\<close> can
  run then: a round of its loop is split into \<open>rx_begin\<close> and \<open>rx_requeue\<close> for the step relation.
  The counters of \<open>ath9k_htc_err_stat_rx\<close> exist only with debugfs and are left out.
\<close>

section \<open>State\<close>

abbreviation (input) ATH9K_HTC_RXBUF :: nat where "ATH9K_HTC_RXBUF \<equiv> 256"
abbreviation (input) HTC_RX_FRAME_HEADER_SIZE :: nat where "HTC_RX_FRAME_HEADER_SIZE \<equiv> 40"
abbreviation (input) FCS_LEN :: nat where "FCS_LEN \<equiv> 4"
abbreviation (input) ATH9K_RXERR_CRC :: u8 where "ATH9K_RXERR_CRC \<equiv> 0x01"
abbreviation (input) ATH9K_RXERR_PHY :: u8 where "ATH9K_RXERR_PHY \<equiv> 0x02"
abbreviation (input) ATH9K_RXERR_DECRYPT :: u8 where "ATH9K_RXERR_DECRYPT \<equiv> 0x08"
abbreviation (input) ATH9K_RXERR_MIC :: u8 where "ATH9K_RXERR_MIC \<equiv> 0x10"
abbreviation (input) ATH9K_RX_GI :: u8 where "ATH9K_RX_GI \<equiv> 0x04"
abbreviation (input) ATH9K_RX_2040 :: u8 where "ATH9K_RX_2040 \<equiv> 0x08"
abbreviation (input) ATH9K_RXKEYIX_INVALID :: u8 where "ATH9K_RXKEYIX_INVALID \<equiv> 0xff"
abbreviation (input) RX_FLAG_MMIC_ERROR :: u32 where "RX_FLAG_MMIC_ERROR \<equiv> 0x1"
abbreviation (input) RX_FLAG_DECRYPTED :: u32 where "RX_FLAG_DECRYPTED \<equiv> 0x2"
abbreviation (input) RX_FLAG_FAILED_FCS_CRC :: u32 where "RX_FLAG_FAILED_FCS_CRC \<equiv> 0x20"
abbreviation (input) RX_FLAG_SHORTPRE :: u32 where "RX_FLAG_SHORTPRE \<equiv> 0x100"
abbreviation (input) RX_FLAG_HT :: u32 where "RX_FLAG_HT \<equiv> 0x200"
abbreviation (input) RX_FLAG_40MHZ :: u32 where "RX_FLAG_40MHZ \<equiv> 0x400"
abbreviation (input) RX_FLAG_SHORT_GI :: u32 where "RX_FLAG_SHORT_GI \<equiv> 0x800"
abbreviation (input) RX_FLAG_MACTIME_END :: u32 where "RX_FLAG_MACTIME_END \<equiv> 0x200000"
abbreviation (input) ATH9K_RSSI_BAD :: int where "ATH9K_RSSI_BAD \<equiv> - 128"
abbreviation (input) ATH_DEFAULT_NOISE_FLOOR :: int where "ATH_DEFAULT_NOISE_FLOOR \<equiv> - 95"
abbreviation (input) ATH_RSSI_DUMMY_MARKER :: int where "ATH_RSSI_DUMMY_MARKER \<equiv> 0x127"
abbreviation (input) ATH_RSSI_LPF_LEN :: int where "ATH_RSSI_LPF_LEN \<equiv> 10"
abbreviation (input) RSSI_LPF_THRESHOLD :: int where "RSSI_LPF_THRESHOLD \<equiv> - 20"
abbreviation (input) ATH_RSSI_EP_MULTIPLIER :: int where "ATH_RSSI_EP_MULTIPLIER \<equiv> 128"

record ath_htc_rx_status =
  \<comment> \<open>the fields the driver reads; the bytes of \<open>int8_t\<close> fields are read with \<open>sint\<close>\<close>
  rs_tstamp :: u64
  rs_datalen :: u16
  rs_status :: u8
  rs_rssi :: u8
  rs_keyix :: u8
  rs_rate :: u8
  rs_antenna :: u8
  rs_moreaggr :: u8
  rs_flags :: u8

record ath9k_htc_rxbuf =
  \<comment> \<open>the field \<open>rxstatus\<close> is scratch space that \<open>ath9k_rx_prepare\<close> fills before it reads it: it is a
      local value there\<close>
  in_process :: bool
  rxbuf_skb :: "sk_buff option"

record ieee80211_rx_status =
  mactime :: u64
  rx_flag :: u32
  rx_freq :: u16
  rate_idx :: u8
  rx_band :: ieee80211_band
  rx_antenna :: u8
  rx_signal :: u8

record htc_rx =
  \<comment> \<open>\<open>struct ath9k_htc_rx\<close> with the fields of \<open>priv\<close>, \<open>ah\<close>, \<open>common\<close> and \<open>hw\<close> the path uses;
      \<open>rx_bands\<close> gives the \<open>hw_value\<close> and \<open>hw_value_short\<close> of the rates of a band\<close>
  last_rssi :: int
  rxbuf :: "ath9k_htc_rxbuf list"
  rx_opmode :: nl80211_iftype
  rx_keymap :: bitmap
  rx_chan :: ieee80211_chan
  rx_bands :: "ieee80211_band \<Rightarrow> (u16 \<times> u16) list option"
  avgbrssi :: int
  ps_enabled :: bool

datatype rx_call =
    Ieee80211_rx sk_buff ieee80211_rx_status
  | Rx_kfree sk_buff
  | Queue_ps_work

section \<open>The signal average\<close>

definition ATH_RSSI_LPF :: "int \<Rightarrow> int \<Rightarrow> int" where
  "ATH_RSSI_LPF x y =
     (if y \<ge> RSSI_LPF_THRESHOLD then
        (let y = y * ATH_RSSI_EP_MULTIPLIER in
         if x \<noteq> ATH_RSSI_DUMMY_MARKER then (x * (ATH_RSSI_LPF_LEN - 1) + y) sdiv ATH_RSSI_LPF_LEN else y)
      else x)"

definition ATH_EP_RND :: "int \<Rightarrow> int \<Rightarrow> int" where
  "ATH_EP_RND x mul = (if x smod mul \<ge> mul sdiv 2 then (x + (mul - 1)) sdiv mul else x sdiv mul)"

section \<open>Preparing a frame\<close>

definition get_be64 :: "bytes \<Rightarrow> nat \<Rightarrow> u64 option" where
  "get_be64 bs i = do {
     hi \<leftarrow> get_be32 bs i;
     lo \<leftarrow> get_be32 bs (i + 4);
     Some (push_bit 32 (ucast hi) OR ucast lo) }"

definition rx_status_at :: "bytes \<Rightarrow> ath_htc_rx_status option" where
  \<comment> \<open>the \<open>memcpy\<close> of the status header; nothing but this header is read before it\<close>
  "rx_status_at bs = do {
     tstamp \<leftarrow> get_be64 bs 0;
     datalen \<leftarrow> get_be16 bs 8;
     status \<leftarrow> byte_at bs 10;
     rssi \<leftarrow> byte_at bs 12;
     keyix \<leftarrow> byte_at bs 19;
     rate \<leftarrow> byte_at bs 20;
     antenna \<leftarrow> byte_at bs 21;
     moreaggr \<leftarrow> byte_at bs 24;
     flags \<leftarrow> byte_at bs 26;
     _ \<leftarrow> byte_at bs 39;
     Some \<lparr>rs_tstamp = tstamp, rs_datalen = datalen, rs_status = status, rs_rssi = rssi, rs_keyix = keyix,
       rs_rate = rate, rs_antenna = antenna, rs_moreaggr = moreaggr, rs_flags = flags\<rparr> }"

fun find_rate :: "(u16 \<times> u16) list \<Rightarrow> u8 \<Rightarrow> u8 \<Rightarrow> (u8 \<times> u32) option" where
  \<comment> \<open>the loop of \<open>ath9k_process_rate\<close>, with the index it has reached\<close>
  "find_rate [] i rate = None"
| "find_rate ((hw_value, hw_value_short) # rs) i rate =
     (if hw_value = ucast rate then Some (i, 0)
      else if hw_value_short = ucast rate then Some (i, RX_FLAG_SHORTPRE)
      else find_rate rs (i + 1) rate)"

definition ath9k_process_rate :: "htc_rx \<Rightarrow> u8 \<Rightarrow> u8 \<Rightarrow> ieee80211_rx_status \<Rightarrow> ieee80211_rx_status option" where
  \<comment> \<open>\<open>None\<close>: \<open>hw->wiphy->bands[band]\<close> is a null pointer\<close>
  "ath9k_process_rate p rx_rate flags rxs =
     (if has_flag rx_rate 0x80 then
        (let flag = rx_flag rxs OR RX_FLAG_HT;
             flag = (if has_flag flags ATH9K_RX_2040 then flag OR RX_FLAG_40MHZ else flag);
             flag = (if has_flag flags ATH9K_RX_GI then flag OR RX_FLAG_SHORT_GI else flag)
         in Some (rxs\<lparr>rx_flag := flag, rate_idx := rx_rate AND 0x7f\<rparr>))
      else do {
        rates \<leftarrow> rx_bands p (ch_band (rx_chan p));
        Some (case find_rate rates 0 rx_rate of
                Some (i, flag) \<Rightarrow> rxs\<lparr>rate_idx := i, rx_flag := rx_flag rxs OR flag\<rparr>
              | None \<Rightarrow> rxs) })"

definition rx_unpad :: "u16 \<Rightarrow> sk_buff \<Rightarrow> sk_buff option" where
  "rx_unpad fc skb =
     (let padpos = ath9k_cmn_padpos fc; padsize = padpos mod 4 in
      if padsize \<noteq> 0 \<and> skb_len skb \<ge> padpos + padsize + FCS_LEN then do {
        hdr \<leftarrow> read_bytes (skb_mem skb) 0 padpos;
        skb \<leftarrow> skb_store padsize hdr skb;
        Some (skb_pull padsize skb) }
      else Some skb)"

definition rx_check_status :: "nl80211_iftype \<Rightarrow> u16 \<Rightarrow> u8 \<Rightarrow> (u8 \<times> u32) option" where
  \<comment> \<open>the test of \<open>rs_status\<close>: the status and the flags after it, \<open>None\<close> for \<open>goto rx_next\<close>\<close>
  "rx_check_status opmode fc status =
     (if status = 0 then Some (0, 0)
      else (let flag = (if has_flag status ATH9K_RXERR_CRC then RX_FLAG_FAILED_FCS_CRC else 0) in
        if has_flag status ATH9K_RXERR_PHY then None
        else (let (status, flag) =
            (if has_flag status ATH9K_RXERR_DECRYPT then (status, flag)
             else if has_flag status ATH9K_RXERR_MIC then
               (if ieee80211_is_ctl fc then (status AND NOT ATH9K_RXERR_MIC, flag)
                else (status, flag OR RX_FLAG_MMIC_ERROR))
             else (status, flag)) in
          if opmode = IFTYPE_MONITOR then
            (if status AND NOT (ATH9K_RXERR_DECRYPT OR ATH9K_RXERR_MIC OR ATH9K_RXERR_CRC) \<noteq> 0 then None
             else Some (status, flag))
          else
            (if status AND NOT (ATH9K_RXERR_DECRYPT OR ATH9K_RXERR_MIC) \<noteq> 0 then None
             else Some (status, flag)))))"

definition rx_decrypted :: "htc_rx \<Rightarrow> u16 \<Rightarrow> nat \<Rightarrow> sk_buff \<Rightarrow> ath_htc_rx_status \<Rightarrow> bool option" where
  \<comment> \<open>whether \<open>RX_FLAG_DECRYPTED\<close> is set\<close>
  "rx_decrypted p fc hdrlen skb st =
     (if has_flag (rs_status st) ATH9K_RXERR_DECRYPT then Some False
      else if rs_keyix st \<noteq> ATH9K_RXKEYIX_INVALID then Some True
      else if ieee80211_has_protected fc \<and> skb_len skb \<ge> hdrlen + 4 then do {
        b \<leftarrow> byte_at (skb_mem skb) (hdrlen + 3);
        test_bit (unat (drop_bit 6 b)) (rx_keymap p) }
      else Some False)"

definition rx_rssi :: "htc_rx \<Rightarrow> u16 \<Rightarrow> ath_htc_rx_status \<Rightarrow> htc_rx \<times> ath_htc_rx_status" where
  \<comment> \<open>the running average and the value that replaces \<open>rs_rssi\<close>\<close>
  "rx_rssi p fc st =
     (let last = (if sint (rs_rssi st) \<noteq> ATH9K_RSSI_BAD \<and> rs_moreaggr st = 0
                  then ATH_RSSI_LPF (last_rssi p) (sint (rs_rssi st)) else last_rssi p);
          rssi = (if last \<noteq> ATH_RSSI_DUMMY_MARKER
                  then word_of_int (ATH_EP_RND last ATH_RSSI_EP_MULTIPLIER) else rs_rssi st);
          rssi = (if sint rssi < 0 then 0 else rssi);
          p = p\<lparr>last_rssi := last\<rparr>
      in (if ieee80211_is_beacon fc then p\<lparr>avgbrssi := sint rssi\<rparr> else p, st\<lparr>rs_rssi := rssi\<rparr>))"

definition zero_rx_status :: ieee80211_rx_status where
  "zero_rx_status = \<lparr>mactime = 0, rx_flag = 0, rx_freq = 0, rate_idx = 0, rx_band = BAND_2GHZ, rx_antenna = 0, rx_signal = 0\<rparr>"

definition ath9k_rx_prepare ::
  "htc_rx \<Rightarrow> sk_buff \<Rightarrow> (htc_rx \<times> sk_buff \<times> ieee80211_rx_status option) option" where
  \<comment> \<open>the second argument is \<open>rxbuf->skb\<close>; a status of \<open>None\<close> is the return value \<open>false\<close>\<close>
  "ath9k_rx_prepare p skb =
     (if skb_len skb < HTC_RX_FRAME_HEADER_SIZE then Some (p, skb, None)
      else do {
        st \<leftarrow> rx_status_at (skb_mem skb);
        if (ucast (rs_datalen st) :: u32) - (word_of_nat (skb_len skb) - word_of_nat HTC_RX_FRAME_HEADER_SIZE) \<noteq> 0
        then Some (p, skb, None)
        else do {
          let skb = skb_pull HTC_RX_FRAME_HEADER_SIZE skb;
          fc \<leftarrow> get_le16 (skb_mem skb) 0;
          hdrlen \<leftarrow> ieee80211_get_hdrlen_from_skb skb;
          skb \<leftarrow> rx_unpad fc skb;
          case rx_check_status (rx_opmode p) fc (rs_status st) of
            None \<Rightarrow> Some (p, skb, None)
          | Some (status, flag) \<Rightarrow> do {
              let st = st\<lparr>rs_status := status\<rparr>;
              dec \<leftarrow> rx_decrypted p fc hdrlen skb st;
              let flag = (if dec then flag OR RX_FLAG_DECRYPTED else flag);
              rxs \<leftarrow> ath9k_process_rate p (rs_rate st) (rs_flags st) (zero_rx_status\<lparr>rx_flag := flag\<rparr>);
              let (p, st) = rx_rssi p fc st;
              let rxs = rxs\<lparr>mactime := rs_tstamp st, rx_band := ch_band (rx_chan p), rx_freq := ch_center_freq (rx_chan p),
                rx_signal := word_of_int (sint (rs_rssi st) + ATH_DEFAULT_NOISE_FLOOR), rx_antenna := rs_antenna st,
                rx_flag := rx_flag rxs OR RX_FLAG_MACTIME_END\<rparr>;
              Some (p, skb, Some rxs) } } })"

section \<open>The ring of receive buffers\<close>

fun rxep_fill :: "sk_buff \<Rightarrow> ath9k_htc_rxbuf list \<Rightarrow> ath9k_htc_rxbuf list option" where
  \<comment> \<open>the search for a free buffer and the assignment to it\<close>
  "rxep_fill skb [] = None"
| "rxep_fill skb (b # bs) =
     (if \<not> in_process b then Some (b\<lparr>rxbuf_skb := Some skb, in_process := True\<rparr> # bs)
      else map_option (Cons b) (rxep_fill skb bs))"

definition ath9k_htc_rxep :: "htc_rx \<Rightarrow> sk_buff \<Rightarrow> htc_rx \<times> rx_call list" where
  "ath9k_htc_rxep p skb =
     (case rxep_fill skb (rxbuf p) of
        None \<Rightarrow> (p, [Rx_kfree skb])
      | Some bs \<Rightarrow> (p\<lparr>rxbuf := bs\<rparr>, []))"

fun first_busy :: "ath9k_htc_rxbuf list \<Rightarrow> nat option" where
  "first_busy [] = None"
| "first_busy (b # bs) = (if in_process b then Some 0 else map_option Suc (first_busy bs))"

definition rx_begin :: "htc_rx \<Rightarrow> (htc_rx \<times> (nat \<times> rx_call list) option) option" where
  \<comment> \<open>a round of the tasklet up to the label \<open>requeue\<close>, with the buffer it works on; no buffer: the
      loop ends\<close>
  "rx_begin p =
     (case first_busy (rxbuf p) of
        None \<Rightarrow> Some (p, None)
      | Some i \<Rightarrow>
          (case rxbuf_skb (rxbuf p ! i) of
             None \<Rightarrow> Some (p, Some (i, []))
           | Some skb \<Rightarrow> do {
               (p, skb, r) \<leftarrow> ath9k_rx_prepare p skb;
               let p = p\<lparr>rxbuf := (rxbuf p)[i := (rxbuf p ! i)\<lparr>rxbuf_skb := Some skb\<rparr>]\<rparr>;
               case r of
                 None \<Rightarrow> Some (p, Some (i, [Rx_kfree skb]))
               | Some rxs \<Rightarrow> do {
                   fc \<leftarrow> get_le16 (skb_mem skb) 0;
                   Some (p, Some (i, (if ieee80211_is_beacon fc \<and> ps_enabled p then [Queue_ps_work] else [])
                                     @ [Ieee80211_rx skb rxs])) } }))"

definition ring_release :: "nat \<Rightarrow> ath9k_htc_rxbuf list \<Rightarrow> ath9k_htc_rxbuf list" where
  \<comment> \<open>the buffer is free again and goes to the end of the list\<close>
  "ring_release i bs = take i bs @ drop (Suc i) bs @ [(bs ! i)\<lparr>in_process := False, rxbuf_skb := None\<rparr>]"

definition rx_requeue :: "nat \<Rightarrow> htc_rx \<Rightarrow> htc_rx" where
  "rx_requeue i p = p\<lparr>rxbuf := ring_release i (rxbuf p)\<rparr>"

definition busy_bufs :: "ath9k_htc_rxbuf list \<Rightarrow> nat" where
  "busy_bufs bs = length (filter in_process bs)"

lemma first_busy_SomeD: "first_busy bs = Some i \<Longrightarrow> i < length bs \<and> in_process (bs ! i)"
  by (induction bs arbitrary: i) (auto split: if_splits)

lemma busy_bufs_release:
  assumes "i < length bs" and "in_process (bs ! i)"
  shows "Suc (busy_bufs (ring_release i bs)) = busy_bufs bs"
proof -
  have "filter in_process bs = filter in_process (take i bs) @ (bs ! i) # filter in_process (drop (Suc i) bs)"
    using assms by (subst id_take_nth_drop [of i bs]) simp_all
  then show ?thesis by (simp add: busy_bufs_def ring_release_def)
qed

lemma busy_bufs_update:
  "busy_bufs (bs[i := (bs ! i)\<lparr>rxbuf_skb := x\<rparr>]) = busy_bufs bs"
proof -
  have m: "map in_process (bs[i := (bs ! i)\<lparr>rxbuf_skb := x\<rparr>]) = map in_process bs"
    by (cases "i < length bs") (auto intro!: nth_equalityI simp: nth_list_update split: if_splits)
  have b: "busy_bufs xs = length (filter id (map in_process xs))" for xs
    by (simp add: busy_bufs_def filter_map)
  show ?thesis unfolding b m ..
qed

definition same_conf :: "htc_rx \<Rightarrow> htc_rx \<Rightarrow> bool" where
  \<comment> \<open>all fields but the averages and the ring\<close>
  "same_conf p p' \<longleftrightarrow> rx_opmode p' = rx_opmode p \<and> rx_keymap p' = rx_keymap p \<and> rx_chan p' = rx_chan p \<and>
     rx_bands p' = rx_bands p \<and> ps_enabled p' = ps_enabled p"

lemma rx_rssi_conf: "rx_rssi p fc st = (p', st') \<Longrightarrow> same_conf p p' \<and> rxbuf p' = rxbuf p"
  by (cases "ieee80211_is_beacon fc") (auto simp: rx_rssi_def Let_def same_conf_def)

lemma same_conf_simps [simp]: "same_conf p p" "same_conf p (p\<lparr>rxbuf := bs\<rparr>)"
  by (simp_all add: same_conf_def)

lemma prepare_conf:
  assumes "ath9k_rx_prepare p skb = Some (p', t, r)"
  shows "same_conf p p' \<and> rxbuf p' = rxbuf p"
  using assms
  by (auto simp: ath9k_rx_prepare_def Let_def dest: rx_rssi_conf
      split: if_splits Option.bind_splits option.splits prod.splits)

lemma rx_begin_SomeD:
  assumes "rx_begin p = Some (p', Some (i, calls))"
  shows "first_busy (rxbuf p) = Some i" and "\<exists>x. rxbuf p' = (rxbuf p)[i := (rxbuf p ! i)\<lparr>rxbuf_skb := x\<rparr>]"
proof -
  show i: "first_busy (rxbuf p) = Some i"
    using assms by (auto simp: rx_begin_def Let_def split: option.splits Option.bind_splits)
  show "\<exists>x. rxbuf p' = (rxbuf p)[i := (rxbuf p ! i)\<lparr>rxbuf_skb := x\<rparr>]"
  proof (cases "rxbuf_skb (rxbuf p ! i)")
    case None
    then have same: "(rxbuf p ! i)\<lparr>rxbuf_skb := None\<rparr> = rxbuf p ! i" by (cases "rxbuf p ! i") simp
    have "p' = p" using None assms i by (simp add: rx_begin_def)
    then have "rxbuf p' = (rxbuf p)[i := (rxbuf p ! i)\<lparr>rxbuf_skb := None\<rparr>]" unfolding same by simp
    then show ?thesis by blast
  next
    case (Some skb)
    then show ?thesis using assms i
      by (auto simp: rx_begin_def Let_def dest!: prepare_conf split: option.splits Option.bind_splits) blast+
  qed
qed

lemma rx_begin_busy:
  assumes "rx_begin p = Some (p', Some (i, calls))"
  shows "busy_bufs (ring_release i (rxbuf p')) < busy_bufs (rxbuf p)"
proof -
  note f = first_busy_SomeD [OF rx_begin_SomeD(1) [OF assms]]
  obtain x where x: "rxbuf p' = (rxbuf p)[i := (rxbuf p ! i)\<lparr>rxbuf_skb := x\<rparr>]" using rx_begin_SomeD(2) [OF assms] by blast
  have "i < length (rxbuf p')" "in_process (rxbuf p' ! i)" using f by (simp_all add: x)
  then show ?thesis using busy_bufs_release [of i "rxbuf p'"] by (simp add: x busy_bufs_update)
qed

function ath9k_rx_tasklet :: "htc_rx \<Rightarrow> (htc_rx \<times> rx_call list) option" where
  "ath9k_rx_tasklet p =
     (case rx_begin p of
        None \<Rightarrow> None
      | Some (p', None) \<Rightarrow> Some (p', [])
      | Some (p', Some (i, a)) \<Rightarrow>
          (case ath9k_rx_tasklet (rx_requeue i p') of
             None \<Rightarrow> None
           | Some (p'', b) \<Rightarrow> Some (p'', a @ b)))"
  by pat_completeness auto
termination
  by (relation "measure (\<lambda>p. busy_bufs (rxbuf p))") (auto simp: rx_requeue_def dest: rx_begin_busy)

declare ath9k_rx_tasklet.simps [simp del]

section \<open>Setting up and cleaning up\<close>

definition ath9k_rx_cleanup :: "htc_rx \<Rightarrow> htc_rx \<times> rx_call list" where
  "ath9k_rx_cleanup p = (p\<lparr>rxbuf := []\<rparr>, map Rx_kfree (List.map_filter rxbuf_skb (rxbuf p)))"

definition zero_rxbuf :: ath9k_htc_rxbuf where
  "zero_rxbuf = \<lparr>in_process = False, rxbuf_skb = None\<rparr>"

fun rx_alloc :: "(nat \<Rightarrow> bool) \<Rightarrow> nat list \<Rightarrow> htc_rx \<Rightarrow> int \<times> htc_rx" where
  \<comment> \<open>the loop of \<open>ath9k_rx_init\<close>; the first argument says whether each \<open>kzalloc\<close> succeeds\<close>
  "rx_alloc kz [] p = (0, p)"
| "rx_alloc kz (i # is) p =
     (if kz i then rx_alloc kz is (p\<lparr>rxbuf := rxbuf p @ [zero_rxbuf]\<rparr>)
      else (- ENOMEM, fst (ath9k_rx_cleanup p)))"

definition ath9k_rx_init :: "(nat \<Rightarrow> bool) \<Rightarrow> htc_rx \<Rightarrow> int \<times> htc_rx" where
  "ath9k_rx_init kz p = rx_alloc kz [0 ..< ATH9K_HTC_RXBUF] (p\<lparr>rxbuf := []\<rparr>)"

section \<open>A bounded queue\<close>

text \<open>What the tasklet and the endpoint callback rely on: \<open>put\<close> adds at the end unless the queue is
  full, \<open>first\<close> finds the oldest item, which stays the oldest while others are added, \<open>amend\<close>
  changes it and \<open>release\<close> removes it.\<close>

locale bounded_fifo =
  fixes inv :: "'s \<Rightarrow> bool"
    and items :: "'s \<Rightarrow> 'a list"
    and cap :: nat
    and put :: "'a \<Rightarrow> 's \<Rightarrow> 's option"
    and first :: "'s \<Rightarrow> nat option"
    and amend :: "nat \<Rightarrow> 'a \<Rightarrow> 's \<Rightarrow> 's"
    and release :: "nat \<Rightarrow> 's \<Rightarrow> 's"
  assumes items_cap: "inv s \<Longrightarrow> length (items s) \<le> cap"
    and put_free: "inv s \<Longrightarrow> length (items s) < cap \<Longrightarrow> \<exists>s'. put a s = Some s' \<and> inv s' \<and> items s' = items s @ [a]"
    and put_full: "inv s \<Longrightarrow> length (items s) = cap \<Longrightarrow> put a s = None"
    and first_item: "inv s \<Longrightarrow> first s = (if items s = [] then None else Some 0)"
    and amend_item: "inv s \<Longrightarrow> items s \<noteq> [] \<Longrightarrow> inv (amend 0 a s) \<and> items (amend 0 a s) = a # tl (items s)"
    and release_item: "inv s \<Longrightarrow> items s \<noteq> [] \<Longrightarrow> inv (release 0 s) \<and> items (release 0 s) = tl (items s)"
begin

lemma put_cases:
  assumes "inv s"
  shows "(put a s = None \<and> length (items s) = cap) \<or>
    (\<exists>s'. put a s = Some s' \<and> inv s' \<and> items s' = items s @ [a] \<and> length (items s) < cap)"
  using items_cap [OF assms] put_free [OF assms] put_full [OF assms] by (cases "length (items s) = cap") auto

text \<open>Adding a list of items: those that fit are kept, in order.\<close>

fun put_all :: "'a list \<Rightarrow> 's \<Rightarrow> 's" where
  "put_all [] s = s"
| "put_all (a # as) s = put_all as (case put a s of None \<Rightarrow> s | Some s' \<Rightarrow> s')"

lemma put_all_items: "inv s \<Longrightarrow> inv (put_all as s) \<and> items (put_all as s) = items s @ take (cap - length (items s)) as"
proof (induction as arbitrary: s)
  case (Cons a as)
  show ?case
  proof (cases "length (items s) = cap")
    case True
    then show ?thesis using Cons put_full [OF Cons.prems True] by simp
  next
    case False
    then obtain s' where s': "put a s = Some s'" "inv s'" "items s' = items s @ [a]" "length (items s) < cap"
      using put_cases [OF Cons.prems, of a] by blast
    then have "cap - length (items s) = Suc (cap - length (items s'))" by simp
    then show ?thesis using Cons.IH [OF s'(2)] s' by simp
  qed
qed simp

end

definition ring_ok :: "nat \<Rightarrow> ath9k_htc_rxbuf list \<Rightarrow> bool" where
  \<comment> \<open>the busy buffers come first, and exactly they hold a frame\<close>
  "ring_ok n bs \<longleftrightarrow> length bs = n \<and> (\<forall>b \<in> set (dropWhile in_process bs). \<not> in_process b) \<and>
     (\<forall>b \<in> set bs. in_process b = (rxbuf_skb b \<noteq> None))"

definition ring_items :: "ath9k_htc_rxbuf list \<Rightarrow> sk_buff list" where
  "ring_items bs = map (\<lambda>b. the (rxbuf_skb b)) (takeWhile in_process bs)"

definition ring_amend :: "nat \<Rightarrow> sk_buff \<Rightarrow> ath9k_htc_rxbuf list \<Rightarrow> ath9k_htc_rxbuf list" where
  "ring_amend i skb bs = bs[i := (bs ! i)\<lparr>rxbuf_skb := Some skb\<rparr>]"

lemma ring_ok_split:
  assumes "ring_ok n bs"
  obtains xs ys where "bs = xs @ ys" and "takeWhile in_process bs = xs" and "\<forall>b \<in> set xs. in_process b \<and> rxbuf_skb b \<noteq> None"
    and "\<forall>b \<in> set ys. \<not> in_process b \<and> rxbuf_skb b = None" and "length xs + length ys = n"
proof -
  let ?xs = "takeWhile in_process bs" and ?ys = "dropWhile in_process bs"
  have len: "length bs = n" and free: "\<forall>b \<in> set ?ys. \<not> in_process b" and held: "\<forall>b \<in> set bs. in_process b = (rxbuf_skb b \<noteq> None)"
    using assms by (simp_all add: ring_ok_def)
  have n: "length ?xs + length ?ys = n" unfolding length_append [symmetric] takeWhile_dropWhile_id by (rule len)
  have x: "\<forall>b \<in> set ?xs. in_process b \<and> rxbuf_skb b \<noteq> None" using held by (meson set_takeWhileD)
  have y: "\<forall>b \<in> set ?ys. \<not> in_process b \<and> rxbuf_skb b = None" using held free by (meson set_dropWhileD)
  show thesis by (rule that [OF _ _ x y n]) simp_all
qed

lemma ring_okI:
  assumes "\<forall>b \<in> set xs. in_process b \<and> rxbuf_skb b \<noteq> None" and "\<forall>b \<in> set ys. \<not> in_process b \<and> rxbuf_skb b = None"
    and "length xs + length ys = n"
  shows "ring_ok n (xs @ ys)" and "ring_items (xs @ ys) = map (\<lambda>b. the (rxbuf_skb b)) xs"
proof -
  have t: "takeWhile in_process (xs @ ys) = xs" "dropWhile in_process (xs @ ys) = ys"
  proof -
    have "takeWhile in_process ys = []" "dropWhile in_process ys = ys"
      using assms(2) by (auto simp: takeWhile_eq_Nil_iff dropWhile_eq_self_iff)
    then show "takeWhile in_process (xs @ ys) = xs" "dropWhile in_process (xs @ ys) = ys"
      using assms(1) takeWhile_append2 [of xs in_process ys] dropWhile_append2 [of xs in_process ys] by simp_all
  qed
  show "ring_ok n (xs @ ys)" using assms t(2) by (auto simp: ring_ok_def)
  show "ring_items (xs @ ys) = map (\<lambda>b. the (rxbuf_skb b)) xs" by (simp add: ring_items_def t(1))
qed

lemma rxep_fill_append:
  "\<forall>b \<in> set xs. in_process b \<Longrightarrow> rxep_fill skb (xs @ ys) = map_option ((@) xs) (rxep_fill skb ys)"
  by (cases "rxep_fill skb ys") (induction xs; simp)+

lemma first_busy_free: "\<forall>b \<in> set ys. \<not> in_process b \<Longrightarrow> first_busy ys = None"
  by (induction ys) auto

interpretation rr: bounded_fifo "ring_ok n" ring_items n rxep_fill first_busy ring_amend ring_release for n
proof
  fix s :: "ath9k_htc_rxbuf list" and a :: sk_buff
  assume inv: "ring_ok n s"
  then obtain xs ys where s: "s = xs @ ys" "takeWhile in_process s = xs" "\<forall>b \<in> set xs. in_process b \<and> rxbuf_skb b \<noteq> None"
    "\<forall>b \<in> set ys. \<not> in_process b \<and> rxbuf_skb b = None" "length xs + length ys = n" by (rule ring_ok_split)
  have it: "ring_items s = map (\<lambda>b. the (rxbuf_skb b)) xs" by (simp add: ring_items_def s(2))
  show "length (ring_items s) \<le> n" using s(5) by (simp add: it)
  show "first_busy s = (if ring_items s = [] then None else Some 0)"
    unfolding it using s(1,3,4) first_busy_free [of ys] by (cases xs) simp_all
  show "\<exists>s'. rxep_fill a s = Some s' \<and> ring_ok n s' \<and> ring_items s' = ring_items s @ [a]" if lt: "length (ring_items s) < n"
  proof -
    obtain y zs where y: "ys = y # zs" using lt s(5) unfolding it by (cases ys) auto
    let ?y = "y\<lparr>rxbuf_skb := Some a, in_process := True\<rparr>"
    have "rxep_fill a s = Some ((xs @ [?y]) @ zs)" using s(3,4) rxep_fill_append [of xs a ys] by (simp add: s(1) y)
    moreover have "\<forall>b \<in> set (xs @ [?y]). in_process b \<and> rxbuf_skb b \<noteq> None"
      "\<forall>b \<in> set zs. \<not> in_process b \<and> rxbuf_skb b = None" "length (xs @ [?y]) + length zs = n"
      using s(3-5) unfolding y by auto
    moreover note ring_okI [OF this(1-3)]
    ultimately show ?thesis unfolding it by simp
  qed
  show "rxep_fill a s = None" if full: "length (ring_items s) = n"
  proof -
    have "ys = []" using full s(5) unfolding it by simp
    then show ?thesis using s(3) rxep_fill_append [of xs a ys] unfolding s(1) by simp
  qed
  show "ring_ok n (ring_amend 0 a s) \<and> ring_items (ring_amend 0 a s) = a # tl (ring_items s)" if ne: "ring_items s \<noteq> []"
  proof -
    obtain x zs where x: "xs = x # zs" using ne unfolding it by (cases xs) auto
    have "ring_amend 0 a s = (x\<lparr>rxbuf_skb := Some a\<rparr> # zs) @ ys" by (simp add: ring_amend_def s(1) x)
    moreover have "\<forall>b \<in> set (x\<lparr>rxbuf_skb := Some a\<rparr> # zs). in_process b \<and> rxbuf_skb b \<noteq> None"
      "length (x\<lparr>rxbuf_skb := Some a\<rparr> # zs) + length ys = n"
      using s(3,5) unfolding x by auto
    moreover note ring_okI [OF this(1) s(4) this(2)]
    ultimately show ?thesis unfolding it x by simp
  qed
  show "ring_ok n (ring_release 0 s) \<and> ring_items (ring_release 0 s) = tl (ring_items s)" if ne: "ring_items s \<noteq> []"
  proof -
    obtain x zs where x: "xs = x # zs" using ne unfolding it by (cases xs) auto
    have "ring_release 0 s = zs @ (ys @ [x\<lparr>in_process := False, rxbuf_skb := None\<rparr>])" by (simp add: ring_release_def s(1) x)
    moreover have "\<forall>b \<in> set zs. in_process b \<and> rxbuf_skb b \<noteq> None"
      "\<forall>b \<in> set (ys @ [x\<lparr>in_process := False, rxbuf_skb := None\<rparr>]). \<not> in_process b \<and> rxbuf_skb b = None"
      "length zs + length (ys @ [x\<lparr>in_process := False, rxbuf_skb := None\<rparr>]) = n"
      using s(3-5) unfolding x by auto
    moreover note ring_okI [OF this(1-3)]
    ultimately show ?thesis unfolding it x by simp
  qed
qed

section \<open>What mac80211 gets\<close>

definition unpad_hdr :: "bytes \<Rightarrow> bytes" where
  "unpad_hdr bs =
     (let n = ath9k_cmn_padpos (frame_fc bs); k = n mod 4 in
      if k \<noteq> 0 \<and> n + k + 4 \<le> length bs then take n bs @ drop (n + k) bs else bs)"

definition rx_deliver :: "nl80211_iftype \<Rightarrow> bytes \<Rightarrow> bytes option" where
  \<comment> \<open>the frame delivered for a buffer with these bytes\<close>
  "rx_deliver opmode bs =
     (if length bs < 40 \<or> unat (be16 (bs ! 8) (bs ! 9)) \<noteq> length bs - 40 \<or>
         rx_check_status opmode (frame_fc (drop 40 bs)) (bs ! 10) = None
      then None else Some (unpad_hdr (drop 40 bs)))"

definition rx_skb_ok :: "sk_buff \<Rightarrow> bool" where
  \<comment> \<open>a received buffer with a frame control field after the status header, if it has the header\<close>
  "rx_skb_ok s \<longleftrightarrow> wf_skb s \<and> skb_len s < 2 ^ 32 \<and> (skb_len s < 40 \<or> 42 \<le> skb_len s)"

definition rx_ok :: "htc_rx \<Rightarrow> bool" where
  \<comment> \<open>what the driver set up: a key map with at least the four default keys, and the rates of the
      band in use\<close>
  "rx_ok p \<longleftrightarrow> 4 \<le> length (rx_keymap p) \<and> rx_bands p (ch_band (rx_chan p)) \<noteq> None"

lemma rx_unpad_bytes:
  assumes "wf_skb s" and "2 \<le> skb_len s" and "fc = frame_fc (skb_bytes s)"
  shows "\<exists>t. rx_unpad fc s = Some t \<and> wf_skb t \<and> skb_bytes t = unpad_hdr (skb_bytes s)"
proof (cases "ath9k_cmn_padpos fc mod 4 \<noteq> 0 \<and> ath9k_cmn_padpos fc + ath9k_cmn_padpos fc mod 4 + 4 \<le> skb_len s")
  case False
  then show ?thesis using assms by (auto simp: rx_unpad_def unpad_hdr_def Let_def)
next
  case True
  let ?n = "ath9k_cmn_padpos fc"
  let ?k = "?n mod 4"
  let ?h = "take ?n (skb_bytes s)"
  have len: "length (skb_bytes s) = skb_len s" using assms(1) by simp
  have rd: "read_bytes (skb_mem s) 0 ?n = Some ?h"
    using True assms(1) by (auto simp: read_bytes_def skb_bytes_def skb_mem_def skb_len_def wf_skb_def)
  obtain t where t: "skb_store ?k ?h s = Some t" "skb_bytes t = take ?k (skb_bytes s) @ ?h @ drop (?k + ?n) (skb_bytes s)" "wf_skb t"
    using skb_store_bytes [of s ?k ?h] assms(1) True len by auto
  have lt: "skb_len t = skb_len s" using arg_cong [OF t(2), of length] t(3) True len by simp
  have "skb_bytes (skb_pull ?k t) = ?h @ drop (?n + ?k) (skb_bytes s)"
    using True lt len by (simp add: skb_bytes_pull t(2) add.commute)
  then show ?thesis
    using True rd t(1,3) len assms(3) by (auto simp: rx_unpad_def unpad_hdr_def Let_def wf_skb_pull)
qed

lemma rx_status_at_bytes:
  assumes "40 \<le> length bs"
  shows "\<exists>st. rx_status_at bs = Some st \<and> rs_datalen st = be16 (bs ! 8) (bs ! 9) \<and> rs_status st = bs ! 10"
  using assms by (auto simp: rx_status_at_def get_be64_def get_be32_def get_be16_def byte_at_def)

lemma datalen_word:
  assumes "n < 2 ^ 32" and "40 \<le> n"
  shows "(ucast (d :: u16) :: u32) - (word_of_nat n - word_of_nat 40) = 0 \<longleftrightarrow> unat d = n - 40"
proof -
  have "word_of_nat n - word_of_nat 40 = (word_of_nat (n - 40) :: u32)" using assms(2) by (simp add: of_nat_diff)
  moreover have "unat (ucast d :: u32) = unat d" using unsigned_less [of d, where ?'a = nat] by (simp add: unsigned_ucast_eq take_bit_nat_eq_self)
  moreover have "unat (word_of_nat (n - 40) :: u32) = n - 40" using assms(1) by (simp add: unat_of_nat take_bit_nat_eq_self)
  ultimately show ?thesis unfolding right_minus_eq by (simp add: word_unat_eq_iff)
qed

lemma rx_decrypted_defined:
  assumes "rx_ok p" and "wf_skb s"
  shows "rx_decrypted p fc hdrlen s st \<noteq> None"
proof -
  have m: "skb_len s \<le> length (skb_mem s)" using assms(2) by (auto simp: wf_skb_def skb_len_def skb_mem_def)
  have "unat (drop_bit 6 b) < 4" for b :: u8
  proof -
    have "unat (drop_bit 6 b) = unat b div 64" by (simp add: drop_bit_eq_div unat_div)
    then show ?thesis using unsigned_less [of b, where ?'a = nat] by simp
  qed
  then have "unat (drop_bit 6 b) < length (rx_keymap p)" for b :: u8
    using assms(1) unfolding rx_ok_def by (meson less_le_trans)
  then show ?thesis using m by (auto simp: rx_decrypted_def test_bit_in byte_at_in split: Option.bind_splits)
qed

lemma process_rate_defined: "rx_ok p \<Longrightarrow> ath9k_process_rate p rate flags rxs \<noteq> None"
  by (auto simp: ath9k_process_rate_def rx_ok_def Let_def)

lemma unpad_hdr_length: "2 \<le> length bs \<Longrightarrow> 2 \<le> length (unpad_hdr bs)"
  using padpos_ge [of "frame_fc bs"] by (auto simp: unpad_hdr_def Let_def)

lemma rx_pulled_bytes:
  assumes "wf_skb s" and "42 \<le> skb_len s"
  shows "skb_bytes (skb_pull 40 s) = drop 40 (skb_bytes s)" and "wf_skb (skb_pull 40 s)" and "2 \<le> skb_len (skb_pull 40 s)"
    and "get_le16 (skb_mem (skb_pull 40 s)) 0 = Some (frame_fc (drop 40 (skb_bytes s)))"
proof -
  show b: "skb_bytes (skb_pull 40 s) = drop 40 (skb_bytes s)" using assms by (simp add: skb_bytes_pull)
  show w: "wf_skb (skb_pull 40 s)" using assms(1) by (rule wf_skb_pull)
  show l: "2 \<le> skb_len (skb_pull 40 s)" using assms(2) by (simp add: skb_len_pull)
  show "get_le16 (skb_mem (skb_pull 40 s)) 0 = Some (frame_fc (drop 40 (skb_bytes s)))"
    using w l by (simp add: b [symmetric] get_le16_def skb_mem_byte_at byte_at_in frame_fc_def)
qed

lemma prepare_ok:
  assumes "rx_ok p" and "rx_skb_ok s"
  shows "\<exists>p' t r. ath9k_rx_prepare p s = Some (p', t, r) \<and> wf_skb t \<and>
    (case rx_deliver (rx_opmode p) (skb_bytes s) of
       None \<Rightarrow> r = None | Some f \<Rightarrow> r \<noteq> None \<and> skb_bytes t = f \<and> 2 \<le> skb_len t)"
proof -
  have wf: "wf_skb s" and n: "skb_len s < 2 ^ 32" and l: "skb_len s < 40 \<or> 42 \<le> skb_len s"
    using assms(2) by (simp_all add: rx_skb_ok_def)
  have len: "length (skb_bytes s) = skb_len s" using wf by simp
  show ?thesis
  proof (cases "skb_len s < 40")
    case True
    then show ?thesis using wf len by (simp add: ath9k_rx_prepare_def rx_deliver_def)
  next
    case False
    then have l: "42 \<le> skb_len s" using l by simp
    obtain rest where mem: "skb_mem s = skb_bytes s @ rest" by (rule skb_mem_eq_append [OF wf])
    obtain st where st: "rx_status_at (skb_mem s) = Some st" "rs_datalen st = be16 (skb_bytes s ! 8) (skb_bytes s ! 9)"
      "rs_status st = skb_bytes s ! 10"
      using rx_status_at_bytes [of "skb_mem s"] l len by (auto simp: mem nth_append)
    note f = rx_pulled_bytes [OF wf l]
    let ?fc = "frame_fc (drop 40 (skb_bytes s))"
    have dl: "(ucast (rs_datalen st) :: u32) - (word_of_nat (skb_len s) - word_of_nat 40) = 0 \<longleftrightarrow> unat (rs_datalen st) = skb_len s - 40"
      using datalen_word [OF n, of "rs_datalen st"] l by simp
    show ?thesis
    proof (cases "unat (rs_datalen st) = skb_len s - 40")
      case False
      then show ?thesis using wf len l st dl by (simp add: ath9k_rx_prepare_def rx_deliver_def)
    next
      case True
      obtain t where t: "rx_unpad ?fc (skb_pull 40 s) = Some t" "wf_skb t" "skb_bytes t = unpad_hdr (drop 40 (skb_bytes s))"
        using rx_unpad_bytes [OF f(2,3)] f(1) by auto
      have lt: "2 \<le> skb_len t"
        using unpad_hdr_length [of "drop 40 (skb_bytes s)"] l len t(2,3) by (metis f(1-3) skb_bytes_length)
      have "ieee80211_get_hdrlen_from_skb (skb_pull 40 s) \<noteq> None"
        using f(4) by (simp add: ieee80211_get_hdrlen_from_skb_def Let_def)
      then obtain hl where hl: "ieee80211_get_hdrlen_from_skb (skb_pull 40 s) = Some hl" by blast
      show ?thesis
      proof (cases "rx_check_status (rx_opmode p) ?fc (rs_status st)")
        case None
        then show ?thesis using len l st dl True f(4) hl t by (simp add: ath9k_rx_prepare_def rx_deliver_def)
      next
        case (Some sf)
        obtain status flag where sf: "sf = (status, flag)" by (cases sf)
        let ?st = "st\<lparr>rs_status := status\<rparr>"
        obtain dec where dec: "rx_decrypted p ?fc hl t ?st = Some dec" using rx_decrypted_defined [OF assms(1) t(2)] by blast
        let ?flag = "if dec then flag OR RX_FLAG_DECRYPTED else flag"
        obtain rxs where rxs: "ath9k_process_rate p (rs_rate ?st) (rs_flags ?st) (zero_rx_status\<lparr>rx_flag := ?flag\<rparr>) = Some rxs"
          using process_rate_defined [OF assms(1)] by blast
        obtain p' st' where r: "rx_rssi p ?fc ?st = (p', st')" by (cases "rx_rssi p ?fc ?st")
        show ?thesis
          using len l st dl True f(4) hl t lt Some sf dec rxs r by (simp add: ath9k_rx_prepare_def rx_deliver_def)
      qed
    qed
  qed
qed

definition delivered :: "rx_call list \<Rightarrow> bytes list" where
  "delivered cs = List.map_filter (\<lambda>c. case c of Ieee80211_rx s rxs \<Rightarrow> Some (skb_bytes s) | _ \<Rightarrow> None) cs"

definition deliverable :: "nl80211_iftype \<Rightarrow> sk_buff list \<Rightarrow> bytes list" where
  "deliverable opmode ss = List.map_filter (\<lambda>s. rx_deliver opmode (skb_bytes s)) ss"

lemma delivered_simps [simp]:
  "delivered [] = []" "delivered (Ieee80211_rx s rxs # cs) = skb_bytes s # delivered cs"
  "delivered (Rx_kfree s # cs) = delivered cs" "delivered (Queue_ps_work # cs) = delivered cs"
  "delivered (as @ bs) = delivered as @ delivered bs"
  by (simp_all add: delivered_def map_filter_def)

lemma deliverable_simps [simp]:
  "deliverable m [] = []" "deliverable m (as @ bs) = deliverable m as @ deliverable m bs"
  "deliverable m (s # ss) = (case rx_deliver m (skb_bytes s) of None \<Rightarrow> [] | Some f \<Rightarrow> [f]) @ deliverable m ss"
  by (simp_all add: deliverable_def map_filter_def split: option.split)

lemma same_confD: "same_conf p p' \<Longrightarrow> rx_opmode p' = rx_opmode p" "same_conf p p' \<Longrightarrow> rx_ok p' = rx_ok p"
  by (simp_all add: same_conf_def rx_ok_def)

lemma same_conf_trans: "same_conf p q \<Longrightarrow> same_conf q r \<Longrightarrow> same_conf p r"
  by (simp add: same_conf_def)

lemma rx_begin_ok:
  assumes "ring_ok n (rxbuf p)" and "rx_ok p" and "ring_items (rxbuf p) = s # ss" and "rx_skb_ok s"
  shows "\<exists>p' calls t. rx_begin p = Some (p', Some (0, calls)) \<and> same_conf p p' \<and>
    rxbuf p' = ring_amend 0 t (rxbuf p) \<and> delivered calls = deliverable (rx_opmode p) [s]"
proof -
  have fb: "first_busy (rxbuf p) = Some 0" using rr.first_item [OF assms(1)] assms(3) by simp
  have "takeWhile in_process (rxbuf p) \<noteq> []" "the (rxbuf_skb (hd (takeWhile in_process (rxbuf p)))) = s"
    using assms(3) by (auto simp: ring_items_def)
  then have "rxbuf p \<noteq> []" and h: "hd (rxbuf p) = rxbuf p ! 0" "in_process (rxbuf p ! 0)" "the (rxbuf_skb (rxbuf p ! 0)) = s"
    by (cases "rxbuf p"; auto split: if_splits)+
  then have sk: "rxbuf_skb (rxbuf p ! 0) = Some s" using assms(1) by (auto simp: ring_ok_def)
  obtain p1 t r where a: "ath9k_rx_prepare p s = Some (p1, t, r)" "wf_skb t"
    "case rx_deliver (rx_opmode p) (skb_bytes s) of
       None \<Rightarrow> r = None | Some f \<Rightarrow> r \<noteq> None \<and> skb_bytes t = f \<and> 2 \<le> skb_len t"
    using prepare_ok [OF assms(2,4)] by blast
  note c = prepare_conf [OF a(1)]
  let ?p = "p1\<lparr>rxbuf := ring_amend 0 t (rxbuf p)\<rparr>"
  have sc: "same_conf p ?p" using c by (simp add: same_conf_def)
  show ?thesis
  proof (cases "rx_deliver (rx_opmode p) (skb_bytes s)")
    case None
    then have "rx_begin p = Some (?p, Some (0, [Rx_kfree t]))"
      using a(1,3) c by (simp add: rx_begin_def fb sk ring_amend_def)
    then show ?thesis using sc None by (intro exI [of _ ?p] exI [of _ "[Rx_kfree t]"] exI [of _ t]) simp
  next
    case (Some f)
    then obtain rxs where r: "r = Some rxs" "skb_bytes t = f" "2 \<le> skb_len t" using a(3) by auto
    then have fc: "get_le16 (skb_mem t) 0 = Some (frame_fc f)"
      using a(2) by (auto simp: get_le16_def skb_mem_byte_at byte_at_in frame_fc_def)
    let ?cs = "(if ieee80211_is_beacon (frame_fc f) \<and> ps_enabled p1 then [Queue_ps_work] else []) @ [Ieee80211_rx t rxs]"
    have "rx_begin p = Some (?p, Some (0, ?cs))"
      using a(1) c fc r(1) by (simp add: rx_begin_def fb sk ring_amend_def)
    then show ?thesis using sc Some r(2) by (intro exI [of _ ?p] exI [of _ ?cs] exI [of _ t]) simp
  qed
qed

lemma rx_begin_idle: "ring_ok n (rxbuf p) \<Longrightarrow> ring_items (rxbuf p) = [] \<Longrightarrow> rx_begin p = Some (p, None)"
  using rr.first_item [of n "rxbuf p"] by (simp add: rx_begin_def)

lemma rxep_ok:
  assumes "ring_ok n (rxbuf p)"
  shows "(length (ring_items (rxbuf p)) = n \<and> ath9k_htc_rxep p s = (p, [Rx_kfree s])) \<or>
    (\<exists>p'. length (ring_items (rxbuf p)) < n \<and> ath9k_htc_rxep p s = (p', []) \<and> same_conf p p' \<and> ring_ok n (rxbuf p') \<and>
       ring_items (rxbuf p') = ring_items (rxbuf p) @ [s])"
  using rr.put_cases [OF assms, of s] by (auto simp: ath9k_htc_rxep_def)

lemma rx_tasklet_ok:
  "\<lbrakk>ring_ok n (rxbuf p); rx_ok p; \<forall>s \<in> set (ring_items (rxbuf p)). rx_skb_ok s\<rbrakk> \<Longrightarrow>
   \<exists>p' calls. ath9k_rx_tasklet p = Some (p', calls) \<and> same_conf p p' \<and> ring_ok n (rxbuf p') \<and> ring_items (rxbuf p') = [] \<and>
     delivered calls = deliverable (rx_opmode p) (ring_items (rxbuf p))"
proof (induction "ring_items (rxbuf p)" arbitrary: p)
  case Nil
  then show ?case using rx_begin_idle [OF Nil.prems(1)] by (simp add: ath9k_rx_tasklet.simps [of p])
next
  case (Cons s ss)
  obtain p1 a t where b: "rx_begin p = Some (p1, Some (0, a))" "same_conf p p1" "rxbuf p1 = ring_amend 0 t (rxbuf p)"
    "delivered a = deliverable (rx_opmode p) [s]"
    using rx_begin_ok [OF Cons.prems(1,2) Cons.hyps(2) [symmetric]] Cons.prems(3) Cons.hyps(2) [symmetric] by auto
  let ?p = "rx_requeue 0 p1"
  have "ring_ok n (rxbuf p1)" "ring_items (rxbuf p1) = t # ss"
    using rr.amend_item [OF Cons.prems(1), of t] Cons.hyps(2) [symmetric] by (simp_all add: b(3))
  then have q: "ring_ok n (rxbuf ?p)" "ring_items (rxbuf ?p) = ss"
    using rr.release_item [of n "rxbuf p1"] by (simp_all add: rx_requeue_def)
  have sc: "same_conf p ?p" using b(2) by (simp add: same_conf_def rx_requeue_def)
  note cf = same_confD [OF sc]
  obtain p' c where r: "ath9k_rx_tasklet ?p = Some (p', c)" "same_conf ?p p'" "ring_ok n (rxbuf p')" "ring_items (rxbuf p') = []"
    "delivered c = deliverable (rx_opmode p) ss"
    using Cons.hyps(1) [OF q(2) [symmetric] q(1)] Cons.prems(2,3) cf Cons.hyps(2) [symmetric] q(2) by auto
  have "ath9k_rx_tasklet p = Some (p', a @ c)" using b(1) r(1) by (simp add: ath9k_rx_tasklet.simps [of p])
  then show ?case
    using r(3-5) same_conf_trans [OF sc r(2)] b(4) Cons.hyps(2) [symmetric] by simp
qed

section \<open>Interleavings of arrivals and the tasklet\<close>

text \<open>A state of the relation: the driver's state, the buffer the tasklet is delivering while it does
  not hold the lock, the frames accepted so far and the calls made so far.\<close>

type_synonym rx_trace = "htc_rx \<times> nat option \<times> sk_buff list \<times> rx_call list"

inductive rx_step :: "rx_trace \<Rightarrow> rx_trace \<Rightarrow> bool" where
  Arrive: "\<lbrakk>rx_skb_ok s; ath9k_htc_rxep p s = (p', calls)\<rbrakk> \<Longrightarrow>
     rx_step (p, cur, acc, cs) (p', cur, if calls = [] then acc @ [s] else acc, cs @ calls)"
| Begin: "rx_begin p = Some (p', Some (i, calls)) \<Longrightarrow> rx_step (p, None, acc, cs) (p', Some i, acc, cs @ calls)"
| Requeue: "rx_step (p, Some i, acc, cs) (rx_requeue i p, None, acc, cs)"

definition rx_waiting :: "htc_rx \<Rightarrow> nat option \<Rightarrow> sk_buff list" where
  \<comment> \<open>the accepted frames the tasklet has not looked at\<close>
  "rx_waiting p cur = (case cur of None \<Rightarrow> ring_items (rxbuf p) | Some i \<Rightarrow> tl (ring_items (rxbuf p)))"

fun rx_inv :: "htc_rx \<Rightarrow> rx_trace \<Rightarrow> bool" where
  "rx_inv p0 (p, cur, acc, cs) \<longleftrightarrow>
     same_conf p0 p \<and> ring_ok 256 (rxbuf p) \<and> (\<forall>s \<in> set (rx_waiting p cur). rx_skb_ok s) \<and>
     (cur = None \<or> cur = Some 0 \<and> ring_items (rxbuf p) \<noteq> []) \<and>
     (\<exists>seen. acc = seen @ rx_waiting p cur \<and> delivered cs = deliverable (rx_opmode p0) seen)"

lemma rx_inv_step:
  assumes "rx_step a b" and "rx_inv p0 a" and ok: "rx_ok p0"
  shows "rx_inv p0 b"
  using assms(1)
proof (cases rule: rx_step.cases)
  case (Arrive s p p' calls cur acc cs)
  have inv: "same_conf p0 p" "ring_ok 256 (rxbuf p)" "\<forall>s \<in> set (rx_waiting p cur). rx_skb_ok s"
    "cur = None \<or> cur = Some 0 \<and> ring_items (rxbuf p) \<noteq> []"
    and ex: "\<exists>seen. acc = seen @ rx_waiting p cur \<and> delivered cs = deliverable (rx_opmode p0) seen"
    using assms(2) Arrive(1) by simp_all
  consider "p' = p" "calls = [Rx_kfree s]"
    | "calls = []" "same_conf p p'" "ring_ok 256 (rxbuf p')" "ring_items (rxbuf p') = ring_items (rxbuf p) @ [s]"
    using rxep_ok [OF inv(2), of s] Arrive(4) by auto
  then show ?thesis
  proof cases
    case 1
    then show ?thesis using inv ex Arrive(2) by simp
  next
    case 2
    have w: "rx_waiting p' cur = rx_waiting p cur @ [s]" using inv(4) 2(4) by (auto simp: rx_waiting_def)
    show ?thesis using inv(1,3,4) ex Arrive(2,3) 2 same_conf_trans [OF inv(1) 2(2)] by (auto simp: w)
  qed
next
  case (Begin p p' i calls acc cs)
  have inv: "same_conf p0 p" "ring_ok 256 (rxbuf p)" "\<forall>s \<in> set (ring_items (rxbuf p)). rx_skb_ok s"
    and ex: "\<exists>seen. acc = seen @ ring_items (rxbuf p) \<and> delivered cs = deliverable (rx_opmode p0) seen"
    using assms(2) Begin(1) by (simp_all add: rx_waiting_def)
  have "first_busy (rxbuf p) = Some i" using rx_begin_SomeD(1) [OF Begin(3)] .
  then have "ring_items (rxbuf p) \<noteq> []" using rr.first_item [OF inv(2)] by auto
  then obtain s ss where it: "ring_items (rxbuf p) = s # ss" by (cases "ring_items (rxbuf p)") auto
  obtain t where b: "i = 0" "same_conf p p'" "rxbuf p' = ring_amend 0 t (rxbuf p)" "delivered calls = deliverable (rx_opmode p) [s]"
    using rx_begin_ok [OF inv(2) _ it] inv(1,3) ok it Begin(3) by (auto simp: same_confD)
  have r: "ring_ok 256 (rxbuf p')" "ring_items (rxbuf p') = t # ss"
    using rr.amend_item [OF inv(2), of t] it by (simp_all add: b(3))
  obtain seen where seen: "acc = (seen @ [s]) @ ss" "delivered cs = deliverable (rx_opmode p0) seen"
    using ex it by auto
  have "delivered (cs @ calls) = deliverable (rx_opmode p0) (seen @ [s])"
    using seen(2) b(4) inv(1) by (simp add: same_confD)
  then show ?thesis
    using Begin(2) b(1) r inv(3) it seen(1) same_conf_trans [OF inv(1) b(2)] by (auto simp: rx_waiting_def)
next
  case (Requeue p i acc cs)
  have inv: "same_conf p0 p" "ring_ok 256 (rxbuf p)" "\<forall>s \<in> set (tl (ring_items (rxbuf p))). rx_skb_ok s"
    "i = 0" "ring_items (rxbuf p) \<noteq> []"
    and ex: "\<exists>seen. acc = seen @ tl (ring_items (rxbuf p)) \<and> delivered cs = deliverable (rx_opmode p0) seen"
    using assms(2) Requeue(1) by (simp_all add: rx_waiting_def)
  have r: "ring_ok 256 (rxbuf (rx_requeue 0 p))" "ring_items (rxbuf (rx_requeue 0 p)) = tl (ring_items (rxbuf p))"
    using rr.release_item [OF inv(2,5)] by (simp_all add: rx_requeue_def)
  have "same_conf p0 (rx_requeue 0 p)" using inv(1) by (simp add: same_conf_def rx_requeue_def)
  then show ?thesis using Requeue(2) inv(3,4) ex r by (simp add: rx_waiting_def)
qed

lemma rx_inv_reachable:
  assumes "rx_step\<^sup>*\<^sup>* (p0, None, [], []) c" and "ring_ok 256 (rxbuf p0)" and "ring_items (rxbuf p0) = []" and "rx_ok p0"
  shows "rx_inv p0 c"
  using assms(1)
proof induction
  case base
  then show ?case using assms(2,3) by (auto simp: rx_waiting_def)
next
  case (step b c)
  then show ?case using rx_inv_step [OF _ _ assms(4)] by blast
qed

lemma rx_alloc_result:
  "rx_alloc kz is p = (if \<forall>i \<in> set is. kz i then (0, p\<lparr>rxbuf := rxbuf p @ replicate (length is) zero_rxbuf\<rparr>)
     else (- ENOMEM, p\<lparr>rxbuf := []\<rparr>))"
  by (induction "is" arbitrary: p) (simp_all add: ath9k_rx_cleanup_def)

lemma ring_ok_fresh: "ring_ok n (replicate n zero_rxbuf)" "ring_items (replicate n zero_rxbuf) = []"
proof -
  have "ring_ok n ([] @ replicate n zero_rxbuf) \<and> ring_items ([] @ replicate n zero_rxbuf) = []"
    using ring_okI [of "[]" "replicate n zero_rxbuf" n] by (simp add: zero_rxbuf_def)
  then show "ring_ok n (replicate n zero_rxbuf)" "ring_items (replicate n zero_rxbuf) = []" by simp_all
qed

lemma rx_init_ok:
  assumes "ath9k_rx_init kz p = (0, p0)" and "rx_ok p"
  shows "same_conf p p0" and "ring_ok 256 (rxbuf p0)" and "ring_items (rxbuf p0) = []" and "rx_ok p0"
proof -
  have p0: "p0 = p\<lparr>rxbuf := replicate 256 zero_rxbuf\<rparr>"
    using assms(1) by (simp add: ath9k_rx_init_def rx_alloc_result errno_simps split: if_splits)
  show "same_conf p p0" by (simp add: p0)
  then show "rx_ok p0" using assms(2) by (simp add: same_confD)
  show "ring_ok 256 (rxbuf p0)" "ring_items (rxbuf p0) = []" using ring_ok_fresh [of 256] by (simp_all add: p0)
qed

section \<open>The signal average\<close>

definition rssi_ok :: "int \<Rightarrow> bool" where
  "rssi_ok x \<longleftrightarrow> - 20 * 128 \<le> x \<and> x \<le> 127 * 128"

lemma sdiv_pos: "0 < c \<Longrightarrow> x sdiv c = (if 0 \<le> x then x div c else - ((- x) div c))" for x c :: int
  by (auto simp: signed_divide_int_def sgn_if abs_if)

lemma sdiv_bounds:
  fixes x a b c :: int
  assumes "0 < c" and "a * c \<le> x" and "x \<le> b * c"
  shows "a \<le> x sdiv c" and "x sdiv c \<le> b"
proof -
  have c: "c \<noteq> 0" using assms(1) by simp
  have cancel: "(k * c) div c = k" for k using c by simp
  have "- x \<le> - a * c" "- b * c \<le> - x" using assms(2,3) by simp_all
  note le = zdiv_mono1 [OF assms(2,1)] zdiv_mono1 [OF assms(3,1)] zdiv_mono1 [OF this(2) assms(1)] zdiv_mono1 [OF this(1) assms(1)]
  have m: "a \<le> x div c" "x div c \<le> b" "- b \<le> (- x) div c" "(- x) div c \<le> - a" using le unfolding cancel .
  then show "a \<le> x sdiv c" "x sdiv c \<le> b" using sdiv_pos [OF assms(1), of x] by auto
qed

lemma rssi_lpf_bounds:
  assumes "rssi_ok x" and "y \<le> 127"
  shows "rssi_ok (ATH_RSSI_LPF x y)"
proof (cases "y \<ge> - 20")
  case True
  have "- 2560 * 10 \<le> x * 9 + y * 128" "x * 9 + y * 128 \<le> 16256 * 10" using assms True by (simp_all add: rssi_ok_def)
  from sdiv_bounds [OF _ this] show ?thesis
    using assms(2) True by (simp add: ATH_RSSI_LPF_def rssi_ok_def Let_def)
next
  case False
  then show ?thesis using assms(1) by (simp add: ATH_RSSI_LPF_def)
qed

lemma rssi_round_bounds:
  assumes "rssi_ok x"
  shows "- 20 \<le> ATH_EP_RND x 128" and "ATH_EP_RND x 128 \<le> 127"
proof -
  have "- 20 * 128 \<le> x" "x \<le> 127 * 128" using assms by (simp_all add: rssi_ok_def)
  note b = sdiv_bounds [OF _ this]
  have "x + 127 < 128 * 128" "- 20 * 128 \<le> x + 127" using assms by (simp_all add: rssi_ok_def)
  then have "(x + 127) sdiv 128 < 128" "- 20 \<le> (x + 127) sdiv 128"
    using sdiv_bounds(1) [of 128 "- 20" "x + 127"] by (auto simp: sdiv_pos)
  with b show "- 20 \<le> ATH_EP_RND x 128" "ATH_EP_RND x 128 \<le> 127" by (simp_all add: ATH_EP_RND_def)
qed

lemma rx_rssi_bounds:
  assumes "rx_rssi p fc st = (p', st')" and "rssi_ok (last_rssi p)"
  shows "rssi_ok (last_rssi p')" and "0 \<le> sint (rs_rssi st')" and "sint (rs_rssi st') \<le> 127"
proof -
  have y: "sint (rs_rssi st) \<le> 127" using sint_lt [of "rs_rssi st"] by simp
  let ?l = "if sint (rs_rssi st) \<noteq> - 128 \<and> rs_moreaggr st = 0 then ATH_RSSI_LPF (last_rssi p) (sint (rs_rssi st)) else last_rssi p"
  have l: "rssi_ok ?l" using rssi_lpf_bounds [OF assms(2) y] assms(2) by simp
  have p': "last_rssi p' = ?l"
    using assms(1) by (cases "ieee80211_is_beacon fc") (auto simp: rx_rssi_def Let_def)
  show "rssi_ok (last_rssi p')" using l by (simp add: p')
  show "sint (rs_rssi st') \<le> 127" using sint_lt [of "rs_rssi st'"] by simp
  have "\<exists>w. rs_rssi st' = (if sint w < 0 then 0 else w)" using assms(1) by (auto simp: rx_rssi_def Let_def)
  then show "0 \<le> sint (rs_rssi st')" by auto
qed

lemma prepare_signal:
  assumes "ath9k_rx_prepare p s = Some (p', t, Some rxs)"
  shows "\<exists>fc st st'. rx_rssi p fc st = (p', st') \<and> rx_signal rxs = word_of_int (sint (rs_rssi st') - 95)"
  using assms
  by (auto simp: ath9k_rx_prepare_def Let_def split: if_splits Option.bind_splits option.splits prod.splits) blast+

lemma unpad_pad_hdr:
  assumes "ath9k_cmn_padpos (frame_fc f) + 4 \<le> length f"
  shows "unpad_hdr (pad_hdr f) = f"
proof (cases "ath9k_cmn_padpos (frame_fc f) mod 4 = 0")
  case True
  then have "pad_hdr f = f" by (simp add: pad_hdr_def Let_def)
  then show ?thesis using True by (simp add: unpad_hdr_def Let_def)
next
  case False
  let ?n = "ath9k_cmn_padpos (frame_fc f)"
  let ?k = "?n mod 4"
  have p: "pad_hdr f = take ?n f @ drop (?n - ?k) (take ?n f) @ drop ?n f"
    using False assms by (simp add: pad_hdr_def Let_def)
  have "length (pad_hdr f) = length f + ?k" "take ?n (pad_hdr f) = take ?n f" "drop (?n + ?k) (pad_hdr f) = drop ?n f"
    unfolding p using assms by simp_all
  then show ?thesis unfolding unpad_hdr_def Let_def pad_hdr_fc using False assms by simp
qed

lemma pad_hdr_fc_drop: "length hdr = 40 \<Longrightarrow> frame_fc (drop 40 (hdr @ pad_hdr f)) = frame_fc f"
  by (simp add: pad_hdr_fc)

lemma deliver_padded:
  assumes "length hdr = 40" and "unat (be16 (hdr ! 8) (hdr ! 9)) = length (pad_hdr f)"
    and "rx_check_status opmode (frame_fc f) (hdr ! 10) \<noteq> None" and "ath9k_cmn_padpos (frame_fc f) + 4 \<le> length f"
  shows "rx_deliver opmode (hdr @ pad_hdr f) = Some f"
  unfolding rx_deliver_def pad_hdr_fc_drop [OF assms(1)] using assms(1-3) unpad_pad_hdr [OF assms(4)] by (simp add: nth_append)

section \<open>Properties\<close>

definition ex_rx :: htc_rx where
  \<comment> \<open>a station on channel 6 without keys, before the first frame\<close>
  "ex_rx = \<lparr>last_rssi = 0x127, rxbuf = [], rx_opmode = IFTYPE_STATION, rx_keymap = replicate 128 False,
     rx_chan = \<lparr>ch_band = BAND_2GHZ, ch_center_freq = 2437, ch_hw_value = 6\<rparr>, rx_bands = (\<lambda>_. Some [(0x1b, 0x1e)]),
     avgbrssi = 0, ps_enabled = False\<rparr>"

definition ex_rx_skb :: sk_buff where
  \<comment> \<open>a status header and the quality-of-service data frame of 32 bytes, with its padding\<close>
  "ex_rx_skb = skb_of_bytes (replicate 8 0 @ [0, 34, 0, 0, 40] @ replicate 6 0 @ [0xff, 0x1b] @ replicate 19 0
     @ [0x88, 0x01] @ replicate 32 7)"

lemma ex_rx_ok: "rx_ok ex_rx"
  by (simp add: rx_ok_def ex_rx_def)

lemma ex_pad: "pad_hdr ([0x88, 0x01] @ replicate 30 7) = [0x88, 0x01] @ replicate 32 7"
proof -
  have fc: "frame_fc ([0x88, 0x01] @ replicate 30 7) = 0x188" by (simp add: frame_fc_def le16_def)
  have n: "ath9k_cmn_padpos (0x188 :: u16) = 26"
    by (simp add: ath9k_cmn_padpos_def ieee80211_has_a4_def ieee80211_is_data_qos_def)
  have "replicate 24 7 @ 7 # 7 # replicate 6 (7 :: u8) = replicate 32 7" by (simp add: numeral_eq_Suc)
  then show ?thesis unfolding pad_hdr_def Let_def fc n by (simp add: numeral_2_eq_2)
qed

lemma ex_rx_skb_facts:
  "skb_bytes ex_rx_skb = (replicate 8 0 @ [0, 34, 0, 0, 40] @ replicate 6 0 @ [0xff, 0x1b] @ replicate 19 0)
     @ pad_hdr ([0x88, 0x01] @ replicate 30 7)"
  "rx_skb_ok ex_rx_skb"
  unfolding ex_pad by (simp_all add: ex_rx_skb_def rx_skb_ok_def)

lemma ex_frame_facts:
  "ath9k_cmn_padpos (frame_fc ([0x88, 0x01] @ replicate 30 7)) + 4 \<le> length ([0x88, 0x01] @ replicate 30 (7 :: u8))"
  "rx_check_status IFTYPE_STATION (frame_fc ([0x88, 0x01] @ replicate 30 7)) 0 \<noteq> None"
  by (simp_all add: frame_fc_def le16_def ath9k_cmn_padpos_def ieee80211_has_a4_def ieee80211_is_data_qos_def rx_check_status_def)

lemma ex_hdr_facts:
  fixes hdr :: bytes
  defines "hdr \<equiv> replicate 8 0 @ [0, 34, 0, 0, 40] @ replicate 6 0 @ [0xff, 0x1b] @ replicate 19 0"
  shows "length hdr = 40" and "unat (be16 (hdr ! 8) (hdr ! 9)) = length (pad_hdr ([0x88, 0x01] @ replicate 30 7))" and "hdr ! 10 = 0"
  unfolding ex_pad by (simp_all add: hdr_def nth_append be16_def le16_def)

lemma ex_deliver: "rx_deliver IFTYPE_STATION (skb_bytes ex_rx_skb) = Some ([0x88, 0x01] @ replicate 30 7)"
  unfolding ex_rx_skb_facts(1)
  by (rule deliver_padded) (use ex_hdr_facts ex_frame_facts in \<open>simp_all only: not_False_eq_True\<close>)

definition ex_rx0 :: htc_rx where
  "ex_rx0 = ex_rx\<lparr>rxbuf := replicate 256 zero_rxbuf\<rparr>"

lemma ex_rx0_init: "ath9k_rx_init (\<lambda>_. True) ex_rx = (0, ex_rx0)"
  by (simp add: ath9k_rx_init_def rx_alloc_result ex_rx0_def)

lemma ex_rx0_ring: "ring_ok 256 (rxbuf ex_rx0)" "ring_items (rxbuf ex_rx0) = []" "rx_ok ex_rx0" "rx_opmode ex_rx0 = IFTYPE_STATION"
  using rx_init_ok [OF ex_rx0_init ex_rx_ok] by (simp_all add: ex_rx0_def ex_rx_def)

lemma ex_rx1:
  obtains p1 where "ath9k_htc_rxep ex_rx0 ex_rx_skb = (p1, [])" and "ring_ok 256 (rxbuf p1)" and "ring_items (rxbuf p1) = [ex_rx_skb]"
    and "rx_ok p1" and "rx_opmode p1 = IFTYPE_STATION"
proof -
  obtain p1 where a: "ath9k_htc_rxep ex_rx0 ex_rx_skb = (p1, [])" "same_conf ex_rx0 p1" "ring_ok 256 (rxbuf p1)"
    "ring_items (rxbuf p1) = [ex_rx_skb]"
    using rxep_ok [OF ex_rx0_ring(1), of ex_rx_skb] by (auto simp: ex_rx0_ring(2))
  show thesis by (rule that [OF a(1,3,4)]) (simp_all add: same_confD [OF a(2)] ex_rx0_ring)
qed

text \<open>C13: the receive ring is a first-in first-out queue, under every interleaving. Once \<open>ath9k_rx_init\<close>
  has allocated the buffers, in whatever order frames arrive and the tasklet runs, and although the
  tasklet gives up its lock while mac80211 handles a frame: no access goes wrong, the ring keeps
  its 256 buffers, a frame is refused exactly when all are occupied, and the frames mac80211 has been
  given are exactly the deliverable ones among the accepted frames the tasklet has passed, in the
  order of their arrival and without status header and padding.\<close>

theorem rx_ring_fifo:
  assumes "ath9k_rx_init kz p = (0, p0)" and "rx_ok p" and "rx_step\<^sup>*\<^sup>* (p0, None, [], []) (p', cur, acc, cs)"
  shows "\<exists>seen. acc = seen @ rx_waiting p' cur \<and> delivered cs = deliverable (rx_opmode p) seen \<and>
    length (rxbuf p') = 256 \<and> (cur = None \<longrightarrow> rx_begin p' \<noteq> None) \<and>
    (\<forall>s. snd (ath9k_htc_rxep p' s) = (if length (ring_items (rxbuf p')) < 256 then [] else [Rx_kfree s]))"
proof -
  note init = rx_init_ok [OF assms(1,2)]
  have inv: "rx_inv p0 (p', cur, acc, cs)" by (rule rx_inv_reachable [OF assms(3) init(2-4)])
  then obtain seen where seen: "acc = seen @ rx_waiting p' cur" "delivered cs = deliverable (rx_opmode p) seen"
    using init(1) by (auto simp: same_confD)
  have r: "ring_ok 256 (rxbuf p')" using inv by simp
  have len: "length (rxbuf p') = 256" using r by (simp add: ring_ok_def)
  have "rx_begin p' \<noteq> None" if "cur = None"
  proof (cases "ring_items (rxbuf p')")
    case Nil
    then show ?thesis using rx_begin_idle [OF r] by simp
  next
    case (Cons s ss)
    have "rx_skb_ok s" "rx_ok p'" using inv that Cons init(4) same_confD(2) [of p0 p'] by (simp_all add: rx_waiting_def)
    then show ?thesis using rx_begin_ok [OF r _ Cons] by auto
  qed
  moreover have "snd (ath9k_htc_rxep p' s) = (if length (ring_items (rxbuf p')) < 256 then [] else [Rx_kfree s])" for s
    using rxep_ok [OF r, of s] by auto
  ultimately show ?thesis using seen len by blast
qed

theorem rx_ring_fifo_witness:
  "\<exists>p1 p2 i cs. ath9k_htc_rxep ex_rx0 ex_rx_skb = (p1, []) \<and> rx_begin p1 = Some (p2, Some (i, cs)) \<and>
     delivered cs = [[0x88, 0x01] @ replicate 30 7] \<and> length (rxbuf p2) = 256"
proof -
  obtain p1 where a: "ath9k_htc_rxep ex_rx0 ex_rx_skb = (p1, [])" "ring_ok 256 (rxbuf p1)" "ring_items (rxbuf p1) = [ex_rx_skb]"
    "rx_ok p1" "rx_opmode p1 = IFTYPE_STATION" by (rule ex_rx1)
  obtain p2 cs t where b: "rx_begin p1 = Some (p2, Some (0, cs))" "rxbuf p2 = ring_amend 0 t (rxbuf p1)"
    using rx_begin_ok [OF a(2,4,3) ex_rx_skb_facts(2)] by blast
  have w: "rx_waiting p2 (Some 0) = []" using rr.amend_item [OF a(2), of t] a(3) by (simp add: rx_waiting_def b(2))
  have s1: "rx_step (ex_rx0, None, [], []) (p1, None, [ex_rx_skb], [])"
    using rx_step.Arrive [OF ex_rx_skb_facts(2) a(1), of None "[]" "[]"] by simp
  have s2: "rx_step (p1, None, [ex_rx_skb], []) (p2, Some 0, [ex_rx_skb], cs)"
    using rx_step.Begin [OF b(1), of "[ex_rx_skb]" "[]"] by simp
  have "rx_step\<^sup>*\<^sup>* (ex_rx0, None, [], []) (p2, Some 0, [ex_rx_skb], cs)"
    by (rule converse_rtranclp_into_rtranclp [OF s1 r_into_rtranclp [of rx_step, OF s2]])
  from rx_ring_fifo [OF ex_rx0_init ex_rx_ok this]
  have "delivered cs = deliverable IFTYPE_STATION [ex_rx_skb]" "length (rxbuf p2) = 256"
    unfolding w by (auto simp: ex_rx_def)
  then show ?thesis using a(1) b(1) by (auto simp: ex_deliver)
qed

text \<open>C14: the receive tasklet ends. Run on a ring whose waiting frames are well formed, its loop, which
  tests no counter, returns after one round for each of them; it leaves the ring empty with all its
  buffers and has delivered, in order, exactly the frames it had to.\<close>

theorem rx_tasklet_drains:
  assumes "ring_ok 256 (rxbuf p)" and "rx_ok p" and "\<forall>s \<in> set (ring_items (rxbuf p)). rx_skb_ok s"
  shows "\<exists>p' calls. ath9k_rx_tasklet p = Some (p', calls) \<and> ring_ok 256 (rxbuf p') \<and> ring_items (rxbuf p') = [] \<and>
    delivered calls = deliverable (rx_opmode p) (ring_items (rxbuf p))"
  using rx_tasklet_ok [OF assms] by blast

theorem rx_tasklet_drains_witness:
  "\<exists>p1 p' calls. ath9k_htc_rxep ex_rx0 ex_rx_skb = (p1, []) \<and> ath9k_rx_tasklet p1 = Some (p', calls) \<and>
     delivered calls = [[0x88, 0x01] @ replicate 30 7] \<and> ring_items (rxbuf p') = []"
proof -
  obtain p1 where a: "ath9k_htc_rxep ex_rx0 ex_rx_skb = (p1, [])" "ring_ok 256 (rxbuf p1)" "ring_items (rxbuf p1) = [ex_rx_skb]"
    "rx_ok p1" "rx_opmode p1 = IFTYPE_STATION" by (rule ex_rx1)
  have "\<forall>s \<in> set (ring_items (rxbuf p1)). rx_skb_ok s" using ex_rx_skb_facts(2) by (simp add: a(3))
  from rx_tasklet_drains [OF a(2,4) this] a(1) show ?thesis by (auto simp: a(3,5) ex_deliver)
qed

text \<open>C15: the padding. A frame of at least its header and the frame check sequence, padded after the
  header the way the transmit path (and the hardware) pads, and received behind a status header with the
  right length and an acceptable status, is delivered byte for byte as it was before the padding.\<close>

theorem rx_padding_roundtrip:
  assumes "rx_ok p" and "wf_skb s" and "skb_bytes s = hdr @ pad_hdr f" and "length hdr = 40"
    and "unat (be16 (hdr ! 8) (hdr ! 9)) = length (pad_hdr f)"
    and "rx_check_status (rx_opmode p) (frame_fc f) (hdr ! 10) \<noteq> None"
    and "ath9k_cmn_padpos (frame_fc f) + 4 \<le> length f"
  shows "\<exists>p' t rxs. ath9k_rx_prepare p s = Some (p', t, Some rxs) \<and> skb_bytes t = f"
proof -
  have len: "skb_len s = 40 + length (pad_hdr f)" using arg_cong [OF assms(3), of length] assms(2,4) by simp
  have "length (pad_hdr f) < 2 ^ 16" using assms(5) unsigned_less [of "be16 (hdr ! 8) (hdr ! 9)", where ?'a = nat] by simp
  moreover have "2 \<le> length (pad_hdr f)" using assms(7) padpos_ge [of "frame_fc f"] pad_hdr_length [of f] by linarith
  ultimately have ok: "rx_skb_ok s" using assms(2) len by (simp add: rx_skb_ok_def)
  have "rx_deliver (rx_opmode p) (skb_bytes s) = Some f" unfolding assms(3) by (rule deliver_padded [OF assms(4-7)])
  then show ?thesis using prepare_ok [OF assms(1) ok] by auto
qed

theorem rx_padding_roundtrip_witness:
  "\<exists>p' t rxs. ath9k_rx_prepare ex_rx ex_rx_skb = Some (p', t, Some rxs) \<and> skb_bytes t = [0x88, 0x01] @ replicate 30 7"
proof (rule rx_padding_roundtrip [OF ex_rx_ok _ ex_rx_skb_facts(1) ex_hdr_facts(1,2) _ ex_frame_facts(1)])
  show "wf_skb ex_rx_skb" using ex_rx_skb_facts(2) by (simp add: rx_skb_ok_def)
  have "rx_opmode ex_rx = IFTYPE_STATION" by (simp add: ex_rx_def)
  then show "rx_check_status (rx_opmode ex_rx) (frame_fc ([0x88, 0x01] @ replicate 30 7))
      ((replicate 8 0 @ [0, 34, 0, 0, 40] @ replicate 6 0 @ [0xff, 0x1b] @ replicate 19 0) ! 10) \<noteq> None"
    using ex_frame_facts(2) unfolding ex_hdr_facts(3) by simp
qed

text \<open>The signal strength. While the running average stays between -20 and 127 (times 128), which
  every received frame preserves and the start value satisfies, the signal reported to mac80211 lies
  between the noise floor of -95 dBm and 32 dBm, whatever the target reports.\<close>

theorem rx_signal_bounds:
  assumes "ath9k_rx_prepare p s = Some (p', t, Some rxs)" and "rssi_ok (last_rssi p)"
  shows "rssi_ok (last_rssi p') \<and> - 95 \<le> sint (rx_signal rxs) \<and> sint (rx_signal rxs) \<le> 32"
proof -
  obtain fc st st' where a: "rx_rssi p fc st = (p', st')" "rx_signal rxs = word_of_int (sint (rs_rssi st') - 95)"
    using prepare_signal [OF assms(1)] by blast
  note b = rx_rssi_bounds [OF a(1) assms(2)]
  have "sint (word_of_int (sint (rs_rssi st') - 95) :: u8) = sint (rs_rssi st') - 95"
    unfolding sint_sbintrunc' by (rule signed_take_bit_int_eq_self) (use b(2,3) in simp_all)
  then show ?thesis using b unfolding a(2) by simp
qed

theorem rx_signal_bounds_witness:
  "\<exists>p' t rxs. ath9k_rx_prepare ex_rx ex_rx_skb = Some (p', t, Some rxs) \<and> - 95 \<le> sint (rx_signal rxs) \<and> sint (rx_signal rxs) \<le> 32"
proof -
  have m: "rx_opmode ex_rx = IFTYPE_STATION" by (simp add: ex_rx_def)
  obtain p' t rxs where a: "ath9k_rx_prepare ex_rx ex_rx_skb = Some (p', t, Some rxs)"
    using prepare_ok [OF ex_rx_ok ex_rx_skb_facts(2)] by (auto simp: m ex_deliver)
  have "rssi_ok (last_rssi ex_rx)" by (simp add: rssi_ok_def ex_rx_def)
  from rx_signal_bounds [OF a this] a show ?thesis by blast
qed

end
