(* ===== verification/Ath9k_Mac.thy ===== *)
theory Ath9k_Mac
  imports Ath9k_Common
begin

text \<open>
  The part of the ath9k hardware layer that the USB driver calls to set up transmit queues,
  beacon timers, the TSF, the receive filter and the operating mode (\<open>ath9k/mac.c\<close>,
  \<open>ath9k/hw.c\<close>). The state is the record \<open>ath_hw\<close> (the fields of \<open>struct ath_hw\<close> these functions
  use) and the register channel behind \<open>ah->reg_ops\<close>.

  A run of register accesses between two decisions of the code is a list of \<open>reg_acc\<close>, executed
  by \<open>REG_RUN\<close>. Read-modify-write goes to the device even while writes are buffered, so a
  program is judged on two register files: the device's and the one the driver means. The
  locale \<open>ath_regs_buf\<close> states this for the register operations, \<open>rw_sem\<close> is the reference
  semantics of programs, and the operations \<open>ath9k_htc\<close> installs are shown to follow it.
\<close>

section \<open>Constants\<close>

abbreviation (input) AR_TXCFG :: u32 where "AR_TXCFG \<equiv> 0x0030"
abbreviation (input) AR_TXCFG_ADHOC_BEACON_ATIM_TX_POLICY :: u32 where "AR_TXCFG_ADHOC_BEACON_ATIM_TX_POLICY \<equiv> 0x800"
abbreviation (input) AR_NEXT_TBTT_TIMER :: u32 where "AR_NEXT_TBTT_TIMER \<equiv> 0x8200"
abbreviation (input) AR_NEXT_DMA_BEACON_ALERT :: u32 where "AR_NEXT_DMA_BEACON_ALERT \<equiv> 0x8204"
abbreviation (input) AR_NEXT_SWBA :: u32 where "AR_NEXT_SWBA \<equiv> 0x8208"
abbreviation (input) AR_NEXT_TIM :: u32 where "AR_NEXT_TIM \<equiv> 0x8210"
abbreviation (input) AR_NEXT_DTIM :: u32 where "AR_NEXT_DTIM \<equiv> 0x8214"
abbreviation (input) AR_NEXT_NDP_TIMER :: u32 where "AR_NEXT_NDP_TIMER \<equiv> 0x821c"
abbreviation (input) AR_BEACON_PERIOD :: u32 where "AR_BEACON_PERIOD \<equiv> 0x8220"
abbreviation (input) AR_DMA_BEACON_PERIOD :: u32 where "AR_DMA_BEACON_PERIOD \<equiv> 0x8224"
abbreviation (input) AR_SWBA_PERIOD :: u32 where "AR_SWBA_PERIOD \<equiv> 0x8228"
abbreviation (input) AR_TIM_PERIOD :: u32 where "AR_TIM_PERIOD \<equiv> 0x8230"
abbreviation (input) AR_DTIM_PERIOD :: u32 where "AR_DTIM_PERIOD \<equiv> 0x8234"
abbreviation (input) AR_NDP_PERIOD :: u32 where "AR_NDP_PERIOD \<equiv> 0x823c"
abbreviation (input) AR_TIMER_MODE :: u32 where "AR_TIMER_MODE \<equiv> 0x8240"
abbreviation (input) AR_TBTT_TIMER_EN :: u32 where "AR_TBTT_TIMER_EN \<equiv> 1"
abbreviation (input) AR_DBA_TIMER_EN :: u32 where "AR_DBA_TIMER_EN \<equiv> 2"
abbreviation (input) AR_SWBA_TIMER_EN :: u32 where "AR_SWBA_TIMER_EN \<equiv> 4"
abbreviation (input) AR_TIM_TIMER_EN :: u32 where "AR_TIM_TIMER_EN \<equiv> 0x10"
abbreviation (input) AR_DTIM_TIMER_EN :: u32 where "AR_DTIM_TIMER_EN \<equiv> 0x20"
abbreviation (input) AR_NDP_TIMER_EN :: u32 where "AR_NDP_TIMER_EN \<equiv> 0x80"
abbreviation (input) AR_RSSI_THR :: u32 where "AR_RSSI_THR \<equiv> 0x8018"
abbreviation (input) AR_RSSI_THR_BM_THR :: u32 where "AR_RSSI_THR_BM_THR \<equiv> 0xFF00"
abbreviation (input) SLEEP_SLOP :: u32 where "SLEEP_SLOP \<equiv> 3"
abbreviation (input) CAB_TIMEOUT_VAL :: u32 where "CAB_TIMEOUT_VAL \<equiv> 10"
abbreviation (input) BEACON_TIMEOUT_VAL :: u32 where "BEACON_TIMEOUT_VAL \<equiv> 10"
abbreviation (input) MIN_BEACON_TIMEOUT_VAL :: u32 where "MIN_BEACON_TIMEOUT_VAL \<equiv> 1"
abbreviation (input) AR_SLEEP1 :: u32 where "AR_SLEEP1 \<equiv> 0x80d4"
abbreviation (input) AR_SLEEP1_CAB_TIMEOUT :: u32 where "AR_SLEEP1_CAB_TIMEOUT \<equiv> 0xFFE00000"
abbreviation (input) AR_SLEEP1_ASSUME_DTIM :: u32 where "AR_SLEEP1_ASSUME_DTIM \<equiv> 0x80000"
abbreviation (input) AR_SLEEP2 :: u32 where "AR_SLEEP2 \<equiv> 0x80d8"
abbreviation (input) AR_SLEEP2_BEACON_TIMEOUT :: u32 where "AR_SLEEP2_BEACON_TIMEOUT \<equiv> 0xFFE00000"
abbreviation (input) ATH9K_HW_CAP_AUTOSLEEP :: u32 where "ATH9K_HW_CAP_AUTOSLEEP \<equiv> 4"
abbreviation (input) ATH9K_HW_CAP_EDMA :: u32 where "ATH9K_HW_CAP_EDMA \<equiv> 16"
abbreviation (input) AR_TSFOOR_THRESHOLD :: u32 where "AR_TSFOOR_THRESHOLD \<equiv> 0x813c"
abbreviation (input) AR_TSF_L32 :: u32 where "AR_TSF_L32 \<equiv> 0x804c"
abbreviation (input) AR_TSF_U32 :: u32 where "AR_TSF_U32 \<equiv> 0x8050"
abbreviation (input) AR_SLP32_MODE :: u32 where "AR_SLP32_MODE \<equiv> 0x8244"
abbreviation (input) AR_SLP32_TSF_WRITE_STATUS :: u32 where "AR_SLP32_TSF_WRITE_STATUS \<equiv> 0x200000"
abbreviation (input) AR_RESET_TSF :: u32 where "AR_RESET_TSF \<equiv> 0x8020"
abbreviation (input) AR_RESET_TSF_ONCE :: u32 where "AR_RESET_TSF_ONCE \<equiv> 0x01000000"
abbreviation (input) AR_RX_FILTER :: u32 where "AR_RX_FILTER \<equiv> 0x803C"
abbreviation (input) AR_PHY_ERR :: u32 where "AR_PHY_ERR \<equiv> 0x810c"
abbreviation (input) AR_PHY_ERR_RADAR :: u32 where "AR_PHY_ERR_RADAR \<equiv> 0x20"
abbreviation (input) AR_PHY_ERR_OFDM_TIMING :: u32 where "AR_PHY_ERR_OFDM_TIMING \<equiv> 0x20000"
abbreviation (input) AR_PHY_ERR_CCK_TIMING :: u32 where "AR_PHY_ERR_CCK_TIMING \<equiv> 0x02000000"
abbreviation (input) AR_RXCFG :: u32 where "AR_RXCFG \<equiv> 0x0034"
abbreviation (input) AR_RXCFG_ZLFDMA :: u32 where "AR_RXCFG_ZLFDMA \<equiv> 0x10"
abbreviation (input) AR_MCAST_FIL0 :: u32 where "AR_MCAST_FIL0 \<equiv> 0x8040"
abbreviation (input) AR_MCAST_FIL1 :: u32 where "AR_MCAST_FIL1 \<equiv> 0x8044"
abbreviation (input) AR_IMR_S0 :: u32 where "AR_IMR_S0 \<equiv> 0x00a4"
abbreviation (input) AR_IMR_S1 :: u32 where "AR_IMR_S1 \<equiv> 0x00a8"
abbreviation (input) AR_IMR_S2 :: u32 where "AR_IMR_S2 \<equiv> 0x00ac"
abbreviation (input) AR_IMR_S2_QCU_TXURN :: u32 where "AR_IMR_S2_QCU_TXURN \<equiv> 0x3FF"
abbreviation (input) AR_DIAG_SW :: u32 where "AR_DIAG_SW \<equiv> 0x8048"
abbreviation (input) AR_DIAG_RX_DIS :: u32 where "AR_DIAG_RX_DIS \<equiv> 0x20"
abbreviation (input) AR_DIAG_RX_ABORT :: u32 where "AR_DIAG_RX_ABORT \<equiv> 0x02000000"
abbreviation (input) AR_OBS_BUS_1 :: u32 where "AR_OBS_BUS_1 \<equiv> 0x806c"
abbreviation (input) AR_OBS_BUS_1_RX_STATE :: u32 where "AR_OBS_BUS_1_RX_STATE \<equiv> 0x01F00000"
abbreviation (input) AR_MACMISC :: u32 where "AR_MACMISC \<equiv> 0x0058"
abbreviation (input) AR_CR :: u32 where "AR_CR \<equiv> 0x0008"
abbreviation (input) AR_CR_RXD :: u32 where "AR_CR_RXD \<equiv> 0x20"
abbreviation (input) AR_DMADBG_7 :: u32 where "AR_DMADBG_7 \<equiv> 0x00fc"
abbreviation (input) AR_Q_DESC_CRCCHK :: u32 where "AR_Q_DESC_CRCCHK \<equiv> 0x0a44"
abbreviation (input) AR_Q_DESC_CRCCHK_EN :: u32 where "AR_Q_DESC_CRCCHK_EN \<equiv> 1"
abbreviation (input) AR_Q_MISC_FSP_CBR :: u32 where "AR_Q_MISC_FSP_CBR \<equiv> 1"
abbreviation (input) AR_Q_MISC_FSP_DBA_GATED :: u32 where "AR_Q_MISC_FSP_DBA_GATED \<equiv> 2"
abbreviation (input) AR_Q_MISC_CBR_INCR_DIS1 :: u32 where "AR_Q_MISC_CBR_INCR_DIS1 \<equiv> 0x20"
abbreviation (input) AR_Q_MISC_CBR_INCR_DIS0 :: u32 where "AR_Q_MISC_CBR_INCR_DIS0 \<equiv> 0x40"
abbreviation (input) AR_Q_MISC_BEACON_USE :: u32 where "AR_Q_MISC_BEACON_USE \<equiv> 0x80"
abbreviation (input) AR_Q_MISC_CBR_EXP_CNTR_LIMIT_EN :: u32 where "AR_Q_MISC_CBR_EXP_CNTR_LIMIT_EN \<equiv> 0x100"
abbreviation (input) AR_Q_MISC_RDYTIME_EXP_POLICY :: u32 where "AR_Q_MISC_RDYTIME_EXP_POLICY \<equiv> 0x200"
abbreviation (input) AR_Q_MISC_DCU_EARLY_TERM_REQ :: u32 where "AR_Q_MISC_DCU_EARLY_TERM_REQ \<equiv> 0x800"
abbreviation (input) AR_Q_RDYTIMECFG_EN :: u32 where "AR_Q_RDYTIMECFG_EN \<equiv> 0x01000000"
abbreviation (input) AR_D_MISC_FRAG_WAIT_EN :: u32 where "AR_D_MISC_FRAG_WAIT_EN \<equiv> 0x100"
abbreviation (input) AR_D_MISC_FRAG_BKOFF_EN :: u32 where "AR_D_MISC_FRAG_BKOFF_EN \<equiv> 0x200"
abbreviation (input) AR_D_MISC_CW_BKOFF_EN :: u32 where "AR_D_MISC_CW_BKOFF_EN \<equiv> 0x1000"
abbreviation (input) AR_D_MISC_BEACON_USE :: u32 where "AR_D_MISC_BEACON_USE \<equiv> 0x10000"
abbreviation (input) AR_D_MISC_ARB_LOCKOUT_CNTRL_GLOBAL :: u32 where "AR_D_MISC_ARB_LOCKOUT_CNTRL_GLOBAL \<equiv> 2"
abbreviation (input) AR_D_MISC_ARB_LOCKOUT_CNTRL :: u32 where "AR_D_MISC_ARB_LOCKOUT_CNTRL \<equiv> 0x60000"
abbreviation (input) AR_D_MISC_POST_FR_BKOFF_DIS :: u32 where "AR_D_MISC_POST_FR_BKOFF_DIS \<equiv> 0x200000"
abbreviation (input) AR_D_CHNTIME_EN :: u32 where "AR_D_CHNTIME_EN \<equiv> 0x100000"
abbreviation (input) ATH9K_TXQ_USEDEFAULT :: u32 where "ATH9K_TXQ_USEDEFAULT \<equiv> 0xffffffff"
abbreviation (input) ATH9K_TXQ_USE_LOCKOUT_BKOFF_DIS :: u32 where "ATH9K_TXQ_USE_LOCKOUT_BKOFF_DIS \<equiv> 1"
abbreviation (input) TXQ_FLAG_TXINT_ENABLE :: u32 where "TXQ_FLAG_TXINT_ENABLE \<equiv> 1"
abbreviation (input) TXQ_FLAG_TXDESCINT_ENABLE :: u32 where "TXQ_FLAG_TXDESCINT_ENABLE \<equiv> 2"
abbreviation (input) TXQ_FLAG_TXEOLINT_ENABLE :: u32 where "TXQ_FLAG_TXEOLINT_ENABLE \<equiv> 4"
abbreviation (input) TXQ_FLAG_TXURNINT_ENABLE :: u32 where "TXQ_FLAG_TXURNINT_ENABLE \<equiv> 8"
abbreviation (input) TXQ_FLAG_BACKOFF_DISABLE :: u32 where "TXQ_FLAG_BACKOFF_DISABLE \<equiv> 0x10"
abbreviation (input) TXQ_FLAG_RDYTIME_EXP_POLICY_ENABLE :: u32 where "TXQ_FLAG_RDYTIME_EXP_POLICY_ENABLE \<equiv> 0x40"
abbreviation (input) TXQ_FLAG_FRAG_BURST_BACKOFF_ENABLE :: u32 where "TXQ_FLAG_FRAG_BURST_BACKOFF_ENABLE \<equiv> 0x80"
abbreviation (input) INIT_AIFS :: u32 where "INIT_AIFS \<equiv> 2"
abbreviation (input) INIT_CWMIN :: u32 where "INIT_CWMIN \<equiv> 15"
abbreviation (input) INIT_CWMIN_11B :: u32 where "INIT_CWMIN_11B \<equiv> 31"
abbreviation (input) INIT_CWMAX :: u32 where "INIT_CWMAX \<equiv> 1023"
abbreviation (input) INIT_SSH_RETRY :: u32 where "INIT_SSH_RETRY \<equiv> 32"
abbreviation (input) INIT_SLG_RETRY :: u32 where "INIT_SLG_RETRY \<equiv> 32"
abbreviation (input) ATH9K_RX_FILTER_PHYERR :: u32 where "ATH9K_RX_FILTER_PHYERR \<equiv> 0x100"
abbreviation (input) ATH9K_RX_FILTER_PHYRADAR :: u32 where "ATH9K_RX_FILTER_PHYRADAR \<equiv> 0x2000"
abbreviation (input) ATH9K_RX_FILTER_CONTROL_WRAPPER :: u32 where "ATH9K_RX_FILTER_CONTROL_WRAPPER \<equiv> 0x80000"
abbreviation (input) AR_STA_ID1 :: u32 where "AR_STA_ID1 \<equiv> 0x8004"
abbreviation (input) AR_STA_ID1_STA_AP :: u32 where "AR_STA_ID1_STA_AP \<equiv> 0x00010000"
abbreviation (input) AR_STA_ID1_ADHOC :: u32 where "AR_STA_ID1_ADHOC \<equiv> 0x00020000"
abbreviation (input) AR_STA_ID1_KSRCH_MODE :: u32 where "AR_STA_ID1_KSRCH_MODE \<equiv> 0x10000000"
abbreviation (input) AR_CFG :: u32 where "AR_CFG \<equiv> 0x0014"
abbreviation (input) AR_CFG_AP_ADHOC_INDICATION :: u32 where "AR_CFG_AP_ADHOC_INDICATION \<equiv> 0x20"
abbreviation (input) AR_PCU_TX_ADD_TSF :: u32 where "AR_PCU_TX_ADD_TSF \<equiv> 8"
abbreviation (input) AR_BSS_ID0 :: u32 where "AR_BSS_ID0 \<equiv> 0x8008"
abbreviation (input) AR_BSS_ID1 :: u32 where "AR_BSS_ID1 \<equiv> 0x800C"
abbreviation (input) CHANNEL_B :: u32 where "CHANNEL_B \<equiv> 0x000a0"
abbreviation (input) ATH9K_NUM_TX_QUEUES :: nat where "ATH9K_NUM_TX_QUEUES \<equiv> 10"
abbreviation (input) ATH9K_WME_UPSD :: int where "ATH9K_WME_UPSD \<equiv> 4"
abbreviation (input) INIT_SH_RETRY :: u16 where "INIT_SH_RETRY \<equiv> 10"
abbreviation (input) INIT_LG_RETRY :: u16 where "INIT_LG_RETRY \<equiv> 10"
abbreviation (input) AH_TIME_QUANTUM :: nat where "AH_TIME_QUANTUM \<equiv> 10"
abbreviation (input) AH_WAIT_TIMEOUT :: nat where "AH_WAIT_TIMEOUT \<equiv> 100000"
abbreviation (input) AH_TSF_WRITE_TIMEOUT :: nat where "AH_TSF_WRITE_TIMEOUT \<equiv> 100"
abbreviation (input) AH_RX_STOP_DMA_TIMEOUT :: nat where "AH_RX_STOP_DMA_TIMEOUT \<equiv> 10000"
abbreviation (input) ATH9K_MAX_TSF_READ :: nat where "ATH9K_MAX_TSF_READ \<equiv> 10"

definition queue_reg :: "u32 \<Rightarrow> nat \<Rightarrow> u32" where
  \<comment> \<open>\<open>AR_DLCL_IFS(q)\<close>, \<open>AR_QMISC(q)\<close> and the other per-queue registers: base plus \<open>q << 2\<close>\<close>
  "queue_reg b q = b + push_bit 2 (word_of_nat q)"

abbreviation (input) AR_QCBRCFG :: "nat \<Rightarrow> u32" where "AR_QCBRCFG \<equiv> queue_reg 0x08c0"
abbreviation (input) AR_QRDYTIMECFG :: "nat \<Rightarrow> u32" where "AR_QRDYTIMECFG \<equiv> queue_reg 0x0900"
abbreviation (input) AR_QMISC :: "nat \<Rightarrow> u32" where "AR_QMISC \<equiv> queue_reg 0x09c0"
abbreviation (input) AR_DLCL_IFS :: "nat \<Rightarrow> u32" where "AR_DLCL_IFS \<equiv> queue_reg 0x1040"
abbreviation (input) AR_DRETRY_LIMIT :: "nat \<Rightarrow> u32" where "AR_DRETRY_LIMIT \<equiv> queue_reg 0x1080"
abbreviation (input) AR_DCHNTIME :: "nat \<Rightarrow> u32" where "AR_DCHNTIME \<equiv> queue_reg 0x10c0"
abbreviation (input) AR_DMISC :: "nat \<Rightarrow> u32" where "AR_DMISC \<equiv> queue_reg 0x1100"

definition SM :: "u32 \<Rightarrow> u32 \<Rightarrow> nat \<Rightarrow> u32" where
  \<comment> \<open>\<open>SM(v, f)\<close>: shift into the field and mask\<close>
  "SM v f f_S = push_bit f_S v AND f"

definition TU_TO_USEC :: "u32 \<Rightarrow> u32" where
  "TU_TO_USEC x = push_bit 10 x"

section \<open>Data\<close>

datatype ath9k_tx_queue = TX_QUEUE_INACTIVE | TX_QUEUE_DATA | TX_QUEUE_BEACON | TX_QUEUE_CAB
  | TX_QUEUE_UAPSD | TX_QUEUE_PSPOLL

record ath9k_tx_queue_info =
  tqi_ver :: u32
  tqi_type :: ath9k_tx_queue
  tqi_subtype :: int
  tqi_qflags :: u32
  tqi_priority :: u32
  tqi_aifs :: u32
  tqi_cwmin :: u32
  tqi_cwmax :: u32
  tqi_shretry :: u16
  tqi_lgretry :: u16
  tqi_cbrPeriod :: u32
  tqi_cbrOverflowLimit :: u32
  tqi_burstTime :: u32
  tqi_readyTime :: u32
  tqi_physCompBuf :: u32
  tqi_intFlags :: u32

record ath_hw =
  opmode :: nl80211_iftype
  macVersion :: u32
  hw_caps :: u32
  curchan :: "ath9k_channel option"
  is_monitoring :: bool
  txq :: "ath9k_tx_queue_info list"
  imrs2_reg :: u32
  txok_interrupt_mask :: u32
  txerr_interrupt_mask :: u32
  txdesc_interrupt_mask :: u32
  txeol_interrupt_mask :: u32
  txurn_interrupt_mask :: u32
  atim_window :: u32
  misc_mode :: u32
  slottime :: u32
  dma_beacon_response_time :: int
  sw_beacon_response_time :: int
  additional_swba_backoff :: int
  curbssid :: bytes
  curaid :: u16

record ath9k_beacon_state =
  bs_nexttbtt :: u32
  bs_nextdtim :: u32
  bs_intval :: u32
  bs_dtimperiod :: u32
  bs_cfpperiod :: u16
  bs_cfpmaxduration :: u16
  bs_cfpnext :: u32
  bs_timoffset :: u16
  bs_bmissthreshold :: u16
  bs_sleepduration :: u32
  bs_tsfoor_threshold :: u32

definition qi_zero :: ath9k_tx_queue_info where
  \<comment> \<open>\<open>memset(&qi, 0, sizeof(qi))\<close>\<close>
  "qi_zero = \<lparr>tqi_ver = 0, tqi_type = TX_QUEUE_INACTIVE, tqi_subtype = 0, tqi_qflags = 0, tqi_priority = 0,
     tqi_aifs = 0, tqi_cwmin = 0, tqi_cwmax = 0, tqi_shretry = 0, tqi_lgretry = 0, tqi_cbrPeriod = 0,
     tqi_cbrOverflowLimit = 0, tqi_burstTime = 0, tqi_readyTime = 0, tqi_physCompBuf = 0, tqi_intFlags = 0\<rparr>"

definition AR_SREV_9340 :: "ath_hw \<Rightarrow> bool" where
  "AR_SREV_9340 ah \<longleftrightarrow> macVersion ah = 0x300"

definition AR_SREV_9300_20_OR_LATER :: "ath_hw \<Rightarrow> bool" where
  "AR_SREV_9300_20_OR_LATER ah \<longleftrightarrow> 0x1c0 \<le> macVersion ah"

definition AR_SREV_9462 :: "ath_hw \<Rightarrow> bool" where
  "AR_SREV_9462 ah \<longleftrightarrow> macVersion ah = 0x280"

definition AR_SREV_9565 :: "ath_hw \<Rightarrow> bool" where
  "AR_SREV_9565 ah \<longleftrightarrow> macVersion ah = 0x2C0"

definition AR_CR_RXE :: "ath_hw \<Rightarrow> u32" where
  "AR_CR_RXE ah = (if AR_SREV_9300_20_OR_LATER ah then 0x0000000c else 0x00000004)"

section \<open>Register accesses\<close>

datatype reg_acc =
    REG_WRITE u32 u32
  | REG_RMW u32 u32 u32
  | ENABLE_BUFFER
  | BUFFER_FLUSH

definition REG_SET_BIT :: "u32 \<Rightarrow> u32 \<Rightarrow> reg_acc" where
  "REG_SET_BIT r f = REG_RMW r f 0"

definition REG_CLR_BIT :: "u32 \<Rightarrow> u32 \<Rightarrow> reg_acc" where
  "REG_CLR_BIT r f = REG_RMW r 0 f"

definition REG_RMW_FIELD :: "u32 \<Rightarrow> u32 \<Rightarrow> nat \<Rightarrow> u32 \<Rightarrow> reg_acc" where
  "REG_RMW_FIELD r f f_S v = REG_RMW r (push_bit f_S v AND f) f"

fun REG_RUN :: "'s ath_ops \<Rightarrow> reg_acc list \<Rightarrow> 's \<Rightarrow> 's option" where
  "REG_RUN ops [] s = Some s"
| "REG_RUN ops (REG_WRITE r v # ps) s = op_write ops v r s \<bind> REG_RUN ops ps"
| "REG_RUN ops (REG_RMW r sv clr # ps) s = op_rmw ops r sv clr s \<bind> (\<lambda>(v, s). REG_RUN ops ps s)"
| "REG_RUN ops (ENABLE_BUFFER # ps) s = ENABLE_REGWRITE_BUFFER ops s \<bind> REG_RUN ops ps"
| "REG_RUN ops (BUFFER_FLUSH # ps) s = REGWRITE_BUFFER_FLUSH ops s \<bind> REG_RUN ops ps"

section \<open>Transmit queues (\<open>mac.c\<close>)\<close>

definition txq_at :: "ath_hw \<Rightarrow> int \<Rightarrow> ath9k_tx_queue_info option" where
  \<comment> \<open>\<open>&ah->txq[q]\<close>\<close>
  "txq_at ah q = (if 0 \<le> q \<and> q < int (length (txq ah)) then Some (txq ah ! nat q) else None)"

definition set_txq :: "int \<Rightarrow> ath9k_tx_queue_info \<Rightarrow> ath_hw \<Rightarrow> ath_hw" where
  "set_txq q qi ah = ah\<lparr>txq := (txq ah)[nat q := qi]\<rparr>"

definition ath9k_hw_set_txq_interrupts :: "'s ath_ops \<Rightarrow> ath_hw \<Rightarrow> 's \<Rightarrow> (ath_hw \<times> 's) option" where
  "ath9k_hw_set_txq_interrupts ops ah s = do {
     let ah' = ah\<lparr>imrs2_reg := (imrs2_reg ah AND NOT AR_IMR_S2_QCU_TXURN)
                              OR (txurn_interrupt_mask ah AND AR_IMR_S2_QCU_TXURN)\<rparr>;
     s \<leftarrow> REG_RUN ops
       [ENABLE_BUFFER,
        REG_WRITE AR_IMR_S0 (SM (txok_interrupt_mask ah) 0x3FF 0 OR SM (txdesc_interrupt_mask ah) 0x03FF0000 16),
        REG_WRITE AR_IMR_S1 (SM (txerr_interrupt_mask ah) 0x3FF 0 OR SM (txeol_interrupt_mask ah) 0x03FF0000 16),
        REG_WRITE AR_IMR_S2 (imrs2_reg ah'),
        BUFFER_FLUSH] s;
     Some (ah', s) }"

partial_function (option) cw_up :: "u32 \<Rightarrow> u32 \<Rightarrow> u32 option" where
  \<comment> \<open>the loop \<open>while (cwmin < cw) cwmin = (cwmin << 1) | 1\<close>\<close>
  [code]: "cw_up x cw = (if x < cw then cw_up (push_bit 1 x OR 1) cw else Some x)"

definition ath9k_hw_set_txq_props ::
  "ath_hw \<Rightarrow> int \<Rightarrow> ath9k_tx_queue_info \<Rightarrow> (bool \<times> ath_hw) option" where
  "ath9k_hw_set_txq_props ah q qinfo = do {
     qi \<leftarrow> txq_at ah q;
     if tqi_type qi = TX_QUEUE_INACTIVE then Some (False, ah)
     else do {
       cwmin \<leftarrow> (if tqi_cwmin qinfo \<noteq> ATH9K_TXQ_USEDEFAULT then cw_up 1 (min (tqi_cwmin qinfo) 1024)
                else Some (tqi_cwmin qinfo));
       cwmax \<leftarrow> (if tqi_cwmax qinfo \<noteq> ATH9K_TXQ_USEDEFAULT then cw_up 1 (min (tqi_cwmax qinfo) 1024)
                else Some INIT_CWMAX);
       Some (True, set_txq q (qi\<lparr>
         tqi_ver := tqi_ver qinfo,
         tqi_subtype := tqi_subtype qinfo,
         tqi_qflags := tqi_qflags qinfo,
         tqi_priority := tqi_priority qinfo,
         tqi_aifs := (if tqi_aifs qinfo \<noteq> ATH9K_TXQ_USEDEFAULT then min (tqi_aifs qinfo) 255 else INIT_AIFS),
         tqi_cwmin := cwmin,
         tqi_cwmax := cwmax,
         tqi_shretry := (if tqi_shretry qinfo \<noteq> 0 then min (tqi_shretry qinfo) 15 else INIT_SH_RETRY),
         tqi_lgretry := (if tqi_lgretry qinfo \<noteq> 0 then min (tqi_lgretry qinfo) 15 else INIT_LG_RETRY),
         tqi_cbrPeriod := tqi_cbrPeriod qinfo,
         tqi_cbrOverflowLimit := tqi_cbrOverflowLimit qinfo,
         tqi_burstTime := tqi_burstTime qinfo,
         tqi_readyTime := tqi_readyTime qinfo,
         tqi_intFlags := (if tqi_subtype qinfo = ATH9K_WME_UPSD \<and> tqi_type qi = TX_QUEUE_DATA
                          then ATH9K_TXQ_USE_LOCKOUT_BKOFF_DIS else tqi_intFlags qi)\<rparr>) ah) } }"

definition ath9k_hw_get_txq_props ::
  "ath_hw \<Rightarrow> int \<Rightarrow> ath9k_tx_queue_info \<Rightarrow> (bool \<times> ath9k_tx_queue_info) option" where
  \<comment> \<open>the second component is \<open>*qinfo\<close> afterwards\<close>
  "ath9k_hw_get_txq_props ah q qinfo = do {
     qi \<leftarrow> txq_at ah q;
     if tqi_type qi = TX_QUEUE_INACTIVE then Some (False, qinfo)
     else Some (True, qinfo\<lparr>
       tqi_qflags := tqi_qflags qi,
       tqi_ver := tqi_ver qi,
       tqi_subtype := tqi_subtype qi,
       tqi_priority := tqi_priority qi,
       tqi_aifs := tqi_aifs qi,
       tqi_cwmin := tqi_cwmin qi,
       tqi_cwmax := tqi_cwmax qi,
       tqi_shretry := tqi_shretry qi,
       tqi_lgretry := tqi_lgretry qi,
       tqi_cbrPeriod := tqi_cbrPeriod qi,
       tqi_cbrOverflowLimit := tqi_cbrOverflowLimit qi,
       tqi_burstTime := tqi_burstTime qi,
       tqi_readyTime := tqi_readyTime qi\<rparr>) }"

fun first_inactive :: "ath9k_tx_queue_info list \<Rightarrow> nat" where
  \<comment> \<open>the search loop; the length of the list when there is none\<close>
  "first_inactive [] = 0"
| "first_inactive (qi # qs) = (if tqi_type qi = TX_QUEUE_INACTIVE then 0 else Suc (first_inactive qs))"

definition txq_number :: "ath_hw \<Rightarrow> ath9k_tx_queue \<Rightarrow> int" where
  \<comment> \<open>the \<open>switch (type)\<close> of \<open>ath9k_hw_setuptxqueue\<close>\<close>
  "txq_number ah type = (case type of
       TX_QUEUE_BEACON \<Rightarrow> int ATH9K_NUM_TX_QUEUES - 1
     | TX_QUEUE_CAB \<Rightarrow> int ATH9K_NUM_TX_QUEUES - 2
     | TX_QUEUE_PSPOLL \<Rightarrow> 1
     | TX_QUEUE_UAPSD \<Rightarrow> int ATH9K_NUM_TX_QUEUES - 3
     | TX_QUEUE_DATA \<Rightarrow>
         (let q = first_inactive (take ATH9K_NUM_TX_QUEUES (txq ah)) in
          if q = ATH9K_NUM_TX_QUEUES then -1 else int q)
     | TX_QUEUE_INACTIVE \<Rightarrow> -1)"

definition ath9k_hw_setuptxqueue ::
  "ath_hw \<Rightarrow> ath9k_tx_queue \<Rightarrow> ath9k_tx_queue_info \<Rightarrow> (int \<times> ath_hw) option" where
  "ath9k_hw_setuptxqueue ah type qinfo =
     (let q = txq_number ah type in
      if q = -1 then Some (-1, ah)
      else do {
        qi \<leftarrow> txq_at ah q;
        if tqi_type qi \<noteq> TX_QUEUE_INACTIVE then Some (-1, ah)
        else do {
          let ah = set_txq q (qi_zero\<lparr>tqi_type := type, tqi_physCompBuf := tqi_physCompBuf qinfo\<rparr>) ah;
          (r, ah) \<leftarrow> ath9k_hw_set_txq_props ah q qinfo;
          Some (q, ah) } })"

definition ath9k_hw_clear_queue_interrupts :: "nat \<Rightarrow> ath_hw \<Rightarrow> ath_hw" where
  "ath9k_hw_clear_queue_interrupts q ah =
     (let m = NOT (push_bit q 1) in
      ah\<lparr>txok_interrupt_mask := txok_interrupt_mask ah AND m,
         txerr_interrupt_mask := txerr_interrupt_mask ah AND m,
         txdesc_interrupt_mask := txdesc_interrupt_mask ah AND m,
         txeol_interrupt_mask := txeol_interrupt_mask ah AND m,
         txurn_interrupt_mask := txurn_interrupt_mask ah AND m\<rparr>)"

definition ath9k_hw_releasetxqueue :: "'s ath_ops \<Rightarrow> nat \<Rightarrow> ath_hw \<Rightarrow> 's \<Rightarrow> (bool \<times> ath_hw \<times> 's) option" where
  "ath9k_hw_releasetxqueue ops q ah s = do {
     qi \<leftarrow> txq_at ah (int q);
     if tqi_type qi = TX_QUEUE_INACTIVE then Some (False, ah, s)
     else do {
       let ah = set_txq (int q) (qi\<lparr>tqi_type := TX_QUEUE_INACTIVE\<rparr>) ah;
       (ah, s) \<leftarrow> ath9k_hw_set_txq_interrupts ops (ath9k_hw_clear_queue_interrupts q ah) s;
       Some (True, ah, s) } }"

definition reset_cwmin :: "ath_hw \<Rightarrow> ath9k_tx_queue_info \<Rightarrow> u32 option" where
  "reset_cwmin ah qi =
     (if tqi_cwmin qi = ATH9K_TXQ_USEDEFAULT then
        (let chanCwMin = (case curchan ah of
             Some chan \<Rightarrow> if chanmode chan = CHANNEL_B then INIT_CWMIN_11B else INIT_CWMIN
           | None \<Rightarrow> INIT_CWMIN)
         in cw_up 1 chanCwMin)
      else Some (tqi_cwmin qi))"

definition lcl_ifs :: "u32 \<Rightarrow> u32 \<Rightarrow> u32 \<Rightarrow> u32" where
  "lcl_ifs cwmin cwmax aifs = SM cwmin 0x3FF 0 OR SM cwmax 0xFFC00 10 OR SM aifs 0x0FF00000 20"

definition reset_common :: "ath_hw \<Rightarrow> ath9k_tx_queue_info \<Rightarrow> nat \<Rightarrow> u32 \<Rightarrow> reg_acc list" where
  \<comment> \<open>the first block of \<open>ath9k_hw_resettxqueue\<close>, up to the \<open>switch\<close>\<close>
  "reset_common ah qi q cwMin =
     [ENABLE_BUFFER,
      REG_WRITE (AR_DLCL_IFS q) (lcl_ifs cwMin (tqi_cwmax qi) (tqi_aifs qi)),
      REG_WRITE (AR_DRETRY_LIMIT q)
        (SM INIT_SSH_RETRY 0x3F00 8 OR SM INIT_SLG_RETRY 0xFC000 14 OR SM (ucast (tqi_shretry qi)) 0xF 0),
      REG_WRITE (AR_QMISC q) AR_Q_MISC_DCU_EARLY_TERM_REQ,
      REG_WRITE (AR_DMISC q)
        (AR_D_MISC_CW_BKOFF_EN OR AR_D_MISC_FRAG_WAIT_EN OR (if AR_SREV_9340 ah then 0x1 else 0x2))]
     @ (if tqi_cbrPeriod qi \<noteq> 0 then
          [REG_WRITE (AR_QCBRCFG q)
             (SM (tqi_cbrPeriod qi) 0x00FFFFFF 0 OR SM (tqi_cbrOverflowLimit qi) 0xFF000000 24),
           REG_SET_BIT (AR_QMISC q) (AR_Q_MISC_FSP_CBR OR
             (if tqi_cbrOverflowLimit qi \<noteq> 0 then AR_Q_MISC_CBR_EXP_CNTR_LIMIT_EN else 0))]
        else [])
     @ (if tqi_readyTime qi \<noteq> 0 \<and> tqi_type qi \<noteq> TX_QUEUE_CAB then
          [REG_WRITE (AR_QRDYTIMECFG q) (SM (tqi_readyTime qi) 0x00FFFFFF 0 OR AR_Q_RDYTIMECFG_EN)]
        else [])
     @ [REG_WRITE (AR_DCHNTIME q)
          (SM (tqi_burstTime qi) 0xFFFFF 0 OR (if tqi_burstTime qi \<noteq> 0 then AR_D_CHNTIME_EN else 0))]
     @ (if tqi_burstTime qi \<noteq> 0 \<and> has_flag (tqi_qflags qi) TXQ_FLAG_RDYTIME_EXP_POLICY_ENABLE then
          [REG_SET_BIT (AR_QMISC q) AR_Q_MISC_RDYTIME_EXP_POLICY] else [])
     @ (if has_flag (tqi_qflags qi) TXQ_FLAG_BACKOFF_DISABLE then
          [REG_SET_BIT (AR_DMISC q) AR_D_MISC_POST_FR_BKOFF_DIS] else [])
     @ [BUFFER_FLUSH]
     @ (if has_flag (tqi_qflags qi) TXQ_FLAG_FRAG_BURST_BACKOFF_ENABLE then
          [REG_SET_BIT (AR_DMISC q) AR_D_MISC_FRAG_BKOFF_EN] else [])"

definition reset_by_type :: "ath_hw \<Rightarrow> ath9k_tx_queue_info \<Rightarrow> nat \<Rightarrow> reg_acc list" where
  \<comment> \<open>the \<open>switch (qi->tqi_type)\<close> of \<open>ath9k_hw_resettxqueue\<close>\<close>
  "reset_by_type ah qi q = (case tqi_type qi of
       TX_QUEUE_BEACON \<Rightarrow>
         [ENABLE_BUFFER,
          REG_SET_BIT (AR_QMISC q) (AR_Q_MISC_FSP_DBA_GATED OR AR_Q_MISC_BEACON_USE OR AR_Q_MISC_CBR_INCR_DIS1),
          REG_SET_BIT (AR_DMISC q) (push_bit 17 AR_D_MISC_ARB_LOCKOUT_CNTRL_GLOBAL OR AR_D_MISC_BEACON_USE
            OR AR_D_MISC_POST_FR_BKOFF_DIS),
          BUFFER_FLUSH]
         @ (if AR_SREV_9300_20_OR_LATER ah \<and> opmode ah \<noteq> IFTYPE_ADHOC then
              [REG_WRITE (AR_DLCL_IFS q) (lcl_ifs 0 0 (tqi_aifs qi))] else [])
     | TX_QUEUE_CAB \<Rightarrow>
         (let v = (tqi_readyTime qi
                   - word_of_int (sw_beacon_response_time ah - dma_beacon_response_time ah)
                   - word_of_int (additional_swba_backoff ah)) * 1024 in
          [ENABLE_BUFFER,
           REG_SET_BIT (AR_QMISC q) (AR_Q_MISC_FSP_DBA_GATED OR AR_Q_MISC_CBR_INCR_DIS1 OR AR_Q_MISC_CBR_INCR_DIS0),
           REG_WRITE (AR_QRDYTIMECFG q) (v OR AR_Q_RDYTIMECFG_EN),
           REG_SET_BIT (AR_DMISC q) (push_bit 17 AR_D_MISC_ARB_LOCKOUT_CNTRL_GLOBAL),
           BUFFER_FLUSH])
     | TX_QUEUE_PSPOLL \<Rightarrow> [REG_SET_BIT (AR_QMISC q) AR_Q_MISC_CBR_INCR_DIS1]
     | TX_QUEUE_UAPSD \<Rightarrow> [REG_SET_BIT (AR_DMISC q) AR_D_MISC_POST_FR_BKOFF_DIS]
     | _ \<Rightarrow> [])"

definition reset_tail :: "ath_hw \<Rightarrow> ath9k_tx_queue_info \<Rightarrow> nat \<Rightarrow> reg_acc list" where
  "reset_tail ah qi q =
     (if has_flag (tqi_intFlags qi) ATH9K_TXQ_USE_LOCKOUT_BKOFF_DIS then
        [REG_SET_BIT (AR_DMISC q) (SM AR_D_MISC_ARB_LOCKOUT_CNTRL_GLOBAL AR_D_MISC_ARB_LOCKOUT_CNTRL 17
           OR AR_D_MISC_POST_FR_BKOFF_DIS)] else [])
     @ (if AR_SREV_9300_20_OR_LATER ah then [REG_WRITE AR_Q_DESC_CRCCHK AR_Q_DESC_CRCCHK_EN] else [])"

definition set_queue_interrupts :: "ath9k_tx_queue_info \<Rightarrow> nat \<Rightarrow> ath_hw \<Rightarrow> ath_hw" where
  \<comment> \<open>the four interrupt masks set at the end of \<open>ath9k_hw_resettxqueue\<close>\<close>
  "set_queue_interrupts qi q ah =
     (let on = (\<lambda>f m. if has_flag (tqi_qflags qi) f then m OR push_bit q 1 else m) in
      ah\<lparr>txok_interrupt_mask := on TXQ_FLAG_TXINT_ENABLE (txok_interrupt_mask ah),
         txerr_interrupt_mask := on TXQ_FLAG_TXINT_ENABLE (txerr_interrupt_mask ah),
         txdesc_interrupt_mask := on TXQ_FLAG_TXDESCINT_ENABLE (txdesc_interrupt_mask ah),
         txeol_interrupt_mask := on TXQ_FLAG_TXEOLINT_ENABLE (txeol_interrupt_mask ah),
         txurn_interrupt_mask := on TXQ_FLAG_TXURNINT_ENABLE (txurn_interrupt_mask ah)\<rparr>)"

definition ath9k_hw_resettxqueue :: "'s ath_ops \<Rightarrow> nat \<Rightarrow> ath_hw \<Rightarrow> 's \<Rightarrow> (bool \<times> ath_hw \<times> 's) option" where
  "ath9k_hw_resettxqueue ops q ah s = do {
     qi \<leftarrow> txq_at ah (int q);
     if tqi_type qi = TX_QUEUE_INACTIVE then Some (True, ah, s)
     else do {
       cwMin \<leftarrow> reset_cwmin ah qi;
       s \<leftarrow> REG_RUN ops (reset_common ah qi q cwMin) s;
       s \<leftarrow> REG_RUN ops (reset_by_type ah qi q) s;
       s \<leftarrow> REG_RUN ops (reset_tail ah qi q) s;
       let ah = set_queue_interrupts qi q (ath9k_hw_clear_queue_interrupts q ah);
       (ah, s) \<leftarrow> ath9k_hw_set_txq_interrupts ops ah s;
       Some (True, ah, s) } }"

definition ath9k_hw_beaconq_setup :: "ath_hw \<Rightarrow> (int \<times> ath_hw) option" where
  "ath9k_hw_beaconq_setup ah =
     (let qi = qi_zero\<lparr>tqi_aifs := 1, tqi_cwmin := 0, tqi_cwmax := 0\<rparr>;
          qi = (if has_flag (hw_caps ah) ATH9K_HW_CAP_EDMA then qi\<lparr>tqi_qflags := TXQ_FLAG_TXINT_ENABLE\<rparr> else qi)
      in ath9k_hw_setuptxqueue ah TX_QUEUE_BEACON qi)"

section \<open>Polling, time and beacon timers (\<open>hw.c\<close>, \<open>mac.c\<close>)\<close>

fun hw_wait_loop :: "'s ath_ops \<Rightarrow> u32 \<Rightarrow> u32 \<Rightarrow> u32 \<Rightarrow> nat \<Rightarrow> 's \<Rightarrow> (bool \<times> 's) option" where
  "hw_wait_loop ops reg msk val 0 s = do { (v, s) \<leftarrow> op_read ops reg s; Some (False, s) }"
| "hw_wait_loop ops reg msk val (Suc n) s = do {
     (v, s) \<leftarrow> op_read ops reg s;
     if v AND msk = val then Some (True, s) else hw_wait_loop ops reg msk val n s }"

definition ath9k_hw_wait :: "'s ath_ops \<Rightarrow> u32 \<Rightarrow> u32 \<Rightarrow> u32 \<Rightarrow> nat \<Rightarrow> 's \<Rightarrow> (bool \<times> 's) option" where
  \<comment> \<open>\<open>BUG_ON\<close> for a timeout below the quantum; on expiry the debug message reads the register again\<close>
  "ath9k_hw_wait ops reg msk val timeout s =
     (if timeout < AH_TIME_QUANTUM then None
      else hw_wait_loop ops reg msk val (timeout div AH_TIME_QUANTUM) s)"

fun tsf_loop :: "'s ath_ops \<Rightarrow> nat \<Rightarrow> u32 \<Rightarrow> u32 \<Rightarrow> 's \<Rightarrow> (bool \<times> u32 \<times> u32 \<times> 's) option" where
  \<comment> \<open>the loop of \<open>ath9k_hw_gettsf64\<close>: whether it ended by \<open>break\<close>, \<open>tsf_upper1\<close> and \<open>tsf_lower\<close>\<close>
  "tsf_loop ops 0 upper1 lower s = Some (False, upper1, lower, s)"
| "tsf_loop ops (Suc n) upper1 lower s = do {
     (lower, s) \<leftarrow> op_read ops AR_TSF_L32 s;
     (upper2, s) \<leftarrow> op_read ops AR_TSF_U32 s;
     if upper2 = upper1 then Some (True, upper1, lower, s)
     else tsf_loop ops n upper2 lower s }"

definition ath9k_hw_gettsf64 :: "'s ath_ops \<Rightarrow> 's \<Rightarrow> (u64 \<times> 's) option" where
  "ath9k_hw_gettsf64 ops s = do {
     (upper1, s) \<leftarrow> op_read ops AR_TSF_U32 s;
     (stable, upper1, lower, s) \<leftarrow> tsf_loop ops ATH9K_MAX_TSF_READ upper1 0 s;
     Some (push_bit 32 (ucast upper1) OR ucast lower, s) }"

definition ath9k_hw_settsf64 :: "'s ath_ops \<Rightarrow> u64 \<Rightarrow> 's \<Rightarrow> 's option" where
  "ath9k_hw_settsf64 ops tsf64 s =
     REG_RUN ops [REG_WRITE AR_TSF_L32 (ucast (tsf64 AND 0xffffffff)),
                  REG_WRITE AR_TSF_U32 (ucast (drop_bit 32 tsf64 AND 0xffffffff))] s"

definition ath9k_hw_reset_tsf :: "'s ath_ops \<Rightarrow> 's \<Rightarrow> 's option" where
  "ath9k_hw_reset_tsf ops s = do {
     (r, s) \<leftarrow> ath9k_hw_wait ops AR_SLP32_MODE AR_SLP32_TSF_WRITE_STATUS 0 AH_TSF_WRITE_TIMEOUT s;
     REG_RUN ops [REG_WRITE AR_RESET_TSF AR_RESET_TSF_ONCE] s }"

definition beacon_alerts :: "ath_hw \<Rightarrow> u32 \<Rightarrow> reg_acc list" where
  \<comment> \<open>the statements of the case \<open>NL80211_IFTYPE_AP\<close>\<close>
  "beacon_alerts ah next_beacon =
     [REG_WRITE AR_NEXT_TBTT_TIMER next_beacon,
      REG_WRITE AR_NEXT_DMA_BEACON_ALERT (next_beacon - TU_TO_USEC (word_of_int (dma_beacon_response_time ah))),
      REG_WRITE AR_NEXT_SWBA (next_beacon - TU_TO_USEC (word_of_int (sw_beacon_response_time ah)))]"

definition beacon_periods :: "u32 \<Rightarrow> reg_acc list" where
  "beacon_periods beacon_period =
     [REG_WRITE AR_BEACON_PERIOD beacon_period,
      REG_WRITE AR_DMA_BEACON_PERIOD beacon_period,
      REG_WRITE AR_SWBA_PERIOD beacon_period,
      REG_WRITE AR_NDP_PERIOD beacon_period,
      BUFFER_FLUSH]"

definition ath9k_hw_beaconinit :: "'s ath_ops \<Rightarrow> ath_hw \<Rightarrow> u32 \<Rightarrow> u32 \<Rightarrow> 's \<Rightarrow> 's option" where
  \<comment> \<open>the unsupported modes return with the write buffer enabled\<close>
  "ath9k_hw_beaconinit ops ah next_beacon beacon_period s =
     (let flags = AR_TBTT_TIMER_EN OR AR_DBA_TIMER_EN OR AR_SWBA_TIMER_EN in
      if opmode ah = IFTYPE_ADHOC \<or> opmode ah = IFTYPE_MESH_POINT then
        REG_RUN ops
          ([ENABLE_BUFFER,
            REG_SET_BIT AR_TXCFG AR_TXCFG_ADHOC_BEACON_ATIM_TX_POLICY,
            REG_WRITE AR_NEXT_NDP_TIMER
              (next_beacon + TU_TO_USEC (if atim_window ah \<noteq> 0 then atim_window ah else 1))]
           @ beacon_alerts ah next_beacon @ beacon_periods beacon_period
           @ [REG_SET_BIT AR_TIMER_MODE (AR_NDP_TIMER_EN OR flags)]) s
      else if opmode ah = IFTYPE_AP then
        REG_RUN ops
          ([ENABLE_BUFFER] @ beacon_alerts ah next_beacon @ beacon_periods beacon_period
           @ [REG_SET_BIT AR_TIMER_MODE flags]) s
      else REG_RUN ops [ENABLE_BUFFER] s)"

definition ath9k_hw_set_sta_beacon_timers :: "'s ath_ops \<Rightarrow> ath_hw \<Rightarrow> ath9k_beacon_state \<Rightarrow> 's \<Rightarrow> 's option" where
  "ath9k_hw_set_sta_beacon_timers ops ah bs s =
     (let beaconintval = (if bs_intval bs < bs_sleepduration bs then bs_sleepduration bs else bs_intval bs);
          dtimperiod = (if bs_dtimperiod bs < bs_sleepduration bs then bs_sleepduration bs else bs_dtimperiod bs);
          nextTbtt = (if beaconintval = dtimperiod then bs_nextdtim bs else bs_nexttbtt bs);
          beacontimeout = (if has_flag (hw_caps ah) ATH9K_HW_CAP_AUTOSLEEP then push_bit 3 BEACON_TIMEOUT_VAL
                           else MIN_BEACON_TIMEOUT_VAL)
      in REG_RUN ops
        [ENABLE_BUFFER,
         REG_WRITE AR_NEXT_TBTT_TIMER (TU_TO_USEC (bs_nexttbtt bs)),
         REG_WRITE AR_BEACON_PERIOD (TU_TO_USEC (bs_intval bs)),
         REG_WRITE AR_DMA_BEACON_PERIOD (TU_TO_USEC (bs_intval bs)),
         BUFFER_FLUSH,
         REG_RMW_FIELD AR_RSSI_THR AR_RSSI_THR_BM_THR 8 (ucast (bs_bmissthreshold bs)),
         ENABLE_BUFFER,
         REG_WRITE AR_NEXT_DTIM (TU_TO_USEC (bs_nextdtim bs - SLEEP_SLOP)),
         REG_WRITE AR_NEXT_TIM (TU_TO_USEC (nextTbtt - SLEEP_SLOP)),
         REG_WRITE AR_SLEEP1 (SM (push_bit 3 CAB_TIMEOUT_VAL) AR_SLEEP1_CAB_TIMEOUT 21 OR AR_SLEEP1_ASSUME_DTIM),
         REG_WRITE AR_SLEEP2 (SM beacontimeout AR_SLEEP2_BEACON_TIMEOUT 21),
         REG_WRITE AR_TIM_PERIOD (TU_TO_USEC beaconintval),
         REG_WRITE AR_DTIM_PERIOD (TU_TO_USEC dtimperiod),
         BUFFER_FLUSH,
         REG_SET_BIT AR_TIMER_MODE (AR_TBTT_TIMER_EN OR AR_TIM_TIMER_EN OR AR_DTIM_TIMER_EN),
         REG_WRITE AR_TSFOOR_THRESHOLD (bs_tsfoor_threshold bs)] s)"

section \<open>Receive filter and operating mode (\<open>hw.c\<close>, \<open>mac.c\<close>, \<open>ar9002_mac.c\<close>)\<close>

definition ath9k_hw_getrxfilter :: "'s ath_ops \<Rightarrow> 's \<Rightarrow> (u32 \<times> 's) option" where
  "ath9k_hw_getrxfilter ops s = do {
     (bits, s) \<leftarrow> op_read ops AR_RX_FILTER s;
     (phybits, s) \<leftarrow> op_read ops AR_PHY_ERR s;
     let bits = (if has_flag phybits AR_PHY_ERR_RADAR then bits OR ATH9K_RX_FILTER_PHYRADAR else bits);
     let bits = (if has_flag phybits (AR_PHY_ERR_OFDM_TIMING OR AR_PHY_ERR_CCK_TIMING)
                 then bits OR ATH9K_RX_FILTER_PHYERR else bits);
     Some (bits, s) }"

definition ath9k_hw_setrxfilter :: "'s ath_ops \<Rightarrow> ath_hw \<Rightarrow> u32 \<Rightarrow> 's \<Rightarrow> 's option" where
  "ath9k_hw_setrxfilter ops ah bits s =
     (let bits = (if AR_SREV_9462 ah \<or> AR_SREV_9565 ah then bits OR ATH9K_RX_FILTER_CONTROL_WRAPPER else bits);
          phybits = (if has_flag bits ATH9K_RX_FILTER_PHYRADAR then AR_PHY_ERR_RADAR else 0);
          phybits = (if has_flag bits ATH9K_RX_FILTER_PHYERR
                     then phybits OR AR_PHY_ERR_OFDM_TIMING OR AR_PHY_ERR_CCK_TIMING else phybits)
      in REG_RUN ops
        [ENABLE_BUFFER,
         REG_WRITE AR_RX_FILTER bits,
         REG_WRITE AR_PHY_ERR phybits,
         (if phybits \<noteq> 0 then REG_SET_BIT AR_RXCFG AR_RXCFG_ZLFDMA else REG_CLR_BIT AR_RXCFG AR_RXCFG_ZLFDMA),
         BUFFER_FLUSH] s)"

definition ath9k_hw_setmcastfilter :: "'s ath_ops \<Rightarrow> u32 \<Rightarrow> u32 \<Rightarrow> 's \<Rightarrow> 's option" where
  "ath9k_hw_setmcastfilter ops filter0 filter1 s =
     REG_RUN ops [REG_WRITE AR_MCAST_FIL0 filter0, REG_WRITE AR_MCAST_FIL1 filter1] s"

definition ar9002_hw_rx_enable :: "'s ath_ops \<Rightarrow> ath_hw \<Rightarrow> 's \<Rightarrow> 's option" where
  "ar9002_hw_rx_enable ops ah s = REG_RUN ops [REG_WRITE AR_CR (AR_CR_RXE ah)] s"

definition ath9k_hw_setrxabort :: "'s ath_ops \<Rightarrow> bool \<Rightarrow> 's \<Rightarrow> (bool \<times> 's) option" where
  "ath9k_hw_setrxabort ops set_it s =
     (if set_it then do {
        s \<leftarrow> REG_RUN ops [REG_SET_BIT AR_DIAG_SW (AR_DIAG_RX_DIS OR AR_DIAG_RX_ABORT)] s;
        (idle, s) \<leftarrow> ath9k_hw_wait ops AR_OBS_BUS_1 AR_OBS_BUS_1_RX_STATE 0 AH_WAIT_TIMEOUT s;
        if \<not> idle then do {
          s \<leftarrow> REG_RUN ops [REG_CLR_BIT AR_DIAG_SW (AR_DIAG_RX_DIS OR AR_DIAG_RX_ABORT)] s;
          (reg, s) \<leftarrow> op_read ops AR_OBS_BUS_1 s;
          Some (False, s) }
        else Some (True, s) }
      else do {
        s \<leftarrow> REG_RUN ops [REG_CLR_BIT AR_DIAG_SW (AR_DIAG_RX_DIS OR AR_DIAG_RX_ABORT)] s;
        Some (True, s) })"

fun stop_dma_loop :: "'s ath_ops \<Rightarrow> ath_hw \<Rightarrow> nat \<Rightarrow> u32 \<Rightarrow> bool \<Rightarrow> 's \<Rightarrow> (bool \<times> bool \<times> 's) option" where
  \<comment> \<open>whether \<open>i\<close> is not 0 at the end, and \<open>*reset\<close>\<close>
  "stop_dma_loop ops ah 0 last_mac_status reset s = Some (False, reset, s)"
| "stop_dma_loop ops ah (Suc i) last_mac_status reset s = do {
     (cr, s) \<leftarrow> op_read ops AR_CR s;
     if cr AND AR_CR_RXE ah = 0 then Some (True, reset, s)
     else if \<not> AR_SREV_9300_20_OR_LATER ah then do {
       (dbg, s) \<leftarrow> op_read ops AR_DMADBG_7 s;
       let mac_status = dbg AND 0x7f0;
       if mac_status = 0x1c0 \<and> mac_status = last_mac_status then Some (True, True, s)
       else stop_dma_loop ops ah i mac_status reset s }
     else stop_dma_loop ops ah i last_mac_status reset s }"

definition ath9k_hw_stopdmarecv :: "'s ath_ops \<Rightarrow> ath_hw \<Rightarrow> bool \<Rightarrow> 's \<Rightarrow> (bool \<times> bool \<times> 's) option" where
  \<comment> \<open>the result and \<open>*reset\<close>; after the timeout the error message reads three registers\<close>
  "ath9k_hw_stopdmarecv ops ah reset s = do {
     s \<leftarrow> REG_RUN ops [REG_WRITE AR_MACMISC (push_bit 5 8 OR push_bit 15 1), REG_WRITE AR_CR AR_CR_RXD] s;
     (ok, reset, s) \<leftarrow> stop_dma_loop ops ah (AH_RX_STOP_DMA_TIMEOUT div AH_TIME_QUANTUM) 0 reset s;
     if \<not> ok then do {
       (a, s) \<leftarrow> op_read ops AR_CR s;
       (b, s) \<leftarrow> op_read ops AR_DIAG_SW s;
       (c, s) \<leftarrow> op_read ops AR_DMADBG_7 s;
       Some (False, reset, s) }
     else Some (True, reset, s) }"

definition ath9k_hw_set_operating_mode :: "'s ath_ops \<Rightarrow> ath_hw \<Rightarrow> nl80211_iftype \<Rightarrow> 's \<Rightarrow> 's option" where
  "ath9k_hw_set_operating_mode ops ah mode s =
     (let msk = AR_STA_ID1_STA_AP OR AR_STA_ID1_ADHOC; ksrch = AR_STA_ID1_KSRCH_MODE in
      if mode = IFTYPE_ADHOC \<or> mode = IFTYPE_MESH_POINT then
        REG_RUN ops [REG_SET_BIT AR_CFG AR_CFG_AP_ADHOC_INDICATION,
                     REG_RMW AR_STA_ID1 (ksrch OR AR_STA_ID1_ADHOC) msk] s
      else if mode = IFTYPE_AP then
        REG_RUN ops [REG_CLR_BIT AR_CFG AR_CFG_AP_ADHOC_INDICATION,
                     REG_RMW AR_STA_ID1 (ksrch OR AR_STA_ID1_STA_AP) msk] s
      else if mode = IFTYPE_STATION then
        REG_RUN ops [REG_CLR_BIT AR_CFG AR_CFG_AP_ADHOC_INDICATION, REG_RMW AR_STA_ID1 ksrch msk] s
      else REG_RUN ops [REG_RMW AR_STA_ID1 (if is_monitoring ah then ksrch else 0) msk] s)"

definition ath9k_hw_setopmode :: "'s ath_ops \<Rightarrow> ath_hw \<Rightarrow> 's \<Rightarrow> 's option" where
  "ath9k_hw_setopmode ops ah s = ath9k_hw_set_operating_mode ops ah (opmode ah) s"

definition ath9k_hw_set_tsfadjust :: "bool \<Rightarrow> ath_hw \<Rightarrow> ath_hw" where
  "ath9k_hw_set_tsfadjust set_it ah =
     ah\<lparr>misc_mode := (if set_it then misc_mode ah OR AR_PCU_TX_ADD_TSF
                      else misc_mode ah AND NOT AR_PCU_TX_ADD_TSF)\<rparr>"

definition ath9k_hw_write_associd :: "'s ath_ops \<Rightarrow> ath_hw \<Rightarrow> 's \<Rightarrow> 's option" where
  "ath9k_hw_write_associd ops ah s = do {
     lo \<leftarrow> get_le32 (curbssid ah) 0;
     hi \<leftarrow> get_le16 (curbssid ah) 4;
     REG_RUN ops [REG_WRITE AR_BSS_ID0 lo,
                  REG_WRITE AR_BSS_ID1 (ucast hi OR push_bit 16 (ucast (curaid ah AND 0x3fff)))] s }"

section \<open>Meaning of register programs\<close>

fun rw_sem :: "reg_acc list \<Rightarrow> nat \<Rightarrow> (u32 \<Rightarrow> u32) \<Rightarrow> (u32 \<Rightarrow> u32) \<Rightarrow> nat \<times> (u32 \<Rightarrow> u32) \<times> (u32 \<Rightarrow> u32)" where
  \<comment> \<open>buffering depth, the device's registers and the registers the driver means\<close>
  "rw_sem [] n d m = (n, d, m)"
| "rw_sem (REG_WRITE r v # ps) n d m = rw_sem ps n (if n = 0 then d(r := v) else d) (m(r := v))"
| "rw_sem (REG_RMW r sv clr # ps) n d m =
     (let v = (d r AND NOT clr) OR sv in rw_sem ps n (if n = 0 then d(r := v) else d) (m(r := v)))"
| "rw_sem (ENABLE_BUFFER # ps) n d m = rw_sem ps (Suc n) d m"
| "rw_sem (BUFFER_FLUSH # ps) n d m = rw_sem ps (n - 1) m m"

fun rw_direct :: "reg_acc list \<Rightarrow> (u32 \<Rightarrow> u32) \<Rightarrow> u32 \<Rightarrow> u32" where
  \<comment> \<open>the same program when every access goes to the device at once\<close>
  "rw_direct [] m = m"
| "rw_direct (REG_WRITE r v # ps) m = rw_direct ps (m(r := v))"
| "rw_direct (REG_RMW r sv clr # ps) m = rw_direct ps (m(r := (m r AND NOT clr) OR sv))"
| "rw_direct (ENABLE_BUFFER # ps) m = rw_direct ps m"
| "rw_direct (BUFFER_FLUSH # ps) m = rw_direct ps m"

fun acc_ok :: "nat \<Rightarrow> reg_acc list \<Rightarrow> bool" where
  \<comment> \<open>every flush has its enable\<close>
  "acc_ok n [] = True"
| "acc_ok n (ENABLE_BUFFER # ps) = acc_ok (Suc n) ps"
| "acc_ok n (BUFFER_FLUSH # ps) = (0 < n \<and> acc_ok (n - 1) ps)"
| "acc_ok n (p # ps) = acc_ok n ps"

fun no_stale :: "nat \<Rightarrow> u32 set \<Rightarrow> reg_acc list \<Rightarrow> bool" where
  \<comment> \<open>no read-modify-write of a register whose last write is still in the buffer\<close>
  "no_stale n P [] = True"
| "no_stale n P (REG_WRITE r v # ps) = no_stale n (if n = 0 then P else insert r P) ps"
| "no_stale n P (REG_RMW r sv clr # ps) = (r \<notin> P \<and> no_stale n (if n = 0 then P else insert r P) ps)"
| "no_stale n P (ENABLE_BUFFER # ps) = no_stale (Suc n) P ps"
| "no_stale n P (BUFFER_FLUSH # ps) = no_stale (n - 1) {} ps"

fun acc_depth :: "nat \<Rightarrow> reg_acc list \<Rightarrow> nat" where
  "acc_depth n [] = n"
| "acc_depth n (ENABLE_BUFFER # ps) = acc_depth (Suc n) ps"
| "acc_depth n (BUFFER_FLUSH # ps) = acc_depth (n - 1) ps"
| "acc_depth n (p # ps) = acc_depth n ps"

lemma rw_sem_depth: "fst (rw_sem ps n d m) = acc_depth n ps"
  by (induction ps n d m rule: rw_sem.induct) (simp_all add: Let_def del: fun_upd_apply)

lemma rw_sem_direct:
  assumes "no_stale n P ps" and "\<forall>r. r \<notin> P \<longrightarrow> d r = m r" and "n = 0 \<longrightarrow> P = {}"
  shows "snd (snd (rw_sem ps n d m)) = rw_direct ps m"
  using assms
proof (induction ps n d m arbitrary: P rule: rw_sem.induct)
  case (2 r v ps n d m)
  then show ?case by (cases "n = 0") fastforce+
next
  case (3 r sv clr ps n d m)
  then have e: "d r = m r" by simp
  show ?case using 3 by (cases "n = 0") (fastforce simp: Let_def e)+
qed simp_all

lemma REG_RUN_append: "REG_RUN ops (ps @ qs) s = REG_RUN ops ps s \<bind> REG_RUN ops qs"
  by (induction ops ps s rule: REG_RUN.induct) (auto split: bind_splits)

lemmas reg_macros = REG_SET_BIT_def REG_CLR_BIT_def REG_RMW_FIELD_def

locale ath_regs_buf = ath_regs ops ok depth mem
  for ops :: "'s ath_ops" and ok depth mem +
  fixes dev :: "'s \<Rightarrow> u32 \<Rightarrow> u32"
    and room :: "'s \<Rightarrow> nat"
    and cap :: nat
  assumes dev_mem: "ok s \<Longrightarrow> depth s = 0 \<Longrightarrow> dev s = mem s"
    and room_idle: "ok s \<Longrightarrow> depth s = 0 \<Longrightarrow> room s = cap"
    and write_dev: "ok s \<Longrightarrow> 0 < depth s \<Longrightarrow> 1 < room s \<Longrightarrow> op_write ops v r s = Some s' \<Longrightarrow>
      dev s' = dev s \<and> room s' = room s - 1"
    and rmw_op: "ok s \<Longrightarrow> \<exists>s1. op_rmw ops r sv clr s
        = map_option (\<lambda>s'. ((dev s r AND NOT clr) OR sv, s')) (op_write ops ((dev s r AND NOT clr) OR sv) r s1) \<and>
      ok s1 \<and> depth s1 = depth s \<and> mem s1 = mem s \<and> dev s1 = dev s \<and> room s1 = room s"
    and enable_dev: "ok s \<Longrightarrow> ENABLE_REGWRITE_BUFFER ops s = Some s' \<Longrightarrow> dev s' = dev s \<and> room s' = room s"
    and flush_dev: "ok s \<Longrightarrow> 0 < depth s \<Longrightarrow> REGWRITE_BUFFER_FLUSH ops s = Some s' \<Longrightarrow>
      dev s' = mem s \<and> room s \<le> room s'"
begin

lemma write_step:
  assumes "ok s" and "1 < room s"
  obtains s' where "op_write ops v r s = Some s'" and "ok s'" and "depth s' = depth s"
    and "mem s' = (mem s)(r := v)" and "dev s' = (if depth s = 0 then (dev s)(r := v) else dev s)"
    and "room s - 1 \<le> room s'"
proof -
  obtain s' where a: "op_write ops v r s = Some s'" "ok s'" "depth s' = depth s" "mem s' = (mem s)(r := v)"
    using write_op [OF assms(1)] by blast
  show thesis
  proof (cases "depth s = 0")
    case True
    then show ?thesis
      using that [OF a] a(3,4) dev_mem [OF assms(1)] dev_mem [OF a(2)] room_idle [OF assms(1)] room_idle [OF a(2)]
      by simp
  next
    case False
    then show ?thesis using that [OF a] write_dev [OF assms(1) _ assms(2) a(1)] by simp
  qed
qed

lemma run_sem:
  assumes "ok s" and "length ps < room s" and "acc_ok (depth s) ps"
  shows "\<exists>s'. REG_RUN ops ps s = Some s' \<and> ok s' \<and> (depth s', dev s', mem s') = rw_sem ps (depth s) (dev s) (mem s)"
  using assms
proof (induction ps arbitrary: s)
  case (Cons p ps)
  show ?case
  proof (cases p)
    case (REG_WRITE r v)
    obtain s' where a: "op_write ops v r s = Some s'" "ok s'" "depth s' = depth s" "mem s' = (mem s)(r := v)"
      "dev s' = (if depth s = 0 then (dev s)(r := v) else dev s)" "room s - 1 \<le> room s'"
      by (rule write_step [OF Cons.prems(1)]) (use Cons.prems(2) in auto)
    show ?thesis
      using Cons.IH [OF a(2)] a Cons.prems(2,3) by (simp add: REG_WRITE del: fun_upd_apply)
  next
    case (REG_RMW r sv clr)
    define v where "v = (dev s r AND NOT clr) OR sv"
    obtain s1 where b: "op_rmw ops r sv clr s = map_option (\<lambda>s'. (v, s')) (op_write ops v r s1)"
      "ok s1" "depth s1 = depth s" "mem s1 = mem s" "dev s1 = dev s" "room s1 = room s"
      unfolding v_def using rmw_op [OF Cons.prems(1)] by blast
    obtain s' where a: "op_write ops v r s1 = Some s'" "ok s'" "depth s' = depth s1" "mem s' = (mem s1)(r := v)"
      "dev s' = (if depth s1 = 0 then (dev s1)(r := v) else dev s1)" "room s1 - 1 \<le> room s'"
      by (rule write_step [OF b(2)]) (use Cons.prems(2) b(6) in auto)
    note a' = a [unfolded b(3-6)]
    show ?thesis
      using Cons.IH [OF a(2)] a' b(1) Cons.prems(2,3) by (simp add: REG_RMW v_def [symmetric] del: fun_upd_apply)
  next
    case ENABLE_BUFFER
    obtain s' where a: "ENABLE_REGWRITE_BUFFER ops s = Some s'" "ok s'" "depth s' = Suc (depth s)" "mem s' = mem s"
      using enable_op [OF Cons.prems(1)] by blast
    show ?thesis
      using Cons.IH [OF a(2)] a enable_dev [OF Cons.prems(1) a(1)] Cons.prems(2,3) by (simp add: ENABLE_BUFFER)
  next
    case BUFFER_FLUSH
    then obtain n where n: "depth s = Suc n" using Cons.prems(3) by (cases "depth s") auto
    obtain s' where a: "REGWRITE_BUFFER_FLUSH ops s = Some s'" "ok s'" "depth s' = n" "mem s' = mem s"
      using flush_op [OF Cons.prems(1) n] by blast
    show ?thesis
      using Cons.IH [OF a(2)] a flush_dev [OF Cons.prems(1) _ a(1)] Cons.prems(2,3) n
      by (simp add: BUFFER_FLUSH)
  qed
qed simp

text \<open>A program that starts and ends unbuffered and meets no stale register acts as written.\<close>

lemma run_direct:
  assumes "ok s" and "depth s = 0" and "length ps < cap" and "acc_ok 0 ps" and "no_stale 0 {} ps"
    and "acc_depth 0 ps = 0"
  obtains s' where "REG_RUN ops ps s = Some s'" and "ok s'" and "depth s' = 0" and "mem s' = rw_direct ps (mem s)"
proof -
  have d: "dev s = mem s" "room s = cap" using dev_mem room_idle assms(1,2) by auto
  obtain s' where a: "REG_RUN ops ps s = Some s'" "ok s'" "(depth s', dev s', mem s') = rw_sem ps 0 (mem s) (mem s)"
    using run_sem [OF assms(1), of ps] assms(2-4) by (auto simp: d)
  have "mem s' = rw_direct ps (mem s)"
    using rw_sem_direct [OF assms(5), of "mem s" "mem s"] a(3) [symmetric] by simp
  moreover have "depth s' = 0"
    using rw_sem_depth [of ps 0 "mem s" "mem s"] assms(6) a(3) [symmetric] by simp
  ultimately show thesis using that a by blast
qed

end

definition htc_ops_room :: "wmi \<times> 's \<Rightarrow> nat" where
  "htc_ops_room s = 62 - multi_write_idx (fst s)"

definition htc_ops_dev :: "('d \<Rightarrow> u32 \<Rightarrow> u32) \<Rightarrow> wmi \<times> htc_target \<times> hif_device_usb \<times> 'd \<Rightarrow> u32 \<Rightarrow> u32" where
  "htc_ops_dev regs s = stack_regs regs (snd s)"


interpretation hb: ath_regs_buf "htc_ops (wmi_stack env alloc fw) junk" "htc_ops_ok env alloc fw regs junk"
  htc_ops_depth "htc_ops_mem regs" "htc_ops_dev regs" htc_ops_room 62 for env alloc fw regs junk
proof unfold_locales
  fix s :: "wmi \<times> htc_target \<times> hif_device_usb \<times> 'a"
  assume a: "htc_ops_ok env alloc fw regs junk s" and d: "htc_ops_depth s = 0"
  show "htc_ops_dev regs s = htc_ops_mem regs s"
    using htc_ops_mem_device [OF a d] by (simp add: htc_ops_dev_def)
  show "htc_ops_room s = 62"
    using a d by (simp add: htc_ops_room_def htc_ops_ok_def buf_inv_def htc_ops_depth_def)
next
  fix s s' :: "wmi \<times> htc_target \<times> hif_device_usb \<times> 'a" and v r
  assume a: "htc_ops_ok env alloc fw regs junk s" and d: "0 < htc_ops_depth s" and m: "1 < htc_ops_room s"
    and w: "op_write (htc_ops (wmi_stack env alloc fw) junk) v r s = Some s'"
  obtain w x where s: "s = (w, x)" by (cases s)
  have "multi_write_idx w < length (multi_write w)" "mwrite_cnt w \<noteq> 0" "Suc (multi_write_idx w) \<noteq> 62"
    using a d m by (auto simp: s htc_ops_ok_def buf_inv_def htc_ops_depth_def htc_ops_room_def)
  then have "s' = (w\<lparr>multi_write := (multi_write w)[multi_write_idx w := (r, v)],
                      multi_write_idx := multi_write_idx w + 1\<rparr>, x)"
    using w by (simp add: s htc_ops_def ath9k_regwrite_def ath9k_regwrite_buffer_def)
  then show "htc_ops_dev regs s' = htc_ops_dev regs s \<and> htc_ops_room s' = htc_ops_room s - 1"
    by (simp add: s htc_ops_dev_def htc_ops_room_def)
next
  fix s :: "wmi \<times> htc_target \<times> hif_device_usb \<times> 'a" and r sv clr
  assume a: "htc_ops_ok env alloc fw regs junk s"
  obtain w x where s: "s = (w, x)" by (cases s)
  have a': "wmi_stack_ready env alloc fw regs w x" "length junk = 4" "buf_inv w"
    using a by (simp_all add: s htc_ops_ok_def)
  obtain w1 x1 where b: "ath9k_regread (wmi_stack env alloc fw) junk r w x = Some (stack_regs regs x r, w1, x1)"
    "wmi_stack_ready env alloc fw regs w1 x1" "stack_regs regs x1 = stack_regs regs x" "wmi_same w w1"
    using rc.regread_device [OF a'(1,2)] by blast
  let ?v = "(htc_ops_dev regs s r AND NOT clr) OR sv"
  have "op_rmw (htc_ops (wmi_stack env alloc fw) junk) r sv clr s
      = map_option (\<lambda>s'. (?v, s')) (op_write (htc_ops (wmi_stack env alloc fw) junk) ?v r (w1, x1))"
    using b(1) by (cases "ath9k_regwrite (wmi_stack env alloc fw) junk ?v r w1 x1")
      (auto simp: s htc_ops_def ath9k_reg_rmw_def htc_ops_dev_def Let_def)
  moreover have "htc_ops_ok env alloc fw regs junk (w1, x1)" "htc_ops_depth (w1, x1) = htc_ops_depth s"
    "htc_ops_mem regs (w1, x1) = htc_ops_mem regs s" "htc_ops_dev regs (w1, x1) = htc_ops_dev regs s"
    "htc_ops_room (w1, x1) = htc_ops_room s"
    using a' b by (simp_all add: s htc_ops_ok_def htc_ops_depth_def htc_ops_mem_def htc_ops_dev_def
        htc_ops_room_def wmi_same_def buf_inv_def pending_writes_def)
  ultimately show "\<exists>s1. op_rmw (htc_ops (wmi_stack env alloc fw) junk) r sv clr s
      = map_option (\<lambda>s'. (?v, s')) (op_write (htc_ops (wmi_stack env alloc fw) junk) ?v r s1) \<and>
      htc_ops_ok env alloc fw regs junk s1 \<and> htc_ops_depth s1 = htc_ops_depth s \<and>
      htc_ops_mem regs s1 = htc_ops_mem regs s \<and> htc_ops_dev regs s1 = htc_ops_dev regs s \<and>
      htc_ops_room s1 = htc_ops_room s" by blast
next
  fix s s' :: "wmi \<times> htc_target \<times> hif_device_usb \<times> 'a"
  assume "ENABLE_REGWRITE_BUFFER (htc_ops (wmi_stack env alloc fw) junk) s = Some s'"
  then show "htc_ops_dev regs s' = htc_ops_dev regs s \<and> htc_ops_room s' = htc_ops_room s"
    by (auto simp: ENABLE_REGWRITE_BUFFER_def htc_ops_def htc_ops_dev_def htc_ops_room_def
        ath9k_enable_regwrite_buffer_def split: prod.splits)
next
  fix s s' :: "wmi \<times> htc_target \<times> hif_device_usb \<times> 'a"
  assume a: "htc_ops_ok env alloc fw regs junk s" and d: "0 < htc_ops_depth s"
    and f: "REGWRITE_BUFFER_FLUSH (htc_ops (wmi_stack env alloc fw) junk) s = Some s'"
  obtain w x where s: "s = (w, x)" by (cases s)
  have a': "wmi_stack_ready env alloc fw regs w x" "length junk = 4" "buf_inv w"
    using a by (simp_all add: s htc_ops_ok_def)
  have "0 < mwrite_cnt w" using d by (simp add: s htc_ops_depth_def)
  then obtain w' x' where "ath9k_regwrite_flush (wmi_stack env alloc fw) junk w x = Some (w', x')"
    "multi_write_idx w' = 0" "stack_regs regs x' = rc.eff regs w x"
    using rc.flush_effect [OF a'] by blast
  then show "htc_ops_dev regs s' = htc_ops_mem regs s \<and> htc_ops_room s \<le> htc_ops_room s'"
    using f by (auto simp: s REGWRITE_BUFFER_FLUSH_def htc_ops_def htc_ops_dev_def htc_ops_mem_def htc_ops_room_def
        rc.eff_def)
qed

section \<open>Contention window\<close>

lemma mask_step: "push_bit 1 (mask k) OR 1 = (mask (Suc k) :: u32)"
  by (simp add: mask_Suc_double or.commute mult.commute)

lemma cw_up_mask:
  assumes "1 \<le> k" and "k \<le> 11" and "cw \<le> 1024" and "k = 1 \<or> mask (k - 1) < cw"
  shows "\<exists>j. cw_up (mask k) cw = Some (mask j) \<and> k \<le> j \<and> j \<le> 11 \<and> cw \<le> mask j \<and> (j = 1 \<or> mask (j - 1) < cw)"
  using assms
proof (induction "11 - k" arbitrary: k)
  case 0
  then have "k = 11" by simp
  moreover have "cw \<le> mask 11" using 0(4) by (rule order_trans) (simp add: mask_eq_exp_minus_1)
  ultimately show ?case using 0 by (subst cw_up.simps) (auto simp: not_less)
next
  case (Suc n)
  show ?case
  proof (cases "mask k < cw")
    case True
    have k: "n = 11 - Suc k" "Suc k \<le> 11" using Suc.hyps(2) by auto
    obtain j where "cw_up (mask (Suc k)) cw = Some (mask j)" "Suc k \<le> j" "j \<le> 11" "cw \<le> mask j"
      "j = 1 \<or> mask (j - 1) < cw"
      using Suc.hyps(1) [OF k(1) _ k(2) Suc.prems(3)] True by auto
    moreover have "cw_up (mask k) cw = cw_up (mask (Suc k)) cw"
      using True by (subst cw_up.simps) (simp only: mask_step if_True)
    ultimately show ?thesis using Suc_leD by metis
  next
    case False
    then show ?thesis using Suc.prems by (subst cw_up.simps) (auto simp: not_less)
  qed
qed

lemma cw_up_total:
  assumes "cw \<le> 1024"
  obtains j where "cw_up 1 cw = Some (mask j)" and "1 \<le> j" and "j \<le> 11" and "cw \<le> mask j"
    and "j = 1 \<or> mask (j - 1) < cw"
  using cw_up_mask [of 1 cw] assms by (auto simp: mask_eq_exp_minus_1)

lemma unat_mask11: "j \<le> 11 \<Longrightarrow> unat (mask j :: u32) = 2 ^ j - 1"
proof -
  assume "j \<le> 11"
  then have "j \<in> set [0..<12]" by simp
  then show ?thesis by (auto simp: upt_rec mask_eq_exp_minus_1)
qed

section \<open>Resetting a queue\<close>

definition queue_program :: "ath_hw \<Rightarrow> ath9k_tx_queue_info \<Rightarrow> nat \<Rightarrow> u32 \<Rightarrow> reg_acc list" where
  "queue_program ah qi q cw = reset_common ah qi q cw @ reset_by_type ah qi q @ reset_tail ah qi q"

definition irq_program :: "ath_hw \<Rightarrow> reg_acc list" where
  "irq_program ah =
     [ENABLE_BUFFER,
      REG_WRITE AR_IMR_S0 (SM (txok_interrupt_mask ah) 0x3FF 0 OR SM (txdesc_interrupt_mask ah) 0x03FF0000 16),
      REG_WRITE AR_IMR_S1 (SM (txerr_interrupt_mask ah) 0x3FF 0 OR SM (txeol_interrupt_mask ah) 0x03FF0000 16),
      REG_WRITE AR_IMR_S2 (imrs2_reg ah),
      BUFFER_FLUSH]"

definition plain_queue :: "ath9k_tx_queue_info \<Rightarrow> bool" where
  \<comment> \<open>no option of the queue makes the reset modify a register it has just written into the buffer\<close>
  "plain_queue qi \<longleftrightarrow> tqi_cbrPeriod qi = 0 \<and> \<not> has_flag (tqi_qflags qi) TXQ_FLAG_BACKOFF_DISABLE \<and>
     \<not> (tqi_burstTime qi \<noteq> 0 \<and> has_flag (tqi_qflags qi) TXQ_FLAG_RDYTIME_EXP_POLICY_ENABLE)"

lemma queue_reg_eq [simp]: "queue_reg a q = queue_reg b q \<longleftrightarrow> a = b"
  by (simp add: queue_reg_def)

lemmas reset_defs = queue_program_def reset_common_def reset_by_type_def reset_tail_def reg_macros Let_def

lemma queue_program_ok:
  "acc_ok 0 (queue_program ah qi q cw)" "acc_depth 0 (queue_program ah qi q cw) = 0"
  "length (queue_program ah qi q cw) < 40"
  by (cases "tqi_type qi"; simp add: reset_defs)+

lemma queue_program_no_stale: "plain_queue qi \<Longrightarrow> no_stale 0 {} (queue_program ah qi q cw)"
  by (cases "tqi_type qi"; auto simp: reset_defs plain_queue_def)

lemma irq_program_ok:
  "acc_ok 0 (irq_program ah)" "acc_depth 0 (irq_program ah) = 0" "length (irq_program ah) < 40"
  "no_stale 0 {} (irq_program ah)"
  by (simp_all add: irq_program_def)

lemma set_txq_interrupts_run:
  "ath9k_hw_set_txq_interrupts ops ah s =
     (let ah' = ah\<lparr>imrs2_reg := (imrs2_reg ah AND NOT AR_IMR_S2_QCU_TXURN)
                              OR (txurn_interrupt_mask ah AND AR_IMR_S2_QCU_TXURN)\<rparr>
      in map_option (\<lambda>s. (ah', s)) (REG_RUN ops (irq_program ah') s))"
  by (simp add: ath9k_hw_set_txq_interrupts_def irq_program_def Let_def map_conv_bind_option comp_def del: REG_RUN.simps)

lemma reset_cwmin_total:
  obtains cw where "reset_cwmin ah qi = Some cw"
proof -
  have "\<exists>c. cw_up 1 31 = Some c" "\<exists>c. cw_up 1 15 = Some c"
    by (rule cw_up_total [of 31], simp, blast) (rule cw_up_total [of 15], simp, blast)
  then have "\<exists>cw. reset_cwmin ah qi = Some cw" by (simp add: reset_cwmin_def Let_def split: option.split)
  then show thesis using that by blast
qed

lemma rw_direct_append: "rw_direct (ps @ qs) m = rw_direct qs (rw_direct ps m)"
  by (induction ps m rule: rw_direct.induct) (simp_all del: fun_upd_apply)

definition reset_state :: "ath9k_tx_queue_info \<Rightarrow> nat \<Rightarrow> ath_hw \<Rightarrow> ath_hw" where
  "reset_state qi q ah =
     (let ah = set_queue_interrupts qi q (ath9k_hw_clear_queue_interrupts q ah) in
      ah\<lparr>imrs2_reg := (imrs2_reg ah AND NOT AR_IMR_S2_QCU_TXURN)
                      OR (txurn_interrupt_mask ah AND AR_IMR_S2_QCU_TXURN)\<rparr>)"

lemma resettxqueue_run:
  assumes "txq_at ah (int q) = Some qi" and "tqi_type qi \<noteq> TX_QUEUE_INACTIVE" and "reset_cwmin ah qi = Some cw"
  shows "ath9k_hw_resettxqueue ops q ah s =
    map_option (\<lambda>s. (True, reset_state qi q ah, s))
      (REG_RUN ops (queue_program ah qi q cw) s \<bind> REG_RUN ops (irq_program (reset_state qi q ah)))"
  using assms
  by (simp add: ath9k_hw_resettxqueue_def queue_program_def REG_RUN_append set_txq_interrupts_run reset_state_def Let_def
      map_conv_bind_option comp_def)

context ath_regs_buf
begin

lemma resettxqueue_mem:
  assumes "ok s" and "depth s = 0" and "40 \<le> cap" and "txq_at ah (int q) = Some qi"
    and "tqi_type qi \<noteq> TX_QUEUE_INACTIVE" and "reset_cwmin ah qi = Some cw"
  obtains s' where "ath9k_hw_resettxqueue ops q ah s = Some (True, reset_state qi q ah, s')"
    and "ok s'" and "depth s' = 0"
    and "mem s' = rw_direct (irq_program (reset_state qi q ah))
           (snd (snd (rw_sem (queue_program ah qi q cw) 0 (mem s) (mem s))))"
proof -
  let ?p = "queue_program ah qi q cw" and ?i = "irq_program (reset_state qi q ah)"
  have d: "dev s = mem s" "room s = cap" using dev_mem room_idle assms(1,2) by auto
  have l: "length ?p < room s" using queue_program_ok(3) [of ah qi q cw] assms(3) d(2) by simp
  obtain s1 where a: "REG_RUN ops ?p s = Some s1" "ok s1" "(depth s1, dev s1, mem s1) = rw_sem ?p 0 (mem s) (mem s)"
    using run_sem [OF assms(1) l] queue_program_ok(1) assms(2) by (auto simp: d)
  have e: "depth s1 = 0"
    using rw_sem_depth [of ?p 0 "mem s" "mem s"] queue_program_ok(2) a(3) [symmetric] by simp
  have l2: "length ?i < cap" using irq_program_ok(3) [of "reset_state qi q ah"] assms(3) by simp
  obtain s2 where b: "REG_RUN ops ?i s1 = Some s2" "ok s2" "depth s2 = 0" "mem s2 = rw_direct ?i (mem s1)"
    by (rule run_direct [OF a(2) e l2 irq_program_ok(1,4,2)])
  show thesis
    by (rule that [of s2]) (use a(1) b a(3) [symmetric] resettxqueue_run [OF assms(4-6), of ops s] in \<open>simp_all\<close>)
qed

end

lemma queue_reg_irq:
  assumes "q < 10" and "b \<in> {0x8c0, 0x900, 0x9c0, 0x1040, 0x1080, 0x10c0, 0x1100}"
  shows "queue_reg b q \<noteq> 0xa4" "queue_reg b q \<noteq> 0xa8" "queue_reg b q \<noteq> 0xac"
proof -
  have "q \<in> set [0..<10]" using assms(1) by simp
  then show "queue_reg b q \<noteq> 0xa4" "queue_reg b q \<noteq> 0xa8" "queue_reg b q \<noteq> 0xac"
    using assms(2) by (auto simp: upt_rec queue_reg_def)
qed

definition irq_regs :: "u32 set" where
  "irq_regs = {AR_IMR_S0, AR_IMR_S1, AR_IMR_S2}"

lemma irq_program_direct: "r \<notin> irq_regs \<Longrightarrow> rw_direct (irq_program ah) m r = m r"
  by (simp add: irq_program_def irq_regs_def)

lemma irq_program_regs:
  "rw_direct (irq_program ah) m AR_IMR_S0 = SM (txok_interrupt_mask ah) 0x3FF 0 OR SM (txdesc_interrupt_mask ah) 0x03FF0000 16"
  "rw_direct (irq_program ah) m AR_IMR_S1 = SM (txerr_interrupt_mask ah) 0x3FF 0 OR SM (txeol_interrupt_mask ah) 0x03FF0000 16"
  by (simp_all add: irq_program_def)

definition queue_regs :: "nat \<Rightarrow> u32 set" where
  "queue_regs q = {AR_QCBRCFG q, AR_QRDYTIMECFG q, AR_QMISC q, AR_DLCL_IFS q, AR_DRETRY_LIMIT q, AR_DCHNTIME q, AR_DMISC q}"

lemma queue_regs_irq: "q < 10 \<Longrightarrow> r \<in> queue_regs q \<Longrightarrow> r \<notin> irq_regs"
  using queue_reg_irq [of q] by (auto simp: queue_regs_def irq_regs_def)

definition type_qmisc :: "ath9k_tx_queue \<Rightarrow> u32" where
  "type_qmisc ty = (case ty of
       TX_QUEUE_BEACON \<Rightarrow> AR_Q_MISC_FSP_DBA_GATED OR AR_Q_MISC_BEACON_USE OR AR_Q_MISC_CBR_INCR_DIS1
     | TX_QUEUE_CAB \<Rightarrow> AR_Q_MISC_FSP_DBA_GATED OR AR_Q_MISC_CBR_INCR_DIS1 OR AR_Q_MISC_CBR_INCR_DIS0
     | TX_QUEUE_PSPOLL \<Rightarrow> AR_Q_MISC_CBR_INCR_DIS1
     | _ \<Rightarrow> 0)"

definition type_dmisc :: "ath9k_tx_queue \<Rightarrow> u32" where
  "type_dmisc ty = (case ty of
       TX_QUEUE_BEACON \<Rightarrow> push_bit 17 2 OR AR_D_MISC_BEACON_USE OR AR_D_MISC_POST_FR_BKOFF_DIS
     | TX_QUEUE_CAB \<Rightarrow> push_bit 17 2
     | TX_QUEUE_UAPSD \<Rightarrow> AR_D_MISC_POST_FR_BKOFF_DIS
     | _ \<Rightarrow> 0)"

lemma queue_program_regs:
  assumes "macVersion ah < 0x1c0" and "tqi_intFlags qi = 0"
    and "\<not> has_flag (tqi_qflags qi) TXQ_FLAG_FRAG_BURST_BACKOFF_ENABLE"
  shows "plain_queue qi \<Longrightarrow> tqi_type qi \<noteq> TX_QUEUE_INACTIVE \<Longrightarrow>
      rw_direct (queue_program ah qi q cw) m (AR_DLCL_IFS q) = lcl_ifs cw (tqi_cwmax qi) (tqi_aifs qi) \<and>
      rw_direct (queue_program ah qi q cw) m (AR_QMISC q) = AR_Q_MISC_DCU_EARLY_TERM_REQ OR type_qmisc (tqi_type qi) \<and>
      rw_direct (queue_program ah qi q cw) m (AR_DMISC q) = 0x1102 OR type_dmisc (tqi_type qi) \<and>
      rw_direct (queue_program ah qi q cw) m (AR_DCHNTIME q)
        = SM (tqi_burstTime qi) 0xFFFFF 0 OR (if tqi_burstTime qi \<noteq> 0 then AR_D_CHNTIME_EN else 0)"
  and "r \<notin> queue_regs q \<Longrightarrow> rw_direct (queue_program ah qi q cw) m r = m r"
proof -
  have v: "\<not> AR_SREV_9340 ah" "\<not> AR_SREV_9300_20_OR_LATER ah"
    using assms(1) by (auto simp: AR_SREV_9340_def AR_SREV_9300_20_OR_LATER_def)
  have f: "\<not> has_flag (tqi_intFlags qi) 1" using assms(2) by (simp add: has_flag_def)
  show "plain_queue qi \<Longrightarrow> tqi_type qi \<noteq> TX_QUEUE_INACTIVE \<Longrightarrow>
      rw_direct (queue_program ah qi q cw) m (AR_DLCL_IFS q) = lcl_ifs cw (tqi_cwmax qi) (tqi_aifs qi) \<and>
      rw_direct (queue_program ah qi q cw) m (AR_QMISC q) = AR_Q_MISC_DCU_EARLY_TERM_REQ OR type_qmisc (tqi_type qi) \<and>
      rw_direct (queue_program ah qi q cw) m (AR_DMISC q) = 0x1102 OR type_dmisc (tqi_type qi) \<and>
      rw_direct (queue_program ah qi q cw) m (AR_DCHNTIME q)
        = SM (tqi_burstTime qi) 0xFFFFF 0 OR (if tqi_burstTime qi \<noteq> 0 then AR_D_CHNTIME_EN else 0)"
    by (cases "tqi_type qi"; simp add: reset_defs plain_queue_def v f assms(3) type_qmisc_def type_dmisc_def)
  show "r \<notin> queue_regs q \<Longrightarrow> rw_direct (queue_program ah qi q cw) m r = m r"
    by (cases "tqi_type qi"; simp add: reset_defs queue_regs_def v f assms(3))
qed

lemma imr_bits:
  assumes "q < 10"
  shows "bit (SM a 0x3FF 0 OR SM b 0x03FF0000 16) (16 + q) = bit b q"
proof -
  have "q \<in> set [0..<10]" using assms by simp
  then have "bit (0x3FF0000 :: u32) (16 + q) \<and> \<not> bit (0x3FF :: u32) (16 + q)"
    by (auto simp: upt_rec bit_numeral_rec)
  then show ?thesis using assms by (simp add: SM_def bit_simps)
qed

lemma reset_masks:
  assumes "q < 10"
  shows "bit (txdesc_interrupt_mask (reset_state qi q ah)) q = has_flag (tqi_qflags qi) TXQ_FLAG_TXDESCINT_ENABLE"
    and "bit (txeol_interrupt_mask (reset_state qi q ah)) q = has_flag (tqi_qflags qi) TXQ_FLAG_TXEOLINT_ENABLE"
  using assms by (simp_all add: reset_state_def set_queue_interrupts_def ath9k_hw_clear_queue_interrupts_def Let_def
      bit_simps)

section \<open>Properties\<close>



definition ex_hw :: ath_hw where
  \<comment> \<open>an AR9271 in access point mode with a beacon queue and a data queue\<close>
  "ex_hw = \<lparr>opmode = IFTYPE_AP, macVersion = 0x140, hw_caps = 0, curchan = None, is_monitoring = False,
     txq = [qi_zero\<lparr>tqi_type := TX_QUEUE_DATA, tqi_qflags := 6, tqi_aifs := 2, tqi_cwmin := 15, tqi_cwmax := 1023\<rparr>,
            qi_zero, qi_zero, qi_zero, qi_zero, qi_zero, qi_zero, qi_zero, qi_zero,
            qi_zero\<lparr>tqi_type := TX_QUEUE_BEACON, tqi_aifs := 1, tqi_cwmin := 1, tqi_cwmax := 1\<rparr>],
     imrs2_reg = 0, txok_interrupt_mask = 0, txerr_interrupt_mask = 0, txdesc_interrupt_mask = 0,
     txeol_interrupt_mask = 0, txurn_interrupt_mask = 0, atim_window = 0, misc_mode = 0, slottime = 9,
     dma_beacon_response_time = 2, sw_beacon_response_time = 10, additional_swba_backoff = 0,
     curbssid = [0, 0, 0, 0, 0, 0], curaid = 0\<rparr>"

lemma ex_mac_ops_ok: "htc_ops_ok ex_env (ex_alloc 0) ex_fw (\<lambda>d. d) [0, 0, 0, 0] (ex_wmi, ex_target, ex_dev, dev)"
  "htc_ops_depth (ex_wmi, x) = 0"
  using ex_stack_ready ex_buf_inv by (simp_all add: htc_ops_ok_def htc_ops_depth_def)


text \<open>The options that \<open>ath9k_hw_resettxqueue\<close> handles wrongly over USB. A data queue with
  \<open>TXQ_FLAG_BACKOFF_DISABLE\<close> is reset by a buffered write of the DCU mode followed by a
  read-modify-write of the same register before the flush. The read sees the device, so the
  mode just written is lost: the register ends with its old value and the back-off bit, where
  direct writes would leave the new mode and the bit.\<close>

theorem queue_reset_backoff_lost:
  assumes "htc_ops_ok env alloc fw regs junk s" and "htc_ops_depth s = 0" and "q < ATH9K_NUM_TX_QUEUES"
    and "txq_at ah (int q) = Some qi" and "tqi_type qi = TX_QUEUE_DATA" and "tqi_cbrPeriod qi = 0"
    and "has_flag (tqi_qflags qi) TXQ_FLAG_BACKOFF_DISABLE"
    and "macVersion ah < 0x1c0" and "tqi_intFlags qi = 0"
    and "\<not> has_flag (tqi_qflags qi) TXQ_FLAG_FRAG_BURST_BACKOFF_ENABLE" and "reset_cwmin ah qi = Some cw"
  shows "\<exists>ah' s'. ath9k_hw_resettxqueue (htc_ops (wmi_stack env alloc fw) junk) q ah s = Some (True, ah', s') \<and>
    htc_ops_dev regs s' (AR_DMISC q) = htc_ops_dev regs s (AR_DMISC q) OR AR_D_MISC_POST_FR_BKOFF_DIS \<and>
    rw_direct (queue_program ah qi q cw) (htc_ops_dev regs s) (AR_DMISC q) = 0x1102 OR AR_D_MISC_POST_FR_BKOFF_DIS"
proof -
  let ?ops = "htc_ops (wmi_stack env alloc fw) junk" and ?ah = "reset_state qi q ah" and ?m = "htc_ops_mem regs s"
  have act: "tqi_type qi \<noteq> TX_QUEUE_INACTIVE" using assms(5) by simp
  obtain s' where a: "ath9k_hw_resettxqueue ?ops q ah s = Some (True, ?ah, s')"
    "htc_ops_ok env alloc fw regs junk s'" "htc_ops_depth s' = 0"
    "htc_ops_mem regs s' = rw_direct (irq_program ?ah) (snd (snd (rw_sem (queue_program ah qi q cw) 0 ?m ?m)))"
    by (rule hb.resettxqueue_mem [OF assms(1,2) _ assms(4) act assms(11)]) simp
  have d: "htc_ops_dev regs s' = htc_ops_mem regs s'" "htc_ops_dev regs s = ?m"
    using hb.dev_mem [OF a(2,3)] hb.dev_mem [OF assms(1,2)] by simp_all
  have v: "\<not> AR_SREV_9340 ah" "\<not> AR_SREV_9300_20_OR_LATER ah" "\<not> has_flag (tqi_intFlags qi) 1"
    using assms(8,9) by (auto simp: AR_SREV_9340_def AR_SREV_9300_20_OR_LATER_def has_flag_def)
  have "AR_DMISC q \<notin> irq_regs" by (rule queue_regs_irq [OF assms(3)]) (simp add: queue_regs_def)
  then have "htc_ops_dev regs s' (AR_DMISC q) = snd (snd (rw_sem (queue_program ah qi q cw) 0 ?m ?m)) (AR_DMISC q)"
    using irq_program_direct a(4) d(1) by simp
  also have "\<dots> = ?m (AR_DMISC q) OR AR_D_MISC_POST_FR_BKOFF_DIS"
    by (simp add: reset_defs assms(5-7,10) v)
  finally show ?thesis
    using a(1) d(2) by (simp add: reset_defs assms(5-7,10) v)
qed

definition ex_hw_nobackoff :: ath_hw where
  "ex_hw_nobackoff = set_txq 0 (qi_zero\<lparr>tqi_type := TX_QUEUE_DATA, tqi_qflags := 0x10, tqi_cwmin := 15\<rparr>) ex_hw"

theorem queue_reset_backoff_lost_witness:
  "\<exists>ah' s'. ath9k_hw_resettxqueue (htc_ops (wmi_stack ex_env (ex_alloc 0) ex_fw) [0, 0, 0, 0]) 0 ex_hw_nobackoff
      (ex_wmi, ex_target, ex_dev, \<lambda>_. 0) = Some (True, ah', s') \<and>
    htc_ops_dev (\<lambda>d. d) s' (AR_DMISC 0) = AR_D_MISC_POST_FR_BKOFF_DIS"
  using queue_reset_backoff_lost [OF ex_mac_ops_ok(1) ex_mac_ops_ok(2), of 0 ex_hw_nobackoff "txq ex_hw_nobackoff ! 0" 15 "\<lambda>_. 0"]
  by (auto simp: ex_hw_nobackoff_def set_txq_def ex_hw_def txq_at_def qi_zero_def has_flag_def reset_cwmin_def
      htc_ops_dev_def stack_regs_def)

definition window_of :: "u32 \<Rightarrow> u32 \<Rightarrow> bool" where
  \<comment> \<open>\<open>w\<close> is the smallest number of the form \<open>2 ^ j - 1\<close>, \<open>j \<ge> 1\<close>, that is at least \<open>min cw 1024\<close>\<close>
  "window_of cw w \<longleftrightarrow> (\<exists>j. 1 \<le> j \<and> unat w = 2 ^ j - 1 \<and> min (unat cw) 1024 \<le> unat w \<and>
     (\<forall>i. 1 \<le> i \<and> min (unat cw) 1024 \<le> 2 ^ i - 1 \<longrightarrow> j \<le> i))"

lemma cw_up_window: "\<exists>w. cw_up 1 (min cw 1024) = Some w \<and> window_of cw w"
proof -
  obtain j where j: "cw_up 1 (min cw 1024) = Some (mask j)" "1 \<le> j" "j \<le> 11" "min cw 1024 \<le> mask j"
    "j = 1 \<or> mask (j - 1) < min cw 1024"
    using cw_up_total [of "min cw 1024"] by auto
  have m: "unat (min cw 1024) = min (unat cw) 1024" by (simp add: min_def word_le_nat_alt)
  have u: "unat (mask j :: u32) = 2 ^ j - 1" "unat (mask (j - 1) :: u32) = 2 ^ (j - 1) - 1"
    using unat_mask11 [of j] unat_mask11 [of "j - 1"] j(3) by simp_all
  have l: "min (unat cw) 1024 \<le> 2 ^ j - 1" "j = 1 \<or> 2 ^ (j - 1) - 1 < min (unat cw) 1024"
    using j(4,5) unfolding word_le_nat_alt word_less_nat_alt m u by simp_all
  have "j \<le> i" if i: "1 \<le> i" "min (unat cw) 1024 \<le> 2 ^ i - 1" for i
  proof (rule ccontr)
    assume "\<not> j \<le> i"
    then have "j \<noteq> 1" "i \<le> j - 1" using i(1) by auto
    then have "(2 :: nat) ^ i \<le> 2 ^ (j - 1)" by simp
    then show False using l(2) i(2) \<open>j \<noteq> 1\<close> by linarith
  qed
  then show ?thesis using j(1,2) l(1) u(1) unfolding window_of_def by metis
qed

text \<open>Configuring a transmit queue. For an active queue \<open>ath9k_hw_set_txq_props\<close> returns:
  its two window loops end, and each stored window is the smallest number of the form
  \<open>2 ^ j - 1\<close> that reaches the requested one (requests above 1024 count as 1024), or the default;
  the inter-frame space and the retry limits are clamped. \<open>ath9k_hw_get_txq_props\<close> gives the stored
  values back, and no other queue changes.\<close>

theorem txq_props_window:
  assumes "txq_at ah q = Some qi" and "tqi_type qi \<noteq> TX_QUEUE_INACTIVE"
  shows "\<exists>ah' qi' qi''. ath9k_hw_set_txq_props ah q qinfo = Some (True, ah') \<and> txq_at ah' q = Some qi' \<and>
    (if tqi_cwmin qinfo = ATH9K_TXQ_USEDEFAULT then tqi_cwmin qi' = ATH9K_TXQ_USEDEFAULT
     else window_of (tqi_cwmin qinfo) (tqi_cwmin qi')) \<and>
    (if tqi_cwmax qinfo = ATH9K_TXQ_USEDEFAULT then tqi_cwmax qi' = INIT_CWMAX
     else window_of (tqi_cwmax qinfo) (tqi_cwmax qi')) \<and>
    tqi_aifs qi' \<le> 255 \<and> tqi_shretry qi' \<le> 15 \<and> tqi_lgretry qi' \<le> 15 \<and> tqi_type qi' = tqi_type qi \<and>
    ath9k_hw_get_txq_props ah' q qi_zero = Some (True, qi'') \<and> tqi_cwmin qi'' = tqi_cwmin qi' \<and>
    tqi_cwmax qi'' = tqi_cwmax qi' \<and> tqi_aifs qi'' = tqi_aifs qi' \<and> tqi_burstTime qi'' = tqi_burstTime qinfo \<and>
    (\<forall>q'. q' \<noteq> q \<longrightarrow> txq_at ah' q' = txq_at ah q')"
proof -
  obtain lo where lo: "(if tqi_cwmin qinfo \<noteq> ATH9K_TXQ_USEDEFAULT then cw_up 1 (min (tqi_cwmin qinfo) 1024)
      else Some (tqi_cwmin qinfo)) = Some lo"
    "if tqi_cwmin qinfo = ATH9K_TXQ_USEDEFAULT then lo = ATH9K_TXQ_USEDEFAULT else window_of (tqi_cwmin qinfo) lo"
    using cw_up_window [of "tqi_cwmin qinfo"] by (cases "tqi_cwmin qinfo = ATH9K_TXQ_USEDEFAULT") auto
  obtain hi where hi: "(if tqi_cwmax qinfo \<noteq> ATH9K_TXQ_USEDEFAULT then cw_up 1 (min (tqi_cwmax qinfo) 1024)
      else Some INIT_CWMAX) = Some hi"
    "if tqi_cwmax qinfo = ATH9K_TXQ_USEDEFAULT then hi = INIT_CWMAX else window_of (tqi_cwmax qinfo) hi"
    using cw_up_window [of "tqi_cwmax qinfo"] by (cases "tqi_cwmax qinfo = ATH9K_TXQ_USEDEFAULT") auto
  obtain ah' where ah': "ath9k_hw_set_txq_props ah q qinfo = Some (True, ah')"
    using assms by (simp add: ath9k_hw_set_txq_props_def lo(1) hi(1))
  have r: "0 \<le> q" "nat q < length (txq ah)" "q < int (length (txq ah))"
    using assms(1) by (auto simp: txq_at_def split: if_splits)
  define qi' where "qi' = txq ah' ! nat q"
  have at: "txq_at ah' q = Some qi'" and fields: "tqi_cwmin qi' = lo" "tqi_cwmax qi' = hi" "tqi_type qi' = tqi_type qi"
    "tqi_aifs qi' \<le> 255" "tqi_shretry qi' \<le> 15" "tqi_lgretry qi' \<le> 15" "tqi_burstTime qi' = tqi_burstTime qinfo"
    using ah' assms r unfolding ath9k_hw_set_txq_props_def lo(1) hi(1)
    by (auto simp: set_txq_def txq_at_def qi'_def)
  have rest: "txq_at ah' q' = txq_at ah q'" if "q' \<noteq> q" for q'
    using ah' assms r that unfolding ath9k_hw_set_txq_props_def lo(1) hi(1)
    by (auto simp: set_txq_def txq_at_def nth_list_update)
  define qi'' where "qi'' = snd (the (ath9k_hw_get_txq_props ah' q qi_zero))"
  have "ath9k_hw_get_txq_props ah' q qi_zero = Some (True, qi'') \<and> tqi_cwmin qi'' = tqi_cwmin qi' \<and>
    tqi_cwmax qi'' = tqi_cwmax qi' \<and> tqi_aifs qi'' = tqi_aifs qi' \<and> tqi_burstTime qi'' = tqi_burstTime qi'"
    using at fields(3) assms(2) by (simp add: qi''_def ath9k_hw_get_txq_props_def)
  then show ?thesis using ah' at fields lo(2) hi(2) rest by metis
qed

theorem txq_props_window_witness:
  "\<exists>ah' qi'. ath9k_hw_set_txq_props ex_hw 0 (qi_zero\<lparr>tqi_cwmin := 16, tqi_cwmax := 0xffffffff\<rparr>) = Some (True, ah') \<and>
    txq_at ah' 0 = Some qi' \<and> window_of 16 (tqi_cwmin qi') \<and> tqi_cwmax qi' = INIT_CWMAX"
  using txq_props_window [of ex_hw 0 "txq ex_hw ! 0" "qi_zero\<lparr>tqi_cwmin := 16, tqi_cwmax := 0xffffffff\<rparr>"]
  by (auto simp: ex_hw_def txq_at_def qi_zero_def)

section \<open>Reading the TSF\<close>

definition tsf_clock :: "'s ath_ops \<Rightarrow> ('s \<Rightarrow> nat) \<Rightarrow> bool" where
  \<comment> \<open>the two TSF registers show the halves of a 64-bit microsecond counter that never runs backwards;
      a register read takes at most \<open>2 ^ 27\<close> microseconds (the WMI timeout is two seconds)\<close>
  "tsf_clock ops now \<longleftrightarrow>
     (\<forall>s. \<exists>s'. op_read ops AR_TSF_U32 s = Some (word_of_nat (now s div 2 ^ 32), s') \<and> now s \<le> now s' \<and>
        now s' \<le> now s + 2 ^ 27) \<and>
     (\<forall>s. \<exists>s'. op_read ops AR_TSF_L32 s = Some (word_of_nat (now s mod 2 ^ 32), s') \<and> now s \<le> now s' \<and>
        now s' \<le> now s + 2 ^ 27)"

lemma tsf_join:
  "push_bit 32 (ucast (word_of_nat (t div 2 ^ 32) :: u32)) OR ucast (word_of_nat (t mod 2 ^ 32) :: u32)
    = (word_of_nat t :: u64)"
  unfolding drop_bit_eq_div [symmetric] take_bit_eq_mod [symmetric]
  by (rule bit_word_eqI) (auto simp: bit_simps)

lemma hi_word_eq:
  assumes "(word_of_nat a :: u32) = word_of_nat b" and "a \<le> b" and "b \<le> a + 1"
  shows "a = b"
proof (rule ccontr)
  assume "a \<noteq> b"
  then have "b = Suc a" using assms(2,3) by simp
  then show False using assms(1) by simp
qed

lemma tsf_read:
  assumes "tsf_clock ops now"
  obtains s' where "op_read ops AR_TSF_U32 s = Some (word_of_nat (now s div 2 ^ 32), s')" and "now s \<le> now s'"
    and "now s' \<le> now s + 2 ^ 27"
  using assms unfolding tsf_clock_def by blast

lemma tsf_read_low:
  assumes "tsf_clock ops now"
  obtains s' where "op_read ops AR_TSF_L32 s = Some (word_of_nat (now s mod 2 ^ 32), s')" and "now s \<le> now s'"
    and "now s' \<le> now s + 2 ^ 27"
  using assms unfolding tsf_clock_def by blast

lemma tsf_round:
  \<comment> \<open>a round of the loop that finds the upper half unchanged has read the counter\<close>
  assumes c: "tsf_clock ops now" and u: "t0 div 2 ^ 32 = u" and le: "t0 \<le> now s" "now s \<le> t0 + 2 ^ 28"
  obtains s1 s2 where "op_read ops AR_TSF_L32 s = Some (word_of_nat (now s mod 2 ^ 32), s1)"
    and "op_read ops AR_TSF_U32 s1 = Some (word_of_nat (now s1 div 2 ^ 32), s2)"
    and "now s \<le> now s1" and "now s1 \<le> now s2" and "now s2 \<le> now s + 2 ^ 28"
    and "word_of_nat (now s1 div 2 ^ 32) = (word_of_nat u :: u32) \<longrightarrow> now s div 2 ^ 32 = u"
    and "word_of_nat (now s1 div 2 ^ 32) \<noteq> (word_of_nat u :: u32) \<longrightarrow> now s1 div 2 ^ 32 = u + 1"
proof -
  obtain s1 where a: "op_read ops AR_TSF_L32 s = Some (word_of_nat (now s mod 2 ^ 32), s1)" "now s \<le> now s1"
    "now s1 \<le> now s + 2 ^ 27" by (rule tsf_read_low [OF c])
  obtain s2 where b: "op_read ops AR_TSF_U32 s1 = Some (word_of_nat (now s1 div 2 ^ 32), s2)" "now s1 \<le> now s2"
    "now s2 \<le> now s1 + 2 ^ 27" by (rule tsf_read [OF c])
  have "now s1 div 2 ^ 32 \<le> (t0 + 2 ^ 32) div 2 ^ 32" by (rule div_le_mono) (use le(2) a(3) in simp)
  then have r: "u \<le> now s div 2 ^ 32" "now s div 2 ^ 32 \<le> now s1 div 2 ^ 32" "now s1 div 2 ^ 32 \<le> u + 1"
    using u div_le_mono [OF le(1), of "2 ^ 32"] div_le_mono [OF a(2), of "2 ^ 32"] by simp_all
  have e: "now s div 2 ^ 32 = u" if w: "word_of_nat (now s1 div 2 ^ 32) = (word_of_nat u :: u32)"
    using hi_word_eq [OF w [symmetric]] r by linarith
  have n: "now s1 div 2 ^ 32 = u + 1" if w: "word_of_nat (now s1 div 2 ^ 32) \<noteq> (word_of_nat u :: u32)"
  proof -
    have "now s1 div 2 ^ 32 \<noteq> u" using w by auto
    then show ?thesis using r by linarith
  qed
  have "now s2 \<le> now s + 2 ^ 28" using a(3) b(3) by simp
  then show thesis by (rule that [OF a(1) b(1) a(2) b(2)]) (use e n in blast)+
qed

text \<open>Reading the 64-bit TSF in two halves. On a target whose TSF registers show the halves of
  a running microsecond counter, \<open>ath9k_hw_gettsf64\<close> returns the value the counter had at some
  moment during the call, even when the lower half overflows between the reads, and the loop
  ends before its limit of ten rounds.\<close>

theorem gettsf64_consistent:
  assumes c: "tsf_clock ops now"
  shows "\<exists>t s'. ath9k_hw_gettsf64 ops s = Some (word_of_nat t, s') \<and> now s \<le> t \<and> t \<le> now s'"
proof -
  define u where "u = now s div 2 ^ 32"
  obtain s0 where a: "op_read ops AR_TSF_U32 s = Some (word_of_nat u, s0)" "now s \<le> now s0" "now s0 \<le> now s + 2 ^ 27"
    unfolding u_def by (rule tsf_read [OF c])
  have a28: "now s0 \<le> now s + 2 ^ 28" using a(3) by simp
  obtain s1 s2 where b: "op_read ops AR_TSF_L32 s0 = Some (word_of_nat (now s0 mod 2 ^ 32), s1)"
    "op_read ops AR_TSF_U32 s1 = Some (word_of_nat (now s1 div 2 ^ 32), s2)"
    "now s0 \<le> now s1" "now s1 \<le> now s2" "now s2 \<le> now s0 + 2 ^ 28"
    "word_of_nat (now s1 div 2 ^ 32) = (word_of_nat u :: u32) \<longrightarrow> now s0 div 2 ^ 32 = u"
    "word_of_nat (now s1 div 2 ^ 32) \<noteq> (word_of_nat u :: u32) \<longrightarrow> now s1 div 2 ^ 32 = u + 1"
    by (rule tsf_round [OF c u_def [symmetric] a(2) a28])
  show ?thesis
  proof (cases "word_of_nat (now s1 div 2 ^ 32) = (word_of_nat u :: u32)")
    case True
    have loop: "tsf_loop ops (Suc n) (word_of_nat u) lo s0
        = Some (True, word_of_nat u, word_of_nat (now s0 mod 2 ^ 32), s2)" for n lo
      using True b(1,2) by simp
    have "u = now s0 div 2 ^ 32" using b(6) True by simp
    then have "ath9k_hw_gettsf64 ops s = Some (word_of_nat (now s0), s2)"
      using a(1) loop [of 9 0] tsf_join [of "now s0"] by (simp add: ath9k_hw_gettsf64_def)
    then show ?thesis using a(2) b(3,4) by force
  next
    case False
    then have u1: "now s1 div 2 ^ 32 = u + 1" using b(7) by blast
    have b28: "now s2 \<le> now s1 + 2 ^ 28" using b(3,5) by linarith
    obtain s3 s4 where d: "op_read ops AR_TSF_L32 s2 = Some (word_of_nat (now s2 mod 2 ^ 32), s3)"
      "op_read ops AR_TSF_U32 s3 = Some (word_of_nat (now s3 div 2 ^ 32), s4)"
      "now s2 \<le> now s3" "now s3 \<le> now s4" "now s4 \<le> now s2 + 2 ^ 28"
      "word_of_nat (now s3 div 2 ^ 32) = (word_of_nat (u + 1) :: u32) \<longrightarrow> now s2 div 2 ^ 32 = u + 1"
      "word_of_nat (now s3 div 2 ^ 32) \<noteq> (word_of_nat (u + 1) :: u32) \<longrightarrow> now s3 div 2 ^ 32 = u + 1 + 1"
      by (rule tsf_round [OF c u1 b(4) b28])
    have "now s3 \<le> now s + 2 ^ 32" using a(3) b(5) d(4,5) by simp
    then have "now s3 div 2 ^ 32 \<le> u + 1" using div_le_mono [of "now s3" "now s + 2 ^ 32" "2 ^ 32"] by (simp add: u_def)
    then have same: "word_of_nat (now s3 div 2 ^ 32) = (word_of_nat (u + 1) :: u32)" "u + 1 = now s2 div 2 ^ 32"
      using d(6,7) by auto
    have loop: "tsf_loop ops (Suc (Suc n)) (word_of_nat u) lo s0
        = Some (True, word_of_nat (now s2 div 2 ^ 32), word_of_nat (now s2 mod 2 ^ 32), s4)" for n lo
      using False b(1,2) d(1,2) same unfolding u1 by (simp del: of_nat_Suc of_nat_add)
    have "ath9k_hw_gettsf64 ops s = Some (word_of_nat (now s2), s4)"
      using a(1) loop [of 8 0] tsf_join [of "now s2"] by (simp add: ath9k_hw_gettsf64_def)
    then show ?thesis using a(2) b(3,4) d(3,4) by force
  qed
qed

definition ex_clock_ops :: "nat ath_ops" where
  \<comment> \<open>a target that only keeps time: every read takes three microseconds\<close>
  "ex_clock_ops = \<lparr>
     op_read = (\<lambda>r t. Some (if r = AR_TSF_U32 then word_of_nat (t div 2 ^ 32)
                           else if r = AR_TSF_L32 then word_of_nat (t mod 2 ^ 32) else 0, t + 3)),
     op_write = (\<lambda>v r t. Some (t + 3)), op_enable_write_buffer = None, op_write_flush = None,
     op_rmw = (\<lambda>r sv clr t. Some (sv, t + 6))\<rparr>"

theorem gettsf64_consistent_witness:
  "\<exists>t s'. ath9k_hw_gettsf64 ex_clock_ops 4294967294 = Some (word_of_nat t, s') \<and> 4294967294 \<le> t \<and> t \<le> s'"
  using gettsf64_consistent [of ex_clock_ops "\<lambda>t. t" 4294967294] by (simp add: tsf_clock_def ex_clock_ops_def)

end
