(* ===== verification/Htc_Beacon.thy ===== *)
theory Htc_Beacon
  imports Htc_Rx Ath9k_Mac
begin

text \<open>
  Beaconing (\<open>ath9k/htc_drv_beacon.c\<close>), with the hardware transmit queues and the receive filter
  of the driver (\<open>ath9k_init_queues\<close>, \<open>ath_htc_txq_update\<close>, \<open>ath9k_htc_calcrxfilter\<close>): the beacon
  slots, the choice of the slot at each software beacon alert, the beacon and buffered broadcast
  frames, and the beacon timers of the three modes over the register layer of \<open>Ath9k_Mac\<close>.

  \<open>htc_priv\<close> collects the fields of \<open>struct ath9k_htc_priv\<close> that this code and the mac80211
  operations use, around the transmit state of \<open>Htc_Tx\<close>. An interface is a number; \<open>vif_of\<close> gives its
  \<open>struct ieee80211_vif\<close> with the driver's part. Locks are left out: every operation here runs
  under \<open>beacon_lock\<close> or the driver's mutex.
\<close>

section \<open>Data\<close>

abbreviation (input) ATH9K_HTC_MAX_BCN_VIF :: nat where "ATH9K_HTC_MAX_BCN_VIF \<equiv> 2"
abbreviation (input) FUDGE :: u32 where "FUDGE \<equiv> 2"
abbreviation (input) ATH_DEFAULT_BMISS_LIMIT :: int where "ATH_DEFAULT_BMISS_LIMIT \<equiv> 10"
abbreviation (input) BSTUCK_THRESHOLD :: u32 where "BSTUCK_THRESHOLD \<equiv> 10"
abbreviation (input) DEFAULT_SWBA_RESPONSE :: int where "DEFAULT_SWBA_RESPONSE \<equiv> 40"
abbreviation (input) MIN_SWBA_RESPONSE :: int where "MIN_SWBA_RESPONSE \<equiv> 10"
abbreviation (input) ATH9K_TSFOOR_THRESHOLD :: u32 where "ATH9K_TSFOOR_THRESHOLD \<equiv> 0x4240"
abbreviation (input) ATH9K_SLOT_TIME_20 :: u32 where "ATH9K_SLOT_TIME_20 \<equiv> 20"
abbreviation (input) ATH9K_INT_SWBA :: u32 where "ATH9K_INT_SWBA \<equiv> 0x10000"
abbreviation (input) ATH9K_INT_BMISS :: u32 where "ATH9K_INT_BMISS \<equiv> 0x40000"
abbreviation (input) OP_INVALID :: nat where "OP_INVALID \<equiv> 1"
abbreviation (input) OP_SCANNING :: nat where "OP_SCANNING \<equiv> 2"
abbreviation (input) OP_ENABLE_BEACON :: nat where "OP_ENABLE_BEACON \<equiv> 4"
abbreviation (input) OP_ANI_RUNNING :: nat where "OP_ANI_RUNNING \<equiv> 32"
abbreviation (input) OP_TSF_RESET :: nat where "OP_TSF_RESET \<equiv> 64"
abbreviation (input) IEEE80211_TX_CTL_ASSIGN_SEQ :: u32 where "IEEE80211_TX_CTL_ASSIGN_SEQ \<equiv> 2"
abbreviation (input) IEEE80211_SCTL_FRAG :: u16 where "IEEE80211_SCTL_FRAG \<equiv> 0xF"
abbreviation (input) IEEE80211_AC_BE :: nat where "IEEE80211_AC_BE \<equiv> 2"
abbreviation (input) IEEE80211_AC_BK :: nat where "IEEE80211_AC_BK \<equiv> 3"
abbreviation (input) IEEE80211_AC_VI :: nat where "IEEE80211_AC_VI \<equiv> 1"
abbreviation (input) IEEE80211_AC_VO :: nat where "IEEE80211_AC_VO \<equiv> 0"
abbreviation (input) FIF_PROMISC_IN_BSS :: u32 where "FIF_PROMISC_IN_BSS \<equiv> 1"
abbreviation (input) FIF_BCN_PRBRESP_PROMISC :: u32 where "FIF_BCN_PRBRESP_PROMISC \<equiv> 0x10"
abbreviation (input) FIF_CONTROL :: u32 where "FIF_CONTROL \<equiv> 0x20"
abbreviation (input) FIF_PSPOLL :: u32 where "FIF_PSPOLL \<equiv> 0x80"
abbreviation (input) FIF_PROBE_REQ :: u32 where "FIF_PROBE_REQ \<equiv> 0x100"

record htc_beacon_config =
  bslot :: "nat option list"
  beacon_interval :: u16
  dtim_period :: u16
  bmiss_timeout :: u16
  bmiss_cnt :: u32

record ieee80211_vif =
  \<comment> \<open>the fields the driver reads, with \<open>beacon_configured\<close>, \<open>bslot\<close> and \<open>seq_no\<close> of \<open>struct ath9k_htc_vif\<close>;
      \<open>index\<close> and \<open>tsfadjust\<close> are in the transmit state\<close>
  vif_type :: nl80211_iftype
  vif_addr :: bytes
  bss_beacon_int :: u16
  bss_dtim_period :: u8
  bss_enable_beacon :: bool
  bss_assoc :: bool
  beacon_configured :: bool
  avp_bslot :: int
  seq_no :: u16

record htc_priv =
  htc_base :: ath9k_htc_priv
  htc_ah :: ath_hw
  cur_beacon_conf :: htc_beacon_config
  op_flags :: bitmap
  caldata_channel :: u16
  beaconq :: int
  cabq :: int
  hwq_map :: "int list"
  num_ibss_vif :: u8
  num_sta_vif :: u8
  num_ap_vif :: u8
  nvifs :: u16
  rxfilter :: u32
  vif_of :: "nat \<Rightarrow> ieee80211_vif"
  active_vifs :: "nat list"

record wmi_event_swba =
  swba_tsf :: u64
  beacon_pending :: u8

datatype drv_call =
    Queue_fatal_work
  | Mac mac_call

definition set_conf :: "(htc_beacon_config \<Rightarrow> htc_beacon_config) \<Rightarrow> htc_priv \<Rightarrow> htc_priv" where
  "set_conf f p = p\<lparr>cur_beacon_conf := f (cur_beacon_conf p)\<rparr>"

definition set_vif :: "nat \<Rightarrow> (ieee80211_vif \<Rightarrow> ieee80211_vif) \<Rightarrow> htc_priv \<Rightarrow> htc_priv" where
  "set_vif v f p = p\<lparr>vif_of := (vif_of p)(v := f (vif_of p v))\<rparr>"

text \<open>
  \<open>OP_INVALID\<close>, \<open>OP_SCANNING\<close> and the others are defined as masks (\<open>BIT(0)\<close>, \<open>BIT(1)\<close>, ...) but used as bit
  numbers by \<open>test_bit\<close>, \<open>set_bit\<close> and \<open>clear_bit\<close> on the 64-bit word \<open>op_flags\<close>. \<open>OP_TSF_RESET\<close> is
  bit number 64, the first bit after the word: on a little-endian 64-bit kernel that is bit 0 of
  the next member of the structure, \<open>caldata.channel\<close>.
\<close>

definition test_op :: "nat \<Rightarrow> htc_priv \<Rightarrow> bool option" where
  "test_op n p = (if n < 64 then test_bit n (op_flags p)
                  else if n < 80 then Some (bit (caldata_channel p) (n - 64)) else None)"

definition set_op :: "nat \<Rightarrow> htc_priv \<Rightarrow> htc_priv option" where
  "set_op n p = (if n < 64 then map_option (\<lambda>m. p\<lparr>op_flags := m\<rparr>) (set_bit n (op_flags p))
                 else if n < 80 then Some (p\<lparr>caldata_channel := caldata_channel p OR push_bit (n - 64) 1\<rparr>) else None)"

definition clear_op :: "nat \<Rightarrow> htc_priv \<Rightarrow> htc_priv option" where
  "clear_op n p = (if n < 64 then map_option (\<lambda>m. p\<lparr>op_flags := m\<rparr>) (clear_bit n (op_flags p))
                   else if n < 80 then Some (p\<lparr>caldata_channel := caldata_channel p AND NOT (push_bit (n - 64) 1)\<rparr>) else None)"

section \<open>Hardware queues\<close>

definition ATH9K_HTC_INIT_TXQ :: "nat \<Rightarrow> ath9k_tx_queue_info" where
  \<comment> \<open>\<open>subtype_txq_to_hwq\<close> maps the access categories VO, VI, BE, BK to 3, 2, 0, 1\<close>
  "ATH9K_HTC_INIT_TXQ subtype = qi_zero\<lparr>
     tqi_subtype := [3, 2, 0, 1] ! subtype,
     tqi_aifs := ATH9K_TXQ_USEDEFAULT,
     tqi_cwmin := ATH9K_TXQ_USEDEFAULT,
     tqi_cwmax := ATH9K_TXQ_USEDEFAULT,
     tqi_physCompBuf := 0,
     tqi_qflags := TXQ_FLAG_TXEOLINT_ENABLE OR TXQ_FLAG_TXDESCINT_ENABLE\<rparr>"

definition ath9k_htc_txq_setup :: "'s ath_ops \<Rightarrow> nat \<Rightarrow> htc_priv \<Rightarrow> 's \<Rightarrow> (bool \<times> htc_priv \<times> 's) option" where
  "ath9k_htc_txq_setup ops subtype p s = do {
     (qnum, ah) \<leftarrow> ath9k_hw_setuptxqueue (htc_ah p) TX_QUEUE_DATA (ATH9K_HTC_INIT_TXQ subtype);
     let p = p\<lparr>htc_ah := ah\<rparr>;
     if qnum = -1 then Some (False, p, s)
     else if int (length (hwq_map p)) \<le> qnum then do {
       (r, ah, s) \<leftarrow> ath9k_hw_releasetxqueue ops (nat qnum) (htc_ah p) s;
       Some (False, p\<lparr>htc_ah := ah\<rparr>, s) }
     else Some (True, p\<lparr>hwq_map := (hwq_map p)[subtype := qnum]\<rparr>, s) }"

definition ath9k_htc_cabq_setup :: "htc_priv \<Rightarrow> (int \<times> htc_priv) option" where
  "ath9k_htc_cabq_setup p = do {
     (q, ah) \<leftarrow> ath9k_hw_setuptxqueue (htc_ah p) TX_QUEUE_CAB (ATH9K_HTC_INIT_TXQ 0);
     Some (q, p\<lparr>htc_ah := ah\<rparr>) }"

fun txq_setup_all :: "'s ath_ops \<Rightarrow> nat list \<Rightarrow> htc_priv \<Rightarrow> 's \<Rightarrow> (int \<times> htc_priv \<times> 's) option" where
  "txq_setup_all ops [] p s = Some (0, p, s)"
| "txq_setup_all ops (ac # acs) p s = do {
     (ok, p, s) \<leftarrow> ath9k_htc_txq_setup ops ac p s;
     if \<not> ok then Some (- EINVAL, p, s) else txq_setup_all ops acs p s }"

definition ath9k_init_queues :: "'s ath_ops \<Rightarrow> htc_priv \<Rightarrow> 's \<Rightarrow> (int \<times> htc_priv \<times> 's) option" where
  "ath9k_init_queues ops p s = do {
     let p = p\<lparr>hwq_map := replicate (length (hwq_map p)) (-1)\<rparr>;
     (q, ah) \<leftarrow> ath9k_hw_beaconq_setup (htc_ah p);
     let p = p\<lparr>htc_ah := ah, beaconq := q\<rparr>;
     if beaconq p = -1 then Some (- EINVAL, p, s)
     else do {
       (q, p) \<leftarrow> ath9k_htc_cabq_setup p;
       let p = p\<lparr>cabq := q\<rparr>;
       if cabq p = -1 then Some (- EINVAL, p, s)
       else txq_setup_all ops [IEEE80211_AC_BE, IEEE80211_AC_BK, IEEE80211_AC_VI, IEEE80211_AC_VO] p s } }"

definition ath_htc_txq_update ::
  "'s ath_ops \<Rightarrow> ath9k_tx_queue_info \<Rightarrow> int \<Rightarrow> ath9k_tx_queue_info \<Rightarrow> htc_priv \<Rightarrow> 's \<Rightarrow> (int \<times> htc_priv \<times> 's) option" where
  \<comment> \<open>\<open>junk\<close> is the uninitialised local \<open>qi\<close>\<close>
  "ath_htc_txq_update ops junk qnum qinfo p s = do {
     (r, qi) \<leftarrow> ath9k_hw_get_txq_props (htc_ah p) qnum junk;
     let qi = qi\<lparr>tqi_aifs := tqi_aifs qinfo,
                 tqi_cwmin := tqi_cwmin qinfo div 2,
                 tqi_cwmax := tqi_cwmax qinfo,
                 tqi_burstTime := tqi_burstTime qinfo,
                 tqi_readyTime := tqi_readyTime qinfo\<rparr>;
     (r, ah) \<leftarrow> ath9k_hw_set_txq_props (htc_ah p) qnum qi;
     let p = p\<lparr>htc_ah := ah\<rparr>;
     if \<not> r then Some (- EIO, p, s)
     else do {
       (r, ah, s) \<leftarrow> ath9k_hw_resettxqueue ops (nat qnum) (htc_ah p) s;
       Some (0, p\<lparr>htc_ah := ah\<rparr>, s) } }"

definition ath9k_htc_beaconq_config :: "'s ath_ops \<Rightarrow> htc_priv \<Rightarrow> 's \<Rightarrow> (htc_priv \<times> 's) option" where
  "ath9k_htc_beaconq_config ops p s = do {
     let ah = htc_ah p;
     (r, qi) \<leftarrow> ath9k_hw_get_txq_props ah (beaconq p) qi_zero;
     qi \<leftarrow> (if opmode ah = IFTYPE_AP then Some (qi\<lparr>tqi_aifs := 1, tqi_cwmin := 0, tqi_cwmax := 0\<rparr>)
            else if opmode ah = IFTYPE_ADHOC then do {
              (r, qi_be) \<leftarrow> ath9k_hw_get_txq_props ah (hwq_map p ! IEEE80211_AC_BE) qi_zero;
              Some (qi\<lparr>tqi_aifs := tqi_aifs qi_be,
                       tqi_cwmin := (if slottime ah = ATH9K_SLOT_TIME_20 then 2 else 4) * tqi_cwmin qi_be,
                       tqi_cwmax := tqi_cwmax qi_be\<rparr>) }
            else Some qi);
     (r, ah) \<leftarrow> ath9k_hw_set_txq_props ah (beaconq p) qi;
     let p = p\<lparr>htc_ah := ah\<rparr>;
     if \<not> r then Some (p, s)
     else do {
       (r, ah, s) \<leftarrow> ath9k_hw_resettxqueue ops (nat (beaconq p)) (htc_ah p) s;
       Some (p\<lparr>htc_ah := ah\<rparr>, s) } }"

section \<open>Receive filter\<close>

definition ath9k_htc_calcrxfilter :: "'s ath_ops \<Rightarrow> htc_priv \<Rightarrow> 's \<Rightarrow> (u32 \<times> 's) option" where
  "ath9k_htc_calcrxfilter ops p s = do {
     (old, s) \<leftarrow> ath9k_hw_getrxfilter ops s;
     let ah = htc_ah p;
     let fif = rxfilter p;
     let rfilt = (old AND (ATH9K_RX_FILTER_PHYERR OR ATH9K_RX_FILTER_PHYRADAR)) OR 0x1 OR 0x4 OR 0x2;
     let rfilt = (if has_flag fif FIF_PROBE_REQ then rfilt OR 0x80 else rfilt);
     let rfilt = (if (opmode ah \<noteq> IFTYPE_AP \<and> has_flag fif FIF_PROMISC_IN_BSS) \<or> ath_hw.is_monitoring ah
                  then rfilt OR 0x20 else rfilt);
     let rfilt = (if has_flag fif FIF_CONTROL then rfilt OR 0x8 else rfilt);
     let rfilt = (if opmode ah = IFTYPE_STATION \<and> nvifs p \<le> 1 \<and> \<not> has_flag fif FIF_BCN_PRBRESP_PROMISC
                  then rfilt OR 0x200 else rfilt OR 0x10);
     let rfilt = (if conf_ht (htc_base p) then rfilt OR 0x400 OR 0x1000 else rfilt);
     let rfilt = (if has_flag fif FIF_PSPOLL then rfilt OR 0x4000 else rfilt);
     let rfilt = (if 1 < nvifs p then rfilt OR 0x8000 else rfilt);
     Some (rfilt, s) }"

definition ath9k_htc_opmode_init :: "'s ath_ops \<Rightarrow> htc_priv \<Rightarrow> 's \<Rightarrow> 's option" where
  "ath9k_htc_opmode_init ops p s = do {
     (rfilt, s) \<leftarrow> ath9k_htc_calcrxfilter ops p s;
     s \<leftarrow> ath9k_hw_setrxfilter ops (htc_ah p) rfilt s;
     ath9k_hw_setmcastfilter ops (NOT 0) (NOT 0) s }"

section \<open>Beacon timers\<close>

definition TSF_TO_TU :: "u32 \<Rightarrow> u32 \<Rightarrow> u32" where
  "TSF_TO_TU h l = push_bit 22 h OR drop_bit 10 l"

definition tsf_tu :: "u64 \<Rightarrow> u32" where
  \<comment> \<open>\<open>TSF_TO_TU(tsf >> 32, tsf)\<close>\<close>
  "tsf_tu tsf = TSF_TO_TU (ucast (drop_bit 32 tsf)) (ucast tsf)"

definition WMI_CMD :: "'s wmi_exec \<Rightarrow> u16 \<Rightarrow> bytes \<Rightarrow> u8 \<Rightarrow> wmi \<times> 's \<Rightarrow> (int \<times> wmi \<times> 's) option" where
  \<comment> \<open>\<open>WMI_CMD\<close> and \<open>WMI_CMD_BUF\<close>; the last byte is the uninitialised \<open>cmd_rsp\<close>\<close>
  "WMI_CMD exec c buf cmd_rsp s = (case s of (w, x) \<Rightarrow> do {
     (ret, rsp, w, x) \<leftarrow> exec c buf [cmd_rsp] w x;
     Some (ret, w, x) })"

definition sta_beacon_state :: "htc_beacon_config \<Rightarrow> u64 \<Rightarrow> ath9k_beacon_state option" where
  \<comment> \<open>the computation of \<open>ath9k_htc_beacon_config_sta\<close>; a zero beacon interval divides by zero\<close>
  "sta_beacon_state conf tsf =
     (let intval = ucast (beacon_interval conf) :: u32 in
      if intval = 0 then None
      else
       (let bmiss_timeout = ATH_DEFAULT_BMISS_LIMIT * uint (beacon_interval conf);
            dtimperiod = uint (dtim_period conf);
            dtimperiod = (if dtimperiod \<le> 0 then 1 else dtimperiod);
            dtimcount = 1;
            dtimcount = (if dtimcount \<ge> dtimperiod then 0 else dtimcount);
            cfpperiod = 1;
            cfpcount = 0;
            sleepduration = sint intval;
            sleepduration = (if sleepduration \<le> 0 then sint intval else sleepduration);
            tsftu = tsf_tu tsf + FUDGE;
            num_beacons = sint (tsftu div intval + 1);
            offset = sint (tsftu mod intval);
            nexttbtt = tsftu - word_of_int offset;
            nexttbtt = (if offset \<noteq> 0 then nexttbtt + intval else nexttbtt);
            dtim_dec_count = num_beacons smod dtimperiod;
            cfp_dec_count = (num_beacons sdiv dtimperiod) smod cfpperiod;
            cfp_dec_count = (if dtim_dec_count \<noteq> 0 then cfp_dec_count + 1 else cfp_dec_count);
            dtimcount = dtimcount - dtim_dec_count;
            dtimcount = (if dtimcount < 0 then dtimcount + dtimperiod else dtimcount);
            cfpcount = cfpcount - cfp_dec_count;
            cfpcount = (if cfpcount < 0 then cfpcount + cfpperiod else cfpcount);
            bs_dtim = word_of_int dtimperiod * intval;
            nextdtim = nexttbtt + word_of_int dtimcount * intval;
            threshold = ucast ((word_of_int bmiss_timeout + intval - 1) div intval) :: u16;
            threshold = (if intval < word_of_int sleepduration then 5
                         else if 15 < threshold then 15 else if threshold = 0 then 1 else threshold);
            sleep = word_of_int (((97 + (sleepduration - 1)) div sleepduration) * sleepduration) :: u32;
            sleep = (if bs_dtim < sleep then bs_dtim else sleep)
        in Some \<lparr>bs_nexttbtt = nexttbtt, bs_nextdtim = nextdtim, bs_intval = intval,
                 bs_dtimperiod = bs_dtim, bs_cfpperiod = ucast (word_of_int cfpperiod * bs_dtim),
                 bs_cfpmaxduration = 0, bs_cfpnext = nextdtim + word_of_int cfpcount * bs_dtim,
                 bs_timoffset = 0, bs_bmissthreshold = threshold, bs_sleepduration = sleep,
                 bs_tsfoor_threshold = ATH9K_TSFOOR_THRESHOLD\<rparr>))"

definition ath9k_htc_beacon_config_sta ::
  "'s wmi_exec \<Rightarrow> bytes \<Rightarrow> htc_priv \<Rightarrow> wmi \<times> 's \<Rightarrow> (htc_priv \<times> wmi \<times> 's) option" where
  "ath9k_htc_beacon_config_sta exec junk p s = do {
     (tsf, s) \<leftarrow> ath9k_hw_gettsf64 (htc_ops exec junk) s;
     bs \<leftarrow> sta_beacon_state (cur_beacon_conf p) tsf;
     (r, s) \<leftarrow> WMI_CMD exec WMI_DISABLE_INTR_CMDID [] (junk ! 0) s;
     s \<leftarrow> ath9k_hw_set_sta_beacon_timers (htc_ops exec junk) (htc_ah p) bs s;
     (r, s) \<leftarrow> WMI_CMD exec WMI_ENABLE_INTR_CMDID (be32_bytes ATH9K_INT_BMISS) (junk ! 0) s;
     Some (p, s) }"

partial_function (option) pull_tbtt :: "u32 \<Rightarrow> u32 \<Rightarrow> u32 \<Rightarrow> u32 option" where
  \<comment> \<open>the loop \<open>do nexttbtt += intval; while (nexttbtt < tsftu)\<close>\<close>
  [code]: "pull_tbtt intval tsftu nexttbtt =
     (let nexttbtt = nexttbtt + intval in
      if nexttbtt < tsftu then pull_tbtt intval tsftu nexttbtt else Some nexttbtt)"

definition swba_response :: "u32 \<Rightarrow> htc_priv \<Rightarrow> htc_priv" where
  "swba_response intval p = p\<lparr>htc_ah := (htc_ah p)\<lparr>sw_beacon_response_time :=
     (if word_of_int DEFAULT_SWBA_RESPONSE < intval then DEFAULT_SWBA_RESPONSE else MIN_SWBA_RESPONSE)\<rparr>\<rparr>"

definition start_beacon_timers ::
  "'s wmi_exec \<Rightarrow> bytes \<Rightarrow> u32 \<Rightarrow> u32 \<Rightarrow> htc_priv \<Rightarrow> wmi \<times> 's \<Rightarrow> (htc_priv \<times> wmi \<times> 's) option" where
  \<comment> \<open>the end of \<open>ath9k_htc_beacon_config_ap\<close> and \<open>ath9k_htc_beacon_config_adhoc\<close>\<close>
  "start_beacon_timers exec junk nexttbtt intval p s = do {
     enabled \<leftarrow> test_op OP_ENABLE_BEACON p;
     let imask = (if enabled then ATH9K_INT_SWBA else 0);
     (r, s) \<leftarrow> WMI_CMD exec WMI_DISABLE_INTR_CMDID [] (junk ! 0) s;
     s \<leftarrow> ath9k_hw_beaconinit (htc_ops exec junk) (htc_ah p) (TU_TO_USEC nexttbtt) (TU_TO_USEC intval) s;
     let p = set_conf (\<lambda>c. c\<lparr>bmiss_cnt := 0\<rparr>) p;
     (r, s) \<leftarrow> WMI_CMD exec WMI_ENABLE_INTR_CMDID (be32_bytes imask) (junk ! 0) s;
     Some (p, s) }"

definition ath9k_htc_beacon_config_ap ::
  "'s wmi_exec \<Rightarrow> bytes \<Rightarrow> htc_priv \<Rightarrow> wmi \<times> 's \<Rightarrow> (htc_priv \<times> wmi \<times> 's) option" where
  "ath9k_htc_beacon_config_ap exec junk p s = do {
     let ops = htc_ops exec junk;
     let intval = ucast (beacon_interval (cur_beacon_conf p)) div word_of_nat ATH9K_HTC_MAX_BCN_VIF;
     let p = swba_response intval p;
     reset \<leftarrow> test_op OP_TSF_RESET p;
     (nexttbtt, p, s) \<leftarrow>
       (if reset then do {
          s \<leftarrow> ath9k_hw_reset_tsf ops s;
          p \<leftarrow> clear_op OP_TSF_RESET p;
          Some (intval, p, s) }
        else do {
          (tsf, s) \<leftarrow> ath9k_hw_gettsf64 ops s;
          n \<leftarrow> pull_tbtt intval (tsf_tu tsf + FUDGE) intval;
          Some (n, p, s) });
     (p, s) \<leftarrow> ath9k_htc_beaconq_config ops p s;
     start_beacon_timers exec junk nexttbtt intval p s }"

definition ath9k_htc_beacon_config_adhoc ::
  "'s wmi_exec \<Rightarrow> bytes \<Rightarrow> htc_priv \<Rightarrow> wmi \<times> 's \<Rightarrow> (htc_priv \<times> wmi \<times> 's) option" where
  "ath9k_htc_beacon_config_adhoc exec junk p s = do {
     let intval = ucast (beacon_interval (cur_beacon_conf p));
     (tsf, s) \<leftarrow> ath9k_hw_gettsf64 (htc_ops exec junk) s;
     nexttbtt \<leftarrow> pull_tbtt intval (tsf_tu tsf + FUDGE) intval;
     start_beacon_timers exec junk nexttbtt intval (swba_response intval p) s }"

section \<open>Beacon configuration\<close>

definition ath9k_htc_beacon_iter :: "htc_priv \<Rightarrow> nat \<Rightarrow> bool" where
  "ath9k_htc_beacon_iter p v \<longleftrightarrow> vif_type (vif_of p v) = IFTYPE_STATION \<and> beacon_configured (vif_of p v)"

definition ath9k_htc_check_beacon_config :: "htc_priv \<Rightarrow> nat \<Rightarrow> bool" where
  "ath9k_htc_check_beacon_config p v =
     (let vif = vif_of p v; mode = opmode (htc_ah p) in
      if mode = IFTYPE_AP \<and> 1 < num_ap_vif p \<and> vif_type vif = IFTYPE_AP \<and>
         beacon_interval (cur_beacon_conf p) \<noteq> bss_beacon_int vif then False
      else if num_ap_vif p \<noteq> 0 \<and> vif_type vif \<noteq> IFTYPE_AP then False
      else if mode = IFTYPE_STATION \<and> 1 < num_sta_vif p \<and> vif_type vif = IFTYPE_STATION \<and>
         list_ex (ath9k_htc_beacon_iter p) (active_vifs p) then False
      else True)"

definition new_beacon_conf :: "ieee80211_vif \<Rightarrow> htc_beacon_config \<Rightarrow> htc_beacon_config" where
  "new_beacon_conf vif conf =
     (let interval = (if bss_beacon_int vif = 0 then 100 else bss_beacon_int vif) in
      conf\<lparr>beacon_interval := interval, dtim_period := ucast (bss_dtim_period vif),
           bmiss_timeout := 10 * interval\<rparr>)"

definition ath9k_htc_beacon_config ::
  "'s wmi_exec \<Rightarrow> bytes \<Rightarrow> nat \<Rightarrow> htc_priv \<Rightarrow> wmi \<times> 's \<Rightarrow> (htc_priv \<times> wmi \<times> 's) option" where
  "ath9k_htc_beacon_config exec junk v p s =
     (if \<not> ath9k_htc_check_beacon_config p v then Some (p, s)
      else
       (let vif = vif_of p v; p = set_conf (new_beacon_conf vif) p in
        case vif_type vif of
          IFTYPE_STATION \<Rightarrow> do {
            (p, s) \<leftarrow> ath9k_htc_beacon_config_sta exec junk p s;
            Some (set_vif v (\<lambda>x. x\<lparr>beacon_configured := True\<rparr>) p, s) }
        | IFTYPE_ADHOC \<Rightarrow> ath9k_htc_beacon_config_adhoc exec junk p s
        | IFTYPE_AP \<Rightarrow> ath9k_htc_beacon_config_ap exec junk p s
        | _ \<Rightarrow> Some (p, s)))"

definition ath9k_htc_beacon_reconfig ::
  "'s wmi_exec \<Rightarrow> bytes \<Rightarrow> htc_priv \<Rightarrow> wmi \<times> 's \<Rightarrow> (htc_priv \<times> wmi \<times> 's) option" where
  "ath9k_htc_beacon_reconfig exec junk p s =
     (case opmode (htc_ah p) of
        IFTYPE_STATION \<Rightarrow> ath9k_htc_beacon_config_sta exec junk p s
      | IFTYPE_ADHOC \<Rightarrow> ath9k_htc_beacon_config_adhoc exec junk p s
      | IFTYPE_AP \<Rightarrow> ath9k_htc_beacon_config_ap exec junk p s
      | _ \<Rightarrow> Some (p, s))"

section \<open>Slots\<close>

fun free_bslot :: "nat option list \<Rightarrow> nat option" where
  \<comment> \<open>the first free slot\<close>
  "free_bslot [] = None"
| "free_bslot (None # xs) = Some 0"
| "free_bslot (Some v # xs) = map_option Suc (free_bslot xs)"

definition set_bslot :: "int \<Rightarrow> nat option \<Rightarrow> htc_priv \<Rightarrow> htc_priv option" where
  \<comment> \<open>\<open>priv->cur_beacon_conf.bslot[i] = v\<close>\<close>
  "set_bslot i v p =
     (if 0 \<le> i \<and> i < int (length (bslot (cur_beacon_conf p)))
      then Some (set_conf (\<lambda>c. c\<lparr>bslot := (bslot c)[nat i := v]\<rparr>) p) else None)"

definition ath9k_htc_assign_bslot :: "nat \<Rightarrow> htc_priv \<Rightarrow> htc_priv option" where
  "ath9k_htc_assign_bslot v p =
     (let p = (case free_bslot (take ATH9K_HTC_MAX_BCN_VIF (bslot (cur_beacon_conf p))) of
                 Some i \<Rightarrow> set_vif v (\<lambda>x. x\<lparr>avp_bslot := int i\<rparr>) p
               | None \<Rightarrow> p)
      in set_bslot (avp_bslot (vif_of p v)) (Some v) p)"

definition ath9k_htc_remove_bslot :: "nat \<Rightarrow> htc_priv \<Rightarrow> htc_priv option" where
  "ath9k_htc_remove_bslot v p = set_bslot (avp_bslot (vif_of p v)) None p"

definition ath9k_htc_set_tsfadjust :: "nat \<Rightarrow> htc_priv \<Rightarrow> htc_priv" where
  \<comment> \<open>\<open>beacon_interval * bslot / 2\<close> is computed in \<open>int\<close> and converted to \<open>u64\<close>\<close>
  "ath9k_htc_set_tsfadjust v p =
     (let slot = avp_bslot (vif_of p v) in
      if slot = 0 then p
      else
       (let adj = word_of_int ((uint (beacon_interval (cur_beacon_conf p)) * slot) sdiv 2) :: u64;
            usec = push_bit 10 adj;
            le = le32_bytes (ucast usec) @ le32_bytes (ucast (drop_bit 32 usec))
        in p\<lparr>htc_base := (htc_base p)\<lparr>priv_vif := (priv_vif (htc_base p))
               (v := (priv_vif (htc_base p) v)\<lparr>tsfadjust := le\<rparr>)\<rparr>\<rparr>))"

definition ath9k_htc_choose_bslot :: "htc_priv \<Rightarrow> wmi_event_swba \<Rightarrow> int option" where
  \<comment> \<open>a zero beacon interval divides by zero\<close>
  "ath9k_htc_choose_bslot p swba =
     (let intval = ucast (beacon_interval (cur_beacon_conf p)) :: u32;
          tsftu = tsf_tu (swba_tsf swba)
      in if intval = 0 then None
         else (let slot = sint (((tsftu mod intval) * word_of_nat ATH9K_HTC_MAX_BCN_VIF) div intval)
               in Some (int ATH9K_HTC_MAX_BCN_VIF - slot - 1)))"

section \<open>Frames\<close>

definition send_cab_frame ::
  "'t transport \<Rightarrow> u64 \<Rightarrow> ath9k_htc_priv \<Rightarrow> sk_buff \<Rightarrow> 't \<Rightarrow> (ath9k_htc_priv \<times> 't \<times> mac_call list) option" where
  \<comment> \<open>one round of the loop of \<open>ath9k_htc_send_buffered\<close>\<close>
  "send_cab_frame send now b skb t =
     (case tx_pad skb of
        None \<Rightarrow> None
      | Some None \<Rightarrow> Some (b, t, [Free_skb skb])
      | Some (Some skb) \<Rightarrow> do {
          (slot, tx) \<leftarrow> ath9k_htc_tx_get_slot (priv_tx b);
          let b = b\<lparr>priv_tx := tx\<rparr>;
          if slot < 0 then Some (b, t, [Free_skb skb])
          else do {
            (ret, skb, t, ups) \<leftarrow> ath9k_htc_tx_start send b None skb (word_of_int slot) True t;
            let (b, calls) = htc_upcalls now b ups;
            if ret \<noteq> 0 then do {
              tx \<leftarrow> ath9k_htc_tx_clear_slot (priv_tx b) (nat slot);
              Some (b\<lparr>priv_tx := tx\<rparr>, t, calls @ [Free_skb skb]) }
            else Some (b\<lparr>priv_tx := (priv_tx b)\<lparr>queued_cnt := queued_cnt (priv_tx b) + 1\<rparr>\<rparr>, t, calls) } })"

fun send_cab_frames ::
  "'t transport \<Rightarrow> u64 \<Rightarrow> ath9k_htc_priv \<Rightarrow> sk_buff list \<Rightarrow> 't \<Rightarrow> (ath9k_htc_priv \<times> 't \<times> mac_call list) option" where
  \<comment> \<open>the loop over the frames that \<open>ieee80211_get_buffered_bc\<close> returns\<close>
  "send_cab_frames send now b [] t = Some (b, t, [])"
| "send_cab_frames send now b (skb # skbs) t = do {
     (b, t, c) \<leftarrow> send_cab_frame send now b skb t;
     (b, t, cs) \<leftarrow> send_cab_frames send now b skbs t;
     Some (b, t, c @ cs) }"

definition ath9k_htc_send_buffered ::
  "'t transport \<Rightarrow> u64 \<Rightarrow> sk_buff list \<Rightarrow> htc_priv \<Rightarrow> 't \<Rightarrow> (htc_priv \<times> 't \<times> mac_call list) option" where
  "ath9k_htc_send_buffered send now skbs p t = do {
     (b, t, calls) \<leftarrow> send_cab_frames send now (htc_base p) skbs t;
     Some (p\<lparr>htc_base := b\<rparr>, t, calls) }"

definition tx_beacon_header :: "u8 \<Rightarrow> bytes" where
  "tx_beacon_header index = [index, 0, 0, 0]"

definition beacon_seq :: "nat \<Rightarrow> sk_buff \<Rightarrow> htc_priv \<Rightarrow> (sk_buff \<times> htc_priv) option" where
  \<comment> \<open>the sequence number, when mac80211 asks for one\<close>
  "beacon_seq v beacon p =
     (if has_flag (info_flags (skb_info beacon)) IEEE80211_TX_CTL_ASSIGN_SEQ then do {
        let p = set_vif v (\<lambda>x. x\<lparr>seq_no := seq_no x + 0x10\<rparr>) p;
        ctrl \<leftarrow> get_le16 (skb_mem beacon) 22;
        beacon \<leftarrow> skb_store 22 (le16_bytes ((ctrl AND IEEE80211_SCTL_FRAG) OR seq_no (vif_of p v))) beacon;
        Some (beacon, p) }
      else Some (beacon, p))"

definition ath9k_htc_send_beacon ::
  "'t transport \<Rightarrow> u64 \<Rightarrow> nat \<Rightarrow> sk_buff option \<Rightarrow> htc_priv \<Rightarrow> 't \<Rightarrow> (htc_priv \<times> 't \<times> mac_call list) option" where
  \<comment> \<open>\<open>vif\<close> is the interface in the slot, \<open>got\<close> what \<open>ieee80211_beacon_get\<close> returns\<close>
  "ath9k_htc_send_beacon send now v got p t = do {
     scanning \<leftarrow> test_op OP_SCANNING p;
     if scanning then Some (p, t, [])
     else (case got of
         None \<Rightarrow> Some (p, t, [])
       | Some beacon \<Rightarrow> do {
           let avp = priv_vif (htc_base p) v;
           beacon \<leftarrow> skb_store 24 (tsfadjust avp) beacon;
           (beacon, p) \<leftarrow> beacon_seq v beacon p;
           let beacon = beacon\<lparr>skb_cb := zero_ctl\<lparr>ctl_type := ATH9K_HTC_BEACON,
             ctl_epid := word_of_int (beacon_ep (priv_eps (htc_base p)))\<rparr>\<rparr>;
           beacon \<leftarrow> skb_push_bytes (tx_beacon_header (vif_index avp)) beacon;
           (ret, beacon, t, ups) \<leftarrow> send beacon t;
           let (b, calls) = htc_upcalls now (htc_base p) ups;
           Some (p\<lparr>htc_base := b\<rparr>, t, calls @ (if ret \<noteq> 0 then [Free_skb beacon] else [])) }) }"

definition ath9k_htc_swba ::
  "'t transport \<Rightarrow> u64 \<Rightarrow> (nat \<Rightarrow> sk_buff list) \<Rightarrow> (nat \<Rightarrow> sk_buff option) \<Rightarrow> wmi_event_swba \<Rightarrow> htc_priv \<Rightarrow> 't \<Rightarrow>
     (htc_priv \<times> 't \<times> drv_call list) option" where
  \<comment> \<open>\<open>buffered\<close> and \<open>get\<close> are mac80211's answers for an interface\<close>
  "ath9k_htc_swba send now buffered get swba p t =
     (if beacon_pending swba \<noteq> 0 then
        (let p = set_conf (\<lambda>c. c\<lparr>bmiss_cnt := bmiss_cnt c + 1\<rparr>) p in
         Some (p, t, if BSTUCK_THRESHOLD < bmiss_cnt (cur_beacon_conf p) then [Queue_fatal_work] else []))
      else do {
        let p = set_conf (\<lambda>c. c\<lparr>bmiss_cnt := 0\<rparr>) p;
        slot \<leftarrow> ath9k_htc_choose_bslot p swba;
        entry \<leftarrow> (if 0 \<le> slot \<and> slot < int (length (bslot (cur_beacon_conf p)))
                 then Some (bslot (cur_beacon_conf p) ! nat slot) else None);
        case entry of
          None \<Rightarrow> Some (p, t, [])
        | Some v \<Rightarrow> do {
            (p, t, c1) \<leftarrow> ath9k_htc_send_buffered send now (buffered v) p t;
            (p, t, c2) \<leftarrow> ath9k_htc_send_beacon send now v (get v) p t;
            Some (p, t, map Mac (c1 @ c2)) } })"

section \<open>Queue table\<close>

lemma cw_choice: "\<exists>w. (if b then cw_up 1 (min cw 1024) else Some d) = Some w"
  by (cases b) (use cw_up_total [of "min cw 1024"] in auto)

lemma setuptxqueue_ok:
  assumes "txq_number ah type = int n" and "n < length (txq ah)" and "tqi_type (txq ah ! n) = TX_QUEUE_INACTIVE"
    and "type \<noteq> TX_QUEUE_INACTIVE"
  obtains qi where "ath9k_hw_setuptxqueue ah type i = Some (int n, set_txq (int n) qi ah)" "tqi_type qi = type"
proof -
  obtain w where w: "(if tqi_cwmin i \<noteq> ATH9K_TXQ_USEDEFAULT then cw_up 1 (min (tqi_cwmin i) 1024) else Some (tqi_cwmin i)) = Some w"
    using cw_choice by blast
  obtain x where x: "(if tqi_cwmax i \<noteq> ATH9K_TXQ_USEDEFAULT then cw_up 1 (min (tqi_cwmax i) 1024) else Some INIT_CWMAX) = Some x"
    using cw_choice by blast
  let ?ah = "set_txq (int n) (qi_zero\<lparr>tqi_type := type, tqi_physCompBuf := tqi_physCompBuf i\<rparr>) ah"
  have a: "txq_at ?ah (int n) = Some (qi_zero\<lparr>tqi_type := type, tqi_physCompBuf := tqi_physCompBuf i\<rparr>)"
    using assms(2) by (simp add: txq_at_def set_txq_def)
  have ne: "tqi_type (qi_zero\<lparr>tqi_type := type, tqi_physCompBuf := tqi_physCompBuf i\<rparr>) = TX_QUEUE_INACTIVE \<longleftrightarrow> False"
    using assms(4) by simp
  have "\<exists>qi. ath9k_hw_set_txq_props ?ah (int n) i = Some (True, set_txq (int n) qi ?ah) \<and> tqi_type qi = type"
    unfolding ath9k_hw_set_txq_props_def a w x
    by (simp only: bind.bind_lunit ne if_False) (rule exI, rule conjI, rule refl, simp del: if_split)
  then show thesis
    using that assms by (auto simp: ath9k_hw_setuptxqueue_def txq_at_def set_txq_def Let_def)
qed

definition txq_types :: "ath_hw \<Rightarrow> ath9k_tx_queue list" where
  "txq_types ah = map tqi_type (txq ah)"

lemma first_inactive_types: "first_inactive qs = length (takeWhile (\<lambda>t. t \<noteq> TX_QUEUE_INACTIVE) (map tqi_type qs))"
  by (induction qs) auto

lemma txq_number_types:
  "length (txq_types ah) = 10 \<Longrightarrow> txq_number ah TX_QUEUE_DATA =
     (let n = length (takeWhile (\<lambda>t. t \<noteq> TX_QUEUE_INACTIVE) (txq_types ah)) in if n = 10 then -1 else int n)"
  by (simp add: txq_number_def first_inactive_types txq_types_def)

lemma setup_types:
  assumes "txq_number ah type = int n" and "n < length (txq_types ah)" and "txq_types ah ! n = TX_QUEUE_INACTIVE"
    and "type \<noteq> TX_QUEUE_INACTIVE"
  obtains ah' where "ath9k_hw_setuptxqueue ah type i = Some (int n, ah')" "txq_types ah' = (txq_types ah)[n := type]"
  by (rule setuptxqueue_ok [of ah type n i]) (use assms that in \<open>auto simp: txq_types_def set_txq_def map_update\<close>)

lemma data_queue_setup:
  assumes "length (txq_types (htc_ah p)) = 10" and "n < 4" and "length (hwq_map p) = 4"
    and "length (takeWhile (\<lambda>t. t \<noteq> TX_QUEUE_INACTIVE) (txq_types (htc_ah p))) = n"
  obtains p' where "ath9k_htc_txq_setup ops ac p s = Some (True, p', s)" "beaconq p' = beaconq p" "cabq p' = cabq p"
    "hwq_map p' = (hwq_map p)[ac := int n]" "txq_types (htc_ah p') = (txq_types (htc_ah p))[n := TX_QUEUE_DATA]"
proof -
  have num: "txq_number (htc_ah p) TX_QUEUE_DATA = int n" using txq_number_types [OF assms(1)] assms(2,4) by simp
  have "txq_types (htc_ah p) ! n = TX_QUEUE_INACTIVE"
    using nth_length_takeWhile [of "\<lambda>t. t \<noteq> TX_QUEUE_INACTIVE" "txq_types (htc_ah p)"] assms(1,2,4) by simp
  then obtain ah' where "ath9k_hw_setuptxqueue (htc_ah p) TX_QUEUE_DATA (ATH9K_HTC_INIT_TXQ ac) = Some (int n, ah')"
    "txq_types ah' = (txq_types (htc_ah p))[n := TX_QUEUE_DATA]"
    using setup_types [OF num, of "ATH9K_HTC_INIT_TXQ ac"] assms(1,2) by auto
  then show thesis using that [of "p\<lparr>htc_ah := ah', hwq_map := (hwq_map p)[ac := int n]\<rparr>"] assms(2,3)
    by (simp add: ath9k_htc_txq_setup_def)
qed

section \<open>Slot choice\<close>

lemma unat_mod_lt: "(d :: 'a::len word) \<noteq> 0 \<Longrightarrow> unat (x mod d) < unat d"
  by (simp add: unat_mod_distrib unat_gt_0)

lemma choose_bslot_value:
  assumes "beacon_interval (cur_beacon_conf p) \<noteq> 0"
  shows "ath9k_htc_choose_bslot p swba =
    Some (if 2 * (unat (tsf_tu (swba_tsf swba)) mod unat (beacon_interval (cur_beacon_conf p)))
             < unat (beacon_interval (cur_beacon_conf p)) then 1 else 0)"
proof -
  define I where "I = (ucast (beacon_interval (cur_beacon_conf p)) :: u32)"
  define m where "m = tsf_tu (swba_tsf swba) mod I"
  have uI: "unat I = unat (beacon_interval (cur_beacon_conf p))" by (simp add: I_def unsigned_ucast_eq take_bit_nat_eq_self_iff)
    (use unsigned_less [of "beacon_interval (cur_beacon_conf p)", where ?'a = nat] in simp)
  have I0: "I \<noteq> 0" using assms uI by (metis unsigned_0 unat_eq_zero)
  have lt: "unat I < 65536" unfolding uI using unsigned_less [of "beacon_interval (cur_beacon_conf p)", where ?'a = nat] by simp
  have um: "unat m = unat (tsf_tu (swba_tsf swba)) mod unat I" "unat m < unat I"
    using unat_mod_lt [OF I0] by (simp_all add: m_def unat_mod_distrib)
  have "unat (m * 2) = 2 * unat m" using um(2) lt unat_mult_lem [THEN iffD1, of m 2] by simp
  then have u: "unat ((m * 2) div I) = 2 * unat m div unat I" by (simp add: unat_div_distrib)
  also have "\<dots> = (if 2 * unat m < unat I then 0 else 1)"
    using um(2) by (auto simp: div_nat_eqI)
  finally have v: "unat ((m * 2) div I) = (if 2 * unat m < unat I then 0 else 1)" .
  then have "(m * 2) div I = (if 2 * unat m < unat I then 0 else 1)"
    by (intro word_unat_eq_iff [THEN iffD2]) simp
  then have "sint ((m * 2) div I) = (if 2 * unat m < unat I then 0 else 1)" by simp
  then show ?thesis
    using I0 unfolding ath9k_htc_choose_bslot_def Let_def I_def [symmetric] m_def [symmetric] um(1) [symmetric] uI [symmetric]
    by simp
qed

section \<open>Next beacon time\<close>


lemma pull_tbtt_least:
  assumes "0 < unat intval" and "unat tsftu + unat intval \<le> 2 ^ 32" and "unat n < unat tsftu \<or> unat n + unat intval < 2 ^ 32"
  shows "\<exists>k. pull_tbtt intval tsftu n = Some (n + of_nat k * intval) \<and> 1 \<le> k \<and>
    unat (n + of_nat k * intval) = unat n + k * unat intval \<and> unat tsftu \<le> unat n + k * unat intval \<and>
    (k = 1 \<or> unat n + (k - 1) * unat intval < unat tsftu)"
  using assms
proof (induction "unat tsftu - unat n" arbitrary: n rule: less_induct)
  case less
  have "unat n + unat intval < 2 ^ 32" using less.prems by linarith
  then have u: "unat (n + intval) = unat n + unat intval" by (simp add: unat_add_lem [THEN iffD1])
  show ?case
  proof (cases "n + intval < tsftu")
    case True
    then have lt: "unat n + unat intval < unat tsftu" by (simp add: word_less_nat_alt u)
    have dec: "unat tsftu - unat (n + intval) < unat tsftu - unat n" using lt less.prems(1) by (simp add: u)
    obtain k where k: "pull_tbtt intval tsftu (n + intval) = Some (n + intval + of_nat k * intval)" "1 \<le> k"
      "unat (n + intval + of_nat k * intval) = unat (n + intval) + k * unat intval"
      "unat tsftu \<le> unat (n + intval) + k * unat intval"
      "k = 1 \<or> unat (n + intval) + (k - 1) * unat intval < unat tsftu"
      using less.hyps [OF dec less.prems(1,2)] lt by (auto simp: u)
    have e: "n + intval + of_nat k * intval = n + of_nat (Suc k) * intval" by (simp add: algebra_simps)
    have "unat n + k * unat intval < unat tsftu"
      using k(2,5) lt by (cases k) (auto simp: u)
    then show ?thesis
      using k True by (intro exI [of _ "Suc k"], subst pull_tbtt.simps) (simp add: e u Let_def del: of_nat_Suc)
  next
    case False
    then show ?thesis using u less.prems
      by (intro exI [of _ 1], subst pull_tbtt.simps) (auto simp: Let_def word_less_nat_alt)
  qed
qed

text \<open>The loop does not end when no reachable value is late enough.\<close>

lemma pull_tbtt_never:
  assumes "\<And>k. n + of_nat (Suc k) * intval < tsftu"
  shows "pull_tbtt intval tsftu n = None"
proof -
  have "\<exists>k. \<not> n + of_nat (Suc k) * i < t" if h: "pull_tbtt i t n = Some y" for i t n y
  proof (rule pull_tbtt.raw_induct [OF _ h, where P = "\<lambda>i t n y. \<exists>k. \<not> n + of_nat (Suc k) * i < t"])
    fix pull i t n y
    assume ih: "\<And>i t n y. pull i t n = Some y \<Longrightarrow> \<exists>k. \<not> n + of_nat (Suc k) * i < t"
      and run: "(let n = n + i in if n < t then pull i t n else Some n) = Some y"
    show "\<exists>k. \<not> n + of_nat (Suc k) * i < t"
    proof (cases "n + i < t")
      case True
      then obtain k where "\<not> n + i + of_nat (Suc k) * i < t" using ih [of i t "n + i" y] run by (auto simp: Let_def)
      then have "\<not> n + of_nat (Suc (Suc k)) * i < t" by (simp add: algebra_simps)
      then show ?thesis by blast
    next
      case False
      then show ?thesis by (intro exI [of _ 0]) simp
    qed
  qed
  then show ?thesis using assms by (cases "pull_tbtt intval tsftu n") blast+
qed

lemma pow2_multiples:
  assumes "j < 32"
  shows "unat (of_nat k * (2 ^ j) :: u32) \<le> 2 ^ 32 - 2 ^ j"
proof -
  have e: "(of_nat k * 2 ^ j :: u32) = of_nat (k * 2 ^ j)" by simp
  have u: "unat (of_nat k * 2 ^ j :: u32) = (k * 2 ^ j) mod 2 ^ 32"
    by (simp only: e unat_of_nat) simp
  have split: "(2 :: nat) ^ 32 = 2 ^ j * 2 ^ (32 - j)" using assms by (simp add: power_add [symmetric])
  have "(k * 2 ^ j) mod 2 ^ 32 = 2 ^ j * (k mod 2 ^ (32 - j))"
    unfolding split mult.commute [of k] by (rule mod_mult_mult1)
  moreover have "k mod 2 ^ (32 - j) < 2 ^ (32 - j)" by simp
  then have "k mod 2 ^ (32 - j) \<le> 2 ^ (32 - j) - 1" by linarith
  ultimately have "(k * 2 ^ j) mod 2 ^ 32 \<le> 2 ^ j * (2 ^ (32 - j) - 1)" by simp
  then show ?thesis using split by (simp add: u diff_mult_distrib2)
qed

lemma smod_nonneg: "0 \<le> (a :: int) \<Longrightarrow> 0 < b \<Longrightarrow> a smod b = a mod b"
  by (auto simp: signed_modulo_int_def signed_divide_int_def sgn_if minus_div_mult_eq_mod)

lemma sint_small: "unat (w :: u32) < 2 ^ 31 \<Longrightarrow> sint w = int (unat w)"
  by (simp add: sint_uint signed_take_bit_int_eq_self uint_nat del: of_nat_unat)

section \<open>Station timers\<close>

lemma dtim_count:
  \<comment> \<open>the beacons to wait for the next DTIM\<close>
  fixes N P :: nat
  assumes "0 < P"
  defines "c \<equiv> (if (1::int) \<ge> int P then 0 else 1) - int N mod int P"
  shows "\<exists>d<P. (if c < 0 then c + int P else c) = int d \<and> (N + d) mod P = 1 mod P"
proof (cases "P = 1")
  case False
  with assms(1) have P: "1 < P" by linarith
  define r where "r = N mod P"
  have r: "r < P" "int N mod int P = int r" using assms(1) by (simp_all add: r_def zmod_int)
  define d where "d = (if r \<le> 1 then 1 - r else Suc P - r)"
  have eq: "(if c < 0 then c + int P else c) = int d" using P r by (auto simp: c_def d_def)
  have "r + d = 1 \<or> r + d = 1 + P" using r by (auto simp: d_def)
  then have "(r + d) mod P = 1 mod P" using mod_add_self2 [of 1 P] by (elim disjE) (simp_all only:)
  then have "(N + d) mod P = 1 mod P" by (simp add: r_def mod_add_left_eq)
  moreover have "d < P" using P r by (auto simp: d_def)
  ultimately show ?thesis using eq by blast
qed (simp add: c_def)

lemma next_multiple:
  fixes T I :: nat
  assumes "0 < I"
  defines "n \<equiv> T div I + (if T mod I = 0 then 0 else 1)"
  shows "T - T mod I + (if T mod I = 0 then 0 else I) = n * I" and "T \<le> n * I" and "n * I < T + I"
proof -
  have e: "T - T mod I = T div I * I" by (simp add: minus_mod_eq_div_mult)
  show g: "T - T mod I + (if T mod I = 0 then 0 else I) = n * I" by (simp add: e n_def)
  show "T \<le> n * I" "n * I < T + I"
    unfolding g [symmetric] using mod_less_divisor [OF assms(1), of T] mod_less_eq_dividend [of T I] by auto
qed

lemma sta_beacon_state_fields:
  fixes conf :: htc_beacon_config and tsf :: u64
  defines "I \<equiv> unat (beacon_interval conf)"
  defines "P \<equiv> (if dtim_period conf = 0 then 1 else unat (dtim_period conf))"
  defines "T \<equiv> unat (tsf_tu tsf) + 2"
  defines "n \<equiv> T div I + (if T mod I = 0 then 0 else 1)"
  assumes "0 < I" and "P < 256" and "T + 2 ^ 24 < 2 ^ 31"
  shows "\<exists>bs d. sta_beacon_state conf tsf = Some bs \<and> d < P \<and> (T div I + 1 + d) mod P = 1 mod P \<and>
    unat (bs_nexttbtt bs) = n * I \<and> bs_nextdtim bs = bs_nexttbtt bs + of_nat d * of_nat I \<and>
    bs_intval bs = of_nat I \<and> bs_dtimperiod bs = of_nat P * of_nat I"
proof -
  define intval where "intval = (ucast (beacon_interval conf) :: u32)"
  define tsftu where "tsftu = tsf_tu tsf + FUDGE"
  have I: "unat intval = I" "I < 65536" "intval \<noteq> 0"
    using assms(5) unsigned_less [of "beacon_interval conf", where ?'a = nat] unat_eq_zero [of intval]
    by (auto simp: intval_def I_def unsigned_ucast_eq take_bit_nat_eq_self)
  then have iI: "intval = of_nat I" by auto
  have T: "unat tsftu = T" using assms(7) by (simp add: tsftu_def T_def unat_add_lem [THEN iffD1])
  have num: "sint (tsftu div intval + 1) = int (T div I + 1)"
  proof -
    have "T div I + 1 \<le> T + 1" by simp
    also have "\<dots> < 2 ^ 31" using assms(7) by simp
    finally have lt: "T div I + 1 < 2 ^ 31" .
    have "unat (tsftu div intval) = T div I" by (simp add: unat_div_distrib T I)
    then have "unat (tsftu div intval + 1) = T div I + 1" using lt by (simp add: unat_add_lem [THEN iffD1])
    then show ?thesis using lt by (simp add: sint_small)
  qed
  have um: "unat (tsftu mod intval) = T mod I" by (simp add: unat_mod_distrib T I)
  have off: "sint (tsftu mod intval) = int (T mod I)"
    using um mod_less_divisor [OF assms(5), of T] I(2) by (simp add: sint_small)
  define N where "N = tsftu - word_of_int (int (T mod I)) + (if T mod I = 0 then 0 else intval)"
  have uN: "unat N = n * I"
  proof -
    have "tsftu = of_nat T" using T by auto
    then have "N = of_nat (T - T mod I + (if T mod I = 0 then 0 else I))"
      using of_nat_diff [OF mod_less_eq_dividend [of T I], where ?'a = u32]
      by (simp add: N_def iI del: Nat.add_diff_assoc2)
    then have "N = of_nat (n * I)" using next_multiple(1) [OF assms(5), of T] by (simp only: n_def)
    moreover have "n * I < T + I" using next_multiple(3) [OF assms(5), of T] by (simp only: n_def)
    then have "n * I < 2 ^ 32" using assms(7) I(2) by simp
    ultimately show ?thesis by (simp only: unat_of_nat) simp
  qed
  have P: "0 < P" "(if uint (dtim_period conf) \<le> 0 then 1 else uint (dtim_period conf)) = int P"
    by (auto simp: P_def uint_nat word_le_nat_alt unat_gt_0 simp del: of_nat_unat)
  obtain d where d: "d < P" "(T div I + 1 + d) mod P = 1 mod P"
    "(let c = (if (1::int) \<ge> int P then 0 else 1) - int (T div I + 1) mod int P in if c < 0 then c + int P else c) = int d"
    using dtim_count [OF P(1), of "T div I + 1"] unfolding Let_def by blast
  have smod: "int (T div I + 1) smod int P = int (T div I + 1) mod int P" using P(1) by (intro smod_nonneg) auto
  have "sta_beacon_state conf tsf \<noteq> None \<and> (\<forall>bs. sta_beacon_state conf tsf = Some bs \<longrightarrow>
     bs_nexttbtt bs = N \<and> bs_nextdtim bs = N + word_of_int (int d) * intval \<and> bs_intval bs = intval \<and>
     bs_dtimperiod bs = word_of_int (int P) * intval)"
    using I(3) d(3) unfolding sta_beacon_state_def intval_def [symmetric] tsftu_def [symmetric] num off P(2) smod Let_def
    by (auto simp: N_def)
  then show ?thesis using d(1,2) uN iI by auto
qed

section \<open>Buffered frames\<close>

lemma cab_frame_ok:
  assumes inv: "drv_inv b out" and eps: "eps_ok (priv_eps b)" and fr: "mac_frame b None s" "14 \<le> skb_data s"
    and vif: "info_vif (skb_info s) \<noteq> None"
  shows "\<exists>tx' out' calls. send_cab_frame (passing ret) now b s out = Some (b\<lparr>priv_tx := tx'\<rparr>, out', calls) \<and>
    drv_inv (b\<lparr>priv_tx := tx'\<rparr>) out' \<and> tx_frames tx' = tx_frames (priv_tx b) \<and> txq_flags tx' = txq_flags (priv_tx b) \<and>
    reported calls = [] \<and>
    (if ret = 0 \<and> size (tx_frames (priv_tx b) + out) < 256
     then freed calls = [] \<and> (\<exists>f. out' = add_mset f out) else out' = out \<and> length (freed calls) = 1)"
proof -
  obtain t where t: "tx_pad s = Some (Some t)" "mac_frame b None t" "skb_info t = skb_info s"
    using tx_pad_ok [OF fr] by blast
  show ?thesis
  proof (rule get_slot_cases [OF inv])
    assume full: "256 \<le> size (tx_frames (priv_tx b) + out)" "ath9k_htc_tx_get_slot (priv_tx b) = Some (- ENOBUFS, priv_tx b)"
    then have "send_cab_frame (passing ret) now b s out = Some (b\<lparr>priv_tx := priv_tx b\<rparr>, out, [Free_skb t])"
      using t(1) by (simp add: send_cab_frame_def ENOBUFS_def)
    then show ?thesis using full inv by (intro exI [of _ "priv_tx b"]) simp
  next
    fix i tx1 tx2
    assume sz: "size (tx_frames (priv_tx b) + out) < 256" and i: "i < 256" "i \<notin> slots_used (priv_tx b)"
      and get: "ath9k_htc_tx_get_slot (priv_tx b) = Some (int i, tx1)" and r1: "tx1\<lparr>tx_slot := []\<rparr> = (priv_tx b)\<lparr>tx_slot := []\<rparr>"
      and clr: "ath9k_htc_tx_clear_slot tx1 i = Some tx2" and r2: "tx2\<lparr>tx_slot := []\<rparr> = (priv_tx b)\<lparr>tx_slot := []\<rparr>"
      and h2: "sp.holds (tx_cookie (priv_eps b)) (tx_frames (priv_tx b) + out) tx2"
      and h1: "\<And>f. tx_cookie (priv_eps b) f = i \<Longrightarrow> sp.holds (tx_cookie (priv_eps b)) (add_mset f (tx_frames (priv_tx b) + out)) tx1"
    let ?b1 = "b\<lparr>priv_tx := tx1\<rparr>" and ?w = "word_of_nat i :: u8"
    have w: "unat ?w = i" using i(1) by (simp add: unat_of_nat take_bit_nat_eq_self_iff)
    have p1: "eps_ok (priv_eps ?b1)" "mac_frame ?b1 None t" "info_vif (skb_info t) \<noteq> None \<or> ath9k_htc_priv.is_monitoring ?b1"
      using eps t(2,3) vif by (simp_all add: mac_frame_tx)
    obtain f where f: "tx_build ?b1 None t ?w True = Some (Some f)" "drv_frame (priv_eps b) f" "tx_cookie (priv_eps b) f = i"
      using tx_build_ok [OF p1, of ?w True] w by auto
    have st: "ath9k_htc_tx_start (passing ret) ?b1 None t ?w True out = Some (ret, f, if ret = 0 then add_mset f out else out, [])"
      using f(1) by (simp add: ath9k_htc_tx_start_def passing_def)
    show ?thesis
    proof (cases "ret = 0")
      case True
      let ?tx = "tx1\<lparr>queued_cnt := queued_cnt tx1 + 1\<rparr>"
      have "send_cab_frame (passing ret) now b s out = Some (b\<lparr>priv_tx := ?tx\<rparr>, add_mset f out, [])"
        using t(1) get st True by (simp add: send_cab_frame_def)
      moreover have fs: "tx_frames ?tx = tx_frames (priv_tx b)" "txq_flags ?tx = txq_flags (priv_tx b)"
        using tx_rest [OF r1] by (simp_all add: tx_frames_def)
      moreover have "sp.holds (tx_cookie (priv_eps b)) (add_mset f (tx_frames (priv_tx b) + out)) ?tx"
        using h1 [OF f(3)] by (subst holds_slots [of ?tx tx1]) simp_all
      then have "drv_inv (b\<lparr>priv_tx := ?tx\<rparr>) (add_mset f out)"
        using inv f(2) tx_rest [OF r1] fs(1) by (simp add: drv_inv_def)
      ultimately show ?thesis using True sz by (intro exI [of _ ?tx]) (simp add: reported_def freed_def)
    next
      case False
      have "send_cab_frame (passing ret) now b s out = Some (b\<lparr>priv_tx := tx2\<rparr>, out, [Free_skb f])"
        using t(1) get st clr False by (simp add: send_cab_frame_def)
      then show ?thesis using False drv_inv_slots [OF inv r2 h2] tx_rest [OF r2]
        by (intro exI [of _ tx2]) (simp add: tx_frames_def)
    qed
  qed
qed

lemma cab_frames_ok:
  assumes "drv_inv b out" and "eps_ok (priv_eps b)"
    and "\<forall>s \<in> set skbs. mac_frame b None s \<and> 14 \<le> skb_data s \<and> info_vif (skb_info s) \<noteq> None"
  shows "\<exists>tx' out' calls. send_cab_frames (passing ret) now b skbs out = Some (b\<lparr>priv_tx := tx'\<rparr>, out', calls) \<and>
    drv_inv (b\<lparr>priv_tx := tx'\<rparr>) out' \<and> tx_frames tx' = tx_frames (priv_tx b) \<and> txq_flags tx' = txq_flags (priv_tx b) \<and>
    reported calls = [] \<and> out \<subseteq># out' \<and> length (freed calls) + size out' = length skbs + size out \<and>
    size out' = size out + (if ret = 0 then min (length skbs) (256 - size (tx_frames (priv_tx b) + out)) else 0)"
  using assms
proof (induction skbs arbitrary: b out)
  case Nil
  then show ?case by (intro exI [of _ "priv_tx b"]) (simp add: reported_def freed_def)
next
  case (Cons s skbs)
  obtain tx1 out1 c1 where a: "send_cab_frame (passing ret) now b s out = Some (b\<lparr>priv_tx := tx1\<rparr>, out1, c1)"
    "drv_inv (b\<lparr>priv_tx := tx1\<rparr>) out1" "tx_frames tx1 = tx_frames (priv_tx b)" "txq_flags tx1 = txq_flags (priv_tx b)"
    "reported c1 = []"
    "if ret = 0 \<and> size (tx_frames (priv_tx b) + out) < 256
     then freed c1 = [] \<and> (\<exists>f. out1 = add_mset f out) else out1 = out \<and> length (freed c1) = 1"
    using cab_frame_ok [OF Cons.prems(1,2), of s ret now] Cons.prems(3) by auto
  obtain tx2 out2 c2 where c: "send_cab_frames (passing ret) now (b\<lparr>priv_tx := tx1\<rparr>) skbs out1 = Some (b\<lparr>priv_tx := tx2\<rparr>, out2, c2)"
    "drv_inv (b\<lparr>priv_tx := tx2\<rparr>) out2" "tx_frames tx2 = tx_frames tx1" "txq_flags tx2 = txq_flags tx1"
    "reported c2 = []" "out1 \<subseteq># out2" "length (freed c2) + size out2 = length skbs + size out1"
    "size out2 = size out1 + (if ret = 0 then min (length skbs) (256 - size (tx_frames tx1 + out1)) else 0)"
    using Cons.IH [OF a(2)] Cons.prems(2,3) by (auto simp: mac_frame_tx)
  have n: "length (freed (c1 @ c2)) = length (freed c1) + length (freed c2)" "reported (c1 @ c2) = []"
    using a(5) c(5) by (simp_all add: reported_def freed_def List.map_filter_def)
  have sub: "out \<subseteq># out2" using a(6) c(6) subset_mset.order_trans [of out "add_mset _ out" out2]
    by (auto split: if_splits)
  have sz: "length (freed c1) + size out1 = Suc (size out)" using a(6) by (auto split: if_splits)
  have "size out2 = size out + (if ret = 0 then min (length (s # skbs)) (256 - size (tx_frames (priv_tx b) + out)) else 0)"
    using a(3,6) c(8) by (auto split: if_splits)
  then show ?case using a(1,3,4) c(1-4,7) n sub sz by (intro exI [of _ tx2]) simp
qed

section \<open>The beacon frame\<close>

definition logging :: "int \<Rightarrow> sk_buff list transport" where
  \<comment> \<open>a transport that records the frames it is given and answers \<open>ret\<close>\<close>
  "logging ret = (\<lambda>f log. Some (ret, f, log @ [f], []))"

definition beacon_bytes :: "htc_priv \<Rightarrow> nat \<Rightarrow> sk_buff \<Rightarrow> bytes" where
  \<comment> \<open>the beacon on the air: the sequence number in bytes 22 and 23 when mac80211 leaves it to the
      driver, the TSF offset of the slot in the timestamp field\<close>
  "beacon_bytes p v beacon =
     (let bs = skb_bytes beacon;
          seq = (if has_flag (info_flags (skb_info beacon)) IEEE80211_TX_CTL_ASSIGN_SEQ
                 then le16_bytes ((le16 (bs ! 22) (bs ! 23) AND IEEE80211_SCTL_FRAG) OR (seq_no (vif_of p v) + 0x10))
                 else [bs ! 22, bs ! 23])
      in take 22 bs @ seq @ tsfadjust (priv_vif (htc_base p) v) @ drop 32 bs)"

lemma send_beacon_ok:
  assumes wf: "wf_skb beacon" "4 \<le> skb_data beacon" "32 \<le> skb_len beacon"
    and adj: "length (tsfadjust (priv_vif (htc_base p) v)) = 8" and scan: "test_op OP_SCANNING p = Some False"
  obtains p' f where "ath9k_htc_send_beacon (logging ret) now v (Some beacon) p log =
      Some (p', log @ [f], if ret = 0 then [] else [Free_skb f])"
    "skb_bytes f = tx_beacon_header (vif_index (priv_vif (htc_base p) v)) @ beacon_bytes p v beacon"
    "skb_cb f = zero_ctl\<lparr>ctl_type := ATH9K_HTC_BEACON, ctl_epid := word_of_int (beacon_ep (priv_eps (htc_base p)))\<rparr>"
    "p' = (if has_flag (info_flags (skb_info beacon)) IEEE80211_TX_CTL_ASSIGN_SEQ
           then set_vif v (\<lambda>x. x\<lparr>seq_no := seq_no x + 0x10\<rparr>) p else p)"
proof -
  let ?adj = "tsfadjust (priv_vif (htc_base p) v)" and ?bs = "skb_bytes beacon"
  let ?flag = "has_flag (info_flags (skb_info beacon)) IEEE80211_TX_CTL_ASSIGN_SEQ"
  have len: "length ?bs = skb_len beacon" using wf(1) by simp
  obtain s1 where s1: "skb_store 24 ?adj beacon = Some s1" "skb_bytes s1 = take 24 ?bs @ ?adj @ drop 32 ?bs"
    "wf_skb s1" "skb_data s1 = skb_data beacon" "skb_tail s1 = skb_tail beacon" "skb_info s1 = skb_info beacon"
    by (rule skb_store_bytes [of beacon 24 ?adj]) (use wf adj in auto)
  have l1: "skb_len s1 = skb_len beacon" using s1(4,5) by (simp add: skb_len_def)
  have n: "skb_bytes s1 ! 22 = ?bs ! 22" "skb_bytes s1 ! 23 = ?bs ! 23"
    using len wf(3) by (simp_all add: s1(2) nth_append)
  let ?p = "if ?flag then set_vif v (\<lambda>x. x\<lparr>seq_no := seq_no x + 0x10\<rparr>) p else p"
  obtain s2 where s2: "beacon_seq v s1 p = Some (s2, ?p)" "skb_bytes s2 = beacon_bytes p v beacon" "wf_skb s2"
    "skb_data s2 = skb_data beacon"
  proof (cases ?flag)
    case True
    let ?seq = "le16_bytes ((le16 (?bs ! 22) (?bs ! 23) AND IEEE80211_SCTL_FRAG) OR (seq_no (vif_of p v) + 0x10))"
    have g: "get_le16 (skb_mem s1) 22 = Some (le16 (?bs ! 22) (?bs ! 23))"
      using mem_le16 [OF s1(3), of 22] l1 wf(3) n by simp
    show thesis
      by (rule skb_store_bytes [of s1 22 ?seq])
        (use s1 l1 wf len g True in \<open>auto simp: beacon_seq_def beacon_bytes_def set_vif_def Let_def min_def intro!: that\<close>)
  next
    case False
    have "take 24 ?bs = take 22 ?bs @ [?bs ! 22, ?bs ! 23]"
      using wf(3) len by (simp add: take_Suc_conv_app_nth numeral_eq_Suc)
    then show thesis using False s1 by (intro that [of s1]) (simp_all add: beacon_seq_def beacon_bytes_def Let_def)
  qed
  let ?m = "s2\<lparr>skb_cb := zero_ctl\<lparr>ctl_type := ATH9K_HTC_BEACON, ctl_epid := word_of_int (beacon_ep (priv_eps (htc_base p)))\<rparr>\<rparr>"
  obtain f where f: "skb_push_bytes (tx_beacon_header (vif_index (priv_vif (htc_base p) v))) ?m = Some f"
    "skb_bytes f = tx_beacon_header (vif_index (priv_vif (htc_base p) v)) @ skb_bytes ?m" "skb_cb f = skb_cb ?m"
    by (rule push_bytes_fields [of ?m "tx_beacon_header (vif_index (priv_vif (htc_base p) v))"])
      (use s2 wf in \<open>auto simp: tx_beacon_header_def\<close>)
  have b: "htc_base ?p = htc_base p" "?p\<lparr>htc_base := htc_base p\<rparr> = ?p" by (simp_all add: set_vif_def)
  have "ath9k_htc_send_beacon (logging ret) now v (Some beacon) p log = Some (?p, log @ [f], if ret = 0 then [] else [Free_skb f])"
    using scan s1(1) s2(1) f(1) b by (simp add: ath9k_htc_send_beacon_def logging_def Let_def)
  then show thesis by (rule that) (use f s2 in simp_all)
qed

section \<open>Properties\<close>

text \<open>The beacon slot at a software beacon alert. With a beacon interval set, \<open>ath9k_htc_choose_bslot\<close>
  returns a slot of the table: slot 1 in the first half of the interval and slot 0 in the second
  half, that is the slot whose beacon time (the interval times the slot over two) comes next.\<close>

theorem beacon_slot_next:
  fixes p :: htc_priv and swba :: wmi_event_swba
  defines "I \<equiv> unat (beacon_interval (cur_beacon_conf p))"
  defines "phase \<equiv> unat (tsf_tu (swba_tsf swba)) mod I"
  assumes "0 < I"
  shows "\<exists>slot. ath9k_htc_choose_bslot p swba = Some (int slot) \<and> slot < ATH9K_HTC_MAX_BCN_VIF \<and>
    phase < I \<and> (slot = 1 \<longrightarrow> 2 * phase < I) \<and> (slot = 0 \<longrightarrow> I \<le> 2 * phase)"
proof -
  have "beacon_interval (cur_beacon_conf p) \<noteq> 0" using assms(3) by (auto simp: I_def)
  then have c: "ath9k_htc_choose_bslot p swba = Some (if 2 * phase < I then 1 else 0)"
    using choose_bslot_value [of p swba] by (simp add: I_def phase_def)
  show ?thesis
    by (rule exI [of _ "if 2 * phase < I then 1 else 0"]) (use c assms(3) in \<open>simp add: phase_def\<close>)
qed

text \<open>C26: a software beacon alert. With a beacon interval set, no scan running and the firmware ready for a
  beacon, the handler takes the slot whose time comes next. If an interface owns it and mac80211 has
  no buffered frames for it, exactly one frame goes down the beacon endpoint: the beacon header with
  the interface's index, then the beacon with the driver's sequence number and the TSF offset of
  the slot. A refused frame is freed, and the count of missed beacons restarts.\<close>

theorem swba_sends_beacon:
  fixes p :: htc_priv and swba :: wmi_event_swba
  defines "I \<equiv> unat (beacon_interval (cur_beacon_conf p))"
  defines "slot \<equiv> (if 2 * (unat (tsf_tu (swba_tsf swba)) mod I) < I then 1 else 0 :: nat)"
  assumes "0 < I" and "beacon_pending swba = 0" and "length (bslot (cur_beacon_conf p)) = ATH9K_HTC_MAX_BCN_VIF"
    and "bslot (cur_beacon_conf p) ! slot = Some v" and "buffered v = []" and "get v = Some beacon"
    and "test_op OP_SCANNING p = Some False" and "length (tsfadjust (priv_vif (htc_base p) v)) = 8"
    and "wf_skb beacon" and "4 \<le> skb_data beacon" and "32 \<le> skb_len beacon"
  shows "\<exists>p' f. ath9k_htc_swba (logging ret) now buffered get swba p log =
      Some (p', log @ [f], if ret = 0 then [] else [Mac (Free_skb f)]) \<and>
    skb_bytes f = tx_beacon_header (vif_index (priv_vif (htc_base p) v)) @ beacon_bytes p v beacon \<and>
    ctl_epid (skb_cb f) = word_of_int (beacon_ep (priv_eps (htc_base p))) \<and>
    bmiss_cnt (cur_beacon_conf p') = 0 \<and>
    seq_no (vif_of p' v) = seq_no (vif_of p v) +
      (if has_flag (info_flags (skb_info beacon)) IEEE80211_TX_CTL_ASSIGN_SEQ then 0x10 else 0)"
proof -
  let ?p = "set_conf (\<lambda>c. c\<lparr>bmiss_cnt := 0\<rparr>) p"
  have f: "htc_base ?p = htc_base p" "vif_of ?p = vif_of p" "beacon_interval (cur_beacon_conf ?p) = beacon_interval (cur_beacon_conf p)"
    "bslot (cur_beacon_conf ?p) = bslot (cur_beacon_conf p)" "test_op n ?p = test_op n p" "beacon_bytes ?p = beacon_bytes p" for n
    by (simp_all add: set_conf_def test_op_def beacon_bytes_def Let_def fun_eq_iff)
  have "beacon_interval (cur_beacon_conf ?p) \<noteq> 0" using assms(3) f by (auto simp: I_def)
  then have c: "ath9k_htc_choose_bslot ?p swba = Some (int slot)"
    using choose_bslot_value [of ?p swba] by (simp add: I_def slot_def f)
  have s: "slot < 2" by (simp add: slot_def)
  have adj: "length (tsfadjust (priv_vif (htc_base ?p) v)) = 8" and scan: "test_op OP_SCANNING ?p = Some False"
    using assms(9,10) f by simp_all
  obtain p' g where g: "ath9k_htc_send_beacon (logging ret) now v (Some beacon) ?p log =
      Some (p', log @ [g], if ret = 0 then [] else [Free_skb g])"
    "skb_bytes g = tx_beacon_header (vif_index (priv_vif (htc_base ?p) v)) @ beacon_bytes ?p v beacon"
    "skb_cb g = zero_ctl\<lparr>ctl_type := ATH9K_HTC_BEACON, ctl_epid := word_of_int (beacon_ep (priv_eps (htc_base ?p)))\<rparr>"
    "p' = (if has_flag (info_flags (skb_info beacon)) IEEE80211_TX_CTL_ASSIGN_SEQ
           then set_vif v (\<lambda>x. x\<lparr>seq_no := seq_no x + 0x10\<rparr>) ?p else ?p)"
    using send_beacon_ok [OF assms(11-13) adj scan, of ret now log thesis] by blast
  have "ath9k_htc_send_buffered (logging ret) now [] ?p log = Some (?p, log, [])" by (simp add: ath9k_htc_send_buffered_def)
  then have "ath9k_htc_swba (logging ret) now buffered get swba p log =
      Some (p', log @ [g], if ret = 0 then [] else [Mac (Free_skb g)])"
    using assms(4-8) c s g(1) f by (simp add: ath9k_htc_swba_def Let_def)
  then show ?thesis using g(2-4) f
    by (intro exI [of _ p'] exI [of _ g]) (simp add: set_vif_def set_conf_def)
qed


text \<open>The hardware queues at start-up. On a fresh queue table \<open>ath9k_init_queues\<close> succeeds without touching
  a register: the beacon queue is 9, the queue for buffered broadcast frames is 8, and the
  access categories best effort, background, video and voice get the data queues 0 to 3, which are
  the queue numbers that \<open>subtype_txq_to_hwq\<close> gives them.\<close>

theorem init_queues_table:
  assumes "length (txq (htc_ah p)) = ATH9K_NUM_TX_QUEUES" and "\<forall>qi \<in> set (txq (htc_ah p)). tqi_type qi = TX_QUEUE_INACTIVE"
    and "length (hwq_map p) = 4"
  shows "\<exists>p'. ath9k_init_queues ops p s = Some (0, p', s) \<and> beaconq p' = 9 \<and> cabq p' = 8 \<and>
    hwq_map p' ! IEEE80211_AC_BE = 0 \<and> hwq_map p' ! IEEE80211_AC_BK = 1 \<and> hwq_map p' ! IEEE80211_AC_VI = 2 \<and>
    hwq_map p' ! IEEE80211_AC_VO = 3 \<and>
    map tqi_type (txq (htc_ah p')) = replicate 4 TX_QUEUE_DATA @ replicate 4 TX_QUEUE_INACTIVE @ [TX_QUEUE_CAB, TX_QUEUE_BEACON]"
proof -
  let ?I = TX_QUEUE_INACTIVE and ?D = TX_QUEUE_DATA and ?C = TX_QUEUE_CAB and ?B = TX_QUEUE_BEACON
  let ?p0 = "p\<lparr>hwq_map := replicate (length (hwq_map p)) (-1)\<rparr>"
  have "txq_types (htc_ah ?p0) = replicate 10 ?I" using assms(1,2) by (auto simp: txq_types_def intro: replicate_eqI)
  then have t0: "txq_types (htc_ah ?p0) = [?I, ?I, ?I, ?I, ?I, ?I, ?I, ?I, ?I, ?I]" by (simp add: eval_nat_numeral)
  have nb: "txq_number (htc_ah ?p0) ?B = int 9" by (simp add: txq_number_def)
  obtain ah1 where a1: "ath9k_hw_beaconq_setup (htc_ah ?p0) = Some (int 9, ah1)" "txq_types ah1 = [?I, ?I, ?I, ?I, ?I, ?I, ?I, ?I, ?I, ?B]"
    unfolding ath9k_hw_beaconq_setup_def Let_def by (rule setup_types [OF nb]) (use t0 in auto)
  let ?p1 = "?p0\<lparr>htc_ah := ah1, beaconq := 9\<rparr>"
  have nc: "txq_number (htc_ah ?p1) ?C = int 8" by (simp add: txq_number_def)
  obtain ah2 where a2: "ath9k_hw_setuptxqueue (htc_ah ?p1) ?C (ATH9K_HTC_INIT_TXQ 0) = Some (int 8, ah2)"
    "txq_types ah2 = [?I, ?I, ?I, ?I, ?I, ?I, ?I, ?I, ?C, ?B]"
    by (rule setup_types [OF nc]) (use a1(2) in auto)
  let ?p2 = "?p1\<lparr>htc_ah := ah2, cabq := 8\<rparr>"
  have p2: "txq_types (htc_ah ?p2) = [?I, ?I, ?I, ?I, ?I, ?I, ?I, ?I, ?C, ?B]" "hwq_map ?p2 = [-1, -1, -1, -1]"
    using a2(2) assms(3) by (simp_all add: eval_nat_numeral)
  obtain p3 where p3: "ath9k_htc_txq_setup ops IEEE80211_AC_BE ?p2 s = Some (True, p3, s)" "beaconq p3 = 9" "cabq p3 = 8"
    "hwq_map p3 = [-1, -1, 0, -1]" "txq_types (htc_ah p3) = [?D, ?I, ?I, ?I, ?I, ?I, ?I, ?I, ?C, ?B]"
    by (rule data_queue_setup [of ?p2 0 ops IEEE80211_AC_BE s]) (use p2 in auto)
  obtain p4 where p4: "ath9k_htc_txq_setup ops IEEE80211_AC_BK p3 s = Some (True, p4, s)" "beaconq p4 = 9" "cabq p4 = 8"
    "hwq_map p4 = [-1, -1, 0, 1]" "txq_types (htc_ah p4) = [?D, ?D, ?I, ?I, ?I, ?I, ?I, ?I, ?C, ?B]"
    by (rule data_queue_setup [of p3 1 ops IEEE80211_AC_BK s]) (use p3(2-5) in auto)
  obtain p5 where p5: "ath9k_htc_txq_setup ops IEEE80211_AC_VI p4 s = Some (True, p5, s)" "beaconq p5 = 9" "cabq p5 = 8"
    "hwq_map p5 = [-1, 2, 0, 1]" "txq_types (htc_ah p5) = [?D, ?D, ?D, ?I, ?I, ?I, ?I, ?I, ?C, ?B]"
    by (rule data_queue_setup [of p4 2 ops IEEE80211_AC_VI s]) (use p4(2-5) in auto)
  obtain p6 where p6: "ath9k_htc_txq_setup ops IEEE80211_AC_VO p5 s = Some (True, p6, s)" "beaconq p6 = 9" "cabq p6 = 8"
    "hwq_map p6 = [3, 2, 0, 1]" "txq_types (htc_ah p6) = [?D, ?D, ?D, ?D, ?I, ?I, ?I, ?I, ?C, ?B]"
    by (rule data_queue_setup [of p5 3 ops IEEE80211_AC_VO s]) (use p5(2-5) in auto)
  have "ath9k_init_queues ops p s = Some (0, p6, s)"
    using a1(1) a2(1) p3(1) p4(1) p5(1) p6(1) by (simp add: ath9k_init_queues_def ath9k_htc_cabq_setup_def Let_def)
  then show ?thesis using p6(2-5) by (simp add: txq_types_def eval_nat_numeral)
qed

text \<open>The flag \<open>OP_TSF_RESET\<close> is not a flag. It is defined as \<open>BIT(6)\<close> but used as a bit number, and bit
  64 lies outside the 64-bit word \<open>op_flags\<close>. Setting it changes no flag but the lowest bit of the channel number kept
  in the calibration data, clearing it likewise, and it reads as set exactly when that channel
  number is odd; the other flags of the driver are bits of the word and behave as flags.\<close>

theorem tsf_reset_flag_alias:
  assumes "length (op_flags p) = 64"
  shows "test_op OP_TSF_RESET p = Some (odd (caldata_channel p)) \<and>
    (\<exists>p'. set_op OP_TSF_RESET p = Some p' \<and> op_flags p' = op_flags p \<and>
       caldata_channel p' = (if odd (caldata_channel p) then caldata_channel p else caldata_channel p + 1)) \<and>
    (\<exists>p'. clear_op OP_TSF_RESET p = Some p' \<and> op_flags p' = op_flags p \<and>
       caldata_channel p' = (if odd (caldata_channel p) then caldata_channel p - 1 else caldata_channel p)) \<and>
    (\<forall>n \<in> {OP_INVALID, OP_SCANNING, OP_ENABLE_BEACON, 8, 16, OP_ANI_RUNNING}. \<exists>p'. set_op n p = Some p' \<and>
       caldata_channel p' = caldata_channel p \<and>
       (\<forall>m. m < 64 \<longrightarrow> test_op m p' = (if m = n then Some True else test_op m p)))"
proof -
  have "caldata_channel p OR 1 = (if odd (caldata_channel p) then caldata_channel p else caldata_channel p + 1)"
    by (simp add: or_one_eq)
  moreover have "caldata_channel p AND NOT 1 = (if odd (caldata_channel p) then caldata_channel p - 1 else caldata_channel p)"
    using unset_bit_eq_and_not [of 0 "caldata_channel p"] minus_mod_eq_mult_div [of "caldata_channel p" 2]
    by (cases "odd (caldata_channel p)") (simp_all add: unset_bit_0 mod_2_eq_odd)
  ultimately show ?thesis
    using assms by (auto simp: test_op_def set_op_def clear_op_def set_bit_def test_bit_def bit_0)
qed

text \<open>C28: the beacon timers of a station. For a positive beacon interval, and a TSF whose time units stay
  below 2 to the power 31, the next beacon time that \<open>ath9k_htc_beacon_config_sta\<close> programs is the first
  multiple of the interval that is not before the TSF plus the safety margin. The next DTIM is at
  most one DTIM period later and also a multiple of the interval, but which one depends on the
  current time: the beacon count of the DTIM is 1 modulo the period when the time lies between two
  beacons, and 0 modulo the period when it falls on a beacon, because the code counts one beacon more
  than it advances in that case.\<close>

theorem sta_timers:
  fixes conf :: htc_beacon_config and tsf :: u64
  defines "I \<equiv> unat (beacon_interval conf)"
  defines "P \<equiv> (if dtim_period conf = 0 then 1 else unat (dtim_period conf))"
  defines "T \<equiv> unat (tsf_tu tsf) + 2"
  assumes "0 < I" and "P < 256" and "T + 2 ^ 24 < 2 ^ 31"
  shows "\<exists>bs k d. sta_beacon_state conf tsf = Some bs \<and> unat (bs_nexttbtt bs) = k * I \<and> T \<le> k * I \<and> k * I < T + I \<and>
    unat (bs_nextdtim bs) = (k + d) * I \<and> d < P \<and> (k + d) mod P = (if I dvd T then 0 else 1 mod P) \<and>
    unat (bs_intval bs) = I \<and> unat (bs_dtimperiod bs) = P * I"
proof -
  define k where "k = T div I + (if T mod I = 0 then 0 else 1)"
  obtain bs d where bs: "sta_beacon_state conf tsf = Some bs" "d < P" "(T div I + 1 + d) mod P = 1 mod P"
    "unat (bs_nexttbtt bs) = k * I" "bs_nextdtim bs = bs_nexttbtt bs + of_nat d * of_nat I"
    "bs_intval bs = of_nat I" "bs_dtimperiod bs = of_nat P * of_nat I"
    using sta_beacon_state_fields [of conf tsf, folded I_def P_def T_def] assms(4-6) unfolding k_def by blast
  have I: "I < 65536" using unsigned_less [of "beacon_interval conf", where ?'a = nat] by (simp add: I_def)
  have kI: "T \<le> k * I" "k * I < T + I" using next_multiple(2,3) [OF assms(4), of T] by (simp_all only: k_def)
  have dI: "d * I \<le> 255 * 65536" "P * I \<le> 255 * 65536" using bs(2) assms(5) I by (intro mult_le_mono; simp)+
  have "(k + d) * I < 2 ^ 32" using kI(2) dI(1) I assms(6) unfolding add_mult_distrib by simp
  moreover have "bs_nexttbtt bs = of_nat (k * I)" using bs(4) by (metis of_nat_unat ucast_id)
  then have "bs_nextdtim bs = of_nat ((k + d) * I)" by (simp add: bs(5) algebra_simps)
  ultimately have dtim: "unat (bs_nextdtim bs) = (k + d) * I" by (simp only: unat_of_nat) simp
  have per: "unat (bs_dtimperiod bs) = P * I"
    using dI(2) by (simp only: bs(7) of_nat_mult [symmetric] unat_of_nat) simp
  have "(k + d) mod P = (if I dvd T then 0 else 1 mod P)"
    using bs(2,3) mod_eq_dvd_iff_nat [of 1 "T div I + 1 + d" P] by (auto simp: k_def dvd_eq_mod_eq_0)
  moreover have "unat (bs_intval bs) = I" using I by (simp only: bs(6) unat_of_nat) simp
  ultimately show ?thesis using bs(1,2,4) kI dtim per by blast
qed

text \<open>C29: the loop that pulls the next beacon time forward. For a positive interval and a TSF that is at
  least one interval away from the end of its 32-bit range the loop ends with the first multiple
  of the interval, from the second on, that is not in the past.\<close>

theorem tbtt_loop_ends:
  assumes "0 < unat intval" and "unat intval < 2 ^ 16" and "unat tsftu + unat intval \<le> 2 ^ 32"
  shows "\<exists>k n. pull_tbtt intval tsftu intval = Some n \<and> unat n = k * unat intval \<and> 2 \<le> k \<and>
    unat tsftu \<le> unat n \<and> (\<forall>i. 2 \<le> i \<and> i < k \<longrightarrow> i * unat intval < unat tsftu)"
proof -
  have c: "unat intval < unat tsftu \<or> unat intval + unat intval < 2 ^ 32" using assms(2) by simp
  obtain k where k: "pull_tbtt intval tsftu intval = Some (intval + of_nat k * intval)" "1 \<le> k"
    "unat (intval + of_nat k * intval) = unat intval + k * unat intval"
    "unat tsftu \<le> unat intval + k * unat intval" "k = 1 \<or> unat intval + (k - 1) * unat intval < unat tsftu"
    using pull_tbtt_least [OF assms(1,3) c] by blast
  have "i * unat intval < unat tsftu" if i: "2 \<le> i" "i < Suc k" for i
  proof -
    have "k \<noteq> 1" "i \<le> Suc (k - 1)" using i k(2) by auto
    then have "i * unat intval \<le> unat intval + (k - 1) * unat intval"
      using mult_le_mono1 [of i "Suc (k - 1)" "unat intval"] by simp
    then show ?thesis using k(5) \<open>k \<noteq> 1\<close> by linarith
  qed
  then show ?thesis
    using k(1-4) by (intro exI [of _ "Suc k"] exI [of _ "intval + of_nat k * intval"]) auto
qed

theorem tbtt_loop_ends_witness:
  "\<exists>k n. pull_tbtt 50 1234 50 = Some n \<and> unat n = k * 50 \<and> 2 \<le> k \<and> 1234 \<le> unat n"
  using tbtt_loop_ends [of 50 1234] by auto

text \<open>The same loop without end. A beacon interval of one time unit gives an access point the
  interval zero (it is halved for the two slots), and then, as soon as the TSF is past zero, the
  loop never ends. Nor does it end for an interval that is a power of two when the TSF is less than
  one interval before the end of its 32-bit range (about 51 days of uptime): the sum wraps to zero
  and no value is late enough.\<close>

theorem tbtt_loop_hangs:
  "(ucast (1 :: u16) :: u32) div word_of_nat ATH9K_HTC_MAX_BCN_VIF = 0 \<and>
   (0 < tsftu \<longrightarrow> pull_tbtt 0 tsftu 0 = None) \<and>
   (j < 32 \<and> 2 ^ 32 - 2 ^ j < unat tsftu \<longrightarrow> pull_tbtt (2 ^ j) tsftu (2 ^ j) = None)"
proof (intro conjI impI)
  show "pull_tbtt 0 tsftu 0 = None" if "0 < tsftu" by (rule pull_tbtt_never) (use that in simp)
  show "pull_tbtt (2 ^ j) tsftu (2 ^ j) = None" if a: "j < 32 \<and> 2 ^ 32 - 2 ^ j < unat tsftu"
  proof (rule pull_tbtt_never)
    fix k
    have e: "(2 ^ j + of_nat (Suc k) * 2 ^ j :: u32) = of_nat (Suc (Suc k)) * 2 ^ j" by (simp add: algebra_simps)
    have "unat (of_nat (Suc (Suc k)) * 2 ^ j :: u32) < unat tsftu"
      using pow2_multiples [of j "Suc (Suc k)"] a by linarith
    then show "2 ^ j + of_nat (Suc k) * 2 ^ j < tsftu" unfolding e word_less_nat_alt .
  qed
qed simp

theorem tbtt_loop_hangs_witness:
  "pull_tbtt 0 1000 0 = None \<and> pull_tbtt 64 0xfffffff0 64 = None"
  using tbtt_loop_hangs [of 1000 0] tbtt_loop_hangs [of "0xfffffff0" 6] by simp

definition ex_vif :: ieee80211_vif where
  "ex_vif = \<lparr>vif_type = IFTYPE_AP, vif_addr = [0, 1, 2, 3, 4, 5], bss_beacon_int = 100, bss_dtim_period = 2,
     bss_enable_beacon = True, bss_assoc = False, beacon_configured = False, avp_bslot = 0, seq_no = 0\<rparr>"

definition ex_hp :: htc_priv where
  \<comment> \<open>one access point in slot 0, beacon interval 100, on channel 2412\<close>
  "ex_hp = \<lparr>htc_base = ex_priv, htc_ah = ex_hw,
     cur_beacon_conf = \<lparr>bslot = [Some 0, None], beacon_interval = 100, dtim_period = 2, bmiss_timeout = 1000,
       bmiss_cnt = 3\<rparr>,
     op_flags = (replicate 64 False)[OP_ENABLE_BEACON := True], caldata_channel = 2412, beaconq = 9, cabq = 8,
     hwq_map = [-1, -1, 0, -1], num_ibss_vif = 0, num_sta_vif = 0, num_ap_vif = 1, nvifs = 1, rxfilter = 0,
     vif_of = (\<lambda>_. ex_vif), active_vifs = [0]\<rparr>"

theorem beacon_slot_next_witness:
  "\<exists>slot. ath9k_htc_choose_bslot ex_hp \<lparr>swba_tsf = 0x100000, beacon_pending = 0\<rparr> = Some (int slot) \<and> slot < 2"
  using beacon_slot_next [of ex_hp "\<lparr>swba_tsf = 0x100000, beacon_pending = 0\<rparr>"]
  by (auto simp: ex_hp_def)

theorem sta_timers_witness:
  "\<exists>bs k d. sta_beacon_state (cur_beacon_conf ex_hp) 0x100000 = Some bs \<and> unat (bs_nexttbtt bs) = k * 100 \<and>
    1026 \<le> k * 100 \<and> k * 100 < 1126 \<and> unat (bs_nextdtim bs) = (k + d) * 100 \<and> d < 2 \<and> (k + d) mod 2 = 1"
proof -
  have c: "beacon_interval (cur_beacon_conf ex_hp) = 100" "dtim_period (cur_beacon_conf ex_hp) = 2"
    "tsf_tu 0x100000 = 1024" by (simp_all add: ex_hp_def tsf_tu_def TSF_TO_TU_def)
  show ?thesis using sta_timers [of "cur_beacon_conf ex_hp" "0x100000"] unfolding c by auto
qed

theorem tsf_reset_flag_alias_witness: "test_op OP_TSF_RESET (ex_hp\<lparr>caldata_channel := 2437\<rparr>) = Some True"
  using tsf_reset_flag_alias [of "ex_hp\<lparr>caldata_channel := 2437\<rparr>"] by (simp add: ex_hp_def)


theorem swba_sends_beacon_witness:
  "\<exists>p' f. ath9k_htc_swba (logging 0) 0 (\<lambda>_. []) (\<lambda>_. Some ex_data) \<lparr>swba_tsf = 0x13000, beacon_pending = 0\<rparr> ex_hp [] =
      Some (p', [f], []) \<and> skb_bytes f = [0, 0, 0, 0, 0x88, 0x01] @ replicate 22 7 @ replicate 8 0"
proof -
  have f: "wf_skb ex_data" "skb_data ex_data = 64" "skb_len ex_data = 32" "skb_info ex_data = zero_info\<lparr>info_vif := Some 0\<rparr>"
    by (simp_all add: ex_data_def fresh_skb_def wf_skb_def skb_len_def)
  have h: "beacon_interval (cur_beacon_conf ex_hp) = 100" "bslot (cur_beacon_conf ex_hp) = [Some 0, None]"
    "htc_base ex_hp = ex_priv" "tsfadjust (priv_vif ex_priv 0) = replicate 8 0" "vif_index (priv_vif ex_priv 0) = 0"
    "test_op OP_SCANNING ex_hp = Some False" "tsf_tu 0x13000 = 76"
    by (simp_all add: ex_hp_def ex_priv_def test_op_def test_bit_def tsf_tu_def TSF_TO_TU_def)
  have bb: "beacon_bytes ex_hp 0 ex_data = [0x88, 0x01] @ replicate 22 7 @ replicate 8 0"
    using h by (simp add: beacon_bytes_def ex_data_bytes f has_flag_def zero_info_def eval_nat_numeral)
  show ?thesis
    using swba_sends_beacon [of ex_hp "\<lparr>swba_tsf = 0x13000, beacon_pending = 0\<rparr>" 0 "\<lambda>_. []" "\<lambda>_. Some ex_data" ex_data 0 0 "[]"]
      f h bb by (auto simp: tx_beacon_header_def)
qed

theorem init_queues_table_witness:
  "\<exists>p'. ath9k_init_queues ex_clock_ops (ex_hp\<lparr>htc_ah := ex_hw\<lparr>txq := replicate 10 qi_zero\<rparr>\<rparr>) 0 = Some (0, p', 0) \<and> beaconq p' = 9"
  using init_queues_table [of "ex_hp\<lparr>htc_ah := ex_hw\<lparr>txq := replicate 10 qi_zero\<rparr>\<rparr>" ex_clock_ops 0]
  by (auto simp: qi_zero_def ex_hp_def)

end
