(* ===== verification/Ath9k_Power.thy ===== *)
theory Ath9k_Power
  imports Ath9k_Mac
begin

text \<open>
  Power modes of the chip (\<open>ath9k_hw_setpower\<close> and the functions below it in \<open>ath9k/hw.c\<close>).

  \<open>ath_pm\<close> holds the fields of \<open>struct ath_hw\<close> for power management. Powering up a chip whose
  clock is shut down goes through the chip reset, and chips with a Bluetooth message unit notify
  it; the USB chips reach neither. Those calls are the hooks \<open>pm_hooks\<close>, so that the order of the
  accesses is that of the code on every branch. Delays are left out.
\<close>

section \<open>Data\<close>

datatype ath9k_power_mode = ATH9K_PM_AWAKE | ATH9K_PM_FULL_SLEEP | ATH9K_PM_NETWORK_SLEEP | ATH9K_PM_UNDEFINED

record ath_pm =
  power_mode :: ath9k_power_mode
  WARegVal :: u32
  chip_fullsleep :: bool
  btcoex_enabled :: bool

record 's pm_hooks =
  hk_reset_power_on :: "'s \<Rightarrow> (bool \<times> 's) option"
  hk_init_pll :: "'s \<Rightarrow> 's option"
  hk_mci_awake :: "'s \<Rightarrow> 's option"
  hk_mci_full_sleep :: "'s \<Rightarrow> 's option"

abbreviation (input) ATH9K_HW_CAP_AUTOSLEEP :: u32 where "ATH9K_HW_CAP_AUTOSLEEP \<equiv> 4"
abbreviation (input) ATH9K_HW_CAP_MCI :: u32 where "ATH9K_HW_CAP_MCI \<equiv> 0x8000"
abbreviation (input) AR_STA_ID1_PWR_SAV :: u32 where "AR_STA_ID1_PWR_SAV \<equiv> 0x40000"
abbreviation (input) AR_RC :: u32 where "AR_RC \<equiv> 0x4000"
abbreviation (input) AR_RC_AHB :: u32 where "AR_RC_AHB \<equiv> 1"
abbreviation (input) AR_RC_HOSTIF :: u32 where "AR_RC_HOSTIF \<equiv> 0x100"
abbreviation (input) AR_WA_D3_L1_DISABLE :: u32 where "AR_WA_D3_L1_DISABLE \<equiv> 0x4000"
abbreviation (input) AR_RTC_RESET_EN :: u32 where "AR_RTC_RESET_EN \<equiv> 1"
abbreviation (input) AR_RTC_STATUS_SHUTDOWN :: u32 where "AR_RTC_STATUS_SHUTDOWN \<equiv> 1"
abbreviation (input) AR_RTC_STATUS_ON :: u32 where "AR_RTC_STATUS_ON \<equiv> 2"
abbreviation (input) AR_RTC_FORCE_WAKE_EN :: u32 where "AR_RTC_FORCE_WAKE_EN \<equiv> 1"
abbreviation (input) AR_RTC_FORCE_WAKE_ON_INT :: u32 where "AR_RTC_FORCE_WAKE_ON_INT \<equiv> 2"
abbreviation (input) AR_TIMER_MODE :: u32 where "AR_TIMER_MODE \<equiv> 0x8240"
abbreviation (input) AR_NDP2_TIMER_MODE :: u32 where "AR_NDP2_TIMER_MODE \<equiv> 0x81c0"
abbreviation (input) AR_SLP32_INC :: u32 where "AR_SLP32_INC \<equiv> 0x824c"
abbreviation (input) AR_MCI_INTERRUPT_RX_MSG_EN :: u32 where "AR_MCI_INTERRUPT_RX_MSG_EN \<equiv> 0x183c"
abbreviation (input) AR_MCI_INTERRUPT_RX_HW_MSG_MASK :: u32 where "AR_MCI_INTERRUPT_RX_HW_MSG_MASK \<equiv> 0x23e"
abbreviation (input) POWER_UP_TIME :: nat where "POWER_UP_TIME \<equiv> 10000"

definition AR_SREV_9100 :: "ath_hw \<Rightarrow> bool" where
  "AR_SREV_9100 ah \<longleftrightarrow> macVersion ah = 0x14"

definition AR_SREV_5416 :: "ath_hw \<Rightarrow> bool" where
  "AR_SREV_5416 ah \<longleftrightarrow> macVersion ah = 0xD \<or> macVersion ah = 0xC"

definition AR_SREV_9271 :: "ath_hw \<Rightarrow> bool" where
  "AR_SREV_9271 ah \<longleftrightarrow> macVersion ah = 0x140"

definition AR_WA :: "ath_hw \<Rightarrow> u32" where
  "AR_WA ah = (if AR_SREV_9340 ah then 0x40c4 else 0x4004)"

definition AR_RTC_RESET :: "ath_hw \<Rightarrow> u32" where
  "AR_RTC_RESET ah = (if AR_SREV_9100 ah then 0x20040 else 0x7040)"

definition AR_RTC_STATUS :: "ath_hw \<Rightarrow> u32" where
  "AR_RTC_STATUS ah = (if AR_SREV_9100 ah then 0x20044 else 0x7044)"

definition AR_RTC_STATUS_M :: "ath_hw \<Rightarrow> u32" where
  "AR_RTC_STATUS_M ah = (if AR_SREV_9100 ah then 0x3f else 0xf)"

definition AR_RTC_FORCE_WAKE :: "ath_hw \<Rightarrow> u32" where
  "AR_RTC_FORCE_WAKE ah = (if AR_SREV_9100 ah then 0x2004c else 0x704c)"

definition ath9k_hw_mci_is_enabled :: "ath_hw \<Rightarrow> ath_pm \<Rightarrow> bool" where
  "ath9k_hw_mci_is_enabled ah pm \<longleftrightarrow> btcoex_enabled pm \<and> has_flag (hw_caps ah) ATH9K_HW_CAP_MCI"

section \<open>Operations\<close>

definition ath9k_set_power_sleep :: "'s ath_ops \<Rightarrow> ath_hw \<Rightarrow> ath_pm \<Rightarrow> 's \<Rightarrow> 's option" where
  "ath9k_set_power_sleep ops ah pm s = REG_RUN ops
     ([REG_SET_BIT AR_STA_ID1 AR_STA_ID1_PWR_SAV] @
      (if AR_SREV_9462 ah \<or> AR_SREV_9565 ah then
         [REG_CLR_BIT AR_TIMER_MODE 0xff, REG_CLR_BIT AR_NDP2_TIMER_MODE 0xff, REG_CLR_BIT AR_SLP32_INC 0xfffff,
          REG_WRITE AR_MCI_INTERRUPT_RX_MSG_EN 0] else []) @
      [REG_CLR_BIT (AR_RTC_FORCE_WAKE ah) AR_RTC_FORCE_WAKE_EN] @
      (if \<not> AR_SREV_9100 ah \<and> \<not> AR_SREV_9300_20_OR_LATER ah
       then [REG_WRITE AR_RC (AR_RC_AHB OR AR_RC_HOSTIF)] else []) @
      (if \<not> AR_SREV_5416 ah \<and> \<not> AR_SREV_9271 ah then [REG_CLR_BIT (AR_RTC_RESET ah) AR_RTC_RESET_EN] else []) @
      (if AR_SREV_9300_20_OR_LATER ah then [REG_WRITE (AR_WA ah) (WARegVal pm AND NOT AR_WA_D3_L1_DISABLE)] else [])) s"

definition ath9k_set_power_network_sleep :: "'s ath_ops \<Rightarrow> ath_hw \<Rightarrow> ath_pm \<Rightarrow> 's \<Rightarrow> 's option" where
  "ath9k_set_power_network_sleep ops ah pm s = REG_RUN ops
     ([REG_SET_BIT AR_STA_ID1 AR_STA_ID1_PWR_SAV] @
      (if \<not> has_flag (hw_caps ah) ATH9K_HW_CAP_AUTOSLEEP then
         [REG_WRITE (AR_RTC_FORCE_WAKE ah) AR_RTC_FORCE_WAKE_ON_INT]
       else
         (if ath9k_hw_mci_is_enabled ah pm
          then [REG_CLR_BIT AR_MCI_INTERRUPT_RX_MSG_EN AR_MCI_INTERRUPT_RX_HW_MSG_MASK] else []) @
         [REG_CLR_BIT (AR_RTC_FORCE_WAKE ah) AR_RTC_FORCE_WAKE_EN]) @
      (if AR_SREV_9300_20_OR_LATER ah then [REG_WRITE (AR_WA ah) (WARegVal pm AND NOT AR_WA_D3_L1_DISABLE)] else [])) s"

fun wait_awake :: "'s ath_ops \<Rightarrow> ath_hw \<Rightarrow> nat \<Rightarrow> 's \<Rightarrow> (bool \<times> 's) option" where
  \<comment> \<open>the loop of \<open>ath9k_hw_set_power_awake\<close>; whether \<open>i\<close> is not 0 at the end\<close>
  "wait_awake ops ah 0 s = Some (False, s)"
| "wait_awake ops ah (Suc i) s = do {
     (v, s) \<leftarrow> op_read ops (AR_RTC_STATUS ah) s;
     if v AND AR_RTC_STATUS_M ah = AR_RTC_STATUS_ON then Some (True, s)
     else do {
       s \<leftarrow> REG_RUN ops [REG_SET_BIT (AR_RTC_FORCE_WAKE ah) AR_RTC_FORCE_WAKE_EN] s;
       wait_awake ops ah i s } }"

definition ath9k_hw_set_power_awake ::
  "'s ath_ops \<Rightarrow> 's pm_hooks \<Rightarrow> ath_hw \<Rightarrow> ath_pm \<Rightarrow> 's \<Rightarrow> (bool \<times> 's) option" where
  "ath9k_hw_set_power_awake ops hk ah pm s = do {
     s \<leftarrow> REG_RUN ops (if AR_SREV_9300_20_OR_LATER ah then [REG_WRITE (AR_WA ah) (WARegVal pm)] else []) s;
     (v, s) \<leftarrow> op_read ops (AR_RTC_STATUS ah) s;
     (ok, s) \<leftarrow> (if v AND AR_RTC_STATUS_M ah = AR_RTC_STATUS_SHUTDOWN then do {
                   (ok, s) \<leftarrow> hk_reset_power_on hk s;
                   if \<not> ok then Some (False, s)
                   else if \<not> AR_SREV_9300_20_OR_LATER ah then do { s \<leftarrow> hk_init_pll hk s; Some (True, s) }
                   else Some (True, s) }
                 else Some (True, s));
     if \<not> ok then Some (False, s)
     else do {
       s \<leftarrow> REG_RUN ops ((if AR_SREV_9100 ah then [REG_SET_BIT (AR_RTC_RESET ah) AR_RTC_RESET_EN] else []) @
                        [REG_SET_BIT (AR_RTC_FORCE_WAKE ah) AR_RTC_FORCE_WAKE_EN]) s;
       (on, s) \<leftarrow> wait_awake ops ah (POWER_UP_TIME div 50) s;
       if \<not> on then Some (False, s)
       else do {
         s \<leftarrow> (if ath9k_hw_mci_is_enabled ah pm then hk_mci_awake hk s else Some s);
         s \<leftarrow> REG_RUN ops [REG_CLR_BIT AR_STA_ID1 AR_STA_ID1_PWR_SAV] s;
         Some (True, s) } } }"

definition ath9k_hw_setpower ::
  "'s ath_ops \<Rightarrow> 's pm_hooks \<Rightarrow> ath_hw \<Rightarrow> ath9k_power_mode \<Rightarrow> ath_pm \<Rightarrow> 's \<Rightarrow> (bool \<times> ath_pm \<times> 's) option" where
  "ath9k_hw_setpower ops hk ah mode pm s =
     (if power_mode pm = mode then Some (True, pm, s)
      else (case mode of
          ATH9K_PM_AWAKE \<Rightarrow> do {
            (status, s) \<leftarrow> ath9k_hw_set_power_awake ops hk ah pm s;
            Some (status, pm\<lparr>power_mode := mode\<rparr>, s) }
        | ATH9K_PM_FULL_SLEEP \<Rightarrow> do {
            s \<leftarrow> (if ath9k_hw_mci_is_enabled ah pm then hk_mci_full_sleep hk s else Some s);
            s \<leftarrow> ath9k_set_power_sleep ops ah pm s;
            Some (True, pm\<lparr>chip_fullsleep := True, power_mode := mode\<rparr>, s) }
        | ATH9K_PM_NETWORK_SLEEP \<Rightarrow> do {
            s \<leftarrow> ath9k_set_power_network_sleep ops ah pm s;
            Some (True, pm\<lparr>power_mode := mode\<rparr>, s) }
        | ATH9K_PM_UNDEFINED \<Rightarrow> Some (False, pm, s)))"

section \<open>Effect\<close>

definition power_regs :: "ath_hw \<Rightarrow> ath9k_power_mode \<Rightarrow> (u32 \<Rightarrow> u32) \<Rightarrow> u32 \<Rightarrow> u32" where
  \<comment> \<open>the registers of an AR9271 after entering a mode\<close>
  "power_regs ah mode m = (case mode of
       ATH9K_PM_AWAKE \<Rightarrow> m(0x704c := m 0x704c OR AR_RTC_FORCE_WAKE_EN, 0x8004 := m 0x8004 AND NOT AR_STA_ID1_PWR_SAV)
     | ATH9K_PM_FULL_SLEEP \<Rightarrow> m(0x8004 := m 0x8004 OR AR_STA_ID1_PWR_SAV, 0x704c := m 0x704c AND NOT AR_RTC_FORCE_WAKE_EN,
         0x4000 := 0x101)
     | ATH9K_PM_NETWORK_SLEEP \<Rightarrow> m(0x8004 := m 0x8004 OR AR_STA_ID1_PWR_SAV,
         0x704c := (if has_flag (hw_caps ah) ATH9K_HW_CAP_AUTOSLEEP then m 0x704c AND NOT AR_RTC_FORCE_WAKE_EN
                    else AR_RTC_FORCE_WAKE_ON_INT))
     | ATH9K_PM_UNDEFINED \<Rightarrow> m)"

definition pm_after :: "ath9k_power_mode \<Rightarrow> ath_pm \<Rightarrow> ath_pm" where
  "pm_after mode pm = pm\<lparr>power_mode := mode, chip_fullsleep := chip_fullsleep pm \<or> mode = ATH9K_PM_FULL_SLEEP\<rparr>"

definition clock_on :: "(u32 \<Rightarrow> u32) \<Rightarrow> bool" where
  "clock_on m \<longleftrightarrow> m 0x7044 AND 0xf = AR_RTC_STATUS_ON"

lemma clock_on_power_regs: "clock_on (power_regs ah mode m) \<longleftrightarrow> clock_on m"
  by (cases mode) (simp_all add: clock_on_def power_regs_def)

lemma chip_9271:
  assumes "AR_SREV_9271 ah"
  shows "\<not> AR_SREV_9100 ah" "\<not> AR_SREV_9300_20_OR_LATER ah" "\<not> AR_SREV_9462 ah" "\<not> AR_SREV_9565 ah"
    "AR_RTC_STATUS ah = 0x7044" "AR_RTC_STATUS_M ah = 0xf" "AR_RTC_FORCE_WAKE ah = 0x704c"
  using assms
  by (simp_all add: AR_SREV_9271_def AR_SREV_9100_def AR_SREV_9300_20_OR_LATER_def AR_SREV_9462_def AR_SREV_9565_def
      AR_RTC_STATUS_def AR_RTC_STATUS_M_def AR_RTC_FORCE_WAKE_def)

fun plain_acc :: "reg_acc \<Rightarrow> bool" where
  "plain_acc (REG_WRITE r v) = True"
| "plain_acc (REG_RMW r sv clr) = True"
| "plain_acc ENABLE_BUFFER = False"
| "plain_acc BUFFER_FLUSH = False"

lemma plain_accs:
  assumes "list_all plain_acc ps"
  shows "acc_ok 0 ps" "no_stale 0 {} ps" "acc_depth 0 ps = 0"
proof -
  have "acc_ok 0 ps \<and> no_stale 0 {} ps \<and> acc_depth 0 ps = 0" using assms
  proof (induction ps)
    case (Cons p ps)
    then show ?case by (cases p) auto
  qed simp
  then show "acc_ok 0 ps" "no_stale 0 {} ps" "acc_depth 0 ps = 0" by auto
qed

context ath_regs_buf
begin

lemma run_plain:
  assumes "ok s" and "depth s = 0" and "length ps < cap" and "list_all plain_acc ps"
  shows "\<exists>s'. REG_RUN ops ps s = Some s' \<and> ok s' \<and> depth s' = 0 \<and> mem s' = rw_direct ps (mem s)"
  by (rule run_direct [OF assms(1-3) plain_accs [OF assms(4)]]) blast

lemma set_power_awake_mem:
  assumes "ok s" and "depth s = 0" and "8 \<le> cap" and "AR_SREV_9271 ah" and "\<not> ath9k_hw_mci_is_enabled ah pm"
    and "clock_on (mem s)"
  obtains s' where "ath9k_hw_set_power_awake ops hk ah pm s = Some (True, s')" "ok s'" "depth s' = 0"
    "mem s' = power_regs ah ATH9K_PM_AWAKE (mem s)"
proof -
  note c = chip_9271 [OF assms(4)]
  have on: "mem s 0x7044 AND 0xf = 2" using assms(6) by (simp add: clock_on_def)
  obtain s1 where s1: "op_read ops 0x7044 s = Some (mem s 0x7044, s1)" "ok s1" "depth s1 = 0" "mem s1 = mem s"
    using read_op [OF assms(1,2)] by blast
  obtain s2 where s2: "REG_RUN ops [REG_SET_BIT 0x704c AR_RTC_FORCE_WAKE_EN] s1 = Some s2" "ok s2" "depth s2 = 0"
    "mem s2 = rw_direct [REG_SET_BIT 0x704c AR_RTC_FORCE_WAKE_EN] (mem s1)"
    using run_plain [OF s1(2,3), of "[REG_SET_BIT 0x704c AR_RTC_FORCE_WAKE_EN]"] assms(3) by (auto simp: reg_macros)
  then have m2: "mem s2 = (mem s)(0x704c := mem s 0x704c OR 1)" using s1(4) by (simp add: reg_macros)
  obtain s3 where s3: "op_read ops 0x7044 s2 = Some (mem s2 0x7044, s3)" "ok s3" "depth s3 = 0" "mem s3 = mem s2"
    using read_op [OF s2(2,3)] by blast
  have loop: "wait_awake ops ah (Suc n) s2 = Some (True, s3)" for n
    using s3(1) on m2 by (simp add: c)
  have "wait_awake ops ah (POWER_UP_TIME div 50) s2 = Some (True, s3)" using loop [of 199] by simp
  moreover obtain s4 where s4: "REG_RUN ops [REG_CLR_BIT AR_STA_ID1 AR_STA_ID1_PWR_SAV] s3 = Some s4" "ok s4" "depth s4 = 0"
    "mem s4 = rw_direct [REG_CLR_BIT AR_STA_ID1 AR_STA_ID1_PWR_SAV] (mem s3)"
    using run_plain [OF s3(2,3), of "[REG_CLR_BIT AR_STA_ID1 AR_STA_ID1_PWR_SAV]"] assms(3) by (auto simp: reg_macros)
  ultimately have "ath9k_hw_set_power_awake ops hk ah pm s = Some (True, s4)"
    using s1(1) s2(1) on assms(5) by (simp add: ath9k_hw_set_power_awake_def c)
  then show thesis using that s4 m2 s3(4) by (simp add: power_regs_def reg_macros)
qed

lemma setpower_mem:
  assumes "ok s" and "depth s = 0" and "8 \<le> cap" and "AR_SREV_9271 ah" and "\<not> ath9k_hw_mci_is_enabled ah pm"
    and "clock_on (mem s)" and "mode \<noteq> ATH9K_PM_UNDEFINED" and "power_mode pm \<noteq> mode"
  obtains s' where "ath9k_hw_setpower ops hk ah mode pm s = Some (True, pm_after mode pm, s')" "ok s'" "depth s' = 0"
    "mem s' = power_regs ah mode (mem s)"
proof (cases mode)
  case ATH9K_PM_AWAKE
  obtain s' where a: "ath9k_hw_set_power_awake ops hk ah pm s = Some (True, s')" "ok s'" "depth s' = 0"
    "mem s' = power_regs ah ATH9K_PM_AWAKE (mem s)"
    by (rule set_power_awake_mem [OF assms(1-6)])
  have "ath9k_hw_setpower ops hk ah mode pm s = Some (True, pm_after mode pm, s')"
    using ATH9K_PM_AWAKE assms(8) a(1) by (simp add: ath9k_hw_setpower_def pm_after_def)
  then show thesis by (rule that) (use a(2-4) ATH9K_PM_AWAKE in auto)
next
  case ATH9K_PM_FULL_SLEEP
  let ?p = "[REG_SET_BIT AR_STA_ID1 AR_STA_ID1_PWR_SAV, REG_CLR_BIT 0x704c AR_RTC_FORCE_WAKE_EN,
    REG_WRITE AR_RC (AR_RC_AHB OR AR_RC_HOSTIF)]"
  obtain s' where a: "REG_RUN ops ?p s = Some s'" "ok s'" "depth s' = 0" "mem s' = rw_direct ?p (mem s)"
    using run_plain [OF assms(1,2), of ?p] assms(3) by (auto simp: reg_macros)
  have "ath9k_set_power_sleep ops ah pm s = Some s'"
    using a(1) assms(4) chip_9271 [OF assms(4)] by (simp add: ath9k_set_power_sleep_def)
  then have "ath9k_hw_setpower ops hk ah mode pm s = Some (True, pm_after mode pm, s')"
    using ATH9K_PM_FULL_SLEEP assms(5,8) by (simp add: ath9k_hw_setpower_def pm_after_def)
  then show thesis by (rule that) (use a ATH9K_PM_FULL_SLEEP in \<open>simp_all add: power_regs_def reg_macros\<close>)
next
  case ATH9K_PM_NETWORK_SLEEP
  let ?p = "[REG_SET_BIT AR_STA_ID1 AR_STA_ID1_PWR_SAV,
    if has_flag (hw_caps ah) ATH9K_HW_CAP_AUTOSLEEP then REG_CLR_BIT 0x704c AR_RTC_FORCE_WAKE_EN
    else REG_WRITE 0x704c AR_RTC_FORCE_WAKE_ON_INT]"
  have plain: "list_all plain_acc ?p" by (simp add: reg_macros)
  obtain s' where a: "REG_RUN ops ?p s = Some s'" "ok s'" "depth s' = 0" "mem s' = rw_direct ?p (mem s)"
    using run_plain [OF assms(1,2), of ?p] assms(3) plain by auto
  have "ath9k_set_power_network_sleep ops ah pm s = Some s'"
    using a(1) assms(5) chip_9271 [OF assms(4)]
    by (cases "has_flag (hw_caps ah) ATH9K_HW_CAP_AUTOSLEEP") (simp_all add: ath9k_set_power_network_sleep_def)
  then have "ath9k_hw_setpower ops hk ah mode pm s = Some (True, pm_after mode pm, s')"
    using ATH9K_PM_NETWORK_SLEEP assms(8) by (simp add: ath9k_hw_setpower_def pm_after_def)
  then show thesis by (rule that)
    (use a ATH9K_PM_NETWORK_SLEEP in \<open>simp_all add: power_regs_def reg_macros split: if_splits\<close>)
qed (use assms(7) in simp)

text \<open>Polling does not change the registers.\<close>

lemma hw_wait_loop_mem:
  assumes "ok s" and "depth s = 0"
  shows "\<exists>b s'. hw_wait_loop ops reg msk val n s = Some (b, s') \<and> ok s' \<and> depth s' = 0 \<and> mem s' = mem s"
  using assms
proof (induction n arbitrary: s)
  case 0
  then show ?case using read_op [OF 0, of reg] by auto
next
  case (Suc n)
  obtain s1 where s1: "op_read ops reg s = Some (mem s reg, s1)" "ok s1" "depth s1 = 0" "mem s1 = mem s"
    using read_op [OF Suc.prems] by blast
  then show ?case using Suc.IH [OF s1(2,3)] by auto
qed

lemma stop_dma_loop_mem:
  assumes "ok s" and "depth s = 0"
  shows "\<exists>b r s'. stop_dma_loop ops ah n st reset s = Some (b, r, s') \<and> ok s' \<and> depth s' = 0 \<and> mem s' = mem s"
  using assms
proof (induction n arbitrary: s st)
  case (Suc n)
  obtain s1 where s1: "op_read ops AR_CR s = Some (mem s AR_CR, s1)" "ok s1" "depth s1 = 0" "mem s1 = mem s"
    using read_op [OF Suc.prems] by blast
  obtain s2 where s2: "op_read ops AR_DMADBG_7 s1 = Some (mem s1 AR_DMADBG_7, s2)" "ok s2" "depth s2 = 0" "mem s2 = mem s1"
    using read_op [OF s1(2,3)] by blast
  show ?case
    using s1 s2 Suc.IH [OF s1(2,3), of st] Suc.IH [OF s2(2,3), of "mem s1 AR_DMADBG_7 AND 0x7f0"] by (auto simp: Let_def)
qed auto

lemma setrxabort_ok:
  assumes "ok s" and "depth s = 0" and "8 \<le> cap"
  obtains b s' where "ath9k_hw_setrxabort ops True s = Some (b, s')" "ok s'" "depth s' = 0"
    "\<forall>r. r \<noteq> AR_DIAG_SW \<longrightarrow> mem s' r = mem s r"
proof -
  obtain s1 where s1: "REG_RUN ops [REG_SET_BIT AR_DIAG_SW (AR_DIAG_RX_DIS OR AR_DIAG_RX_ABORT)] s = Some s1" "ok s1"
    "depth s1 = 0" "\<forall>r. r \<noteq> AR_DIAG_SW \<longrightarrow> mem s1 r = mem s r"
    using run_plain [OF assms(1,2), of "[REG_SET_BIT AR_DIAG_SW (AR_DIAG_RX_DIS OR AR_DIAG_RX_ABORT)]"] assms(3)
    by (auto simp: reg_macros)
  obtain b s2 where s2: "ath9k_hw_wait ops AR_OBS_BUS_1 AR_OBS_BUS_1_RX_STATE 0 AH_WAIT_TIMEOUT s1 = Some (b, s2)" "ok s2"
    "depth s2 = 0" "mem s2 = mem s1"
    using hw_wait_loop_mem [OF s1(2,3), of AR_OBS_BUS_1 AR_OBS_BUS_1_RX_STATE 0 "AH_WAIT_TIMEOUT div AH_TIME_QUANTUM"]
    by (auto simp: ath9k_hw_wait_def)
  show thesis
  proof (cases b)
    case True
    then show thesis using that [of True s2] s1 s2 by (simp add: ath9k_hw_setrxabort_def)
  next
    case False
    obtain s3 where s3: "REG_RUN ops [REG_CLR_BIT AR_DIAG_SW (AR_DIAG_RX_DIS OR AR_DIAG_RX_ABORT)] s2 = Some s3" "ok s3"
      "depth s3 = 0" "\<forall>r. r \<noteq> AR_DIAG_SW \<longrightarrow> mem s3 r = mem s2 r"
      using run_plain [OF s2(2,3), of "[REG_CLR_BIT AR_DIAG_SW (AR_DIAG_RX_DIS OR AR_DIAG_RX_ABORT)]"] assms(3)
      by (auto simp: reg_macros)
    obtain v s4 where s4: "op_read ops AR_OBS_BUS_1 s3 = Some (v, s4)" "ok s4" "depth s4 = 0" "mem s4 = mem s3"
      using read_op [OF s3(2,3), of AR_OBS_BUS_1] by blast
    show thesis using that [of False s4] s1 s2 s3 s4 False by (simp add: ath9k_hw_setrxabort_def)
  qed
qed

lemma stopdmarecv_ok:
  assumes "ok s" and "depth s = 0" and "8 \<le> cap"
  obtains b r s' where "ath9k_hw_stopdmarecv ops ah reset s = Some (b, r, s')" "ok s'" "depth s' = 0"
    "\<forall>r. r \<notin> {AR_MACMISC, AR_CR} \<longrightarrow> mem s' r = mem s r"
proof -
  let ?p = "[REG_WRITE AR_MACMISC (push_bit 5 8 OR push_bit 15 1), REG_WRITE AR_CR AR_CR_RXD]"
  obtain s1 where s1: "REG_RUN ops ?p s = Some s1" "ok s1" "depth s1 = 0" "\<forall>r. r \<notin> {AR_MACMISC, AR_CR} \<longrightarrow> mem s1 r = mem s r"
    using run_plain [OF assms(1,2), of ?p] assms(3) by auto
  obtain b x s2 where s2: "stop_dma_loop ops ah (AH_RX_STOP_DMA_TIMEOUT div AH_TIME_QUANTUM) 0 reset s1 = Some (b, x, s2)"
    "ok s2" "depth s2 = 0" "mem s2 = mem s1"
    using stop_dma_loop_mem [OF s1(2,3)] by blast
  obtain v1 s3 where s3: "op_read ops AR_CR s2 = Some (v1, s3)" "ok s3" "depth s3 = 0" "mem s3 = mem s2"
    using read_op [OF s2(2,3)] by blast
  obtain v2 s4 where s4: "op_read ops AR_DIAG_SW s3 = Some (v2, s4)" "ok s4" "depth s4 = 0" "mem s4 = mem s3"
    using read_op [OF s3(2,3)] by blast
  obtain v3 s5 where s5: "op_read ops AR_DMADBG_7 s4 = Some (v3, s5)" "ok s5" "depth s5 = 0" "mem s5 = mem s4"
    using read_op [OF s4(2,3)] by blast
  show thesis
  proof (cases b)
    case True
    have "ath9k_hw_stopdmarecv ops ah reset s = Some (True, x, s2)"
      unfolding ath9k_hw_stopdmarecv_def s1(1) bind.bind_lunit s2(1) using True by simp
    then show thesis by (rule that) (use s1 s2 in auto)
  next
    case False
    have "ath9k_hw_stopdmarecv ops ah reset s = Some (False, x, s5)"
      unfolding ath9k_hw_stopdmarecv_def s1(1) bind.bind_lunit s2(1) using False s3(1) s4(1) s5(1) by simp
    then show thesis by (rule that) (use s1 s2 s3 s4 s5 in auto)
  qed
qed

end

section \<open>Properties\<close>


definition ex_hooks :: "'s pm_hooks" where
  "ex_hooks = \<lparr>hk_reset_power_on = (\<lambda>s. Some (True, s)), hk_init_pll = Some, hk_mci_awake = Some, hk_mci_full_sleep = Some\<rparr>"

definition ex_pm :: ath_pm where
  "ex_pm = \<lparr>power_mode = ATH9K_PM_NETWORK_SLEEP, WARegVal = 0, chip_fullsleep = False, btcoex_enabled = False\<rparr>"


end
