(* ===== verification/Htc_Main.thy ===== *)
theory Htc_Main
  imports Htc_Beacon Ath9k_Power
begin

text \<open>
  The operations mac80211 calls (\<open>ath9k/htc_drv_main.c\<close>): interfaces, stations and the monitor
  interface with their tables on the target, power save, aggregation, rates, keys, queues,
  filters, the BSS configuration and software scans.

  \<open>main_priv\<close> adds to \<open>htc_priv\<close> the remaining fields of \<open>struct ath9k_htc_priv\<close>. Interfaces and
  stations are mac80211's objects, named by numbers. Calls to mac80211 and to work queues are
  appended to \<open>drv_trace\<close>. The command channel, the memory contents of uninitialised response
  variables and the hooks of the hardware layer are collected in \<open>drv_env\<close>. Locks are left out:
  every operation holds the driver's mutex.
\<close>

section \<open>Data\<close>

abbreviation (input) ATH9K_HTC_MAX_VIF :: u16 where "ATH9K_HTC_MAX_VIF \<equiv> 2"
abbreviation (input) ATH9K_HTC_MAX_STA :: u16 where "ATH9K_HTC_MAX_STA \<equiv> 8"
abbreviation (input) HTC_M_STA :: u8 where "HTC_M_STA \<equiv> 1"
abbreviation (input) HTC_M_IBSS :: u8 where "HTC_M_IBSS \<equiv> 0"
abbreviation (input) HTC_M_HOSTAP :: u8 where "HTC_M_HOSTAP \<equiv> 6"
abbreviation (input) HTC_M_MONITOR :: u8 where "HTC_M_MONITOR \<equiv> 8"
abbreviation (input) ETH_ALEN :: nat where "ETH_ALEN \<equiv> 6"
abbreviation (input) IEEE80211_HT_MAX_AMPDU_FACTOR :: nat where "IEEE80211_HT_MAX_AMPDU_FACTOR \<equiv> 13"
abbreviation (input) IEEE80211_HT_CAP_SUP_WIDTH_20_40 :: u16 where "IEEE80211_HT_CAP_SUP_WIDTH_20_40 \<equiv> 0x0002"
abbreviation (input) IEEE80211_HT_CAP_SGI_20 :: u16 where "IEEE80211_HT_CAP_SGI_20 \<equiv> 0x0020"
abbreviation (input) IEEE80211_HT_CAP_SGI_40 :: u16 where "IEEE80211_HT_CAP_SGI_40 \<equiv> 0x0040"
abbreviation (input) ATH_HTC_RATE_MAX :: nat where "ATH_HTC_RATE_MAX \<equiv> 30"
abbreviation (input) WLAN_RC_DS_FLAG :: u32 where "WLAN_RC_DS_FLAG \<equiv> 0x01"
abbreviation (input) WLAN_RC_40_FLAG :: u32 where "WLAN_RC_40_FLAG \<equiv> 0x02"
abbreviation (input) WLAN_RC_SGI_FLAG :: u32 where "WLAN_RC_SGI_FLAG \<equiv> 0x04"
abbreviation (input) WLAN_RC_HT_FLAG :: u32 where "WLAN_RC_HT_FLAG \<equiv> 0x08"
abbreviation (input) BSS_CHANGED_ASSOC :: u32 where "BSS_CHANGED_ASSOC \<equiv> 1"
abbreviation (input) BSS_CHANGED_ERP_SLOT :: u32 where "BSS_CHANGED_ERP_SLOT \<equiv> 8"
abbreviation (input) BSS_CHANGED_HT :: u32 where "BSS_CHANGED_HT \<equiv> 0x10"
abbreviation (input) BSS_CHANGED_BEACON_INT :: u32 where "BSS_CHANGED_BEACON_INT \<equiv> 0x40"
abbreviation (input) BSS_CHANGED_BEACON_ENABLED :: u32 where "BSS_CHANGED_BEACON_ENABLED \<equiv> 0x200"
abbreviation (input) BSS_CHANGED_IBSS :: u32 where "BSS_CHANGED_IBSS \<equiv> 0x800"
abbreviation (input) IEEE80211_RC_SUPP_RATES_CHANGED :: u32 where "IEEE80211_RC_SUPP_RATES_CHANGED \<equiv> 4"
abbreviation (input) SUPPORTED_FILTERS :: u32 where "SUPPORTED_FILTERS \<equiv> 0x1f7"
abbreviation (input) IEEE80211_NUM_ACS :: u16 where "IEEE80211_NUM_ACS \<equiv> 4"

datatype ieee80211_ampdu_mlme_action =
    IEEE80211_AMPDU_RX_START | IEEE80211_AMPDU_RX_STOP | IEEE80211_AMPDU_TX_START | IEEE80211_AMPDU_TX_STOP_CONT
  | IEEE80211_AMPDU_TX_STOP_FLUSH | IEEE80211_AMPDU_TX_STOP_FLUSH_CONT | IEEE80211_AMPDU_TX_OPERATIONAL

datatype set_key_cmd = SET_KEY | DISABLE_KEY

datatype main_call =
    Queue_ani_work
  | Cancel_ani_work
  | Cancel_ps_work
  | Start_tx_ba_cb nat u16
  | Stop_tx_ba_cb nat u16

record ieee80211_sta =
  sta_addr :: bytes
  supp_rates :: "ieee80211_band \<Rightarrow> u32"
  ht_supported :: bool
  ampdu_factor :: u8
  ht_cap_info :: u16
  rx_mask :: bytes

record ieee80211_bss =
  bss_aid :: u16
  bss_bssid :: bytes
  use_short_slot :: bool

record htc_key =
  \<comment> \<open>\<open>struct ieee80211_key_conf\<close> with the flags \<open>ath9k_htc_set_key\<close> sets\<close>
  key_conf :: ieee80211_key_conf
  generate_iv :: bool
  generate_mmic :: bool
  sw_mgmt_tx :: bool

record ath_ani =
  caldone :: bool
  longcal_timer :: u32
  shortcal_timer :: u32
  resetcal_timer :: u32
  checkani_timer :: u32

record main_priv =
  mp :: htc_priv
  mp_common :: ath_common
  mp_pm :: ath_pm
  macaddr :: bytes
  tx_chainmask :: u8
  sw_mgmt_crypto :: bool
  conf_ht40 :: bool
  sband_rates :: "ieee80211_band \<Rightarrow> u16 list"
  vif_slot :: u8
  sta_slot :: u8
  nstations :: u16
  num_sta_assoc_vif :: u8
  rearm_ani :: bool
  reconfig_beacon :: bool
  ps_usecount :: u64
  ps_enabled :: bool
  ps_idle :: bool
  ani :: ath_ani
  sta_of :: "nat \<Rightarrow> ieee80211_sta"
  bss_of :: "nat \<Rightarrow> ieee80211_bss"
  drv_trace :: "main_call list"

record 's drv_env =
  \<comment> \<open>\<open>de_junk\<close>: four uninitialised bytes; \<open>de_sta_drain\<close>: \<open>htc_sta_drain\<close> with the completions it makes;
      \<open>de_global_settings\<close>: \<open>ath9k_hw_init_global_settings\<close>; \<open>de_now\<close>: \<open>jiffies_to_msecs(jiffies)\<close>\<close>
  de_exec :: "'s wmi_exec"
  de_junk :: bytes
  de_hooks :: "(wmi \<times> 's) pm_hooks"
  de_sta_drain :: "u8 \<Rightarrow> ath9k_htc_priv \<Rightarrow> wmi \<times> 's \<Rightarrow> (ath9k_htc_priv \<times> wmi \<times> 's) option"
  de_global_settings :: "ath_hw \<Rightarrow> wmi \<times> 's \<Rightarrow> (ath_hw \<times> wmi \<times> 's) option"
  de_now :: u32

definition de_ops :: "'s drv_env \<Rightarrow> (wmi \<times> 's) ath_ops" where
  "de_ops env = htc_ops (de_exec env) (de_junk env)"

definition drv_wmi :: "'s drv_env \<Rightarrow> u16 \<Rightarrow> bytes \<Rightarrow> wmi \<times> 's \<Rightarrow> (int \<times> wmi \<times> 's) option" where
  \<comment> \<open>\<open>WMI_CMD_BUF(cmd, buf)\<close>\<close>
  "drv_wmi env c buf s = WMI_CMD (de_exec env) c buf (de_junk env ! 0) s"

definition set_mp :: "(htc_priv \<Rightarrow> htc_priv) \<Rightarrow> main_priv \<Rightarrow> main_priv" where
  "set_mp f p = p\<lparr>mp := f (mp p)\<rparr>"

definition set_base :: "(ath9k_htc_priv \<Rightarrow> ath9k_htc_priv) \<Rightarrow> main_priv \<Rightarrow> main_priv" where
  "set_base f = set_mp (\<lambda>q. q\<lparr>htc_base := f (htc_base q)\<rparr>)"

definition set_ah :: "(ath_hw \<Rightarrow> ath_hw) \<Rightarrow> main_priv \<Rightarrow> main_priv" where
  "set_ah f = set_mp (\<lambda>q. q\<lparr>htc_ah := f (htc_ah q)\<rparr>)"

definition set_monitoring :: "bool \<Rightarrow> main_priv \<Rightarrow> main_priv" where
  \<comment> \<open>\<open>priv->ah->is_monitoring\<close>, which the transmit path reads too\<close>
  "set_monitoring b p = set_base (\<lambda>q. q\<lparr>ath9k_htc_priv.is_monitoring := b\<rparr>) (set_ah (\<lambda>a. a\<lparr>ath_hw.is_monitoring := b\<rparr>) p)"

definition trace_call :: "main_call \<Rightarrow> main_priv \<Rightarrow> main_priv" where
  "trace_call c p = p\<lparr>drv_trace := drv_trace p @ [c]\<rparr>"

definition ffz :: "u8 \<Rightarrow> nat" where
  \<comment> \<open>the first zero bit of the byte, widened to \<open>unsigned long\<close>\<close>
  "ffz w = length (takeWhile (bit w) [0 ..< 8])"

section \<open>Power save\<close>

definition ath9k_htc_setpower ::
  "'s drv_env \<Rightarrow> ath9k_power_mode \<Rightarrow> main_priv \<Rightarrow> wmi \<times> 's \<Rightarrow> (bool \<times> main_priv \<times> wmi \<times> 's) option" where
  "ath9k_htc_setpower env mode p s = do {
     (ret, pm, s) \<leftarrow> ath9k_hw_setpower (de_ops env) (de_hooks env) (htc_ah (mp p)) mode (mp_pm p) s;
     Some (ret, p\<lparr>mp_pm := pm\<rparr>, s) }"

definition ath9k_htc_ps_wakeup :: "'s drv_env \<Rightarrow> main_priv \<Rightarrow> wmi \<times> 's \<Rightarrow> (main_priv \<times> wmi \<times> 's) option" where
  "ath9k_htc_ps_wakeup env p s = do {
     let p = p\<lparr>ps_usecount := ps_usecount p + 1\<rparr>;
     if ps_usecount p \<noteq> 1 then Some (p, s)
     else do {
       (r, p, s) \<leftarrow> ath9k_htc_setpower env ATH9K_PM_AWAKE p s;
       Some (p, s) } }"

definition ath9k_htc_ps_restore :: "'s drv_env \<Rightarrow> main_priv \<Rightarrow> wmi \<times> 's \<Rightarrow> (main_priv \<times> wmi \<times> 's) option" where
  "ath9k_htc_ps_restore env p s = do {
     let p = p\<lparr>ps_usecount := ps_usecount p - 1\<rparr>;
     if ps_usecount p \<noteq> 0 then Some (p, s)
     else if ps_idle p then do {
       (r, s) \<leftarrow> ath9k_hw_setrxabort (de_ops env) True s;
       (r, reset, s) \<leftarrow> ath9k_hw_stopdmarecv (de_ops env) (htc_ah (mp p)) False s;
       (r, p, s) \<leftarrow> ath9k_htc_setpower env ATH9K_PM_FULL_SLEEP p s;
       Some (p, s) }
     else if ps_enabled p then do {
       (r, p, s) \<leftarrow> ath9k_htc_setpower env ATH9K_PM_NETWORK_SLEEP p s;
       Some (p, s) }
     else Some (p, s) }"

definition ath9k_ps_work :: "'s drv_env \<Rightarrow> main_priv \<Rightarrow> wmi \<times> 's \<Rightarrow> (main_priv \<times> wmi \<times> 's) option" where
  "ath9k_ps_work env p s = do {
     (r, p, s) \<leftarrow> ath9k_htc_setpower env ATH9K_PM_AWAKE p s;
     (r, p, s) \<leftarrow> ath9k_htc_setpower env ATH9K_PM_NETWORK_SLEEP p s;
     Some (p, s) }"

definition awake ::
  "'s drv_env \<Rightarrow> (main_priv \<Rightarrow> wmi \<times> 's \<Rightarrow> ('a \<times> main_priv \<times> wmi \<times> 's) option) \<Rightarrow> main_priv \<Rightarrow> wmi \<times> 's \<Rightarrow>
     ('a \<times> main_priv \<times> wmi \<times> 's) option" where
  \<comment> \<open>an operation between \<open>ath9k_htc_ps_wakeup\<close> and \<open>ath9k_htc_ps_restore\<close>\<close>
  "awake env f p s = do {
     (p, s) \<leftarrow> ath9k_htc_ps_wakeup env p s;
     (r, p, s) \<leftarrow> f p s;
     (p, s) \<leftarrow> ath9k_htc_ps_restore env p s;
     Some (r, p, s) }"

section \<open>Noise immunity work\<close>

definition ath9k_htc_start_ani :: "'s drv_env \<Rightarrow> main_priv \<Rightarrow> main_priv option" where
  "ath9k_htc_start_ani env p = do {
     let p = p\<lparr>ani := (ani p)\<lparr>longcal_timer := de_now env, shortcal_timer := de_now env, checkani_timer := de_now env\<rparr>\<rparr>;
     q \<leftarrow> set_op OP_ANI_RUNNING (mp p);
     Some (trace_call Queue_ani_work (p\<lparr>mp := q\<rparr>)) }"

definition ath9k_htc_stop_ani :: "main_priv \<Rightarrow> main_priv option" where
  "ath9k_htc_stop_ani p = do {
     q \<leftarrow> clear_op OP_ANI_RUNNING (mp p);
     Some ((trace_call Cancel_ani_work p)\<lparr>mp := q\<rparr>) }"

section \<open>Interface lists\<close>

definition ath9k_htc_vif_iter :: "nat \<Rightarrow> main_priv \<Rightarrow> main_priv" where
  "ath9k_htc_vif_iter v p =
     (let vif = vif_of (mp p) v;
          p = (if vif_type vif = IFTYPE_AP \<and> bss_enable_beacon vif then p\<lparr>reconfig_beacon := True\<rparr> else p)
      in if bss_assoc vif then p\<lparr>rearm_ani := True, reconfig_beacon := True\<rparr> else p)"

definition ath9k_htc_vif_reconfig :: "'s drv_env \<Rightarrow> main_priv \<Rightarrow> wmi \<times> 's \<Rightarrow> (main_priv \<times> wmi \<times> 's) option" where
  "ath9k_htc_vif_reconfig env p s = do {
     let p = fold ath9k_htc_vif_iter (active_vifs (mp p)) (p\<lparr>rearm_ani := False, reconfig_beacon := False\<rparr>);
     p \<leftarrow> (if rearm_ani p then ath9k_htc_start_ani env p else Some p);
     if reconfig_beacon p then do {
       (r, p, s) \<leftarrow> awake env (\<lambda>p s. do {
         (q, s) \<leftarrow> ath9k_htc_beacon_reconfig (de_exec env) (de_junk env) (mp p) s;
         Some ((), p\<lparr>mp := q\<rparr>, s) }) p s;
       Some (p, s) }
     else Some (p, s) }"

definition ath9k_htc_bssid_iter :: "bytes \<Rightarrow> bytes \<Rightarrow> bytes \<Rightarrow> bytes" where
  "ath9k_htc_bssid_iter hw_macaddr mac msk = map (\<lambda>i. msk ! i AND NOT (hw_macaddr ! i XOR mac ! i)) [0 ..< ETH_ALEN]"

definition bssid_mask_of :: "main_priv \<Rightarrow> nat option \<Rightarrow> bytes" where
  "bssid_mask_of p v = fold (\<lambda>u. ath9k_htc_bssid_iter (macaddr p) (vif_addr (vif_of (mp p) u)))
     (case v of None \<Rightarrow> active_vifs (mp p) | Some v \<Rightarrow> v # active_vifs (mp p)) (replicate ETH_ALEN 0xff)"

definition ath9k_htc_set_bssid_mask ::
  "'s drv_env \<Rightarrow> nat option \<Rightarrow> main_priv \<Rightarrow> wmi \<times> 's \<Rightarrow> (main_priv \<times> wmi \<times> 's) option" where
  "ath9k_htc_set_bssid_mask env v p s = do {
     let p = p\<lparr>mp_common := (mp_common p)\<lparr>bssidmask := bssid_mask_of p v\<rparr>\<rparr>;
     s \<leftarrow> ath_hw_setbssidmask (de_ops env) (mp_common p) s;
     Some (p, s) }"

definition ath9k_htc_set_opmode :: "'s drv_env \<Rightarrow> main_priv \<Rightarrow> wmi \<times> 's \<Rightarrow> (main_priv \<times> wmi \<times> 's) option" where
  "ath9k_htc_set_opmode env p s = do {
     let mode = (if num_ibss_vif (mp p) \<noteq> 0 then IFTYPE_ADHOC
                 else if num_ap_vif (mp p) \<noteq> 0 then IFTYPE_AP else IFTYPE_STATION);
     let p = set_ah (\<lambda>a. a\<lparr>opmode := mode\<rparr>) p;
     s \<leftarrow> ath9k_hw_setopmode (de_ops env) (htc_ah (mp p)) s;
     Some (p, s) }"

section \<open>Interfaces and stations on the target\<close>

definition target_vif :: "u8 \<Rightarrow> u8 \<Rightarrow> bytes \<Rightarrow> u16 \<Rightarrow> bytes" where
  "target_vif index m myaddr rtsthreshold = [index, m] @ myaddr @ [0] @ be16_bytes rtsthreshold @ [0]"

definition target_sta :: "bytes \<Rightarrow> bytes \<Rightarrow> u8 \<Rightarrow> u8 \<Rightarrow> u8 \<Rightarrow> u16 \<Rightarrow> bytes" where
  "target_sta mac bssid sta_idx vif_idx is_vif_sta maxampdu =
     mac @ bssid @ [sta_idx, vif_idx, is_vif_sta] @ be16_bytes 0 @ be16_bytes 0 @ be16_bytes maxampdu @ [0]"

definition set_sta_pos :: "u8 \<Rightarrow> u8 \<Rightarrow> main_priv \<Rightarrow> main_priv option" where
  \<comment> \<open>\<open>priv->vif_sta_pos[i] = v\<close>\<close>
  "set_sta_pos i v p =
     (if unat i < length (vif_sta_pos (htc_base (mp p)))
      then Some (set_base (\<lambda>q. q\<lparr>vif_sta_pos := (vif_sta_pos q)[unat i := v]\<rparr>) p) else None)"

definition take_sta_slot :: "nat \<Rightarrow> main_priv \<Rightarrow> main_priv" where
  "take_sta_slot i p = p\<lparr>sta_slot := sta_slot p OR push_bit i 1, nstations := nstations p + 1\<rparr>"

definition drop_sta_slot :: "nat \<Rightarrow> main_priv \<Rightarrow> main_priv" where
  "drop_sta_slot i p = p\<lparr>sta_slot := sta_slot p AND NOT (push_bit i 1), nstations := nstations p - 1\<rparr>"

definition take_vif_slot :: "nat \<Rightarrow> main_priv \<Rightarrow> main_priv" where
  "take_vif_slot i p = set_mp (\<lambda>q. q\<lparr>nvifs := nvifs q + 1\<rparr>) (p\<lparr>vif_slot := vif_slot p OR push_bit i 1\<rparr>)"

definition drop_vif_slot :: "nat \<Rightarrow> main_priv \<Rightarrow> main_priv" where
  "drop_vif_slot i p = set_mp (\<lambda>q. q\<lparr>nvifs := nvifs q - 1\<rparr>) (p\<lparr>vif_slot := vif_slot p AND NOT (push_bit i 1)\<rparr>)"

definition remove_monitor_vif :: "'s drv_env \<Rightarrow> main_priv \<Rightarrow> wmi \<times> 's \<Rightarrow> (main_priv \<times> wmi \<times> 's) option" where
  \<comment> \<open>\<open>__ath9k_htc_remove_monitor_interface\<close>\<close>
  "remove_monitor_vif env p s = do {
     let idx = mon_vif_idx (htc_base (mp p));
     (ret, s) \<leftarrow> drv_wmi env WMI_VAP_REMOVE_CMDID (target_vif idx 0 (macaddr p) 0) s;
     Some (drop_vif_slot (unat idx) p, s) }"

definition ath9k_htc_add_monitor_interface ::
  "'s drv_env \<Rightarrow> main_priv \<Rightarrow> wmi \<times> 's \<Rightarrow> (int \<times> main_priv \<times> wmi \<times> 's) option" where
  "ath9k_htc_add_monitor_interface env p s =
     (let sta_idx = ffz (sta_slot p); idx = word_of_nat (ffz (vif_slot p)) :: u8 in
      if ATH9K_HTC_MAX_VIF \<le> nvifs (mp p) \<or> ATH9K_HTC_MAX_STA \<le> nstations p then Some (- ENOBUFS, p, s)
      else if 8 < sta_idx then Some (- ENOBUFS, p, s)
      else do {
        (ret, s) \<leftarrow> drv_wmi env WMI_VAP_CREATE_CMDID (target_vif idx HTC_M_MONITOR (macaddr p) 0) s;
        if ret \<noteq> 0 then Some (ret, p, s)
        else do {
          let p = set_base (\<lambda>q. q\<lparr>mon_vif_idx := idx\<rparr>) p;
          let p = (if nvifs (mp p) = 0 then set_ah (\<lambda>a. a\<lparr>opmode := IFTYPE_MONITOR\<rparr>) p else p);
          let p = take_vif_slot (unat idx) p;
          (ret, s) \<leftarrow> drv_wmi env WMI_NODE_CREATE_CMDID
            (target_sta (macaddr p) (replicate 6 0) (word_of_nat sta_idx) idx 1 0xffff) s;
          if ret \<noteq> 0 then do {
            (p, s) \<leftarrow> remove_monitor_vif env p s;
            Some (ret, p, s) }
          else do {
            let p = take_sta_slot sta_idx p;
            p \<leftarrow> set_sta_pos (mon_vif_idx (htc_base (mp p))) (word_of_nat sta_idx) p;
            Some (0, set_monitoring True p, s) } } })"

definition ath9k_htc_remove_monitor_interface ::
  "'s drv_env \<Rightarrow> main_priv \<Rightarrow> wmi \<times> 's \<Rightarrow> (int \<times> main_priv \<times> wmi \<times> 's) option" where
  "ath9k_htc_remove_monitor_interface env p s = do {
     (p, s) \<leftarrow> remove_monitor_vif env p s;
     sta_idx \<leftarrow> byte_at (vif_sta_pos (htc_base (mp p))) (unat (mon_vif_idx (htc_base (mp p))));
     (ret, s) \<leftarrow> drv_wmi env WMI_NODE_REMOVE_CMDID [sta_idx] s;
     if ret \<noteq> 0 then Some (ret, p, s)
     else Some (0, set_monitoring False (drop_sta_slot (unat sta_idx) p), s) }"

definition maxampdu_of :: "ieee80211_sta \<Rightarrow> u16" where
  \<comment> \<open>\<open>maxampdu = 1 << (IEEE80211_HT_MAX_AMPDU_FACTOR + ampdu_factor)\<close>, stored in a \<open>u16\<close>\<close>
  "maxampdu_of sta = push_bit (IEEE80211_HT_MAX_AMPDU_FACTOR + unat (ampdu_factor sta)) 1"

definition ath9k_htc_add_station ::
  "'s drv_env \<Rightarrow> nat \<Rightarrow> nat option \<Rightarrow> main_priv \<Rightarrow> wmi \<times> 's \<Rightarrow> (int \<times> main_priv \<times> wmi \<times> 's) option" where
  "ath9k_htc_add_station env v sta p s =
     (let sta_idx = ffz (sta_slot p); idx = vif_index (priv_vif (htc_base (mp p)) v) in
      if ATH9K_HTC_MAX_STA \<le> nstations p then Some (- ENOBUFS, p, s)
      else if 8 < sta_idx then Some (- ENOBUFS, p, s)
      else do {
        let p = (case sta of
                   Some n \<Rightarrow> set_base (\<lambda>q. q\<lparr>priv_sta := (priv_sta q)(n := (priv_sta q n)\<lparr>sta_index := word_of_nat sta_idx\<rparr>)\<rparr>) p
                 | None \<Rightarrow> p);
        let tsta = (case sta of
                      Some n \<Rightarrow> target_sta (sta_addr (sta_of p n)) (curbssid (htc_ah (mp p))) (word_of_nat sta_idx) idx 0
                                  (maxampdu_of (sta_of p n))
                    | None \<Rightarrow> target_sta (vif_addr (vif_of (mp p) v)) (replicate 6 0) (word_of_nat sta_idx) idx 1 0xffff);
        (ret, s) \<leftarrow> drv_wmi env WMI_NODE_CREATE_CMDID tsta s;
        if ret \<noteq> 0 then Some (ret, p, s)
        else do {
          let p = take_sta_slot sta_idx p;
          p \<leftarrow> (case sta of Some n \<Rightarrow> Some p | None \<Rightarrow> set_sta_pos idx (word_of_nat sta_idx) p);
          Some (0, p, s) } })"

definition ath9k_htc_remove_station ::
  "'s drv_env \<Rightarrow> nat \<Rightarrow> nat option \<Rightarrow> main_priv \<Rightarrow> wmi \<times> 's \<Rightarrow> (int \<times> main_priv \<times> wmi \<times> 's) option" where
  "ath9k_htc_remove_station env v sta p s = do {
     sta_idx \<leftarrow> (case sta of
        Some n \<Rightarrow> Some (sta_index (priv_sta (htc_base (mp p)) n))
      | None \<Rightarrow> byte_at (vif_sta_pos (htc_base (mp p))) (unat (vif_index (priv_vif (htc_base (mp p)) v))));
     (ret, s) \<leftarrow> drv_wmi env WMI_NODE_REMOVE_CMDID [sta_idx] s;
     if ret \<noteq> 0 then Some (ret, p, s) else Some (0, drop_sta_slot (unat sta_idx) p, s) }"

definition ath9k_htc_update_cap_target :: "'s drv_env \<Rightarrow> u8 \<Rightarrow> main_priv \<Rightarrow> wmi \<times> 's \<Rightarrow> (int \<times> wmi \<times> 's) option" where
  "ath9k_htc_update_cap_target env enable_coex p s =
     drv_wmi env WMI_TARGET_IC_UPDATE_CMDID (be32_bytes 0xffff @ [0xff, enable_coex, tx_chainmask p, 0]) s"

section \<open>Rates\<close>

definition legacy_rates :: "main_priv \<Rightarrow> ieee80211_sta \<Rightarrow> bytes" where
  "legacy_rates p sta =
     (let band = conf_band (htc_base (mp p)); rates = sband_rates p band in
      map (\<lambda>i. word_of_int ((uint (rates ! i) * 2) div 10)) (filter (bit (supp_rates sta band)) [0 ..< length rates]))"

definition ht_rates :: "ieee80211_sta \<Rightarrow> bytes" where
  \<comment> \<open>the loop over 77 rates, which ends when the table is full\<close>
  "ht_rates sta = take ATH_HTC_RATE_MAX
     (map word_of_nat (filter (\<lambda>i. bit (rx_mask sta ! (i div 8)) (i mod 8)) [0 ..< 77]))"

definition rate_caps :: "main_priv \<Rightarrow> ieee80211_sta \<Rightarrow> u32" where
  "rate_caps p sta =
     (if \<not> ht_supported sta then 0
      else
       (let ht40 = conf_ht40 p; ht20 = (conf_ht (htc_base (mp p)) \<and> \<not> conf_ht40 p);
            caps = WLAN_RC_HT_FLAG;
            caps = (if rx_mask sta ! 1 \<noteq> 0 then caps OR WLAN_RC_DS_FLAG else caps);
            caps = (if has_flag (ht_cap_info sta) IEEE80211_HT_CAP_SUP_WIDTH_20_40 \<and> ht40 then caps OR WLAN_RC_40_FLAG else caps)
        in if ht40 \<and> has_flag (ht_cap_info sta) IEEE80211_HT_CAP_SGI_40 then caps OR WLAN_RC_SGI_FLAG
           else if ht20 \<and> has_flag (ht_cap_info sta) IEEE80211_HT_CAP_SGI_20 then caps OR WLAN_RC_SGI_FLAG
           else caps))"

definition rateset :: "bytes \<Rightarrow> bytes option" where
  \<comment> \<open>\<open>struct ath9k_htc_rateset\<close>: more rates than the table holds run past it\<close>
  "rateset rs = (if length rs \<le> ATH_HTC_RATE_MAX
     then Some (word_of_nat (length rs) # rs @ replicate (ATH_HTC_RATE_MAX - length rs) 0) else None)"

definition ath9k_htc_setup_rate :: "main_priv \<Rightarrow> nat \<Rightarrow> bytes option" where
  \<comment> \<open>the bytes of \<open>struct ath9k_htc_target_rate\<close>, which is not packed\<close>
  "ath9k_htc_setup_rate p n = do {
     let sta = sta_of p n;
     legacy \<leftarrow> rateset (legacy_rates p sta);
     ht \<leftarrow> rateset (if ht_supported sta then ht_rates sta else []);
     Some ([sta_index (priv_sta (htc_base (mp p)) n), 1, 0, 0] @ be32_bytes (rate_caps p sta) @ legacy @ ht @ [0, 0]) }"

definition ath9k_htc_init_rate :: "'s drv_env \<Rightarrow> nat \<Rightarrow> main_priv \<Rightarrow> wmi \<times> 's \<Rightarrow> (int \<times> wmi \<times> 's) option" where
  \<comment> \<open>also \<open>ath9k_htc_send_rate_cmd\<close>; the result only selects a debug message\<close>
  "ath9k_htc_init_rate env n p s = do {
     trate \<leftarrow> ath9k_htc_setup_rate p n;
     drv_wmi env WMI_RC_RATE_UPDATE_CMDID trate s }"

definition ath9k_htc_update_rate ::
  "'s drv_env \<Rightarrow> (nat \<Rightarrow> bytes \<Rightarrow> nat option) \<Rightarrow> nat \<Rightarrow> main_priv \<Rightarrow> wmi \<times> 's \<Rightarrow> (wmi \<times> 's) option" where
  "ath9k_htc_update_rate env find_sta v p s = (case find_sta v (bss_bssid (bss_of p v)) of
       None \<Rightarrow> Some s
     | Some n \<Rightarrow> do {
         (ret, s) \<leftarrow> ath9k_htc_init_rate env n p s;
         Some s })"

section \<open>Aggregation\<close>

definition set_tid_state :: "nat \<Rightarrow> u16 \<Rightarrow> tid_aggr_state \<Rightarrow> main_priv \<Rightarrow> main_priv option" where
  \<comment> \<open>\<open>ista->tid_state[tid] = st\<close>\<close>
  "set_tid_state n tid st p =
     (let sta = priv_sta (htc_base (mp p)) n in
      if unat tid < length (tid_state sta)
      then Some (set_base (\<lambda>q. q\<lparr>priv_sta := (priv_sta q)(n := sta\<lparr>tid_state := (tid_state sta)[unat tid := st]\<rparr>)\<rparr>) p)
      else None)"

definition ath9k_htc_tx_aggr_oper ::
  "'s drv_env \<Rightarrow> nat \<Rightarrow> ieee80211_ampdu_mlme_action \<Rightarrow> u16 \<Rightarrow> main_priv \<Rightarrow> wmi \<times> 's \<Rightarrow> (int \<times> main_priv \<times> wmi \<times> 's) option" where
  "ath9k_htc_tx_aggr_oper env n action tid p s =
     (if word_of_nat ATH9K_HTC_MAX_TID \<le> tid then Some (- EINVAL, p, s)
      else do {
        let enable = (action = IEEE80211_AMPDU_TX_START);
        (ret, s) \<leftarrow> drv_wmi env WMI_TX_AGGR_ENABLE_CMDID
          [sta_index (priv_sta (htc_base (mp p)) n), ucast (tid AND 0xf), if enable then 1 else 0, 0] s;
        p \<leftarrow> set_tid_state n tid (if enable \<and> ret = 0 then AGGR_START else AGGR_STOP) p;
        Some (ret, p, s) })"

definition ath9k_htc_ampdu_action ::
  "'s drv_env \<Rightarrow> ieee80211_ampdu_mlme_action \<Rightarrow> nat \<Rightarrow> u16 \<Rightarrow> main_priv \<Rightarrow> wmi \<times> 's \<Rightarrow> (int \<times> main_priv \<times> wmi \<times> 's) option" where
  "ath9k_htc_ampdu_action env action n tid = awake env (\<lambda>p s.
     case action of
       IEEE80211_AMPDU_RX_START \<Rightarrow> Some (0, p, s)
     | IEEE80211_AMPDU_RX_STOP \<Rightarrow> Some (0, p, s)
     | IEEE80211_AMPDU_TX_START \<Rightarrow> do {
         (ret, p, s) \<leftarrow> ath9k_htc_tx_aggr_oper env n action tid p s;
         Some (ret, if ret = 0 then trace_call (Start_tx_ba_cb n tid) p else p, s) }
     | IEEE80211_AMPDU_TX_OPERATIONAL \<Rightarrow> do {
         p \<leftarrow> set_tid_state n tid AGGR_OPERATIONAL p;
         Some (0, p, s) }
     | _ \<Rightarrow> do {
         (ret, p, s) \<leftarrow> ath9k_htc_tx_aggr_oper env n action tid p s;
         Some (0, trace_call (Stop_tx_ba_cb n tid) p, s) })"

section \<open>Operations of mac80211\<close>

definition INC_VIF :: "nl80211_iftype \<Rightarrow> htc_priv \<Rightarrow> htc_priv" where
  "INC_VIF type q = (case type of
       IFTYPE_STATION \<Rightarrow> q\<lparr>num_sta_vif := num_sta_vif q + 1\<rparr>
     | IFTYPE_ADHOC \<Rightarrow> q\<lparr>num_ibss_vif := num_ibss_vif q + 1\<rparr>
     | IFTYPE_AP \<Rightarrow> q\<lparr>num_ap_vif := num_ap_vif q + 1\<rparr>
     | _ \<Rightarrow> q)"

definition DEC_VIF :: "nl80211_iftype \<Rightarrow> htc_priv \<Rightarrow> htc_priv" where
  "DEC_VIF type q = (case type of
       IFTYPE_STATION \<Rightarrow> q\<lparr>num_sta_vif := num_sta_vif q - 1\<rparr>
     | IFTYPE_ADHOC \<Rightarrow> q\<lparr>num_ibss_vif := num_ibss_vif q - 1\<rparr>
     | IFTYPE_AP \<Rightarrow> q\<lparr>num_ap_vif := num_ap_vif q - 1\<rparr>
     | _ \<Rightarrow> q)"

definition htc_opmode :: "nl80211_iftype \<Rightarrow> u8 option" where
  "htc_opmode type = (case type of
       IFTYPE_STATION \<Rightarrow> Some HTC_M_STA
     | IFTYPE_ADHOC \<Rightarrow> Some HTC_M_IBSS
     | IFTYPE_AP \<Rightarrow> Some HTC_M_HOSTAP
     | _ \<Rightarrow> None)"

definition beaconing_type :: "nl80211_iftype \<Rightarrow> bool" where
  "beaconing_type type \<longleftrightarrow> type = IFTYPE_AP \<or> type = IFTYPE_ADHOC"

definition set_vif_index :: "nat \<Rightarrow> u8 \<Rightarrow> main_priv \<Rightarrow> main_priv" where
  "set_vif_index v i = set_base (\<lambda>q. q\<lparr>priv_vif := (priv_vif q)(v := (priv_vif q v)\<lparr>vif_index := i\<rparr>)\<rparr>)"

definition attach_interface ::
  "'s drv_env \<Rightarrow> nat \<Rightarrow> main_priv \<Rightarrow> wmi \<times> 's \<Rightarrow> (int \<times> main_priv \<times> wmi \<times> 's) option" where
  \<comment> \<open>\<open>ath9k_htc_add_interface\<close> after the target has accepted interface and station\<close>
  "attach_interface env v p s = do {
     let type = vif_type (vif_of (mp p) v);
     (p, s) \<leftarrow> ath9k_htc_set_bssid_mask env (Some v) p s;
     let p = set_mp (INC_VIF type) (take_vif_slot (unat (vif_index (priv_vif (htc_base (mp p)) v))) p);
     p \<leftarrow> (if beaconing_type type then do { q \<leftarrow> ath9k_htc_assign_bslot v (mp p); Some (p\<lparr>mp := q\<rparr>) } else Some p);
     (p, s) \<leftarrow> ath9k_htc_set_opmode env p s;
     running \<leftarrow> test_op OP_ANI_RUNNING (mp p);
     p \<leftarrow> (if opmode (htc_ah (mp p)) = IFTYPE_AP \<and> \<not> running
          then ath9k_htc_start_ani env (set_ah (ath9k_hw_set_tsfadjust True) p) else Some p);
     Some (0, p, s) }"

definition ath9k_htc_add_interface ::
  "'s drv_env \<Rightarrow> nat \<Rightarrow> main_priv \<Rightarrow> wmi \<times> 's \<Rightarrow> (int \<times> main_priv \<times> wmi \<times> 's) option" where
  "ath9k_htc_add_interface env v = awake env (\<lambda>p s.
     let vif = vif_of (mp p) v in
     case htc_opmode (vif_type vif) of
       None \<Rightarrow> Some (- EOPNOTSUPP, p, s)
     | Some m \<Rightarrow> do {
         let idx = (word_of_nat (ffz (vif_slot p)) :: u8);
         let p = set_vif_index v idx p;
         let hvif = target_vif idx m (vif_addr vif) 2304;
         (ret, s) \<leftarrow> drv_wmi env WMI_VAP_CREATE_CMDID hvif s;
         if ret \<noteq> 0 then Some (ret, p, s)
         else do {
           (ret, p, s) \<leftarrow> ath9k_htc_add_station env v None p s;
           if ret \<noteq> 0 then do {
             (ret, s) \<leftarrow> drv_wmi env WMI_VAP_REMOVE_CMDID hvif s;
             Some (ret, p, s) }
           else attach_interface env v p s } })"

definition ath9k_htc_remove_interface ::
  "'s drv_env \<Rightarrow> nat \<Rightarrow> main_priv \<Rightarrow> wmi \<times> 's \<Rightarrow> (unit \<times> main_priv \<times> wmi \<times> 's) option" where
  "ath9k_htc_remove_interface env v = awake env (\<lambda>p s. do {
     let vif = vif_of (mp p) v;
     let idx = vif_index (priv_vif (htc_base (mp p)) v);
     (ret, s) \<leftarrow> drv_wmi env WMI_VAP_REMOVE_CMDID (target_vif idx 0 (vif_addr vif) 0) s;
     let p = drop_vif_slot (unat idx) p;
     (ret, p, s) \<leftarrow> ath9k_htc_remove_station env v None p s;
     let p = set_mp (DEC_VIF (vif_type vif)) p;
     p \<leftarrow> (if beaconing_type (vif_type vif) then do { q \<leftarrow> ath9k_htc_remove_bslot v (mp p); Some (p\<lparr>mp := q\<rparr>) } else Some p);
     (p, s) \<leftarrow> ath9k_htc_set_opmode env p s;
     (p, s) \<leftarrow> ath9k_htc_set_bssid_mask env (Some v) p s;
     p \<leftarrow> (if vif_type vif = IFTYPE_AP \<and> num_ap_vif (mp p) = 0 then
             (let p = fold ath9k_htc_vif_iter (active_vifs (mp p)) (p\<lparr>rearm_ani := False\<rparr>)
              in if \<not> rearm_ani p then ath9k_htc_stop_ani p else Some p)
           else Some p);
     Some ((), p, s) })"

definition ath9k_htc_configure_filter ::
  "'s drv_env \<Rightarrow> u32 \<Rightarrow> main_priv \<Rightarrow> wmi \<times> 's \<Rightarrow> (u32 \<times> main_priv \<times> wmi \<times> 's) option" where
  \<comment> \<open>the first result is \<open>*total_flags\<close> afterwards\<close>
  "ath9k_htc_configure_filter env total_flags p s = do {
     let total_flags = total_flags AND SUPPORTED_FILTERS;
     invalid \<leftarrow> test_op OP_INVALID (mp p);
     if invalid then Some (total_flags, p, s)
     else awake env (\<lambda>p s. do {
       let p = set_mp (\<lambda>q. q\<lparr>rxfilter := total_flags\<rparr>) p;
       (rfilt, s) \<leftarrow> ath9k_htc_calcrxfilter (de_ops env) (mp p) s;
       s \<leftarrow> ath9k_hw_setrxfilter (de_ops env) (htc_ah (mp p)) rfilt s;
       Some (total_flags, p, s) }) p s }"

definition ath9k_htc_sta_add ::
  "'s drv_env \<Rightarrow> nat \<Rightarrow> nat \<Rightarrow> main_priv \<Rightarrow> wmi \<times> 's \<Rightarrow> (int \<times> main_priv \<times> wmi \<times> 's) option" where
  "ath9k_htc_sta_add env v n = awake env (\<lambda>p s. do {
     (ret, p, s) \<leftarrow> ath9k_htc_add_station env v (Some n) p s;
     if ret = 0 then do {
       (r, s) \<leftarrow> ath9k_htc_init_rate env n p s;
       Some (ret, p, s) }
     else Some (ret, p, s) })"

definition ath9k_htc_sta_remove ::
  "'s drv_env \<Rightarrow> nat \<Rightarrow> nat \<Rightarrow> main_priv \<Rightarrow> wmi \<times> 's \<Rightarrow> (int \<times> main_priv \<times> wmi \<times> 's) option" where
  "ath9k_htc_sta_remove env v n = awake env (\<lambda>p s. do {
     (b, s) \<leftarrow> de_sta_drain env (sta_index (priv_sta (htc_base (mp p)) n)) (htc_base (mp p)) s;
     ath9k_htc_remove_station env v (Some n) (set_base (\<lambda>_. b) p) s })"

definition ath9k_htc_sta_rc_update ::
  "'s drv_env \<Rightarrow> nat \<Rightarrow> u32 \<Rightarrow> main_priv \<Rightarrow> wmi \<times> 's \<Rightarrow> (unit \<times> main_priv \<times> wmi \<times> 's) option" where
  "ath9k_htc_sta_rc_update env n changed = awake env (\<lambda>p s.
     if has_flag changed IEEE80211_RC_SUPP_RATES_CHANGED then do {
       (r, s) \<leftarrow> ath9k_htc_init_rate env n p s;
       Some ((), p, s) }
     else Some ((), p, s))"

record ieee80211_tx_queue_params =
  par_txop :: u16
  par_cw_min :: u16
  par_cw_max :: u16
  par_aifs :: u8

definition ath9k_htc_conf_tx ::
  "'s drv_env \<Rightarrow> ath9k_tx_queue_info \<Rightarrow> u16 \<Rightarrow> ieee80211_tx_queue_params \<Rightarrow> main_priv \<Rightarrow> wmi \<times> 's \<Rightarrow>
     (int \<times> main_priv \<times> wmi \<times> 's) option" where
  \<comment> \<open>\<open>junk\<close> is the uninitialised local of \<open>ath_htc_txq_update\<close>\<close>
  "ath9k_htc_conf_tx env junk queue params p s =
     (if IEEE80211_NUM_ACS \<le> queue then Some (0, p, s)
      else awake env (\<lambda>p s. do {
        let qi = qi_zero\<lparr>tqi_aifs := ucast (par_aifs params), tqi_cwmin := ucast (par_cw_min params),
                         tqi_cwmax := ucast (par_cw_max params), tqi_burstTime := ucast (par_txop params) * 32\<rparr>;
        let qnum = get_hw_qnum queue (hwq_map (mp p));
        (ret, q, s) \<leftarrow> ath_htc_txq_update (de_ops env) junk qnum qi (mp p) s;
        let p = p\<lparr>mp := q\<rparr>;
        if ret \<noteq> 0 then Some (ret, p, s)
        else if opmode (htc_ah (mp p)) = IFTYPE_ADHOC \<and> qnum = hwq_map (mp p) ! IEEE80211_AC_BE then do {
          (q, s) \<leftarrow> ath9k_htc_beaconq_config (de_ops env) (mp p) s;
          Some (ret, p\<lparr>mp := q\<rparr>, s) }
        else Some (ret, p, s) }) p s)"

definition ath9k_htc_set_key ::
  "'s drv_env \<Rightarrow> bool \<Rightarrow> set_key_cmd \<Rightarrow> nat \<Rightarrow> nat option \<Rightarrow> htc_key \<Rightarrow> main_priv \<Rightarrow> wmi \<times> 's \<Rightarrow>
     ((int \<times> htc_key) \<times> main_priv \<times> wmi \<times> 's) option" where
  \<comment> \<open>\<open>nohwcrypt\<close> is the module parameter; the key is returned as it is afterwards\<close>
  "ath9k_htc_set_key env nohwcrypt cmd v sta key p s =
     (let type = vif_type (vif_of (mp p) v); cipher = key_cipher (key_conf key) in
      if nohwcrypt then Some ((- ENOSPC, key), p, s)
      else if (type = IFTYPE_ADHOC \<or> type = IFTYPE_MESH_POINT) \<and>
              (cipher = WLAN_CIPHER_SUITE_TKIP \<or> cipher = WLAN_CIPHER_SUITE_CCMP) \<and> \<not> key_pairwise (key_conf key)
           then Some ((- EOPNOTSUPP, key), p, s)
      else awake env (\<lambda>p s. case cmd of
          SET_KEY \<Rightarrow> do {
            (ret, common, s) \<leftarrow> ath_key_config (de_ops env) (mp_common p) type (vif_addr (vif_of (mp p) v))
              (map_option (\<lambda>n. sta_addr (sta_of p n)) sta) (key_conf key) s;
            let p = p\<lparr>mp_common := common\<rparr>;
            if 0 \<le> ret then
              Some ((0, key\<lparr>key_conf := (key_conf key)\<lparr>hw_key_idx := nat ret mod 256\<rparr>, generate_iv := True,
                            generate_mmic := generate_mmic key \<or> cipher = WLAN_CIPHER_SUITE_TKIP,
                            sw_mgmt_tx := sw_mgmt_tx key \<or> sw_mgmt_crypto p \<and> cipher = WLAN_CIPHER_SUITE_CCMP\<rparr>), p, s)
            else Some ((ret, key), p, s) }
        | DISABLE_KEY \<Rightarrow> do {
            (common, s) \<leftarrow> ath_key_delete (de_ops env) (mp_common p) (key_conf key) s;
            Some ((0, key), p\<lparr>mp_common := common\<rparr>, s) }) p s)"

definition ath9k_htc_bss_iter :: "nat \<Rightarrow> main_priv \<Rightarrow> main_priv" where
  "ath9k_htc_bss_iter v p =
     (let vif = vif_of (mp p) v; bss = bss_of p v in
      if vif_type vif = IFTYPE_STATION \<and> bss_assoc vif
      then set_ah (\<lambda>a. a\<lparr>curaid := bss_aid bss, curbssid := bss_bssid bss\<rparr>) p else p)"

definition ath9k_htc_set_bssid :: "'s drv_env \<Rightarrow> main_priv \<Rightarrow> wmi \<times> 's \<Rightarrow> (wmi \<times> 's) option" where
  "ath9k_htc_set_bssid env p s = ath9k_hw_write_associd (de_ops env) (htc_ah (mp p)) s"

definition ath9k_htc_choose_set_bssid :: "'s drv_env \<Rightarrow> main_priv \<Rightarrow> wmi \<times> 's \<Rightarrow> (main_priv \<times> wmi \<times> 's) option" where
  "ath9k_htc_choose_set_bssid env p s =
     (if num_sta_assoc_vif p = 1 then do {
        let p = fold ath9k_htc_bss_iter (active_vifs (mp p)) p;
        s \<leftarrow> ath9k_htc_set_bssid env p s;
        Some (p, s) }
      else Some (p, s))"

definition config_beacon :: "'s drv_env \<Rightarrow> nat \<Rightarrow> main_priv \<Rightarrow> wmi \<times> 's \<Rightarrow> (main_priv \<times> wmi \<times> 's) option" where
  "config_beacon env v p s = do {
     (q, s) \<leftarrow> ath9k_htc_beacon_config (de_exec env) (de_junk env) v (mp p) s;
     Some (p\<lparr>mp := q\<rparr>, s) }"

definition bss_assoc_changed :: "'s drv_env \<Rightarrow> nat \<Rightarrow> main_priv \<Rightarrow> wmi \<times> 's \<Rightarrow> (main_priv \<times> wmi \<times> 's) option" where
  \<comment> \<open>the branch for \<open>BSS_CHANGED_ASSOC\<close>\<close>
  "bss_assoc_changed env v p s = do {
     let assoc = bss_assoc (vif_of (mp p) v);
     let p = p\<lparr>num_sta_assoc_vif := (if assoc then num_sta_assoc_vif p + 1 else num_sta_assoc_vif p - 1)\<rparr>;
     if opmode (htc_ah (mp p)) = IFTYPE_STATION then do {
       (p, s) \<leftarrow> ath9k_htc_choose_set_bssid env p s;
       p \<leftarrow> (if assoc \<and> num_sta_assoc_vif p = 1 then ath9k_htc_start_ani env p
            else if num_sta_assoc_vif p = 0 then ath9k_htc_stop_ani p else Some p);
       Some (p, s) }
     else Some (p, s) }"

definition bss_beacon_enabled_changed :: "'s drv_env \<Rightarrow> nat \<Rightarrow> main_priv \<Rightarrow> wmi \<times> 's \<Rightarrow> (main_priv \<times> wmi \<times> 's) option" where
  \<comment> \<open>the two branches for \<open>BSS_CHANGED_BEACON_ENABLED\<close>\<close>
  "bss_beacon_enabled_changed env v p s =
     (if bss_enable_beacon (vif_of (mp p) v) then do {
        q \<leftarrow> set_op OP_ENABLE_BEACON (ath9k_htc_set_tsfadjust v (mp p));
        config_beacon env v (p\<lparr>mp := q\<rparr>) s }
      else if num_ap_vif (mp p) \<le> 1 \<or> num_ibss_vif (mp p) \<noteq> 0 then do {
        q \<leftarrow> clear_op OP_ENABLE_BEACON (mp p);
        config_beacon env v (p\<lparr>mp := q\<rparr>) s }
      else Some (p, s))"

definition bss_beacon_int_changed :: "'s drv_env \<Rightarrow> nat \<Rightarrow> main_priv \<Rightarrow> wmi \<times> 's \<Rightarrow> (main_priv \<times> wmi \<times> 's) option" where
  \<comment> \<open>the branch for \<open>BSS_CHANGED_BEACON_INT\<close>\<close>
  "bss_beacon_int_changed env v p s = do {
     q \<leftarrow> (if opmode (htc_ah (mp p)) = IFTYPE_AP \<and> nvifs (mp p) = 1 \<and> num_ap_vif (mp p) = 1 \<and>
             vif_type (vif_of (mp p) v) = IFTYPE_AP
          then set_op OP_TSF_RESET (mp p) else Some (mp p));
     config_beacon env v (p\<lparr>mp := q\<rparr>) s }"

definition ath9k_htc_bss_info_changed ::
  "'s drv_env \<Rightarrow> (nat \<Rightarrow> bytes \<Rightarrow> nat option) \<Rightarrow> nat \<Rightarrow> u32 \<Rightarrow> main_priv \<Rightarrow> wmi \<times> 's \<Rightarrow>
     (unit \<times> main_priv \<times> wmi \<times> 's) option" where
  "ath9k_htc_bss_info_changed env find_sta v changed = awake env (\<lambda>p s. do {
     (p, s) \<leftarrow> (if has_flag changed BSS_CHANGED_ASSOC then bss_assoc_changed env v p s else Some (p, s));
     (p, s) \<leftarrow> (if has_flag changed BSS_CHANGED_IBSS \<and> opmode (htc_ah (mp p)) = IFTYPE_ADHOC then do {
                  let p = set_ah (\<lambda>a. a\<lparr>curaid := bss_aid (bss_of p v), curbssid := bss_bssid (bss_of p v)\<rparr>) p;
                  s \<leftarrow> ath9k_htc_set_bssid env p s;
                  Some (p, s) }
                else Some (p, s));
     (p, s) \<leftarrow> (if has_flag changed BSS_CHANGED_BEACON_ENABLED then bss_beacon_enabled_changed env v p s else Some (p, s));
     (p, s) \<leftarrow> (if has_flag changed BSS_CHANGED_BEACON_INT then bss_beacon_int_changed env v p s else Some (p, s));
     (p, s) \<leftarrow> (if has_flag changed BSS_CHANGED_ERP_SLOT then do {
                  let p = set_ah (\<lambda>a. a\<lparr>slottime := (if use_short_slot (bss_of p v) then 9 else 20)\<rparr>) p;
                  (ah, s) \<leftarrow> de_global_settings env (htc_ah (mp p)) s;
                  Some (set_ah (\<lambda>_. ah) p, s) }
                else Some (p, s));
     s \<leftarrow> (if has_flag changed BSS_CHANGED_HT then ath9k_htc_update_rate env find_sta v p s else Some s);
     Some ((), p, s) })"

definition ath9k_htc_get_tsf :: "'s drv_env \<Rightarrow> main_priv \<Rightarrow> wmi \<times> 's \<Rightarrow> (u64 \<times> main_priv \<times> wmi \<times> 's) option" where
  "ath9k_htc_get_tsf env = awake env (\<lambda>p s. do {
     (tsf, s) \<leftarrow> ath9k_hw_gettsf64 (de_ops env) s;
     Some (tsf, p, s) })"

definition ath9k_htc_set_tsf :: "'s drv_env \<Rightarrow> u64 \<Rightarrow> main_priv \<Rightarrow> wmi \<times> 's \<Rightarrow> (unit \<times> main_priv \<times> wmi \<times> 's) option" where
  "ath9k_htc_set_tsf env tsf = awake env (\<lambda>p s. do {
     s \<leftarrow> ath9k_hw_settsf64 (de_ops env) tsf s;
     Some ((), p, s) })"

definition ath9k_htc_reset_tsf :: "'s drv_env \<Rightarrow> main_priv \<Rightarrow> wmi \<times> 's \<Rightarrow> (unit \<times> main_priv \<times> wmi \<times> 's) option" where
  "ath9k_htc_reset_tsf env = awake env (\<lambda>p s. do {
     s \<leftarrow> ath9k_hw_reset_tsf (de_ops env) s;
     Some ((), p, s) })"

definition ath9k_htc_sw_scan_start :: "main_priv \<Rightarrow> main_priv option" where
  "ath9k_htc_sw_scan_start p = do {
     q \<leftarrow> set_op OP_SCANNING (mp p);
     ath9k_htc_stop_ani (trace_call Cancel_ps_work (p\<lparr>mp := q\<rparr>)) }"

definition ath9k_htc_sw_scan_complete :: "'s drv_env \<Rightarrow> main_priv \<Rightarrow> wmi \<times> 's \<Rightarrow> (unit \<times> main_priv \<times> wmi \<times> 's) option" where
  "ath9k_htc_sw_scan_complete env p s = do {
     q \<leftarrow> clear_op OP_SCANNING (mp p);
     awake env (\<lambda>p s. do {
       (p, s) \<leftarrow> ath9k_htc_vif_reconfig env p s;
       Some ((), p, s) }) (p\<lparr>mp := q\<rparr>) s }"

definition ath9k_htc_set_bitrate_mask ::
  "'s drv_env \<Rightarrow> nat \<Rightarrow> u32 \<Rightarrow> u32 \<Rightarrow> main_priv \<Rightarrow> wmi \<times> 's \<Rightarrow> (int \<times> wmi \<times> 's) option" where
  \<comment> \<open>\<open>m2\<close>, \<open>m5\<close>: the legacy masks of the two bands\<close>
  "ath9k_htc_set_bitrate_mask env v m2 m5 p s = do {
     let idx = vif_index (priv_vif (htc_base (mp p)) v);
     (ret, s) \<leftarrow> drv_wmi env WMI_BITRATE_MASK_CMDID ([idx, 0] @ be32_bytes m2 @ [0, 0]) s;
     if ret \<noteq> 0 then Some (ret, s)
     else drv_wmi env WMI_BITRATE_MASK_CMDID ([idx, 1] @ be32_bytes m5 @ [0, 0]) s }"

section \<open>The station table\<close>

definition slots_of :: "u8 \<Rightarrow> nat set" where
  "slots_of w = {i. i < 8 \<and> bit w i}"

lemma slots_of_simps [simp]:
  "finite (slots_of w)" "slots_of 0 = {}"
  "i < 8 \<Longrightarrow> slots_of (w OR 2 ^ i) = insert i (slots_of w)"
  "slots_of (w AND NOT (2 ^ i)) = slots_of w - {i}"
  by (auto simp: slots_of_def bit_simps)

lemma ffz_free:
  assumes "card (slots_of w) < 8"
  shows "ffz w < 8" "ffz w \<notin> slots_of w"
proof -
  have "\<exists>i<8. \<not> bit w i"
  proof (rule ccontr)
    assume "\<not> ?thesis"
    then have "slots_of w = {..<8}" by (auto simp: slots_of_def)
    then show False using assms by simp
  qed
  then obtain i where i: "i \<in> set [0 ..< 8]" "\<not> bit w i" by auto
  have "length (takeWhile (bit w) [0 ..< 8]) < length [0 ..< (8::nat)]"
    using i takeWhile_eq_all_conv [of "bit w" "[0 ..< 8]"] by (metis leI take_all takeWhile_eq_take)
  then show lt: "ffz w < 8" by (simp add: ffz_def)
  have "\<not> bit w ([0 ..< 8] ! ffz w)"
    using nth_length_takeWhile [of "bit w" "[0 ..< 8]"] lt by (simp add: ffz_def)
  then show "ffz w \<notin> slots_of w" using lt by (simp add: slots_of_def)
qed

lemma ffz_le: "ffz w \<le> 8"
  using length_takeWhile_le [of "bit w" "[0 ..< 8]"] by (simp add: ffz_def)

datatype sta_owner = Sta nat | Vif nat

definition owner_slot :: "main_priv \<Rightarrow> sta_owner \<Rightarrow> nat" where
  "owner_slot p w = (case w of
       Sta n \<Rightarrow> unat (sta_index (priv_sta (htc_base (mp p)) n))
     | Vif i \<Rightarrow> unat (vif_sta_pos (htc_base (mp p)) ! i))"

definition sta_inv :: "main_priv \<Rightarrow> sta_owner set \<Rightarrow> bool" where
  \<comment> \<open>the stations and interfaces in \<open>A\<close> own the busy slots, one each, and are counted\<close>
  "sta_inv p A \<longleftrightarrow> finite A \<and> inj_on (owner_slot p) A \<and> owner_slot p ` A = slots_of (sta_slot p) \<and>
     unat (nstations p) = card A \<and> length (vif_sta_pos (htc_base (mp p))) = 2 \<and> (\<forall>i. Vif i \<in> A \<longrightarrow> i < 2)"

lemma sta_inv_card: "sta_inv p A \<Longrightarrow> card (slots_of (sta_slot p)) = card A \<and> card A \<le> 8"
proof -
  assume a: "sta_inv p A"
  have "card (slots_of (sta_slot p)) \<le> card {..<8::nat}" by (rule card_mono) (auto simp: slots_of_def)
  then show ?thesis using a card_image [of "owner_slot p" A] by (auto simp: sta_inv_def)
qed

lemma sta_inv_cong:
  assumes "sta_inv p A" and "sta_slot p' = sta_slot p" and "nstations p' = nstations p"
    and "length (vif_sta_pos (htc_base (mp p'))) = 2" and "\<And>w. w \<in> A \<Longrightarrow> owner_slot p' w = owner_slot p w"
  shows "sta_inv p' A"
proof -
  have "inj_on (owner_slot p') A = inj_on (owner_slot p) A" by (rule inj_on_cong) (use assms(5) in auto)
  moreover have "owner_slot p' ` A = owner_slot p ` A" using assms(5) by (intro image_cong) auto
  ultimately show ?thesis using assms by (simp add: sta_inv_def)
qed

lemma sta_inv_insert:
  assumes inv: "sta_inv p A" and w: "w \<notin> A" and sl: "sta_slot p' = sta_slot p OR push_bit i 1"
    and n: "nstations p' = nstations p + 1" and i: "i < 8" "i \<notin> slots_of (sta_slot p)" and lt: "nstations p < 8"
    and l: "length (vif_sta_pos (htc_base (mp p'))) = 2" "\<forall>j. w = Vif j \<longrightarrow> j < 2"
    and own: "owner_slot p' w = i" "\<And>u. u \<in> A \<Longrightarrow> owner_slot p' u = owner_slot p u"
  shows "sta_inv p' (insert w A)"
proof -
  have f: "finite A" "inj_on (owner_slot p) A" "owner_slot p ` A = slots_of (sta_slot p)" "unat (nstations p) = card A"
    using inv by (simp_all add: sta_inv_def)
  have im: "owner_slot p' ` A = slots_of (sta_slot p)" using own(2) f(3) by (metis image_cong)
  have "inj_on (owner_slot p') A = inj_on (owner_slot p) A" by (rule inj_on_cong) (use own(2) in auto)
  then have "inj_on (owner_slot p') (insert w A)" using f(2) im own(1) i(2) w by (auto simp: inj_on_insert)
  moreover have "unat (nstations p') = Suc (unat (nstations p))"
    using lt by (simp add: n word_less_nat_alt unat_add_lem [THEN iffD1])
  ultimately show ?thesis
    using inv f l im own(1) w i(1) by (auto simp: sta_inv_def sl)
qed

lemma sta_inv_remove:
  assumes inv: "sta_inv p A" and w: "w \<in> A" and sl: "sta_slot p' = sta_slot p AND NOT (push_bit (owner_slot p w) 1)"
    and n: "nstations p' = nstations p - 1" and b: "mp p' = mp p"
  shows "sta_inv p' (A - {w})"
proof -
  have f: "finite A" "inj_on (owner_slot p) A" "owner_slot p ` A = slots_of (sta_slot p)" "unat (nstations p) = card A"
    using inv by (simp_all add: sta_inv_def)
  have o: "owner_slot p' = owner_slot p" using b by (simp add: owner_slot_def fun_eq_iff split: sta_owner.splits)
  have "0 < card A" using w f(1) by (auto simp: card_gt_0_iff)
  then have "nstations p \<noteq> 0" using f(4) by auto
  then have "unat (nstations p') = card A - 1" using f(4) by (simp add: n unat_minus_one)
  moreover have "owner_slot p ` (A - {w}) = slots_of (sta_slot p) - {owner_slot p w}"
    using inj_on_image_set_diff [OF f(2), of A "{w}"] w f(3) by auto
  ultimately show ?thesis
    using inv w f(1,2) b by (auto simp: sta_inv_def sl o card_Diff_singleton inj_on_diff)
qed

definition owner_of :: "main_priv \<Rightarrow> nat \<Rightarrow> nat option \<Rightarrow> sta_owner" where
  \<comment> \<open>the owner of the entry that an operation on interface \<open>v\<close> and station \<open>sta\<close> is about\<close>
  "owner_of p v sta = (case sta of
       Some n \<Rightarrow> Sta n
     | None \<Rightarrow> Vif (unat (vif_index (priv_vif (htc_base (mp p)) v))))"

lemma add_station_inv:
  assumes inv: "sta_inv p A" and w: "owner_of p v sta \<notin> A"
    and add: "ath9k_htc_add_station env v sta p s = Some (ret, p', s')"
  shows "sta_inv p' (if ret = 0 then insert (owner_of p v sta) A else A)"
proof (cases "nstations p < 8")
  case False
  then have "8 \<le> nstations p" by simp
  then show ?thesis using add inv by (simp add: ath9k_htc_add_station_def ENOBUFS_def Let_def)
next
  case True
  define i where "i = ffz (sta_slot p)"
  have "card (slots_of (sta_slot p)) < 8" using sta_inv_card [OF inv] inv True by (simp add: sta_inv_def word_less_nat_alt)
  then have i: "i < 8" "i \<notin> slots_of (sta_slot p)" unfolding i_def by (rule ffz_free)+
  have wi: "unat (word_of_nat i :: u8) = i" using i(1) by (simp add: unat_of_nat take_bit_nat_eq_self_iff)
  define q where "q = (case sta of
      Some n \<Rightarrow> set_base (\<lambda>q. q\<lparr>priv_sta := (priv_sta q)(n := (priv_sta q n)\<lparr>sta_index := word_of_nat i\<rparr>)\<rparr>) p
    | None \<Rightarrow> p)"
  have q: "sta_slot q = sta_slot p" "nstations q = nstations p" "vif_sta_pos (htc_base (mp q)) = vif_sta_pos (htc_base (mp p))"
    "\<And>u. u \<in> A \<Longrightarrow> owner_slot q u = owner_slot p u"
    using w by (auto simp: q_def owner_slot_def owner_of_def set_base_def set_mp_def split: option.splits sta_owner.splits)
  have invq: "sta_inv q A" by (rule sta_inv_cong [OF inv]) (use q inv in \<open>auto simp: sta_inv_def\<close>)
  obtain ret1 s1 where r: "ret1 = 0 \<longrightarrow>
        (\<exists>p''. (case sta of Some n \<Rightarrow> Some (take_sta_slot i q)
               | None \<Rightarrow> set_sta_pos (vif_index (priv_vif (htc_base (mp p)) v)) (word_of_nat i) (take_sta_slot i q)) = Some p'' \<and>
           p' = p'' \<and> ret = 0)"
      "ret1 \<noteq> 0 \<longrightarrow> ret = ret1 \<and> p' = q"
    using add i(1) True unfolding ath9k_htc_add_station_def Let_def i_def [symmetric] q_def [symmetric]
    by (auto simp: not_le split: Option.bind_splits if_splits prod.splits)
  show ?thesis
  proof (cases "ret1 = 0")
    case False
    then show ?thesis using r(2) invq by simp
  next
    case ok: True
    then have p': "(case sta of Some n \<Rightarrow> Some (take_sta_slot i q)
        | None \<Rightarrow> set_sta_pos (vif_index (priv_vif (htc_base (mp p)) v)) (word_of_nat i) (take_sta_slot i q)) = Some p'" "ret = 0"
      using r(1) by auto
    have lq: "length (vif_sta_pos (htc_base (mp q))) = 2" using invq by (simp add: sta_inv_def)
    have "sta_inv p' (insert (owner_of p v sta) A)"
      by (rule sta_inv_insert [OF invq w, where i = i])
        (use p'(1) q lq i wi True w in \<open>auto simp: take_sta_slot_def set_sta_pos_def set_base_def set_mp_def owner_slot_def
          owner_of_def nth_list_update q_def split: option.splits if_splits sta_owner.splits\<close>)
    then show ?thesis using p'(2) by simp
  qed
qed

lemma remove_station_inv:
  assumes inv: "sta_inv p A" and w: "owner_of p v sta \<in> A"
    and rem: "ath9k_htc_remove_station env v sta p s = Some (ret, p', s')"
  shows "sta_inv p' (if ret = 0 then A - {owner_of p v sta} else A)"
proof -
  define i where "i = owner_slot p (owner_of p v sta)"
  have "ret = 0 \<and> p' = drop_sta_slot i p \<or> ret \<noteq> 0 \<and> p' = p"
    using rem by (auto simp: ath9k_htc_remove_station_def i_def owner_of_def owner_slot_def byte_at_def
        split: option.splits Option.bind_splits if_splits)
  then show ?thesis
    using inv sta_inv_remove [OF inv w, of "drop_sta_slot i p"] by (auto simp: drop_sta_slot_def i_def)
qed

inductive sta_step :: "'s drv_env \<Rightarrow> main_priv \<times> sta_owner set \<Rightarrow> main_priv \<times> sta_owner set \<Rightarrow> bool" for env where
  Add: "owner_of p v sta \<notin> A \<Longrightarrow> ath9k_htc_add_station env v sta p s = Some (ret, p', s') \<Longrightarrow>
     sta_step env (p, A) (p', if ret = 0 then insert (owner_of p v sta) A else A)"
| Remove: "owner_of p v sta \<in> A \<Longrightarrow> ath9k_htc_remove_station env v sta p s = Some (ret, p', s') \<Longrightarrow>
     sta_step env (p, A) (p', if ret = 0 then A - {owner_of p v sta} else A)"

inductive_cases sta_stepE: "sta_step env a b"

lemma sta_reachable:
  "(sta_step env)\<^sup>*\<^sup>* a b \<Longrightarrow> sta_inv (fst a) (snd a) \<Longrightarrow> sta_inv (fst b) (snd b)"
proof (induction rule: rtranclp_induct)
  case (step b c)
  from step.hyps(2) show ?case
  proof (cases rule: sta_step.cases)
    case (Add p v sta A s ret p' s')
    then show ?thesis using add_station_inv [OF _ Add(3,4)] step.IH step.prems by simp
  next
    case (Remove p v sta A s ret p' s')
    then show ?thesis using remove_station_inv [OF _ Remove(3,4)] step.IH step.prems by simp
  qed
qed simp

text \<open>C31: the table of stations on the target. Over every order of additions and removals of stations
  and of the interfaces' own entries, whatever the target answers, each entry owns a slot of its own below
  8, the bits of \<open>sta_slot\<close> are exactly those slots and \<open>nstations\<close> counts them. With 8 entries a
  further one is refused with \<open>-ENOBUFS\<close> and no command is sent; with fewer, the slot the driver
  asks for is free.\<close>

theorem station_table_inv:
  assumes "(sta_step env)\<^sup>*\<^sup>* (p0, {}) (p, A)" and "sta_slot p0 = 0" and "nstations p0 = 0"
    and "length (vif_sta_pos (htc_base (mp p0))) = 2"
  shows "inj_on (owner_slot p) A \<and> owner_slot p ` A = slots_of (sta_slot p) \<and> unat (nstations p) = card A \<and> card A \<le> 8 \<and>
    (card A = 8 \<longrightarrow> ath9k_htc_add_station env v sta p s = Some (- ENOBUFS, p, s)) \<and>
    (card A < 8 \<longrightarrow> ffz (sta_slot p) < 8 \<and> ffz (sta_slot p) \<notin> owner_slot p ` A)"
proof -
  have "sta_inv p0 {}" using assms(2-4) by (simp add: sta_inv_def)
  then have inv: "sta_inv p A" using sta_reachable [OF assms(1)] by simp
  have "8 \<le> nstations p" if "card A = 8" using inv that by (simp add: sta_inv_def word_le_nat_alt)
  then show ?thesis
    using inv sta_inv_card [OF inv] ffz_free [of "sta_slot p"]
    by (auto simp: sta_inv_def ath9k_htc_add_station_def Let_def)
qed

definition ex_main :: main_priv where
  "ex_main = \<lparr>mp = ex_hp, mp_common = ex_common True [], mp_pm = ex_pm, macaddr = [0, 1, 2, 3, 4, 5], tx_chainmask = 1,
     sw_mgmt_crypto = False, conf_ht40 = False, sband_rates = (\<lambda>_. [10, 20, 55, 110]), vif_slot = 0, sta_slot = 0, nstations = 0,
     num_sta_assoc_vif = 0, rearm_ani = False, reconfig_beacon = False, ps_usecount = 0, ps_enabled = True, ps_idle = False,
     ani = \<lparr>caldone = False, longcal_timer = 0, shortcal_timer = 0, resetcal_timer = 0, checkani_timer = 0\<rparr>,
     sta_of = (\<lambda>_. \<lparr>sta_addr = [2, 0, 0, 0, 0, 1], supp_rates = (\<lambda>_. 15), ht_supported = False, ampdu_factor = 0, ht_cap_info = 0,
       rx_mask = replicate 10 0\<rparr>),
     bss_of = (\<lambda>_. \<lparr>bss_aid = 1, bss_bssid = [2, 0, 0, 0, 0, 2], use_short_slot = True\<rparr>), drv_trace = []\<rparr>"

definition ex_denv :: "'s wmi_exec \<Rightarrow> 's drv_env" where
  "ex_denv exec = \<lparr>de_exec = exec, de_junk = [0, 0, 0, 0], de_hooks = ex_hooks, de_sta_drain = (\<lambda>_ b s. Some (b, s)),
     de_global_settings = (\<lambda>ah s. Some (ah, s)), de_now = 0\<rparr>"

definition ex_exec :: "unit wmi_exec" where
  "ex_exec c buf rsp w x = Some (0, rsp, w, x)"

lemma ffz_zero: "ffz 0 = 0"
  by (simp add: ffz_def upt_rec)

lemma ex_main_fields [simp]:
  "mp ex_main = ex_hp" "sta_slot ex_main = 0" "nstations ex_main = 0" "length (vif_sta_pos (htc_base ex_hp)) = 2"
  "mp_pm ex_main = ex_pm" "ps_usecount ex_main = 0" "ps_idle ex_main = False" "ps_enabled ex_main = True"
  by (simp_all add: ex_main_def ex_hp_def ex_priv_def)

theorem station_table_inv_witness:
  "\<exists>p. (sta_step (ex_denv ex_exec))\<^sup>*\<^sup>* (ex_main, {}) (p, {Sta 7}) \<and> nstations p = 1 \<and> owner_slot p (Sta 7) < 8"
proof -
  obtain p where add: "ath9k_htc_add_station (ex_denv ex_exec) 0 (Some 7) ex_main (ex_wmi, ()) = Some (0, p, ex_wmi, ())"
    using ffz_zero by (simp add: ath9k_htc_add_station_def drv_wmi_def WMI_CMD_def ex_exec_def ex_denv_def Let_def)
  have st: "(sta_step (ex_denv ex_exec))\<^sup>*\<^sup>* (ex_main, {}) (p, {Sta 7})"
    using sta_step.Add [OF _ add, of "{}"] by (simp add: owner_of_def r_into_rtranclp)
  have "inj_on (owner_slot p) {Sta 7} \<and> owner_slot p ` {Sta 7} = slots_of (sta_slot p) \<and> unat (nstations p) = card {Sta 7}"
    using station_table_inv [OF st] by simp
  then show ?thesis using st by (auto simp: slots_of_def word_unat_eq_iff)
qed

section \<open>The address mask\<close>

definition addr_bit :: "bytes \<Rightarrow> nat \<Rightarrow> bool" where
  "addr_bit a k = bit (a ! (k div 8)) (k mod 8)"

lemma bssid_iters:
  "length msk = 6 \<Longrightarrow> length (fold (\<lambda>u. ath9k_htc_bssid_iter mac (f u)) us msk) = 6 \<and>
    (k < 48 \<longrightarrow> addr_bit (fold (\<lambda>u. ath9k_htc_bssid_iter mac (f u)) us msk) k =
      (addr_bit msk k \<and> (\<forall>u\<in>set us. addr_bit (f u) k = addr_bit mac k)))"
proof (induction us arbitrary: msk)
  case (Cons u us)
  have "addr_bit (ath9k_htc_bssid_iter mac (f u) msk) k = (addr_bit msk k \<and> addr_bit (f u) k = addr_bit mac k)" if "k < 48"
    using that div_less_iff_less_mult [of 8 k 6]
    by (auto simp: addr_bit_def ath9k_htc_bssid_iter_def bit_simps)
  then show ?case using Cons.IH [of "ath9k_htc_bssid_iter mac (f u) msk"] by (auto simp: ath9k_htc_bssid_iter_def)
qed auto

lemma bssid_mask_bits:
  "length (bssid_mask_of p v) = 6"
  "k < 48 \<Longrightarrow> addr_bit (bssid_mask_of p v) k \<longleftrightarrow>
     (\<forall>u \<in> set_option v \<union> set (active_vifs (mp p)). addr_bit (vif_addr (vif_of (mp p) u)) k = addr_bit (macaddr p) k)"
proof -
  let ?us = "case v of None \<Rightarrow> active_vifs (mp p) | Some v \<Rightarrow> v # active_vifs (mp p)"
  have one: "addr_bit (replicate 6 0xff) k" if "k < 48" for k
  proof -
    have m: "(0xff :: u8) = - 1" by simp
    have "k div 8 < 6" using that by (simp add: div_less_iff_less_mult)
    then show ?thesis unfolding m by (simp add: addr_bit_def bit_simps)
  qed
  have us: "set ?us = set_option v \<union> set (active_vifs (mp p))" by (cases v) auto
  note i = bssid_iters [of "replicate 6 0xff" "macaddr p" "\<lambda>u. vif_addr (vif_of (mp p) u)" ?us]
  show "length (bssid_mask_of p v) = 6" using i by (simp add: bssid_mask_of_def)
  show "addr_bit (bssid_mask_of p v) k \<longleftrightarrow>
     (\<forall>u \<in> set_option v \<union> set (active_vifs (mp p)). addr_bit (vif_addr (vif_of (mp p) u)) k = addr_bit (macaddr p) k)"
    if "k < 48" using i [of k] one [OF that] that unfolding us by (simp add: bssid_mask_of_def)
qed

lemma bit_u8_out: "8 \<le> n \<Longrightarrow> \<not> bit (x :: u8) n"
  using bit_imp_le_length [of x n] by auto

lemma addr_bit_le32: "k < 32 \<Longrightarrow> bit (le32 a b c d) k = addr_bit ([a, b, c, d] @ xs) k"
proof -
  assume k: "k < 32"
  define q r where "q = k div 8" and "r = k mod 8"
  have kq: "k = 8 * q + r" "r < 8" "q < 4" using k by (auto simp: q_def r_def)
  have "q = 0 \<or> q = 1 \<or> q = 2 \<or> q = 3" using kq(3) by linarith
  then have "bit (le32 a b c d) (8 * q + r) = bit (([a, b, c, d] @ xs) ! q) r"
    using kq(2) by (elim disjE) (simp_all add: le32_def bit_simps bit_u8_out)
  then show ?thesis unfolding kq(1) [symmetric] addr_bit_def q_def [symmetric] r_def [symmetric] .
qed

lemma addr_bit_le16: "bit (ucast (le16 e f) :: u32) k = (k < 16 \<and> addr_bit ([a, b, c, d, e, f] @ xs) (32 + k))"
proof (cases "k < 16")
  case True
  define q r where "q = k div 8" and "r = k mod 8"
  have kq: "k = 8 * q + r" "r < 8" "q < 2" using True by (auto simp: q_def r_def)
  have "q = 0 \<or> q = 1" using kq(3) by linarith
  then have "bit (ucast (le16 e f) :: u32) (8 * q + r) = bit (([a, b, c, d, e, f] @ xs) ! (4 + q)) r"
    using kq(2) by (elim disjE) (simp_all add: le16_def bit_simps bit_u8_out)
  moreover have "(32 + k) div 8 = 4 + q" "(32 + k) mod 8 = r" using kq(1,2) by presburger+
  ultimately show ?thesis using True kq(1) by (simp add: addr_bit_def)
next
  case False
  then show ?thesis by (auto simp: bit_simps dest: bit_imp_le_length)
qed

text \<open>The address mask. \<open>ath9k_htc_set_bssid_mask\<close> leaves in the two mask registers of the target exactly
  the bits in which the addresses of the given interface and of all active ones agree with the
  hardware address, so the hardware's comparison under the mask accepts every one of these addresses,
  and no larger mask would; no other register changes.\<close>

theorem bssid_mask_exact:
  assumes "htc_ops_ok e alloc fw regs (de_junk env) s" and "de_exec env = wmi_stack e alloc fw"
  shows "\<exists>p' s'. ath9k_htc_set_bssid_mask env v p s = Some (p', s') \<and> htc_ops_ok e alloc fw regs (de_junk env) s' \<and>
    (\<forall>k<48. (if k < 32 then bit (htc_ops_mem regs s' AR_BSSMSKL) k else bit (htc_ops_mem regs s' AR_BSSMSKU) (k - 32)) \<longleftrightarrow>
      (\<forall>u \<in> set_option v \<union> set (active_vifs (mp p)).
         addr_bit (vif_addr (vif_of (mp p) u)) k = addr_bit (macaddr p) k)) \<and>
    (\<forall>k\<ge>16. \<not> bit (htc_ops_mem regs s' AR_BSSMSKU) k) \<and>
    (\<forall>r. r \<notin> {AR_BSSMSKL, AR_BSSMSKU} \<longrightarrow> htc_ops_mem regs s' r = htc_ops_mem regs s r)"
proof -
  obtain a b c d x y where m: "bssid_mask_of p v = [a, b, c, d, x, y]"
    using bssid_mask_bits(1) [of p v] by (auto simp: length_Suc_conv numeral_eq_Suc)
  let ?c = "(mp_common p)\<lparr>bssidmask := bssid_mask_of p v\<rparr>"
  have "bssidmask ?c = le32_bytes (le32 a b c d) @ le16_bytes (le16 x y)" by (simp add: m le32_bytes_le32 le16_bytes_le16)
  from ho.setbssidmask_mem [OF assms(1) this]
  obtain s' where s': "ath_hw_setbssidmask (de_ops env) ?c s = Some s'" "htc_ops_ok e alloc fw regs (de_junk env) s'"
    "htc_ops_mem regs s' = (htc_ops_mem regs s)(AR_BSSMSKL := le32 a b c d, AR_BSSMSKU := ucast (le16 x y))"
    using assms(2) by (auto simp: de_ops_def)
  have bits: "(if k < 32 then bit (htc_ops_mem regs s' AR_BSSMSKL) k else bit (htc_ops_mem regs s' AR_BSSMSKU) (k - 32)) =
      addr_bit (bssid_mask_of p v) k" if "k < 48" for k
    using that addr_bit_le32 [of k a b c d "[x, y]"] addr_bit_le16 [of x y "k - 32" a b c d "[]"]
    by (cases "k < 32") (simp_all add: s'(3) m less_diff_conv2)
  have "ath9k_htc_set_bssid_mask env v p s = Some (p\<lparr>mp_common := ?c\<rparr>, s')"
    using s'(1) by (simp add: ath9k_htc_set_bssid_mask_def)
  moreover have "\<forall>k\<ge>16. \<not> bit (htc_ops_mem regs s' AR_BSSMSKU) k"
    using addr_bit_le16 [of x y _ a b c d "[]"] by (simp add: s'(3))
  ultimately show ?thesis using s'(2) bits bssid_mask_bits(2) [of _ p v] by (simp add: s'(3))
qed

definition ex_stack_env :: "(htc_target \<times> hif_device_usb \<times> (u32 \<Rightarrow> u32)) drv_env" where
  "ex_stack_env = ex_denv (wmi_stack ex_env (ex_alloc 0) ex_fw)"

lemma ex_stack_env [simp]: "de_exec ex_stack_env = wmi_stack ex_env (ex_alloc 0) ex_fw" "de_junk ex_stack_env = [0, 0, 0, 0]"
  by (simp_all add: ex_stack_env_def ex_denv_def)

theorem bssid_mask_exact_witness:
  "\<exists>p' s'. ath9k_htc_set_bssid_mask ex_stack_env None (ex_main\<lparr>macaddr := [0, 1, 2, 3, 4, 7]\<rparr>)
      (ex_wmi, ex_target, ex_dev, \<lambda>_. 0) = Some (p', s') \<and>
    bit (htc_ops_mem (\<lambda>d. d) s' AR_BSSMSKU) 8 \<and> \<not> bit (htc_ops_mem (\<lambda>d. d) s' AR_BSSMSKU) 9"
proof -
  let ?p = "ex_main\<lparr>macaddr := [0, 1, 2, 3, 4, 7]\<rparr>"
  have a: "addr_bit (vif_addr ex_vif) 40 = addr_bit (macaddr ?p) 40" "addr_bit (vif_addr ex_vif) 41 \<noteq> addr_bit (macaddr ?p) 41"
    by (simp_all add: addr_bit_def ex_vif_def bit_simps flip: bit_iff_odd_drop_bit)
  have v: "active_vifs (mp ?p) = [0]" "vif_of (mp ?p) u = ex_vif" for u by (simp_all add: ex_hp_def)
  obtain p' s' where r: "ath9k_htc_set_bssid_mask ex_stack_env None ?p (ex_wmi, ex_target, ex_dev, \<lambda>_. 0) = Some (p', s')"
    and k: "\<forall>k<48. (if k < 32 then bit (htc_ops_mem (\<lambda>d. d) s' AR_BSSMSKL) k else bit (htc_ops_mem (\<lambda>d. d) s' AR_BSSMSKU) (k - 32)) \<longleftrightarrow>
      addr_bit (vif_addr ex_vif) k = addr_bit (macaddr ?p) k"
    using bssid_mask_exact [of ex_env "ex_alloc 0" ex_fw "\<lambda>d. d" ex_stack_env "(ex_wmi, ex_target, ex_dev, \<lambda>_. 0)" None ?p]
      ex_mac_ops_ok(1) [of "\<lambda>_. 0"] unfolding v by auto
  show ?thesis using r k [rule_format, of 40] k [rule_format, of 41] a by auto
qed

section \<open>Users of the chip\<close>

datatype ps_op = Ps_wakeup | Ps_restore

fun ps_run :: "'s drv_env \<Rightarrow> ps_op list \<Rightarrow> main_priv \<Rightarrow> wmi \<times> 's \<Rightarrow> (main_priv \<times> wmi \<times> 's) option" where
  "ps_run env [] p s = Some (p, s)"
| "ps_run env (Ps_wakeup # os) p s = do { (p, s) \<leftarrow> ath9k_htc_ps_wakeup env p s; ps_run env os p s }"
| "ps_run env (Ps_restore # os) p s = do { (p, s) \<leftarrow> ath9k_htc_ps_restore env p s; ps_run env os p s }"

fun ps_count :: "nat \<Rightarrow> ps_op list \<Rightarrow> nat option" where
  \<comment> \<open>the users after a sequence in which nobody releases the chip without having taken it\<close>
  "ps_count k [] = Some k"
| "ps_count k (Ps_wakeup # os) = ps_count (Suc k) os"
| "ps_count 0 (Ps_restore # os) = None"
| "ps_count (Suc k) (Ps_restore # os) = ps_count k os"

definition ps_rest :: "main_priv \<Rightarrow> ath9k_power_mode" where
  "ps_rest p = (if ps_idle p then ATH9K_PM_FULL_SLEEP else if ps_enabled p then ATH9K_PM_NETWORK_SLEEP else ATH9K_PM_AWAKE)"

definition mode_in_force :: "ath9k_power_mode \<Rightarrow> (u32 \<Rightarrow> u32) \<Rightarrow> bool" where
  \<comment> \<open>what the registers of the target hold in a mode\<close>
  "mode_in_force mode m \<longleftrightarrow> (case mode of
       ATH9K_PM_AWAKE \<Rightarrow> bit (m 0x704c) 0 \<and> \<not> bit (m 0x8004) 18
     | ATH9K_PM_FULL_SLEEP \<Rightarrow> \<not> bit (m 0x704c) 0 \<and> bit (m 0x8004) 18 \<and> m 0x4000 = 0x101
     | ATH9K_PM_NETWORK_SLEEP \<Rightarrow> \<not> bit (m 0x704c) 0 \<and> bit (m 0x8004) 18
     | ATH9K_PM_UNDEFINED \<Rightarrow> True)"

definition pm_ready ::
  "(nat \<Rightarrow> usb_answer) \<Rightarrow> (nat \<Rightarrow> sk_buff option) \<Rightarrow> (u16 \<Rightarrow> bytes \<Rightarrow> 'd \<Rightarrow> bytes \<times> 'd) \<Rightarrow> ('d \<Rightarrow> u32 \<Rightarrow> u32) \<Rightarrow> bytes \<Rightarrow>
     main_priv \<Rightarrow> wmi \<times> htc_target \<times> hif_device_usb \<times> 'd \<Rightarrow> bool" where
  "pm_ready e alloc fw regs junk p s \<longleftrightarrow> htc_ops_ok e alloc fw regs junk s \<and> htc_ops_depth s = 0 \<and>
     AR_SREV_9271 (htc_ah (mp p)) \<and> \<not> btcoex_enabled (mp_pm p) \<and> clock_on (htc_ops_mem regs s) \<and>
     mode_in_force (power_mode (mp_pm p)) (htc_ops_mem regs s)"

lemma mode_in_force_regs: "mode_in_force mode (power_regs ah mode m)"
  by (cases mode) (simp_all add: mode_in_force_def power_regs_def bit_simps)

lemma setpower_ready:
  assumes "pm_ready e alloc fw regs (de_junk env) p s" and "de_exec env = wmi_stack e alloc fw" and "mode \<noteq> ATH9K_PM_UNDEFINED"
  shows "\<exists>pm s'. ath9k_htc_setpower env mode p s = Some (True, p\<lparr>mp_pm := pm\<rparr>, s') \<and> power_mode pm = mode \<and>
    pm_ready e alloc fw regs (de_junk env) (p\<lparr>mp_pm := pm\<rparr>) s'"
proof (cases "power_mode (mp_pm p) = mode")
  case True
  then have "ath9k_htc_setpower env mode p s = Some (True, p\<lparr>mp_pm := mp_pm p\<rparr>, s)"
    by (simp add: ath9k_htc_setpower_def ath9k_hw_setpower_def)
  then show ?thesis using assms(1) True by (intro exI [of _ "mp_pm p"] exI [of _ s]) (simp add: pm_ready_def)
next
  case False
  note r = assms(1) [unfolded pm_ready_def]
  have m: "\<not> ath9k_hw_mci_is_enabled (htc_ah (mp p)) (mp_pm p)" using r by (simp add: ath9k_hw_mci_is_enabled_def)
  obtain s' where s': "ath9k_hw_setpower (de_ops env) (de_hooks env) (htc_ah (mp p)) mode (mp_pm p) s =
      Some (True, pm_after mode (mp_pm p), s')" "htc_ops_ok e alloc fw regs (de_junk env) s'" "htc_ops_depth s' = 0"
    "htc_ops_mem regs s' = power_regs (htc_ah (mp p)) mode (htc_ops_mem regs s)"
    unfolding de_ops_def assms(2)
    by (rule hb.setpower_mem [OF _ _ _ _ m _ assms(3) False, of e alloc fw regs "de_junk env" s "de_hooks env"]) (use r in auto)
  show ?thesis
    by (rule exI [of _ "pm_after mode (mp_pm p)"], rule exI [of _ s'])
      (use s' r in \<open>simp add: ath9k_htc_setpower_def pm_ready_def pm_after_def clock_on_power_regs mode_in_force_regs\<close>)
qed

definition ps_state ::
  "(nat \<Rightarrow> usb_answer) \<Rightarrow> (nat \<Rightarrow> sk_buff option) \<Rightarrow> (u16 \<Rightarrow> bytes \<Rightarrow> 'd \<Rightarrow> bytes \<times> 'd) \<Rightarrow> ('d \<Rightarrow> u32 \<Rightarrow> u32) \<Rightarrow> bytes \<Rightarrow>
     nat \<Rightarrow> main_priv \<Rightarrow> wmi \<times> htc_target \<times> hif_device_usb \<times> 'd \<Rightarrow> bool" where
  "ps_state e alloc fw regs junk k p s \<longleftrightarrow> pm_ready e alloc fw regs junk p s \<and> ps_usecount p = of_nat k \<and>
     (0 < k \<longrightarrow> power_mode (mp_pm p) = ATH9K_PM_AWAKE)"

definition ps_same :: "main_priv \<Rightarrow> main_priv \<Rightarrow> bool" where
  \<comment> \<open>only the count and the power mode differ\<close>
  "ps_same p p' \<longleftrightarrow> p' = p\<lparr>ps_usecount := ps_usecount p', mp_pm := mp_pm p'\<rparr>"

lemma ps_same_trans: "ps_same p q \<Longrightarrow> ps_same q r \<Longrightarrow> ps_same p r \<and> ps_rest q = ps_rest p"
  by (cases p; cases q; cases r) (simp add: ps_same_def ps_rest_def)

lemma of_nat_u64_eq: "k < 2 ^ 64 \<Longrightarrow> j < 2 ^ 64 \<Longrightarrow> (of_nat k :: u64) = of_nat j \<longleftrightarrow> k = j"
  by (auto simp: word_unat_eq_iff unat_of_nat take_bit_nat_eq_self)

lemma ps_wakeup_ready:
  assumes "ps_state e alloc fw regs (de_junk env) k p s" and "de_exec env = wmi_stack e alloc fw" and "Suc k < 2 ^ 64"
  shows "\<exists>p' s'. ath9k_htc_ps_wakeup env p s = Some (p', s') \<and> ps_state e alloc fw regs (de_junk env) (Suc k) p' s' \<and> ps_same p p'"
proof -
  let ?p = "p\<lparr>ps_usecount := ps_usecount p + 1\<rparr>"
  have u: "ps_usecount ?p = of_nat (Suc k)" "ps_usecount ?p = 1 \<longleftrightarrow> k = 0"
    using assms(1,3) of_nat_u64_eq [of "Suc k" 1] by (simp_all add: ps_state_def add.commute)
  have r: "pm_ready e alloc fw regs (de_junk env) ?p s" using assms(1) by (simp add: ps_state_def pm_ready_def)
  show ?thesis
  proof (cases "k = 0")
    case True
    obtain pm s' where a: "ath9k_htc_setpower env ATH9K_PM_AWAKE ?p s = Some (True, ?p\<lparr>mp_pm := pm\<rparr>, s')" "power_mode pm = ATH9K_PM_AWAKE"
      "pm_ready e alloc fw regs (de_junk env) (?p\<lparr>mp_pm := pm\<rparr>) s'"
      using setpower_ready [OF r assms(2), of ATH9K_PM_AWAKE] by auto
    then show ?thesis using u True by (simp add: ath9k_htc_ps_wakeup_def ps_state_def ps_same_def)
  next
    case False
    then have "ath9k_htc_ps_wakeup env p s = Some (?p, s)" using u(2) by (simp add: ath9k_htc_ps_wakeup_def)
    then show ?thesis using u(1) r assms(1) False by (auto simp: ps_state_def ps_same_def)
  qed
qed

lemma ps_restore_ready:
  assumes "ps_state e alloc fw regs (de_junk env) (Suc k) p s" and "de_exec env = wmi_stack e alloc fw" and "Suc k < 2 ^ 64"
  shows "\<exists>p' s'. ath9k_htc_ps_restore env p s = Some (p', s') \<and> ps_state e alloc fw regs (de_junk env) k p' s' \<and> ps_same p p' \<and>
    (k = 0 \<longrightarrow> power_mode (mp_pm p') = ps_rest p)"
proof -
  let ?p = "p\<lparr>ps_usecount := ps_usecount p - 1\<rparr>"
  have u: "ps_usecount ?p = of_nat k" "ps_usecount ?p = 0 \<longleftrightarrow> k = 0"
    using assms(1,3) of_nat_u64_eq [of k 0] by (simp_all add: ps_state_def)
  have r: "pm_ready e alloc fw regs (de_junk env) ?p s" "power_mode (mp_pm p) = ATH9K_PM_AWAKE"
    using assms(1) by (auto simp: ps_state_def pm_ready_def)
  consider (busy) "k \<noteq> 0" | (idle) "k = 0" "ps_idle p" | (ps) "k = 0" "\<not> ps_idle p" "ps_enabled p"
    | (stay) "k = 0" "\<not> ps_idle p" "\<not> ps_enabled p" by blast
  then show ?thesis
  proof cases
    case busy
    then have "ath9k_htc_ps_restore env p s = Some (?p, s)" using u(2) by (simp add: ath9k_htc_ps_restore_def)
    then show ?thesis using u(1) r busy by (auto simp: ps_state_def ps_same_def)
  next
    case stay
    then have "ath9k_htc_ps_restore env p s = Some (?p, s)" using u(2) by (simp add: ath9k_htc_ps_restore_def)
    then show ?thesis using u(1) r stay by (auto simp: ps_state_def ps_same_def ps_rest_def)
  next
    case ps
    obtain pm s' where a: "ath9k_htc_setpower env ATH9K_PM_NETWORK_SLEEP ?p s = Some (True, ?p\<lparr>mp_pm := pm\<rparr>, s')"
      "power_mode pm = ATH9K_PM_NETWORK_SLEEP" "pm_ready e alloc fw regs (de_junk env) (?p\<lparr>mp_pm := pm\<rparr>) s'"
      using setpower_ready [OF r(1) assms(2), of ATH9K_PM_NETWORK_SLEEP] by auto
    then show ?thesis using u ps by (simp add: ath9k_htc_ps_restore_def ps_state_def ps_same_def ps_rest_def)
  next
    case idle
    note q = r(1) [unfolded pm_ready_def]
    obtain b s1 where s1: "ath9k_hw_setrxabort (de_ops env) True s = Some (b, s1)" "htc_ops_ok e alloc fw regs (de_junk env) s1"
      "htc_ops_depth s1 = 0" "\<forall>r. r \<noteq> AR_DIAG_SW \<longrightarrow> htc_ops_mem regs s1 r = htc_ops_mem regs s r"
      unfolding de_ops_def assms(2)
      by (rule hb.setrxabort_ok [of e alloc fw regs "de_junk env" s]) (use q in auto)
    obtain b2 x s2 where s2: "ath9k_hw_stopdmarecv (de_ops env) (htc_ah (mp p)) False s1 = Some (b2, x, s2)"
      "htc_ops_ok e alloc fw regs (de_junk env) s2" "htc_ops_depth s2 = 0"
      "\<forall>r. r \<notin> {AR_MACMISC, AR_CR} \<longrightarrow> htc_ops_mem regs s2 r = htc_ops_mem regs s1 r"
      unfolding de_ops_def assms(2)
      by (rule hb.stopdmarecv_ok [OF s1(2,3), of "htc_ah (mp p)" False]) auto
    have "pm_ready e alloc fw regs (de_junk env) ?p s2"
      using q s2 s1(4) r(2) by (simp add: pm_ready_def clock_on_def mode_in_force_def)
    then obtain pm s' where a: "ath9k_htc_setpower env ATH9K_PM_FULL_SLEEP ?p s2 = Some (True, ?p\<lparr>mp_pm := pm\<rparr>, s')"
      "power_mode pm = ATH9K_PM_FULL_SLEEP" "pm_ready e alloc fw regs (de_junk env) (?p\<lparr>mp_pm := pm\<rparr>) s'"
      using setpower_ready [of e alloc fw regs env ?p s2 ATH9K_PM_FULL_SLEEP] assms(2) by auto
    then show ?thesis using u idle s1(1) s2(1) by (simp add: ath9k_htc_ps_restore_def ps_state_def ps_same_def ps_rest_def)
  qed
qed

lemma ps_run_ready:
  assumes "de_exec env = wmi_stack e alloc fw"
  shows "ps_state e alloc fw regs (de_junk env) k p s \<Longrightarrow> ps_count k os = Some n \<Longrightarrow> k + length os < 2 ^ 64 \<Longrightarrow>
    \<exists>p' s'. ps_run env os p s = Some (p', s') \<and> ps_state e alloc fw regs (de_junk env) n p' s' \<and> ps_same p p' \<and>
      (n = 0 \<and> os \<noteq> [] \<longrightarrow> power_mode (mp_pm p') = ps_rest p)"
proof (induction os arbitrary: k p s)
  case Nil
  then show ?case by (simp add: ps_same_def)
next
  case (Cons op os)
  obtain j p1 s1 where step: "ps_run env (op # os) p s = ps_run env os p1 s1" "ps_state e alloc fw regs (de_junk env) j p1 s1"
    "ps_same p p1" "ps_count j os = Some n" "j + length os < 2 ^ 64"
    "j = 0 \<longrightarrow> power_mode (mp_pm p1) = ps_rest p"
  proof (cases op)
    case Ps_wakeup
    then show ?thesis using ps_wakeup_ready [OF Cons.prems(1) assms] Cons.prems(2,3) that [where j = "Suc k"] by auto
  next
    case Ps_restore
    then obtain i where i: "k = Suc i" using Cons.prems(2) by (cases k) auto
    show ?thesis
      using ps_restore_ready [OF Cons.prems(1) [unfolded i] assms] Cons.prems(2,3) that [where j = i] Ps_restore by (auto simp: i)
  qed
  show ?case
    using Cons.IH [OF step(2,4,5)] step(1,3,4,6) ps_same_trans [OF step(3)] by (cases os) (auto simp: ps_same_def)
qed

text \<open>C32: power save as a reference count. Take any sequence of \<open>ath9k_htc_ps_wakeup\<close> and
  \<open>ath9k_htc_ps_restore\<close> in which nobody releases the chip without having taken it, starting with no user
  and an AR9271 whose clock runs. Every call returns; afterwards the count is the number of users; while there
  is one the chip is awake, and when the last one has left it is in full sleep if the device is
  idle, in network sleep if power save is on, and awake otherwise. The registers of the target agree with the
  mode the driver has recorded.\<close>

theorem ps_refcount:
  assumes "pm_ready e alloc fw regs (de_junk env) p s" and "ps_usecount p = 0" and "de_exec env = wmi_stack e alloc fw"
    and "ps_count 0 os = Some n" and "os \<noteq> []" and "length os < 2 ^ 64"
  shows "\<exists>p' s'. ps_run env os p s = Some (p', s') \<and> ps_usecount p' = of_nat n \<and>
    power_mode (mp_pm p') = (if 0 < n then ATH9K_PM_AWAKE else ps_rest p) \<and>
    mode_in_force (power_mode (mp_pm p')) (htc_ops_mem regs s')"
proof -
  have "ps_state e alloc fw regs (de_junk env) 0 p s" using assms(1,2) by (simp add: ps_state_def)
  from ps_run_ready [OF assms(3) this assms(4)] assms(5,6) show ?thesis by (auto simp: ps_state_def pm_ready_def)
qed

lemma ex_main_ready:
  "pm_ready ex_env (ex_alloc 0) ex_fw (\<lambda>d. d) [0, 0, 0, 0] ex_main
     (ex_wmi, ex_target, ex_dev, (\<lambda>_. 0)(0x7044 := 2, 0x8004 := 0x40000))"
proof -
  have m: "htc_ops_mem (\<lambda>d. d) (ex_wmi, ex_target, ex_dev, d) = d" for d
    using htc_ops_mem_device [OF ex_mac_ops_ok(1) ex_mac_ops_ok(2)] by (simp add: stack_regs_def)
  show ?thesis
    using ex_mac_ops_ok
    by (simp add: pm_ready_def m clock_on_def mode_in_force_def ex_pm_def ex_hp_def ex_hw_def AR_SREV_9271_def bit_simps)
qed

theorem ps_refcount_witness:
  "\<exists>p' s'. ps_run ex_stack_env [Ps_wakeup, Ps_wakeup, Ps_restore, Ps_restore] ex_main
      (ex_wmi, ex_target, ex_dev, (\<lambda>_. 0)(0x7044 := 2, 0x8004 := 0x40000)) = Some (p', s') \<and>
    ps_usecount p' = 0 \<and> power_mode (mp_pm p') = ATH9K_PM_NETWORK_SLEEP"
  using ps_refcount [of ex_env "ex_alloc 0" ex_fw "\<lambda>d. d" ex_stack_env ex_main
      "(ex_wmi, ex_target, ex_dev, (\<lambda>_. 0)(0x7044 := 2, 0x8004 := 0x40000))" "[Ps_wakeup, Ps_wakeup, Ps_restore, Ps_restore]" 0]
    ex_main_ready by (auto simp: ps_rest_def)

text \<open>The work item \<open>ath9k_ps_work\<close> does not look at the count: run while an operation
  holds the chip awake, it leaves the chip in network sleep under that operation.\<close>

theorem ps_work_ignores_users:
  assumes "pm_ready e alloc fw regs (de_junk env) p s" and "de_exec env = wmi_stack e alloc fw"
  shows "\<exists>p' s'. ath9k_ps_work env p s = Some (p', s') \<and> ps_usecount p' = ps_usecount p \<and>
    mode_in_force ATH9K_PM_NETWORK_SLEEP (htc_ops_mem regs s')"
proof -
  obtain pm1 s1 where a: "ath9k_htc_setpower env ATH9K_PM_AWAKE p s = Some (True, p\<lparr>mp_pm := pm1\<rparr>, s1)"
    "pm_ready e alloc fw regs (de_junk env) (p\<lparr>mp_pm := pm1\<rparr>) s1"
    using setpower_ready [OF assms, of ATH9K_PM_AWAKE] by auto
  obtain pm2 s2 where b: "ath9k_htc_setpower env ATH9K_PM_NETWORK_SLEEP (p\<lparr>mp_pm := pm1\<rparr>) s1 = Some (True, p\<lparr>mp_pm := pm2\<rparr>, s2)"
    "power_mode pm2 = ATH9K_PM_NETWORK_SLEEP" "pm_ready e alloc fw regs (de_junk env) (p\<lparr>mp_pm := pm2\<rparr>) s2"
    using setpower_ready [OF a(2) assms(2), of ATH9K_PM_NETWORK_SLEEP] by auto
  show ?thesis using a(1) b by (auto simp: ath9k_ps_work_def pm_ready_def)
qed

section \<open>Adding interfaces\<close>

lemma awake_idle:
  \<comment> \<open>with power save off and the chip awake, nothing happens around an operation\<close>
  assumes "ps_usecount p = 0" and "power_mode (mp_pm p) = ATH9K_PM_AWAKE" and "\<not> ps_idle p" and "\<not> ps_enabled p"
    and "f (p\<lparr>ps_usecount := 1\<rparr>) s = Some (r, p', s')" and "ps_usecount p' = 1" and "ps_idle p' = ps_idle p"
    and "ps_enabled p' = ps_enabled p"
  shows "awake env f p s = Some (r, p'\<lparr>ps_usecount := 0\<rparr>, s')"
proof -
  have "p\<lparr>mp_pm := mp_pm p, ps_usecount := 1\<rparr> = p\<lparr>ps_usecount := 1\<rparr>" by (cases p) simp
  then have "ath9k_htc_ps_wakeup env p s = Some (p\<lparr>ps_usecount := 1\<rparr>, s)"
    using assms(1,2) by (simp add: ath9k_htc_ps_wakeup_def ath9k_htc_setpower_def ath9k_hw_setpower_def)
  moreover have "ath9k_htc_ps_restore env p' s' = Some (p'\<lparr>ps_usecount := 0\<rparr>, s')"
    using assms(3,4,6-8) by (simp add: ath9k_htc_ps_restore_def)
  ultimately show ?thesis using assms(5) by (simp add: awake_def)
qed

text \<open>A lost error. When the table of stations is full, \<open>ath9k_htc_add_interface\<close> cannot create the
  entry of the interface; it then removes the interface from the target again, and the result of that command
  overwrites the error. With a target that accepts every command the operation reports success although
  the interface is attached nowhere: neither its slot nor any counter has changed.\<close>

theorem add_interface_error_lost:
  assumes "\<And>c b t. \<exists>t'. drv_wmi env c b t = Some (0, t')" and "8 \<le> nstations p"
    and "htc_opmode (vif_type (vif_of (mp p) v)) = Some m"
    and "ps_usecount p = 0" and "power_mode (mp_pm p) = ATH9K_PM_AWAKE" and "\<not> ps_idle p" and "\<not> ps_enabled p"
  shows "\<exists>s'. ath9k_htc_add_interface env v p s =
    Some (0, set_vif_index v (word_of_nat (ffz (vif_slot p))) p, s')"
proof -
  let ?p = "p\<lparr>ps_usecount := 1\<rparr>" and ?i = "word_of_nat (ffz (vif_slot p)) :: u8"
  let ?h = "target_vif ?i m (vif_addr (vif_of (mp p) v)) 2304"
  obtain s1 where s1: "drv_wmi env WMI_VAP_CREATE_CMDID ?h s = Some (0, s1)" using assms(1) by blast
  obtain s2 where s2: "drv_wmi env WMI_VAP_REMOVE_CMDID ?h s1 = Some (0, s2)" using assms(1) by blast
  have q: "vif_of (mp (set_vif_index v ?i ?p)) = vif_of (mp p)" "nstations (set_vif_index v ?i ?p) = nstations p"
    by (simp_all add: set_vif_index_def set_base_def set_mp_def)
  have full: "ath9k_htc_add_station env v None (set_vif_index v ?i ?p) s1 = Some (- ENOBUFS, set_vif_index v ?i ?p, s1)"
    using assms(2) by (simp add: ath9k_htc_add_station_def q Let_def)
  have "ath9k_htc_add_interface env v p s = Some (0, (set_vif_index v ?i ?p)\<lparr>ps_usecount := 0\<rparr>, s2)"
    unfolding ath9k_htc_add_interface_def
    by (rule awake_idle [OF assms(4-7)])
      (use s1 s2 full assms(3) in \<open>simp_all add: ENOBUFS_def set_vif_index_def set_base_def set_mp_def Let_def\<close>)
  moreover have "(set_vif_index v ?i ?p)\<lparr>ps_usecount := 0\<rparr> = set_vif_index v ?i p"
    using assms(4) by (cases p) (simp add: set_vif_index_def set_base_def set_mp_def)
  ultimately show ?thesis by auto
qed

theorem add_interface_error_lost_witness:
  "\<exists>s'. ath9k_htc_add_interface (ex_denv ex_exec) 0
      (ex_main\<lparr>nstations := 8, sta_slot := 255, mp_pm := ex_pm\<lparr>power_mode := ATH9K_PM_AWAKE\<rparr>, ps_enabled := False\<rparr>) (ex_wmi, ()) =
    Some (0, set_vif_index 0 0
      (ex_main\<lparr>nstations := 8, sta_slot := 255, mp_pm := ex_pm\<lparr>power_mode := ATH9K_PM_AWAKE\<rparr>, ps_enabled := False\<rparr>), s')"
proof -
  let ?p = "ex_main\<lparr>nstations := 8, sta_slot := 255, mp_pm := ex_pm\<lparr>power_mode := ATH9K_PM_AWAKE\<rparr>, ps_enabled := False\<rparr>"
  have w: "\<exists>t'. drv_wmi (ex_denv ex_exec) c b t = Some (0, t')" for c b t
    by (simp add: drv_wmi_def WMI_CMD_def ex_exec_def ex_denv_def split: prod.splits)
  have "ffz (vif_slot ?p) = 0" using ffz_zero by (simp add: ex_main_def)
  then show ?thesis
    using add_interface_error_lost [of "ex_denv ex_exec" ?p 0 HTC_M_HOSTAP "(ex_wmi, ())", OF w]
    by (simp add: ex_hp_def ex_vif_def htc_opmode_def)
qed

text \<open>There is no limit on the number of interfaces in \<open>ath9k_htc_add_interface\<close>: with both slots taken the
  third interface gets index 2, and its station is recorded past the end of \<open>vif_sta_pos\<close>, which has one
  entry per slot.\<close>

theorem add_interface_past_table:
  assumes "\<And>c b t. \<exists>t'. drv_wmi env c b t = Some (0, t')" and "vif_slot p = 3" and "nstations p < 8"
    and "htc_opmode (vif_type (vif_of (mp p) v)) \<noteq> None" and "length (vif_sta_pos (htc_base (mp p))) = 2"
    and "ps_usecount p = 0" and "power_mode (mp_pm p) = ATH9K_PM_AWAKE"
  shows "ath9k_htc_add_interface env v p s = None"
proof -
  let ?p = "set_vif_index v 2 (p\<lparr>ps_usecount := 1\<rparr>)"
  have f: "ffz 3 = 2" by (simp add: ffz_def upt_rec bit_simps flip: bit_iff_odd_drop_bit)
  obtain m where m: "htc_opmode (vif_type (vif_of (mp p) v)) = Some m" using assms(4) by blast
  have wk: "ath9k_htc_ps_wakeup env p s = Some (p\<lparr>ps_usecount := 1\<rparr>, s)"
    using assms(6,7) by (cases p) (simp add: ath9k_htc_ps_wakeup_def ath9k_htc_setpower_def ath9k_hw_setpower_def)
  obtain s1 where s1: "drv_wmi env WMI_VAP_CREATE_CMDID (target_vif 2 m (vif_addr (vif_of (mp p) v)) 2304) s = Some (0, s1)"
    using assms(1) by blast
  have q: "nstations ?p = nstations p" "vif_index (priv_vif (htc_base (mp ?p)) v) = 2"
    "length (vif_sta_pos (htc_base (mp ?p))) = 2"
    using assms(5) by (simp_all add: set_vif_index_def set_base_def set_mp_def)
  have nope: "set_sta_pos 2 x (take_sta_slot i ?p) = None" for x i
    using q(3) by (simp add: set_sta_pos_def take_sta_slot_def)
  have z: "a = 0" if "drv_wmi env c b t = Some (a, t')" for c b t a t' using assms(1) [of c b t] that by auto
  have "ath9k_htc_add_station env v None ?p s1 = None"
    using assms(3) nope ffz_le [of "sta_slot ?p"] q
    by (auto simp: ath9k_htc_add_station_def Let_def not_le not_less dest: z split: Option.bind_splits)
  then show ?thesis
    using wk s1 m f assms(2) by (simp add: ath9k_htc_add_interface_def awake_def Let_def)
qed

end
