(* ===== verification/Htc_Start.thy ===== *)
theory Htc_Start
  imports Htc_Main
begin

text \<open>
  Starting, stopping and reconfiguring the device: the operations of \<open>ath9k/htc_drv_main.c\<close> that
  reset the chip, with the receive start of \<open>ath9k/htc_drv_txrx.c\<close>, the counters of \<open>ath9k/ani.c\<close> and
  the periodic calibration work.

  \<open>start_priv\<close> adds to \<open>main_priv\<close> the configuration of mac80211, the channel table, transmit power,
  statistics, and whether the cleanup timer of the transmit path is pending. The chip reset,
  calibration, noise immunity and Bluetooth functions of the hardware layer are the hooks of
  \<open>chip_env\<close>; the drain of the transmit path and \<open>htc_start\<close>, which reach below the command
  channel, are hooks too, and \<open>stack_tx_drain\<close> and \<open>stack_htc_start\<close> are the ones of the USB stack.
\<close>

section \<open>Data\<close>

abbreviation (input) IEEE80211_CONF_MONITOR :: u32 where "IEEE80211_CONF_MONITOR \<equiv> 1"
abbreviation (input) IEEE80211_CONF_PS :: u32 where "IEEE80211_CONF_PS \<equiv> 2"
abbreviation (input) IEEE80211_CONF_IDLE :: u32 where "IEEE80211_CONF_IDLE \<equiv> 4"
abbreviation (input) IEEE80211_CONF_OFFCHANNEL :: u32 where "IEEE80211_CONF_OFFCHANNEL \<equiv> 8"
abbreviation (input) IEEE80211_CONF_CHANGE_MONITOR :: u32 where "IEEE80211_CONF_CHANGE_MONITOR \<equiv> 8"
abbreviation (input) IEEE80211_CONF_CHANGE_PS :: u32 where "IEEE80211_CONF_CHANGE_PS \<equiv> 0x10"
abbreviation (input) IEEE80211_CONF_CHANGE_POWER :: u32 where "IEEE80211_CONF_CHANGE_POWER \<equiv> 0x20"
abbreviation (input) IEEE80211_CONF_CHANGE_CHANNEL :: u32 where "IEEE80211_CONF_CHANGE_CHANNEL \<equiv> 0x40"
abbreviation (input) IEEE80211_CONF_CHANGE_IDLE :: u32 where "IEEE80211_CONF_CHANGE_IDLE \<equiv> 0x100"
abbreviation (input) HTC_MODE_11NA :: int where "HTC_MODE_11NA \<equiv> 0"
abbreviation (input) HTC_MODE_11NG :: int where "HTC_MODE_11NG \<equiv> 1"
abbreviation (input) ATH_STA_SHORT_CALINTERVAL :: u32 where "ATH_STA_SHORT_CALINTERVAL \<equiv> 1000"
abbreviation (input) ATH_AP_SHORT_CALINTERVAL :: u32 where "ATH_AP_SHORT_CALINTERVAL \<equiv> 100"
abbreviation (input) ATH_ANI_POLLINTERVAL :: u32 where "ATH_ANI_POLLINTERVAL \<equiv> 100"
abbreviation (input) ATH_LONG_CALINTERVAL :: u32 where "ATH_LONG_CALINTERVAL \<equiv> 30000"
abbreviation (input) ATH_RESTART_CALINTERVAL :: u32 where "ATH_RESTART_CALINTERVAL \<equiv> 1200000"
abbreviation (input) AR_RTS_OK :: u32 where "AR_RTS_OK \<equiv> 0x8088"
abbreviation (input) AR_RTS_FAIL :: u32 where "AR_RTS_FAIL \<equiv> 0x808c"
abbreviation (input) AR_ACK_FAIL :: u32 where "AR_ACK_FAIL \<equiv> 0x8090"
abbreviation (input) AR_FCS_FAIL :: u32 where "AR_FCS_FAIL \<equiv> 0x8094"
abbreviation (input) AR_BEACON_CNT :: u32 where "AR_BEACON_CNT \<equiv> 0x8098"
abbreviation (input) AR_FILT_OFDM :: u32 where "AR_FILT_OFDM \<equiv> 0x8124"
abbreviation (input) AR_FILT_CCK :: u32 where "AR_FILT_CCK \<equiv> 0x8128"
abbreviation (input) AR_PHY_ERR_MASK_1 :: u32 where "AR_PHY_ERR_MASK_1 \<equiv> 0x8130"
abbreviation (input) AR_PHY_ERR_MASK_2 :: u32 where "AR_PHY_ERR_MASK_2 \<equiv> 0x8138"
abbreviation (input) AR_PHY_ERR_OFDM_TIMING :: u32 where "AR_PHY_ERR_OFDM_TIMING \<equiv> 0x20000"
abbreviation (input) AR_PHY_ERR_CCK_TIMING :: u32 where "AR_PHY_ERR_CCK_TIMING \<equiv> 0x2000000"

record ieee80211_conf =
  conf_flags :: u32
  conf_channel :: ieee80211_chan
  conf_channel_type :: nl80211_channel_type
  power_level :: int

record ath9k_mib_stats =
  ackrcv_bad :: u32
  rts_bad :: u32
  rts_good :: u32
  fcs_bad :: u32
  beacons :: u32

datatype start_call =
    Mac mac_call
  | Kill_rx_tasklet
  | Cancel_fatal_work
  | Cancel_led_work
  | Queue_ani_in u32

record start_priv =
  sp :: main_priv
  sp_rx :: htc_rx
  hw_conf :: ieee80211_conf
  channels :: "ath9k_channel list"
  curtxpow :: u16
  txpowlimit :: u16
  power_limit :: u16
  max_power_level :: u16
  mib_stats :: ath9k_mib_stats
  enable_ani :: bool
  cleanup_armed :: bool
  start_trace :: "start_call list"

datatype caldata_ref = No_caldata | Priv_caldata | Ah_caldata

record 's chip_env =
  \<comment> \<open>\<open>ce_reset\<close> is \<open>ath9k_hw_reset(ah, chan, caldata, fastcc)\<close>, where \<open>caldata\<close> is null, \<open>&priv->caldata\<close> or
      \<open>ah->caldata\<close>; \<open>ce_set_txpowerlimit\<close> gives \<open>power_limit\<close> and \<open>max_power_level\<close> afterwards; the other hooks
      are named after their functions\<close>
  ce_drv :: "'s drv_env"
  ce_reset :: "ath9k_channel option \<Rightarrow> caldata_ref \<Rightarrow> bool \<Rightarrow> ath_hw \<times> ath_pm \<Rightarrow> wmi \<times> 's \<Rightarrow> (int \<times> (ath_hw \<times> ath_pm) \<times> wmi \<times> 's) option"
  ce_set_txpowerlimit :: "u16 \<Rightarrow> wmi \<times> 's \<Rightarrow> ((u16 \<times> u16) \<times> wmi \<times> 's) option"
  ce_ani_reset :: "bool \<Rightarrow> wmi \<times> 's \<Rightarrow> (wmi \<times> 's) option"
  ce_ani_monitor :: "wmi \<times> 's \<Rightarrow> (wmi \<times> 's) option"
  ce_calibrate :: "bool \<Rightarrow> wmi \<times> 's \<Rightarrow> (bool \<times> wmi \<times> 's) option"
  ce_reset_calvalid :: "wmi \<times> 's \<Rightarrow> (bool \<times> wmi \<times> 's) option"
  ce_start_btcoex :: "wmi \<times> 's \<Rightarrow> (wmi \<times> 's) option"
  ce_stop_btcoex :: "wmi \<times> 's \<Rightarrow> (wmi \<times> 's) option"
  ce_phy_disable :: "ath_pm \<Rightarrow> wmi \<times> 's \<Rightarrow> (ath_pm \<times> wmi \<times> 's) option"
  ce_disable :: "ath_pm \<Rightarrow> wmi \<times> 's \<Rightarrow> (ath_pm \<times> wmi \<times> 's) option"
  ce_tx_drain :: "ath9k_htc_priv \<Rightarrow> wmi \<times> 's \<Rightarrow> (ath9k_htc_priv \<times> (wmi \<times> 's) \<times> mac_call list) option"
  ce_htc_start :: "wmi \<times> 's \<Rightarrow> wmi \<times> 's"

definition on_main ::
  "(main_priv \<Rightarrow> wmi \<times> 's \<Rightarrow> (main_priv \<times> wmi \<times> 's) option) \<Rightarrow> start_priv \<Rightarrow> wmi \<times> 's \<Rightarrow> (start_priv \<times> wmi \<times> 's) option" where
  \<comment> \<open>an operation of \<open>Htc_Main\<close> on the larger state\<close>
  "on_main f p s = do {
     (q, s) \<leftarrow> f (sp p) s;
     Some (p\<lparr>sp := q\<rparr>, s) }"

definition log_calls :: "start_call list \<Rightarrow> start_priv \<Rightarrow> start_priv" where
  "log_calls cs p = p\<lparr>start_trace := start_trace p @ cs\<rparr>"

definition sp_setpower :: "'s chip_env \<Rightarrow> ath9k_power_mode \<Rightarrow> start_priv \<Rightarrow> wmi \<times> 's \<Rightarrow> (start_priv \<times> wmi \<times> 's) option" where
  "sp_setpower env mode = on_main (\<lambda>p s. do {
     (ret, p, s) \<leftarrow> ath9k_htc_setpower (ce_drv env) mode p s;
     Some (p, s) })"

definition sp_ps_wakeup :: "'s chip_env \<Rightarrow> start_priv \<Rightarrow> wmi \<times> 's \<Rightarrow> (start_priv \<times> wmi \<times> 's) option" where
  "sp_ps_wakeup env = on_main (ath9k_htc_ps_wakeup (ce_drv env))"

definition sp_ps_restore :: "'s chip_env \<Rightarrow> start_priv \<Rightarrow> wmi \<times> 's \<Rightarrow> (start_priv \<times> wmi \<times> 's) option" where
  "sp_ps_restore env = on_main (ath9k_htc_ps_restore (ce_drv env))"

definition sp_stop_ani :: "start_priv \<Rightarrow> start_priv option" where
  "sp_stop_ani p = do { q \<leftarrow> ath9k_htc_stop_ani (sp p); Some (p\<lparr>sp := q\<rparr>) }"

section \<open>Steps\<close>

definition ath9k_htc_get_curmode :: "ath9k_channel \<Rightarrow> int" where
  "ath9k_htc_get_curmode ichan =
     (if chanmode ichan \<in> {CHANNEL_G, CHANNEL_2GHZ OR CHANNEL_HT20, CHANNEL_2GHZ OR CHANNEL_HT40PLUS, CHANNEL_2GHZ OR CHANNEL_HT40MINUS}
      then HTC_MODE_11NG
      else if chanmode ichan \<in> {CHANNEL_A, CHANNEL_5GHZ OR CHANNEL_HT20, CHANNEL_5GHZ OR CHANNEL_HT40PLUS, CHANNEL_5GHZ OR CHANNEL_HT40MINUS}
      then HTC_MODE_11NA else - EINVAL)"

definition sp_tx_drain :: "'s chip_env \<Rightarrow> start_priv \<Rightarrow> wmi \<times> 's \<Rightarrow> (start_priv \<times> wmi \<times> 's) option" where
  "sp_tx_drain env p s = do {
     (b, s, calls) \<leftarrow> ce_tx_drain env (htc_base (mp (sp p))) s;
     Some (log_calls (map Mac calls) (p\<lparr>sp := set_base (\<lambda>_. b) (sp p)\<rparr>), s) }"

definition sp_event_drain :: "wmi \<times> 's \<Rightarrow> wmi \<times> 's" where
  "sp_event_drain s = (fst (ath9k_wmi_event_drain (fst s)), snd s)"

definition halt_target :: "'s chip_env \<Rightarrow> wmi \<times> 's \<Rightarrow> (wmi \<times> 's) option" where
  \<comment> \<open>interrupts, transmit queues and receive unit of the target\<close>
  "halt_target env s = do {
     (r, s) \<leftarrow> drv_wmi (ce_drv env) WMI_DISABLE_INTR_CMDID [] s;
     (r, s) \<leftarrow> drv_wmi (ce_drv env) WMI_DRAIN_TXQ_ALL_CMDID [] s;
     (r, s) \<leftarrow> drv_wmi (ce_drv env) WMI_STOP_RECV_CMDID [] s;
     Some s }"

definition quiesce :: "'s chip_env \<Rightarrow> start_priv \<Rightarrow> wmi \<times> 's \<Rightarrow> (start_priv \<times> wmi \<times> 's) option" where
  \<comment> \<open>what \<open>ath9k_htc_reset\<close> and \<open>ath9k_htc_set_channel\<close> do before the reset\<close>
  "quiesce env p s = do {
     (p, s) \<leftarrow> sp_tx_drain env (p\<lparr>cleanup_armed := False\<rparr>) s;
     s \<leftarrow> halt_target env s;
     Some (p, sp_event_drain s) }"

definition chip_reset ::
  "'s chip_env \<Rightarrow> ath9k_channel option \<Rightarrow> caldata_ref \<Rightarrow> bool \<Rightarrow> start_priv \<Rightarrow> wmi \<times> 's \<Rightarrow> (int \<times> start_priv \<times> wmi \<times> 's) option" where
  "chip_reset env chan caldata fastcc p s = do {
     (ret, (ah, pm), s) \<leftarrow> ce_reset env chan caldata fastcc (htc_ah (mp (sp p)), mp_pm (sp p)) s;
     Some (ret, p\<lparr>sp := set_ah (\<lambda>_. ah) ((sp p)\<lparr>mp_pm := pm\<rparr>)\<rparr>, s) }"

definition ath9k_cmn_update_txpow :: "'s chip_env \<Rightarrow> start_priv \<Rightarrow> wmi \<times> 's \<Rightarrow> (start_priv \<times> wmi \<times> 's) option" where
  \<comment> \<open>called with \<open>priv->curtxpow\<close>, \<open>priv->txpowlimit\<close> and the address of \<open>priv->curtxpow\<close>\<close>
  "ath9k_cmn_update_txpow env p s =
     (if power_limit p \<noteq> txpowlimit p then do {
        ((limit, level), s) \<leftarrow> ce_set_txpowerlimit env (txpowlimit p) s;
        Some (p\<lparr>power_limit := limit, max_power_level := level, curtxpow := level\<rparr>, s) }
      else Some (p, s))"

definition ath9k_hw_update_mibstats :: "'s ath_ops \<Rightarrow> ath9k_mib_stats \<Rightarrow> 's \<Rightarrow> (ath9k_mib_stats \<times> 's) option" where
  "ath9k_hw_update_mibstats ops stats s = do {
     (a, s) \<leftarrow> op_read ops AR_ACK_FAIL s;
     (b, s) \<leftarrow> op_read ops AR_RTS_FAIL s;
     (c, s) \<leftarrow> op_read ops AR_FCS_FAIL s;
     (d, s) \<leftarrow> op_read ops AR_RTS_OK s;
     (e, s) \<leftarrow> op_read ops AR_BEACON_CNT s;
     Some (\<lparr>ackrcv_bad = ackrcv_bad stats + a, rts_bad = rts_bad stats + b, rts_good = rts_good stats + d,
            fcs_bad = fcs_bad stats + c, beacons = beacons stats + e\<rparr>, s) }"

definition ath9k_enable_mib_counters :: "'s ath_ops \<Rightarrow> ath9k_mib_stats \<Rightarrow> 's \<Rightarrow> (ath9k_mib_stats \<times> 's) option" where
  "ath9k_enable_mib_counters ops stats s = do {
     (stats, s) \<leftarrow> ath9k_hw_update_mibstats ops stats s;
     s \<leftarrow> REG_RUN ops [ENABLE_BUFFER, REG_WRITE AR_FILT_OFDM 0, REG_WRITE AR_FILT_CCK 0,
       REG_WRITE AR_MIBC (NOT (1 OR AR_MIBC_FMC OR 4 OR 8) AND 0x0f),
       REG_WRITE AR_PHY_ERR_MASK_1 AR_PHY_ERR_OFDM_TIMING, REG_WRITE AR_PHY_ERR_MASK_2 AR_PHY_ERR_CCK_TIMING,
       BUFFER_FLUSH] s;
     Some (stats, s) }"

definition ath9k_hw_startpcureceive :: "'s chip_env \<Rightarrow> bool \<Rightarrow> ath9k_mib_stats \<Rightarrow> wmi \<times> 's \<Rightarrow> (ath9k_mib_stats \<times> wmi \<times> 's) option" where
  "ath9k_hw_startpcureceive env is_scanning stats s = do {
     (stats, s) \<leftarrow> ath9k_enable_mib_counters (de_ops (ce_drv env)) stats s;
     s \<leftarrow> ce_ani_reset env is_scanning s;
     s \<leftarrow> REG_RUN (de_ops (ce_drv env)) [REG_CLR_BIT AR_DIAG_SW (AR_DIAG_RX_DIS OR AR_DIAG_RX_ABORT)] s;
     Some (stats, s) }"

definition ath9k_host_rx_init :: "'s chip_env \<Rightarrow> start_priv \<Rightarrow> wmi \<times> 's \<Rightarrow> (start_priv \<times> wmi \<times> 's) option" where
  \<comment> \<open>\<open>ath9k_hw_rxena\<close> is \<open>ar9002_hw_rx_enable\<close> on these chips\<close>
  "ath9k_host_rx_init env p s = do {
     s \<leftarrow> ar9002_hw_rx_enable (de_ops (ce_drv env)) (htc_ah (mp (sp p))) s;
     s \<leftarrow> ath9k_htc_opmode_init (de_ops (ce_drv env)) (mp (sp p)) s;
     scanning \<leftarrow> test_op OP_SCANNING (mp (sp p));
     (stats, s) \<leftarrow> ath9k_hw_startpcureceive env scanning (mib_stats p) s;
     Some (p\<lparr>mib_stats := stats, sp_rx := (sp_rx p)\<lparr>last_rssi := ATH_RSSI_DUMMY_MARKER\<rparr>\<rparr>, s) }"

definition set_mode :: "'s chip_env \<Rightarrow> ath9k_channel \<Rightarrow> wmi \<times> 's \<Rightarrow> (int \<times> wmi \<times> 's) option" where
  \<comment> \<open>the mode of the channel, as a \<open>__be16\<close>\<close>
  "set_mode env chan s = drv_wmi (ce_drv env) WMI_SET_MODE_CMDID (be16_bytes (word_of_int (ath9k_htc_get_curmode chan))) s"

section \<open>Operations\<close>

definition ath9k_htc_reset :: "'s chip_env \<Rightarrow> start_priv \<Rightarrow> wmi \<times> 's \<Rightarrow> (start_priv \<times> wmi \<times> 's) option" where
  "ath9k_htc_reset env p s = do {
     (p, s) \<leftarrow> sp_ps_wakeup env p s;
     p \<leftarrow> sp_stop_ani p;
     (p, s) \<leftarrow> quiesce env (log_calls [Mac Stop_queues] p) s;
     (ret, p, s) \<leftarrow> chip_reset env (curchan (htc_ah (mp (sp p)))) Priv_caldata False p s;
     (p, s) \<leftarrow> ath9k_cmn_update_txpow env p s;
     (r, s) \<leftarrow> drv_wmi (ce_drv env) WMI_START_RECV_CMDID [] s;
     (p, s) \<leftarrow> ath9k_host_rx_init env p s;
     chan \<leftarrow> curchan (htc_ah (mp (sp p)));
     (r, s) \<leftarrow> set_mode env chan s;
     (r, s) \<leftarrow> drv_wmi (ce_drv env) WMI_ENABLE_INTR_CMDID [] s;
     let s = ce_htc_start env s;
     (p, s) \<leftarrow> on_main (ath9k_htc_vif_reconfig (ce_drv env)) p s;
     let p = (log_calls [Mac Wake_queues] p)\<lparr>cleanup_armed := True\<rparr>;
     sp_ps_restore env p s }"

definition set_channel_body ::
  "'s chip_env \<Rightarrow> ath9k_channel \<Rightarrow> start_priv \<Rightarrow> wmi \<times> 's \<Rightarrow> (int \<times> start_priv \<times> wmi \<times> 's) option" where
  \<comment> \<open>\<open>ath9k_htc_set_channel\<close> up to the label \<open>err\<close>\<close>
  "set_channel_body env hchan p s = do {
     let offchannel = has_flag (conf_flags (hw_conf p)) IEEE80211_CONF_OFFCHANNEL;
     (p, s) \<leftarrow> quiesce env p s;
     (ret, p, s) \<leftarrow> chip_reset env (Some hchan) (if offchannel then No_caldata else Priv_caldata) offchannel p s;
     if ret \<noteq> 0 then Some (ret, p, s)
     else do {
       (p, s) \<leftarrow> ath9k_cmn_update_txpow env p s;
       (ret, s) \<leftarrow> drv_wmi (ce_drv env) WMI_START_RECV_CMDID [] s;
       if ret \<noteq> 0 then Some (ret, p, s)
       else do {
         (p, s) \<leftarrow> ath9k_host_rx_init env p s;
         (ret, s) \<leftarrow> set_mode env hchan s;
         if ret \<noteq> 0 then Some (ret, p, s)
         else do {
           (ret, s) \<leftarrow> drv_wmi (ce_drv env) WMI_ENABLE_INTR_CMDID [] s;
           if ret \<noteq> 0 then Some (ret, p, s)
           else do {
             let s = ce_htc_start env s;
             scanning \<leftarrow> test_op OP_SCANNING (mp (sp p));
             (p, s) \<leftarrow> (if \<not> scanning \<and> \<not> offchannel
                        then on_main (ath9k_htc_vif_reconfig (ce_drv env)) p s else Some (p, s));
             Some (0, p\<lparr>cleanup_armed := True\<rparr>, s) } } } } }"

definition ath9k_htc_set_channel ::
  "'s chip_env \<Rightarrow> ath9k_channel \<Rightarrow> start_priv \<Rightarrow> wmi \<times> 's \<Rightarrow> (int \<times> start_priv \<times> wmi \<times> 's) option" where
  "ath9k_htc_set_channel env hchan p s = do {
     invalid \<leftarrow> test_op OP_INVALID (mp (sp p));
     if invalid then Some (- EIO, p, s)
     else do {
       (p, s) \<leftarrow> sp_ps_wakeup env p s;
       (ret, p, s) \<leftarrow> set_channel_body env hchan p s;
       (p, s) \<leftarrow> sp_ps_restore env p s;
       Some (ret, p, s) } }"

definition start_running :: "'s chip_env \<Rightarrow> start_priv \<Rightarrow> wmi \<times> 's \<Rightarrow> (int \<times> start_priv \<times> wmi \<times> 's) option" where
  \<comment> \<open>\<open>ath9k_htc_start\<close> from \<open>ath9k_htc_update_cap_target\<close> on\<close>
  "start_running env p s = do {
     (ret, s) \<leftarrow> ath9k_htc_update_cap_target (ce_drv env) 0 (sp p) s;
     q \<leftarrow> clear_op OP_INVALID (mp (sp p));
     let s = ce_htc_start env s;
     let p = p\<lparr>sp := set_base (clear_tx_flags ATH9K_HTC_OP_TX_QUEUES_STOP) ((sp p)\<lparr>mp := q\<rparr>)\<rparr>;
     let p = (log_calls [Mac Wake_queues] p)\<lparr>cleanup_armed := True\<rparr>;
     s \<leftarrow> ce_start_btcoex env s;
     Some (ret, p, s) }"

definition ath9k_htc_start :: "'s chip_env \<Rightarrow> start_priv \<Rightarrow> wmi \<times> 's \<Rightarrow> (int \<times> start_priv \<times> wmi \<times> 's) option" where
  "ath9k_htc_start env p s = do {
     (p, s) \<leftarrow> sp_setpower env ATH9K_PM_AWAKE p s;
     (r, s) \<leftarrow> drv_wmi (ce_drv env) WMI_FLUSH_RECV_CMDID [] s;
     (chan, chans) \<leftarrow> ath9k_cmn_get_curchannel (conf_channel (hw_conf p)) (conf_channel_type (hw_conf p)) (channels p);
     (ret, p, s) \<leftarrow> chip_reset env (Some chan) Ah_caldata False (p\<lparr>channels := chans\<rparr>) s;
     if ret \<noteq> 0 then Some (ret, p, s)
     else do {
       (p, s) \<leftarrow> ath9k_cmn_update_txpow env p s;
       (r, s) \<leftarrow> set_mode env chan s;
       (r, s) \<leftarrow> drv_wmi (ce_drv env) WMI_ATH_INIT_CMDID [] s;
       (r, s) \<leftarrow> drv_wmi (ce_drv env) WMI_START_RECV_CMDID [] s;
       (p, s) \<leftarrow> ath9k_host_rx_init env p s;
       start_running env p s } }"

definition ath9k_htc_stop :: "'s chip_env \<Rightarrow> start_priv \<Rightarrow> wmi \<times> 's \<Rightarrow> (start_priv \<times> wmi \<times> 's) option" where
  "ath9k_htc_stop env p s = do {
     invalid \<leftarrow> test_op OP_INVALID (mp (sp p));
     if invalid then Some (p, s)
     else do {
       (p, s) \<leftarrow> sp_ps_wakeup env p s;
       s \<leftarrow> halt_target env s;
       (p, s) \<leftarrow> sp_tx_drain env ((log_calls [Kill_rx_tasklet] p)\<lparr>cleanup_armed := False\<rparr>) s;
       let s = sp_event_drain s;
       let p = log_calls [Cancel_fatal_work, Cancel_led_work] (p\<lparr>sp := trace_call Cancel_ps_work (sp p)\<rparr>);
       p \<leftarrow> sp_stop_ani p;
       s \<leftarrow> ce_stop_btcoex env s;
       (p, s) \<leftarrow> (if ath_hw.is_monitoring (htc_ah (mp (sp p)))
                  then on_main (\<lambda>p s. do { (r, p, s) \<leftarrow> ath9k_htc_remove_monitor_interface (ce_drv env) p s; Some (p, s) }) p s
                  else Some (p, s));
       (pm, s) \<leftarrow> ce_phy_disable env (mp_pm (sp p)) s;
       (pm, s) \<leftarrow> ce_disable env pm s;
       (p, s) \<leftarrow> sp_ps_restore env (p\<lparr>sp := (sp p)\<lparr>mp_pm := pm\<rparr>\<rparr>) s;
       (p, s) \<leftarrow> sp_setpower env ATH9K_PM_FULL_SLEEP p s;
       q \<leftarrow> set_op OP_INVALID (mp (sp p));
       Some (p\<lparr>sp := (sp p)\<lparr>mp := q\<rparr>\<rparr>, s) } }"

definition config_monitor :: "'s chip_env \<Rightarrow> start_priv \<Rightarrow> wmi \<times> 's \<Rightarrow> (start_priv \<times> wmi \<times> 's) option" where
  "config_monitor env p s =
     (if has_flag (conf_flags (hw_conf p)) IEEE80211_CONF_MONITOR \<and> \<not> ath_hw.is_monitoring (htc_ah (mp (sp p)))
      then on_main (\<lambda>p s. do { (r, p, s) \<leftarrow> ath9k_htc_add_monitor_interface (ce_drv env) p s; Some (p, s) }) p s
      else if ath_hw.is_monitoring (htc_ah (mp (sp p)))
      then on_main (\<lambda>p s. do { (r, p, s) \<leftarrow> ath9k_htc_remove_monitor_interface (ce_drv env) p s; Some (p, s) }) p s
      else Some (p, s))"

definition config_channel :: "'s chip_env \<Rightarrow> start_priv \<Rightarrow> wmi \<times> 's \<Rightarrow> (int \<times> start_priv \<times> wmi \<times> 's) option" where
  "config_channel env p s =
     (let chan = conf_channel (hw_conf p); pos = unat (ch_hw_value chan) in
      if pos < length (channels p) then do {
        let c = ath9k_cmn_update_ichannel (channels p ! pos) chan (conf_channel_type (hw_conf p));
        (ret, p, s) \<leftarrow> ath9k_htc_set_channel env c (p\<lparr>channels := (channels p)[pos := c]\<rparr>) s;
        Some (if ret < 0 then - EINVAL else 0, p, s) }
      else None)"

definition config_ps :: "'s chip_env \<Rightarrow> start_priv \<Rightarrow> wmi \<times> 's \<Rightarrow> (start_priv \<times> wmi \<times> 's) option" where
  "config_ps env p s =
     (if has_flag (conf_flags (hw_conf p)) IEEE80211_CONF_PS then do {
        (p, s) \<leftarrow> sp_setpower env ATH9K_PM_NETWORK_SLEEP p s;
        Some (p\<lparr>sp := (sp p)\<lparr>ps_enabled := True\<rparr>\<rparr>, s) }
      else sp_setpower env ATH9K_PM_AWAKE (p\<lparr>sp := trace_call Cancel_ps_work ((sp p)\<lparr>ps_enabled := False\<rparr>)\<rparr>) s)"

definition config_power :: "'s chip_env \<Rightarrow> start_priv \<Rightarrow> wmi \<times> 's \<Rightarrow> (start_priv \<times> wmi \<times> 's) option" where
  "config_power env p s = ath9k_cmn_update_txpow env (p\<lparr>txpowlimit := word_of_int (2 * power_level (hw_conf p))\<rparr>) s"

definition config_body :: "'s chip_env \<Rightarrow> u32 \<Rightarrow> start_priv \<Rightarrow> wmi \<times> 's \<Rightarrow> (int \<times> start_priv \<times> wmi \<times> 's) option" where
  \<comment> \<open>\<open>ath9k_htc_config\<close> up to the label \<open>out\<close>\<close>
  "config_body env changed p s = do {
     let idle = has_flag (conf_flags (hw_conf p)) IEEE80211_CONF_IDLE;
     let change_idle = has_flag changed IEEE80211_CONF_CHANGE_IDLE;
     let p = (if change_idle then p\<lparr>sp := (sp p)\<lparr>ps_idle := idle\<rparr>\<rparr> else p);
     (p, s) \<leftarrow> (if has_flag changed IEEE80211_CONF_CHANGE_MONITOR then config_monitor env p s else Some (p, s));
     (ret, p, s) \<leftarrow> (if has_flag changed IEEE80211_CONF_CHANGE_CHANNEL \<or> change_idle \<and> idle
                     then config_channel env p s else Some (0, p, s));
     if ret \<noteq> 0 then Some (ret, p, s)
     else do {
       (p, s) \<leftarrow> (if has_flag changed IEEE80211_CONF_CHANGE_PS then config_ps env p s else Some (p, s));
       (p, s) \<leftarrow> (if has_flag changed IEEE80211_CONF_CHANGE_POWER then config_power env p s else Some (p, s));
       Some (0, p, s) } }"

definition ath9k_htc_config :: "'s chip_env \<Rightarrow> u32 \<Rightarrow> start_priv \<Rightarrow> wmi \<times> 's \<Rightarrow> (int \<times> start_priv \<times> wmi \<times> 's) option" where
  "ath9k_htc_config env changed p s = do {
     (p, s) \<leftarrow> sp_ps_wakeup env p s;
     (ret, p, s) \<leftarrow> config_body env changed p s;
     (p, s) \<leftarrow> sp_ps_restore env p s;
     Some (ret, p, s) }"

definition ath9k_htc_get_stats :: "start_priv \<Rightarrow> u32 \<times> u32 \<times> u32 \<times> u32" where
  \<comment> \<open>ACK failures, RTS failures, FCS errors, RTS successes\<close>
  "ath9k_htc_get_stats p = (let m = mib_stats p in (ackrcv_bad m, rts_bad m, fcs_bad m, rts_good m))"

section \<open>Periodic calibration\<close>

definition short_cal_interval :: "start_priv \<Rightarrow> u32" where
  "short_cal_interval p =
     (if opmode (htc_ah (mp (sp p))) = IFTYPE_AP then ATH_AP_SHORT_CALINTERVAL else ATH_STA_SHORT_CALINTERVAL)"

definition set_ani :: "(ath_ani \<Rightarrow> ath_ani) \<Rightarrow> start_priv \<Rightarrow> start_priv" where
  "set_ani f p = p\<lparr>sp := (sp p)\<lparr>ani := f (ani (sp p))\<rparr>\<rparr>"

definition ani_cal_step ::
  "'s chip_env \<Rightarrow> u32 \<Rightarrow> start_priv \<Rightarrow> wmi \<times> 's \<Rightarrow> (bool \<times> start_priv \<times> wmi \<times> 's) option" where
  \<comment> \<open>whether the short calibration is due, and the restart of a finished one\<close>
  "ani_cal_step env now p s =
     (let a = ani (sp p) in
      if \<not> caldone a then
        (if short_cal_interval p \<le> now - shortcal_timer a
         then Some (True, set_ani (\<lambda>a. a\<lparr>shortcal_timer := now, resetcal_timer := now\<rparr>) p, s)
         else Some (False, p, s))
      else if ATH_RESTART_CALINTERVAL \<le> now - resetcal_timer a then do {
        (ok, s) \<leftarrow> ce_reset_calvalid env s;
        Some (False, set_ani (\<lambda>a. a\<lparr>caldone := ok, resetcal_timer := (if ok then now else resetcal_timer a)\<rparr>) p, s) }
      else Some (False, p, s))"

definition cal_interval :: "start_priv \<Rightarrow> u32" where
  "cal_interval p =
     (let i = ATH_LONG_CALINTERVAL;
          i = (if enable_ani p then min i ATH_ANI_POLLINTERVAL else i)
      in if \<not> caldone (ani (sp p)) then min i (short_cal_interval p) else i)"

definition ani_awake :: "'s chip_env \<Rightarrow> u32 \<Rightarrow> start_priv \<Rightarrow> wmi \<times> 's \<Rightarrow> (start_priv \<times> wmi \<times> 's) option" where
  \<comment> \<open>\<open>ath9k_htc_ani_work\<close> up to the label \<open>set_timer\<close>, with the chip awake\<close>
  "ani_awake env now p s = do {
     let longcal = (ATH_LONG_CALINTERVAL \<le> now - longcal_timer (ani (sp p)));
     let p = (if longcal then set_ani (\<lambda>a. a\<lparr>longcal_timer := now\<rparr>) p else p);
     (shortcal, p, s) \<leftarrow> ani_cal_step env now p s;
     let aniflag = (enable_ani p \<and> ATH_ANI_POLLINTERVAL \<le> now - checkani_timer (ani (sp p)));
     let p = (if aniflag then set_ani (\<lambda>a. a\<lparr>checkani_timer := now\<rparr>) p else p);
     if longcal \<or> shortcal \<or> aniflag then do {
       (p, s) \<leftarrow> sp_ps_wakeup env p s;
       s \<leftarrow> (if aniflag then ce_ani_monitor env s else Some s);
       (p, s) \<leftarrow> (if longcal \<or> shortcal then do {
                    (ok, s) \<leftarrow> ce_calibrate env longcal s;
                    Some (set_ani (\<lambda>a. a\<lparr>caldone := ok\<rparr>) p, s) }
                  else Some (p, s));
       sp_ps_restore env p s }
     else Some (p, s) }"

definition ath9k_htc_ani_work :: "'s chip_env \<Rightarrow> start_priv \<Rightarrow> wmi \<times> 's \<Rightarrow> (start_priv \<times> wmi \<times> 's) option" where
  "ath9k_htc_ani_work env p s = do {
     (p, s) \<leftarrow> (if power_mode (mp_pm (sp p)) = ATH9K_PM_AWAKE then ani_awake env (de_now (ce_drv env)) p s else Some (p, s));
     Some (log_calls [Queue_ani_in (cal_interval p)] p, s) }"

section \<open>The hooks of the USB stack\<close>

definition stack_tx_drain ::
  "(nat \<Rightarrow> usb_answer) \<Rightarrow> (nat \<Rightarrow> bytes \<Rightarrow> nat option) \<Rightarrow> u64 \<Rightarrow> ath9k_htc_priv \<Rightarrow> wmi \<times> htc_target \<times> hif_device_usb \<times> 'd \<Rightarrow>
     (ath9k_htc_priv \<times> (wmi \<times> htc_target \<times> hif_device_usb \<times> 'd) \<times> mac_call list) option" where
  "stack_tx_drain e find_sta now b s = (case s of (w, t, d, x) \<Rightarrow> do {
     (b, t, d, calls) \<leftarrow> ath9k_htc_tx_drain find_sta (hif_usb e) now b t d;
     Some (b, (w, t, d, x), calls) })"

definition stack_htc_start :: "(nat \<Rightarrow> usb_answer) \<Rightarrow> wmi \<times> htc_target \<times> hif_device_usb \<times> 'd \<Rightarrow> wmi \<times> htc_target \<times> hif_device_usb \<times> 'd" where
  "stack_htc_start e s = (case s of (w, t, d, x) \<Rightarrow> (w, t, htc_start (hif_usb e) d, x))"

section \<open>What an operation leaves\<close>

text \<open>Only the drain and the operations themselves touch the cleanup timer.\<close>

lemma keeps_timer:
  "on_main f p s = Some (p1, s1) \<Longrightarrow> cleanup_armed p1 = cleanup_armed p"
  "chip_reset env c cal fast p s = Some (ret, p1, s1) \<Longrightarrow> cleanup_armed p1 = cleanup_armed p"
  "ath9k_cmn_update_txpow env p s = Some (p1, s1) \<Longrightarrow> cleanup_armed p1 = cleanup_armed p"
  "ath9k_host_rx_init env p s = Some (p1, s1) \<Longrightarrow> cleanup_armed p1 = cleanup_armed p"
  "sp_stop_ani p = Some p1 \<Longrightarrow> cleanup_armed p1 = cleanup_armed p"
  "sp_tx_drain env p s = Some (p1, s1) \<Longrightarrow> cleanup_armed p1 = cleanup_armed p"
  by (auto simp: on_main_def chip_reset_def ath9k_cmn_update_txpow_def ath9k_host_rx_init_def sp_stop_ani_def sp_tx_drain_def
      log_calls_def split: Option.bind_splits if_splits)

lemma keeps_timer_ps:
  "sp_ps_wakeup env p s = Some (p1, s1) \<Longrightarrow> cleanup_armed p1 = cleanup_armed p"
  "sp_ps_restore env p s = Some (p1, s1) \<Longrightarrow> cleanup_armed p1 = cleanup_armed p"
  "sp_setpower env mode p s = Some (p1, s1) \<Longrightarrow> cleanup_armed p1 = cleanup_armed p"
  unfolding sp_ps_wakeup_def sp_ps_restore_def sp_setpower_def by (rule keeps_timer(1); assumption)+

lemma quiesce_timer: "quiesce env p s = Some (p1, s1) \<Longrightarrow> \<not> cleanup_armed p1"
  by (auto simp: quiesce_def dest: keeps_timer(6) split: Option.bind_splits)

lemma set_channel_body_timer:
  assumes "set_channel_body env hchan p s = Some (ret, p1, s1)"
  shows "cleanup_armed p1 \<longleftrightarrow> ret = 0"
  using assms unfolding set_channel_body_def Let_def
  by (auto dest!: quiesce_timer keeps_timer split: Option.bind_splits if_splits)

text \<open>Changing the channel and the cleanup timer. On a running device \<open>ath9k_htc_set_channel\<close> stops
  the timer that gives back frames whose status never comes. The timer is pending again exactly
  when the operation returns 0: after a failed chip reset, or a failed command to the target, it stays
  off, and frames sent later can wait for ever. On a stopped device nothing is touched.\<close>

theorem set_channel_timer:
  assumes "ath9k_htc_set_channel env hchan p s = Some (ret, p', s')"
  shows "if test_op OP_INVALID (mp (sp p)) = Some True then ret = - EIO \<and> p' = p \<and> s' = s
    else cleanup_armed p' \<longleftrightarrow> ret = 0"
  using assms
  by (auto simp: ath9k_htc_set_channel_def dest!: set_channel_body_timer keeps_timer_ps split: Option.bind_splits if_splits)

lemma setpower_full_sleep:
  assumes "sp_setpower env ATH9K_PM_FULL_SLEEP p s = Some (p1, s1)"
  shows "power_mode (mp_pm (sp p1)) = ATH9K_PM_FULL_SLEEP \<and> cleanup_armed p1 = cleanup_armed p"
  using assms
  by (auto simp: sp_setpower_def on_main_def ath9k_htc_setpower_def ath9k_hw_setpower_def split: Option.bind_splits if_splits)

lemma set_op_test: "set_op n q = Some q' \<Longrightarrow> n < 64 \<Longrightarrow> test_op n q' = Some True"
  by (auto simp: set_op_def test_op_def set_bit_def test_bit_def split: if_splits)

lemma clear_op_test: "clear_op n q = Some q' \<Longrightarrow> n < 64 \<Longrightarrow> test_op n q' = Some False"
  by (auto simp: clear_op_def test_op_def clear_bit_def test_bit_def split: if_splits)

text \<open>C33: A stopped device stays stopped. When \<open>ath9k_htc_stop\<close> returns from a running device, the device
  is marked invalid, recorded as fully asleep, and the cleanup timer is off; after that a second stop changes
  nothing, a channel change is refused with \<open>-EIO\<close>, and a new filter reaches no register.\<close>

theorem stop_is_final:
  assumes "ath9k_htc_stop env p s = Some (p', s')" and "test_op OP_INVALID (mp (sp p)) = Some False"
  shows "test_op OP_INVALID (mp (sp p')) = Some True \<and> power_mode (mp_pm (sp p')) = ATH9K_PM_FULL_SLEEP \<and> \<not> cleanup_armed p' \<and>
    ath9k_htc_stop env p' t = Some (p', t) \<and> ath9k_htc_set_channel env hchan p' t = Some (- EIO, p', t) \<and>
    ath9k_htc_configure_filter (ce_drv env) flags (sp p') t = Some (flags AND SUPPORTED_FILTERS, sp p', t)"
proof -
  have a: "test_op OP_INVALID (mp (sp p')) = Some True \<and> power_mode (mp_pm (sp p')) = ATH9K_PM_FULL_SLEEP \<and> \<not> cleanup_armed p'"
    using assms unfolding ath9k_htc_stop_def Let_def
    by (auto dest!: keeps_timer keeps_timer_ps(1,2) setpower_full_sleep set_op_test simp: log_calls_def
        split: Option.bind_splits if_splits)
  then show ?thesis by (simp add: ath9k_htc_stop_def ath9k_htc_set_channel_def ath9k_htc_configure_filter_def)
qed

text \<open>The last part of \<open>ath9k_htc_start\<close> returns the result of telling the target its capabilities, whatever it
  is, after it has marked the device valid and started the queues and the timer: an error makes mac80211 treat
  a running device as not started.\<close>

theorem start_error_running:
  assumes "ath9k_htc_update_cap_target (ce_drv env) 0 (sp p) s = Some (ret, s1)" and "clear_op OP_INVALID (mp (sp p)) = Some q"
    and "ce_start_btcoex env (ce_htc_start env s1) = Some s2"
  shows "\<exists>p'. start_running env p s = Some (ret, p', s2) \<and> test_op OP_INVALID (mp (sp p')) = Some False \<and> cleanup_armed p' \<and>
    start_trace p' = start_trace p @ [Mac Wake_queues]"
proof -
  have "test_op OP_INVALID q = Some False" using clear_op_test [OF assms(2)] by simp
  then show ?thesis
    using assms by (simp add: start_running_def log_calls_def set_base_def set_mp_def test_op_def)
qed

definition ex_mode :: ieee80211_conf where
  "ex_mode = \<lparr>conf_flags = 0, conf_channel = \<lparr>ch_band = BAND_2GHZ, ch_center_freq = 2412, ch_hw_value = 0\<rparr>,
     conf_channel_type = CHAN_NO_HT, power_level = 20\<rparr>"

definition ex_chan :: ath9k_channel where
  "ex_chan = \<lparr>ic_chan = conf_channel ex_mode, ic_channel = 2412, channelFlags = 0xc0, chanmode = CHANNEL_G\<rparr>"

definition ex_start :: start_priv where
  \<comment> \<open>a running device, awake, without power save\<close>
  "ex_start = \<lparr>sp = ex_main\<lparr>mp_pm := ex_pm\<lparr>power_mode := ATH9K_PM_AWAKE\<rparr>, ps_enabled := False\<rparr>, sp_rx = ex_rx, hw_conf = ex_mode,
     channels = [ex_chan], curtxpow = 40, txpowlimit = 40, power_limit = 40, max_power_level = 40,
     mib_stats = \<lparr>ackrcv_bad = 0, rts_bad = 0, rts_good = 0, fcs_bad = 0, beacons = 0\<rparr>, enable_ani = True,
     cleanup_armed = True, start_trace = []\<rparr>"

definition ex_chip :: "int \<Rightarrow> unit chip_env" where
  \<comment> \<open>a chip whose reset gives the result \<open>r\<close>\<close>
  "ex_chip r = \<lparr>ce_drv = ex_denv ex_exec, ce_reset = (\<lambda>_ _ _ ap s. Some (r, ap, s)), ce_set_txpowerlimit = (\<lambda>l s. Some ((l, l), s)),
     ce_ani_reset = (\<lambda>_. Some), ce_ani_monitor = Some, ce_calibrate = (\<lambda>_ s. Some (True, s)), ce_reset_calvalid = (\<lambda>s. Some (True, s)),
     ce_start_btcoex = Some, ce_stop_btcoex = Some, ce_phy_disable = (\<lambda>pm s. Some (pm, s)), ce_disable = (\<lambda>pm s. Some (pm, s)),
     ce_tx_drain = (\<lambda>b s. Some (b, s, [])), ce_htc_start = (\<lambda>s. s)\<rparr>"

lemma ex_chip_wmi [simp]: "drv_wmi (ce_drv (ex_chip r)) c b s = Some (0, s)"
  by (simp add: drv_wmi_def WMI_CMD_def ex_exec_def ex_denv_def ex_chip_def split: prod.splits)

lemma ex_chip_fields:
  "ce_stop_btcoex (ex_chip r) = Some" "ce_phy_disable (ex_chip r) = (\<lambda>pm s. Some (pm, s))" "ce_disable (ex_chip r) = (\<lambda>pm s. Some (pm, s))"
  by (simp_all add: ex_chip_def)

lemma ex_start_valid: "test_op OP_INVALID (mp (sp ex_start)) = Some False"
  by (simp add: ex_start_def ex_hp_def test_op_def test_bit_def)

lemma ex_wake:
  "sp_ps_wakeup (ex_chip r) ex_start s = Some (ex_start\<lparr>sp := (sp ex_start)\<lparr>ps_usecount := 1\<rparr>\<rparr>, s)"
  by (simp add: sp_ps_wakeup_def on_main_def ath9k_htc_ps_wakeup_def ath9k_htc_setpower_def ath9k_hw_setpower_def ex_start_def
      ex_main_def ex_pm_def)

theorem set_channel_timer_witness:
  "\<exists>p' s'. ath9k_htc_set_channel (ex_chip (- EIO)) ex_chan ex_start (ex_wmi, ()) = Some (- EIO, p', s') \<and> \<not> cleanup_armed p'"
proof -
  let ?e = "ex_chip (- EIO)"
  obtain p' s' where r: "ath9k_htc_set_channel ?e ex_chan ex_start (ex_wmi, ()) = Some (- EIO, p', s')"
    using ex_start_valid
    by (simp add: ath9k_htc_set_channel_def ex_wake set_channel_body_def quiesce_def sp_tx_drain_def halt_target_def chip_reset_def
        sp_ps_restore_def on_main_def ath9k_htc_ps_restore_def EIO_def log_calls_def)
      (simp add: ex_chip_def set_base_def set_ah_def set_mp_def ex_start_def ex_main_def)
  have "\<not> cleanup_armed p'" using set_channel_timer [OF r] ex_start_valid by (simp add: EIO_def)
  then show ?thesis using r by blast
qed

lemma ex_plain_run: "list_all plain_acc ps \<Longrightarrow> mwrite_cnt w = 0 \<Longrightarrow> REG_RUN (de_ops (ex_denv ex_exec)) ps (w, ()) = Some (w, ())"
proof (induction ps)
  case (Cons a ps)
  then show ?case
    by (cases a) (simp_all add: de_ops_def ex_denv_def htc_ops_def ath9k_regwrite_def ath9k_regwrite_single_def ath9k_reg_rmw_def
        ath9k_regread_def ex_exec_def get_be32_def)
qed simp

lemma ex_full_sleep:
  assumes "mwrite_cnt w = 0" and "htc_ah (mp (sp p)) = ex_hw" and "\<not> btcoex_enabled (mp_pm (sp p))"
  shows "\<exists>pm. sp_setpower (ex_chip r) ATH9K_PM_FULL_SLEEP p (w, ()) = Some (p\<lparr>sp := (sp p)\<lparr>mp_pm := pm\<rparr>\<rparr>, w, ())"
proof (cases "power_mode (mp_pm (sp p)) = ATH9K_PM_FULL_SLEEP")
  case True
  then show ?thesis
    by (intro exI [of _ "mp_pm (sp p)"]) (simp add: sp_setpower_def on_main_def ath9k_htc_setpower_def ath9k_hw_setpower_def)
next
  case False
  have c: "AR_SREV_9271 ex_hw" by (simp add: AR_SREV_9271_def ex_hw_def)
  have d: "ce_drv (ex_chip r) = ex_denv ex_exec" by (simp add: ex_chip_def)
  have "ath9k_set_power_sleep (de_ops (ex_denv ex_exec)) ex_hw (mp_pm (sp p)) (w, ()) = Some (w, ())"
    unfolding ath9k_set_power_sleep_def by (rule ex_plain_run) (use assms(1) c in \<open>simp_all add: chip_9271 [OF c] reg_macros\<close>)
  then show ?thesis
    using False assms(2,3)
    by (intro exI [of _ "(mp_pm (sp p))\<lparr>chip_fullsleep := True, power_mode := ATH9K_PM_FULL_SLEEP\<rparr>"])
      (simp add: sp_setpower_def on_main_def d ath9k_htc_setpower_def ath9k_hw_setpower_def ath9k_hw_mci_is_enabled_def)
qed

definition ex_running :: "start_priv \<Rightarrow> bool" where
  "ex_running p \<longleftrightarrow> htc_ah (mp (sp p)) = ex_hw \<and> \<not> btcoex_enabled (mp_pm (sp p)) \<and> \<not> ps_idle (sp p) \<and> \<not> ps_enabled (sp p) \<and>
     ps_usecount (sp p) = 1 \<and> length (op_flags (mp (sp p))) = 64"

lemma ex_running_steps:
  assumes "ex_running p"
  shows "\<exists>p1. sp_tx_drain (ex_chip r) p s = Some (p1, s) \<and> ex_running p1"
    and "\<exists>p1. sp_stop_ani p = Some p1 \<and> ex_running p1"
    and "sp_ps_restore (ex_chip r) p s = Some (p\<lparr>sp := (sp p)\<lparr>ps_usecount := 0\<rparr>\<rparr>, s)"
    and "\<exists>q. set_op OP_INVALID (mp (sp p)) = Some q"
  using assms
  by (auto simp: ex_running_def sp_tx_drain_def ex_chip_def log_calls_def set_base_def set_mp_def sp_stop_ani_def ath9k_htc_stop_ani_def
      clear_op_def set_op_def clear_bit_def set_bit_def sp_ps_restore_def on_main_def ath9k_htc_ps_restore_def trace_call_def)

lemma ex_running_cong:
  "ex_running p \<Longrightarrow> ex_running (log_calls cs p)" "ex_running p \<Longrightarrow> ex_running (p\<lparr>cleanup_armed := b\<rparr>)"
  "ex_running p \<Longrightarrow> ex_running (p\<lparr>sp := trace_call c (sp p)\<rparr>)"
  by (simp_all add: ex_running_def log_calls_def trace_call_def)

theorem stop_is_final_witness:
  "\<exists>p' s'. ath9k_htc_stop (ex_chip 0) ex_start (ex_wmi, ()) = Some (p', s') \<and> power_mode (mp_pm (sp p')) = ATH9K_PM_FULL_SLEEP \<and>
     ath9k_htc_set_channel (ex_chip 0) ex_chan p' s' = Some (- EIO, p', s')"
proof -
  let ?e = "ex_chip 0" and ?w = "fst (ath9k_wmi_event_drain ex_wmi)"
  define p0 where "p0 = ex_start\<lparr>sp := (sp ex_start)\<lparr>ps_usecount := 1\<rparr>\<rparr>"
  have r0: "ex_running p0" by (simp add: p0_def ex_running_def ex_start_def ex_hp_def ex_pm_def)
  obtain p1 where p1: "sp_tx_drain ?e ((log_calls [Kill_rx_tasklet] p0)\<lparr>cleanup_armed := False\<rparr>) (ex_wmi, ()) = Some (p1, ex_wmi, ())"
    "ex_running p1"
    using ex_running_steps(1) [OF ex_running_cong(2) [OF ex_running_cong(1) [OF r0]]] by blast
  obtain p2 where p2: "sp_stop_ani (log_calls [Cancel_fatal_work, Cancel_led_work] (p1\<lparr>sp := trace_call Cancel_ps_work (sp p1)\<rparr>)) = Some p2"
    "ex_running p2"
    using ex_running_steps(2) [OF ex_running_cong(1) [OF ex_running_cong(3) [OF p1(2)]]] by blast
  have m: "\<not> ath_hw.is_monitoring (htc_ah (mp (sp p2)))" using p2(2) by (simp add: ex_running_def ex_hw_def)
  define p4 where "p4 = p2\<lparr>sp := (sp p2)\<lparr>ps_usecount := 0\<rparr>\<rparr>"
  have w: "mwrite_cnt ?w = 0" by (simp add: ath9k_wmi_event_drain_def ex_wmi_def)
  obtain pm where pm: "sp_setpower ?e ATH9K_PM_FULL_SLEEP p4 (?w, ()) = Some (p4\<lparr>sp := (sp p4)\<lparr>mp_pm := pm\<rparr>\<rparr>, ?w, ())"
    using ex_full_sleep [OF w, of p4 0] p2(2) by (auto simp: p4_def ex_running_def)
  obtain q where q: "set_op OP_INVALID (mp (sp p2)) = Some q" using ex_running_steps(4) [OF p2(2)] by blast
  have q4: "mp (sp p4) = mp (sp p2)" by (simp add: p4_def)
  have res: "sp_ps_restore ?e p2 (?w, ()) = Some (p4, ?w, ())" unfolding p4_def by (rule ex_running_steps(3) [OF p2(2)])
  have "\<exists>p' s'. ath9k_htc_stop ?e ex_start (ex_wmi, ()) = Some (p', s')"
    using ex_start_valid p1(1) p2(1) m res pm q q4
    by (simp add: ath9k_htc_stop_def ex_wake p0_def [symmetric] halt_target_def sp_event_drain_def ex_chip_fields)
  then obtain p' s' where r: "ath9k_htc_stop ?e ex_start (ex_wmi, ()) = Some (p', s')" by blast
  show ?thesis using r stop_is_final [OF r ex_start_valid, of s' ex_chan] by blast
qed

end
