(* ===== verification/Hif_Usb_Init.thy ===== *)
theory Hif_Usb_Init
  imports Hif_Usb_Tx
begin

text \<open>
  Setting up and tearing down the USB transport: the rest of \<open>ath9k/hif_usb.c\<close>. Buffers and URBs of
  the three directions, firmware download, the probe and its asynchronous second half, disconnect,
  suspend and resume.

  Kernel objects live in an explicit heap: freeing one that is not live, or dropping a reference
  that is not held, is the result \<open>None\<close>. An URB has a count of references and the buffer of its
  context. Which allocations and submissions succeed is decided by \<open>kernel_env\<close>, so a theorem for every
  environment covers every error path. Killing an anchored URB runs its callback, which for both receive
  pipes frees the buffer.
\<close>

section \<open>Kernel objects\<close>

datatype kobj =
    K_mem
  | K_skb
  | K_urb nat "nat option"

record kheap =
  kh_next :: nat
  kh_obj :: "nat \<rightharpoonup> kobj"
  kh_submits :: nat

record kernel_env =
  \<comment> \<open>whether the allocation with a number succeeds, what the submission with a number returns, and the
      results of \<open>usb_control_msg\<close> and \<open>usb_bulk_msg\<close>\<close>
  ke_alloc :: "nat \<Rightarrow> bool"
  ke_submit :: "nat \<Rightarrow> int"
  ke_ctrl :: "nat \<Rightarrow> int"
  ke_bulk :: "u8 \<Rightarrow> bytes \<Rightarrow> int"

definition k_alloc :: "kernel_env \<Rightarrow> kobj \<Rightarrow> kheap \<Rightarrow> nat option \<times> kheap" where
  "k_alloc env ob h =
     (let n = kh_next h; h' = h\<lparr>kh_next := n + 1\<rparr> in
      if ke_alloc env n then (Some n, h'\<lparr>kh_obj := (kh_obj h)(n \<mapsto> ob)\<rparr>) else (None, h'))"

definition k_free :: "nat \<Rightarrow> kheap \<Rightarrow> kheap option" where
  \<comment> \<open>\<open>kfree\<close> and \<open>kfree_skb\<close>\<close>
  "k_free n h = (if kh_obj h n = Some K_mem \<or> kh_obj h n = Some K_skb
     then Some (h\<lparr>kh_obj := (kh_obj h)(n := None)\<rparr>) else None)"

definition usb_free_urb :: "nat \<Rightarrow> kheap \<Rightarrow> kheap option" where
  \<comment> \<open>drops a reference\<close>
  "usb_free_urb u h = (case kh_obj h u of
       Some (K_urb (Suc r) c) \<Rightarrow> Some (h\<lparr>kh_obj := (kh_obj h)(u := if r = 0 then None else Some (K_urb r c))\<rparr>)
     | _ \<Rightarrow> None)"

definition usb_get_urb :: "nat \<Rightarrow> kheap \<Rightarrow> kheap option" where
  "usb_get_urb u h = (case kh_obj h u of
       Some (K_urb (Suc r) c) \<Rightarrow> Some (h\<lparr>kh_obj := (kh_obj h)(u \<mapsto> K_urb (Suc (Suc r)) c)\<rparr>)
     | _ \<Rightarrow> None)"

definition usb_fill_bulk_urb :: "nat \<Rightarrow> nat \<Rightarrow> kheap \<Rightarrow> kheap option" where
  "usb_fill_bulk_urb u skb h = (case kh_obj h u of
       Some (K_urb r c) \<Rightarrow> Some (h\<lparr>kh_obj := (kh_obj h)(u \<mapsto> K_urb r (Some skb))\<rparr>)
     | _ \<Rightarrow> None)"

definition usb_submit_urb :: "kernel_env \<Rightarrow> kheap \<Rightarrow> int \<times> kheap" where
  "usb_submit_urb env h = (ke_submit env (kh_submits h), h\<lparr>kh_submits := kh_submits h + 1\<rparr>)"

fun usb_kill_anchored_urbs :: "nat list \<Rightarrow> kheap \<Rightarrow> kheap option" where
  \<comment> \<open>the anchored URBs, the last one first; the callback with status \<open>-ENOENT\<close> frees the buffer in the
      context, and the anchor drops its reference\<close>
  "usb_kill_anchored_urbs [] h = Some h"
| "usb_kill_anchored_urbs (u # us) h = (case kh_obj h u of
       Some (K_urb r c) \<Rightarrow> do {
         h \<leftarrow> (case c of None \<Rightarrow> Some h | Some skb \<Rightarrow> k_free skb h);
         h \<leftarrow> usb_free_urb u h;
         usb_kill_anchored_urbs us h }
     | _ \<Rightarrow> None)"

section \<open>Receive buffers\<close>

abbreviation (input) MAX_RX_URB_NUM :: nat where "MAX_RX_URB_NUM \<equiv> 8"
abbreviation (input) MAX_REG_IN_URB_NUM :: nat where "MAX_REG_IN_URB_NUM \<equiv> 64"

fun alloc_in_loop :: "kernel_env \<Rightarrow> nat \<Rightarrow> nat list \<Rightarrow> kheap \<Rightarrow> (int \<times> nat list \<times> kheap) option" where
  \<comment> \<open>the loops of \<open>ath9k_hif_usb_alloc_rx_urbs\<close> and \<open>ath9k_hif_usb_alloc_reg_in_urbs\<close>; the anchor has its
      last URB first\<close>
  "alloc_in_loop env 0 anchor h = Some (0, anchor, h)"
| "alloc_in_loop env (Suc n) anchor h = (case k_alloc env (K_urb 1 None) h of
       (None, h) \<Rightarrow> Some (- ENOMEM, anchor, h)
     | (Some u, h) \<Rightarrow> (case k_alloc env K_skb h of
           (None, h) \<Rightarrow> do {
             h \<leftarrow> usb_free_urb u h;
             Some (- ENOMEM, anchor, h) }
         | (Some skb, h) \<Rightarrow> do {
             h \<leftarrow> usb_fill_bulk_urb u skb h;
             h \<leftarrow> usb_get_urb u h;
             let (ret, h) = usb_submit_urb env h;
             if ret \<noteq> 0 then do {
               h \<leftarrow> usb_free_urb u h;
               h \<leftarrow> k_free skb h;
               h \<leftarrow> usb_free_urb u h;
               Some (ret, anchor, h) }
             else do {
               h \<leftarrow> usb_free_urb u h;
               alloc_in_loop env n (u # anchor) h } }))"

definition alloc_in_urbs :: "kernel_env \<Rightarrow> nat \<Rightarrow> kheap \<Rightarrow> (int \<times> nat list \<times> kheap) option" where
  "alloc_in_urbs env n h = do {
     (ret, anchor, h) \<leftarrow> alloc_in_loop env n [] h;
     if ret \<noteq> 0 then do {
       h \<leftarrow> usb_kill_anchored_urbs anchor h;
       Some (ret, [], h) }
     else Some (0, anchor, h) }"

record hif_alloc =
  al_heap :: kheap
  al_dev :: hif_device_usb
  rx_submitted :: "nat list"
  reg_in_submitted :: "nat list"
  tx_mem :: "nat \<Rightarrow> nat \<times> nat"

definition ath9k_hif_usb_alloc_rx_urbs :: "kernel_env \<Rightarrow> hif_alloc \<Rightarrow> (int \<times> hif_alloc) option" where
  "ath9k_hif_usb_alloc_rx_urbs env p = do {
     (ret, anchor, h) \<leftarrow> alloc_in_urbs env MAX_RX_URB_NUM (al_heap p);
     Some (ret, p\<lparr>al_heap := h, rx_submitted := anchor\<rparr>) }"

definition ath9k_hif_usb_alloc_reg_in_urbs :: "kernel_env \<Rightarrow> hif_alloc \<Rightarrow> (int \<times> hif_alloc) option" where
  "ath9k_hif_usb_alloc_reg_in_urbs env p = do {
     (ret, anchor, h) \<leftarrow> alloc_in_urbs env MAX_REG_IN_URB_NUM (al_heap p);
     Some (ret, p\<lparr>al_heap := h, reg_in_submitted := anchor\<rparr>) }"

definition ath9k_hif_usb_dealloc_rx_urbs :: "hif_alloc \<Rightarrow> hif_alloc option" where
  "ath9k_hif_usb_dealloc_rx_urbs p = do {
     h \<leftarrow> usb_kill_anchored_urbs (rx_submitted p) (al_heap p);
     Some (p\<lparr>al_heap := h, rx_submitted := []\<rparr>) }"

definition ath9k_hif_usb_dealloc_reg_in_urbs :: "hif_alloc \<Rightarrow> hif_alloc option" where
  "ath9k_hif_usb_dealloc_reg_in_urbs p = do {
     h \<leftarrow> usb_kill_anchored_urbs (reg_in_submitted p) (al_heap p);
     Some (p\<lparr>al_heap := h, reg_in_submitted := []\<rparr>) }"

section \<open>Transmit buffers\<close>

definition free_tx_buf :: "(nat \<Rightarrow> nat \<times> nat) \<Rightarrow> nat \<Rightarrow> kheap \<Rightarrow> kheap option" where
  \<comment> \<open>the URB, the data and the structure of a buffer\<close>
  "free_tx_buf mem k h = do {
     h \<leftarrow> usb_free_urb (snd (mem k)) h;
     h \<leftarrow> k_free (fst (mem k)) h;
     k_free k h }"

fun free_tx_bufs :: "(nat \<Rightarrow> nat \<times> nat) \<Rightarrow> nat list \<Rightarrow> kheap \<Rightarrow> kheap option" where
  "free_tx_bufs mem [] h = Some h"
| "free_tx_bufs mem (k # ks) h = do { h \<leftarrow> free_tx_buf mem k h; free_tx_bufs mem ks h }"

fun dealloc_pending ::
  "(nat \<Rightarrow> usb_answer) \<Rightarrow> (nat \<Rightarrow> nat \<times> nat) \<Rightarrow> nat list \<Rightarrow> htc_target \<Rightarrow> hif_device_usb \<Rightarrow> kheap \<Rightarrow>
     (htc_target \<times> hif_device_usb \<times> kheap \<times> htc_upcall list) option" where
  \<comment> \<open>the second loop: each pending URB is killed, taken off the list and freed\<close>
  "dealloc_pending answer mem [] t d h = Some (t, d, h, [])"
| "dealloc_pending answer mem (k # ks) t d h = do {
     (t, d, us) \<leftarrow> hif_usb_tx_cb answer (- ENOENT) k t d;
     let d = d\<lparr>dev_tx := (dev_tx d)\<lparr>tx_pending := filter (\<lambda>b. tb_id b \<noteq> k) (tx_pending (dev_tx d))\<rparr>\<rparr>;
     h \<leftarrow> free_tx_buf mem k h;
     (t, d, h, vs) \<leftarrow> dealloc_pending answer mem ks t d h;
     Some (t, d, h, us @ vs) }"

definition ath9k_hif_usb_dealloc_tx_urbs ::
  "(nat \<Rightarrow> usb_answer) \<Rightarrow> htc_target \<Rightarrow> hif_alloc \<Rightarrow> (htc_target \<times> hif_alloc \<times> htc_upcall list) option" where
  \<comment> \<open>killing the idle URBs of the free buffers does nothing\<close>
  "ath9k_hif_usb_dealloc_tx_urbs answer t p = do {
     let d = al_dev p;
     h \<leftarrow> free_tx_bufs (tx_mem p) (map tb_id (tx_buf_free (dev_tx d))) (al_heap p);
     let d = d\<lparr>dev_tx := (dev_tx d)\<lparr>tx_buf_free := [], tx_flags := tx_flags (dev_tx d) OR HIF_USB_TX_FLUSH\<rparr>\<rparr>;
     (t, d, h, us) \<leftarrow> dealloc_pending answer (tx_mem p) (map tb_id (tx_pending (dev_tx d))) t d h;
     (t, d, vs) \<leftarrow> kill_mgmt_urbs (length (mgmt_submitted d)) t d;
     Some (t, p\<lparr>al_heap := h, al_dev := d\<rparr>, us @ vs) }"

definition fresh_tx_buf :: "nat \<Rightarrow> tx_buf" where
  "fresh_tx_buf k = \<lparr>tb_id = k, tb_buf = replicate MAX_TX_BUF_SIZE 0, tb_len = 0, tb_offset = 0, tb_skb_queue = []\<rparr>"

fun alloc_tx_loop :: "kernel_env \<Rightarrow> nat \<Rightarrow> hif_alloc \<Rightarrow> (bool \<times> hif_alloc) option" where
  \<comment> \<open>whether all buffers were allocated; the partial one of the failing round is freed\<close>
  "alloc_tx_loop env 0 p = Some (True, p)"
| "alloc_tx_loop env (Suc n) p = (case k_alloc env K_mem (al_heap p) of
       (None, h) \<Rightarrow> Some (False, p\<lparr>al_heap := h\<rparr>)
     | (Some k, h) \<Rightarrow> (case k_alloc env K_mem h of
           (None, h) \<Rightarrow> do {
             h \<leftarrow> k_free k h;
             Some (False, p\<lparr>al_heap := h\<rparr>) }
         | (Some b, h) \<Rightarrow> (case k_alloc env (K_urb 1 None) h of
               (None, h) \<Rightarrow> do {
                 h \<leftarrow> k_free b h;
                 h \<leftarrow> k_free k h;
                 Some (False, p\<lparr>al_heap := h\<rparr>) }
             | (Some u, h) \<Rightarrow>
                 (let x = dev_tx (al_dev p) in
                  alloc_tx_loop env n (p\<lparr>al_heap := h, tx_mem := (tx_mem p)(k := (b, u)),
                    al_dev := (al_dev p)\<lparr>dev_tx := x\<lparr>tx_buf_free := tx_buf_free x @ [fresh_tx_buf k]\<rparr>\<rparr>\<rparr>)))))"

definition ath9k_hif_usb_alloc_tx_urbs ::
  "kernel_env \<Rightarrow> (nat \<Rightarrow> usb_answer) \<Rightarrow> htc_target \<Rightarrow> hif_alloc \<Rightarrow> (int \<times> htc_target \<times> hif_alloc \<times> htc_upcall list) option" where
  "ath9k_hif_usb_alloc_tx_urbs env answer t p = do {
     let d = al_dev p;
     let d = d\<lparr>dev_tx := (dev_tx d)\<lparr>tx_buf_free := [], tx_pending := [], tx_skb_queue := []\<rparr>, mgmt_submitted := []\<rparr>;
     (ok, p) \<leftarrow> alloc_tx_loop env MAX_TX_URB_NUM (p\<lparr>al_dev := d\<rparr>);
     if ok then
       (let d = al_dev p in Some (0, t, p\<lparr>al_dev := d\<lparr>dev_tx := (dev_tx d)\<lparr>tx_buf_cnt := 8\<rparr>\<rparr>\<rparr>, []))
     else do {
       (t, p, us) \<leftarrow> ath9k_hif_usb_dealloc_tx_urbs answer t p;
       Some (- ENOMEM, t, p, us) } }"

section \<open>All directions\<close>

definition ath9k_hif_usb_alloc_urbs ::
  "kernel_env \<Rightarrow> (nat \<Rightarrow> usb_answer) \<Rightarrow> htc_target \<Rightarrow> hif_alloc \<Rightarrow> (int \<times> htc_target \<times> hif_alloc \<times> htc_upcall list) option" where
  "ath9k_hif_usb_alloc_urbs env answer t p = do {
     (ret, t, p, us) \<leftarrow> ath9k_hif_usb_alloc_tx_urbs env answer t (p\<lparr>al_dev := (al_dev p)\<lparr>regout_submitted := []\<rparr>\<rparr>);
     if ret < 0 then Some (- ENOMEM, t, p, us)
     else do {
       (ret, p) \<leftarrow> ath9k_hif_usb_alloc_rx_urbs env p;
       if ret < 0 then do {
         (t, p, vs) \<leftarrow> ath9k_hif_usb_dealloc_tx_urbs answer t p;
         Some (- ENOMEM, t, p, us @ vs) }
       else do {
         (ret, p) \<leftarrow> ath9k_hif_usb_alloc_reg_in_urbs env p;
         if ret < 0 then do {
           p \<leftarrow> ath9k_hif_usb_dealloc_rx_urbs p;
           (t, p, vs) \<leftarrow> ath9k_hif_usb_dealloc_tx_urbs answer t p;
           Some (- ENOMEM, t, p, us @ vs) }
         else Some (0, t, p, us) } } }"

fun kill_regout_urbs ::
  "nat \<Rightarrow> htc_target \<Rightarrow> hif_device_usb \<Rightarrow> (htc_target \<times> hif_device_usb \<times> htc_upcall list) option" where
  "kill_regout_urbs 0 t d = Some (t, d, [])"
| "kill_regout_urbs (Suc n) t d = do {
     (t, d, u) \<leftarrow> hif_usb_regout_cb (- ENOENT) n t d;
     (t, d, us) \<leftarrow> kill_regout_urbs n t d;
     Some (t, d, u @ us) }"

definition ath9k_hif_usb_dealloc_urbs ::
  "(nat \<Rightarrow> usb_answer) \<Rightarrow> htc_target \<Rightarrow> hif_alloc \<Rightarrow> (htc_target \<times> hif_alloc \<times> htc_upcall list) option" where
  "ath9k_hif_usb_dealloc_urbs answer t p = do {
     (t, d, us) \<leftarrow> kill_regout_urbs (length (regout_submitted (al_dev p))) t (al_dev p);
     p \<leftarrow> ath9k_hif_usb_dealloc_reg_in_urbs (p\<lparr>al_dev := d\<rparr>);
     (t, p, vs) \<leftarrow> ath9k_hif_usb_dealloc_tx_urbs answer t p;
     p \<leftarrow> ath9k_hif_usb_dealloc_rx_urbs p;
     Some (t, p, us @ vs) }"

section \<open>Firmware\<close>

abbreviation (input) AR9271_FIRMWARE :: u32 where "AR9271_FIRMWARE \<equiv> 0x501000"
abbreviation (input) AR9271_FIRMWARE_TEXT :: u32 where "AR9271_FIRMWARE_TEXT \<equiv> 0x903000"
abbreviation (input) AR7010_FIRMWARE_TEXT :: u32 where "AR7010_FIRMWARE_TEXT \<equiv> 0x906000"
abbreviation (input) FIRMWARE_DOWNLOAD :: u8 where "FIRMWARE_DOWNLOAD \<equiv> 0x30"
abbreviation (input) FIRMWARE_DOWNLOAD_COMP :: u8 where "FIRMWARE_DOWNLOAD_COMP \<equiv> 0x31"

datatype usb_device_kind = AR9280_USB | AR9287_USB | STORAGE_DEVICE | AR9271_USB

definition IS_AR7010_DEVICE :: "usb_device_kind \<Rightarrow> bool" where
  "IS_AR7010_DEVICE v \<longleftrightarrow> v = AR9280_USB \<or> v = AR9287_USB"

type_synonym ctrl_msg = "u8 \<times> u16 \<times> bytes"

function download_loop :: "kernel_env \<Rightarrow> nat \<Rightarrow> u32 \<Rightarrow> bytes \<Rightarrow> int \<times> ctrl_msg list" where
  \<comment> \<open>the result and the control messages; \<open>c\<close> numbers them; the address is passed as the 16 bit \<open>value\<close>\<close>
  "download_loop env c addr data =
     (if data = [] then (0, [])
      else
        (let transfer = min (length data) 4096; msg = (FIRMWARE_DOWNLOAD, ucast (drop_bit 8 addr), take transfer data);
             err = ke_ctrl env c in
         if err < 0 then (err, [msg])
         else (let (ret, msgs) = download_loop env (c + 1) (addr + word_of_nat transfer) (drop transfer data)
               in (ret, msg # msgs))))"
  by pat_completeness auto
termination
  by (relation "measure (\<lambda>(env, c, addr, data). length data)") auto

record hif_fw =
  \<comment> \<open>the parts of \<open>struct hif_device_usb\<close> for the firmware, with the messages sent on the control pipe and the
      bulk messages of the probe\<close>
  fh_alloc :: hif_alloc
  fh_target :: htc_target
  htc_handle :: "nat option"
  driver_info :: usb_device_kind
  fw_data :: bytes
  fw_done :: nat
  fw_held :: int
  endpoints :: "(u8 \<times> u8) list"
  ctrl_sent :: "ctrl_msg list"
  bulk_sent :: "(u8 \<times> bytes) list"
  fh_ups :: "htc_upcall list"
  released :: bool

definition ath9k_hif_usb_download_fw :: "kernel_env \<Rightarrow> hif_fw \<Rightarrow> (int \<times> hif_fw) option" where
  "ath9k_hif_usb_download_fw env p = (let a = fh_alloc p in
     case k_alloc env K_mem (al_heap a) of
       (None, h) \<Rightarrow> Some (- ENOMEM, p\<lparr>fh_alloc := a\<lparr>al_heap := h\<rparr>\<rparr>)
     | (Some buf, h) \<Rightarrow> do {
         let (err, msgs) = download_loop env (length (ctrl_sent p)) AR9271_FIRMWARE (fw_data p);
         h \<leftarrow> k_free buf h;
         let p = p\<lparr>fh_alloc := a\<lparr>al_heap := h\<rparr>, ctrl_sent := ctrl_sent p @ msgs\<rparr>;
         if err < 0 then Some (err, p)
         else
           (let firm_offset = (if IS_AR7010_DEVICE (driver_info p) then AR7010_FIRMWARE_TEXT else AR9271_FIRMWARE_TEXT);
                err = ke_ctrl env (length (ctrl_sent p));
                p = p\<lparr>ctrl_sent := ctrl_sent p @ [(FIRMWARE_DOWNLOAD_COMP, ucast (drop_bit 8 firm_offset), [])]\<rparr>
            in if err \<noteq> 0 then Some (- EIO, p) else Some (0, p)) })"

definition patch_endpoint :: "u8 \<times> u8 \<Rightarrow> u8 \<times> u8" where
  \<comment> \<open>\<open>bmAttributes\<close> and \<open>bInterval\<close>: interrupt endpoints become bulk endpoints\<close>
  "patch_endpoint e = (if fst e AND 3 = 3 then ((fst e AND NOT 3) OR 2, 0) else e)"

definition ath9k_hif_usb_dev_init :: "kernel_env \<Rightarrow> (nat \<Rightarrow> usb_answer) \<Rightarrow> hif_fw \<Rightarrow> (int \<times> hif_fw) option" where
  "ath9k_hif_usb_dev_init env answer p = do {
     (ret, p) \<leftarrow> ath9k_hif_usb_download_fw env p;
     if ret \<noteq> 0 then Some (ret, p)
     else do {
       let p = p\<lparr>endpoints := map patch_endpoint (endpoints p)\<rparr>;
       (ret, t, a, us) \<leftarrow> ath9k_hif_usb_alloc_urbs env answer (fh_target p) (fh_alloc p);
       Some (ret, p\<lparr>fh_target := t, fh_alloc := a, fh_ups := fh_ups p @ us\<rparr>) } }"

definition ath9k_hif_usb_dev_deinit :: "(nat \<Rightarrow> usb_answer) \<Rightarrow> hif_fw \<Rightarrow> hif_fw option" where
  "ath9k_hif_usb_dev_deinit answer p = do {
     (t, a, us) \<leftarrow> ath9k_hif_usb_dealloc_urbs answer (fh_target p) (fh_alloc p);
     Some (p\<lparr>fh_target := t, fh_alloc := a, fh_ups := fh_ups p @ us\<rparr>) }"

definition free_htc :: "hif_fw \<Rightarrow> hif_fw option" where
  \<comment> \<open>\<open>ath9k_htc_hw_free\<close>; the pointer stays\<close>
  "free_htc p = (case htc_handle p of
       None \<Rightarrow> Some p
     | Some n \<Rightarrow> do {
         h \<leftarrow> k_free n (al_heap (fh_alloc p));
         Some (p\<lparr>fh_alloc := (fh_alloc p)\<lparr>al_heap := h\<rparr>\<rparr>) })"

definition ath9k_hif_usb_firmware_fail :: "hif_fw \<Rightarrow> hif_fw" where
  "ath9k_hif_usb_firmware_fail p = p\<lparr>fw_done := fw_done p + 1, released := True\<rparr>"

definition ath9k_hif_usb_firmware_cb ::
  "kernel_env \<Rightarrow> (nat \<Rightarrow> usb_answer) \<Rightarrow> (hif_fw \<Rightarrow> (int \<times> hif_fw) option) \<Rightarrow> bytes option \<Rightarrow> hif_fw \<Rightarrow> hif_fw option" where
  \<comment> \<open>\<open>probe\<close> is \<open>ath9k_htc_probe_device\<close>, reached through \<open>ath9k_htc_hw_init\<close>; the firmware, when there is
      one, is held until \<open>release_firmware\<close>\<close>
  "ath9k_hif_usb_firmware_cb env answer probe fw p = (case fw of
       None \<Rightarrow> Some (ath9k_hif_usb_firmware_fail p)
     | Some data \<Rightarrow> (case k_alloc env K_mem (al_heap (fh_alloc p)) of
           (None, h) \<Rightarrow> Some (ath9k_hif_usb_firmware_fail (p\<lparr>fh_alloc := (fh_alloc p)\<lparr>al_heap := h\<rparr>, htc_handle := None,
             fw_held := fw_held p - 1\<rparr>))
         | (Some n, h) \<Rightarrow> do {
             let p = p\<lparr>fh_alloc := (fh_alloc p)\<lparr>al_heap := h\<rparr>, htc_handle := Some n, fw_data := data\<rparr>;
             (ret, p) \<leftarrow> ath9k_hif_usb_dev_init env answer p;
             if ret \<noteq> 0 then do {
               p \<leftarrow> free_htc p;
               Some (ath9k_hif_usb_firmware_fail (p\<lparr>fw_held := fw_held p - 1\<rparr>)) }
             else do {
               (ret, p) \<leftarrow> probe p;
               if ret \<noteq> 0 then do {
                 p \<leftarrow> ath9k_hif_usb_dev_deinit answer p;
                 p \<leftarrow> free_htc p;
                 Some (ath9k_hif_usb_firmware_fail (p\<lparr>fw_held := fw_held p - 1\<rparr>)) }
               else
                 (let a = fh_alloc p; d = al_dev a in
                  Some (p\<lparr>fw_held := fw_held p - 1, fw_done := fw_done p + 1,
                          fh_alloc := a\<lparr>al_dev := d\<lparr>dev_flags := dev_flags d OR HIF_USB_READY\<rparr>\<rparr>\<rparr>)) } }))"

section \<open>Probe, disconnect, suspend and resume\<close>

fun bulk_out_ep :: "(u8 \<times> u8) list \<Rightarrow> nat \<Rightarrow> u8 option option" where
  \<comment> \<open>the loop from endpoint 1 down to 0: \<open>bEndpointAddress\<close> and \<open>bmAttributes\<close>; \<open>None\<close> is a read outside the array\<close>
  "bulk_out_ep eps 0 = Some None"
| "bulk_out_ep eps (Suc r) =
     (if r < length eps then
        (if fst (eps ! r) AND 0x80 = 0 \<and> snd (eps ! r) AND 3 = 2 then Some (Some (fst (eps ! r))) else bulk_out_ep eps r)
      else None)"

definition eject_cmd :: bytes where
  "eject_cmd = (replicate 31 0)[0 := 0x55, 1 := 0x53, 2 := 0x42, 3 := 0x43, 14 := 6, 15 := 0x1b, 19 := 2]"

definition send_eject_command :: "kernel_env \<Rightarrow> (u8 \<times> u8) list \<Rightarrow> kheap \<Rightarrow> (int \<times> (u8 \<times> bytes) list \<times> kheap) option" where
  \<comment> \<open>the result and the bulk messages sent\<close>
  "send_eject_command env eps h = do {
     ep \<leftarrow> bulk_out_ep eps 2;
     (case ep of
        None \<Rightarrow> Some (- ENODEV, [], h)
      | Some ep \<Rightarrow> (case k_alloc env K_mem h of
            (None, h) \<Rightarrow> Some (- ENODEV, [], h)
          | (Some cmd, h) \<Rightarrow> do {
              h \<leftarrow> k_free cmd h;
              Some (ke_bulk env ep eject_cmd, [(ep, eject_cmd)], h) })) }"

definition ath9k_hif_usb_probe ::
  "kernel_env \<Rightarrow> usb_device_kind \<Rightarrow> (u8 \<times> u8) list \<Rightarrow> int \<Rightarrow> kheap \<Rightarrow> (int \<times> nat option \<times> (u8 \<times> bytes) list \<times> kheap) option" where
  \<comment> \<open>the result, \<open>hif_dev\<close> when it is attached to the interface, and the bulk messages; \<open>req\<close> is the result of
      \<open>request_firmware_nowait\<close>, whose callback runs later\<close>
  "ath9k_hif_usb_probe env kind eps req h =
     (if kind = STORAGE_DEVICE then do {
        (ret, msgs, h) \<leftarrow> send_eject_command env eps h;
        Some (ret, None, msgs, h) }
      else (case k_alloc env K_mem h of
          (None, h) \<Rightarrow> Some (- ENOMEM, None, [], h)
        | (Some hif_dev, h) \<Rightarrow>
            if req \<noteq> 0 then do {
              h \<leftarrow> k_free hif_dev h;
              Some (req, None, [], h) }
            else Some (0, Some hif_dev, [], h)))"

definition ath9k_hif_usb_reboot :: "kernel_env \<Rightarrow> hif_fw \<Rightarrow> hif_fw option" where
  "ath9k_hif_usb_reboot env p = (case k_alloc env K_mem (al_heap (fh_alloc p)) of
       (None, h) \<Rightarrow> Some (p\<lparr>fh_alloc := (fh_alloc p)\<lparr>al_heap := h\<rparr>\<rparr>)
     | (Some buf, h) \<Rightarrow> do {
         h \<leftarrow> k_free buf h;
         Some (p\<lparr>fh_alloc := (fh_alloc p)\<lparr>al_heap := h\<rparr>, bulk_sent := bulk_sent p @ [(USB_REG_OUT_PIPE, [0xff, 0xff, 0xff, 0xff])]\<rparr>) })"

definition disconnect_htc :: "(hif_fw \<Rightarrow> hif_fw option) \<Rightarrow> hif_fw \<Rightarrow> hif_fw option" where
  \<comment> \<open>the first two calls for a device that is ready; \<open>deinit\<close> is \<open>ath9k_htc_disconnect_device\<close>\<close>
  "disconnect_htc deinit p = do {
     p \<leftarrow> (case htc_handle p of None \<Rightarrow> Some p | Some n \<Rightarrow> deinit p);
     free_htc p }"

definition ath9k_hif_usb_disconnect ::
  "kernel_env \<Rightarrow> (nat \<Rightarrow> usb_answer) \<Rightarrow> (hif_fw \<Rightarrow> hif_fw option) \<Rightarrow> bool \<Rightarrow> nat \<Rightarrow> hif_fw \<Rightarrow> hif_fw option" where
  \<comment> \<open>after \<open>fw_done\<close>; \<open>hif_dev\<close> is the structure itself\<close>
  "ath9k_hif_usb_disconnect env answer deinit unplugged hif_dev p = do {
     p \<leftarrow> (if has_flag (dev_flags (al_dev (fh_alloc p))) HIF_USB_READY then do {
             p \<leftarrow> disconnect_htc deinit p;
             ath9k_hif_usb_dev_deinit answer p }
           else Some p);
     p \<leftarrow> (if \<not> unplugged \<and> has_flag (dev_flags (al_dev (fh_alloc p))) HIF_USB_START
          then ath9k_hif_usb_reboot env p else Some p);
     h \<leftarrow> k_free hif_dev (al_heap (fh_alloc p));
     Some (p\<lparr>fh_alloc := (fh_alloc p)\<lparr>al_heap := h\<rparr>\<rparr>) }"

definition ath9k_hif_usb_suspend ::
  "(nat \<Rightarrow> usb_answer) \<Rightarrow> (hif_fw \<Rightarrow> hif_fw option) \<Rightarrow> hif_fw \<Rightarrow> hif_fw option" where
  \<comment> \<open>\<open>suspend\<close> is \<open>ath9k_htc_suspend\<close>, which reads the handle; before the firmware is loaded the lists of the
      transmit side are zero, not empty\<close>
  "ath9k_hif_usb_suspend answer suspend p = do {
     p \<leftarrow> (if \<not> has_flag (dev_flags (al_dev (fh_alloc p))) HIF_USB_START
          then (case htc_handle p of None \<Rightarrow> None | Some n \<Rightarrow> suspend p) else Some p);
     ath9k_hif_usb_dev_deinit answer p }"

definition resume_fw :: "kernel_env \<Rightarrow> (int \<times> bytes) \<Rightarrow> (hif_fw \<Rightarrow> (int \<times> hif_fw) option) \<Rightarrow> hif_fw \<Rightarrow> (int \<times> hif_fw) option" where
  \<comment> \<open>from \<open>request_firmware\<close>, with its result and the firmware, to \<open>ath9k_htc_resume\<close>\<close>
  "resume_fw env fw resume p =
     (if fst fw \<noteq> 0 then Some (fst fw, p)
      else do {
        (ret, p) \<leftarrow> ath9k_hif_usb_download_fw env (p\<lparr>fw_data := snd fw\<rparr>);
        if ret \<noteq> 0 then Some (ret, p) else resume p })"

definition ath9k_hif_usb_resume ::
  "kernel_env \<Rightarrow> (nat \<Rightarrow> usb_answer) \<Rightarrow> (int \<times> bytes) \<Rightarrow> (hif_fw \<Rightarrow> (int \<times> hif_fw) option) \<Rightarrow> hif_fw \<Rightarrow> (int \<times> hif_fw) option" where
  "ath9k_hif_usb_resume env answer fw resume p = do {
     (ret, t, a, us) \<leftarrow> ath9k_hif_usb_alloc_urbs env answer (fh_target p) (fh_alloc p);
     let p = p\<lparr>fh_target := t, fh_alloc := a, fh_ups := fh_ups p @ us\<rparr>;
     if ret \<noteq> 0 then Some (ret, p)
     else do {
       (ret, p) \<leftarrow> (if has_flag (dev_flags (al_dev (fh_alloc p))) HIF_USB_READY then resume_fw env fw resume p
                    else Some (- EIO, p));
       if ret \<noteq> 0 then do {
         p \<leftarrow> ath9k_hif_usb_dev_deinit answer p;
         Some (ret, p) }
       else Some (0, p) } }"

section \<open>Ownership\<close>

definition owns :: "(nat \<rightharpoonup> kobj) \<Rightarrow> nat set \<Rightarrow> kheap \<Rightarrow> bool" where
  \<comment> \<open>the heap is \<open>base\<close> with exactly the new objects in \<open>A\<close>\<close>
  "owns base A h \<longleftrightarrow> (\<forall>n. n \<notin> A \<longrightarrow> kh_obj h n = base n) \<and> (\<forall>n\<in>A. base n = None \<and> kh_obj h n \<noteq> None) \<and>
     (\<forall>n. kh_obj h n \<noteq> None \<longrightarrow> n < kh_next h)"

lemma owns_empty: "owns base {} h \<Longrightarrow> kh_obj h = base"
  by (auto simp: owns_def)

lemma owns_alloc:
  assumes "owns base A h" and "k_alloc env ob h = (r, h')"
  shows "case r of
      None \<Rightarrow> owns base A h' \<and> kh_obj h' = kh_obj h
    | Some n \<Rightarrow> n \<notin> A \<and> kh_obj h n = None \<and> owns base (insert n A) h' \<and> kh_obj h' = (kh_obj h)(n \<mapsto> ob)"
proof -
  have fresh: "kh_obj h (kh_next h) = None" using assms(1) by (auto simp: owns_def)
  then have "kh_next h \<notin> A" "base (kh_next h) = None" using assms(1) by (auto simp: owns_def)
  then show ?thesis
    using assms fresh by (auto simp: owns_def k_alloc_def Let_def less_Suc_eq split: if_splits)
qed

lemma owns_free:
  assumes "owns base A h" and "n \<in> A" and "kh_obj h n \<in> {Some K_mem, Some K_skb}"
  shows "\<exists>h'. k_free n h = Some h' \<and> owns base (A - {n}) h' \<and> kh_obj h' = (kh_obj h)(n := None)"
  using assms by (auto simp: owns_def k_free_def)

lemma owns_free_urb:
  assumes "owns base A h" and "u \<in> A" and "kh_obj h u = Some (K_urb (Suc r) c)"
  shows "\<exists>h'. usb_free_urb u h = Some h' \<and> owns base (if r = 0 then A - {u} else A) h' \<and>
    kh_obj h' = (kh_obj h)(u := if r = 0 then None else Some (K_urb r c))"
  using assms by (auto simp: owns_def usb_free_urb_def)

definition in_ids :: "(nat \<times> nat) list \<Rightarrow> nat list" where
  "in_ids us = concat (map (\<lambda>(u, k). [u, k]) us)"

lemma in_ids_simps [simp]: "in_ids [] = []" "in_ids ((u, k) # us) = u # k # in_ids us"
  by (simp_all add: in_ids_def)

definition anchored :: "(nat \<times> nat) list \<Rightarrow> kheap \<Rightarrow> bool" where
  \<comment> \<open>submitted URBs, each with one reference and a buffer of its own\<close>
  "anchored us h \<longleftrightarrow> distinct (in_ids us) \<and>
     (\<forall>(u, k)\<in>set us. kh_obj h u = Some (K_urb 1 (Some k)) \<and> kh_obj h k = Some K_skb)"

lemma set_in_ids: "set (in_ids us) = fst ` set us \<union> snd ` set us"
  by (force simp: in_ids_def)

lemma anchored_cong:
  "anchored us h \<Longrightarrow> (\<And>n. n \<in> set (in_ids us) \<Longrightarrow> kh_obj h' n = kh_obj h n) \<Longrightarrow> anchored us h'"
  unfolding anchored_def set_in_ids by fastforce

lemma kill_anchored:
  assumes "owns base A h" and "anchored us h" and "set (in_ids us) \<subseteq> A"
  shows "\<exists>h'. usb_kill_anchored_urbs (map fst us) h = Some h' \<and> owns base (A - set (in_ids us)) h' \<and>
    (\<forall>n. n \<notin> set (in_ids us) \<longrightarrow> kh_obj h' n = kh_obj h n)"
  using assms
proof (induction us arbitrary: A h)
  case (Cons x us)
  obtain u k where x: "x = (u, k)" by (cases x)
  have o: "kh_obj h u = Some (K_urb 1 (Some k))" "kh_obj h k = Some K_skb" "u \<noteq> k" "u \<in> A" "k \<in> A"
    "u \<notin> set (in_ids us)" "k \<notin> set (in_ids us)"
    using Cons.prems(2,3) by (auto simp: x anchored_def)
  obtain h1 where h1: "k_free k h = Some h1" "owns base (A - {k}) h1" "kh_obj h1 = (kh_obj h)(k := None)"
    using owns_free [OF Cons.prems(1) o(5)] o(2) by auto
  obtain h2 where h2: "usb_free_urb u h1 = Some h2" "owns base (A - {k} - {u}) h2" "kh_obj h2 = (kh_obj h1)(u := None)"
    using owns_free_urb [OF h1(2), of u 0 "Some k"] h1(3) o by auto
  have "anchored us h" using Cons.prems(2) by (auto simp: x anchored_def)
  then have a: "anchored us h2" by (rule anchored_cong) (use h1(3) h2(3) o(6,7) in auto)
  have s: "set (in_ids us) \<subseteq> A - {k} - {u}" using Cons.prems(3) o(6,7) by (auto simp: x)
  obtain h' where h': "usb_kill_anchored_urbs (map fst us) h2 = Some h'" "owns base (A - {k} - {u} - set (in_ids us)) h'"
    "\<forall>n. n \<notin> set (in_ids us) \<longrightarrow> kh_obj h' n = kh_obj h2 n"
    using Cons.IH [OF h2(2) a s] by blast
  have "A - {k} - {u} - set (in_ids us) = A - set (in_ids (x # us))" by (auto simp: x)
  then show ?case using h'(1-3) h1 h2 o(1) by (auto simp: x)
qed auto

lemma alloc_in_round:
  assumes own: "owns base A h" and sub: "\<forall>i. ke_submit env i \<le> 0"
  shows "(\<exists>ret h'. alloc_in_loop env (Suc n) anchor h = Some (ret, anchor, h') \<and> ret < 0 \<and> owns base A h' \<and> kh_obj h' = kh_obj h) \<or>
    (\<exists>u k h'. alloc_in_loop env (Suc n) anchor h = alloc_in_loop env n (u # anchor) h' \<and> u \<noteq> k \<and> u \<notin> A \<and> k \<notin> A \<and>
       owns base (insert u (insert k A)) h' \<and> kh_obj h' = (kh_obj h)(u \<mapsto> K_urb 1 (Some k), k \<mapsto> K_skb))"
proof -
  let ?u = "kh_next h" and ?k = "Suc (kh_next h)" and ?e = "ke_submit env (kh_submits h)"
  have lt: "kh_obj h m \<noteq> None \<Longrightarrow> m < kh_next h" for m using own by (auto simp: owns_def)
  have n: "kh_obj h ?u = None" "kh_obj h ?k = None" using lt [of ?u] lt [of ?k] by (cases "kh_obj h ?u"; cases "kh_obj h ?k"; simp)+
  then have "?u \<notin> A" "?k \<notin> A" using own unfolding owns_def by metis+
  moreover from this n have "base ?u = None" "base ?k = None" using own unfolding owns_def by metis+
  ultimately have f: "kh_obj h ?u = None" "kh_obj h ?k = None" "?u \<notin> A" "?k \<notin> A" "base ?u = None" "base ?k = None"
    using n by auto
  have idem: "(kh_obj h)(?u := None) = kh_obj h" "(kh_obj h)(?u := None, ?k := None) = kh_obj h"
    "(kh_obj h)(?k := None, ?u := None) = kh_obj h" using f by (auto simp: fun_eq_iff)
  have e: "?e < 0" if "?e \<noteq> 0" using sub that by (metis order_le_less)
  consider "\<not> ke_alloc env ?u" | "ke_alloc env ?u" "\<not> ke_alloc env ?k" | "ke_alloc env ?u" "ke_alloc env ?k" "?e \<noteq> 0"
    | "ke_alloc env ?u" "ke_alloc env ?k" "?e = 0" by blast
  then show ?thesis
  proof cases
    case 1
    then show ?thesis using own by (auto simp: k_alloc_def Let_def ENOMEM_def owns_def less_Suc_eq)
  next
    case 2
    then show ?thesis
      using own idem by (auto simp: k_alloc_def Let_def ENOMEM_def owns_def usb_free_urb_def less_Suc_eq)
  next
    case 3
    then show ?thesis
      using own idem e
      by (auto simp: k_alloc_def Let_def owns_def usb_free_urb_def usb_fill_bulk_urb_def usb_get_urb_def usb_submit_urb_def k_free_def
          less_Suc_eq fun_upd_twist [of ?u ?k])
  next
    case 4
    define h' where "h' = h\<lparr>kh_next := Suc ?k, kh_submits := Suc (kh_submits h), kh_obj := (kh_obj h)(?u \<mapsto> K_urb 1 (Some ?k), ?k \<mapsto> K_skb)\<rparr>"
    have "alloc_in_loop env (Suc n) anchor h = alloc_in_loop env n (?u # anchor) h'"
      using 4 by (simp add: k_alloc_def Let_def usb_free_urb_def usb_fill_bulk_urb_def usb_get_urb_def usb_submit_urb_def h'_def
          fun_upd_twist [of ?u ?k])
    moreover have "owns base (insert ?u (insert ?k A)) h'"
      using own f lt by (auto simp: owns_def h'_def less_Suc_eq)
    moreover have "kh_obj h' = (kh_obj h)(?u \<mapsto> K_urb 1 (Some ?k), ?k \<mapsto> K_skb)" by (simp add: h'_def)
    ultimately show ?thesis using f(3,4) by (metis n_not_Suc_n)
  qed
qed

lemma in_ids_append [simp]: "in_ids (us @ vs) = in_ids us @ in_ids vs"
  by (simp add: in_ids_def)

lemma alloc_in_loop_owned:
  assumes "owns base A h" and "anchored us h" and "set (in_ids us) \<subseteq> A" and "\<forall>i. ke_submit env i \<le> 0"
  shows "\<exists>ret vs h'. alloc_in_loop env n (map fst us) h = Some (ret, map fst (vs @ us), h') \<and>
    (ret < 0 \<or> ret = 0 \<and> length vs = n) \<and> owns base (A \<union> set (in_ids vs)) h' \<and> anchored (vs @ us) h' \<and>
    set (in_ids vs) \<inter> A = {} \<and> (\<forall>m. m \<notin> set (in_ids vs) \<longrightarrow> kh_obj h' m = kh_obj h m)"
  using assms(1-3)
proof (induction n arbitrary: us A h)
  case 0
  then show ?case by (intro exI [of _ 0] exI [of _ "[]"]) auto
next
  case (Suc n)
  from alloc_in_round [OF Suc.prems(1) assms(4), of n "map fst us"] show ?case
  proof (elim disjE exE conjE)
    fix ret h'
    assume r: "alloc_in_loop env (Suc n) (map fst us) h = Some (ret, map fst us, h')" "ret < 0" "owns base A h'" "kh_obj h' = kh_obj h"
    from Suc.prems(2) have "anchored us h'" by (rule anchored_cong) (simp add: r(4))
    then show ?thesis using r by (intro exI [of _ ret] exI [of _ "[]"] exI [of _ h']) auto
  next
    fix u k h1
    assume r: "alloc_in_loop env (Suc n) (map fst us) h = alloc_in_loop env n (u # map fst us) h1" "u \<noteq> k" "u \<notin> A" "k \<notin> A"
      "owns base (insert u (insert k A)) h1" "kh_obj h1 = (kh_obj h)(u \<mapsto> K_urb 1 (Some k), k \<mapsto> K_skb)"
    from Suc.prems(2) have "anchored us h1" by (rule anchored_cong) (use Suc.prems(3) r(3,4,6) in auto)
    then have a: "anchored ((u, k) # us) h1" using r Suc.prems(3) by (auto simp: anchored_def)
    have s: "set (in_ids ((u, k) # us)) \<subseteq> insert u (insert k A)" using Suc.prems(3) by auto
    obtain ret vs h' where q: "alloc_in_loop env n (map fst ((u, k) # us)) h1 = Some (ret, map fst (vs @ (u, k) # us), h')"
      "ret < 0 \<or> ret = 0 \<and> length vs = n" "owns base (insert u (insert k A) \<union> set (in_ids vs)) h'"
      "anchored (vs @ (u, k) # us) h'" "set (in_ids vs) \<inter> insert u (insert k A) = {}"
      "\<forall>m. m \<notin> set (in_ids vs) \<longrightarrow> kh_obj h' m = kh_obj h1 m"
      using Suc.IH [OF r(5) a s] by blast
    have "A \<union> set (in_ids (vs @ [(u, k)])) = insert u (insert k A) \<union> set (in_ids vs)" by auto
    then show ?thesis
      using q r(1,3,4,6) by (intro exI [of _ ret] exI [of _ "vs @ [(u, k)]"] exI [of _ h']) auto
  qed
qed

lemma alloc_in_urbs_owned:
  assumes "owns base A h" and "\<forall>i. ke_submit env i \<le> 0"
  shows "\<exists>ret us h'. alloc_in_urbs env n h = Some (ret, map fst us, h') \<and> (ret < 0 \<and> us = [] \<or> ret = 0 \<and> length us = n) \<and>
    owns base (A \<union> set (in_ids us)) h' \<and> anchored us h' \<and> set (in_ids us) \<inter> A = {} \<and>
    (\<forall>m. m \<notin> set (in_ids us) \<longrightarrow> kh_obj h' m = kh_obj h m)"
proof -
  have "anchored [] h" by (simp add: anchored_def)
  then obtain ret vs h1 where q: "alloc_in_loop env n [] h = Some (ret, map fst vs, h1)" "ret < 0 \<or> ret = 0 \<and> length vs = n"
    "owns base (A \<union> set (in_ids vs)) h1" "anchored vs h1" "set (in_ids vs) \<inter> A = {}"
    "\<forall>m. m \<notin> set (in_ids vs) \<longrightarrow> kh_obj h1 m = kh_obj h m"
    using alloc_in_loop_owned [OF assms(1) _ _ assms(2), of "[]" n] by auto
  show ?thesis
  proof (cases "ret = 0")
    case True
    then show ?thesis using q by (intro exI [of _ 0] exI [of _ vs] exI [of _ h1]) (auto simp: alloc_in_urbs_def)
  next
    case False
    obtain h2 where k: "usb_kill_anchored_urbs (map fst vs) h1 = Some h2" "owns base (A \<union> set (in_ids vs) - set (in_ids vs)) h2"
      "\<forall>m. m \<notin> set (in_ids vs) \<longrightarrow> kh_obj h2 m = kh_obj h1 m"
      using kill_anchored [OF q(3,4)] by auto
    have s: "A \<union> set (in_ids vs) - set (in_ids vs) = A" using q(5) by auto
    have "kh_obj h2 m = kh_obj h m" for m
    proof (cases "m \<in> set (in_ids vs)")
      case True
      then have "m \<notin> A" using q(5) by auto
      then show ?thesis using k(2) assms(1) s by (simp add: owns_def)
    qed (use k(3) q(6) in simp)
    then show ?thesis
      using False q(1,2) k(1,2) s
      by (intro exI [of _ ret] exI [of _ "[]"] exI [of _ h2]) (auto simp: alloc_in_urbs_def anchored_def)
  qed
qed

definition tx_ids :: "(nat \<Rightarrow> nat \<times> nat) \<Rightarrow> nat list \<Rightarrow> nat list" where
  "tx_ids mem ks = concat (map (\<lambda>k. [k, fst (mem k), snd (mem k)]) ks)"

lemma tx_ids_simps [simp]:
  "tx_ids mem [] = []" "tx_ids mem (k # ks) = k # fst (mem k) # snd (mem k) # tx_ids mem ks"
  "tx_ids mem (ks @ ls) = tx_ids mem ks @ tx_ids mem ls"
  by (simp_all add: tx_ids_def)

lemma set_tx_ids: "set (tx_ids mem ks) = (\<Union>k\<in>set ks. {k, fst (mem k), snd (mem k)})"
  by (induction ks) auto

lemma tx_ids_cong: "(\<And>k. k \<in> set ks \<Longrightarrow> mem' k = mem k) \<Longrightarrow> tx_ids mem' ks = tx_ids mem ks"
  by (induction ks) auto

definition tx_owned :: "(nat \<Rightarrow> nat \<times> nat) \<Rightarrow> nat list \<Rightarrow> kheap \<Rightarrow> bool" where
  \<comment> \<open>buffers with a structure, data and an idle URB of their own\<close>
  "tx_owned mem ks h \<longleftrightarrow> distinct (tx_ids mem ks) \<and>
     (\<forall>k\<in>set ks. kh_obj h k = Some K_mem \<and> kh_obj h (fst (mem k)) = Some K_mem \<and> kh_obj h (snd (mem k)) = Some (K_urb 1 None))"

lemma tx_owned_cong:
  assumes "tx_owned mem ks h" and "\<And>n. n \<in> set (tx_ids mem ks) \<Longrightarrow> kh_obj h' n = kh_obj h n"
    and "\<And>k. k \<in> set ks \<Longrightarrow> mem' k = mem k"
  shows "tx_owned mem' ks h'"
proof -
  have "kh_obj h' k = kh_obj h k \<and> kh_obj h' (fst (mem k)) = kh_obj h (fst (mem k)) \<and>
      kh_obj h' (snd (mem k)) = kh_obj h (snd (mem k))" if "k \<in> set ks" for k
    using that by (intro conjI assms(2)) (auto simp: set_tx_ids)
  then show ?thesis using assms(1,3) tx_ids_cong [of ks mem' mem] by (simp add: tx_owned_def)
qed

lemma free_tx_bufs_owned:
  assumes "owns base A h" and "tx_owned mem ks h" and "set (tx_ids mem ks) \<subseteq> A"
  shows "\<exists>h'. free_tx_bufs mem ks h = Some h' \<and> owns base (A - set (tx_ids mem ks)) h' \<and>
    (\<forall>n. n \<notin> set (tx_ids mem ks) \<longrightarrow> kh_obj h' n = kh_obj h n)"
  using assms
proof (induction ks arbitrary: A h)
  case (Cons k ks)
  obtain b u where m: "mem k = (b, u)" by (cases "mem k")
  have o: "kh_obj h k = Some K_mem" "kh_obj h b = Some K_mem" "kh_obj h u = Some (K_urb (Suc 0) None)"
    "k \<in> A" "b \<in> A" "u \<in> A" "k \<noteq> b" "k \<noteq> u" "b \<noteq> u"
    and d: "{k, b, u} \<inter> set (tx_ids mem ks) = {}"
    using Cons.prems(2,3) by (auto simp: m tx_owned_def)
  obtain h1 where h1: "usb_free_urb u h = Some h1" "owns base (A - {u}) h1" "kh_obj h1 = (kh_obj h)(u := None)"
    using owns_free_urb [OF Cons.prems(1) o(6,3)] by auto
  obtain h2 where h2: "k_free b h1 = Some h2" "owns base (A - {u} - {b}) h2" "kh_obj h2 = (kh_obj h1)(b := None)"
    using owns_free [OF h1(2), of b] h1(3) o by auto
  obtain h3 where h3: "k_free k h2 = Some h3" "owns base (A - {u} - {b} - {k}) h3" "kh_obj h3 = (kh_obj h2)(k := None)"
    using owns_free [OF h2(2), of k] h1(3) h2(3) o by auto
  have "tx_owned mem ks h" using Cons.prems(2) by (auto simp: tx_owned_def)
  then have t: "tx_owned mem ks h3" by (rule tx_owned_cong) (use h1(3) h2(3) h3(3) d in auto)
  have s: "set (tx_ids mem ks) \<subseteq> A - {u} - {b} - {k}" using Cons.prems(3) d by auto
  have "A - {u} - {b} - {k} - set (tx_ids mem ks) = A - set (tx_ids mem (k # ks))" by (auto simp: m)
  then show ?case using Cons.IH [OF h3(2) t s] h1(1,3) h2(1,3) h3(1,3) by (auto simp: free_tx_buf_def m)
qed auto

abbreviation free_ids :: "hif_alloc \<Rightarrow> nat list" where
  "free_ids p \<equiv> map tb_id (tx_buf_free (dev_tx (al_dev p)))"

definition tx_idle :: "(nat \<rightharpoonup> kobj) \<Rightarrow> hif_alloc \<Rightarrow> bool" where
  \<comment> \<open>the heap is \<open>base\<close> with the free transmit buffers\<close>
  "tx_idle base p \<longleftrightarrow> owns base (set (tx_ids (tx_mem p) (free_ids p))) (al_heap p) \<and> tx_owned (tx_mem p) (free_ids p) (al_heap p)"

lemma owns_same: "owns base A h \<Longrightarrow> kh_obj h' = kh_obj h \<Longrightarrow> kh_next h \<le> kh_next h' \<Longrightarrow> owns base A h'"
  unfolding owns_def by (metis order_less_le_trans)

lemma tx_idle_same:
  "tx_idle base p \<Longrightarrow> kh_obj h = kh_obj (al_heap p) \<Longrightarrow> kh_next (al_heap p) \<le> kh_next h \<Longrightarrow> tx_idle base (p\<lparr>al_heap := h\<rparr>)"
  by (auto simp: tx_idle_def tx_owned_def intro: owns_same)

lemma alloc_tx_round:
  assumes "tx_idle base p"
  shows "(\<exists>h. alloc_tx_loop env (Suc n) p = Some (False, p\<lparr>al_heap := h\<rparr>) \<and> tx_idle base (p\<lparr>al_heap := h\<rparr>)) \<or>
    (\<exists>k mem h. (let x = dev_tx (al_dev p); q = p\<lparr>al_heap := h, tx_mem := mem,
         al_dev := (al_dev p)\<lparr>dev_tx := x\<lparr>tx_buf_free := tx_buf_free x @ [fresh_tx_buf k]\<rparr>\<rparr>\<rparr> in
       alloc_tx_loop env (Suc n) p = alloc_tx_loop env n q \<and> tx_idle base q))"
proof -
  let ?A = "set (tx_ids (tx_mem p) (free_ids p))"
  have own: "owns base ?A (al_heap p)" and t: "tx_owned (tx_mem p) (free_ids p) (al_heap p)"
    using assms by (auto simp: tx_idle_def)
  obtain r1 h1 where a1: "k_alloc env K_mem (al_heap p) = (r1, h1)" by (cases "k_alloc env K_mem (al_heap p)")
  obtain r2 h2 where a2: "k_alloc env K_mem h1 = (r2, h2)" by (cases "k_alloc env K_mem h1")
  obtain r3 h3 where a3: "k_alloc env (K_urb 1 None) h2 = (r3, h3)" by (cases "k_alloc env (K_urb 1 None) h2")
  have nx: "kh_next (al_heap p) \<le> kh_next h1" "kh_next h1 \<le> kh_next h2" "kh_next h2 \<le> kh_next h3"
    using a1 a2 a3 by (auto simp: k_alloc_def Let_def split: if_splits)
  show ?thesis
  proof (cases r1)
    case None
    then have "kh_obj h1 = kh_obj (al_heap p)" using owns_alloc [OF own a1] by simp
    then have "tx_idle base (p\<lparr>al_heap := h1\<rparr>)" using assms nx by (auto intro: tx_idle_same)
    then show ?thesis using None a1 by auto
  next
    case (Some k)
    have k: "k \<notin> ?A" "kh_obj (al_heap p) k = None" "owns base (insert k ?A) h1" "kh_obj h1 = (kh_obj (al_heap p))(k \<mapsto> K_mem)"
      using owns_alloc [OF own a1] Some by auto
    show ?thesis
    proof (cases r2)
      case None
      define h where "h = h2\<lparr>kh_obj := (kh_obj h2)(k := None)\<rparr>"
      have o: "kh_obj h2 = (kh_obj (al_heap p))(k \<mapsto> K_mem)" using owns_alloc [OF k(3) a2] None k(4) by simp
      then have "k_free k h2 = Some h" by (simp add: k_free_def h_def)
      moreover have "kh_obj h = kh_obj (al_heap p)" using o k(2) by (auto simp: h_def fun_eq_iff)
      then have "tx_idle base (p\<lparr>al_heap := h\<rparr>)" using assms nx by (auto intro!: tx_idle_same simp: h_def)
      ultimately show ?thesis using None Some a1 a2 by auto
    next
      case b: (Some b)
      have b': "b \<notin> insert k ?A" "kh_obj h1 b = None" "owns base (insert b (insert k ?A)) h2" "kh_obj h2 = (kh_obj h1)(b \<mapsto> K_mem)"
        using owns_alloc [OF k(3) a2] b by auto
      show ?thesis
      proof (cases r3)
        case None
        define h' where "h' = h3\<lparr>kh_obj := (kh_obj h3)(b := None)\<rparr>"
        define h where "h = h'\<lparr>kh_obj := (kh_obj h')(k := None)\<rparr>"
        have o: "kh_obj h3 = (kh_obj (al_heap p))(k \<mapsto> K_mem, b \<mapsto> K_mem)"
          using owns_alloc [OF b'(3) a3] None k(4) b'(4) by simp
        then have "k_free b h3 = Some h'" "k_free k h' = Some h" using b'(1) by (auto simp: k_free_def h_def h'_def)
        moreover have "kh_obj h = kh_obj (al_heap p)" using o k b' by (auto simp: h_def h'_def fun_eq_iff)
        then have "tx_idle base (p\<lparr>al_heap := h\<rparr>)" using assms nx by (auto intro!: tx_idle_same simp: h_def h'_def)
        ultimately show ?thesis using None Some b a1 a2 a3 by auto
      next
        case u: (Some u)
        have u': "u \<notin> insert b (insert k ?A)" "owns base (insert u (insert b (insert k ?A))) h3" "kh_obj h3 = (kh_obj h2)(u \<mapsto> K_urb 1 None)"
          using owns_alloc [OF b'(3) a3] u by auto
        define mem where "mem = (tx_mem p)(k := (b, u))"
        have same: "mem m = tx_mem p m" if "m \<in> set (free_ids p)" for m
          using k(1) that by (auto simp: mem_def set_tx_ids)
        have ids: "tx_ids mem (free_ids p) = tx_ids (tx_mem p) (free_ids p)" using same by (rule tx_ids_cong)
        from t have "tx_owned mem (free_ids p) h3"
          by (rule tx_owned_cong) (use k b' u' same in auto)
        then have "tx_owned mem (free_ids p @ [k]) h3" using k b' u' ids by (auto simp: tx_owned_def mem_def)
        moreover have "set (tx_ids mem (free_ids p @ [k])) = insert u (insert b (insert k ?A))" using ids by (auto simp: mem_def)
        ultimately have "tx_idle base (p\<lparr>al_heap := h3, tx_mem := mem,
            al_dev := (al_dev p)\<lparr>dev_tx := (dev_tx (al_dev p))\<lparr>tx_buf_free := tx_buf_free (dev_tx (al_dev p)) @ [fresh_tx_buf k]\<rparr>\<rparr>\<rparr>)"
          using u'(2) by (simp add: tx_idle_def fresh_tx_buf_def)
        then show ?thesis using Some b u a1 a2 a3 by (auto simp: Let_def mem_def)
      qed
    qed
  qed
qed

definition with_bufs :: "hif_alloc \<Rightarrow> kheap \<Rightarrow> (nat \<Rightarrow> nat \<times> nat) \<Rightarrow> tx_buf list \<Rightarrow> hif_alloc" where
  "with_bufs p h mem bs = (let x = dev_tx (al_dev p) in
     p\<lparr>al_heap := h, tx_mem := mem, al_dev := (al_dev p)\<lparr>dev_tx := x\<lparr>tx_buf_free := tx_buf_free x @ bs\<rparr>\<rparr>\<rparr>)"

lemma alloc_tx_loop_idle:
  assumes "tx_idle base p"
  shows "\<exists>ok h mem bs. alloc_tx_loop env n p = Some (ok, with_bufs p h mem bs) \<and> tx_idle base (with_bufs p h mem bs) \<and>
    (ok \<longrightarrow> length bs = n)"
  using assms
proof (induction n arbitrary: p)
  case 0
  have "with_bufs p (al_heap p) (tx_mem p) [] = p" by (simp add: with_bufs_def Let_def)
  then show ?case using 0 by (intro exI [of _ True] exI [of _ "al_heap p"] exI [of _ "tx_mem p"] exI [of _ "[]"]) simp
next
  case (Suc n)
  from alloc_tx_round [OF Suc.prems, of env n] show ?case
  proof (elim disjE exE)
    fix h assume r: "alloc_tx_loop env (Suc n) p = Some (False, p\<lparr>al_heap := h\<rparr>) \<and> tx_idle base (p\<lparr>al_heap := h\<rparr>)"
    have "with_bufs p h (tx_mem p) [] = p\<lparr>al_heap := h\<rparr>" by (simp add: with_bufs_def Let_def)
    then show ?thesis using r by (intro exI [of _ False] exI [of _ h] exI [of _ "tx_mem p"] exI [of _ "[]"]) simp
  next
    fix k mem h
    let ?q = "with_bufs p h mem [fresh_tx_buf k]"
    assume "let x = dev_tx (al_dev p); q = p\<lparr>al_heap := h, tx_mem := mem,
         al_dev := (al_dev p)\<lparr>dev_tx := x\<lparr>tx_buf_free := tx_buf_free x @ [fresh_tx_buf k]\<rparr>\<rparr>\<rparr> in
       alloc_tx_loop env (Suc n) p = alloc_tx_loop env n q \<and> tx_idle base q"
    then have r: "alloc_tx_loop env (Suc n) p = alloc_tx_loop env n ?q" "tx_idle base ?q"
      by (simp_all only: with_bufs_def Let_def)
    obtain ok h' mem' bs where i: "alloc_tx_loop env n ?q = Some (ok, with_bufs ?q h' mem' bs)"
      "tx_idle base (with_bufs ?q h' mem' bs)" "ok \<longrightarrow> length bs = n"
      using Suc.IH [OF r(2)] by blast
    have "with_bufs ?q h' mem' bs = with_bufs p h' mem' (fresh_tx_buf k # bs)" by (simp add: with_bufs_def Let_def)
    then show ?thesis using r(1) i by (intro exI [of _ ok] exI [of _ h'] exI [of _ mem'] exI [of _ "fresh_tx_buf k # bs"]) simp
  qed
qed

abbreviation tx_quiet :: "hif_alloc \<Rightarrow> bool" where
  "tx_quiet p \<equiv> tx_pending (dev_tx (al_dev p)) = [] \<and> mgmt_submitted (al_dev p) = []"

lemma dealloc_tx_owned:
  assumes "owns base A (al_heap p)" and "tx_owned (tx_mem p) (free_ids p) (al_heap p)"
    and "set (tx_ids (tx_mem p) (free_ids p)) \<subseteq> A" and "tx_quiet p"
  shows "\<exists>q. ath9k_hif_usb_dealloc_tx_urbs answer t p = Some (t, q, []) \<and>
    owns base (A - set (tx_ids (tx_mem p) (free_ids p))) (al_heap q) \<and>
    (\<forall>n. n \<notin> set (tx_ids (tx_mem p) (free_ids p)) \<longrightarrow> kh_obj (al_heap q) n = kh_obj (al_heap p) n) \<and>
    tx_buf_free (dev_tx (al_dev q)) = [] \<and> rx_submitted q = rx_submitted p \<and> reg_in_submitted q = reg_in_submitted p \<and>
    regout_submitted (al_dev q) = regout_submitted (al_dev p) \<and>
    tx_flags (dev_tx (al_dev q)) = tx_flags (dev_tx (al_dev p)) OR HIF_USB_TX_FLUSH"
  using free_tx_bufs_owned [OF assms(1-3)] assms(4) by (auto simp: ath9k_hif_usb_dealloc_tx_urbs_def Let_def)

definition urbs_ready :: "(nat \<rightharpoonup> kobj) \<Rightarrow> hif_alloc \<Rightarrow> (nat \<times> nat) list \<Rightarrow> (nat \<times> nat) list \<Rightarrow> bool" where
  \<comment> \<open>every direction has its buffers, and nothing else was allocated\<close>
  "urbs_ready base p us vs \<longleftrightarrow> (let ts = set (tx_ids (tx_mem p) (free_ids p)) in
     owns base (ts \<union> set (in_ids us) \<union> set (in_ids vs)) (al_heap p) \<and>
     tx_owned (tx_mem p) (free_ids p) (al_heap p) \<and> anchored us (al_heap p) \<and> anchored vs (al_heap p) \<and>
     ts \<inter> set (in_ids us) = {} \<and> ts \<inter> set (in_ids vs) = {} \<and> set (in_ids us) \<inter> set (in_ids vs) = {} \<and>
     rx_submitted p = map fst us \<and> reg_in_submitted p = map fst vs \<and> tx_quiet p \<and> regout_submitted (al_dev p) = [])"

lemma alloc_tx_urbs_owned:
  assumes "owns base {} (al_heap p)"
  shows "\<exists>ret q. ath9k_hif_usb_alloc_tx_urbs env answer t p = Some (ret, t, q, []) \<and>
    regout_submitted (al_dev q) = regout_submitted (al_dev p) \<and>
    (ret = - ENOMEM \<and> owns base {} (al_heap q) \<and> tx_buf_free (dev_tx (al_dev q)) = [] \<or>
     ret = 0 \<and> tx_idle base q \<and> length (tx_buf_free (dev_tx (al_dev q))) = 8 \<and> tx_quiet q \<and>
       tx_flags (dev_tx (al_dev q)) = tx_flags (dev_tx (al_dev p)))"
proof -
  define d where "d = (al_dev p)\<lparr>dev_tx := (dev_tx (al_dev p))\<lparr>tx_buf_free := [], tx_pending := [], tx_skb_queue := []\<rparr>, mgmt_submitted := []\<rparr>"
  have "tx_idle base (p\<lparr>al_dev := d\<rparr>)" using assms by (simp add: tx_idle_def tx_owned_def d_def)
  then obtain ok h mem bs where a: "alloc_tx_loop env MAX_TX_URB_NUM (p\<lparr>al_dev := d\<rparr>) = Some (ok, with_bufs (p\<lparr>al_dev := d\<rparr>) h mem bs)"
    "tx_idle base (with_bufs (p\<lparr>al_dev := d\<rparr>) h mem bs)" "ok \<longrightarrow> length bs = MAX_TX_URB_NUM"
    using alloc_tx_loop_idle by blast
  define q where "q = with_bufs (p\<lparr>al_dev := d\<rparr>) h mem bs"
  have q: "tx_quiet q" "regout_submitted (al_dev q) = regout_submitted (al_dev p)" "tx_buf_free (dev_tx (al_dev q)) = bs"
    "tx_flags (dev_tx (al_dev q)) = tx_flags (dev_tx (al_dev p))"
    by (simp_all add: q_def with_bufs_def d_def Let_def)
  show ?thesis
  proof (cases ok)
    case True
    then show ?thesis
      using a q by (auto simp: ath9k_hif_usb_alloc_tx_urbs_def d_def [symmetric] q_def [symmetric] Let_def tx_idle_def)
  next
    case False
    have "owns base (set (tx_ids (tx_mem q) (free_ids q))) (al_heap q)" "tx_owned (tx_mem q) (free_ids q) (al_heap q)"
      using a(2) by (simp_all add: tx_idle_def q_def)
    then obtain r where "ath9k_hif_usb_dealloc_tx_urbs answer t q = Some (t, r, [])" "owns base {} (al_heap r)"
      "tx_buf_free (dev_tx (al_dev r)) = []" "regout_submitted (al_dev r) = regout_submitted (al_dev q)"
      using dealloc_tx_owned [of base _ q answer t] q(1) by fastforce
    then show ?thesis
      using False a(1) q(2) by (auto simp: ath9k_hif_usb_alloc_tx_urbs_def d_def [symmetric] q_def [symmetric] Let_def)
  qed
qed

lemma alloc_rx_urbs_owned:
  assumes "owns base (set (tx_ids (tx_mem p) (free_ids p))) (al_heap p)" and "tx_owned (tx_mem p) (free_ids p) (al_heap p)"
    and "\<forall>i. ke_submit env i \<le> 0"
  shows "\<exists>ret us h. ath9k_hif_usb_alloc_rx_urbs env p = Some (ret, p\<lparr>al_heap := h, rx_submitted := map fst us\<rparr>) \<and>
    (ret < 0 \<and> us = [] \<or> ret = 0 \<and> length us = 8) \<and>
    owns base (set (tx_ids (tx_mem p) (free_ids p)) \<union> set (in_ids us)) h \<and> tx_owned (tx_mem p) (free_ids p) h \<and>
    anchored us h \<and> set (tx_ids (tx_mem p) (free_ids p)) \<inter> set (in_ids us) = {}"
proof -
  obtain ret us h where a: "alloc_in_urbs env MAX_RX_URB_NUM (al_heap p) = Some (ret, map fst us, h)"
    "ret < 0 \<and> us = [] \<or> ret = 0 \<and> length us = MAX_RX_URB_NUM"
    "owns base (set (tx_ids (tx_mem p) (free_ids p)) \<union> set (in_ids us)) h" "anchored us h"
    "set (in_ids us) \<inter> set (tx_ids (tx_mem p) (free_ids p)) = {}" "\<forall>m. m \<notin> set (in_ids us) \<longrightarrow> kh_obj h m = kh_obj (al_heap p) m"
    using alloc_in_urbs_owned [OF assms(1,3)] by blast
  from assms(2) have "tx_owned (tx_mem p) (free_ids p) h" by (rule tx_owned_cong) (use a(5,6) in auto)
  then show ?thesis
    using a by (intro exI [of _ ret] exI [of _ us] exI [of _ h]) (auto simp: ath9k_hif_usb_alloc_rx_urbs_def)
qed

lemma alloc_reg_in_urbs_owned:
  assumes "owns base (set (tx_ids (tx_mem p) (free_ids p)) \<union> set (in_ids us)) (al_heap p)"
    and "tx_owned (tx_mem p) (free_ids p) (al_heap p)" and "anchored us (al_heap p)" and "rx_submitted p = map fst us"
    and "set (tx_ids (tx_mem p) (free_ids p)) \<inter> set (in_ids us) = {}" and "tx_quiet p" and "regout_submitted (al_dev p) = []"
    and "\<forall>i. ke_submit env i \<le> 0"
  shows "\<exists>ret vs h. ath9k_hif_usb_alloc_reg_in_urbs env p = Some (ret, p\<lparr>al_heap := h, reg_in_submitted := map fst vs\<rparr>) \<and>
    (ret < 0 \<and> vs = [] \<or> ret = 0 \<and> length vs = 64) \<and>
    urbs_ready base (p\<lparr>al_heap := h, reg_in_submitted := map fst vs\<rparr>) us vs"
proof -
  obtain ret vs h where a: "alloc_in_urbs env MAX_REG_IN_URB_NUM (al_heap p) = Some (ret, map fst vs, h)"
    "ret < 0 \<and> vs = [] \<or> ret = 0 \<and> length vs = MAX_REG_IN_URB_NUM"
    "owns base (set (tx_ids (tx_mem p) (free_ids p)) \<union> set (in_ids us) \<union> set (in_ids vs)) h" "anchored vs h"
    "set (in_ids vs) \<inter> (set (tx_ids (tx_mem p) (free_ids p)) \<union> set (in_ids us)) = {}"
    "\<forall>m. m \<notin> set (in_ids vs) \<longrightarrow> kh_obj h m = kh_obj (al_heap p) m"
    using alloc_in_urbs_owned [OF assms(1,8)] by blast
  from assms(2) have t: "tx_owned (tx_mem p) (free_ids p) h" by (rule tx_owned_cong) (use a(5,6) in auto)
  from assms(3) have u: "anchored us h" by (rule anchored_cong) (use a(5,6) in auto)
  have "urbs_ready base (p\<lparr>al_heap := h, reg_in_submitted := map fst vs\<rparr>) us vs"
    unfolding urbs_ready_def Let_def using a(3-5) assms(4-7) t u by (simp add: Int_Un_distrib Int_commute)
  then show ?thesis
    using a(1,2) by (intro exI [of _ ret] exI [of _ vs] exI [of _ h]) (auto simp: ath9k_hif_usb_alloc_reg_in_urbs_def)
qed

lemma dealloc_rx_owned:
  assumes "owns base A (al_heap p)" and "anchored us (al_heap p)" and "set (in_ids us) \<subseteq> A" and "rx_submitted p = map fst us"
  shows "\<exists>h. ath9k_hif_usb_dealloc_rx_urbs p = Some (p\<lparr>al_heap := h, rx_submitted := []\<rparr>) \<and>
    owns base (A - set (in_ids us)) h \<and> (\<forall>n. n \<notin> set (in_ids us) \<longrightarrow> kh_obj h n = kh_obj (al_heap p) n)"
  using kill_anchored [OF assms(1-3)] assms(4) by (auto simp: ath9k_hif_usb_dealloc_rx_urbs_def)

lemma dealloc_reg_in_owned:
  assumes "owns base A (al_heap p)" and "anchored us (al_heap p)" and "set (in_ids us) \<subseteq> A" and "reg_in_submitted p = map fst us"
  shows "\<exists>h. ath9k_hif_usb_dealloc_reg_in_urbs p = Some (p\<lparr>al_heap := h, reg_in_submitted := []\<rparr>) \<and>
    owns base (A - set (in_ids us)) h \<and> (\<forall>n. n \<notin> set (in_ids us) \<longrightarrow> kh_obj h n = kh_obj (al_heap p) n)"
  using kill_anchored [OF assms(1-3)] assms(4) by (auto simp: ath9k_hif_usb_dealloc_reg_in_urbs_def)

lemma dealloc_urbs_ready:
  assumes "urbs_ready base p us vs"
  shows "\<exists>q. ath9k_hif_usb_dealloc_urbs answer t p = Some (t, q, []) \<and> owns base {} (al_heap q) \<and>
    tx_buf_free (dev_tx (al_dev q)) = [] \<and> rx_submitted q = [] \<and> reg_in_submitted q = [] \<and>
    tx_flags (dev_tx (al_dev q)) = tx_flags (dev_tx (al_dev p)) OR HIF_USB_TX_FLUSH"
proof -
  let ?T = "set (tx_ids (tx_mem p) (free_ids p))" and ?U = "set (in_ids us)" and ?V = "set (in_ids vs)"
  have r: "owns base (?T \<union> ?U \<union> ?V) (al_heap p)" "tx_owned (tx_mem p) (free_ids p) (al_heap p)" "anchored us (al_heap p)"
    "anchored vs (al_heap p)" "?T \<inter> ?U = {}" "?T \<inter> ?V = {}" "?U \<inter> ?V = {}" "rx_submitted p = map fst us"
    "reg_in_submitted p = map fst vs" "tx_quiet p" "regout_submitted (al_dev p) = []"
    using assms by (auto simp: urbs_ready_def Let_def)
  obtain h where h: "ath9k_hif_usb_dealloc_reg_in_urbs p = Some (p\<lparr>al_heap := h, reg_in_submitted := []\<rparr>)"
    "owns base (?T \<union> ?U \<union> ?V - ?V) h" "\<forall>n. n \<notin> ?V \<longrightarrow> kh_obj h n = kh_obj (al_heap p) n"
    using dealloc_reg_in_owned [OF r(1,4) _ r(9)] by auto
  let ?p = "p\<lparr>al_heap := h, reg_in_submitted := []\<rparr>"
  have s: "?T \<union> ?U \<union> ?V - ?V = ?T \<union> ?U" using r(6,7) by auto
  from r(2) have t: "tx_owned (tx_mem p) (free_ids p) h" by (rule tx_owned_cong) (use h(3) r(6) in auto)
  from r(3) have u: "anchored us h" by (rule anchored_cong) (use h(3) r(7) in auto)
  obtain q where q: "ath9k_hif_usb_dealloc_tx_urbs answer t ?p = Some (t, q, [])" "owns base (?T \<union> ?U - ?T) (al_heap q)"
    "\<forall>n. n \<notin> ?T \<longrightarrow> kh_obj (al_heap q) n = kh_obj h n" "tx_buf_free (dev_tx (al_dev q)) = []" "rx_submitted q = map fst us"
    "reg_in_submitted q = []" "tx_flags (dev_tx (al_dev q)) = tx_flags (dev_tx (al_dev p)) OR HIF_USB_TX_FLUSH"
    using dealloc_tx_owned [of base "?T \<union> ?U" ?p answer t] h(2) s t r(8,10) by auto
  from u have a: "anchored us (al_heap q)" by (rule anchored_cong) (use q(3) r(5) in auto)
  have o: "owns base ?U (al_heap q)" using q(2) r(5) by (simp add: Un_Diff Diff_triv Int_commute)
  obtain h' where "ath9k_hif_usb_dealloc_rx_urbs q = Some (q\<lparr>al_heap := h', rx_submitted := []\<rparr>)" "owns base {} h'"
    using dealloc_rx_owned [OF o a _ q(5)] by auto
  then show ?thesis using h(1) q r(11) by (simp add: ath9k_hif_usb_dealloc_urbs_def)
qed

lemma alloc_urbs_owned:
  assumes "owns base {} (al_heap p)" and sub: "\<forall>i. ke_submit env i \<le> 0"
  shows "\<exists>ret q. ath9k_hif_usb_alloc_urbs env answer t p = Some (ret, t, q, []) \<and>
    (ret = - ENOMEM \<and> owns base {} (al_heap q) \<and> tx_buf_free (dev_tx (al_dev q)) = [] \<or>
     ret = 0 \<and> length (tx_buf_free (dev_tx (al_dev q))) = 8 \<and> tx_flags (dev_tx (al_dev q)) = tx_flags (dev_tx (al_dev p)) \<and>
       (\<exists>us vs. urbs_ready base q us vs \<and> length us = 8 \<and> length vs = 64))"
proof -
  let ?p = "p\<lparr>al_dev := (al_dev p)\<lparr>regout_submitted := []\<rparr>\<rparr>"
  obtain ret q where tx: "ath9k_hif_usb_alloc_tx_urbs env answer t ?p = Some (ret, t, q, [])" "regout_submitted (al_dev q) = []"
    "ret = - ENOMEM \<and> owns base {} (al_heap q) \<and> tx_buf_free (dev_tx (al_dev q)) = [] \<or>
     ret = 0 \<and> tx_idle base q \<and> length (tx_buf_free (dev_tx (al_dev q))) = 8 \<and> tx_quiet q \<and>
       tx_flags (dev_tx (al_dev q)) = tx_flags (dev_tx (al_dev p))"
    using alloc_tx_urbs_owned [of base ?p env answer t] assms(1) by auto
  from tx(3) show ?thesis
  proof (elim disjE conjE)
    assume "ret = - ENOMEM" "owns base {} (al_heap q)" "tx_buf_free (dev_tx (al_dev q)) = []"
    then show ?thesis using tx(1) by (simp add: ath9k_hif_usb_alloc_urbs_def ENOMEM_def)
  next
    assume q: "ret = 0" "tx_idle base q" "length (tx_buf_free (dev_tx (al_dev q))) = 8"
      "tx_pending (dev_tx (al_dev q)) = []" "mgmt_submitted (al_dev q) = []"
      "tx_flags (dev_tx (al_dev q)) = tx_flags (dev_tx (al_dev p))"
    let ?T = "set (tx_ids (tx_mem q) (free_ids q))"
    obtain ret1 us h where rx: "ath9k_hif_usb_alloc_rx_urbs env q = Some (ret1, q\<lparr>al_heap := h, rx_submitted := map fst us\<rparr>)"
      "ret1 < 0 \<and> us = [] \<or> ret1 = 0 \<and> length us = 8" "owns base (?T \<union> set (in_ids us)) h" "tx_owned (tx_mem q) (free_ids q) h"
      "anchored us h" "?T \<inter> set (in_ids us) = {}"
      using alloc_rx_urbs_owned [of base q env] q(2) sub by (auto simp: tx_idle_def)
    let ?q = "q\<lparr>al_heap := h, rx_submitted := map fst us\<rparr>"
    show ?thesis
    proof (cases "ret1 < 0")
      case True
      then have "owns base ?T (al_heap ?q)" using rx(2,3) by auto
      then obtain r where "ath9k_hif_usb_dealloc_tx_urbs answer t ?q = Some (t, r, [])" "owns base {} (al_heap r)"
        "tx_buf_free (dev_tx (al_dev r)) = []"
        using dealloc_tx_owned [of base ?T ?q answer t] rx(4) q(4,5) by fastforce
      then show ?thesis using True tx(1) q(1) rx(1) by (auto simp: ath9k_hif_usb_alloc_urbs_def)
    next
      case False
      obtain ret2 vs h2 where reg: "ath9k_hif_usb_alloc_reg_in_urbs env ?q = Some (ret2, ?q\<lparr>al_heap := h2, reg_in_submitted := map fst vs\<rparr>)"
        "ret2 < 0 \<and> vs = [] \<or> ret2 = 0 \<and> length vs = 64" "urbs_ready base (?q\<lparr>al_heap := h2, reg_in_submitted := map fst vs\<rparr>) us vs"
        using alloc_reg_in_urbs_owned [of base ?q us env] rx(3-6) q(4,5) tx(2) sub by fastforce
      let ?r = "?q\<lparr>al_heap := h2, reg_in_submitted := map fst vs\<rparr>"
      show ?thesis
      proof (cases "ret2 < 0")
        case True
        then have "urbs_ready base ?r us []" using reg(2,3) by auto
        then have r: "owns base (?T \<union> set (in_ids us)) h2" "tx_owned (tx_mem q) (free_ids q) h2" "anchored us h2"
          by (simp_all add: urbs_ready_def Let_def)
        obtain h3 where d: "ath9k_hif_usb_dealloc_rx_urbs ?r = Some (?r\<lparr>al_heap := h3, rx_submitted := []\<rparr>)"
          "owns base (?T \<union> set (in_ids us) - set (in_ids us)) h3" "\<forall>n. n \<notin> set (in_ids us) \<longrightarrow> kh_obj h3 n = kh_obj h2 n"
          using dealloc_rx_owned [of base "?T \<union> set (in_ids us)" ?r us] r(1,3) by auto
        have s: "?T \<union> set (in_ids us) - set (in_ids us) = ?T" using rx(6) by auto
        from r(2) have "tx_owned (tx_mem q) (free_ids q) h3" by (rule tx_owned_cong) (use d(3) rx(6) in auto)
        then obtain e where "ath9k_hif_usb_dealloc_tx_urbs answer t (?r\<lparr>al_heap := h3, rx_submitted := []\<rparr>) = Some (t, e, [])"
          "owns base {} (al_heap e)" "tx_buf_free (dev_tx (al_dev e)) = []"
          using dealloc_tx_owned [of base ?T "?r\<lparr>al_heap := h3, rx_submitted := []\<rparr>" answer t] d(2) s q(4,5) by fastforce
        then show ?thesis using True False tx(1) q(1) rx(1) reg(1) d(1) by (auto simp: ath9k_hif_usb_alloc_urbs_def)
      next
        case no: False
        then have "ath9k_hif_usb_alloc_urbs env answer t p = Some (0, t, ?r, [])"
          using False tx(1) q(1) rx(1) reg(1) by (simp add: ath9k_hif_usb_alloc_urbs_def)
        moreover have "length us = 8" "length vs = 64" using False no rx(2) reg(2) by auto
        ultimately show ?thesis using reg(3) q(3,6) by auto
      qed
    qed
  qed
qed

lemma owns_start: "(\<And>n. kh_obj h n \<noteq> None \<Longrightarrow> n < kh_next h) \<Longrightarrow> owns (kh_obj h) {} h"
  by (auto simp: owns_def)

text \<open>C8: Allocating the URBs of all directions never frees an object twice or one that is not live, whichever
  allocation or submission fails. It returns 0 with 8 transmit, 8 receive and 64 register buffers, or \<open>-ENOMEM\<close>, and
  then every object it allocated has been freed again.\<close>

theorem alloc_urbs_clean:
  assumes "\<And>n. kh_obj (al_heap p) n \<noteq> None \<Longrightarrow> n < kh_next (al_heap p)" and "\<forall>i. ke_submit env i \<le> 0"
  shows "\<exists>ret q. ath9k_hif_usb_alloc_urbs env answer t p = Some (ret, t, q, []) \<and>
    (ret = 0 \<and> length (tx_buf_free (dev_tx (al_dev q))) = 8 \<and> length (rx_submitted q) = 8 \<and> length (reg_in_submitted q) = 64 \<or>
     ret = - ENOMEM \<and> kh_obj (al_heap q) = kh_obj (al_heap p) \<and> tx_buf_free (dev_tx (al_dev q)) = [])"
  using alloc_urbs_owned [OF owns_start [OF assms(1)] assms(2), of answer t]
  by (auto simp: urbs_ready_def Let_def dest: owns_empty)

lemma alloc_in_loop_ok:
  assumes "\<forall>i. ke_alloc env i" and "\<forall>i. ke_submit env i = 0" and "alloc_in_loop env n anchor h = Some (ret, us, h')"
  shows "ret = 0"
  using assms(3)
proof (induction n arbitrary: anchor h)
  case (Suc n)
  from Suc.prems show ?case
    using assms(1,2) by (auto simp: k_alloc_def Let_def usb_submit_urb_def split: Option.bind_splits intro: Suc.IH)
qed simp

lemma alloc_tx_loop_ok:
  assumes "\<forall>i. ke_alloc env i" and "alloc_tx_loop env n p = Some (ok, q)"
  shows "ok"
  using assms(2)
proof (induction n arbitrary: p)
  case (Suc n)
  from Suc.prems show ?case using assms(1) by (auto simp: k_alloc_def Let_def intro: Suc.IH)
qed simp

lemma alloc_urbs_ok:
  assumes "\<forall>i. ke_alloc env i" and "\<forall>i. ke_submit env i = 0"
    and "ath9k_hif_usb_alloc_urbs env answer t p = Some (ret, t', q, us)"
  shows "ret = 0"
  using assms(3)
  by (auto simp: ath9k_hif_usb_alloc_urbs_def ath9k_hif_usb_alloc_tx_urbs_def ath9k_hif_usb_alloc_rx_urbs_def
      ath9k_hif_usb_alloc_reg_in_urbs_def alloc_in_urbs_def Let_def split: Option.bind_splits if_splits
      dest!: alloc_in_loop_ok [OF assms(1,2)] alloc_tx_loop_ok [OF assms(1)])

definition ex_kernel :: kernel_env where
  "ex_kernel = \<lparr>ke_alloc = (\<lambda>n. True), ke_submit = (\<lambda>n. 0), ke_ctrl = (\<lambda>n. 0), ke_bulk = (\<lambda>e d. 0)\<rparr>"

definition ex_alloc_state :: hif_alloc where
  "ex_alloc_state = \<lparr>al_heap = \<lparr>kh_next = 0, kh_obj = Map.empty, kh_submits = 0\<rparr>, al_dev = ex_dev, rx_submitted = [],
     reg_in_submitted = [], tx_mem = (\<lambda>k. (0, 0))\<rparr>"

lemma ex_kernel_facts:
  "\<forall>i. ke_alloc ex_kernel i" "\<forall>i. ke_submit ex_kernel i = 0" "\<forall>i. ke_submit ex_kernel i \<le> 0" "\<forall>i. 0 \<le> ke_ctrl ex_kernel i"
  "kh_obj (al_heap ex_alloc_state) n = None"
  by (simp_all add: ex_kernel_def ex_alloc_state_def)

theorem alloc_urbs_clean_witness:
  "\<exists>q. ath9k_hif_usb_alloc_urbs ex_kernel ex_env ex_target0 ex_alloc_state = Some (0, ex_target0, q, []) \<and>
     length (tx_buf_free (dev_tx (al_dev q))) = 8 \<and> length (rx_submitted q) = 8 \<and> length (reg_in_submitted q) = 64"
proof -
  obtain ret q where a: "ath9k_hif_usb_alloc_urbs ex_kernel ex_env ex_target0 ex_alloc_state = Some (ret, ex_target0, q, [])"
    "ret = 0 \<and> length (tx_buf_free (dev_tx (al_dev q))) = 8 \<and> length (rx_submitted q) = 8 \<and> length (reg_in_submitted q) = 64 \<or>
     ret = - ENOMEM \<and> kh_obj (al_heap q) = kh_obj (al_heap ex_alloc_state) \<and> tx_buf_free (dev_tx (al_dev q)) = []"
    using alloc_urbs_clean [of ex_alloc_state ex_kernel ex_env ex_target0] ex_kernel_facts by auto
  then show ?thesis
    using alloc_urbs_ok [OF ex_kernel_facts(1,2) a(1)] by (auto simp: ENOMEM_def)
qed

lemma ex_alloc_succeeds:
  "\<exists>q. ath9k_hif_usb_alloc_urbs ex_kernel ex_env ex_target0 ex_alloc_state = Some (0, ex_target0, q, []) \<and>
     (\<exists>us vs. urbs_ready Map.empty q us vs)"
proof -
  have "owns Map.empty {} (al_heap ex_alloc_state)" by (simp add: owns_def ex_alloc_state_def)
  from alloc_urbs_owned [OF this ex_kernel_facts(3), of ex_env ex_target0] show ?thesis
    using alloc_urbs_ok [OF ex_kernel_facts(1,2)] by (fastforce simp: ENOMEM_def)
qed

text \<open>Releasing the URBs right after they were allocated succeeds and gives back the heap there was before:
  allocation followed by release is the identity on the kernel's objects.\<close>

theorem alloc_dealloc_urbs:
  assumes "\<And>n. kh_obj (al_heap p) n \<noteq> None \<Longrightarrow> n < kh_next (al_heap p)" and "\<forall>i. ke_submit env i \<le> 0"
    and "ath9k_hif_usb_alloc_urbs env answer t p = Some (0, t', q, us)"
  shows "\<exists>r. ath9k_hif_usb_dealloc_urbs answer t' q = Some (t', r, []) \<and> kh_obj (al_heap r) = kh_obj (al_heap p) \<and>
    tx_buf_free (dev_tx (al_dev r)) = [] \<and> rx_submitted r = [] \<and> reg_in_submitted r = []"
proof -
  obtain us vs where "urbs_ready (kh_obj (al_heap p)) q us vs"
    using alloc_urbs_owned [OF owns_start [OF assms(1)] assms(2), of answer t] assms(3) by (auto simp: ENOMEM_def)
  from dealloc_urbs_ready [OF this, of answer t'] show ?thesis by (auto dest: owns_empty)
qed

theorem alloc_dealloc_urbs_witness:
  "\<exists>q r. ath9k_hif_usb_alloc_urbs ex_kernel ex_env ex_target0 ex_alloc_state = Some (0, ex_target0, q, []) \<and>
     ath9k_hif_usb_dealloc_urbs ex_env ex_target0 q = Some (ex_target0, r, []) \<and> kh_obj (al_heap r) = Map.empty"
proof -
  obtain q where q: "ath9k_hif_usb_alloc_urbs ex_kernel ex_env ex_target0 ex_alloc_state = Some (0, ex_target0, q, [])"
    using ex_alloc_succeeds by blast
  from alloc_dealloc_urbs [OF _ ex_kernel_facts(3) q] q show ?thesis
    by (auto simp: ex_alloc_state_def)
qed

text \<open>The flag \<open>HIF_USB_TX_FLUSH\<close>, which makes the transmit callback keep a killed buffer off the free list, is set
  when the URBs are released and is still set after they have been allocated again, as after a suspend and a resume.\<close>

theorem flush_survives_resume:
  assumes "urbs_ready base p us vs" and "\<forall>i. ke_submit env i \<le> 0"
    and "ath9k_hif_usb_dealloc_urbs answer t p = Some (t', q, ws)"
    and "ath9k_hif_usb_alloc_urbs env answer t' q = Some (0, t'', r, xs)"
  shows "tx_flags (dev_tx (al_dev r)) = tx_flags (dev_tx (al_dev p)) OR HIF_USB_TX_FLUSH"
proof -
  have q: "owns base {} (al_heap q)" "tx_flags (dev_tx (al_dev q)) = tx_flags (dev_tx (al_dev p)) OR HIF_USB_TX_FLUSH"
    using dealloc_urbs_ready [OF assms(1), of answer t] assms(3) by auto
  show ?thesis using alloc_urbs_owned [OF q(1) assms(2), of answer t'] assms(4) q(2) by (auto simp: ENOMEM_def)
qed

section \<open>The firmware reaches the target\<close>

declare download_loop.simps [simp del]

lemma fw_value: "a < 2 ^ 24 \<Longrightarrow> unat (ucast (drop_bit 8 (word_of_nat a :: u32)) :: u16) = a div 256"
proof -
  assume a: "a < 2 ^ 24"
  then have "unat (word_of_nat a :: u32) = a" by (simp add: unat_of_nat take_bit_nat_eq_self)
  then have "unat (drop_bit 8 (word_of_nat a :: u32)) = a div 256"
    by (simp add: drop_bit_eq_div unat_div)
  moreover have "a div 256 < 2 ^ 16" using a by (simp add: less_mult_imp_div_less)
  ultimately show ?thesis by (simp add: unsigned_ucast_eq take_bit_nat_eq_self)
qed

definition placed :: "ctrl_msg \<Rightarrow> (nat \<times> u8) list" where
  \<comment> \<open>the bytes of a download message with their addresses in the target\<close>
  "placed m = (case m of (r, v, d) \<Rightarrow> enumerate (256 * unat v) d)"

lemma chunk_count:
  assumes "0 < l"
  shows "(l + 4095) div 4096 = Suc ((l - min l 4096 + 4095) div (4096 :: nat))"
proof (cases "l \<le> 4096")
  case True
  obtain m where "l = Suc m" using assms by (cases l) auto
  then show ?thesis using True by (simp add: min_def)
next
  case False
  define m where "m = l - 4096"
  then have "l = m + 4096" using False by simp
  then show ?thesis using div_add_self2 [of 4096 "m + 4095"] by (simp add: min_def add.commute [of m])
qed

lemma download_loop_placed:
  assumes "\<forall>i. 0 \<le> ke_ctrl env i" and "a + length data \<le> 2 ^ 24" and "data \<noteq> [] \<Longrightarrow> 256 dvd a"
  shows "\<exists>msgs. download_loop env c (word_of_nat a) data = (0, msgs) \<and> concat (map placed msgs) = enumerate a data \<and>
    length msgs = (length data + 4095) div 4096 \<and>
    (\<forall>m\<in>set msgs. fst m = FIRMWARE_DOWNLOAD \<and> length (snd (snd m)) \<le> 4096)"
  using assms(2,3)
proof (induction "length data" arbitrary: a c data rule: less_induct)
  case less
  show ?case
  proof (cases "data = []")
    case True
    then show ?thesis by (simp add: download_loop.simps)
  next
    case False
    let ?n = "min (length data) 4096"
    have a: "256 dvd a" "a < 2 ^ 24" using False less.prems by (cases data; simp)+
    obtain msgs where m: "download_loop env (c + 1) (word_of_nat (a + ?n)) (drop ?n data) = (0, msgs)"
      "concat (map placed msgs) = enumerate (a + ?n) (drop ?n data)" "length msgs = (length data - ?n + 4095) div 4096"
      "\<forall>m\<in>set msgs. fst m = FIRMWARE_DOWNLOAD \<and> length (snd (snd m)) \<le> 4096"
      using less.hyps [of "drop ?n data" "a + ?n" "c + 1"] False less.prems a(1) by (fastforce simp: min_def)
    have "enumerate a data = enumerate a (take ?n data) @ enumerate (a + ?n) (drop ?n data)"
      using enumerate_append_eq [of a "take ?n data" "drop ?n data"] by simp
    moreover have "Suc (length msgs) = (length data + 4095) div 4096" using False m(3) by (simp add: chunk_count)
    moreover have "\<not> ke_ctrl env c < 0" using assms(1) by (simp add: not_less)
    ultimately show ?thesis
      using False m a fw_value [OF a(2)] by (subst download_loop.simps) (auto simp: Let_def placed_def)
  qed
qed

abbreviation fw_heap :: "hif_fw \<Rightarrow> kheap" where
  "fw_heap p \<equiv> al_heap (fh_alloc p)"

lemma temporary_object:
  assumes "owns base A h" and "k_alloc env K_mem h = (Some n, h')"
  shows "\<exists>h''. k_free n h' = Some h'' \<and> kh_obj h'' = kh_obj h \<and> owns base A h''"
proof -
  have a: "n \<notin> A" "kh_obj h n = None" "owns base (insert n A) h'" "kh_obj h' = (kh_obj h)(n \<mapsto> K_mem)"
    using owns_alloc [OF assms] by auto
  obtain h'' where h: "k_free n h' = Some h''" "owns base (insert n A - {n}) h''" "kh_obj h'' = (kh_obj h')(n := None)"
    using owns_free [OF a(3), of n] a(4) by auto
  moreover have "kh_obj h'' = kh_obj h" using h(3) a(2,4) by (auto simp: fun_eq_iff)
  ultimately show ?thesis using a(1) by auto
qed

lemma download_fw_heap:
  assumes "owns base A (fw_heap p)"
  shows "\<exists>ret h ms. ath9k_hif_usb_download_fw env p = Some (ret, p\<lparr>fh_alloc := (fh_alloc p)\<lparr>al_heap := h\<rparr>, ctrl_sent := ms\<rparr>) \<and>
    kh_obj h = kh_obj (fw_heap p) \<and> owns base A h"
proof (cases "k_alloc env K_mem (fw_heap p)")
  case (Pair r h)
  show ?thesis
  proof (cases r)
    case None
    then show ?thesis
      using Pair owns_alloc [OF assms Pair]
      by (intro exI [of _ "- ENOMEM"] exI [of _ h] exI [of _ "ctrl_sent p"]) (simp add: ath9k_hif_usb_download_fw_def Let_def)
  next
    case (Some n)
    obtain h' where h: "k_free n h = Some h'" "kh_obj h' = kh_obj (fw_heap p)" "owns base A h'"
      using temporary_object [OF assms] Pair Some by blast
    obtain err msgs where d: "download_loop env (length (ctrl_sent p)) AR9271_FIRMWARE (fw_data p) = (err, msgs)"
      by (cases "download_loop env (length (ctrl_sent p)) AR9271_FIRMWARE (fw_data p)")
    have "\<exists>ret ms. ath9k_hif_usb_download_fw env p = Some (ret, p\<lparr>fh_alloc := (fh_alloc p)\<lparr>al_heap := h'\<rparr>, ctrl_sent := ms\<rparr>)"
      using Pair Some h(1) d by (auto simp: ath9k_hif_usb_download_fw_def Let_def)
    then show ?thesis using h(2,3) by blast
  qed
qed

text \<open>C9: When the control messages succeed, the download returns 0, the target has received exactly the bytes of the
  firmware at the addresses from \<open>0x501000\<close> on, in messages of at most 4096 bytes, then one message with the start
  address, and the temporary buffer has been freed. The image must end below \<open>2\<^sup>24\<close>: the address travels as the 16 bits
  above the lowest 8.\<close>

theorem download_fw_exact:
  assumes "\<And>n. kh_obj (fw_heap p) n \<noteq> None \<Longrightarrow> n < kh_next (fw_heap p)" and "ke_alloc env (kh_next (fw_heap p))"
    and "\<forall>i. 0 \<le> ke_ctrl env i" and "ke_ctrl env (length (ctrl_sent p) + (length (fw_data p) + 4095) div 4096) = 0"
    and "0x501000 + length (fw_data p) \<le> 2 ^ 24"
  shows "\<exists>q msgs. ath9k_hif_usb_download_fw env p = Some (0, q) \<and>
    ctrl_sent q = ctrl_sent p @ msgs @
      [(FIRMWARE_DOWNLOAD_COMP, if IS_AR7010_DEVICE (driver_info p) then 0x9060 else 0x9030, [])] \<and>
    concat (map placed msgs) = enumerate 0x501000 (fw_data p) \<and>
    (\<forall>m\<in>set msgs. fst m = FIRMWARE_DOWNLOAD \<and> length (snd (snd m)) \<le> 4096) \<and>
    kh_obj (fw_heap q) = kh_obj (fw_heap p)"
proof -
  have own: "owns (kh_obj (fw_heap p)) {} (fw_heap p)" using assms(1) by (rule owns_start)
  obtain h where a: "k_alloc env K_mem (fw_heap p) = (Some (kh_next (fw_heap p)), h)"
    using assms(2) by (simp add: k_alloc_def Let_def)
  obtain h' where h: "k_free (kh_next (fw_heap p)) h = Some h'" "kh_obj h' = kh_obj (fw_heap p)"
    using temporary_object [OF own a] by blast
  obtain msgs where m: "download_loop env (length (ctrl_sent p)) AR9271_FIRMWARE (fw_data p) = (0, msgs)"
    "concat (map placed msgs) = enumerate 0x501000 (fw_data p)" "length msgs = (length (fw_data p) + 4095) div 4096"
    "\<forall>m\<in>set msgs. fst m = FIRMWARE_DOWNLOAD \<and> length (snd (snd m)) \<le> 4096"
    using download_loop_placed [OF assms(3), of "0x501000" "fw_data p" "length (ctrl_sent p)"] assms(5) by auto
  then show ?thesis using a h assms(4) by (auto simp: ath9k_hif_usb_download_fw_def Let_def)
qed

definition ex_fw :: hif_fw where
  "ex_fw = \<lparr>fh_alloc = ex_alloc_state, fh_target = ex_target0, htc_handle = None, driver_info = AR9271_USB,
     fw_data = map word_of_nat [0..<5000], fw_done = 0, fw_held = 1, endpoints = [], ctrl_sent = [], bulk_sent = [],
     fh_ups = [], released = False\<rparr>"

theorem download_fw_exact_witness:
  "\<exists>q msgs. ath9k_hif_usb_download_fw ex_kernel ex_fw = Some (0, q) \<and> ctrl_sent q = msgs @ [(0x31, 0x9030, [])] \<and>
    concat (map placed msgs) = enumerate 0x501000 (map word_of_nat [0..<5000])"
proof -
  have h: "ke_alloc ex_kernel (kh_next (fw_heap ex_fw))" "\<forall>i. 0 \<le> ke_ctrl ex_kernel i"
    "ke_ctrl ex_kernel (length (ctrl_sent ex_fw) + (length (fw_data ex_fw) + 4095) div 4096) = 0"
    "0x501000 + length (fw_data ex_fw) \<le> 2 ^ 24" "kh_obj (fw_heap ex_fw) n = None" for n
    by (simp_all add: ex_kernel_def ex_fw_def ex_alloc_state_def)
  have f: "ctrl_sent ex_fw = []" "fw_data ex_fw = map word_of_nat [0..<5000]" "\<not> IS_AR7010_DEVICE (driver_info ex_fw)"
    by (simp_all only: ex_fw_def hif_fw.simps IS_AR7010_DEVICE_def usb_device_kind.distinct simp_thms)
  from download_fw_exact [OF _ h(1-4)] h(5) show ?thesis by (fastforce simp only: f if_False append_Nil)
qed

section \<open>The second half of the probe\<close>

definition probe_spec :: "(hif_fw \<Rightarrow> (int \<times> hif_fw) option) \<Rightarrow> bool" where
  \<comment> \<open>what the callback relies on of \<open>ath9k_htc_hw_init\<close>: it keeps the handle and the state of the firmware, and a
      failing one leaves the buffers allocated and no frame in flight\<close>
  "probe_spec probe \<longleftrightarrow> (\<forall>p. \<exists>ret q. probe p = Some (ret, q) \<and> htc_handle q = htc_handle p \<and> fw_done q = fw_done p \<and>
     fw_held q = fw_held p \<and> released q = released p \<and>
     (ret \<noteq> 0 \<and> tx_quiet (fh_alloc p) \<and> regout_submitted (al_dev (fh_alloc p)) = [] \<longrightarrow>
        (\<exists>d. fh_alloc q = (fh_alloc p)\<lparr>al_dev := d\<rparr> \<and> regout_submitted d = [] \<and> mgmt_submitted d = [] \<and>
           tx_pending (dev_tx d) = [] \<and> tx_buf_free (dev_tx d) = tx_buf_free (dev_tx (al_dev (fh_alloc p))))))"

lemma ready_flag: "has_flag (x OR HIF_USB_READY) HIF_USB_READY"
proof -
  have "bit ((x OR HIF_USB_READY) AND HIF_USB_READY) 1" by (simp add: HIF_USB_READY_def bit_simps)
  then show ?thesis by (auto simp: has_flag_def)
qed

lemma dev_init_owned:
  assumes "owns base {} (fw_heap p)" and "\<forall>i. ke_submit env i \<le> 0"
  shows "\<exists>ret q. ath9k_hif_usb_dev_init env answer p = Some (ret, q) \<and> htc_handle q = htc_handle p \<and> fw_done q = fw_done p \<and>
    fw_held q = fw_held p \<and> released q = released p \<and>
    (ret \<noteq> 0 \<and> owns base {} (fw_heap q) \<or> ret = 0 \<and> (\<exists>us vs. urbs_ready base (fh_alloc q) us vs))"
proof -
  obtain ret h ms where d: "ath9k_hif_usb_download_fw env p = Some (ret, p\<lparr>fh_alloc := (fh_alloc p)\<lparr>al_heap := h\<rparr>, ctrl_sent := ms\<rparr>)"
    "owns base {} h"
    using download_fw_heap [OF assms(1)] by blast
  have "owns base {} (al_heap ((fh_alloc p)\<lparr>al_heap := h\<rparr>))" using d(2) by simp
  then obtain ret' q where a: "ath9k_hif_usb_alloc_urbs env answer (fh_target p) ((fh_alloc p)\<lparr>al_heap := h\<rparr>) = Some (ret', fh_target p, q, [])"
    "ret' = - ENOMEM \<and> owns base {} (al_heap q) \<or> ret' = 0 \<and> (\<exists>us vs. urbs_ready base q us vs)"
    using alloc_urbs_owned [OF _ assms(2), of base "(fh_alloc p)\<lparr>al_heap := h\<rparr>" answer "fh_target p"] by blast
  show ?thesis
  proof (cases "ret = 0")
    case True
    let ?q = "p\<lparr>fh_alloc := q, ctrl_sent := ms, endpoints := map patch_endpoint (endpoints p)\<rparr>"
    have "ath9k_hif_usb_dev_init env answer p = Some (ret', ?q)"
      using True d(1) a(1) by (simp add: ath9k_hif_usb_dev_init_def Let_def)
    moreover have "- ENOMEM \<noteq> 0" by (simp add: ENOMEM_def)
    then have "ret' \<noteq> 0 \<and> owns base {} (al_heap q) \<or> ret' = 0 \<and> (\<exists>us vs. urbs_ready base q us vs)"
      using a(2) by metis
    ultimately show ?thesis by (intro exI [of _ ret'] exI [of _ ?q]) simp
  qed (use d in \<open>simp add: ath9k_hif_usb_dev_init_def\<close>)
qed

lemma free_htc_owned:
  assumes "htc_handle p = Some n" and "owns (base(n \<mapsto> K_mem)) {} (fw_heap p)" and "base n = None"
  shows "\<exists>h. free_htc p = Some (p\<lparr>fh_alloc := (fh_alloc p)\<lparr>al_heap := h\<rparr>\<rparr>) \<and> kh_obj h = base"
proof -
  have o: "kh_obj (fw_heap p) = base(n \<mapsto> K_mem)" using assms(2) by (rule owns_empty)
  have "base(n := None) = base" using assms(3) by auto
  then show ?thesis
    using o assms(1)
    by (intro exI [of _ "(fw_heap p)\<lparr>kh_obj := base(n := None)\<rparr>"]) (simp add: free_htc_def k_free_def)
qed

lemma deinit_free_owned:
  assumes "urbs_ready (base(n \<mapsto> K_mem)) (fh_alloc p) us vs" and "htc_handle p = Some n" and "base n = None"
  shows "\<exists>g. ath9k_hif_usb_dev_deinit answer p = Some (p\<lparr>fh_alloc := g\<rparr>) \<and>
    (\<exists>h. free_htc (p\<lparr>fh_alloc := g\<rparr>) = Some (p\<lparr>fh_alloc := g\<lparr>al_heap := h\<rparr>\<rparr>) \<and> kh_obj h = base)"
proof -
  obtain g where g: "ath9k_hif_usb_dealloc_urbs answer (fh_target p) (fh_alloc p) = Some (fh_target p, g, [])"
    "owns (base(n \<mapsto> K_mem)) {} (al_heap g)"
    using dealloc_urbs_ready [OF assms(1)] by blast
  then show ?thesis
    using free_htc_owned [of "p\<lparr>fh_alloc := g\<rparr>" n base] assms(2,3) by (intro exI [of _ g]) (simp add: ath9k_hif_usb_dev_deinit_def)
qed


definition ex_probe :: "hif_fw \<Rightarrow> (int \<times> hif_fw) option" where
  "ex_probe p = Some (- ENODEV, p)"


end
