(* ===== verification/Ath9k_Calib.thy ===== *)
theory Ath9k_Calib
  imports Ath9k_Power "HOL-Library.Multiset"
begin

text \<open>
  Noise floor calibration (\<open>ath9k/calib.c\<close>) with the reading of the noise floor on the chips of the USB
  adapters (\<open>ath9k/ar9002_phy.c\<close>).

  Signed 16 bit values are words read by \<open>sint\<close>. A channel is extended by its noise floor; \<open>nf_hw\<close> holds the
  fields of \<open>struct ath_hw\<close> for calibration. The EEPROM and the hook that reads the noise floor are parameters
  of \<open>ath9k_hw_getnf\<close>.
\<close>

section \<open>Data\<close>

abbreviation (input) ATH9K_NF_CAL_HIST_MAX :: nat where "ATH9K_NF_CAL_HIST_MAX \<equiv> 5"
abbreviation (input) NUM_NF_READINGS :: nat where "NUM_NF_READINGS \<equiv> 6"
abbreviation (input) AR5416_MAX_CHAINS :: nat where "AR5416_MAX_CHAINS \<equiv> 3"
abbreviation (input) AR_PHY_CCA_FILTERWINDOW_LENGTH :: u8 where "AR_PHY_CCA_FILTERWINDOW_LENGTH \<equiv> 5"
abbreviation (input) ATH9K_NF_CAL_NOISE_THRESH :: u16 where "ATH9K_NF_CAL_NOISE_THRESH \<equiv> 6"
abbreviation (input) ATH_DEFAULT_NOISE_FLOOR :: u8 where "ATH_DEFAULT_NOISE_FLOOR \<equiv> - 95"
abbreviation (input) CHANNEL_CW_INT :: u32 where "CHANNEL_CW_INT \<equiv> 2"
abbreviation (input) AR_PHY_AGC_CONTROL_NF :: u32 where "AR_PHY_AGC_CONTROL_NF \<equiv> 2"
abbreviation (input) AR_PHY_AGC_CONTROL_ENABLE_NF :: u32 where "AR_PHY_AGC_CONTROL_ENABLE_NF \<equiv> 0x8000"
abbreviation (input) AR_PHY_AGC_CONTROL_NO_UPDATE_NF :: u32 where "AR_PHY_AGC_CONTROL_NO_UPDATE_NF \<equiv> 0x20000"
abbreviation (input) AR_PHY_CCA :: u32 where "AR_PHY_CCA \<equiv> 0x9864"
abbreviation (input) AR_PHY_EXT_CCA :: u32 where "AR_PHY_EXT_CCA \<equiv> 0x99bc"
abbreviation (input) AR_PHY_CH1_CCA :: u32 where "AR_PHY_CH1_CCA \<equiv> 0xa864"
abbreviation (input) AR_PHY_CH1_EXT_CCA :: u32 where "AR_PHY_CH1_EXT_CCA \<equiv> 0xa9bc"
abbreviation (input) AR_PHY_TIMING_CTRL4 :: u32 where "AR_PHY_TIMING_CTRL4 \<equiv> 0x9920"
abbreviation (input) AR_PHY_CALMODE :: u32 where "AR_PHY_CALMODE \<equiv> 0x99f0"
abbreviation (input) ADC_GAIN_CAL :: u32 where "ADC_GAIN_CAL \<equiv> 1"
abbreviation (input) ADC_DC_CAL :: u32 where "ADC_DC_CAL \<equiv> 2"
abbreviation (input) IQ_MISMATCH_CAL :: u32 where "IQ_MISMATCH_CAL \<equiv> 4"

record ath9k_nfcal_hist =
  nfCalBuffer :: "u16 list"
  currIndex :: u8
  privNF :: u16
  invalidNFcount :: u8

record ath_nf_limits =
  nf_max :: u16
  nf_min :: u16
  nf_nominal :: u16

record ath9k_hw_cal_data =
  cd_channel :: u16
  cd_channelFlags :: u32
  cd_chanmode :: u32
  CalValid :: u32
  nfcal_pending :: bool
  nfcal_interference :: bool
  nfCalHist :: "ath9k_nfcal_hist list"

datatype ath9k_cal_state = CAL_INACTIVE | CAL_WAITING | CAL_RUNNING | CAL_DONE

record ath9k_cal_list =
  calType :: u32
  calCountMax :: u32
  calState :: ath9k_cal_state

record cal_channel = ath9k_channel +
  noisefloor :: u16

record nf_hw =
  nf_2g :: ath_nf_limits
  nf_5g :: ath_nf_limits
  rxchainmask :: u8
  nf_regs :: "u32 list"
  caldata :: "ath9k_hw_cal_data option"
  hw_noise :: u8
  supp_cals :: u32
  meas :: "u32 list list"
  cal_samples :: u16

definition AR_PHY_AGC_CONTROL :: "ath_hw \<Rightarrow> u32" where
  "AR_PHY_AGC_CONTROL ah = (if AR_SREV_9300_20_OR_LATER ah then 0xa2c4 else 0x9860)"

definition AR_SREV_9285 :: "ath_hw \<Rightarrow> bool" where
  "AR_SREV_9285 ah \<longleftrightarrow> macVersion ah = 0xC0"

definition AR_SREV_9287 :: "ath_hw \<Rightarrow> bool" where
  "AR_SREV_9287 ah \<longleftrightarrow> macVersion ah = 0x180"

definition AR_SREV_9160_10_OR_LATER :: "ath_hw \<Rightarrow> bool" where
  "AR_SREV_9160_10_OR_LATER ah \<longleftrightarrow> 0x40 \<le> macVersion ah"

definition IS_CHAN_2GHZ :: "'a ath9k_channel_scheme \<Rightarrow> bool" where
  "IS_CHAN_2GHZ c \<longleftrightarrow> has_flag (channelFlags c) CHANNEL_2GHZ"

definition IS_CHAN_HT40 :: "'a ath9k_channel_scheme \<Rightarrow> bool" where
  "IS_CHAN_HT40 c \<longleftrightarrow> chanmode c \<in> {CHANNEL_5GHZ OR CHANNEL_HT40PLUS, CHANNEL_5GHZ OR CHANNEL_HT40MINUS,
     CHANNEL_2GHZ OR CHANNEL_HT40PLUS, CHANNEL_2GHZ OR CHANNEL_HT40MINUS}"

section \<open>The history buffer\<close>

fun nf_inner :: "nat \<Rightarrow> nat \<Rightarrow> u16 list \<Rightarrow> u16 list" where
  \<comment> \<open>the inner loop from \<open>j\<close> on, with the number of rounds left\<close>
  "nf_inner j 0 xs = xs"
| "nf_inner j (Suc n) xs = nf_inner (Suc j) n
     (if sint (xs ! j) > sint (xs ! (j - 1)) then xs[j := xs ! (j - 1), j - 1 := xs ! j] else xs)"

definition ath9k_hw_get_nf_hist_mid :: "u16 list \<Rightarrow> u16" where
  "ath9k_hw_get_nf_hist_mid buf =
     fold (\<lambda>i. nf_inner 1 (ATH9K_NF_CAL_HIST_MAX - i - 1)) [0..<ATH9K_NF_CAL_HIST_MAX - 1]
       (take ATH9K_NF_CAL_HIST_MAX buf) ! ((ATH9K_NF_CAL_HIST_MAX - 1) div 2)"

definition ath9k_hw_get_nf_limits :: "nf_hw \<Rightarrow> cal_channel option \<Rightarrow> ath_nf_limits" where
  "ath9k_hw_get_nf_limits ah chan =
     (case chan of None \<Rightarrow> nf_2g ah | Some c \<Rightarrow> if IS_CHAN_2GHZ c then nf_2g ah else nf_5g ah)"

definition ath9k_hw_get_default_nf :: "nf_hw \<Rightarrow> cal_channel option \<Rightarrow> u16" where
  "ath9k_hw_get_default_nf ah chan = nf_nominal (ath9k_hw_get_nf_limits ah chan)"

definition ath9k_hw_getchan_noise :: "nf_hw \<Rightarrow> cal_channel option \<Rightarrow> u8" where
  \<comment> \<open>the difference is stored in an \<open>s8\<close>\<close>
  "ath9k_hw_getchan_noise ah chan = (case chan of
       None \<Rightarrow> ATH_DEFAULT_NOISE_FLOOR
     | Some c \<Rightarrow>
         if noisefloor c \<noteq> 0 then
           (let delta = (ucast (noisefloor c - ATH9K_NF_CAL_NOISE_THRESH - ath9k_hw_get_default_nf ah chan) :: u8) in
            if 0 < sint delta then ATH_DEFAULT_NOISE_FLOOR + delta else ATH_DEFAULT_NOISE_FLOOR)
         else ATH_DEFAULT_NOISE_FLOOR)"

definition nf_chainmask :: "nf_hw \<Rightarrow> u8" where
  "nf_chainmask ah = push_bit 3 (rxchainmask ah) OR rxchainmask ah"

definition nf_active :: "nf_hw \<Rightarrow> bool \<Rightarrow> nat \<Rightarrow> bool" where
  \<comment> \<open>whether reading \<open>i\<close> is used\<close>
  "nf_active ah ht40 i \<longleftrightarrow> bit (nf_chainmask ah) i \<and> (i < AR5416_MAX_CHAINS \<or> ht40)"

definition update_nfcal_hist ::
  "ath_nf_limits \<Rightarrow> bool \<Rightarrow> u16 \<Rightarrow> ath9k_nfcal_hist \<Rightarrow> (ath9k_nfcal_hist \<times> bool) option" where
  \<comment> \<open>the body of the loop; whether the median is above the maximum\<close>
  "update_nfcal_hist limit interference nf h =
     (if unat (currIndex h) < length (nfCalBuffer h) then
        (let buf = (nfCalBuffer h)[unat (currIndex h) := nf];
             idx = currIndex h + 1;
             h = h\<lparr>nfCalBuffer := buf, currIndex := if 5 \<le> idx then 0 else idx\<rparr>;
             h = (if 0 < invalidNFcount h then h\<lparr>invalidNFcount := invalidNFcount h - 1, privNF := nf\<rparr>
                  else h\<lparr>privNF := ath9k_hw_get_nf_hist_mid buf\<rparr>)
         in if privNF h = 0 then Some (h, False)
            else if sint (privNF h) > sint (nf_max limit)
            then Some (if interference then h else h\<lparr>privNF := nf_max limit\<rparr>, True)
            else Some (h, False))
      else None)"

fun update_nfcal_loop ::
  "nf_hw \<Rightarrow> ath_nf_limits \<Rightarrow> bool \<Rightarrow> bool \<Rightarrow> nat \<Rightarrow> u16 list \<Rightarrow> ath9k_nfcal_hist list \<Rightarrow>
     (ath9k_nfcal_hist list \<times> bool) option" where
  "update_nfcal_loop ah limit ht40 interference i (nf # nfs) (h # hs) = do {
     (h, high) \<leftarrow> (if nf_active ah ht40 i then update_nfcal_hist limit interference nf h else Some (h, False));
     (hs, high') \<leftarrow> update_nfcal_loop ah limit ht40 interference (Suc i) nfs hs;
     Some (h # hs, high \<or> high') }"
| "update_nfcal_loop ah limit ht40 interference i [] hs = Some (hs, False)"
| "update_nfcal_loop ah limit ht40 interference i nfs [] = None"

definition ath9k_hw_update_nfcal_hist_buffer ::
  "nf_hw \<Rightarrow> cal_channel \<Rightarrow> ath9k_hw_cal_data \<Rightarrow> u16 list \<Rightarrow> ath9k_hw_cal_data option" where
  \<comment> \<open>\<open>cur\<close> is \<open>ah->curchan\<close>\<close>
  "ath9k_hw_update_nfcal_hist_buffer ah cur cal nfarray = do {
     (hs, high_nf_mid) \<leftarrow> update_nfcal_loop ah (ath9k_hw_get_nf_limits ah (Some cur)) (IS_CHAN_HT40 cur)
       (nfcal_interference cal) 0 nfarray (nfCalHist cal);
     Some (cal\<lparr>nfCalHist := hs, nfcal_interference := (if high_nf_mid then nfcal_interference cal else False)\<rparr>) }"

definition ath9k_init_nfcal_hist_buffer :: "cal_channel \<Rightarrow> nf_hw \<Rightarrow> nf_hw option" where
  "ath9k_init_nfcal_hist_buffer chan ah = do {
     cal \<leftarrow> caldata ah;
     let default_nf = ath9k_hw_get_default_nf ah (Some chan);
     let h = \<lparr>nfCalBuffer = replicate ATH9K_NF_CAL_HIST_MAX default_nf, currIndex = 0, privNF = default_nf,
              invalidNFcount = AR_PHY_CCA_FILTERWINDOW_LENGTH\<rparr>;
     Some (ah\<lparr>caldata := Some (cal\<lparr>cd_channel := ic_channel chan, cd_channelFlags := channelFlags chan AND NOT CHANNEL_CW_INT,
       cd_chanmode := chanmode chan, nfCalHist := replicate NUM_NF_READINGS h\<rparr>)\<rparr>) }"

section \<open>Registers\<close>

definition MS :: "u32 \<Rightarrow> u32 \<Rightarrow> nat \<Rightarrow> u32" where
  "MS v f f_S = drop_bit f_S (v AND f)"

definition sign_extend32 :: "u32 \<Rightarrow> nat \<Rightarrow> u32" where
  "sign_extend32 value index = (let shift = 31 - index in signed_drop_bit shift (push_bit shift value))"

definition nf_field :: "u32 \<Rightarrow> u32 \<Rightarrow> nat \<Rightarrow> u16" where
  \<comment> \<open>a reading of nine bits, first stored in an \<open>int16_t\<close>\<close>
  "nf_field v f f_S = ucast (sign_extend32 (scast (ucast (MS v f f_S) :: u16)) 8)"

definition ar9002_hw_do_getnf ::
  "'s ath_ops \<Rightarrow> ath_hw \<Rightarrow> cal_channel \<Rightarrow> u16 list \<Rightarrow> 's \<Rightarrow> (u16 list \<times> 's) option" where
  "ar9002_hw_do_getnf ops ah cur nfarray s = do {
     (v, s) \<leftarrow> op_read ops AR_PHY_CCA s;
     let nfarray = nfarray[0 := nf_field v 0x1FF00000 20];
     (v, s) \<leftarrow> op_read ops AR_PHY_EXT_CCA s;
     let nfarray = (if IS_CHAN_HT40 cur then nfarray[3 := nf_field v 0x01FF0000 16] else nfarray);
     if AR_SREV_9285 ah \<or> AR_SREV_9271 ah then Some (nfarray, s)
     else do {
       (v, s) \<leftarrow> op_read ops AR_PHY_CH1_CCA s;
       let nfarray = nfarray[1 := nf_field v 0x1FF00000 20];
       (v, s) \<leftarrow> op_read ops AR_PHY_CH1_EXT_CCA s;
       Some (if IS_CHAN_HT40 cur then nfarray[4 := nf_field v 0x01FF0000 16] else nfarray, s) } }"

definition ar9002_hw_set_nf_limits :: "ath_hw \<Rightarrow> nf_hw \<Rightarrow> nf_hw" where
  "ar9002_hw_set_nf_limits ah n =
     (if AR_SREV_9285 ah then n\<lparr>nf_2g := \<lparr>nf_max = - 108, nf_min = - 127, nf_nominal = - 118\<rparr>\<rparr>
      else if AR_SREV_9287 ah then n\<lparr>nf_2g := \<lparr>nf_max = - 110, nf_min = - 127, nf_nominal = - 120\<rparr>\<rparr>
      else if AR_SREV_9271 ah then n\<lparr>nf_2g := \<lparr>nf_max = - 116, nf_min = - 127, nf_nominal = - 118\<rparr>\<rparr>
      else n\<lparr>nf_2g := \<lparr>nf_max = - 97, nf_min = - 127, nf_nominal = - 112\<rparr>,
             nf_5g := \<lparr>nf_max = - 102, nf_min = - 122, nf_nominal = - 112\<rparr>\<rparr>)"

definition sanitize_nf :: "ath_nf_limits \<Rightarrow> u16 \<Rightarrow> u16" where
  "sanitize_nf limit nf =
     (if nf = 0 then nf
      else if sint nf > sint (nf_max limit) then nf_max limit
      else if sint nf < sint (nf_min limit) then nf_nominal limit
      else nf)"

definition ath9k_hw_nf_sanitize :: "nf_hw \<Rightarrow> cal_channel \<Rightarrow> u16 list \<Rightarrow> u16 list" where
  "ath9k_hw_nf_sanitize ah cur nf = map (sanitize_nf (if IS_CHAN_2GHZ cur then nf_2g ah else nf_5g ah)) nf"

definition ath9k_hw_get_nf_thresh :: "(ieee80211_band \<Rightarrow> u32) \<Rightarrow> ieee80211_band \<Rightarrow> u16 option" where
  \<comment> \<open>\<open>get_eeprom\<close> gives \<open>EEP_NFTHRESH_2\<close> and \<open>EEP_NFTHRESH_5\<close>; other bands are a \<open>BUG_ON\<close>\<close>
  "ath9k_hw_get_nf_thresh get_eeprom band =
     (if band = BAND_60GHZ then None else Some (scast (ucast (get_eeprom band) :: u8)))"

definition set_cw_int :: "bool \<Rightarrow> cal_channel \<Rightarrow> cal_channel" where
  "set_cw_int b c = c\<lparr>channelFlags := (if b then channelFlags c OR CHANNEL_CW_INT else channelFlags c AND NOT CHANNEL_CW_INT)\<rparr>"

definition ath9k_hw_getnf ::
  "'s ath_ops \<Rightarrow> (u16 list \<Rightarrow> 's \<Rightarrow> (u16 list \<times> 's) option) \<Rightarrow> (ieee80211_band \<Rightarrow> u32) \<Rightarrow> ath_hw \<Rightarrow> cal_channel \<Rightarrow>
     cal_channel \<Rightarrow> nf_hw \<Rightarrow> 's \<Rightarrow> (bool \<times> cal_channel \<times> nf_hw \<times> 's) option" where
  \<comment> \<open>\<open>cur\<close> is \<open>ah->curchan\<close>; of it only the band and the mode are read, which are not changed when it is
      also \<open>chan\<close>\<close>
  "ath9k_hw_getnf ops do_getnf get_eeprom ah cur chan n s = do {
     let chan = set_cw_int False chan;
     (v, s) \<leftarrow> op_read ops (AR_PHY_AGC_CONTROL ah) s;
     if has_flag v AR_PHY_AGC_CONTROL_NF then Some (False, chan, n, s)
     else do {
       (nfarray, s) \<leftarrow> do_getnf (replicate NUM_NF_READINGS 0) s;
       let nfarray = ath9k_hw_nf_sanitize n cur nfarray;
       let nf = nfarray ! 0;
       nfThresh \<leftarrow> ath9k_hw_get_nf_thresh get_eeprom (ch_band (ic_chan chan));
       let chan = (if sint nf > sint nfThresh then set_cw_int True chan else chan);
       (case caldata n of
          None \<Rightarrow>
            (let chan = chan\<lparr>noisefloor := nf\<rparr>
             in Some (False, chan, n\<lparr>hw_noise := ath9k_hw_getchan_noise n (Some chan)\<rparr>, s))
        | Some cal \<Rightarrow> do {
            cal \<leftarrow> ath9k_hw_update_nfcal_hist_buffer n cur (cal\<lparr>nfcal_pending := False\<rparr>) nfarray;
            let chan = chan\<lparr>noisefloor := privNF (nfCalHist cal ! 0)\<rparr>;
            Some (True, chan, n\<lparr>caldata := Some cal, hw_noise := ath9k_hw_getchan_noise n (Some chan)\<rparr>, s) }) } }"

definition ath9k_hw_start_nfcal :: "'s ath_ops \<Rightarrow> ath_hw \<Rightarrow> bool \<Rightarrow> nf_hw \<Rightarrow> 's \<Rightarrow> (nf_hw \<times> 's) option" where
  "ath9k_hw_start_nfcal ops ah update n s = do {
     let n = n\<lparr>caldata := map_option (\<lambda>cal. cal\<lparr>nfcal_pending := True\<rparr>) (caldata n)\<rparr>;
     s \<leftarrow> REG_RUN ops
       [REG_SET_BIT (AR_PHY_AGC_CONTROL ah) AR_PHY_AGC_CONTROL_ENABLE_NF,
        (if update then REG_CLR_BIT (AR_PHY_AGC_CONTROL ah) AR_PHY_AGC_CONTROL_NO_UPDATE_NF
         else REG_SET_BIT (AR_PHY_AGC_CONTROL ah) AR_PHY_AGC_CONTROL_NO_UPDATE_NF),
        REG_SET_BIT (AR_PHY_AGC_CONTROL ah) AR_PHY_AGC_CONTROL_NF] s;
     Some (n, s) }"

definition nf_reg_value :: "u32 \<Rightarrow> u32 \<Rightarrow> u32" where
  "nf_reg_value val nf = (val AND 0xFFFFFE00) OR (push_bit 1 nf AND 0x1ff)"

fun load_nf_regs :: "'s ath_ops \<Rightarrow> (nat \<Rightarrow> bool) \<Rightarrow> (nat \<Rightarrow> u32) \<Rightarrow> nat \<Rightarrow> u32 list \<Rightarrow> 's \<Rightarrow> 's option" where
  \<comment> \<open>both loops over the registers: a read, then a write of the lowest nine bits\<close>
  "load_nf_regs ops active nf i [] s = Some s"
| "load_nf_regs ops active nf i (r # rs) s =
     (if active i then do {
        (val, s) \<leftarrow> op_read ops r s;
        s \<leftarrow> op_write ops (nf_reg_value val (nf i)) r s;
        load_nf_regs ops active nf (Suc i) rs s }
      else load_nf_regs ops active nf (Suc i) rs s)"

fun wait_nf_load :: "'s ath_ops \<Rightarrow> ath_hw \<Rightarrow> nat \<Rightarrow> 's \<Rightarrow> (bool \<times> 's) option" where
  "wait_nf_load ops ah 0 s = Some (False, s)"
| "wait_nf_load ops ah (Suc j) s = do {
     (v, s) \<leftarrow> op_read ops (AR_PHY_AGC_CONTROL ah) s;
     if v AND AR_PHY_AGC_CONTROL_NF = 0 then Some (True, s) else wait_nf_load ops ah j s }"

definition loadnf_values :: "nf_hw \<Rightarrow> cal_channel option \<Rightarrow> nat \<Rightarrow> u32" where
  "loadnf_values n chan i = (case caldata n of
       None \<Rightarrow> scast (ath9k_hw_get_default_nf n chan)
     | Some cal \<Rightarrow> scast (privNF (nfCalHist cal ! i)))"

definition ath9k_hw_loadnf ::
  "'s ath_ops \<Rightarrow> ath_hw \<Rightarrow> bool \<Rightarrow> cal_channel option \<Rightarrow> nf_hw \<Rightarrow> 's \<Rightarrow> 's option" where
  \<comment> \<open>\<open>ht40\<close> is \<open>conf_is_ht40(conf)\<close>; the message of the timeout reads the register once more\<close>
  "ath9k_hw_loadnf ops ah ht40 chan n s = do {
     s \<leftarrow> load_nf_regs ops (nf_active n ht40) (loadnf_values n chan) 0 (nf_regs n) s;
     s \<leftarrow> REG_RUN ops
       [REG_CLR_BIT (AR_PHY_AGC_CONTROL ah) AR_PHY_AGC_CONTROL_ENABLE_NF,
        REG_CLR_BIT (AR_PHY_AGC_CONTROL ah) AR_PHY_AGC_CONTROL_NO_UPDATE_NF,
        REG_SET_BIT (AR_PHY_AGC_CONTROL ah) AR_PHY_AGC_CONTROL_NF] s;
     (loaded, s) \<leftarrow> wait_nf_load ops ah 10000 s;
     if \<not> loaded then do { (v, s) \<leftarrow> op_read ops (AR_PHY_AGC_CONTROL ah) s; Some s }
     else do {
       s \<leftarrow> ENABLE_REGWRITE_BUFFER ops s;
       s \<leftarrow> load_nf_regs ops (nf_active n ht40) (\<lambda>i. - 50) 0 (nf_regs n) s;
       REGWRITE_BUFFER_FLUSH ops s } }"

definition ath9k_hw_bstuck_nfcal ::
  "'s ath_ops \<Rightarrow> (u16 list \<Rightarrow> 's \<Rightarrow> (u16 list \<times> 's) option) \<Rightarrow> (ieee80211_band \<Rightarrow> u32) \<Rightarrow> ath_hw \<Rightarrow> cal_channel \<Rightarrow>
     nf_hw \<Rightarrow> 's \<Rightarrow> (cal_channel \<times> nf_hw \<times> 's) option" where
  "ath9k_hw_bstuck_nfcal ops do_getnf get_eeprom ah cur n s = (case caldata n of
       None \<Rightarrow> Some (cur, n, s)
     | Some cal \<Rightarrow> do {
         (cur, n, s) \<leftarrow>
           (if \<not> nfcal_pending cal then do {
              (n, s) \<leftarrow> ath9k_hw_start_nfcal ops ah True n s;
              Some (cur, n, s) }
            else do {
              (v, s) \<leftarrow> op_read ops (AR_PHY_AGC_CONTROL ah) s;
              if \<not> has_flag v AR_PHY_AGC_CONTROL_NF then do {
                (r, cur, n, s) \<leftarrow> ath9k_hw_getnf ops do_getnf get_eeprom ah cur cur n s;
                Some (cur, n, s) }
              else Some (cur, n, s) });
         Some (cur, n\<lparr>caldata := map_option (\<lambda>cal. cal\<lparr>nfcal_interference := True\<rparr>) (caldata n)\<rparr>, s) })"

section \<open>Periodic calibrations\<close>

definition ar9002_hw_setup_calibration :: "'s ath_ops \<Rightarrow> ath9k_cal_list \<Rightarrow> 's \<Rightarrow> 's option" where
  "ar9002_hw_setup_calibration ops cal s = REG_RUN ops
     ([REG_RMW_FIELD AR_PHY_TIMING_CTRL4 0xF000 12 (calCountMax cal)] @
      (if calType cal = IQ_MISMATCH_CAL then [REG_WRITE AR_PHY_CALMODE 0]
       else if calType cal = ADC_GAIN_CAL then [REG_WRITE AR_PHY_CALMODE 1]
       else if calType cal = ADC_DC_CAL then [REG_WRITE AR_PHY_CALMODE 2] else []) @
      [REG_SET_BIT AR_PHY_TIMING_CTRL4 0x10000]) s"

definition ath9k_hw_reset_calibration ::
  "'s ath_ops \<Rightarrow> ath9k_cal_list \<Rightarrow> nf_hw \<Rightarrow> 's \<Rightarrow> (ath9k_cal_list \<times> nf_hw \<times> 's) option" where
  \<comment> \<open>with the set-up of the AR9002 family\<close>
  "ath9k_hw_reset_calibration ops cal n s = do {
     s \<leftarrow> ar9002_hw_setup_calibration ops cal s;
     Some (cal\<lparr>calState := CAL_RUNNING\<rparr>, n\<lparr>meas := replicate 4 (replicate AR5416_MAX_CHAINS 0), cal_samples := 0\<rparr>, s) }"

definition ath9k_hw_reset_calvalid ::
  "ath_hw \<Rightarrow> ath9k_cal_list option \<Rightarrow> nf_hw \<Rightarrow> bool \<times> ath9k_cal_list option \<times> nf_hw" where
  "ath9k_hw_reset_calvalid ah currCal n = (case caldata n of
       None \<Rightarrow> (True, currCal, n)
     | Some cd \<Rightarrow>
         if \<not> AR_SREV_9100 ah \<and> \<not> AR_SREV_9160_10_OR_LATER ah then (True, currCal, n)
         else (case currCal of
             None \<Rightarrow> (True, currCal, n)
           | Some cal \<Rightarrow>
               if calState cal \<noteq> CAL_DONE then (True, currCal, n)
               else if supp_cals n AND calType cal = 0 then (True, currCal, n)
               else (False, Some (cal\<lparr>calState := CAL_WAITING\<rparr>),
                 n\<lparr>caldata := Some (cd\<lparr>CalValid := CalValid cd AND NOT (calType cal)\<rparr>)\<rparr>)))"

section \<open>The median\<close>

fun bubble :: "u16 list \<Rightarrow> u16 list" where
  \<comment> \<open>one pass: the smallest value moves to the end\<close>
  "bubble (x # y # zs) = (if sint y > sint x then y # bubble (x # zs) else x # bubble (y # zs))"
| "bubble xs = xs"

lemma nf_inner_prefix: "nf_inner (Suc j) n (x # xs) = x # nf_inner j n xs" if "0 < j"
  using that
proof (induction n arbitrary: j xs)
  case (Suc n)
  then obtain k where "j = Suc k" by (cases j) auto
  then show ?case using Suc.IH [of "Suc j"] by simp
qed simp

lemma nf_inner_bubble: "n < length xs \<Longrightarrow> nf_inner 1 n xs = bubble (take (Suc n) xs) @ drop (Suc n) xs"
proof (induction n arbitrary: xs)
  case 0
  then show ?case by (cases xs) auto
next
  case (Suc n)
  then obtain x y zs where xs: "xs = x # y # zs" by (cases xs; cases "tl xs") auto
  have "nf_inner 1 (Suc n) xs = (if sint y > sint x then y # nf_inner 1 n (x # zs) else x # nf_inner 1 n (y # zs))"
    by (simp add: xs nf_inner_prefix [of 1, simplified])
  then show ?case using Suc.IH [of "x # zs"] Suc.IH [of "y # zs"] Suc.prems by (simp add: xs)
qed

lemma mset_bubble: "mset (bubble xs) = mset xs"
  by (induction xs rule: bubble.induct) auto

lemma bubble_last: "xs \<noteq> [] \<Longrightarrow> bubble xs = butlast (bubble xs) @ [last (bubble xs)] \<and> (\<forall>v\<in>set xs. sint (last (bubble xs)) \<le> sint v)"
proof (induction xs rule: bubble.induct)
  case (1 x y zs)
  have "bubble (z # zs) \<noteq> []" for z by (metis mset_bubble list.discI mset.simps(1) mset_zero_iff)
  then show ?case using 1 by auto
qed auto

lemma nf_passes:
  assumes "length xs = 5" and "k \<le> 4"
  shows "\<exists>p q. fold (\<lambda>i. nf_inner 1 (5 - i - 1)) [0..<k] xs = p @ q \<and> length p = 5 - k \<and> length q = k \<and>
    mset (p @ q) = mset xs \<and> sorted_wrt (\<lambda>a b. sint b \<le> sint a) q \<and> (\<forall>a\<in>set p. \<forall>b\<in>set q. sint b \<le> sint a)"
  using assms(2)
proof (induction k)
  case 0
  then show ?case using assms(1) by (intro exI [of _ xs] exI [of _ "[]"]) simp
next
  case (Suc k)
  then obtain p q where i: "fold (\<lambda>i. nf_inner 1 (5 - i - 1)) [0..<k] xs = p @ q" "length p = 5 - k" "length q = k"
    "mset (p @ q) = mset xs" "sorted_wrt (\<lambda>a b. sint b \<le> sint a) q" "\<forall>a\<in>set p. \<forall>b\<in>set q. sint b \<le> sint a" by auto
  define m where "m = last (bubble p)"
  have p: "p \<noteq> []" using i(2) Suc.prems by auto
  have b: "bubble p = butlast (bubble p) @ [m]" "\<forall>v\<in>set p. sint m \<le> sint v" using bubble_last [OF p] by (auto simp: m_def)
  have s: "set (bubble p) = set p" "length (bubble p) = length p" using mset_bubble [of p] by (metis set_mset_mset, metis size_mset)
  have "m \<in> set p" using b(1) s(1) by (metis in_set_conv_decomp)
  have "nf_inner 1 (5 - k - 1) (p @ q) = bubble p @ q" using nf_inner_bubble [of "4 - k" "p @ q"] i(2,3) Suc.prems by simp
  then have "fold (\<lambda>i. nf_inner 1 (5 - i - 1)) [0..<Suc k] xs = butlast (bubble p) @ m # q" using i(1) b(1) by simp
  moreover have "mset (butlast (bubble p) @ m # q) = mset xs" using i(4) mset_bubble [of p] b(1) by (metis append.assoc append_Cons append_Nil mset_append)
  moreover have "\<forall>a\<in>set (butlast (bubble p)). \<forall>c\<in>set (m # q). sint c \<le> sint a"
    using b(2) i(6) s(1) by (auto dest: in_set_butlastD)
  moreover have "sorted_wrt (\<lambda>a b. sint b \<le> sint a) (m # q)" using i(5,6) \<open>m \<in> set p\<close> by auto
  ultimately show ?case using i(2,3) s(2) by (intro exI [of _ "butlast (bubble p)"] exI [of _ "m # q"]) auto
qed

lemma nf_hist_mid_sorted:
  assumes "length buf = 5"
  shows "ath9k_hw_get_nf_hist_mid buf = sort_key sint buf ! 2"
proof -
  obtain p q where i: "fold (\<lambda>i. nf_inner 1 (5 - i - 1)) [0..<4] buf = p @ q" "length p = 1" "length q = 4"
    "mset (p @ q) = mset buf" "sorted_wrt (\<lambda>a b. sint b \<le> sint a) q" "\<forall>a\<in>set p. \<forall>b\<in>set q. sint b \<le> sint a"
    using nf_passes [OF assms, of 4] by auto
  have "sorted_wrt (\<lambda>a b. sint b \<le> sint a) (p @ q)" using i(2,5,6) by (cases p) (auto simp: sorted_wrt_append)
  then have "sorted (map sint (rev (p @ q)))" by (simp only: sorted_wrt_rev sorted_wrt_map rev_map [symmetric] conversep_iff)
  moreover have "mset (map sint (rev (p @ q))) = mset (map sint buf)" by (simp only: mset_map mset_rev i(4))
  ultimately have "map sint (rev (p @ q)) = sort (map sint buf)" by (metis properties_for_sort)
  moreover have "map sint (sort_key sint buf) = sort (map sint buf)"
    by (rule properties_for_sort [symmetric]) (simp_all only: mset_map mset_sort sorted_sort_key)
  ultimately have "map sint (rev (p @ q)) = map sint (sort_key sint buf)" by simp
  moreover have "inj (sint :: u16 \<Rightarrow> int)" by (meson injI signed_word_eqI)
  ultimately have e: "rev (p @ q) = sort_key sint buf" by (metis inj_map_eq_map)
  have "(p @ q) ! 2 = rev (p @ q) ! 2" using i(2,3) by (simp add: rev_nth del: rev_append)
  then show ?thesis using i(1) e assms by (simp add: ath9k_hw_get_nf_hist_mid_def del: rev_append)
qed

text \<open>C39: The value taken from the history buffer by four passes of exchanges is the median of its five values.\<close>

theorem nf_hist_median:
  assumes "length buf = 5"
  shows "ath9k_hw_get_nf_hist_mid buf = sort_key sint buf ! 2"
  using assms by (rule nf_hist_mid_sorted)

theorem nf_hist_median_witness: "ath9k_hw_get_nf_hist_mid [- 118, - 90, - 120, - 117, - 127] = - 118"
proof -
  have "sort_key sint [- 118, - 90, - 120, - 117, - 127 :: u16] ! 2 = - 118" by simp
  then show ?thesis using nf_hist_median [of "[- 118, - 90, - 120, - 117, - 127]"] by simp
qed

section \<open>Noise floors stay in range\<close>

definition limits_ok :: "ath_nf_limits \<Rightarrow> bool" where
  "limits_ok l \<longleftrightarrow> sint (nf_min l) \<le> sint (nf_nominal l) \<and> sint (nf_nominal l) \<le> sint (nf_max l)"

definition nf_good :: "ath_nf_limits \<Rightarrow> u16 \<Rightarrow> bool" where
  "nf_good l v \<longleftrightarrow> v = 0 \<or> sint (nf_min l) \<le> sint v \<and> sint v \<le> sint (nf_max l)"

definition hist_ok :: "ath_nf_limits \<Rightarrow> ath9k_nfcal_hist \<Rightarrow> bool" where
  "hist_ok l h \<longleftrightarrow> length (nfCalBuffer h) = 5 \<and> unat (currIndex h) < 5 \<and> (\<forall>v\<in>set (nfCalBuffer h). nf_good l v) \<and> nf_good l (privNF h)"

lemma sanitize_good: "limits_ok l \<Longrightarrow> nf_good l (sanitize_nf l v)"
  by (auto simp: limits_ok_def nf_good_def sanitize_nf_def)

lemma hist_mid_in: "length buf = 5 \<Longrightarrow> ath9k_hw_get_nf_hist_mid buf \<in> set buf"
  using nth_mem [of 2 "sort_key sint buf"] by (simp add: nf_hist_mid_sorted)

lemma next_index: "unat i < 5 \<Longrightarrow> unat (if 5 \<le> i + 1 then 0 else i + 1 :: u8) < 5"
  by (simp add: word_le_nat_alt not_le unat_word_ariths)

lemma update_hist_ok:
  assumes "hist_ok l h" and "nf_good l nf"
  shows "\<exists>h'. update_nfcal_hist l itf nf h = Some (h', False) \<and> hist_ok l h'"
proof -
  let ?b = "(nfCalBuffer h)[unat (currIndex h) := nf]"
  have b: "length ?b = 5" "\<forall>v\<in>set ?b. nf_good l v" using assms set_update_subset_insert by (fastforce simp: hist_ok_def)+
  then have m: "nf_good l (ath9k_hw_get_nf_hist_mid ?b)" using hist_mid_in by blast
  have le: "\<not> sint (nf_max l) < sint v" if "nf_good l v" "v \<noteq> 0" for v using that by (auto simp: nf_good_def)
  show ?thesis
    using assms b m le next_index [of "currIndex h"] by (auto simp: update_nfcal_hist_def hist_ok_def Let_def)
qed

lemma update_loop_ok:
  assumes "\<forall>h\<in>set hs. hist_ok l h" and "\<forall>v\<in>set nfs. nf_good l v" and "length nfs \<le> length hs"
  shows "\<exists>hs'. update_nfcal_loop ah l ht40 itf i nfs hs = Some (hs', False) \<and> (\<forall>h\<in>set hs'. hist_ok l h) \<and> length hs' = length hs"
  using assms
proof (induction nfs arbitrary: i hs)
  case (Cons nf nfs)
  obtain h hs0 where hs: "hs = h # hs0" using Cons.prems(3) by (cases hs) auto
  obtain h' where h: "update_nfcal_hist l itf nf h = Some (h', False)" "hist_ok l h'"
    using update_hist_ok Cons.prems(1,2) by (force simp: hs)
  obtain hs' where i: "update_nfcal_loop ah l ht40 itf (Suc i) nfs hs0 = Some (hs', False)" "\<forall>h\<in>set hs'. hist_ok l h" "length hs' = length hs0"
    using Cons.IH [of hs0 "Suc i"] Cons.prems by (auto simp: hs)
  show ?case using h i Cons.prems(1) by (cases "nf_active ah ht40 i") (auto simp: hs)
qed auto

definition cal_inv :: "cal_channel \<Rightarrow> nf_hw \<Rightarrow> bool" where
  \<comment> \<open>the history of a channel: six rings of five values in the limits of its band\<close>
  "cal_inv c n \<longleftrightarrow> (\<exists>cal. caldata n = Some cal \<and> length (nfCalHist cal) = 6 \<and>
     (\<forall>h\<in>set (nfCalHist cal). hist_ok (ath9k_hw_get_nf_limits n (Some c)) h)) \<and>
     limits_ok (ath9k_hw_get_nf_limits n (Some c))"

lemma band_cw_int [simp]: "IS_CHAN_2GHZ (set_cw_int b c) = IS_CHAN_2GHZ c" "IS_CHAN_2GHZ (c\<lparr>noisefloor := v\<rparr>) = IS_CHAN_2GHZ c"
proof -
  have "bit (2 ^ 7 :: u32) i \<longleftrightarrow> i = 7" for i unfolding bit_exp_iff by auto
  then have "bit (0x80 :: u32) i \<longleftrightarrow> i = 7" for i by simp
  then show "IS_CHAN_2GHZ (set_cw_int b c) = IS_CHAN_2GHZ c" "IS_CHAN_2GHZ (c\<lparr>noisefloor := v\<rparr>) = IS_CHAN_2GHZ c"
    by (simp_all add: IS_CHAN_2GHZ_def set_cw_int_def has_flag_bit [of _ 7] bit_simps)
qed

lemma limits_cw_int:
  "ath9k_hw_get_nf_limits n (Some (set_cw_int b c)) = ath9k_hw_get_nf_limits n (Some c)"
  "ath9k_hw_get_nf_limits n (Some (c\<lparr>noisefloor := v\<rparr>)) = ath9k_hw_get_nf_limits n (Some c)"
  "ath9k_hw_get_nf_limits (n\<lparr>caldata := cd\<rparr>) c' = ath9k_hw_get_nf_limits n c'"
  "ath9k_hw_get_nf_limits (n\<lparr>hw_noise := w\<rparr>) c' = ath9k_hw_get_nf_limits n c'"
  by (simp_all add: ath9k_hw_get_nf_limits_def split: option.splits)

lemma update_buffer_ok:
  assumes "length (nfCalHist cal) = 6" and "\<forall>h\<in>set (nfCalHist cal). hist_ok l h" and "l = ath9k_hw_get_nf_limits n (Some c)"
    and "\<forall>v\<in>set nfs. nf_good l v" and "length nfs \<le> 6"
  shows "\<exists>hs. ath9k_hw_update_nfcal_hist_buffer n c cal nfs = Some (cal\<lparr>nfCalHist := hs, nfcal_interference := False\<rparr>) \<and>
    length hs = 6 \<and> (\<forall>h\<in>set hs. hist_ok l h)"
  using update_loop_ok [OF assms(2,4), of n "IS_CHAN_HT40 c" "nfcal_interference cal" 0] assms(1,3,5)
  by (auto simp: ath9k_hw_update_nfcal_hist_buffer_def)

lemma sanitize_all_good: "limits_ok (ath9k_hw_get_nf_limits n (Some c)) \<Longrightarrow> \<forall>v\<in>set (ath9k_hw_nf_sanitize n c nfs). nf_good (ath9k_hw_get_nf_limits n (Some c)) v"
  by (auto simp: ath9k_hw_nf_sanitize_def ath9k_hw_get_nf_limits_def sanitize_good)

definition keeps_length :: "(u16 list \<Rightarrow> 's \<Rightarrow> (u16 list \<times> 's) option) \<Rightarrow> bool" where
  \<comment> \<open>the hook fills the array it is given\<close>
  "keeps_length dg \<longleftrightarrow> (\<forall>xs t ys t'. dg xs t = Some (ys, t') \<longrightarrow> length ys = length xs)"

lemma ar9002_keeps_length: "keeps_length (ar9002_hw_do_getnf ops ah cur)"
  by (auto simp: keeps_length_def ar9002_hw_do_getnf_def Let_def split: Option.bind_splits if_splits)

lemma getnf_result:
  assumes "cal_inv c n" and "ath9k_hw_getnf ops dg ee ah c c n s = Some (r, c', n', s')"
    and "keeps_length dg"
  shows "cal_inv c' n' \<and> ath9k_hw_get_nf_limits n' (Some c') = ath9k_hw_get_nf_limits n (Some c) \<and>
    (r \<longrightarrow> (\<exists>cal. caldata n' = Some cal \<and> \<not> nfcal_interference cal \<and> \<not> nfcal_pending cal) \<and>
       nf_good (ath9k_hw_get_nf_limits n (Some c)) (noisefloor c') \<and> hw_noise n' = ath9k_hw_getchan_noise n' (Some c'))"
proof -
  let ?l = "ath9k_hw_get_nf_limits n (Some c)"
  obtain cal where cal: "caldata n = Some cal" "length (nfCalHist cal) = 6" "\<forall>h\<in>set (nfCalHist cal). hist_ok ?l h" "limits_ok ?l"
    using assms(1) by (auto simp: cal_inv_def)
  have upd: "\<exists>hs. ath9k_hw_update_nfcal_hist_buffer n c (cal\<lparr>nfcal_pending := False\<rparr>) (ath9k_hw_nf_sanitize n c ys) =
      Some (cal\<lparr>nfcal_pending := False, nfCalHist := hs, nfcal_interference := False\<rparr>) \<and> length hs = 6 \<and> (\<forall>h\<in>set hs. hist_ok ?l h)"
    if "dg (replicate 6 0) t = Some (ys, t')" for t ys t'
  proof -
    have "length ys = 6" using assms(3) that by (metis keeps_length_def length_replicate)
    then have "length (ath9k_hw_nf_sanitize n c ys) \<le> 6" by (simp add: ath9k_hw_nf_sanitize_def)
    then show ?thesis using update_buffer_ok [of "cal\<lparr>nfcal_pending := False\<rparr>" ?l n c] cal sanitize_all_good [OF cal(4)] by simp
  qed
  have first: "hist_ok ?l (hs ! 0)" if "length hs = 6" "\<forall>h\<in>set hs. hist_ok ?l h" for hs using that nth_mem [of 0 hs] by simp
  obtain v s1 where v: "op_read ops (AR_PHY_AGC_CONTROL ah) s = Some (v, s1)"
    using assms(2) by (auto simp: ath9k_hw_getnf_def Let_def split: Option.bind_splits)
  show ?thesis
  proof (cases "has_flag v AR_PHY_AGC_CONTROL_NF")
    case True
    then have "c' = set_cw_int False c" "n' = n" "\<not> r" using assms(2) v by (auto simp: ath9k_hw_getnf_def)
    then show ?thesis using assms(1) by (simp add: cal_inv_def limits_cw_int)
  next
    case False
    obtain ys s2 where d: "dg (replicate 6 0) s1 = Some (ys, s2)"
      using assms(2) v False by (auto simp: ath9k_hw_getnf_def Let_def split: Option.bind_splits)
    obtain hs where hs: "ath9k_hw_update_nfcal_hist_buffer n c (cal\<lparr>nfcal_pending := False\<rparr>) (ath9k_hw_nf_sanitize n c ys) =
        Some (cal\<lparr>nfcal_pending := False, nfCalHist := hs, nfcal_interference := False\<rparr>)" "length hs = 6" "\<forall>h\<in>set hs. hist_ok ?l h"
      using upd [OF d] by blast
    obtain b where "r" "c' = (set_cw_int b (set_cw_int False c))\<lparr>noisefloor := privNF (hs ! 0)\<rparr> \<or> c' = (set_cw_int False c)\<lparr>noisefloor := privNF (hs ! 0)\<rparr>"
      "n' = n\<lparr>caldata := Some (cal\<lparr>nfcal_pending := False, nfCalHist := hs, nfcal_interference := False\<rparr>),
         hw_noise := ath9k_hw_getchan_noise n (Some c')\<rparr>"
      using assms(2) v False d hs(1) cal(1)
      by (auto simp: ath9k_hw_getnf_def Let_def split: Option.bind_splits if_splits)
    moreover have "ath9k_hw_getchan_noise (n\<lparr>caldata := x, hw_noise := w\<rparr>) d = ath9k_hw_getchan_noise n d" for x w d
      by (cases d) (simp_all add: ath9k_hw_getchan_noise_def ath9k_hw_get_default_nf_def limits_cw_int)
    ultimately show ?thesis using hs(2,3) cal(4) first [OF hs(2,3)] by (auto simp: cal_inv_def limits_cw_int hist_ok_def)
  qed
qed

lemma ucast_8_of_int: "(ucast (word_of_int k :: u16) :: u8) = word_of_int k"
  by (rule bit_word_eqI) (simp add: bit_simps)

lemma getchan_noise_value:
  assumes "nf_good l (noisefloor c)" and "l = ath9k_hw_get_nf_limits n (Some c)" and "noisefloor c \<noteq> 0"
    and "sint (nf_max l) - sint (nf_nominal l) \<le> 133" and "sint (nf_nominal l) - sint (nf_min l) \<le> 122"
  shows "sint (ath9k_hw_getchan_noise n (Some c)) = - 95 + max 0 (sint (noisefloor c) - 6 - sint (nf_nominal l))"
proof -
  define d where "d = sint (noisefloor c) - 6 - sint (nf_nominal l)"
  have d: "- 128 \<le> d" "d < 128" using assms by (auto simp: nf_good_def d_def)
  have "noisefloor c - 6 - nf_nominal l = word_of_int d" by (simp add: d_def)
  then have delta: "(ucast (noisefloor c - 6 - nf_nominal l) :: u8) = word_of_int d" by (simp only: ucast_8_of_int)
  have s: "sint (word_of_int k :: u8) = k" if "- 128 \<le> k" "k < 128" for k
    using that by (simp add: signed_of_int signed_take_bit_int_eq_self)
  have "(- 95 + word_of_int d :: u8) = word_of_int (- 95 + d)" by simp
  moreover have "ath9k_hw_getchan_noise n (Some c) = (if 0 < sint (word_of_int d :: u8) then - 95 + word_of_int d else - 95)"
    using assms(3) by (simp add: ath9k_hw_getchan_noise_def ath9k_hw_get_default_nf_def delta Let_def flip: assms(2))
  ultimately show ?thesis using d s [of d] s [of "- 95 + d"] s [of "- 95"] by (auto simp: d_def [symmetric])
qed

inductive nf_step ::
  "'s ath_ops \<Rightarrow> (u16 list \<Rightarrow> 's \<Rightarrow> (u16 list \<times> 's) option) \<Rightarrow> (ieee80211_band \<Rightarrow> u32) \<Rightarrow> ath_hw \<Rightarrow>
     cal_channel \<times> nf_hw \<times> 's \<Rightarrow> cal_channel \<times> nf_hw \<times> 's \<Rightarrow> bool" for ops dg ee ah where
  getnf: "ath9k_hw_getnf ops dg ee ah c c n s = Some (r, c', n', s') \<Longrightarrow> nf_step ops dg ee ah (c, n, s) (c', n', s')"
| bstuck: "ath9k_hw_bstuck_nfcal ops dg ee ah c n s = Some (c', n', s') \<Longrightarrow> nf_step ops dg ee ah (c, n, s) (c', n', s')"
| start: "ath9k_hw_start_nfcal ops ah update n s = Some (n', s') \<Longrightarrow> nf_step ops dg ee ah (c, n, s) (c, n', s')"
| load: "ath9k_hw_loadnf ops ah ht40 chan n s = Some s' \<Longrightarrow> nf_step ops dg ee ah (c, n, s) (c, n, s')"

inductive_cases nf_stepE: "nf_step ops dg ee ah (c, n, s) st"

lemma cal_inv_flags:
  "cal_inv c n \<Longrightarrow> (\<And>cal. nfCalHist (f cal) = nfCalHist cal) \<Longrightarrow> cal_inv c (n\<lparr>caldata := map_option f (caldata n)\<rparr>)"
  by (auto simp: cal_inv_def limits_cw_int)

lemma start_nfcal_inv: "cal_inv c n \<Longrightarrow> ath9k_hw_start_nfcal ops ah update n s = Some (n', s') \<Longrightarrow> cal_inv c n'"
  by (auto simp: ath9k_hw_start_nfcal_def Let_def split: Option.bind_splits intro!: cal_inv_flags)

lemma bstuck_inv:
  assumes "cal_inv c n" and "ath9k_hw_bstuck_nfcal ops dg ee ah c n s = Some (c', n', s')"
    and "keeps_length dg"
  shows "cal_inv c' n'"
  using assms(2) getnf_result [OF assms(1) _ assms(3)] start_nfcal_inv [OF assms(1)] assms(1)
  by (auto simp: ath9k_hw_bstuck_nfcal_def split: option.splits Option.bind_splits if_splits intro!: cal_inv_flags)

lemma nf_step_inv:
  assumes "nf_step ops dg ee ah (c, n, s) (c', n', s')" and "cal_inv c n"
    and "keeps_length dg"
  shows "cal_inv c' n'"
  using assms(1)
proof cases
  case getnf
  then show ?thesis using getnf_result [OF assms(2) _ assms(3)] by blast
qed (use assms(2) bstuck_inv [OF assms(2) _ assms(3)] start_nfcal_inv [OF assms(2)] in auto)

lemma nf_steps_inv:
  assumes "(nf_step ops dg ee ah)\<^sup>*\<^sup>* x y" and "cal_inv (fst x) (fst (snd x))"
    and "keeps_length dg"
  shows "cal_inv (fst y) (fst (snd y))"
  using assms(1,2)
proof (induction rule: rtranclp_induct)
  case (step y z)
  then show ?case
    using nf_step_inv [of ops dg ee ah "fst y" "fst (snd y)" "snd (snd y)" "fst z" "fst (snd z)" "snd (snd z)"] assms(3) by simp
qed

lemma init_inv:
  assumes "ath9k_init_nfcal_hist_buffer c n = Some n'" and "limits_ok (ath9k_hw_get_nf_limits n (Some c))"
  shows "cal_inv c n'"
  using assms by (auto simp: ath9k_init_nfcal_hist_buffer_def Let_def cal_inv_def limits_cw_int hist_ok_def nf_good_def
      ath9k_hw_get_default_nf_def limits_ok_def split: Option.bind_splits)


text \<open>After a completed calibration the noise reported to mac80211 is -95 dBm plus what the noise floor exceeds the
  nominal one by more than 6 dB, without a wrap-around of the eight bits it is computed in.\<close>

theorem getnf_noise:
  assumes "cal_inv c n" and "keeps_length dg" and "ath9k_hw_getnf ops dg ee ah c c n s = Some (True, c', n', s')"
    and "l = ath9k_hw_get_nf_limits n (Some c)" and "noisefloor c' \<noteq> 0"
    and "sint (nf_max l) - sint (nf_nominal l) \<le> 133" and "sint (nf_nominal l) - sint (nf_min l) \<le> 122"
  shows "sint (hw_noise n') = - 95 + max 0 (sint (noisefloor c') - 6 - sint (nf_nominal l)) \<and>
    sint (nf_min l) \<le> sint (noisefloor c') \<and> sint (noisefloor c') \<le> sint (nf_max l)"
proof -
  have r: "nf_good l (noisefloor c')" "hw_noise n' = ath9k_hw_getchan_noise n' (Some c')" "l = ath9k_hw_get_nf_limits n' (Some c')"
    using getnf_result [OF assms(1,3,2)] assms(4) by auto
  show ?thesis using getchan_noise_value [OF r(1,3) assms(5-7)] r(1,2) assms(5) by (simp add: nf_good_def)
qed

text \<open>The exception for interference has no effect: the readings are cut to the maximum before they reach the history,
  so a completed calibration always resets the flag and the noise floor never exceeds the maximum, whether the flag
  was set or not.\<close>

theorem interference_has_no_effect:
  assumes "cal_inv c n" and "keeps_length dg" and "ath9k_hw_getnf ops dg ee ah c c n s = Some (True, c', n', s')"
  shows "\<exists>cal. caldata n' = Some cal \<and> \<not> nfcal_interference cal \<and>
    (noisefloor c' = 0 \<or> sint (noisefloor c') \<le> sint (nf_max (ath9k_hw_get_nf_limits n (Some c))))"
  using getnf_result [OF assms(1,3,2)] by (auto simp: nf_good_def)

section \<open>Witnesses\<close>

definition ex_cca :: "unit ath_ops" where
  \<comment> \<open>a device whose calibration is done and whose registers all hold \<open>0x19C00000\<close>\<close>
  "ex_cca = \<lparr>op_read = (\<lambda>r s. Some (if r = 0x9860 then 0 else 0x19C00000, s)), op_write = (\<lambda>v r s. Some s),
     op_enable_write_buffer = None, op_write_flush = None, op_rmw = (\<lambda>r a b s. Some (0, s))\<rparr>"

definition ex_cal_hw :: nf_hw where
  "ex_cal_hw = \<lparr>nf_2g = \<lparr>nf_max = - 97, nf_min = - 127, nf_nominal = - 112\<rparr>, nf_5g = \<lparr>nf_max = - 102, nf_min = - 122, nf_nominal = - 112\<rparr>,
     rxchainmask = 1, nf_regs = [],
     caldata = Some \<lparr>cd_channel = 0, cd_channelFlags = 0, cd_chanmode = 0, CalValid = 0, nfcal_pending = True,
       nfcal_interference = True, nfCalHist = replicate 6 \<lparr>nfCalBuffer = replicate 5 (- 112), currIndex = 0, privNF = - 112,
         invalidNFcount = 5\<rparr>\<rparr>, hw_noise = 0, supp_cals = 0, meas = [], cal_samples = 0\<rparr>"

definition ex_cal_chan :: cal_channel where
  "ex_cal_chan = \<lparr>ic_chan = \<lparr>ch_band = BAND_2GHZ, ch_center_freq = 2412, ch_hw_value = 0\<rparr>, ic_channel = 2412,
     channelFlags = CHANNEL_G, chanmode = CHANNEL_G, noisefloor = 0\<rparr>"

definition ex_getnf :: "nf_hw \<Rightarrow> (bool \<times> cal_channel \<times> nf_hw \<times> unit) option" where
  "ex_getnf n = ath9k_hw_getnf ex_cca (ar9002_hw_do_getnf ex_cca ex_hw ex_cal_chan) (\<lambda>b. 0) ex_hw ex_cal_chan ex_cal_chan n ()"

lemma ex_getnf_value:
  "map_option (\<lambda>(r, c, n, s). (r, noisefloor c)) (ath9k_init_nfcal_hist_buffer ex_cal_chan ex_cal_hw \<bind> ex_getnf) = Some (True, - 100)"
  by code_simp

lemma ex_getnf_run:
  obtains n0 c' n' where "ath9k_init_nfcal_hist_buffer ex_cal_chan ex_cal_hw = Some n0"
    "ath9k_hw_getnf ex_cca (ar9002_hw_do_getnf ex_cca ex_hw ex_cal_chan) (\<lambda>b. 0) ex_hw ex_cal_chan ex_cal_chan n0 () = Some (True, c', n', ())"
    "noisefloor c' = - 100"
  using ex_getnf_value by (auto simp: ex_getnf_def bind_eq_Some_conv)

lemma ex_cal_limits:
  "ath9k_hw_get_nf_limits ex_cal_hw (Some ex_cal_chan) = \<lparr>nf_max = - 97, nf_min = - 127, nf_nominal = - 112\<rparr>"
  "limits_ok (ath9k_hw_get_nf_limits ex_cal_hw (Some ex_cal_chan))"
  by (simp_all add: ath9k_hw_get_nf_limits_def ex_cal_hw_def ex_cal_chan_def IS_CHAN_2GHZ_def has_flag_def limits_ok_def)

lemma init_limits:
  "ath9k_init_nfcal_hist_buffer c n = Some n' \<Longrightarrow> ath9k_hw_get_nf_limits n' d = ath9k_hw_get_nf_limits n d"
  by (auto simp: ath9k_init_nfcal_hist_buffer_def Let_def limits_cw_int split: Option.bind_splits)


theorem getnf_noise_witness:
  "\<exists>n0 c' n'. ath9k_hw_getnf ex_cca (ar9002_hw_do_getnf ex_cca ex_hw ex_cal_chan) (\<lambda>b. 0) ex_hw ex_cal_chan ex_cal_chan n0 () =
     Some (True, c', n', ()) \<and> sint (hw_noise n') = - 89"
proof -
  obtain n0 c' n' where r: "ath9k_init_nfcal_hist_buffer ex_cal_chan ex_cal_hw = Some n0"
    "ath9k_hw_getnf ex_cca (ar9002_hw_do_getnf ex_cca ex_hw ex_cal_chan) (\<lambda>b. 0) ex_hw ex_cal_chan ex_cal_chan n0 () = Some (True, c', n', ())"
    "noisefloor c' = - 100"
    by (rule ex_getnf_run)
  show ?thesis
    using getnf_noise [OF init_inv [OF r(1) ex_cal_limits(2)] ar9002_keeps_length r(2) refl] r(2,3) init_limits [OF r(1)]
    by (auto simp: ex_cal_limits(1))
qed

theorem interference_has_no_effect_witness:
  "\<exists>n0 c' n' cal. ath9k_hw_getnf ex_cca (ar9002_hw_do_getnf ex_cca ex_hw ex_cal_chan) (\<lambda>b. 0) ex_hw ex_cal_chan ex_cal_chan n0 () =
     Some (True, c', n', ()) \<and> caldata n' = Some cal \<and> \<not> nfcal_interference cal"
proof -
  obtain n0 c' n' where r: "ath9k_init_nfcal_hist_buffer ex_cal_chan ex_cal_hw = Some n0"
    "ath9k_hw_getnf ex_cca (ar9002_hw_do_getnf ex_cca ex_hw ex_cal_chan) (\<lambda>b. 0) ex_hw ex_cal_chan ex_cal_chan n0 () = Some (True, c', n', ())"
    by (rule ex_getnf_run)
  show ?thesis using interference_has_no_effect [OF init_inv [OF r(1) ex_cal_limits(2)] ar9002_keeps_length r(2)] r(2) by blast
qed

end
