(* ===== verification/Ath9k_Eeprom.thy ===== *)
theory Ath9k_Eeprom
  imports Ath9k_Calib "HOL-Library.Signed_Division"
begin

text \<open>
  The calibration data of the EEPROM and the transmit power computed from it: \<open>ath9k/eeprom.c\<close>.

  An \<open>int\<close> is an \<open>int\<close> with the division of C; what is stored in 8 or 16 bits is cut to that width. Tables are
  bytes with checked reads, so an index outside a table is \<open>None\<close>. Calibration curves are given by pier and gain
  (\<open>pd_data\<close>), which covers the three layouts of the EEPROM.
\<close>

section \<open>Channels and frequencies\<close>

abbreviation (input) AR5416_BCHAN_UNUSED :: u8 where "AR5416_BCHAN_UNUSED \<equiv> 0xFF"
abbreviation (input) MAX_RATE_POWER :: nat where "MAX_RATE_POWER \<equiv> 63"
abbreviation (input) HT40_CHANNEL_CENTER_SHIFT :: u16 where "HT40_CHANNEL_CENTER_SHIFT \<equiv> 10"
abbreviation (input) AR5416_NUM_PDADC_VALUES :: nat where "AR5416_NUM_PDADC_VALUES \<equiv> 128"
abbreviation (input) AR5416_PD_GAINS_IN_MASK :: nat where "AR5416_PD_GAINS_IN_MASK \<equiv> 4"
abbreviation (input) AR5416_MAX_PWR_RANGE_IN_HALF_DB :: nat where "AR5416_MAX_PWR_RANGE_IN_HALF_DB \<equiv> 64"
abbreviation (input) AR5416_EEPROM_OFFSET :: u32 where "AR5416_EEPROM_OFFSET \<equiv> 0x2000"

record chan_centers =
  synth_center :: u16
  ctl_center :: u16
  ext_center :: u16

definition ath9k_hw_get_channel_centers :: "'a ath9k_channel_scheme \<Rightarrow> chan_centers" where
  "ath9k_hw_get_channel_centers chan =
     (if \<not> IS_CHAN_HT40 chan
      then \<lparr>synth_center = ic_channel chan, ctl_center = ic_channel chan, ext_center = ic_channel chan\<rparr>
      else if chanmode chan = (CHANNEL_5GHZ OR CHANNEL_HT40PLUS) \<or> chanmode chan = (CHANNEL_2GHZ OR CHANNEL_HT40PLUS)
      then (let synth = ic_channel chan + HT40_CHANNEL_CENTER_SHIFT in
        \<lparr>synth_center = synth, ctl_center = synth - HT40_CHANNEL_CENTER_SHIFT, ext_center = synth + HT40_CHANNEL_CENTER_SHIFT\<rparr>)
      else (let synth = ic_channel chan - HT40_CHANNEL_CENTER_SHIFT in
        \<lparr>synth_center = synth, ctl_center = synth + HT40_CHANNEL_CENTER_SHIFT, ext_center = synth - HT40_CHANNEL_CENTER_SHIFT\<rparr>))"

definition ath9k_hw_fbin2freq :: "u8 \<Rightarrow> bool \<Rightarrow> u16" where
  "ath9k_hw_fbin2freq fbin is2GHz =
     (if fbin = AR5416_BCHAN_UNUSED then ucast fbin
      else if is2GHz then 2300 + ucast fbin else 4800 + 5 * ucast fbin)"

definition FREQ2FBIN :: "u16 \<Rightarrow> bool \<Rightarrow> int" where
  "FREQ2FBIN x is2GHz = (if is2GHz then uint x - 2300 else (uint x - 4800) sdiv 5)"

section \<open>Interpolation\<close>

definition ath9k_hw_interpolate :: "u16 \<Rightarrow> u16 \<Rightarrow> u16 \<Rightarrow> u16 \<Rightarrow> u16 \<Rightarrow> u16" where
  "ath9k_hw_interpolate target srcLeft srcRight targetLeft targetRight =
     (if srcRight = srcLeft then targetLeft
      else word_of_int (((uint target - uint srcLeft) * sint targetRight + (uint srcRight - uint target) * sint targetLeft)
        sdiv (uint srcRight - uint srcLeft)))"

fun index_loop :: "u8 \<Rightarrow> bytes \<Rightarrow> nat \<Rightarrow> nat \<Rightarrow> nat \<times> nat \<Rightarrow> (bool \<times> nat \<times> nat) option" where
  \<comment> \<open>from \<open>i\<close> on, with the rounds left; the indices stay as they were when the loop ends\<close>
  "index_loop target pList 0 i old = Some (False, old)"
| "index_loop target pList (Suc n) i old = do {
     p \<leftarrow> byte_at pList i;
     if p = target then Some (True, i, i)
     else do {
       q \<leftarrow> byte_at pList (i + 1);
       if target < q then Some (False, i, i + 1)
       else index_loop target pList n (i + 1) old } }"

definition ath9k_hw_get_lower_upper_index :: "u8 \<Rightarrow> bytes \<Rightarrow> nat \<Rightarrow> nat \<times> nat \<Rightarrow> (bool \<times> nat \<times> nat) option" where
  \<comment> \<open>the result, \<open>*indexL\<close> and \<open>*indexR\<close>\<close>
  "ath9k_hw_get_lower_upper_index target pList listSize old = do {
     p \<leftarrow> byte_at pList 0;
     if target \<le> p then Some (True, 0, 0)
     else if listSize = 0 then None
     else do {
       q \<leftarrow> byte_at pList (listSize - 1);
       if q \<le> target then Some (True, listSize - 1, listSize - 1)
       else index_loop target pList (listSize - 1) 0 old } }"

section \<open>Reading the EEPROM\<close>

definition eeprom_addr :: "nat \<Rightarrow> nat \<Rightarrow> u32" where
  "eeprom_addr start addr = AR5416_EEPROM_OFFSET + push_bit 2 (word_of_nat (addr + start))"

fun usb_fill_loop ::
  "(u32 list \<Rightarrow> 's \<Rightarrow> (u32 list \<times> 's) option) \<Rightarrow> nat \<Rightarrow> nat \<Rightarrow> nat \<Rightarrow> u32 list \<Rightarrow> 's \<Rightarrow> (u16 list \<times> 's) option" where
  \<comment> \<open>\<open>n\<close> words are left from \<open>addr\<close> on, and \<open>pend\<close> is \<open>addrdata\<close> up to \<open>i\<close>; \<open>multi\<close> is \<open>REG_READ_MULTI\<close>\<close>
  "usb_fill_loop multi start 0 addr pend s =
     (if pend \<noteq> [] then do {
        (data, s) \<leftarrow> multi pend s;
        Some (map ucast (take (length pend) data), s) }
      else Some ([], s))"
| "usb_fill_loop multi start (Suc n) addr pend s =
     (let pend = pend @ [eeprom_addr start addr] in
      if length pend = 8 then do {
        (data, s) \<leftarrow> multi pend s;
        (ws, s) \<leftarrow> usb_fill_loop multi start n (addr + 1) [] s;
        Some (map ucast (take 8 data) @ ws, s) }
      else usb_fill_loop multi start n (addr + 1) pend s)"

definition ath9k_hw_usb_gen_fill_eeprom ::
  "(u32 list \<Rightarrow> 's \<Rightarrow> (u32 list \<times> 's) option) \<Rightarrow> nat \<Rightarrow> nat \<Rightarrow> 's \<Rightarrow> (u16 list \<times> 's) option" where
  \<comment> \<open>the words stored at \<open>eep_data\<close>\<close>
  "ath9k_hw_usb_gen_fill_eeprom multi eep_start_loc sz s = usb_fill_loop multi eep_start_loc sz 0 [] s"

definition ath9k_hw_nvram_read_blob :: "bytes \<Rightarrow> nat \<Rightarrow> (bool \<times> u16) option" where
  \<comment> \<open>the blob has a whole number of words; a read past its end is a fault\<close>
  "ath9k_hw_nvram_read_blob blob off =
     (if 2 * off > length blob then Some (False, 0)
      else do { v \<leftarrow> get_le16 blob (2 * off); Some (True, v) })"

section \<open>Detector tables\<close>

definition vpd_value :: "u8 \<Rightarrow> bytes \<Rightarrow> bytes \<Rightarrow> nat \<Rightarrow> nat \<times> nat \<Rightarrow> ((nat \<times> nat) \<times> u8) option" where
  \<comment> \<open>a round of \<open>ath9k_hw_fill_vpd_table\<close>; the indices are kept for the next one\<close>
  "vpd_value currPwr pPwrList pVpdList numIntercepts idx = do {
     (b, idxL, idxR) \<leftarrow> ath9k_hw_get_lower_upper_index currPwr pPwrList numIntercepts idx;
     let idxR = (if idxR < 1 then 1 else idxR);
     let idxL = (if idxL = numIntercepts - 1 then numIntercepts - 2 else idxL);
     pL \<leftarrow> byte_at pPwrList idxL;
     pR \<leftarrow> byte_at pPwrList idxR;
     vL \<leftarrow> byte_at pVpdList idxL;
     if pL = pR then Some ((idxL, idxR), vL)
     else do {
       vR \<leftarrow> byte_at pVpdList idxR;
       Some ((idxL, idxR), ucast (word_of_int (((uint currPwr - uint pL) * uint vR + (uint pR - uint currPwr) * uint vL)
         sdiv (uint pR - uint pL)) :: u16)) } }"

fun fill_vpd_loop :: "nat \<Rightarrow> u8 \<Rightarrow> bytes \<Rightarrow> bytes \<Rightarrow> nat \<Rightarrow> nat \<times> nat \<Rightarrow> bytes option" where
  "fill_vpd_loop 0 currPwr pPwrList pVpdList numIntercepts idx = Some []"
| "fill_vpd_loop (Suc n) currPwr pPwrList pVpdList numIntercepts idx = do {
     (idx, v) \<leftarrow> vpd_value currPwr pPwrList pVpdList numIntercepts idx;
     vs \<leftarrow> fill_vpd_loop n (currPwr + 2) pPwrList pVpdList numIntercepts idx;
     Some (v # vs) }"

definition vpd_rounds :: "u8 \<Rightarrow> u8 \<Rightarrow> nat" where
  "vpd_rounds pwrMin pwrMax = nat ((uint pwrMax - uint pwrMin) sdiv 2 + 1)"

definition ath9k_hw_fill_vpd_table :: "u8 \<Rightarrow> u8 \<Rightarrow> bytes \<Rightarrow> bytes \<Rightarrow> nat \<Rightarrow> bytes \<Rightarrow> bytes option" where
  \<comment> \<open>the table of 64 entries afterwards\<close>
  "ath9k_hw_fill_vpd_table pwrMin pwrMax pPwrList pVpdList numIntercepts tab = do {
     vs \<leftarrow> fill_vpd_loop (vpd_rounds pwrMin pwrMax) pwrMin pPwrList pVpdList numIntercepts (0, 0);
     write_bytes tab 0 vs }"

section \<open>Target powers\<close>

record target_power =
  bChannel :: u8
  tPow2x :: bytes

fun target_search ::
  "u16 \<Rightarrow> bool \<Rightarrow> (nat \<Rightarrow> target_power option) \<Rightarrow> nat \<Rightarrow> nat \<Rightarrow> (int \<times> int) option" where
  \<comment> \<open>the loop of the two functions below from \<open>i\<close> on: \<open>matchIndex\<close> and \<open>lowIndex\<close>\<close>
  "target_search freq is2 powInfo 0 i = Some (int i - 1, - 1)"
| "target_search freq is2 powInfo (Suc n) i = do {
     e \<leftarrow> powInfo i;
     if bChannel e = AR5416_BCHAN_UNUSED then Some (int i - 1, - 1)
     else if freq = ath9k_hw_fbin2freq (bChannel e) is2 then Some (int i, - 1)
     else if freq < ath9k_hw_fbin2freq (bChannel e) is2 \<and> i > 0 then do {
       d \<leftarrow> powInfo (i - 1);
       if freq > ath9k_hw_fbin2freq (bChannel d) is2 then Some (- 1, int i - 1)
       else target_search freq is2 powInfo n (i + 1) }
     else target_search freq is2 powInfo n (i + 1) }"

definition target_at :: "(nat \<Rightarrow> target_power option) \<Rightarrow> int \<Rightarrow> target_power option" where
  "target_at powInfo i = (if 0 \<le> i then powInfo (nat i) else None)"

definition new_target_power ::
  "u16 \<Rightarrow> bool \<Rightarrow> (nat \<Rightarrow> target_power option) \<Rightarrow> nat \<Rightarrow> nat \<Rightarrow> target_power \<Rightarrow> target_power option" where
  \<comment> \<open>\<open>*pNewPower\<close> afterwards\<close>
  "new_target_power freq is2 powInfo numChannels numRates new = do {
     e \<leftarrow> powInfo 0;
     (matchIndex, lowIndex) \<leftarrow> (if freq \<le> ath9k_hw_fbin2freq (bChannel e) is2 then Some (0, - 1)
                                 else target_search freq is2 powInfo numChannels 0);
     if matchIndex \<noteq> - 1 then target_at powInfo matchIndex
     else do {
       l \<leftarrow> target_at powInfo lowIndex;
       r \<leftarrow> target_at powInfo (lowIndex + 1);
       let clo = ath9k_hw_fbin2freq (bChannel l) is2;
       let chi = ath9k_hw_fbin2freq (bChannel r) is2;
       if numRates \<le> length (tPow2x l) \<and> numRates \<le> length (tPow2x r) \<and> numRates \<le> length (tPow2x new) then
         Some (new\<lparr>tPow2x := map (\<lambda>i. ucast (ath9k_hw_interpolate freq clo chi (ucast (tPow2x l ! i)) (ucast (tPow2x r ! i)))) [0..<numRates]
           @ drop numRates (tPow2x new)\<rparr>)
       else None } }"

definition ath9k_hw_get_legacy_target_powers ::
  "'a ath9k_channel_scheme \<Rightarrow> (nat \<Rightarrow> target_power option) \<Rightarrow> nat \<Rightarrow> target_power \<Rightarrow> nat \<Rightarrow> bool \<Rightarrow> target_power option" where
  "ath9k_hw_get_legacy_target_powers chan powInfo numChannels new numRates isExtTarget =
     (let centers = ath9k_hw_get_channel_centers chan in
      new_target_power (if isExtTarget then ext_center centers else ctl_center centers) (IS_CHAN_2GHZ chan)
        powInfo numChannels numRates new)"

definition ath9k_hw_get_target_powers ::
  "'a ath9k_channel_scheme \<Rightarrow> (nat \<Rightarrow> target_power option) \<Rightarrow> nat \<Rightarrow> target_power \<Rightarrow> nat \<Rightarrow> bool \<Rightarrow> target_power option" where
  "ath9k_hw_get_target_powers chan powInfo numChannels new numRates isHt40Target =
     (let centers = ath9k_hw_get_channel_centers chan in
      new_target_power (if isHt40Target then synth_center centers else ctl_center centers) (IS_CHAN_2GHZ chan)
        powInfo numChannels numRates new)"

type_synonym ctl_edges = "(u8 \<times> u8) list"

definition CTL_EDGE_TPOWER :: "u8 \<Rightarrow> u16" where
  "CTL_EDGE_TPOWER ctl = ucast (ctl AND 0x3f)"

definition CTL_EDGE_FLAGS :: "u8 \<Rightarrow> u8" where
  "CTL_EDGE_FLAGS ctl = drop_bit 6 ctl AND 3"

fun edge_loop :: "u16 \<Rightarrow> bool \<Rightarrow> (u8 \<times> u8) option \<Rightarrow> ctl_edges \<Rightarrow> u16" where
  \<comment> \<open>the edges left, with the one before\<close>
  "edge_loop freq is2 prev [] = word_of_nat MAX_RATE_POWER"
| "edge_loop freq is2 prev ((bch, ctl) # es) =
     (if bch = AR5416_BCHAN_UNUSED then word_of_nat MAX_RATE_POWER
      else if freq = ath9k_hw_fbin2freq bch is2 then CTL_EDGE_TPOWER ctl
      else (case prev of
          Some (pch, pctl) \<Rightarrow>
            if freq < ath9k_hw_fbin2freq bch is2 then
              (if ath9k_hw_fbin2freq pch is2 < freq \<and> CTL_EDGE_FLAGS pctl \<noteq> 0 then CTL_EDGE_TPOWER pctl
               else word_of_nat MAX_RATE_POWER)
            else edge_loop freq is2 (Some (bch, ctl)) es
        | None \<Rightarrow> edge_loop freq is2 (Some (bch, ctl)) es))"

definition ath9k_hw_get_max_edge_power :: "u16 \<Rightarrow> ctl_edges \<Rightarrow> bool \<Rightarrow> nat \<Rightarrow> u16" where
  "ath9k_hw_get_max_edge_power freq edges is2GHz num_band_edges = edge_loop freq is2GHz None (take num_band_edges edges)"

definition ar5416_get_ntxchains :: "u8 \<Rightarrow> nat" where
  "ar5416_get_ntxchains m = unat (drop_bit 2 m AND 1) + unat (drop_bit 1 m AND 1) + unat (m AND 1)"

definition ath9k_hw_get_scaled_power :: "u8 \<Rightarrow> u16 \<Rightarrow> u8 \<Rightarrow> u16" where
  "ath9k_hw_get_scaled_power txchainmask power_limit antenna_reduction =
     (let n = ar5416_get_ntxchains txchainmask;
          reduction = (ucast antenna_reduction :: u16) + (if n = 2 then 6 else if n = 3 then 10 else 0) in
      if power_limit > reduction then power_limit - reduction else 0)"

definition ath9k_hw_update_regulatory_maxpower :: "u8 \<Rightarrow> u16 \<Rightarrow> u16" where
  \<comment> \<open>\<open>max_power_level\<close>\<close>
  "ath9k_hw_update_regulatory_maxpower txchainmask level =
     (let n = ar5416_get_ntxchains txchainmask in level + (if n = 2 then 6 else if n = 3 then 10 else 0))"

section \<open>Gain boundaries and detector values\<close>

record pd_data =
  \<comment> \<open>\<open>pwrPdg\<close> and \<open>vpdPdg\<close> by pier and gain\<close>
  pd_pwr :: "nat \<Rightarrow> nat \<Rightarrow> bytes option"
  pd_vpd :: "nat \<Rightarrow> nat \<Rightarrow> bytes option"

record pd_row =
  \<comment> \<open>\<open>minPwrT4\<close>, \<open>maxPwrT4\<close> and \<open>vpdTableI\<close> of a gain\<close>
  minPwrT4 :: u8
  maxPwrT4 :: u8
  vpdTableI :: bytes

definition pd_row_match :: "pd_data \<Rightarrow> nat \<Rightarrow> nat \<Rightarrow> bytes \<Rightarrow> nat \<Rightarrow> pd_row option" where
  "pd_row_match data intercepts idxL tab i = do {
     pwr \<leftarrow> pd_pwr data idxL i;
     vpd \<leftarrow> pd_vpd data idxL i;
     mn \<leftarrow> byte_at pwr 0;
     mx \<leftarrow> byte_at pwr 4;
     t \<leftarrow> ath9k_hw_fill_vpd_table mn mx pwr vpd intercepts tab;
     Some \<lparr>minPwrT4 = mn, maxPwrT4 = mx, vpdTableI = t\<rparr> }"

definition pd_row_between ::
  "pd_data \<Rightarrow> nat \<Rightarrow> bytes \<Rightarrow> u16 \<Rightarrow> nat \<Rightarrow> nat \<Rightarrow> bytes \<Rightarrow> bytes \<Rightarrow> bytes \<Rightarrow> nat \<Rightarrow> pd_row option" where
  \<comment> \<open>\<open>tabL\<close>, \<open>tabR\<close> and \<open>tabI\<close> are the static tables; \<open>fbin\<close> is the frequency of the channel\<close>
  "pd_row_between data intercepts bChans fbin idxL idxR tabL tabR tabI i = do {
     vpdL \<leftarrow> pd_vpd data idxL i;
     pwrL \<leftarrow> pd_pwr data idxL i;
     vpdR \<leftarrow> pd_vpd data idxR i;
     pwrR \<leftarrow> pd_pwr data idxR i;
     l0 \<leftarrow> byte_at pwrL 0;
     r0 \<leftarrow> byte_at pwrR 0;
     l1 \<leftarrow> byte_at pwrL (intercepts - 1);
     r1 \<leftarrow> byte_at pwrR (intercepts - 1);
     let mn = max l0 r0;
     let mx = min l1 r1;
     tl \<leftarrow> ath9k_hw_fill_vpd_table mn mx pwrL vpdL intercepts tabL;
     tr \<leftarrow> ath9k_hw_fill_vpd_table mn mx pwrR vpdR intercepts tabR;
     bl \<leftarrow> byte_at bChans idxL;
     br \<leftarrow> byte_at bChans idxR;
     t \<leftarrow> write_bytes tabI 0 (map (\<lambda>j. ucast (ath9k_hw_interpolate fbin (ucast bl) (ucast br) (ucast (tl ! j)) (ucast (tr ! j))))
       [0..<vpd_rounds mn mx]);
     Some \<lparr>minPwrT4 = mn, maxPwrT4 = mx, vpdTableI = t\<rparr> }"

fun count_piers :: "bytes \<Rightarrow> nat \<Rightarrow> nat" where
  "count_piers (b # bs) (Suc n) = (if b = AR5416_BCHAN_UNUSED then 0 else Suc (count_piers bs n))"
| "count_piers bs n = 0"

fun pd_fill :: "nat \<Rightarrow> int \<Rightarrow> int \<Rightarrow> (int \<Rightarrow> u8 option) \<Rightarrow> (bytes \<times> int) option" where
  \<comment> \<open>the loops \<open>while (ss < hi && k < 127)\<close> with \<open>127 - k\<close> entries left: the values stored and \<open>ss\<close>\<close>
  "pd_fill 0 ss hi f = Some ([], ss)"
| "pd_fill (Suc r) ss hi f =
     (if ss < hi then do {
        v \<leftarrow> f ss;
        (vs, ss) \<leftarrow> pd_fill r (ss + 1) hi f;
        Some (v # vs, ss) }
      else Some ([], ss))"

definition gain_boundary :: "pd_row list \<Rightarrow> nat \<Rightarrow> nat" where
  "gain_boundary rows i = min MAX_RATE_POWER
     (if i = length rows - 1 then unat (maxPwrT4 (rows ! i)) div 2
      else (unat (maxPwrT4 (rows ! i)) + unat (minPwrT4 (rows ! (i + 1)))) div 4)"

definition s16_of :: "int \<Rightarrow> int" where
  \<comment> \<open>a value stored in an \<open>int16_t\<close>\<close>
  "s16_of x = sint (word_of_int x :: u16)"

definition step_of :: "int \<Rightarrow> int" where
  "step_of d = (if s16_of d < 1 then 1 else s16_of d)"

definition tab_at :: "bytes \<Rightarrow> int \<Rightarrow> int option" where
  "tab_at tab i = (if 0 \<le> i then map_option uint (byte_at tab (nat i)) else None)"

definition pdadc_gain :: "bool \<Rightarrow> nat \<Rightarrow> pd_row list \<Rightarrow> nat \<Rightarrow> bytes \<Rightarrow> bytes option" where
  \<comment> \<open>the values of gain \<open>i\<close> appended to those stored before\<close>
  "pdadc_gain sw tPdGainOverlap rows i out = do {
     let row = rows ! i;
     let tab = vpdTableI row;
     let mn = uint (minPwrT4 row);
     let mx = uint (maxPwrT4 row);
     let ss = (if i = 0 then (if sw then 0 - mn div 2 else 0)
               else s16_of (int (gain_boundary rows (i - 1)) - mn div 2 - int tPdGainOverlap + 1));
     t0 \<leftarrow> tab_at tab 0;
     t1 \<leftarrow> tab_at tab 1;
     let vpdStep = step_of (t1 - t0);
     (vs, ss) \<leftarrow> pd_fill (127 - length out) ss 0
       (\<lambda>ss. let tmpVal = s16_of (t0 + ss * vpdStep) in Some (if tmpVal < 0 then 0 else word_of_int tmpVal));
     let out = out @ vs;
     let sizeCurrVpdTable = ((mx - mn) sdiv 2 + 1) mod 256;
     let tgtIndex = (int (gain_boundary rows i) + int tPdGainOverlap - mn div 2) mod 256;
     let maxIndex = (if tgtIndex < sizeCurrVpdTable then tgtIndex else sizeCurrVpdTable);
     (vs, ss) \<leftarrow> pd_fill (127 - length out) ss maxIndex (\<lambda>ss. map_option word_of_int (tab_at tab ss));
     let out = out @ vs;
     e1 \<leftarrow> tab_at tab (sizeCurrVpdTable - 1);
     e2 \<leftarrow> tab_at tab (sizeCurrVpdTable - 2);
     let vpdStep = step_of (e1 - e2);
     (vs, ss) \<leftarrow> (if tgtIndex \<ge> maxIndex then pd_fill (127 - length out) ss (tgtIndex + 1)
         (\<lambda>ss. let tmpVal = s16_of (e1 + (ss - maxIndex + 1) * vpdStep) in
            Some (if tmpVal > 255 then 255 else word_of_int tmpVal))
       else Some ([], ss));
     Some (out @ vs) }"

fun pdadc_gains :: "bool \<Rightarrow> nat \<Rightarrow> pd_row list \<Rightarrow> nat list \<Rightarrow> bytes \<Rightarrow> bytes option" where
  "pdadc_gains sw ov rows [] out = Some out"
| "pdadc_gains sw ov rows (i # is) out = do {
     out \<leftarrow> pdadc_gain sw ov rows i out;
     pdadc_gains sw ov rows is out }"

fun pd_rows :: "(nat \<Rightarrow> pd_row option) \<Rightarrow> nat \<Rightarrow> nat \<Rightarrow> pd_row list option" where
  "pd_rows f 0 i = Some []"
| "pd_rows f (Suc n) i = do {
     r \<leftarrow> f i;
     rs \<leftarrow> pd_rows f n (i + 1);
     Some (r # rs) }"

definition AR_SREV_9280_20_OR_LATER :: "ath_hw \<Rightarrow> bool" where
  "AR_SREV_9280_20_OR_LATER ah \<longleftrightarrow> 0x80 \<le> macVersion ah"

definition ath9k_hw_get_gain_boundaries_pdadcs ::
  "ath_hw \<Rightarrow> 'a ath9k_channel_scheme \<Rightarrow> pd_data \<Rightarrow> bytes \<Rightarrow> nat \<Rightarrow> nat \<Rightarrow> nat \<Rightarrow> bytes list \<Rightarrow> (nat list \<times> bytes) option" where
  \<comment> \<open>\<open>tabs\<close> are the rows of the static \<open>vpdTableI\<close> from earlier calls; the boundaries and the detector values\<close>
  "ath9k_hw_get_gain_boundaries_pdadcs ah chan data bChans availPiers tPdGainOverlap numXpdGains tabs = do {
     let eeprom_4k = (AR_SREV_9285 ah \<or> AR_SREV_9271 ah);
     let intercepts = (if AR_SREV_9287 ah then 1 else 5);
     let fbin = FREQ2FBIN (synth_center (ath9k_hw_get_channel_centers chan)) (IS_CHAN_2GHZ chan);
     (match, idxL, idxR) \<leftarrow> ath9k_hw_get_lower_upper_index (word_of_int fbin) bChans (count_piers bChans availPiers) (0, 0);
     rows \<leftarrow> pd_rows (\<lambda>i. if i < length tabs then
                (if match then pd_row_match data intercepts idxL (tabs ! i) i
                 else pd_row_between data intercepts bChans (word_of_int fbin) idxL idxR (replicate 64 0) (replicate 64 0) (tabs ! i) i)
              else None) numXpdGains 0;
     out \<leftarrow> pdadc_gains (AR_SREV_9280_20_OR_LATER ah) tPdGainOverlap rows [0..<numXpdGains] [];
     let bounds = map (gain_boundary rows) [0..<numXpdGains];
     if (\<not> eeprom_4k \<and> numXpdGains = 0) \<or> out = [] then None
     else Some (bounds @ replicate (AR5416_PD_GAINS_IN_MASK - numXpdGains) (if eeprom_4k then 58 else last bounds),
       out @ replicate (AR5416_NUM_PDADC_VALUES - length out) (last out)) }"

section \<open>Interpolation stays between its ends\<close>

lemma sdiv_by_pos: "0 < b \<Longrightarrow> a sdiv b = (if a < 0 then - ((- a) div b) else a div b)" for a b :: int
  by (auto simp: signed_divide_int_def sgn_if abs_if)

lemma div_between: "0 < d \<Longrightarrow> lo * d \<le> n \<Longrightarrow> n \<le> hi * d \<Longrightarrow> lo \<le> n div d \<and> n div d \<le> hi" for d :: int
  using zdiv_mono1 [of "lo * d" n d] zdiv_mono1 [of n "hi * d" d] by simp

lemma weighted_mean:
  fixes x y u v :: int
  assumes "0 \<le> x" and "0 \<le> y" and "0 < x + y" and "lo \<le> u" and "lo \<le> v" and "u \<le> hi" and "v \<le> hi"
  shows "lo \<le> (x * v + y * u) sdiv (x + y)" and "(x * v + y * u) sdiv (x + y) \<le> hi"
proof -
  let ?d = "x + y" and ?n = "x * v + y * u"
  have l: "lo * ?d \<le> ?n" using mult_left_mono [OF assms(5,1)] mult_left_mono [OF assms(4,2)] by (simp add: algebra_simps)
  have h: "?n \<le> hi * ?d" using mult_left_mono [OF assms(7,1)] mult_left_mono [OF assms(6,2)] by (simp add: algebra_simps)
  have m: "(- hi) * ?d \<le> - ?n" "- ?n \<le> (- lo) * ?d" using l h by (simp_all add: algebra_simps)
  show "lo \<le> ?n sdiv ?d" "?n sdiv ?d \<le> hi"
    using div_between [OF assms(3) l h] div_between [OF assms(3) m] by (simp_all add: sdiv_by_pos [OF assms(3)])
qed

lemma s16_range: "- 32768 \<le> sint (w :: u16)" "sint (w :: u16) \<le> 32767"
  using sint_range_size [of w] by (simp_all add: word_size)

text \<open>Interpolating at a frequency between two piers gives a value between the values of the piers, in signed 16 bit
  arithmetic.\<close>

theorem interpolate_between:
  assumes "srcLeft \<le> target" and "target \<le> srcRight"
  shows "min (sint tL) (sint tR) \<le> sint (ath9k_hw_interpolate target srcLeft srcRight tL tR) \<and>
    sint (ath9k_hw_interpolate target srcLeft srcRight tL tR) \<le> max (sint tL) (sint tR)"
proof (cases "srcLeft = srcRight")
  case False
  let ?x = "uint target - uint srcLeft" and ?y = "uint srcRight - uint target"
  let ?v = "(?x * sint tR + ?y * sint tL) sdiv (?x + ?y)"
  have o: "0 \<le> ?x" "0 \<le> ?y" "0 < ?x + ?y" using assms False by (auto simp: word_le_def less_le word_uint_eq_iff)
  have b: "min (sint tL) (sint tR) \<le> ?v" "?v \<le> max (sint tL) (sint tR)" by (rule weighted_mean [OF o, where lo = "min (sint tL) (sint tR)" and hi = "max (sint tL) (sint tR)"]; simp)+
  then have "- (2 ^ 15) \<le> ?v" "?v < 2 ^ 15" using s16_range [of tL] s16_range [of tR] by (auto simp: min_def max_def split: if_splits)
  then have "sint (word_of_int ?v :: u16) = ?v" by (simp add: signed_of_int signed_take_bit_int_eq_self)
  then show ?thesis using b False by (simp add: ath9k_hw_interpolate_def)
qed (simp add: ath9k_hw_interpolate_def)

theorem interpolate_between_witness:
  "sint (ath9k_hw_interpolate 2437 2412 2472 30 (- 18)) \<le> 30 \<and> - 18 \<le> sint (ath9k_hw_interpolate 2437 2412 2472 30 (- 18))"
  using interpolate_between [of 2412 2437 2472 30 "- 18"] by simp

section \<open>The two neighbours of a value\<close>

lemma index_loop_brackets:
  assumes "i + n < length p" and "p ! i < target" and "target < p ! (i + n)"
  shows "\<exists>b l r. index_loop target p n i old = Some (b, l, r) \<and> i \<le> l \<and> r \<le> i + n \<and>
    (if b then r = l \<and> p ! l = target else r = l + 1 \<and> p ! l < target \<and> target < p ! r)"
  using assms
proof (induction n arbitrary: i)
  case (Suc n)
  have b: "byte_at p i = Some (p ! i)" "byte_at p (i + 1) = Some (p ! (i + 1))" using Suc.prems(1) by (simp_all add: byte_at_def)
  show ?case
  proof (cases "target < p ! (i + 1)")
    case True
    then show ?thesis using b Suc.prems(2) by auto
  next
    case False
    have step: "index_loop target p (Suc n) i old = index_loop target p n (i + 1) old" using b False Suc.prems(2) by auto
    show ?thesis
    proof (cases "p ! (i + 1) = target")
      case True
      then have n: "n \<noteq> 0" using Suc.prems(3) by (cases n) auto
      then obtain m where m: "n = Suc m" by (cases n) auto
      have "index_loop target p n (i + 1) old = Some (True, i + 1, i + 1)"
        using b True by (simp add: m)
      then show ?thesis using step True m by auto
    next
      case ne: False
      then have "p ! (i + 1) < target" using False by auto
      then show ?thesis using Suc.IH [of "i + 1"] Suc.prems step by fastforce
    qed
  qed
qed auto

lemma index_brackets_aux:
  assumes "0 < n" and "n \<le> length p"
  shows "\<exists>b l r. ath9k_hw_get_lower_upper_index target p n old = Some (b, l, r) \<and> l < n \<and> r < n \<and>
    (if b then r = l \<and> (p ! l = target \<or> l = 0 \<and> target \<le> p ! 0 \<or> l = n - 1 \<and> p ! (n - 1) \<le> target)
     else r = l + 1 \<and> p ! l < target \<and> target < p ! r)"
proof -
  have b: "byte_at p 0 = Some (p ! 0)" "byte_at p (n - 1) = Some (p ! (n - 1))" using assms by (auto simp: byte_at_def)
  consider "target \<le> p ! 0" | "p ! 0 < target" "p ! (n - 1) \<le> target" | "p ! 0 < target" "target < p ! (n - 1)" by fastforce
  then show ?thesis
  proof cases
    case 3
    then show ?thesis
      using index_loop_brackets [of 0 "n - 1" p target old] assms b
      by (fastforce simp: ath9k_hw_get_lower_upper_index_def)
  qed (use b assms in \<open>auto simp: ath9k_hw_get_lower_upper_index_def\<close>)
qed

lemma u8_between:
  assumes "uint lo \<le> d \<and> d \<le> uint hi"
  obtains w :: u8 where "d = uint w" "lo \<le> w" "w \<le> hi"
proof
  have d: "0 \<le> d" "d < 256" using assms order_trans [OF uint_ge_0 [of lo]] uint_bounded [of hi] by auto
  then show w: "d = uint (word_of_int d :: u8)" by (simp add: uint_word_of_int_eq take_bit_int_eq_self)
  show "lo \<le> word_of_int d" "word_of_int d \<le> hi" using assms w by (simp_all add: word_le_def)
qed

lemma vpd_value_between:
  assumes "2 \<le> n" and "n \<le> length p" and "n \<le> length v" and "p ! 0 \<le> cur" and "cur \<le> p ! (n - 1)"
    and "\<forall>x\<in>set (take n v). lo \<le> x \<and> x \<le> hi"
  shows "\<exists>idx w. vpd_value cur p v n old = Some (idx, w) \<and> lo \<le> w \<and> w \<le> hi"
proof -
  obtain b l r where i: "ath9k_hw_get_lower_upper_index cur p n old = Some (b, l, r)" "l < n" "r < n"
    "if b then r = l \<and> (p ! l = cur \<or> l = 0 \<and> cur \<le> p ! 0 \<or> l = n - 1 \<and> p ! (n - 1) \<le> cur)
     else r = l + 1 \<and> p ! l < cur \<and> cur < p ! r"
    using index_brackets_aux [of n p cur old] assms(1,2) by auto
  define R where "R = (if r < 1 then 1 else r)"
  define L where "L = (if l = n - 1 then n - 2 else l)"
  have lr: "L < n" "R < n" using i(2,3) assms(1) by (auto simp: L_def R_def)
  have m: "lo \<le> v ! j \<and> v ! j \<le> hi" if "j < n" for j
    using assms(3,6) that nth_mem [of j "take n v"] by auto
  have val: "vpd_value cur p v n old = Some ((L, R), if p ! L = p ! R then v ! L
      else ucast (word_of_int (((uint cur - uint (p ! L)) * uint (v ! R) + (uint (p ! R) - uint cur) * uint (v ! L))
        sdiv (uint (p ! R) - uint (p ! L))) :: u16))"
  proof -
    have "byte_at p L = Some (p ! L)" "byte_at p R = Some (p ! R)" "byte_at v L = Some (v ! L)" "byte_at v R = Some (v ! R)"
      using lr assms(2,3) by (simp_all add: byte_at_def)
    then show ?thesis
      by (simp only: vpd_value_def i(1) Let_def bind.bind_lunit prod.case L_def [symmetric] R_def [symmetric] split: if_split) simp
  qed
  show ?thesis
  proof (cases "p ! L = p ! R")
    case True
    then show ?thesis using val m [OF lr(1)] by simp
  next
    case False
    have ends: "p ! L = cur \<or> p ! R = cur \<or> p ! L < cur \<and> cur < p ! R"
      using i(2-4) assms(1,4,5) False by (auto simp: L_def R_def split: if_splits)
    let ?x = "uint cur - uint (p ! L)" and ?y = "uint (p ! R) - uint cur"
    let ?d = "(?x * uint (v ! R) + ?y * uint (v ! L)) sdiv (?x + ?y)"
    have ne: "?x + ?y \<noteq> 0" using False by (simp add: word_uint_eq_iff)
    have "uint lo \<le> ?d \<and> ?d \<le> uint hi"
    proof (cases "p ! L < cur \<and> cur < p ! R")
      case True
      then have o: "0 \<le> ?x" "0 \<le> ?y" "0 < ?x + ?y" by (auto simp: word_less_def)
      have "uint lo \<le> uint (v ! L)" "uint (v ! L) \<le> uint hi" "uint lo \<le> uint (v ! R)" "uint (v ! R) \<le> uint hi"
        using m [OF lr(1)] m [OF lr(2)] by (auto simp: word_le_def)
      then show ?thesis using weighted_mean [OF o, of "uint lo" "uint (v ! L)" "uint (v ! R)" "uint hi"] by blast
    next
      case False
      have c: "(k * a) sdiv k = a" if "k \<noteq> 0" for k a :: int using that by (simp add: signed_divide_int_def abs_mult sgn_mult) (auto simp: sgn_if)
      have "?d = uint (v ! L) \<or> ?d = uint (v ! R)" using False ends ne c by auto
      then show ?thesis using m [OF lr(1)] m [OF lr(2)] by (auto simp: word_le_def)
    qed
    then obtain w :: u8 where "?d = uint w" "lo \<le> w" "w \<le> hi" by (rule u8_between) blast
    moreover have "(ucast (word_of_int (uint w) :: u16) :: u8) = w" by (rule bit_word_eqI) (auto simp: bit_simps)
    ultimately show ?thesis using val False by simp
  qed
qed

lemma fill_vpd_between:
  assumes "2 \<le> n" and "n \<le> length p" and "n \<le> length v" and "\<forall>x\<in>set (take n v). lo \<le> x \<and> x \<le> hi"
    and "0 < k \<Longrightarrow> p ! 0 \<le> cur \<and> uint cur + 2 * (int k - 1) \<le> uint (p ! (n - 1))"
  shows "\<exists>vs. fill_vpd_loop k cur p v n old = Some vs \<and> length vs = k \<and> (\<forall>x\<in>set vs. lo \<le> x \<and> x \<le> hi)"
  using assms(5)
proof (induction k arbitrary: cur old)
  case (Suc k)
  then have c: "p ! 0 \<le> cur" "uint cur + 2 * int k \<le> uint (p ! (n - 1))" by auto
  then have "cur \<le> p ! (n - 1)" by (simp add: word_le_def)
  then obtain idx w where w: "vpd_value cur p v n old = Some (idx, w)" "lo \<le> w" "w \<le> hi"
    using vpd_value_between [OF assms(1-3) c(1) _ assms(4)] by blast
  have next': "0 < k \<Longrightarrow> p ! 0 \<le> cur + 2 \<and> uint (cur + 2) + 2 * (int k - 1) \<le> uint (p ! (n - 1))"
  proof -
    assume "0 < k"
    then have "uint cur + 2 < 256" using c(2) uint_bounded [of "p ! (n - 1)"] by simp
    then have "uint (cur + 2) = uint cur + 2" using uint_ge_0 [of cur] by (simp add: uint_word_ariths)
    then show ?thesis using c by (simp add: word_le_def)
  qed
  obtain vs where "fill_vpd_loop k (cur + 2) p v n idx = Some vs" "length vs = k" "\<forall>x\<in>set vs. lo \<le> x \<and> x \<le> hi"
    using Suc.IH [OF next', of idx] by blast
  then show ?case using w by auto
qed simp

lemma rounds_range:
  assumes "pwrMin \<le> pwrMax" and "pwrMax \<le> tp"
  shows "0 < vpd_rounds pwrMin pwrMax" "uint pwrMin + 2 * (int (vpd_rounds pwrMin pwrMax) - 1) \<le> uint tp"
    "int (vpd_rounds pwrMin pwrMax) = (uint pwrMax - uint pwrMin) div 2 + 1"
proof -
  have d: "0 \<le> uint pwrMax - uint pwrMin" "uint pwrMax \<le> uint tp" using assms by (simp_all add: word_le_def)
  then have e: "int (vpd_rounds pwrMin pwrMax) = (uint pwrMax - uint pwrMin) div 2 + 1"
    by (simp add: vpd_rounds_def sdiv_by_pos)
  then show "0 < vpd_rounds pwrMin pwrMax" "int (vpd_rounds pwrMin pwrMax) = (uint pwrMax - uint pwrMin) div 2 + 1"
    using d(1) by (auto simp: vpd_rounds_def sdiv_by_pos)
  show "uint pwrMin + 2 * (int (vpd_rounds pwrMin pwrMax) - 1) \<le> uint tp" using d e by presburger
qed

lemma fill_vpd_total:
  assumes "2 \<le> n" and "n \<le> length p" and "n \<le> length v" and "\<forall>x\<in>set (take n v). lo \<le> x \<and> x \<le> hi"
    and "p ! 0 \<le> pwrMin" and "pwrMin \<le> pwrMax" and "pwrMax \<le> p ! (n - 1)" and "length tab = 64"
  shows "\<exists>vs. fill_vpd_loop (vpd_rounds pwrMin pwrMax) pwrMin p v n (0, 0) = Some vs \<and> length vs = vpd_rounds pwrMin pwrMax \<and>
    (\<forall>x\<in>set vs. lo \<le> x \<and> x \<le> hi) \<and>
    ath9k_hw_fill_vpd_table pwrMin pwrMax p v n tab =
      (if vpd_rounds pwrMin pwrMax \<le> 64 then Some (vs @ drop (vpd_rounds pwrMin pwrMax) tab) else None)"
proof -
  obtain vs where "fill_vpd_loop (vpd_rounds pwrMin pwrMax) pwrMin p v n (0, 0) = Some vs" "length vs = vpd_rounds pwrMin pwrMax"
    "\<forall>x\<in>set vs. lo \<le> x \<and> x \<le> hi"
    using fill_vpd_between [OF assms(1-4), of "vpd_rounds pwrMin pwrMax" pwrMin "(0, 0)"] assms(5) rounds_range(2) [OF assms(6,7)] by blast
  then show ?thesis using assms(8) by (auto simp: ath9k_hw_fill_vpd_table_def write_bytes_def)
qed

text \<open>A detector table computed inside the range of its calibration curve has one entry for every 2 half decibels,
  each between the least and the greatest value of the curve, and leaves the rest of the table alone; but a range of
  128 half decibels or more, which the data of the EEPROM can have, writes past the 64 entries of the table.\<close>

theorem fill_vpd_table_ok:
  assumes "2 \<le> n" and "n \<le> length p" and "n \<le> length v" and "\<forall>x\<in>set (take n v). lo \<le> x \<and> x \<le> hi"
    and "p ! 0 \<le> pwrMin" and "pwrMin \<le> pwrMax" and "pwrMax \<le> p ! (n - 1)" and "length tab = 64"
  shows "if uint pwrMax - uint pwrMin \<ge> 128 then ath9k_hw_fill_vpd_table pwrMin pwrMax p v n tab = None
    else \<exists>vs. ath9k_hw_fill_vpd_table pwrMin pwrMax p v n tab = Some (vs @ drop (length vs) tab) \<and>
      int (length vs) = (uint pwrMax - uint pwrMin) div 2 + 1 \<and> (\<forall>x\<in>set vs. lo \<le> x \<and> x \<le> hi)"
proof -
  have r: "int (vpd_rounds pwrMin pwrMax) = (uint pwrMax - uint pwrMin) div 2 + 1" using rounds_range(3) [OF assms(6,7)] .
  have "vpd_rounds pwrMin pwrMax \<le> 64 \<longleftrightarrow> \<not> uint pwrMax - uint pwrMin \<ge> 128"
    using r zdiv_mono1 [of 128 "uint pwrMax - uint pwrMin" 2] zdiv_mono1 [of "uint pwrMax - uint pwrMin" 127 2] by auto
  moreover obtain vs where "length vs = vpd_rounds pwrMin pwrMax" "\<forall>x\<in>set vs. lo \<le> x \<and> x \<le> hi"
    "ath9k_hw_fill_vpd_table pwrMin pwrMax p v n tab =
      (if vpd_rounds pwrMin pwrMax \<le> 64 then Some (vs @ drop (vpd_rounds pwrMin pwrMax) tab) else None)"
    using fill_vpd_total [OF assms] by blast
  ultimately show ?thesis using r by (auto intro!: exI [of _ vs])
qed

theorem fill_vpd_table_ok_witness:
  "\<exists>vs. ath9k_hw_fill_vpd_table 10 70 [10, 20, 30, 40, 70] [1, 20, 40, 80, 120] 5 (replicate 64 0) = Some (vs @ drop (length vs) (replicate 64 0)) \<and>
     length vs = 31 \<and> (\<forall>x\<in>set vs. x \<le> 120)"
  using fill_vpd_table_ok [of 5 "[10, 20, 30, 40, 70]" "[1, 20, 40, 80, 120]" 1 120 10 70 "replicate 64 0"] by auto

section \<open>Gain boundaries\<close>

definition row_ok :: "pd_row \<Rightarrow> bool" where
  \<comment> \<open>a range of at least one and fewer than 64 decibels with a full table\<close>
  "row_ok r \<longleftrightarrow> uint (minPwrT4 r) + 2 \<le> uint (maxPwrT4 r) \<and> uint (maxPwrT4 r) - uint (minPwrT4 r) < 128 \<and> length (vpdTableI r) = 64"

lemma pd_fill_total:
  assumes "\<And>ss'. ss \<le> ss' \<Longrightarrow> ss' < hi \<Longrightarrow> f ss' \<noteq> None"
  shows "\<exists>vs ss'. pd_fill r ss hi f = Some (vs, ss') \<and> length vs \<le> r \<and> ss' = ss + int (length vs) \<and> (hi \<le> ss' \<or> length vs = r) \<and>
    (ss < hi \<and> 0 < r \<longrightarrow> vs \<noteq> [])"
  using assms
proof (induction r arbitrary: ss)
  case (Suc r)
  show ?case
  proof (cases "ss < hi")
    case True
    then obtain v where "f ss = Some v" using Suc.prems [of ss] by auto
    moreover obtain vs ss' where "pd_fill r (ss + 1) hi f = Some (vs, ss')" "length vs \<le> r" "ss' = ss + 1 + int (length vs)"
      "hi \<le> ss' \<or> length vs = r"
      using Suc.IH [of "ss + 1"] Suc.prems by fastforce
    ultimately show ?thesis using True by auto
  qed auto
qed auto

lemma row_table:
  assumes "row_ok r"
  shows "((uint (maxPwrT4 r) - uint (minPwrT4 r)) sdiv 2 + 1) mod 256 = (uint (maxPwrT4 r) - uint (minPwrT4 r)) div 2 + 1"
    "2 \<le> (uint (maxPwrT4 r) - uint (minPwrT4 r)) div 2 + 1" "(uint (maxPwrT4 r) - uint (minPwrT4 r)) div 2 + 1 \<le> 64"
    "\<And>i. 0 \<le> i \<Longrightarrow> i < 64 \<Longrightarrow> \<exists>v. tab_at (vpdTableI r) i = Some v"
proof -
  define d where "d = uint (maxPwrT4 r) - uint (minPwrT4 r)"
  have d: "2 \<le> d" "d < 128" using assms by (auto simp: row_ok_def d_def)
  then show "((uint (maxPwrT4 r) - uint (minPwrT4 r)) sdiv 2 + 1) mod 256 = (uint (maxPwrT4 r) - uint (minPwrT4 r)) div 2 + 1"
    "2 \<le> (uint (maxPwrT4 r) - uint (minPwrT4 r)) div 2 + 1" "(uint (maxPwrT4 r) - uint (minPwrT4 r)) div 2 + 1 \<le> 64"
    by (auto simp: sdiv_by_pos simp flip: d_def)
  show "\<exists>v. tab_at (vpdTableI r) i = Some v" if "0 \<le> i" "i < 64" for i
    using that assms by (simp add: tab_at_def byte_at_def row_ok_def)
qed

lemma pdadc_gain_total:
  assumes "i < length rows" and "row_ok (rows ! i)" and "length out \<le> 127"
  shows "\<exists>vs. pdadc_gain sw ov rows i out = Some (out @ vs) \<and> length (out @ vs) \<le> 127 \<and> (i = 0 \<and> out = [] \<longrightarrow> vs \<noteq> [])"
proof -
  let ?r = "rows ! i"
  define mn mx where "mn = uint (minPwrT4 ?r)" and "mx = uint (maxPwrT4 ?r)"
  define sz where "sz = (mx - mn) div 2 + 1"
  define tg where "tg = (int (gain_boundary rows i) + int ov - mn div 2) mod 256"
  define mi where "mi = (if tg < sz then tg else sz)"
  define s0 where "s0 = (if i = 0 then (if sw then 0 - mn div 2 else 0)
      else s16_of (int (gain_boundary rows (i - 1)) - mn div 2 - int ov + 1))"
  note t = row_table [OF assms(2), folded mn_def mx_def, folded sz_def]
  obtain t0 t1 e1 e2 where tab: "tab_at (vpdTableI ?r) 0 = Some t0" "tab_at (vpdTableI ?r) 1 = Some t1"
    "tab_at (vpdTableI ?r) (sz - 1) = Some e1" "tab_at (vpdTableI ?r) (sz - 2) = Some e2"
    using t(4) [of 0] t(4) [of 1] t(4) [of "sz - 1"] t(4) [of "sz - 2"] t(2,3) by auto
  have tg0: "0 \<le> tg" by (simp add: tg_def)
  define f1 where "f1 = (\<lambda>ss. let tmpVal = s16_of (t0 + ss * step_of (t1 - t0)) in Some (if tmpVal < 0 then 0 else word_of_int tmpVal :: u8))"
  define f2 where "f2 = (\<lambda>ss. map_option word_of_int (tab_at (vpdTableI ?r) ss) :: u8 option)"
  define f3 where "f3 = (\<lambda>ss. let tmpVal = s16_of (e1 + (ss - mi + 1) * step_of (e1 - e2)) in Some (if tmpVal > 255 then 255 else word_of_int tmpVal :: u8))"
  have total: "f1 ss \<noteq> None" "f3 ss \<noteq> None" for ss by (simp_all add: f1_def f3_def Let_def)
  obtain v1 s1 where a: "pd_fill (127 - length out) s0 0 f1 = Some (v1, s1)" "length v1 \<le> 127 - length out"
    "0 \<le> s1 \<or> length v1 = 127 - length out" "s0 < 0 \<and> 0 < 127 - length out \<longrightarrow> v1 \<noteq> []" "s1 = s0 + int (length v1)"
    using pd_fill_total [of s0 0 f1 "127 - length out", OF total(1)] by blast
  have ok2: "\<exists>v2 s2. pd_fill (127 - length (out @ v1)) s1 mi f2 = Some (v2, s2) \<and> length v2 \<le> 127 - length (out @ v1) \<and>
      (s1 < mi \<and> 0 < 127 - length (out @ v1) \<longrightarrow> v2 \<noteq> []) \<and> s2 = s1 + int (length v2)"
  proof (cases "0 \<le> s1")
    case True
    have "f2 ss \<noteq> None" if "s1 \<le> ss" "ss < mi" for ss
      using True that t(3) t(4) [of ss] by (auto simp: f2_def mi_def split: if_splits)
    then show ?thesis using pd_fill_total [of s1 mi f2 "127 - length (out @ v1)"] by blast
  next
    case False
    then have "127 - length (out @ v1) = 0" using a(3) by simp
    then show ?thesis by simp
  qed
  then obtain v2 s2 where b: "pd_fill (127 - length (out @ v1)) s1 mi f2 = Some (v2, s2)" "length v2 \<le> 127 - length (out @ v1)"
    "s1 < mi \<and> 0 < 127 - length (out @ v1) \<longrightarrow> v2 \<noteq> []" "s2 = s1 + int (length v2)" by blast
  obtain v3 s3 where c: "pd_fill (127 - length ((out @ v1) @ v2)) s2 (tg + 1) f3 = Some (v3, s3)"
    "length v3 \<le> 127 - length ((out @ v1) @ v2)" "s2 < tg + 1 \<and> 0 < 127 - length ((out @ v1) @ v2) \<longrightarrow> v3 \<noteq> []"
    using pd_fill_total [of s2 "tg + 1" f3 "127 - length ((out @ v1) @ v2)", OF total(2)] by blast
  have le: "mi \<le> tg" by (simp add: mi_def)
  have "pdadc_gain sw ov rows i out = Some (((out @ v1) @ v2) @ v3)"
    unfolding pdadc_gain_def Let_def mn_def [symmetric] mx_def [symmetric] s0_def [symmetric] tab(1,2) bind.bind_lunit
      f1_def [unfolded Let_def, symmetric] a(1) prod.case t(1) tg_def [symmetric] mi_def [symmetric] f2_def [symmetric] b(1) tab(3,4)
      f3_def [unfolded Let_def, symmetric]
    using le c(1) by (simp only: if_True bind.bind_lunit prod.case)
  moreover have "length (out @ v1 @ v2 @ v3) \<le> 127" using assms(3) a(2) b(2) c(2) by simp
  moreover have "v1 @ v2 @ v3 \<noteq> []" if "i = 0 \<and> out = []"
  proof
    assume e: "v1 @ v2 @ v3 = []"
    then have "s1 = s0" "s2 = s0" "s0 = 0" using a(4,5) b(4) that by (auto simp: s0_def mn_def)
    then show False using e b(3) c(3) tg0 that by auto
  qed
  ultimately show ?thesis by (intro exI [of _ "v1 @ v2 @ v3"]) simp
qed

lemma pdadc_gains_total:
  assumes "\<forall>i\<in>set is. i < length rows \<and> row_ok (rows ! i)" and "length out \<le> 127"
  shows "\<exists>vs. pdadc_gains sw ov rows is out = Some (out @ vs) \<and> length (out @ vs) \<le> 127"
  using assms
proof (induction "is" arbitrary: out)
  case (Cons i "is")
  obtain vs where vs: "pdadc_gain sw ov rows i out = Some (out @ vs)" "length (out @ vs) \<le> 127"
    using pdadc_gain_total [of i rows out sw ov] Cons.prems by auto
  obtain ws where "pdadc_gains sw ov rows is (out @ vs) = Some ((out @ vs) @ ws)" "length ((out @ vs) @ ws) \<le> 127"
    using Cons.IH [of "out @ vs"] Cons.prems(1) vs(2) by auto
  then show ?case using vs(1) by simp
qed simp

lemma pdadc_gains_nonempty:
  assumes "0 < n" and "n = length rows" and "\<forall>r\<in>set rows. row_ok r"
  shows "\<exists>vs. pdadc_gains sw ov rows [0..<n] [] = Some vs \<and> vs \<noteq> [] \<and> length vs \<le> 127"
proof -
  have ok: "i < length rows \<and> row_ok (rows ! i)" if "i < n" for i using that assms by simp
  obtain vs where vs: "pdadc_gain sw ov rows 0 [] = Some vs" "vs \<noteq> []" "length vs \<le> 127"
    using pdadc_gain_total [of 0 rows "[]" sw ov] ok [OF assms(1)] by auto
  obtain ws where "pdadc_gains sw ov rows [Suc 0..<n] vs = Some (vs @ ws)" "length (vs @ ws) \<le> 127"
    using pdadc_gains_total [of "[Suc 0..<n]" rows vs sw ov] ok vs(3) by auto
  then show ?thesis using vs by (simp add: upt_conv_Cons [OF assms(1)])
qed

lemma pd_rows_total:
  assumes "\<And>j. j < n \<Longrightarrow> \<exists>r. f (i + j) = Some r \<and> P r"
  shows "\<exists>rs. pd_rows f n i = Some rs \<and> length rs = n \<and> (\<forall>r\<in>set rs. P r)"
  using assms
proof (induction n arbitrary: i)
  case (Suc n)
  obtain r where r: "f i = Some r" "P r" using Suc.prems [of 0] by auto
  have "\<exists>r. f (i + 1 + j) = Some r \<and> P r" if "j < n" for j using Suc.prems [of "Suc j"] that by simp
  then obtain rs where "pd_rows f n (i + 1) = Some rs" "length rs = n" "\<forall>r\<in>set rs. P r" using Suc.IH by blast
  then show ?case using r by simp
qed simp

definition curve_pair_ok :: "bytes option \<Rightarrow> bytes option \<Rightarrow> bytes option \<Rightarrow> bytes option \<Rightarrow> bool" where
  \<comment> \<open>two curves of 5 points whose power ranges share at least a decibel and are shorter than 64 decibels\<close>
  "curve_pair_ok pl vl pr vr \<longleftrightarrow> (case (pl, vl, pr, vr) of
     (Some pl, Some vl, Some pr, Some vr) \<Rightarrow>
       length pl = 5 \<and> length vl = 5 \<and> length pr = 5 \<and> length vr = 5 \<and>
       uint (max (pl ! 0) (pr ! 0)) + 2 \<le> uint (min (pl ! 4) (pr ! 4)) \<and> uint (pl ! 4) - uint (pl ! 0) < 128
   | _ \<Rightarrow> False)"

definition pd_ok :: "pd_data \<Rightarrow> nat \<Rightarrow> nat \<Rightarrow> bool" where
  "pd_ok data piers gains \<longleftrightarrow> list_all (\<lambda>i. list_all (\<lambda>l. list_all (\<lambda>r.
     curve_pair_ok (pd_pwr data l i) (pd_vpd data l i) (pd_pwr data r i) (pd_vpd data r i))
     [0..<piers]) [0..<piers]) [0..<gains]"

lemma pd_okD:
  assumes "pd_ok data piers gains" and "i < gains" and "l < piers" and "r < piers"
  obtains pl vl pr vr where "pd_pwr data l i = Some pl" "pd_vpd data l i = Some vl" "pd_pwr data r i = Some pr" "pd_vpd data r i = Some vr"
    "length pl = 5" "length vl = 5" "length pr = 5" "length vr = 5"
    "uint (max (pl ! 0) (pr ! 0)) + 2 \<le> uint (min (pl ! 4) (pr ! 4))" "uint (pl ! 4) - uint (pl ! 0) < 128"
proof -
  have "curve_pair_ok (pd_pwr data l i) (pd_vpd data l i) (pd_pwr data r i) (pd_vpd data r i)"
    using assms by (auto simp: pd_ok_def list_all_iff)
  then show thesis using that by (auto simp: curve_pair_ok_def split: option.splits)
qed

lemma fill_vpd_len:
  assumes "length p = 5" and "length v = 5" and "p ! 0 \<le> mn" and "mn \<le> mx" and "mx \<le> p ! 4"
    and "uint mx - uint mn < 128" and "length tab = 64"
  shows "vpd_rounds mn mx \<le> 64" "\<exists>t. ath9k_hw_fill_vpd_table mn mx p v 5 tab = Some t \<and> length t = 64"
proof -
  have "int (vpd_rounds mn mx) = (uint mx - uint mn) div 2 + 1" using rounds_range(3) [OF assms(4,5)] .
  then show r: "vpd_rounds mn mx \<le> 64" using zdiv_mono1 [of "uint mx - uint mn" 127 2] assms(6) by auto
  have b: "\<forall>x\<in>set (take 5 v). 0 \<le> x \<and> x \<le> - 1" by (simp add: word_n1_ge)
  show "\<exists>t. ath9k_hw_fill_vpd_table mn mx p v 5 tab = Some t \<and> length t = 64"
    using fill_vpd_total [of 5 p v 0 "- 1" mn mx tab] assms b r by auto
qed

lemma row_match_ok:
  assumes "pd_ok data piers gains" and "i < gains" and "l < piers" and "length tab = 64"
  shows "\<exists>r. pd_row_match data 5 l tab i = Some r \<and> row_ok r"
proof -
  obtain p v where p: "pd_pwr data l i = Some p" "pd_vpd data l i = Some v" "length p = 5" "length v = 5"
    "uint (p ! 0) + 2 \<le> uint (p ! 4)" "uint (p ! 4) - uint (p ! 0) < 128"
    by (rule pd_okD [OF assms(1-3,3)]) simp
  have le: "p ! 0 \<le> p ! 4" using p(5) by (simp add: word_le_def)
  obtain t where "ath9k_hw_fill_vpd_table (p ! 0) (p ! 4) p v 5 tab = Some t" "length t = 64"
    using fill_vpd_len(2) [OF p(3,4) order_refl le order_refl p(6) assms(4)] by blast
  then show ?thesis using p by (auto simp: pd_row_match_def byte_at_def row_ok_def)
qed

lemma row_between_ok:
  assumes "pd_ok data piers gains" and "i < gains" and "l < piers" and "r < piers" and "length tabL = 64" and "length tabR = 64"
    and "length tab = 64" and "l < length bChans" and "r < length bChans"
  shows "\<exists>row. pd_row_between data 5 bChans fbin l r tabL tabR tab i = Some row \<and> row_ok row"
proof -
  obtain pl vl pr vr where p: "pd_pwr data l i = Some pl" "pd_vpd data l i = Some vl" "pd_pwr data r i = Some pr" "pd_vpd data r i = Some vr"
    "length pl = 5" "length vl = 5" "length pr = 5" "length vr = 5"
    "uint (max (pl ! 0) (pr ! 0)) + 2 \<le> uint (min (pl ! 4) (pr ! 4))" "uint (pl ! 4) - uint (pl ! 0) < 128"
    using pd_okD [OF assms(1-4)] by blast
  define mn mx where "mn = max (pl ! 0) (pr ! 0)" and "mx = min (pl ! 4) (pr ! 4)"
  have o: "pl ! 0 \<le> mn" "pr ! 0 \<le> mn" "mx \<le> pl ! 4" "mx \<le> pr ! 4" by (simp_all add: mn_def mx_def)
  have m: "mn \<le> mx" "uint mn + 2 \<le> uint mx" using p(9) by (simp_all add: word_le_def mn_def [symmetric] mx_def [symmetric])
  have d: "uint mx - uint mn < 128" using o(1,3) p(10) by (simp add: word_le_def)
  obtain ta where ta: "ath9k_hw_fill_vpd_table mn mx pl vl 5 tabL = Some ta"
    using fill_vpd_len(2) [OF p(5,6) o(1) m(1) o(3) d assms(5)] by blast
  obtain tb where tb: "ath9k_hw_fill_vpd_table mn mx pr vr 5 tabR = Some tb"
    using fill_vpd_len(2) [OF p(7,8) o(2) m(1) o(4) d assms(6)] by blast
  have r: "vpd_rounds mn mx \<le> 64" using fill_vpd_len(1) [OF p(5,6) o(1) m(1) o(3) d assms(5)] .
  have "byte_at pl 0 = Some (pl ! 0)" "byte_at pr 0 = Some (pr ! 0)" "byte_at pl (5 - 1) = Some (pl ! 4)" "byte_at pr (5 - 1) = Some (pr ! 4)"
    "byte_at bChans l = Some (bChans ! l)" "byte_at bChans r = Some (bChans ! r)"
    using p(5,7) assms(8,9) by (simp_all add: byte_at_def)
  moreover have "\<exists>t. write_bytes tab 0 xs = Some t \<and> length t = 64" if "length xs \<le> 64" for xs
    using that assms(7) by (simp add: write_bytes_def)
  then obtain t where "write_bytes tab 0 (map (\<lambda>j. ucast (ath9k_hw_interpolate fbin (ucast (bChans ! l)) (ucast (bChans ! r)) (ucast (ta ! j)) (ucast (tb ! j))))
       [0..<vpd_rounds mn mx]) = Some t" "length t = 64" using r by force
  ultimately show ?thesis
    unfolding pd_row_between_def p(1-4) bind.bind_lunit Let_def
    using m(2) d ta tb by (simp add: mn_def [symmetric] mx_def [symmetric] row_ok_def)
qed

lemma gain_boundaries_ok:
  assumes "\<not> AR_SREV_9287 ah" and "0 < numXpdGains" and "numXpdGains \<le> 4" and "length tabs = 4" and "\<forall>t\<in>set tabs. length t = 64"
    and "0 < count_piers bChans availPiers" and "pd_ok data (count_piers bChans availPiers) numXpdGains"
  shows "\<exists>bs vs. ath9k_hw_get_gain_boundaries_pdadcs ah chan data bChans availPiers tPdGainOverlap numXpdGains tabs = Some (bs, vs) \<and>
    length bs = 4 \<and> (\<forall>b\<in>set bs. b \<le> 63) \<and> length vs = 128"
proof -
  let ?n = "count_piers bChans availPiers"
  have piers: "count_piers bs k \<le> length bs" for bs k by (induction bs k rule: count_piers.induct) auto
  define fbin where "fbin = FREQ2FBIN (synth_center (ath9k_hw_get_channel_centers chan)) (IS_CHAN_2GHZ chan)"
  obtain b l r where i: "ath9k_hw_get_lower_upper_index (word_of_int fbin) bChans ?n (0, 0) = Some (b, l, r)" "l < ?n" "r < ?n"
    using index_brackets_aux [OF assms(6) piers, where target = "word_of_int fbin" and old = "(0, 0)"] by blast
  have lr: "l < length bChans" "r < length bChans" using i(2,3) piers [of bChans availPiers] by simp_all
  define f where "f = (\<lambda>i. if i < length tabs then
                (if b then pd_row_match data 5 l (tabs ! i) i
                 else pd_row_between data 5 bChans (word_of_int fbin) l r (replicate 64 0) (replicate 64 0) (tabs ! i) i)
              else None)"
  have "\<exists>row. f (0 + j) = Some row \<and> row_ok row" if "j < numXpdGains" for j
    using row_match_ok [OF assms(7) that i(2), of "tabs ! j"]
      row_between_ok [OF assms(7) that i(2,3) _ _ _ lr, of "replicate 64 0" "replicate 64 0" "tabs ! j" "word_of_int fbin"] assms(3-5) that
    by (simp add: f_def)
  then obtain rows where rows: "pd_rows f numXpdGains 0 = Some rows" "length rows = numXpdGains" "\<forall>r\<in>set rows. row_ok r"
    using pd_rows_total by blast
  obtain out where out: "pdadc_gains (AR_SREV_9280_20_OR_LATER ah) tPdGainOverlap rows [0..<numXpdGains] [] = Some out" "out \<noteq> []" "length out \<le> 127"
    using pdadc_gains_nonempty [OF assms(2) rows(2) [symmetric] rows(3)] by blast
  define bs where "bs = map (gain_boundary rows) [0..<numXpdGains]"
  have "\<forall>b\<in>set bs. b \<le> 63" "bs \<noteq> []" using assms(2) by (auto simp: bs_def gain_boundary_def)
  moreover have "ath9k_hw_get_gain_boundaries_pdadcs ah chan data bChans availPiers tPdGainOverlap numXpdGains tabs =
    Some (bs @ replicate (AR5416_PD_GAINS_IN_MASK - numXpdGains) (if AR_SREV_9285 ah \<or> AR_SREV_9271 ah then 58 else last bs),
       out @ replicate (AR5416_NUM_PDADC_VALUES - length out) (last out))"
    unfolding ath9k_hw_get_gain_boundaries_pdadcs_def Let_def fbin_def [symmetric] i(1) bind.bind_lunit prod.case if_not_P [OF assms(1)]
      f_def [symmetric] rows(1) out(1) bs_def [symmetric]
    using out(2) assms(2) by (simp only: simp_thms if_False) simp
  ultimately show ?thesis
    using assms(3) out(3) last_in_set [of bs] by (auto simp: bs_def)
qed

text \<open>C38: On calibration data of 5 points per curve whose curves cover a common range, the gain boundaries and the detector
  values are always computed without leaving an array: exactly 4 boundaries of at most 63 half decibels and exactly 128
  detector values, whatever the overlap and the chip without its own layout.\<close>

theorem gain_boundaries_total:
  assumes "\<not> AR_SREV_9287 ah" and "0 < numXpdGains" and "numXpdGains \<le> 4" and "length tabs = 4" and "\<forall>t\<in>set tabs. length t = 64"
    and "0 < count_piers bChans availPiers" and "pd_ok data (count_piers bChans availPiers) numXpdGains"
  shows "\<exists>bs vs. ath9k_hw_get_gain_boundaries_pdadcs ah chan data bChans availPiers tPdGainOverlap numXpdGains tabs = Some (bs, vs) \<and>
    length bs = 4 \<and> (\<forall>b\<in>set bs. b \<le> 63) \<and> length vs = 128"
  by (rule gain_boundaries_ok [OF assms])

theorem gain_boundaries_total_witness:
  "\<exists>bs vs. ath9k_hw_get_gain_boundaries_pdadcs ex_hw ex_cal_chan
      \<lparr>pd_pwr = \<lambda>pier gain. Some [10, 20, 30, 40, 60], pd_vpd = \<lambda>pier gain. Some [1, 20, 40, 80, 120]\<rparr>
      [112, 137, 255] 3 6 2 (replicate 4 (replicate 64 0)) = Some (bs, vs) \<and> length bs = 4 \<and> length vs = 128"
proof -
  let ?d = "\<lparr>pd_pwr = \<lambda>pier gain. Some [10, 20, 30, 40, 60], pd_vpd = \<lambda>pier gain. Some [1, 20, 40, 80, 120]\<rparr> :: pd_data"
  have c: "count_piers [112, 137, 255] 3 = 2" by (simp add: numeral_3_eq_3)
  have "\<not> AR_SREV_9287 ex_hw" by (simp add: AR_SREV_9287_def ex_hw_def)
  moreover have "pd_ok ?d 2 2" by (simp add: pd_ok_def curve_pair_ok_def list_all_iff)
  ultimately show ?thesis
    using gain_boundaries_total [of ex_hw 2 "replicate 4 (replicate 64 0)" "[112, 137, 255]" 3 ?d ex_cal_chan 6] by (auto simp: c)
qed

end
