(* ===== verification/Regd_Common.thy ===== *)
theory Regd_Common
  imports Ath_Prelude
begin

text \<open>
  The regulatory tables (\<open>ath/regd_common.h\<close>, \<open>ath/regd.h\<close>): regulatory domain numbers, country
  codes, the map from regulatory domain pairs to conformance test limits, and the map from
  country codes to regulatory domains, entry by entry in the order of the source (the lookups
  return the first match). Enumeration constants are abbreviations of 16-bit numbers.
\<close>

section \<open>Data\<close>

record reg_dmn_pair_mapping =
  pair_regDmnEnum :: u16
  reg_5ghz_ctl :: u16
  reg_2ghz_ctl :: u16

record country_code_to_enum_rd =
  countryCode :: u16
  regDmnEnum :: u16
  isoName :: string

section \<open>Constants\<close>

abbreviation (input) CTL_FCC :: u16 where "CTL_FCC \<equiv> 0x10"
abbreviation (input) CTL_MKK :: u16 where "CTL_MKK \<equiv> 0x40"
abbreviation (input) CTL_ETSI :: u16 where "CTL_ETSI \<equiv> 0x30"
abbreviation (input) NO_CTL :: u16 where "NO_CTL \<equiv> 0xff"
abbreviation (input) SD_NO_CTL :: u16 where "SD_NO_CTL \<equiv> 0xE0"
abbreviation (input) CTRY_DEBUG :: u16 where "CTRY_DEBUG \<equiv> 0x1ff"
abbreviation (input) CTRY_DEFAULT :: u16 where "CTRY_DEFAULT \<equiv> 0"

abbreviation (input) NO_ENUMRD :: u16 where "NO_ENUMRD \<equiv> 0x00"
abbreviation (input) NULL1_WORLD :: u16 where "NULL1_WORLD \<equiv> 0x03"
abbreviation (input) NULL1_ETSIB :: u16 where "NULL1_ETSIB \<equiv> 0x07"
abbreviation (input) NULL1_ETSIC :: u16 where "NULL1_ETSIC \<equiv> 0x08"
abbreviation (input) FCC1_FCCA :: u16 where "FCC1_FCCA \<equiv> 0x10"
abbreviation (input) FCC1_WORLD :: u16 where "FCC1_WORLD \<equiv> 0x11"
abbreviation (input) FCC4_FCCA :: u16 where "FCC4_FCCA \<equiv> 0x12"
abbreviation (input) FCC5_FCCA :: u16 where "FCC5_FCCA \<equiv> 0x13"
abbreviation (input) FCC6_FCCA :: u16 where "FCC6_FCCA \<equiv> 0x14"
abbreviation (input) FCC2_FCCA :: u16 where "FCC2_FCCA \<equiv> 0x20"
abbreviation (input) FCC2_WORLD :: u16 where "FCC2_WORLD \<equiv> 0x21"
abbreviation (input) FCC2_ETSIC :: u16 where "FCC2_ETSIC \<equiv> 0x22"
abbreviation (input) FCC6_WORLD :: u16 where "FCC6_WORLD \<equiv> 0x23"
abbreviation (input) FRANCE_RES :: u16 where "FRANCE_RES \<equiv> 0x31"
abbreviation (input) FCC3_FCCA :: u16 where "FCC3_FCCA \<equiv> 0x3A"
abbreviation (input) FCC3_WORLD :: u16 where "FCC3_WORLD \<equiv> 0x3B"
abbreviation (input) ETSI1_WORLD :: u16 where "ETSI1_WORLD \<equiv> 0x37"
abbreviation (input) ETSI3_ETSIA :: u16 where "ETSI3_ETSIA \<equiv> 0x32"
abbreviation (input) ETSI2_WORLD :: u16 where "ETSI2_WORLD \<equiv> 0x35"
abbreviation (input) ETSI3_WORLD :: u16 where "ETSI3_WORLD \<equiv> 0x36"
abbreviation (input) ETSI4_WORLD :: u16 where "ETSI4_WORLD \<equiv> 0x30"
abbreviation (input) ETSI4_ETSIC :: u16 where "ETSI4_ETSIC \<equiv> 0x38"
abbreviation (input) ETSI5_WORLD :: u16 where "ETSI5_WORLD \<equiv> 0x39"
abbreviation (input) ETSI6_WORLD :: u16 where "ETSI6_WORLD \<equiv> 0x34"
abbreviation (input) ETSI_RESERVED :: u16 where "ETSI_RESERVED \<equiv> 0x33"
abbreviation (input) MKK1_MKKA :: u16 where "MKK1_MKKA \<equiv> 0x40"
abbreviation (input) MKK1_MKKB :: u16 where "MKK1_MKKB \<equiv> 0x41"
abbreviation (input) APL4_WORLD :: u16 where "APL4_WORLD \<equiv> 0x42"
abbreviation (input) MKK2_MKKA :: u16 where "MKK2_MKKA \<equiv> 0x43"
abbreviation (input) APL_RESERVED :: u16 where "APL_RESERVED \<equiv> 0x44"
abbreviation (input) APL2_WORLD :: u16 where "APL2_WORLD \<equiv> 0x45"
abbreviation (input) APL2_APLC :: u16 where "APL2_APLC \<equiv> 0x46"
abbreviation (input) APL3_WORLD :: u16 where "APL3_WORLD \<equiv> 0x47"
abbreviation (input) MKK1_FCCA :: u16 where "MKK1_FCCA \<equiv> 0x48"
abbreviation (input) APL2_APLD :: u16 where "APL2_APLD \<equiv> 0x49"
abbreviation (input) MKK1_MKKA1 :: u16 where "MKK1_MKKA1 \<equiv> 0x4A"
abbreviation (input) MKK1_MKKA2 :: u16 where "MKK1_MKKA2 \<equiv> 0x4B"
abbreviation (input) MKK1_MKKC :: u16 where "MKK1_MKKC \<equiv> 0x4C"
abbreviation (input) APL3_FCCA :: u16 where "APL3_FCCA \<equiv> 0x50"
abbreviation (input) APL1_WORLD :: u16 where "APL1_WORLD \<equiv> 0x52"
abbreviation (input) APL1_FCCA :: u16 where "APL1_FCCA \<equiv> 0x53"
abbreviation (input) APL1_APLA :: u16 where "APL1_APLA \<equiv> 0x54"
abbreviation (input) APL1_ETSIC :: u16 where "APL1_ETSIC \<equiv> 0x55"
abbreviation (input) APL2_ETSIC :: u16 where "APL2_ETSIC \<equiv> 0x56"
abbreviation (input) APL5_WORLD :: u16 where "APL5_WORLD \<equiv> 0x58"
abbreviation (input) APL6_WORLD :: u16 where "APL6_WORLD \<equiv> 0x5B"
abbreviation (input) APL7_FCCA :: u16 where "APL7_FCCA \<equiv> 0x5C"
abbreviation (input) APL8_WORLD :: u16 where "APL8_WORLD \<equiv> 0x5D"
abbreviation (input) APL9_WORLD :: u16 where "APL9_WORLD \<equiv> 0x5E"
abbreviation (input) WOR0_WORLD :: u16 where "WOR0_WORLD \<equiv> 0x60"
abbreviation (input) WOR1_WORLD :: u16 where "WOR1_WORLD \<equiv> 0x61"
abbreviation (input) WOR2_WORLD :: u16 where "WOR2_WORLD \<equiv> 0x62"
abbreviation (input) WOR3_WORLD :: u16 where "WOR3_WORLD \<equiv> 0x63"
abbreviation (input) WOR4_WORLD :: u16 where "WOR4_WORLD \<equiv> 0x64"
abbreviation (input) WOR5_ETSIC :: u16 where "WOR5_ETSIC \<equiv> 0x65"
abbreviation (input) WOR01_WORLD :: u16 where "WOR01_WORLD \<equiv> 0x66"
abbreviation (input) WOR02_WORLD :: u16 where "WOR02_WORLD \<equiv> 0x67"
abbreviation (input) EU1_WORLD :: u16 where "EU1_WORLD \<equiv> 0x68"
abbreviation (input) WOR9_WORLD :: u16 where "WOR9_WORLD \<equiv> 0x69"
abbreviation (input) WORA_WORLD :: u16 where "WORA_WORLD \<equiv> 0x6A"
abbreviation (input) WORB_WORLD :: u16 where "WORB_WORLD \<equiv> 0x6B"
abbreviation (input) WORC_WORLD :: u16 where "WORC_WORLD \<equiv> 0x6C"
abbreviation (input) MKK3_MKKB :: u16 where "MKK3_MKKB \<equiv> 0x80"
abbreviation (input) MKK3_MKKA2 :: u16 where "MKK3_MKKA2 \<equiv> 0x81"
abbreviation (input) MKK3_MKKC :: u16 where "MKK3_MKKC \<equiv> 0x82"
abbreviation (input) MKK4_MKKB :: u16 where "MKK4_MKKB \<equiv> 0x83"
abbreviation (input) MKK4_MKKA2 :: u16 where "MKK4_MKKA2 \<equiv> 0x84"
abbreviation (input) MKK4_MKKC :: u16 where "MKK4_MKKC \<equiv> 0x85"
abbreviation (input) MKK5_MKKB :: u16 where "MKK5_MKKB \<equiv> 0x86"
abbreviation (input) MKK5_MKKA2 :: u16 where "MKK5_MKKA2 \<equiv> 0x87"
abbreviation (input) MKK5_MKKC :: u16 where "MKK5_MKKC \<equiv> 0x88"
abbreviation (input) MKK6_MKKB :: u16 where "MKK6_MKKB \<equiv> 0x89"
abbreviation (input) MKK6_MKKA2 :: u16 where "MKK6_MKKA2 \<equiv> 0x8A"
abbreviation (input) MKK6_MKKC :: u16 where "MKK6_MKKC \<equiv> 0x8B"
abbreviation (input) MKK7_MKKB :: u16 where "MKK7_MKKB \<equiv> 0x8C"
abbreviation (input) MKK7_MKKA2 :: u16 where "MKK7_MKKA2 \<equiv> 0x8D"
abbreviation (input) MKK7_MKKC :: u16 where "MKK7_MKKC \<equiv> 0x8E"
abbreviation (input) MKK8_MKKB :: u16 where "MKK8_MKKB \<equiv> 0x8F"
abbreviation (input) MKK8_MKKA2 :: u16 where "MKK8_MKKA2 \<equiv> 0x90"
abbreviation (input) MKK8_MKKC :: u16 where "MKK8_MKKC \<equiv> 0x91"
abbreviation (input) MKK14_MKKA1 :: u16 where "MKK14_MKKA1 \<equiv> 0x92"
abbreviation (input) MKK15_MKKA1 :: u16 where "MKK15_MKKA1 \<equiv> 0x93"
abbreviation (input) MKK10_FCCA :: u16 where "MKK10_FCCA \<equiv> 0xD0"
abbreviation (input) MKK10_MKKA1 :: u16 where "MKK10_MKKA1 \<equiv> 0xD1"
abbreviation (input) MKK10_MKKC :: u16 where "MKK10_MKKC \<equiv> 0xD2"
abbreviation (input) MKK10_MKKA2 :: u16 where "MKK10_MKKA2 \<equiv> 0xD3"
abbreviation (input) MKK11_MKKA :: u16 where "MKK11_MKKA \<equiv> 0xD4"
abbreviation (input) MKK11_FCCA :: u16 where "MKK11_FCCA \<equiv> 0xD5"
abbreviation (input) MKK11_MKKA1 :: u16 where "MKK11_MKKA1 \<equiv> 0xD6"
abbreviation (input) MKK11_MKKC :: u16 where "MKK11_MKKC \<equiv> 0xD7"
abbreviation (input) MKK11_MKKA2 :: u16 where "MKK11_MKKA2 \<equiv> 0xD8"
abbreviation (input) MKK12_MKKA :: u16 where "MKK12_MKKA \<equiv> 0xD9"
abbreviation (input) MKK12_FCCA :: u16 where "MKK12_FCCA \<equiv> 0xDA"
abbreviation (input) MKK12_MKKA1 :: u16 where "MKK12_MKKA1 \<equiv> 0xDB"
abbreviation (input) MKK12_MKKC :: u16 where "MKK12_MKKC \<equiv> 0xDC"
abbreviation (input) MKK12_MKKA2 :: u16 where "MKK12_MKKA2 \<equiv> 0xDD"
abbreviation (input) MKK13_MKKB :: u16 where "MKK13_MKKB \<equiv> 0xDE"
abbreviation (input) MKK3_MKKA :: u16 where "MKK3_MKKA \<equiv> 0xF0"
abbreviation (input) MKK3_MKKA1 :: u16 where "MKK3_MKKA1 \<equiv> 0xF1"
abbreviation (input) MKK3_FCCA :: u16 where "MKK3_FCCA \<equiv> 0xF2"
abbreviation (input) MKK4_MKKA :: u16 where "MKK4_MKKA \<equiv> 0xF3"
abbreviation (input) MKK4_MKKA1 :: u16 where "MKK4_MKKA1 \<equiv> 0xF4"
abbreviation (input) MKK4_FCCA :: u16 where "MKK4_FCCA \<equiv> 0xF5"
abbreviation (input) MKK9_MKKA :: u16 where "MKK9_MKKA \<equiv> 0xF6"
abbreviation (input) MKK10_MKKA :: u16 where "MKK10_MKKA \<equiv> 0xF7"
abbreviation (input) MKK6_MKKA1 :: u16 where "MKK6_MKKA1 \<equiv> 0xF8"
abbreviation (input) MKK6_FCCA :: u16 where "MKK6_FCCA \<equiv> 0xF9"
abbreviation (input) MKK7_MKKA1 :: u16 where "MKK7_MKKA1 \<equiv> 0xFA"
abbreviation (input) MKK7_FCCA :: u16 where "MKK7_FCCA \<equiv> 0xFB"
abbreviation (input) MKK9_FCCA :: u16 where "MKK9_FCCA \<equiv> 0xFC"
abbreviation (input) MKK9_MKKA1 :: u16 where "MKK9_MKKA1 \<equiv> 0xFD"
abbreviation (input) MKK9_MKKC :: u16 where "MKK9_MKKC \<equiv> 0xFE"
abbreviation (input) MKK9_MKKA2 :: u16 where "MKK9_MKKA2 \<equiv> 0xFF"
abbreviation (input) WORLD :: u16 where "WORLD \<equiv> 0x0199"
abbreviation (input) DEBUG_REG_DMN :: u16 where "DEBUG_REG_DMN \<equiv> 0x01ff"

abbreviation (input) CTRY_ALBANIA :: u16 where "CTRY_ALBANIA \<equiv> 8"
abbreviation (input) CTRY_ALGERIA :: u16 where "CTRY_ALGERIA \<equiv> 12"
abbreviation (input) CTRY_ARGENTINA :: u16 where "CTRY_ARGENTINA \<equiv> 32"
abbreviation (input) CTRY_ARMENIA :: u16 where "CTRY_ARMENIA \<equiv> 51"
abbreviation (input) CTRY_ARUBA :: u16 where "CTRY_ARUBA \<equiv> 533"
abbreviation (input) CTRY_AUSTRALIA :: u16 where "CTRY_AUSTRALIA \<equiv> 36"
abbreviation (input) CTRY_AUSTRIA :: u16 where "CTRY_AUSTRIA \<equiv> 40"
abbreviation (input) CTRY_AZERBAIJAN :: u16 where "CTRY_AZERBAIJAN \<equiv> 31"
abbreviation (input) CTRY_BAHRAIN :: u16 where "CTRY_BAHRAIN \<equiv> 48"
abbreviation (input) CTRY_BANGLADESH :: u16 where "CTRY_BANGLADESH \<equiv> 50"
abbreviation (input) CTRY_BARBADOS :: u16 where "CTRY_BARBADOS \<equiv> 52"
abbreviation (input) CTRY_BELARUS :: u16 where "CTRY_BELARUS \<equiv> 112"
abbreviation (input) CTRY_BELGIUM :: u16 where "CTRY_BELGIUM \<equiv> 56"
abbreviation (input) CTRY_BELIZE :: u16 where "CTRY_BELIZE \<equiv> 84"
abbreviation (input) CTRY_BOLIVIA :: u16 where "CTRY_BOLIVIA \<equiv> 68"
abbreviation (input) CTRY_BOSNIA_HERZ :: u16 where "CTRY_BOSNIA_HERZ \<equiv> 70"
abbreviation (input) CTRY_BRAZIL :: u16 where "CTRY_BRAZIL \<equiv> 76"
abbreviation (input) CTRY_BRUNEI_DARUSSALAM :: u16 where "CTRY_BRUNEI_DARUSSALAM \<equiv> 96"
abbreviation (input) CTRY_BULGARIA :: u16 where "CTRY_BULGARIA \<equiv> 100"
abbreviation (input) CTRY_CAMBODIA :: u16 where "CTRY_CAMBODIA \<equiv> 116"
abbreviation (input) CTRY_CANADA :: u16 where "CTRY_CANADA \<equiv> 124"
abbreviation (input) CTRY_CHILE :: u16 where "CTRY_CHILE \<equiv> 152"
abbreviation (input) CTRY_CHINA :: u16 where "CTRY_CHINA \<equiv> 156"
abbreviation (input) CTRY_COLOMBIA :: u16 where "CTRY_COLOMBIA \<equiv> 170"
abbreviation (input) CTRY_COSTA_RICA :: u16 where "CTRY_COSTA_RICA \<equiv> 188"
abbreviation (input) CTRY_CROATIA :: u16 where "CTRY_CROATIA \<equiv> 191"
abbreviation (input) CTRY_CYPRUS :: u16 where "CTRY_CYPRUS \<equiv> 196"
abbreviation (input) CTRY_CZECH :: u16 where "CTRY_CZECH \<equiv> 203"
abbreviation (input) CTRY_DENMARK :: u16 where "CTRY_DENMARK \<equiv> 208"
abbreviation (input) CTRY_DOMINICAN_REPUBLIC :: u16 where "CTRY_DOMINICAN_REPUBLIC \<equiv> 214"
abbreviation (input) CTRY_ECUADOR :: u16 where "CTRY_ECUADOR \<equiv> 218"
abbreviation (input) CTRY_EGYPT :: u16 where "CTRY_EGYPT \<equiv> 818"
abbreviation (input) CTRY_EL_SALVADOR :: u16 where "CTRY_EL_SALVADOR \<equiv> 222"
abbreviation (input) CTRY_ESTONIA :: u16 where "CTRY_ESTONIA \<equiv> 233"
abbreviation (input) CTRY_FAEROE_ISLANDS :: u16 where "CTRY_FAEROE_ISLANDS \<equiv> 234"
abbreviation (input) CTRY_FINLAND :: u16 where "CTRY_FINLAND \<equiv> 246"
abbreviation (input) CTRY_FRANCE :: u16 where "CTRY_FRANCE \<equiv> 250"
abbreviation (input) CTRY_GEORGIA :: u16 where "CTRY_GEORGIA \<equiv> 268"
abbreviation (input) CTRY_GERMANY :: u16 where "CTRY_GERMANY \<equiv> 276"
abbreviation (input) CTRY_GREECE :: u16 where "CTRY_GREECE \<equiv> 300"
abbreviation (input) CTRY_GREENLAND :: u16 where "CTRY_GREENLAND \<equiv> 304"
abbreviation (input) CTRY_GRENADA :: u16 where "CTRY_GRENADA \<equiv> 308"
abbreviation (input) CTRY_GUAM :: u16 where "CTRY_GUAM \<equiv> 316"
abbreviation (input) CTRY_GUATEMALA :: u16 where "CTRY_GUATEMALA \<equiv> 320"
abbreviation (input) CTRY_HAITI :: u16 where "CTRY_HAITI \<equiv> 332"
abbreviation (input) CTRY_HONDURAS :: u16 where "CTRY_HONDURAS \<equiv> 340"
abbreviation (input) CTRY_HONG_KONG :: u16 where "CTRY_HONG_KONG \<equiv> 344"
abbreviation (input) CTRY_HUNGARY :: u16 where "CTRY_HUNGARY \<equiv> 348"
abbreviation (input) CTRY_ICELAND :: u16 where "CTRY_ICELAND \<equiv> 352"
abbreviation (input) CTRY_INDIA :: u16 where "CTRY_INDIA \<equiv> 356"
abbreviation (input) CTRY_INDONESIA :: u16 where "CTRY_INDONESIA \<equiv> 360"
abbreviation (input) CTRY_IRAN :: u16 where "CTRY_IRAN \<equiv> 364"
abbreviation (input) CTRY_IRAQ :: u16 where "CTRY_IRAQ \<equiv> 368"
abbreviation (input) CTRY_IRELAND :: u16 where "CTRY_IRELAND \<equiv> 372"
abbreviation (input) CTRY_ISRAEL :: u16 where "CTRY_ISRAEL \<equiv> 376"
abbreviation (input) CTRY_ITALY :: u16 where "CTRY_ITALY \<equiv> 380"
abbreviation (input) CTRY_JAMAICA :: u16 where "CTRY_JAMAICA \<equiv> 388"
abbreviation (input) CTRY_JAPAN :: u16 where "CTRY_JAPAN \<equiv> 392"
abbreviation (input) CTRY_JORDAN :: u16 where "CTRY_JORDAN \<equiv> 400"
abbreviation (input) CTRY_KAZAKHSTAN :: u16 where "CTRY_KAZAKHSTAN \<equiv> 398"
abbreviation (input) CTRY_KENYA :: u16 where "CTRY_KENYA \<equiv> 404"
abbreviation (input) CTRY_KOREA_NORTH :: u16 where "CTRY_KOREA_NORTH \<equiv> 408"
abbreviation (input) CTRY_KOREA_ROC :: u16 where "CTRY_KOREA_ROC \<equiv> 410"
abbreviation (input) CTRY_KOREA_ROC2 :: u16 where "CTRY_KOREA_ROC2 \<equiv> 411"
abbreviation (input) CTRY_KOREA_ROC3 :: u16 where "CTRY_KOREA_ROC3 \<equiv> 412"
abbreviation (input) CTRY_KUWAIT :: u16 where "CTRY_KUWAIT \<equiv> 414"
abbreviation (input) CTRY_LATVIA :: u16 where "CTRY_LATVIA \<equiv> 428"
abbreviation (input) CTRY_LEBANON :: u16 where "CTRY_LEBANON \<equiv> 422"
abbreviation (input) CTRY_LIBYA :: u16 where "CTRY_LIBYA \<equiv> 434"
abbreviation (input) CTRY_LIECHTENSTEIN :: u16 where "CTRY_LIECHTENSTEIN \<equiv> 438"
abbreviation (input) CTRY_LITHUANIA :: u16 where "CTRY_LITHUANIA \<equiv> 440"
abbreviation (input) CTRY_LUXEMBOURG :: u16 where "CTRY_LUXEMBOURG \<equiv> 442"
abbreviation (input) CTRY_MACAU :: u16 where "CTRY_MACAU \<equiv> 446"
abbreviation (input) CTRY_MACEDONIA :: u16 where "CTRY_MACEDONIA \<equiv> 807"
abbreviation (input) CTRY_MALAYSIA :: u16 where "CTRY_MALAYSIA \<equiv> 458"
abbreviation (input) CTRY_MALTA :: u16 where "CTRY_MALTA \<equiv> 470"
abbreviation (input) CTRY_MEXICO :: u16 where "CTRY_MEXICO \<equiv> 484"
abbreviation (input) CTRY_MONACO :: u16 where "CTRY_MONACO \<equiv> 492"
abbreviation (input) CTRY_MOROCCO :: u16 where "CTRY_MOROCCO \<equiv> 504"
abbreviation (input) CTRY_NEPAL :: u16 where "CTRY_NEPAL \<equiv> 524"
abbreviation (input) CTRY_NETHERLANDS :: u16 where "CTRY_NETHERLANDS \<equiv> 528"
abbreviation (input) CTRY_NETHERLANDS_ANTILLES :: u16 where "CTRY_NETHERLANDS_ANTILLES \<equiv> 530"
abbreviation (input) CTRY_NEW_ZEALAND :: u16 where "CTRY_NEW_ZEALAND \<equiv> 554"
abbreviation (input) CTRY_NICARAGUA :: u16 where "CTRY_NICARAGUA \<equiv> 558"
abbreviation (input) CTRY_NORWAY :: u16 where "CTRY_NORWAY \<equiv> 578"
abbreviation (input) CTRY_OMAN :: u16 where "CTRY_OMAN \<equiv> 512"
abbreviation (input) CTRY_PAKISTAN :: u16 where "CTRY_PAKISTAN \<equiv> 586"
abbreviation (input) CTRY_PANAMA :: u16 where "CTRY_PANAMA \<equiv> 591"
abbreviation (input) CTRY_PAPUA_NEW_GUINEA :: u16 where "CTRY_PAPUA_NEW_GUINEA \<equiv> 598"
abbreviation (input) CTRY_PARAGUAY :: u16 where "CTRY_PARAGUAY \<equiv> 600"
abbreviation (input) CTRY_PERU :: u16 where "CTRY_PERU \<equiv> 604"
abbreviation (input) CTRY_PHILIPPINES :: u16 where "CTRY_PHILIPPINES \<equiv> 608"
abbreviation (input) CTRY_POLAND :: u16 where "CTRY_POLAND \<equiv> 616"
abbreviation (input) CTRY_PORTUGAL :: u16 where "CTRY_PORTUGAL \<equiv> 620"
abbreviation (input) CTRY_PUERTO_RICO :: u16 where "CTRY_PUERTO_RICO \<equiv> 630"
abbreviation (input) CTRY_QATAR :: u16 where "CTRY_QATAR \<equiv> 634"
abbreviation (input) CTRY_ROMANIA :: u16 where "CTRY_ROMANIA \<equiv> 642"
abbreviation (input) CTRY_RUSSIA :: u16 where "CTRY_RUSSIA \<equiv> 643"
abbreviation (input) CTRY_SAUDI_ARABIA :: u16 where "CTRY_SAUDI_ARABIA \<equiv> 682"
abbreviation (input) CTRY_SERBIA_MONTENEGRO :: u16 where "CTRY_SERBIA_MONTENEGRO \<equiv> 891"
abbreviation (input) CTRY_SINGAPORE :: u16 where "CTRY_SINGAPORE \<equiv> 702"
abbreviation (input) CTRY_SLOVAKIA :: u16 where "CTRY_SLOVAKIA \<equiv> 703"
abbreviation (input) CTRY_SLOVENIA :: u16 where "CTRY_SLOVENIA \<equiv> 705"
abbreviation (input) CTRY_SOUTH_AFRICA :: u16 where "CTRY_SOUTH_AFRICA \<equiv> 710"
abbreviation (input) CTRY_SPAIN :: u16 where "CTRY_SPAIN \<equiv> 724"
abbreviation (input) CTRY_SRI_LANKA :: u16 where "CTRY_SRI_LANKA \<equiv> 144"
abbreviation (input) CTRY_SWEDEN :: u16 where "CTRY_SWEDEN \<equiv> 752"
abbreviation (input) CTRY_SWITZERLAND :: u16 where "CTRY_SWITZERLAND \<equiv> 756"
abbreviation (input) CTRY_SYRIA :: u16 where "CTRY_SYRIA \<equiv> 760"
abbreviation (input) CTRY_TAIWAN :: u16 where "CTRY_TAIWAN \<equiv> 158"
abbreviation (input) CTRY_THAILAND :: u16 where "CTRY_THAILAND \<equiv> 764"
abbreviation (input) CTRY_TRINIDAD_Y_TOBAGO :: u16 where "CTRY_TRINIDAD_Y_TOBAGO \<equiv> 780"
abbreviation (input) CTRY_TUNISIA :: u16 where "CTRY_TUNISIA \<equiv> 788"
abbreviation (input) CTRY_TURKEY :: u16 where "CTRY_TURKEY \<equiv> 792"
abbreviation (input) CTRY_UAE :: u16 where "CTRY_UAE \<equiv> 784"
abbreviation (input) CTRY_UKRAINE :: u16 where "CTRY_UKRAINE \<equiv> 804"
abbreviation (input) CTRY_UNITED_KINGDOM :: u16 where "CTRY_UNITED_KINGDOM \<equiv> 826"
abbreviation (input) CTRY_UNITED_STATES :: u16 where "CTRY_UNITED_STATES \<equiv> 840"
abbreviation (input) CTRY_UNITED_STATES_FCC49 :: u16 where "CTRY_UNITED_STATES_FCC49 \<equiv> 842"
abbreviation (input) CTRY_URUGUAY :: u16 where "CTRY_URUGUAY \<equiv> 858"
abbreviation (input) CTRY_UZBEKISTAN :: u16 where "CTRY_UZBEKISTAN \<equiv> 860"
abbreviation (input) CTRY_VENEZUELA :: u16 where "CTRY_VENEZUELA \<equiv> 862"
abbreviation (input) CTRY_VIET_NAM :: u16 where "CTRY_VIET_NAM \<equiv> 704"
abbreviation (input) CTRY_YEMEN :: u16 where "CTRY_YEMEN \<equiv> 887"
abbreviation (input) CTRY_ZIMBABWE :: u16 where "CTRY_ZIMBABWE \<equiv> 716"
abbreviation (input) CTRY_JAPAN1 :: u16 where "CTRY_JAPAN1 \<equiv> 393"
abbreviation (input) CTRY_JAPAN2 :: u16 where "CTRY_JAPAN2 \<equiv> 394"
abbreviation (input) CTRY_JAPAN3 :: u16 where "CTRY_JAPAN3 \<equiv> 395"
abbreviation (input) CTRY_JAPAN4 :: u16 where "CTRY_JAPAN4 \<equiv> 396"
abbreviation (input) CTRY_JAPAN5 :: u16 where "CTRY_JAPAN5 \<equiv> 397"
abbreviation (input) CTRY_JAPAN6 :: u16 where "CTRY_JAPAN6 \<equiv> 4006"
abbreviation (input) CTRY_JAPAN7 :: u16 where "CTRY_JAPAN7 \<equiv> 4007"
abbreviation (input) CTRY_JAPAN8 :: u16 where "CTRY_JAPAN8 \<equiv> 4008"
abbreviation (input) CTRY_JAPAN9 :: u16 where "CTRY_JAPAN9 \<equiv> 4009"
abbreviation (input) CTRY_JAPAN10 :: u16 where "CTRY_JAPAN10 \<equiv> 4010"
abbreviation (input) CTRY_JAPAN11 :: u16 where "CTRY_JAPAN11 \<equiv> 4011"
abbreviation (input) CTRY_JAPAN12 :: u16 where "CTRY_JAPAN12 \<equiv> 4012"
abbreviation (input) CTRY_JAPAN13 :: u16 where "CTRY_JAPAN13 \<equiv> 4013"
abbreviation (input) CTRY_JAPAN14 :: u16 where "CTRY_JAPAN14 \<equiv> 4014"
abbreviation (input) CTRY_JAPAN15 :: u16 where "CTRY_JAPAN15 \<equiv> 4015"
abbreviation (input) CTRY_JAPAN16 :: u16 where "CTRY_JAPAN16 \<equiv> 4016"
abbreviation (input) CTRY_JAPAN17 :: u16 where "CTRY_JAPAN17 \<equiv> 4017"
abbreviation (input) CTRY_JAPAN18 :: u16 where "CTRY_JAPAN18 \<equiv> 4018"
abbreviation (input) CTRY_JAPAN19 :: u16 where "CTRY_JAPAN19 \<equiv> 4019"
abbreviation (input) CTRY_JAPAN20 :: u16 where "CTRY_JAPAN20 \<equiv> 4020"
abbreviation (input) CTRY_JAPAN21 :: u16 where "CTRY_JAPAN21 \<equiv> 4021"
abbreviation (input) CTRY_JAPAN22 :: u16 where "CTRY_JAPAN22 \<equiv> 4022"
abbreviation (input) CTRY_JAPAN23 :: u16 where "CTRY_JAPAN23 \<equiv> 4023"
abbreviation (input) CTRY_JAPAN24 :: u16 where "CTRY_JAPAN24 \<equiv> 4024"
abbreviation (input) CTRY_JAPAN25 :: u16 where "CTRY_JAPAN25 \<equiv> 4025"
abbreviation (input) CTRY_JAPAN26 :: u16 where "CTRY_JAPAN26 \<equiv> 4026"
abbreviation (input) CTRY_JAPAN27 :: u16 where "CTRY_JAPAN27 \<equiv> 4027"
abbreviation (input) CTRY_JAPAN28 :: u16 where "CTRY_JAPAN28 \<equiv> 4028"
abbreviation (input) CTRY_JAPAN29 :: u16 where "CTRY_JAPAN29 \<equiv> 4029"
abbreviation (input) CTRY_JAPAN30 :: u16 where "CTRY_JAPAN30 \<equiv> 4030"
abbreviation (input) CTRY_JAPAN31 :: u16 where "CTRY_JAPAN31 \<equiv> 4031"
abbreviation (input) CTRY_JAPAN32 :: u16 where "CTRY_JAPAN32 \<equiv> 4032"
abbreviation (input) CTRY_JAPAN33 :: u16 where "CTRY_JAPAN33 \<equiv> 4033"
abbreviation (input) CTRY_JAPAN34 :: u16 where "CTRY_JAPAN34 \<equiv> 4034"
abbreviation (input) CTRY_JAPAN35 :: u16 where "CTRY_JAPAN35 \<equiv> 4035"
abbreviation (input) CTRY_JAPAN36 :: u16 where "CTRY_JAPAN36 \<equiv> 4036"
abbreviation (input) CTRY_JAPAN37 :: u16 where "CTRY_JAPAN37 \<equiv> 4037"
abbreviation (input) CTRY_JAPAN38 :: u16 where "CTRY_JAPAN38 \<equiv> 4038"
abbreviation (input) CTRY_JAPAN39 :: u16 where "CTRY_JAPAN39 \<equiv> 4039"
abbreviation (input) CTRY_JAPAN40 :: u16 where "CTRY_JAPAN40 \<equiv> 4040"
abbreviation (input) CTRY_JAPAN41 :: u16 where "CTRY_JAPAN41 \<equiv> 4041"
abbreviation (input) CTRY_JAPAN42 :: u16 where "CTRY_JAPAN42 \<equiv> 4042"
abbreviation (input) CTRY_JAPAN43 :: u16 where "CTRY_JAPAN43 \<equiv> 4043"
abbreviation (input) CTRY_JAPAN44 :: u16 where "CTRY_JAPAN44 \<equiv> 4044"
abbreviation (input) CTRY_JAPAN45 :: u16 where "CTRY_JAPAN45 \<equiv> 4045"
abbreviation (input) CTRY_JAPAN46 :: u16 where "CTRY_JAPAN46 \<equiv> 4046"
abbreviation (input) CTRY_JAPAN47 :: u16 where "CTRY_JAPAN47 \<equiv> 4047"
abbreviation (input) CTRY_JAPAN48 :: u16 where "CTRY_JAPAN48 \<equiv> 4048"
abbreviation (input) CTRY_JAPAN49 :: u16 where "CTRY_JAPAN49 \<equiv> 4049"
abbreviation (input) CTRY_JAPAN50 :: u16 where "CTRY_JAPAN50 \<equiv> 4050"
abbreviation (input) CTRY_JAPAN51 :: u16 where "CTRY_JAPAN51 \<equiv> 4051"
abbreviation (input) CTRY_JAPAN52 :: u16 where "CTRY_JAPAN52 \<equiv> 4052"
abbreviation (input) CTRY_JAPAN53 :: u16 where "CTRY_JAPAN53 \<equiv> 4053"
abbreviation (input) CTRY_JAPAN54 :: u16 where "CTRY_JAPAN54 \<equiv> 4054"
abbreviation (input) CTRY_JAPAN55 :: u16 where "CTRY_JAPAN55 \<equiv> 4055"
abbreviation (input) CTRY_JAPAN56 :: u16 where "CTRY_JAPAN56 \<equiv> 4056"
abbreviation (input) CTRY_JAPAN57 :: u16 where "CTRY_JAPAN57 \<equiv> 4057"
abbreviation (input) CTRY_JAPAN58 :: u16 where "CTRY_JAPAN58 \<equiv> 4058"
abbreviation (input) CTRY_JAPAN59 :: u16 where "CTRY_JAPAN59 \<equiv> 4059"
abbreviation (input) CTRY_AUSTRALIA2 :: u16 where "CTRY_AUSTRALIA2 \<equiv> 5000"
abbreviation (input) CTRY_CANADA2 :: u16 where "CTRY_CANADA2 \<equiv> 5001"
abbreviation (input) CTRY_BELGIUM2 :: u16 where "CTRY_BELGIUM2 \<equiv> 5002"

section \<open>Tables\<close>

definition mk_pair :: "u16 \<Rightarrow> u16 \<Rightarrow> u16 \<Rightarrow> reg_dmn_pair_mapping" where
  "mk_pair d a b = \<lparr>pair_regDmnEnum = d, reg_5ghz_ctl = a, reg_2ghz_ctl = b\<rparr>"

definition mk_country :: "u16 \<Rightarrow> u16 \<Rightarrow> string \<Rightarrow> country_code_to_enum_rd" where
  "mk_country c d n = \<lparr>countryCode = c, regDmnEnum = d, isoName = n\<rparr>"

definition regDomainPairs :: "reg_dmn_pair_mapping list" where
  "regDomainPairs = [
     mk_pair NO_ENUMRD DEBUG_REG_DMN DEBUG_REG_DMN,
     mk_pair NULL1_WORLD NO_CTL CTL_ETSI,
     mk_pair NULL1_ETSIB NO_CTL CTL_ETSI,
     mk_pair NULL1_ETSIC NO_CTL CTL_ETSI,
     mk_pair FCC2_FCCA CTL_FCC CTL_FCC,
     mk_pair FCC2_WORLD CTL_FCC CTL_ETSI,
     mk_pair FCC2_ETSIC CTL_FCC CTL_ETSI,
     mk_pair FCC3_FCCA CTL_FCC CTL_FCC,
     mk_pair FCC3_WORLD CTL_FCC CTL_ETSI,
     mk_pair FCC4_FCCA CTL_FCC CTL_FCC,
     mk_pair FCC5_FCCA CTL_FCC CTL_FCC,
     mk_pair FCC6_FCCA CTL_FCC CTL_FCC,
     mk_pair FCC6_WORLD CTL_FCC CTL_ETSI,
     mk_pair ETSI1_WORLD CTL_ETSI CTL_ETSI,
     mk_pair ETSI2_WORLD CTL_ETSI CTL_ETSI,
     mk_pair ETSI3_WORLD CTL_ETSI CTL_ETSI,
     mk_pair ETSI4_WORLD CTL_ETSI CTL_ETSI,
     mk_pair ETSI5_WORLD CTL_ETSI CTL_ETSI,
     mk_pair ETSI6_WORLD CTL_ETSI CTL_ETSI,
     mk_pair ETSI3_ETSIA CTL_ETSI CTL_ETSI,
     mk_pair FRANCE_RES CTL_ETSI CTL_ETSI,
     mk_pair FCC1_WORLD CTL_FCC CTL_ETSI,
     mk_pair FCC1_FCCA CTL_FCC CTL_FCC,
     mk_pair APL1_WORLD CTL_FCC CTL_ETSI,
     mk_pair APL2_WORLD CTL_FCC CTL_ETSI,
     mk_pair APL3_WORLD CTL_FCC CTL_ETSI,
     mk_pair APL4_WORLD CTL_FCC CTL_ETSI,
     mk_pair APL5_WORLD CTL_FCC CTL_ETSI,
     mk_pair APL6_WORLD CTL_ETSI CTL_ETSI,
     mk_pair APL8_WORLD CTL_ETSI CTL_ETSI,
     mk_pair APL9_WORLD CTL_ETSI CTL_ETSI,
     mk_pair APL3_FCCA CTL_FCC CTL_FCC,
     mk_pair APL7_FCCA CTL_FCC CTL_FCC,
     mk_pair APL1_ETSIC CTL_FCC CTL_ETSI,
     mk_pair APL2_ETSIC CTL_FCC CTL_ETSI,
     mk_pair APL2_APLD CTL_FCC NO_CTL,
     mk_pair MKK1_MKKA CTL_MKK CTL_MKK,
     mk_pair MKK1_MKKB CTL_MKK CTL_MKK,
     mk_pair MKK1_FCCA CTL_MKK CTL_FCC,
     mk_pair MKK1_MKKA1 CTL_MKK CTL_MKK,
     mk_pair MKK1_MKKA2 CTL_MKK CTL_MKK,
     mk_pair MKK1_MKKC CTL_MKK CTL_MKK,
     mk_pair MKK2_MKKA CTL_MKK CTL_MKK,
     mk_pair MKK3_MKKA CTL_MKK CTL_MKK,
     mk_pair MKK3_MKKB CTL_MKK CTL_MKK,
     mk_pair MKK3_MKKA1 CTL_MKK CTL_MKK,
     mk_pair MKK3_MKKA2 CTL_MKK CTL_MKK,
     mk_pair MKK3_MKKC CTL_MKK CTL_MKK,
     mk_pair MKK3_FCCA CTL_MKK CTL_FCC,
     mk_pair MKK4_MKKA CTL_MKK CTL_MKK,
     mk_pair MKK4_MKKB CTL_MKK CTL_MKK,
     mk_pair MKK4_MKKA1 CTL_MKK CTL_MKK,
     mk_pair MKK4_MKKA2 CTL_MKK CTL_MKK,
     mk_pair MKK4_MKKC CTL_MKK CTL_MKK,
     mk_pair MKK4_FCCA CTL_MKK CTL_FCC,
     mk_pair MKK5_MKKB CTL_MKK CTL_MKK,
     mk_pair MKK5_MKKA2 CTL_MKK CTL_MKK,
     mk_pair MKK5_MKKC CTL_MKK CTL_MKK,
     mk_pair MKK6_MKKB CTL_MKK CTL_MKK,
     mk_pair MKK6_MKKA1 CTL_MKK CTL_MKK,
     mk_pair MKK6_MKKA2 CTL_MKK CTL_MKK,
     mk_pair MKK6_MKKC CTL_MKK CTL_MKK,
     mk_pair MKK6_FCCA CTL_MKK CTL_FCC,
     mk_pair MKK7_MKKB CTL_MKK CTL_MKK,
     mk_pair MKK7_MKKA1 CTL_MKK CTL_MKK,
     mk_pair MKK7_MKKA2 CTL_MKK CTL_MKK,
     mk_pair MKK7_MKKC CTL_MKK CTL_MKK,
     mk_pair MKK7_FCCA CTL_MKK CTL_FCC,
     mk_pair MKK8_MKKB CTL_MKK CTL_MKK,
     mk_pair MKK8_MKKA2 CTL_MKK CTL_MKK,
     mk_pair MKK8_MKKC CTL_MKK CTL_MKK,
     mk_pair MKK9_MKKA CTL_MKK CTL_MKK,
     mk_pair MKK9_FCCA CTL_MKK CTL_FCC,
     mk_pair MKK9_MKKA1 CTL_MKK CTL_MKK,
     mk_pair MKK9_MKKA2 CTL_MKK CTL_MKK,
     mk_pair MKK9_MKKC CTL_MKK CTL_MKK,
     mk_pair MKK10_MKKA CTL_MKK CTL_MKK,
     mk_pair MKK10_FCCA CTL_MKK CTL_FCC,
     mk_pair MKK10_MKKA1 CTL_MKK CTL_MKK,
     mk_pair MKK10_MKKA2 CTL_MKK CTL_MKK,
     mk_pair MKK10_MKKC CTL_MKK CTL_MKK,
     mk_pair MKK11_MKKA CTL_MKK CTL_MKK,
     mk_pair MKK11_FCCA CTL_MKK CTL_FCC,
     mk_pair MKK11_MKKA1 CTL_MKK CTL_MKK,
     mk_pair MKK11_MKKA2 CTL_MKK CTL_MKK,
     mk_pair MKK11_MKKC CTL_MKK CTL_MKK,
     mk_pair MKK12_MKKA CTL_MKK CTL_MKK,
     mk_pair MKK12_FCCA CTL_MKK CTL_FCC,
     mk_pair MKK12_MKKA1 CTL_MKK CTL_MKK,
     mk_pair MKK12_MKKA2 CTL_MKK CTL_MKK,
     mk_pair MKK12_MKKC CTL_MKK CTL_MKK,
     mk_pair MKK13_MKKB CTL_MKK CTL_MKK,
     mk_pair MKK14_MKKA1 CTL_MKK CTL_MKK,
     mk_pair MKK15_MKKA1 CTL_MKK CTL_MKK,
     mk_pair WOR0_WORLD NO_CTL NO_CTL,
     mk_pair WOR1_WORLD NO_CTL NO_CTL,
     mk_pair WOR2_WORLD NO_CTL NO_CTL,
     mk_pair WOR3_WORLD NO_CTL NO_CTL,
     mk_pair WOR4_WORLD NO_CTL NO_CTL,
     mk_pair WOR5_ETSIC NO_CTL NO_CTL,
     mk_pair WOR01_WORLD NO_CTL NO_CTL,
     mk_pair WOR02_WORLD NO_CTL NO_CTL,
     mk_pair EU1_WORLD NO_CTL NO_CTL,
     mk_pair WOR9_WORLD NO_CTL NO_CTL,
     mk_pair WORA_WORLD NO_CTL NO_CTL,
     mk_pair WORB_WORLD NO_CTL NO_CTL,
     mk_pair WORC_WORLD NO_CTL NO_CTL]"

definition allCountries :: "country_code_to_enum_rd list" where
  "allCountries = [
     mk_country CTRY_DEBUG NO_ENUMRD ''DB'',
     mk_country CTRY_DEFAULT FCC1_FCCA ''CO'',
     mk_country CTRY_ALBANIA NULL1_WORLD ''AL'',
     mk_country CTRY_ALGERIA NULL1_WORLD ''DZ'',
     mk_country CTRY_ARGENTINA FCC3_WORLD ''AR'',
     mk_country CTRY_ARMENIA ETSI4_WORLD ''AM'',
     mk_country CTRY_ARUBA ETSI1_WORLD ''AW'',
     mk_country CTRY_AUSTRALIA FCC2_WORLD ''AU'',
     mk_country CTRY_AUSTRALIA2 FCC6_WORLD ''AU'',
     mk_country CTRY_AUSTRIA ETSI1_WORLD ''AT'',
     mk_country CTRY_AZERBAIJAN ETSI4_WORLD ''AZ'',
     mk_country CTRY_BAHRAIN APL6_WORLD ''BH'',
     mk_country CTRY_BANGLADESH NULL1_WORLD ''BD'',
     mk_country CTRY_BARBADOS FCC2_WORLD ''BB'',
     mk_country CTRY_BELARUS ETSI1_WORLD ''BY'',
     mk_country CTRY_BELGIUM ETSI1_WORLD ''BE'',
     mk_country CTRY_BELGIUM2 ETSI4_WORLD ''BL'',
     mk_country CTRY_BELIZE APL1_ETSIC ''BZ'',
     mk_country CTRY_BOLIVIA APL1_ETSIC ''BO'',
     mk_country CTRY_BOSNIA_HERZ ETSI1_WORLD ''BA'',
     mk_country CTRY_BRAZIL FCC3_WORLD ''BR'',
     mk_country CTRY_BRUNEI_DARUSSALAM APL1_WORLD ''BN'',
     mk_country CTRY_BULGARIA ETSI6_WORLD ''BG'',
     mk_country CTRY_CAMBODIA ETSI1_WORLD ''KH'',
     mk_country CTRY_CANADA FCC3_FCCA ''CA'',
     mk_country CTRY_CANADA2 FCC6_FCCA ''CA'',
     mk_country CTRY_CHILE APL6_WORLD ''CL'',
     mk_country CTRY_CHINA APL1_WORLD ''CN'',
     mk_country CTRY_COLOMBIA FCC1_FCCA ''CO'',
     mk_country CTRY_COSTA_RICA FCC1_WORLD ''CR'',
     mk_country CTRY_CROATIA ETSI1_WORLD ''HR'',
     mk_country CTRY_CYPRUS ETSI1_WORLD ''CY'',
     mk_country CTRY_CZECH ETSI3_WORLD ''CZ'',
     mk_country CTRY_DENMARK ETSI1_WORLD ''DK'',
     mk_country CTRY_DOMINICAN_REPUBLIC FCC1_FCCA ''DO'',
     mk_country CTRY_ECUADOR FCC1_WORLD ''EC'',
     mk_country CTRY_EGYPT ETSI3_WORLD ''EG'',
     mk_country CTRY_EL_SALVADOR FCC1_WORLD ''SV'',
     mk_country CTRY_ESTONIA ETSI1_WORLD ''EE'',
     mk_country CTRY_FINLAND ETSI1_WORLD ''FI'',
     mk_country CTRY_FRANCE ETSI1_WORLD ''FR'',
     mk_country CTRY_GEORGIA ETSI4_WORLD ''GE'',
     mk_country CTRY_GERMANY ETSI1_WORLD ''DE'',
     mk_country CTRY_GREECE ETSI1_WORLD ''GR'',
     mk_country CTRY_GREENLAND ETSI1_WORLD ''GL'',
     mk_country CTRY_GRENADA FCC3_FCCA ''GD'',
     mk_country CTRY_GUAM FCC1_FCCA ''GU'',
     mk_country CTRY_GUATEMALA FCC1_FCCA ''GT'',
     mk_country CTRY_HAITI ETSI1_WORLD ''HT'',
     mk_country CTRY_HONDURAS NULL1_WORLD ''HN'',
     mk_country CTRY_HONG_KONG FCC3_WORLD ''HK'',
     mk_country CTRY_HUNGARY ETSI1_WORLD ''HU'',
     mk_country CTRY_ICELAND ETSI1_WORLD ''IS'',
     mk_country CTRY_INDIA APL6_WORLD ''IN'',
     mk_country CTRY_INDONESIA NULL1_WORLD ''ID'',
     mk_country CTRY_IRAN APL1_WORLD ''IR'',
     mk_country CTRY_IRELAND ETSI1_WORLD ''IE'',
     mk_country CTRY_ISRAEL NULL1_WORLD ''IL'',
     mk_country CTRY_ITALY ETSI1_WORLD ''IT'',
     mk_country CTRY_JAMAICA FCC3_WORLD ''JM'',
     mk_country CTRY_JAPAN MKK1_MKKA ''JP'',
     mk_country CTRY_JAPAN1 MKK1_MKKB ''JP'',
     mk_country CTRY_JAPAN2 MKK1_FCCA ''JP'',
     mk_country CTRY_JAPAN3 MKK2_MKKA ''JP'',
     mk_country CTRY_JAPAN4 MKK1_MKKA1 ''JP'',
     mk_country CTRY_JAPAN5 MKK1_MKKA2 ''JP'',
     mk_country CTRY_JAPAN6 MKK1_MKKC ''JP'',
     mk_country CTRY_JAPAN7 MKK3_MKKB ''JP'',
     mk_country CTRY_JAPAN8 MKK3_MKKA2 ''JP'',
     mk_country CTRY_JAPAN9 MKK3_MKKC ''JP'',
     mk_country CTRY_JAPAN10 MKK4_MKKB ''JP'',
     mk_country CTRY_JAPAN11 MKK4_MKKA2 ''JP'',
     mk_country CTRY_JAPAN12 MKK4_MKKC ''JP'',
     mk_country CTRY_JAPAN13 MKK5_MKKB ''JP'',
     mk_country CTRY_JAPAN14 MKK5_MKKA2 ''JP'',
     mk_country CTRY_JAPAN15 MKK5_MKKC ''JP'',
     mk_country CTRY_JAPAN16 MKK6_MKKB ''JP'',
     mk_country CTRY_JAPAN17 MKK6_MKKA2 ''JP'',
     mk_country CTRY_JAPAN18 MKK6_MKKC ''JP'',
     mk_country CTRY_JAPAN19 MKK7_MKKB ''JP'',
     mk_country CTRY_JAPAN20 MKK7_MKKA2 ''JP'',
     mk_country CTRY_JAPAN21 MKK7_MKKC ''JP'',
     mk_country CTRY_JAPAN22 MKK8_MKKB ''JP'',
     mk_country CTRY_JAPAN23 MKK8_MKKA2 ''JP'',
     mk_country CTRY_JAPAN24 MKK8_MKKC ''JP'',
     mk_country CTRY_JAPAN25 MKK3_MKKA ''JP'',
     mk_country CTRY_JAPAN26 MKK3_MKKA1 ''JP'',
     mk_country CTRY_JAPAN27 MKK3_FCCA ''JP'',
     mk_country CTRY_JAPAN28 MKK4_MKKA1 ''JP'',
     mk_country CTRY_JAPAN29 MKK4_FCCA ''JP'',
     mk_country CTRY_JAPAN30 MKK6_MKKA1 ''JP'',
     mk_country CTRY_JAPAN31 MKK6_FCCA ''JP'',
     mk_country CTRY_JAPAN32 MKK7_MKKA1 ''JP'',
     mk_country CTRY_JAPAN33 MKK7_FCCA ''JP'',
     mk_country CTRY_JAPAN34 MKK9_MKKA ''JP'',
     mk_country CTRY_JAPAN35 MKK10_MKKA ''JP'',
     mk_country CTRY_JAPAN36 MKK4_MKKA ''JP'',
     mk_country CTRY_JAPAN37 MKK9_FCCA ''JP'',
     mk_country CTRY_JAPAN38 MKK9_MKKA1 ''JP'',
     mk_country CTRY_JAPAN39 MKK9_MKKC ''JP'',
     mk_country CTRY_JAPAN40 MKK9_MKKA2 ''JP'',
     mk_country CTRY_JAPAN41 MKK10_FCCA ''JP'',
     mk_country CTRY_JAPAN42 MKK10_MKKA1 ''JP'',
     mk_country CTRY_JAPAN43 MKK10_MKKC ''JP'',
     mk_country CTRY_JAPAN44 MKK10_MKKA2 ''JP'',
     mk_country CTRY_JAPAN45 MKK11_MKKA ''JP'',
     mk_country CTRY_JAPAN46 MKK11_FCCA ''JP'',
     mk_country CTRY_JAPAN47 MKK11_MKKA1 ''JP'',
     mk_country CTRY_JAPAN48 MKK11_MKKC ''JP'',
     mk_country CTRY_JAPAN49 MKK11_MKKA2 ''JP'',
     mk_country CTRY_JAPAN50 MKK12_MKKA ''JP'',
     mk_country CTRY_JAPAN51 MKK12_FCCA ''JP'',
     mk_country CTRY_JAPAN52 MKK12_MKKA1 ''JP'',
     mk_country CTRY_JAPAN53 MKK12_MKKC ''JP'',
     mk_country CTRY_JAPAN54 MKK12_MKKA2 ''JP'',
     mk_country CTRY_JAPAN57 MKK13_MKKB ''JP'',
     mk_country CTRY_JAPAN58 MKK14_MKKA1 ''JP'',
     mk_country CTRY_JAPAN59 MKK15_MKKA1 ''JP'',
     mk_country CTRY_JORDAN ETSI2_WORLD ''JO'',
     mk_country CTRY_KAZAKHSTAN NULL1_WORLD ''KZ'',
     mk_country CTRY_KOREA_NORTH APL9_WORLD ''KP'',
     mk_country CTRY_KOREA_ROC APL9_WORLD ''KR'',
     mk_country CTRY_KOREA_ROC2 APL2_WORLD ''K2'',
     mk_country CTRY_KOREA_ROC3 APL9_WORLD ''K3'',
     mk_country CTRY_KUWAIT ETSI3_WORLD ''KW'',
     mk_country CTRY_LATVIA ETSI1_WORLD ''LV'',
     mk_country CTRY_LEBANON NULL1_WORLD ''LB'',
     mk_country CTRY_LIECHTENSTEIN ETSI1_WORLD ''LI'',
     mk_country CTRY_LITHUANIA ETSI1_WORLD ''LT'',
     mk_country CTRY_LUXEMBOURG ETSI1_WORLD ''LU'',
     mk_country CTRY_MACAU FCC2_WORLD ''MO'',
     mk_country CTRY_MACEDONIA NULL1_WORLD ''MK'',
     mk_country CTRY_MALAYSIA APL8_WORLD ''MY'',
     mk_country CTRY_MALTA ETSI1_WORLD ''MT'',
     mk_country CTRY_MEXICO FCC1_FCCA ''MX'',
     mk_country CTRY_MONACO ETSI4_WORLD ''MC'',
     mk_country CTRY_MOROCCO APL4_WORLD ''MA'',
     mk_country CTRY_NEPAL APL1_WORLD ''NP'',
     mk_country CTRY_NETHERLANDS ETSI1_WORLD ''NL'',
     mk_country CTRY_NETHERLANDS_ANTILLES ETSI1_WORLD ''AN'',
     mk_country CTRY_NEW_ZEALAND FCC2_ETSIC ''NZ'',
     mk_country CTRY_NORWAY ETSI1_WORLD ''NO'',
     mk_country CTRY_OMAN FCC3_WORLD ''OM'',
     mk_country CTRY_PAKISTAN NULL1_WORLD ''PK'',
     mk_country CTRY_PANAMA FCC1_FCCA ''PA'',
     mk_country CTRY_PAPUA_NEW_GUINEA FCC1_WORLD ''PG'',
     mk_country CTRY_PERU APL1_WORLD ''PE'',
     mk_country CTRY_PHILIPPINES APL1_WORLD ''PH'',
     mk_country CTRY_POLAND ETSI1_WORLD ''PL'',
     mk_country CTRY_PORTUGAL ETSI1_WORLD ''PT'',
     mk_country CTRY_PUERTO_RICO FCC1_FCCA ''PR'',
     mk_country CTRY_QATAR APL1_WORLD ''QA'',
     mk_country CTRY_ROMANIA NULL1_WORLD ''RO'',
     mk_country CTRY_RUSSIA NULL1_WORLD ''RU'',
     mk_country CTRY_SAUDI_ARABIA NULL1_WORLD ''SA'',
     mk_country CTRY_SERBIA_MONTENEGRO ETSI1_WORLD ''CS'',
     mk_country CTRY_SINGAPORE APL6_WORLD ''SG'',
     mk_country CTRY_SLOVAKIA ETSI1_WORLD ''SK'',
     mk_country CTRY_SLOVENIA ETSI1_WORLD ''SI'',
     mk_country CTRY_SOUTH_AFRICA FCC3_WORLD ''ZA'',
     mk_country CTRY_SPAIN ETSI1_WORLD ''ES'',
     mk_country CTRY_SRI_LANKA FCC3_WORLD ''LK'',
     mk_country CTRY_SWEDEN ETSI1_WORLD ''SE'',
     mk_country CTRY_SWITZERLAND ETSI1_WORLD ''CH'',
     mk_country CTRY_SYRIA NULL1_WORLD ''SY'',
     mk_country CTRY_TAIWAN APL3_FCCA ''TW'',
     mk_country CTRY_THAILAND FCC3_WORLD ''TH'',
     mk_country CTRY_TRINIDAD_Y_TOBAGO FCC3_WORLD ''TT'',
     mk_country CTRY_TUNISIA ETSI3_WORLD ''TN'',
     mk_country CTRY_TURKEY ETSI3_WORLD ''TR'',
     mk_country CTRY_UKRAINE NULL1_WORLD ''UA'',
     mk_country CTRY_UAE NULL1_WORLD ''AE'',
     mk_country CTRY_UNITED_KINGDOM ETSI1_WORLD ''GB'',
     mk_country CTRY_UNITED_STATES FCC3_FCCA ''US'',
     mk_country CTRY_UNITED_STATES_FCC49 FCC4_FCCA ''PS'',
     mk_country CTRY_URUGUAY FCC3_WORLD ''UY'',
     mk_country CTRY_UZBEKISTAN FCC3_FCCA ''UZ'',
     mk_country CTRY_VENEZUELA APL2_ETSIC ''VE'',
     mk_country CTRY_VIET_NAM NULL1_WORLD ''VN'',
     mk_country CTRY_YEMEN NULL1_WORLD ''YE'',
     mk_country CTRY_ZIMBABWE NULL1_WORLD ''ZW'']"

end
