(* ===== verification/Regd.thy ===== *)
theory Regd
  imports Regd_Common
begin

text \<open>
  Regulatory domains (\<open>ath/regd.c\<close>): interpreting the EEPROM regulatory word, the world
  regulatory domains, and the channel flags the driver sets or clears when cfg80211 announces a
  regulatory request.

  \<open>struct wiphy\<close> is reduced to what this file touches: the channels of each band and the
  flags. cfg80211 is not part of the driver: \<open>freq_reg_info\<close> (the flags of the rule for a
  frequency, or an error) and \<open>wiphy_apply_custom_regulatory\<close> are arguments. \<open>None\<close> is a fault:
  the dereference of a null \<open>regpair\<close>, or a channel index outside the band.
\<close>

section \<open>Data\<close>

record ath_regulatory =
  alpha2 :: string
  country_code :: u16
  max_power_level :: u16
  current_rd :: u16
  power_limit :: int
  regpair :: "reg_dmn_pair_mapping option"

record ieee80211_reg_rule =
  start_freq :: nat
  end_freq :: nat
  max_bw :: nat
  max_gain :: nat
  max_eirp :: nat
  rule_flags :: u32

record ieee80211_channel =
  center_freq :: u16
  ch_flags :: u32
  beacon_found :: bool

record wiphy =
  bands :: "ieee80211_channel list option list"
  wiphy_flags :: u32

datatype nl80211_reg_initiator =
  SET_BY_CORE | SET_BY_USER | SET_BY_DRIVER | SET_BY_COUNTRY_IE

record regulatory_request =
  initiator :: nl80211_reg_initiator
  req_alpha2 :: string

abbreviation (input) COUNTRY_ERD_FLAG :: u16 where "COUNTRY_ERD_FLAG \<equiv> 0x8000"
abbreviation (input) WORLDWIDE_ROAMING_FLAG :: u16 where "WORLDWIDE_ROAMING_FLAG \<equiv> 0x4000"
abbreviation (input) WORLD_SKU_MASK :: u16 where "WORLD_SKU_MASK \<equiv> 0x00F0"
abbreviation (input) WORLD_SKU_PREFIX :: u16 where "WORLD_SKU_PREFIX \<equiv> 0x0060"

abbreviation (input) CHAN_DISABLED :: u32 where "CHAN_DISABLED \<equiv> 1"
abbreviation (input) CHAN_PASSIVE_SCAN :: u32 where "CHAN_PASSIVE_SCAN \<equiv> 2"
abbreviation (input) CHAN_NO_IBSS :: u32 where "CHAN_NO_IBSS \<equiv> 4"
abbreviation (input) CHAN_RADAR :: u32 where "CHAN_RADAR \<equiv> 8"
abbreviation (input) RRF_NO_OFDM :: u32 where "RRF_NO_OFDM \<equiv> 1"
abbreviation (input) RRF_PASSIVE_SCAN :: u32 where "RRF_PASSIVE_SCAN \<equiv> 128"
abbreviation (input) RRF_NO_IBSS :: u32 where "RRF_NO_IBSS \<equiv> 256"
abbreviation (input) WIPHY_FLAG_CUSTOM_REGULATORY :: u32 where "WIPHY_FLAG_CUSTOM_REGULATORY \<equiv> 1"
abbreviation (input) WIPHY_FLAG_STRICT_REGULATORY :: u32 where "WIPHY_FLAG_STRICT_REGULATORY \<equiv> 2"
abbreviation (input) IEEE80211_BAND_2GHZ :: nat where "IEEE80211_BAND_2GHZ \<equiv> 0"
abbreviation (input) IEEE80211_BAND_5GHZ :: nat where "IEEE80211_BAND_5GHZ \<equiv> 1"

section \<open>World regulatory domains\<close>

definition REG_RULE :: "nat \<Rightarrow> nat \<Rightarrow> nat \<Rightarrow> nat \<Rightarrow> nat \<Rightarrow> u32 \<Rightarrow> ieee80211_reg_rule" where
  "REG_RULE s e bw gain eirp fl = \<lparr>start_freq = s, end_freq = e, max_bw = bw, max_gain = gain,
     max_eirp = eirp, rule_flags = fl\<rparr>"

definition ATH9K_2GHZ_CH01_11 :: ieee80211_reg_rule where
  "ATH9K_2GHZ_CH01_11 = REG_RULE (2412 - 10) (2462 + 10) 40 0 20 0"
definition ATH9K_2GHZ_CH12_13 :: ieee80211_reg_rule where
  "ATH9K_2GHZ_CH12_13 = REG_RULE (2467 - 10) (2472 + 10) 40 0 20 RRF_PASSIVE_SCAN"
definition ATH9K_2GHZ_CH14 :: ieee80211_reg_rule where
  "ATH9K_2GHZ_CH14 = REG_RULE (2484 - 10) (2484 + 10) 40 0 20 (RRF_PASSIVE_SCAN OR RRF_NO_OFDM)"
definition ATH9K_5GHZ_5150_5350 :: ieee80211_reg_rule where
  "ATH9K_5GHZ_5150_5350 = REG_RULE (5150 - 10) (5350 + 10) 40 0 30 (RRF_PASSIVE_SCAN OR RRF_NO_IBSS)"
definition ATH9K_5GHZ_5470_5850 :: ieee80211_reg_rule where
  "ATH9K_5GHZ_5470_5850 = REG_RULE (5470 - 10) (5850 + 10) 40 0 30 (RRF_PASSIVE_SCAN OR RRF_NO_IBSS)"
definition ATH9K_5GHZ_5725_5850 :: ieee80211_reg_rule where
  "ATH9K_5GHZ_5725_5850 = REG_RULE (5725 - 10) (5850 + 10) 40 0 30 (RRF_PASSIVE_SCAN OR RRF_NO_IBSS)"

definition ATH9K_2GHZ_ALL :: "ieee80211_reg_rule list" where
  "ATH9K_2GHZ_ALL = [ATH9K_2GHZ_CH01_11, ATH9K_2GHZ_CH12_13, ATH9K_2GHZ_CH14]"
definition ATH9K_5GHZ_ALL :: "ieee80211_reg_rule list" where
  "ATH9K_5GHZ_ALL = [ATH9K_5GHZ_5150_5350, ATH9K_5GHZ_5470_5850]"
definition ATH9K_5GHZ_NO_MIDBAND :: "ieee80211_reg_rule list" where
  "ATH9K_5GHZ_NO_MIDBAND = [ATH9K_5GHZ_5150_5350, ATH9K_5GHZ_5725_5850]"

lemmas reg_rules = ATH9K_2GHZ_CH01_11_def ATH9K_2GHZ_CH12_13_def ATH9K_2GHZ_CH14_def
  ATH9K_5GHZ_5150_5350_def ATH9K_5GHZ_5470_5850_def ATH9K_5GHZ_5725_5850_def
  ATH9K_2GHZ_ALL_def ATH9K_5GHZ_ALL_def ATH9K_5GHZ_NO_MIDBAND_def REG_RULE_def

definition ath_world_regdom_60_61_62 :: "ieee80211_reg_rule list" where
  "ath_world_regdom_60_61_62 = ATH9K_2GHZ_ALL @ ATH9K_5GHZ_ALL"
definition ath_world_regdom_63_65 :: "ieee80211_reg_rule list" where
  "ath_world_regdom_63_65 = [ATH9K_2GHZ_CH01_11, ATH9K_2GHZ_CH12_13] @ ATH9K_5GHZ_NO_MIDBAND"
definition ath_world_regdom_64 :: "ieee80211_reg_rule list" where
  "ath_world_regdom_64 = ATH9K_2GHZ_CH01_11 # ATH9K_5GHZ_NO_MIDBAND"
definition ath_world_regdom_66_69 :: "ieee80211_reg_rule list" where
  "ath_world_regdom_66_69 = ATH9K_2GHZ_CH01_11 # ATH9K_5GHZ_ALL"
definition ath_world_regdom_67_68_6A_6C :: "ieee80211_reg_rule list" where
  "ath_world_regdom_67_68_6A_6C = [ATH9K_2GHZ_CH01_11, ATH9K_2GHZ_CH12_13] @ ATH9K_5GHZ_ALL"

lemmas world_regdoms = ath_world_regdom_60_61_62_def ath_world_regdom_63_65_def
  ath_world_regdom_64_def ath_world_regdom_66_69_def ath_world_regdom_67_68_6A_6C_def

section \<open>Operations\<close>

definition is_wwr_sku :: "u16 \<Rightarrow> bool" where
  "is_wwr_sku regd \<longleftrightarrow> regd AND COUNTRY_ERD_FLAG \<noteq> COUNTRY_ERD_FLAG \<and>
     (regd AND WORLD_SKU_MASK = WORLD_SKU_PREFIX \<or> regd = WORLD)"

definition ath_regd_get_eepromRD :: "ath_regulatory \<Rightarrow> u16" where
  "ath_regd_get_eepromRD reg = current_rd reg AND NOT WORLDWIDE_ROAMING_FLAG"

definition ath_is_world_regd :: "ath_regulatory \<Rightarrow> bool" where
  "ath_is_world_regd reg = is_wwr_sku (ath_regd_get_eepromRD reg)"

definition ath_default_world_regdomain :: "ieee80211_reg_rule list" where
  "ath_default_world_regdomain = ath_world_regdom_64"

definition ath_world_regdomain :: "ath_regulatory \<Rightarrow> (ieee80211_reg_rule list \<times> bool) option" where
  \<comment> \<open>the flag tells whether \<open>WARN_ON(1)\<close> was reached\<close>
  "ath_world_regdomain reg = do {
     p \<leftarrow> regpair reg;
     let d = pair_regDmnEnum p;
     Some (if d \<in> {0x60, 0x61, 0x62} then (ath_world_regdom_60_61_62, False)
           else if d \<in> {0x63, 0x65} then (ath_world_regdom_63_65, False)
           else if d = 0x64 then (ath_world_regdom_64, False)
           else if d \<in> {0x66, 0x69} then (ath_world_regdom_66_69, False)
           else if d \<in> {0x67, 0x68, 0x6A, 0x6C} then (ath_world_regdom_67_68_6A_6C, False)
           else (ath_default_world_regdomain, True)) }"

definition ath_is_49ghz_allowed :: "u16 \<Rightarrow> bool" where
  "ath_is_49ghz_allowed regdomain \<longleftrightarrow> regdomain = MKK9_MKKC"

definition ath_is_radar_freq :: "u16 \<Rightarrow> bool" where
  "ath_is_radar_freq f \<longleftrightarrow> 5260 \<le> f \<and> f \<le> 5700"

definition clear_flags :: "u32 \<Rightarrow> ieee80211_channel \<Rightarrow> ieee80211_channel" where
  "clear_flags m ch = ch\<lparr>ch_flags := ch_flags ch AND NOT m\<rparr>"

definition beaconing_channel ::
  "(u16 \<Rightarrow> u32 option) \<Rightarrow> nl80211_reg_initiator \<Rightarrow> ieee80211_channel \<Rightarrow> ieee80211_channel" where
  \<comment> \<open>the body of the inner loop of \<open>ath_reg_apply_beaconing_flags\<close>\<close>
  "beaconing_channel freq_reg_info ini ch =
     (if ath_is_radar_freq (center_freq ch) \<or> has_flag (ch_flags ch) CHAN_RADAR then ch
      else if ini = SET_BY_COUNTRY_IE then
        (case freq_reg_info (center_freq ch) of
           None \<Rightarrow> ch
         | Some rf \<Rightarrow>
             (let ch = (if \<not> has_flag rf RRF_NO_IBSS then clear_flags CHAN_NO_IBSS ch else ch)
              in if \<not> has_flag rf RRF_PASSIVE_SCAN then clear_flags CHAN_PASSIVE_SCAN ch else ch))
      else if beacon_found ch then clear_flags (CHAN_NO_IBSS OR CHAN_PASSIVE_SCAN) ch
      else ch)"

definition ath_reg_apply_beaconing_flags ::
  "(u16 \<Rightarrow> u32 option) \<Rightarrow> nl80211_reg_initiator \<Rightarrow> wiphy \<Rightarrow> wiphy" where
  "ath_reg_apply_beaconing_flags freq_reg_info ini w =
     w\<lparr>bands := map (map_option (map (beaconing_channel freq_reg_info ini))) (bands w)\<rparr>"

definition active_scan_channel ::
  "(u16 \<Rightarrow> u32 option) \<Rightarrow> nl80211_reg_initiator \<Rightarrow> ieee80211_channel \<Rightarrow> ieee80211_channel" where
  "active_scan_channel freq_reg_info ini ch =
     (if ini \<noteq> SET_BY_COUNTRY_IE then clear_flags CHAN_PASSIVE_SCAN ch
      else (case freq_reg_info (center_freq ch) of
              None \<Rightarrow> ch
            | Some rf \<Rightarrow> if has_flag rf RRF_PASSIVE_SCAN then ch else clear_flags CHAN_PASSIVE_SCAN ch))"

definition ath_reg_apply_active_scan_flags ::
  "(u16 \<Rightarrow> u32 option) \<Rightarrow> nl80211_reg_initiator \<Rightarrow> wiphy \<Rightarrow> wiphy option" where
  "ath_reg_apply_active_scan_flags freq_reg_info ini w =
     (case bands w ! IEEE80211_BAND_2GHZ of
        None \<Rightarrow> Some w
      | Some chs \<Rightarrow>
          if 12 < length chs
          then Some (w\<lparr>bands := (bands w)[IEEE80211_BAND_2GHZ := Some
                 (chs[11 := active_scan_channel freq_reg_info ini (chs ! 11),
                      12 := active_scan_channel freq_reg_info ini (chs ! 12)])]\<rparr>)
          else None)"

definition radar_channel :: "ieee80211_channel \<Rightarrow> ieee80211_channel" where
  "radar_channel ch =
     (if ath_is_radar_freq (center_freq ch) \<and> \<not> has_flag (ch_flags ch) CHAN_DISABLED
      then ch\<lparr>ch_flags := ch_flags ch OR (CHAN_RADAR OR CHAN_NO_IBSS OR CHAN_PASSIVE_SCAN)\<rparr>
      else ch)"

definition ath_reg_apply_radar_flags :: "wiphy \<Rightarrow> wiphy" where
  "ath_reg_apply_radar_flags w =
     w\<lparr>bands := (bands w)[IEEE80211_BAND_5GHZ :=
          map_option (map radar_channel) (bands w ! IEEE80211_BAND_5GHZ)]\<rparr>"

definition ath_reg_apply_world_flags ::
  "(u16 \<Rightarrow> u32 option) \<Rightarrow> nl80211_reg_initiator \<Rightarrow> ath_regulatory \<Rightarrow> wiphy \<Rightarrow> wiphy option" where
  "ath_reg_apply_world_flags freq_reg_info ini reg w = do {
     p \<leftarrow> regpair reg;
     let d = pair_regDmnEnum p;
     if d \<in> {0x60, 0x63, 0x66, 0x67, 0x6C}
     then Some (ath_reg_apply_beaconing_flags freq_reg_info ini w)
     else if d = 0x68
     then ath_reg_apply_active_scan_flags freq_reg_info ini
            (ath_reg_apply_beaconing_flags freq_reg_info ini w)
     else Some w }"

definition ath_regd_find_country_by_name :: "string \<Rightarrow> u16" where
  \<comment> \<open>\<open>memcmp\<close> over two bytes; \<open>(u16) -1\<close> when there is no match\<close>
  "ath_regd_find_country_by_name a =
     (case find (\<lambda>c. take 2 (isoName c) = take 2 a) allCountries of
        Some c \<Rightarrow> countryCode c | None \<Rightarrow> - 1)"

definition ath_regd_is_eeprom_valid :: "ath_regulatory \<Rightarrow> bool" where
  "ath_regd_is_eeprom_valid reg =
     (let rd = ath_regd_get_eepromRD reg in
      if has_flag rd COUNTRY_ERD_FLAG
      then list_ex (\<lambda>c. countryCode c = rd AND NOT COUNTRY_ERD_FLAG) allCountries
      else list_ex (\<lambda>p. pair_regDmnEnum p = rd) regDomainPairs)"

definition ath_regd_find_country :: "u16 \<Rightarrow> country_code_to_enum_rd option" where
  "ath_regd_find_country cc = find (\<lambda>c. countryCode c = cc) allCountries"

definition ath_regd_find_country_by_rd :: "u16 \<Rightarrow> country_code_to_enum_rd option" where
  "ath_regd_find_country_by_rd rd = find (\<lambda>c. regDmnEnum c = rd) allCountries"

definition ath_regd_get_default_country :: "u16 \<Rightarrow> u16" where
  "ath_regd_get_default_country rd =
     (if has_flag rd COUNTRY_ERD_FLAG \<and> ath_regd_find_country (rd AND NOT COUNTRY_ERD_FLAG) \<noteq> None
      then rd AND NOT COUNTRY_ERD_FLAG else CTRY_DEFAULT)"

definition ath_get_regpair :: "u16 \<Rightarrow> reg_dmn_pair_mapping option" where
  "ath_get_regpair regdmn =
     (if regdmn = NO_ENUMRD then None else find (\<lambda>p. pair_regDmnEnum p = regdmn) regDomainPairs)"

definition ath_regd_sanitize :: "ath_regulatory \<Rightarrow> ath_regulatory" where
  "ath_regd_sanitize reg =
     (if current_rd reg \<noteq> COUNTRY_ERD_FLAG then reg else reg\<lparr>current_rd := 0x64\<rparr>)"

definition regd_init_regpair ::
  "country_code_to_enum_rd option \<Rightarrow> u16 \<Rightarrow> ath_regulatory \<Rightarrow> int \<times> ath_regulatory" where
  \<comment> \<open>the tail of \<open>__ath_regd_init\<close>, from \<open>reg->regpair = ath_get_regpair(regdmn)\<close> on\<close>
  "regd_init_regpair country regdmn reg =
     (let reg = reg\<lparr>regpair := ath_get_regpair regdmn\<rparr> in
      if regpair reg = None then (- EINVAL, reg)
      else
        (let country = (case country of None \<Rightarrow> ath_regd_find_country_by_rd regdmn | Some c \<Rightarrow> Some c)
         in (0, reg\<lparr>alpha2 := (case country of Some c \<Rightarrow> isoName c | None \<Rightarrow> ''00'')\<rparr>)))"

definition ath_regd_init_eeprom :: "ath_regulatory \<Rightarrow> int \<times> ath_regulatory" where
  \<comment> \<open>\<open>__ath_regd_init\<close>\<close>
  "ath_regd_init_eeprom reg =
     (let reg = ath_regd_sanitize reg in
      if \<not> ath_regd_is_eeprom_valid reg then (- EINVAL, reg)
      else
        (let regdmn = ath_regd_get_eepromRD reg;
             cc = ath_regd_get_default_country regdmn;
             cc = (if cc = CTRY_DEFAULT \<and> regdmn = CTRY_DEFAULT then CTRY_UNITED_STATES else cc);
             reg = reg\<lparr>country_code := cc\<rparr> in
         if cc = CTRY_DEFAULT then regd_init_regpair None regdmn reg
         else (case ath_regd_find_country cc of
                 None \<Rightarrow> (- EINVAL, reg)
               | Some c \<Rightarrow> regd_init_regpair (Some c) (regDmnEnum c) reg)))"

definition ath_regd_init_wiphy ::
  "(u16 \<Rightarrow> u32 option) \<Rightarrow> (ieee80211_reg_rule list \<Rightarrow> wiphy \<Rightarrow> wiphy) \<Rightarrow> ath_regulatory \<Rightarrow> wiphy \<Rightarrow>
     wiphy option" where
  "ath_regd_init_wiphy freq_reg_info apply_custom reg w = do {
     let w = w\<lparr>wiphy_flags := wiphy_flags w OR WIPHY_FLAG_STRICT_REGULATORY\<rparr>;
     (regd, w) \<leftarrow>
       (if ath_is_world_regd reg then do {
          (regd, warned) \<leftarrow> ath_world_regdomain reg;
          Some (regd, w\<lparr>wiphy_flags := wiphy_flags w OR WIPHY_FLAG_CUSTOM_REGULATORY\<rparr>) }
        else Some (ath_default_world_regdomain, w));
     let w = ath_reg_apply_radar_flags (apply_custom regd w);
     ath_reg_apply_world_flags freq_reg_info SET_BY_DRIVER reg w }"

definition ath_regd_init ::
  "(u16 \<Rightarrow> u32 option) \<Rightarrow> (ieee80211_reg_rule list \<Rightarrow> wiphy \<Rightarrow> wiphy) \<Rightarrow>
     ath_regulatory \<Rightarrow> ath_regulatory \<Rightarrow> wiphy \<Rightarrow>
     (int \<times> ath_regulatory \<times> ath_regulatory \<times> wiphy) option" where
  \<comment> \<open>arguments and results: \<open>reg\<close>, \<open>common->reg_world_copy\<close>, \<open>wiphy\<close>\<close>
  "ath_regd_init freq_reg_info apply_custom reg copy w =
     (let (r, reg) = ath_regd_init_eeprom reg in
      if r \<noteq> 0 then Some (r, reg, copy, w)
      else do {
        let copy = (if ath_is_world_regd reg then reg else copy);
        w \<leftarrow> ath_regd_init_wiphy freq_reg_info apply_custom reg w;
        Some (0, reg, copy, w) })"

definition ath_reg_notifier_apply ::
  "(u16 \<Rightarrow> u32 option) \<Rightarrow> regulatory_request option \<Rightarrow> ath_regulatory \<Rightarrow> ath_regulatory \<Rightarrow> wiphy \<Rightarrow>
     (ath_regulatory \<times> wiphy) option" where
  \<comment> \<open>arguments: the request, \<open>reg_world_copy\<close>, \<open>reg\<close>, \<open>wiphy\<close>\<close>
  "ath_reg_notifier_apply freq_reg_info request copy reg w =
     (let w = ath_reg_apply_radar_flags w in
      case request of
        None \<Rightarrow> Some (reg, w)
      | Some q \<Rightarrow>
          (case initiator q of
             SET_BY_CORE \<Rightarrow> Some (if ath_is_world_regd copy then copy else reg, w)
           | SET_BY_DRIVER \<Rightarrow> Some (reg, w)
           | SET_BY_USER \<Rightarrow> Some (reg, w)
           | SET_BY_COUNTRY_IE \<Rightarrow>
               if \<not> ath_is_world_regd reg then Some (reg, w)
               else
                 (let cc = ath_regd_find_country_by_name (req_alpha2 q) in
                  if cc = - 1 then Some (reg, w)
                  else do {
                    let reg = reg\<lparr>current_rd := COUNTRY_ERD_FLAG OR cc\<rparr>;
                    let reg = snd (ath_regd_init_eeprom reg);
                    w \<leftarrow> ath_reg_apply_world_flags freq_reg_info SET_BY_COUNTRY_IE reg w;
                    Some (reg, w) })))"

definition ath_regd_get_band_ctl :: "ath_regulatory \<Rightarrow> nat \<Rightarrow> u32" where
  "ath_regd_get_band_ctl reg band =
     (case regpair reg of
        None \<Rightarrow> 0xE0
      | Some p \<Rightarrow>
          if country_code reg = CTRY_DEFAULT \<and> is_wwr_sku (ath_regd_get_eepromRD reg) then 0xE0
          else if band = IEEE80211_BAND_2GHZ then ucast (reg_2ghz_ctl p)
          else if band = IEEE80211_BAND_5GHZ then ucast (reg_5ghz_ctl p)
          else 0xff)"

section \<open>Facts about the tables\<close>

text \<open>Checked entry by entry.\<close>

lemma countries_have_pairs:
  "list_all (\<lambda>c. regDmnEnum c = NO_ENUMRD \<or> ath_get_regpair (regDmnEnum c) \<noteq> None) allCountries"
  by code_simp

lemma only_debug_has_no_rd:
  "list_all (\<lambda>c. regDmnEnum c = NO_ENUMRD \<longleftrightarrow> countryCode c = CTRY_DEBUG) allCountries"
  by code_simp

lemma countries_not_world:
  "list_all (\<lambda>c. regDmnEnum c \<notin> {0x60, 0x63, 0x66, 0x67, 0x6C, 0x68}) allCountries"
  by code_simp

lemma country_codes_small:
  "list_all (\<lambda>c. (COUNTRY_ERD_FLAG OR countryCode c) AND NOT WORLDWIDE_ROAMING_FLAG
        = COUNTRY_ERD_FLAG OR countryCode c \<and>
      (COUNTRY_ERD_FLAG OR countryCode c) AND NOT COUNTRY_ERD_FLAG = countryCode c \<and>
      has_flag (COUNTRY_ERD_FLAG OR countryCode c) COUNTRY_ERD_FLAG \<and>
      (COUNTRY_ERD_FLAG OR countryCode c = COUNTRY_ERD_FLAG \<longleftrightarrow> countryCode c = 0) \<and>
      countryCode c \<noteq> - 1) allCountries"
  by code_simp

lemma pairs_small:
  "list_all (\<lambda>p. \<not> has_flag (pair_regDmnEnum p) COUNTRY_ERD_FLAG \<and>
      (pair_regDmnEnum p AND WORLD_SKU_MASK = WORLD_SKU_PREFIX \<longrightarrow>
       pair_regDmnEnum p \<in> {0x60, 0x61, 0x62, 0x63, 0x64, 0x65, 0x66, 0x67, 0x68, 0x69, 0x6A, 0x6B, 0x6C}) \<and>
      pair_regDmnEnum p \<noteq> WORLD) regDomainPairs"
  by code_simp

lemma iso_names_two: "list_all (\<lambda>c. length (isoName c) = 2) allCountries"
  by code_simp

lemma find_us: "ath_regd_find_country CTRY_UNITED_STATES = Some (mk_country CTRY_UNITED_STATES FCC3_FCCA ''US'')"
  by code_simp

lemma find_by_name_DB: "find (\<lambda>c. take 2 (isoName c) = ''DB'') allCountries = Some (mk_country CTRY_DEBUG NO_ENUMRD ''DB'')"
  by code_simp

lemma debug_is_DB: "list_all (\<lambda>c. countryCode c = CTRY_DEBUG \<longrightarrow> take 2 (isoName c) = ''DB'') allCountries"
  by code_simp

lemmas table_facts = countries_have_pairs only_debug_has_no_rd countries_not_world country_codes_small
  pairs_small iso_names_two debug_is_DB

section \<open>Lemmas\<close>

lemma find_SomeD: "find P xs = Some x \<Longrightarrow> x \<in> set xs \<and> P x"
  by (auto simp: find_Some_iff)

lemma list_ex_find: "list_ex P xs \<longleftrightarrow> find P xs \<noteq> None"
  by (auto simp: list_ex_iff find_None_iff)

definition regd_accepts :: "u16 \<Rightarrow> bool" where
  \<comment> \<open>the EEPROM words (roaming flag removed) the driver can work with\<close>
  "regd_accepts rd \<longleftrightarrow>
     (if has_flag rd COUNTRY_ERD_FLAG
      then rd AND NOT COUNTRY_ERD_FLAG \<notin> {CTRY_DEFAULT, CTRY_DEBUG} \<and>
           rd AND NOT COUNTRY_ERD_FLAG \<in> countryCode ` set allCountries
      else rd \<in> pair_regDmnEnum ` set regDomainPairs)"

lemma find_country_SomeD:
  assumes "ath_regd_find_country cc = Some c"
  shows "c \<in> set allCountries" and "countryCode c = cc"
  using find_SomeD [OF assms [unfolded ath_regd_find_country_def]] by auto

lemma find_country_None: "ath_regd_find_country cc = None \<longleftrightarrow> cc \<notin> countryCode ` set allCountries"
  by (auto simp: ath_regd_find_country_def find_None_iff)

lemma country_regpair:
  assumes "c \<in> set allCountries" and "countryCode c \<noteq> CTRY_DEBUG"
  obtains p where "ath_get_regpair (regDmnEnum c) = Some p"
  using assms countries_have_pairs only_debug_has_no_rd by (auto simp: list_all_iff)

lemma get_regpair_SomeD:
  assumes "ath_get_regpair rd = Some p"
  shows "p \<in> set regDomainPairs" and "pair_regDmnEnum p = rd" and "rd \<noteq> 0"
  using assms find_SomeD [of "\<lambda>p. pair_regDmnEnum p = rd" regDomainPairs p]
  by (auto simp: ath_get_regpair_def split: if_splits)

lemma get_regpair_None:
  "ath_get_regpair rd = None \<longleftrightarrow> rd = 0 \<or> rd \<notin> pair_regDmnEnum ` set regDomainPairs"
  by (auto simp: ath_get_regpair_def find_None_iff)

lemma regd_init_regpair_result:
  assumes "country = None \<or> (\<exists>c \<in> set allCountries. country = Some c)"
  shows "fst (regd_init_regpair country rd reg) = (if ath_get_regpair rd = None then - EINVAL else 0)"
    and "regpair (snd (regd_init_regpair country rd reg)) = ath_get_regpair rd"
    and "current_rd (snd (regd_init_regpair country rd reg)) = current_rd reg"
    and "country_code (snd (regd_init_regpair country rd reg)) = country_code reg"
    and "fst (regd_init_regpair country rd reg) = 0 \<Longrightarrow>
      length (alpha2 (snd (regd_init_regpair country rd reg))) = 2"
proof -
  have "length (isoName c) = 2" if "c \<in> set allCountries" for c
    using iso_names_two that by (simp add: list_all_iff)
  moreover have "c \<in> set allCountries" if "ath_regd_find_country_by_rd rd = Some c" for c
    using that find_SomeD by (fastforce simp: ath_regd_find_country_by_rd_def)
  ultimately show "fst (regd_init_regpair country rd reg) = 0 \<Longrightarrow>
      length (alpha2 (snd (regd_init_regpair country rd reg))) = 2"
    using assms by (auto simp: regd_init_regpair_def Let_def errno_simps split: if_splits option.splits)
qed (auto simp: regd_init_regpair_def Let_def)

text \<open>The three ways through \<open>__ath_regd_init\<close> once the EEPROM word is valid.\<close>

lemma regd_init_cases:
  fixes reg :: ath_regulatory
  defines "r \<equiv> ath_regd_sanitize reg"
  defines "rd \<equiv> ath_regd_get_eepromRD r"
  obtains (invalid) "ath_regd_init_eeprom reg = (- EINVAL, r)" and "\<not> ath_regd_is_eeprom_valid r"
      and "\<not> regd_accepts rd"
  | (country) c where "c \<in> set allCountries" and "ath_regd_init_eeprom reg
        = regd_init_regpair (Some c) (regDmnEnum c) (r\<lparr>country_code := countryCode c\<rparr>)"
      and "has_flag rd COUNTRY_ERD_FLAG \<and> countryCode c = rd AND NOT COUNTRY_ERD_FLAG \<and> countryCode c \<noteq> 0
           \<or> rd = 0 \<and> countryCode c = CTRY_UNITED_STATES"
  | (pair) "rd \<noteq> 0" and "ath_regd_init_eeprom reg
        = regd_init_regpair None rd (r\<lparr>country_code := CTRY_DEFAULT\<rparr>)"
      and "if has_flag rd COUNTRY_ERD_FLAG then rd AND NOT COUNTRY_ERD_FLAG = 0
           else rd \<in> pair_regDmnEnum ` set regDomainPairs"
proof (cases "ath_regd_is_eeprom_valid r")
  case False
  then have "\<not> regd_accepts rd"
    by (auto simp: ath_regd_is_eeprom_valid_def regd_accepts_def rd_def Let_def list_ex_iff)
  then show thesis using False invalid by (simp add: ath_regd_init_eeprom_def r_def [symmetric] Let_def)
next
  case True
  note def = ath_regd_init_eeprom_def r_def [symmetric] rd_def [symmetric] Let_def
  show thesis
  proof (cases "has_flag rd COUNTRY_ERD_FLAG")
    case flag: True
    let ?cc = "rd AND NOT COUNTRY_ERD_FLAG"
    obtain c where c: "ath_regd_find_country ?cc = Some c"
      using True flag
      by (auto simp: ath_regd_is_eeprom_valid_def rd_def [symmetric] Let_def list_ex_find
          ath_regd_find_country_def)
    have rd0: "rd \<noteq> 0" using flag by auto
    have dc: "ath_regd_get_default_country rd = ?cc"
      using flag c by (simp add: ath_regd_get_default_country_def)
    show thesis
    proof (cases "?cc = 0")
      case True
      then show thesis using pair rd0 flag dc \<open>ath_regd_is_eeprom_valid r\<close> by (simp add: def)
    next
      case False
      then show thesis
        using country [of c] find_country_SomeD [OF c] c dc rd0 flag \<open>ath_regd_is_eeprom_valid r\<close>
        by (simp add: def)
    qed
  next
    case noflag: False
    then have dc: "ath_regd_get_default_country rd = 0" by (simp add: ath_regd_get_default_country_def)
    have inp: "rd \<in> pair_regDmnEnum ` set regDomainPairs"
      using True noflag
      by (auto simp: ath_regd_is_eeprom_valid_def rd_def [symmetric] Let_def list_ex_iff)
    show thesis
    proof (cases "rd = 0")
      case True
      then show thesis
        using country [OF find_country_SomeD(1) [OF find_us]] find_us dc \<open>ath_regd_is_eeprom_valid r\<close>
        by (simp add: def mk_country_def)
    next
      case False
      then show thesis using pair dc inp noflag \<open>ath_regd_is_eeprom_valid r\<close> by (simp add: def)
    qed
  qed
qed

lemma and_8000: "w AND 0x8000 = 0 \<or> w AND 0x8000 = (0x8000 :: u16)"
proof -
  have e: "(0x8000 :: u16) = 2 ^ 15" by simp
  show ?thesis
  proof (cases "bit w 15")
    case True
    have "w AND 2 ^ 15 = 2 ^ 15" by (rule bit_eqI) (use True in \<open>auto simp only: bit_and_iff bit_exp_iff\<close>)
    then show ?thesis unfolding e by blast
  next
    case False
    have "w AND 2 ^ 15 = 0" by (rule bit_eqI) (use False in \<open>auto simp only: bit_and_iff bit_exp_iff bit_0_eq bot_apply bot_bool_def\<close>)
    then show ?thesis unfolding e by blast
  qed
qed

lemma sanitize_rd_flag:
  "has_flag (ath_regd_get_eepromRD r) COUNTRY_ERD_FLAG \<Longrightarrow>
     ath_regd_get_eepromRD r AND NOT COUNTRY_ERD_FLAG = 0 \<Longrightarrow>
     ath_get_regpair (ath_regd_get_eepromRD r) = None"
  using pairs_small by (auto simp: get_regpair_None list_all_iff)

lemma regd_init_success_iff:
  "fst (ath_regd_init_eeprom reg) = 0 \<longleftrightarrow>
     regd_accepts (ath_regd_get_eepromRD (ath_regd_sanitize reg))"
  (is "?L \<longleftrightarrow> regd_accepts ?rd")
proof (cases rule: regd_init_cases [of reg])
  case invalid
  then show ?thesis by (simp add: errno_simps)
next
  case (country c)
  let ?reg = "(ath_regd_sanitize reg)\<lparr>country_code := countryCode c\<rparr>"
  have cs: "Some c = None \<or> (\<exists>d \<in> set allCountries. Some c = Some d)" using country(1) by blast
  have "?L \<longleftrightarrow> ath_get_regpair (regDmnEnum c) \<noteq> None"
    using regd_init_regpair_result(1) [OF cs, of "regDmnEnum c" ?reg] country(2) by (simp add: errno_simps)
  also have "\<dots> \<longleftrightarrow> countryCode c \<noteq> CTRY_DEBUG"
    using country(1) only_debug_has_no_rd countries_have_pairs
    by (auto simp: list_all_iff get_regpair_None)
  also have "\<dots> \<longleftrightarrow> regd_accepts ?rd"
  proof (cases "?rd = 0")
    case True
    have "0 \<in> pair_regDmnEnum ` set regDomainPairs" by (simp add: regDomainPairs_def mk_pair_def)
    then show ?thesis using country(3) True by (simp add: regd_accepts_def)
  next
    case False
    moreover have "countryCode c \<in> countryCode ` set allCountries" using country(1) by simp
    ultimately show ?thesis using country(3) by (auto simp: regd_accepts_def)
  qed
  finally show ?thesis .
next
  case pair
  let ?reg = "(ath_regd_sanitize reg)\<lparr>country_code := CTRY_DEFAULT\<rparr>"
  have L: "?L \<longleftrightarrow> ath_get_regpair ?rd \<noteq> None"
    using regd_init_regpair_result(1) [of None ?rd ?reg] pair(2) by (simp add: errno_simps)
  show ?thesis
  proof (cases "has_flag ?rd COUNTRY_ERD_FLAG")
    case True
    then show ?thesis
      using L sanitize_rd_flag [OF True] pair(3) by (simp add: regd_accepts_def)
  next
    case False
    then show ?thesis using L pair(1,3) by (simp add: regd_accepts_def get_regpair_None)
  qed
qed

lemma regd_init_result:
  "fst (ath_regd_init_eeprom reg) \<in> {0, - EINVAL}"
  "fst (ath_regd_init_eeprom reg) = 0 \<Longrightarrow>
     (\<exists>p \<in> set regDomainPairs. regpair (snd (ath_regd_init_eeprom reg)) = Some p) \<and>
     length (alpha2 (snd (ath_regd_init_eeprom reg))) = 2"
  "current_rd (snd (ath_regd_init_eeprom reg)) = current_rd (ath_regd_sanitize reg)"
proof -
  have nz: "- EINVAL \<noteq> 0" by (simp add: errno_simps)
  let ?P = "fst (ath_regd_init_eeprom reg) \<in> {0, - EINVAL} \<and>
     (fst (ath_regd_init_eeprom reg) = 0 \<longrightarrow>
       (\<exists>p \<in> set regDomainPairs. regpair (snd (ath_regd_init_eeprom reg)) = Some p) \<and>
       length (alpha2 (snd (ath_regd_init_eeprom reg))) = 2) \<and>
     current_rd (snd (ath_regd_init_eeprom reg)) = current_rd (ath_regd_sanitize reg)"
  have "?P"
  proof (cases rule: regd_init_cases [of reg])
    case invalid
    then show ?thesis using nz by simp
  next
    case (country c)
    let ?reg = "(ath_regd_sanitize reg)\<lparr>country_code := countryCode c\<rparr>"
    have cs: "Some c = None \<or> (\<exists>d \<in> set allCountries. Some c = Some d)" using country(1) by blast
    note r = regd_init_regpair_result [OF cs, of "regDmnEnum c" ?reg]
    show ?thesis
      using r nz unfolding country(2)
      by (cases "ath_get_regpair (regDmnEnum c)") (auto dest: get_regpair_SomeD)
  next
    case pair
    let ?rd = "ath_regd_get_eepromRD (ath_regd_sanitize reg)"
    note r = regd_init_regpair_result [of None ?rd "(ath_regd_sanitize reg)\<lparr>country_code := CTRY_DEFAULT\<rparr>"]
    show ?thesis
      using r nz unfolding pair(2) by (cases "ath_get_regpair ?rd") (auto dest: get_regpair_SomeD)
  qed
  then show "fst (ath_regd_init_eeprom reg) \<in> {0, - EINVAL}"
    "fst (ath_regd_init_eeprom reg) = 0 \<Longrightarrow>
     (\<exists>p \<in> set regDomainPairs. regpair (snd (ath_regd_init_eeprom reg)) = Some p) \<and>
     length (alpha2 (snd (ath_regd_init_eeprom reg))) = 2"
    "current_rd (snd (ath_regd_init_eeprom reg)) = current_rd (ath_regd_sanitize reg)"
    by blast+
qed

subsection \<open>Country information elements\<close>

text \<open>The state after a country element for which the table has an entry.\<close>

lemma country_ie_regpair:
  assumes c: "c \<in> set allCountries"
  shows "regpair (snd (ath_regd_init_eeprom (reg\<lparr>current_rd := COUNTRY_ERD_FLAG OR countryCode c\<rparr>))) =
    (if countryCode c = 0 then ath_get_regpair 0x64
     else (case ath_regd_find_country (countryCode c) of
             Some d \<Rightarrow> ath_get_regpair (regDmnEnum d) | None \<Rightarrow> None))"
proof -
  let ?reg = "reg\<lparr>current_rd := COUNTRY_ERD_FLAG OR countryCode c\<rparr>"
  have t: "(COUNTRY_ERD_FLAG OR countryCode c) AND NOT WORLDWIDE_ROAMING_FLAG = COUNTRY_ERD_FLAG OR countryCode c"
      "(COUNTRY_ERD_FLAG OR countryCode c) AND NOT COUNTRY_ERD_FLAG = countryCode c"
      "has_flag (COUNTRY_ERD_FLAG OR countryCode c) COUNTRY_ERD_FLAG"
      "COUNTRY_ERD_FLAG OR countryCode c = COUNTRY_ERD_FLAG \<longleftrightarrow> countryCode c = 0"
    using country_codes_small c by (simp_all add: list_all_iff)
  show ?thesis
  proof (cases "countryCode c = 0")
    case True
    then have san: "ath_regd_sanitize ?reg = reg\<lparr>current_rd := 0x64\<rparr>"
      using t(4) by (simp add: ath_regd_sanitize_def)
    have rd: "ath_regd_get_eepromRD (reg\<lparr>current_rd := 0x64\<rparr>) = 0x64"
      by (simp add: ath_regd_get_eepromRD_def)
    have p64: "0x64 \<in> pair_regDmnEnum ` set regDomainPairs" by (simp add: regDomainPairs_def mk_pair_def)
    have nf: "\<not> has_flag (0x64 :: u16) COUNTRY_ERD_FLAG" by (simp add: has_flag_def)
    show ?thesis
    proof (cases rule: regd_init_cases [of ?reg])
      case invalid
      then show ?thesis using p64 nf by (simp add: san rd regd_accepts_def)
    next
      case (country d)
      then show ?thesis using nf by (simp add: san rd)
    next
      case pair
      show ?thesis
        unfolding pair(2) san rd regd_init_regpair_result(2) [OF disjI1 [OF refl]] using True by simp
    qed
  next
    case False
    then have san: "ath_regd_sanitize ?reg = ?reg" using t(4) by (simp add: ath_regd_sanitize_def)
    have rd: "ath_regd_get_eepromRD ?reg = COUNTRY_ERD_FLAG OR countryCode c"
      using t(1) by (simp add: ath_regd_get_eepromRD_def)
    have nz: "COUNTRY_ERD_FLAG OR countryCode c \<noteq> 0" using t(3) by (metis has_flag_0)
    obtain d where d: "ath_regd_find_country (countryCode c) = Some d"
      using c by (cases "ath_regd_find_country (countryCode c)") (auto simp: find_country_None)
    have val: "ath_regd_is_eeprom_valid ?reg"
      using t c by (auto simp: ath_regd_is_eeprom_valid_def rd Let_def list_ex_iff)
    have dc: "ath_regd_get_default_country (COUNTRY_ERD_FLAG OR countryCode c) = countryCode c"
      using t d by (simp add: ath_regd_get_default_country_def)
    have ds: "Some d = None \<or> (\<exists>x \<in> set allCountries. Some d = Some x)"
      using find_country_SomeD(1) [OF d] by blast
    have "ath_regd_init_eeprom ?reg
        = regd_init_regpair (Some d) (regDmnEnum d) (?reg\<lparr>country_code := countryCode c\<rparr>)"
      unfolding ath_regd_init_eeprom_def san Let_def using val rd dc d nz False by simp
    then show ?thesis using regd_init_regpair_result(2) [OF ds] False d by simp
  qed
qed

lemma apply_world_flags_country:
  assumes "c \<in> set allCountries" and "countryCode c \<noteq> CTRY_DEBUG"
  shows "ath_reg_apply_world_flags fri ini
      (snd (ath_regd_init_eeprom (reg\<lparr>current_rd := COUNTRY_ERD_FLAG OR countryCode c\<rparr>))) w = Some w"
proof (cases "countryCode c = 0")
  case True
  have "ath_get_regpair 0x64 = Some (mk_pair WOR4_WORLD NO_CTL NO_CTL)" by code_simp
  then show ?thesis
    unfolding ath_reg_apply_world_flags_def country_ie_regpair [OF assms(1)] using True
    by (simp add: mk_pair_def Let_def)
next
  case False
  obtain d where d: "ath_regd_find_country (countryCode c) = Some d"
    using assms(1) by (cases "ath_regd_find_country (countryCode c)") (auto simp: find_country_None)
  note dm = find_country_SomeD [OF d]
  obtain p where p: "ath_get_regpair (regDmnEnum d) = Some p"
    using country_regpair [OF dm(1)] dm(2) assms(2) by auto
  have "pair_regDmnEnum p = regDmnEnum d" by (rule get_regpair_SomeD(2) [OF p])
  moreover have "regDmnEnum d \<notin> {0x60, 0x63, 0x66, 0x67, 0x6C, 0x68}"
    using countries_not_world dm(1) by (simp add: list_all_iff)
  ultimately show ?thesis
    unfolding ath_reg_apply_world_flags_def country_ie_regpair [OF assms(1)] using False d p
    by (simp add: Let_def)
qed

lemma apply_world_flags_debug:
  assumes "c \<in> set allCountries" and "countryCode c = CTRY_DEBUG"
  shows "ath_reg_apply_world_flags fri ini
      (snd (ath_regd_init_eeprom (reg\<lparr>current_rd := COUNTRY_ERD_FLAG OR countryCode c\<rparr>))) w = None"
proof -
  have f: "ath_regd_find_country CTRY_DEBUG = Some (mk_country CTRY_DEBUG NO_ENUMRD ''DB'')" by code_simp
  have "ath_get_regpair NO_ENUMRD = None" by (simp add: ath_get_regpair_def)
  then show ?thesis
    unfolding ath_reg_apply_world_flags_def country_ie_regpair [OF assms(1)] using assms(2) f
    by (simp add: mk_country_def)
qed

lemma find_by_name:
  obtains (found) c where "c \<in> set allCountries" and "take 2 (isoName c) = take 2 a"
      and "ath_regd_find_country_by_name a = countryCode c" and "countryCode c \<noteq> - 1"
      and "countryCode c = CTRY_DEBUG \<longleftrightarrow> take 2 a = ''DB''"
  | (unknown) "ath_regd_find_country_by_name a = - 1" and "take 2 a \<noteq> ''DB''"
proof (cases "find (\<lambda>c. take 2 (isoName c) = take 2 a) allCountries")
  case None
  have "take 2 a \<noteq> ''DB''"
  proof
    assume "take 2 a = ''DB''"
    then show False using None find_by_name_DB by simp
  qed
  then show thesis using unknown None by (simp add: ath_regd_find_country_by_name_def)
next
  case (Some c)
  note c = find_SomeD [OF Some]
  have "countryCode c = CTRY_DEBUG" if "take 2 a = ''DB''"
  proof -
    have "Some c = Some (mk_country CTRY_DEBUG NO_ENUMRD ''DB'')"
      using Some find_by_name_DB that by (simp only:)
    then show ?thesis by (simp add: mk_country_def)
  qed
  moreover have "take 2 a = ''DB''" if "countryCode c = CTRY_DEBUG"
    using debug_is_DB c that by (auto simp: list_all_iff)
  moreover have "countryCode c \<noteq> - 1" using country_codes_small c by (simp add: list_all_iff)
  moreover have "ath_regd_find_country_by_name a = countryCode c"
    using Some by (simp add: ath_regd_find_country_by_name_def)
  ultimately show thesis using found c by blast
qed

subsection \<open>Radar flags\<close>

definition radar_safe :: "wiphy \<Rightarrow> bool" where
  \<comment> \<open>every enabled channel between 5260 and 5700 MHz needs radar detection, is scanned passively
      only and takes no ad-hoc network\<close>
  "radar_safe w \<longleftrightarrow>
     (\<forall>chs. bands w ! IEEE80211_BAND_5GHZ = Some chs \<longrightarrow>
        (\<forall>ch \<in> set chs. ath_is_radar_freq (center_freq ch) \<and> \<not> has_flag (ch_flags ch) CHAN_DISABLED \<longrightarrow>
           has_flag (ch_flags ch) CHAN_RADAR \<and> has_flag (ch_flags ch) CHAN_NO_IBSS \<and>
           has_flag (ch_flags ch) CHAN_PASSIVE_SCAN))"

lemma radar_channel_flags:
  assumes "ath_is_radar_freq (center_freq (radar_channel ch))"
    and "\<not> has_flag (ch_flags (radar_channel ch)) CHAN_DISABLED"
  shows "has_flag (ch_flags (radar_channel ch)) CHAN_RADAR"
    and "has_flag (ch_flags (radar_channel ch)) CHAN_NO_IBSS"
    and "has_flag (ch_flags (radar_channel ch)) CHAN_PASSIVE_SCAN"
proof -
  have "center_freq (radar_channel ch) = center_freq ch" by (simp add: radar_channel_def)
  moreover have "\<not> has_flag (ch_flags ch) CHAN_DISABLED"
    using assms(2) by (auto simp: radar_channel_def has_flag_def bit.conj_disj_distrib2 split: if_splits)
  ultimately have fl: "ch_flags (radar_channel ch) = ch_flags ch OR 14"
    using assms(1) by (simp add: radar_channel_def)
  then show "has_flag (ch_flags (radar_channel ch)) CHAN_RADAR"
    "has_flag (ch_flags (radar_channel ch)) CHAN_NO_IBSS"
    "has_flag (ch_flags (radar_channel ch)) CHAN_PASSIVE_SCAN"
    unfolding fl has_flag_def by (simp_all add: bit.conj_disj_distrib2 or_eq_0_iff)
qed

lemma radar_safe_apply:
  assumes "1 < length (bands w)"
  shows "radar_safe (ath_reg_apply_radar_flags w)"
  using assms radar_channel_flags by (auto simp: radar_safe_def ath_reg_apply_radar_flags_def)

lemma beaconing_channel_radar:
  "center_freq (beaconing_channel f ini ch) = center_freq ch"
  "ath_is_radar_freq (center_freq ch) \<Longrightarrow> beaconing_channel f ini ch = ch"
  by (auto simp: beaconing_channel_def clear_flags_def Let_def split: option.splits)

lemma radar_safe_beaconing:
  assumes "radar_safe w" and "1 < length (bands w)"
  shows "radar_safe (ath_reg_apply_beaconing_flags f ini w)"
  using assms beaconing_channel_radar
  by (auto simp: radar_safe_def ath_reg_apply_beaconing_flags_def)

lemma radar_safe_active_scan:
  "radar_safe w \<Longrightarrow> ath_reg_apply_active_scan_flags f ini w = Some w' \<Longrightarrow> radar_safe w'"
  by (auto simp: radar_safe_def ath_reg_apply_active_scan_flags_def split: option.splits if_splits)

lemma radar_safe_world_flags:
  assumes "radar_safe w" and "1 < length (bands w)"
    and "ath_reg_apply_world_flags f ini reg w = Some w'"
  shows "radar_safe w'"
proof -
  have "1 < length (bands (ath_reg_apply_beaconing_flags f ini w))"
    using assms(2) by (simp add: ath_reg_apply_beaconing_flags_def)
  then show ?thesis
    using assms(3) radar_safe_active_scan [OF radar_safe_beaconing [OF assms(1,2)]]
      radar_safe_beaconing [OF assms(1,2)] assms(1)
    by (auto simp: ath_reg_apply_world_flags_def Let_def split: Option.bind_splits if_splits)
qed

section \<open>Properties\<close>

definition ex_reg :: "u16 \<Rightarrow> ath_regulatory" where
  "ex_reg rd = \<lparr>alpha2 = ''00'', country_code = 0, max_power_level = 0, current_rd = rd,
     power_limit = 0, regpair = None\<rparr>"

definition ex_wiphy :: wiphy where
  "ex_wiphy = \<lparr>bands = [Some (replicate 14 \<lparr>center_freq = 2412, ch_flags = 2, beacon_found = False\<rparr>),
       Some [\<lparr>center_freq = 5300, ch_flags = 0, beacon_found = True\<rparr>,
             \<lparr>center_freq = 5745, ch_flags = 6, beacon_found = True\<rparr>], None],
     wiphy_flags = 0\<rparr>"

text \<open>C18: which EEPROM words the driver accepts. \<open>__ath_regd_init\<close> returns 0 exactly for the country
  codes of the table other than the default and the debug entry (country flag set) and for the
  regulatory domains of the pair table (flag clear), and \<open>-EINVAL\<close> for every other word; on
  success the regulatory pair is an entry of the table and the country name has two letters.\<close>

theorem regd_init_accepts:
  "(fst (ath_regd_init_eeprom reg) = 0 \<longleftrightarrow>
      regd_accepts (ath_regd_get_eepromRD (ath_regd_sanitize reg))) \<and>
   fst (ath_regd_init_eeprom reg) \<in> {0, - EINVAL} \<and>
   (fst (ath_regd_init_eeprom reg) = 0 \<longrightarrow>
      (\<exists>p \<in> set regDomainPairs. regpair (snd (ath_regd_init_eeprom reg)) = Some p) \<and>
      length (alpha2 (snd (ath_regd_init_eeprom reg))) = 2)"
  using regd_init_success_iff [of reg] regd_init_result [of reg] by blast

theorem regd_init_accepts_witness:
  "regpair (snd (ath_regd_init_eeprom (ex_reg 0x8348))) = Some (mk_pair FCC3_FCCA CTL_FCC CTL_FCC) \<and>
   length (alpha2 (snd (ath_regd_init_eeprom (ex_reg 0x8348)))) = 2"
proof -
  have "fst (ath_regd_init_eeprom (ex_reg 0x8348)) = 0 \<and>
      regpair (snd (ath_regd_init_eeprom (ex_reg 0x8348))) = Some (mk_pair FCC3_FCCA CTL_FCC CTL_FCC)"
    by code_simp
  then show ?thesis using regd_init_accepts [of "ex_reg 0x8348"] by blast
qed

text \<open>C19: radar protection. Whatever request cfg80211 announces, after \<open>ath_reg_notifier_apply\<close> every
  enabled channel between 5260 and 5700 MHz needs radar detection, is scanned passively only and
  takes no ad-hoc network.\<close>

theorem notifier_radar_safe:
  assumes "1 < length (bands w)" and "ath_reg_notifier_apply f request copy reg w = Some (reg', w')"
  shows "radar_safe w'"
proof -
  have safe: "radar_safe (ath_reg_apply_radar_flags w)" by (rule radar_safe_apply [OF assms(1)])
  have len: "1 < length (bands (ath_reg_apply_radar_flags w))"
    using assms(1) by (simp add: ath_reg_apply_radar_flags_def)
  show ?thesis
    using assms(2) safe radar_safe_world_flags [OF safe len]
    by (auto simp: ath_reg_notifier_apply_def Let_def
        split: option.splits nl80211_reg_initiator.splits if_splits Option.bind_splits)
qed

theorem notifier_radar_safe_witness:
  "\<exists>w'. ath_reg_notifier_apply (\<lambda>f. Some 0)
      (Some \<lparr>initiator = SET_BY_COUNTRY_IE, req_alpha2 = ''DE''\<rparr>) (ex_reg 0x60) (ex_reg 0x60) ex_wiphy
      = Some (snd (ath_regd_init_eeprom (ex_reg 0x8114)), w') \<and> radar_safe w'"
proof -
  have r: "ath_reg_notifier_apply (\<lambda>f. Some 0)
      (Some \<lparr>initiator = SET_BY_COUNTRY_IE, req_alpha2 = ''DE''\<rparr>) (ex_reg 0x60) (ex_reg 0x60) ex_wiphy
      = Some (snd (ath_regd_init_eeprom (ex_reg 0x8114)), ath_reg_apply_radar_flags ex_wiphy)"
    by code_simp
  then show ?thesis using notifier_radar_safe [OF _ r] by (simp add: ex_wiphy_def)
qed

text \<open>The same protection after initialisation: when \<open>ath_regd_init\<close> succeeds, the channel flags
  it leaves are radar safe for every EEPROM word, also where the world domain re-enables
  beaconing and active scans. \<open>wiphy_apply_custom_regulatory\<close> may set any flags; it keeps the
  bands.\<close>

theorem regd_init_radar_safe:
  assumes "\<And>rs v. length (bands (apply_custom rs v)) = length (bands v)"
    and "1 < length (bands w)"
    and "ath_regd_init f apply_custom reg copy w = Some (0, reg', copy', w')"
  shows "radar_safe w'"
proof -
  have rf: "radar_safe (ath_reg_apply_radar_flags (apply_custom rs (w\<lparr>wiphy_flags := fl\<rparr>)))"
    "1 < length (bands (ath_reg_apply_radar_flags (apply_custom rs (w\<lparr>wiphy_flags := fl\<rparr>))))" for rs fl
    using radar_safe_apply [of "apply_custom rs (w\<lparr>wiphy_flags := fl\<rparr>)"] assms(1,2)
    by (simp_all add: ath_reg_apply_radar_flags_def)
  show ?thesis
    using assms(3)
    by (auto simp: ath_regd_init_def ath_regd_init_wiphy_def Let_def
        dest: radar_safe_world_flags [OF rf]
        split: prod.splits if_splits Option.bind_splits)
qed

theorem regd_init_radar_safe_witness:
  "\<exists>reg' copy' w'. ath_regd_init (\<lambda>f. Some 0) (\<lambda>rs v. v) (ex_reg 0x68) (ex_reg 0) ex_wiphy
      = Some (0, reg', copy', w') \<and> radar_safe w'"
proof -
  have "ath_regd_init (\<lambda>f. Some 0) (\<lambda>rs v. v) (ex_reg 0x68) (ex_reg 0) ex_wiphy \<noteq> None \<and>
     fst (the (ath_regd_init (\<lambda>f. Some 0) (\<lambda>rs v. v) (ex_reg 0x68) (ex_reg 0) ex_wiphy)) = 0"
    by code_simp
  then obtain reg' copy' w' where "ath_regd_init (\<lambda>f. Some 0) (\<lambda>rs v. v) (ex_reg 0x68) (ex_reg 0) ex_wiphy
      = Some (0, reg', copy', w')"
    by (cases "ath_regd_init (\<lambda>f. Some 0) (\<lambda>rs v. v) (ex_reg 0x68) (ex_reg 0) ex_wiphy") auto
  then show ?thesis
    using regd_init_radar_safe [of "\<lambda>rs v. v" ex_wiphy "\<lambda>f. Some 0"] by (auto simp: ex_wiphy_def)
qed

text \<open>Country elements on a world-roaming card. The notifier never applies the world flags it is
  meant to apply: by then the regulatory pair is the country's, and no country has a world pair,
  so the channels get the radar flags only. For the element ``DB'' it follows a null pointer
  instead: that table entry has no regulatory domain.\<close>

theorem country_ie_world_flags_dead:
  assumes "ath_is_world_regd reg" and "initiator q = SET_BY_COUNTRY_IE"
  shows "(ath_reg_notifier_apply f (Some q) copy reg w = None \<longleftrightarrow> take 2 (req_alpha2 q) = ''DB'') \<and>
    (\<forall>reg' w'. ath_reg_notifier_apply f (Some q) copy reg w = Some (reg', w') \<longrightarrow>
       w' = ath_reg_apply_radar_flags w)"
proof (cases rule: find_by_name [of "req_alpha2 q"])
  case (found c)
  then show ?thesis
    using assms apply_world_flags_country [OF found(1)] apply_world_flags_debug [OF found(1)]
    by (cases "countryCode c = CTRY_DEBUG") (simp_all add: ath_reg_notifier_apply_def Let_def)
next
  case unknown
  then show ?thesis using assms by (simp add: ath_reg_notifier_apply_def Let_def)
qed

theorem country_ie_world_flags_dead_witness:
  "ath_reg_notifier_apply (\<lambda>f. Some 0) (Some \<lparr>initiator = SET_BY_COUNTRY_IE, req_alpha2 = ''DB''\<rparr>)
     (ex_reg 0x60) (ex_reg 0x60) ex_wiphy = None"
proof -
  have "ath_is_world_regd (ex_reg 0x60)" by code_simp
  from country_ie_world_flags_dead [OF this, of "\<lparr>initiator = SET_BY_COUNTRY_IE, req_alpha2 = ''DB''\<rparr>"
      "\<lambda>f. Some 0" "ex_reg 0x60" ex_wiphy]
  show ?thesis by simp
qed

text \<open>A country element for Colombia. The first table entry named ``CO'' is the default country
  with code 0, so the driver forms the word 0x8000, sanitizes it and ends up in the world domain
  0x64 instead of Colombia's FCC1\_FCCA.\<close>

theorem country_ie_colombia:
  assumes "ath_is_world_regd reg"
  shows "\<exists>reg'. ath_reg_notifier_apply f (Some \<lparr>initiator = SET_BY_COUNTRY_IE, req_alpha2 = ''CO''\<rparr>)
       copy reg w = Some (reg', ath_reg_apply_radar_flags w) \<and>
     current_rd reg' = 0x64 \<and> regpair reg' = ath_get_regpair WOR4_WORLD \<and>
     map_option regDmnEnum (ath_regd_find_country CTRY_COLOMBIA) = Some FCC1_FCCA"
proof -
  have find: "find (\<lambda>c. take 2 (isoName c) = ''CO'') allCountries = Some (mk_country CTRY_DEFAULT FCC1_FCCA ''CO'')"
    by code_simp
  then have c: "mk_country CTRY_DEFAULT FCC1_FCCA ''CO'' \<in> set allCountries" (is "?c \<in> _")
    using find_SomeD by fastforce
  have name: "ath_regd_find_country_by_name ''CO'' = countryCode ?c" "countryCode ?c = 0"
    using find by (simp_all add: ath_regd_find_country_by_name_def mk_country_def)
  let ?reg = "snd (ath_regd_init_eeprom (reg\<lparr>current_rd := COUNTRY_ERD_FLAG OR countryCode ?c\<rparr>))"
  have run: "ath_reg_notifier_apply f (Some \<lparr>initiator = SET_BY_COUNTRY_IE, req_alpha2 = ''CO''\<rparr>)
       copy reg w = Some (?reg, ath_reg_apply_radar_flags w)"
    using assms name apply_world_flags_country [OF c, of f SET_BY_COUNTRY_IE reg]
    by (simp add: ath_reg_notifier_apply_def Let_def)
  have rd: "current_rd ?reg = 0x64"
    unfolding regd_init_result(3) name(2) by (simp add: ath_regd_sanitize_def)
  have pair: "regpair ?reg = ath_get_regpair WOR4_WORLD"
    unfolding country_ie_regpair [OF c] using name(2) by simp
  have "map_option regDmnEnum (ath_regd_find_country CTRY_COLOMBIA) = Some FCC1_FCCA" by code_simp
  then show ?thesis using run rd pair by blast
qed

theorem country_ie_colombia_witness:
  "\<exists>reg'. ath_reg_notifier_apply (\<lambda>f. None)
       (Some \<lparr>initiator = SET_BY_COUNTRY_IE, req_alpha2 = ''CO''\<rparr>) (ex_reg 0x60) (ex_reg 0x60) ex_wiphy
       = Some (reg', ath_reg_apply_radar_flags ex_wiphy) \<and> current_rd reg' = 0x64"
proof -
  have "ath_is_world_regd (ex_reg 0x60)" by code_simp
  from country_ie_colombia [OF this, of "\<lambda>f. None" "ex_reg 0x60" ex_wiphy] show ?thesis by blast
qed

text \<open>The default world domain is the most restrictive one: whatever it allows, every world
  domain the driver can select allows with the same restrictions; and for a card whose EEPROM
  word is a world domain the driver finds the domain, except that \<open>WORB_WORLD\<close> (0x6B), an entry of
  the table, falls through to the warning and the default.\<close>

theorem world_regdomain_selected:
  assumes "fst (ath_regd_init_eeprom reg) = 0"
    and "ath_is_world_regd (snd (ath_regd_init_eeprom reg))"
    and "regpair (snd (ath_regd_init_eeprom reg)) = Some p"
  shows "\<exists>rs. ath_world_regdomain (snd (ath_regd_init_eeprom reg)) = Some (rs, pair_regDmnEnum p = WORB_WORLD) \<and>
    (\<forall>s \<in> set ath_default_world_regdomain. \<exists>r \<in> set rs.
       start_freq r \<le> start_freq s \<and> end_freq s \<le> end_freq r \<and> rule_flags r = rule_flags s \<and>
       max_bw r = max_bw s \<and> max_eirp r = max_eirp s)"
proof -
  let ?reg = "snd (ath_regd_init_eeprom reg)" and ?r = "ath_regd_sanitize reg"
  have rdeq: "ath_regd_get_eepromRD ?reg = ath_regd_get_eepromRD ?r"
    unfolding ath_regd_get_eepromRD_def regd_init_result(3) ..
  have wwr: "is_wwr_sku (ath_regd_get_eepromRD ?r)" using assms(2) by (simp add: ath_is_world_regd_def rdeq)
  then have nf: "\<not> has_flag (ath_regd_get_eepromRD ?r) COUNTRY_ERD_FLAG" "ath_regd_get_eepromRD ?r \<noteq> 0"
    using and_8000 [of "ath_regd_get_eepromRD ?r"] by (auto simp: is_wwr_sku_def has_flag_def)
  have "pair_regDmnEnum p = ath_regd_get_eepromRD ?r \<and> p \<in> set regDomainPairs"
  proof (cases rule: regd_init_cases [of reg])
    case invalid
    then show ?thesis using assms(1) by (simp add: errno_simps)
  next
    case (country c)
    then show ?thesis using nf by simp
  next
    case pair
    then show ?thesis
      using assms(3) get_regpair_SomeD by (auto simp: regd_init_regpair_result(2))
  qed
  then have "pair_regDmnEnum p \<in> {0x60, 0x61, 0x62, 0x63, 0x64, 0x65, 0x66, 0x67, 0x68, 0x69, 0x6A, 0x6B, 0x6C}"
    using wwr pairs_small by (auto simp: is_wwr_sku_def list_all_iff)
  then show ?thesis
    unfolding ath_world_regdomain_def assms(3)
    by (auto simp: Let_def world_regdoms reg_rules ath_default_world_regdomain_def)
qed

theorem world_regdomain_selected_witness:
  "\<exists>rs. ath_world_regdomain (snd (ath_regd_init_eeprom (ex_reg 0x6B))) = Some (rs, True)"
proof -
  have a: "fst (ath_regd_init_eeprom (ex_reg 0x6B)) = 0"
    "ath_is_world_regd (snd (ath_regd_init_eeprom (ex_reg 0x6B)))"
    "regpair (snd (ath_regd_init_eeprom (ex_reg 0x6B))) = Some (mk_pair WORB_WORLD NO_CTL NO_CTL)"
    by code_simp+
  show ?thesis using world_regdomain_selected [OF a] by (auto simp: mk_pair_def)
qed

end
