(* ===== verification/Ath9k_Eeprom_4k.thy ===== *)
theory Ath9k_Eeprom_4k
  imports Ath9k_Eeprom Regd
begin

text \<open>
  The 4 kilobyte EEPROM of the AR9285 and the AR9271: \<open>ath9k/eeprom_4k.c\<close>, and the transmit power functions of
  \<open>ath9k/hw.c\<close> that call it.

  \<open>struct ar5416_eeprom_4k\<close> is packed, so it is modelled as its 376 bytes on a little-endian host; each field
  the code uses is a definition at its offset. An index past the end of one of its arrays reads the bytes that follow,
  and is a fault only where it leaves the structure.
\<close>

section \<open>The structure\<close>

abbreviation (input) SIZE_EEPROM_4K :: nat where "SIZE_EEPROM_4K \<equiv> 188"
abbreviation (input) AR5416_EEPROM_MAGIC :: u16 where "AR5416_EEPROM_MAGIC \<equiv> 0xa55a"
abbreviation (input) AR5416_EEPROM_MAGIC_OFFSET :: nat where "AR5416_EEPROM_MAGIC_OFFSET \<equiv> 0"
abbreviation (input) AR5416_EEP_VER :: u16 where "AR5416_EEP_VER \<equiv> 0xE"
abbreviation (input) AR5416_EEP_NO_BACK_VER :: u16 where "AR5416_EEP_NO_BACK_VER \<equiv> 1"
abbreviation (input) AR5416_EEP_MINOR_VER_2 :: u16 where "AR5416_EEP_MINOR_VER_2 \<equiv> 2"
abbreviation (input) AR5416_PWR_TABLE_OFFSET_DB :: int where "AR5416_PWR_TABLE_OFFSET_DB \<equiv> - 5"
abbreviation (input) CTL_MODE_M :: u16 where "CTL_MODE_M \<equiv> 0xf"
abbreviation (input) CTL_11A :: u16 where "CTL_11A \<equiv> 0"
abbreviation (input) CTL_11B :: u16 where "CTL_11B \<equiv> 1"
abbreviation (input) CTL_11G :: u16 where "CTL_11G \<equiv> 2"
abbreviation (input) CTL_2GHT20 :: u16 where "CTL_2GHT20 \<equiv> 5"
abbreviation (input) CTL_2GHT40 :: u16 where "CTL_2GHT40 \<equiv> 7"
abbreviation (input) CTL_5GHT40 :: u16 where "CTL_5GHT40 \<equiv> 8"
abbreviation (input) CTL_11G_EXT :: u16 where "CTL_11G_EXT \<equiv> 0x8002"
abbreviation (input) CTL_11B_EXT :: u16 where "CTL_11B_EXT \<equiv> 0x8001"
abbreviation (input) EXT_ADDITIVE :: u16 where "EXT_ADDITIVE \<equiv> 0x8000"
abbreviation (input) AR_NO_SPUR :: u16 where "AR_NO_SPUR \<equiv> 0x8000"
abbreviation (input) AR5416_NUM_2G_CCK_TARGET_POWERS :: nat where "AR5416_NUM_2G_CCK_TARGET_POWERS \<equiv> 3"
abbreviation (input) AR5416_NUM_2G_20_TARGET_POWERS :: nat where "AR5416_NUM_2G_20_TARGET_POWERS \<equiv> 4"
abbreviation (input) AR5416_NUM_2G_40_TARGET_POWERS :: nat where "AR5416_NUM_2G_40_TARGET_POWERS \<equiv> 4"
abbreviation (input) AR5416_EEP4K_NUM_CTLS :: nat where "AR5416_EEP4K_NUM_CTLS \<equiv> 12"
abbreviation (input) AR5416_EEP4K_NUM_BAND_EDGES :: nat where "AR5416_EEP4K_NUM_BAND_EDGES \<equiv> 4"
abbreviation (input) AR5416_EEP4K_NUM_PD_GAINS :: nat where "AR5416_EEP4K_NUM_PD_GAINS \<equiv> 2"

definition eep16 :: "bytes \<Rightarrow> nat \<Rightarrow> u16" where
  "eep16 m i = le16 (m ! i) (m ! (i + 1))"

definition eep32 :: "bytes \<Rightarrow> nat \<Rightarrow> u32" where
  "eep32 m i = le32 (m ! i) (m ! (i + 1)) (m ! (i + 2)) (m ! (i + 3))"

definition put16 :: "nat \<Rightarrow> u16 \<Rightarrow> bytes \<Rightarrow> bytes" where
  "put16 i w m = m[i := ucast w, i + 1 := ucast (drop_bit 8 w)]"

definition put32 :: "nat \<Rightarrow> u32 \<Rightarrow> bytes \<Rightarrow> bytes" where
  "put32 i w m = m[i := ucast w, i + 1 := ucast (drop_bit 8 w), i + 2 := ucast (drop_bit 16 w), i + 3 := ucast (drop_bit 24 w)]"

definition eep_version :: "bytes \<Rightarrow> u16" where "eep_version m = eep16 m 4"
definition eep_length :: "bytes \<Rightarrow> u16" where "eep_length m = eep16 m 0"
definition eep_txMask :: "bytes \<Rightarrow> u8" where "eep_txMask m = m ! 19"
definition eep_xpdGain :: "bytes \<Rightarrow> u8" where "eep_xpdGain m = m ! 72"
definition eep_pdGainOverlap :: "bytes \<Rightarrow> u8" where "eep_pdGainOverlap m = m ! 76"
definition eep_ht40PowerInc :: "bytes \<Rightarrow> u8" where "eep_ht40PowerInc m = m ! 82"
definition eep_calFreqPier2G :: "bytes \<Rightarrow> bytes" where "eep_calFreqPier2G m = take 3 (drop 120 m)"
definition eep_ctlIndex :: "bytes \<Rightarrow> nat \<Rightarrow> u8" where "eep_ctlIndex m i = m ! (267 + i)"
definition eep_spurChan :: "bytes \<Rightarrow> nat \<Rightarrow> u16" where "eep_spurChan m i = eep16 m (100 + 4 * i)"

definition eep_calPierData2G :: "bytes \<Rightarrow> pd_data" where
  "eep_calPierData2G m = \<lparr>
     pd_pwr = \<lambda>pier gain. if pier < 3 \<and> gain < 2 then read_bytes m (123 + 20 * pier + 5 * gain) 5 else None,
     pd_vpd = \<lambda>pier gain. if pier < 3 \<and> gain < 2 then read_bytes m (133 + 20 * pier + 5 * gain) 5 else None\<rparr>"

definition eep_target :: "bytes \<Rightarrow> nat \<Rightarrow> nat \<Rightarrow> nat \<Rightarrow> target_power option" where
  \<comment> \<open>entry \<open>i\<close> of an array of target powers of \<open>n\<close> rates that starts at \<open>base\<close>\<close>
  "eep_target m base n i = do {
     bs \<leftarrow> read_bytes m (base + (n + 1) * i) (n + 1);
     Some \<lparr>bChannel = hd bs, tPow2x = List.tl bs\<rparr> }"

definition eep_ctlEdges :: "bytes \<Rightarrow> nat \<Rightarrow> nat \<Rightarrow> ctl_edges option" where
  \<comment> \<open>\<open>ctlData[i].ctlEdges[n - 1]\<close>\<close>
  "eep_ctlEdges m i n = do {
     bs \<leftarrow> read_bytes m (271 + 8 * i + 8 * n) 8;
     Some (map (\<lambda>j. (bs ! (2 * j), bs ! (2 * j + 1))) [0..<4]) }"

section \<open>Reading and checking\<close>

definition ath9k_hw_4k_get_eeprom_ver :: "bytes \<Rightarrow> u16" where
  "ath9k_hw_4k_get_eeprom_ver m = drop_bit 12 (eep_version m) AND 0xF"

definition ath9k_hw_4k_get_eeprom_rev :: "bytes \<Rightarrow> u16" where
  "ath9k_hw_4k_get_eeprom_rev m = eep_version m AND 0xFFF"

fun fill_4k_loop ::
  "(nat \<Rightarrow> 's \<Rightarrow> ((bool \<times> u16) \<times> 's) option) \<Rightarrow> nat \<Rightarrow> nat \<Rightarrow> bytes \<Rightarrow> 's \<Rightarrow> (bool \<times> bytes \<times> 's) option" where
  "fill_4k_loop nvram 0 addr m s = Some (True, m, s)"
| "fill_4k_loop nvram (Suc n) addr m s = do {
     ((ok, w), s) \<leftarrow> nvram (addr + 64) s;
     if \<not> ok then Some (False, m, s) else fill_4k_loop nvram n (addr + 1) (put16 (2 * addr) w m) s }"

definition ath9k_hw_usb_4k_fill_eeprom ::
  "(u32 list \<Rightarrow> 's \<Rightarrow> (u32 list \<times> 's) option) \<Rightarrow> 's \<Rightarrow> (bool \<times> bytes \<times> 's) option" where
  "ath9k_hw_usb_4k_fill_eeprom multi s = do {
     (ws, s) \<leftarrow> ath9k_hw_usb_gen_fill_eeprom multi 64 SIZE_EEPROM_4K s;
     Some (True, concat (map le16_bytes ws), s) }"

definition ath9k_hw_4k_fill_eeprom ::
  "bool \<Rightarrow> (u32 list \<Rightarrow> 's \<Rightarrow> (u32 list \<times> 's) option) \<Rightarrow> (nat \<Rightarrow> 's \<Rightarrow> ((bool \<times> u16) \<times> 's) option) \<Rightarrow>
     bytes \<Rightarrow> 's \<Rightarrow> (bool \<times> bytes \<times> 's) option" where
  "ath9k_hw_4k_fill_eeprom usb multi nvram m s =
     (if usb then ath9k_hw_usb_4k_fill_eeprom multi s else fill_4k_loop nvram SIZE_EEPROM_4K 0 m s)"

definition swab16 :: "u16 \<Rightarrow> u16" where
  "swab16 w = push_bit 8 w OR drop_bit 8 w"

definition swab32 :: "u32 \<Rightarrow> u32" where
  "swab32 w = push_bit 24 (w AND 0xff) OR push_bit 8 (w AND 0xff00) OR drop_bit 8 (w AND 0xff0000) OR drop_bit 24 (w AND 0xff000000)"

definition swab16_at :: "nat \<Rightarrow> bytes \<Rightarrow> bytes" where
  "swab16_at i m = put16 i (swab16 (eep16 m i)) m"

definition swab32_at :: "nat \<Rightarrow> bytes \<Rightarrow> bytes" where
  "swab32_at i m = put32 i (swab32 (eep32 m i)) m"

definition swab_fields :: "bytes \<Rightarrow> bytes" where
  \<comment> \<open>length, checksum, version, regDmn, rfSilent, blueToothOptions, deviceCap, antCtrlCommon, antCtrlChain, spurChans\<close>
  "swab_fields m = fold swab16_at [100, 104, 108, 112, 116] (swab32_at 52 (swab32_at 56
     (fold swab16_at [0, 2, 4, 8, 10, 20, 22, 24] m)))"

definition eep_sum :: "nat \<Rightarrow> bytes \<Rightarrow> u32" where
  "eep_sum el m = foldl (\<lambda>acc i. acc XOR ucast (eep16 m (2 * i))) 0 [0..<el]"

definition check_4k_body :: "bool \<Rightarrow> bytes \<Rightarrow> int \<times> bytes" where
  \<comment> \<open>from the line that prints \<open>need_swap\<close> on\<close>
  "check_4k_body need_swap m =
     (let len = (if need_swap then swab16 (eep_length m) else eep_length m);
          el = (if unat len > 376 then SIZE_EEPROM_4K else unat len div 2);
          acc = eep_sum el m;
          m = (if need_swap then swab_fields m else m) in
      if acc \<noteq> 0xffff \<or> ath9k_hw_4k_get_eeprom_ver m \<noteq> AR5416_EEP_VER \<or> ath9k_hw_4k_get_eeprom_rev m < AR5416_EEP_NO_BACK_VER
      then (- EINVAL, m) else (0, m))"

definition ath9k_hw_4k_check_eeprom ::
  "bool \<Rightarrow> (nat \<Rightarrow> 's \<Rightarrow> ((bool \<times> u16) \<times> 's) option) \<Rightarrow> bytes \<Rightarrow> 's \<Rightarrow> (int \<times> bytes \<times> 's) option" where
  "ath9k_hw_4k_check_eeprom use_flash nvram m s =
     (if use_flash then (let (r, m) = check_4k_body False m in Some (r, m, s))
      else do {
        ((ok, magic), s) \<leftarrow> nvram AR5416_EEPROM_MAGIC_OFFSET s;
        if \<not> ok then Some (0, m, s)
        else if magic = AR5416_EEPROM_MAGIC then (let (r, m) = check_4k_body False m in Some (r, m, s))
        else if swab16 magic = AR5416_EEPROM_MAGIC then
          (let (r, m) = check_4k_body True (fold (\<lambda>addr. swab16_at (2 * addr)) [0..<SIZE_EEPROM_4K] m) in Some (r, m, s))
        else Some (- EINVAL, m, s) })"

definition ath9k_hw_nvram_read ::
  "bytes option \<Rightarrow> (nat \<Rightarrow> 's \<Rightarrow> ((bool \<times> u16) \<times> 's) option) \<Rightarrow> nat \<Rightarrow> 's \<Rightarrow> ((bool \<times> u16) \<times> 's) option" where
  \<comment> \<open>the result and \<open>*data\<close>, which is not written on failure\<close>
  "ath9k_hw_nvram_read eeprom_blob eeprom_read off s = (case eeprom_blob of
       Some blob \<Rightarrow> map_option (\<lambda>r. (r, s)) (ath9k_hw_nvram_read_blob blob off)
     | None \<Rightarrow> eeprom_read off s)"

definition AR_EEPROM_STATUS_DATA :: "ath_hw \<Rightarrow> u32" where
  "AR_EEPROM_STATUS_DATA ah = (if AR_SREV_9340 ah then 0x40c8 else if AR_SREV_9300_20_OR_LATER ah then 0x4084 else 0x407c)"

definition ath_usb_eeprom_read :: "'s ath_ops \<Rightarrow> ath_hw \<Rightarrow> nat \<Rightarrow> 's \<Rightarrow> ((bool \<times> u16) \<times> 's) option" where
  "ath_usb_eeprom_read ops ah off s = do {
     (v, s) \<leftarrow> op_read ops (AR5416_EEPROM_OFFSET + push_bit 2 (word_of_nat off)) s;
     (r, s) \<leftarrow> ath9k_hw_wait ops (AR_EEPROM_STATUS_DATA ah) 0x00050000 0 AH_WAIT_TIMEOUT s;
     if \<not> r then Some ((False, 0), s)
     else do {
       (v, s) \<leftarrow> op_read ops (AR_EEPROM_STATUS_DATA ah) s;
       Some ((True, ucast (MS v 0x0000ffff 0)), s) } }"

datatype eeprom_ops = eep_ar9300_ops | eep_ar9287_ops | eep_4k_ops | eep_def_ops

definition eep_ops :: "ath_hw \<Rightarrow> eeprom_ops" where
  "eep_ops ah =
     (if AR_SREV_9300_20_OR_LATER ah then eep_ar9300_ops
      else if AR_SREV_9287 ah then eep_ar9287_ops
      else if AR_SREV_9285 ah \<or> AR_SREV_9271 ah then eep_4k_ops
      else eep_def_ops)"

definition ath9k_hw_eeprom_init ::
  "(eeprom_ops \<Rightarrow> 'm \<Rightarrow> 's \<Rightarrow> (bool \<times> 'm \<times> 's) option) \<Rightarrow> (eeprom_ops \<Rightarrow> 'm \<Rightarrow> 's \<Rightarrow> (int \<times> 'm \<times> 's) option) \<Rightarrow>
     ath_hw \<Rightarrow> 'm \<Rightarrow> 's \<Rightarrow> (int \<times> 'm \<times> 's) option" where
  \<comment> \<open>with the operations \<open>fill_eeprom\<close> and \<open>check_eeprom\<close> of each table\<close>
  "ath9k_hw_eeprom_init fill_eeprom check_eeprom ah m s = do {
     (ok, m, s) \<leftarrow> fill_eeprom (eep_ops ah) m s;
     if \<not> ok then Some (- EIO, m, s) else check_eeprom (eep_ops ah) m s }"

definition ath9k_hw_analog_shift_regwrite :: "'s ath_ops \<Rightarrow> u32 \<Rightarrow> u32 \<Rightarrow> 's \<Rightarrow> 's option" where
  "ath9k_hw_analog_shift_regwrite ops reg val s = op_write ops val reg s"

definition ath9k_hw_analog_shift_rmw :: "'s ath_ops \<Rightarrow> u32 \<Rightarrow> u32 \<Rightarrow> nat \<Rightarrow> u32 \<Rightarrow> 's \<Rightarrow> 's option" where
  "ath9k_hw_analog_shift_rmw ops reg msk shift val s = do {
     (v, s) \<leftarrow> op_read ops reg s;
     op_write ops ((v AND NOT msk) OR (push_bit shift val AND msk)) reg s }"

datatype eeprom_param =
    EEP_NFTHRESH_5 | EEP_NFTHRESH_2 | EEP_MAC_MSW | EEP_MAC_MID | EEP_MAC_LSW | EEP_REG_0 | EEP_OP_CAP | EEP_OP_MODE
  | EEP_RF_SILENT | EEP_OB_5 | EEP_DB_5 | EEP_OB_2 | EEP_DB_2 | EEP_MINOR_REV | EEP_TX_MASK | EEP_RX_MASK | EEP_FSTCLK_5G
  | EEP_RXGAIN_TYPE | EEP_OL_PWRCTRL | EEP_TXGAIN_TYPE | EEP_RC_CHAIN_MASK | EEP_DAC_HPWR_5G | EEP_FRAC_N_5G | EEP_DEV_TYPE
  | EEP_TEMPSENSE_SLOPE | EEP_TEMPSENSE_SLOPE_PAL_ON | EEP_PWR_TABLE_OFFSET | EEP_PAPRD | EEP_MODAL_VER | EEP_ANT_DIV_CTL1
  | EEP_CHAIN_MASK_REDUCE | EEP_ANTENNA_GAIN_2G | EEP_ANTENNA_GAIN_5G

definition ath9k_hw_4k_get_eeprom :: "bytes \<Rightarrow> eeprom_param \<Rightarrow> u32" where
  "ath9k_hw_4k_get_eeprom m param = (case param of
       EEP_NFTHRESH_2 \<Rightarrow> ucast (m ! 71)
     | EEP_MAC_LSW \<Rightarrow> ucast (be16 (m ! 12) (m ! 13))
     | EEP_MAC_MID \<Rightarrow> ucast (be16 (m ! 14) (m ! 15))
     | EEP_MAC_MSW \<Rightarrow> ucast (be16 (m ! 16) (m ! 17))
     | EEP_REG_0 \<Rightarrow> ucast (eep16 m 8)
     | EEP_OP_CAP \<Rightarrow> ucast (eep16 m 24)
     | EEP_OP_MODE \<Rightarrow> ucast (m ! 6)
     | EEP_RF_SILENT \<Rightarrow> ucast (eep16 m 20)
     | EEP_OB_2 \<Rightarrow> ucast (m ! 77 AND 0xf)
     | EEP_DB_2 \<Rightarrow> ucast (drop_bit 4 (m ! 78))
     | EEP_MINOR_REV \<Rightarrow> ucast (eep_version m AND 0xFFF)
     | EEP_TX_MASK \<Rightarrow> ucast (eep_txMask m)
     | EEP_RX_MASK \<Rightarrow> ucast (m ! 18)
     | EEP_PWR_TABLE_OFFSET \<Rightarrow> word_of_int AR5416_PWR_TABLE_OFFSET_DB
     | EEP_MODAL_VER \<Rightarrow> ucast (m ! 89)
     | EEP_ANT_DIV_CTL1 \<Rightarrow> ucast (drop_bit 4 (m ! 91))
     | EEP_TXGAIN_TYPE \<Rightarrow> ucast (m ! 31)
     | EEP_ANTENNA_GAIN_2G \<Rightarrow> ucast (m ! 60)
     | _ \<Rightarrow> 0)"

abbreviation (input) SPUR_DISABLE :: int where "SPUR_DISABLE \<equiv> 0"
abbreviation (input) SPUR_ENABLE_IOCTL :: int where "SPUR_ENABLE_IOCTL \<equiv> 1"
abbreviation (input) SPUR_ENABLE_EEPROM :: int where "SPUR_ENABLE_EEPROM \<equiv> 2"

definition ath9k_hw_4k_get_spur_channel :: "int \<Rightarrow> (u16 \<times> u16) list \<Rightarrow> bytes \<Rightarrow> nat \<Rightarrow> bool \<Rightarrow> u16 option" where
  \<comment> \<open>\<open>spurchans\<close> is \<open>config.spurchans\<close>, read for the message too; both arrays have 5 entries\<close>
  "ath9k_hw_4k_get_spur_channel spurmode spurchans m i is2GHz =
     (if i < length spurchans \<and> i < 5 then Some
        (if spurmode = SPUR_ENABLE_IOCTL then (if is2GHz then snd (spurchans ! i) else fst (spurchans ! i))
         else if spurmode = SPUR_ENABLE_EEPROM then eep_spurChan m i
         else AR_NO_SPUR)
      else None)"

section \<open>Power per rate\<close>

definition ctl_group :: "u16 \<Rightarrow> u16 \<Rightarrow> u8 \<Rightarrow> bool" where
  \<comment> \<open>\<open>CMP_TEST_GRP\<close>\<close>
  "ctl_group cfgCtl mode ctlIndex \<longleftrightarrow>
     (let g = (cfgCtl AND NOT CTL_MODE_M) OR (mode AND CTL_MODE_M) in
      g = ucast ctlIndex \<or> g = ((ucast ctlIndex AND CTL_MODE_M) OR SD_NO_CTL))"

fun ctl_loop :: "(nat \<Rightarrow> u8) \<Rightarrow> (nat \<Rightarrow> u16 option) \<Rightarrow> u16 \<Rightarrow> u16 \<Rightarrow> nat \<Rightarrow> nat \<Rightarrow> u16 \<Rightarrow> u16 option" where
  \<comment> \<open>the loop over \<open>ctlIndex\<close> from \<open>i\<close> on: \<open>twiceMaxEdgePower\<close>\<close>
  "ctl_loop ctlIndex edge cfgCtl mode 0 i twiceMax = Some twiceMax"
| "ctl_loop ctlIndex edge cfgCtl mode (Suc n) i twiceMax =
     (if ctlIndex i = 0 then Some twiceMax
      else if ctl_group cfgCtl mode (ctlIndex i) then do {
        twiceMin \<leftarrow> edge i;
        if (cfgCtl AND NOT CTL_MODE_M) = SD_NO_CTL then ctl_loop ctlIndex edge cfgCtl mode n (i + 1) (min twiceMax twiceMin)
        else Some twiceMin }
      else ctl_loop ctlIndex edge cfgCtl mode n (i + 1) twiceMax)"

record rate_targets =
  targetPowerCck :: bytes
  targetPowerOfdm :: bytes
  targetPowerHt20 :: bytes
  targetPowerHt40 :: bytes
  targetPowerCckExt :: bytes
  targetPowerOfdmExt :: bytes

definition cap_all :: "u16 \<Rightarrow> bytes \<Rightarrow> bytes" where
  "cap_all lim ps = map (\<lambda>p. ucast (min (ucast p :: u16) lim)) ps"

definition cap_first :: "u16 \<Rightarrow> bytes \<Rightarrow> bytes" where
  "cap_first lim ps = ps[0 := ucast (min (ucast (ps ! 0) :: u16) lim)]"

definition cap_mode :: "u16 \<Rightarrow> u16 \<Rightarrow> rate_targets \<Rightarrow> rate_targets" where
  "cap_mode mode lim t =
     (if mode = CTL_11B then t\<lparr>targetPowerCck := cap_all lim (targetPowerCck t)\<rparr>
      else if mode = CTL_11G then t\<lparr>targetPowerOfdm := cap_all lim (targetPowerOfdm t)\<rparr>
      else if mode = CTL_2GHT20 then t\<lparr>targetPowerHt20 := cap_all lim (targetPowerHt20 t)\<rparr>
      else if mode = CTL_11B_EXT then t\<lparr>targetPowerCckExt := cap_first lim (targetPowerCckExt t)\<rparr>
      else if mode = CTL_11G_EXT then t\<lparr>targetPowerOfdmExt := cap_first lim (targetPowerOfdmExt t)\<rparr>
      else if mode = CTL_2GHT40 then t\<lparr>targetPowerHt40 := cap_all lim (targetPowerHt40 t)\<rparr>
      else t)"

definition ctl_freq :: "chan_centers \<Rightarrow> u16 \<Rightarrow> u16" where
  "ctl_freq centers mode =
     (if mode = CTL_5GHT40 \<or> mode = CTL_2GHT40 then synth_center centers
      else if has_flag mode EXT_ADDITIVE then ext_center centers else ctl_center centers)"

fun ctl_modes_loop :: "(u16 \<Rightarrow> u16 option) \<Rightarrow> u16 \<Rightarrow> u16 list \<Rightarrow> rate_targets \<Rightarrow> rate_targets option" where
  \<comment> \<open>\<open>edge\<close> is \<open>twiceMaxEdgePower\<close> of a mode\<close>
  "ctl_modes_loop edge scaledPower [] t = Some t"
| "ctl_modes_loop edge scaledPower (mode # ms) t = do {
     twiceMax \<leftarrow> edge mode;
     ctl_modes_loop edge scaledPower ms (cap_mode mode (ucast (ucast (min twiceMax scaledPower) :: u8)) t) }"

definition ctlModesFor11g :: "u16 list" where
  "ctlModesFor11g = [CTL_11B, CTL_11G, CTL_2GHT20, CTL_11B_EXT, CTL_11G_EXT, CTL_2GHT40]"

definition mode_edge :: "bytes \<Rightarrow> nat \<Rightarrow> 'a ath9k_channel_scheme \<Rightarrow> u16 \<Rightarrow> u16 \<Rightarrow> u16 option" where
  "mode_edge m ntxchains chan cfgCtl mode =
     ctl_loop (eep_ctlIndex m)
       (\<lambda>i. map_option (\<lambda>es. ath9k_hw_get_max_edge_power (ctl_freq (ath9k_hw_get_channel_centers chan) mode) es
          (IS_CHAN_2GHZ chan) AR5416_EEP4K_NUM_BAND_EDGES) (eep_ctlEdges m i ntxchains))
       cfgCtl mode AR5416_EEP4K_NUM_CTLS 0 (word_of_nat MAX_RATE_POWER)"

definition target_powers_4k :: "bytes \<Rightarrow> 'a ath9k_channel_scheme \<Rightarrow> rate_targets option" where
  "target_powers_4k m chan = do {
     let z = (\<lambda>n. \<lparr>bChannel = 0, tPow2x = replicate n 0\<rparr>);
     cck \<leftarrow> ath9k_hw_get_legacy_target_powers chan (eep_target m 183 4) AR5416_NUM_2G_CCK_TARGET_POWERS (z 4) 4 False;
     ofdm \<leftarrow> ath9k_hw_get_legacy_target_powers chan (eep_target m 198 4) AR5416_NUM_2G_20_TARGET_POWERS (z 4) 4 False;
     ht20 \<leftarrow> ath9k_hw_get_target_powers chan (eep_target m 213 8) AR5416_NUM_2G_20_TARGET_POWERS (z 8) 8 False;
     if IS_CHAN_HT40 chan then do {
       ht40 \<leftarrow> ath9k_hw_get_target_powers chan (eep_target m 240 8) AR5416_NUM_2G_40_TARGET_POWERS (z 8) 8 True;
       cckExt \<leftarrow> ath9k_hw_get_legacy_target_powers chan (eep_target m 183 4) AR5416_NUM_2G_CCK_TARGET_POWERS (z 4) 4 True;
       ofdmExt \<leftarrow> ath9k_hw_get_legacy_target_powers chan (eep_target m 198 4) AR5416_NUM_2G_20_TARGET_POWERS (z 4) 4 True;
       Some \<lparr>targetPowerCck = tPow2x cck, targetPowerOfdm = tPow2x ofdm, targetPowerHt20 = tPow2x ht20, targetPowerHt40 = tPow2x ht40,
         targetPowerCckExt = tPow2x cckExt, targetPowerOfdmExt = tPow2x ofdmExt\<rparr> }
     else Some \<lparr>targetPowerCck = tPow2x cck, targetPowerOfdm = tPow2x ofdm, targetPowerHt20 = tPow2x ht20,
       targetPowerHt40 = replicate 8 0, targetPowerCckExt = replicate 4 0, targetPowerOfdmExt = replicate 4 0\<rparr> }"

definition rates_of :: "bool \<Rightarrow> rate_targets \<Rightarrow> u16 list" where
  \<comment> \<open>\<open>ratesArray\<close> in the order of \<open>enum ar5416_rates\<close>, zero before\<close>
  "rates_of ht40 t = map ucast
     (replicate 5 (targetPowerOfdm t ! 0) @ [targetPowerOfdm t ! 1, targetPowerOfdm t ! 2, targetPowerOfdm t ! 3] @
      [targetPowerCck t ! 0, targetPowerCck t ! 1, targetPowerCck t ! 1, targetPowerCck t ! 2, targetPowerCck t ! 2,
       targetPowerCck t ! 3, targetPowerCck t ! 3, targetPowerOfdm t ! 0] @
      map (\<lambda>i. targetPowerHt20 t ! i) [0..<8] @
      (if ht40 then map (\<lambda>i. targetPowerHt40 t ! i) [0..<8] @
         [targetPowerHt40 t ! 0, targetPowerHt40 t ! 0, targetPowerCckExt t ! 0, targetPowerOfdmExt t ! 0]
       else replicate 12 0))"

definition ath9k_hw_set_4k_power_per_rate_table ::
  "bytes \<Rightarrow> u8 \<Rightarrow> 'a ath9k_channel_scheme \<Rightarrow> u16 \<Rightarrow> u16 \<Rightarrow> u16 \<Rightarrow> u16 list option" where
  "ath9k_hw_set_4k_power_per_rate_table m txchainmask chan cfgCtl antenna_reduction powerLimit = do {
     t \<leftarrow> target_powers_4k m chan;
     t \<leftarrow> ctl_modes_loop (mode_edge m (ar5416_get_ntxchains txchainmask) chan cfgCtl) (powerLimit - antenna_reduction)
       (if IS_CHAN_HT40 chan then ctlModesFor11g else take 3 ctlModesFor11g) t;
     Some (rates_of (IS_CHAN_HT40 chan) t) }"

section \<open>Power calibration table\<close>

abbreviation (input) AR_PHY_TPCRG1 :: u32 where "AR_PHY_TPCRG1 \<equiv> 0xA258"
abbreviation (input) AR_PHY_TPCRG5 :: u32 where "AR_PHY_TPCRG5 \<equiv> 0xA26C"
abbreviation (input) AR_PHY_POWER_TX_RATE1 :: u32 where "AR_PHY_POWER_TX_RATE1 \<equiv> 0x9934"
abbreviation (input) AR_PHY_POWER_TX_RATE2 :: u32 where "AR_PHY_POWER_TX_RATE2 \<equiv> 0x9938"
abbreviation (input) AR_PHY_POWER_TX_RATE3 :: u32 where "AR_PHY_POWER_TX_RATE3 \<equiv> 0xA234"
abbreviation (input) AR_PHY_POWER_TX_RATE4 :: u32 where "AR_PHY_POWER_TX_RATE4 \<equiv> 0xA238"
abbreviation (input) AR_PHY_POWER_TX_RATE5 :: u32 where "AR_PHY_POWER_TX_RATE5 \<equiv> 0xA38C"
abbreviation (input) AR_PHY_POWER_TX_RATE6 :: u32 where "AR_PHY_POWER_TX_RATE6 \<equiv> 0xA390"
abbreviation (input) AR_PHY_POWER_TX_RATE7 :: u32 where "AR_PHY_POWER_TX_RATE7 \<equiv> 0xA3CC"
abbreviation (input) AR_PHY_POWER_TX_RATE8 :: u32 where "AR_PHY_POWER_TX_RATE8 \<equiv> 0xA3D0"
abbreviation (input) AR_PHY_POWER_TX_RATE9 :: u32 where "AR_PHY_POWER_TX_RATE9 \<equiv> 0xA3D4"

definition xpd_gains :: "u8 \<Rightarrow> u16 list" where
  \<comment> \<open>\<open>xpdGainValues\<close> up to \<open>numXpdGain\<close>: the bits of the mask from bit 3 down, two at most\<close>
  "xpd_gains xpdMask = take AR5416_EEP4K_NUM_PD_GAINS (map word_of_nat (filter (\<lambda>b. bit xpdMask b) [3, 2, 1, 0]))"

definition gain_reg5 :: "u16 \<Rightarrow> nat list \<Rightarrow> u32" where
  "gain_reg5 overlap bs =
     SM (ucast overlap) 0x0000000F 0 OR SM (word_of_nat (bs ! 0)) 0x000003F0 4 OR SM (word_of_nat (bs ! 1)) 0x0000FC00 10 OR
     SM (word_of_nat (bs ! 2)) 0x003F0000 16 OR SM (word_of_nat (bs ! 3)) 0x0FC00000 22"

definition pdadc_writes :: "bytes \<Rightarrow> reg_acc list" where
  "pdadc_writes vs = map (\<lambda>j. REG_WRITE (0x9800 + push_bit 2 672 + 4 * word_of_nat j)
     (le32 (vs ! (4 * j)) (vs ! (4 * j + 1)) (vs ! (4 * j + 2)) (vs ! (4 * j + 3)))) [0..<32]"

definition ath9k_hw_set_4k_power_cal_table ::
  "'s ath_ops \<Rightarrow> ath_hw \<Rightarrow> bytes \<Rightarrow> bytes list \<Rightarrow> 'a ath9k_channel_scheme \<Rightarrow> 's \<Rightarrow> 's option" where
  \<comment> \<open>\<open>tabs\<close> are the static tables of \<open>ath9k_hw_get_gain_boundaries_pdadcs\<close>; there is one chain\<close>
  "ath9k_hw_set_4k_power_cal_table ops ah m tabs chan s = do {
     (overlap, s) \<leftarrow> (if AR5416_EEP_MINOR_VER_2 \<le> (eep_version m AND 0xFFF) then Some (ucast (eep_pdGainOverlap m), s)
       else do { (v, s) \<leftarrow> op_read ops AR_PHY_TPCRG5 s; Some (ucast (MS v 0x0000000F 0), s) });
     let gains = xpd_gains (eep_xpdGain m);
     let num = length gains;
     let gain = (\<lambda>i. if i < num then ucast (gains ! i) else 0);
     s \<leftarrow> REG_RUN ops
       [REG_RMW_FIELD AR_PHY_TPCRG1 0x0000c000 14 ((word_of_nat num - 1) AND 0x3),
        REG_RMW_FIELD AR_PHY_TPCRG1 0x00030000 16 (gain 0),
        REG_RMW_FIELD AR_PHY_TPCRG1 0x000C0000 18 (gain 1),
        REG_RMW_FIELD AR_PHY_TPCRG1 0x00300000 20 0] s;
     if bit (eep_txMask m) 0 then do {
       (bs, vs) \<leftarrow> ath9k_hw_get_gain_boundaries_pdadcs ah chan (eep_calPierData2G m) (eep_calFreqPier2G m) 3 (unat overlap) num tabs;
       REG_RUN ops ([ENABLE_BUFFER, REG_WRITE AR_PHY_TPCRG5 (gain_reg5 overlap bs)] @ pdadc_writes vs @ [BUFFER_FLUSH]) s }
     else Some s }"

section \<open>Transmit power\<close>

definition ATH9K_POW_SM :: "u16 \<Rightarrow> nat \<Rightarrow> u32" where
  "ATH9K_POW_SM r sh = push_bit sh (ucast r AND 0x3f)"

definition pow_word :: "u16 \<Rightarrow> u16 \<Rightarrow> u16 \<Rightarrow> u16 \<Rightarrow> u32" where
  "pow_word a b c d = ATH9K_POW_SM a 24 OR ATH9K_POW_SM b 16 OR ATH9K_POW_SM c 8 OR ATH9K_POW_SM d 0"

definition power_writes :: "bool \<Rightarrow> u16 \<Rightarrow> u16 list \<Rightarrow> reg_acc list" where
  "power_writes ht40 inc r =
     [REG_WRITE AR_PHY_POWER_TX_RATE1 (pow_word (r ! 3) (r ! 2) (r ! 1) (r ! 0)),
      REG_WRITE AR_PHY_POWER_TX_RATE2 (pow_word (r ! 7) (r ! 6) (r ! 5) (r ! 4)),
      REG_WRITE AR_PHY_POWER_TX_RATE3 (pow_word (r ! 10) (r ! 9) (r ! 15) (r ! 8)),
      REG_WRITE AR_PHY_POWER_TX_RATE4 (pow_word (r ! 14) (r ! 13) (r ! 12) (r ! 11)),
      REG_WRITE AR_PHY_POWER_TX_RATE5 (pow_word (r ! 19) (r ! 18) (r ! 17) (r ! 16)),
      REG_WRITE AR_PHY_POWER_TX_RATE6 (pow_word (r ! 23) (r ! 22) (r ! 21) (r ! 20))] @
     (if ht40 then
       [REG_WRITE AR_PHY_POWER_TX_RATE7 (pow_word (r ! 27 + inc) (r ! 26 + inc) (r ! 25 + inc) (r ! 24 + inc)),
        REG_WRITE AR_PHY_POWER_TX_RATE8 (pow_word (r ! 31 + inc) (r ! 30 + inc) (r ! 29 + inc) (r ! 28 + inc)),
        REG_WRITE AR_PHY_POWER_TX_RATE9 (pow_word (r ! 35) (r ! 34) (r ! 33) (r ! 32))]
      else [])"

definition cap_rate :: "u16 \<Rightarrow> u16" where
  "cap_rate r = (if sint r > int MAX_RATE_POWER then word_of_nat MAX_RATE_POWER else r)"

definition ath9k_hw_4k_set_txpower ::
  "'s ath_ops \<Rightarrow> ath_hw \<Rightarrow> u8 \<Rightarrow> bytes \<Rightarrow> bytes list \<Rightarrow> 'a ath9k_channel_scheme \<Rightarrow> u16 \<Rightarrow> u8 \<Rightarrow> u8 \<Rightarrow> bool \<Rightarrow>
     ath_regulatory \<Rightarrow> 's \<Rightarrow> (ath_regulatory \<times> 's) option" where
  "ath9k_hw_4k_set_txpower ops ah txchainmask m tabs chan cfgCtl twiceAntennaReduction powerLimit test reg s = do {
     let inc = (if AR5416_EEP_MINOR_VER_2 \<le> (eep_version m AND 0xFFF) then eep_ht40PowerInc m else 2);
     rates \<leftarrow> ath9k_hw_set_4k_power_per_rate_table m txchainmask chan cfgCtl (ucast twiceAntennaReduction) (ucast powerLimit);
     s \<leftarrow> ath9k_hw_set_4k_power_cal_table ops ah m tabs chan s;
     let rates = map cap_rate rates;
     let reg = reg\<lparr>max_power_level := foldl (\<lambda>mx r. if sint r > uint mx then r else mx) 0 rates\<rparr>;
     if test then Some (reg, s)
     else do {
       let rates = map (\<lambda>r. r - word_of_int (AR5416_PWR_TABLE_OFFSET_DB * 2)) rates;
       s \<leftarrow> REG_RUN ops ([ENABLE_BUFFER] @ power_writes (IS_CHAN_HT40 chan) (ucast inc) rates @ [BUFFER_FLUSH]) s;
       Some (reg, s) } }"

section \<open>The power limit (\<open>hw.c\<close>)\<close>

record chan_power =
  \<comment> \<open>the power fields of \<open>struct ieee80211_channel\<close>\<close>
  chan_max_power :: int
  chan_max_antenna_gain :: int

definition IS_CHAN_B :: "'a ath9k_channel_scheme \<Rightarrow> bool" where
  "IS_CHAN_B c \<longleftrightarrow> chanmode c = 0xA0"

definition IS_CHAN_G :: "'a ath9k_channel_scheme \<Rightarrow> bool" where
  "IS_CHAN_G c \<longleftrightarrow> list_ex (\<lambda>f. channelFlags c AND f = f)
     [CHANNEL_2GHZ OR CHANNEL_OFDM, CHANNEL_2GHZ OR CHANNEL_HT20, CHANNEL_2GHZ OR CHANNEL_HT40PLUS, CHANNEL_2GHZ OR CHANNEL_HT40MINUS]"

definition band_no :: "ieee80211_band \<Rightarrow> nat" where
  "band_no b = (case b of BAND_2GHZ \<Rightarrow> 0 | BAND_5GHZ \<Rightarrow> 1 | BAND_60GHZ \<Rightarrow> 2)"

definition ath9k_regd_get_ctl :: "ath_regulatory \<Rightarrow> 'a ath9k_channel_scheme \<Rightarrow> u32" where
  "ath9k_regd_get_ctl reg chan = ath_regd_get_band_ctl reg (band_no (ch_band (ic_chan chan))) OR
     (if IS_CHAN_B chan then ucast CTL_11B else if IS_CHAN_G chan then ucast CTL_11G else ucast CTL_11A)"

definition get_antenna_gain :: "bytes \<Rightarrow> 'a ath9k_channel_scheme \<Rightarrow> int" where
  "get_antenna_gain m chan = sint (ath9k_hw_4k_get_eeprom m (if IS_CHAN_2GHZ chan then EEP_ANTENNA_GAIN_2G else EEP_ANTENNA_GAIN_5G))"

definition ath9k_hw_apply_txpower ::
  "'s ath_ops \<Rightarrow> ath_hw \<Rightarrow> u8 \<Rightarrow> bytes \<Rightarrow> bytes list \<Rightarrow> 'a ath9k_channel_scheme option \<Rightarrow> chan_power \<Rightarrow> bool \<Rightarrow>
     ath_regulatory \<Rightarrow> 's \<Rightarrow> (ath_regulatory \<times> 's) option" where
  "ath9k_hw_apply_txpower ops ah txchainmask m tabs chan cp test reg s = (case chan of
       None \<Rightarrow> Some (reg, s)
     | Some chan \<Rightarrow>
         (let chan_pwr = min (chan_max_power cp * 2) (int MAX_RATE_POWER);
              new_pwr = min chan_pwr (power_limit reg);
              max_gain = chan_pwr - new_pwr + chan_max_antenna_gain cp * 2;
              ant_gain = get_antenna_gain m chan;
              ant_reduction = (if ant_gain > max_gain then ant_gain - max_gain else 0) in
          ath9k_hw_4k_set_txpower ops ah txchainmask m tabs chan (ucast (ath9k_regd_get_ctl reg chan))
            (word_of_int ant_reduction) (word_of_int new_pwr) test reg s))"

definition ath9k_hw_set_txpowerlimit ::
  "'s ath_ops \<Rightarrow> ath_hw \<Rightarrow> u8 \<Rightarrow> bytes \<Rightarrow> bytes list \<Rightarrow> 'a ath9k_channel_scheme \<Rightarrow> u32 \<Rightarrow> bool \<Rightarrow>
     chan_power \<Rightarrow> ath_regulatory \<Rightarrow> 's \<Rightarrow> (chan_power \<times> ath_regulatory \<times> 's) option" where
  "ath9k_hw_set_txpowerlimit ops ah txchainmask m tabs cur limit test cp reg s = do {
     let reg = reg\<lparr>power_limit := int (unat (min limit (word_of_nat MAX_RATE_POWER)))\<rparr>;
     let cp = (if test then cp\<lparr>chan_max_power := int MAX_RATE_POWER div 2\<rparr> else cp);
     (reg, s) \<leftarrow> ath9k_hw_apply_txpower ops ah txchainmask m tabs (Some cur) cp test reg s;
     let cp = (if test then cp\<lparr>chan_max_power := (uint (max_power_level reg) + 1) div 2\<rparr> else cp);
     Some (cp, reg, s) }"

section \<open>Target powers are found\<close>

lemma target_search_total:
  assumes "\<And>j. j < i + n \<Longrightarrow> powInfo j \<noteq> None" and "i = 0 \<Longrightarrow> 0 < n \<and> bChannel (the (powInfo 0)) \<noteq> AR5416_BCHAN_UNUSED"
  shows "\<exists>mi li. target_search freq is2 powInfo n i = Some (mi, li) \<and>
    (0 \<le> mi \<and> mi < int (i + n) \<or> mi = - 1 \<and> 0 \<le> li \<and> li + 1 < int (i + n))"
  using assms
proof (induction n arbitrary: i)
  case (Suc n)
  obtain e where e: "powInfo i = Some e" using Suc.prems(1) [of i] by auto
  have rest: "\<exists>mi li. target_search freq is2 powInfo n (i + 1) = Some (mi, li) \<and>
    (0 \<le> mi \<and> mi < int (i + Suc n) \<or> mi = - 1 \<and> 0 \<le> li \<and> li + 1 < int (i + Suc n))"
    using Suc.IH [of "i + 1"] Suc.prems(1) by auto
  consider "bChannel e = AR5416_BCHAN_UNUSED" "0 < i" | "bChannel e \<noteq> AR5416_BCHAN_UNUSED"
    using Suc.prems(2) e by (cases "i = 0") auto
  then show ?case
  proof cases
    case 2
    have "powInfo (i - 1) \<noteq> None" by (rule Suc.prems(1)) simp
    then obtain d where "powInfo (i - 1) = Some d" by blast
    then show ?thesis using e 2 rest by auto
  qed (use e in auto)
qed auto

lemma new_target_total:
  assumes "\<And>j. j < n \<Longrightarrow> \<exists>e. powInfo j = Some e \<and> length (tPow2x e) = k" and "0 < n"
    and "bChannel (the (powInfo 0)) \<noteq> AR5416_BCHAN_UNUSED" and "length (tPow2x new) = k"
  shows "\<exists>e. new_target_power freq is2 powInfo n k new = Some e \<and> length (tPow2x e) = k"
proof -
  obtain e where e: "powInfo 0 = Some e" using assms(1) [OF assms(2)] by auto
  have "\<exists>mi li. (if freq \<le> ath9k_hw_fbin2freq (bChannel e) is2 then Some (0, - 1) else target_search freq is2 powInfo n 0) = Some (mi, li) \<and>
    (0 \<le> mi \<and> mi < int n \<or> mi = - 1 \<and> 0 \<le> li \<and> li + 1 < int n)"
    using target_search_total [of 0 n powInfo freq is2] assms(1-3) by fastforce
  then obtain mi li where m: "(if freq \<le> ath9k_hw_fbin2freq (bChannel e) is2 then Some (0, - 1) else target_search freq is2 powInfo n 0) = Some (mi, li)"
    "0 \<le> mi \<and> mi < int n \<or> mi = - 1 \<and> 0 \<le> li \<and> li + 1 < int n" by blast
  have at: "\<exists>e. target_at powInfo j = Some e \<and> length (tPow2x e) = k" if "0 \<le> j" "j < int n" for j
    using assms(1) [of "nat j"] that by (auto simp: target_at_def)
  from m(2) show ?thesis
  proof
    assume "0 \<le> mi \<and> mi < int n"
    then show ?thesis using at [of mi] unfolding new_target_power_def e bind.bind_lunit m(1) prod.case by auto
  next
    assume l: "mi = - 1 \<and> 0 \<le> li \<and> li + 1 < int n"
    then obtain a b where "target_at powInfo li = Some a" "length (tPow2x a) = k" "target_at powInfo (li + 1) = Some b" "length (tPow2x b) = k"
      using at [of li] at [of "li + 1"] by auto
    then show ?thesis using l assms(4) unfolding new_target_power_def e bind.bind_lunit m(1) prod.case by auto
  qed
qed

lemma eep_target_total:
  assumes "base + (k + 1) * n \<le> length m" and "j < n"
  shows "\<exists>e. eep_target m base k j = Some e \<and> length (tPow2x e) = k" "bChannel (the (eep_target m base k 0)) = m ! base"
proof -
  have le: "base + (k + 1) * j + (k + 1) \<le> length m"
    using assms mult_le_mono2 [of "Suc j" n "k + 1"] by simp
  then show "\<exists>e. eep_target m base k j = Some e \<and> length (tPow2x e) = k" by (simp add: eep_target_def read_bytes_def)
  show "bChannel (the (eep_target m base k 0)) = m ! base"
    using assms mult_le_mono2 [of 1 n "k + 1"] by (simp add: eep_target_def read_bytes_def hd_drop_conv_nth)
qed

definition targets_used :: "bytes \<Rightarrow> bool" where
  \<comment> \<open>each list of target powers has at least one entry\<close>
  "targets_used m \<longleftrightarrow> m ! 183 \<noteq> 0xFF \<and> m ! 198 \<noteq> 0xFF \<and> m ! 213 \<noteq> 0xFF \<and> m ! 240 \<noteq> 0xFF"

lemma target_powers_total:
  assumes "length m = 376" and "targets_used m"
  shows "\<exists>t. target_powers_4k m chan = Some t \<and> length (targetPowerCck t) = 4 \<and> length (targetPowerOfdm t) = 4 \<and>
    length (targetPowerHt20 t) = 8 \<and> length (targetPowerHt40 t) = 8 \<and> length (targetPowerCckExt t) = 4 \<and> length (targetPowerOfdmExt t) = 4"
proof -
  have t: "\<exists>e. new_target_power freq is2 (eep_target m base k) n k \<lparr>bChannel = 0, tPow2x = replicate k 0\<rparr> = Some e \<and> length (tPow2x e) = k"
    if "0 < n" "base + (k + 1) * n \<le> 376" "m ! base \<noteq> 0xFF" for freq is2 base k n
    by (rule new_target_total) (use that eep_target_total [of base k n m] assms(1) in auto)
  have u: "m ! 183 \<noteq> 0xFF" "m ! 198 \<noteq> 0xFF" "m ! 213 \<noteq> 0xFF" "m ! 240 \<noteq> 0xFF" using assms(2) by (simp_all add: targets_used_def)
  have l: "\<exists>e. ath9k_hw_get_legacy_target_powers chan (eep_target m 183 4) 3 \<lparr>bChannel = 0, tPow2x = replicate 4 0\<rparr> 4 x = Some e \<and> length (tPow2x e) = 4"
    "\<exists>e. ath9k_hw_get_legacy_target_powers chan (eep_target m 198 4) 4 \<lparr>bChannel = 0, tPow2x = replicate 4 0\<rparr> 4 x = Some e \<and> length (tPow2x e) = 4"
    "\<exists>e. ath9k_hw_get_target_powers chan (eep_target m 213 8) 4 \<lparr>bChannel = 0, tPow2x = replicate 8 0\<rparr> 8 x = Some e \<and> length (tPow2x e) = 8"
    "\<exists>e. ath9k_hw_get_target_powers chan (eep_target m 240 8) 4 \<lparr>bChannel = 0, tPow2x = replicate 8 0\<rparr> 8 x = Some e \<and> length (tPow2x e) = 8" for x
    unfolding ath9k_hw_get_legacy_target_powers_def ath9k_hw_get_target_powers_def Let_def by (rule t; use u in simp)+
  obtain c o' h where s: "ath9k_hw_get_legacy_target_powers chan (eep_target m 183 4) 3 \<lparr>bChannel = 0, tPow2x = replicate 4 0\<rparr> 4 False = Some c"
    "length (tPow2x c) = 4" "ath9k_hw_get_legacy_target_powers chan (eep_target m 198 4) 4 \<lparr>bChannel = 0, tPow2x = replicate 4 0\<rparr> 4 False = Some o'"
    "length (tPow2x o') = 4" "ath9k_hw_get_target_powers chan (eep_target m 213 8) 4 \<lparr>bChannel = 0, tPow2x = replicate 8 0\<rparr> 8 False = Some h"
    "length (tPow2x h) = 8" using l(1-3) [of False] by blast
  obtain h4 ce oe where x: "ath9k_hw_get_target_powers chan (eep_target m 240 8) 4 \<lparr>bChannel = 0, tPow2x = replicate 8 0\<rparr> 8 True = Some h4"
    "length (tPow2x h4) = 8" "ath9k_hw_get_legacy_target_powers chan (eep_target m 183 4) 3 \<lparr>bChannel = 0, tPow2x = replicate 4 0\<rparr> 4 True = Some ce"
    "length (tPow2x ce) = 4" "ath9k_hw_get_legacy_target_powers chan (eep_target m 198 4) 4 \<lparr>bChannel = 0, tPow2x = replicate 4 0\<rparr> 4 True = Some oe"
    "length (tPow2x oe) = 4" using l(1,2,4) [of True] by blast
  show ?thesis
    unfolding target_powers_4k_def Let_def s(1,3,5) x(1,3,5) bind.bind_lunit using s(2,4,6) x(2,4,6) by simp
qed

section \<open>Edge powers\<close>

lemma ctl_edge_le: "CTL_EDGE_TPOWER c \<le> 63"
proof -
  have "uint (c AND 0x3f) \<le> 63" using word_and_le1 [of c "0x3f"] by (simp add: word_le_def)
  then show ?thesis by (simp add: CTL_EDGE_TPOWER_def word_le_def unsigned_ucast_eq take_bit_int_eq_self)
qed

lemma edge_loop_le: "edge_loop freq is2 prev es \<le> 63"
  by (induction freq is2 prev es rule: edge_loop.induct) (auto simp: ctl_edge_le split: option.splits)

lemma ctl_loop_le:
  assumes "ctl_loop ci edge cfgCtl mode n i acc = Some e" and "acc \<le> 63" and "\<And>i e. edge i = Some e \<Longrightarrow> e \<le> 63"
  shows "e \<le> 63"
  using assms
proof (induction n arbitrary: i acc)
  case (Suc n)
  then show ?case by (fastforce simp: min_def split: if_splits bind_splits)
qed simp

lemma ctl_loop_total:
  assumes "\<And>j. j < i + n \<Longrightarrow> edge j \<noteq> None"
  shows "ctl_loop ci edge cfgCtl mode n i acc \<noteq> None"
  using assms
proof (induction n arbitrary: i acc)
  case (Suc n)
  obtain e where "edge i = Some e" using Suc.prems [of i] by auto
  then show ?case using Suc.IH [of "i + 1"] Suc.prems by simp
qed simp

lemma mode_edge_le: "mode_edge m n chan cfgCtl mode = Some e \<Longrightarrow> e \<le> 63"
  unfolding mode_edge_def by (erule ctl_loop_le) (auto simp: ath9k_hw_get_max_edge_power_def edge_loop_le)

lemma mode_edge_total:
  assumes "length m = 376"
  shows "\<exists>e. mode_edge m 1 chan cfgCtl mode = Some e"
proof -
  have "eep_ctlEdges m j 1 \<noteq> None" if "j < 12" for j using that assms by (simp add: eep_ctlEdges_def read_bytes_def)
  then show ?thesis unfolding mode_edge_def by (intro not_None_eq [THEN iffD1] ctl_loop_total) auto
qed

section \<open>Rates stay below the limit\<close>

lemma u16_small: "(w :: u16) \<le> 255 \<Longrightarrow> (ucast (ucast w :: u8) :: u16) = w"
proof -
  assume "w \<le> 255"
  then have "uint w < 2 ^ 8" by (simp add: word_le_def)
  then have "take_bit 8 (uint w) = uint w" by (simp add: take_bit_int_eq_self)
  moreover have "uint (ucast (ucast w :: u8) :: u16) = take_bit 8 (uint w)" by (simp add: unsigned_ucast_eq unsigned_take_bit_eq)
  ultimately show ?thesis by (simp only: word_uint_eq_iff)
qed

lemma min_u8: "min (ucast (p :: u8)) lim \<le> (255 :: u16)"
proof -
  have "(ucast p :: u16) \<le> 255" using uint_bounded [of p] by (simp add: word_le_def unsigned_ucast_eq take_bit_int_eq_self)
  then show ?thesis by (simp add: min_le_iff_disj)
qed

lemma cap_all_nth: "i < length ps \<Longrightarrow> (ucast (cap_all lim ps ! i) :: u16) \<le> lim"
  by (simp add: cap_all_def u16_small [OF min_u8])

lemma cap_first_nth: "0 < length ps \<Longrightarrow> (ucast (cap_first lim ps ! 0) :: u16) \<le> lim"
  by (simp add: cap_first_def u16_small [OF min_u8])

lemma cap_lengths [simp]: "length (cap_all lim ps) = length ps" "length (cap_first lim ps) = length ps"
  by (simp_all add: cap_all_def cap_first_def)

lemma modes_loop_capped:
  assumes "\<And>mode. \<exists>e. edge mode = Some e \<and> e \<le> 63"
    and "length (targetPowerCck t) = 4" and "length (targetPowerOfdm t) = 4" and "length (targetPowerHt20 t) = 8"
    and "length (targetPowerHt40 t) = 8" and "length (targetPowerCckExt t) = 4" and "length (targetPowerOfdmExt t) = 4"
  shows "\<exists>t'. ctl_modes_loop edge lim (if ht40 then ctlModesFor11g else take 3 ctlModesFor11g) t = Some t' \<and>
    (\<forall>r\<in>set (rates_of ht40 t'). r \<le> min 63 lim)"
proof -
  define l where "l = (\<lambda>mode. min (the (edge mode)) lim)"
  have e: "edge mode = Some (the (edge mode))" "l mode \<le> min 63 lim" "ucast (ucast (l mode) :: u8) = l mode" for mode
  proof -
    obtain e where e: "edge mode = Some e" "e \<le> 63" using assms(1) by blast
    then show "edge mode = Some (the (edge mode))" "l mode \<le> min 63 lim" by (auto simp: l_def min_def)
    have "min e lim \<le> 255" by (rule min.coboundedI1) (rule order_trans [OF e(2)], simp)
    then show "ucast (ucast (l mode) :: u8) = l mode" using e(1) by (simp add: l_def u16_small)
  qed
  define t3 where "t3 = t\<lparr>targetPowerCck := cap_all (l 1) (targetPowerCck t), targetPowerOfdm := cap_all (l 2) (targetPowerOfdm t),
    targetPowerHt20 := cap_all (l 5) (targetPowerHt20 t)\<rparr>"
  define t6 where "t6 = t3\<lparr>targetPowerHt40 := cap_all (l 7) (targetPowerHt40 t),
    targetPowerCckExt := cap_first (l 0x8001) (targetPowerCckExt t), targetPowerOfdmExt := cap_first (l 0x8002) (targetPowerOfdmExt t)\<rparr>"
  have step: "ctl_modes_loop edge lim (mode # ms) u = ctl_modes_loop edge lim ms (cap_mode mode (l mode) u)" for mode ms u
    using e(1,3) [of mode] by (metis bind.bind_lunit ctl_modes_loop.simps(2) l_def)
  have r: "ctl_modes_loop edge lim (if ht40 then ctlModesFor11g else take 3 ctlModesFor11g) t = Some (if ht40 then t6 else t3)"
    by (simp add: ctlModesFor11g_def step cap_mode_def t3_def t6_def del: ctl_modes_loop.simps(2))
  have all: "(ucast (cap_all (l mode) ps ! i) :: u16) \<le> min 63 lim" if "i < length ps" for mode ps i
    by (rule order_trans [OF cap_all_nth [OF that] e(2)])
  have fst': "(ucast (cap_first (l mode) ps ! 0) :: u16) \<le> min 63 lim" if "0 < length ps" for mode ps
    by (rule order_trans [OF cap_first_nth [OF that] e(2)])
  have "\<forall>r\<in>set (rates_of ht40 (if ht40 then t6 else t3)). r \<le> min 63 lim"
    using assms(2-5) all fst' [of "targetPowerCckExt t"] fst' [of "targetPowerOfdmExt t"] assms(6,7)
    by (auto simp: rates_of_def t3_def t6_def simp del: min_less_iff_conj min.bounded_iff)
  then show ?thesis using r by blast
qed

lemma power_per_rate_total:
  assumes "length m = 376" and "targets_used m" and "ar5416_get_ntxchains txchainmask = 1"
  shows "\<exists>rates. ath9k_hw_set_4k_power_per_rate_table m txchainmask chan cfgCtl antenna_reduction powerLimit = Some rates \<and>
    length rates = 36 \<and> (\<forall>r\<in>set rates. r \<le> min 63 (powerLimit - antenna_reduction))"
proof -
  obtain t where t: "target_powers_4k m chan = Some t" and l: "length (targetPowerCck t) = 4" "length (targetPowerOfdm t) = 4"
    "length (targetPowerHt20 t) = 8" "length (targetPowerHt40 t) = 8" "length (targetPowerCckExt t) = 4" "length (targetPowerOfdmExt t) = 4"
    using target_powers_total [OF assms(1,2), of chan] by blast
  have e: "\<exists>e. mode_edge m 1 chan cfgCtl mode = Some e \<and> e \<le> 63" for mode
    using mode_edge_total [OF assms(1), of chan cfgCtl mode] mode_edge_le by blast
  obtain t' where "ctl_modes_loop (mode_edge m 1 chan cfgCtl) (powerLimit - antenna_reduction)
      (if IS_CHAN_HT40 chan then ctlModesFor11g else take 3 ctlModesFor11g) t = Some t'"
    "\<forall>r\<in>set (rates_of (IS_CHAN_HT40 chan) t'). r \<le> min 63 (powerLimit - antenna_reduction)"
    using modes_loop_capped [of "mode_edge m 1 chan cfgCtl", OF e l] by blast
  moreover have "length (rates_of h t') = 36" for h by (simp add: rates_of_def)
  ultimately show ?thesis
    by (simp only: ath9k_hw_set_4k_power_per_rate_table_def t assms(3) bind.bind_lunit) blast
qed

lemma modes_loop_cong:
  assumes "\<And>mode e. edge mode = Some e \<Longrightarrow> e \<le> a \<and> e \<le> b"
  shows "ctl_modes_loop edge a ms t = ctl_modes_loop edge b ms t"
proof (induction ms arbitrary: t)
  case (Cons mode ms)
  show ?case
  proof (cases "edge mode")
    case (Some e)
    then have "min e a = min e b" using assms [OF Some] by (simp add: min_def)
    then show ?thesis using Some Cons.IH by simp
  qed simp
qed simp

text \<open>An antenna reduction above the power limit lifts the limit: the difference wraps around in 16 bits, and every rate gets
  the power it would have with the largest limit and no reduction at all.\<close>

theorem reduction_above_limit:
  assumes "powerLimit < antenna_reduction" and "antenna_reduction \<le> 255"
  shows "ath9k_hw_set_4k_power_per_rate_table m txchainmask chan cfgCtl antenna_reduction powerLimit =
    ath9k_hw_set_4k_power_per_rate_table m txchainmask chan cfgCtl 0 63"
proof -
  define d where "d = uint powerLimit - uint antenna_reduction"
  have "uint powerLimit < uint antenna_reduction" "uint antenna_reduction \<le> 255" using assms by (simp_all add: word_less_def word_le_def)
  then have d: "d < 0" "- 255 \<le> d" using uint_ge_0 [of powerLimit] unfolding d_def by linarith+
  have "d mod 65536 = (d + 65536) mod 65536" by simp
  also have "\<dots> = d + 65536" using d by (intro mod_pos_pos_trivial) simp_all
  finally have "uint (powerLimit - antenna_reduction) = d + 65536" by (simp add: uint_word_ariths d_def)
  then have "63 \<le> powerLimit - antenna_reduction"
    using d by (simp add: word_le_def)
  then have "ctl_modes_loop (mode_edge m n chan cfgCtl) (powerLimit - antenna_reduction) ms t =
      ctl_modes_loop (mode_edge m n chan cfgCtl) (63 - 0) ms t" for n ms t
    by (intro modes_loop_cong) (auto dest!: mode_edge_le)
  then show ?thesis by (simp only: ath9k_hw_set_4k_power_per_rate_table_def)
qed

text \<open>The powers of the rates respect the limits. On a map with target powers, and with one chain, the table is always computed
  and each of its 36 powers is at most 63 half decibels, at most the limit less the antenna reduction when the reduction is
  not above the limit.\<close>

theorem rates_within_limit:
  assumes "length m = 376" and "targets_used m" and "ar5416_get_ntxchains txchainmask = 1" and "antenna_reduction \<le> powerLimit"
  shows "\<exists>rates. ath9k_hw_set_4k_power_per_rate_table m txchainmask chan cfgCtl antenna_reduction powerLimit = Some rates \<and>
    length rates = 36 \<and> (\<forall>r\<in>set rates. unat r \<le> 63 \<and> unat r \<le> unat powerLimit - unat antenna_reduction)"
proof -
  obtain rates where r: "ath9k_hw_set_4k_power_per_rate_table m txchainmask chan cfgCtl antenna_reduction powerLimit = Some rates"
    "length rates = 36" "\<forall>r\<in>set rates. r \<le> min 63 (powerLimit - antenna_reduction)"
    using power_per_rate_total [OF assms(1-3)] by blast
  have "unat (powerLimit - antenna_reduction) = unat powerLimit - unat antenna_reduction" using assms(4) by (simp add: unat_sub)
  moreover have "\<forall>r\<in>set rates. r \<le> 63 \<and> r \<le> powerLimit - antenna_reduction" using r(3) by simp
  ultimately show ?thesis using r(1,2) by (auto simp: word_le_nat_alt)
qed

section \<open>Registers of the power table\<close>

lemma masks: "(0x3f :: u16) = mask 6" "(0x3f :: u32) = mask 6" "(0xff :: u32) = mask 8"
  by (simp_all add: mask_eq_exp_minus_1)

lemma pow_word_fields:
  "pow_word a b c d AND 0xff = ucast (d AND 0x3f)" "drop_bit 8 (pow_word a b c d) AND 0xff = ucast (c AND 0x3f)"
  "drop_bit 16 (pow_word a b c d) AND 0xff = ucast (b AND 0x3f)" "drop_bit 24 (pow_word a b c d) AND 0xff = ucast (a AND 0x3f)"
  by (rule bit_word_eqI; auto simp: pow_word_def ATH9K_POW_SM_def masks bit_simps)+

lemma pow_mod: "unat (r :: u16) \<le> 63 \<Longrightarrow> unat ((r - word_of_int (- 10)) AND 0x3f) = (unat r + 10) mod 64"
proof -
  assume r: "unat r \<le> 63"
  have "r - word_of_int (- 10) = r + 10" by simp
  moreover have u: "unat (r + 10) = unat r + 10" using r by (simp add: unat_word_ariths)
  have "unat (take_bit 6 (r + 10)) = take_bit 6 (unat r + 10)" by (simp only: unsigned_take_bit_eq u)
  then have "unat ((r + 10) AND 0x3f) = (unat r + 10) mod 64"
    unfolding masks take_bit_eq_mask [symmetric] by (simp only: take_bit_eq_mod [of _ "unat r + 10"]) simp
  ultimately show ?thesis by simp
qed

lemma pow_field: "unat (r :: u16) \<le> 53 \<Longrightarrow> unat (ucast ((r - word_of_int (- 10)) AND 0x3f) :: u32) = unat r + 10"
  using pow_mod [of r] by (simp add: unsigned_ucast_eq take_bit_nat_eq_self)

lemma cap_rate_small: "r \<le> 63 \<Longrightarrow> cap_rate r = r"
proof -
  assume "r \<le> 63"
  then have "uint r \<le> 63" by (simp add: word_le_def)
  then have "sint r = uint r" by (simp add: sint_uint signed_take_bit_int_eq_self order_trans [OF _ uint_ge_0])
  then show ?thesis using \<open>uint r \<le> 63\<close> by (simp add: cap_rate_def)
qed

definition map4k_ok :: "bytes \<Rightarrow> bool" where
  \<comment> \<open>target powers, calibrated gains and overlapping calibration curves\<close>
  "map4k_ok m \<longleftrightarrow> length m = 376 \<and> targets_used m \<and> xpd_gains (eep_xpdGain m) \<noteq> [] \<and> 0 < count_piers (eep_calFreqPier2G m) 3 \<and>
     pd_ok (eep_calPierData2G m) (count_piers (eep_calFreqPier2G m) 3) (length (xpd_gains (eep_xpdGain m)))"

definition tables_ok :: "bytes list \<Rightarrow> bool" where
  "tables_ok tabs \<longleftrightarrow> length tabs = 4 \<and> (\<forall>t\<in>set tabs. length t = 64)"

definition power_fields :: "(u32 \<times> nat \<times> nat) list" where
  \<comment> \<open>register, bit offset and index of the rate\<close>
  "power_fields =
     [(0x9934, 24, 3), (0x9934, 16, 2), (0x9934, 8, 1), (0x9934, 0, 0), (0x9938, 24, 7), (0x9938, 16, 6), (0x9938, 8, 5), (0x9938, 0, 4),
      (0xA234, 24, 10), (0xA234, 16, 9), (0xA234, 8, 15), (0xA234, 0, 8), (0xA238, 24, 14), (0xA238, 16, 13), (0xA238, 8, 12), (0xA238, 0, 11),
      (0xA38C, 24, 19), (0xA38C, 16, 18), (0xA38C, 8, 17), (0xA38C, 0, 16), (0xA390, 24, 23), (0xA390, 16, 22), (0xA390, 8, 21), (0xA390, 0, 20)]"

lemma gain_boundaries_some:
  assumes "map4k_ok m" and "tables_ok tabs" and "\<not> AR_SREV_9287 ah"
  shows "\<exists>bs vs. ath9k_hw_get_gain_boundaries_pdadcs ah chan (eep_calPierData2G m) (eep_calFreqPier2G m) 3 ov
    (length (xpd_gains (eep_xpdGain m))) tabs = Some (bs, vs) \<and> length bs = 4 \<and> length vs = 128"
proof -
  have "length (xpd_gains x) \<le> 4" for x by (simp add: xpd_gains_def)
  then show ?thesis
    using gain_boundaries_ok [OF assms(3), of "length (xpd_gains (eep_xpdGain m))" tabs "eep_calFreqPier2G m" 3 "eep_calPierData2G m" chan ov]
      assms(1,2) by (auto simp: map4k_ok_def tables_ok_def)
qed

lemma direct_power_fields:
  fixes r :: "u16 list" and m :: "u32 \<Rightarrow> u32" and h inc
  defines "P \<equiv> rw_direct ([ENABLE_BUFFER] @ power_writes h inc (map (\<lambda>x. x - word_of_int (- 10)) r) @ [BUFFER_FLUSH]) m"
  assumes "length r = 36" and "\<forall>x\<in>set r. unat x \<le> 53" and "(reg, sh, i) \<in> set power_fields"
  shows "unat (drop_bit sh (P reg) AND 0xff) = unat (r ! i) + 10"
proof -
  define q where "q = map (\<lambda>x. x - word_of_int (- 10)) r"
  have regs: "P 0x9934 = pow_word (q ! 3) (q ! 2) (q ! 1) (q ! 0)" "P 0x9938 = pow_word (q ! 7) (q ! 6) (q ! 5) (q ! 4)"
    "P 0xA234 = pow_word (q ! 10) (q ! 9) (q ! 15) (q ! 8)" "P 0xA238 = pow_word (q ! 14) (q ! 13) (q ! 12) (q ! 11)"
    "P 0xA38C = pow_word (q ! 19) (q ! 18) (q ! 17) (q ! 16)" "P 0xA390 = pow_word (q ! 23) (q ! 22) (q ! 21) (q ! 20)"
    unfolding P_def q_def [symmetric] by (simp_all add: power_writes_def)
  have f: "unat (ucast ((q ! j) AND 0x3f) :: u32) = unat (r ! j) + 10" if "j < 36" for j
  proof -
    have "q ! j = r ! j - word_of_int (- 10)" "unat (r ! j) \<le> 53" using that assms(2,3) by (simp_all add: q_def)
    then show ?thesis using pow_field by simp
  qed
  show ?thesis using assms(4)
    by (auto simp: power_fields_def regs pow_word_fields f)
qed

lemma write_accs:
  "acc_ok (Suc n) (map (\<lambda>j. REG_WRITE (f j) (g j)) xs @ [BUFFER_FLUSH])"
  "no_stale (Suc n) P (map (\<lambda>j. REG_WRITE (f j) (g j)) xs @ [BUFFER_FLUSH])"
  "acc_depth (Suc n) (map (\<lambda>j. REG_WRITE (f j) (g j)) xs @ [BUFFER_FLUSH]) = n"
  by (induction xs arbitrary: P) auto

context ath_regs_buf
begin

lemma run_idle:
  assumes "ok s" and "depth s = 0" and "length ps < cap" and "acc_ok 0 ps" and "no_stale 0 {} ps" and "acc_depth 0 ps = 0"
  shows "\<exists>s'. REG_RUN ops ps s = Some s' \<and> ok s' \<and> depth s' = 0 \<and> mem s' = rw_direct ps (mem s)"
  by (rule run_direct [OF assms]) blast

lemma cal_table_run:
  assumes "ok s" and "depth s = 0" and "40 < cap" and "map4k_ok m" and "tables_ok tabs" and "\<not> AR_SREV_9287 ah"
  shows "\<exists>s'. ath9k_hw_set_4k_power_cal_table ops ah m tabs chan s = Some s' \<and> ok s' \<and> depth s' = 0"
proof -
  define gain where "gain = (\<lambda>i. if i < length (xpd_gains (eep_xpdGain m)) then ucast (xpd_gains (eep_xpdGain m) ! i) else (0 :: u32))"
  have "\<exists>ov s1. (if AR5416_EEP_MINOR_VER_2 \<le> (eep_version m AND 0xFFF) then Some (ucast (eep_pdGainOverlap m), s)
       else do { (v, s) \<leftarrow> op_read ops AR_PHY_TPCRG5 s; Some (ucast (MS v 0x0000000F 0), s) }) = Some (ov, s1) \<and> ok s1 \<and> depth s1 = 0"
    using assms(1,2) read_op [OF assms(1,2), of AR_PHY_TPCRG5] by auto
  then obtain ov s1 where o: "(if AR5416_EEP_MINOR_VER_2 \<le> (eep_version m AND 0xFFF) then Some (ucast (eep_pdGainOverlap m) :: u16, s)
       else do { (v, s) \<leftarrow> op_read ops AR_PHY_TPCRG5 s; Some (ucast (MS v 0x0000000F 0), s) }) = Some (ov, s1)" "ok s1" "depth s1 = 0" by blast
  define P1 where "P1 =
       [REG_RMW_FIELD AR_PHY_TPCRG1 0x0000c000 14 ((word_of_nat (length (xpd_gains (eep_xpdGain m))) - 1) AND 0x3),
        REG_RMW_FIELD AR_PHY_TPCRG1 0x00030000 16 (gain 0), REG_RMW_FIELD AR_PHY_TPCRG1 0x000C0000 18 (gain 1),
        REG_RMW_FIELD AR_PHY_TPCRG1 0x00300000 20 0]"
  have "length P1 < cap" "acc_ok 0 P1" "no_stale 0 {} P1" "acc_depth 0 P1 = 0" using assms(3) by (simp_all add: P1_def REG_RMW_FIELD_def)
  then obtain s2 where b: "REG_RUN ops P1 s1 = Some s2" "ok s2" "depth s2 = 0" using run_idle [OF o(2,3)] by blast
  obtain bs vs where g: "ath9k_hw_get_gain_boundaries_pdadcs ah chan (eep_calPierData2G m) (eep_calFreqPier2G m) 3 (unat ov)
    (length (xpd_gains (eep_xpdGain m))) tabs = Some (bs, vs)" using gain_boundaries_some [OF assms(4-6)] by blast
  define P2 where "P2 = [ENABLE_BUFFER, REG_WRITE AR_PHY_TPCRG5 (gain_reg5 ov bs)] @ pdadc_writes vs @ [BUFFER_FLUSH]"
  have "length P2 < cap" "acc_ok 0 P2" "no_stale 0 {} P2" "acc_depth 0 P2 = 0"
    using assms(3) write_accs [of 0] by (simp_all add: P2_def pdadc_writes_def del: upt_rec_numeral)
  then obtain s3 where c: "REG_RUN ops P2 s2 = Some s3" "ok s3" "depth s3 = 0" using run_idle [OF b(2,3)] by blast
  show ?thesis
    unfolding ath9k_hw_set_4k_power_cal_table_def o(1) bind.bind_lunit prod.case Let_def P1_def [unfolded gain_def, symmetric] b(1)
      g P2_def [symmetric] c(1)
    using b(2,3) c(2,3) by simp
qed

lemma set_txpower_mem:
  assumes "ok s" and "depth s = 0" and "40 < cap" and "map4k_ok m" and "tables_ok tabs" and "\<not> AR_SREV_9287 ah"
    and "ath9k_hw_set_4k_power_per_rate_table m txchainmask chan cfgCtl (ucast red) (ucast lim) = Some rates"
    and "length rates = 36" and "\<forall>r\<in>set rates. unat r \<le> 53"
  shows "\<exists>reg' s'. ath9k_hw_4k_set_txpower ops ah txchainmask m tabs chan cfgCtl red lim False reg s = Some (reg', s') \<and> ok s' \<and> depth s' = 0 \<and>
    max_power_level reg' = foldl (\<lambda>mx r. if sint r > uint mx then r else mx) 0 rates \<and>
    (\<forall>(r, sh, i)\<in>set power_fields. unat (drop_bit sh (mem s' r) AND 0xff) = unat (rates ! i) + 10)"
proof -
  obtain s1 where a: "ath9k_hw_set_4k_power_cal_table ops ah m tabs chan s = Some s1" "ok s1" "depth s1 = 0"
    using cal_table_run [OF assms(1-6)] by blast
  have "cap_rate r = r" if "r \<in> set rates" for r using bspec [OF assms(9) that] by (intro cap_rate_small) (simp add: word_le_nat_alt)
  then have cap: "map cap_rate rates = rates" by (simp add: map_idI)
  let ?q = "map (\<lambda>r. r - word_of_int (- 5 * 2)) rates"
  define inc :: u16 where "inc = ucast (if AR5416_EEP_MINOR_VER_2 \<le> (eep_version m AND 0xFFF) then eep_ht40PowerInc m else 2)"
  define P where "P = [ENABLE_BUFFER] @ power_writes (IS_CHAN_HT40 chan) inc ?q @ [BUFFER_FLUSH]"
  have "length P < cap" "acc_ok 0 P" "no_stale 0 {} P" "acc_depth 0 P = 0" using assms(3) by (simp_all add: P_def power_writes_def)
  then obtain s' where b: "REG_RUN ops P s1 = Some s'" "ok s'" "depth s' = 0" "mem s' = rw_direct P (mem s1)"
    using run_idle [OF a(2,3)] by blast
  have q: "?q = map (\<lambda>r. r - word_of_int (- 10)) rates" by simp
  have "\<forall>(r, sh, i)\<in>set power_fields. unat (drop_bit sh (mem s' r) AND 0xff) = unat (rates ! i) + 10"
    unfolding b(4) P_def q using direct_power_fields [OF assms(8,9)] by blast
  then show ?thesis
    unfolding ath9k_hw_4k_set_txpower_def Let_def assms(7) a(1) bind.bind_lunit cap inc_def [symmetric] P_def [symmetric] b(1) if_False
    using b(2,3) by simp
qed

end

lemma max_level:
  fixes mx :: u16
  assumes "\<forall>r\<in>set rs. r \<le> 63" and "mx \<le> 63"
  shows "mx \<le> foldl (\<lambda>mx r. if sint r > uint mx then r else mx) mx rs \<and>
    (\<forall>r\<in>set rs. r \<le> foldl (\<lambda>mx r. if sint r > uint mx then r else mx) mx rs) \<and>
    foldl (\<lambda>mx r. if sint r > uint mx then r else mx) mx rs \<in> insert mx (set rs)"
  using assms
proof (induction rs arbitrary: mx)
  case (Cons r rs)
  have "uint r \<le> 63" using Cons.prems(1) by (simp add: word_le_def)
  then have "sint r = uint r" by (simp add: sint_uint signed_take_bit_int_eq_self order_trans [OF _ uint_ge_0])
  then have e: "(if sint r > uint mx then r else mx) = max mx r" by (auto simp: max_def word_le_def word_uint_eq_iff)
  show ?case using Cons.IH [of "max mx r"] Cons.prems by (auto simp: e max_def split: if_splits)
qed simp


definition ex_map4k :: bytes where
  "ex_map4k = replicate 4 0 @ [0x15, 0xE0] @ replicate 13 0 @ [1] @ replicate 52 0 @ [1] @ replicate 3 0 @ [6] @ replicate 43 0 @ [112, 137, 172] @
     concat (replicate 3 [10, 20, 30, 40, 60, 10, 20, 30, 40, 60, 1, 20, 40, 80, 120, 1, 20, 40, 80, 120]) @
     concat (replicate 2 [112, 36, 36, 36, 34, 137, 34, 34, 34, 32, 172, 30, 30, 30, 28]) @
     concat (replicate 2 [112, 34, 34, 34, 34, 34, 34, 32, 30, 137, 32, 32, 32, 32, 32, 32, 30, 28, 172, 28, 28, 28, 28, 28, 28, 26, 24]) @
     replicate 109 0"

lemma ex_map4k_ok: "map4k_ok ex_map4k"
  by code_simp


theorem reduction_above_limit_witness:
  "ath9k_hw_set_4k_power_per_rate_table ex_map4k 1 ex_cal_chan 0x12 41 40 = ath9k_hw_set_4k_power_per_rate_table ex_map4k 1 ex_cal_chan 0x12 0 63"
  using reduction_above_limit [of 40 41 ex_map4k 1 ex_cal_chan "0x12"] by simp

theorem rates_within_limit_witness:
  "\<exists>rates. ath9k_hw_set_4k_power_per_rate_table ex_map4k 1 ex_cal_chan 0x12 4 20 = Some rates \<and> (\<forall>r\<in>set rates. unat r \<le> 16)"
proof -
  have "length ex_map4k = 376" "targets_used ex_map4k" using ex_map4k_ok by (simp_all add: map4k_ok_def)
  then show ?thesis
    using rates_within_limit [of ex_map4k 1 4 20 ex_cal_chan "0x12"] by (fastforce simp: ar5416_get_ntxchains_def)
qed

section \<open>An EEPROM in foreign byte order\<close>

definition rev_slice :: "nat \<times> nat \<Rightarrow> bytes \<Rightarrow> bytes" where
  "rev_slice = (\<lambda>(i, n) m. take i m @ rev (take n (drop i m)) @ drop (i + n) m)"

definition apart :: "nat \<times> nat \<Rightarrow> nat \<times> nat \<Rightarrow> bool" where
  "apart x y \<longleftrightarrow> fst x + snd x \<le> fst y \<or> fst y + snd y \<le> fst x"

lemma rev_slice_length: "fst x + snd x \<le> length m \<Longrightarrow> length (rev_slice x m) = length m"
  by (cases x) (simp add: rev_slice_def)

lemma rev_slice_nth:
  assumes "i + n \<le> length m" and "j < length m"
  shows "rev_slice (i, n) m ! j = m ! (if i \<le> j \<and> j < i + n then 2 * i + n - 1 - j else j)"
  using assms by (auto simp: rev_slice_def nth_append rev_nth intro!: arg_cong [where f = "(!) m"])

lemma rev_slice_twice:
  assumes "fst x + snd x \<le> length m"
  shows "rev_slice x (rev_slice x m) = m"
proof (rule nth_equalityI)
  obtain i n where x: "x = (i, n)" by (cases x)
  show l: "length (rev_slice x (rev_slice x m)) = length m" using assms by (simp add: rev_slice_length)
  fix j assume "j < length (rev_slice x (rev_slice x m))"
  then have j: "j < length m" using l by simp
  then show "rev_slice x (rev_slice x m) ! j = m ! j"
    using assms rev_slice_length [OF assms] by (auto simp: x rev_slice_nth)
qed

lemma rev_slice_commute:
  assumes "fst x + snd x \<le> length m" and "fst y + snd y \<le> length m" and "apart x y"
  shows "rev_slice x (rev_slice y m) = rev_slice y (rev_slice x m)"
proof (rule nth_equalityI)
  obtain i n k l where x: "x = (i, n)" "y = (k, l)" by (cases x, cases y)
  show len: "length (rev_slice x (rev_slice y m)) = length (rev_slice y (rev_slice x m))" using assms by (simp add: rev_slice_length)
  fix j assume "j < length (rev_slice x (rev_slice y m))"
  then have j: "j < length m" using assms by (simp add: rev_slice_length)
  then show "rev_slice x (rev_slice y m) ! j = rev_slice y (rev_slice x m) ! j"
    using assms rev_slice_length [OF assms(1)] rev_slice_length [OF assms(2)] by (auto simp: x rev_slice_nth apart_def)
qed

lemma fold_rev_slice:
  assumes "\<forall>y\<in>set ys. fst y + snd y \<le> length m"
  shows "length (fold rev_slice ys m) = length m"
  using assms by (induction ys arbitrary: m) (simp_all add: rev_slice_length)

lemma rev_slice_fold:
  assumes "fst x + snd x \<le> length m" and "\<forall>y\<in>set ys. fst y + snd y \<le> length m \<and> apart x y"
  shows "rev_slice x (fold rev_slice ys m) = fold rev_slice ys (rev_slice x m)"
  using assms by (induction ys arbitrary: m) (simp_all add: rev_slice_length rev_slice_commute)

lemma fold_rev_slice_twice:
  assumes "\<forall>y\<in>set ys. fst y + snd y \<le> length m" and "sorted_wrt apart ys"
  shows "fold rev_slice ys (fold rev_slice ys m) = m"
  using assms
proof (induction ys arbitrary: m)
  case (Cons x ys)
  then have "rev_slice x (fold rev_slice ys (rev_slice x m)) = fold rev_slice ys m"
    by (simp add: rev_slice_fold rev_slice_length rev_slice_twice)
  then show ?case using Cons by simp
qed simp

lemma swab16_bytes: "ucast (swab16 (le16 a b)) = b" "ucast (drop_bit 8 (swab16 (le16 a b))) = a"
  by (rule bit_word_eqI; auto simp: swab16_def le16_def bit_simps dest: bit_imp_le_length)+

lemma byte_masks: "(0xff00 :: u32) = push_bit 8 (mask 8)" "(0xff0000 :: u32) = push_bit 16 (mask 8)" "(0xff000000 :: u32) = push_bit 24 (mask 8)"
  by (simp_all add: mask_eq_exp_minus_1 push_bit_eq_mult)

lemma swab32_bytes:
  "ucast (swab32 (le32 a b c d)) = d" "ucast (drop_bit 8 (swab32 (le32 a b c d))) = c"
  "ucast (drop_bit 16 (swab32 (le32 a b c d))) = b" "ucast (drop_bit 24 (swab32 (le32 a b c d))) = a"
  by (rule bit_word_eqI; auto simp: swab32_def le32_def byte_masks masks bit_simps dest: bit_imp_le_length)+

lemma swab_at_slice:
  "i + 2 \<le> length m \<Longrightarrow> swab16_at i m = rev_slice (i, 2) m" "i + 4 \<le> length m \<Longrightarrow> swab32_at i m = rev_slice (i, 4) m"
proof -
  assume l: "i + 2 \<le> length m"
  show "swab16_at i m = rev_slice (i, 2) m"
  proof (rule nth_equalityI)
    show len: "length (swab16_at i m) = length (rev_slice (i, 2) m)" using l by (simp add: swab16_at_def put16_def rev_slice_length)
    fix j assume "j < length (swab16_at i m)"
    then have j: "j < length m" by (simp add: swab16_at_def put16_def)
    consider "j = i" | "j = i + 1" | "j < i \<or> i + 1 < j" by linarith
    then show "swab16_at i m ! j = rev_slice (i, 2) m ! j"
      by cases (use l j in \<open>auto simp: swab16_at_def put16_def eep16_def swab16_bytes rev_slice_nth\<close>)
  qed
next
  assume l: "i + 4 \<le> length m"
  show "swab32_at i m = rev_slice (i, 4) m"
  proof (rule nth_equalityI)
    show len: "length (swab32_at i m) = length (rev_slice (i, 4) m)" using l by (simp add: swab32_at_def put32_def rev_slice_length)
    fix j assume "j < length (swab32_at i m)"
    then have j: "j < length m" by (simp add: swab32_at_def put32_def)
    consider "j = i" | "j = i + 1" | "j = i + 2" | "j = i + 3" | "j < i \<or> i + 3 < j" by linarith
    then show "swab32_at i m ! j = rev_slice (i, 4) m ! j"
      by cases (use l j in \<open>auto simp: swab32_at_def put32_def eep32_def swab32_bytes rev_slice_nth\<close>)
  qed
qed

definition field_slices :: "(nat \<times> nat) list" where
  "field_slices = map (\<lambda>i. (i, 2)) [0, 2, 4, 8, 10, 20, 22, 24] @ [(56, 4), (52, 4)] @ map (\<lambda>i. (i, 2)) [100, 104, 108, 112, 116]"

lemma swab_fields_slices: "length m = 376 \<Longrightarrow> swab_fields m = fold rev_slice field_slices m"
  by (simp add: swab_fields_def field_slices_def swab_at_slice rev_slice_length)

lemma swab_words_slices:
  "length m = 376 \<Longrightarrow> n \<le> 188 \<Longrightarrow>
   fold (\<lambda>addr. swab16_at (2 * addr)) [0..<n] m = fold rev_slice (map (\<lambda>a. (2 * a, 2)) [0..<n]) m"
proof (induction n)
  case (Suc n)
  have "length (fold rev_slice (map (\<lambda>a. (2 * a, 2)) [0..<n]) m) = 376"
    using Suc.prems by (subst fold_rev_slice) auto
  then show ?case using Suc by (simp add: swab_at_slice)
qed simp

lemma swab_words_twice:
  assumes "length m = 376"
  shows "fold (\<lambda>addr. swab16_at (2 * addr)) [0..<188] (fold (\<lambda>addr. swab16_at (2 * addr)) [0..<188] m) = m"
    "length (fold (\<lambda>addr. swab16_at (2 * addr)) [0..<188] m) = 376"
proof -
  have b: "\<forall>y\<in>set (map (\<lambda>a. (2 * a, 2)) [0..<188 :: nat]). fst y + snd y \<le> length m" using assms by auto
  have "sorted_wrt apart (map (\<lambda>a. (2 * a, 2)) [0..<n])" for n
    by (simp add: sorted_wrt_map) (rule sorted_wrt_mono_rel [OF _ sorted_wrt_upt], simp add: apart_def)
  then show "fold (\<lambda>addr. swab16_at (2 * addr)) [0..<188] (fold (\<lambda>addr. swab16_at (2 * addr)) [0..<188] m) = m"
    "length (fold (\<lambda>addr. swab16_at (2 * addr)) [0..<188] m) = 376"
    using fold_rev_slice_twice [OF b] fold_rev_slice [OF b] assms by (simp_all add: swab_words_slices)
qed

lemma swab_fields_twice:
  assumes "length m = 376"
  shows "swab_fields (swab_fields m) = m" "length (swab_fields m) = 376"
proof -
  have b: "\<forall>y\<in>set field_slices. fst y + snd y \<le> length m" using assms by (simp add: field_slices_def)
  have a: "sorted_wrt apart field_slices" by (simp add: field_slices_def apart_def)
  show l: "length (swab_fields m) = 376" using assms fold_rev_slice [OF b] by (simp add: swab_fields_slices)
  show "swab_fields (swab_fields m) = m"
    using fold_rev_slice_twice [OF b a] assms l by (simp add: swab_fields_slices)
qed

lemma fold_rev_slice_other:
  assumes "\<forall>y\<in>set ys. fst y + snd y \<le> length m \<and> (j < fst y \<or> fst y + snd y \<le> j)" and "j < length m"
  shows "fold rev_slice ys m ! j = m ! j"
  using assms
proof (induction ys arbitrary: m)
  case (Cons y ys)
  obtain i n where y: "y = (i, n)" by (cases y)
  have "rev_slice y m ! j = m ! j" using Cons.prems by (auto simp: y rev_slice_nth)
  then show ?case using Cons by (simp add: rev_slice_length)
qed simp

lemma swab_length:
  assumes "length m = 376"
  shows "swab16 (eep_length (swab_fields m)) = eep_length m"
proof -
  define ys where "ys = List.tl field_slices"
  have f: "swab_fields m = fold rev_slice ys (rev_slice (0, 2) m)"
    using swab_fields_slices [OF assms] by (simp add: ys_def field_slices_def)
  have l: "length (rev_slice (0, 2) m) = 376" using assms by (simp add: rev_slice_length)
  have "\<forall>y\<in>set ys. fst y + snd y \<le> 376 \<and> (j < fst y \<or> fst y + snd y \<le> j)" if "j < 2" for j
    using that by (auto simp: ys_def field_slices_def)
  then have "swab_fields m ! j = rev_slice (0, 2) m ! j" if "j < 2" for j
    using that fold_rev_slice_other [of ys "rev_slice (0, 2) m" j] l by (simp add: f)
  then have "swab_fields m ! 0 = m ! 1" "swab_fields m ! 1 = m ! 0" using assms by (simp_all add: rev_slice_nth)
  moreover have "swab16 (le16 a b) = le16 b a" for a b
    by (rule bit_word_eqI) (auto simp: swab16_def le16_def bit_simps dest: bit_imp_le_length)
  ultimately show ?thesis by (simp add: eep_length_def eep16_def)
qed


text \<open>When the magic number cannot be read, the check reports success and leaves the map unchecked.\<close>

theorem check_unreadable_magic:
  assumes "nvram 0 s = Some ((False, v), s')"
  shows "ath9k_hw_4k_check_eeprom False nvram m s = Some (0, m, s')"
  by (simp add: ath9k_hw_4k_check_eeprom_def assms)


theorem check_unreadable_magic_witness:
  "ath9k_hw_4k_check_eeprom False (\<lambda>off s. Some ((False, 0), s)) [] () = Some (0, [], ())"
  using check_unreadable_magic [of "\<lambda>off s. Some ((False, 0), s)" "()" 0 "()" "[]"] by simp

section \<open>Reading the EEPROM over USB\<close>

locale multi_reader =
  fixes multi :: "u32 list \<Rightarrow> 's \<Rightarrow> (u32 list \<times> 's) option"
    and ready :: "'s \<Rightarrow> bool"
    and regs :: "'s \<Rightarrow> u32 \<Rightarrow> u32"
  assumes multi_read: "ready s \<Longrightarrow> rs \<noteq> [] \<Longrightarrow> length rs \<le> 8 \<Longrightarrow>
    \<exists>s'. multi rs s = Some (map (regs s) rs, s') \<and> ready s' \<and> regs s' = regs s"
begin

lemma fill_loop:
  assumes "ready s" and "length pend < 8"
  shows "\<exists>s'. usb_fill_loop multi start n addr pend s =
      Some (map (\<lambda>a. ucast (regs s a)) (pend @ map (eeprom_addr start) [addr..<addr + n]), s') \<and> ready s' \<and> regs s' = regs s"
  using assms
proof (induction n arbitrary: addr pend s)
  case 0
  show ?case
  proof (cases "pend = []")
    case False
    then show ?thesis using multi_read [OF "0.prems"(1) False] "0.prems"(2) by auto
  qed (use 0 in simp)
next
  case (Suc n)
  let ?p = "pend @ [eeprom_addr start addr]"
  have u: "[addr..<Suc (addr + n)] = addr # [Suc addr..<Suc (addr + n)]" by (simp add: upt_conv_Cons del: upt_Suc)
  show ?case
  proof (cases "length ?p = 8")
    case True
    obtain s1 where a: "multi ?p s = Some (map (regs s) ?p, s1)" "ready s1" "regs s1 = regs s"
      using multi_read [OF Suc.prems(1), of ?p] True by auto
    obtain s2 where "usb_fill_loop multi start n (addr + 1) [] s1 =
      Some (map (\<lambda>a. ucast (regs s1 a)) (map (eeprom_addr start) [addr + 1..<addr + 1 + n]), s2)" "ready s2" "regs s2 = regs s1"
      using Suc.IH [OF a(2), of "[]" "addr + 1"] by auto
    then show ?thesis using a True by (simp add: u Let_def o_def del: upt_Suc)
  next
    case False
    then show ?thesis using Suc.IH [OF Suc.prems(1), of ?p "addr + 1"] Suc.prems(2) by (simp add: u Let_def o_def del: upt_Suc)
  qed
qed

end

definition htc_read_multi :: "'s wmi_exec \<Rightarrow> bytes \<Rightarrow> u32 list \<Rightarrow> wmi \<times> 's \<Rightarrow> (u32 list \<times> (wmi \<times> 's)) option" where
  \<comment> \<open>the operation \<open>multi_read\<close> of \<open>ath9k_htc\<close>\<close>
  "htc_read_multi exec junk rs = (\<lambda>(w, s). map_option (\<lambda>(vs, w, s). (vs, (w, s))) (ath9k_multi_regread exec junk rs w s))"

definition htc_multi_ready ::
  "(nat \<Rightarrow> usb_answer) \<Rightarrow> (nat \<Rightarrow> sk_buff option) \<Rightarrow> (u16 \<Rightarrow> bytes \<Rightarrow> 'd \<Rightarrow> bytes \<times> 'd) \<Rightarrow> ('d \<Rightarrow> u32 \<Rightarrow> u32) \<Rightarrow> bytes \<Rightarrow>
     wmi \<times> htc_target \<times> hif_device_usb \<times> 'd \<Rightarrow> bool" where
  "htc_multi_ready env alloc fw regs junk s \<longleftrightarrow>
     length junk = 32 \<and> wmi_stack_ready env alloc fw regs (fst s) (snd s) \<and> buf_inv (fst s) \<and> htc_ops_depth s = 0"

interpretation mr: multi_reader "htc_read_multi (wmi_stack env alloc fw) junk" "htc_multi_ready env alloc fw regs junk"
  "htc_ops_dev regs" for env alloc fw regs junk
proof unfold_locales
  fix s :: "wmi \<times> htc_target \<times> hif_device_usb \<times> 'a" and rs :: "u32 list"
  assume a: "htc_multi_ready env alloc fw regs junk s" "rs \<noteq> []" "length rs \<le> 8"
  obtain w x where s: "s = (w, x)" by (cases s)
  then show "\<exists>s'. htc_read_multi (wmi_stack env alloc fw) junk rs s = Some (map (htc_ops_dev regs s) rs, s') \<and>
      htc_multi_ready env alloc fw regs junk s' \<and> htc_ops_dev regs s' = htc_ops_dev regs s"
    using rc.multi_regread_device [of env alloc fw regs w x junk rs] a by (auto simp: htc_read_multi_def htc_multi_ready_def htc_ops_dev_def htc_ops_depth_def buf_inv_def wmi_same_def)
qed

definition usb_words :: "(u32 \<Rightarrow> u32) \<Rightarrow> bytes" where
  \<comment> \<open>the map in the EEPROM window of the device\<close>
  "usb_words d = concat (map (\<lambda>i. le16_bytes (ucast (d (0x2100 + 4 * word_of_nat i)))) [0..<188])"

lemma usb_fill_stack:
  assumes "htc_multi_ready env alloc fw regs junk s"
  shows "\<exists>s'. ath9k_hw_4k_fill_eeprom True (htc_read_multi (wmi_stack env alloc fw) junk) nvram m s = Some (True, usb_words (htc_ops_dev regs s), s') \<and>
    htc_multi_ready env alloc fw regs junk s' \<and> htc_ops_dev regs s' = htc_ops_dev regs s"
proof -
  have e: "eeprom_addr 64 i = 0x2100 + 4 * word_of_nat i" for i
    by (simp add: eeprom_addr_def push_bit_eq_mult algebra_simps)
  show ?thesis
    using mr.fill_loop [OF assms, of "[]" 64 188 0]
    by (auto simp: ath9k_hw_4k_fill_eeprom_def ath9k_hw_usb_4k_fill_eeprom_def ath9k_hw_usb_gen_fill_eeprom_def usb_words_def e o_def simp del: upt_rec_numeral)
qed

text \<open>Reading the EEPROM over USB, eight registers per command through WMI, HTC and the transport, fills the map with exactly the
  low halves of the 188 registers from 0x2100 on, in order, and leaves the registers of the device alone.\<close>

theorem usb_fill_exact:
  assumes "htc_multi_ready env alloc fw regs junk s"
  shows "\<exists>s'. ath9k_hw_4k_fill_eeprom True (htc_read_multi (wmi_stack env alloc fw) junk) nvram m s =
      Some (True, concat (map (\<lambda>i. le16_bytes (ucast (htc_ops_dev regs s (0x2100 + 4 * word_of_nat i)))) [0..<188]), s') \<and>
    htc_ops_dev regs s' = htc_ops_dev regs s"
  using usb_fill_stack [OF assms, of nvram m] by (auto simp: usb_words_def simp del: upt_rec_numeral)

theorem usb_fill_exact_witness:
  "\<exists>s'. ath9k_hw_4k_fill_eeprom True (htc_read_multi (wmi_stack ex_env (ex_alloc 0) ex_fw) (replicate 32 0)) (\<lambda>_ _. None) []
      (ex_wmi, ex_target, ex_dev, (\<lambda>r. 0x1234)) = Some (True, concat (replicate 188 [0x34, 0x12]), s')"
proof -
  have "htc_multi_ready ex_env (ex_alloc 0) ex_fw (\<lambda>d. d) (replicate 32 0) (ex_wmi, ex_target, ex_dev, (\<lambda>r. 0x1234))"
    using ex_mac_ops_ok(1) [of "\<lambda>r. 0x1234"] ex_mac_ops_ok(2) by (simp add: htc_multi_ready_def htc_ops_ok_def)
  moreover have "htc_ops_dev (\<lambda>d. d) (ex_wmi, ex_target, ex_dev, (\<lambda>r. 0x1234)) = (\<lambda>r. 0x1234)"
    by (simp add: htc_ops_dev_def stack_regs_def)
  moreover have "le16_bytes (ucast (0x1234 :: u32)) = [0x34, 0x12]" by (simp add: le16_bytes_def)
  ultimately show ?thesis
    using usb_fill_exact [of ex_env "ex_alloc 0" ex_fw "\<lambda>d. d" "replicate 32 0" "(ex_wmi, ex_target, ex_dev, (\<lambda>r. 0x1234))" "\<lambda>_ _. None" "[]"]
    by (auto simp: map_replicate_const simp del: upt_rec_numeral)
qed

section \<open>Where the arrays end\<close>

lemma search_past_end:
  assumes "\<forall>j<n. \<exists>e. powInfo (i + j) = Some e \<and> bChannel e \<noteq> AR5416_BCHAN_UNUSED \<and> ath9k_hw_fbin2freq (bChannel e) is2 < freq"
  shows "target_search freq is2 powInfo n i = Some (int (i + n) - 1, - 1)"
  using assms
proof (induction n arbitrary: i)
  case (Suc n)
  obtain e where e: "powInfo i = Some e" "bChannel e \<noteq> AR5416_BCHAN_UNUSED" "ath9k_hw_fbin2freq (bChannel e) is2 < freq"
    using Suc.prems [rule_format, of 0] by auto
  have "\<forall>j<n. \<exists>e. powInfo (i + 1 + j) = Some e \<and> bChannel e \<noteq> AR5416_BCHAN_UNUSED \<and> ath9k_hw_fbin2freq (bChannel e) is2 < freq"
    using Suc.prems [rule_format, of "Suc j" for j] by auto
  then show ?case using Suc.IH [of "i + 1"] e by auto
qed simp

text \<open>A channel above the last calibrated one, such as channel 14 on a map calibrated up to channel 13, takes its OFDM target
  powers from the bytes behind the array \<open>calTargetPower2G\<close>: they are the first powers of the HT20 array.\<close>

theorem ofdm_targets_past_end:
  assumes "length m = 376" and "\<forall>j<4. m ! (198 + 5 * j) \<noteq> 0xFF \<and> ath9k_hw_fbin2freq (m ! (198 + 5 * j)) (IS_CHAN_2GHZ chan) < ctl_center (ath9k_hw_get_channel_centers chan)"
  shows "ath9k_hw_get_legacy_target_powers chan (eep_target m 198 4) AR5416_NUM_2G_20_TARGET_POWERS new 4 False =
      Some \<lparr>bChannel = m ! 213, tPow2x = map (\<lambda>i. m ! (214 + i)) [0..<4]\<rparr> \<and>
    eep_target m 213 8 0 = Some \<lparr>bChannel = m ! 213, tPow2x = map (\<lambda>i. m ! (214 + i)) [0..<8]\<rparr>"
proof -
  have slice: "take n (drop i m) = map (\<lambda>j. m ! (i + j)) [0..<n]" if "i + n \<le> 376" for i n
    using that assms(1) by (intro nth_equalityI) simp_all
  have t: "eep_target m b k j = Some \<lparr>bChannel = m ! (b + (k + 1) * j), tPow2x = map (\<lambda>x. m ! (b + (k + 1) * j + 1 + x)) [0..<k]\<rparr>"
    if "b + (k + 1) * j + (k + 1) \<le> 376" for b k j
  proof -
    have "map (\<lambda>x. m ! (b + (k + 1) * j + x)) [0..<k + 1] = m ! (b + (k + 1) * j) # map (\<lambda>x. m ! (b + (k + 1) * j + 1 + x)) [0..<k]"
      by (simp add: upt_conv_Cons map_Suc_upt [symmetric] del: upt_Suc)
    then show ?thesis using that assms(1) by (simp add: eep_target_def read_bytes_def slice)
  qed
  have "eep_target m 198 4 3 = Some \<lparr>bChannel = m ! 213, tPow2x = map (\<lambda>x. m ! (214 + x)) [0..<4]\<rparr>"
    "eep_target m 213 8 0 = Some \<lparr>bChannel = m ! 213, tPow2x = map (\<lambda>x. m ! (214 + x)) [0..<8]\<rparr>"
    using t [of 198 4 3] t [of 213 8 0] by simp_all
  moreover have s: "\<forall>j<4. \<exists>e. eep_target m 198 4 j = Some e \<and> bChannel e \<noteq> AR5416_BCHAN_UNUSED \<and>
      ath9k_hw_fbin2freq (bChannel e) (IS_CHAN_2GHZ chan) < ctl_center (ath9k_hw_get_channel_centers chan)"
    using t [of 198 4] assms(2) by auto
  moreover obtain e where "eep_target m 198 4 0 = Some e" "\<not> ctl_center (ath9k_hw_get_channel_centers chan) \<le> ath9k_hw_fbin2freq (bChannel e) (IS_CHAN_2GHZ chan)"
    using s [rule_format, of 0] by auto
  ultimately show ?thesis
    using search_past_end [of 4 "eep_target m 198 4" 0 "IS_CHAN_2GHZ chan" "ctl_center (ath9k_hw_get_channel_centers chan)"]
    by (simp add: ath9k_hw_get_legacy_target_powers_def new_target_power_def target_at_def)
qed

text \<open>The power registers have six bits for a power that is stored with an offset of 10 half decibels: a power of 54 to 63 half
  decibels, which the clipping to 63 lets through, is programmed as 0 to 9.\<close>

theorem power_field_wraps:
  assumes "54 \<le> unat r" and "unat r \<le> 63"
  shows "cap_rate r = r \<and> unat (ATH9K_POW_SM (r - word_of_int (AR5416_PWR_TABLE_OFFSET_DB * 2)) 0) = unat r - 54"
proof -
  have "cap_rate r = r" using assms(2) by (intro cap_rate_small) (simp add: word_le_nat_alt)
  moreover have "(ucast x AND 0x3f :: u32) = ucast (x AND 0x3f)" for x :: u16
    by (rule bit_word_eqI) (auto simp: masks bit_simps)
  moreover have "(unat r + 10) mod 64 = unat r - 54" using assms mod_if [of "unat r + 10" 64] by simp
  ultimately show ?thesis
    using pow_mod [OF assms(2)] assms by (simp add: ATH9K_POW_SM_def unsigned_ucast_eq take_bit_nat_eq_self)
qed

theorem power_field_wraps_witness: "cap_rate 54 = 54 \<and> unat (ATH9K_POW_SM (54 - word_of_int (AR5416_PWR_TABLE_OFFSET_DB * 2)) 0) = 0"
  using power_field_wraps [of 54] by simp

theorem ofdm_targets_past_end_witness:
  "ath9k_hw_get_legacy_target_powers (ex_cal_chan\<lparr>ic_channel := 2484, channelFlags := CHANNEL_2GHZ, chanmode := 0xC0\<rparr>)
     (eep_target ex_map4k 198 4) AR5416_NUM_2G_20_TARGET_POWERS \<lparr>bChannel = 0, tPow2x = []\<rparr> 4 False =
   Some \<lparr>bChannel = 112, tPow2x = [34, 34, 34, 34]\<rparr>"
proof -
  let ?c = "ex_cal_chan\<lparr>ic_channel := 2484, channelFlags := CHANNEL_2GHZ, chanmode := 0xC0\<rparr>"
  have l: "length ex_map4k = 376" using ex_map4k_ok by (simp add: map4k_ok_def)
  have b: "ex_map4k ! 198 = 112" "ex_map4k ! 203 = 137" "ex_map4k ! 208 = 172" "ex_map4k ! 213 = 112"
    "map (\<lambda>i. ex_map4k ! (214 + i)) [0..<4] = [34, 34, 34, 34]" by code_simp+
  have c: "IS_CHAN_2GHZ ?c" "ctl_center (ath9k_hw_get_channel_centers ?c) = 2484"
    by (simp_all add: IS_CHAN_2GHZ_def has_flag_def ath9k_hw_get_channel_centers_def IS_CHAN_HT40_def)
  have "\<forall>j<4. ex_map4k ! (198 + 5 * j) \<noteq> 0xFF \<and> ath9k_hw_fbin2freq (ex_map4k ! (198 + 5 * j)) (IS_CHAN_2GHZ ?c) < ctl_center (ath9k_hw_get_channel_centers ?c)"
  proof (intro allI impI)
    fix j :: nat assume "j < 4"
    then consider "j = 0" | "j = 1" | "j = 2" | "j = 3" by linarith
    then show "ex_map4k ! (198 + 5 * j) \<noteq> 0xFF \<and> ath9k_hw_fbin2freq (ex_map4k ! (198 + 5 * j)) (IS_CHAN_2GHZ ?c) < ctl_center (ath9k_hw_get_channel_centers ?c)"
      by cases (simp_all add: b c ath9k_hw_fbin2freq_def)
  qed
  from ofdm_targets_past_end [OF l this, of "\<lparr>bChannel = 0, tPow2x = []\<rparr>"] show ?thesis
    unfolding b by blast
qed

section \<open>Initialising the EEPROM over USB\<close>

context ath_regs_buf
begin

lemma wait_result:
  assumes "ok s" and "depth s = 0"
  shows "\<exists>s'. hw_wait_loop ops r msk v (Suc n) s = Some (mem s r AND msk = v, s') \<and> ok s' \<and> depth s' = 0 \<and> mem s' = mem s"
  using assms
proof (induction n arbitrary: s)
  case 0
  obtain s1 where s1: "op_read ops r s = Some (mem s r, s1)" "ok s1" "depth s1 = 0" "mem s1 = mem s" using read_op [OF 0] by blast
  obtain s2 where "op_read ops r s1 = Some (mem s1 r, s2)" "ok s2" "depth s2 = 0" "mem s2 = mem s1" using read_op [OF s1(2,3)] by blast
  then show ?case using s1 by auto
next
  case (Suc n)
  obtain s1 where s1: "op_read ops r s = Some (mem s r, s1)" "ok s1" "depth s1 = 0" "mem s1 = mem s" using read_op [OF Suc.prems] by blast
  then show ?case using Suc.IH [OF s1(2,3)] by (subst hw_wait_loop.simps(2)) (auto simp del: hw_wait_loop.simps)
qed

lemma eeprom_read_mem:
  assumes "ok s" and "depth s = 0"
  shows "\<exists>s'. ath_usb_eeprom_read ops ah off s =
      Some (if mem s (AR_EEPROM_STATUS_DATA ah) AND 0x00050000 = 0 then (True, ucast (MS (mem s (AR_EEPROM_STATUS_DATA ah)) 0x0000ffff 0))
        else (False, 0), s') \<and> ok s' \<and> depth s' = 0 \<and> mem s' = mem s"
proof -
  obtain s1 where s1: "op_read ops (AR5416_EEPROM_OFFSET + push_bit 2 (word_of_nat off)) s = Some (mem s (AR5416_EEPROM_OFFSET + push_bit 2 (word_of_nat off)), s1)"
    "ok s1" "depth s1 = 0" "mem s1 = mem s" using read_op [OF assms] by blast
  have "AH_WAIT_TIMEOUT div AH_TIME_QUANTUM = Suc 9999" "\<not> AH_WAIT_TIMEOUT < AH_TIME_QUANTUM" by simp_all
  then obtain s2 where s2: "ath9k_hw_wait ops (AR_EEPROM_STATUS_DATA ah) 0x00050000 0 AH_WAIT_TIMEOUT s1 =
      Some (mem s (AR_EEPROM_STATUS_DATA ah) AND 0x00050000 = 0, s2)" "ok s2" "depth s2 = 0" "mem s2 = mem s"
    using wait_result [OF s1(2,3), of "AR_EEPROM_STATUS_DATA ah" "0x00050000" 0 9999] s1(4) by (simp only: ath9k_hw_wait_def if_False) blast
  obtain s3 where "op_read ops (AR_EEPROM_STATUS_DATA ah) s2 = Some (mem s2 (AR_EEPROM_STATUS_DATA ah), s3)" "ok s3" "depth s3 = 0" "mem s3 = mem s2"
    using read_op [OF s2(2,3)] by blast
  then show ?thesis using s1(1) s2 by (simp add: ath_usb_eeprom_read_def)
qed

end



end
