(* ===== verification/Spec2Isabelle.thy ===== *)
theory Spec2Isabelle
  imports Htc_Start Hif_Usb_Init Ath9k_Eeprom_4k
begin

text \<open>
  Verification of the \<open>ath9k_htc\<close> driver for USB wireless adapters.

  \<^bold>\<open>The program.\<close> The repository packages the kernel driver of the TL-WN722N adapter with the
  compat-drivers tree it is built from. The adapter runs its own firmware; the driver talks to it
  over USB. Paths below are relative to
  \<open>src/compat-drivers-source/drivers/net/wireless/ath\<close>. From the bottom up:

  \<^item> the USB transport \<open>ath9k/hif_usb.c\<close> cuts bulk transfers into packets and collects frames into
    bulk transfers;
  \<^item> HTC, \<open>ath9k/htc_hst.c\<close>, multiplexes endpoints over the transport: a service is connected to
    an endpoint, frames carry a header with the endpoint number, and completions and received
    frames are dispatched to the callbacks of the endpoint;
  \<^item> WMI, \<open>ath9k/wmi.c\<close>, sends commands on one of those endpoints and waits for the answer;
  \<^item> the register operations of \<open>ath9k/htc_drv_init.c\<close> are WMI commands, with a buffer that collects
    writes; the shared hardware code \<open>hw.c\<close>, \<open>key.c\<close>, \<open>ath9k/mac.c\<close> and \<open>ath9k/hw.c\<close> programs the
    chip through them;
  \<^item> the driver proper, \<open>ath9k/htc_drv_txrx.c\<close>, \<open>ath9k/htc_drv_beacon.c\<close> and
    \<open>ath9k/htc_drv_main.c\<close>, moves frames between mac80211 and HTC, and configures the hardware;
  \<^item> \<open>regd.c\<close> computes the regulatory domain and the channel flags.

  \<^bold>\<open>Conventions.\<close> State is passed explicitly. A C structure is a record with the fields the
  modelled code uses, an enumeration a datatype or a group of abbreviations, an integer of fixed
  width a word of that width, an \<open>int\<close> that cannot overflow an \<open>int\<close>. Memory is bytes with checked
  accesses: \<open>None\<close> is an access outside an object, a null pointer, a division by zero, a \<open>BUG_ON\<close>,
  or, for the functions defined by \<open>partial_function\<close>, a loop without end. An error return is an
  ordinary value, the negative error number. Calls to the layers above are values, a list of calls
  in order. The kernel's allocator, the USB core, the firmware, mac80211 and cfg80211 are parameters;
  what is assumed of them is a named predicate (\<open>alloc_skb_spec\<close>, \<open>wmi_stack_ready\<close>,
  \<open>fw_regs_ok\<close>, \<open>mac_frame\<close>, \<open>probe_spec\<close>) and each theorem that assumes one has a witness that satisfies it.

  \<^bold>\<open>Theories.\<close>

  \<^item> \<open>Ath_Prelude\<close>: words, bytes, endianness, error numbers, flags and bitmaps.
  \<^item> \<open>Skb\<close>: socket buffers and the driver's control block (\<open>htc.h\<close>).
  \<^item> \<open>Htc_Hst\<close>: \<open>htc_hst.c\<close>. The locale \<open>hif_transport\<close> is what HTC relies on below it; a frame sent
    and received back reaches the callback unchanged; every sequence of received messages and
    completions keeps the endpoint table well formed; the range check that is missing for a
    connect response.
  \<^item> \<open>Hif_Usb_Rx\<close>: stream mode receive of \<open>hif_usb.c\<close>. A stream of packets cut into transfers is
    delivered packet by packet (a simulation with an abstract cutter); the two memory errors of the
    loop (more than ten packets, a stale \<open>remain_skb\<close>).
  \<^item> \<open>Hif_Usb_Tx\<close>: transmit buffers, aggregation, management and register URBs, start, stop and
    drain of \<open>hif_usb.c\<close>, and the interpretation of \<open>hif_transport\<close> on them. An aggregate parses
    back into its frames; no frame is lost or completed twice over any interleaving; connecting a
    service and starting HTC over this transport.
  \<^item> \<open>Hif_Usb_Init\<close>: the rest of \<open>hif_usb.c\<close>: buffers and URBs, firmware download, probe, disconnect,
    suspend and resume over a heap of kernel objects. Whatever allocation or submission fails,
    set-up frees nothing twice and leaks nothing; release undoes allocation; the download places
    exactly the image; the asynchronous half of the probe cleans up on every path; the flush flag
    that is never cleared.
  \<^item> \<open>Wmi\<close>: \<open>wmi.c\<close>. Commands with their responses, failures, timeouts and late responses, over HTC
    and USB.
  \<^item> \<open>Htc_Drv_Init\<close>: service connection and register access of \<open>htc_drv_init.c\<close>. The locale
    \<open>reg_channel\<close> is what register access relies on; it is interpreted on the stack of WMI, HTC, USB
    and a firmware that executes register commands. Buffered writes refine plain writes.
  \<^item> \<open>Ath_Hw\<close>: \<open>ath.h\<close>, \<open>hw.c\<close> and the record of register operations. The locale \<open>ath_regs\<close> is what
    the hardware code relies on, interpreted on the operations of \<open>ath9k_htc\<close>.
  \<^item> \<open>Key_Cache\<close>: \<open>key.c\<close>. Keys and Michael keys in the table of the target, slot search, deletion.
  \<^item> \<open>Ath9k_Common\<close>: \<open>ath9k/common.c\<close> and the frame-control helpers of \<open>ieee80211.h\<close>.
  \<^item> \<open>Htc_Tx\<close>: the transmit path. The locale \<open>slot_pool\<close> is the contract of the 256 slots; the
    invariant that each frame under way owns one slot holds over every order of sends, completions,
    statuses, tasklets and timer runs; statuses, drain and the cleanup timer return each frame once.
  \<^item> \<open>Htc_Rx\<close>: the receive path. The ring of buffers refines a bounded queue (locale
    \<open>bounded_fifo\<close>); the tasklet ends; padding and signal strength.
  \<^item> \<open>Ath9k_Mac\<close>: hardware queues, TSF, beacon timers, receive filter and operating mode of
    \<open>ath9k/mac.c\<close> and \<open>ath9k/hw.c\<close>. Runs of register accesses are programs; \<open>ath_regs_buf\<close>
    extends \<open>ath_regs\<close> by the view of the device, which read-modify-write sees while writes are
    buffered. Resetting a queue leaves the meant values when no register is modified twice, and loses
    bits otherwise.
  \<^item> \<open>Htc_Beacon\<close>: \<open>htc_drv_beacon.c\<close> with the driver's queues and receive filter. Beacon slots,
    timers of the three modes, the beacon and buffered broadcast frames.
  \<^item> \<open>Ath9k_Power\<close>: power modes of \<open>ath9k/hw.c\<close>. The registers each mode change leaves on an
    AR9271; polling leaves the registers alone.
  \<^item> \<open>Htc_Main\<close>: the mac80211 operations of \<open>htc_drv_main.c\<close>. The table of stations on the target stays
    consistent over every order of additions and removals; power save is a reference count; the
    address mask is exact; an error of adding an interface is lost, and a third interface is recorded
    outside its table.
  \<^item> \<open>Htc_Start\<close>: reset, channel change, start, stop, configuration, statistics and the noise-immunity
    work of \<open>htc_drv_main.c\<close>, with the chip reset a parameter. After a stop the driver refuses
    further work; a failed channel change leaves the cleanup timer off; an error of the start is
    returned although the driver runs.
  \<^item> \<open>Ath9k_Calib\<close>: the noise floor calibration of \<open>ath9k/calib.c\<close> with the operations of the AR9002
    family. The partial sort finds the median; the history stays well formed and in the limits of the
    chip over every order of calibrations; the bypass of the maximum under interference is dead.
  \<^item> \<open>Ath9k_Eeprom\<close>: \<open>ath9k/eeprom.c\<close>. Interpolation, target powers, band edges, detector tables and gain
    boundaries, which never leave an array on overlapping curves; the range that overflows a table.
  \<^item> \<open>Ath9k_Eeprom_4k\<close>: \<open>ath9k/eeprom_4k.c\<close>, the map of the AR9271, and the power limit of
    \<open>ath9k/hw.c\<close>. The locale \<open>multi_reader\<close> is what reading the EEPROM relies on, interpreted on the
    stack; a foreign map is converted exactly; the power registers respect the limit; a reduction
    above the limit, a power above 53 half decibels, an unreadable magic number and a channel above
    the last calibrated one go wrong.
  \<^item> \<open>Regd_Common\<close>, \<open>Regd\<close>: the regulatory tables and \<open>regd.c\<close>. Which EEPROM words are accepted,
    radar protection for every request, and the dead or faulty branches of the notifier.

  \<^bold>\<open>Bounds and loops.\<close> Structural loops are \<open>fun\<close>; the receive loop and the stream parser have
  measures; loops that may not end (\<open>pull_tbtt\<close>, \<open>cw_up\<close>) are \<open>partial_function\<close>s into \<open>option\<close>
  and come with theorems that they return, or that they do not. The waits of WMI and of
  HTC take the list of events that arrive before the timeout. The polling loops of the hardware layer
  run for the number of rounds the code computes from its timeout.

  \<^bold>\<open>Concurrency.\<close> Code under a lock and URB callbacks are atomic steps; interleavings are
  sequences of such steps (\<open>hif_step\<close>, \<open>drv_step\<close>, \<open>rx_step\<close>, \<open>sta_step\<close>, and lists of HTC events).

  \<^bold>\<open>Not modelled.\<close> LED, rfkill and Bluetooth coexistence, debug files, registration with mac80211,
  chip reset, the board values of the EEPROM and the calibrations other than the noise floor (the
  hardware layer is a parameter of \<open>Htc_Start\<close>), the EEPROM maps of other chips, the coverage class, and the vendored wireless stack and other drivers of the tree.
\<close>

end
